(* ===== verification/Prelude.thy ===== *)
theory Prelude
  imports Complex_Main "HOL-Library.AList" "HOL-Library.Char_ord" "HOL-Library.List_Lexorder" "HOL-Library.Multiset"
begin

text \<open>
  What every component shares: the Python values the validators inspect, results that
  may be an exception, loops that may raise, dictionaries in insertion order, and the
  contract of a stateful component whose operations keep an invariant and never lower
  a meter.
\<close>

named_theorems py_simps \<open>equations of the Python helpers\<close>
named_theorems res_simps \<open>when a result is a value and when it is an exception\<close>

section \<open>Python values\<close>

text \<open>
  A finite \<open>float\<close> is represented by the rational value of its shortest decimal
  representation (what \<open>str\<close> prints), a finite \<open>Decimal\<close> by its value. Distinct
  floats print differently and in the same order, so comparisons and
  \<open>Decimal(str(x))\<close> are exact; the rounding of float and Decimal sums is not modelled.
\<close>

datatype py_real = Finite rat | Pos_Infinity | Neg_Infinity | Not_A_Number

fun isfinite :: "py_real \<Rightarrow> bool" where
  "isfinite (Finite _) = True"
| "isfinite _ = False"

text \<open>\<open>>\<close> on floats: nothing compares with a nan.\<close>

fun real_greater :: "py_real \<Rightarrow> py_real \<Rightarrow> bool" where
  "real_greater (Finite a) (Finite b) = (b < a)"
| "real_greater Pos_Infinity (Finite b) = True"
| "real_greater Pos_Infinity Neg_Infinity = True"
| "real_greater (Finite a) Neg_Infinity = True"
| "real_greater _ _ = False"

fun real_less :: "py_real \<Rightarrow> py_real \<Rightarrow> bool" where
  "real_less x y = real_greater y x"

fun real_eq :: "py_real \<Rightarrow> py_real \<Rightarrow> bool" where
  "real_eq Not_A_Number _ = False"
| "real_eq x y = (x = y)"

definition real_le :: "py_real \<Rightarrow> py_real \<Rightarrow> bool" where
  "real_le x y \<longleftrightarrow> real_less x y \<or> real_eq x y"

text \<open>\<open>+\<close> on floats, exact on finite ones.\<close>

fun real_add :: "py_real \<Rightarrow> py_real \<Rightarrow> py_real" where
  "real_add (Finite a) (Finite b) = Finite (a + b)"
| "real_add Not_A_Number _ = Not_A_Number"
| "real_add _ Not_A_Number = Not_A_Number"
| "real_add Pos_Infinity Neg_Infinity = Not_A_Number"
| "real_add Neg_Infinity Pos_Infinity = Not_A_Number"
| "real_add Pos_Infinity _ = Pos_Infinity"
| "real_add _ Pos_Infinity = Pos_Infinity"
| "real_add Neg_Infinity _ = Neg_Infinity"
| "real_add _ Neg_Infinity = Neg_Infinity"

instantiation py_real :: plus
begin

definition plus_py_real :: "py_real \<Rightarrow> py_real \<Rightarrow> py_real" where
  "plus_py_real = real_add"

instance ..

end

lemma real_eq_trans: "real_eq x y \<Longrightarrow> real_eq y z \<Longrightarrow> real_eq x z"
  by (cases x) auto

lemma real_le_refl [simp]: "x \<noteq> Not_A_Number \<Longrightarrow> real_le x x"
  by (cases x) (simp_all add: real_le_def)

lemma real_le_Finite [simp]: "real_le (Finite a) (Finite b) \<longleftrightarrow> a \<le> b"
  by (auto simp: real_le_def)

lemma real_le_trans: "real_le x y \<Longrightarrow> real_le y z \<Longrightarrow> real_le x z"
  by (cases x; cases y; cases z) (auto simp: real_le_def)

lemma real_le_add: "real_le (Finite 0) d \<Longrightarrow> x \<noteq> Not_A_Number \<Longrightarrow> x \<noteq> Neg_Infinity \<Longrightarrow> real_le x (x + d)"
  by (cases x; cases d) (simp_all add: real_le_def plus_py_real_def)

datatype py_value =
    PyNone
  | PyBool bool
  | PyInt int
  | PyFloat py_real
  | PyDecimal py_real
  | PyStr string

fun py_opt_int :: "int option \<Rightarrow> py_value" where
  "py_opt_int None = PyNone"
| "py_opt_int (Some n) = PyInt n"

text \<open>
  \<open>str.strip\<close>: characters are code points below 256; these are the ones Python treats
  as white space.
\<close>

definition py_space :: "char \<Rightarrow> bool" where
  "py_space c = (c \<in> {CHR 0x09, CHR 0x0A, CHR 0x0B, CHR 0x0C, CHR 0x0D, CHR 0x1C,
     CHR 0x1D, CHR 0x1E, CHR 0x1F, CHR 0x20, CHR 0x85, CHR 0xA0})"

definition py_strip :: "string \<Rightarrow> string" where
  "py_strip s = rev (dropWhile py_space (rev (dropWhile py_space s)))"

lemma py_strip_Nil_iff [simp]: "py_strip s = [] \<longleftrightarrow> (\<forall>c \<in> set s. py_space c)"
proof -
  have "py_strip s = [] \<longleftrightarrow> (\<forall>c \<in> set (dropWhile py_space s). py_space c)"
    by (simp add: py_strip_def)
  also have "\<dots> \<longleftrightarrow> (\<forall>c \<in> set s. py_space c)"
    by (metis dropWhile_eq_Nil_conv hd_dropWhile hd_in_set set_dropWhileD)
  finally show ?thesis .
qed

lemma py_strip_Nil [simp]: "py_strip [] = []"
  by simp

section \<open>Results that may be an exception\<close>

text \<open>
  A computation that may raise returns a sum, the exception on the left. An operation on
  mutable state returns the result together with the state it leaves behind, because
  several operations of the code write first and raise afterwards.
\<close>

fun bind_res :: "'e + 'a \<Rightarrow> ('a \<Rightarrow> 'e + 'b) \<Rightarrow> 'e + 'b" where
  "bind_res (Inl e) f = Inl e"
| "bind_res (Inr x) f = f x"

lemma bind_res_Inr_iff [res_simps]:
  "bind_res m f = Inr y \<longleftrightarrow> (\<exists>x. m = Inr x \<and> f x = Inr y)"
  by (cases m) auto

lemma bind_res_Inl_iff [res_simps]:
  "bind_res m f = Inl e \<longleftrightarrow> m = Inl e \<or> (\<exists>x. m = Inr x \<and> f x = Inl e)"
  by (cases m) auto

text \<open>A \<open>for\<close> loop whose body may raise: the first exception ends it.\<close>

fun check_all :: "('a \<Rightarrow> 'e + unit) \<Rightarrow> 'a list \<Rightarrow> 'e + unit" where
  "check_all f [] = Inr ()"
| "check_all f (x # xs) = bind_res (f x) (\<lambda>_. check_all f xs)"

lemma check_all_Inr_iff [res_simps]:
  "check_all f xs = Inr u \<longleftrightarrow> (\<forall>x \<in> set xs. f x = Inr ())"
  by (induction xs) (auto simp: res_simps)

lemma check_all_Inl:
  "check_all f xs = Inl e \<longleftrightarrow>
     (\<exists>ys x zs. xs = ys @ x # zs \<and> (\<forall>y \<in> set ys. f y = Inr ()) \<and> f x = Inl e)"
proof (induction xs)
  case Nil
  then show ?case by simp
next
  case (Cons a xs)
  show ?case
  proof (cases "f a")
    case (Inl b)
    then have "check_all f (a # xs) = Inl e \<longleftrightarrow> f a = Inl e"
      by simp
    also have "\<dots> \<longleftrightarrow> (\<exists>ys x zs. a # xs = ys @ x # zs \<and>
        (\<forall>y \<in> set ys. f y = Inr ()) \<and> f x = Inl e)"
      using Inl by (metis (no_types, lifting) append_Nil empty_iff empty_set
          hd_append list.sel(1) list.set_sel(1) sum.distinct(1))
    finally show ?thesis .
  next
    case (Inr u)
    with Cons show ?thesis
      by (auto simp: Cons_eq_append_conv) (metis set_ConsD)+
  qed
qed

lemma check_all_append:
  "check_all f (xs @ ys) = bind_res (check_all f xs) (\<lambda>_. check_all f ys)"
proof (induction xs)
  case (Cons a xs)
  then show ?case by (cases "f a") auto
qed simp

text \<open>A guard: \<open>if bad: raise e\<close>.\<close>

definition raise_if :: "bool \<Rightarrow> 'e \<Rightarrow> 'e + unit" where
  "raise_if b e = (if b then Inl e else Inr ())"

lemma raise_if_simps [simp]:
  "raise_if True e = Inl e" "raise_if False e = Inr ()"
  by (simp_all add: raise_if_def)

lemma raise_if_iff [res_simps]:
  "raise_if b e = Inr u \<longleftrightarrow> \<not> b" "raise_if b e = Inl e' \<longleftrightarrow> b \<and> e' = e"
  by (auto simp: raise_if_def)

text \<open>A sequence of guards before a value: the first that holds raises its exception.\<close>

fun guarding :: "(bool \<times> 'e) list \<Rightarrow> 'a \<Rightarrow> 'e + 'a" where
  "guarding [] v = Inr v"
| "guarding ((bad, e) # gs) v = (if bad then Inl e else guarding gs v)"

lemma guarding_Inr_iff [res_simps]:
  "guarding gs v = Inr w \<longleftrightarrow> w = v \<and> (\<forall>g \<in> set gs. \<not> fst g)"
  by (induction gs) (auto split: if_splits)

lemma guarding_Inl_member: "guarding gs v = Inl e \<Longrightarrow> e \<in> snd ` set gs"
  by (induction gs) (auto split: if_splits)

declare guarding.simps [simp del]

section \<open>Decimal numerals\<close>

text \<open>\<open>str(n)\<close> for a number that is not negative.\<close>

fun decimal :: "nat \<Rightarrow> string" where
  "decimal n = (if n < 10 then [char_of (48 + n)]
     else decimal (n div 10) @ [char_of (48 + n mod 10)])"

declare decimal.simps [simp del]

definition digit_value :: "char \<Rightarrow> nat" where
  "digit_value c = of_char c - 48"

definition numeral_value :: "string \<Rightarrow> nat" where
  "numeral_value s = foldl (\<lambda>n c. 10 * n + digit_value c) 0 s"

lemma digit_value_char [simp]: "n < 10 \<Longrightarrow> digit_value (char_of (48 + n)) = n"
  by (simp add: digit_value_def)

lemma numeral_value_decimal [simp]: "numeral_value (decimal n) = n"
proof (induction n rule: decimal.induct)
  case (1 n)
  then show ?case
    by (subst decimal.simps) (auto simp: numeral_value_def)
qed

lemma decimal_inject [simp]: "decimal m = decimal n \<longleftrightarrow> m = n"
  by (metis numeral_value_decimal)

definition is_digit :: "char \<Rightarrow> bool" where
  "is_digit c = (CHR ''0'' \<le> c \<and> c \<le> CHR ''9'')"

lemma is_digit_char: "(n :: nat) < 10 \<Longrightarrow> is_digit (char_of (48 + n))"
  by (simp add: is_digit_def less_eq_char_def)

lemma decimal_digits: "c \<in> set (decimal n) \<Longrightarrow> is_digit c"
proof (induction n rule: decimal.induct)
  case (1 n)
  then show ?case
    by (subst (asm) (2) decimal.simps) (auto split: if_splits simp: is_digit_char)
qed

lemma decimal_not_Nil [simp]: "decimal n \<noteq> []"
  by (subst decimal.simps) simp

lemma hd_decimal: "0 < n \<Longrightarrow> hd (decimal n) \<noteq> CHR ''0''"
proof (induction n rule: decimal.induct)
  case (1 n)
  show ?case
  proof (cases "n < 10")
    case True
    then have "of_char (char_of (48 + n) :: char) \<noteq> (of_char (CHR ''0'') :: nat)"
      using 1(2) by simp
    then have "char_of (48 + n) \<noteq> CHR ''0''" by metis
    with True show ?thesis by (subst decimal.simps) simp
  next
    case False
    with 1 show ?thesis by (subst decimal.simps) simp
  qed
qed

section \<open>Dictionaries in insertion order\<close>

text \<open>
  A Python \<open>dict\<close> is an association list with distinct keys: \<open>AList.update\<close> overwrites
  in place and appends a new key at the end, \<open>AList.delete\<close> removes a key.
\<close>

type_synonym ('k, 'v) dict = "('k \<times> 'v) list"

abbreviation dict_keys :: "('k, 'v) dict \<Rightarrow> 'k list" where
  "dict_keys d \<equiv> map fst d"

abbreviation dict_values :: "('k, 'v) dict \<Rightarrow> 'v list" where
  "dict_values d \<equiv> map snd d"

abbreviation dict_set :: "'k \<Rightarrow> 'v \<Rightarrow> ('k, 'v) dict \<Rightarrow> ('k, 'v) dict" where
  "dict_set k v d \<equiv> AList.update k v d"

abbreviation dict_del :: "'k \<Rightarrow> ('k, 'v) dict \<Rightarrow> ('k, 'v) dict" where
  "dict_del k d \<equiv> AList.delete k d"

definition dict_get :: "('k, 'v) dict \<Rightarrow> 'k \<Rightarrow> 'v \<Rightarrow> 'v" where
  "dict_get d k v = (case map_of d k of None \<Rightarrow> v | Some x \<Rightarrow> x)"

lemma dict_set_new: "k \<notin> set (dict_keys d) \<Longrightarrow> dict_set k v d = d @ [(k, v)]"
  by (induction d) auto

lemma map_of_dict_set [simp]: "map_of (dict_set k v d) = (map_of d)(k \<mapsto> v)"
  by (rule update_conv')

lemma map_of_dict_del [simp]: "map_of (dict_del k d) = (map_of d)(k := None)"
  by (rule delete_conv')

lemma dict_get_set: "dict_get (dict_set k v d) j w = (if j = k then v else dict_get d j w)"
  by (simp add: dict_get_def)

lemma distinct_dict_set [intro]:
  "distinct (dict_keys d) \<Longrightarrow> distinct (dict_keys (dict_set k v d))"
  by (rule distinct_update)

lemma distinct_dict_del [intro]:
  "distinct (dict_keys d) \<Longrightarrow> distinct (dict_keys (dict_del k d))"
  by (rule distinct_delete)

lemma keys_dict_set [simp]: "fst ` set (dict_set k v d) = insert k (fst ` set d)"
  by (induction d) auto

lemma keys_dict_del [simp]: "fst ` set (dict_del k d) = fst ` set d - {k}"
  by (induction d) auto

lemma set_dict_del: "distinct (dict_keys d) \<Longrightarrow> set (dict_del k d) = {p \<in> set d. fst p \<noteq> k}"
  by (auto simp: AList.delete_eq)

lemma set_dict_set_subset: "set (dict_set k v d) \<subseteq> insert (k, v) (set d)"
  by (induction d) auto

lemma map_of_None_keys: "map_of d k = None \<longleftrightarrow> k \<notin> fst ` set d"
  by (simp add: map_of_eq_None_iff)

text \<open>Sums over the values of a dictionary, when an entry is removed or replaced.\<close>

definition dict_sum :: "('v \<Rightarrow> 'a::comm_monoid_add) \<Rightarrow> ('k, 'v) dict \<Rightarrow> 'a" where
  "dict_sum f d = sum_list (map (\<lambda>p. f (snd p)) d)"

lemma dict_sum_simps [simp]:
  "dict_sum f [] = 0"
  "dict_sum f (p # d) = f (snd p) + dict_sum f d"
  "dict_sum f (d @ e) = dict_sum f d + dict_sum f e"
  by (simp_all add: dict_sum_def)

lemma dict_sum_del:
  fixes f :: "'v \<Rightarrow> 'a::ab_group_add"
  assumes "distinct (dict_keys d)" "map_of d k = Some v"
  shows "dict_sum f (dict_del k d) = dict_sum f d - f v"
  using assms
proof (induction d)
  case (Cons p d)
  show ?case
  proof (cases "fst p = k")
    case True
    with Cons.prems have "dict_del k d = d"
      by (auto intro!: delete_idem)
    with True Cons.prems show ?thesis by (cases p) auto
  next
    case False
    with Cons show ?thesis by (cases p) auto
  qed
qed simp

lemma dict_sum_set:
  fixes f :: "'v \<Rightarrow> 'a::ab_group_add"
  assumes "distinct (dict_keys d)"
  shows "dict_sum f (dict_set k v d) =
    dict_sum f d + f v - (case map_of d k of None \<Rightarrow> 0 | Some w \<Rightarrow> f w)"
  using assms
proof (induction d)
  case (Cons p d)
  show ?case
  proof (cases "fst p = k")
    case True
    with Cons.prems show ?thesis by (cases p) auto
  next
    case False
    with Cons show ?thesis by (cases p) (auto simp: algebra_simps)
  qed
qed simp

lemma dict_sum_nonneg:
  fixes f :: "'v \<Rightarrow> 'a::ordered_comm_monoid_add"
  shows "(\<And>k v. (k, v) \<in> set d \<Longrightarrow> 0 \<le> f v) \<Longrightarrow> 0 \<le> dict_sum f d"
  unfolding dict_sum_def by (rule sum_list_nonneg) auto

lemma dict_sum_mono:
  fixes f :: "'v \<Rightarrow> 'a::ordered_comm_monoid_add"
  shows "(\<And>k v. (k, v) \<in> set d \<Longrightarrow> f v \<le> g v) \<Longrightarrow> dict_sum f d \<le> dict_sum g d"
  unfolding dict_sum_def by (rule sum_list_mono) auto

section \<open>The contract of a stateful component\<close>

text \<open>
  The operations of a component are values of a type; running one yields the next state,
  whether or not the call raised. The contract: every operation keeps the invariant.
\<close>

locale component =
  fixes step :: "'s \<Rightarrow> 'op \<Rightarrow> 's"
    and inv :: "'s \<Rightarrow> bool"
  assumes step_inv: "inv s \<Longrightarrow> inv (step s oper)"
begin

lemma run_inv: "inv s \<Longrightarrow> inv (foldl step s ops)"
  by (induction ops arbitrary: s) (auto intro: step_inv)

end

text \<open>A component with a meter that no operation lowers.\<close>

locale metered_component = component step inv
  for step :: "'s \<Rightarrow> 'op \<Rightarrow> 's" and inv :: "'s \<Rightarrow> bool" +
  fixes meter :: "'s \<Rightarrow> 'm::preorder"
  assumes step_meter: "inv s \<Longrightarrow> meter s \<le> meter (step s oper)"
begin

lemma run_meter: "inv s \<Longrightarrow> meter s \<le> meter (foldl step s ops)"
proof (induction ops arbitrary: s)
  case Nil
  then show ?case by simp
next
  case (Cons oper ops)
  from Cons.prems have "meter s \<le> meter (step s oper)" by (rule step_meter)
  also from Cons have "\<dots> \<le> meter (foldl step (step s oper) ops)" by (simp add: step_inv)
  finally show ?case by simp
qed

end

end
