(* ===== verification/Budget.thy ===== *)
theory Budget
  imports Prelude
begin

text \<open>
  \<open>core/budget.py\<close>: the cumulative session budget (\<open>Budget\<close>), the validated hard
  limits (\<open>SessionBudgetPolicy\<close>) and the reserve / settle / release / mark-uncertain
  ledger of provider calls (\<open>SessionBudgetState\<close>). The lock of each object makes an
  operation atomic, so an operation is one function from state to state. Amounts of
  every dimension are rationals, token counts and requests being integral ones.
\<close>

section \<open>Exceptions\<close>

datatype reservable = Requests | Input_Tokens | Output_Tokens | Total_Tokens | Cost_Usd

datatype budget_dimension = Reservable reservable | Wall_Seconds

datatype budget_stage = At_Reservation | At_Settlement | At_Restore

datatype reservation_status = Reserved | Settled | Released | Uncertain

datatype unknown_usage_policy = Consume_Reservation | Reject_Unknown

datatype budget_error =
    Type_Error string
  | Value_Error string
  | Missing_Reservation string
  | Session_Tokens_Exhausted int int
  | Session_Time_Exhausted
  | Session_Budget_Exceeded budget_dimension rat rat "string option" budget_stage
  | Budget_Reservation_Conflict string "reservation_status option"
  | Budget_Usage_Uncertain string budget_stage "string list"

type_synonym 'a checked = "budget_error + 'a"

section \<open>The session budget: seconds and cumulative tokens\<close>

record budget =
  max_seconds :: "rat option"
  max_tokens :: "int option"
  b_started_at :: rat
  tokens_used :: int
  execution_tokens :: "(string, int) dict"

definition check_token_limit :: "budget \<Rightarrow> unit checked" where
  "check_token_limit b = (case max_tokens b of
     None \<Rightarrow> Inr ()
   | Some m \<Rightarrow> raise_if (m < tokens_used b) (Session_Tokens_Exhausted (tokens_used b) m))"

definition budget_check :: "rat \<Rightarrow> budget \<Rightarrow> unit checked" where
  "budget_check monotonic b = bind_res (check_token_limit b) (\<lambda>_.
     case max_seconds b of
       None \<Rightarrow> Inr ()
     | Some s \<Rightarrow>
         if s \<le> 0 then Inl Session_Time_Exhausted
         else raise_if (s < monotonic - b_started_at b) Session_Time_Exhausted)"

text \<open>The usage is recorded before the ceiling is enforced: the state moves even when it raises.\<close>

definition add_tokens :: "int \<Rightarrow> budget \<Rightarrow> unit checked \<times> budget" where
  "add_tokens tokens b =
     (if tokens < 0 then (Inl (Value_Error ''Token usage cannot be negative.''), b)
      else let b' = b\<lparr>tokens_used := tokens_used b + tokens\<rparr> in (check_token_limit b', b'))"

definition account_execution_tokens :: "string \<Rightarrow> int \<Rightarrow> budget \<Rightarrow> unit checked \<times> budget" where
  "account_execution_tokens execution_id total_tokens b =
     (if total_tokens < 0 then (Inl (Value_Error ''Token usage cannot be negative.''), b)
      else
        let previous = dict_get (execution_tokens b) execution_id 0;
            b' = b\<lparr>tokens_used := tokens_used b + max 0 (total_tokens - previous),
                   execution_tokens :=
                     dict_set execution_id (max previous total_tokens) (execution_tokens b)\<rparr>
        in (check_token_limit b', b'))"

definition remaining_tokens :: "budget \<Rightarrow> int option" where
  "remaining_tokens b = map_option (\<lambda>m. max 0 (m - tokens_used b)) (max_tokens b)"

section \<open>Validators of the run policy\<close>

definition validate_limit :: "string \<Rightarrow> py_value \<Rightarrow> unit checked" where
  "validate_limit name value = (case value of
     PyNone \<Rightarrow> Inr ()
   | PyInt n \<Rightarrow> raise_if (n < 0) (Value_Error (name @ '' cannot be negative.''))
   | _ \<Rightarrow> Inl (Type_Error (name @ '' must be an integer or None.'')))"

definition validate_seconds :: "py_value \<Rightarrow> unit checked" where
  "validate_seconds value = (case value of
     PyNone \<Rightarrow> Inr ()
   | PyInt n \<Rightarrow> raise_if (n < 0) (Value_Error ''max_wall_seconds cannot be negative.'')
   | PyFloat (Finite q) \<Rightarrow>
       raise_if (q < 0) (Value_Error ''max_wall_seconds cannot be negative.'')
   | PyFloat _ \<Rightarrow> Inl (Value_Error ''max_wall_seconds must be finite.'')
   | _ \<Rightarrow> Inl (Type_Error ''max_wall_seconds must be a number or None.''))"

definition money :: "string \<Rightarrow> py_value \<Rightarrow> rat checked" where
  "money name value =
     (let finite = (\<lambda>q. if q < 0 then Inl (Value_Error (name @ '' cannot be negative.''))
                        else Inr q)
      in case value of
           PyInt n \<Rightarrow> finite (of_int n)
         | PyFloat (Finite q) \<Rightarrow> finite q
         | PyDecimal (Finite q) \<Rightarrow> finite q
         | PyFloat _ \<Rightarrow> Inl (Value_Error (name @ '' must be finite.''))
         | PyDecimal _ \<Rightarrow> Inl (Value_Error (name @ '' must be finite.''))
         | _ \<Rightarrow> Inl (Type_Error (name @ '' must be a Decimal, int, or float.'')))"

section \<open>The run policy\<close>

text \<open>
  The constructor's arguments, with the types of their annotations; a money field may be
  a \<open>Decimal\<close>, an \<open>int\<close> or a \<open>float\<close>, so it is a Python value until \<open>money\<close> converts it.
\<close>

record policy_arguments =
  arg_max_requests :: "int option"
  arg_max_input_tokens :: "int option"
  arg_max_output_tokens :: "int option"
  arg_max_total_tokens :: "int option"
  arg_max_cost_usd :: "py_value option"
  arg_max_wall_seconds :: "py_real option"
  arg_protected_requests :: int
  arg_protected_input_tokens :: int
  arg_protected_output_tokens :: int
  arg_protected_total_tokens :: int
  arg_protected_cost_usd :: py_value
  arg_unknown_usage_policy :: string

record session_budget_policy =
  max_requests :: "int option"
  max_input_tokens :: "int option"
  max_output_tokens :: "int option"
  max_total_tokens :: "int option"
  max_cost_usd :: "rat option"
  max_wall_seconds :: "rat option"
  protected_requests :: int
  protected_input_tokens :: int
  protected_output_tokens :: int
  protected_total_tokens :: int
  protected_cost_usd :: rat
  unknown_usage :: unknown_usage_policy

definition opt_seconds :: "py_real option \<Rightarrow> py_value" where
  "opt_seconds s = (case s of None \<Rightarrow> PyNone | Some x \<Rightarrow> PyFloat x)"

definition finite_value :: "py_real \<Rightarrow> rat" where
  "finite_value x = (case x of Finite q \<Rightarrow> q | _ \<Rightarrow> 0)"

definition protected_within_cap :: "string \<times> rat \<times> rat option \<Rightarrow> unit checked" where
  "protected_within_cap pair = (case pair of (dimension, protected, maximum) \<Rightarrow>
     bind_res
       (raise_if (protected \<noteq> 0 \<and> maximum = None)
          (Value_Error (''protected_'' @ dimension @ '' requires a max_'' @ dimension @ '' limit.'')))
       (\<lambda>_. raise_if (case maximum of None \<Rightarrow> False | Some m \<Rightarrow> m < protected)
          (Value_Error (''protected_'' @ dimension @ '' cannot exceed max_'' @ dimension @ ''.''))))"

definition policy_limits :: "policy_arguments \<Rightarrow> (string \<times> py_value) list" where
  "policy_limits a =
     [(''max_requests'', py_opt_int (arg_max_requests a)),
      (''max_input_tokens'', py_opt_int (arg_max_input_tokens a)),
      (''max_output_tokens'', py_opt_int (arg_max_output_tokens a)),
      (''max_total_tokens'', py_opt_int (arg_max_total_tokens a)),
      (''protected_requests'', PyInt (arg_protected_requests a)),
      (''protected_input_tokens'', PyInt (arg_protected_input_tokens a)),
      (''protected_output_tokens'', PyInt (arg_protected_output_tokens a)),
      (''protected_total_tokens'', PyInt (arg_protected_total_tokens a))]"

definition policy_pairs ::
  "policy_arguments \<Rightarrow> rat \<Rightarrow> rat option \<Rightarrow> (string \<times> rat \<times> rat option) list" where
  "policy_pairs a protected_cost max_cost =
     [(''requests'', of_int (arg_protected_requests a), map_option of_int (arg_max_requests a)),
      (''input_tokens'', of_int (arg_protected_input_tokens a),
         map_option of_int (arg_max_input_tokens a)),
      (''output_tokens'', of_int (arg_protected_output_tokens a),
         map_option of_int (arg_max_output_tokens a)),
      (''total_tokens'', of_int (arg_protected_total_tokens a),
         map_option of_int (arg_max_total_tokens a)),
      (''cost_usd'', protected_cost, max_cost)]"

definition policy_of ::
  "policy_arguments \<Rightarrow> rat option \<Rightarrow> rat \<Rightarrow> unknown_usage_policy \<Rightarrow> session_budget_policy" where
  "policy_of a max_cost protected_cost usage =
     \<lparr>max_requests = arg_max_requests a,
      max_input_tokens = arg_max_input_tokens a,
      max_output_tokens = arg_max_output_tokens a,
      max_total_tokens = arg_max_total_tokens a,
      max_cost_usd = max_cost,
      max_wall_seconds = map_option finite_value (arg_max_wall_seconds a),
      protected_requests = arg_protected_requests a,
      protected_input_tokens = arg_protected_input_tokens a,
      protected_output_tokens = arg_protected_output_tokens a,
      protected_total_tokens = arg_protected_total_tokens a,
      protected_cost_usd = protected_cost,
      unknown_usage = usage\<rparr>"

definition unknown_usage_of :: "string \<Rightarrow> unknown_usage_policy checked" where
  "unknown_usage_of s =
     (if s = ''consume_reservation'' then Inr Consume_Reservation
      else if s = ''reject'' then Inr Reject_Unknown
      else Inl (Value_Error
        ''unknown_usage_policy must be 'consume_reservation' or 'reject'.''))"

definition session_budget_policy_init :: "policy_arguments \<Rightarrow> session_budget_policy checked" where
  "session_budget_policy_init a =
     bind_res (check_all (\<lambda>(name, value). validate_limit name value) (policy_limits a)) (\<lambda>_.
     bind_res (validate_seconds (opt_seconds (arg_max_wall_seconds a))) (\<lambda>_.
     bind_res (case arg_max_cost_usd a of
         None \<Rightarrow> Inr None
       | Some v \<Rightarrow> map_sum id Some (money ''max_cost_usd'' v)) (\<lambda>max_cost.
     bind_res (money ''protected_cost_usd'' (arg_protected_cost_usd a)) (\<lambda>protected_cost.
     bind_res (unknown_usage_of (arg_unknown_usage_policy a)) (\<lambda>usage.
     bind_res (check_all protected_within_cap (policy_pairs a protected_cost max_cost)) (\<lambda>_.
     Inr (policy_of a max_cost protected_cost usage)))))))"

section \<open>Reservations and the state of a run\<close>

record budget_reservation =
  call_id :: string
  input_tokens :: int
  output_tokens :: int
  total_tokens :: int
  cost_usd :: rat
  protected :: bool
  status :: reservation_status
  usage_known :: "bool option"

record session_budget_state =
  policy :: session_budget_policy
  started_at :: rat
  requests_used :: int
  input_tokens_used :: int
  output_tokens_used :: int
  total_tokens_used :: int
  cost_usd_used :: rat
  active :: "(string, budget_reservation) dict"
  completed :: "(string, budget_reservation) dict"

definition session_budget_state_init ::
  "session_budget_policy \<Rightarrow> py_real \<Rightarrow> int \<Rightarrow> int \<Rightarrow> int \<Rightarrow> int \<Rightarrow> py_value \<Rightarrow>
   session_budget_state checked" where
  "session_budget_state_init pol start requests inputs outputs totals cost =
     bind_res (raise_if (\<not> isfinite start) (Value_Error ''started_at must be finite.'')) (\<lambda>_.
     bind_res (check_all (\<lambda>(name, value). validate_limit name value)
       [(''requests_used'', PyInt requests), (''input_tokens_used'', PyInt inputs),
        (''output_tokens_used'', PyInt outputs), (''total_tokens_used'', PyInt totals)]) (\<lambda>_.
     bind_res (money ''cost_usd_used'' cost) (\<lambda>c.
     Inr \<lparr>policy = pol, started_at = finite_value start, requests_used = requests,
          input_tokens_used = inputs, output_tokens_used = outputs, total_tokens_used = totals,
          cost_usd_used = c, active = [], completed = []\<rparr>)))"

subsection \<open>Amounts by dimension\<close>

fun reservable_value :: "budget_reservation \<Rightarrow> reservable \<Rightarrow> rat" where
  "reservable_value r Requests = 1"
| "reservable_value r Input_Tokens = of_int (input_tokens r)"
| "reservable_value r Output_Tokens = of_int (output_tokens r)"
| "reservable_value r Total_Tokens = of_int (total_tokens r)"
| "reservable_value r Cost_Usd = cost_usd r"

fun reservation_value :: "budget_reservation \<Rightarrow> budget_dimension \<Rightarrow> rat checked" where
  "reservation_value r (Reservable d) = Inr (reservable_value r d)"
| "reservation_value r Wall_Seconds =
     Inl (Value_Error ''wall_seconds does not have a reservation value.'')"

text \<open>Used, active, maximum and protected amount of a reservable dimension.\<close>

fun reservable_values ::
  "session_budget_state \<Rightarrow> reservable \<Rightarrow> rat \<times> rat \<times> rat option \<times> rat" where
  "reservable_values st Requests =
     (of_int (requests_used st), of_nat (length (active st)),
      map_option of_int (max_requests (policy st)), of_int (protected_requests (policy st)))"
| "reservable_values st Input_Tokens =
     (of_int (input_tokens_used st),
      dict_sum (\<lambda>item. of_int (input_tokens item)) (active st),
      map_option of_int (max_input_tokens (policy st)),
      of_int (protected_input_tokens (policy st)))"
| "reservable_values st Output_Tokens =
     (of_int (output_tokens_used st),
      dict_sum (\<lambda>item. of_int (output_tokens item)) (active st),
      map_option of_int (max_output_tokens (policy st)),
      of_int (protected_output_tokens (policy st)))"
| "reservable_values st Total_Tokens =
     (of_int (total_tokens_used st),
      dict_sum (\<lambda>item. of_int (total_tokens item)) (active st),
      map_option of_int (max_total_tokens (policy st)),
      of_int (protected_total_tokens (policy st)))"
| "reservable_values st Cost_Usd =
     (cost_usd_used st, dict_sum cost_usd (active st),
      max_cost_usd (policy st), protected_cost_usd (policy st))"

fun dimension_values ::
  "session_budget_state \<Rightarrow> budget_dimension \<Rightarrow> (rat \<times> rat \<times> rat option \<times> rat) checked" where
  "dimension_values st (Reservable d) = Inr (reservable_values st d)"
| "dimension_values st Wall_Seconds =
     Inl (Value_Error ''wall_seconds does not have a reservable counter.'')"

definition nonprotected_values :: "session_budget_state \<Rightarrow> reservable \<Rightarrow> rat \<times> rat" where
  "nonprotected_values st d = (case reservable_values st d of (used, _, _, _) \<Rightarrow>
     let protected_used = dict_sum (\<lambda>item. reservable_value item d)
           (filter (\<lambda>(_, item). protected item \<and> status item \<in> {Settled, Uncertain})
              (completed st));
         act = dict_sum (\<lambda>item. reservable_value item d)
           (filter (\<lambda>(_, item). \<not> protected item) (active st))
     in (used - protected_used, act))"

definition reservable_dimensions :: "reservable list" where
  "reservable_dimensions = [Requests, Input_Tokens, Output_Tokens, Total_Tokens, Cost_Usd]"

subsection \<open>Enforcement\<close>

definition projected_amounts ::
  "session_budget_state \<Rightarrow> budget_reservation \<Rightarrow> (reservable \<times> rat) list" where
  "projected_amounts st r =
     [(Requests, of_int (requests_used st) + of_nat (length (active st)) + 1),
      (Input_Tokens, of_int (input_tokens_used st)
         + dict_sum (\<lambda>item. of_int (input_tokens item)) (active st) + of_int (input_tokens r)),
      (Output_Tokens, of_int (output_tokens_used st)
         + dict_sum (\<lambda>item. of_int (output_tokens item)) (active st) + of_int (output_tokens r)),
      (Total_Tokens, of_int (total_tokens_used st)
         + dict_sum (\<lambda>item. of_int (total_tokens item)) (active st) + of_int (total_tokens r)),
      (Cost_Usd, cost_usd_used st + dict_sum cost_usd (active st) + cost_usd r)]"

definition nonprotected_projected ::
  "session_budget_state \<Rightarrow> budget_reservation \<Rightarrow> reservable \<Rightarrow> rat" where
  "nonprotected_projected st r d = (case nonprotected_values st d of (used, act) \<Rightarrow>
     used + act + (if \<not> protected r then reservable_value r d else 0))"

definition enforce_dimension ::
  "session_budget_state \<Rightarrow> (reservable \<Rightarrow> rat) \<Rightarrow> bool \<Rightarrow> string \<Rightarrow> reservable \<times> rat \<Rightarrow>
   unit checked" where
  "enforce_dimension st nonprotected_attempted prot cid item = (case item of (d, attempted) \<Rightarrow>
     case reservable_values st d of (_, _, maximum, protected_amount) \<Rightarrow>
     case maximum of
       None \<Rightarrow> Inr ()
     | Some m \<Rightarrow>
         if m < attempted then
           Inl (Session_Budget_Exceeded (Reservable d) m attempted (Some cid) At_Reservation)
         else if \<not> prot \<and> m - protected_amount < nonprotected_attempted d then
           Inl (Session_Budget_Exceeded (Reservable d) (m - protected_amount)
             (nonprotected_attempted d) (Some cid) At_Reservation)
         else Inr ())"

definition enforce ::
  "session_budget_state \<Rightarrow> (reservable \<times> rat) list \<Rightarrow> (reservable \<Rightarrow> rat) \<Rightarrow> bool \<Rightarrow> string \<Rightarrow>
   unit checked" where
  "enforce st projected nonprotected prot cid =
     check_all (enforce_dimension st nonprotected prot cid) projected"

definition enforce_used_dimension ::
  "session_budget_state \<Rightarrow> string \<Rightarrow> reservable \<Rightarrow> unit checked" where
  "enforce_used_dimension st cid d =
     (case reservable_values st d of (used, _, maximum, protected_amount) \<Rightarrow>
     case maximum of
       None \<Rightarrow> Inr ()
     | Some m \<Rightarrow>
         if m < used then
           Inl (Session_Budget_Exceeded (Reservable d) m used (Some cid) At_Settlement)
         else (case nonprotected_values st d of (np_used, np_active) \<Rightarrow>
           if m - protected_amount < np_used + np_active then
             Inl (Session_Budget_Exceeded (Reservable d) (m - protected_amount)
               (np_used + np_active) (Some cid) At_Settlement)
           else Inr ()))"

definition enforce_used :: "session_budget_state \<Rightarrow> string \<Rightarrow> unit checked" where
  "enforce_used st cid = check_all (enforce_used_dimension st cid) reservable_dimensions"

definition check_wall_time ::
  "rat \<Rightarrow> py_real option \<Rightarrow> session_budget_state \<Rightarrow> unit checked" where
  "check_wall_time monotonic now st =
     (let current = (case now of None \<Rightarrow> Finite monotonic | Some t \<Rightarrow> t) in
      bind_res (raise_if (\<not> isfinite current) (Value_Error ''now must be finite.'')) (\<lambda>_.
      let elapsed = max 0 (finite_value current - started_at st) in
      case max_wall_seconds (policy st) of
        None \<Rightarrow> Inr ()
      | Some limit \<Rightarrow> raise_if (limit < elapsed)
          (Session_Budget_Exceeded Wall_Seconds limit elapsed None At_Reservation)))"

subsection \<open>Operations\<close>

definition requested_reservation ::
  "rat \<Rightarrow> string \<Rightarrow> int \<Rightarrow> int \<Rightarrow> int option \<Rightarrow> py_value option \<Rightarrow> bool \<Rightarrow> py_real option \<Rightarrow>
   session_budget_state \<Rightarrow> budget_reservation checked" where
  "requested_reservation monotonic cid inputs outputs totals cost prot now st =
     bind_res (raise_if (py_strip cid = []) (Value_Error ''call_id cannot be empty.'')) (\<lambda>_.
     bind_res (validate_limit ''input_tokens'' (PyInt inputs)) (\<lambda>_.
     bind_res (validate_limit ''output_tokens'' (PyInt outputs)) (\<lambda>_.
     let tot = (case totals of None \<Rightarrow> inputs + outputs | Some t \<Rightarrow> t) in
     bind_res (validate_limit ''total_tokens'' (PyInt tot)) (\<lambda>_.
     bind_res (raise_if (tot < inputs + outputs)
       (Value_Error ''total_tokens cannot be less than input_tokens + output_tokens.'')) (\<lambda>_.
     bind_res (case cost of
         None \<Rightarrow> if max_cost_usd (policy st) \<noteq> None
                 then Inl (Budget_Usage_Uncertain cid At_Reservation [''cost_usd''])
                 else Inr 0
       | Some v \<Rightarrow> money ''cost_usd'' v) (\<lambda>c.
     bind_res (check_wall_time monotonic now st) (\<lambda>_.
     bind_res (raise_if (cid \<in> set (dict_keys (active st)) \<or>
                         cid \<in> set (dict_keys (completed st)))
       (Budget_Reservation_Conflict cid None)) (\<lambda>_.
     Inr \<lparr>call_id = cid, input_tokens = inputs, output_tokens = outputs,
          total_tokens = tot, cost_usd = c, protected = prot, status = Reserved,
          usage_known = None\<rparr>))))))))"

definition reserve ::
  "rat \<Rightarrow> string \<Rightarrow> int \<Rightarrow> int \<Rightarrow> int option \<Rightarrow> py_value option \<Rightarrow> bool \<Rightarrow> py_real option \<Rightarrow>
   session_budget_state \<Rightarrow> budget_reservation checked \<times> session_budget_state" where
  "reserve monotonic cid inputs outputs totals cost prot now st =
     (case bind_res (requested_reservation monotonic cid inputs outputs totals cost prot now st)
          (\<lambda>reservation.
           bind_res (enforce st (projected_amounts st reservation)
                       (nonprotected_projected st reservation) prot cid) (\<lambda>_. Inr reservation))
      of Inl e \<Rightarrow> (Inl e, st)
       | Inr r \<Rightarrow> (Inr r, st\<lparr>active := dict_set cid r (active st)\<rparr>))"

definition get_active :: "session_budget_state \<Rightarrow> string \<Rightarrow> budget_reservation checked" where
  "get_active st cid = (case map_of (active st) cid of
     Some r \<Rightarrow> Inr r
   | None \<Rightarrow> (case map_of (completed st) cid of
       Some r \<Rightarrow> Inl (Budget_Reservation_Conflict cid (Some (status r)))
     | None \<Rightarrow> Inl (Missing_Reservation cid)))"

definition usage_or_reserved :: "string \<Rightarrow> int option \<Rightarrow> int \<Rightarrow> int checked" where
  "usage_or_reserved name value reserved = (case value of
     None \<Rightarrow> Inr reserved
   | Some v \<Rightarrow> bind_res (validate_limit name (PyInt v)) (\<lambda>_. Inr v))"

definition consume :: "budget_reservation \<Rightarrow> session_budget_state \<Rightarrow> session_budget_state" where
  "consume r st = st\<lparr>
     requests_used := requests_used st + 1,
     input_tokens_used := input_tokens_used st + input_tokens r,
     output_tokens_used := output_tokens_used st + output_tokens r,
     total_tokens_used := total_tokens_used st + total_tokens r,
     cost_usd_used := cost_usd_used st + cost_usd r\<rparr>"

text \<open>\<open>del self._active[call_id]\<close> followed by \<open>self._completed[call_id] = r\<close>.\<close>

definition finish_call ::
  "string \<Rightarrow> budget_reservation \<Rightarrow> session_budget_state \<Rightarrow> session_budget_state" where
  "finish_call cid r st = st\<lparr>active := dict_del cid (active st),
                          completed := dict_set cid r (completed st)\<rparr>"

definition missing_usage ::
  "int option \<Rightarrow> int option \<Rightarrow> int option \<Rightarrow> py_value option \<Rightarrow> string list" where
  "missing_usage inputs outputs totals cost =
     map fst (filter snd
       [(''input_tokens'', inputs = None), (''output_tokens'', outputs = None),
        (''total_tokens'', totals = None), (''cost_usd'', cost = None)])"

definition settled_reservation ::
  "string \<Rightarrow> int option \<Rightarrow> int option \<Rightarrow> int option \<Rightarrow> py_value option \<Rightarrow>
   session_budget_state \<Rightarrow> budget_reservation checked" where
  "settled_reservation cid inputs outputs totals cost st =
     bind_res (get_active st cid) (\<lambda>reserved.
     let missing = missing_usage inputs outputs totals cost in
     bind_res (raise_if (missing \<noteq> [] \<and> unknown_usage (policy st) = Reject_Unknown)
       (Budget_Usage_Uncertain cid At_Settlement missing)) (\<lambda>_.
     bind_res (usage_or_reserved ''input_tokens'' inputs (input_tokens reserved)) (\<lambda>i.
     bind_res (usage_or_reserved ''output_tokens'' outputs (output_tokens reserved)) (\<lambda>out.
     bind_res (usage_or_reserved ''total_tokens'' totals (total_tokens reserved)) (\<lambda>t.
     bind_res (raise_if (t < i + out)
       (Value_Error ''total_tokens cannot be less than input_tokens + output_tokens.'')) (\<lambda>_.
     bind_res (case cost of None \<Rightarrow> Inr (cost_usd reserved)
                          | Some v \<Rightarrow> money ''cost_usd'' v) (\<lambda>c.
     Inr \<lparr>call_id = cid, input_tokens = i, output_tokens = out, total_tokens = t,
          cost_usd = c, protected = protected reserved, status = Settled,
          usage_known = Some (inputs \<noteq> None \<and> outputs \<noteq> None \<and> totals \<noteq> None
                              \<and> cost \<noteq> None)\<rparr>)))))))"

definition settle ::
  "string \<Rightarrow> int option \<Rightarrow> int option \<Rightarrow> int option \<Rightarrow> py_value option \<Rightarrow>
   session_budget_state \<Rightarrow> budget_reservation checked \<times> session_budget_state" where
  "settle cid inputs outputs totals cost st =
     (case settled_reservation cid inputs outputs totals cost st of
        Inl e \<Rightarrow> (Inl e, st)
      | Inr settled \<Rightarrow>
          let st' = finish_call cid settled (consume settled st)
          in (bind_res (enforce_used st' cid) (\<lambda>_. Inr settled), st'))"

definition release ::
  "string \<Rightarrow> session_budget_state \<Rightarrow> budget_reservation checked \<times> session_budget_state" where
  "release cid st = (case get_active st cid of
     Inl e \<Rightarrow> (Inl e, st)
   | Inr reserved \<Rightarrow>
       let released = reserved\<lparr>status := Released, usage_known := Some False\<rparr>
       in (Inr released, finish_call cid released st))"

definition mark_uncertain ::
  "string \<Rightarrow> session_budget_state \<Rightarrow> budget_reservation checked \<times> session_budget_state" where
  "mark_uncertain cid st = (case get_active st cid of
     Inl e \<Rightarrow> (Inl e, st)
   | Inr reserved \<Rightarrow>
       let uncertain = reserved\<lparr>status := Uncertain, usage_known := Some False\<rparr>
       in (Inr uncertain, finish_call cid uncertain (consume uncertain st)))"

definition reservation_of :: "session_budget_state \<Rightarrow> string \<Rightarrow> budget_reservation option" where
  "reservation_of st cid = (case map_of (active st) cid of
     Some r \<Rightarrow> Some r
   | None \<Rightarrow> map_of (completed st) cid)"

definition active_reservations :: "session_budget_state \<Rightarrow> budget_reservation list" where
  "active_reservations st = dict_values (active st)"

fun remaining_capacity ::
  "rat \<Rightarrow> session_budget_state \<Rightarrow> budget_dimension \<Rightarrow> bool \<Rightarrow> rat option" where
  "remaining_capacity monotonic st Wall_Seconds prot =
     map_option (\<lambda>limit. max 0 (limit - max 0 (monotonic - started_at st)))
       (max_wall_seconds (policy st))"
| "remaining_capacity monotonic st (Reservable d) prot =
     (case reservable_values st d of (used, act, maximum, protected_amount) \<Rightarrow>
      case maximum of
        None \<Rightarrow> None
      | Some m \<Rightarrow>
          let total_remaining = m - used - act in
          if prot then Some (max 0 total_remaining)
          else (case nonprotected_values st d of (np_used, np_active) \<Rightarrow>
            Some (max 0 (min total_remaining (m - protected_amount - np_used - np_active)))))"

section \<open>One vocabulary for the dimensions\<close>

text \<open>
  The code spells each dimension out; the lemmas of this section restate the spelled-out
  definitions over four functions of a dimension: what is used, what is in flight, the
  cap and the share of the cap that only protected work may spend.
\<close>

definition used_amount :: "session_budget_state \<Rightarrow> reservable \<Rightarrow> rat" where
  "used_amount st d = fst (reservable_values st d)"

definition cap_of :: "session_budget_state \<Rightarrow> reservable \<Rightarrow> rat option" where
  "cap_of st d = fst (snd (snd (reservable_values st d)))"

definition share_of :: "session_budget_state \<Rightarrow> reservable \<Rightarrow> rat" where
  "share_of st d = snd (snd (snd (reservable_values st d)))"

definition active_amount :: "session_budget_state \<Rightarrow> reservable \<Rightarrow> rat" where
  "active_amount st d = dict_sum (\<lambda>r. reservable_value r d) (active st)"

definition ordinary :: "reservable \<Rightarrow> budget_reservation \<Rightarrow> rat" where
  "ordinary d r = (if \<not> protected r then reservable_value r d else 0)"

definition protected_spent :: "reservable \<Rightarrow> budget_reservation \<Rightarrow> rat" where
  "protected_spent d r =
     (if protected r \<and> status r \<in> {Settled, Uncertain} then reservable_value r d else 0)"

definition ordinary_used :: "session_budget_state \<Rightarrow> reservable \<Rightarrow> rat" where
  "ordinary_used st d = used_amount st d - dict_sum (protected_spent d) (completed st)"

definition ordinary_active :: "session_budget_state \<Rightarrow> reservable \<Rightarrow> rat" where
  "ordinary_active st d = dict_sum (ordinary d) (active st)"

lemma reservable_values_eq:
  "reservable_values st d = (used_amount st d, active_amount st d, cap_of st d, share_of st d)"
proof -
  have "of_nat (length ps) = dict_sum (\<lambda>_. 1 :: rat) ps" for ps :: "(string, budget_reservation) dict"
    by (induction ps) auto
  then show ?thesis
    by (cases d) (auto simp: used_amount_def cap_of_def share_of_def active_amount_def)
qed

lemma dict_sum_filter:
  "dict_sum f (filter (\<lambda>(k, v). P v) d) = dict_sum (\<lambda>v. if P v then f v else 0) d"
  by (induction d) auto

lemma nonprotected_values_eq:
  "nonprotected_values st d = (ordinary_used st d, ordinary_active st d)"
  unfolding nonprotected_values_def reservable_values_eq ordinary_used_def
    ordinary_active_def Let_def prod.case dict_sum_filter
  by (simp add: ordinary_def[abs_def] protected_spent_def[abs_def] if_distrib cong: if_cong)

lemma projected_amounts_eq:
  "projected_amounts st r =
     map (\<lambda>d. (d, used_amount st d + active_amount st d + reservable_value r d))
       reservable_dimensions"
proof -
  have "of_nat (length ps) = dict_sum (\<lambda>_. 1 :: rat) ps" for ps :: "(string, budget_reservation) dict"
    by (induction ps) auto
  then show ?thesis
    by (simp add: projected_amounts_def reservable_dimensions_def used_amount_def
        active_amount_def)
qed

lemma nonprotected_projected_eq:
  "nonprotected_projected st r d = ordinary_used st d + ordinary_active st d + ordinary d r"
  by (simp add: nonprotected_projected_def nonprotected_values_eq ordinary_def)

lemma reservable_dimensions_all [simp]: "set reservable_dimensions = UNIV"
proof -
  have "d \<in> set reservable_dimensions" for d
    by (cases d) (simp_all add: reservable_dimensions_def)
  then show ?thesis by auto
qed

text \<open>What it means for an amount to fit a dimension.\<close>

definition fits :: "session_budget_state \<Rightarrow> bool \<Rightarrow> reservable \<Rightarrow> rat \<Rightarrow> rat \<Rightarrow> bool" where
  "fits st prot d amount ordinary_total = (case cap_of st d of
     None \<Rightarrow> True
   | Some m \<Rightarrow> amount \<le> m \<and> (prot \<or> ordinary_total \<le> m - share_of st d))"

lemma enforce_dimension_iff:
  "enforce_dimension st f prot cid (d, amount) = Inr u \<longleftrightarrow> fits st prot d amount (f d)"
  by (cases "cap_of st d")
    (auto simp: enforce_dimension_def reservable_values_eq fits_def not_less)

lemma enforce_Inr_iff [res_simps]:
  "enforce st (projected_amounts st r) (nonprotected_projected st r) prot cid = Inr u \<longleftrightarrow>
     (\<forall>d. fits st prot d (used_amount st d + active_amount st d + reservable_value r d)
            (ordinary_used st d + ordinary_active st d + ordinary d r))"
  by (simp add: enforce_def check_all_Inr_iff projected_amounts_eq enforce_dimension_iff
      nonprotected_projected_eq)

lemma enforce_used_dimension_iff:
  "enforce_used_dimension st cid d = Inr u \<longleftrightarrow>
     fits st False d (used_amount st d) (ordinary_used st d + ordinary_active st d)"
  by (cases "cap_of st d") (auto simp: enforce_used_dimension_def reservable_values_eq
      nonprotected_values_eq fits_def not_less)

lemma enforce_used_Inr_iff [res_simps]:
  "enforce_used st cid = Inr u \<longleftrightarrow>
     (\<forall>d. fits st False d (used_amount st d) (ordinary_used st d + ordinary_active st d))"
  by (simp add: enforce_used_def check_all_Inr_iff enforce_used_dimension_iff)

section \<open>Well-formed states and caps\<close>

definition reservation_ok :: "budget_reservation \<Rightarrow> bool" where
  "reservation_ok r \<longleftrightarrow> 0 \<le> input_tokens r \<and> 0 \<le> output_tokens r \<and>
     input_tokens r + output_tokens r \<le> total_tokens r \<and> 0 \<le> cost_usd r"

text \<open>
  The invariant of the ledger: a call id is in flight or finished, never both; what is in
  flight is reserved, what is finished is not; and what is used is exactly the starting
  usage plus the finished calls that reached (or may have reached) the provider.
\<close>

definition spent :: "reservable \<Rightarrow> budget_reservation \<Rightarrow> rat" where
  "spent d r = (if status r \<in> {Settled, Uncertain} then reservable_value r d else 0)"

definition ledger_ok :: "(reservable \<Rightarrow> rat) \<Rightarrow> session_budget_state \<Rightarrow> bool" where
  "ledger_ok base st \<longleftrightarrow>
     distinct (dict_keys (active st)) \<and> distinct (dict_keys (completed st)) \<and>
     fst ` set (active st) \<inter> fst ` set (completed st) = {} \<and>
     (\<forall>(k, r) \<in> set (active st). call_id r = k \<and> status r = Reserved \<and> reservation_ok r) \<and>
     (\<forall>(k, r) \<in> set (completed st). call_id r = k \<and> status r \<noteq> Reserved \<and> reservation_ok r) \<and>
     (\<forall>d. used_amount st d = base d + dict_sum (spent d) (completed st))"

definition within_caps :: "session_budget_state \<Rightarrow> bool" where
  "within_caps st \<longleftrightarrow>
     (\<forall>d. fits st False d (used_amount st d + active_amount st d)
            (ordinary_used st d + ordinary_active st d))"

lemma reservable_value_nonneg: "reservation_ok r \<Longrightarrow> 0 \<le> reservable_value r d"
  by (cases d) (auto simp: reservation_ok_def)

lemma ledger_ok_active_nonneg:
  "ledger_ok base st \<Longrightarrow> 0 \<le> active_amount st d \<and> 0 \<le> ordinary_active st d"
  by (auto simp: ledger_ok_def active_amount_def ordinary_active_def ordinary_def
      intro!: dict_sum_nonneg reservable_value_nonneg)

lemma ledger_ok_activeD:
  assumes "ledger_ok base st" "map_of (active st) cid = Some r"
  shows "call_id r = cid" "status r = Reserved" "reservation_ok r"
    "cid \<notin> fst ` set (completed st)"
proof -
  from assms(2) have mem: "(cid, r) \<in> set (active st)" by (rule map_of_SomeD)
  then have "cid \<in> fst ` set (active st)" by force
  then show "cid \<notin> fst ` set (completed st)" using assms(1) by (auto simp: ledger_ok_def)
  show "call_id r = cid" "status r = Reserved" "reservation_ok r"
    using mem assms(1) by (auto simp: ledger_ok_def)
qed

section \<open>What the state changes do to the amounts\<close>

lemma cap_of_policy:
  "policy st' = policy st \<Longrightarrow> cap_of st' d = cap_of st d"
  "policy st' = policy st \<Longrightarrow> share_of st' d = share_of st d"
  by (cases d; simp add: cap_of_def share_of_def)+

lemma used_amount_active [simp]:
  "used_amount (st\<lparr>active := a\<rparr>) d = used_amount st d"
  by (cases d) (simp_all add: used_amount_def)

lemma used_amount_complete [simp]:
  "used_amount (finish_call cid r st) d = used_amount st d"
  by (cases d) (simp_all add: used_amount_def finish_call_def)

lemma used_amount_consume [simp]:
  "used_amount (consume r st) d = used_amount st d + reservable_value r d"
  by (cases d) (simp_all add: used_amount_def consume_def)

lemma consume_frame [simp]:
  "active (consume r st) = active st" "completed (consume r st) = completed st"
  "policy (consume r st) = policy st"
  by (simp_all add: consume_def)

lemma complete_frame [simp]:
  "active (finish_call cid r st) = dict_del cid (active st)"
  "completed (finish_call cid r st) = dict_set cid r (completed st)"
  "policy (finish_call cid r st) = policy st"
  by (simp_all add: finish_call_def)

text \<open>
  Finishing an active call moves its reservation out of the in-flight amounts; whether
  the finished amount is added to the used ones is the caller's \<open>consume\<close>.
\<close>

lemma complete_amounts:
  assumes "ledger_ok base st" "map_of (active st) cid = Some r"
  shows "active_amount (finish_call cid s st) d = active_amount st d - reservable_value r d"
    and "ordinary_active (finish_call cid s st) d = ordinary_active st d - ordinary d r"
    and "dict_sum f (completed (finish_call cid s st)) = dict_sum f (completed st) + (f s :: rat)"
proof -
  have dist: "distinct (dict_keys (active st))" "distinct (dict_keys (completed st))"
    and fresh: "map_of (completed st) cid = None"
    using assms ledger_ok_activeD(4)[OF assms] by (auto simp: ledger_ok_def map_of_None_keys)
  show "active_amount (finish_call cid s st) d = active_amount st d - reservable_value r d"
    using dict_sum_del[OF dist(1) assms(2)] by (simp add: active_amount_def)
  show "ordinary_active (finish_call cid s st) d = ordinary_active st d - ordinary d r"
    using dict_sum_del[OF dist(1) assms(2)] by (simp add: ordinary_active_def)
  show "dict_sum f (completed (finish_call cid s st)) = dict_sum f (completed st) + f s"
    using fresh by (simp add: dict_sum_set[OF dist(2)])
qed

text \<open>\<open>consume\<close> commutes with finishing, as far as the amounts can tell.\<close>

lemma active_amount_consume [simp]:
  "active_amount (consume r st) d = active_amount st d"
  "ordinary_active (consume r st) d = ordinary_active st d"
  by (simp_all add: active_amount_def ordinary_active_def)

lemma ledger_ok_consume_amounts:
  assumes "ledger_ok base st" "map_of (active st) cid = Some r"
  shows "active_amount (finish_call cid s (consume s st)) d
           = active_amount st d - reservable_value r d"
    and "ordinary_active (finish_call cid s (consume s st)) d = ordinary_active st d - ordinary d r"
    and "used_amount (finish_call cid s (consume s st)) d = used_amount st d + reservable_value s d"
    and "protected s = protected r \<Longrightarrow> status s \<in> {Settled, Uncertain} \<Longrightarrow>
         ordinary_used (finish_call cid s (consume s st)) d = ordinary_used st d + ordinary d s"
  using complete_amounts(1,2)[OF assms, of s d] complete_amounts(3)[OF assms, where f = "protected_spent d" and s = s]
  by (auto simp: active_amount_def ordinary_active_def ordinary_used_def ordinary_def
      protected_spent_def)

lemma complete_ledger_ok:
  assumes ok: "ledger_ok base st" and r: "map_of (active st) cid = Some r"
    and s: "call_id s = cid" "status s \<noteq> Reserved" "reservation_ok s"
    and same: "active st' = active st" "completed st' = completed st"
    and used: "\<And>d. used_amount st' d = used_amount st d + spent d s"
  shows "ledger_ok base (finish_call cid s st')"
proof -
  note fresh = ledger_ok_activeD(4)[OF ok r]
  have dist: "distinct (dict_keys (active st))" "distinct (dict_keys (completed st))"
    using ok by (auto simp: ledger_ok_def)
  have none: "map_of (completed st) cid = None" using fresh by (simp add: map_of_None_keys)
  have sums: "dict_sum (spent d) (dict_set cid s (completed st))
      = dict_sum (spent d) (completed st) + spent d s" for d
    using none by (simp add: dict_sum_set[OF dist(2)])
  have comp: "set (dict_set cid s (completed st)) = insert (cid, s) (set (completed st))"
    using fresh dict_set_new[of cid "completed st" s] by auto
  have act: "set (dict_del cid (active st)) \<subseteq> set (active st)"
    using set_dict_del[OF dist(1)] by auto
  have keys: "fst ` set (dict_del cid (active st)) \<inter>
      fst ` set (dict_set cid s (completed st)) = {}"
    using ok by (auto simp: ledger_ok_def)
  have "\<forall>(k, r) \<in> set (dict_del cid (active st)).
      call_id r = k \<and> status r = Reserved \<and> reservation_ok r"
    using ok act by (fastforce simp: ledger_ok_def)
  moreover have "\<forall>(k, r) \<in> set (dict_set cid s (completed st)).
      call_id r = k \<and> status r \<noteq> Reserved \<and> reservation_ok r"
    using ok s unfolding comp by (simp add: ledger_ok_def)
  moreover have "\<forall>d. used_amount st' d = base d + dict_sum (spent d) (dict_set cid s (completed st))"
    using ok used by (simp add: ledger_ok_def sums)
  ultimately show ?thesis
    using keys dist unfolding ledger_ok_def
    by (simp add: same distinct_dict_set distinct_dict_del)
qed

section \<open>What each operation leaves behind\<close>

lemma validate_limit_int [simp]:
  "validate_limit name (PyInt n) = Inr u \<longleftrightarrow> 0 \<le> n"
  by (auto simp: validate_limit_def res_simps)

lemma money_nonneg: "money name v = Inr q \<Longrightarrow> 0 \<le> q"
  by (auto simp: money_def Let_def split: py_value.splits py_real.splits if_splits)

lemma requested_reservationD:
  assumes "requested_reservation now0 cid i out t c prot now st = Inr r"
  shows "cid \<notin> fst ` set (active st)" "cid \<notin> fst ` set (completed st)"
    "call_id r = cid" "status r = Reserved" "protected r = prot" "reservation_ok r"
  using assms
  by (auto simp: requested_reservation_def Let_def res_simps reservation_ok_def
      split: option.splits if_splits dest: money_nonneg)

lemma reserve_raises:
  "reserve now0 cid i out t c prot now st = (Inl e, st') \<Longrightarrow> st' = st"
  by (auto simp: reserve_def split: sum.splits)

lemma reserve_succeeds:
  assumes "reserve now0 cid i out t c prot now st = (Inr r, st')"
  shows "requested_reservation now0 cid i out t c prot now st = Inr r"
    and "st' = st\<lparr>active := active st @ [(cid, r)]\<rparr>"
    and "\<forall>d. fits st prot d (used_amount st d + active_amount st d + reservable_value r d)
            (ordinary_used st d + ordinary_active st d + ordinary d r)"
proof -
  from assms have r: "requested_reservation now0 cid i out t c prot now st = Inr r"
    "st' = st\<lparr>active := dict_set cid r (active st)\<rparr>"
    "enforce st (projected_amounts st r) (nonprotected_projected st r) prot cid = Inr ()"
    by (auto simp: reserve_def bind_res_Inr_iff split: sum.splits)
  show "requested_reservation now0 cid i out t c prot now st = Inr r" by (rule r)
  show "st' = st\<lparr>active := active st @ [(cid, r)]\<rparr>"
    using r(2) requested_reservationD(1)[OF r(1)] by (simp add: dict_set_new)
  show "\<forall>d. fits st prot d (used_amount st d + active_amount st d + reservable_value r d)
            (ordinary_used st d + ordinary_active st d + ordinary d r)"
    using r(3) by (simp add: enforce_Inr_iff)
qed

lemma get_active_Inr_iff [res_simps]:
  "get_active st cid = Inr r \<longleftrightarrow> map_of (active st) cid = Some r"
  by (auto simp: get_active_def split: option.splits)

lemma usage_or_reserved_nonneg:
  "usage_or_reserved name v r = Inr n \<Longrightarrow> 0 \<le> r \<Longrightarrow> 0 \<le> n"
  by (auto simp: usage_or_reserved_def res_simps split: option.splits)

text \<open>
  A settlement either raises before it touches the state, or it finishes the call; in the
  second case it may still raise, but only to report a crossed limit.
\<close>

lemma settle_cases:
  assumes "settle cid i out t c st = (res, st')"
  obtains (rejected) e where "res = Inl e" "st' = st"
  | (finished) r s where "map_of (active st) cid = Some r"
      "st' = finish_call cid s (consume s st)"
      "call_id s = cid" "status s = Settled" "protected s = protected r"
      "usage_or_reserved ''input_tokens'' i (input_tokens r) = Inr (input_tokens s)"
      "usage_or_reserved ''output_tokens'' out (output_tokens r) = Inr (output_tokens s)"
      "usage_or_reserved ''total_tokens'' t (total_tokens r) = Inr (total_tokens s)"
      "input_tokens s + output_tokens s \<le> total_tokens s"
      "(case c of None \<Rightarrow> Inr (cost_usd r) | Some v \<Rightarrow> money ''cost_usd'' v) = Inr (cost_usd s)"
      "res = bind_res (enforce_used st' cid) (\<lambda>_. Inr s)"
proof (cases "settled_reservation cid i out t c st")
  case (Inl e)
  with assms have "res = Inl e" "st' = st" by (auto simp: settle_def)
  then show ?thesis by (rule rejected)
next
  case (Inr s)
  then obtain r where r: "map_of (active st) cid = Some r"
      "call_id s = cid" "status s = Settled" "protected s = protected r"
      "usage_or_reserved ''input_tokens'' i (input_tokens r) = Inr (input_tokens s)"
      "usage_or_reserved ''output_tokens'' out (output_tokens r) = Inr (output_tokens s)"
      "usage_or_reserved ''total_tokens'' t (total_tokens r) = Inr (total_tokens s)"
      "input_tokens s + output_tokens s \<le> total_tokens s"
      "(case c of None \<Rightarrow> Inr (cost_usd r) | Some v \<Rightarrow> money ''cost_usd'' v) = Inr (cost_usd s)"
    by (auto simp: settled_reservation_def Let_def res_simps not_less)
  have "st' = finish_call cid s (consume s st)"
    and "res = bind_res (enforce_used st' cid) (\<lambda>_. Inr s)"
    using assms Inr by (auto simp: settle_def Let_def)
  with r show ?thesis by (intro finished)
qed

lemma settle_finished_ok:
  assumes "reservation_ok r"
    "usage_or_reserved ''input_tokens'' i (input_tokens r) = Inr (input_tokens s)"
    "usage_or_reserved ''output_tokens'' out (output_tokens r) = Inr (output_tokens s)"
    "input_tokens s + output_tokens s \<le> total_tokens s"
    "(case c of None \<Rightarrow> Inr (cost_usd r) | Some v \<Rightarrow> money ''cost_usd'' v) = Inr (cost_usd s)"
  shows "reservation_ok s"
  using assms usage_or_reserved_nonneg[OF assms(2)] usage_or_reserved_nonneg[OF assms(3)]
  by (auto simp: reservation_ok_def money_nonneg split: option.splits)

section \<open>Every operation keeps the ledger well-formed\<close>

lemma reserve_ledger_ok:
  assumes "ledger_ok base st"
  shows "ledger_ok base (snd (reserve now0 cid i out t c prot now st))"
proof (cases "reserve now0 cid i out t c prot now st")
  case (Pair res st')
  show ?thesis
  proof (cases res)
    case (Inl e)
    with Pair assms show ?thesis using reserve_raises by (metis snd_conv)
  next
    case (Inr r)
    with Pair have eq: "reserve now0 cid i out t c prot now st = (Inr r, st')" by simp
    show ?thesis
      using assms requested_reservationD[OF reserve_succeeds(1)[OF eq]]
      unfolding eq snd_conv reserve_succeeds(2)[OF eq]
      by (auto simp: ledger_ok_def)
  qed
qed

lemma settle_ledger_ok:
  assumes "ledger_ok base st"
  shows "ledger_ok base (snd (settle cid i out t c st))"
proof (cases "settle cid i out t c st")
  case (Pair res st')
  then show ?thesis
  proof (cases rule: settle_cases)
    case (rejected e)
    with Pair assms show ?thesis by simp
  next
    case (finished r s)
    have "ledger_ok base (finish_call cid s (consume s st))"
      by (rule complete_ledger_ok[OF assms finished(1)])
        (use finished settle_finished_ok[OF ledger_ok_activeD(3)[OF assms finished(1)]
            finished(6,7,9,10)] in \<open>simp_all add: spent_def\<close>)
    with Pair finished show ?thesis by simp
  qed
qed

lemma release_ledger_ok:
  assumes "ledger_ok base st"
  shows "ledger_ok base (snd (release cid st))"
proof (cases "map_of (active st) cid")
  case None
  with assms show ?thesis by (auto simp: release_def get_active_def split: option.splits)
next
  case (Some r)
  let ?s = "r\<lparr>status := Released, usage_known := Some False\<rparr>"
  have "ledger_ok base (finish_call cid ?s st)"
    by (rule complete_ledger_ok[OF assms Some])
      (use ledger_ok_activeD[OF assms Some] in \<open>simp_all add: spent_def reservation_ok_def\<close>)
  with Some show ?thesis by (simp add: release_def get_active_def Let_def)
qed

lemma mark_uncertain_ledger_ok:
  assumes "ledger_ok base st"
  shows "ledger_ok base (snd (mark_uncertain cid st))"
proof (cases "map_of (active st) cid")
  case None
  with assms show ?thesis by (auto simp: mark_uncertain_def get_active_def split: option.splits)
next
  case (Some r)
  let ?s = "r\<lparr>status := Uncertain, usage_known := Some False\<rparr>"
  have "ledger_ok base (finish_call cid ?s (consume ?s st))"
    by (rule complete_ledger_ok[OF assms Some])
      (use ledger_ok_activeD[OF assms Some] in \<open>simp_all add: spent_def reservation_ok_def\<close>)
  with Some show ?thesis by (simp add: mark_uncertain_def get_active_def Let_def)
qed

section \<open>The operations of a run as one component\<close>

datatype session_op =
    Op_Reserve rat string int int "int option" "py_value option" bool "py_real option"
  | Op_Settle string "int option" "int option" "int option" "py_value option"
  | Op_Release string
  | Op_Mark_Uncertain string

fun session_step :: "session_budget_state \<Rightarrow> session_op \<Rightarrow> session_budget_state" where
  "session_step st (Op_Reserve now0 cid i out t c prot now) =
     snd (reserve now0 cid i out t c prot now st)"
| "session_step st (Op_Settle cid i out t c) = snd (settle cid i out t c st)"
| "session_step st (Op_Release cid) = snd (release cid st)"
| "session_step st (Op_Mark_Uncertain cid) = snd (mark_uncertain cid st)"

lemma session_step_policy [simp]: "policy (session_step st oper) = policy st"
  by (cases oper) (auto simp: reserve_def settle_def release_def mark_uncertain_def Let_def
      split: sum.splits)

lemma session_step_ledger_ok: "ledger_ok base st \<Longrightarrow> ledger_ok base (session_step st oper)"
  by (cases oper) (simp_all add: reserve_ledger_ok settle_ledger_ok release_ledger_ok
      mark_uncertain_ledger_ok)

lemma settle_used_amount:
  assumes "ledger_ok base st"
  shows "used_amount st d \<le> used_amount (snd (settle cid i out t c st)) d"
proof (cases "settle cid i out t c st")
  case (Pair res st')
  then show ?thesis
  proof (cases rule: settle_cases)
    case (finished r s)
    have "0 \<le> reservable_value s d"
      by (rule reservable_value_nonneg[OF settle_finished_ok[OF
            ledger_ok_activeD(3)[OF assms finished(1)] finished(6,7,9,10)]])
    with Pair finished show ?thesis by simp
  qed (use Pair in simp)
qed

lemma session_step_used:
  assumes "ledger_ok base st"
  shows "used_amount st \<le> used_amount (session_step st oper)"
proof (rule le_funI)
  fix d
  show "used_amount st d \<le> used_amount (session_step st oper) d"
  proof (cases oper)
    case (Op_Mark_Uncertain cid)
    show ?thesis
    proof (cases "get_active st cid")
      case (Inl e)
      with Op_Mark_Uncertain show ?thesis by (simp add: mark_uncertain_def)
    next
      case (Inr r)
      let ?s = "r\<lparr>status := Uncertain, usage_known := Some False\<rparr>"
      from Inr have "reservation_ok r"
        using ledger_ok_activeD(3)[OF assms] by (simp add: get_active_Inr_iff)
      then have "0 \<le> reservable_value ?s d"
        by (intro reservable_value_nonneg) (simp add: reservation_ok_def)
      with Inr Op_Mark_Uncertain show ?thesis by (simp add: mark_uncertain_def Let_def)
    qed
  next
    case (Op_Settle cid i out t c)
    with assms show ?thesis by (simp add: settle_used_amount)
  qed (auto simp: reserve_def release_def Let_def split: sum.splits)
qed

interpretation session: metered_component session_step "ledger_ok base" used_amount
  for base
  by unfold_locales (simp_all add: session_step_ledger_ok session_step_used)

section \<open>Caps\<close>

text \<open>A settlement that reports no more than was reserved, dimension by dimension.\<close>

definition within_reservation ::
  "budget_reservation \<Rightarrow> int option \<Rightarrow> int option \<Rightarrow> int option \<Rightarrow> py_value option \<Rightarrow> bool" where
  "within_reservation r i out t c \<longleftrightarrow>
     (case i of None \<Rightarrow> True | Some v \<Rightarrow> v \<le> input_tokens r) \<and>
     (case out of None \<Rightarrow> True | Some v \<Rightarrow> v \<le> output_tokens r) \<and>
     (case t of None \<Rightarrow> True | Some v \<Rightarrow> v \<le> total_tokens r) \<and>
     (case c of None \<Rightarrow> True | Some v \<Rightarrow>
        (case money ''cost_usd'' v of Inl _ \<Rightarrow> True | Inr q \<Rightarrow> q \<le> cost_usd r))"

fun honest_op :: "session_budget_state \<Rightarrow> session_op \<Rightarrow> bool" where
  "honest_op st (Op_Settle cid i out t c) =
     (case map_of (active st) cid of None \<Rightarrow> True | Some r \<Rightarrow> within_reservation r i out t c)"
| "honest_op st _ = True"

fun honest_run :: "session_budget_state \<Rightarrow> session_op list \<Rightarrow> bool" where
  "honest_run st [] = True"
| "honest_run st (oper # ops) = (honest_op st oper \<and> honest_run (session_step st oper) ops)"

lemma usage_or_reserved_le:
  assumes "usage_or_reserved name v r = Inr n" "case v of None \<Rightarrow> True | Some x \<Rightarrow> x \<le> r"
  shows "n \<le> r"
  using assms by (auto simp: usage_or_reserved_def res_simps split: option.splits)

lemma fits_mono:
  "fits st prot d a b \<Longrightarrow> a' \<le> a \<Longrightarrow> b' \<le> b \<Longrightarrow> policy st' = policy st \<Longrightarrow> fits st' prot d a' b'"
  by (auto simp: fits_def cap_of_policy[of st' st] split: option.splits)

text \<open>
  A call that finishes within its reservation frees at least what it uses, in the total
  and in the ordinary amounts, so no cap can be crossed by it.
\<close>

lemma finish_within_caps:
  assumes ok: "ledger_ok base st" and caps: "within_caps st"
    and r: "map_of (active st) cid = Some r"
    and s: "protected s = protected r" "status s \<in> {Settled, Uncertain}"
    and le: "\<And>d. reservable_value s d \<le> reservable_value r d"
  shows "within_caps (finish_call cid s (consume s st))"
  unfolding within_caps_def
proof
  fix d
  note amounts = ledger_ok_consume_amounts[OF ok r, of s d]
  have "ordinary d s \<le> ordinary d r" using le[of d] s(1) by (simp add: ordinary_def)
  with le[of d] show "fits (finish_call cid s (consume s st)) False d
     (used_amount (finish_call cid s (consume s st)) d
        + active_amount (finish_call cid s (consume s st)) d)
     (ordinary_used (finish_call cid s (consume s st)) d
        + ordinary_active (finish_call cid s (consume s st)) d)"
    by (intro fits_mono[OF caps[unfolded within_caps_def, rule_format, of d]])
      (simp_all add: amounts(1-3) amounts(4)[OF s])
qed

lemma settle_within_caps:
  assumes ok: "ledger_ok base st" and caps: "within_caps st"
    and honest: "honest_op st (Op_Settle cid i out t c)"
  shows "within_caps (snd (settle cid i out t c st))"
proof (cases "settle cid i out t c st")
  case (Pair res st')
  then show ?thesis
  proof (cases rule: settle_cases)
    case (rejected e)
    with Pair caps show ?thesis by simp
  next
    case (finished r s)
    have w: "within_reservation r i out t c" using honest finished(1) by simp
    have le: "input_tokens s \<le> input_tokens r" "output_tokens s \<le> output_tokens r"
      "total_tokens s \<le> total_tokens r"
      using w unfolding within_reservation_def
      by (blast intro: usage_or_reserved_le[OF finished(6)] usage_or_reserved_le[OF finished(7)]
          usage_or_reserved_le[OF finished(8)])+
    have "cost_usd s \<le> cost_usd r"
      using w finished(10) by (auto simp: within_reservation_def split: option.splits)
    with le have "reservable_value s d \<le> reservable_value r d" for d
      by (cases d) simp_all
    then have "within_caps (finish_call cid s (consume s st))"
      using finish_within_caps[OF ok caps finished(1) finished(5)] finished(4) by simp
    with Pair finished show ?thesis by simp
  qed
qed

lemma within_capsD:
  assumes "ledger_ok base st" "within_caps st" "cap_of st d = Some m"
  shows "used_amount st d \<le> m" "ordinary_used st d \<le> m - share_of st d"
proof -
  have "used_amount st d + active_amount st d \<le> m"
    "ordinary_used st d + ordinary_active st d \<le> m - share_of st d"
    using assms(2,3) by (auto simp: within_caps_def fits_def split: option.splits)
  with ledger_ok_active_nonneg[OF assms(1), of d]
  show "used_amount st d \<le> m" "ordinary_used st d \<le> m - share_of st d" by linarith+
qed

lemma reserved_policy: "policy (st\<lparr>active := a\<rparr>) = policy st"
  by simp

lemma reserved_amounts:
  "active_amount (st\<lparr>active := active st @ [(cid, r)]\<rparr>) d
     = active_amount st d + reservable_value r d"
  "ordinary_active (st\<lparr>active := active st @ [(cid, r)]\<rparr>) d = ordinary_active st d + ordinary d r"
  "ordinary_used (st\<lparr>active := a\<rparr>) d = ordinary_used st d"
  by (simp_all add: active_amount_def ordinary_active_def ordinary_used_def)

lemma fits_reserved [simp]: "fits (st\<lparr>active := a\<rparr>) prot d = fits st prot d"
  by (intro ext) (simp add: fits_def cap_of_policy[OF reserved_policy] split: option.split)

lemma reserve_within_caps:
  assumes "within_caps st"
  shows "within_caps (snd (reserve now0 cid i out t c prot now st))"
proof (cases "reserve now0 cid i out t c prot now st")
  case (Pair res st')
  show ?thesis
  proof (cases res)
    case (Inl e)
    with Pair assms show ?thesis using reserve_raises by (metis snd_conv)
  next
    case (Inr r)
    with Pair have eq: "reserve now0 cid i out t c prot now st = (Inr r, st')" by simp
    have fit: "fits st prot d (used_amount st d + active_amount st d + reservable_value r d)
       (ordinary_used st d + ordinary_active st d + ordinary d r)" for d
      using reserve_succeeds(3)[OF eq] by blast
    have prot: "protected r = prot" by (rule requested_reservationD[OF reserve_succeeds(1)[OF eq]])
    have "fits st False d (used_amount st d + active_amount st d + reservable_value r d)
       (ordinary_used st d + ordinary_active st d + ordinary d r)" for d
      using fit[of d] prot assms[unfolded within_caps_def, rule_format, of d]
      by (cases prot) (auto simp: fits_def ordinary_def split: option.splits)
    then have "fits st False d (used_amount st d + (active_amount st d + reservable_value r d))
       (ordinary_used st d + (ordinary_active st d + ordinary d r))" for d
      by (simp add: add.assoc)
    then show ?thesis
      unfolding eq snd_conv reserve_succeeds(2)[OF eq] within_caps_def
      by (simp add: reserved_amounts fits_reserved)
  qed
qed

lemma release_within_caps:
  assumes ok: "ledger_ok base st" and caps: "within_caps st"
  shows "within_caps (snd (release cid st))"
proof (cases "map_of (active st) cid")
  case None
  with caps show ?thesis by (auto simp: release_def get_active_def split: option.splits)
next
  case (Some r)
  let ?s = "r\<lparr>status := Released, usage_known := Some False\<rparr>"
  have r: "0 \<le> reservable_value r d" "0 \<le> ordinary d r" for d
    using reservable_value_nonneg[OF ledger_ok_activeD(3)[OF ok Some]]
    by (simp_all add: ordinary_def)
  have "ordinary_used (finish_call cid ?s st) d = ordinary_used st d" for d
    using complete_amounts(3)[OF ok Some, where f = "protected_spent d" and s = ?s]
    by (simp add: ordinary_used_def protected_spent_def)
  then have "within_caps (finish_call cid ?s st)"
    unfolding within_caps_def
    using r complete_amounts(1,2)[OF ok Some, of ?s]
    by (intro allI fits_mono[OF caps[unfolded within_caps_def, rule_format]]) simp_all
  with Some show ?thesis by (simp add: release_def get_active_def Let_def)
qed

lemma mark_uncertain_within_caps:
  assumes ok: "ledger_ok base st" and caps: "within_caps st"
  shows "within_caps (snd (mark_uncertain cid st))"
proof (cases "map_of (active st) cid")
  case None
  with caps show ?thesis by (auto simp: mark_uncertain_def get_active_def split: option.splits)
next
  case (Some r)
  let ?s = "r\<lparr>status := Uncertain, usage_known := Some False\<rparr>"
  have "reservable_value ?s d \<le> reservable_value r d" for d
    by (cases d) simp_all
  then have "within_caps (finish_call cid ?s (consume ?s st))"
    by (intro finish_within_caps[OF ok caps Some]) simp_all
  with Some show ?thesis by (simp add: mark_uncertain_def get_active_def Let_def)
qed

lemma honest_step_within_caps:
  assumes "ledger_ok base st" "within_caps st" "honest_op st oper"
  shows "within_caps (session_step st oper)"
  using assms by (cases oper) (simp_all add: reserve_within_caps settle_within_caps
      release_within_caps mark_uncertain_within_caps)

lemma honest_run_within_caps:
  assumes "ledger_ok base st" "within_caps st" "honest_run st ops"
  shows "within_caps (foldl session_step st ops)"
  using assms
  by (induction ops arbitrary: st) (auto intro: session_step_ledger_ok honest_step_within_caps)

lemma run_policy [simp]: "policy (foldl session_step st ops) = policy st"
  by (induction ops arbitrary: st) simp_all

text \<open>A new run under an accepted policy starts well-formed and within its caps.\<close>

lemma protected_within_cap_iff:
  "protected_within_cap (n, p, m) = Inr u \<longleftrightarrow>
     (case m of None \<Rightarrow> p = 0 | Some x \<Rightarrow> p \<le> x)"
  by (cases m) (auto simp: protected_within_cap_def res_simps not_less)

lemma policy_init_accepted:
  assumes "session_budget_policy_init a = Inr pol"
  obtains mc pc u where "pol = policy_of a mc pc u" "0 \<le> pc"
    "\<And>name v. (name, v) \<in> set (policy_limits a) \<Longrightarrow> validate_limit name v = Inr ()"
    "\<And>p. p \<in> set (policy_pairs a pc mc) \<Longrightarrow> protected_within_cap p = Inr ()"
proof -
  from assms obtain mc pc u where
    "pol = policy_of a mc pc u" "money ''protected_cost_usd'' (arg_protected_cost_usd a) = Inr pc"
    "check_all (\<lambda>(name, value). validate_limit name value) (policy_limits a) = Inr ()"
    "check_all protected_within_cap (policy_pairs a pc mc) = Inr ()"
    unfolding session_budget_policy_init_def bind_res_Inr_iff by auto
  then show ?thesis
    by (intro that[of mc pc u]) (auto simp: check_all_Inr_iff dest: money_nonneg)
qed

lemma policy_init_shares:
  assumes "session_budget_policy_init a = Inr pol" "policy st = pol"
  shows "0 \<le> share_of st d" and "cap_of st d = Some m \<Longrightarrow> share_of st d \<le> m"
proof -
  from assms(1) obtain mc pc u where pol: "pol = policy_of a mc pc u" and pc: "0 \<le> pc"
    and lim: "\<And>name v. (name, v) \<in> set (policy_limits a) \<Longrightarrow> validate_limit name v = Inr ()"
    and pairs: "\<And>p. p \<in> set (policy_pairs a pc mc) \<Longrightarrow> protected_within_cap p = Inr ()"
    by (rule policy_init_accepted) blast
  have "0 \<le> arg_protected_requests a" "0 \<le> arg_protected_input_tokens a"
    "0 \<le> arg_protected_output_tokens a" "0 \<le> arg_protected_total_tokens a"
    using lim[of "''protected_requests''" "PyInt (arg_protected_requests a)"]
      lim[of "''protected_input_tokens''" "PyInt (arg_protected_input_tokens a)"]
      lim[of "''protected_output_tokens''" "PyInt (arg_protected_output_tokens a)"]
      lim[of "''protected_total_tokens''" "PyInt (arg_protected_total_tokens a)"]
    by (simp_all add: policy_limits_def)
  then show "0 \<le> share_of st d"
    using pc by (cases d) (simp_all add: share_of_def assms(2) pol policy_of_def)
  have "(case d of Requests \<Rightarrow> ''requests'' | Input_Tokens \<Rightarrow> ''input_tokens''
      | Output_Tokens \<Rightarrow> ''output_tokens'' | Total_Tokens \<Rightarrow> ''total_tokens''
      | Cost_Usd \<Rightarrow> ''cost_usd'', share_of st d, cap_of st d) \<in> set (policy_pairs a pc mc)"
    by (cases d) (simp_all add: share_of_def cap_of_def assms(2) pol policy_of_def policy_pairs_def)
  then show "cap_of st d = Some m \<Longrightarrow> share_of st d \<le> m"
    by (auto dest!: pairs simp: protected_within_cap_iff)
qed

lemma session_budget_state_init_zero:
  "session_budget_state_init pol start 0 0 0 0 (PyInt 0) =
     (if isfinite start then
        Inr \<lparr>policy = pol, started_at = finite_value start, requests_used = 0,
          input_tokens_used = 0, output_tokens_used = 0, total_tokens_used = 0,
          cost_usd_used = 0, active = [], completed = []\<rparr>
      else Inl (Value_Error ''started_at must be finite.''))"
  by (simp add: session_budget_state_init_def validate_limit_def money_def)

lemma fresh_state:
  assumes "session_budget_state_init pol start 0 0 0 0 (PyInt 0) = Inr st"
  shows "policy st = pol" "active st = []" "completed st = []" "used_amount st d = 0"
proof -
  have st: "st = \<lparr>policy = pol, started_at = finite_value start, requests_used = 0,
          input_tokens_used = 0, output_tokens_used = 0, total_tokens_used = 0,
          cost_usd_used = 0, active = [], completed = []\<rparr>"
    using assms by (simp add: session_budget_state_init_zero split: if_splits)
  show "policy st = pol" "active st = []" "completed st = []" "used_amount st d = 0"
    unfolding st by (cases d; simp add: used_amount_def)+
qed

lemma fresh_state_ok:
  assumes "session_budget_policy_init a = Inr pol"
    "session_budget_state_init pol start 0 0 0 0 (PyInt 0) = Inr st"
  shows "ledger_ok (\<lambda>_. 0) st" "within_caps st"
proof -
  note fresh = fresh_state[OF assms(2)]
  show "ledger_ok (\<lambda>_. 0) st"
    using fresh by (auto simp: ledger_ok_def)
  have "fits st False d 0 0" for d
    using policy_init_shares[OF assms(1) fresh(1), of d]
    by (cases "cap_of st d") (fastforce simp: fits_def)+
  then show "within_caps st"
    by (simp add: within_caps_def active_amount_def ordinary_used_def ordinary_active_def fresh)
qed

section \<open>Finished calls and cumulative usage\<close>

lemma complete_keeps_others:
  "map_of (completed st) cid = Some r \<Longrightarrow> cid \<noteq> k \<Longrightarrow>
     map_of (completed (finish_call k s st)) cid = Some r"
  by simp

lemma session_step_completed:
  assumes ok: "ledger_ok base st" and fin: "map_of (completed st) cid = Some r"
  shows "map_of (completed (session_step st oper)) cid = Some r"
proof -
  have other: "k \<noteq> cid" if "map_of (active st) k = Some r'" for k r'
    using ledger_ok_activeD(4)[OF ok that] fin by (metis map_of_None_keys option.distinct(1))
  show ?thesis
  proof (cases oper)
    case (Op_Settle k i out t c)
    show ?thesis
    proof (cases "settle k i out t c st")
      case (Pair res st')
      then show ?thesis
      proof (cases rule: settle_cases)
        case (finished r' s)
        with other fin Pair Op_Settle show ?thesis by auto
      qed (use Pair Op_Settle fin in simp)
    qed
  next
    case (Op_Reserve now0 k i out t c prot now)
    with fin show ?thesis by (auto simp: reserve_def split: sum.splits)
  next
    case (Op_Release k)
    with fin other show ?thesis
      by (auto simp: release_def Let_def get_active_Inr_iff split: sum.splits)
  next
    case (Op_Mark_Uncertain k)
    with fin other show ?thesis
      by (auto simp: mark_uncertain_def Let_def get_active_Inr_iff split: sum.splits)
  qed
qed

lemma run_completed:
  assumes "ledger_ok base st" "map_of (completed st) cid = Some r"
  shows "map_of (completed (foldl session_step st ops)) cid = Some r"
  using assms
  by (induction ops arbitrary: st) (auto intro: session_step_ledger_ok session_step_completed)

text \<open>The cumulative totals of a series of executions, each reported any number of times.\<close>

definition account_all :: "budget \<Rightarrow> (string \<times> int) list \<Rightarrow> budget" where
  "account_all b calls = foldl (\<lambda>b (k, n). snd (account_execution_tokens k n b)) b calls"

definition reported :: "(string \<times> int) list \<Rightarrow> string \<Rightarrow> int set" where
  "reported calls k = snd ` (set calls \<inter> {k} \<times> UNIV)"

lemma reported_snoc:
  "reported (calls @ [(j, n)]) k = (if k = j then insert n (reported calls k) else reported calls k)"
  by (auto simp: reported_def)

lemma finite_reported [simp]: "finite (reported calls k)"
  by (simp add: reported_def)

lemma account_all_totals:
  assumes "execution_tokens b = []" "\<forall>(k, n) \<in> set calls. 0 \<le> n"
  shows "distinct (dict_keys (execution_tokens (account_all b calls))) \<and>
    tokens_used (account_all b calls)
      = tokens_used b + dict_sum (\<lambda>n. n) (execution_tokens (account_all b calls)) \<and>
    (\<forall>k. map_of (execution_tokens (account_all b calls)) k =
       (if reported calls k = {} then None else Some (Max (reported calls k))))"
  using assms(2)
proof (induction calls rule: rev_induct)
  case Nil
  with assms show ?case by (simp add: account_all_def reported_def)
next
  case (snoc call calls)
  obtain j n where call: "call = (j, n)" by (cases call)
  let ?b = "account_all b calls"
  let ?prev = "dict_get (execution_tokens ?b) j 0"
  have n: "0 \<le> n" and IH: "distinct (dict_keys (execution_tokens ?b))"
      "tokens_used ?b = tokens_used b + dict_sum (\<lambda>n. n) (execution_tokens ?b)"
      "\<And>k. map_of (execution_tokens ?b) k =
       (if reported calls k = {} then None else Some (Max (reported calls k)))"
    using snoc call by auto
  have step: "account_all b (calls @ [call]) =
      ?b\<lparr>tokens_used := tokens_used ?b + max 0 (n - ?prev),
         execution_tokens := dict_set j (max ?prev n) (execution_tokens ?b)\<rparr>"
    using n by (simp add: account_all_def call account_execution_tokens_def Let_def)
  have pos: "0 \<le> Max (reported calls j)" if "reported calls j \<noteq> {}"
  proof -
    from that obtain x where "x \<in> reported calls j" by blast
    moreover have "0 \<le> x" using calculation snoc.prems by (auto simp: reported_def)
    ultimately show ?thesis using Max_ge[OF finite_reported, of x calls j] by linarith
  qed
  have prev: "?prev = (if reported calls j = {} then 0 else Max (reported calls j))"
    by (simp add: dict_get_def IH(3))
  have "Max (insert n (reported calls j)) = max ?prev n"
    using n pos by (cases "reported calls j = {}") (simp_all add: prev max.commute)
  moreover have "dict_sum (\<lambda>n. n) (dict_set j (max ?prev n) (execution_tokens ?b)) =
      dict_sum (\<lambda>n. n) (execution_tokens ?b) + max 0 (n - ?prev)"
    unfolding dict_sum_set[OF IH(1)] IH(3) prev using n by (auto simp: max_def)
  ultimately show ?case
    unfolding step using IH by (auto simp: call reported_snoc distinct_dict_set)
qed

text \<open>Validating a settlement never reports a crossed limit.\<close>

lemma money_no_limit: "money n v \<noteq> Inl (Session_Budget_Exceeded dimn limit att k stage)"
  by (auto simp: money_def Let_def split: py_value.splits py_real.splits)

lemma usage_no_limit:
  "usage_or_reserved n v r \<noteq> Inl (Session_Budget_Exceeded dimn limit att k stage)"
  by (auto simp: usage_or_reserved_def validate_limit_def res_simps split: option.splits)

lemma get_active_no_limit:
  "get_active st cid \<noteq> Inl (Session_Budget_Exceeded dimn limit att k stage)"
  by (auto simp: get_active_def split: option.splits)

lemma settled_reservation_no_limit:
  "settled_reservation cid i out t c st \<noteq> Inl (Session_Budget_Exceeded dimn limit att k stage)"
  by (auto simp: settled_reservation_def Let_def bind_res_Inl_iff raise_if_iff money_no_limit
      usage_no_limit get_active_no_limit split: option.splits)

section \<open>Properties\<close>

text \<open>C6. A run whose settlements stay within their reservations never overspends: from a
  fresh state under an accepted policy, after any sequence of operations, no dimension is
  used beyond its cap, and ordinary calls never use the share reserved for protected work.\<close>

theorem session_never_overspends:
  assumes "session_budget_policy_init a = Inr pol"
    and "session_budget_state_init pol start 0 0 0 0 (PyInt 0) = Inr st"
    and "honest_run st ops" and "cap_of st d = Some m"
  shows "used_amount (foldl session_step st ops) d \<le> m \<and>
         ordinary_used (foldl session_step st ops) d \<le> m - share_of st d"
proof -
  note fresh = fresh_state_ok[OF assms(1,2)]
  have "cap_of (foldl session_step st ops) d = Some m"
    "share_of (foldl session_step st ops) d = share_of st d"
    using assms(4) cap_of_policy[of "foldl session_step st ops" st] by simp_all
  then show ?thesis
    using within_capsD[OF session.run_inv[OF fresh(1), of ops]
        honest_run_within_caps[OF fresh assms(3)], of d m] by simp
qed

text \<open>The protected share stays reservable: while the caps hold, a protected request
  that passed validation and that fits in what is left of the protected share is accepted,
  whatever ordinary calls have used or hold in flight.\<close>

theorem protected_share_stays_reservable:
  assumes "within_caps st"
    and "requested_reservation now0 cid i out t c True now st = Inr r"
    and "\<And>d. cap_of st d \<noteq> None \<Longrightarrow>
      dict_sum (protected_spent d) (completed st) + (active_amount st d - ordinary_active st d)
        + reservable_value r d \<le> share_of st d"
  shows "fst (reserve now0 cid i out t c True now st) = Inr r"
proof -
  have "fits st True d (used_amount st d + active_amount st d + reservable_value r d) x" for d x
  proof (cases "cap_of st d")
    case (Some m)
    with assms(1) have "ordinary_used st d + ordinary_active st d \<le> m - share_of st d"
      by (auto simp: within_caps_def fits_def split: option.splits)
    with assms(3)[of d] Some show ?thesis by (simp add: fits_def ordinary_used_def)
  qed (simp add: fits_def)
  then have "enforce st (projected_amounts st r) (nonprotected_projected st r) True cid = Inr ()"
    by (simp add: enforce_Inr_iff)
  with assms(2) show ?thesis by (simp add: reserve_def)
qed

text \<open>An overrun is recorded before it is reported: when a settlement raises because a
  limit is crossed, the call is nevertheless finished as settled, and every dimension's
  usage has grown by exactly the settled amount.\<close>

theorem settle_overrun_is_recorded:
  assumes "ledger_ok base st"
    and "settle cid i out t c st = (Inl (Session_Budget_Exceeded dimn limit att k stage), st')"
  shows "\<exists>s. map_of (completed st') cid = Some s \<and> status s = Settled \<and>
     map_of (active st') cid = None \<and>
     (\<forall>d. used_amount st' d = used_amount st d + reservable_value s d)"
proof (cases "settled_reservation cid i out t c st")
  case (Inl e)
  with assms(2) have "settled_reservation cid i out t c st
      = Inl (Session_Budget_Exceeded dimn limit att k stage)"
    by (simp add: settle_def)
  then show ?thesis using settled_reservation_no_limit by blast
next
  case (Inr s)
  with assms(2) have "st' = finish_call cid s (consume s st)"
    by (simp add: settle_def Let_def)
  moreover have "status s = Settled"
    using Inr by (auto simp: settled_reservation_def Let_def res_simps)
  ultimately show ?thesis by (intro exI[of _ s]) simp
qed

text \<open>A reservation is granted exactly when the request is valid and, in every
  dimension, the used, in-flight and requested amounts fit the cap (and, for an ordinary
  request, the cap less the protected share); a refused request leaves the state as it was.\<close>

theorem reserve_exactly_when_it_fits:
  "(fst (reserve now0 cid i out t c prot now st) = Inr r \<longleftrightarrow>
      requested_reservation now0 cid i out t c prot now st = Inr r \<and>
      (\<forall>d. fits st prot d (used_amount st d + active_amount st d + reservable_value r d)
             (ordinary_used st d + ordinary_active st d + ordinary d r)))
   \<and> snd (reserve now0 cid i out t c prot now st) =
      (case fst (reserve now0 cid i out t c prot now st) of
         Inl _ \<Rightarrow> st | Inr r \<Rightarrow> st\<lparr>active := active st @ [(cid, r)]\<rparr>)"
proof (cases "requested_reservation now0 cid i out t c prot now st")
  case (Inl e)
  then show ?thesis by (simp add: reserve_def)
next
  case (Inr q)
  then have "cid \<notin> set (dict_keys (active st))"
    using requested_reservationD(1) by fastforce
  then have new: "dict_set cid q (active st) = active st @ [(cid, q)]"
    by (rule dict_set_new)
  note fit = enforce_Inr_iff[of st q prot cid "()"]
  show ?thesis
  proof (cases "enforce st (projected_amounts st q) (nonprotected_projected st q) prot cid")
    case (Inl e)
    moreover have "\<not> (\<forall>d. fits st prot d
        (used_amount st d + active_amount st d + reservable_value q d)
        (ordinary_used st d + ordinary_active st d + ordinary d q))"
      using fit Inl by simp
    ultimately show ?thesis using Inr by (auto simp: reserve_def)
  next
    case (Inr u)
    with fit show ?thesis using \<open>requested_reservation now0 cid i out t c prot now st = Inr q\<close>
      by (auto simp: reserve_def new)
  qed
qed

text \<open>A finished call is final: its record survives every later operation unchanged,
  and any further settle, release or mark-uncertain of it raises a conflict that names how
  it finished and changes nothing.\<close>

theorem finished_call_is_final:
  assumes "ledger_ok base st" and "map_of (completed st) cid = Some r"
  shows "let st' = foldl session_step st ops;
             refused = (Inl (Budget_Reservation_Conflict cid (Some (status r))), st') in
     map_of (completed st') cid = Some r \<and> settle cid i out t c st' = refused \<and>
     release cid st' = refused \<and> mark_uncertain cid st' = refused"
proof -
  let ?st = "foldl session_step st ops"
  have c: "map_of (completed ?st) cid = Some r" by (rule run_completed[OF assms])
  have "map_of (active ?st) cid = None"
    using ledger_ok_activeD(4)[OF session.run_inv[OF assms(1)], of ops cid] c
    by (cases "map_of (active ?st) cid") (auto simp: map_of_None_keys[symmetric])
  with c have "get_active ?st cid = Inl (Budget_Reservation_Conflict cid (Some (status r)))"
    by (simp add: get_active_def)
  with c show ?thesis
    by (simp add: settle_def settled_reservation_def release_def mark_uncertain_def Let_def)
qed

text \<open>\<open>remaining\<close> is exact: a positive amount fits a capped dimension if and only if it
  is at most what \<open>remaining\<close> reports for that kind of work.\<close>

theorem remaining_is_exact:
  assumes "remaining_capacity now0 st (Reservable d) prot = Some q" and "0 < v"
  shows "v \<le> q \<longleftrightarrow> fits st prot d (used_amount st d + active_amount st d + v)
                        (ordinary_used st d + ordinary_active st d + v)"
proof -
  obtain m where m: "cap_of st d = Some m"
    using assms(1) by (cases "cap_of st d") (auto simp: reservable_values_eq)
  with assms show ?thesis
    by (cases prot) (auto simp: reservable_values_eq nonprotected_values_eq fits_def Let_def)
qed

text \<open>Cumulative execution totals are counted once: however often and in whatever order
  the executions report their non-negative running totals, each contributes its largest
  report, so a replayed report adds nothing.\<close>

theorem execution_totals_count_once:
  assumes "execution_tokens b = []" and "\<forall>(k, n) \<in> set calls. 0 \<le> n"
  shows "tokens_used (account_all b calls)
      = tokens_used b + dict_sum (\<lambda>n. n) (execution_tokens (account_all b calls)) \<and>
    (\<forall>k. map_of (execution_tokens (account_all b calls)) k =
       (if reported calls k = {} then None else Some (Max (reported calls k))))"
  using account_all_totals[OF assms] by blast

section \<open>Witnesses\<close>

definition example_arguments :: policy_arguments where
  "example_arguments = \<lparr>arg_max_requests = Some 2, arg_max_input_tokens = None,
     arg_max_output_tokens = None, arg_max_total_tokens = Some 100, arg_max_cost_usd = None,
     arg_max_wall_seconds = None, arg_protected_requests = 1, arg_protected_input_tokens = 0,
     arg_protected_output_tokens = 0, arg_protected_total_tokens = 20,
     arg_protected_cost_usd = PyInt 0, arg_unknown_usage_policy = ''reject''\<rparr>"

definition example_policy :: session_budget_policy where
  "example_policy = policy_of example_arguments None 0 Reject_Unknown"

definition example_state :: session_budget_state where
  "example_state = \<lparr>policy = example_policy, started_at = 0, requests_used = 0,
     input_tokens_used = 0, output_tokens_used = 0, total_tokens_used = 0, cost_usd_used = 0,
     active = [], completed = []\<rparr>"

definition example_call :: session_op where
  "example_call = Op_Reserve 0 ''c1'' 30 20 None None False None"

lemmas example_defs = example_arguments_def example_policy_def example_state_def
  example_call_def policy_of_def

lemma example_policy_accepted: "session_budget_policy_init example_arguments = Inr example_policy"
  by (simp add: example_defs session_budget_policy_init_def policy_limits_def policy_pairs_def
      validate_limit_def validate_seconds_def opt_seconds_def money_def unknown_usage_of_def
      protected_within_cap_def)

lemma example_state_fresh:
  "session_budget_state_init example_policy (Finite 0) 0 0 0 0 (PyInt 0) = Inr example_state"
  by (simp add: session_budget_state_init_zero example_state_def finite_value_def)

text \<open>One ordinary reservation granted from the fresh state.\<close>

definition example_reservation :: budget_reservation where
  "example_reservation = \<lparr>call_id = ''c1'', input_tokens = 30, output_tokens = 20,
     total_tokens = 50, cost_usd = 0, protected = False, status = Reserved, usage_known = None\<rparr>"

lemma py_space_examples [simp]: "\<not> py_space CHR ''c''" "\<not> py_space CHR ''1''" "\<not> py_space CHR ''f''"
  by (simp_all add: py_space_def)

lemma example_requested:
  "requested_reservation 0 ''c1'' 30 20 None None False None example_state = Inr example_reservation"
  by (simp add: requested_reservation_def validate_limit_def example_defs example_reservation_def
      Let_def check_wall_time_def finite_value_def)

lemma example_enforced:
  "enforce example_state (projected_amounts example_state example_reservation)
     (nonprotected_projected example_state example_reservation) False ''c1'' = Inr ()"
  by (simp add: enforce_def projected_amounts_def enforce_dimension_def
      nonprotected_projected_def nonprotected_values_def example_defs example_reservation_def)

lemma example_call_step:
  "session_step example_state example_call
     = example_state\<lparr>active := [(''c1'', example_reservation)]\<rparr>"
  by (simp add: example_call_def reserve_def example_requested example_enforced)
    (simp add: example_state_def)

theorem session_never_overspends_witness:
  "used_amount (foldl session_step example_state
       [example_call, Op_Settle ''c1'' (Some 25) (Some 20) (Some 50) (Some (PyInt 0))]) Total_Tokens
     \<le> 100"
proof -
  have "within_reservation example_reservation (Some 25) (Some 20) (Some 50) (Some (PyInt 0))"
    by (simp add: within_reservation_def example_reservation_def money_def)
  then have "honest_run example_state
      [example_call, Op_Settle ''c1'' (Some 25) (Some 20) (Some 50) (Some (PyInt 0))]"
    by (simp add: example_call_step del: session_step.simps) (simp add: example_call_def)
  moreover have "cap_of example_state Total_Tokens = Some 100"
    by (simp add: cap_of_def example_defs)
  ultimately show ?thesis
    using session_never_overspends[OF example_policy_accepted example_state_fresh] by blast
qed

text \<open>The state with the ordinary call in flight.\<close>

definition busy_state :: session_budget_state where
  "busy_state = example_state\<lparr>active := [(''c1'', example_reservation)]\<rparr>"

lemma busy_state_ok: "ledger_ok (\<lambda>_. 0) busy_state" "within_caps busy_state"
  using session_step_ledger_ok[OF fresh_state_ok(1)[OF example_policy_accepted example_state_fresh],
      of example_call]
    honest_step_within_caps[OF fresh_state_ok[OF example_policy_accepted example_state_fresh],
      of example_call]
  by (simp_all add: busy_state_def flip: example_call_step) (simp_all add: example_call_def)

definition final_reservation :: budget_reservation where
  "final_reservation = \<lparr>call_id = ''f'', input_tokens = 10, output_tokens = 5,
     total_tokens = 15, cost_usd = 0, protected = True, status = Reserved, usage_known = None\<rparr>"

theorem protected_share_stays_reservable_witness:
  "fst (reserve 0 ''f'' 10 5 None None True None busy_state) = Inr final_reservation"
proof (rule protected_share_stays_reservable[OF busy_state_ok(2)])
  show "requested_reservation 0 ''f'' 10 5 None None True None busy_state = Inr final_reservation"
    by (simp add: requested_reservation_def validate_limit_def example_defs final_reservation_def
        busy_state_def Let_def check_wall_time_def finite_value_def)
  fix d
  show "cap_of busy_state d \<noteq> None \<Longrightarrow>
    dict_sum (protected_spent d) (completed busy_state)
      + (active_amount busy_state d - ordinary_active busy_state d)
      + reservable_value final_reservation d \<le> share_of busy_state d"
    by (cases d) (simp_all add: busy_state_def example_defs active_amount_def ordinary_active_def
        ordinary_def example_reservation_def final_reservation_def share_of_def cap_of_def)
qed

text \<open>The call settles at 90 total tokens, above the 80 that ordinary work may use.\<close>

definition overrun_reservation :: budget_reservation where
  "overrun_reservation = \<lparr>call_id = ''c1'', input_tokens = 50, output_tokens = 40,
     total_tokens = 90, cost_usd = 0, protected = False, status = Settled,
     usage_known = Some True\<rparr>"

lemma overrun_settlement:
  "settled_reservation ''c1'' (Some 50) (Some 40) (Some 90) (Some (PyInt 0)) busy_state
     = Inr overrun_reservation"
  by (simp add: settled_reservation_def get_active_def busy_state_def missing_usage_def
      usage_or_reserved_def validate_limit_def money_def example_reservation_def
      overrun_reservation_def)

lemma overrun_enforced:
  "enforce_used (finish_call ''c1'' overrun_reservation (consume overrun_reservation busy_state))
     ''c1'' = Inl (Session_Budget_Exceeded (Reservable Total_Tokens) 80 90 (Some ''c1'') At_Settlement)"
  by (simp add: enforce_used_def reservable_dimensions_def enforce_used_dimension_def
      nonprotected_values_def finish_call_def consume_def busy_state_def example_defs
      overrun_reservation_def)

theorem settle_overrun_is_recorded_witness:
  "\<exists>st' s. settle ''c1'' (Some 50) (Some 40) (Some 90) (Some (PyInt 0)) busy_state
       = (Inl (Session_Budget_Exceeded (Reservable Total_Tokens) 80 90 (Some ''c1'') At_Settlement),
          st') \<and> map_of (completed st') ''c1'' = Some s \<and> status s = Settled"
proof -
  let ?st = "finish_call ''c1'' overrun_reservation (consume overrun_reservation busy_state)"
  have eq: "settle ''c1'' (Some 50) (Some 40) (Some 90) (Some (PyInt 0)) busy_state
      = (Inl (Session_Budget_Exceeded (Reservable Total_Tokens) 80 90 (Some ''c1'') At_Settlement), ?st)"
    by (simp add: settle_def overrun_settlement Let_def overrun_enforced)
  from settle_overrun_is_recorded[OF busy_state_ok(1) eq] eq show ?thesis by blast
qed

theorem finished_call_is_final_witness:
  "fst (settle ''c1'' None None None None (foldl session_step (snd (release ''c1'' busy_state))
         [Op_Reserve 0 ''c1'' 1 1 None None False None]))
     = Inl (Budget_Reservation_Conflict ''c1'' (Some Released))"
proof -
  let ?r = "example_reservation\<lparr>status := Released, usage_known := Some False\<rparr>"
  have c: "map_of (completed (snd (release ''c1'' busy_state))) ''c1'' = Some ?r"
    by (simp add: release_def get_active_def busy_state_def Let_def)
  note final = finished_call_is_final[OF release_ledger_ok[OF busy_state_ok(1)] c,
      of "[Op_Reserve 0 ''c1'' 1 1 None None False None]" None None None None,
      unfolded Let_def, THEN conjunct2, THEN conjunct1]
  show ?thesis unfolding final by simp
qed

theorem remaining_is_exact_witness:
  "(25 :: rat) \<le> 30 \<longleftrightarrow> fits busy_state False Total_Tokens
     (used_amount busy_state Total_Tokens + active_amount busy_state Total_Tokens + 25)
     (ordinary_used busy_state Total_Tokens + ordinary_active busy_state Total_Tokens + 25)"
proof (rule remaining_is_exact[where ?now0.0 = 0])
  show "remaining_capacity 0 busy_state (Reservable Total_Tokens) False = Some 30"
    by (simp add: busy_state_def example_defs nonprotected_values_def example_reservation_def)
qed simp

theorem execution_totals_count_once_witness:
  "tokens_used (account_all \<lparr>max_seconds = None, max_tokens = None, b_started_at = 0,
       tokens_used = 3, execution_tokens = []\<rparr> [(''a'', 5), (''b'', 2), (''a'', 5), (''a'', 7)])
     = 3 + dict_sum (\<lambda>n. n) (execution_tokens (account_all
         \<lparr>max_seconds = None, max_tokens = None, b_started_at = 0, tokens_used = 3,
          execution_tokens = []\<rparr> [(''a'', 5), (''b'', 2), (''a'', 5), (''a'', 7)]))"
  using execution_totals_count_once[of "\<lparr>max_seconds = None, max_tokens = None,
      b_started_at = 0, tokens_used = 3, execution_tokens = []\<rparr>"
      "[(''a'', 5), (''b'', 2), (''a'', 5), (''a'', 7)]"] by simp

end
