(* ===== verification/BudgetSchema.thy ===== *)
theory BudgetSchema
  imports Budget
begin

text \<open>
  \<open>schemas/exploration_budget.py\<close>: the budget contract of an exploration run. A schema
  class is a record with a predicate for its declared field bounds and its
  \<open>model_validator\<close>; constructing it is checking the predicate. A float field takes an infinity
  (its declaration does not set \<open>allow_inf_nan=False\<close>), unless a bound excludes it; a nan meets no
  bound. A \<open>Decimal\<close> field is finite.
\<close>

section \<open>The LLM dimensions\<close>

record session_budget_policy_model =
  pm_max_requests :: "int option"
  pm_max_input_tokens :: "int option"
  pm_max_output_tokens :: "int option"
  pm_max_total_tokens :: "int option"
  pm_max_cost_usd :: "rat option"
  pm_max_wall_seconds :: "py_real option"
  pm_protected_requests :: int
  pm_protected_input_tokens :: int
  pm_protected_output_tokens :: int
  pm_protected_total_tokens :: int
  pm_protected_cost_usd :: rat
  pm_unknown_usage_policy :: unknown_usage_policy

definition at_least_one :: "int option \<Rightarrow> bool" where
  "at_least_one v = (case v of None \<Rightarrow> True | Some n \<Rightarrow> 1 \<le> n)"

definition positive :: "rat option \<Rightarrow> bool" where
  "positive v = (case v of None \<Rightarrow> True | Some q \<Rightarrow> 0 < q)"

definition positive_seconds :: "py_real option \<Rightarrow> bool" where
  "positive_seconds v = (case v of None \<Rightarrow> True | Some x \<Rightarrow> real_less (Finite 0) x)"

definition model_fields_ok :: "session_budget_policy_model \<Rightarrow> bool" where
  "model_fields_ok m \<longleftrightarrow>
     at_least_one (pm_max_requests m) \<and> at_least_one (pm_max_input_tokens m) \<and>
     at_least_one (pm_max_output_tokens m) \<and> at_least_one (pm_max_total_tokens m) \<and>
     positive (pm_max_cost_usd m) \<and> positive_seconds (pm_max_wall_seconds m) \<and>
     0 \<le> pm_protected_requests m \<and> 0 \<le> pm_protected_input_tokens m \<and>
     0 \<le> pm_protected_output_tokens m \<and> 0 \<le> pm_protected_total_tokens m \<and>
     0 \<le> pm_protected_cost_usd m"

definition model_pairs :: "session_budget_policy_model \<Rightarrow> (string \<times> rat \<times> rat option) list" where
  "model_pairs m =
     [(''requests'', of_int (pm_protected_requests m), map_option of_int (pm_max_requests m)),
      (''input_tokens'', of_int (pm_protected_input_tokens m),
         map_option of_int (pm_max_input_tokens m)),
      (''output_tokens'', of_int (pm_protected_output_tokens m),
         map_option of_int (pm_max_output_tokens m)),
      (''total_tokens'', of_int (pm_protected_total_tokens m),
         map_option of_int (pm_max_total_tokens m)),
      (''cost_usd'', pm_protected_cost_usd m, pm_max_cost_usd m)]"

definition protected_within_caps :: "session_budget_policy_model \<Rightarrow> unit checked" where
  "protected_within_caps m = check_all protected_within_cap (model_pairs m)"

definition policy_model_valid :: "session_budget_policy_model \<Rightarrow> bool" where
  "policy_model_valid m \<longleftrightarrow> model_fields_ok m \<and> protected_within_caps m = Inr ()"

fun usage_policy_name :: "unknown_usage_policy \<Rightarrow> string" where
  "usage_policy_name Consume_Reservation = ''consume_reservation''"
| "usage_policy_name Reject_Unknown = ''reject''"

definition model_dump :: "session_budget_policy_model \<Rightarrow> policy_arguments" where
  "model_dump m = \<lparr>arg_max_requests = pm_max_requests m,
     arg_max_input_tokens = pm_max_input_tokens m,
     arg_max_output_tokens = pm_max_output_tokens m,
     arg_max_total_tokens = pm_max_total_tokens m,
     arg_max_cost_usd = map_option (\<lambda>q. PyDecimal (Finite q)) (pm_max_cost_usd m),
     arg_max_wall_seconds = pm_max_wall_seconds m,
     arg_protected_requests = pm_protected_requests m,
     arg_protected_input_tokens = pm_protected_input_tokens m,
     arg_protected_output_tokens = pm_protected_output_tokens m,
     arg_protected_total_tokens = pm_protected_total_tokens m,
     arg_protected_cost_usd = PyDecimal (Finite (pm_protected_cost_usd m)),
     arg_unknown_usage_policy = usage_policy_name (pm_unknown_usage_policy m)\<rparr>"

definition to_policy :: "session_budget_policy_model \<Rightarrow> session_budget_policy checked" where
  "to_policy m = session_budget_policy_init (model_dump m)"

section \<open>The exploration policy\<close>

record exploration_branch_policy =
  trigger_stagnant_rounds :: int
  bp_max_branches :: int

definition branch_policy_valid :: "exploration_branch_policy \<Rightarrow> bool" where
  "branch_policy_valid b \<longleftrightarrow> 1 \<le> trigger_stagnant_rounds b \<and> 1 \<le> bp_max_branches b"

record exploration_budget_policy =
  llm :: session_budget_policy_model
  max_successful_tool_calls :: int
  max_tool_calls_by_kind :: "(string, int) dict"
  max_rows_scanned :: "int option"
  max_result_cells :: "int option"
  idle_timeout_seconds :: py_real
  max_rounds :: int
  branching :: "exploration_branch_policy option"

definition budget_policy_valid :: "exploration_budget_policy \<Rightarrow> bool" where
  "budget_policy_valid p \<longleftrightarrow>
     policy_model_valid (llm p) \<and> 1 \<le> max_successful_tool_calls p \<and>
     max_tool_calls_by_kind p \<noteq> [] \<and> distinct (dict_keys (max_tool_calls_by_kind p)) \<and>
     at_least_one (max_rows_scanned p) \<and> at_least_one (max_result_cells p) \<and>
     real_less (Finite 0) (idle_timeout_seconds p) \<and> 1 \<le> max_rounds p \<and>
     (case branching p of None \<Rightarrow> True | Some b \<Rightarrow> branch_policy_valid b) \<and>
     list_all (\<lambda>(kind, cap). kind \<noteq> [] \<and> 1 \<le> cap) (max_tool_calls_by_kind p)"

section \<open>Increases and amendments\<close>

record budget_cap_increase =
  ci_max_requests :: int
  ci_max_input_tokens :: int
  ci_max_output_tokens :: int
  ci_max_total_tokens :: int
  ci_max_cost_usd :: rat
  ci_max_wall_seconds :: py_real
  ci_max_successful_tool_calls :: int
  ci_max_tool_calls_by_kind :: "(string, int) dict"
  ci_max_rows_scanned :: int
  ci_max_result_cells :: int
  ci_max_rounds :: int

definition increase_amounts :: "budget_cap_increase \<Rightarrow> py_real list" where
  "increase_amounts i =
     [Finite (of_int (ci_max_requests i)), Finite (of_int (ci_max_input_tokens i)),
      Finite (of_int (ci_max_output_tokens i)), Finite (of_int (ci_max_total_tokens i)),
      Finite (ci_max_cost_usd i), ci_max_wall_seconds i,
      Finite (of_int (ci_max_successful_tool_calls i)), Finite (of_int (ci_max_rows_scanned i)),
      Finite (of_int (ci_max_result_cells i)), Finite (of_int (ci_max_rounds i))]"

definition increase_valid :: "budget_cap_increase \<Rightarrow> bool" where
  "increase_valid i \<longleftrightarrow>
     list_all (real_le (Finite 0)) (increase_amounts i) \<and>
     distinct (dict_keys (ci_max_tool_calls_by_kind i)) \<and>
     list_all (\<lambda>(kind, delta). kind \<noteq> [] \<and> 1 \<le> delta) (ci_max_tool_calls_by_kind i) \<and>
     \<not> (list_all (\<lambda>q. real_eq q (Finite 0)) (increase_amounts i) \<and> ci_max_tool_calls_by_kind i = [])"

record budget_amendment =
  amendment_id :: string
  previous_effective_fingerprint :: string
  increase :: budget_cap_increase
  reason :: string
  approved_by :: string
  created_at :: string

definition amendment_valid :: "budget_amendment \<Rightarrow> bool" where
  "amendment_valid a \<longleftrightarrow>
     amendment_id a \<noteq> [] \<and> previous_effective_fingerprint a \<noteq> [] \<and>
     increase_valid (increase a) \<and> reason a \<noteq> [] \<and> length (reason a) \<le> 2000 \<and>
     approved_by a \<noteq> [] \<and> created_at a \<noteq> []"

section \<open>The schema implies the runtime checks\<close>

lemma validate_limit_at_least_one:
  "at_least_one v \<Longrightarrow> validate_limit name (py_opt_int v) = Inr ()"
  by (cases v) (auto simp: at_least_one_def validate_limit_def)

lemma validate_limit_nonneg: "0 \<le> n \<Longrightarrow> validate_limit name (PyInt n) = Inr ()"
  by simp

lemma model_pairs_policy_pairs:
  "model_pairs m = policy_pairs (model_dump m) (pm_protected_cost_usd m) (pm_max_cost_usd m)"
  by (simp add: model_pairs_def policy_pairs_def model_dump_def)


definition example_model :: session_budget_policy_model where
  "example_model = \<lparr>pm_max_requests = Some 5, pm_max_input_tokens = None,
     pm_max_output_tokens = None, pm_max_total_tokens = Some 1000, pm_max_cost_usd = Some (3/2),
     pm_max_wall_seconds = Some (Finite 60), pm_protected_requests = 1, pm_protected_input_tokens = 0,
     pm_protected_output_tokens = 0, pm_protected_total_tokens = 100,
     pm_protected_cost_usd = 1/2, pm_unknown_usage_policy = Consume_Reservation\<rparr>"

lemma example_model_valid: "policy_model_valid example_model"
  by (simp add: policy_model_valid_def model_fields_ok_def at_least_one_def positive_def
      positive_seconds_def protected_within_caps_def model_pairs_def protected_within_cap_def
      example_model_def)

lemma endless_model_valid: "policy_model_valid (example_model\<lparr>pm_max_wall_seconds := Some Pos_Infinity\<rparr>)"
  by (simp add: policy_model_valid_def model_fields_ok_def at_least_one_def positive_def
      positive_seconds_def protected_within_caps_def model_pairs_def protected_within_cap_def
      example_model_def)


end
