(* ===== verification/ExplorationBudget.thy ===== *)
theory ExplorationBudget
  imports BudgetSchema
begin

text \<open>
  \<open>core/exploration_budget.py\<close>: the success-counted tool ledger of a run
  (\<open>ToolCallLedger\<close>), the monotonic amendment chain (\<open>effective_policy\<close>) and the
  finalization view. Each locked method is one function from ledger to ledger.
\<close>

section \<open>Exceptions and projections\<close>

datatype tool_dimension = Successful_Tool_Calls | Tool_Calls_By_Kind | Rows_Scanned | Result_Cells

datatype tool_stage = Stage_Check | Stage_Settlement

datatype budget_fault =
    Tool_Type_Error string
  | Tool_Value_Error string
  | Tool_Budget_Exceeded tool_dimension int int "string option" tool_stage bool
  | Amendment_Error string
  | Schema_Violation

type_synonym 'a guarded = "budget_fault + 'a"

definition validate_count :: "string \<Rightarrow> py_value \<Rightarrow> unit guarded" where
  "validate_count name value = (case value of
     PyInt n \<Rightarrow> raise_if (n < 0) (Tool_Value_Error (name @ '' cannot be negative.''))
   | _ \<Rightarrow> Inl (Tool_Type_Error (name @ '' must be an integer.'')))"

record tool_call_projection =
  kind :: string
  rows_scanned :: int
  result_cells :: int

definition tool_call_projection_init :: "string \<Rightarrow> int \<Rightarrow> int \<Rightarrow> tool_call_projection guarded" where
  "tool_call_projection_init k rows cells =
     bind_res (raise_if (py_strip k = []) (Tool_Value_Error ''kind must be a non-empty string.'')) (\<lambda>_.
     bind_res (validate_count ''rows_scanned'' (PyInt rows)) (\<lambda>_.
     bind_res (validate_count ''result_cells'' (PyInt cells)) (\<lambda>_.
     Inr \<lparr>kind = k, rows_scanned = rows, result_cells = cells\<rparr>)))"

section \<open>The ledger\<close>

record tool_call_ledger =
  tl_policy :: exploration_budget_policy
  successful_calls :: int
  calls_by_kind :: "(string, int) dict"
  tl_rows_scanned :: int
  tl_result_cells :: int

definition new_ledger :: "exploration_budget_policy \<Rightarrow> tool_call_ledger" where
  "new_ledger pol = \<lparr>tl_policy = pol, successful_calls = 0, calls_by_kind = [],
     tl_rows_scanned = 0, tl_result_cells = 0\<rparr>"

definition enforce_tool ::
  "tool_dimension \<Rightarrow> int \<Rightarrow> int \<Rightarrow> int option \<Rightarrow> string option \<Rightarrow> unit guarded" where
  "enforce_tool dimension used increment limit k = (case limit of
     None \<Rightarrow> Inr ()
   | Some m \<Rightarrow>
       if increment = 0 then Inr ()
       else if m \<le> used then
         Inl (Tool_Budget_Exceeded dimension m (used + increment) k Stage_Check True)
       else raise_if (m < used + increment)
         (Tool_Budget_Exceeded dimension m (used + increment) k Stage_Check False))"

text \<open>The kinds of a batch with their multiplicities, in first-seen order.\<close>

definition batch_kinds :: "tool_call_projection list \<Rightarrow> (string, int) dict" where
  "batch_kinds projected =
     foldl (\<lambda>d item. dict_set (kind item) (dict_get d (kind item) 0 + 1) d) [] projected"

definition check_batch :: "tool_call_ledger \<Rightarrow> tool_call_projection list \<Rightarrow> unit guarded" where
  "check_batch l projected =
     (let calls = int (length projected);
          rows = sum_list (map rows_scanned projected);
          cells = sum_list (map result_cells projected);
          by_kind = batch_kinds projected
      in bind_res (enforce_tool Successful_Tool_Calls (successful_calls l) calls
           (Some (max_successful_tool_calls (tl_policy l))) None) (\<lambda>_.
         bind_res (check_all (\<lambda>(k, cnt). enforce_tool Tool_Calls_By_Kind
             (dict_get (calls_by_kind l) k 0) cnt
             (Some (dict_get (max_tool_calls_by_kind (tl_policy l)) k 0)) (Some k)) by_kind) (\<lambda>_.
         bind_res (enforce_tool Rows_Scanned (tl_rows_scanned l) rows
           (max_rows_scanned (tl_policy l)) None) (\<lambda>_.
         enforce_tool Result_Cells (tl_result_cells l) cells
           (max_result_cells (tl_policy l)) None))))"

definition settle_check ::
  "tool_dimension \<times> int \<times> int option \<times> string option \<Rightarrow> unit guarded" where
  "settle_check item = (case item of (dimension, used, limit, k) \<Rightarrow>
     case limit of
       None \<Rightarrow> Inr ()
     | Some m \<Rightarrow> raise_if (m < used)
         (Tool_Budget_Exceeded dimension m used k Stage_Settlement True))"

definition enforce_tool_used :: "tool_call_ledger \<Rightarrow> string \<Rightarrow> unit guarded" where
  "enforce_tool_used l k = check_all settle_check
     [(Successful_Tool_Calls, successful_calls l,
         Some (max_successful_tool_calls (tl_policy l)), None),
      (Tool_Calls_By_Kind, dict_get (calls_by_kind l) k 0,
         Some (dict_get (max_tool_calls_by_kind (tl_policy l)) k 0), Some k),
      (Rows_Scanned, tl_rows_scanned l, max_rows_scanned (tl_policy l), None),
      (Result_Cells, tl_result_cells l, max_result_cells (tl_policy l), None)]"

definition enforce_resource_usage :: "tool_call_ledger \<Rightarrow> unit guarded" where
  "enforce_resource_usage l = check_all settle_check
     [(Rows_Scanned, tl_rows_scanned l, max_rows_scanned (tl_policy l), None),
      (Result_Cells, tl_result_cells l, max_result_cells (tl_policy l), None)]"

definition commit_success :: "tool_call_projection \<Rightarrow> tool_call_ledger \<Rightarrow> tool_call_ledger" where
  "commit_success actual l = l\<lparr>
     successful_calls := successful_calls l + 1,
     calls_by_kind := dict_set (kind actual) (dict_get (calls_by_kind l) (kind actual) 0 + 1)
       (calls_by_kind l),
     tl_rows_scanned := tl_rows_scanned l + rows_scanned actual,
     tl_result_cells := tl_result_cells l + result_cells actual\<rparr>"

definition record_success ::
  "string \<Rightarrow> int \<Rightarrow> int \<Rightarrow> tool_call_ledger \<Rightarrow> unit guarded \<times> tool_call_ledger" where
  "record_success k rows cells l = (case tool_call_projection_init k rows cells of
     Inl e \<Rightarrow> (Inl e, l)
   | Inr actual \<Rightarrow>
       let l' = commit_success actual l in (enforce_tool_used l' (kind actual), l'))"

definition record_failure_usage ::
  "string \<Rightarrow> int \<Rightarrow> int \<Rightarrow> tool_call_ledger \<Rightarrow> unit guarded \<times> tool_call_ledger" where
  "record_failure_usage k rows cells l = (case tool_call_projection_init k rows cells of
     Inl e \<Rightarrow> (Inl e, l)
   | Inr actual \<Rightarrow>
       let l' = l\<lparr>tl_rows_scanned := tl_rows_scanned l + rows_scanned actual,
                  tl_result_cells := tl_result_cells l + result_cells actual\<rparr>
       in (enforce_resource_usage l', l'))"

definition reached :: "int \<Rightarrow> int option \<Rightarrow> bool" where
  "reached used cap = (case cap of None \<Rightarrow> False | Some m \<Rightarrow> m \<le> used)"

definition ledger_kinds :: "tool_call_ledger \<Rightarrow> string list" where
  "ledger_kinds l =
     sort (remdups (dict_keys (max_tool_calls_by_kind (tl_policy l)) @ dict_keys (calls_by_kind l)))"

definition exhausted_dimensions :: "tool_call_ledger \<Rightarrow> string list" where
  "exhausted_dimensions l =
     (if max_successful_tool_calls (tl_policy l) \<le> successful_calls l
      then [''successful_tool_calls''] else []) @
     map (\<lambda>k. ''tool_calls_by_kind:'' @ k)
       (filter (\<lambda>k. dict_get (max_tool_calls_by_kind (tl_policy l)) k 0
                    \<le> dict_get (calls_by_kind l) k 0) (ledger_kinds l)) @
     (if reached (tl_rows_scanned l) (max_rows_scanned (tl_policy l))
      then [''rows_scanned''] else []) @
     (if reached (tl_result_cells l) (max_result_cells (tl_policy l))
      then [''result_cells''] else [])"

record tool_remaining =
  rem_successful_tool_calls :: int
  rem_tool_calls_by_kind :: "(string \<times> int) list"
  rem_rows_scanned :: "int option"
  rem_result_cells :: "int option"

definition ledger_remaining :: "tool_call_ledger \<Rightarrow> tool_remaining" where
  "ledger_remaining l =
     \<lparr>rem_successful_tool_calls =
        max 0 (max_successful_tool_calls (tl_policy l) - successful_calls l),
      rem_tool_calls_by_kind =
        map (\<lambda>(k, cap). (k, max 0 (cap - dict_get (calls_by_kind l) k 0)))
          (sort_key fst (max_tool_calls_by_kind (tl_policy l))),
      rem_rows_scanned =
        map_option (\<lambda>cap. max 0 (cap - tl_rows_scanned l)) (max_rows_scanned (tl_policy l)),
      rem_result_cells =
        map_option (\<lambda>cap. max 0 (cap - tl_result_cells l)) (max_result_cells (tl_policy l))\<rparr>"

section \<open>Snapshots\<close>

text \<open>A snapshot is a mapping whose values are numbers, or a mapping of kinds to numbers.\<close>

datatype snapshot_value =
    Snap_Value py_value
  | Snap_Mapping "(py_value \<times> py_value) list"

type_synonym ledger_snapshot = "(string, snapshot_value) dict"

definition snapshot :: "tool_call_ledger \<Rightarrow> ledger_snapshot" where
  "snapshot l =
     [(''successful_tool_calls'', Snap_Value (PyInt (successful_calls l))),
      (''calls_by_kind'', Snap_Mapping (map (\<lambda>(k, n). (PyStr k, PyInt n))
         (sort_key fst (calls_by_kind l)))),
      (''rows_scanned'', Snap_Value (PyInt (tl_rows_scanned l))),
      (''result_cells'', Snap_Value (PyInt (tl_result_cells l)))]"

definition snapshot_keys :: "string list" where
  "snapshot_keys = [''successful_tool_calls'', ''calls_by_kind'', ''rows_scanned'', ''result_cells'']"

definition snapshot_count :: "string \<Rightarrow> snapshot_value \<Rightarrow> int guarded" where
  "snapshot_count name value = (case value of
     Snap_Value (PyInt n) \<Rightarrow> bind_res (validate_count name (PyInt n)) (\<lambda>_. Inr n)
   | Snap_Value v \<Rightarrow> bind_res (validate_count name v) (\<lambda>_. Inr 0)
   | Snap_Mapping _ \<Rightarrow> Inl (Tool_Type_Error (name @ '' must be an integer.'')))"

definition snapshot_entry :: "py_value \<times> py_value \<Rightarrow> (string \<times> int) guarded" where
  "snapshot_entry entry = (case entry of
     (PyStr k, cnt) \<Rightarrow>
       bind_res (raise_if (py_strip k = [])
         (Tool_Value_Error ''calls_by_kind keys must be non-empty strings.'')) (\<lambda>_.
       bind_res (snapshot_count (''calls_by_kind['' @ k @ '']'') (Snap_Value cnt)) (\<lambda>n.
       Inr (k, n)))
   | _ \<Rightarrow> Inl (Tool_Value_Error ''calls_by_kind keys must be non-empty strings.''))"

fun snapshot_entries :: "(py_value \<times> py_value) list \<Rightarrow> (string, int) dict guarded" where
  "snapshot_entries [] = Inr []"
| "snapshot_entries (e # es) =
     bind_res (snapshot_entry e) (\<lambda>p. bind_res (snapshot_entries es) (\<lambda>ps. Inr (p # ps)))"

definition snapshot_kinds :: "snapshot_value \<Rightarrow> (string, int) dict guarded" where
  "snapshot_kinds value = (case value of
     Snap_Mapping es \<Rightarrow> snapshot_entries es
   | Snap_Value _ \<Rightarrow> Inl (Tool_Value_Error ''calls_by_kind must be a mapping.''))"

definition snapshot_field :: "ledger_snapshot \<Rightarrow> string \<Rightarrow> snapshot_value" where
  "snapshot_field snap name = dict_get snap name (Snap_Value PyNone)"

definition restore :: "exploration_budget_policy \<Rightarrow> ledger_snapshot \<Rightarrow> tool_call_ledger guarded" where
  "restore pol snap =
     bind_res (raise_if (set (dict_keys snap) \<noteq> set snapshot_keys)
       (Tool_Value_Error ''snapshot keys must be exactly the counter names.'')) (\<lambda>_.
     bind_res (snapshot_count ''successful_tool_calls''
       (snapshot_field snap ''successful_tool_calls'')) (\<lambda>calls.
     bind_res (snapshot_count ''rows_scanned'' (snapshot_field snap ''rows_scanned'')) (\<lambda>rows.
     bind_res (snapshot_count ''result_cells'' (snapshot_field snap ''result_cells'')) (\<lambda>cells.
     bind_res (snapshot_kinds (snapshot_field snap ''calls_by_kind'')) (\<lambda>kinds.
     bind_res (raise_if (dict_sum (\<lambda>n. n) kinds \<noteq> calls)
       (Tool_Value_Error ''calls_by_kind must sum to successful_tool_calls.'')) (\<lambda>_.
     Inr ((new_ledger pol)\<lparr>successful_calls := calls, calls_by_kind := kinds,
            tl_rows_scanned := rows, tl_result_cells := cells\<rparr>)))))))"

section \<open>Amending a policy\<close>

fun raised :: "'a::plus option \<Rightarrow> 'a \<Rightarrow> 'a option" where
  "raised None delta = None"
| "raised (Some cap) delta = Some (cap + delta)"

definition increased_llm ::
  "session_budget_policy_model \<Rightarrow> budget_cap_increase \<Rightarrow> session_budget_policy_model" where
  "increased_llm m i = \<lparr>
     pm_max_requests = raised (pm_max_requests m) (ci_max_requests i),
     pm_max_input_tokens = raised (pm_max_input_tokens m) (ci_max_input_tokens i),
     pm_max_output_tokens = raised (pm_max_output_tokens m) (ci_max_output_tokens i),
     pm_max_total_tokens = raised (pm_max_total_tokens m) (ci_max_total_tokens i),
     pm_max_cost_usd = raised (pm_max_cost_usd m) (ci_max_cost_usd i),
     pm_max_wall_seconds = raised (pm_max_wall_seconds m) (ci_max_wall_seconds i),
     pm_protected_requests = pm_protected_requests m,
     pm_protected_input_tokens = pm_protected_input_tokens m,
     pm_protected_output_tokens = pm_protected_output_tokens m,
     pm_protected_total_tokens = pm_protected_total_tokens m,
     pm_protected_cost_usd = pm_protected_cost_usd m,
     pm_unknown_usage_policy = pm_unknown_usage_policy m\<rparr>"

definition merged_kinds :: "(string, int) dict \<Rightarrow> (string, int) dict \<Rightarrow> (string, int) dict" where
  "merged_kinds base deltas =
     foldl (\<lambda>d (k, delta). dict_set k (dict_get d k 0 + delta) d) base deltas"

text \<open>The amended policy names every field but \<open>branching\<close>, which takes its default.\<close>

definition increased_policy ::
  "exploration_budget_policy \<Rightarrow> budget_cap_increase \<Rightarrow> exploration_budget_policy" where
  "increased_policy p i = \<lparr>
     llm = increased_llm (llm p) i,
     max_successful_tool_calls = max_successful_tool_calls p + ci_max_successful_tool_calls i,
     max_tool_calls_by_kind =
       merged_kinds (max_tool_calls_by_kind p) (ci_max_tool_calls_by_kind i),
     max_rows_scanned = raised (max_rows_scanned p) (ci_max_rows_scanned i),
     max_result_cells = raised (max_result_cells p) (ci_max_result_cells i),
     idle_timeout_seconds = idle_timeout_seconds p,
     max_rounds = max_rounds p + ci_max_rounds i,
     branching = None\<rparr>"

definition apply_increase ::
  "exploration_budget_policy \<Rightarrow> budget_cap_increase \<Rightarrow> exploration_budget_policy guarded" where
  "apply_increase p i =
     bind_res (raise_if (\<not> policy_model_valid (increased_llm (llm p) i)) Schema_Violation) (\<lambda>_.
     bind_res (raise_if (\<not> budget_policy_valid (increased_policy p i)) Schema_Violation) (\<lambda>_.
     Inr (increased_policy p i)))"

definition not_lowered :: "py_real option \<Rightarrow> py_real option \<Rightarrow> bool" where
  "not_lowered old new = (case old of
     None \<Rightarrow> new = None
   | Some a \<Rightarrow> (case new of None \<Rightarrow> True | Some b \<Rightarrow> real_le a b))"

definition cap_pairs ::
  "exploration_budget_policy \<Rightarrow> exploration_budget_policy \<Rightarrow>
   (string \<times> py_real option \<times> py_real option) list" where
  "cap_pairs old new =
     (let ints = map_option (\<lambda>n. Finite (of_int n)) in
     [(''llm.max_requests'', ints (pm_max_requests (llm old)), ints (pm_max_requests (llm new))),
      (''llm.max_input_tokens'', ints (pm_max_input_tokens (llm old)),
         ints (pm_max_input_tokens (llm new))),
      (''llm.max_output_tokens'', ints (pm_max_output_tokens (llm old)),
         ints (pm_max_output_tokens (llm new))),
      (''llm.max_total_tokens'', ints (pm_max_total_tokens (llm old)),
         ints (pm_max_total_tokens (llm new))),
      (''llm.max_cost_usd'', map_option Finite (pm_max_cost_usd (llm old)),
         map_option Finite (pm_max_cost_usd (llm new))),
      (''llm.max_wall_seconds'', pm_max_wall_seconds (llm old), pm_max_wall_seconds (llm new)),
      (''max_successful_tool_calls'', Some (Finite (of_int (max_successful_tool_calls old))),
         Some (Finite (of_int (max_successful_tool_calls new)))),
      (''max_rows_scanned'', ints (max_rows_scanned old), ints (max_rows_scanned new)),
      (''max_result_cells'', ints (max_result_cells old), ints (max_result_cells new)),
      (''max_rounds'', Some (Finite (of_int (max_rounds old))),
         Some (Finite (of_int (max_rounds new))))])"

definition frozen_pairs ::
  "exploration_budget_policy \<Rightarrow> exploration_budget_policy \<Rightarrow> (string \<times> bool) list" where
  "frozen_pairs old new =
     [(''idle_timeout_seconds'', real_eq (idle_timeout_seconds old) (idle_timeout_seconds new)),
      (''llm.protected_requests'',
         pm_protected_requests (llm old) = pm_protected_requests (llm new)),
      (''llm.protected_input_tokens'',
         pm_protected_input_tokens (llm old) = pm_protected_input_tokens (llm new)),
      (''llm.protected_output_tokens'',
         pm_protected_output_tokens (llm old) = pm_protected_output_tokens (llm new)),
      (''llm.protected_total_tokens'',
         pm_protected_total_tokens (llm old) = pm_protected_total_tokens (llm new)),
      (''llm.protected_cost_usd'',
         pm_protected_cost_usd (llm old) = pm_protected_cost_usd (llm new)),
      (''llm.unknown_usage_policy'',
         pm_unknown_usage_policy (llm old) = pm_unknown_usage_policy (llm new))]"

definition verify_monotonic ::
  "exploration_budget_policy \<Rightarrow> exploration_budget_policy \<Rightarrow> unit guarded" where
  "verify_monotonic old new =
     bind_res (check_all (\<lambda>(name, o', n'). raise_if (\<not> not_lowered o' n')
       (Amendment_Error (name @ '' may not be lowered''))) (cap_pairs old new)) (\<lambda>_.
     bind_res (check_all (\<lambda>(k, old_cap).
       raise_if (dict_get (max_tool_calls_by_kind new) k 0 < old_cap)
         (Amendment_Error (''max_tool_calls_by_kind['' @ k @ ''] may not be lowered'')))
       (max_tool_calls_by_kind old)) (\<lambda>_.
     check_all (\<lambda>(name, same). raise_if (\<not> same)
       (Amendment_Error (name @ '' may not change via amendment''))) (frozen_pairs old new)))"

definition update_policy ::
  "exploration_budget_policy \<Rightarrow> tool_call_ledger \<Rightarrow> unit guarded \<times> tool_call_ledger" where
  "update_policy new l = (case verify_monotonic (tl_policy l) new of
     Inl e \<Rightarrow> (Inl e, l)
   | Inr _ \<Rightarrow> (Inr (), l\<lparr>tl_policy := new\<rparr>))"

definition apply_budget_increase ::
  "exploration_budget_policy \<Rightarrow> budget_cap_increase \<Rightarrow> exploration_budget_policy guarded" where
  "apply_budget_increase p i =
     bind_res (raise_if (\<not> increase_valid i) Schema_Violation) (\<lambda>_.
     bind_res (apply_increase p i) (\<lambda>amended.
     bind_res (verify_monotonic p amended) (\<lambda>_. Inr amended)))"

text \<open>
  The digest of a policy is the hash of its fields; the hash function is a parameter.
\<close>

fun amend_chain ::
  "(exploration_budget_policy \<Rightarrow> string) \<Rightarrow> string list \<Rightarrow> exploration_budget_policy \<Rightarrow> string \<Rightarrow>
   budget_amendment list \<Rightarrow> exploration_budget_policy guarded" where
  "amend_chain policy_fingerprint seen current fingerprint [] = Inr current"
| "amend_chain policy_fingerprint seen current fingerprint (link # chain) =
     bind_res (raise_if (\<not> amendment_valid link)
       (Amendment_Error ''amendment failed schema validation'')) (\<lambda>_.
     bind_res (raise_if (amendment_id link \<in> set seen)
       (Amendment_Error (amendment_id link @ '' replayed in chain.''))) (\<lambda>_.
     bind_res (raise_if (previous_effective_fingerprint link \<noteq> fingerprint)
       (Amendment_Error (amendment_id link @ '' expects another fingerprint''))) (\<lambda>_.
     bind_res (apply_increase current (increase link)) (\<lambda>amended.
     bind_res (verify_monotonic current amended) (\<lambda>_.
     amend_chain policy_fingerprint (amendment_id link # seen) amended
       (policy_fingerprint amended) chain)))))"

definition effective_policy ::
  "(exploration_budget_policy \<Rightarrow> string) \<Rightarrow> exploration_budget_policy \<Rightarrow>
   budget_amendment list \<Rightarrow> exploration_budget_policy guarded" where
  "effective_policy policy_fingerprint base chain =
     amend_chain policy_fingerprint [] base (policy_fingerprint base) chain"

fun protected_attr :: "session_budget_policy_model \<Rightarrow> reservable \<Rightarrow> rat" where
  "protected_attr m Requests = of_int (pm_protected_requests m)"
| "protected_attr m Input_Tokens = of_int (pm_protected_input_tokens m)"
| "protected_attr m Output_Tokens = of_int (pm_protected_output_tokens m)"
| "protected_attr m Total_Tokens = of_int (pm_protected_total_tokens m)"
| "protected_attr m Cost_Usd = pm_protected_cost_usd m"

definition finalization_view ::
  "rat \<Rightarrow> exploration_budget_policy \<Rightarrow> session_budget_state option \<Rightarrow>
   (reservable \<times> rat \<times> rat option) list" where
  "finalization_view monotonic p st = map (\<lambda>d. (d, protected_attr (llm p) d,
     case st of None \<Rightarrow> None | Some s \<Rightarrow> remaining_capacity monotonic s (Reservable d) True))
     reservable_dimensions"

section \<open>Batches\<close>

definition projection_ok :: "tool_call_projection \<Rightarrow> bool" where
  "projection_ok p \<longleftrightarrow> py_strip (kind p) \<noteq> [] \<and> 0 \<le> rows_scanned p \<and> 0 \<le> result_cells p"

lemma projection_init_iff:
  "tool_call_projection_init k rows cells = Inr p \<longleftrightarrow>
     p = \<lparr>kind = k, rows_scanned = rows, result_cells = cells\<rparr> \<and> projection_ok p"
  by (auto simp: tool_call_projection_init_def validate_count_def res_simps projection_ok_def)

lemma record_success_ok:
  assumes "projection_ok p"
  shows "record_success (kind p) (rows_scanned p) (result_cells p) l
     = (enforce_tool_used (commit_success p l) (kind p), commit_success p l)"
proof -
  have "tool_call_projection_init (kind p) (rows_scanned p) (result_cells p) = Inr p"
    using assms by (simp add: projection_init_iff)
  then show ?thesis by (simp add: record_success_def Let_def)
qed

text \<open>How often a kind occurs in a batch.\<close>

definition kind_count :: "tool_call_projection list \<Rightarrow> string \<Rightarrow> int" where
  "kind_count ps k = int (length (filter (\<lambda>p. kind p = k) ps))"

lemma kind_count_simps [simp]:
  "kind_count [] k = 0"
  "kind_count (p # ps) k = (if kind p = k then 1 else 0) + kind_count ps k"
  "kind_count (ps @ [p]) k = kind_count ps k + (if kind p = k then 1 else 0)"
  by (simp_all add: kind_count_def)

lemma kind_count_nonneg [simp]: "0 \<le> kind_count ps k"
  by (simp add: kind_count_def)

lemma batch_kinds_spec:
  "distinct (dict_keys (batch_kinds ps)) \<and>
   (\<forall>k. map_of (batch_kinds ps) k = (if kind_count ps k = 0 then None else Some (kind_count ps k)))"
proof (induction ps rule: rev_induct)
  case Nil
  then show ?case by (simp add: batch_kinds_def)
next
  case (snoc p ps)
  have step: "batch_kinds (ps @ [p]) =
      dict_set (kind p) (dict_get (batch_kinds ps) (kind p) 0 + 1) (batch_kinds ps)"
    by (simp add: batch_kinds_def)
  have "dict_get (batch_kinds ps) (kind p) 0 = kind_count ps (kind p)"
    using snoc by (simp add: dict_get_def)
  then show ?case
    using snoc kind_count_nonneg[of ps "kind p"] unfolding step
    by (auto simp: distinct_dict_set simp del: kind_count_nonneg)
qed

lemma batch_kinds_iff: "(k, n) \<in> set (batch_kinds ps) \<longleftrightarrow> n = kind_count ps k \<and> n \<noteq> 0"
proof -
  have "(k, n) \<in> set (batch_kinds ps) \<longleftrightarrow> map_of (batch_kinds ps) k = Some n"
    using batch_kinds_spec[of ps] by (metis map_of_eq_Some_iff)
  then show ?thesis using batch_kinds_spec[of ps] by auto
qed

text \<open>The amounts of a ledger, and when an amount respects its cap.\<close>

definition capped :: "int \<Rightarrow> int option \<Rightarrow> bool" where
  "capped used cap = (case cap of None \<Rightarrow> True | Some m \<Rightarrow> used \<le> m)"

definition kind_cap :: "tool_call_ledger \<Rightarrow> string \<Rightarrow> int" where
  "kind_cap l k = dict_get (max_tool_calls_by_kind (tl_policy l)) k 0"

definition kind_used :: "tool_call_ledger \<Rightarrow> string \<Rightarrow> int" where
  "kind_used l k = dict_get (calls_by_kind l) k 0"

definition batch_fits :: "tool_call_ledger \<Rightarrow> tool_call_projection list \<Rightarrow> bool" where
  "batch_fits l ps \<longleftrightarrow>
     successful_calls l + int (length ps) \<le> max_successful_tool_calls (tl_policy l) \<and>
     (\<forall>k \<in> kind ` set ps. kind_used l k + kind_count ps k \<le> kind_cap l k) \<and>
     capped (tl_rows_scanned l + sum_list (map rows_scanned ps)) (max_rows_scanned (tl_policy l)) \<and>
     capped (tl_result_cells l + sum_list (map result_cells ps)) (max_result_cells (tl_policy l))"

lemma enforce_tool_iff [res_simps]:
  "enforce_tool d used inc cap k = Inr u \<longleftrightarrow>
     cap = None \<or> inc = 0 \<or> (\<exists>m. cap = Some m \<and> used < m \<and> used + inc \<le> m)"
  by (auto simp: enforce_tool_def raise_if_iff split: option.splits)

lemma settle_check_iff [res_simps]: "settle_check (d, used, cap, k) = Inr u \<longleftrightarrow> capped used cap"
  by (cases cap) (auto simp: settle_check_def capped_def raise_if_iff)

lemma enforce_tool_used_iff [res_simps]:
  "enforce_tool_used l k = Inr u \<longleftrightarrow>
     successful_calls l \<le> max_successful_tool_calls (tl_policy l) \<and>
     kind_used l k \<le> kind_cap l k \<and>
     capped (tl_rows_scanned l) (max_rows_scanned (tl_policy l)) \<and>
     capped (tl_result_cells l) (max_result_cells (tl_policy l))"
  unfolding enforce_tool_used_def check_all_Inr_iff
  by (simp add: settle_check_iff kind_used_def kind_cap_def capped_def conj_commute)

lemma check_batch_iff:
  "check_batch l ps = Inr () \<longleftrightarrow>
     enforce_tool Successful_Tool_Calls (successful_calls l) (int (length ps))
       (Some (max_successful_tool_calls (tl_policy l))) None = Inr () \<and>
     (\<forall>k. kind_count ps k \<noteq> 0 \<longrightarrow>
        kind_used l k < kind_cap l k \<and> kind_used l k + kind_count ps k \<le> kind_cap l k) \<and>
     enforce_tool Rows_Scanned (tl_rows_scanned l) (sum_list (map rows_scanned ps))
       (max_rows_scanned (tl_policy l)) None = Inr () \<and>
     enforce_tool Result_Cells (tl_result_cells l) (sum_list (map result_cells ps))
       (max_result_cells (tl_policy l)) None = Inr ()"
proof -
  have kinds: "check_all (\<lambda>(k, cnt). enforce_tool Tool_Calls_By_Kind
             (dict_get (calls_by_kind l) k 0) cnt
             (Some (dict_get (max_tool_calls_by_kind (tl_policy l)) k 0)) (Some k)) (batch_kinds ps)
      = Inr () \<longleftrightarrow> (\<forall>k. kind_count ps k \<noteq> 0 \<longrightarrow>
        kind_used l k < kind_cap l k \<and> kind_used l k + kind_count ps k \<le> kind_cap l k)"
    by (auto simp: check_all_Inr_iff enforce_tool_iff batch_kinds_iff kind_used_def kind_cap_def
        split_beta) (metis batch_kinds_iff fst_conv snd_conv)+
  show ?thesis
    by (simp add: check_batch_def Let_def bind_res_Inr_iff kinds)
qed

lemma kind_count_mem: "k \<in> kind ` set ps \<Longrightarrow> kind_count ps k \<noteq> 0"
  by (auto simp: kind_count_def filter_empty_conv)

text \<open>What the pre-check accepts fits, given that nothing is over its cap yet.\<close>

lemma check_batch_fits:
  assumes "check_batch l ps = Inr ()"
    and "successful_calls l \<le> max_successful_tool_calls (tl_policy l)"
    and "capped (tl_rows_scanned l) (max_rows_scanned (tl_policy l))"
    and "capped (tl_result_cells l) (max_result_cells (tl_policy l))"
  shows "batch_fits l ps"
  using assms kind_count_mem
  by (auto simp: check_batch_iff batch_fits_def enforce_tool_iff capped_def split: option.splits)

lemma commit_success_simps [simp]:
  "tl_policy (commit_success p l) = tl_policy l"
  "successful_calls (commit_success p l) = successful_calls l + 1"
  "tl_rows_scanned (commit_success p l) = tl_rows_scanned l + rows_scanned p"
  "tl_result_cells (commit_success p l) = tl_result_cells l + result_cells p"
  "kind_cap (commit_success p l) k = kind_cap l k"
  "kind_used (commit_success p l) k = kind_used l k + (if k = kind p then 1 else 0)"
  by (simp_all add: commit_success_def kind_cap_def kind_used_def dict_get_set)

text \<open>Recording the calls of a batch one after the other; the first exception ends it.\<close>

fun record_batch ::
  "tool_call_ledger \<Rightarrow> tool_call_projection list \<Rightarrow> unit guarded \<times> tool_call_ledger" where
  "record_batch l [] = (Inr (), l)"
| "record_batch l (p # ps) =
     (case record_success (kind p) (rows_scanned p) (result_cells p) l of
        (Inl e, l') \<Rightarrow> (Inl e, l')
      | (Inr _, l') \<Rightarrow> record_batch l' ps)"

lemma sum_rows_nonneg:
  "\<forall>p \<in> set ps. projection_ok p \<Longrightarrow> 0 \<le> sum_list (map rows_scanned ps)"
  "\<forall>p \<in> set ps. projection_ok p \<Longrightarrow> 0 \<le> sum_list (map result_cells ps)"
  by (auto intro!: sum_list_nonneg simp: projection_ok_def)

lemma batch_fits_Cons:
  assumes "batch_fits l (p # ps)" "\<forall>q \<in> set (p # ps). projection_ok q"
  shows "enforce_tool_used (commit_success p l) (kind p) = Inr ()"
    and "batch_fits (commit_success p l) ps"
proof -
  have nn: "0 \<le> sum_list (map rows_scanned ps)" "0 \<le> sum_list (map result_cells ps)"
    using sum_rows_nonneg[of ps] assms(2) by auto
  show "enforce_tool_used (commit_success p l) (kind p) = Inr ()"
    using assms(1) nn kind_count_nonneg[of ps "kind p"]
    by (auto simp: batch_fits_def enforce_tool_used_iff capped_def simp del: kind_count_nonneg
        split: option.splits)
  show "batch_fits (commit_success p l) ps"
    using assms(1) by (auto simp: batch_fits_def algebra_simps)
qed

lemma record_batch_fits:
  assumes "batch_fits l ps" "\<forall>p \<in> set ps. projection_ok p"
  shows "record_batch l ps = (Inr (), foldl (\<lambda>l p. commit_success p l) l ps)"
  using assms
proof (induction ps arbitrary: l)
  case (Cons p ps)
  note step = batch_fits_Cons[OF Cons.prems]
  have "projection_ok p" using Cons.prems(2) by simp
  then show ?case
    using Cons.IH[OF step(2)] Cons.prems(2) by (simp add: record_success_ok step(1))
qed simp

section \<open>The ledger as a component\<close>

datatype tool_op =
    Op_Success string int int
  | Op_Failure string int int
  | Op_Update_Policy exploration_budget_policy

fun tool_step :: "tool_call_ledger \<Rightarrow> tool_op \<Rightarrow> tool_call_ledger" where
  "tool_step l (Op_Success k rows cells) = snd (record_success k rows cells l)"
| "tool_step l (Op_Failure k rows cells) = snd (record_failure_usage k rows cells l)"
| "tool_step l (Op_Update_Policy p) = snd (update_policy p l)"

definition ledger_wf :: "tool_call_ledger \<Rightarrow> bool" where
  "ledger_wf l \<longleftrightarrow>
     distinct (dict_keys (calls_by_kind l)) \<and>
     (\<forall>(k, n) \<in> set (calls_by_kind l). py_strip k \<noteq> [] \<and> 0 \<le> n) \<and>
     dict_sum (\<lambda>n. n) (calls_by_kind l) = successful_calls l \<and>
     0 \<le> successful_calls l \<and> 0 \<le> tl_rows_scanned l \<and> 0 \<le> tl_result_cells l"

lemma new_ledger_wf: "ledger_wf (new_ledger p)"
  by (simp add: ledger_wf_def new_ledger_def)

lemma dict_set_entries:
  "(j, m) \<in> set (dict_set k v d) \<Longrightarrow> (j, m) = (k, v) \<or> (j, m) \<in> set d"
  by (induction d) (auto split: if_splits)

lemma commit_success_wf:
  assumes "ledger_wf l" "projection_ok p"
  shows "ledger_wf (commit_success p l)"
proof -
  let ?n = "dict_get (calls_by_kind l) (kind p) 0"
  have dist: "distinct (dict_keys (calls_by_kind l))" using assms by (simp add: ledger_wf_def)
  have "0 \<le> ?n"
    using assms(1) by (auto simp: dict_get_def ledger_wf_def split: option.split dest!: map_of_SomeD)
  moreover have "dict_sum (\<lambda>n. n) (dict_set (kind p) (?n + 1) (calls_by_kind l))
      = dict_sum (\<lambda>n. n) (calls_by_kind l) + 1"
    unfolding dict_sum_set[OF dist] by (simp add: dict_get_def split: option.split)
  ultimately show ?thesis
    using assms dist
    by (auto simp: ledger_wf_def commit_success_def projection_ok_def distinct_dict_set
        dest!: dict_set_entries)
qed

lemma tool_step_wf: "ledger_wf l \<Longrightarrow> ledger_wf (tool_step l oper)"
proof (cases oper)
  case (Op_Success k rows cells)
  assume wf: "ledger_wf l"
  show ?thesis
  proof (cases "tool_call_projection_init k rows cells")
    case (Inr p)
    then have "projection_ok p" using projection_init_iff by blast
    then show ?thesis
      using Op_Success Inr commit_success_wf[OF wf] by (simp add: record_success_def Let_def)
  qed (use wf Op_Success in \<open>simp add: record_success_def\<close>)
qed (auto simp: ledger_wf_def record_failure_usage_def update_policy_def Let_def
    projection_init_iff projection_ok_def split: sum.splits)

text \<open>Successful calls, rows and cells of a ledger: none of them ever decreases.\<close>

fun ledger_meter :: "tool_call_ledger \<Rightarrow> nat \<Rightarrow> int" where
  "ledger_meter l 0 = successful_calls l"
| "ledger_meter l (Suc 0) = tl_rows_scanned l"
| "ledger_meter l _ = tl_result_cells l"

lemma tool_step_meter: "ledger_meter l \<le> ledger_meter (tool_step l oper)"
proof (rule le_funI)
  fix n
  have "successful_calls l \<le> successful_calls (tool_step l oper) \<and>
      tl_rows_scanned l \<le> tl_rows_scanned (tool_step l oper) \<and>
      tl_result_cells l \<le> tl_result_cells (tool_step l oper)"
    by (cases oper) (auto simp: record_success_def record_failure_usage_def update_policy_def
        Let_def projection_init_iff projection_ok_def split: sum.splits)
  then show "ledger_meter l n \<le> ledger_meter (tool_step l oper) n"
    by (cases "(l, n)" rule: ledger_meter.cases) auto
qed

interpretation tool: metered_component tool_step ledger_wf ledger_meter
  by unfold_locales (simp_all add: tool_step_wf tool_step_meter)

section \<open>Snapshots restore\<close>

lemma snapshot_count_int: "0 \<le> n \<Longrightarrow> snapshot_count name (Snap_Value (PyInt n)) = Inr n"
  by (simp add: snapshot_count_def validate_count_def)

lemma snapshot_entries_ints:
  "\<forall>(k, n) \<in> set d. py_strip k \<noteq> [] \<and> 0 \<le> n \<Longrightarrow>
     snapshot_entries (map (\<lambda>(k, n). (PyStr k, PyInt n)) d) = Inr d"
  by (induction d) (auto simp: snapshot_entry_def snapshot_count_int raise_if_def)

lemma dict_sum_sort_key:
  fixes f :: "'v \<Rightarrow> 'a::comm_monoid_add" and d :: "('k, 'v) dict"
  shows "dict_sum f (sort_key g d) = dict_sum f d"
proof -
  have "dict_sum f xs = sum_mset (image_mset (\<lambda>p. f (snd p)) (mset xs))" for xs :: "('k \<times> 'v) list"
    by (simp add: dict_sum_def sum_mset_sum_list flip: mset_map)
  then show ?thesis by simp
qed

lemma restore_snapshot:
  assumes "ledger_wf l"
  shows "restore p (snapshot l) = Inr (l\<lparr>tl_policy := p, calls_by_kind := sort_key fst (calls_by_kind l)\<rparr>)"
proof -
  have entries: "snapshot_entries (map (\<lambda>(k, n). (PyStr k, PyInt n)) (sort_key fst (calls_by_kind l)))
      = Inr (sort_key fst (calls_by_kind l))"
    using assms by (intro snapshot_entries_ints) (simp add: ledger_wf_def)
  have "set (dict_keys (snapshot l)) = set snapshot_keys"
    by (simp add: snapshot_def snapshot_keys_def)
  moreover have "snapshot_field (snapshot l) ''successful_tool_calls''
        = Snap_Value (PyInt (successful_calls l))"
    "snapshot_field (snapshot l) ''rows_scanned'' = Snap_Value (PyInt (tl_rows_scanned l))"
    "snapshot_field (snapshot l) ''result_cells'' = Snap_Value (PyInt (tl_result_cells l))"
    "snapshot_field (snapshot l) ''calls_by_kind'' = Snap_Mapping (map (\<lambda>(k, n). (PyStr k, PyInt n))
         (sort_key fst (calls_by_kind l)))"
    by (simp_all add: snapshot_field_def snapshot_def dict_get_def)
  ultimately show ?thesis
    using assms by (simp add: restore_def snapshot_count_int snapshot_kinds_def entries
        dict_sum_sort_key ledger_wf_def new_ledger_def)
qed

section \<open>Amendments\<close>

definition amended_from :: "exploration_budget_policy \<Rightarrow> exploration_budget_policy \<Rightarrow> bool" where
  "amended_from old new \<longleftrightarrow>
     (\<forall>(n, a, b) \<in> set (cap_pairs old new). not_lowered a b) \<and>
     (\<forall>(k, c) \<in> set (max_tool_calls_by_kind old). c \<le> dict_get (max_tool_calls_by_kind new) k 0) \<and>
     (\<forall>(n, same) \<in> set (frozen_pairs old new). same)"

lemma verify_monotonic_iff [res_simps]:
  "verify_monotonic old new = Inr u \<longleftrightarrow> amended_from old new"
  unfolding verify_monotonic_def bind_res_Inr_iff check_all_Inr_iff amended_from_def
  by (auto simp: raise_if_iff not_less)

lemma not_lowered_refl [simp]: "a \<noteq> Some Not_A_Number \<Longrightarrow> not_lowered a a"
  by (cases a) (simp_all add: not_lowered_def)

lemma not_lowered_finite [simp]: "not_lowered (map_option (\<lambda>x. Finite (f x)) a) (map_option (\<lambda>x. Finite (f x)) a)"
  by (cases a) (simp_all add: not_lowered_def)

lemma not_lowered_trans: "not_lowered a b \<Longrightarrow> not_lowered b c \<Longrightarrow> not_lowered a c"
  by (cases a; cases b; cases c) (auto simp: not_lowered_def intro: real_le_trans)

lemma valid_policy_kinds:
  assumes "budget_policy_valid p"
  shows "distinct (dict_keys (max_tool_calls_by_kind p))"
    and "(k, c) \<in> set (max_tool_calls_by_kind p) \<Longrightarrow> 1 \<le> c"
    and "0 \<le> dict_get (max_tool_calls_by_kind p) k 0"
proof -
  show "distinct (dict_keys (max_tool_calls_by_kind p))"
    using assms by (simp add: budget_policy_valid_def)
  show caps: "(k, c) \<in> set (max_tool_calls_by_kind p) \<Longrightarrow> 1 \<le> c" for c
    using assms by (auto simp: budget_policy_valid_def list_all_iff)
  show "0 \<le> dict_get (max_tool_calls_by_kind p) k 0"
    using caps by (fastforce simp: dict_get_def split: option.split dest!: map_of_SomeD)
qed

lemma valid_policy_get:
  "budget_policy_valid p \<Longrightarrow> (k, c) \<in> set (max_tool_calls_by_kind p) \<Longrightarrow>
     dict_get (max_tool_calls_by_kind p) k 0 = c"
  using valid_policy_kinds(1)[of p] by (simp add: dict_get_def)

lemma valid_policy_seconds:
  assumes "budget_policy_valid p"
  shows "pm_max_wall_seconds (llm p) \<noteq> Some Not_A_Number" "pm_max_wall_seconds (llm p) \<noteq> Some Neg_Infinity"
    "real_eq (idle_timeout_seconds p) (idle_timeout_seconds p)"
  using assms by (cases "idle_timeout_seconds p";
    auto simp: budget_policy_valid_def policy_model_valid_def model_fields_ok_def positive_seconds_def)+

lemma amended_from_refl: "budget_policy_valid p \<Longrightarrow> amended_from p p"
  by (auto simp: amended_from_def cap_pairs_def frozen_pairs_def Let_def valid_policy_get valid_policy_seconds)

lemma amended_from_trans:
  assumes ab: "amended_from a b" and bc: "amended_from b c" and v: "budget_policy_valid c"
  shows "amended_from a c"
proof -
  have "\<forall>(n, x, y) \<in> set (cap_pairs a c). not_lowered x y"
    using ab bc by (auto simp: amended_from_def cap_pairs_def Let_def intro: not_lowered_trans)
  moreover have "\<forall>(n, same) \<in> set (frozen_pairs a c). same"
    using ab bc by (simp add: amended_from_def frozen_pairs_def real_eq_trans[of _ "idle_timeout_seconds b"])
  moreover have "x \<le> dict_get (max_tool_calls_by_kind c) k 0"
    if "(k, x) \<in> set (max_tool_calls_by_kind a)" for k x
  proof -
    have "x \<le> dict_get (max_tool_calls_by_kind b) k 0"
      using ab that by (auto simp: amended_from_def)
    also have "\<dots> \<le> dict_get (max_tool_calls_by_kind c) k 0"
      using bc valid_policy_kinds(3)[OF v, of k]
      by (auto simp: amended_from_def dict_get_def[of "max_tool_calls_by_kind b"]
          split: option.split dest!: map_of_SomeD)
    finally show ?thesis .
  qed
  ultimately show ?thesis by (auto simp: amended_from_def)
qed

lemma apply_increase_Inr_iff [res_simps]:
  "apply_increase p i = Inr q \<longleftrightarrow>
     q = increased_policy p i \<and> policy_model_valid (increased_llm (llm p) i) \<and>
     budget_policy_valid q"
  by (auto simp: apply_increase_def bind_res_Inr_iff raise_if_iff)

lemma amend_chain_sound:
  assumes "amend_chain fp seen current fingerprint chain = Inr p" "budget_policy_valid current"
  shows "amended_from current p \<and> budget_policy_valid p \<and> distinct (map amendment_id chain) \<and>
     set (map amendment_id chain) \<inter> set seen = {} \<and> list_all amendment_valid chain \<and>
     (chain \<noteq> [] \<longrightarrow> branching p = None)"
  using assms
proof (induction fp seen current fingerprint chain rule: amend_chain.induct)
  case (1 fp seen current fingerprint)
  then show ?case by (simp add: amended_from_refl)
next
  case (2 fp seen current fingerprint link chain)
  let ?next = "increased_policy current (increase link)"
  from 2(2) have link: "amendment_valid link" "amendment_id link \<notin> set seen"
      "previous_effective_fingerprint link = fingerprint"
      "apply_increase current (increase link) = Inr ?next" "budget_policy_valid ?next"
      "amended_from current ?next"
      "amend_chain fp (amendment_id link # seen) ?next (fp ?next) chain = Inr p"
    by (auto simp: bind_res_Inr_iff raise_if_iff apply_increase_Inr_iff verify_monotonic_iff)
  have IH: "amended_from ?next p \<and> budget_policy_valid p \<and> distinct (map amendment_id chain) \<and>
     set (map amendment_id chain) \<inter> set (amendment_id link # seen) = {} \<and>
     list_all amendment_valid chain \<and> (chain \<noteq> [] \<longrightarrow> branching p = None)"
    by (rule 2(1)[OF link(7,5)])
  moreover have "chain = [] \<Longrightarrow> branching p = None"
    using link(7) by (auto simp: increased_policy_def)
  ultimately show ?case
    using link amended_from_trans[OF link(6)] by (cases "chain = []") auto
qed

text \<open>A valid increase of a valid policy is itself valid and never lowers anything.\<close>

lemma merged_kinds_map:
  assumes "distinct (dict_keys deltas)"
  shows "map_of (merged_kinds base deltas) k = (case map_of deltas k of
     None \<Rightarrow> map_of base k | Some delta \<Rightarrow> Some (dict_get base k 0 + delta))"
  using assms
proof (induction deltas arbitrary: base)
  case (Cons p deltas)
  obtain j d where p: "p = (j, d)" by (cases p)
  have step: "merged_kinds base (p # deltas) =
      merged_kinds (dict_set j (dict_get base j 0 + d) base) deltas"
    by (simp add: merged_kinds_def p)
  have new: "map_of deltas j = None" and dist: "distinct (dict_keys deltas)"
    using Cons.prems by (simp_all add: p map_of_eq_None_iff)
  show ?case
    unfolding step Cons.IH[OF dist] using new
    by (cases "k = j") (simp_all add: p dict_get_set split: option.split)
qed (simp add: merged_kinds_def)

lemma merged_kinds_distinct:
  "distinct (dict_keys base) \<Longrightarrow> distinct (dict_keys (merged_kinds base deltas))"
  by (induction deltas arbitrary: base)
    (auto simp: merged_kinds_def distinct_dict_set)

lemma merged_kinds_nonempty: "base \<noteq> [] \<Longrightarrow> merged_kinds base deltas \<noteq> []"
proof (induction deltas arbitrary: base)
  case (Cons p deltas)
  have "dict_set j v base \<noteq> []" for j v using Cons.prems by (cases base) auto
  with Cons.IH show ?case by (cases p) (simp add: merged_kinds_def)
qed (simp add: merged_kinds_def)

lemma increase_valid_nonneg:
  assumes "increase_valid i"
  shows "0 \<le> ci_max_requests i" "0 \<le> ci_max_input_tokens i" "0 \<le> ci_max_output_tokens i"
    "0 \<le> ci_max_total_tokens i" "0 \<le> ci_max_cost_usd i" "real_le (Finite 0) (ci_max_wall_seconds i)"
    "0 \<le> ci_max_successful_tool_calls i" "0 \<le> ci_max_rows_scanned i"
    "0 \<le> ci_max_result_cells i" "0 \<le> ci_max_rounds i"
    "distinct (dict_keys (ci_max_tool_calls_by_kind i))"
    "(k, d) \<in> set (ci_max_tool_calls_by_kind i) \<Longrightarrow> k \<noteq> [] \<and> 1 \<le> d"
  using assms by (auto simp: increase_valid_def increase_amounts_def list_all_iff)

lemma raised_bounds:
  fixes n :: int
  shows "at_least_one v \<Longrightarrow> 0 \<le> n \<Longrightarrow> at_least_one (raised v n)"
    and "positive w \<Longrightarrow> 0 \<le> q \<Longrightarrow> positive (raised w q)"
    and "positive_seconds s \<Longrightarrow> real_le (Finite 0) d \<Longrightarrow> positive_seconds (raised s d)"
    and "0 \<le> n \<Longrightarrow> not_lowered (map_option (\<lambda>n. Finite (of_int n)) v) (map_option (\<lambda>n. Finite (of_int n)) (raised v n))"
    and "0 \<le> q \<Longrightarrow> not_lowered (map_option Finite w) (map_option Finite (raised w q))"
    and "s \<noteq> Some Not_A_Number \<Longrightarrow> s \<noteq> Some Neg_Infinity \<Longrightarrow> real_le (Finite 0) d \<Longrightarrow> not_lowered s (raised s d)"
proof -
  show "positive_seconds s \<Longrightarrow> real_le (Finite 0) d \<Longrightarrow> positive_seconds (raised s d)"
    by (cases s; cases "the s"; cases d)
      (auto simp: positive_seconds_def plus_py_real_def real_le_def)
  show "s \<noteq> Some Not_A_Number \<Longrightarrow> s \<noteq> Some Neg_Infinity \<Longrightarrow> real_le (Finite 0) d \<Longrightarrow> not_lowered s (raised s d)"
    by (cases s) (simp_all add: not_lowered_def real_le_add)
qed (cases v; cases w; simp add: at_least_one_def positive_def not_lowered_def)+

lemma protected_within_cap_raised:
  "protected_within_cap (n, p, cap) = Inr () \<Longrightarrow> 0 \<le> q \<Longrightarrow>
     protected_within_cap (n, p, raised cap q) = Inr ()"
  by (cases cap) (auto simp: protected_within_cap_iff)

lemma map_option_raised: "map_option of_int (raised v n) = raised (map_option rat_of_int v) (of_int n)"
  by (cases v) simp_all

lemma increased_llm_valid:
  assumes "policy_model_valid m" "increase_valid i"
  shows "policy_model_valid (increased_llm m i)"
proof -
  note nn = increase_valid_nonneg(1-6)[OF assms(2)]
  have "model_fields_ok (increased_llm m i)"
    using assms(1) nn
    by (simp add: policy_model_valid_def model_fields_ok_def increased_llm_def raised_bounds)
  moreover have "protected_within_caps (increased_llm m i) = Inr ()"
    using assms(1) nn unfolding policy_model_valid_def protected_within_caps_def check_all_Inr_iff
    by (simp add: model_pairs_def increased_llm_def map_option_raised protected_within_cap_raised)
  ultimately show ?thesis by (simp add: policy_model_valid_def)
qed

lemma increased_policy_valid:
  assumes p: "budget_policy_valid p" and i: "increase_valid i"
  shows "budget_policy_valid (increased_policy p i)"
proof -
  note nn = increase_valid_nonneg[OF i]
  have dist: "distinct (dict_keys (merged_kinds (max_tool_calls_by_kind p)
      (ci_max_tool_calls_by_kind i)))" (is "distinct (dict_keys ?m)")
    by (rule merged_kinds_distinct[OF valid_policy_kinds(1)[OF p]])
  have "k \<noteq> [] \<and> 1 \<le> c" if "(k, c) \<in> set ?m" for k c
  proof (cases "map_of (ci_max_tool_calls_by_kind i) k")
    case None
    with that dist have "map_of (max_tool_calls_by_kind p) k = Some c"
      using merged_kinds_map[OF nn(11), of "max_tool_calls_by_kind p" k] by simp
    then show ?thesis
      using p by (auto simp: budget_policy_valid_def list_all_iff dest!: map_of_SomeD)
  next
    case (Some d)
    with that dist have "c = dict_get (max_tool_calls_by_kind p) k 0 + d"
      using merged_kinds_map[OF nn(11), of "max_tool_calls_by_kind p" k] by simp
    with nn(12)[OF map_of_SomeD[OF Some]] valid_policy_kinds(3)[OF p, of k] show ?thesis by simp
  qed
  then show ?thesis
    using p nn dist increased_llm_valid[OF _ i, of "llm p"]
    by (auto simp: budget_policy_valid_def increased_policy_def raised_bounds list_all_iff
        merged_kinds_nonempty)
qed

lemma increased_policy_monotonic:
  assumes p: "budget_policy_valid p" and i: "increase_valid i"
  shows "amended_from p (increased_policy p i)"
proof -
  note nn = increase_valid_nonneg[OF i]
  have "\<forall>(n, a, b) \<in> set (cap_pairs p (increased_policy p i)). not_lowered a b"
    using nn(1-10) valid_policy_seconds(1,2)[OF p]
    by (simp add: cap_pairs_def Let_def increased_policy_def increased_llm_def raised_bounds)
      (simp add: not_lowered_def)
  moreover have "\<forall>(n, same) \<in> set (frozen_pairs p (increased_policy p i)). same"
    using valid_policy_seconds(3)[OF p] by (simp add: frozen_pairs_def increased_policy_def increased_llm_def)
  moreover have "c \<le> dict_get (max_tool_calls_by_kind (increased_policy p i)) k 0"
    if "(k, c) \<in> set (max_tool_calls_by_kind p)" for k c
  proof -
    have "map_of (max_tool_calls_by_kind p) k = Some c"
      using that valid_policy_kinds(1)[OF p] by simp
    then show ?thesis
      using merged_kinds_map[OF nn(11), of "max_tool_calls_by_kind p" k] nn(12)
      by (fastforce simp: dict_get_def increased_policy_def split: option.split dest: map_of_SomeD)
  qed
  ultimately show ?thesis by (auto simp: amended_from_def)
qed

section \<open>Properties\<close>

text \<open>The batch pre-check is sound: while no cap is exceeded, recording every call of an
  accepted batch at its projection raises nothing and commits exactly the batch.\<close>

theorem accepted_batch_commits:
  assumes "check_batch l ps = Inr ()" and "\<forall>p \<in> set ps. projection_ok p"
    and "successful_calls l \<le> max_successful_tool_calls (tl_policy l)"
    and "capped (tl_rows_scanned l) (max_rows_scanned (tl_policy l))"
    and "capped (tl_result_cells l) (max_result_cells (tl_policy l))"
  shows "record_batch l ps = (Inr (), foldl (\<lambda>l p. commit_success p l) l ps)"
  by (rule record_batch_fits[OF check_batch_fits[OF assms(1,3-5)] assms(2)])

text \<open>Failures are charged for what they scanned and for nothing else: the success
  counters are untouched whatever the outcome, and a well-formed report adds exactly its
  rows and cells even when it raises.\<close>

theorem failure_charges_resources_only:
  "let l' = snd (record_failure_usage k rows cells l) in
     successful_calls l' = successful_calls l \<and> calls_by_kind l' = calls_by_kind l \<and>
     tl_policy l' = tl_policy l \<and>
     (if projection_ok \<lparr>kind = k, rows_scanned = rows, result_cells = cells\<rparr>
      then tl_rows_scanned l' = tl_rows_scanned l + rows \<and>
           tl_result_cells l' = tl_result_cells l + cells
      else l' = l)"
proof (cases "tool_call_projection_init k rows cells")
  case (Inl e)
  then have "\<not> projection_ok \<lparr>kind = k, rows_scanned = rows, result_cells = cells\<rparr>"
    using projection_init_iff[of k rows cells] by auto
  with Inl show ?thesis by (simp add: record_failure_usage_def)
next
  case (Inr p)
  then have "p = \<lparr>kind = k, rows_scanned = rows, result_cells = cells\<rparr>" "projection_ok p"
    using projection_init_iff[of k rows cells p] by auto
  with Inr show ?thesis by (simp add: record_failure_usage_def Let_def)
qed

text \<open>Latching agrees with admission: a call that scans nothing is admitted exactly when
  the total is not listed as exhausted and its kind is known and not listed as exhausted.\<close>

theorem exhausted_iff_not_admitted:
  "check_batch l [\<lparr>kind = k, rows_scanned = 0, result_cells = 0\<rparr>] = Inr () \<longleftrightarrow>
     ''successful_tool_calls'' \<notin> set (exhausted_dimensions l) \<and> k \<in> set (ledger_kinds l) \<and>
     ''tool_calls_by_kind:'' @ k \<notin> set (exhausted_dimensions l)"
proof -
  have "''successful_tool_calls'' \<in> set (exhausted_dimensions l) \<longleftrightarrow>
      max_successful_tool_calls (tl_policy l) \<le> successful_calls l"
    by (auto simp: exhausted_dimensions_def)
  moreover have "''tool_calls_by_kind:'' @ k \<in> set (exhausted_dimensions l) \<longleftrightarrow>
      k \<in> set (ledger_kinds l) \<and> kind_cap l k \<le> kind_used l k"
    by (auto simp: exhausted_dimensions_def kind_cap_def kind_used_def)
  moreover have "k \<notin> set (ledger_kinds l) \<Longrightarrow> kind_cap l k = kind_used l k"
    by (auto simp: ledger_kinds_def kind_cap_def kind_used_def dict_get_def image_iff
        dest!: map_of_SomeD split: option.split)
  moreover have "check_batch l [\<lparr>kind = k, rows_scanned = 0, result_cells = 0\<rparr>] = Inr () \<longleftrightarrow>
      successful_calls l < max_successful_tool_calls (tl_policy l) \<and> kind_used l k < kind_cap l k"
    by (auto simp: check_batch_iff enforce_tool_iff)
  ultimately show ?thesis
    by (metis linorder_not_le order_less_irrefl)
qed

text \<open>Snapshots round-trip: a ledger reached by any operations from a new one restores
  from its snapshot to itself, with the kinds in sorted order.\<close>

theorem snapshot_round_trip:
  "let l = foldl tool_step (new_ledger p) ops in
     restore (tl_policy l) (snapshot l) = Inr (l\<lparr>calls_by_kind := sort_key fst (calls_by_kind l)\<rparr>)"
  unfolding Let_def
  by (subst restore_snapshot[OF tool.run_inv[OF new_ledger_wf]]) simp

text \<open>Amendment chains only raise caps: what a chain yields from a valid policy lowers
  no cap, freezes every protected amount, is valid, and no amendment id occurs twice.\<close>

theorem amendment_chain_monotonic:
  assumes "effective_policy fp base chain = Inr p" and "budget_policy_valid base"
  shows "verify_monotonic base p = Inr () \<and> budget_policy_valid p \<and>
     distinct (map amendment_id chain)"
  using amend_chain_sound[OF assms(1)[unfolded effective_policy_def] assms(2)]
  by (simp add: verify_monotonic_iff)

text \<open>A valid increase always applies: on a valid policy neither the schema nor the
  monotonicity check can refuse it, and the result is valid.\<close>

theorem valid_increase_applies:
  assumes "budget_policy_valid p" and "increase_valid i"
  shows "apply_budget_increase p i = Inr (increased_policy p i)
     \<and> budget_policy_valid (increased_policy p i)"
  using increased_policy_valid[OF assms] increased_policy_monotonic[OF assms]
    increased_llm_valid[OF _ assms(2), of "llm p"] assms
  by (simp add: apply_budget_increase_def bind_res_Inr_iff apply_increase_Inr_iff
      verify_monotonic_iff budget_policy_valid_def)

text \<open>An amendment switches branching off: the amended policy is rebuilt without the
  \<open>branching\<close> field, so every successful increase yields a policy with branching absent,
  and the monotonicity check, which fixes the other non-cap fields, does not notice.\<close>

theorem increase_drops_branching:
  assumes "budget_policy_valid p" and "increase_valid i"
  shows "\<exists>q. apply_budget_increase p i = Inr q \<and> branching q = None \<and>
     verify_monotonic p q = Inr ()"
proof -
  have "apply_budget_increase p i = Inr (increased_policy p i)"
    using increased_policy_valid[OF assms] increased_policy_monotonic[OF assms]
      increased_llm_valid[OF _ assms(2), of "llm p"] assms
    by (simp add: apply_budget_increase_def bind_res_Inr_iff apply_increase_Inr_iff
        verify_monotonic_iff budget_policy_valid_def)
  moreover have "branching (increased_policy p i) = None" by (simp add: increased_policy_def)
  ultimately show ?thesis
    using increased_policy_monotonic[OF assms] by (auto simp: verify_monotonic_iff)
qed

section \<open>Witnesses\<close>

definition example_budget :: exploration_budget_policy where
  "example_budget = \<lparr>llm = example_model, max_successful_tool_calls = 3,
     max_tool_calls_by_kind = [(''sql'', 2), (''chart'', 1)], max_rows_scanned = Some 100,
     max_result_cells = None, idle_timeout_seconds = Finite 30, max_rounds = 4,
     branching = Some \<lparr>trigger_stagnant_rounds = 2, bp_max_branches = 1\<rparr>\<rparr>"

definition example_increase :: budget_cap_increase where
  "example_increase = \<lparr>ci_max_requests = 2, ci_max_input_tokens = 0, ci_max_output_tokens = 0,
     ci_max_total_tokens = 0, ci_max_cost_usd = 0, ci_max_wall_seconds = Finite 0,
     ci_max_successful_tool_calls = 1, ci_max_tool_calls_by_kind = [(''sql'', 1)],
     ci_max_rows_scanned = 0, ci_max_result_cells = 0, ci_max_rounds = 0\<rparr>"

definition example_amendment :: budget_amendment where
  "example_amendment = \<lparr>amendment_id = ''a1'', previous_effective_fingerprint = ''3'',
     increase = example_increase, reason = ''more'', approved_by = ''u'', created_at = ''t''\<rparr>"

text \<open>A concrete digest for the witness of the chain: the cap on successful calls, in unary.\<close>

definition example_digest :: "exploration_budget_policy \<Rightarrow> string" where
  "example_digest p = (if max_successful_tool_calls p = 3 then ''3'' else ''4'')"

lemma example_budget_valid: "budget_policy_valid example_budget"
  by (simp add: budget_policy_valid_def example_budget_def example_model_valid at_least_one_def
      branch_policy_valid_def)

lemma example_increase_valid: "increase_valid example_increase"
  by (simp add: increase_valid_def increase_amounts_def example_increase_def)

lemma py_space_examples2 [simp]: "\<not> py_space CHR ''s''" "\<not> py_space CHR ''h''"
  by (simp_all add: py_space_def)

theorem accepted_batch_commits_witness:
  "fst (record_batch (new_ledger example_budget)
      [\<lparr>kind = ''sql'', rows_scanned = 40, result_cells = 7\<rparr>,
       \<lparr>kind = ''chart'', rows_scanned = 60, result_cells = 9\<rparr>]) = Inr ()"
proof -
  let ?ps = "[\<lparr>kind = ''sql'', rows_scanned = 40, result_cells = 7\<rparr>,
       \<lparr>kind = ''chart'', rows_scanned = 60, result_cells = 9\<rparr>]"
  have "check_batch (new_ledger example_budget) ?ps = Inr ()"
    by (simp add: check_batch_iff enforce_tool_iff new_ledger_def example_budget_def kind_used_def
        kind_cap_def dict_get_def)
  moreover have "\<forall>p \<in> set ?ps. projection_ok p"
    by (simp add: projection_ok_def)
  ultimately show ?thesis
    using accepted_batch_commits[of "new_ledger example_budget" ?ps]
    by (simp add: new_ledger_def example_budget_def capped_def del: record_batch.simps)
qed

lemma example_amendment_valid: "amendment_valid example_amendment"
  by (simp add: amendment_valid_def example_amendment_def example_increase_valid)

lemma example_chain:
  "effective_policy example_digest example_budget [example_amendment]
     = Inr (increased_policy example_budget example_increase)"
proof -
  have "apply_increase example_budget example_increase
      = Inr (increased_policy example_budget example_increase)"
    using increased_policy_valid[OF example_budget_valid example_increase_valid]
      increased_llm_valid[OF example_model_valid example_increase_valid]
    by (simp add: apply_increase_Inr_iff example_budget_def)
  moreover have "verify_monotonic example_budget (increased_policy example_budget example_increase)
      = Inr ()"
    using increased_policy_monotonic[OF example_budget_valid example_increase_valid]
    by (simp add: verify_monotonic_iff)
  moreover have "increase example_amendment = example_increase"
    "previous_effective_fingerprint example_amendment = ''3''"
    by (simp_all add: example_amendment_def)
  moreover have "example_digest example_budget = ''3''"
    by (simp add: example_digest_def example_budget_def)
  ultimately show ?thesis
    using example_amendment_valid by (simp add: effective_policy_def)
qed

theorem amendment_chain_monotonic_witness:
  "verify_monotonic example_budget (increased_policy example_budget example_increase) = Inr ()"
  using amendment_chain_monotonic[OF example_chain example_budget_valid] by blast

theorem valid_increase_applies_witness:
  "apply_budget_increase example_budget example_increase
     = Inr (increased_policy example_budget example_increase)"
  using valid_increase_applies[OF example_budget_valid example_increase_valid] by blast

theorem increase_drops_branching_witness:
  "branching example_budget \<noteq> None \<and>
   (\<exists>q. apply_budget_increase example_budget example_increase = Inr q \<and> branching q = None)"
  using increase_drops_branching[OF example_budget_valid example_increase_valid]
  by (auto simp: example_budget_def)

end
