(* ===== verification/ExplorationSchema.thy ===== *)
theory ExplorationSchema
  imports ExplorationBudget
begin

text \<open>
  \<open>schemas/exploration.py\<close>: the policy of an exploration run, the events of its journal and
  the state the journal rebuilds. A pydantic model is a record (or a constructor of a
  datatype) together with the predicate its fields and validators check; the events share
  an envelope, the record \<open>exploration_event\<close>.
\<close>

section \<open>Vocabulary\<close>

datatype insight_family =
    Descriptive | Diagnostic | Predictive | Prescriptive | Evaluative | Exploratory

datatype stop_reason =
    Stop_Completed | Stop_Budget_Exhausted | Stop_Cancelled | Stop_Failed
  | Stop_State_Witness_Changed | Stop_No_New_Information

datatype graceful_reason =
    Graceful_Completed | Graceful_Budget_Exhausted | Graceful_No_New_Information

fun stop_of_graceful :: "graceful_reason \<Rightarrow> stop_reason" where
  "stop_of_graceful Graceful_Completed = Stop_Completed"
| "stop_of_graceful Graceful_Budget_Exhausted = Stop_Budget_Exhausted"
| "stop_of_graceful Graceful_No_New_Information = Stop_No_New_Information"

datatype run_status =
    Status_Running | Status_Pause_Requested | Status_Paused | Status_Stopped

datatype gate_verdict_value = Verdict_Passed | Verdict_Rejected

datatype constraint_reason = Refuted | Gate_Rejected | Inconclusive

text \<open>
  A branch id is \<open>br_\<close> and a positive numeral, with one more level after a dot at most.
\<close>

definition main_line_id :: string where
  "main_line_id = ''main''"

definition line_number :: "string \<Rightarrow> bool" where
  "line_number s \<longleftrightarrow> s \<noteq> [] \<and> hd s \<noteq> CHR ''0'' \<and> list_all is_digit s"

definition branch_id_ok :: "string \<Rightarrow> bool" where
  "branch_id_ok s \<longleftrightarrow> take 3 s = ''br_'' \<and>
     (let body = drop 3 s;
          level = takeWhile (\<lambda>c. c \<noteq> CHR ''.'') body;
          rest = dropWhile (\<lambda>c. c \<noteq> CHR ''.'') body
      in line_number level \<and> (rest = [] \<or> line_number (tl rest)))"

definition opt_nonempty :: "string option \<Rightarrow> bool" where
  "opt_nonempty v \<longleftrightarrow> v \<noteq> Some []"

definition opt_nonneg :: "int option \<Rightarrow> bool" where
  "opt_nonneg v \<longleftrightarrow> (case v of None \<Rightarrow> True | Some n \<Rightarrow> 0 \<le> n)"

definition opt_branch_ok :: "string option \<Rightarrow> bool" where
  "opt_branch_ok v \<longleftrightarrow> (case v of None \<Rightarrow> True | Some b \<Rightarrow> branch_id_ok b)"

record branch_constraint =
  hypothesis_fingerprint :: string
  coverage_key :: string
  bc_family :: insight_family
  bc_reason :: constraint_reason
  detail_code :: string

definition branch_constraint_valid :: "branch_constraint \<Rightarrow> bool" where
  "branch_constraint_valid c \<longleftrightarrow>
     hypothesis_fingerprint c \<noteq> [] \<and> coverage_key c \<noteq> [] \<and> detail_code c \<noteq> []"

section \<open>The run policy\<close>

datatype run_mode = Mode_Open | Mode_Goal_Directed

datatype thinking_level = Quick | Standard | Deep

record exploration_policy =
  ep_mode :: run_mode
  ep_goal :: "string option"
  ep_dataset_scope :: "string list"
  ep_thinking_level :: thinking_level
  ep_coverage_targets :: "insight_family list"
  ep_budget :: exploration_budget_policy
  ep_scoring_policy_version :: string
  ep_statistical_policy_version :: string
  ep_tool_capability_digest :: string
  ep_policy_fingerprint :: string

definition goal_text :: "string option \<Rightarrow> string" where
  "goal_text g = (case g of None \<Rightarrow> [] | Some t \<Rightarrow> t)"

definition exploration_policy_valid :: "exploration_policy \<Rightarrow> bool" where
  "exploration_policy_valid p \<longleftrightarrow>
     ep_dataset_scope p \<noteq> [] \<and> budget_policy_valid (ep_budget p) \<and>
     ep_scoring_policy_version p \<noteq> [] \<and> ep_statistical_policy_version p \<noteq> [] \<and>
     ep_tool_capability_digest p \<noteq> [] \<and>
     \<not> (ep_mode p = Mode_Goal_Directed \<and> py_strip (goal_text (ep_goal p)) = [])"

section \<open>Events\<close>

record round_settlement =
  rs_round_index :: int
  rs_progress :: bool
  rs_frontier_empty :: bool
  rs_adjudicated_transitions :: int
  rs_supported_transitions :: "int option"
  rs_llm_calls_at_settle :: "int option"
  rs_tool_calls_at_settle :: "int option"
  rs_terminal_reason :: "graceful_reason option"
  rs_terminal_has_reduction :: bool

definition round_settlement_valid :: "round_settlement \<Rightarrow> bool" where
  "round_settlement_valid r \<longleftrightarrow>
     0 \<le> rs_round_index r \<and> 0 \<le> rs_adjudicated_transitions r \<and>
     opt_nonneg (rs_supported_transitions r) \<and> opt_nonneg (rs_llm_calls_at_settle r) \<and>
     opt_nonneg (rs_tool_calls_at_settle r) \<and>
     \<not> (rs_terminal_has_reduction r \<and> rs_terminal_reason r = None)"

text \<open>The arguments of a constructor are the fields of the event in their order.\<close>

datatype loop_event =
    Exploration_Started string string string exploration_budget_policy
  | Attempt_Started
  | Round_Started int "string option"
  | Llm_Call_Started string "string option"
  | Llm_Call_Completed string string string
  | Llm_Call_Rejected string string
  | Llm_Call_Uncertain string string
  | Tool_Call_Started string string string "string option" int int
  | Receipt_Prepared string string "string option"
  | Receipt_Committed string string int int "string option"
  | Tool_Call_Failed string string int int
  | Gate_Verdict string gate_verdict_value
  | Reduction_Committed string string "string option"
  | Round_Settled round_settlement
  | Branch_Abandoned string int "branch_constraint list"
  | Pause_Requested "string option"
  | Paused
  | Resumed
  | Budget_Amended string string budget_cap_increase
  | Exploration_Stopped stop_reason "string option"

record exploration_event =
  ev_schema_version :: int
  ev_seq :: int
  ev_exploration_id :: string
  ev_attempt_epoch :: int
  ev_occurred_at :: int
  ev_body :: loop_event

fun body_valid :: "loop_event \<Rightarrow> bool" where
  "body_valid (Exploration_Started policy_fp code_fp data_fp budget) \<longleftrightarrow>
     policy_fp \<noteq> [] \<and> code_fp \<noteq> [] \<and> data_fp \<noteq> [] \<and> budget_policy_valid budget"
| "body_valid Attempt_Started \<longleftrightarrow> True"
| "body_valid (Round_Started index branch) \<longleftrightarrow> 0 \<le> index \<and> opt_branch_ok branch"
| "body_valid (Llm_Call_Started call stp) \<longleftrightarrow> call \<noteq> [] \<and> opt_nonempty stp"
| "body_valid (Llm_Call_Completed call stp digest) \<longleftrightarrow> call \<noteq> [] \<and> stp \<noteq> [] \<and> digest \<noteq> []"
| "body_valid (Llm_Call_Rejected call err) \<longleftrightarrow> call \<noteq> [] \<and> err \<noteq> []"
| "body_valid (Llm_Call_Uncertain call err) \<longleftrightarrow> call \<noteq> [] \<and> err \<noteq> []"
| "body_valid (Tool_Call_Started stp fp k name rows cells) \<longleftrightarrow>
     stp \<noteq> [] \<and> fp \<noteq> [] \<and> k \<noteq> [] \<and> opt_nonempty name \<and> 0 \<le> rows \<and> 0 \<le> cells"
| "body_valid (Receipt_Prepared stp receipt digest) \<longleftrightarrow>
     stp \<noteq> [] \<and> receipt \<noteq> [] \<and> opt_nonempty digest"
| "body_valid (Receipt_Committed stp receipt rows cells digest) \<longleftrightarrow>
     stp \<noteq> [] \<and> receipt \<noteq> [] \<and> 0 \<le> rows \<and> 0 \<le> cells \<and> opt_nonempty digest"
| "body_valid (Tool_Call_Failed stp err rows cells) \<longleftrightarrow>
     stp \<noteq> [] \<and> err \<noteq> [] \<and> 0 \<le> rows \<and> 0 \<le> cells"
| "body_valid (Gate_Verdict bundle v) \<longleftrightarrow> bundle \<noteq> []"
| "body_valid (Reduction_Committed frontier ledger digest) \<longleftrightarrow>
     frontier \<noteq> [] \<and> ledger \<noteq> [] \<and> opt_nonempty digest"
| "body_valid (Round_Settled r) \<longleftrightarrow> round_settlement_valid r"
| "body_valid (Branch_Abandoned branch index constraints) \<longleftrightarrow>
     branch \<noteq> [] \<and> 0 \<le> index \<and> list_all branch_constraint_valid constraints \<and>
     (branch = main_line_id \<or> branch_id_ok branch)"
| "body_valid (Pause_Requested why) \<longleftrightarrow> True"
| "body_valid Paused \<longleftrightarrow> True"
| "body_valid Resumed \<longleftrightarrow> True"
| "body_valid (Budget_Amended amendment fp inc) \<longleftrightarrow>
     amendment \<noteq> [] \<and> fp \<noteq> [] \<and> increase_valid inc"
| "body_valid (Exploration_Stopped why report) \<longleftrightarrow> True"

definition event_valid :: "exploration_event \<Rightarrow> bool" where
  "event_valid e \<longleftrightarrow> 0 \<le> ev_seq e \<and> ev_exploration_id e \<noteq> [] \<and> 0 \<le> ev_attempt_epoch e \<and>
     body_valid (ev_body e)"

text \<open>
  An infinite number of seconds passes the schema, but \<open>model_dump_json\<close> writes it as \<open>null\<close>, so an
  event that holds one is not read back as it was. The storable events hold none.
\<close>

definition budget_storable :: "exploration_budget_policy \<Rightarrow> bool" where
  "budget_storable p \<longleftrightarrow> isfinite (idle_timeout_seconds p) \<and>
     (case pm_max_wall_seconds (llm p) of None \<Rightarrow> True | Some s \<Rightarrow> isfinite s)"

fun body_storable :: "loop_event \<Rightarrow> bool" where
  "body_storable (Exploration_Started policy_fp code_fp data_fp budget) \<longleftrightarrow> budget_storable budget"
| "body_storable (Budget_Amended amendment fp inc) \<longleftrightarrow> isfinite (ci_max_wall_seconds inc)"
| "body_storable _ \<longleftrightarrow> True"

definition event_storable :: "exploration_event \<Rightarrow> bool" where
  "event_storable e \<longleftrightarrow> event_valid e \<and> body_storable (ev_body e)"

section \<open>The rebuilt state\<close>

record pending_tool_step =
  ts_tool_kind :: string
  ts_input_fingerprint :: string
  ts_projected_rows_scanned :: int
  ts_projected_result_cells :: int
  ts_prepared_receipt_id :: "string option"
  ts_prepared_result_digest :: "string option"

definition pending_tool_step_valid :: "pending_tool_step \<Rightarrow> bool" where
  "pending_tool_step_valid t \<longleftrightarrow>
     ts_tool_kind t \<noteq> [] \<and> ts_input_fingerprint t \<noteq> [] \<and>
     0 \<le> ts_projected_rows_scanned t \<and> 0 \<le> ts_projected_result_cells t \<and>
     \<not> (ts_prepared_result_digest t \<noteq> None \<and> ts_prepared_receipt_id t = None)"

record loop_state =
  ls_schema_version :: int
  ls_exploration_id :: string
  ls_policy_fingerprint :: string
  ls_effective_policy_fingerprint :: string
  ls_code_fingerprint :: string
  ls_data_state_witness :: string
  ls_attempt_epoch :: int
  ls_status :: run_status
  ls_stop_reason :: "stop_reason option"
  ls_final_report_ref :: "string option"
  ls_max_llm_requests :: "int option"
  ls_max_successful_tool_calls :: int
  ls_max_tool_calls_by_kind :: "(string, int) dict"
  ls_max_rows_scanned :: "int option"
  ls_max_result_cells :: "int option"
  ls_max_rounds :: int
  ls_llm_calls_settled :: int
  ls_llm_calls_uncertain :: int
  ls_tool_calls_committed :: int
  ls_tool_calls_by_kind :: "(string, int) dict"
  ls_rows_scanned :: int
  ls_result_cells :: int
  ls_rounds_started :: int
  ls_rounds_settled :: int
  ls_consecutive_no_progress :: int
  ls_consecutive_empty_frontier :: int
  ls_consecutive_no_adjudication :: int
  ls_branch_trigger_stagnant_rounds :: "int option"
  ls_max_branches :: int
  ls_active_branch_id :: "string option"
  ls_current_line_abandoned :: bool
  ls_started_branch_ids :: "string list"
  ls_abandoned_line_ids :: "string list"
  ls_abandoned_constraints :: "branch_constraint list"
  ls_current_round_index :: "int option"
  ls_current_round_reduction_committed :: bool
  ls_pending_terminal_reason :: "graceful_reason option"
  ls_pending_terminal_has_reduction :: bool
  ls_remaining_llm_call_budget :: "int option"
  ls_remaining_tool_call_budget :: int
  ls_remaining_round_budget :: int
  ls_pending_tool_steps :: "(string, pending_tool_step) dict"
  ls_pending_call_ids :: "string list"
  ls_pending_call_steps :: "(string, string) dict"
  ls_completed_step_ids :: "string list"
  ls_completed_probe_fingerprints :: "string list"
  ls_uncertain_call_ids :: "string list"
  ls_step_receipt_refs :: "(string, string) dict"
  ls_step_result_digests :: "(string, string) dict"
  ls_failure_history :: "string list"
  ls_amendment_ids :: "string list"
  ls_gate_verdicts :: "(string, gate_verdict_value) dict"
  ls_frontier_digest :: "string option"
  ls_ledger_digest :: "string option"
  ls_reduction_digest :: "string option"
  ls_last_seq :: int

definition journal_schema_version :: int where
  "journal_schema_version = 2"

text \<open>The constraints of the single fields.\<close>

definition loop_state_fields_ok :: "loop_state \<Rightarrow> bool" where
  "loop_state_fields_ok s \<longleftrightarrow>
     ls_exploration_id s \<noteq> [] \<and> ls_policy_fingerprint s \<noteq> [] \<and>
     ls_effective_policy_fingerprint s \<noteq> [] \<and> ls_code_fingerprint s \<noteq> [] \<and>
     ls_data_state_witness s \<noteq> [] \<and> 0 \<le> ls_attempt_epoch s \<and>
     at_least_one (ls_max_llm_requests s) \<and> 1 \<le> ls_max_successful_tool_calls s \<and>
     at_least_one (ls_max_rows_scanned s) \<and> at_least_one (ls_max_result_cells s) \<and>
     1 \<le> ls_max_rounds s \<and>
     list_all (\<lambda>n. 0 \<le> n)
       [ls_llm_calls_settled s, ls_llm_calls_uncertain s, ls_tool_calls_committed s,
        ls_rows_scanned s, ls_result_cells s, ls_rounds_started s, ls_rounds_settled s,
        ls_consecutive_no_progress s, ls_consecutive_empty_frontier s,
        ls_consecutive_no_adjudication s, ls_max_branches s, ls_last_seq s,
        ls_remaining_tool_call_budget s, ls_remaining_round_budget s] \<and>
     at_least_one (ls_branch_trigger_stagnant_rounds s) \<and>
     opt_branch_ok (ls_active_branch_id s) \<and>
     list_all branch_constraint_valid (ls_abandoned_constraints s) \<and>
     opt_nonneg (ls_current_round_index s) \<and> opt_nonneg (ls_remaining_llm_call_budget s) \<and>
     list_all pending_tool_step_valid (dict_values (ls_pending_tool_steps s))"

text \<open>The rules of \<open>_derived_values_are_consistent\<close>, in the order of the code.\<close>

datatype state_rule =
    Field_Constraint
  | Unsupported_Snapshot_Schema
  | Completed_Steps_Unique
  | Pending_Calls_Unique
  | Call_Steps_Pending
  | Pending_Step_Not_Completed
  | Probe_Fingerprints_Unique
  | Uncertain_Calls_Unique
  | Kind_Counts_Non_Negative
  | Kind_Caps_Positive
  | Kind_Counts_Sum
  | Remaining_Tool_Calls
  | Remaining_Rounds
  | Remaining_Llm_Without_Cap
  | Remaining_Llm_Calls
  | Round_Counters
  | Reduction_Needs_Round
  | Terminal_Without_Round
  | Terminal_Reduction_Needs_Reason
  | Stop_Reason_When_Stopped
  | Branching_Disabled_State
  | Branching_Needs_Cap
  | Started_Branches_Unique
  | Abandoned_Lines_Unique
  | Started_Within_Cap
  | Active_Branch_Started
  | Abandoned_Line_Recorded

text \<open>The line that is being explored (a branch id is never the empty string).\<close>

definition current_line :: "loop_state \<Rightarrow> string" where
  "current_line s = (case ls_active_branch_id s of None \<Rightarrow> main_line_id | Some b \<Rightarrow> b)"

definition collection_rules :: "loop_state \<Rightarrow> (bool \<times> state_rule) list" where
  "collection_rules s =
     [(ls_schema_version s \<noteq> journal_schema_version, Unsupported_Snapshot_Schema),
      (\<not> distinct (ls_completed_step_ids s), Completed_Steps_Unique),
      (\<not> distinct (ls_pending_call_ids s), Pending_Calls_Unique),
      (\<not> set (dict_keys (ls_pending_call_steps s)) \<subseteq> set (ls_pending_call_ids s),
         Call_Steps_Pending),
      (set (dict_keys (ls_pending_tool_steps s)) \<inter> set (ls_completed_step_ids s) \<noteq> {},
         Pending_Step_Not_Completed),
      (\<not> distinct (ls_completed_probe_fingerprints s), Probe_Fingerprints_Unique),
      (\<not> distinct (ls_uncertain_call_ids s), Uncertain_Calls_Unique)]"

definition budget_rules :: "loop_state \<Rightarrow> (bool \<times> state_rule) list" where
  "budget_rules s =
     [(list_ex (\<lambda>(k, n). k = [] \<or> n < 0) (ls_tool_calls_by_kind s), Kind_Counts_Non_Negative),
      (list_ex (\<lambda>(k, cap). k = [] \<or> cap < 1) (ls_max_tool_calls_by_kind s), Kind_Caps_Positive),
      (sum_list (dict_values (ls_tool_calls_by_kind s)) \<noteq> ls_tool_calls_committed s,
         Kind_Counts_Sum),
      (ls_remaining_tool_call_budget s \<noteq>
         ls_max_successful_tool_calls s - ls_tool_calls_committed s, Remaining_Tool_Calls),
      (ls_remaining_round_budget s \<noteq> ls_max_rounds s - ls_rounds_started s, Remaining_Rounds),
      (ls_max_llm_requests s = None \<and> ls_remaining_llm_call_budget s \<noteq> None,
         Remaining_Llm_Without_Cap),
      ((case ls_max_llm_requests s of None \<Rightarrow> False | Some m \<Rightarrow>
          ls_remaining_llm_call_budget s \<noteq>
            Some (m - ls_llm_calls_settled s - ls_llm_calls_uncertain s)), Remaining_Llm_Calls)]"

definition phase_rules :: "loop_state \<Rightarrow> (bool \<times> state_rule) list" where
  "phase_rules s =
     [(ls_rounds_started s \<noteq>
         ls_rounds_settled s + (if ls_current_round_index s = None then 0 else 1), Round_Counters),
      (ls_current_round_reduction_committed s \<and> ls_current_round_index s = None,
         Reduction_Needs_Round),
      (ls_pending_terminal_reason s \<noteq> None \<and> ls_current_round_index s \<noteq> None,
         Terminal_Without_Round),
      (ls_pending_terminal_has_reduction s \<and> ls_pending_terminal_reason s = None,
         Terminal_Reduction_Needs_Reason),
      ((ls_stop_reason s \<noteq> None) \<noteq> (ls_status s = Status_Stopped), Stop_Reason_When_Stopped)]"

definition branch_rules :: "loop_state \<Rightarrow> (bool \<times> state_rule) list" where
  "branch_rules s =
     (if ls_branch_trigger_stagnant_rounds s = None then
        [(ls_max_branches s \<noteq> 0 \<or> ls_active_branch_id s \<noteq> None \<or> ls_current_line_abandoned s \<or>
            ls_started_branch_ids s \<noteq> [] \<or> ls_abandoned_line_ids s \<noteq> [] \<or>
            ls_abandoned_constraints s \<noteq> [], Branching_Disabled_State)]
      else
        [(ls_max_branches s < 1, Branching_Needs_Cap),
         (\<not> distinct (ls_started_branch_ids s), Started_Branches_Unique),
         (\<not> distinct (ls_abandoned_line_ids s), Abandoned_Lines_Unique),
         (ls_max_branches s < int (length (ls_started_branch_ids s)), Started_Within_Cap),
         ((case ls_active_branch_id s of None \<Rightarrow> False
            | Some b \<Rightarrow> b \<notin> set (ls_started_branch_ids s)), Active_Branch_Started),
         (ls_current_line_abandoned s \<and> current_line s \<notin> set (ls_abandoned_line_ids s),
            Abandoned_Line_Recorded)])"

definition derived_rules :: "loop_state \<Rightarrow> (bool \<times> state_rule) list" where
  "derived_rules s = collection_rules s @ budget_rules s @ phase_rules s @ branch_rules s"

definition loop_state_validate :: "loop_state \<Rightarrow> state_rule + loop_state" where
  "loop_state_validate s = guarding ((\<not> loop_state_fields_ok s, Field_Constraint) # derived_rules s) s"

definition loop_state_valid :: "loop_state \<Rightarrow> bool" where
  "loop_state_valid s \<longleftrightarrow> loop_state_validate s = Inr s"

text \<open>The dictionaries of a state have distinct keys, as Python dictionaries do.\<close>

definition dicts_wf :: "loop_state \<Rightarrow> bool" where
  "dicts_wf s \<longleftrightarrow>
     distinct (dict_keys (ls_max_tool_calls_by_kind s)) \<and>
     distinct (dict_keys (ls_tool_calls_by_kind s)) \<and>
     distinct (dict_keys (ls_pending_tool_steps s)) \<and>
     distinct (dict_keys (ls_pending_call_steps s)) \<and>
     distinct (dict_keys (ls_step_receipt_refs s)) \<and>
     distinct (dict_keys (ls_step_result_digests s)) \<and>
     distinct (dict_keys (ls_gate_verdicts s))"

section \<open>Reading a state that may not be restored yet\<close>

datatype state_unavailable =
    Stop_Reason_Unavailable | Frontier_Digest_Unavailable
  | Ledger_Digest_Unavailable | Round_Index_Unavailable

definition require_stop_reason :: "loop_state \<Rightarrow> state_unavailable + stop_reason" where
  "require_stop_reason s = (case ls_stop_reason s of
     None \<Rightarrow> Inl Stop_Reason_Unavailable | Some r \<Rightarrow> Inr r)"

definition require_frontier_digest :: "loop_state \<Rightarrow> state_unavailable + string" where
  "require_frontier_digest s = (case ls_frontier_digest s of
     None \<Rightarrow> Inl Frontier_Digest_Unavailable | Some d \<Rightarrow> Inr d)"

definition require_ledger_digest :: "loop_state \<Rightarrow> state_unavailable + string" where
  "require_ledger_digest s = (case ls_ledger_digest s of
     None \<Rightarrow> Inl Ledger_Digest_Unavailable | Some d \<Rightarrow> Inr d)"

definition require_current_round_index :: "loop_state \<Rightarrow> state_unavailable + int" where
  "require_current_round_index s = (case ls_current_round_index s of
     None \<Rightarrow> Inl Round_Index_Unavailable | Some i \<Rightarrow> Inr i)"

section \<open>Facts about branch ids and validity\<close>

definition branch_name :: "nat \<Rightarrow> string" where
  "branch_name n = ''br_'' @ decimal n"

lemma branch_name_inject [simp]: "branch_name m = branch_name n \<longleftrightarrow> m = n"
  by (simp add: branch_name_def)

lemma branch_name_not_main [simp]: "branch_name n \<noteq> main_line_id" "main_line_id \<noteq> branch_name n"
  by (simp_all add: branch_name_def main_line_id_def)

lemma decimal_no_dot: "CHR ''.'' \<notin> set (decimal n)"
  using decimal_digits[of "CHR ''.''" n] by (auto simp: is_digit_def less_eq_char_def)

lemma branch_name_ok: "0 < n \<Longrightarrow> branch_id_ok (branch_name n)"
proof -
  assume "0 < n"
  have split: "takeWhile (\<lambda>c. c \<noteq> CHR ''.'') (decimal n) = decimal n"
    "dropWhile (\<lambda>c. c \<noteq> CHR ''.'') (decimal n) = []"
    using decimal_no_dot[of n] by (auto simp: takeWhile_eq_all_conv dropWhile_eq_Nil_conv)
  from \<open>0 < n\<close> show ?thesis
    by (auto simp: branch_id_ok_def branch_name_def line_number_def split hd_decimal
        decimal_digits decimal_no_dot list_all_iff)
qed

lemma loop_state_validate_Inr: "loop_state_validate s = Inr t \<longleftrightarrow> t = s \<and> loop_state_valid s"
  by (auto simp: loop_state_valid_def loop_state_validate_def guarding_Inr_iff)

lemma loop_state_valid_iff:
  "loop_state_valid s \<longleftrightarrow> loop_state_fields_ok s \<and> (\<forall>r \<in> set (derived_rules s). \<not> fst r)"
  by (simp add: loop_state_valid_def loop_state_validate_def guarding_Inr_iff)

end
