(* ===== verification/ExplorationJournal.thy ===== *)
theory ExplorationJournal
  imports ExplorationSchema
begin

text \<open>
  \<open>core/exploration_journal.py\<close>: the fingerprints of policies and amendments and the reducer
  \<open>reduce_exploration_event\<close>, with one function per event type. An event that breaks a rule
  raises (\<open>Transition\<close>); the state an accepted event yields is validated again by its
  schema (\<open>Invalid_State\<close>). \<open>stable_hash\<close> is a parameter of the model.
\<close>

section \<open>Fingerprints\<close>

text \<open>What the code hashes: a policy without its fingerprint, or one amendment link.\<close>

datatype hash_payload =
    Policy_Payload exploration_policy
  | Amendment_Payload string string budget_cap_increase

type_synonym hash_function = "hash_payload \<Rightarrow> string"

definition fingerprint_prefix :: string where
  "fingerprint_prefix = ''xplcy_''"

definition compute_policy_fingerprint :: "hash_function \<Rightarrow> exploration_policy \<Rightarrow> string" where
  "compute_policy_fingerprint h p =
     fingerprint_prefix @ h (Policy_Payload (p\<lparr>ep_policy_fingerprint := []\<rparr>))"

definition sealed_policy :: "hash_function \<Rightarrow> exploration_policy \<Rightarrow> exploration_policy" where
  "sealed_policy h p = p\<lparr>ep_policy_fingerprint := compute_policy_fingerprint h p\<rparr>"

definition policy_sealed :: "hash_function \<Rightarrow> exploration_policy \<Rightarrow> bool" where
  "policy_sealed h p \<longleftrightarrow> ep_policy_fingerprint p = compute_policy_fingerprint h p"

definition amended_policy_fingerprint ::
  "hash_function \<Rightarrow> string \<Rightarrow> string \<Rightarrow> budget_cap_increase \<Rightarrow> string" where
  "amended_policy_fingerprint h previous amendment inc =
     fingerprint_prefix @ h (Amendment_Payload previous amendment inc)"

section \<open>Rules of the reducer\<close>

datatype transition_rule =
    Unsupported_Event_Schema | First_Event_Must_Start | Unsupported_State_Schema
  | Started_Only_First | Exploration_Id_Mismatch | Seq_Mismatch | Epoch_Mismatch
  | Already_Stopped
  | Not_Running | Operation_Pending | Terminal_Pending | Round_Open | Rounds_Exhausted
  | Round_Index_Mismatch
  | Line_Abandoned | Branch_Id_Required | Branching_Disabled | Next_Branch_Mismatch
  | Branch_Budget_Exhausted | Line_Not_Abandoned
  | Call_Already_Pending | Llm_Cap_Reached | Call_Not_Pending | Bound_Step_Mismatch
  | Step_Already_Completed
  | Tool_Step_Already_Pending | Tool_Step_Committed | Tool_Cap_Reached
  | Tool_Step_Not_Pending | Receipt_Replaced | Digest_Replaced
  | Receipt_Not_Prepared | Receipt_Mismatch | Digest_Mismatch
  | Round_Not_Open | Verdict_Overwritten | Terminal_Metadata_Mismatch | Branches_Not_Exhausted
  | Line_Already_Abandoned | Not_Last_Settled_Round | Not_Current_Line | Not_Stagnant
  | Pause_Not_Running | Pause_Not_Requested | Resume_Not_Paused
  | Amendment_Replayed | Amendment_Fingerprint_Mismatch
  | Natural_Stop_Not_Running | Terminal_Reason_Mismatch

datatype reduce_fault = Transition transition_rule | Invalid_State state_rule

type_synonym 'a transitioned = "transition_rule + 'a"

text \<open>The helpers that several events share.\<close>

definition not_running :: "loop_state \<Rightarrow> bool \<times> transition_rule" where
  "not_running s = (ls_status s \<noteq> Status_Running, Not_Running)"

definition has_pending :: "loop_state \<Rightarrow> bool \<times> transition_rule" where
  "has_pending s = (ls_pending_call_ids s \<noteq> [] \<or> ls_pending_tool_steps s \<noteq> [], Operation_Pending)"

definition drop_pending_call :: "string \<Rightarrow> loop_state \<Rightarrow> loop_state" where
  "drop_pending_call call s = s\<lparr>
     ls_pending_call_ids := filter (\<lambda>c. c \<noteq> call) (ls_pending_call_ids s),
     ls_pending_call_steps := dict_del call (ls_pending_call_steps s)\<rparr>"

definition settle_pending_call :: "string \<Rightarrow> loop_state \<Rightarrow> loop_state transitioned" where
  "settle_pending_call call s = guarding [(call \<notin> set (ls_pending_call_ids s), Call_Not_Pending)]
     (drop_pending_call call s)"

definition remove_tool_slot :: "string \<Rightarrow> loop_state \<Rightarrow> loop_state" where
  "remove_tool_slot stp s = s\<lparr>ls_pending_tool_steps := dict_del stp (ls_pending_tool_steps s)\<rparr>"

definition append_completed_step :: "string \<Rightarrow> loop_state \<Rightarrow> loop_state transitioned" where
  "append_completed_step stp s =
     guarding [(stp \<in> set (ls_completed_step_ids s), Step_Already_Completed)]
       (s\<lparr>ls_completed_step_ids := ls_completed_step_ids s @ [stp]\<rparr>)"

definition spend_llm_call :: "loop_state \<Rightarrow> loop_state" where
  "spend_llm_call s = s\<lparr>ls_remaining_llm_call_budget :=
     map_option (\<lambda>n. n - 1) (ls_remaining_llm_call_budget s)\<rparr>"

section \<open>The first event\<close>

definition initial_state ::
  "exploration_event \<Rightarrow> string \<Rightarrow> string \<Rightarrow> string \<Rightarrow> exploration_budget_policy \<Rightarrow> loop_state" where
  "initial_state e policy_fp code_fp witness budget =
    \<lparr>ls_schema_version = journal_schema_version,
     ls_exploration_id = ev_exploration_id e,
     ls_policy_fingerprint = policy_fp,
     ls_effective_policy_fingerprint = policy_fp,
     ls_code_fingerprint = code_fp,
     ls_data_state_witness = witness,
     ls_attempt_epoch = ev_attempt_epoch e,
     ls_status = Status_Running,
     ls_stop_reason = None,
     ls_final_report_ref = None,
     ls_max_llm_requests = pm_max_requests (llm budget),
     ls_max_successful_tool_calls = max_successful_tool_calls budget,
     ls_max_tool_calls_by_kind = max_tool_calls_by_kind budget,
     ls_max_rows_scanned = max_rows_scanned budget,
     ls_max_result_cells = max_result_cells budget,
     ls_max_rounds = max_rounds budget,
     ls_llm_calls_settled = 0,
     ls_llm_calls_uncertain = 0,
     ls_tool_calls_committed = 0,
     ls_tool_calls_by_kind = [],
     ls_rows_scanned = 0,
     ls_result_cells = 0,
     ls_rounds_started = 0,
     ls_rounds_settled = 0,
     ls_consecutive_no_progress = 0,
     ls_consecutive_empty_frontier = 0,
     ls_consecutive_no_adjudication = 0,
     ls_branch_trigger_stagnant_rounds = map_option trigger_stagnant_rounds (branching budget),
     ls_max_branches = (case branching budget of None \<Rightarrow> 0 | Some b \<Rightarrow> bp_max_branches b),
     ls_active_branch_id = None,
     ls_current_line_abandoned = False,
     ls_started_branch_ids = [],
     ls_abandoned_line_ids = [],
     ls_abandoned_constraints = [],
     ls_current_round_index = None,
     ls_current_round_reduction_committed = False,
     ls_pending_terminal_reason = None,
     ls_pending_terminal_has_reduction = False,
     ls_remaining_llm_call_budget = pm_max_requests (llm budget),
     ls_remaining_tool_call_budget = max_successful_tool_calls budget,
     ls_remaining_round_budget = max_rounds budget,
     ls_pending_tool_steps = [],
     ls_pending_call_ids = [],
     ls_pending_call_steps = [],
     ls_completed_step_ids = [],
     ls_completed_probe_fingerprints = [],
     ls_uncertain_call_ids = [],
     ls_step_receipt_refs = [],
     ls_step_result_digests = [],
     ls_failure_history = [],
     ls_amendment_ids = [],
     ls_gate_verdicts = [],
     ls_frontier_digest = None,
     ls_ledger_digest = None,
     ls_reduction_digest = None,
     ls_last_seq = ev_seq e\<rparr>"

definition validated :: "loop_state \<Rightarrow> reduce_fault + loop_state" where
  "validated s = (case loop_state_validate s of Inl r \<Rightarrow> Inl (Invalid_State r) | Inr t \<Rightarrow> Inr t)"

definition start_exploration :: "exploration_event \<Rightarrow> reduce_fault + loop_state" where
  "start_exploration e = (case ev_body e of
     Exploration_Started policy_fp code_fp witness budget \<Rightarrow>
       if ev_seq e \<noteq> 0 then Inl (Transition First_Event_Must_Start)
       else validated (initial_state e policy_fp code_fp witness budget)
   | _ \<Rightarrow> Inl (Transition First_Event_Must_Start))"

definition expected_epoch :: "loop_state \<Rightarrow> loop_event \<Rightarrow> int" where
  "expected_epoch s body =
     (if body = Attempt_Started then ls_attempt_epoch s + 1 else ls_attempt_epoch s)"

section \<open>Rounds and language-model calls\<close>

definition open_branch :: "string \<Rightarrow> loop_state \<Rightarrow> loop_state" where
  "open_branch b s = s\<lparr>ls_active_branch_id := Some b,
     ls_started_branch_ids := ls_started_branch_ids s @ [b],
     ls_current_line_abandoned := False\<rparr>"

definition round_branch_rules :: "string option \<Rightarrow> loop_state \<Rightarrow> loop_state transitioned" where
  "round_branch_rules branch s = (case branch of
     None \<Rightarrow> guarding
       [(ls_current_line_abandoned s, Line_Abandoned),
        (ls_active_branch_id s \<noteq> None, Branch_Id_Required)] s
   | Some b \<Rightarrow>
       if ls_branch_trigger_stagnant_rounds s = None then Inl Branching_Disabled
       else if ls_current_line_abandoned s then guarding
         [(b \<noteq> branch_name (length (ls_started_branch_ids s) + 1), Next_Branch_Mismatch),
          (ls_max_branches s \<le> int (length (ls_started_branch_ids s)), Branch_Budget_Exhausted)]
         (open_branch b s)
       else guarding [(Some b \<noteq> ls_active_branch_id s, Line_Not_Abandoned)] s)"

definition open_round :: "int \<Rightarrow> loop_state \<Rightarrow> loop_state" where
  "open_round index s = s\<lparr>ls_current_round_index := Some index,
     ls_rounds_started := ls_rounds_started s + 1,
     ls_remaining_round_budget := ls_remaining_round_budget s - 1,
     ls_current_round_reduction_committed := False\<rparr>"

definition on_round_started ::
  "int \<Rightarrow> string option \<Rightarrow> loop_state \<Rightarrow> loop_state transitioned" where
  "on_round_started index branch s =
     bind_res (guarding
       [not_running s, has_pending s,
        (ls_pending_terminal_reason s \<noteq> None, Terminal_Pending),
        (ls_current_round_index s \<noteq> None, Round_Open),
        (ls_remaining_round_budget s \<le> 0, Rounds_Exhausted),
        (index \<noteq> ls_rounds_started s, Round_Index_Mismatch)] s) (\<lambda>s.
     bind_res (round_branch_rules branch s) (\<lambda>s.
     Inr (open_round index s)))"

text \<open>A call in flight holds a slot of the request cap.\<close>

definition llm_cap_reached :: "loop_state \<Rightarrow> bool" where
  "llm_cap_reached s = (case ls_remaining_llm_call_budget s of
     None \<Rightarrow> False | Some n \<Rightarrow> n - int (length (ls_pending_call_ids s)) \<le> 0)"

definition on_llm_call_started ::
  "string \<Rightarrow> string option \<Rightarrow> loop_state \<Rightarrow> loop_state transitioned" where
  "on_llm_call_started call stp s = guarding
     [not_running s, (call \<in> set (ls_pending_call_ids s), Call_Already_Pending),
      (llm_cap_reached s, Llm_Cap_Reached)]
     (s\<lparr>ls_pending_call_ids := ls_pending_call_ids s @ [call],
        ls_pending_call_steps := (case stp of
            None \<Rightarrow> ls_pending_call_steps s
          | Some t \<Rightarrow> dict_set call t (ls_pending_call_steps s))\<rparr>)"

definition on_llm_call_completed :: "string \<Rightarrow> string \<Rightarrow> loop_state \<Rightarrow> loop_state transitioned" where
  "on_llm_call_completed call stp s =
     bind_res (settle_pending_call call s) (\<lambda>t.
     bind_res (guarding [((case map_of (ls_pending_call_steps s) call of
         None \<Rightarrow> False | Some bound \<Rightarrow> stp \<noteq> bound), Bound_Step_Mismatch)] t) (\<lambda>t.
     bind_res (append_completed_step stp t) (\<lambda>t.
     Inr (spend_llm_call (t\<lparr>ls_llm_calls_settled := ls_llm_calls_settled t + 1\<rparr>)))))"

definition on_llm_call_rejected :: "string \<Rightarrow> string \<Rightarrow> loop_state \<Rightarrow> loop_state transitioned" where
  "on_llm_call_rejected call err s =
     bind_res (settle_pending_call call s) (\<lambda>t.
     Inr (spend_llm_call (t\<lparr>ls_llm_calls_settled := ls_llm_calls_settled t + 1,
       ls_failure_history := ls_failure_history t @ [err]\<rparr>)))"

definition on_llm_call_uncertain :: "string \<Rightarrow> string \<Rightarrow> loop_state \<Rightarrow> loop_state transitioned" where
  "on_llm_call_uncertain call err s =
     bind_res (settle_pending_call call s) (\<lambda>t.
     Inr (spend_llm_call (t\<lparr>ls_llm_calls_uncertain := ls_llm_calls_uncertain t + 1,
       ls_uncertain_call_ids := ls_uncertain_call_ids t @ [call],
       ls_failure_history := ls_failure_history t @ [err]\<rparr>)))"

section \<open>Tool calls\<close>

definition on_tool_call_started ::
  "string \<Rightarrow> string \<Rightarrow> string \<Rightarrow> int \<Rightarrow> int \<Rightarrow> loop_state \<Rightarrow> loop_state transitioned" where
  "on_tool_call_started stp fp k rows cells s = guarding
     [not_running s,
      (stp \<in> set (dict_keys (ls_pending_tool_steps s)), Tool_Step_Already_Pending),
      (stp \<in> set (ls_completed_step_ids s), Tool_Step_Committed),
      (ls_remaining_tool_call_budget s - int (length (ls_pending_tool_steps s)) \<le> 0,
         Tool_Cap_Reached)]
     (s\<lparr>ls_pending_tool_steps := dict_set stp
         \<lparr>ts_tool_kind = k, ts_input_fingerprint = fp,
          ts_projected_rows_scanned = rows, ts_projected_result_cells = cells,
          ts_prepared_receipt_id = None, ts_prepared_result_digest = None\<rparr>
         (ls_pending_tool_steps s)\<rparr>)"

definition prepare_slot ::
  "string \<Rightarrow> string \<Rightarrow> string option \<Rightarrow> pending_tool_step \<Rightarrow> loop_state \<Rightarrow> loop_state" where
  "prepare_slot stp receipt digest slot s = s\<lparr>ls_pending_tool_steps := dict_set stp
     (slot\<lparr>ts_prepared_receipt_id := Some receipt, ts_prepared_result_digest := digest\<rparr>)
     (ls_pending_tool_steps s)\<rparr>"

definition on_receipt_prepared ::
  "string \<Rightarrow> string \<Rightarrow> string option \<Rightarrow> loop_state \<Rightarrow> loop_state transitioned" where
  "on_receipt_prepared stp receipt digest s = (case map_of (ls_pending_tool_steps s) stp of
     None \<Rightarrow> Inl Tool_Step_Not_Pending
   | Some slot \<Rightarrow> guarding
       [(ts_prepared_receipt_id slot \<noteq> None \<and> ts_prepared_receipt_id slot \<noteq> Some receipt,
           Receipt_Replaced),
        (ts_prepared_result_digest slot \<noteq> None \<and> ts_prepared_result_digest slot \<noteq> digest,
           Digest_Replaced)]
       (prepare_slot stp receipt digest slot s))"

definition commit_receipt ::
  "string \<Rightarrow> string \<Rightarrow> int \<Rightarrow> int \<Rightarrow> string option \<Rightarrow> pending_tool_step \<Rightarrow> loop_state \<Rightarrow> loop_state"
where
  "commit_receipt stp receipt rows cells digest slot t = remove_tool_slot stp (t\<lparr>
     ls_step_receipt_refs := dict_set stp receipt (ls_step_receipt_refs t),
     ls_step_result_digests := (case digest of
         None \<Rightarrow> ls_step_result_digests t
       | Some d \<Rightarrow> dict_set stp d (ls_step_result_digests t)),
     ls_tool_calls_by_kind := dict_set (ts_tool_kind slot)
       (dict_get (ls_tool_calls_by_kind t) (ts_tool_kind slot) 0 + 1)
       (ls_tool_calls_by_kind t),
     ls_rows_scanned := ls_rows_scanned t + rows,
     ls_result_cells := ls_result_cells t + cells,
     ls_completed_probe_fingerprints :=
       ls_completed_probe_fingerprints t @ [ts_input_fingerprint slot],
     ls_tool_calls_committed := ls_tool_calls_committed t + 1,
     ls_remaining_tool_call_budget := ls_remaining_tool_call_budget t - 1\<rparr>)"

definition on_receipt_committed ::
  "string \<Rightarrow> string \<Rightarrow> int \<Rightarrow> int \<Rightarrow> string option \<Rightarrow> loop_state \<Rightarrow> loop_state transitioned" where
  "on_receipt_committed stp receipt rows cells digest s =
    (case map_of (ls_pending_tool_steps s) stp of
     None \<Rightarrow> Inl Tool_Step_Not_Pending
   | Some slot \<Rightarrow>
       bind_res (guarding
         [(ts_prepared_receipt_id slot = None, Receipt_Not_Prepared),
          (ts_prepared_receipt_id slot \<noteq> Some receipt, Receipt_Mismatch),
          (ts_prepared_result_digest slot \<noteq> digest, Digest_Mismatch)] s) (\<lambda>s.
       bind_res (append_completed_step stp s) (\<lambda>t.
       Inr (commit_receipt stp receipt rows cells digest slot t))))"

definition on_tool_call_failed ::
  "string \<Rightarrow> string \<Rightarrow> int \<Rightarrow> int \<Rightarrow> loop_state \<Rightarrow> loop_state transitioned" where
  "on_tool_call_failed stp err rows cells s =
     guarding [(stp \<notin> set (dict_keys (ls_pending_tool_steps s)), Tool_Step_Not_Pending)]
       (remove_tool_slot stp (s\<lparr>ls_rows_scanned := ls_rows_scanned s + rows,
          ls_result_cells := ls_result_cells s + cells,
          ls_failure_history := ls_failure_history s @ [err]\<rparr>))"

section \<open>Verdicts, reductions and settled rounds\<close>

definition on_gate_verdict ::
  "string \<Rightarrow> gate_verdict_value \<Rightarrow> loop_state \<Rightarrow> loop_state transitioned" where
  "on_gate_verdict bundle v s = guarding
     [not_running s, has_pending s, (ls_current_round_index s = None, Round_Not_Open),
      ((case map_of (ls_gate_verdicts s) bundle of None \<Rightarrow> False | Some prior \<Rightarrow> prior \<noteq> v),
         Verdict_Overwritten)]
     (s\<lparr>ls_gate_verdicts := dict_set bundle v (ls_gate_verdicts s)\<rparr>)"

definition on_reduction_committed ::
  "string \<Rightarrow> string \<Rightarrow> string option \<Rightarrow> loop_state \<Rightarrow> loop_state transitioned" where
  "on_reduction_committed frontier ledger digest s = guarding
     [not_running s, has_pending s, (ls_current_round_index s = None, Round_Not_Open)]
     (s\<lparr>ls_frontier_digest := Some frontier, ls_ledger_digest := Some ledger,
        ls_reduction_digest := digest, ls_current_round_reduction_committed := True\<rparr>)"

definition on_round_settled :: "round_settlement \<Rightarrow> loop_state \<Rightarrow> loop_state transitioned" where
  "on_round_settled r s = guarding
     [has_pending s,
      (ls_current_round_index s = None, Round_Not_Open),
      (ls_current_round_index s \<noteq> Some (rs_round_index r), Round_Index_Mismatch),
      (rs_terminal_reason r \<noteq> None \<and>
         rs_terminal_has_reduction r \<noteq> ls_current_round_reduction_committed s,
         Terminal_Metadata_Mismatch),
      (rs_terminal_reason r = Some Graceful_No_New_Information \<and>
         ls_branch_trigger_stagnant_rounds s \<noteq> None \<and>
         int (length (ls_started_branch_ids s)) < ls_max_branches s, Branches_Not_Exhausted)]
     (s\<lparr>ls_current_round_index := None,
        ls_current_round_reduction_committed := False,
        ls_rounds_settled := ls_rounds_settled s + 1,
        ls_consecutive_no_progress :=
          (if rs_progress r then 0 else ls_consecutive_no_progress s + 1),
        ls_consecutive_empty_frontier :=
          (if rs_frontier_empty r then ls_consecutive_empty_frontier s + 1 else 0),
        ls_consecutive_no_adjudication :=
          (if 0 < rs_adjudicated_transitions r then 0
           else ls_consecutive_no_adjudication s + 1),
        ls_pending_terminal_reason := rs_terminal_reason r,
        ls_pending_terminal_has_reduction := rs_terminal_has_reduction r\<rparr>)"

definition on_branch_abandoned ::
  "string \<Rightarrow> int \<Rightarrow> branch_constraint list \<Rightarrow> loop_state \<Rightarrow> loop_state transitioned" where
  "on_branch_abandoned branch index constraints s = guarding
     [not_running s, has_pending s,
      (ls_branch_trigger_stagnant_rounds s = None, Branching_Disabled),
      (ls_current_round_index s \<noteq> None, Round_Open),
      (ls_pending_terminal_reason s \<noteq> None, Terminal_Pending),
      (ls_current_line_abandoned s, Line_Already_Abandoned),
      (ls_rounds_settled s = 0 \<or> index \<noteq> ls_rounds_settled s - 1, Not_Last_Settled_Round),
      (branch \<noteq> current_line s, Not_Current_Line),
      ((case ls_branch_trigger_stagnant_rounds s of None \<Rightarrow> False
        | Some n \<Rightarrow> ls_consecutive_no_progress s < n), Not_Stagnant),
      (ls_max_branches s \<le> int (length (ls_started_branch_ids s)), Branch_Budget_Exhausted)]
     (s\<lparr>ls_abandoned_line_ids := ls_abandoned_line_ids s @ [branch],
        ls_current_line_abandoned := True,
        ls_consecutive_no_progress := 0,
        ls_consecutive_no_adjudication := 0,
        ls_abandoned_constraints := ls_abandoned_constraints s @ constraints\<rparr>)"

section \<open>Pausing, amending and stopping\<close>

definition on_pause_requested :: "loop_state \<Rightarrow> loop_state transitioned" where
  "on_pause_requested s = guarding [(ls_status s \<noteq> Status_Running, Pause_Not_Running)]
     (s\<lparr>ls_status := Status_Pause_Requested\<rparr>)"

definition on_paused :: "loop_state \<Rightarrow> loop_state transitioned" where
  "on_paused s = guarding
     [(ls_status s \<noteq> Status_Pause_Requested, Pause_Not_Requested), has_pending s]
     (s\<lparr>ls_status := Status_Paused\<rparr>)"

definition on_resumed :: "loop_state \<Rightarrow> loop_state transitioned" where
  "on_resumed s = guarding [(ls_status s \<noteq> Status_Paused, Resume_Not_Paused)]
     (s\<lparr>ls_status := Status_Running\<rparr>)"

text \<open>An unlimited dimension stays unlimited.\<close>

definition on_budget_amended ::
  "hash_function \<Rightarrow> string \<Rightarrow> string \<Rightarrow> budget_cap_increase \<Rightarrow> loop_state
    \<Rightarrow> loop_state transitioned" where
  "on_budget_amended h amendment fp inc s = guarding
     [(amendment \<in> set (ls_amendment_ids s), Amendment_Replayed),
      (fp \<noteq> amended_policy_fingerprint h (ls_effective_policy_fingerprint s) amendment inc,
         Amendment_Fingerprint_Mismatch)]
     (s\<lparr>ls_max_llm_requests := raised (ls_max_llm_requests s) (ci_max_requests inc),
        ls_remaining_llm_call_budget :=
          (if ls_max_llm_requests s \<noteq> None \<and> ci_max_requests inc \<noteq> 0
           then raised (ls_remaining_llm_call_budget s) (ci_max_requests inc)
           else ls_remaining_llm_call_budget s),
        ls_max_successful_tool_calls :=
          ls_max_successful_tool_calls s + ci_max_successful_tool_calls inc,
        ls_max_tool_calls_by_kind :=
          merged_kinds (ls_max_tool_calls_by_kind s) (ci_max_tool_calls_by_kind inc),
        ls_max_rows_scanned := raised (ls_max_rows_scanned s) (ci_max_rows_scanned inc),
        ls_max_result_cells := raised (ls_max_result_cells s) (ci_max_result_cells inc),
        ls_remaining_tool_call_budget :=
          ls_remaining_tool_call_budget s + ci_max_successful_tool_calls inc,
        ls_max_rounds := ls_max_rounds s + ci_max_rounds inc,
        ls_remaining_round_budget := ls_remaining_round_budget s + ci_max_rounds inc,
        ls_effective_policy_fingerprint := fp,
        ls_amendment_ids := ls_amendment_ids s @ [amendment]\<rparr>)"

definition natural_stop :: "stop_reason \<Rightarrow> bool" where
  "natural_stop r \<longleftrightarrow>
     r \<in> {Stop_Completed, Stop_Budget_Exhausted, Stop_No_New_Information}"

text \<open>Stopping settles what is in flight: every pending call becomes uncertain, every pending
  tool step is charged at its projection.\<close>

definition settle_in_flight :: "loop_state \<Rightarrow> loop_state" where
  "settle_in_flight s =
     (let n = int (length (ls_pending_call_ids s));
          slots = dict_values (ls_pending_tool_steps s)
      in s\<lparr>ls_llm_calls_uncertain := ls_llm_calls_uncertain s + n,
           ls_uncertain_call_ids := ls_uncertain_call_ids s @ ls_pending_call_ids s,
           ls_remaining_llm_call_budget := map_option (\<lambda>r. r - n) (ls_remaining_llm_call_budget s),
           ls_pending_call_ids := [],
           ls_pending_call_steps := [],
           ls_rows_scanned := ls_rows_scanned s + sum_list (map ts_projected_rows_scanned slots),
           ls_result_cells := ls_result_cells s + sum_list (map ts_projected_result_cells slots),
           ls_pending_tool_steps := []\<rparr>)"

definition on_exploration_stopped ::
  "stop_reason \<Rightarrow> string option \<Rightarrow> loop_state \<Rightarrow> loop_state transitioned" where
  "on_exploration_stopped why report s = guarding
     (if natural_stop why then
        [(ls_status s \<noteq> Status_Running, Natural_Stop_Not_Running), has_pending s,
         ((case ls_pending_terminal_reason s of None \<Rightarrow> False
           | Some g \<Rightarrow> why \<noteq> stop_of_graceful g), Terminal_Reason_Mismatch)]
      else [])
     ((settle_in_flight s)\<lparr>ls_status := Status_Stopped, ls_stop_reason := Some why,
        ls_final_report_ref := report,
        ls_pending_terminal_reason := None, ls_pending_terminal_has_reduction := False\<rparr>)"

section \<open>The reducer\<close>

fun apply_body ::
  "hash_function \<Rightarrow> int \<Rightarrow> loop_event \<Rightarrow> loop_state \<Rightarrow> loop_state transitioned" where
  "apply_body h epoch (Exploration_Started _ _ _ _) s = Inl Started_Only_First"
| "apply_body h epoch Attempt_Started s = Inr (s\<lparr>ls_attempt_epoch := epoch\<rparr>)"
| "apply_body h epoch (Round_Started index branch) s = on_round_started index branch s"
| "apply_body h epoch (Llm_Call_Started call stp) s = on_llm_call_started call stp s"
| "apply_body h epoch (Llm_Call_Completed call stp _) s = on_llm_call_completed call stp s"
| "apply_body h epoch (Llm_Call_Rejected call err) s = on_llm_call_rejected call err s"
| "apply_body h epoch (Llm_Call_Uncertain call err) s = on_llm_call_uncertain call err s"
| "apply_body h epoch (Tool_Call_Started stp fp k _ rows cells) s =
     on_tool_call_started stp fp k rows cells s"
| "apply_body h epoch (Receipt_Prepared stp receipt digest) s =
     on_receipt_prepared stp receipt digest s"
| "apply_body h epoch (Receipt_Committed stp receipt rows cells digest) s =
     on_receipt_committed stp receipt rows cells digest s"
| "apply_body h epoch (Tool_Call_Failed stp err rows cells) s =
     on_tool_call_failed stp err rows cells s"
| "apply_body h epoch (Gate_Verdict bundle v) s = on_gate_verdict bundle v s"
| "apply_body h epoch (Reduction_Committed frontier ledger digest) s =
     on_reduction_committed frontier ledger digest s"
| "apply_body h epoch (Round_Settled r) s = on_round_settled r s"
| "apply_body h epoch (Branch_Abandoned branch index constraints) s =
     on_branch_abandoned branch index constraints s"
| "apply_body h epoch (Pause_Requested _) s = on_pause_requested s"
| "apply_body h epoch Paused s = on_paused s"
| "apply_body h epoch Resumed s = on_resumed s"
| "apply_body h epoch (Budget_Amended amendment fp inc) s = on_budget_amended h amendment fp inc s"
| "apply_body h epoch (Exploration_Stopped why report) s = on_exploration_stopped why report s"

text \<open>The checks every event but the first passes before its own rules.\<close>

definition envelope_guards ::
  "loop_state \<Rightarrow> exploration_event \<Rightarrow> (bool \<times> transition_rule) list" where
  "envelope_guards s e =
     [(ls_schema_version s \<noteq> journal_schema_version, Unsupported_State_Schema),
      ((case ev_body e of Exploration_Started _ _ _ _ \<Rightarrow> True | _ \<Rightarrow> False), Started_Only_First),
      (ev_exploration_id e \<noteq> ls_exploration_id s, Exploration_Id_Mismatch),
      (ev_seq e \<noteq> ls_last_seq s + 1, Seq_Mismatch),
      (ev_attempt_epoch e \<noteq> expected_epoch s (ev_body e), Epoch_Mismatch),
      (ls_status s = Status_Stopped, Already_Stopped)]"

definition reduce_exploration_event ::
  "hash_function \<Rightarrow> loop_state option \<Rightarrow> exploration_event \<Rightarrow> reduce_fault + loop_state" where
  "reduce_exploration_event h state e =
     (if ev_schema_version e \<noteq> journal_schema_version
      then Inl (Transition Unsupported_Event_Schema)
      else case state of
        None \<Rightarrow> start_exploration e
      | Some s \<Rightarrow>
          (case bind_res (guarding (envelope_guards s e) (s\<lparr>ls_last_seq := ev_seq e\<rparr>))
             (apply_body h (ev_attempt_epoch e) (ev_body e)) of
             Inl rule \<Rightarrow> Inl (Transition rule)
           | Inr t \<Rightarrow> validated t))"

fun rebuild_from ::
  "hash_function \<Rightarrow> loop_state option \<Rightarrow> exploration_event list
    \<Rightarrow> reduce_fault + loop_state option" where
  "rebuild_from h state [] = Inr state"
| "rebuild_from h state (e # es) =
     bind_res (reduce_exploration_event h state e) (\<lambda>s. rebuild_from h (Some s) es)"

definition rebuild_exploration_state ::
  "hash_function \<Rightarrow> exploration_event list \<Rightarrow> reduce_fault + loop_state option" where
  "rebuild_exploration_state h events = rebuild_from h None events"

end
