(* ===== verification/JournalInvariant.thy ===== *)
theory JournalInvariant
  imports ExplorationJournal
begin

text \<open>
  What every state an exploration journal can rebuild satisfies, and the properties of
  \<open>core/exploration_journal.py\<close> that follow.
\<close>

section \<open>What an accepted event passed\<close>

text \<open>The arms whose rules read a slot, a bound step or a branch, as one equivalence each.\<close>

lemma round_branch_rules_Inr:
  "round_branch_rules branch s = Inr t \<longleftrightarrow>
     branch = None \<and> \<not> ls_current_line_abandoned s \<and> ls_active_branch_id s = None \<and> t = s \<or>
     branch = Some (branch_name (length (ls_started_branch_ids s) + 1)) \<and>
       ls_branch_trigger_stagnant_rounds s \<noteq> None \<and> ls_current_line_abandoned s \<and>
       int (length (ls_started_branch_ids s)) < ls_max_branches s \<and>
       t = open_branch (branch_name (length (ls_started_branch_ids s) + 1)) s \<or>
     branch \<noteq> None \<and> branch = ls_active_branch_id s \<and>
       ls_branch_trigger_stagnant_rounds s \<noteq> None \<and> \<not> ls_current_line_abandoned s \<and> t = s"
  by (cases branch) (auto simp: round_branch_rules_def guarding_Inr_iff)

lemma on_round_started_Inr:
  "on_round_started index branch s = Inr t \<longleftrightarrow>
     ls_status s = Status_Running \<and> ls_pending_call_ids s = [] \<and> ls_pending_tool_steps s = [] \<and>
     ls_pending_terminal_reason s = None \<and> ls_current_round_index s = None \<and>
     0 < ls_remaining_round_budget s \<and> index = ls_rounds_started s \<and>
     (\<exists>u. round_branch_rules branch s = Inr u \<and> t = open_round index u)"
  by (auto simp: on_round_started_def bind_res_Inr_iff guarding_Inr_iff not_running_def
      has_pending_def)

lemma on_llm_call_completed_Inr:
  "on_llm_call_completed call stp s = Inr t \<longleftrightarrow>
     call \<in> set (ls_pending_call_ids s) \<and>
     map_of (ls_pending_call_steps s) call \<in> {None, Some stp} \<and>
     stp \<notin> set (ls_completed_step_ids s) \<and>
     t = spend_llm_call ((drop_pending_call call s)\<lparr>
       ls_completed_step_ids := ls_completed_step_ids s @ [stp],
       ls_llm_calls_settled := ls_llm_calls_settled s + 1\<rparr>)"
  by (cases "map_of (ls_pending_call_steps s) call")
    (auto simp: on_llm_call_completed_def settle_pending_call_def append_completed_step_def
      bind_res_Inr_iff guarding_Inr_iff drop_pending_call_def)

lemma on_receipt_prepared_Inr:
  "on_receipt_prepared stp receipt digest s = Inr t \<longleftrightarrow>
     (\<exists>slot. map_of (ls_pending_tool_steps s) stp = Some slot \<and>
        ts_prepared_receipt_id slot \<in> {None, Some receipt} \<and>
        ts_prepared_result_digest slot \<in> {None, digest} \<and>
        t = prepare_slot stp receipt digest slot s)"
  by (cases "map_of (ls_pending_tool_steps s) stp")
    (auto simp: on_receipt_prepared_def guarding_Inr_iff)

lemma on_receipt_committed_Inr:
  "on_receipt_committed stp receipt rows cells digest s = Inr t \<longleftrightarrow>
     (\<exists>slot. map_of (ls_pending_tool_steps s) stp = Some slot \<and>
        ts_prepared_receipt_id slot = Some receipt \<and> ts_prepared_result_digest slot = digest \<and>
        stp \<notin> set (ls_completed_step_ids s) \<and>
        t = commit_receipt stp receipt rows cells digest slot
          (s\<lparr>ls_completed_step_ids := ls_completed_step_ids s @ [stp]\<rparr>))"
  by (cases "map_of (ls_pending_tool_steps s) stp")
    (auto simp: on_receipt_committed_def append_completed_step_def bind_res_Inr_iff
      guarding_Inr_iff)

text \<open>The other arms unfold to their guards and their writes.\<close>

lemmas arm_simps = on_round_started_Inr round_branch_rules_Inr on_llm_call_started_def
  on_llm_call_completed_Inr on_llm_call_rejected_def on_llm_call_uncertain_def
  on_tool_call_started_def on_receipt_prepared_Inr on_receipt_committed_Inr
  on_tool_call_failed_def on_gate_verdict_def on_reduction_committed_def on_round_settled_def
  on_branch_abandoned_def on_pause_requested_def on_paused_def on_resumed_def
  on_budget_amended_def on_exploration_stopped_def
  not_running_def has_pending_def settle_pending_call_def guarding_Inr_iff bind_res_Inr_iff

lemmas write_simps = open_round_def open_branch_def drop_pending_call_def remove_tool_slot_def
  spend_llm_call_def settle_in_flight_def prepare_slot_def commit_receipt_def Let_def

lemma validated_Inr: "validated s = Inr t \<longleftrightarrow> t = s \<and> loop_state_valid s"
proof (cases "loop_state_validate s")
  case (Inl r)
  then show ?thesis by (simp add: validated_def loop_state_valid_def)
next
  case (Inr u)
  then have "u = s" "loop_state_valid s"
    using loop_state_validate_Inr[of s u] by blast+
  with Inr show ?thesis by (simp add: validated_def eq_commute[of s])
qed

lemma reduce_Some:
  assumes "ev_schema_version e = journal_schema_version"
  shows "reduce_exploration_event h (Some s) e =
    (case guarding (envelope_guards s e) (s\<lparr>ls_last_seq := ev_seq e\<rparr>) of
       Inl rule \<Rightarrow> Inl (Transition rule)
     | Inr u \<Rightarrow> (case apply_body h (ev_attempt_epoch e) (ev_body e) u of
         Inl rule \<Rightarrow> Inl (Transition rule) | Inr t \<Rightarrow> validated t))"
  using assms
  by (cases "guarding (envelope_guards s e) (s\<lparr>ls_last_seq := ev_seq e\<rparr>)")
    (simp_all add: reduce_exploration_event_def)

lemma reduce_schema:
  "reduce_exploration_event h st e = Inr t \<Longrightarrow> ev_schema_version e = journal_schema_version"
  by (simp add: reduce_exploration_event_def split: if_splits)

lemma reduce_Some_Inr:
  "reduce_exploration_event h (Some s) e = Inr t \<longleftrightarrow>
     ev_schema_version e = journal_schema_version \<and> (\<forall>g \<in> set (envelope_guards s e). \<not> fst g) \<and>
     apply_body h (ev_attempt_epoch e) (ev_body e) (s\<lparr>ls_last_seq := ev_seq e\<rparr>) = Inr t \<and>
     loop_state_valid t" (is "?L \<longleftrightarrow> ?V \<and> ?G \<and> ?A \<and> ?T")
proof
  assume L: ?L
  note V = reduce_schema[OF L]
  obtain u where u: "guarding (envelope_guards s e) (s\<lparr>ls_last_seq := ev_seq e\<rparr>) = Inr u"
    using L unfolding reduce_Some[OF V] by (cases "guarding (envelope_guards s e) (s\<lparr>ls_last_seq := ev_seq e\<rparr>)") auto
  then have u': "u = s\<lparr>ls_last_seq := ev_seq e\<rparr>" and G: ?G
    unfolding guarding_Inr_iff by blast+
  obtain w where w: "apply_body h (ev_attempt_epoch e) (ev_body e) u = Inr w"
    using L unfolding reduce_Some[OF V] u by (cases "apply_body h (ev_attempt_epoch e) (ev_body e) u") auto
  then have "validated w = Inr t"
    using L unfolding reduce_Some[OF V] u by simp
  with w u' V G show "?V \<and> ?G \<and> ?A \<and> ?T"
    unfolding validated_Inr by metis
next
  assume R: "?V \<and> ?G \<and> ?A \<and> ?T"
  then have "guarding (envelope_guards s e) (s\<lparr>ls_last_seq := ev_seq e\<rparr>) = Inr (s\<lparr>ls_last_seq := ev_seq e\<rparr>)"
    unfolding guarding_Inr_iff by blast
  with R show ?L
    by (simp add: reduce_Some validated_Inr)
qed

lemma envelope_passed:
  assumes "\<forall>g \<in> set (envelope_guards s e). \<not> fst g"
  shows "ev_exploration_id e = ls_exploration_id s" "ev_seq e = ls_last_seq s + 1"
    "ev_attempt_epoch e = expected_epoch s (ev_body e)" "ls_status s \<noteq> Status_Stopped"
  using assms by (auto simp: envelope_guards_def)

section \<open>Budget slots\<close>

definition slots_inv :: "loop_state \<Rightarrow> bool" where
  "slots_inv s \<longleftrightarrow>
     (\<forall>r. ls_remaining_llm_call_budget s = Some r \<longrightarrow> int (length (ls_pending_call_ids s)) \<le> r) \<and>
     int (length (ls_pending_tool_steps s)) \<le> ls_remaining_tool_call_budget s"

lemma length_dict_del: "k \<in> fst ` set d \<Longrightarrow> distinct (dict_keys d) \<Longrightarrow>
    length (dict_del k d) = length d - 1"
  by (metis card_Diff_singleton distinct_card distinct_delete keys_dict_del length_map list.set_map)

lemma length_filter_neq: "x \<in> set xs \<Longrightarrow> length (filter (\<lambda>c. c \<noteq> x) xs) < length xs"
  by (induction xs) (auto simp: le_imp_less_Suc)

lemma length_dict_set: "length (dict_set k v d) = (if k \<in> fst ` set d then length d else length d + 1)"
  by (induction d) auto

lemma length_filter_neq_int:
  "x \<in> set xs \<Longrightarrow> int (length (filter (\<lambda>c. c \<noteq> x) xs)) \<le> int (length xs) - 1"
  using length_filter_neq[of x xs] by linarith

lemma filter_slot:
  assumes "x \<in> set xs" "int (length xs) \<le> z"
  shows "int (length (filter (\<lambda>c. c \<noteq> x) xs)) < z" "int (length (filter (\<lambda>c. c \<noteq> x) xs)) \<le> z - 1"
  using length_filter_neq[OF assms(1)] assms(2) by linarith+

lemma length_dict_del_int: "k \<in> fst ` set d \<Longrightarrow> distinct (dict_keys d) \<Longrightarrow>
    int (length (dict_del k d)) = int (length d) - 1"
  using length_dict_del[of k d] by (cases "length d") auto

lemma length_dict_del_entry: "(k, v) \<in> set d \<Longrightarrow> distinct (dict_keys d) \<Longrightarrow>
    int (length (dict_del k d)) = int (length d) - 1"
  by (rule length_dict_del_int) force+

lemma map_of_key: "map_of d k = Some v \<Longrightarrow> k \<in> fst ` set d"
  by (force dest: map_of_SomeD)

lemmas increase_nonneg = increase_valid_nonneg(1,7-10)

lemma raised_Some_iff: "raised c d = Some r \<longleftrightarrow> (\<exists>x. c = Some x \<and> r = x + d)"
  by (cases c) auto

lemma length_dict_set_entry: "(k, w) \<in> set d \<Longrightarrow> length (dict_set k v d) = length d"
  by (force simp: length_dict_set)

lemma length_dict_set_new: "k \<notin> fst ` set d \<Longrightarrow> length (dict_set k v d) = Suc (length d)"
  by (simp add: length_dict_set)

lemmas slot_arith = filter_slot length_dict_del_int length_dict_del_entry length_dict_set_new
  length_dict_set_entry raised_Some_iff

lemma slots_inv_arm:
  assumes "apply_body h ep b s = Inr t" "body_valid b" "dicts_wf s" "slots_inv s"
  shows "slots_inv t"
  using assms unfolding slots_inv_def dicts_wf_def
  by (cases b, simp_all add: arm_simps write_simps llm_cap_reached_def slot_arith)
    (auto simp: slot_arith split: option.splits if_splits dest: map_of_key increase_nonneg)

lemma dicts_wf_arm:
  assumes "apply_body h ep b s = Inr t" "body_valid b" "dicts_wf s"
  shows "dicts_wf t"
  using assms unfolding dicts_wf_def
  by (cases b, simp_all add: arm_simps write_simps)
    (auto intro!: distinct_dict_set distinct_dict_del merged_kinds_distinct split: option.splits if_splits)

section \<open>Lines of exploration\<close>

definition explored_lines :: "loop_state \<Rightarrow> string list" where
  "explored_lines s = main_line_id # ls_started_branch_ids s"

definition numbered_branches :: "nat \<Rightarrow> string list" where
  "numbered_branches k = map branch_name [1 ..< Suc k]"

lemma numbered_branches_simps [simp]:
  "numbered_branches 0 = []"
  "numbered_branches (Suc k) = numbered_branches k @ [branch_name (Suc k)]"
  "length (numbered_branches k) = k"
  by (simp_all add: numbered_branches_def)

definition branch_inv :: "loop_state \<Rightarrow> bool" where
  "branch_inv s \<longleftrightarrow>
     (\<exists>k. ls_started_branch_ids s = numbered_branches k) \<and>
     current_line s = last (explored_lines s) \<and>
     (ls_active_branch_id s = None \<longleftrightarrow> ls_started_branch_ids s = []) \<and>
     ls_abandoned_line_ids s =
       (if ls_current_line_abandoned s then explored_lines s else butlast (explored_lines s)) \<and>
     (ls_current_line_abandoned s \<longrightarrow> int (length (ls_started_branch_ids s)) < ls_max_branches s)"

text \<open>Only opening a round and abandoning a line touch the branch fields.\<close>

lemma branch_frame_all:
  assumes "apply_body h ep b s = Inr t"
    "\<And>i br. b \<noteq> Round_Started i br" "\<And>l i cs. b \<noteq> Branch_Abandoned l i cs"
  shows "(ls_started_branch_ids t = ls_started_branch_ids s) \<and>
     (ls_active_branch_id t = ls_active_branch_id s) \<and>
     (ls_abandoned_line_ids t = ls_abandoned_line_ids s) \<and>
     (ls_current_line_abandoned t = ls_current_line_abandoned s) \<and>
     (ls_max_branches t = ls_max_branches s) \<and>
     (ls_abandoned_constraints t = ls_abandoned_constraints s)"
  using assms
  by (cases b, simp_all add: arm_simps write_simps, auto)

lemmas branch_frame =
  branch_frame_all[THEN conjunct1]
  branch_frame_all[THEN conjunct2, THEN conjunct1]
  branch_frame_all[THEN conjunct2, THEN conjunct2, THEN conjunct1]
  branch_frame_all[THEN conjunct2, THEN conjunct2, THEN conjunct2, THEN conjunct1]
  branch_frame_all[THEN conjunct2, THEN conjunct2, THEN conjunct2, THEN conjunct2, THEN conjunct1]
  branch_frame_all[THEN conjunct2, THEN conjunct2, THEN conjunct2, THEN conjunct2, THEN conjunct2]

lemma receipt_frame_all:
  assumes "apply_body h ep b s = Inr t"
    "\<And>st r rows cells d. b \<noteq> Receipt_Committed st r rows cells d"
  shows "(ls_completed_probe_fingerprints t = ls_completed_probe_fingerprints s) \<and>
     (ls_step_receipt_refs t = ls_step_receipt_refs s) \<and>
     (ls_step_result_digests t = ls_step_result_digests s) \<and>
     (ls_tool_calls_committed t = ls_tool_calls_committed s) \<and>
     (ls_tool_calls_by_kind t = ls_tool_calls_by_kind s) \<and>
     (set (ls_completed_step_ids s) \<subseteq> set (ls_completed_step_ids t))"
  using assms
  by (cases b, simp_all add: arm_simps write_simps, auto)

lemmas receipt_frame =
  receipt_frame_all[THEN conjunct1]
  receipt_frame_all[THEN conjunct2, THEN conjunct1]
  receipt_frame_all[THEN conjunct2, THEN conjunct2, THEN conjunct1]
  receipt_frame_all[THEN conjunct2, THEN conjunct2, THEN conjunct2, THEN conjunct1]
  receipt_frame_all[THEN conjunct2, THEN conjunct2, THEN conjunct2, THEN conjunct2, THEN conjunct1]
  receipt_frame_all[THEN conjunct2, THEN conjunct2, THEN conjunct2, THEN conjunct2, THEN conjunct2]

lemma branch_inv_round:
  assumes "round_branch_rules br s = Inr u" "branch_inv s"
  shows "branch_inv (open_round i u)"
proof -
  obtain k where k: "ls_started_branch_ids s = numbered_branches k"
    using assms(2) by (auto simp: branch_inv_def)
  consider "u = s" "\<not> ls_current_line_abandoned s"
    | "u = open_branch (branch_name (Suc k)) s" "ls_current_line_abandoned s"
    using assms(1) k by (auto simp: round_branch_rules_Inr)
  then show ?thesis
  proof cases
    case 1
    with assms(2) show ?thesis
      by (simp add: branch_inv_def open_round_def explored_lines_def current_line_def)
  next
    case 2
    with assms(2) k show ?thesis
      unfolding branch_inv_def
      by (intro conjI exI[of _ "Suc k"])
        (auto simp: open_round_def open_branch_def explored_lines_def current_line_def)
  qed
qed

lemma branch_inv_abandoned:
  assumes "on_branch_abandoned l i cs s = Inr t" "branch_inv s"
  shows "branch_inv t"
proof -
  have "butlast (explored_lines s) @ [current_line s] = explored_lines s"
    using assms(2) by (simp add: branch_inv_def explored_lines_def)
  with assms show ?thesis
    by (auto simp: on_branch_abandoned_def guarding_Inr_iff branch_inv_def explored_lines_def
        current_line_def)
qed

lemma branch_inv_arm:
  assumes "apply_body h ep b s = Inr t" "branch_inv s"
  shows "branch_inv t"
proof (cases "(\<exists>i br. b = Round_Started i br) \<or> (\<exists>l i cs. b = Branch_Abandoned l i cs)")
  case True
  with assms show ?thesis
    by (auto simp: on_round_started_Inr intro: branch_inv_round branch_inv_abandoned)
next
  case False
  with assms(2) branch_frame[OF assms(1)] show ?thesis
    by (simp add: branch_inv_def explored_lines_def current_line_def)
qed

section \<open>Committed steps\<close>

definition receipt_inv :: "loop_state \<Rightarrow> bool" where
  "receipt_inv s \<longleftrightarrow>
     int (length (ls_completed_probe_fingerprints s)) = ls_tool_calls_committed s \<and>
     int (length (ls_step_receipt_refs s)) = ls_tool_calls_committed s \<and>
     set (dict_keys (ls_step_receipt_refs s)) \<subseteq> set (ls_completed_step_ids s) \<and>
     set (dict_keys (ls_step_result_digests s)) \<subseteq> set (dict_keys (ls_step_receipt_refs s))"

lemma receipt_committed_writes:
  assumes "on_receipt_committed st r rows cells d s = Inr t"
  shows "ls_step_receipt_refs t = dict_set st r (ls_step_receipt_refs s)"
    "ls_step_result_digests t = (case d of None \<Rightarrow> ls_step_result_digests s
       | Some x \<Rightarrow> dict_set st x (ls_step_result_digests s))"
    "ls_completed_step_ids t = ls_completed_step_ids s @ [st]"
    "length (ls_completed_probe_fingerprints t) = Suc (length (ls_completed_probe_fingerprints s))"
    "ls_tool_calls_committed t = ls_tool_calls_committed s + 1"
    "ls_rows_scanned t = ls_rows_scanned s + rows"
    "ls_result_cells t = ls_result_cells s + cells"
    "st \<notin> set (ls_completed_step_ids s)"
  using assms
  by (auto simp: on_receipt_committed_Inr commit_receipt_def remove_tool_slot_def
      split: option.splits)

lemma receipt_inv_committed:
  assumes "on_receipt_committed st r rows cells d s = Inr t" "receipt_inv s"
  shows "receipt_inv t"
proof -
  have "st \<notin> fst ` set (ls_step_receipt_refs s)"
    using receipt_committed_writes(8)[OF assms(1)] assms(2) by (auto simp: receipt_inv_def)
  then show ?thesis
    using assms(2) unfolding receipt_inv_def
    by (cases d) (simp_all add: receipt_committed_writes[OF assms(1)] length_dict_set_new
        subset_insertI2)
qed

lemma receipt_inv_arm:
  assumes "apply_body h ep b s = Inr t" "receipt_inv s"
  shows "receipt_inv t"
proof (cases "\<exists>st r rows cells d. b = Receipt_Committed st r rows cells d")
  case True
  with assms show ?thesis by (auto intro: receipt_inv_committed)
next
  case False
  with assms(2) receipt_frame[OF assms(1)] show ?thesis
    unfolding receipt_inv_def by auto
qed

definition quiet_inv :: "loop_state \<Rightarrow> bool" where
  "quiet_inv s \<longleftrightarrow>
     (ls_status s \<in> {Status_Paused, Status_Stopped} \<longrightarrow>
        ls_pending_call_ids s = [] \<and> ls_pending_tool_steps s = []) \<and>
     (\<forall>i. ls_current_round_index s = Some i \<longrightarrow> i = ls_rounds_started s - 1) \<and>
     int (length (ls_uncertain_call_ids s)) = ls_llm_calls_uncertain s \<and>
     distinct (ls_amendment_ids s)"

lemma round_branch_rules_frame:
  assumes "round_branch_rules br s = Inr u"
  shows "ls_status u = ls_status s" "ls_pending_call_ids u = ls_pending_call_ids s"
    "ls_pending_tool_steps u = ls_pending_tool_steps s"
    "ls_rounds_started u = ls_rounds_started s"
    "ls_uncertain_call_ids u = ls_uncertain_call_ids s"
    "ls_llm_calls_uncertain u = ls_llm_calls_uncertain s"
    "ls_amendment_ids u = ls_amendment_ids s"
  using assms by (auto simp: round_branch_rules_Inr open_branch_def)

lemma quiet_inv_arm:
  assumes "apply_body h ep b s = Inr t" "quiet_inv s" "ls_status s \<noteq> Status_Stopped"
  shows "quiet_inv t"
  using assms unfolding quiet_inv_def
  by (cases b, simp_all add: arm_simps write_simps, auto)


section \<open>The journal invariant\<close>

definition journal_inv :: "loop_state \<Rightarrow> bool" where
  "journal_inv s \<longleftrightarrow> loop_state_valid s \<and> dicts_wf s \<and> slots_inv s \<and> branch_inv s \<and>
     receipt_inv s \<and> quiet_inv s"

lemma reduce_step_inv:
  assumes "reduce_exploration_event h (Some s) e = Inr t" "event_valid e" "journal_inv s"
  shows "journal_inv t"
proof -
  let ?s = "s\<lparr>ls_last_seq := ev_seq e\<rparr>"
  have arm: "apply_body h (ev_attempt_epoch e) (ev_body e) ?s = Inr t" "loop_state_valid t"
    and env: "ls_status s \<noteq> Status_Stopped"
    using assms(1) envelope_passed(4) by (auto simp: reduce_Some_Inr)
  have "dicts_wf ?s" "slots_inv ?s" "branch_inv ?s" "receipt_inv ?s" "quiet_inv ?s"
    using assms(3)
    by (simp_all add: journal_inv_def dicts_wf_def slots_inv_def branch_inv_def receipt_inv_def
        quiet_inv_def explored_lines_def current_line_def)
  with arm env assms(2) show ?thesis
    by (auto simp: journal_inv_def event_valid_def intro: dicts_wf_arm slots_inv_arm
        branch_inv_arm receipt_inv_arm quiet_inv_arm)
qed

lemma start_inv:
  assumes "start_exploration e = Inr t" "event_valid e"
  shows "journal_inv t"
proof -
  obtain p c w b where body: "ev_body e = Exploration_Started p c w b"
    using assms(1) by (cases "ev_body e") (auto simp: start_exploration_def)
  with assms have t: "t = initial_state e p c w b" "loop_state_valid t"
    and b: "budget_policy_valid b"
    by (auto simp: start_exploration_def validated_Inr event_valid_def split: if_splits)
  have "at_least_one (pm_max_requests (llm b))" "1 \<le> max_successful_tool_calls b"
    "distinct (dict_keys (max_tool_calls_by_kind b))"
    using b by (auto simp: budget_policy_valid_def policy_model_valid_def model_fields_ok_def)
  moreover have "ls_started_branch_ids t = numbered_branches 0"
    using t by (simp add: initial_state_def)
  ultimately show ?thesis
    using t unfolding journal_inv_def branch_inv_def
    by (auto simp: initial_state_def dicts_wf_def slots_inv_def receipt_inv_def quiet_inv_def
        explored_lines_def current_line_def at_least_one_def intro: exI[of _ 0] split: option.splits)
qed

lemma reduce_inv:
  assumes "reduce_exploration_event h st e = Inr t" "event_valid e"
    "\<And>s. st = Some s \<Longrightarrow> journal_inv s"
  shows "journal_inv t"
proof (cases st)
  case None
  with assms show ?thesis
    by (auto simp: reduce_exploration_event_def split: if_splits intro: start_inv)
next
  case (Some s)
  with assms show ?thesis using reduce_step_inv by blast
qed

lemma rebuild_from_inv:
  assumes "rebuild_from h st es = Inr (Some t)" "\<forall>e \<in> set es. event_valid e"
    "\<And>s. st = Some s \<Longrightarrow> journal_inv s"
  shows "journal_inv t"
  using assms
proof (induction es arbitrary: st)
  case (Cons e es)
  from Cons.prems(1) obtain s where s: "reduce_exploration_event h st e = Inr s"
    "rebuild_from h (Some s) es = Inr (Some t)"
    by (auto simp: bind_res_Inr_iff)
  have "journal_inv s"
    using reduce_inv[OF s(1)] Cons.prems(2,3) by simp
  with Cons.IH[OF s(2)] Cons.prems(2) show ?case by simp
qed simp

lemma rebuild_inv:
  "rebuild_exploration_state h es = Inr (Some t) \<Longrightarrow> \<forall>e \<in> set es. event_valid e \<Longrightarrow> journal_inv t"
  unfolding rebuild_exploration_state_def by (rule rebuild_from_inv) auto

end
