(* ===== verification/JournalConsistency.thy ===== *)
theory JournalConsistency
  imports JournalInvariant
begin

text \<open>
  The two layers of the journal agree: what the rules of the reducer accept passes the
  re-validation of the state schema, except for three rules on identifiers that only the
  schema checks.
\<close>

section \<open>The rules imply the schema\<close>

text \<open>The constraints of the state schema, by subject, without the three rules that the
  reducer does not check itself.\<close>

definition identity_ok :: "loop_state \<Rightarrow> bool" where
  "identity_ok s \<longleftrightarrow> ls_schema_version s = journal_schema_version \<and>
     ls_exploration_id s \<noteq> [] \<and> ls_policy_fingerprint s \<noteq> [] \<and>
     ls_effective_policy_fingerprint s \<noteq> [] \<and> ls_code_fingerprint s \<noteq> [] \<and>
     ls_data_state_witness s \<noteq> [] \<and> 0 \<le> ls_attempt_epoch s \<and> 0 \<le> ls_last_seq s \<and>
     (ls_stop_reason s \<noteq> None) = (ls_status s = Status_Stopped)"

definition caps_ok :: "loop_state \<Rightarrow> bool" where
  "caps_ok s \<longleftrightarrow>
     at_least_one (ls_max_llm_requests s) \<and> 1 \<le> ls_max_successful_tool_calls s \<and>
     at_least_one (ls_max_rows_scanned s) \<and> at_least_one (ls_max_result_cells s) \<and>
     1 \<le> ls_max_rounds s \<and> at_least_one (ls_branch_trigger_stagnant_rounds s) \<and>
     (\<forall>(k, cap) \<in> set (ls_max_tool_calls_by_kind s). k \<noteq> [] \<and> 1 \<le> cap)"

definition tools_ok :: "loop_state \<Rightarrow> bool" where
  "tools_ok s \<longleftrightarrow>
     0 \<le> ls_tool_calls_committed s \<and> 0 \<le> ls_rows_scanned s \<and> 0 \<le> ls_result_cells s \<and>
     (\<forall>(k, n) \<in> set (ls_tool_calls_by_kind s). k \<noteq> [] \<and> 0 \<le> n) \<and>
     sum_list (dict_values (ls_tool_calls_by_kind s)) = ls_tool_calls_committed s \<and>
     ls_remaining_tool_call_budget s =
       ls_max_successful_tool_calls s - ls_tool_calls_committed s \<and>
     0 \<le> ls_remaining_tool_call_budget s \<and>
     (\<forall>slot \<in> snd ` set (ls_pending_tool_steps s). pending_tool_step_valid slot)"

definition calls_ok :: "loop_state \<Rightarrow> bool" where
  "calls_ok s \<longleftrightarrow>
     0 \<le> ls_llm_calls_settled s \<and> 0 \<le> ls_llm_calls_uncertain s \<and>
     ls_remaining_llm_call_budget s = map_option
       (\<lambda>m. m - ls_llm_calls_settled s - ls_llm_calls_uncertain s) (ls_max_llm_requests s) \<and>
     opt_nonneg (ls_remaining_llm_call_budget s) \<and>
     distinct (ls_completed_step_ids s) \<and> distinct (ls_pending_call_ids s) \<and>
     fst ` set (ls_pending_call_steps s) \<subseteq> set (ls_pending_call_ids s)"

definition rounds_ok :: "loop_state \<Rightarrow> bool" where
  "rounds_ok s \<longleftrightarrow>
     0 \<le> ls_rounds_started s \<and> 0 \<le> ls_rounds_settled s \<and>
     0 \<le> ls_consecutive_no_progress s \<and> 0 \<le> ls_consecutive_empty_frontier s \<and>
     0 \<le> ls_consecutive_no_adjudication s \<and>
     ls_remaining_round_budget s = ls_max_rounds s - ls_rounds_started s \<and>
     0 \<le> ls_remaining_round_budget s \<and> opt_nonneg (ls_current_round_index s) \<and>
     ls_rounds_started s =
       ls_rounds_settled s + (if ls_current_round_index s = None then 0 else 1) \<and>
     (ls_current_round_reduction_committed s \<longrightarrow> ls_current_round_index s \<noteq> None) \<and>
     (ls_pending_terminal_reason s \<noteq> None \<longrightarrow> ls_current_round_index s = None) \<and>
     (ls_pending_terminal_has_reduction s \<longrightarrow> ls_pending_terminal_reason s \<noteq> None)"

definition lines_ok :: "loop_state \<Rightarrow> bool" where
  "lines_ok s \<longleftrightarrow>
     0 \<le> ls_max_branches s \<and> opt_branch_ok (ls_active_branch_id s) \<and>
     list_all branch_constraint_valid (ls_abandoned_constraints s) \<and>
     (if ls_branch_trigger_stagnant_rounds s = None
      then ls_max_branches s = 0 \<and> ls_active_branch_id s = None \<and> \<not> ls_current_line_abandoned s \<and>
        ls_started_branch_ids s = [] \<and> ls_abandoned_line_ids s = [] \<and>
        ls_abandoned_constraints s = []
      else 1 \<le> ls_max_branches s \<and>
        int (length (ls_started_branch_ids s)) \<le> ls_max_branches s)"

definition soft_ok :: "loop_state \<Rightarrow> bool" where
  "soft_ok s \<longleftrightarrow>
     fst ` set (ls_pending_tool_steps s) \<inter> set (ls_completed_step_ids s) = {} \<and>
     distinct (ls_completed_probe_fingerprints s) \<and> distinct (ls_uncertain_call_ids s)"

lemma numbered_branches_distinct: "distinct (main_line_id # numbered_branches k)"
  by (auto simp: numbered_branches_def distinct_map inj_on_def)

lemma branch_inv_lines:
  assumes "branch_inv s"
  shows "distinct (ls_started_branch_ids s)" "distinct (ls_abandoned_line_ids s)"
    "ls_active_branch_id s = Some b \<Longrightarrow> b \<in> set (ls_started_branch_ids s)"
    "ls_current_line_abandoned s \<Longrightarrow> current_line s \<in> set (ls_abandoned_line_ids s)"
proof -
  obtain k where k: "ls_started_branch_ids s = numbered_branches k"
    using assms by (auto simp: branch_inv_def)
  have "distinct (explored_lines s)"
    using numbered_branches_distinct[of k] k by (simp add: explored_lines_def)
  moreover have "ls_abandoned_line_ids s \<in> {explored_lines s, butlast (explored_lines s)}"
    using assms by (simp add: branch_inv_def)
  ultimately show "distinct (ls_started_branch_ids s)" "distinct (ls_abandoned_line_ids s)"
    using distinct_butlast[of "explored_lines s"] by (auto simp: explored_lines_def)
  show "b \<in> set (ls_started_branch_ids s)" if "ls_active_branch_id s = Some b"
    using assms that by (auto simp: branch_inv_def current_line_def explored_lines_def split: if_splits)
  show "current_line s \<in> set (ls_abandoned_line_ids s)" if "ls_current_line_abandoned s"
    using assms that by (auto simp: branch_inv_def explored_lines_def)
qed

lemma valid_groups:
  assumes "loop_state_valid s"
  shows "identity_ok s \<and> caps_ok s \<and> tools_ok s \<and> calls_ok s \<and> rounds_ok s \<and> lines_ok s \<and> soft_ok s"
proof -
  have f: "loop_state_fields_ok s" and d: "\<forall>r \<in> set (derived_rules s). \<not> fst r"
    using assms by (auto simp: loop_state_valid_iff)
  note f = f[unfolded loop_state_fields_ok_def]
  have c: "\<forall>r \<in> set (collection_rules s). \<not> fst r" and m: "\<forall>r \<in> set (budget_rules s). \<not> fst r"
    and p: "\<forall>r \<in> set (phase_rules s). \<not> fst r" and l: "\<forall>r \<in> set (branch_rules s). \<not> fst r"
    using d by (auto simp: derived_rules_def)
  have "identity_ok s" using f c p by (simp add: identity_ok_def collection_rules_def phase_rules_def)
  moreover have "caps_ok s"
    using f m by (auto simp: caps_ok_def budget_rules_def list_ex_iff not_less split_beta)
  moreover have "tools_ok s"
    using f m by (auto simp: tools_ok_def budget_rules_def list_ex_iff list_all_iff not_less split_beta)
  moreover have "calls_ok s"
    using f c m by (cases "ls_max_llm_requests s") (simp_all add: calls_ok_def collection_rules_def budget_rules_def)
  moreover have "rounds_ok s" using f m p by (auto simp: rounds_ok_def budget_rules_def phase_rules_def)
  moreover have "lines_ok s" using f l by (simp add: lines_ok_def branch_rules_def not_less split: if_splits)
  moreover have "soft_ok s" using c by (simp add: soft_ok_def collection_rules_def)
  ultimately show ?thesis by blast
qed


lemma groups_valid:
  assumes "identity_ok s" "caps_ok s" "tools_ok s" "calls_ok s" "rounds_ok s" "lines_ok s"
    "branch_inv s"
  shows "loop_state_fields_ok s"
    "(bad, rule) \<in> set (derived_rules s) \<Longrightarrow> bad \<Longrightarrow>
       rule \<in> {Pending_Step_Not_Completed, Probe_Fingerprints_Unique, Uncertain_Calls_Unique}"
proof -
  have calls: "0 \<le> ls_llm_calls_settled s" "0 \<le> ls_llm_calls_uncertain s"
    "opt_nonneg (ls_remaining_llm_call_budget s)"
    using assms(4) unfolding calls_ok_def by blast+
  show "loop_state_fields_ok s"
    using assms(1-3,5,6) calls
    unfolding loop_state_fields_ok_def identity_ok_def caps_ok_def tools_ok_def
      rounds_ok_def lines_ok_def by (simp add: list_all_iff)
  assume bad: bad
  assume "(bad, rule) \<in> set (derived_rules s)"
  then consider "(bad, rule) \<in> set (collection_rules s)" | "(bad, rule) \<in> set (budget_rules s)"
    | "(bad, rule) \<in> set (phase_rules s)" | "(bad, rule) \<in> set (branch_rules s)"
    by (auto simp: derived_rules_def)
  then show "rule \<in> {Pending_Step_Not_Completed, Probe_Fingerprints_Unique, Uncertain_Calls_Unique}"
  proof cases
    case 1
    with bad assms(1,4) show ?thesis by (auto simp: collection_rules_def identity_ok_def calls_ok_def)
  next
    case 2
    with bad assms(2-5) show ?thesis
      by (cases "ls_max_llm_requests s") (auto simp: budget_rules_def caps_ok_def tools_ok_def calls_ok_def rounds_ok_def
          list_ex_iff)
  next
    case 3
    with bad assms(1,5) show ?thesis by (auto simp: phase_rules_def identity_ok_def rounds_ok_def)
  next
    case 4
    with bad assms(6) branch_inv_lines[OF assms(7)] show ?thesis
      by (auto simp: branch_rules_def lines_ok_def split: if_splits option.splits)
  qed
qed



lemma identity_ok_arm:
  assumes "apply_body h ep b s = Inr t" "body_valid b" "identity_ok s" "0 \<le> ep"
    "ls_status s \<noteq> Status_Stopped"
  shows "identity_ok t"
  using assms unfolding identity_ok_def
  by (cases b, simp_all add: arm_simps write_simps, auto)

lemma set_dict_set: "set (dict_set k v d) \<subseteq> insert (k, v) (set d)"
  by (induction d) auto

lemma merged_kinds_positive:
  assumes "\<forall>(k, c) \<in> set base. k \<noteq> [] \<and> 1 \<le> c" "\<forall>(k, d) \<in> set deltas. k \<noteq> [] \<and> 1 \<le> d"
  shows "\<forall>(k, c) \<in> set (merged_kinds base deltas). k \<noteq> [] \<and> 1 \<le> c"
  using assms
proof (induction deltas arbitrary: base)
  case (Cons p deltas)
  obtain j d where p: "p = (j, d)" by (cases p)
  have "0 \<le> dict_get base j 0"
    using Cons.prems(1) by (auto simp: dict_get_def split: option.split dest!: map_of_SomeD)
  then have "\<forall>(k, c) \<in> set (dict_set j (dict_get base j 0 + d) base). k \<noteq> [] \<and> 1 \<le> c"
    using Cons.prems set_dict_set[of j _ base] by (fastforce simp: p)
  with Cons show ?case by (simp add: p merged_kinds_def)
qed (simp add: merged_kinds_def)

lemma at_least_one_raised:
  "at_least_one v \<Longrightarrow> increase_valid i \<Longrightarrow> at_least_one (raised v (ci_max_requests i))"
  "at_least_one v \<Longrightarrow> increase_valid i \<Longrightarrow> at_least_one (raised v (ci_max_rows_scanned i))"
  "at_least_one v \<Longrightarrow> increase_valid i \<Longrightarrow> at_least_one (raised v (ci_max_result_cells i))"
  by (simp_all add: raised_bounds increase_nonneg)

lemma caps_ok_arm:
  assumes "apply_body h ep b s = Inr t" "body_valid b" "caps_ok s"
  shows "caps_ok t"
proof (cases "\<exists>a fp inc. b = Budget_Amended a fp inc")
  case True
  then obtain a fp inc where b: "b = Budget_Amended a fp inc" by blast
  then have i: "increase_valid inc" using assms(2) by simp
  have "\<forall>(k, c) \<in> set (merged_kinds (ls_max_tool_calls_by_kind s) (ci_max_tool_calls_by_kind inc)).
      k \<noteq> [] \<and> 1 \<le> c"
    using assms(3) increase_valid_nonneg(12)[OF i]
    by (intro merged_kinds_positive) (auto simp: caps_ok_def)
  with assms(1,3) i increase_nonneg[OF i] show ?thesis
    by (auto simp: b on_budget_amended_def guarding_Inr_iff caps_ok_def at_least_one_raised)
next
  case False
  with assms(1,3) show ?thesis
    unfolding caps_ok_def by (cases b, simp_all add: arm_simps write_simps, auto)
qed

lemma tools_frame_all:
  assumes "apply_body h ep b s = Inr t"
    "\<And>st fp k n r c. b \<noteq> Tool_Call_Started st fp k n r c" "\<And>st r d. b \<noteq> Receipt_Prepared st r d"
    "\<And>st r rows cells d. b \<noteq> Receipt_Committed st r rows cells d"
    "\<And>st e r c. b \<noteq> Tool_Call_Failed st e r c"
    "\<And>a fp inc. b \<noteq> Budget_Amended a fp inc" "\<And>w r. b \<noteq> Exploration_Stopped w r"
  shows "(ls_tool_calls_committed t = ls_tool_calls_committed s) \<and>
     (ls_rows_scanned t = ls_rows_scanned s) \<and>
     (ls_result_cells t = ls_result_cells s) \<and>
     (ls_tool_calls_by_kind t = ls_tool_calls_by_kind s) \<and>
     (ls_remaining_tool_call_budget t = ls_remaining_tool_call_budget s) \<and>
     (ls_max_successful_tool_calls t = ls_max_successful_tool_calls s) \<and>
     (ls_pending_tool_steps t = ls_pending_tool_steps s)"
  using assms
  by (cases b, simp_all add: arm_simps write_simps, auto)

lemmas tools_frame =
  tools_frame_all[THEN conjunct1]
  tools_frame_all[THEN conjunct2, THEN conjunct1]
  tools_frame_all[THEN conjunct2, THEN conjunct2, THEN conjunct1]
  tools_frame_all[THEN conjunct2, THEN conjunct2, THEN conjunct2, THEN conjunct1]
  tools_frame_all[THEN conjunct2, THEN conjunct2, THEN conjunct2, THEN conjunct2, THEN conjunct1]
  tools_frame_all[THEN conjunct2, THEN conjunct2, THEN conjunct2, THEN conjunct2, THEN conjunct2, THEN conjunct1]
  tools_frame_all[THEN conjunct2, THEN conjunct2, THEN conjunct2, THEN conjunct2, THEN conjunct2, THEN conjunct2]

lemma set_dict_del_subset: "set (dict_del k d) \<subseteq> set d"
  by (induction d) auto

lemma sum_dict_incr:
  assumes "distinct (dict_keys d)"
  shows "sum_list (dict_values (dict_set k (dict_get d k 0 + 1) d)) = sum_list (dict_values d) + (1::int)"
  using dict_sum_set[OF assms, of "\<lambda>x. x" k "dict_get d k 0 + 1"]
  by (simp add: dict_sum_def dict_get_def comp_def split: option.splits)

lemma slot_projections_nonneg:
  assumes "tools_ok s"
  shows "0 \<le> sum_list (map ts_projected_rows_scanned (dict_values (ls_pending_tool_steps s)))"
    "0 \<le> sum_list (map ts_projected_result_cells (dict_values (ls_pending_tool_steps s)))"
  using assms by (auto simp: tools_ok_def pending_tool_step_valid_def intro!: sum_list_nonneg)

lemma tools_ok_arm:
  assumes "apply_body h ep b s = Inr t" "body_valid b" "tools_ok s" "slots_inv s"
    "dicts_wf s"
  shows "tools_ok t"
proof -
  consider st fp k n r c where "b = Tool_Call_Started st fp k n r c"
    | st r d where "b = Receipt_Prepared st r d"
    | st r rows cells d where "b = Receipt_Committed st r rows cells d"
    | st e r c where "b = Tool_Call_Failed st e r c"
    | a fp inc where "b = Budget_Amended a fp inc" | w r where "b = Exploration_Stopped w r"
    | "\<And>st fp k n r c. b \<noteq> Tool_Call_Started st fp k n r c" "\<And>st r d. b \<noteq> Receipt_Prepared st r d"
    "\<And>st r rows cells d. b \<noteq> Receipt_Committed st r rows cells d"
    "\<And>st e r c. b \<noteq> Tool_Call_Failed st e r c"
    "\<And>a fp inc. b \<noteq> Budget_Amended a fp inc" "\<And>w r. b \<noteq> Exploration_Stopped w r"
    by (cases b) auto
  then show ?thesis
  proof cases
    case (1 st fp k n r c)
    with assms show ?thesis
      by (auto simp: on_tool_call_started_def guarding_Inr_iff tools_ok_def pending_tool_step_valid_def
          dest!: subsetD[OF set_dict_set])
  next
    case (2 st r d)
    then obtain slot where slot: "(st, slot) \<in> set (ls_pending_tool_steps s)" "t = prepare_slot st r d slot s"
      using assms(1) by (auto simp: on_receipt_prepared_Inr dest: map_of_SomeD)
    then have "pending_tool_step_valid slot" using assms(3) by (force simp: tools_ok_def)
    with slot assms(3) show ?thesis
      by (auto simp: prepare_slot_def tools_ok_def pending_tool_step_valid_def
          dest!: subsetD[OF set_dict_set])
  next
    case (3 st r rows cells d)
    then obtain slot where slot: "(st, slot) \<in> set (ls_pending_tool_steps s)"
        "t = commit_receipt st r rows cells d slot (s\<lparr>ls_completed_step_ids := ls_completed_step_ids s @ [st]\<rparr>)"
      using assms(1) by (auto simp: on_receipt_committed_Inr dest: map_of_SomeD)
    then have k: "ts_tool_kind slot \<noteq> []" using assms(3) by (force simp: tools_ok_def pending_tool_step_valid_def)
    have "1 \<le> int (length (ls_pending_tool_steps s))"
      using slot(1) by (cases "ls_pending_tool_steps s") auto
    then have "1 \<le> ls_remaining_tool_call_budget s"
      using assms(4) unfolding slots_inv_def by linarith
    moreover have "0 \<le> dict_get (ls_tool_calls_by_kind s) (ts_tool_kind slot) 0"
      using assms(3) by (auto simp: tools_ok_def dict_get_def split: option.split dest!: map_of_SomeD)
    moreover have "distinct (dict_keys (ls_tool_calls_by_kind s))"
      using assms(5) by (simp add: dicts_wf_def)
    moreover have "0 \<le> rows" "0 \<le> cells" using assms(2) 3 by auto
    ultimately show ?thesis
      using slot(2) k assms(3)
      by (auto simp: commit_receipt_def remove_tool_slot_def tools_ok_def sum_dict_incr
          dest!: subsetD[OF set_dict_set] subsetD[OF set_dict_del_subset])
  next
    case (4 st e r c)
    with assms(1-3) show ?thesis
      by (auto simp: on_tool_call_failed_def guarding_Inr_iff tools_ok_def remove_tool_slot_def
          dest!: subsetD[OF set_dict_del_subset])
  next
    case (5 a fp inc)
    then have "increase_valid inc" using assms(2) by simp
    from increase_nonneg(2)[OF this] assms(1,3) 5 show ?thesis
      by (auto simp: on_budget_amended_def guarding_Inr_iff tools_ok_def)
  next
    case (6 w r)
    with assms(1,3) slot_projections_nonneg[OF assms(3)] show ?thesis
      by (simp add: on_exploration_stopped_def guarding_Inr_iff tools_ok_def settle_in_flight_def Let_def)
  next
    case 7
    with tools_frame[OF assms(1)] assms(3) show ?thesis by (simp add: tools_ok_def)
  qed
qed

lemma calls_frame_all:
  assumes "apply_body h ep b s = Inr t"
    "\<And>c st. b \<noteq> Llm_Call_Started c st" "\<And>c st d. b \<noteq> Llm_Call_Completed c st d"
    "\<And>c e. b \<noteq> Llm_Call_Rejected c e" "\<And>c e. b \<noteq> Llm_Call_Uncertain c e"
    "\<And>st r rows cells d. b \<noteq> Receipt_Committed st r rows cells d"
    "\<And>a fp inc. b \<noteq> Budget_Amended a fp inc" "\<And>w r. b \<noteq> Exploration_Stopped w r"
  shows "(ls_llm_calls_settled t = ls_llm_calls_settled s) \<and>
     (ls_llm_calls_uncertain t = ls_llm_calls_uncertain s) \<and>
     (ls_remaining_llm_call_budget t = ls_remaining_llm_call_budget s) \<and>
     (ls_max_llm_requests t = ls_max_llm_requests s) \<and>
     (ls_completed_step_ids t = ls_completed_step_ids s) \<and>
     (ls_pending_call_ids t = ls_pending_call_ids s) \<and>
     (ls_pending_call_steps t = ls_pending_call_steps s)"
  using assms
  by (cases b, simp_all add: arm_simps write_simps, auto)

lemmas calls_frame =
  calls_frame_all[THEN conjunct1]
  calls_frame_all[THEN conjunct2, THEN conjunct1]
  calls_frame_all[THEN conjunct2, THEN conjunct2, THEN conjunct1]
  calls_frame_all[THEN conjunct2, THEN conjunct2, THEN conjunct2, THEN conjunct1]
  calls_frame_all[THEN conjunct2, THEN conjunct2, THEN conjunct2, THEN conjunct2, THEN conjunct1]
  calls_frame_all[THEN conjunct2, THEN conjunct2, THEN conjunct2, THEN conjunct2, THEN conjunct2, THEN conjunct1]
  calls_frame_all[THEN conjunct2, THEN conjunct2, THEN conjunct2, THEN conjunct2, THEN conjunct2, THEN conjunct2]

lemma pending_call_slot:
  assumes "slots_inv s" "c \<in> set (ls_pending_call_ids s)" "ls_remaining_llm_call_budget s = Some r"
  shows "1 \<le> r"
proof -
  have "1 \<le> length (ls_pending_call_ids s)" using assms(2) by (cases "ls_pending_call_ids s") auto
  with assms(1,3) show ?thesis by (auto simp: slots_inv_def)
qed

lemma calls_ok_spend:
  assumes "calls_ok s" "slots_inv s" "c \<in> set (ls_pending_call_ids s)"
    "ls_max_llm_requests t = ls_max_llm_requests s"
    "ls_llm_calls_settled t + ls_llm_calls_uncertain t = ls_llm_calls_settled s + ls_llm_calls_uncertain s + 1"
    "0 \<le> ls_llm_calls_settled t" "0 \<le> ls_llm_calls_uncertain t"
    "ls_remaining_llm_call_budget t = map_option (\<lambda>n. n - 1) (ls_remaining_llm_call_budget s)"
    "distinct (ls_completed_step_ids t)"
    "ls_pending_call_ids t = filter (\<lambda>x. x \<noteq> c) (ls_pending_call_ids s)"
    "ls_pending_call_steps t = dict_del c (ls_pending_call_steps s)"
  shows "calls_ok t"
proof -
  have "opt_nonneg (ls_remaining_llm_call_budget t)"
    using pending_call_slot[OF assms(2,3)] assms(8) by (auto simp: opt_nonneg_def split: option.split)
  moreover have "ls_remaining_llm_call_budget t = map_option
       (\<lambda>m. m - ls_llm_calls_settled t - ls_llm_calls_uncertain t) (ls_max_llm_requests t)"
    using assms(1,4,5,8) by (cases "ls_max_llm_requests s") (auto simp: calls_ok_def)
  moreover have "distinct (ls_pending_call_ids t)"
    "fst ` set (ls_pending_call_steps t) \<subseteq> set (ls_pending_call_ids t)"
    using assms(1,10,11) by (auto simp: calls_ok_def)
  ultimately show ?thesis using assms(6,7,9) by (simp add: calls_ok_def)
qed

lemma calls_ok_arm:
  assumes "apply_body h ep b s = Inr t" "body_valid b" "calls_ok s" "slots_inv s"
  shows "calls_ok t"
proof -
  have calls: "ls_remaining_llm_call_budget s = map_option
       (\<lambda>m. m - ls_llm_calls_settled s - ls_llm_calls_uncertain s) (ls_max_llm_requests s)"
    "opt_nonneg (ls_remaining_llm_call_budget s)" "0 \<le> ls_llm_calls_settled s"
    "0 \<le> ls_llm_calls_uncertain s" "distinct (ls_completed_step_ids s)"
    "distinct (ls_pending_call_ids s)"
    "fst ` set (ls_pending_call_steps s) \<subseteq> set (ls_pending_call_ids s)"
    using assms(3) unfolding calls_ok_def by blast+
  have nn: "0 \<le> ls_llm_calls_settled s" "0 \<le> ls_llm_calls_uncertain s" "distinct (ls_completed_step_ids s)"
    using assms(3) by (auto simp: calls_ok_def)
  consider c st where "b = Llm_Call_Started c st" | c st d where "b = Llm_Call_Completed c st d"
    | c e where "b = Llm_Call_Rejected c e" | c e where "b = Llm_Call_Uncertain c e"
    | st r rows cells d where "b = Receipt_Committed st r rows cells d"
    | a fp inc where "b = Budget_Amended a fp inc" | w r where "b = Exploration_Stopped w r"
    | "\<And>c st. b \<noteq> Llm_Call_Started c st" "\<And>c st d. b \<noteq> Llm_Call_Completed c st d"
    "\<And>c e. b \<noteq> Llm_Call_Rejected c e" "\<And>c e. b \<noteq> Llm_Call_Uncertain c e"
    "\<And>st r rows cells d. b \<noteq> Receipt_Committed st r rows cells d"
    "\<And>a fp inc. b \<noteq> Budget_Amended a fp inc" "\<And>w r. b \<noteq> Exploration_Stopped w r"
    by blast
  then show ?thesis
  proof cases
    case (1 c st)
    with assms(1,3) show ?thesis
      by (cases st) (auto simp: on_llm_call_started_def guarding_Inr_iff calls_ok_def)
  next
    case (2 c st d)
    with assms(1) have "c \<in> set (ls_pending_call_ids s)" by (simp add: on_llm_call_completed_Inr)
    from calls_ok_spend[OF assms(3,4) this, of t] 2 assms(1) nn show ?thesis
      by (simp add: on_llm_call_completed_Inr spend_llm_call_def drop_pending_call_def)
  next
    case (3 c e)
    with assms(1) have "c \<in> set (ls_pending_call_ids s)"
      by (simp add: on_llm_call_rejected_def settle_pending_call_def bind_res_Inr_iff guarding_Inr_iff)
    from calls_ok_spend[OF assms(3,4) this, of t] 3 assms(1) nn show ?thesis
      by (auto simp: on_llm_call_rejected_def settle_pending_call_def bind_res_Inr_iff guarding_Inr_iff
          spend_llm_call_def drop_pending_call_def)
  next
    case (4 c e)
    with assms(1) have "c \<in> set (ls_pending_call_ids s)"
      by (simp add: on_llm_call_uncertain_def settle_pending_call_def bind_res_Inr_iff guarding_Inr_iff)
    from calls_ok_spend[OF assms(3,4) this, of t] 4 assms(1) nn show ?thesis
      by (auto simp: on_llm_call_uncertain_def settle_pending_call_def bind_res_Inr_iff guarding_Inr_iff
          spend_llm_call_def drop_pending_call_def)
  next
    case (5 st r rows cells d)
    with assms(1) have t: "ls_llm_calls_settled t = ls_llm_calls_settled s"
      "ls_llm_calls_uncertain t = ls_llm_calls_uncertain s"
      "ls_remaining_llm_call_budget t = ls_remaining_llm_call_budget s"
      "ls_max_llm_requests t = ls_max_llm_requests s"
      "ls_completed_step_ids t = ls_completed_step_ids s @ [st]"
      "ls_pending_call_ids t = ls_pending_call_ids s"
      "ls_pending_call_steps t = ls_pending_call_steps s"
      and st: "st \<notin> set (ls_completed_step_ids s)"
      by (auto simp: on_receipt_committed_Inr commit_receipt_def remove_tool_slot_def)
    from st nn have "distinct (ls_completed_step_ids s @ [st])" by simp
    with assms(3) show ?thesis
      unfolding calls_ok_def t by blast
  next
    case (6 a fp inc)
    then have i: "0 \<le> ci_max_requests inc" using assms(2) increase_nonneg by simp
    from 6 assms(1) calls i show ?thesis
      unfolding calls_ok_def
      by (cases "ls_max_llm_requests s")
        (simp_all add: on_budget_amended_def guarding_Inr_iff opt_nonneg_def)
  next
    case (7 w r)
    then have "ls_remaining_llm_call_budget s = Some n \<Longrightarrow> int (length (ls_pending_call_ids s)) \<le> n" for n
      using assms(4) by (auto simp: slots_inv_def)
    with 7 assms(1) calls show ?thesis
      unfolding calls_ok_def
      by (cases "ls_max_llm_requests s")
        (simp_all add: on_exploration_stopped_def guarding_Inr_iff settle_in_flight_def Let_def
          opt_nonneg_def)
  next
    case 8
    note frame = calls_frame[OF assms(1) 8]
    from assms(3) show ?thesis unfolding calls_ok_def frame .
  qed
qed

lemma rounds_frame_all:
  assumes "apply_body h ep b s = Inr t"
    "\<And>i br. b \<noteq> Round_Started i br" "\<And>r. b \<noteq> Round_Settled r"
    "\<And>a fp inc. b \<noteq> Budget_Amended a fp inc" "\<And>l i cs. b \<noteq> Branch_Abandoned l i cs"
  shows "(ls_rounds_started t = ls_rounds_started s) \<and>
     (ls_rounds_settled t = ls_rounds_settled s) \<and>
     (ls_consecutive_no_progress t = ls_consecutive_no_progress s) \<and>
     (ls_consecutive_empty_frontier t = ls_consecutive_empty_frontier s) \<and>
     (ls_consecutive_no_adjudication t = ls_consecutive_no_adjudication s) \<and>
     (ls_max_rounds t = ls_max_rounds s) \<and>
     (ls_remaining_round_budget t = ls_remaining_round_budget s) \<and>
     (ls_current_round_index t = ls_current_round_index s)"
  using assms
  by (cases b, simp_all add: arm_simps write_simps, auto)

lemmas rounds_frame =
  rounds_frame_all[THEN conjunct1]
  rounds_frame_all[THEN conjunct2, THEN conjunct1]
  rounds_frame_all[THEN conjunct2, THEN conjunct2, THEN conjunct1]
  rounds_frame_all[THEN conjunct2, THEN conjunct2, THEN conjunct2, THEN conjunct1]
  rounds_frame_all[THEN conjunct2, THEN conjunct2, THEN conjunct2, THEN conjunct2, THEN conjunct1]
  rounds_frame_all[THEN conjunct2, THEN conjunct2, THEN conjunct2, THEN conjunct2, THEN conjunct2, THEN conjunct1]
  rounds_frame_all[THEN conjunct2, THEN conjunct2, THEN conjunct2, THEN conjunct2, THEN conjunct2, THEN conjunct2, THEN conjunct1]
  rounds_frame_all[THEN conjunct2, THEN conjunct2, THEN conjunct2, THEN conjunct2, THEN conjunct2, THEN conjunct2, THEN conjunct2]

lemma rounds_frame_flags_all:
  assumes "apply_body h ep b s = Inr t"
    "\<And>i br. b \<noteq> Round_Started i br" "\<And>r. b \<noteq> Round_Settled r"
    "\<And>a fp inc. b \<noteq> Budget_Amended a fp inc" "\<And>l i cs. b \<noteq> Branch_Abandoned l i cs"
  shows "(ls_current_round_reduction_committed t \<longrightarrow> ls_current_round_reduction_committed s \<or> ls_current_round_index s \<noteq> None) \<and>
     ((ls_pending_terminal_reason t = ls_pending_terminal_reason s \<and> ls_pending_terminal_has_reduction t = ls_pending_terminal_has_reduction s) \<or> (ls_pending_terminal_reason t = None \<and> \<not> ls_pending_terminal_has_reduction t))"
  using assms
  by (cases b, simp_all add: arm_simps write_simps, auto)

lemmas rounds_frame_flags =
  rounds_frame_flags_all[THEN conjunct1]
  rounds_frame_flags_all[THEN conjunct2]

lemma rounds_ok_arm:
  assumes "apply_body h ep b s = Inr t" "body_valid b" "rounds_ok s"
  shows "rounds_ok t"
proof -
  consider i br where "b = Round_Started i br" | r where "b = Round_Settled r"
    | a fp inc where "b = Budget_Amended a fp inc" | l i cs where "b = Branch_Abandoned l i cs"
    | "\<And>i br. b \<noteq> Round_Started i br" "\<And>r. b \<noteq> Round_Settled r"
      "\<And>a fp inc. b \<noteq> Budget_Amended a fp inc" "\<And>l i cs. b \<noteq> Branch_Abandoned l i cs"
    by blast
  then show ?thesis
  proof cases
    case (1 i br)
    with assms show ?thesis
      by (auto simp: on_round_started_Inr round_branch_rules_Inr open_round_def open_branch_def
          rounds_ok_def opt_nonneg_def)
  next
    case (2 r)
    with assms(1) have t: "ls_current_round_index s \<noteq> None"
      by (auto simp: on_round_settled_def guarding_Inr_iff)
    have "0 \<le> ls_rounds_started s" "0 \<le> ls_rounds_settled s"
     "0 \<le> ls_consecutive_no_progress s" "0 \<le> ls_consecutive_empty_frontier s"
     "0 \<le> ls_consecutive_no_adjudication s"
     "ls_remaining_round_budget s = ls_max_rounds s - ls_rounds_started s"
     "0 \<le> ls_remaining_round_budget s"  "ls_rounds_started s = ls_rounds_settled s + 1"
      using assms(3) t by (simp_all add: rounds_ok_def)
    moreover have "rs_terminal_has_reduction r \<longrightarrow> rs_terminal_reason r \<noteq> None"
      using assms(2) 2 by (auto simp: round_settlement_valid_def)
    ultimately show ?thesis
      using assms(1) 2 by (simp add: on_round_settled_def guarding_Inr_iff rounds_ok_def opt_nonneg_def)
  next
    case (3 a fp inc)
    then have i: "increase_valid inc" using assms(2) by simp
    have t: "ls_rounds_started t = ls_rounds_started s" "ls_rounds_settled t = ls_rounds_settled s"
      "ls_consecutive_no_progress t = ls_consecutive_no_progress s"
      "ls_consecutive_empty_frontier t = ls_consecutive_empty_frontier s"
      "ls_consecutive_no_adjudication t = ls_consecutive_no_adjudication s"
      "ls_max_rounds t = ls_max_rounds s + ci_max_rounds inc"
      "ls_remaining_round_budget t = ls_remaining_round_budget s + ci_max_rounds inc"
      "ls_current_round_index t = ls_current_round_index s"
      "ls_current_round_reduction_committed t = ls_current_round_reduction_committed s"
      "ls_pending_terminal_reason t = ls_pending_terminal_reason s"
      "ls_pending_terminal_has_reduction t = ls_pending_terminal_has_reduction s"
      using assms(1) 3 by (simp_all add: on_budget_amended_def guarding_Inr_iff)
    show ?thesis
      using assms(3) increase_nonneg(5)[OF i] unfolding rounds_ok_def t by linarith
  next
    case (4 l i cs)
    then have t: "ls_rounds_started t = ls_rounds_started s" "ls_rounds_settled t = ls_rounds_settled s"
      "ls_consecutive_no_progress t = 0"
      "ls_consecutive_empty_frontier t = ls_consecutive_empty_frontier s"
      "ls_consecutive_no_adjudication t = 0"
      "ls_max_rounds t = ls_max_rounds s"
      "ls_remaining_round_budget t = ls_remaining_round_budget s"
      "ls_current_round_index t = ls_current_round_index s"
      "ls_current_round_reduction_committed t = ls_current_round_reduction_committed s"
      "ls_pending_terminal_reason t = ls_pending_terminal_reason s"
      "ls_pending_terminal_has_reduction t = ls_pending_terminal_has_reduction s"
      using assms(1) by (simp_all add: on_branch_abandoned_def guarding_Inr_iff)
    show ?thesis
      using assms(3) unfolding rounds_ok_def t by linarith
  next
    case 5
    note frame = rounds_frame[OF assms(1) 5] and flags = rounds_frame_flags[OF assms(1) 5]
    show ?thesis
      using assms(3) flags unfolding rounds_ok_def frame by argo
  qed
qed

lemma branch_frame_trigger:
  "apply_body h ep b s = Inr t \<Longrightarrow>
     ls_branch_trigger_stagnant_rounds t = ls_branch_trigger_stagnant_rounds s"
  by (cases b, simp_all add: arm_simps write_simps, auto)

lemma lines_ok_arm:
  assumes "apply_body h ep b s = Inr t" "body_valid b" "lines_ok s"
  shows "lines_ok t"
proof -
  consider i br where "b = Round_Started i br" | l i cs where "b = Branch_Abandoned l i cs"
    | "\<And>i br. b \<noteq> Round_Started i br" "\<And>l i cs. b \<noteq> Branch_Abandoned l i cs"
    by blast
  then show ?thesis
  proof cases
    case (1 i br)
    then obtain u where u: "round_branch_rules br s = Inr u" "t = open_round i u"
      using assms(1) by (auto simp: on_round_started_Inr)
    with assms(3) show ?thesis
      by (auto simp: round_branch_rules_Inr lines_ok_def open_round_def open_branch_def
          opt_branch_ok_def branch_name_ok)
  next
    case (2 l i cs)
    with assms show ?thesis
      by (auto simp: on_branch_abandoned_def guarding_Inr_iff lines_ok_def)
  next
    case 3
    with assms(3) branch_frame[OF assms(1)] branch_frame_trigger[OF assms(1)] show ?thesis
      by (simp add: lines_ok_def)
  qed
qed

lemma groups_last_seq [simp]:
  "caps_ok (s\<lparr>ls_last_seq := n\<rparr>) = caps_ok s" "tools_ok (s\<lparr>ls_last_seq := n\<rparr>) = tools_ok s"
  "calls_ok (s\<lparr>ls_last_seq := n\<rparr>) = calls_ok s" "rounds_ok (s\<lparr>ls_last_seq := n\<rparr>) = rounds_ok s"
  "lines_ok (s\<lparr>ls_last_seq := n\<rparr>) = lines_ok s" "dicts_wf (s\<lparr>ls_last_seq := n\<rparr>) = dicts_wf s"
  "slots_inv (s\<lparr>ls_last_seq := n\<rparr>) = slots_inv s"
  "branch_inv (s\<lparr>ls_last_seq := n\<rparr>) = branch_inv s"
  by (simp_all add: caps_ok_def tools_ok_def calls_ok_def rounds_ok_def lines_ok_def
      dicts_wf_def slots_inv_def branch_inv_def explored_lines_def current_line_def)

lemma reduce_hard_rules:
  assumes "journal_inv s" "event_valid e"
    "apply_body h (ev_attempt_epoch e) (ev_body e) (s\<lparr>ls_last_seq := ev_seq e\<rparr>) = Inr t"
    "ls_status s \<noteq> Status_Stopped"
  shows "identity_ok t \<and> caps_ok t \<and> tools_ok t \<and> calls_ok t \<and> rounds_ok t \<and> lines_ok t \<and> branch_inv t"
proof -
  let ?s = "s\<lparr>ls_last_seq := ev_seq e\<rparr>"
  have v: "identity_ok s" "caps_ok s" "tools_ok s" "calls_ok s" "rounds_ok s" "lines_ok s"
    and i: "dicts_wf s" "slots_inv s" "branch_inv s"
    using assms(1) valid_groups by (auto simp: journal_inv_def)
  have ev: "body_valid (ev_body e)" "0 \<le> ev_seq e" "0 \<le> ev_attempt_epoch e"
    using assms(2) by (auto simp: event_valid_def)
  have "identity_ok ?s" "caps_ok ?s" "tools_ok ?s" "calls_ok ?s" "rounds_ok ?s" "lines_ok ?s"
    "dicts_wf ?s" "slots_inv ?s" "branch_inv ?s" "ls_status ?s \<noteq> Status_Stopped"
    using v i ev assms(4) by (simp_all add: identity_ok_def)
  with ev assms(3) show ?thesis
    by (blast intro: identity_ok_arm caps_ok_arm tools_ok_arm calls_ok_arm rounds_ok_arm
        lines_ok_arm branch_inv_arm)
qed

end
