(* ===== verification/JournalProperties.thy ===== *)
theory JournalProperties imports JournalConsistency
begin

text \<open>
  The properties of the exploration journal (\<open>core/exploration_journal.py\<close>): what a log that
  rebuilds looks like, what its state promises, and which events it always accepts.
\<close>

section \<open>The next event\<close>

text \<open>What \<open>append_new\<close> builds from the rebuilt state (\<open>core/event_journal.py\<close>): the next
  sequence number and the epoch of the state.\<close>

definition next_event :: "int \<Rightarrow> loop_event \<Rightarrow> loop_state \<Rightarrow> exploration_event" where
  "next_event now body s =
     \<lparr>ev_schema_version = journal_schema_version, ev_seq = ls_last_seq s + 1,
      ev_exploration_id = ls_exploration_id s, ev_attempt_epoch = expected_epoch s body,
      ev_occurred_at = now, ev_body = body\<rparr>"

lemma next_event_guards:
  assumes "identity_ok s" "ls_status s \<noteq> Status_Stopped" "\<And>p c w b. body \<noteq> Exploration_Started p c w b"
  shows "\<forall>g \<in> set (envelope_guards s (next_event now body s)). \<not> fst g"
  using assms by (cases body) (auto simp: envelope_guards_def next_event_def identity_ok_def)

lemma next_event_valid:
  assumes "identity_ok s" "body_valid body"
  shows "event_valid (next_event now body s)"
  using assms by (auto simp: event_valid_def next_event_def identity_ok_def expected_epoch_def)

lemma journal_inv_groups:
  assumes "journal_inv s"
  shows "identity_ok s" "caps_ok s" "tools_ok s" "calls_ok s" "rounds_ok s" "lines_ok s" "soft_ok s"
    "slots_inv s" "branch_inv s" "dicts_wf s" "receipt_inv s" "quiet_inv s"
  using assms valid_groups by (auto simp: journal_inv_def)

lemma soft_rules_valid:
  assumes "identity_ok t" "caps_ok t" "tools_ok t" "calls_ok t" "rounds_ok t" "lines_ok t"
    "branch_inv t" "soft_ok t"
  shows "loop_state_valid t"
proof -
  have "\<not> bad" if "(bad, rule) \<in> set (derived_rules t)" for bad rule
  proof
    assume bad
    from groups_valid(2)[OF assms(1-7) that this] that \<open>bad\<close> assms(8) show False
      by (auto simp: derived_rules_def collection_rules_def budget_rules_def phase_rules_def
          branch_rules_def soft_ok_def split: if_splits)
  qed
  then have "\<forall>r \<in> set (derived_rules t). \<not> fst r" by (metis prod.collapse)
  with groups_valid(1)[OF assms(1-7)] show ?thesis
    by (simp add: loop_state_valid_iff)
qed

text \<open>An event whose own rules hold is accepted, if the three rules of the schema hold.\<close>

lemma accepted_if_soft:
  assumes "journal_inv s" "event_valid e" "ev_schema_version e = journal_schema_version"
    "\<forall>g \<in> set (envelope_guards s e). \<not> fst g"
    "apply_body h (ev_attempt_epoch e) (ev_body e) (s\<lparr>ls_last_seq := ev_seq e\<rparr>) = Inr t" "soft_ok t"
  shows "reduce_exploration_event h (Some s) e = Inr t"
proof -
  have "ls_status s \<noteq> Status_Stopped" by (rule envelope_passed(4)[OF assms(4)])
  from reduce_hard_rules[OF assms(1,2,5) this] assms(6) have "loop_state_valid t"
    by (blast intro: soft_rules_valid)
  with assms show ?thesis by (simp add: reduce_Some_Inr)
qed

lemma next_accepted:
  assumes "journal_inv s" "body_valid body" "ls_status s \<noteq> Status_Stopped"
    "\<And>p c w b. body \<noteq> Exploration_Started p c w b"
    "apply_body h (expected_epoch s body) body (s\<lparr>ls_last_seq := ls_last_seq s + 1\<rparr>) = Inr t"
    "soft_ok t"
  shows "reduce_exploration_event h (Some s) (next_event now body s) = Inr t"
proof (rule accepted_if_soft[OF assms(1)])
  note g = journal_inv_groups[OF assms(1)]
  show "event_valid (next_event now body s)" by (rule next_event_valid[OF g(1) assms(2)])
  show "\<forall>x \<in> set (envelope_guards s (next_event now body s)). \<not> fst x"
    by (rule next_event_guards[OF g(1) assms(3,4)])
qed (use assms in \<open>simp_all add: next_event_def\<close>)

lemma guarding_Inl_holds: "guarding gs v = Inl e \<Longrightarrow> (True, e) \<in> set gs"
  by (induction gs) (auto simp: guarding.simps split: if_splits)

lemma hard_rules_hold:
  assumes "journal_inv s" "event_valid e"
    "reduce_exploration_event h (Some s) e = Inl (Invalid_State r)"
  shows "r \<in> {Pending_Step_Not_Completed, Probe_Fingerprints_Unique, Uncertain_Calls_Unique}"
proof -
  have V: "ev_schema_version e = journal_schema_version"
    using assms(3) by (simp add: reduce_exploration_event_def split: if_splits)
  obtain u where u: "guarding (envelope_guards s e) (s\<lparr>ls_last_seq := ev_seq e\<rparr>) = Inr u"
    using assms(3) unfolding reduce_Some[OF V]
    by (cases "guarding (envelope_guards s e) (s\<lparr>ls_last_seq := ev_seq e\<rparr>)") auto
  then have u': "u = s\<lparr>ls_last_seq := ev_seq e\<rparr>" and G: "\<forall>g \<in> set (envelope_guards s e). \<not> fst g"
    unfolding guarding_Inr_iff by blast+
  obtain w where w: "apply_body h (ev_attempt_epoch e) (ev_body e) u = Inr w"
    using assms(3) unfolding reduce_Some[OF V] u
    by (cases "apply_body h (ev_attempt_epoch e) (ev_body e) u") auto
  have "validated w = Inl (Invalid_State r)"
    using assms(3) w unfolding reduce_Some[OF V] u by simp
  then have inl: "guarding ((\<not> loop_state_fields_ok w, Field_Constraint) # derived_rules w) w = Inl r"
    by (simp add: validated_def loop_state_validate_def split: sum.splits)
  have hard: "identity_ok w" "caps_ok w" "tools_ok w" "calls_ok w" "rounds_ok w" "lines_ok w" "branch_inv w"
    using reduce_hard_rules[OF assms(1,2) w[unfolded u'] envelope_passed(4)[OF G]] by auto
  have "(True, r) \<in> set (derived_rules w)"
    using guarding_Inl_holds[OF inl] groups_valid(1)[OF hard] by simp
  with groups_valid(2)[OF hard] show ?thesis by blast
qed


section \<open>Runs of the reducer\<close>

lemma rebuild_from_append:
  "rebuild_from h st (es @ fs) = bind_res (rebuild_from h st es) (\<lambda>st'. rebuild_from h st' fs)"
proof (induction es arbitrary: st)
  case (Cons e es)
  then show ?case by (cases "reduce_exploration_event h st e") simp_all
qed simp

text \<open>Facts that every accepted event keeps hold along a whole log.\<close>

lemma run_from_inv:
  assumes "rebuild_from h (Some s) es = Inr (Some t)" "\<forall>e \<in> set es. event_valid e" "journal_inv s"
    and "P s"
    and "\<And>s e t. journal_inv s \<Longrightarrow> event_valid e \<Longrightarrow> P s \<Longrightarrow>
      reduce_exploration_event h (Some s) e = Inr t \<Longrightarrow> P t"
  shows "P t"
  using assms(1-4)
proof (induction es arbitrary: s)
  case (Cons e es)
  from Cons.prems(1) obtain u where u: "reduce_exploration_event h (Some s) e = Inr u"
    "rebuild_from h (Some u) es = Inr (Some t)"
    by (auto simp: bind_res_Inr_iff)
  have "journal_inv u" using reduce_step_inv[OF u(1)] Cons.prems(2,3) by simp
  moreover have "P u" using assms(5)[OF _ _ _ u(1)] Cons.prems by simp
  ultimately show ?case using Cons.IH[OF u(2)] Cons.prems(2) by simp
qed simp

lemma reduce_applies:
  assumes "reduce_exploration_event h (Some s) e = Inr t"
  shows "apply_body h (ev_attempt_epoch e) (ev_body e) (s\<lparr>ls_last_seq := ev_seq e\<rparr>) = Inr t"
    "ev_exploration_id e = ls_exploration_id s" "ev_seq e = ls_last_seq s + 1"
    "ev_attempt_epoch e = expected_epoch s (ev_body e)" "ls_status s \<noteq> Status_Stopped"
    "loop_state_valid t"
  using assms envelope_passed by (auto simp: reduce_Some_Inr)

lemma seq_frame:
  "apply_body h ep b s = Inr t \<Longrightarrow> ls_last_seq t = ls_last_seq s \<and> ls_exploration_id t = ls_exploration_id s \<and>
     ls_attempt_epoch t = (if b = Attempt_Started then ep else ls_attempt_epoch s) \<and>
     ls_policy_fingerprint t = ls_policy_fingerprint s"
  by (cases b, simp_all add: arm_simps write_simps, auto)

lemma verdict_frame:
  assumes "apply_body h ep b s = Inr t" "map_of (ls_gate_verdicts s) g = Some v"
  shows "map_of (ls_gate_verdicts t) g = Some v"
  using assms by (cases b, simp_all add: arm_simps write_simps, auto)

lemma receipt_final_frame:
  assumes "apply_body h ep b s = Inr t" "receipt_inv s" "map_of (ls_step_receipt_refs s) g = Some v"
  shows "map_of (ls_step_receipt_refs t) g = Some v"
proof (cases "\<exists>st r rows cells d. b = Receipt_Committed st r rows cells d")
  case True
  then obtain st r rows cells d where c: "on_receipt_committed st r rows cells d s = Inr t"
    using assms(1) by auto
  have "g \<in> set (ls_completed_step_ids s)"
    using assms(2,3) by (force simp: receipt_inv_def dest: map_of_SomeD)
  with receipt_committed_writes(1,8)[OF c] assms(3) show ?thesis by auto
next
  case False
  with receipt_frame(2)[OF assms(1)] assms(3) show ?thesis by simp
qed

section \<open>Counting the events of a log\<close>

fun commits :: "loop_event \<Rightarrow> bool" where
  "commits (Receipt_Committed _ _ _ _ _) = True"
| "commits _ = False"

fun settles_call :: "loop_event \<Rightarrow> bool" where
  "settles_call (Llm_Call_Completed _ _ _) = True"
| "settles_call (Llm_Call_Rejected _ _) = True"
| "settles_call _ = False"

fun opens_round :: "loop_event \<Rightarrow> bool" where
  "opens_round (Round_Started _ _) = True"
| "opens_round _ = False"

fun settles_round :: "loop_event \<Rightarrow> bool" where
  "settles_round (Round_Settled _) = True"
| "settles_round _ = False"

fun completed_by :: "loop_event \<Rightarrow> string list" where
  "completed_by (Llm_Call_Completed _ st _) = [st]"
| "completed_by (Receipt_Committed st _ _ _ _) = [st]"
| "completed_by _ = []"

fun amended_by :: "loop_event \<Rightarrow> string list" where
  "amended_by (Budget_Amended a _ _) = [a]"
| "amended_by _ = []"

fun rows_charged :: "loop_event \<Rightarrow> int" where
  "rows_charged (Receipt_Committed _ _ rows _ _) = rows"
| "rows_charged (Tool_Call_Failed _ _ rows _) = rows"
| "rows_charged _ = 0"

definition logged :: "(loop_event \<Rightarrow> bool) \<Rightarrow> exploration_event list \<Rightarrow> int" where
  "logged P es = int (length (filter (\<lambda>e. P (ev_body e)) es))"

lemma logged_simps [simp]:
  "logged P [] = 0"
  "logged P (e # es) = (if P (ev_body e) then 1 else 0) + logged P es"
  by (simp_all add: logged_def)

lemma counter_deltas:
  assumes "apply_body h ep b s = Inr t"
  shows "ls_tool_calls_committed t = ls_tool_calls_committed s + (if commits b then 1 else 0) \<and>
     ls_llm_calls_settled t = ls_llm_calls_settled s + (if settles_call b then 1 else 0) \<and>
     ls_rounds_started t = ls_rounds_started s + (if opens_round b then 1 else 0) \<and>
     ls_rounds_settled t = ls_rounds_settled s + (if settles_round b then 1 else 0) \<and>
     ls_completed_step_ids t = ls_completed_step_ids s @ completed_by b \<and>
     ls_amendment_ids t = ls_amendment_ids s @ amended_by b"
  using assms by (cases b, simp_all add: arm_simps write_simps, auto)

lemma counters_from:
  assumes "rebuild_from h (Some s) es = Inr (Some t)"
  shows "ls_tool_calls_committed t = ls_tool_calls_committed s + logged commits es \<and>
     ls_llm_calls_settled t = ls_llm_calls_settled s + logged settles_call es \<and>
     ls_rounds_started t = ls_rounds_started s + logged opens_round es \<and>
     ls_rounds_settled t = ls_rounds_settled s + logged settles_round es \<and>
     ls_completed_step_ids t = ls_completed_step_ids s @ concat (map (completed_by \<circ> ev_body) es) \<and>
     ls_amendment_ids t = ls_amendment_ids s @ concat (map (amended_by \<circ> ev_body) es)"
  using assms
proof (induction es arbitrary: s)
  case (Cons e es)
  from Cons.prems obtain u where u: "reduce_exploration_event h (Some s) e = Inr u"
    "rebuild_from h (Some u) es = Inr (Some t)"
    by (auto simp: bind_res_Inr_iff)
  from counter_deltas[OF reduce_applies(1)[OF u(1)]] Cons.IH[OF u(2)] show ?case
    by simp
qed simp


section \<open>Concrete logs\<close>

definition holds_after :: "(loop_state \<Rightarrow> bool) \<Rightarrow> reduce_fault + loop_state option \<Rightarrow> bool" where
  "holds_after P r = (case r of Inr (Some s) \<Rightarrow> P s | _ \<Rightarrow> False)"

lemma holds_afterE:
  assumes "holds_after P r"
  obtains s where "r = Inr (Some s)" "P s"
  using assms by (auto simp: holds_after_def split: sum.splits option.splits)

definition example_hash :: hash_function where
  "example_hash payload = ''h''"

definition at_event :: "int \<Rightarrow> loop_event \<Rightarrow> exploration_event" where
  "at_event n body = \<lparr>ev_schema_version = 2, ev_seq = n, ev_exploration_id = ''run'',
     ev_attempt_epoch = 0, ev_occurred_at = 0, ev_body = body\<rparr>"

definition started_log :: "exploration_event list" where
  "started_log = [at_event 0 (Exploration_Started ''p'' ''c'' ''w'' example_budget),
     at_event 1 (Round_Started 0 None)]"

text \<open>One call and one tool step in flight, one step committed, one verdict recorded.\<close>

definition busy_log :: "exploration_event list" where
  "busy_log = started_log @
    [at_event 2 (Tool_Call_Started ''t1'' ''f1'' ''sql'' None 5 6),
     at_event 3 (Receipt_Prepared ''t1'' ''r1'' (Some ''d1'')),
     at_event 4 (Receipt_Committed ''t1'' ''r1'' 7 8 (Some ''d1'')),
     at_event 5 (Gate_Verdict ''b1'' Verdict_Passed),
     at_event 6 (Llm_Call_Started ''c1'' (Some ''s1'')),
     at_event 7 (Tool_Call_Started ''t2'' ''f2'' ''sql'' None 5 6)]"

text \<open>A call id used again after its outcome was lost.\<close>

definition reused_log :: "exploration_event list" where
  "reused_log = started_log @
    [at_event 2 (Llm_Call_Started ''c1'' None),
     at_event 3 (Llm_Call_Uncertain ''c1'' ''timeout''),
     at_event 4 (Llm_Call_Started ''c1'' None)]"

lemma logs_valid:
  "\<forall>e \<in> set busy_log. event_valid e" "\<forall>e \<in> set reused_log. event_valid e"
  "\<forall>e \<in> set started_log. event_valid e"
proof -
  have "list_all event_valid busy_log" "list_all event_valid reused_log"
    "list_all event_valid started_log"
    by code_simp+
  then show "\<forall>e \<in> set busy_log. event_valid e" "\<forall>e \<in> set reused_log. event_valid e"
    "\<forall>e \<in> set started_log. event_valid e"
    by (simp_all add: list_all_iff)
qed

lemma busy_rebuilds:
  obtains s where "rebuild_exploration_state example_hash busy_log = Inr (Some s)"
    "ls_status s = Status_Running" "ls_pending_call_ids s = [''c1'']"
    "dict_keys (ls_pending_tool_steps s) = [''t2'']" "ls_uncertain_call_ids s = []"
    "ls_gate_verdicts s = [(''b1'', Verdict_Passed)]"
    "ls_step_receipt_refs s = [(''t1'', ''r1'')]" "ls_last_seq s = 7"
proof -
  have "holds_after (\<lambda>s. ls_status s = Status_Running \<and> ls_pending_call_ids s = [''c1''] \<and>
      dict_keys (ls_pending_tool_steps s) = [''t2''] \<and> ls_uncertain_call_ids s = [] \<and>
      ls_gate_verdicts s = [(''b1'', Verdict_Passed)] \<and>
      ls_step_receipt_refs s = [(''t1'', ''r1'')] \<and> ls_last_seq s = 7)
      (rebuild_exploration_state example_hash busy_log)"
    by code_simp
  then show thesis using that by (auto elim: holds_afterE)
qed

section \<open>Properties\<close>

text \<open>C5. The journal never over-admits: in every state a log of valid events rebuilds, the
  calls that were settled, lost or are in flight fit the request cap, the committed and
  pending tool calls fit the success cap, and rounds and branches fit theirs.\<close>

theorem journal_never_over_admits:
  assumes "rebuild_exploration_state h es = Inr (Some s)" and "\<forall>e \<in> set es. event_valid e"
  shows "(\<forall>m. ls_max_llm_requests s = Some m \<longrightarrow>
       ls_llm_calls_settled s + ls_llm_calls_uncertain s + int (length (ls_pending_call_ids s)) \<le> m)
     \<and> ls_tool_calls_committed s + int (length (ls_pending_tool_steps s))
         \<le> ls_max_successful_tool_calls s
     \<and> ls_rounds_started s \<le> ls_max_rounds s
     \<and> int (length (ls_started_branch_ids s)) \<le> ls_max_branches s"
proof -
  note g = journal_inv_groups[OF rebuild_inv[OF assms]]
  have "ls_llm_calls_settled s + ls_llm_calls_uncertain s + int (length (ls_pending_call_ids s)) \<le> m"
    if "ls_max_llm_requests s = Some m" for m
    using g(4,8) that by (simp add: calls_ok_def slots_inv_def)
  moreover have "ls_tool_calls_committed s + int (length (ls_pending_tool_steps s))
      \<le> ls_max_successful_tool_calls s"
    using g(3,8) by (simp add: tools_ok_def slots_inv_def)
  moreover have "ls_rounds_started s \<le> ls_max_rounds s"
    using g(5) by (simp add: rounds_ok_def)
  moreover have "int (length (ls_started_branch_ids s)) \<le> ls_max_branches s"
    using g(6) by (auto simp: lines_ok_def split: if_splits)
  ultimately show ?thesis by blast
qed

theorem journal_never_over_admits_witness:
  "\<exists>s. rebuild_exploration_state example_hash busy_log = Inr (Some s) \<and>
     ls_tool_calls_committed s + int (length (ls_pending_tool_steps s))
       \<le> ls_max_successful_tool_calls s"
  by (rule busy_rebuilds) (use journal_never_over_admits[OF _ logs_valid(1)] in blast)

text \<open>C27. The counters of the state are counts over its log: committed tool calls, settled
  calls, rounds, completed steps and amendments are exactly those the log records.\<close>

theorem counters_are_log_counts:
  assumes "rebuild_exploration_state h es = Inr (Some s)"
  shows "ls_tool_calls_committed s = logged commits es
     \<and> ls_llm_calls_settled s = logged settles_call es
     \<and> ls_rounds_started s = logged opens_round es
     \<and> ls_rounds_settled s = logged settles_round es
     \<and> ls_completed_step_ids s = concat (map (completed_by \<circ> ev_body) es)
     \<and> ls_amendment_ids s = concat (map (amended_by \<circ> ev_body) es)"
proof (cases es)
  case Nil
  with assms show ?thesis by (simp add: rebuild_exploration_state_def)
next
  case (Cons e fs)
  with assms obtain u where u: "reduce_exploration_event h None e = Inr u"
    "rebuild_from h (Some u) fs = Inr (Some s)"
    by (auto simp: rebuild_exploration_state_def bind_res_Inr_iff)
  then obtain p c w b where "ev_body e = Exploration_Started p c w b" "u = initial_state e p c w b"
    by (auto simp: reduce_exploration_event_def start_exploration_def validated_Inr
        split: if_splits loop_event.splits)
  with counters_from[OF u(2)] Cons show ?thesis
    by (simp add: initial_state_def)
qed

theorem counters_are_log_counts_witness:
  "\<exists>s. rebuild_exploration_state example_hash busy_log = Inr (Some s) \<and>
     ls_tool_calls_committed s = logged commits busy_log"
  by (rule busy_rebuilds) (use counters_are_log_counts in blast)


text \<open>The reducer's rules imply the state schema: when an accepted event's result fails the
  re-validation of the schema, the cause is one of three rules on identifiers (a step both
  pending and completed, a repeated probe fingerprint, a repeated uncertain call).\<close>

theorem rules_imply_schema:
  assumes "rebuild_exploration_state h es = Inr (Some s)" and "\<forall>e \<in> set es. event_valid e"
    and "event_valid e" and "reduce_exploration_event h (Some s) e = Inl (Invalid_State r)"
  shows "r \<in> {Pending_Step_Not_Completed, Probe_Fingerprints_Unique, Uncertain_Calls_Unique}"
  by (rule hard_rules_hold[OF rebuild_inv[OF assms(1,2)] assms(3,4)])

theorem rules_imply_schema_witness:
  "\<exists>s r. rebuild_exploration_state example_hash reused_log = Inr (Some s) \<and>
     reduce_exploration_event example_hash (Some s)
       (at_event 5 (Llm_Call_Uncertain ''c1'' ''timeout'')) = Inl (Invalid_State r) \<and>
     r \<in> {Pending_Step_Not_Completed, Probe_Fingerprints_Unique, Uncertain_Calls_Unique}"
proof -
  have "holds_after (\<lambda>s. reduce_exploration_event example_hash (Some s)
      (at_event 5 (Llm_Call_Uncertain ''c1'' ''timeout'')) =
      Inl (Invalid_State Uncertain_Calls_Unique))
      (rebuild_exploration_state example_hash reused_log)"
    by code_simp
  then obtain s where s: "rebuild_exploration_state example_hash reused_log = Inr (Some s)"
    "reduce_exploration_event example_hash (Some s)
      (at_event 5 (Llm_Call_Uncertain ''c1'' ''timeout'')) =
      Inl (Invalid_State Uncertain_Calls_Unique)"
    by (auto elim: holds_afterE)
  have "event_valid (at_event 5 (Llm_Call_Uncertain ''c1'' ''timeout''))"
    by (simp add: event_valid_def at_event_def)
  from rules_imply_schema[OF s(1) logs_valid(2) this s(2)] s show ?thesis by blast
qed

text \<open>A run in flight can always be stopped: unless a pending call id was already lost
  before, a stop for an external reason is accepted whatever is pending, every pending call
  becomes uncertain and nothing stays in flight.\<close>

theorem run_can_be_stopped:
  assumes "rebuild_exploration_state h es = Inr (Some s)" and "\<forall>e \<in> set es. event_valid e"
    and "ls_status s \<noteq> Status_Stopped" and "\<not> natural_stop why"
    and "set (ls_pending_call_ids s) \<inter> set (ls_uncertain_call_ids s) = {}"
  shows "\<exists>t. reduce_exploration_event h (Some s) (next_event now (Exploration_Stopped why report) s)
       = Inr t \<and> ls_status t = Status_Stopped \<and> ls_stop_reason t = Some why
     \<and> ls_pending_call_ids t = [] \<and> ls_pending_tool_steps t = []
     \<and> ls_uncertain_call_ids t = ls_uncertain_call_ids s @ ls_pending_call_ids s"
proof -
  let ?body = "Exploration_Stopped why report" and ?s = "s\<lparr>ls_last_seq := ls_last_seq s + 1\<rparr>"
  note inv = rebuild_inv[OF assms(1,2)]
  note g = journal_inv_groups[OF inv]
  define t where "t = (settle_in_flight ?s)\<lparr>ls_status := Status_Stopped, ls_stop_reason := Some why,
        ls_final_report_ref := report,
        ls_pending_terminal_reason := None, ls_pending_terminal_has_reduction := False\<rparr>"
  have "apply_body h (expected_epoch s ?body) ?body ?s = Inr t"
    using assms(4) by (simp add: on_exploration_stopped_def guarding_Inr_iff t_def)
  moreover have "soft_ok t"
    using g(4,7) assms(5)
    by (auto simp: t_def soft_ok_def calls_ok_def settle_in_flight_def Let_def)
  ultimately have "reduce_exploration_event h (Some s) (next_event now ?body s) = Inr t"
    by (intro next_accepted[OF inv _ assms(3)]) simp_all
  then show ?thesis
    by (auto simp: t_def settle_in_flight_def Let_def)
qed

theorem run_can_be_stopped_witness:
  "\<exists>s t. rebuild_exploration_state example_hash busy_log = Inr (Some s) \<and>
     reduce_exploration_event example_hash (Some s)
       (next_event 0 (Exploration_Stopped Stop_Cancelled None) s) = Inr t \<and>
     ls_uncertain_call_ids t = [''c1'']"
proof (rule busy_rebuilds)
  fix s assume s: "rebuild_exploration_state example_hash busy_log = Inr (Some s)"
    "ls_status s = Status_Running" "ls_pending_call_ids s = [''c1'']" "ls_uncertain_call_ids s = []"
  from run_can_be_stopped[OF s(1) logs_valid(1), of Stop_Cancelled 0 None] s show ?thesis
    by (auto simp: natural_stop_def)
qed

text \<open>A pending call can always be rejected: the rejection is accepted in every status but
  stopped, settles exactly that call and charges one request.\<close>

theorem pending_call_can_be_rejected:
  assumes "rebuild_exploration_state h es = Inr (Some s)" and "\<forall>e \<in> set es. event_valid e"
    and "call \<in> set (ls_pending_call_ids s)" and "call \<noteq> []" and "err \<noteq> []"
  shows "\<exists>t. reduce_exploration_event h (Some s) (next_event now (Llm_Call_Rejected call err) s) = Inr t
     \<and> ls_pending_call_ids t = filter (\<lambda>c. c \<noteq> call) (ls_pending_call_ids s)
     \<and> ls_llm_calls_settled t = ls_llm_calls_settled s + 1
     \<and> ls_remaining_llm_call_budget t = map_option (\<lambda>n. n - 1) (ls_remaining_llm_call_budget s)"
proof -
  let ?body = "Llm_Call_Rejected call err" and ?s = "s\<lparr>ls_last_seq := ls_last_seq s + 1\<rparr>"
  note inv = rebuild_inv[OF assms(1,2)]
  note g = journal_inv_groups[OF inv]
  have "ls_status s \<noteq> Status_Stopped" using g(12) assms(3) by (auto simp: quiet_inv_def)
  moreover obtain t where t: "apply_body h (expected_epoch s ?body) ?body ?s = Inr t"
    "ls_pending_call_ids t = filter (\<lambda>c. c \<noteq> call) (ls_pending_call_ids s)"
    "ls_llm_calls_settled t = ls_llm_calls_settled s + 1"
    "ls_remaining_llm_call_budget t = map_option (\<lambda>n. n - 1) (ls_remaining_llm_call_budget s)"
    "ls_pending_tool_steps t = ls_pending_tool_steps s"
    "ls_completed_step_ids t = ls_completed_step_ids s"
    "ls_completed_probe_fingerprints t = ls_completed_probe_fingerprints s"
    "ls_uncertain_call_ids t = ls_uncertain_call_ids s"
    using assms(3) by (auto simp: on_llm_call_rejected_def settle_pending_call_def guarding.simps
        spend_llm_call_def drop_pending_call_def)
  moreover have "soft_ok t" using g(7) t by (simp add: soft_ok_def)
  ultimately have "reduce_exploration_event h (Some s) (next_event now ?body s) = Inr t"
    using assms(4,5) by (intro next_accepted[OF inv]) simp_all
  with t show ?thesis by blast
qed

theorem pending_call_can_be_rejected_witness:
  "\<exists>s t. rebuild_exploration_state example_hash busy_log = Inr (Some s) \<and>
     reduce_exploration_event example_hash (Some s)
       (next_event 0 (Llm_Call_Rejected ''c1'' ''refused'') s) = Inr t \<and>
     ls_pending_call_ids t = []"
proof (rule busy_rebuilds)
  fix s assume s: "rebuild_exploration_state example_hash busy_log = Inr (Some s)"
    "ls_pending_call_ids s = [''c1'']"
  from pending_call_can_be_rejected[OF s(1) logs_valid(1), of "''c1''" "''refused''" 0] s
  show ?thesis by auto
qed

text \<open>A lost call id used again cannot be ended by a stop: while a pending call id is
  already among the uncertain ones, neither losing it again nor stopping the run, for
  whatever reason, is accepted.\<close>

theorem reused_call_id_blocks_stopping:
  assumes "call \<in> set (ls_pending_call_ids s)" and "call \<in> set (ls_uncertain_call_ids s)"
    and "ev_body e = Exploration_Stopped why report \<or> ev_body e = Llm_Call_Uncertain call err"
  shows "reduce_exploration_event h (Some s) e \<noteq> Inr t"
proof
  assume r: "reduce_exploration_event h (Some s) e = Inr t"
  note applied = reduce_applies(1)[OF r]
  have "call \<in> set (ls_uncertain_call_ids s) \<and> \<not> distinct (ls_uncertain_call_ids t)"
    using assms(3)
  proof
    assume "ev_body e = Exploration_Stopped why report"
    with applied assms(1,2) show ?thesis
      by (auto simp: on_exploration_stopped_def guarding_Inr_iff settle_in_flight_def Let_def)
  next
    assume "ev_body e = Llm_Call_Uncertain call err"
    with applied assms(2) show ?thesis
      by (auto simp: on_llm_call_uncertain_def settle_pending_call_def guarding_Inr_iff
          bind_res_Inr_iff spend_llm_call_def drop_pending_call_def)
  qed
  moreover have "distinct (ls_uncertain_call_ids t)"
    using valid_groups[OF reduce_applies(6)[OF r]] by (simp add: soft_ok_def)
  ultimately show False by blast
qed

theorem reused_call_id_blocks_stopping_witness:
  "\<exists>s. rebuild_exploration_state example_hash reused_log = Inr (Some s) \<and>
     (\<forall>t. reduce_exploration_event example_hash (Some s)
       (next_event 0 (Exploration_Stopped Stop_Cancelled None) s) \<noteq> Inr t)"
proof -
  have "holds_after (\<lambda>s. ''c1'' \<in> set (ls_pending_call_ids s) \<and> ''c1'' \<in> set (ls_uncertain_call_ids s))
      (rebuild_exploration_state example_hash reused_log)"
    by code_simp
  then obtain s where "rebuild_exploration_state example_hash reused_log = Inr (Some s)"
    "''c1'' \<in> set (ls_pending_call_ids s)" "''c1'' \<in> set (ls_uncertain_call_ids s)"
    by (auto elim: holds_afterE)
  then show ?thesis
    using reused_call_id_blocks_stopping[of "''c1''" s _ Stop_Cancelled None "''x''"]
    by (fastforce simp: next_event_def)
qed

section \<open>The shape of a log\<close>

fun claims_attempt :: "loop_event \<Rightarrow> bool" where
  "claims_attempt Attempt_Started = True"
| "claims_attempt _ = False"

lemma shape_from:
  assumes "rebuild_from h (Some s) es = Inr (Some t)"
  shows "map ev_seq es = map (\<lambda>i. ls_last_seq s + 1 + int i) [0 ..< length es]
     \<and> (\<forall>e \<in> set es. ev_exploration_id e = ls_exploration_id s)
     \<and> ls_last_seq t = ls_last_seq s + int (length es)
     \<and> ls_exploration_id t = ls_exploration_id s
     \<and> ls_attempt_epoch t = ls_attempt_epoch s + logged claims_attempt es"
  using assms
proof (induction es arbitrary: s)
  case (Cons e es)
  from Cons.prems obtain u where u: "reduce_exploration_event h (Some s) e = Inr u"
    "rebuild_from h (Some u) es = Inr (Some t)"
    by (auto simp: bind_res_Inr_iff)
  note step = reduce_applies[OF u(1)]
  have "ls_attempt_epoch u = ls_attempt_epoch s + (if claims_attempt (ev_body e) then 1 else 0)"
    using seq_frame[OF step(1)] step(4) by (cases "ev_body e") (auto simp: expected_epoch_def)
  moreover have "ls_last_seq u = ls_last_seq s + 1" "ls_exploration_id u = ls_exploration_id s"
    using seq_frame[OF step(1)] step(3) by auto
  moreover have "map (\<lambda>i. ls_last_seq s + 1 + int i) [0 ..< length (e # es)] =
      (ls_last_seq s + 1) # map (\<lambda>i. ls_last_seq s + 1 + 1 + int i) [0 ..< length es]"
    by (simp add: upt_conv_Cons map_Suc_upt[symmetric] del: upt_Suc) 
  ultimately show ?case using Cons.IH[OF u(2)] step(2,3) by simp
qed simp

lemma stopped_ends:
  assumes "rebuild_from h (Some s) es = Inr (Some t)" "ls_status s = Status_Stopped"
  shows "es = []"
  using assms reduce_applies(5) by (cases es) (auto simp: bind_res_Inr_iff)

fun stops :: "loop_event \<Rightarrow> bool" where
  "stops (Exploration_Stopped _ _) = True"
| "stops _ = False"

lemma stop_is_last_from:
  assumes "rebuild_from h (Some s) es = Inr (Some t)"
  shows "\<forall>e \<in> set (butlast es). \<not> stops (ev_body e)"
  using assms
proof (induction es arbitrary: s)
  case (Cons e es)
  from Cons.prems obtain u where u: "reduce_exploration_event h (Some s) e = Inr u"
    "rebuild_from h (Some u) es = Inr (Some t)"
    by (auto simp: bind_res_Inr_iff)
  have "es = []" if "stops (ev_body e)"
  proof (rule stopped_ends[OF u(2)])
    show "ls_status u = Status_Stopped"
      using reduce_applies(1)[OF u(1)] that
      by (cases "ev_body e") (auto simp: on_exploration_stopped_def guarding_Inr_iff)
  qed
  with Cons.IH[OF u(2)] show ?case by auto
qed simp

lemma rebuild_starts:
  assumes "rebuild_exploration_state h es = Inr (Some s)"
  obtains e fs p c w b where "es = e # fs" "ev_body e = Exploration_Started p c w b" "ev_seq e = 0"
    "rebuild_from h (Some (initial_state e p c w b)) fs = Inr (Some s)"
proof (cases es)
  case Nil
  with assms show ?thesis by (simp add: rebuild_exploration_state_def)
next
  case (Cons e fs)
  with assms obtain u where u: "reduce_exploration_event h None e = Inr u"
    "rebuild_from h (Some u) fs = Inr (Some s)"
    by (auto simp: rebuild_exploration_state_def bind_res_Inr_iff)
  then obtain p c w b where "ev_body e = Exploration_Started p c w b" "u = initial_state e p c w b"
      "ev_seq e = 0"
    by (auto simp: reduce_exploration_event_def start_exploration_def validated_Inr
        split: if_splits loop_event.splits)
  with u(2) Cons that show ?thesis by blast
qed

definition chain_link :: "hash_function \<Rightarrow> string \<Rightarrow> loop_event \<Rightarrow> string" where
  "chain_link h fp body = (case body of
     Budget_Amended a _ inc \<Rightarrow> amended_policy_fingerprint h fp a inc | _ \<Rightarrow> fp)"

lemma chain_link_step:
  assumes "apply_body h ep b s = Inr t"
  shows "ls_effective_policy_fingerprint t = chain_link h (ls_effective_policy_fingerprint s) b"
  using assms by (cases b, simp_all add: arm_simps write_simps chain_link_def, auto)

lemma chain_from:
  assumes "rebuild_from h (Some s) es = Inr (Some t)"
  shows "ls_effective_policy_fingerprint t =
      foldl (chain_link h) (ls_effective_policy_fingerprint s) (map ev_body es)
     \<and> ls_policy_fingerprint t = ls_policy_fingerprint s"
  using assms
proof (induction es arbitrary: s)
  case (Cons e es)
  from Cons.prems obtain u where u: "reduce_exploration_event h (Some s) e = Inr u"
    "rebuild_from h (Some u) es = Inr (Some t)"
    by (auto simp: bind_res_Inr_iff)
  note applied = reduce_applies(1)[OF u(1)]
  from chain_link_step[OF applied] seq_frame[OF applied] Cons.IH[OF u(2)] show ?case by simp
qed simp

definition caps_below :: "loop_state \<Rightarrow> loop_state \<Rightarrow> bool" where
  "caps_below s t \<longleftrightarrow>
     rel_option (\<le>) (ls_max_llm_requests s) (ls_max_llm_requests t) \<and>
     ls_max_successful_tool_calls s \<le> ls_max_successful_tool_calls t \<and>
     (\<forall>k. dict_get (ls_max_tool_calls_by_kind s) k 0 \<le> dict_get (ls_max_tool_calls_by_kind t) k 0) \<and>
     rel_option (\<le>) (ls_max_rows_scanned s) (ls_max_rows_scanned t) \<and>
     rel_option (\<le>) (ls_max_result_cells s) (ls_max_result_cells t) \<and>
     ls_max_rounds s \<le> ls_max_rounds t"

lemma rel_option_le_refl [simp]: "rel_option (\<le>) v (v :: int option)"
  by (cases v) auto

lemma rel_option_le_trans:
  "rel_option (\<le>) u v \<Longrightarrow> rel_option (\<le>) v w \<Longrightarrow> rel_option (\<le>) u (w :: int option)"
  by (cases u; cases v; cases w) auto

lemma caps_below_trans: "caps_below s t \<Longrightarrow> caps_below t u \<Longrightarrow> caps_below s u"
  unfolding caps_below_def by (meson order_trans rel_option_le_trans)

lemma caps_frame:
  assumes "apply_body h ep b s = Inr t" "\<And>a fp inc. b \<noteq> Budget_Amended a fp inc"
  shows "ls_max_llm_requests t = ls_max_llm_requests s \<and>
    ls_max_successful_tool_calls t = ls_max_successful_tool_calls s \<and>
    ls_max_tool_calls_by_kind t = ls_max_tool_calls_by_kind s \<and>
    ls_max_rows_scanned t = ls_max_rows_scanned s \<and>
    ls_max_result_cells t = ls_max_result_cells s \<and> ls_max_rounds t = ls_max_rounds s"
  using assms by (cases b, simp_all add: arm_simps write_simps, auto)

lemma caps_below_arm:
  assumes "apply_body h ep b s = Inr t" "body_valid b"
  shows "caps_below s t"
proof (cases "\<exists>a fp inc. b = Budget_Amended a fp inc")
  case True
  then obtain a fp inc where b: "b = Budget_Amended a fp inc" and i: "increase_valid inc"
    using assms(2) by auto
  have "dict_get (ls_max_tool_calls_by_kind s) k 0 \<le>
      dict_get (merged_kinds (ls_max_tool_calls_by_kind s) (ci_max_tool_calls_by_kind inc)) k 0" for k
    using increase_valid_nonneg(12)[OF i, of k] merged_kinds_map[OF increase_valid_nonneg(11)[OF i]]
    by (fastforce simp: dict_get_def split: option.split dest: map_of_SomeD)
  with increase_nonneg[OF i] assms(1) b show ?thesis
    by (cases "ls_max_llm_requests s"; cases "ls_max_rows_scanned s"; cases "ls_max_result_cells s")
      (auto simp: on_budget_amended_def guarding_Inr_iff caps_below_def)
next
  case False
  with caps_frame[OF assms(1)] show ?thesis by (simp add: caps_below_def)
qed

section \<open>More properties\<close>

text \<open>A log is one sequence: the events of a log that rebuilds are numbered from 0
  without a gap, carry one exploration id, the epoch counts the attempts claimed, and nothing
  follows a stop.\<close>

theorem log_is_one_sequence:
  assumes "rebuild_exploration_state h es = Inr (Some s)"
  shows "map ev_seq es = map int [0 ..< length es]
     \<and> (\<forall>e \<in> set es. ev_exploration_id e = ls_exploration_id s)
     \<and> ls_last_seq s = int (length es) - 1
     \<and> ls_attempt_epoch s = ev_attempt_epoch (hd es) + logged claims_attempt (tl es)
     \<and> (\<forall>e \<in> set (butlast es). \<not> stops (ev_body e))"
proof -
  obtain e fs p c w b where r: "es = e # fs" "ev_body e = Exploration_Started p c w b" "ev_seq e = 0"
    "rebuild_from h (Some (initial_state e p c w b)) fs = Inr (Some s)"
    by (rule rebuild_starts[OF assms])
  have "map int [0 ..< length (e # fs)] = 0 # map (\<lambda>i. 1 + int i) [0 ..< length fs]"
    by (simp add: upt_conv_Cons map_Suc_upt[symmetric] del: upt_Suc)
  with shape_from[OF r(4)] stop_is_last_from[OF r(4)] r(1-3) show ?thesis
    by (auto simp: initial_state_def)
qed

theorem log_is_one_sequence_witness:
  "map ev_seq busy_log = map int [0 ..< length busy_log]"
  by (rule busy_rebuilds) (use log_is_one_sequence in blast)

text \<open>Amendments form one chain and only raise caps: the effective fingerprint is the policy
  fingerprint folded through the amendments of the log, no amendment occurs twice, and no cap
  is lower in a state a longer log rebuilds.\<close>

theorem amendments_only_raise_caps:
  assumes "rebuild_exploration_state h es = Inr (Some s)"
    and "rebuild_exploration_state h (es @ fs) = Inr (Some t)"
    and "\<forall>e \<in> set (es @ fs). event_valid e"
  shows "caps_below s t \<and> distinct (ls_amendment_ids t)
     \<and> ls_effective_policy_fingerprint t =
         foldl (chain_link h) (ls_policy_fingerprint t) (map ev_body (es @ fs))"
proof -
  have run: "rebuild_from h (Some s) fs = Inr (Some t)"
    using assms(1,2) by (simp add: rebuild_exploration_state_def rebuild_from_append)
  have inv: "journal_inv s" using rebuild_inv[OF assms(1)] assms(3) by simp
  have "caps_below s t"
    using run _ inv
  proof (rule run_from_inv)
    show "caps_below s s" by (simp add: caps_below_def)
    show "caps_below s v" if "event_valid e" "caps_below s u" "reduce_exploration_event h (Some u) e = Inr v"
      for u e v
    proof -
      have "caps_below (u\<lparr>ls_last_seq := ev_seq e\<rparr>) v"
        using caps_below_arm[OF reduce_applies(1)[OF that(3)]] that(1) by (simp add: event_valid_def)
      then have "caps_below u v" by (simp add: caps_below_def)
      with that(2) show ?thesis by (rule caps_below_trans)
    qed
  qed (use assms(3) in simp)
  moreover have "distinct (ls_amendment_ids t)"
    using journal_inv_groups(12)[OF rebuild_inv[OF assms(2,3)]] by (simp add: quiet_inv_def)
  moreover obtain e gs p c w b where r: "es @ fs = e # gs" "ev_body e = Exploration_Started p c w b"
    "rebuild_from h (Some (initial_state e p c w b)) gs = Inr (Some t)"
    by (rule rebuild_starts[OF assms(2)])
  then have "ls_effective_policy_fingerprint t =
      foldl (chain_link h) (ls_policy_fingerprint t) (map ev_body (es @ fs))"
    using chain_from[OF r(3)] r(1,2) by (simp add: initial_state_def chain_link_def)
  ultimately show ?thesis by blast
qed

theorem amendments_only_raise_caps_witness:
  "\<exists>s t. rebuild_exploration_state example_hash busy_log = Inr (Some s) \<and>
     rebuild_exploration_state example_hash
       (busy_log @ [at_event 8 (Budget_Amended ''a1'' ''xplcy_h'' example_increase)]) = Inr (Some t) \<and>
     caps_below s t"
proof (rule busy_rebuilds)
  fix s assume s: "rebuild_exploration_state example_hash busy_log = Inr (Some s)"
  let ?e = "at_event 8 (Budget_Amended ''a1'' ''xplcy_h'' example_increase)"
  have "holds_after (\<lambda>s. True) (rebuild_exploration_state example_hash (busy_log @ [?e]))"
    by code_simp
  then obtain t where t: "rebuild_exploration_state example_hash (busy_log @ [?e]) = Inr (Some t)"
    by (auto elim: holds_afterE)
  have "event_valid ?e" by code_simp
  with logs_valid(1) have "\<forall>e \<in> set (busy_log @ [?e]). event_valid e" by simp
  with amendments_only_raise_caps[OF s t] s t show ?thesis by blast
qed

text \<open>Committed facts are final: a gate verdict or a receipt bound to a step keeps its value
  in every state a longer log rebuilds.\<close>

theorem committed_facts_are_final:
  assumes "rebuild_exploration_state h es = Inr (Some s)"
    and "rebuild_exploration_state h (es @ fs) = Inr (Some t)"
    and "\<forall>e \<in> set (es @ fs). event_valid e"
  shows "(map_of (ls_gate_verdicts s) bundle = Some v \<longrightarrow>
       map_of (ls_gate_verdicts t) bundle = Some v)
     \<and> (map_of (ls_step_receipt_refs s) stp = Some r \<longrightarrow>
       map_of (ls_step_receipt_refs t) stp = Some r)"
proof -
  have run: "rebuild_from h (Some s) fs = Inr (Some t)"
    using assms(1,2) by (simp add: rebuild_exploration_state_def rebuild_from_append)
  have inv: "journal_inv s" using rebuild_inv[OF assms(1)] assms(3) by simp
  have "map_of (ls_gate_verdicts t) bundle = Some v" if "map_of (ls_gate_verdicts s) bundle = Some v"
    using run _ inv that
  proof (rule run_from_inv)
    show "map_of (ls_gate_verdicts u) bundle = Some v"
      if "map_of (ls_gate_verdicts s) bundle = Some v" "reduce_exploration_event h (Some s) e = Inr u"
      for s e u
      using verdict_frame[OF reduce_applies(1)[OF that(2)]] that(1) by simp
  qed (use assms(3) in simp)
  moreover have "map_of (ls_step_receipt_refs t) stp = Some r"
    if "map_of (ls_step_receipt_refs s) stp = Some r"
    using run _ inv that
  proof (rule run_from_inv)
    show "map_of (ls_step_receipt_refs u) stp = Some r"
      if "journal_inv s" "map_of (ls_step_receipt_refs s) stp = Some r"
        "reduce_exploration_event h (Some s) e = Inr u" for s e u
      using receipt_final_frame[OF reduce_applies(1)[OF that(3)]] that(1,2)
      by (simp add: journal_inv_def receipt_inv_def)
  qed (use assms(3) in simp)
  ultimately show ?thesis by blast
qed

theorem committed_facts_are_final_witness:
  "\<exists>s t. rebuild_exploration_state example_hash busy_log = Inr (Some s) \<and>
     rebuild_exploration_state example_hash
       (busy_log @ [at_event 8 (Exploration_Stopped Stop_Cancelled None)]) = Inr (Some t) \<and>
     map_of (ls_gate_verdicts t) ''b1'' = Some Verdict_Passed"
proof (rule busy_rebuilds)
  fix s assume s: "rebuild_exploration_state example_hash busy_log = Inr (Some s)"
    "ls_gate_verdicts s = [(''b1'', Verdict_Passed)]"
  have "holds_after (\<lambda>s. True) (rebuild_exploration_state example_hash
      (busy_log @ [at_event 8 (Exploration_Stopped Stop_Cancelled None)]))"
    by code_simp
  then obtain t where t: "rebuild_exploration_state example_hash
      (busy_log @ [at_event 8 (Exploration_Stopped Stop_Cancelled None)]) = Inr (Some t)"
    by (auto elim: holds_afterE)
  have "event_valid (at_event 8 (Exploration_Stopped Stop_Cancelled None))"
    by (simp add: event_valid_def at_event_def)
  with committed_facts_are_final[OF s(1) t, of "''b1''" Verdict_Passed "''t1''" "''r1''"] s t logs_valid(1)
  show ?thesis by auto
qed

fun new_work :: "loop_event \<Rightarrow> bool" where
  "new_work (Round_Started _ _) = True"
| "new_work (Llm_Call_Started _ _) = True"
| "new_work (Tool_Call_Started _ _ _ _ _ _) = True"
| "new_work (Gate_Verdict _ _) = True"
| "new_work (Reduction_Committed _ _ _) = True"
| "new_work (Branch_Abandoned _ _ _) = True"
| "new_work _ = False"

lemma entry_key: "(k, v) \<in> set d \<Longrightarrow> k \<in> fst ` set d"
  by force

lemma no_new_tool_step:
  assumes "apply_body h ep b s = Inr t" "\<not> new_work b" "x \<in> fst ` set (ls_pending_tool_steps t)"
  shows "x \<in> fst ` set (ls_pending_tool_steps s)"
  using assms
  by (cases b, simp_all add: arm_simps write_simps) (auto dest!: subsetD[OF set_dict_set] subsetD[OF set_dict_del_subset]
     map_of_SomeD intro: entry_key)

text \<open>Pausing blocks new work: while the run is not running, an accepted event starts no
  round, call or tool step, records no verdict or reduction, abandons no line, and leaves
  nothing in flight that was not in flight before.\<close>

theorem pausing_blocks_new_work:
  assumes "reduce_exploration_event h (Some s) e = Inr t" and "ls_status s \<noteq> Status_Running"
  shows "\<not> new_work (ev_body e) \<and> set (ls_pending_call_ids t) \<subseteq> set (ls_pending_call_ids s)
     \<and> set (dict_keys (ls_pending_tool_steps t)) \<subseteq> set (dict_keys (ls_pending_tool_steps s))"
proof -
  note applied = reduce_applies(1)[OF assms(1)]
  have new: "\<not> new_work (ev_body e)"
    using applied assms(2) by (cases "ev_body e") (simp_all add: arm_simps)
  moreover have "set (ls_pending_call_ids t) \<subseteq> set (ls_pending_call_ids s)"
    using applied new by (cases "ev_body e", simp_all add: arm_simps write_simps, auto)
  moreover have "set (dict_keys (ls_pending_tool_steps t)) \<subseteq> set (dict_keys (ls_pending_tool_steps s))"
    using no_new_tool_step[OF applied new] by auto
  ultimately show ?thesis by blast
qed

text \<open>An abandoned line is never explored again: the line of an accepted round, the main
  line or a branch, is not among the abandoned ones.\<close>

theorem abandoned_line_never_reopened:
  assumes "rebuild_exploration_state h es = Inr (Some s)" and "\<forall>e \<in> set es. event_valid e"
    and "reduce_exploration_event h (Some s) e = Inr t" and "ev_body e = Round_Started i branch"
  shows "(case branch of None \<Rightarrow> main_line_id | Some b \<Rightarrow> b) \<notin> set (ls_abandoned_line_ids s)"
proof -
  have inv: "branch_inv s" using journal_inv_groups(9)[OF rebuild_inv[OF assms(1,2)]] .
  then obtain k where k: "ls_started_branch_ids s = numbered_branches k"
    by (auto simp: branch_inv_def)
  obtain u where rule: "round_branch_rules branch (s\<lparr>ls_last_seq := ev_seq e\<rparr>) = Inr u"
    using reduce_applies(1)[OF assms(3)] assms(4) by (auto simp: on_round_started_Inr)
  show ?thesis
  proof (cases "ls_current_line_abandoned s")
    case True
    with rule k have "branch = Some (branch_name (Suc k))"
      by (auto simp: round_branch_rules_Inr)
    moreover have "branch_name (Suc k) \<notin> set (explored_lines s)"
      using numbered_branches_distinct[of "Suc k"] k by (simp add: explored_lines_def)
    ultimately show ?thesis using inv True by (simp add: branch_inv_def)
  next
    case False
    then have "(case branch of None \<Rightarrow> main_line_id | Some b \<Rightarrow> b) = last (explored_lines s)"
      using rule inv by (auto simp: round_branch_rules_Inr branch_inv_def current_line_def)
    moreover have "last (explored_lines s) \<notin> set (butlast (explored_lines s))"
      using numbered_branches_distinct[of k] k append_butlast_last_id[of "explored_lines s"]
      by (metis distinct_append explored_lines_def disjoint_insert(1) list.distinct(1) list.simps(15))
    ultimately show ?thesis using inv False by (simp add: branch_inv_def)
  qed
qed


theorem pausing_blocks_new_work_witness:
  "\<exists>s t. rebuild_exploration_state example_hash
       (busy_log @ [at_event 8 (Pause_Requested None)]) = Inr (Some s) \<and>
     reduce_exploration_event example_hash (Some s) (at_event 9 (Llm_Call_Rejected ''c1'' ''x'')) = Inr t \<and>
     set (ls_pending_call_ids t) \<subseteq> set (ls_pending_call_ids s)"
proof -
  let ?e = "at_event 9 (Llm_Call_Rejected ''c1'' ''x'')"
  have "holds_after (\<lambda>s. ls_status s \<noteq> Status_Running \<and>
      \<not> isl (reduce_exploration_event example_hash (Some s) ?e))
      (rebuild_exploration_state example_hash (busy_log @ [at_event 8 (Pause_Requested None)]))"
    by code_simp
  then obtain s where s: "rebuild_exploration_state example_hash
       (busy_log @ [at_event 8 (Pause_Requested None)]) = Inr (Some s)"
    "ls_status s \<noteq> Status_Running" "\<not> isl (reduce_exploration_event example_hash (Some s) ?e)"
    by (auto elim: holds_afterE)
  from s(3) obtain t where "reduce_exploration_event example_hash (Some s) ?e = Inr t"
    by (cases "reduce_exploration_event example_hash (Some s) ?e") auto
  with pausing_blocks_new_work[OF this s(2)] s(1) show ?thesis by blast
qed

text \<open>A stagnant main line, abandoned, and the branch that succeeds it.\<close>

definition idle_round :: "int \<Rightarrow> round_settlement" where
  "idle_round i = \<lparr>rs_round_index = i, rs_progress = False, rs_frontier_empty = False,
     rs_adjudicated_transitions = 0, rs_supported_transitions = None, rs_llm_calls_at_settle = None,
     rs_tool_calls_at_settle = None, rs_terminal_reason = None, rs_terminal_has_reduction = False\<rparr>"

definition stagnant_log :: "exploration_event list" where
  "stagnant_log = started_log @
    [at_event 2 (Round_Settled (idle_round 0)), at_event 3 (Round_Started 1 None),
     at_event 4 (Round_Settled (idle_round 1)), at_event 5 (Branch_Abandoned ''main'' 1 [])]"

theorem abandoned_line_never_reopened_witness:
  "\<exists>s. rebuild_exploration_state example_hash stagnant_log = Inr (Some s) \<and>
     ls_abandoned_line_ids s = [''main''] \<and> ''br_1'' \<notin> set (ls_abandoned_line_ids s)"
proof -
  let ?e = "at_event 6 (Round_Started 2 (Some ''br_1''))"
  have "holds_after (\<lambda>s. ls_abandoned_line_ids s = [''main''] \<and>
      \<not> isl (reduce_exploration_event example_hash (Some s) ?e))
      (rebuild_exploration_state example_hash stagnant_log)"
    by code_simp
  then obtain s where s: "rebuild_exploration_state example_hash stagnant_log = Inr (Some s)"
    "ls_abandoned_line_ids s = [''main'']" "\<not> isl (reduce_exploration_event example_hash (Some s) ?e)"
    by (auto elim: holds_afterE)
  from s(3) obtain t where t: "reduce_exploration_event example_hash (Some s) ?e = Inr t"
    by (cases "reduce_exploration_event example_hash (Some s) ?e") auto
  have "list_all event_valid stagnant_log" by code_simp
  then have "\<forall>e \<in> set stagnant_log. event_valid e" by (simp add: list_all_iff)
  from abandoned_line_never_reopened[OF s(1) this t, of 2 "Some ''br_1''"] s show ?thesis
    by (simp add: at_event_def)
qed

end
