(* ===== verification/EventJournal.thy ===== *)
theory EventJournal
  imports JournalProperties "HOL-Library.Countable"
begin

text \<open>
  \<open>core/event_journal.py\<close>: the append-only JSONL journal, over the bytes of its file. The
  event and state types, their JSON codecs (pydantic) and the reducer are injected into the
  class, so they are the fields of a record here. The writer lock makes every operation
  atomic; a crash may cut the write of one record at any byte.
\<close>

section \<open>The injected parts and the files\<close>

type_synonym bytes = string

record ('e, 's, 'x) journal_spec =
  js_encode :: "'e \<Rightarrow> bytes"
  js_decode :: "bytes \<Rightarrow> 'e option"
  js_encode_state :: "'s \<Rightarrow> bytes"
  js_decode_state :: "bytes \<Rightarrow> 's option"
  js_reducer :: "'s option \<Rightarrow> 'e \<Rightarrow> 'x + 's"
  js_last_seq :: "'s \<Rightarrow> int"
  js_attempt_epoch :: "'s \<Rightarrow> int"

text \<open>The journal and its snapshot; a file that does not exist is \<open>None\<close>.\<close>

record journal_files =
  jf_log :: "bytes option"
  jf_snapshot :: "bytes option"

datatype 'x journal_error =
    Blank_Record nat
  | Invalid_Record nat
  | Stale_Epoch
  | Not_Initialized
  | Not_Claimed
  | Invalid_Fields
  | Rejected 'x
  | Empty_Snapshot
  | Snapshot_Mismatch
  | Invalid_Snapshot

section \<open>Reading\<close>

definition newline :: char where
  "newline = CHR 0x0A"

text \<open>\<open>raw.split(b"\n")\<close>: the chunks between line feeds; the last one is what follows the
  last line feed.\<close>

fun split_lines :: "bytes \<Rightarrow> bytes list" where
  "split_lines [] = [[]]"
| "split_lines (c # cs) =
     (if c = newline then [] # split_lines cs
      else (case split_lines cs of [] \<Rightarrow> [[c]] | l # ls \<Rightarrow> (c # l) # ls))"

definition committed_lines :: "bytes \<Rightarrow> bytes list" where
  "committed_lines raw = butlast (split_lines raw)"

fun decode_lines ::
  "('e, 's, 'x) journal_spec \<Rightarrow> nat \<Rightarrow> bytes list \<Rightarrow> 'x journal_error + 'e list" where
  "decode_lines sp n [] = Inr []"
| "decode_lines sp n (l # ls) =
     (if l = [] then Inl (Blank_Record n)
      else case js_decode sp l of
        None \<Rightarrow> Inl (Invalid_Record n)
      | Some e \<Rightarrow> bind_res (decode_lines sp (Suc n) ls) (\<lambda>es. Inr (e # es)))"

definition journal_events ::
  "('e, 's, 'x) journal_spec \<Rightarrow> journal_files \<Rightarrow> 'x journal_error + 'e list" where
  "journal_events sp fs = (case jf_log fs of
     None \<Rightarrow> Inr [] | Some raw \<Rightarrow> decode_lines sp 1 (committed_lines raw))"

text \<open>Rebuilding reads lazily: a record is decoded after the ones before it were reduced.\<close>

fun rebuild_lines ::
  "('e, 's, 'x) journal_spec \<Rightarrow> nat \<Rightarrow> 's option \<Rightarrow> bytes list \<Rightarrow> 'x journal_error + 's option" where
  "rebuild_lines sp n st [] = Inr st"
| "rebuild_lines sp n st (l # ls) =
     (if l = [] then Inl (Blank_Record n)
      else case js_decode sp l of
        None \<Rightarrow> Inl (Invalid_Record n)
      | Some e \<Rightarrow>
          (case js_reducer sp st e of
             Inl x \<Rightarrow> Inl (Rejected x)
           | Inr s \<Rightarrow> rebuild_lines sp (Suc n) (Some s) ls))"

definition journal_rebuild ::
  "('e, 's, 'x) journal_spec \<Rightarrow> journal_files \<Rightarrow> 'x journal_error + 's option" where
  "journal_rebuild sp fs = (case jf_log fs of
     None \<Rightarrow> Inr None | Some raw \<Rightarrow> rebuild_lines sp 1 None (committed_lines raw))"

section \<open>Writing\<close>

text \<open>The part of the file up to and including the last line feed.\<close>

definition truncate_tail :: "bytes \<Rightarrow> bytes" where
  "truncate_tail raw = rev (dropWhile (\<lambda>c. c \<noteq> newline) (rev raw))"

definition log_bytes :: "journal_files \<Rightarrow> bytes" where
  "log_bytes fs = (case jf_log fs of None \<Rightarrow> [] | Some raw \<Rightarrow> raw)"

definition append_unlocked ::
  "('e, 's, 'x) journal_spec \<Rightarrow> 'e \<Rightarrow> journal_files \<Rightarrow> journal_files" where
  "append_unlocked sp e fs =
     fs\<lparr>jf_log := Some (truncate_tail (log_bytes fs) @ js_encode sp e @ [newline])\<rparr>"

text \<open>A crash inside the append: before the tail was discarded (0), or after it with the
  first \<open>n - 1\<close> bytes of the record in the file.\<close>

definition crashed_append ::
  "('e, 's, 'x) journal_spec \<Rightarrow> nat \<Rightarrow> 'e \<Rightarrow> journal_files \<Rightarrow> journal_files" where
  "crashed_append sp n e fs = (if n = 0 then fs
     else fs\<lparr>jf_log := Some (truncate_tail (log_bytes fs) @
            take (n - 1) (js_encode sp e @ [newline]))\<rparr>)"

definition stale_handle :: "int option \<Rightarrow> int \<Rightarrow> bool" where
  "stale_handle claimed epoch = (case claimed of None \<Rightarrow> False | Some c \<Rightarrow> epoch \<noteq> c)"

text \<open>Reducing and appending one event, inside the lock.\<close>

definition commit_event ::
  "('e, 's, 'x) journal_spec \<Rightarrow> 's option \<Rightarrow> 'e \<Rightarrow> journal_files
    \<Rightarrow> ('x journal_error + 's) \<times> journal_files" where
  "commit_event sp current e fs = (case js_reducer sp current e of
     Inl x \<Rightarrow> (Inl (Rejected x), fs)
   | Inr updated \<Rightarrow> (Inr updated, append_unlocked sp e fs))"

definition journal_append ::
  "('e, 's, 'x) journal_spec \<Rightarrow> int option \<Rightarrow> 'e \<Rightarrow> journal_files
    \<Rightarrow> ('x journal_error + 's) \<times> journal_files" where
  "journal_append sp claimed e fs = (case journal_rebuild sp fs of
     Inl err \<Rightarrow> (Inl err, fs)
   | Inr current \<Rightarrow>
       if (case current of None \<Rightarrow> False
           | Some s \<Rightarrow> stale_handle claimed (js_attempt_epoch sp s))
       then (Inl Stale_Epoch, fs)
       else commit_event sp current e fs)"

text \<open>
  \<open>append_new\<close> builds the event under the lock: \<open>build\<close> validates the fields with the sequence
  number and the epoch (\<open>None\<close> when the schema refuses them), \<open>claims\<close> says whether it is the
  event that claims an epoch, \<open>given\<close> is an epoch among the fields.
\<close>

definition event_epoch :: "bool \<Rightarrow> int option \<Rightarrow> int option \<Rightarrow> int \<Rightarrow> int" where
  "event_epoch claims given claimed epoch = (case given of
     Some g \<Rightarrow> g
   | None \<Rightarrow> if claims then epoch + 1 else (case claimed of Some c \<Rightarrow> c | None \<Rightarrow> epoch))"

definition journal_append_new ::
  "('e, 's, 'x) journal_spec \<Rightarrow> bool \<Rightarrow> int option \<Rightarrow> (int \<Rightarrow> int \<Rightarrow> 's \<Rightarrow> 'e option)
    \<Rightarrow> int option \<Rightarrow> journal_files \<Rightarrow> ('x journal_error + 's) \<times> journal_files" where
  "journal_append_new sp claims given build claimed fs = (case journal_rebuild sp fs of
     Inl err \<Rightarrow> (Inl err, fs)
   | Inr None \<Rightarrow> (Inl Not_Initialized, fs)
   | Inr (Some s) \<Rightarrow>
       if \<not> claims \<and> stale_handle claimed (js_attempt_epoch sp s) then (Inl Stale_Epoch, fs)
       else (case build (js_last_seq sp s + 1)
                    (event_epoch claims given claimed (js_attempt_epoch sp s)) s of
          None \<Rightarrow> (Inl Invalid_Fields, fs)
        | Some e \<Rightarrow> commit_event sp (Some s) e fs))"

text \<open>A claim returns the state and the epoch the handle holds from then on.\<close>

definition journal_claim ::
  "('e, 's, 'x) journal_spec \<Rightarrow> (int \<Rightarrow> int \<Rightarrow> 's \<Rightarrow> 'e option) \<Rightarrow> int option \<Rightarrow> journal_files
    \<Rightarrow> ('x journal_error + 's) \<times> int option \<times> journal_files" where
  "journal_claim sp build claimed fs =
     (case journal_append_new sp True None build claimed fs of
        (Inl err, fs') \<Rightarrow> (Inl err, claimed, fs')
      | (Inr s, fs') \<Rightarrow> (Inr s, Some (js_attempt_epoch sp s), fs'))"

text \<open>The guard of a side effect, checked while the lock is held.\<close>

definition fenced_side_effect ::
  "('e, 's, 'x) journal_spec \<Rightarrow> int option \<Rightarrow> journal_files \<Rightarrow> 'x journal_error + int" where
  "fenced_side_effect sp claimed fs = bind_res (journal_rebuild sp fs) (\<lambda>current.
     case (current, claimed) of
       (Some s, Some c) \<Rightarrow>
         if js_attempt_epoch sp s \<noteq> c then Inl Stale_Epoch else Inr (js_attempt_epoch sp s)
     | _ \<Rightarrow> Inl Not_Claimed)"

section \<open>Snapshots\<close>

definition write_snapshot ::
  "('e, 's, 'x) journal_spec \<Rightarrow> 's option \<Rightarrow> journal_files
    \<Rightarrow> ('x journal_error + unit) \<times> journal_files" where
  "write_snapshot sp state fs = (case journal_rebuild sp fs of
     Inl err \<Rightarrow> (Inl err, fs)
   | Inr None \<Rightarrow> (Inl Empty_Snapshot, fs)
   | Inr (Some s) \<Rightarrow>
       if state \<noteq> None \<and> state \<noteq> Some s then (Inl Snapshot_Mismatch, fs)
       else (Inr (), fs\<lparr>jf_snapshot := Some (js_encode_state sp s)\<rparr>))"

definition read_snapshot ::
  "('e, 's, 'x) journal_spec \<Rightarrow> journal_files \<Rightarrow> 'x journal_error + 's option" where
  "read_snapshot sp fs = (case jf_snapshot fs of
     None \<Rightarrow> Inr None
   | Some raw \<Rightarrow> (case js_decode_state sp raw of
       None \<Rightarrow> Inl Invalid_Snapshot | Some s \<Rightarrow> Inr (Some s)))"

section \<open>Lines\<close>

text \<open>What the journal relies on from its codec: the record of an event that it can hold is one line,
  not empty, and decodes to the event it encodes. (The source's event values are all valid: their
  constructors validate. The exploration journal can hold the storable ones.)\<close>

definition line_codec :: "('e \<Rightarrow> bool) \<Rightarrow> ('e \<Rightarrow> bytes) \<Rightarrow> (bytes \<Rightarrow> 'e option) \<Rightarrow> bool" where
  "line_codec valid enc dec \<longleftrightarrow>
     (\<forall>e. valid e \<longrightarrow> enc e \<noteq> [] \<and> newline \<notin> set (enc e) \<and> dec (enc e) = Some e)"

lemma split_lines_not_Nil [simp]: "split_lines raw \<noteq> []"
  by (induction raw) (auto split: list.splits)

lemma split_lines_append:
  "newline \<notin> set l \<Longrightarrow> split_lines (raw @ l) =
     butlast (split_lines raw) @ [last (split_lines raw) @ l]"
proof (induction raw)
  case Nil
  then have "split_lines l = [l]"
    by (induction l) auto
  then show ?case by simp
next
  case (Cons c raw)
  obtain x xs where "split_lines raw = x # xs" by (cases "split_lines raw") auto
  with Cons show ?case by (cases xs rule: rev_cases) (auto split: list.splits)
qed

lemma split_lines_newline:
  "split_lines (raw @ [newline]) = split_lines raw @ [[]]"
proof (induction raw)
  case (Cons c raw)
  then show ?case by (cases "split_lines raw") auto
qed simp

lemma split_lines_last: "newline \<notin> set (last (split_lines raw))"
  by (induction raw) (auto split: list.splits)

lemma truncate_tail_cases:
  "truncate_tail raw = [] \<and> newline \<notin> set raw \<or>
   (\<exists>p q. raw = p @ newline # q \<and> newline \<notin> set q \<and> truncate_tail raw = p @ [newline])"
proof (cases "newline \<in> set raw")
  case True
  then obtain p q where "raw = p @ newline # q" "newline \<notin> set q"
    by (metis split_list_last)
  moreover have "dropWhile (\<lambda>c. c \<noteq> newline) (rev q @ newline # rev p) = newline # rev p"
    using calculation(2) by (simp add: dropWhile_append)
  ultimately show ?thesis by (auto simp: truncate_tail_def)
next
  case False
  then show ?thesis by (auto simp: truncate_tail_def dropWhile_eq_Nil_conv)
qed

lemma committed_lines_truncate:
  "committed_lines (truncate_tail raw) = committed_lines raw \<and>
   last (split_lines (truncate_tail raw)) = []"
  using truncate_tail_cases[of raw]
proof (elim disjE exE conjE)
  assume "truncate_tail raw = []" "newline \<notin> set raw"
  then show ?thesis using split_lines_append[of raw "[]"] by (simp add: committed_lines_def)
next
  fix p q assume r: "raw = p @ newline # q" "newline \<notin> set q" "truncate_tail raw = p @ [newline]"
  then have "split_lines raw = butlast (split_lines (p @ [newline])) @ [last (split_lines (p @ [newline])) @ q]"
    using split_lines_append[of q "p @ [newline]"] by simp
  with r(3) show ?thesis by (simp add: committed_lines_def split_lines_newline)
qed

text \<open>Appending keeps the committed lines and adds one; a partial write adds none.\<close>

lemma committed_lines_append:
  assumes "newline \<notin> set l"
  shows "committed_lines (truncate_tail raw @ l @ [newline]) = committed_lines raw @ [l]"
    "committed_lines (truncate_tail raw @ l) = committed_lines raw"
proof -
  have "split_lines (truncate_tail raw @ l) = committed_lines raw @ [l]"
    using split_lines_append[OF assms, of "truncate_tail raw"] committed_lines_truncate[of raw]
    by (simp add: committed_lines_def)
  then show "committed_lines (truncate_tail raw @ l @ [newline]) = committed_lines raw @ [l]"
    "committed_lines (truncate_tail raw @ l) = committed_lines raw"
    using split_lines_newline[of "truncate_tail raw @ l"]
    by (simp_all add: committed_lines_def butlast_append)
qed

lemma rebuild_lines_append:
  "rebuild_lines sp n st (ls @ ms) =
     bind_res (rebuild_lines sp n st ls) (\<lambda>st'. rebuild_lines sp (n + length ls) st' ms)"
  by (induction ls arbitrary: n st) (auto split: option.splits sum.splits)

lemma decode_lines_append:
  "decode_lines sp n (ls @ ms) =
     bind_res (decode_lines sp n ls) (\<lambda>es. bind_res (decode_lines sp (n + length ls) ms) (\<lambda>gs. Inr (es @ gs)))"
proof (induction ls arbitrary: n)
  case Nil
  then show ?case by (cases "decode_lines sp n ms") auto
next
  case (Cons l ls)
  show ?case
    by (cases "decode_lines sp (Suc n) ls"; cases "decode_lines sp (Suc n + length ls) ms")
      (auto simp: Cons split: option.splits)
qed

lemma journal_rebuild_bytes:
  "journal_rebuild sp fs = rebuild_lines sp 1 None (committed_lines (log_bytes fs))"
  by (simp add: journal_rebuild_def log_bytes_def committed_lines_def split: option.split)

lemma journal_events_bytes:
  "journal_events sp fs = decode_lines sp 1 (committed_lines (log_bytes fs))"
  by (simp add: journal_events_def log_bytes_def committed_lines_def split: option.split)

lemma append_lines:
  assumes "line_codec valid (js_encode sp) (js_decode sp)" "valid e"
  shows "committed_lines (log_bytes (append_unlocked sp e fs)) =
    committed_lines (log_bytes fs) @ [js_encode sp e]"
  using committed_lines_append(1)[of "js_encode sp e"] assms
  by (simp add: append_unlocked_def log_bytes_def line_codec_def)

lemma rebuild_appended:
  assumes "line_codec valid (js_encode sp) (js_decode sp)" "valid e" "journal_rebuild sp fs = Inr st"
  shows "journal_rebuild sp (append_unlocked sp e fs) =
    (case js_reducer sp st e of Inl x \<Rightarrow> Inl (Rejected x) | Inr s \<Rightarrow> Inr (Some s))"
  using assms append_lines[OF assms(1)]
  by (simp add: journal_rebuild_bytes rebuild_lines_append line_codec_def split: sum.split)

lemma crash_lines:
  assumes "line_codec valid (js_encode sp) (js_decode sp)" "valid e"
  shows "committed_lines (log_bytes (crashed_append sp n e fs)) \<in>
    {committed_lines (log_bytes fs), committed_lines (log_bytes (append_unlocked sp e fs))}"
proof (cases "n = 0")
  case False
  have nl: "newline \<notin> set (js_encode sp e)" using assms by (simp add: line_codec_def)
  show ?thesis
  proof (cases "n - 1 \<le> length (js_encode sp e)")
    case True
    have "newline \<notin> set (take (n - 1) (js_encode sp e))" using nl by (meson in_set_takeD)
    from committed_lines_append(2)[OF this] True False show ?thesis
      by (simp add: crashed_append_def log_bytes_def)
  next
    case full: False
    with False show ?thesis by (simp add: crashed_append_def append_unlocked_def log_bytes_def)
  qed
qed (simp add: crashed_append_def)

section \<open>What the journal relies on from its reducer\<close>

text \<open>
  Every accepted event takes the next sequence number; the epoch of the state grows by one
  when the event claims an attempt and stays otherwise.
\<close>

locale event_reducer =
  fixes reduce :: "'s option \<Rightarrow> 'e \<Rightarrow> 'x + 's"
    and last_seq :: "'s \<Rightarrow> int"
    and epoch :: "'s \<Rightarrow> int"
    and claims :: "'e \<Rightarrow> bool"
  assumes next_seq: "reduce (Some s) e = Inr t \<Longrightarrow> last_seq t = last_seq s + 1"
    and next_epoch: "reduce (Some s) e = Inr t \<Longrightarrow>
      epoch t = (if claims e then epoch s + 1 else epoch s)"
begin

lemma epoch_mono: "reduce (Some s) e = Inr t \<Longrightarrow> epoch s \<le> epoch t"
  by (simp add: next_epoch)

lemma seq_mono: "reduce (Some s) e = Inr t \<Longrightarrow> last_seq s < last_seq t"
  by (simp add: next_seq)

end

text \<open>Any use of the journal: each call comes from some handle with its claimed epoch.\<close>

datatype ('e, 's) journal_call =
    Call_Append "int option" 'e
  | Call_Append_New bool "int option" "int \<Rightarrow> int \<Rightarrow> 's \<Rightarrow> 'e option" "int option"
  | Call_Crash nat "int option" 'e
  | Call_Snapshot "'s option"

text \<open>The events a call writes are valid values.\<close>

fun call_valid :: "('e \<Rightarrow> bool) \<Rightarrow> ('e, 's) journal_call \<Rightarrow> bool" where
  "call_valid valid (Call_Append claimed e) = valid e"
| "call_valid valid (Call_Append_New claims given build claimed) =
     (\<forall>n ep s e. build n ep s = Some e \<longrightarrow> valid e)"
| "call_valid valid (Call_Crash n claimed e) = valid e"
| "call_valid valid (Call_Snapshot state) = True"

text \<open>A crashed append got as far as writing only if the event was accepted.\<close>

fun journal_step ::
  "('e, 's, 'x) journal_spec \<Rightarrow> journal_files \<Rightarrow> ('e, 's) journal_call \<Rightarrow> journal_files" where
  "journal_step sp fs (Call_Append claimed e) = snd (journal_append sp claimed e fs)"
| "journal_step sp fs (Call_Append_New claims given build claimed) =
     snd (journal_append_new sp claims given build claimed fs)"
| "journal_step sp fs (Call_Crash n claimed e) =
     (case journal_append sp claimed e fs of (Inl _, _) \<Rightarrow> fs | (Inr _, _) \<Rightarrow> crashed_append sp n e fs)"
| "journal_step sp fs (Call_Snapshot state) = snd (write_snapshot sp state fs)"

lemma log_of_snapshot [simp]: "jf_log (snd (write_snapshot sp state fs)) = jf_log fs"
  by (simp add: write_snapshot_def split: sum.split option.split)

lemma rebuild_log_only: "jf_log fs = jf_log gs \<Longrightarrow> journal_rebuild sp fs = journal_rebuild sp gs"
  by (simp add: journal_rebuild_def)

text \<open>A call leaves the rebuilt state as it was, or moves it by one accepted event.\<close>

lemma journal_step_cases:
  assumes codec: "line_codec valid (js_encode sp) (js_decode sp)" and ok: "call_valid valid c"
    and "journal_rebuild sp fs = Inr st"
  obtains (same) "journal_rebuild sp (journal_step sp fs c) = Inr st"
    | (moved) e t where "js_reducer sp st e = Inr t"
      "journal_rebuild sp (journal_step sp fs c) = Inr (Some t)"
proof -
  define R where "R = insert (journal_rebuild sp fs) {Inr (Some t) | e t. js_reducer sp st e = Inr t}"
  have same: "journal_rebuild sp fs \<in> R" using assms(3) by (simp add: R_def)
  have commit: "journal_rebuild sp (snd (commit_event sp st e fs)) \<in> R" if "valid e" for e
    using rebuild_appended[OF codec that assms(3)] same
    by (auto simp: commit_event_def R_def split: sum.splits)
  have "journal_rebuild sp (journal_step sp fs c) \<in> R"
  proof (cases c)
    case (Call_Append claimed e)
    with commit[of e] ok same assms(3) show ?thesis by (simp add: journal_append_def)
  next
    case (Call_Append_New claims given build claimed)
    show ?thesis
    proof (cases st)
      case None
      with Call_Append_New same assms(3) show ?thesis by (simp add: journal_append_new_def)
    next
      case (Some s)
      let ?b = "build (js_last_seq sp s + 1) (event_epoch claims given claimed (js_attempt_epoch sp s)) s"
      have "journal_rebuild sp (snd (commit_event sp st e fs)) \<in> R" if "?b = Some e" for e
        using commit[of e] ok that Call_Append_New by auto
      with Some Call_Append_New same assms(3) show ?thesis
        by (cases claims; cases ?b) (simp_all add: journal_append_new_def)
    qed
  next
    case (Call_Crash n claimed e)
    with ok have e: "valid e" by simp
    show ?thesis
    proof (cases "isl (fst (journal_append sp claimed e fs))")
      case True
      with Call_Crash same show ?thesis by (auto split: prod.split sum.split)
    next
      case False
      then obtain t where red: "js_reducer sp st e = Inr t"
        using assms(3) by (auto simp: journal_append_def commit_event_def split: if_splits sum.splits)
      have "journal_rebuild sp (crashed_append sp n e fs) \<in> {Inr st, Inr (Some t)}"
        using crash_lines[OF codec e, of n fs] rebuild_appended[OF codec e assms(3)] assms(3) red
        by (auto simp: journal_rebuild_bytes)
      moreover have "{Inr st, Inr (Some t)} \<subseteq> R" using red assms(3) by (auto simp: R_def)
      ultimately show ?thesis using Call_Crash same False by (auto split: prod.split sum.split)
    qed
  next
    case (Call_Snapshot state)
    with same rebuild_log_only[OF log_of_snapshot, of sp sp state fs] show ?thesis by simp
  qed
  with that assms(3) show thesis unfolding R_def by auto
qed

text \<open>The epoch of the journal never goes back, whoever calls.\<close>

lemma epoch_of_run:
  assumes "line_codec valid (js_encode sp) (js_decode sp)" "list_all (call_valid valid) calls"
    and "event_reducer (js_reducer sp) (js_last_seq sp) (js_attempt_epoch sp) claims"
    and "journal_rebuild sp fs = Inr (Some s)"
  shows "\<exists>t. journal_rebuild sp (foldl (journal_step sp) fs calls) = Inr (Some t) \<and>
     js_attempt_epoch sp s \<le> js_attempt_epoch sp t \<and> js_last_seq sp s \<le> js_last_seq sp t"
  using assms(4,2)
proof (induction calls arbitrary: fs s)
  case (Cons c calls)
  from Cons.prems(2) have ok: "call_valid valid c" "list_all (call_valid valid) calls" by simp_all
  from assms(1) ok(1) Cons.prems(1) show ?case
  proof (cases rule: journal_step_cases[where c = c])
    case same
    with Cons.IH ok show ?thesis by simp
  next
    case (moved e t)
    from moved(1) have "js_attempt_epoch sp s \<le> js_attempt_epoch sp t" "js_last_seq sp s < js_last_seq sp t"
      using event_reducer.epoch_mono[OF assms(3)] event_reducer.seq_mono[OF assms(3)] by blast+
    with Cons.IH[OF moved(2) ok(2)] show ?thesis by fastforce
  qed
qed simp

section \<open>The exploration journal\<close>

fun claims_epoch :: "exploration_event \<Rightarrow> bool" where
  "claims_epoch e = claims_attempt (ev_body e)"

interpretation exploration: event_reducer "reduce_exploration_event h" ls_last_seq ls_attempt_epoch
    claims_epoch for h
proof
  fix s e t assume r: "reduce_exploration_event h (Some s) e = Inr t"
  note step = reduce_applies[OF r]
  show "ls_last_seq t = ls_last_seq s + 1"
    using seq_frame[OF step(1)] step(3) by simp
  show "ls_attempt_epoch t = (if claims_epoch e then ls_attempt_epoch s + 1 else ls_attempt_epoch s)"
    using seq_frame[OF step(1)] step(4) by (cases "ev_body e") (auto simp: expected_epoch_def)
qed

text \<open>The arguments \<open>JsonlExplorationJournal\<close> passes to the generic journal.\<close>

definition exploration_spec ::
  "(exploration_event \<Rightarrow> bytes) \<Rightarrow> (bytes \<Rightarrow> exploration_event option) \<Rightarrow> (loop_state \<Rightarrow> bytes)
    \<Rightarrow> (bytes \<Rightarrow> loop_state option) \<Rightarrow> hash_function
    \<Rightarrow> (exploration_event, loop_state, reduce_fault) journal_spec" where
  "exploration_spec enc dec enc_state dec_state h =
     \<lparr>js_encode = enc, js_decode = dec, js_encode_state = enc_state, js_decode_state = dec_state,
      js_reducer = reduce_exploration_event h, js_last_seq = ls_last_seq,
      js_attempt_epoch = ls_attempt_epoch\<rparr>"

lemma exploration_spec_simps [simp]:
  "js_encode (exploration_spec enc dec es ds h) = enc"
  "js_decode (exploration_spec enc dec es ds h) = dec"
  "js_reducer (exploration_spec enc dec es ds h) = reduce_exploration_event h"
  "js_last_seq (exploration_spec enc dec es ds h) = ls_last_seq"
  "js_attempt_epoch (exploration_spec enc dec es ds h) = ls_attempt_epoch"
  by (simp_all add: exploration_spec_def)

text \<open>The event \<open>append_new\<close> validates for the exploration journal.\<close>

definition exploration_event_of ::
  "int \<Rightarrow> loop_event \<Rightarrow> int \<Rightarrow> int \<Rightarrow> loop_state \<Rightarrow> exploration_event option" where
  "exploration_event_of now body seq epoch s =
     (let e = \<lparr>ev_schema_version = journal_schema_version, ev_seq = seq,
          ev_exploration_id = ls_exploration_id s, ev_attempt_epoch = epoch,
          ev_occurred_at = now, ev_body = body\<rparr>
      in if event_valid e then Some e else None)"

section \<open>A concrete journal\<close>

text \<open>A codec and a reducer that adds numbers up, for the witnesses of the generic facts.\<close>

definition tally_encode :: "nat \<Rightarrow> bytes" where
  "tally_encode n = replicate n CHR ''x'' @ ''y''"

definition tally_decode :: "bytes \<Rightarrow> nat option" where
  "tally_decode l = (if l \<noteq> [] \<and> last l = CHR ''y'' \<and> list_all (\<lambda>c. c = CHR ''x'') (butlast l)
     then Some (length l - 1) else None)"

definition tally_spec :: "(nat, int \<times> int, unit) journal_spec" where
  "tally_spec = \<lparr>js_encode = tally_encode, js_decode = tally_decode,
     js_encode_state = (\<lambda>_. []), js_decode_state = (\<lambda>_. None),
     js_reducer = (\<lambda>st n. case st of
         None \<Rightarrow> Inr (0, 0)
       | Some (k, ep) \<Rightarrow> Inr (k + 1, if n = 0 then ep + 1 else ep)),
     js_last_seq = fst, js_attempt_epoch = snd\<rparr>"

lemma tally_codec: "line_codec (\<lambda>_. True) (js_encode tally_spec) (js_decode tally_spec)"
  by (auto simp: line_codec_def tally_spec_def tally_encode_def tally_decode_def newline_def
      list_all_iff)

text \<open>
  Events are countable, so numbering them gives a codec that satisfies what the journal
  relies on.
\<close>

instance unknown_usage_policy :: countable
  by countable_datatype

instance py_real :: countable
  by countable_datatype

instance session_budget_policy_model_ext :: (countable) countable
  by (rule countable_classI[of "\<lambda>r. to_nat
     (pm_max_requests r, pm_max_input_tokens r, pm_max_output_tokens r, pm_max_total_tokens r,
      pm_max_cost_usd r, pm_max_wall_seconds r, pm_protected_requests r,
      pm_protected_input_tokens r, pm_protected_output_tokens r, pm_protected_total_tokens r,
      pm_protected_cost_usd r, pm_unknown_usage_policy r, session_budget_policy_model.more r)"])
    (simp add: session_budget_policy_model.equality)

instance exploration_branch_policy_ext :: (countable) countable
  by (rule countable_classI[of "\<lambda>r. to_nat
     (trigger_stagnant_rounds r, bp_max_branches r, exploration_branch_policy.more r)"])
    (simp add: exploration_branch_policy.equality)

instance exploration_budget_policy_ext :: (countable) countable
  by (rule countable_classI[of "\<lambda>r. to_nat
     (llm r, max_successful_tool_calls r, max_tool_calls_by_kind r, max_rows_scanned r,
      max_result_cells r, idle_timeout_seconds r, max_rounds r, branching r,
      exploration_budget_policy.more r)"])
    (simp add: exploration_budget_policy.equality)

instance budget_cap_increase_ext :: (countable) countable
  by (rule countable_classI[of "\<lambda>r. to_nat
     (ci_max_requests r, ci_max_input_tokens r, ci_max_output_tokens r, ci_max_total_tokens r,
      ci_max_cost_usd r, ci_max_wall_seconds r, ci_max_successful_tool_calls r,
      ci_max_tool_calls_by_kind r, ci_max_rows_scanned r, ci_max_result_cells r,
      ci_max_rounds r, budget_cap_increase.more r)"])
    (simp add: budget_cap_increase.equality)

instance insight_family :: countable
  by countable_datatype

instance constraint_reason :: countable
  by countable_datatype

instance branch_constraint_ext :: (countable) countable
  by (rule countable_classI[of "\<lambda>r. to_nat
     (hypothesis_fingerprint r, coverage_key r, bc_family r, bc_reason r, detail_code r,
      branch_constraint.more r)"])
    (simp add: branch_constraint.equality)

instance graceful_reason :: countable
  by countable_datatype

instance stop_reason :: countable
  by countable_datatype

instance gate_verdict_value :: countable
  by countable_datatype

instance round_settlement_ext :: (countable) countable
  by (rule countable_classI[of "\<lambda>r. to_nat
     (rs_round_index r, rs_progress r, rs_frontier_empty r, rs_adjudicated_transitions r,
      rs_supported_transitions r, rs_llm_calls_at_settle r, rs_tool_calls_at_settle r,
      rs_terminal_reason r, rs_terminal_has_reduction r, round_settlement.more r)"])
    (simp add: round_settlement.equality)

instance loop_event :: countable
  by countable_datatype

instance exploration_event_ext :: (countable) countable
  by (rule countable_classI[of "\<lambda>r. to_nat
     (ev_schema_version r, ev_seq r, ev_exploration_id r, ev_attempt_epoch r,
      ev_occurred_at r, ev_body r, exploration_event.more r)"])
    (simp add: exploration_event.equality)

definition numbered_encode :: "exploration_event \<Rightarrow> bytes" where
  "numbered_encode e = tally_encode (to_nat e)"

definition numbered_decode :: "bytes \<Rightarrow> exploration_event option" where
  "numbered_decode l = map_option from_nat (tally_decode l)"

lemma numbered_codec: "line_codec valid numbered_encode numbered_decode"
  using tally_codec by (simp add: line_codec_def numbered_encode_def numbered_decode_def tally_spec_def)

text \<open>The file of a run that was just initialized.\<close>

lemma started_file:
  obtains s where "journal_rebuild (exploration_spec numbered_encode numbered_decode es ds example_hash)
      (append_unlocked (exploration_spec numbered_encode numbered_decode es ds example_hash)
        (at_event 0 (Exploration_Started ''p'' ''c'' ''w'' example_budget))
        \<lparr>jf_log = None, jf_snapshot = None\<rparr>) = Inr (Some s)"
    "ls_attempt_epoch s = 0" "ls_last_seq s = 0" "ls_exploration_id s = ''run''"
    "\<not> isl (reduce_exploration_event example_hash (Some s)
      \<lparr>ev_schema_version = 2, ev_seq = 1, ev_exploration_id = ''run'', ev_attempt_epoch = 1,
       ev_occurred_at = 0, ev_body = Attempt_Started\<rparr>)"
proof -
  let ?sp = "exploration_spec numbered_encode numbered_decode es ds example_hash"
  let ?e = "at_event 0 (Exploration_Started ''p'' ''c'' ''w'' example_budget)"
  have "case reduce_exploration_event example_hash None ?e of Inl _ \<Rightarrow> False | Inr s \<Rightarrow>
      ls_attempt_epoch s = 0 \<and> ls_last_seq s = 0 \<and> ls_exploration_id s = ''run'' \<and>
      \<not> isl (reduce_exploration_event example_hash (Some s)
      \<lparr>ev_schema_version = 2, ev_seq = 1, ev_exploration_id = ''run'', ev_attempt_epoch = 1,
       ev_occurred_at = 0, ev_body = Attempt_Started\<rparr>)"
    by code_simp
  then obtain s where s: "reduce_exploration_event example_hash None ?e = Inr s"
    "ls_attempt_epoch s = 0" "ls_last_seq s = 0" "ls_exploration_id s = ''run''"
    "\<not> isl (reduce_exploration_event example_hash (Some s)
      \<lparr>ev_schema_version = 2, ev_seq = 1, ev_exploration_id = ''run'', ev_attempt_epoch = 1,
       ev_occurred_at = 0, ev_body = Attempt_Started\<rparr>)"
    by (auto split: sum.splits)
  have "journal_rebuild ?sp \<lparr>jf_log = None, jf_snapshot = None\<rparr> = Inr None"
    by (simp add: journal_rebuild_def)
  from rebuild_appended[where valid = event_valid and e = ?e, OF _ _ this] numbered_codec s(1)
    logs_valid(3)
  have "journal_rebuild ?sp (append_unlocked ?sp ?e \<lparr>jf_log = None, jf_snapshot = None\<rparr>) = Inr (Some s)"
    by (simp add: started_log_def)
  with s(2-5) that show thesis by blast
qed

section \<open>Properties\<close>

text \<open>C13. An append is atomic: a crash at any byte of it leaves a journal that reads either as
  before the append or as after it, whatever tail an earlier crash had left.\<close>

theorem append_is_atomic:
  assumes "line_codec valid (js_encode sp) (js_decode sp)" "valid e"
  shows "(journal_events sp (crashed_append sp n e fs) = journal_events sp fs
      \<and> journal_rebuild sp (crashed_append sp n e fs) = journal_rebuild sp fs)
     \<or> (journal_events sp (crashed_append sp n e fs) = journal_events sp (append_unlocked sp e fs)
      \<and> journal_rebuild sp (crashed_append sp n e fs) = journal_rebuild sp (append_unlocked sp e fs))"
  using crash_lines[OF assms, of n fs] by (auto simp: journal_events_bytes journal_rebuild_bytes)

theorem append_is_atomic_witness:
  "let fs = \<lparr>jf_log = Some (''xy'' @ [newline] @ ''xx''), jf_snapshot = None\<rparr> in
     journal_events tally_spec (crashed_append tally_spec 3 2 fs) \<in>
       {journal_events tally_spec fs, journal_events tally_spec (append_unlocked tally_spec 2 fs)}"
  unfolding Let_def using append_is_atomic[OF tally_codec TrueI] by blast

text \<open>C36. What was appended is read back: after a successful append the journal reads as before
  with the event at its end, and rebuilds to the state the append returned.\<close>

theorem append_is_read_back:
  assumes "line_codec valid (js_encode sp) (js_decode sp)" "valid e"
    and "journal_append sp claimed e fs = (Inr t, gs)"
  shows "journal_rebuild sp gs = Inr (Some t)
     \<and> journal_events sp gs = bind_res (journal_events sp fs) (\<lambda>es. Inr (es @ [e]))"
proof -
  obtain st where st: "journal_rebuild sp fs = Inr st" "js_reducer sp st e = Inr t"
    and gs: "gs = append_unlocked sp e fs"
    using assms(3) by (auto simp: journal_append_def commit_event_def split: sum.splits if_splits)
  have "decode_lines sp n [js_encode sp e] = Inr [e]" for n
    using assms(1,2) by (simp add: line_codec_def)
  then have "journal_events sp gs = bind_res (journal_events sp fs) (\<lambda>es. Inr (es @ [e]))"
    unfolding gs journal_events_bytes append_lines[OF assms(1,2)] decode_lines_append by simp
  with rebuild_appended[OF assms(1,2) st(1)] st(2) gs show ?thesis by simp
qed

theorem append_is_read_back_witness:
  "let fs = \<lparr>jf_log = Some (''xy'' @ [newline] @ ''xx''), jf_snapshot = None\<rparr> in
     journal_events tally_spec (snd (journal_append tally_spec None 2 fs)) = Inr [1, 2]"
proof -
  let ?fs = "\<lparr>jf_log = Some (''xy'' @ [newline] @ ''xx''), jf_snapshot = None\<rparr>"
  have "journal_append tally_spec None 2 ?fs =
      (Inr (1, 0), \<lparr>jf_log = Some (''xy'' @ [newline] @ ''xxy'' @ [newline]), jf_snapshot = None\<rparr>)"
    by code_simp
  moreover have "journal_events tally_spec ?fs = Inr [1]" by code_simp
  ultimately show ?thesis
    unfolding Let_def using append_is_read_back[OF tally_codec TrueI] by force
qed

text \<open>C19. A fenced-out executor stays fenced out: once the journal's epoch is past the one a
  handle claimed, then after any further calls of other handles (on events without an infinite
  number of seconds, which the journal can hold), crashes included, its appends are refused as
  stale, change nothing, and it may commit no side effect.\<close>

theorem stale_executor_is_fenced:
  assumes "line_codec event_storable enc dec" "list_all (call_valid event_storable) calls"
    and "sp = exploration_spec enc dec enc_state dec_state h"
    and "journal_rebuild sp fs = Inr (Some s)" and "claimed < ls_attempt_epoch s"
  shows "let gs = foldl (journal_step sp) fs calls in
       journal_append sp (Some claimed) e gs = (Inl Stale_Epoch, gs)
     \<and> journal_append_new sp False given build (Some claimed) gs = (Inl Stale_Epoch, gs)
     \<and> fenced_side_effect sp (Some claimed) gs = Inl Stale_Epoch"
proof -
  have "event_reducer (js_reducer sp) (js_last_seq sp) (js_attempt_epoch sp) claims_epoch"
    using exploration.event_reducer_axioms[of h] assms(3) by simp
  from epoch_of_run[OF _ assms(2) this assms(4)] assms(1,3) obtain t where
    t: "journal_rebuild sp (foldl (journal_step sp) fs calls) = Inr (Some t)"
      "ls_attempt_epoch s \<le> ls_attempt_epoch t"
    by auto
  with assms(3,5) show ?thesis
    by (simp add: Let_def journal_append_def journal_append_new_def fenced_side_effect_def stale_handle_def)
qed

theorem stale_executor_is_fenced_witness:
  "let sp = exploration_spec numbered_encode numbered_decode (\<lambda>_. []) (\<lambda>_. None) example_hash;
       fs = append_unlocked sp (at_event 0 (Exploration_Started ''p'' ''c'' ''w'' example_budget))
         \<lparr>jf_log = None, jf_snapshot = None\<rparr>
   in journal_append sp (Some (-1)) (at_event 1 Paused) fs = (Inl Stale_Epoch, fs)"
proof -
  let ?sp = "exploration_spec numbered_encode numbered_decode (\<lambda>_. []) (\<lambda>_. None) example_hash"
  let ?fs = "append_unlocked ?sp (at_event 0 (Exploration_Started ''p'' ''c'' ''w'' example_budget))
     \<lparr>jf_log = None, jf_snapshot = None\<rparr>"
  obtain s where s: "journal_rebuild ?sp ?fs = Inr (Some s)" "ls_attempt_epoch s = 0"
    by (rule started_file)
  from stale_executor_is_fenced[OF numbered_codec _ refl s(1), of "[]" "-1" "at_event 1 Paused"] s(2)
  show ?thesis by (simp add: Let_def)
qed

text \<open>A claim fences every earlier owner: it moves the epoch up by one, the claiming handle
  may commit side effects, and a handle holding any older epoch may not.\<close>

theorem claim_fences_earlier_owners:
  assumes "line_codec event_storable enc dec"
    and "sp = exploration_spec enc dec enc_state dec_state h"
    and "journal_rebuild sp fs = Inr (Some s)"
    and "journal_claim sp (exploration_event_of now Attempt_Started) claimed fs = (Inr t, claimed', gs)"
    and "older \<le> ls_attempt_epoch s"
  shows "claimed' = Some (ls_attempt_epoch s + 1)
     \<and> fenced_side_effect sp claimed' gs = Inr (ls_attempt_epoch s + 1)
     \<and> fenced_side_effect sp (Some older) gs = Inl Stale_Epoch"
proof -
  define e where "e = \<lparr>ev_schema_version = journal_schema_version, ev_seq = ls_last_seq s + 1,
      ev_exploration_id = ls_exploration_id s, ev_attempt_epoch = ls_attempt_epoch s + 1,
      ev_occurred_at = now, ev_body = Attempt_Started\<rparr>"
  have "journal_append_new sp True None (exploration_event_of now Attempt_Started) claimed fs =
      (Inr t, gs)" and c: "claimed' = Some (ls_attempt_epoch t)"
    using assms(4) by (auto simp: journal_claim_def assms(2) split: prod.splits sum.splits)
  then have red: "reduce_exploration_event h (Some s) e = Inr t" "gs = append_unlocked sp e fs"
    and e_valid: "event_storable e"
    using assms(3) by (auto simp: journal_append_new_def assms(2) event_epoch_def exploration_event_of_def
        e_def Let_def commit_event_def event_storable_def split: if_splits sum.splits)
  have t: "journal_rebuild sp gs = Inr (Some t)"
    using rebuild_appended[where valid = event_storable, OF _ e_valid assms(3)] assms(1,2) red by simp
  have "ls_attempt_epoch t = ls_attempt_epoch s + 1"
    using exploration.next_epoch[OF red(1)] by (simp add: e_def)
  with c t assms(2,5) show ?thesis by (simp add: fenced_side_effect_def)
qed

theorem claim_fences_earlier_owners_witness:
  "let sp = exploration_spec numbered_encode numbered_decode (\<lambda>_. []) (\<lambda>_. None) example_hash;
       fs = append_unlocked sp (at_event 0 (Exploration_Started ''p'' ''c'' ''w'' example_budget))
         \<lparr>jf_log = None, jf_snapshot = None\<rparr>
   in \<exists>t gs. journal_claim sp (exploration_event_of 0 Attempt_Started) None fs = (Inr t, Some 1, gs)
     \<and> fenced_side_effect sp (Some 0) gs = Inl Stale_Epoch"
proof -
  let ?sp = "exploration_spec numbered_encode numbered_decode (\<lambda>_. []) (\<lambda>_. None) example_hash"
  let ?fs = "append_unlocked ?sp (at_event 0 (Exploration_Started ''p'' ''c'' ''w'' example_budget))
     \<lparr>jf_log = None, jf_snapshot = None\<rparr>"
  obtain s where s: "journal_rebuild ?sp ?fs = Inr (Some s)" "ls_attempt_epoch s = 0"
    "ls_last_seq s = 0" "ls_exploration_id s = ''run''"
    "\<not> isl (reduce_exploration_event example_hash (Some s)
      \<lparr>ev_schema_version = 2, ev_seq = 1, ev_exploration_id = ''run'', ev_attempt_epoch = 1,
       ev_occurred_at = 0, ev_body = Attempt_Started\<rparr>)"
    by (rule started_file)
  from s(5) obtain t where t: "reduce_exploration_event example_hash (Some s)
      \<lparr>ev_schema_version = 2, ev_seq = 1, ev_exploration_id = ''run'', ev_attempt_epoch = 1,
       ev_occurred_at = 0, ev_body = Attempt_Started\<rparr> = Inr t"
    by (cases "reduce_exploration_event example_hash (Some s)
      \<lparr>ev_schema_version = 2, ev_seq = 1, ev_exploration_id = ''run'', ev_attempt_epoch = 1,
       ev_occurred_at = 0, ev_body = Attempt_Started\<rparr>") auto
  have "\<exists>gs. journal_claim ?sp (exploration_event_of 0 Attempt_Started) None ?fs =
      (Inr t, Some (ls_attempt_epoch t), gs)"
    using s t by (simp add: journal_claim_def journal_append_new_def exploration_event_of_def Let_def
        event_valid_def event_epoch_def commit_event_def journal_schema_version_def)
  then obtain gs where gs: "journal_claim ?sp (exploration_event_of 0 Attempt_Started) None ?fs =
      (Inr t, Some (ls_attempt_epoch t), gs)" ..
  from claim_fences_earlier_owners[OF numbered_codec refl s(1) gs, of 0] s(2) gs show ?thesis
    by (auto simp: Let_def)
qed

end
