(* ===== verification/ExplorationRecovery.thy ===== *)
theory ExplorationRecovery
  imports EventJournal
begin

text \<open>
  \<open>JsonlExplorationJournal\<close> (\<open>core/exploration_journal.py\<close>): initializing a run, recovering
  it after a crash and amending its budget, over the files of the journal; and rebuilding the
  tool ledger from the recovered state (\<open>core/exploration_budget.py\<close>). The handle's claimed
  epoch and the time are arguments.
\<close>

section \<open>Results recovered from durable storage\<close>

record recovered_tool_commit =
  rt_receipt_id :: string
  rt_result_digest :: string
  rt_rows_scanned :: int
  rt_result_cells :: int

datatype commit_fault = Receipt_Id_Required | Result_Digest_Required | Negative_Usage

definition recovered_tool_commit_init ::
  "string \<Rightarrow> string \<Rightarrow> int \<Rightarrow> int \<Rightarrow> commit_fault + recovered_tool_commit" where
  "recovered_tool_commit_init receipt digest rows cells = guarding
     [(receipt = [], Receipt_Id_Required), (digest = [], Result_Digest_Required),
      (rows < 0 \<or> cells < 0, Negative_Usage)]
     \<lparr>rt_receipt_id = receipt, rt_result_digest = digest, rt_rows_scanned = rows,
      rt_result_cells = cells\<rparr>"

type_synonym spec = "(exploration_event, loop_state, reduce_fault) journal_spec"

datatype recovery_error =
    Journal_Error "reduce_fault journal_error"
  | Policy_Not_Sealed
  | Resume_Incompatible "string list"
  | Body_Receipt_Mismatch
  | Prepared_Without_Digest
  | Body_Digest_Mismatch
  | Slot_Missing

type_synonym outcome = "(recovery_error + loop_state) \<times> journal_files"

definition lift_outcome ::
  "(reduce_fault journal_error + loop_state) \<times> journal_files \<Rightarrow> outcome" where
  "lift_outcome r = ((case fst r of Inl e \<Rightarrow> Inl (Journal_Error e) | Inr s \<Rightarrow> Inr s), snd r)"

text \<open>One event through \<open>append_new\<close>.\<close>

definition append_body ::
  "spec \<Rightarrow> int \<Rightarrow> int option \<Rightarrow> loop_event \<Rightarrow> journal_files \<Rightarrow> outcome" where
  "append_body sp now claimed body fs =
     lift_outcome (journal_append_new sp False None (exploration_event_of now body) claimed fs)"

text \<open>Several, the first failure ends it; \<open>s\<close> is the state returned when there is none.\<close>

fun append_bodies ::
  "spec \<Rightarrow> int \<Rightarrow> int option \<Rightarrow> loop_event list \<Rightarrow> loop_state \<Rightarrow> journal_files \<Rightarrow> outcome" where
  "append_bodies sp now claimed [] s fs = (Inr s, fs)"
| "append_bodies sp now claimed (body # bodies) s fs =
     (case append_body sp now claimed body fs of
        (Inl e, fs') \<Rightarrow> (Inl e, fs')
      | (Inr s', fs') \<Rightarrow> append_bodies sp now claimed bodies s' fs')"

section \<open>Initializing a run\<close>

definition initial_event ::
  "int \<Rightarrow> string \<Rightarrow> exploration_policy \<Rightarrow> string \<Rightarrow> string \<Rightarrow> exploration_event" where
  "initial_event now run p code witness =
     \<lparr>ev_schema_version = journal_schema_version, ev_seq = 0, ev_exploration_id = run,
      ev_attempt_epoch = 0, ev_occurred_at = now,
      ev_body = Exploration_Started (ep_policy_fingerprint p) code witness (ep_budget p)\<rparr>"

definition identity_mismatches ::
  "string \<Rightarrow> exploration_policy \<Rightarrow> string \<Rightarrow> string \<Rightarrow> loop_state \<Rightarrow> string list" where
  "identity_mismatches run p code witness s =
     map fst (filter (\<lambda>(name, same). \<not> same)
       [(''exploration_id'', ls_exploration_id s = run),
        (''policy_fingerprint'', ls_policy_fingerprint s = ep_policy_fingerprint p),
        (''code_fingerprint'', ls_code_fingerprint s = code),
        (''data_state_witness'', ls_data_state_witness s = witness)])"

definition initialize ::
  "spec \<Rightarrow> hash_function \<Rightarrow> int \<Rightarrow> string \<Rightarrow> exploration_policy \<Rightarrow> string \<Rightarrow> string
    \<Rightarrow> journal_files \<Rightarrow> outcome" where
  "initialize sp h now run p code witness fs =
     (if \<not> policy_sealed h p then (Inl Policy_Not_Sealed, fs)
      else if \<not> event_valid (initial_event now run p code witness)
      then (Inl (Journal_Error Invalid_Fields), fs)
      else case journal_rebuild sp fs of
        Inl e \<Rightarrow> (Inl (Journal_Error e), fs)
      | Inr (Some s) \<Rightarrow>
          if identity_mismatches run p code witness s \<noteq> []
          then (Inl (Resume_Incompatible (identity_mismatches run p code witness s)), fs)
          else (Inr s, fs)
      | Inr None \<Rightarrow>
          lift_outcome (commit_event sp None (initial_event now run p code witness) fs))"

section \<open>Crash recovery\<close>

text \<open>A durable response is adopted; otherwise the call is settled as uncertain.\<close>

definition call_settlement ::
  "(string \<Rightarrow> string option) option \<Rightarrow> string \<Rightarrow> loop_state \<Rightarrow> string \<Rightarrow> loop_event" where
  "call_settlement responses err s call =
     (case (map_of (ls_pending_call_steps s) call, responses) of
        (Some bound, Some digest_of) \<Rightarrow>
          (case digest_of bound of
             None \<Rightarrow> Llm_Call_Uncertain call err
           | Some digest \<Rightarrow> if digest = [] then Llm_Call_Uncertain call err
               else Llm_Call_Completed call bound digest)
      | _ \<Rightarrow> Llm_Call_Uncertain call err)"

fun settle_calls ::
  "spec \<Rightarrow> int \<Rightarrow> int option \<Rightarrow> (string \<Rightarrow> string option) option \<Rightarrow> string \<Rightarrow> string list
    \<Rightarrow> loop_state \<Rightarrow> journal_files \<Rightarrow> outcome" where
  "settle_calls sp now claimed responses err [] s fs = (Inr s, fs)"
| "settle_calls sp now claimed responses err (call # calls) s fs =
     (case append_body sp now claimed (call_settlement responses err s call) fs of
        (Inl e, fs') \<Rightarrow> (Inl e, fs')
      | (Inr s', fs') \<Rightarrow> settle_calls sp now claimed responses err calls s' fs')"

definition crash_note :: string where
  "crash_note = ''tool outcome unknown after crash; projected resource usage charged before safe logical rerun.''"

text \<open>The events that settle one pending tool step.\<close>

definition tool_settlement ::
  "(string \<Rightarrow> recovered_tool_commit option) option \<Rightarrow> pending_tool_step \<Rightarrow> string
    \<Rightarrow> recovery_error + loop_event list" where
  "tool_settlement results slot stp =
     (case (case results of None \<Rightarrow> None | Some result_of \<Rightarrow> result_of stp) of
        None \<Rightarrow> Inr [Tool_Call_Failed stp crash_note (ts_projected_rows_scanned slot)
          (ts_projected_result_cells slot)]
      | Some found \<Rightarrow> guarding
          [(ts_prepared_receipt_id slot \<notin> {None, Some (rt_receipt_id found)}, Body_Receipt_Mismatch),
           (ts_prepared_receipt_id slot \<noteq> None \<and> ts_prepared_result_digest slot = None,
              Prepared_Without_Digest),
           (ts_prepared_receipt_id slot \<noteq> None \<and>
              ts_prepared_result_digest slot \<noteq> Some (rt_result_digest found), Body_Digest_Mismatch)]
          ((if ts_prepared_receipt_id slot = None
            then [Receipt_Prepared stp (rt_receipt_id found) (Some (rt_result_digest found))] else []) @
           [Receipt_Committed stp (rt_receipt_id found) (rt_rows_scanned found)
              (rt_result_cells found) (Some (rt_result_digest found))]))"

text \<open>The slot is read from the current state.\<close>

fun settle_tools ::
  "spec \<Rightarrow> int \<Rightarrow> int option \<Rightarrow> (string \<Rightarrow> recovered_tool_commit option) option
    \<Rightarrow> string list \<Rightarrow> loop_state \<Rightarrow> journal_files \<Rightarrow> outcome" where
  "settle_tools sp now claimed results [] s fs = (Inr s, fs)"
| "settle_tools sp now claimed results (stp # rest) s fs =
     (case map_of (ls_pending_tool_steps s) stp of
        None \<Rightarrow> (Inl Slot_Missing, fs)
      | Some slot \<Rightarrow>
          (case tool_settlement results slot stp of
             Inl e \<Rightarrow> (Inl e, fs)
           | Inr bodies \<Rightarrow>
               (case append_bodies sp now claimed bodies s fs of
                  (Inl e, fs') \<Rightarrow> (Inl e, fs')
                | (Inr s', fs') \<Rightarrow> settle_tools sp now claimed results rest s' fs')))"

definition claim_recovery ::
  "spec \<Rightarrow> int \<Rightarrow> int option \<Rightarrow> (string \<Rightarrow> string option) option
    \<Rightarrow> (string \<Rightarrow> recovered_tool_commit option) option \<Rightarrow> bool \<Rightarrow> string
    \<Rightarrow> journal_files \<Rightarrow> (recovery_error + loop_state) \<times> int option \<times> journal_files" where
  "claim_recovery sp now claimed responses results settle_pending_tool err fs =
     (case journal_claim sp (exploration_event_of now Attempt_Started) claimed fs of
        (Inl e, claimed', fs') \<Rightarrow> (Inl (Journal_Error e), claimed', fs')
      | (Inr s, claimed', fs') \<Rightarrow>
          (case settle_calls sp now claimed' responses err (ls_pending_call_ids s) s fs' of
             (Inl e, fs2) \<Rightarrow> (Inl e, claimed', fs2)
           | (Inr s2, fs2) \<Rightarrow>
               if settle_pending_tool then
                 (let (r, fs3) = settle_tools sp now claimed' results (dict_keys (ls_pending_tool_steps s2)) s2 fs2
                  in (r, claimed', fs3))
               else (Inr s2, claimed', fs2)))"

section \<open>Amending the budget\<close>

definition amend_budget ::
  "spec \<Rightarrow> hash_function \<Rightarrow> int \<Rightarrow> int option \<Rightarrow> string \<Rightarrow> budget_cap_increase
    \<Rightarrow> journal_files \<Rightarrow> outcome" where
  "amend_budget sp h now claimed amendment inc fs = (case journal_rebuild sp fs of
     Inl e \<Rightarrow> (Inl (Journal_Error e), fs)
   | Inr None \<Rightarrow> (Inl (Journal_Error Not_Initialized), fs)
   | Inr (Some s) \<Rightarrow> append_body sp now claimed
       (Budget_Amended amendment
         (amended_policy_fingerprint h (ls_effective_policy_fingerprint s) amendment inc) inc) fs)"

section \<open>The ledger of a recovered run\<close>

text \<open>Python dictionaries are equal when they hold the same items, in whatever order.\<close>

definition dict_eq :: "('k, 'v) dict \<Rightarrow> ('k, 'v) dict \<Rightarrow> bool" where
  "dict_eq d e \<longleftrightarrow> set d = set e"

definition caps_match :: "exploration_budget_policy \<Rightarrow> loop_state \<Rightarrow> bool" where
  "caps_match p s \<longleftrightarrow>
     max_successful_tool_calls p = ls_max_successful_tool_calls s \<and>
     dict_eq (max_tool_calls_by_kind p) (ls_max_tool_calls_by_kind s) \<and>
     max_rows_scanned p = ls_max_rows_scanned s \<and>
     max_result_cells p = ls_max_result_cells s"

definition journal_snapshot :: "loop_state \<Rightarrow> ledger_snapshot" where
  "journal_snapshot s =
     [(''successful_tool_calls'', Snap_Value (PyInt (ls_tool_calls_committed s))),
      (''calls_by_kind'', Snap_Mapping (map (\<lambda>(k, n). (PyStr k, PyInt n)) (ls_tool_calls_by_kind s))),
      (''rows_scanned'', Snap_Value (PyInt (ls_rows_scanned s))),
      (''result_cells'', Snap_Value (PyInt (ls_result_cells s)))]"

definition restore_from_journal_state ::
  "exploration_budget_policy \<Rightarrow> loop_state \<Rightarrow> tool_call_ledger guarded" where
  "restore_from_journal_state p s =
     bind_res (raise_if (\<not> caps_match p s)
       (Tool_Value_Error ''effective tool policy does not match the journal amendment chain.'')) (\<lambda>_.
     restore p (journal_snapshot s))"

definition restore_durable_state ::
  "loop_state \<Rightarrow> tool_call_ledger \<Rightarrow> unit guarded \<times> tool_call_ledger" where
  "restore_durable_state s l = (case restore_from_journal_state (tl_policy l) s of
     Inl e \<Rightarrow> (Inl e, l)
   | Inr restored \<Rightarrow> (Inr (), l\<lparr>successful_calls := successful_calls restored,
       calls_by_kind := calls_by_kind restored, tl_rows_scanned := tl_rows_scanned restored,
       tl_result_cells := tl_result_cells restored\<rparr>))"

section \<open>Appending one event\<close>

lemma next_event_storable:
  "identity_ok s \<Longrightarrow> body_valid body \<Longrightarrow> body_storable body \<Longrightarrow> event_storable (next_event now body s)"
  using next_event_valid[of s body now] by (simp add: event_storable_def next_event_def)

text \<open>On a journal that rebuilds, for a handle that is not stale, \<open>append_new\<close> is the reducer
  on the next event.\<close>

lemma append_body_reduces:
  assumes "sp = exploration_spec enc dec es ds h" "line_codec event_storable enc dec"
    and "journal_rebuild sp fs = Inr (Some s)" "claimed \<in> {None, Some (ls_attempt_epoch s)}"
    and "identity_ok s" "body_valid body" "body \<noteq> Attempt_Started"
  shows "append_body sp now claimed body fs =
    (case reduce_exploration_event h (Some s) (next_event now body s) of
       Inl x \<Rightarrow> (Inl (Journal_Error (Rejected x)), fs)
     | Inr t \<Rightarrow> (Inr t, append_unlocked sp (next_event now body s) fs))"
proof -
  have "exploration_event_of now body (ls_last_seq s + 1) (ls_attempt_epoch s) s =
      Some (next_event now body s)"
    using next_event_valid[OF assms(5,6), of now] assms(7)
    by (simp add: exploration_event_of_def next_event_def expected_epoch_def Let_def)
  moreover have "event_epoch False None claimed (ls_attempt_epoch s) = ls_attempt_epoch s"
    "\<not> stale_handle claimed (ls_attempt_epoch s)"
    using assms(4) by (auto simp: event_epoch_def stale_handle_def)
  ultimately show ?thesis
    using assms(1,3)
    by (simp add: append_body_def journal_append_new_def commit_event_def lift_outcome_def
        split: sum.split)
qed

lemma append_accepted:
  assumes "sp = exploration_spec enc dec es ds h" "line_codec event_storable enc dec"
    and "journal_rebuild sp fs = Inr (Some s)" "claimed \<in> {None, Some (ls_attempt_epoch s)}"
    and "journal_inv s" "body_valid body" "body \<noteq> Attempt_Started"
    and "reduce_exploration_event h (Some s) (next_event now body s) = Inr t" "body_storable body"
  obtains gs where "append_body sp now claimed body fs = (Inr t, gs)"
    "journal_rebuild sp gs = Inr (Some t)" "ls_attempt_epoch t = ls_attempt_epoch s" "journal_inv t"
proof -
  note ident = journal_inv_groups(1)[OF assms(5)]
  let ?gs = "append_unlocked sp (next_event now body s) fs"
  have "append_body sp now claimed body fs = (Inr t, ?gs)"
    using append_body_reduces[OF assms(1-4) ident assms(6,7), of now] assms(8) by simp
  moreover have "journal_rebuild sp ?gs = Inr (Some t)"
    using rebuild_appended[where valid = event_storable, OF _ next_event_storable[OF ident assms(6,9), of now] assms(3)] assms(1,2,8) by simp
  moreover have "ls_attempt_epoch t = ls_attempt_epoch s"
    using exploration.next_epoch[OF assms(8)] assms(7) by (cases body) (auto simp: next_event_def)
  moreover have "journal_inv t"
    using reduce_step_inv[OF assms(8) next_event_valid[OF ident assms(6)] assms(5)] .
  ultimately show thesis by (rule that)
qed

section \<open>Reachable states\<close>

text \<open>A state some log of valid events rebuilds.\<close>

definition reachable_state :: "hash_function \<Rightarrow> loop_state \<Rightarrow> bool" where
  "reachable_state h s \<longleftrightarrow>
     (\<exists>es. (\<forall>e \<in> set es. event_valid e) \<and> rebuild_exploration_state h es = Inr (Some s))"

text \<open>The ids of pending work are not empty.\<close>

definition ids_named :: "loop_state \<Rightarrow> bool" where
  "ids_named s \<longleftrightarrow> [] \<notin> set (ls_pending_call_ids s) \<and> [] \<notin> fst ` set (ls_pending_tool_steps s)"

lemma pending_origin:
  assumes "apply_body h ep b s = Inr t" "body_valid b"
  shows "set (ls_pending_call_ids t) - set (ls_pending_call_ids s) \<subseteq> {c. c \<noteq> []} \<and>
    fst ` set (ls_pending_tool_steps t) - fst ` set (ls_pending_tool_steps s) \<subseteq> {c. c \<noteq> []}"
proof (cases "new_work b")
  case False
  have "set (ls_pending_call_ids t) \<subseteq> set (ls_pending_call_ids s)"
    using assms(1) False by (cases b, simp_all add: arm_simps write_simps, auto)
  with no_new_tool_step[OF assms(1) False] show ?thesis by blast
next
  case True
  consider c st where "b = Llm_Call_Started c st" | st fp k n r c where "b = Tool_Call_Started st fp k n r c"
    | "\<And>c st. b \<noteq> Llm_Call_Started c st" "\<And>st fp k n r c. b \<noteq> Tool_Call_Started st fp k n r c"
    by blast
  then show ?thesis
  proof cases
    case (1 c st)
    with assms show ?thesis by (auto simp: on_llm_call_started_def guarding_Inr_iff)
  next
    case (2 st fp k n r c)
    with assms show ?thesis by (auto simp: on_tool_call_started_def guarding_Inr_iff)
  next
    case 3
    then have "ls_pending_call_ids t = ls_pending_call_ids s"
      using True by (intro calls_frame(6)[OF assms(1)]) auto
    moreover have "ls_pending_tool_steps t = ls_pending_tool_steps s"
      using True 3 by (intro tools_frame(7)[OF assms(1)]) auto
    ultimately show ?thesis by simp
  qed
qed

lemma ids_named_step:
  assumes "reduce_exploration_event h (Some s) e = Inr t" "event_valid e" "ids_named s"
  shows "ids_named t"
  using pending_origin[OF reduce_applies(1)[OF assms(1)]] assms(2,3)
  by (auto simp: event_valid_def ids_named_def)

lemma reachable_inv:
  assumes "reachable_state h s"
  shows "journal_inv s" "ids_named s"
proof -
  obtain es where es: "\<forall>e \<in> set es. event_valid e" "rebuild_exploration_state h es = Inr (Some s)"
    using assms by (auto simp: reachable_state_def)
  show "journal_inv s" by (rule rebuild_inv[OF es(2,1)])
  obtain e fs p c w b where r: "es = e # fs" "ev_body e = Exploration_Started p c w b"
    by (rule rebuild_starts[OF es(2)])
  obtain u where u: "reduce_exploration_event h None e = Inr u" "rebuild_from h (Some u) fs = Inr (Some s)"
    using es(2) r(1) by (auto simp: rebuild_exploration_state_def bind_res_Inr_iff)
  have "u = initial_state e p c w b"
    using u(1) by (simp add: reduce_exploration_event_def start_exploration_def r(2) validated_Inr
        split: if_splits)
  then have named: "ids_named u" by (simp add: ids_named_def initial_state_def)
  have "journal_inv u" using es(1) r(1) u(1) by (intro reduce_inv[OF u(1)]) auto
  show "ids_named s"
  proof (rule run_from_inv[OF u(2)])
    show "\<forall>e \<in> set fs. event_valid e" using es(1) r(1) by simp
  qed (simp_all add: \<open>journal_inv u\<close> named ids_named_step)
qed

lemma reachable_step:
  assumes "reachable_state h s" "event_valid e" "reduce_exploration_event h (Some s) e = Inr t"
  shows "reachable_state h t"
proof -
  obtain es where es: "\<forall>e \<in> set es. event_valid e" "rebuild_exploration_state h es = Inr (Some s)"
    using assms(1) by (auto simp: reachable_state_def)
  have "rebuild_exploration_state h (es @ [e]) = Inr (Some t)"
    using es(2) assms(3) by (simp add: rebuild_exploration_state_def rebuild_from_append)
  with es(1) assms(2) show ?thesis
    unfolding reachable_state_def by (intro exI[of _ "es @ [e]"]) auto
qed

section \<open>What a successful append did\<close>

lemma append_body_Inr:
  assumes "sp = exploration_spec enc dec es ds h" "line_codec event_storable enc dec"
    and "journal_rebuild sp fs = Inr (Some s)"
    and "append_body sp now claimed body fs = (Inr t, gs)" "body_storable body"
  obtains e where "ev_body e = body" "event_valid e" "reduce_exploration_event h (Some s) e = Inr t"
    "journal_rebuild sp gs = Inr (Some t)"
proof -
  obtain e where e: "exploration_event_of now body (ls_last_seq s + 1)
        (event_epoch False None claimed (ls_attempt_epoch s)) s = Some e"
    "reduce_exploration_event h (Some s) e = Inr t" "gs = append_unlocked sp e fs"
    using assms(1,3,4)
    by (auto simp: append_body_def journal_append_new_def lift_outcome_def commit_event_def
        split: sum.splits if_splits option.splits prod.splits)
  have valid: "ev_body e = body" "event_valid e"
    using e(1) by (auto simp: exploration_event_of_def Let_def split: if_splits)
  moreover have "journal_rebuild sp gs = Inr (Some t)"
    using rebuild_appended[where valid = event_storable, OF _ _ assms(3), of e] assms(1,2,5) e(2,3) valid
    by (simp add: event_storable_def)
  ultimately show thesis using e(2) by (rule_tac that) auto
qed

lemma call_settlement_drops:
  assumes "reduce_exploration_event h (Some s) e = Inr t"
    and "ev_body e = call_settlement responses err s0 call"
  shows "ls_pending_call_ids t = filter (\<lambda>c. c \<noteq> call) (ls_pending_call_ids s)"
    "ls_pending_tool_steps t = ls_pending_tool_steps s"
proof -
  have "(\<exists>st d. ev_body e = Llm_Call_Completed call st d) \<or> (\<exists>x. ev_body e = Llm_Call_Uncertain call x)"
    using assms(2) by (auto simp: call_settlement_def split: option.splits if_splits)
  with reduce_applies(1)[OF assms(1)]
  show "ls_pending_call_ids t = filter (\<lambda>c. c \<noteq> call) (ls_pending_call_ids s)"
    "ls_pending_tool_steps t = ls_pending_tool_steps s"
    by (auto simp: on_llm_call_completed_Inr on_llm_call_uncertain_def settle_pending_call_def
        bind_res_Inr_iff guarding_Inr_iff spend_llm_call_def drop_pending_call_def)
qed

lemma refs_final_step:
  assumes "reduce_exploration_event h (Some s) e = Inr t" "reachable_state h s"
    "map_of (ls_step_receipt_refs s) k = Some v"
  shows "map_of (ls_step_receipt_refs t) k = Some v"
  using receipt_final_frame[OF reduce_applies(1)[OF assms(1)]] reachable_inv(1)[OF assms(2)] assms(3)
  by (simp add: journal_inv_def receipt_inv_def)

definition refs_extend :: "loop_state \<Rightarrow> loop_state \<Rightarrow> bool" where
  "refs_extend s t \<longleftrightarrow> (\<forall>k v. map_of (ls_step_receipt_refs s) k = Some v \<longrightarrow>
     map_of (ls_step_receipt_refs t) k = Some v)"

lemma epoch_step:
  assumes "reduce_exploration_event h (Some s) e = Inr t" "ev_body e \<noteq> Attempt_Started"
  shows "ls_attempt_epoch t = ls_attempt_epoch s"
  using exploration.next_epoch[OF assms(1)] assms(2) by (cases "ev_body e") auto

lemma call_settlement_storable [simp]: "body_storable (call_settlement responses err s call)"
  by (simp add: call_settlement_def split: option.splits)

lemma call_settlement_keeps_attempt: "call_settlement responses err s call \<noteq> Attempt_Started"
  by (simp add: call_settlement_def split: option.splits)

lemma settle_calls_drain:
  assumes "sp = exploration_spec enc dec es ds h" "line_codec event_storable enc dec"
    and "journal_rebuild sp fs = Inr (Some s)" "reachable_state h s"
    and "settle_calls sp now claimed responses err calls s fs = (Inr t, gs)"
    and "set (ls_pending_call_ids s) \<subseteq> set calls"
  shows "ls_pending_call_ids t = [] \<and> ls_pending_tool_steps t = ls_pending_tool_steps s \<and>
    journal_rebuild sp gs = Inr (Some t) \<and> reachable_state h t \<and> refs_extend s t \<and>
    ls_attempt_epoch t = ls_attempt_epoch s"
  using assms(3-6)
proof (induction calls arbitrary: s fs)
  case (Cons call calls)
  from Cons.prems(3) obtain u us where u: "append_body sp now claimed (call_settlement responses err s call) fs = (Inr u, us)"
    "settle_calls sp now claimed responses err calls u us = (Inr t, gs)"
    by (auto split: prod.splits sum.splits)
  obtain e where e: "ev_body e = call_settlement responses err s call" "event_valid e"
    "reduce_exploration_event h (Some s) e = Inr u" "journal_rebuild sp us = Inr (Some u)"
    by (rule append_body_Inr[OF assms(1,2) Cons.prems(1) u(1) call_settlement_storable])
  note drop = call_settlement_drops[OF e(3,1)]
  have "set (ls_pending_call_ids u) \<subseteq> set calls" using drop(1) Cons.prems(4) by auto
  from Cons.IH[OF e(4) reachable_step[OF Cons.prems(2) e(2,3)] u(2) this] drop(2)
    refs_final_step[OF e(3) Cons.prems(2)] epoch_step[OF e(3)] call_settlement_keeps_attempt
  show ?case by (simp add: refs_extend_def e(1))
qed (simp add: refs_extend_def)

lemma append_bodies_two:
  "append_bodies sp now claimed [b1, b2] s fs = (Inr t, gs) \<longleftrightarrow>
     (\<exists>u us. append_body sp now claimed b1 fs = (Inr u, us) \<and> append_body sp now claimed b2 us = (Inr t, gs))"
  by (auto split: prod.splits sum.splits)

lemma append_bodies_one:
  "append_bodies sp now claimed [b1] s fs = (Inr t, gs) \<longleftrightarrow> append_body sp now claimed b1 fs = (Inr t, gs)"
  by (auto split: prod.splits sum.splits)

text \<open>Settling one tool step removes its slot and, when a durable body was found, commits the
  step with that body's receipt.\<close>

lemma failed_step_drops:
  assumes "reduce_exploration_event h (Some s) e = Inr t" "ev_body e = Tool_Call_Failed stp err rows cells"
  shows "ls_pending_tool_steps t = dict_del stp (ls_pending_tool_steps s)"
    "ls_pending_call_ids t = ls_pending_call_ids s"
  using reduce_applies(1)[OF assms(1)] assms(2)
  by (auto simp: on_tool_call_failed_def guarding_Inr_iff remove_tool_slot_def)

lemma committed_step_drops:
  assumes "reduce_exploration_event h (Some s) e = Inr t" "ev_body e = Receipt_Committed stp r rows cells d"
  shows "ls_pending_tool_steps t = dict_del stp (ls_pending_tool_steps s)"
    "ls_pending_call_ids t = ls_pending_call_ids s"
    "map_of (ls_step_receipt_refs t) stp = Some r"
  using reduce_applies(1)[OF assms(1)] assms(2)
  by (auto simp: on_receipt_committed_Inr commit_receipt_def remove_tool_slot_def)

lemma prepared_step_keeps:
  assumes "reduce_exploration_event h (Some s) e = Inr t" "ev_body e = Receipt_Prepared stp r d"
  shows "dict_del stp (ls_pending_tool_steps t) = dict_del stp (ls_pending_tool_steps s)"
    "ls_pending_call_ids t = ls_pending_call_ids s"
  using reduce_applies(1)[OF assms(1)] assms(2)
  by (auto simp: on_receipt_prepared_Inr prepare_slot_def delete_update_same)

definition found_body ::
  "(string \<Rightarrow> recovered_tool_commit option) option \<Rightarrow> string \<Rightarrow> recovered_tool_commit option" where
  "found_body results stp = (case results of None \<Rightarrow> None | Some result_of \<Rightarrow> result_of stp)"

lemma settle_one_tool:
  assumes "sp = exploration_spec enc dec es ds h" "line_codec event_storable enc dec"
    and "journal_rebuild sp fs = Inr (Some s)" "reachable_state h s"
    and "tool_settlement results slot stp = Inr bodies"
    and "append_bodies sp now claimed bodies s fs = (Inr t, gs)"
  shows "ls_pending_tool_steps t = dict_del stp (ls_pending_tool_steps s) \<and>
    ls_pending_call_ids t = ls_pending_call_ids s \<and> journal_rebuild sp gs = Inr (Some t) \<and>
    reachable_state h t \<and> refs_extend s t \<and> ls_attempt_epoch t = ls_attempt_epoch s \<and>
    (\<forall>found. found_body results stp = Some found \<longrightarrow>
       map_of (ls_step_receipt_refs t) stp = Some (rt_receipt_id found))"
proof (cases "found_body results stp")
  case None
  then have b: "bodies = [Tool_Call_Failed stp crash_note (ts_projected_rows_scanned slot)
          (ts_projected_result_cells slot)]"
    using assms(5) by (simp add: tool_settlement_def found_body_def)
  obtain e where e: "ev_body e = Tool_Call_Failed stp crash_note (ts_projected_rows_scanned slot)
          (ts_projected_result_cells slot)" "event_valid e"
    "reduce_exploration_event h (Some s) e = Inr t" "journal_rebuild sp gs = Inr (Some t)"
    using assms(6) unfolding b append_bodies_one by (rule append_body_Inr[OF assms(1-3)]) simp
  from failed_step_drops[OF e(3,1)] e(4) reachable_step[OF assms(4) e(2,3)] None
    refs_final_step[OF e(3) assms(4)] epoch_step[OF e(3)] e(1)
  show ?thesis by (simp add: refs_extend_def)
next
  case (Some found)
  let ?c = "Receipt_Committed stp (rt_receipt_id found) (rt_rows_scanned found)
              (rt_result_cells found) (Some (rt_result_digest found))"
  have "bodies = [?c] \<or> bodies =
      [Receipt_Prepared stp (rt_receipt_id found) (Some (rt_result_digest found)), ?c]"
    using assms(5) Some by (auto simp: tool_settlement_def found_body_def guarding_Inr_iff)
  then show ?thesis
  proof
    assume b: "bodies = [?c]"
    obtain e where e: "ev_body e = ?c" "event_valid e"
      "reduce_exploration_event h (Some s) e = Inr t" "journal_rebuild sp gs = Inr (Some t)"
      using assms(6) unfolding b append_bodies_one by (rule append_body_Inr[OF assms(1-3)]) simp
    from committed_step_drops[OF e(3,1)] e(4) reachable_step[OF assms(4) e(2,3)] Some
      refs_final_step[OF e(3) assms(4)] epoch_step[OF e(3)] e(1)
    show ?thesis by (simp add: refs_extend_def)
  next
    assume b: "bodies = [Receipt_Prepared stp (rt_receipt_id found) (Some (rt_result_digest found)), ?c]"
    obtain u us where u: "append_body sp now claimed
        (Receipt_Prepared stp (rt_receipt_id found) (Some (rt_result_digest found))) fs = (Inr u, us)"
      "append_body sp now claimed ?c us = (Inr t, gs)"
      using assms(6) unfolding b append_bodies_two by blast
    obtain d where d: "ev_body d = Receipt_Prepared stp (rt_receipt_id found) (Some (rt_result_digest found))"
      "event_valid d" "reduce_exploration_event h (Some s) d = Inr u" "journal_rebuild sp us = Inr (Some u)"
      by (rule append_body_Inr[OF assms(1-3) u(1)]) simp
    obtain e where e: "ev_body e = ?c" "event_valid e"
      "reduce_exploration_event h (Some u) e = Inr t" "journal_rebuild sp gs = Inr (Some t)"
      by (rule append_body_Inr[OF assms(1,2) d(4) u(2)]) simp
    note ru = reachable_step[OF assms(4) d(2,3)]
    from committed_step_drops[OF e(3,1)] prepared_step_keeps[OF d(3,1)] e(4)
      reachable_step[OF ru e(2,3)] Some refs_final_step[OF d(3) assms(4)] refs_final_step[OF e(3) ru]
      epoch_step[OF d(3)] epoch_step[OF e(3)] d(1) e(1)
    show ?thesis by (simp add: refs_extend_def)
  qed
qed

lemma settle_tools_drain:
  assumes "sp = exploration_spec enc dec es ds h" "line_codec event_storable enc dec"
    and "journal_rebuild sp fs = Inr (Some s)" "reachable_state h s"
    and "settle_tools sp now claimed results stps s fs = (Inr t, gs)"
    and "set (dict_keys (ls_pending_tool_steps s)) \<subseteq> set stps"
  shows "ls_pending_tool_steps t = [] \<and> ls_pending_call_ids t = ls_pending_call_ids s \<and>
    journal_rebuild sp gs = Inr (Some t) \<and> reachable_state h t \<and> refs_extend s t \<and>
    ls_attempt_epoch t = ls_attempt_epoch s \<and>
    (\<forall>stp \<in> set stps. \<forall>found. found_body results stp = Some found \<longrightarrow>
       map_of (ls_step_receipt_refs t) stp = Some (rt_receipt_id found))"
  using assms(3-6)
proof (induction stps arbitrary: s fs)
  case Nil
  then show ?case by (auto simp: refs_extend_def)
next
  case (Cons stp stps)
  from Cons.prems(3) obtain slot bodies u us where u: "tool_settlement results slot stp = Inr bodies"
    "append_bodies sp now claimed bodies s fs = (Inr u, us)"
    "settle_tools sp now claimed results stps u us = (Inr t, gs)"
    by (auto split: prod.splits sum.splits option.splits)
  note one = settle_one_tool[OF assms(1,2) Cons.prems(1,2) u(1,2)]
  have "set (dict_keys (ls_pending_tool_steps u)) \<subseteq> set stps"
    using one Cons.prems(4) by auto
  with Cons.IH[of us u] one u(3) show ?case by (auto simp: refs_extend_def)
qed

section \<open>Recovery with nothing durable to adopt\<close>

text \<open>Each settling event is accepted, and says what it charges.\<close>

lemma attempt_accepted:
  assumes "journal_inv s" "ls_status s \<noteq> Status_Stopped"
  shows "reduce_exploration_event h (Some s) (next_event now Attempt_Started s) =
    Inr (s\<lparr>ls_last_seq := ls_last_seq s + 1, ls_attempt_epoch := ls_attempt_epoch s + 1\<rparr>)"
proof -
  have "soft_ok (s\<lparr>ls_last_seq := ls_last_seq s + 1, ls_attempt_epoch := ls_attempt_epoch s + 1\<rparr>)"
    using journal_inv_groups(7)[OF assms(1)] by (simp add: soft_ok_def)
  then show ?thesis
    using assms by (intro next_accepted) (simp_all add: expected_epoch_def)
qed

definition after_lost_call :: "string \<Rightarrow> string \<Rightarrow> loop_state \<Rightarrow> loop_state" where
  "after_lost_call call err s = spend_llm_call
     ((drop_pending_call call s)\<lparr>ls_last_seq := ls_last_seq s + 1,
        ls_llm_calls_uncertain := ls_llm_calls_uncertain s + 1,
        ls_uncertain_call_ids := ls_uncertain_call_ids s @ [call],
        ls_failure_history := ls_failure_history s @ [err]\<rparr>)"

lemma lost_call_accepted:
  assumes "journal_inv s" "call \<in> set (ls_pending_call_ids s)" "call \<notin> set (ls_uncertain_call_ids s)"
    "call \<noteq> []" "err \<noteq> []"
  shows "reduce_exploration_event h (Some s) (next_event now (Llm_Call_Uncertain call err) s) =
    Inr (after_lost_call call err s)"
proof -
  note g = journal_inv_groups[OF assms(1)]
  have "ls_status s \<noteq> Status_Stopped" using g(12) assms(2) by (auto simp: quiet_inv_def)
  moreover have "soft_ok (after_lost_call call err s)"
    using g(7) assms(3) by (simp add: soft_ok_def after_lost_call_def spend_llm_call_def drop_pending_call_def)
  ultimately show ?thesis
    using assms by (intro next_accepted)
      (simp_all add: on_llm_call_uncertain_def settle_pending_call_def guarding.simps
        after_lost_call_def spend_llm_call_def drop_pending_call_def)
qed

definition after_lost_tool :: "string \<Rightarrow> string \<Rightarrow> int \<Rightarrow> int \<Rightarrow> loop_state \<Rightarrow> loop_state" where
  "after_lost_tool stp err rows cells s = remove_tool_slot stp
     (s\<lparr>ls_last_seq := ls_last_seq s + 1, ls_rows_scanned := ls_rows_scanned s + rows,
        ls_result_cells := ls_result_cells s + cells,
        ls_failure_history := ls_failure_history s @ [err]\<rparr>)"

lemma lost_tool_accepted:
  assumes "journal_inv s" "stp \<in> set (dict_keys (ls_pending_tool_steps s))"
    "body_valid (Tool_Call_Failed stp err rows cells)"
  shows "reduce_exploration_event h (Some s) (next_event now (Tool_Call_Failed stp err rows cells) s) =
    Inr (after_lost_tool stp err rows cells s)"
proof -
  note g = journal_inv_groups[OF assms(1)]
  have "ls_status s \<noteq> Status_Stopped" using g(12) assms(2) by (auto simp: quiet_inv_def)
  moreover have "soft_ok (after_lost_tool stp err rows cells s)"
    using g(7) by (auto simp: soft_ok_def after_lost_tool_def remove_tool_slot_def)
  ultimately show ?thesis
    using assms by (intro next_accepted)
      (simp_all add: on_tool_call_failed_def guarding.simps after_lost_tool_def remove_tool_slot_def)
qed

text \<open>What stays the same, and what is charged, while the calls and then the tool steps are
  settled.\<close>

definition projected :: "(pending_tool_step \<Rightarrow> int) \<Rightarrow> loop_state \<Rightarrow> int" where
  "projected f s = dict_sum f (ls_pending_tool_steps s)"

definition calls_lost :: "loop_state \<Rightarrow> string list \<Rightarrow> loop_state \<Rightarrow> bool" where
  "calls_lost s calls t \<longleftrightarrow> ls_pending_call_ids t = [] \<and>
     ls_uncertain_call_ids t = ls_uncertain_call_ids s @ calls \<and>
     ls_pending_tool_steps t = ls_pending_tool_steps s \<and>
     ls_rows_scanned t = ls_rows_scanned s \<and> ls_result_cells t = ls_result_cells s \<and>
     ls_completed_step_ids t = ls_completed_step_ids s \<and> ls_attempt_epoch t = ls_attempt_epoch s"

definition tools_lost :: "loop_state \<Rightarrow> loop_state \<Rightarrow> bool" where
  "tools_lost s t \<longleftrightarrow> ls_pending_tool_steps t = [] \<and>
     ls_pending_call_ids t = ls_pending_call_ids s \<and>
     ls_uncertain_call_ids t = ls_uncertain_call_ids s \<and>
     ls_rows_scanned t = ls_rows_scanned s + projected ts_projected_rows_scanned s \<and>
     ls_result_cells t = ls_result_cells s + projected ts_projected_result_cells s \<and>
     ls_completed_step_ids t = ls_completed_step_ids s"

lemma settle_calls_lost:
  assumes "sp = exploration_spec enc dec es ds h" "line_codec event_storable enc dec" "err \<noteq> []"
    and "journal_rebuild sp fs = Inr (Some s)" "claimed \<in> {None, Some (ls_attempt_epoch s)}"
    and "journal_inv s" "ids_named s"
    and "set (ls_pending_call_ids s) \<inter> set (ls_uncertain_call_ids s) = {}"
    and "ls_pending_call_ids s = calls"
  shows "\<exists>t gs. settle_calls sp now claimed None err calls s fs = (Inr t, gs) \<and>
    journal_rebuild sp gs = Inr (Some t) \<and> calls_lost s calls t \<and> journal_inv t \<and> ids_named t"
  using assms(4-9)
proof (induction calls arbitrary: s fs)
  case Nil
  then show ?case by (simp add: calls_lost_def)
next
  case (Cons call calls)
  let ?u = "after_lost_call call err s"
  note valid = journal_inv_groups[OF Cons.prems(3)]
  have dist: "distinct (call # calls)" using valid(4) Cons.prems(6) by (simp add: calls_ok_def)
  have named: "call \<noteq> []" using Cons.prems(4,6) by (auto simp: ids_named_def)
  have "reduce_exploration_event h (Some s) (next_event now (Llm_Call_Uncertain call err) s) = Inr ?u"
    using Cons.prems named assms(3) by (intro lost_call_accepted) auto
  from append_accepted[OF assms(1,2) Cons.prems(1-3) _ _ this] named assms(3)
  obtain us where u: "append_body sp now claimed (Llm_Call_Uncertain call err) fs = (Inr ?u, us)"
    "journal_rebuild sp us = Inr (Some ?u)" "ls_attempt_epoch ?u = ls_attempt_epoch s" "journal_inv ?u"
    by auto
  have eqs: "ls_pending_call_ids ?u = calls" "ls_uncertain_call_ids ?u = ls_uncertain_call_ids s @ [call]"
    "ls_pending_tool_steps ?u = ls_pending_tool_steps s" "ls_rows_scanned ?u = ls_rows_scanned s"
    "ls_result_cells ?u = ls_result_cells s" "ls_completed_step_ids ?u = ls_completed_step_ids s"
    using Cons.prems(6) dist
    by (auto simp: after_lost_call_def spend_llm_call_def drop_pending_call_def filter_id_conv)
  have "ids_named ?u" using Cons.prems(4,6) eqs by (auto simp: ids_named_def)
  moreover have "set (ls_pending_call_ids ?u) \<inter> set (ls_uncertain_call_ids ?u) = {}"
    using Cons.prems(5,6) dist eqs by auto
  moreover have "claimed \<in> {None, Some (ls_attempt_epoch ?u)}"
    unfolding u(3) by (rule Cons.prems(2))
  ultimately obtain t gs where t: "settle_calls sp now claimed None err calls ?u us = (Inr t, gs)"
    "journal_rebuild sp gs = Inr (Some t)" "calls_lost ?u calls t" "journal_inv t" "ids_named t"
    using Cons.IH[OF u(2) _ u(4) _ _ eqs(1)] by blast
  have "settle_calls sp now claimed None err (call # calls) s fs = (Inr t, gs)"
    using u(1) t(1) by (simp add: call_settlement_def split: option.split)
  moreover have "calls_lost s (call # calls) t"
    using t(3) unfolding calls_lost_def eqs u(3) by simp
  ultimately show ?case using t(2,4,5) by blast
qed

lemma settle_tools_lost:
  assumes "sp = exploration_spec enc dec es ds h" "line_codec event_storable enc dec"
    and "journal_rebuild sp fs = Inr (Some s)" "claimed \<in> {None, Some (ls_attempt_epoch s)}"
    and "journal_inv s" "ids_named s" "dict_keys (ls_pending_tool_steps s) = stps"
  shows "\<exists>t gs. settle_tools sp now claimed None stps s fs = (Inr t, gs) \<and>
    journal_rebuild sp gs = Inr (Some t) \<and> tools_lost s t"
  using assms(3-7)
proof (induction stps arbitrary: s fs)
  case Nil
  then show ?case by (simp add: projected_def tools_lost_def)
next
  case (Cons stp stps)
  obtain slot rest where slots: "ls_pending_tool_steps s = (stp, slot) # rest" "dict_keys rest = stps"
    using Cons.prems(5) by (cases "ls_pending_tool_steps s") auto
  let ?rows = "ts_projected_rows_scanned slot" and ?cells = "ts_projected_result_cells slot"
  let ?u = "after_lost_tool stp crash_note ?rows ?cells s"
  note valid = journal_inv_groups[OF Cons.prems(3)]
  have dist: "distinct (stp # stps)"
    using valid(10) slots by (simp add: dicts_wf_def)
  then have "stp \<notin> fst ` set rest" using slots(2) by force
  then have del: "dict_del stp rest = rest" by simp
  have "pending_tool_step_valid slot" using valid(3) slots(1) by (simp add: tools_ok_def)
  then have body: "body_valid (Tool_Call_Failed stp crash_note ?rows ?cells)"
    using Cons.prems(4) slots(1)
    by (auto simp: ids_named_def pending_tool_step_valid_def crash_note_def)
  have "reduce_exploration_event h (Some s)
      (next_event now (Tool_Call_Failed stp crash_note ?rows ?cells) s) = Inr ?u"
    using Cons.prems(3) body slots(1) by (intro lost_tool_accepted) auto
  from append_accepted[OF assms(1,2) Cons.prems(1-3) body _ this]
  obtain us where u: "append_body sp now claimed (Tool_Call_Failed stp crash_note ?rows ?cells) fs = (Inr ?u, us)"
    "journal_rebuild sp us = Inr (Some ?u)" "ls_attempt_epoch ?u = ls_attempt_epoch s" "journal_inv ?u"
    by auto
  have eqs: "ls_pending_tool_steps ?u = rest" "ls_pending_call_ids ?u = ls_pending_call_ids s"
    "ls_uncertain_call_ids ?u = ls_uncertain_call_ids s" "ls_rows_scanned ?u = ls_rows_scanned s + ?rows"
    "ls_result_cells ?u = ls_result_cells s + ?cells" "ls_completed_step_ids ?u = ls_completed_step_ids s"
    using slots del by (simp_all add: after_lost_tool_def remove_tool_slot_def)
  have "ids_named ?u" using Cons.prems(4) slots eqs by (auto simp: ids_named_def)
  moreover have "claimed \<in> {None, Some (ls_attempt_epoch ?u)}"
    unfolding u(3) by (rule Cons.prems(2))
  moreover have "dict_keys (ls_pending_tool_steps ?u) = stps" unfolding eqs by (rule slots(2))
  ultimately obtain t gs where t: "settle_tools sp now claimed None stps ?u us = (Inr t, gs)"
    "journal_rebuild sp gs = Inr (Some t)" "tools_lost ?u t"
    using Cons.IH[OF u(2) _ u(4)] by blast
  have "settle_tools sp now claimed None (stp # stps) s fs = (Inr t, gs)"
    using t(1) u(1) slots(1) by (simp add: tool_settlement_def)
  moreover have "tools_lost s t"
    using t(3) slots(1) unfolding tools_lost_def eqs projected_def by simp
  ultimately show ?case using t(2) by blast
qed

section \<open>Claiming\<close>

lemma claim_state:
  assumes "sp = exploration_spec enc dec es ds h" "line_codec event_storable enc dec"
    and "journal_rebuild sp fs = Inr (Some s)" "reachable_state h s"
    and "journal_claim sp (exploration_event_of now Attempt_Started) claimed fs = (Inr t, claimed', gs)"
  shows "reachable_state h t \<and> journal_rebuild sp gs = Inr (Some t) \<and> refs_extend s t \<and>
    claimed' = Some (ls_attempt_epoch s + 1) \<and>
    ls_attempt_epoch t = ls_attempt_epoch s + 1 \<and>
    ls_pending_call_ids t = ls_pending_call_ids s \<and>
    ls_pending_tool_steps t = ls_pending_tool_steps s"
proof -
  obtain e where e: "exploration_event_of now Attempt_Started (ls_last_seq s + 1)
      (ls_attempt_epoch s + 1) s = Some e" "reduce_exploration_event h (Some s) e = Inr t"
      "gs = append_unlocked sp e fs" "claimed' = Some (ls_attempt_epoch t)"
    using assms(1,3,5) by (auto simp: journal_claim_def journal_append_new_def event_epoch_def
        commit_event_def split: sum.splits if_splits option.splits prod.splits)
  have valid: "event_valid e" "ev_body e = Attempt_Started"
    using e(1) by (auto simp: exploration_event_of_def Let_def split: if_splits)
  have "journal_rebuild sp gs = Inr (Some t)"
    using rebuild_appended[where valid = event_storable, OF _ _ assms(3), of e] assms(1,2) e(2,3) valid
    by (simp add: event_storable_def)
  moreover have "ls_attempt_epoch t = ls_attempt_epoch s + 1"
    using exploration.next_epoch[OF e(2)] valid(2) by simp
  moreover have "ls_pending_call_ids t = ls_pending_call_ids s"
    "ls_pending_tool_steps t = ls_pending_tool_steps s" "ls_step_receipt_refs t = ls_step_receipt_refs s"
    using reduce_applies(1)[OF e(2)] valid(2) by auto
  ultimately show ?thesis
    using e(4) reachable_step[OF assms(4) valid(1) e(2)] by (simp add: refs_extend_def)
qed

text \<open>On a live run a claim succeeds.\<close>

lemma claim_succeeds:
  assumes "sp = exploration_spec enc dec es ds h" "line_codec event_storable enc dec"
    and "journal_rebuild sp fs = Inr (Some s)" "journal_inv s" "ls_status s \<noteq> Status_Stopped"
  obtains gs where "journal_claim sp (exploration_event_of now Attempt_Started) claimed fs =
      (Inr (s\<lparr>ls_last_seq := ls_last_seq s + 1, ls_attempt_epoch := ls_attempt_epoch s + 1\<rparr>),
       Some (ls_attempt_epoch s + 1), gs)"
    "journal_rebuild sp gs =
      Inr (Some (s\<lparr>ls_last_seq := ls_last_seq s + 1, ls_attempt_epoch := ls_attempt_epoch s + 1\<rparr>))"
proof -
  let ?e = "next_event now Attempt_Started s"
  note ident = journal_inv_groups(1)[OF assms(4)]
  note step = attempt_accepted[OF assms(4,5), of h now]
  have valid: "event_valid ?e" by (rule next_event_valid[OF ident]) simp
  then have "exploration_event_of now Attempt_Started (ls_last_seq s + 1) (ls_attempt_epoch s + 1) s = Some ?e"
    by (simp add: exploration_event_of_def Let_def next_event_def expected_epoch_def)
  then have "journal_claim sp (exploration_event_of now Attempt_Started) claimed fs =
      (Inr (s\<lparr>ls_last_seq := ls_last_seq s + 1, ls_attempt_epoch := ls_attempt_epoch s + 1\<rparr>),
       Some (ls_attempt_epoch s + 1), append_unlocked sp ?e fs)"
    using assms(1,3) step by (simp add: journal_claim_def journal_append_new_def event_epoch_def commit_event_def)
  moreover have "journal_rebuild sp (append_unlocked sp ?e fs) =
      Inr (Some (s\<lparr>ls_last_seq := ls_last_seq s + 1, ls_attempt_epoch := ls_attempt_epoch s + 1\<rparr>))"
    using rebuild_appended[where valid = event_storable, OF _ next_event_storable[OF ident] assms(3)] assms(1,2) step by simp
  ultimately show thesis by (rule that)
qed

section \<open>The file of a log\<close>

definition log_file :: "spec \<Rightarrow> exploration_event list \<Rightarrow> journal_files" where
  "log_file sp es = foldl (\<lambda>fs e. append_unlocked sp e fs) \<lparr>jf_log = None, jf_snapshot = None\<rparr> es"

lemma rebuild_log_file_from:
  assumes "sp = exploration_spec enc dec es ds h" "line_codec event_storable enc dec"
    and "\<forall>e \<in> set evs. event_storable e" "journal_rebuild sp fs = Inr st" "rebuild_from h st evs = Inr st'"
  shows "journal_rebuild sp (foldl (\<lambda>fs e. append_unlocked sp e fs) fs evs) = Inr st'"
  using assms(3-5)
proof (induction evs arbitrary: fs st)
  case (Cons e evs)
  obtain u where u: "reduce_exploration_event h st e = Inr u" "rebuild_from h (Some u) evs = Inr st'"
    using Cons.prems(3) by (auto simp: bind_res_Inr_iff)
  have "journal_rebuild sp (append_unlocked sp e fs) = Inr (Some u)"
    using rebuild_appended[where valid = event_storable, OF _ _ Cons.prems(2)] Cons.prems(1) assms(1,2) u(1)
    by simp
  from Cons.IH[OF _ this u(2)] Cons.prems(1) show ?case by simp
qed simp

lemma rebuild_log_file:
  assumes "sp = exploration_spec enc dec es ds h" "line_codec event_storable enc dec"
    and "\<forall>e \<in> set evs. event_storable e" "rebuild_exploration_state h evs = Inr st"
  shows "journal_rebuild sp (log_file sp evs) = Inr st"
  using rebuild_log_file_from[OF assms(1-3), of "\<lparr>jf_log = None, jf_snapshot = None\<rparr>" None st] assms(4)
  by (simp add: log_file_def rebuild_exploration_state_def journal_rebuild_def)

lemma busy_storable: "\<forall>e \<in> set busy_log. event_storable e"
proof -
  have "list_all event_storable busy_log" by code_simp
  then show ?thesis by (simp add: list_all_iff)
qed

lemma reachable_busy:
  "rebuild_exploration_state example_hash busy_log = Inr (Some s) \<Longrightarrow> reachable_state example_hash s"
  using logs_valid(1) by (auto simp: reachable_state_def)

definition example_policy :: exploration_policy where
  "example_policy = \<lparr>ep_mode = Mode_Goal_Directed, ep_goal = Some ''g'', ep_dataset_scope = [''d''],
     ep_thinking_level = Standard, ep_coverage_targets = [], ep_budget = example_budget,
     ep_scoring_policy_version = ''1'', ep_statistical_policy_version = ''1'',
     ep_tool_capability_digest = ''t'', ep_policy_fingerprint = ''xplcy_h''\<rparr>"

lemma lost_recovery:
  assumes "sp = exploration_spec enc dec enc_state dec_state h" and "line_codec event_storable enc dec"
    and "journal_rebuild sp fs = Inr (Some s)" and "reachable_state h s"
    and "ls_status s \<noteq> Status_Stopped" and "err \<noteq> []"
    and "set (ls_pending_call_ids s) \<inter> set (ls_uncertain_call_ids s) = {}"
  shows "\<exists>t gs. claim_recovery sp now claimed None None True err fs =
      (Inr t, Some (ls_attempt_epoch s + 1), gs)
     \<and> journal_rebuild sp gs = Inr (Some t)
     \<and> ls_pending_call_ids t = [] \<and> ls_pending_tool_steps t = []
     \<and> ls_uncertain_call_ids t = ls_uncertain_call_ids s @ ls_pending_call_ids s
     \<and> ls_rows_scanned t = ls_rows_scanned s + projected ts_projected_rows_scanned s
     \<and> ls_result_cells t = ls_result_cells s + projected ts_projected_result_cells s
     \<and> ls_completed_step_ids t = ls_completed_step_ids s"
proof -
  let ?a = "s\<lparr>ls_last_seq := ls_last_seq s + 1, ls_attempt_epoch := ls_attempt_epoch s + 1\<rparr>"
  let ?c = "Some (ls_attempt_epoch s + 1)"
  note inv = reachable_inv[OF assms(4)]
  obtain fa where a: "journal_claim sp (exploration_event_of now Attempt_Started) claimed fs = (Inr ?a, ?c, fa)"
    "journal_rebuild sp fa = Inr (Some ?a)"
    by (rule claim_succeeds[OF assms(1-3) inv(1) assms(5)])
  have "reachable_state h ?a"
    using claim_state[OF assms(1-4) a(1)] by simp
  note inv_a = reachable_inv[OF this]
  have "?c \<in> {None, Some (ls_attempt_epoch ?a)}"
    "set (ls_pending_call_ids ?a) \<inter> set (ls_uncertain_call_ids ?a) = {}"
    using assms(7) by simp_all
  from settle_calls_lost[OF assms(1,2,6) a(2) this(1) inv_a this(2) refl]
  obtain b fb where b: "settle_calls sp now ?c None err (ls_pending_call_ids ?a) ?a fa = (Inr b, fb)"
    "journal_rebuild sp fb = Inr (Some b)" "calls_lost ?a (ls_pending_call_ids ?a) b"
    "journal_inv b" "ids_named b" by blast
  have "?c \<in> {None, Some (ls_attempt_epoch b)}" using b(3) by (simp add: calls_lost_def)
  from settle_tools_lost[OF assms(1,2) b(2) this b(4,5) refl]
  obtain t gs where t: "settle_tools sp now ?c None (dict_keys (ls_pending_tool_steps b)) b fb = (Inr t, gs)"
    "journal_rebuild sp gs = Inr (Some t)" "tools_lost b t" by blast
  have "claim_recovery sp now claimed None None True err fs = (Inr t, ?c, gs)"
    using a(1) b(1) t(1) by (simp add: claim_recovery_def)
  moreover have "projected f b = projected f s" for f
    using b(3) by (simp add: projected_def calls_lost_def)
  ultimately show ?thesis
    using t(2,3) b(3) by (auto simp: tools_lost_def calls_lost_def)
qed

text \<open>A run whose pending tool step has a durable body, recovered step by step.\<close>

definition body_of_t2 :: "string \<Rightarrow> recovered_tool_commit option" where
  "body_of_t2 = [''t2'' \<mapsto> \<lparr>rt_receipt_id = ''r2'', rt_result_digest = ''d2'', rt_rows_scanned = 3, rt_result_cells = 4\<rparr>]"

fun reduce_bodies :: "hash_function \<Rightarrow> loop_state \<Rightarrow> loop_event list \<Rightarrow> reduce_fault + loop_state" where
  "reduce_bodies h s [] = Inr s"
| "reduce_bodies h s (b # bs) =
     bind_res (reduce_exploration_event h (Some s) (next_event 0 b s)) (\<lambda>t. reduce_bodies h t bs)"

lemma append_bodies_accepted:
  assumes "sp = exploration_spec enc dec es ds h" "line_codec event_storable enc dec"
    and "journal_rebuild sp fs = Inr (Some s)" "claimed \<in> {None, Some (ls_attempt_epoch s)}" "journal_inv s"
    and "list_all (\<lambda>b. body_valid b \<and> body_storable b \<and> b \<noteq> Attempt_Started) bs" "reduce_bodies h s bs = Inr t"
  obtains gs where "append_bodies sp 0 claimed bs s fs = (Inr t, gs)" "journal_rebuild sp gs = Inr (Some t)"
    "ls_attempt_epoch t = ls_attempt_epoch s" "journal_inv t"
proof -
  have "\<exists>gs. append_bodies sp 0 claimed bs s fs = (Inr t, gs) \<and> journal_rebuild sp gs = Inr (Some t) \<and>
      ls_attempt_epoch t = ls_attempt_epoch s \<and> journal_inv t"
    using assms(3-7)
  proof (induction bs arbitrary: s fs)
    case (Cons b bs)
    obtain u where u: "reduce_exploration_event h (Some s) (next_event 0 b s) = Inr u" "reduce_bodies h u bs = Inr t"
      using Cons.prems(5) by (auto simp: bind_res_Inr_iff)
    have b: "body_valid b" "b \<noteq> Attempt_Started" "body_storable b" "list_all (\<lambda>b. body_valid b \<and> body_storable b \<and> b \<noteq> Attempt_Started) bs"
      using Cons.prems(4) by simp_all
    obtain us where us: "append_body sp 0 claimed b fs = (Inr u, us)" "journal_rebuild sp us = Inr (Some u)"
      "ls_attempt_epoch u = ls_attempt_epoch s" "journal_inv u"
      by (rule append_accepted[OF assms(1,2) Cons.prems(1-3) b(1,2) u(1) b(3)])
    show ?case using Cons.IH[OF us(2) _ us(4) b(4) u(2)] us Cons.prems(2) by simp
  qed simp
  then show thesis using that by blast
qed

definition t2_events :: "loop_event list" where
  "t2_events = [Receipt_Prepared ''t2'' ''r2'' (Some ''d2''), Receipt_Committed ''t2'' ''r2'' 3 4 (Some ''d2'')]"

definition t2_ready :: "loop_state \<Rightarrow> bool" where
  "t2_ready b \<longleftrightarrow> dict_keys (ls_pending_tool_steps b) = [''t2''] \<and>
     map_option ts_prepared_receipt_id (map_of (ls_pending_tool_steps b) ''t2'') = Some None \<and>
     \<not> isl (reduce_bodies example_hash b t2_events)"

definition after_claim :: "loop_state \<Rightarrow> loop_state" where
  "after_claim s = s\<lparr>ls_last_seq := ls_last_seq s + 1, ls_attempt_epoch := ls_attempt_epoch s + 1\<rparr>"

definition calls_then_ready :: "loop_state \<Rightarrow> bool" where
  "calls_then_ready s = (case reduce_bodies example_hash (after_claim s) [Llm_Call_Uncertain ''c1'' ''lost''] of
     Inl _ \<Rightarrow> False | Inr b \<Rightarrow> t2_ready b)"

lemma busy_recovery:
  assumes "sp = exploration_spec enc dec enc_state dec_state example_hash" "line_codec event_storable enc dec"
  obtains t c gs where
    "claim_recovery sp 0 None None (Some body_of_t2) True ''lost'' (log_file sp busy_log) = (Inr t, c, gs)"
proof -
  let ?calls = "[Llm_Call_Uncertain ''c1'' ''lost'']" and ?tools = t2_events
  obtain s where s: "rebuild_exploration_state example_hash busy_log = Inr (Some s)"
    "ls_status s = Status_Running" "ls_pending_call_ids s = [''c1'']"
    by (rule busy_rebuilds)
  note onfile = rebuild_log_file[OF assms busy_storable s(1)]
  let ?a = "after_claim s"
  have "holds_after calls_then_ready (rebuild_exploration_state example_hash busy_log)"
    by code_simp
  then have "calls_then_ready s" by (simp add: s(1) holds_after_def)
  then obtain b where b: "reduce_bodies example_hash ?a ?calls = Inr b" "t2_ready b"
    by (cases "reduce_bodies example_hash ?a ?calls") (simp_all add: calls_then_ready_def del: reduce_bodies.simps)
  obtain t where t: "reduce_bodies example_hash b ?tools = Inr t"
    using b(2) by (cases "reduce_bodies example_hash b ?tools") (simp_all add: t2_ready_def)
  have keys: "dict_keys (ls_pending_tool_steps b) = [''t2'']" using b(2) by (simp add: t2_ready_def)
  obtain slot where slot: "map_of (ls_pending_tool_steps b) ''t2'' = Some slot" "ts_prepared_receipt_id slot = None"
    using b(2) unfolding t2_ready_def by (cases "map_of (ls_pending_tool_steps b) ''t2''") simp_all
  note inv = reachable_inv(1)[OF reachable_busy[OF s(1)]]
  have "ls_status s \<noteq> Status_Stopped" using s(2) by simp
  then obtain fa where a: "journal_claim sp (exploration_event_of 0 Attempt_Started) None (log_file sp busy_log) =
      (Inr ?a, Some (ls_attempt_epoch s + 1), fa)" "journal_rebuild sp fa = Inr (Some ?a)"
    unfolding after_claim_def by (rule claim_succeeds[OF assms onfile inv])
  have inv_a: "journal_inv ?a"
    by (rule reachable_inv(1)[where h = example_hash]) (use claim_state[OF assms onfile reachable_busy[OF s(1)] a(1)] in simp)
  let ?c = "Some (ls_attempt_epoch s + 1)"
  obtain fb where fb: "append_bodies sp 0 ?c ?calls ?a fa = (Inr b, fb)" "journal_rebuild sp fb = Inr (Some b)"
    "ls_attempt_epoch b = ls_attempt_epoch ?a" "journal_inv b"
    by (rule append_bodies_accepted[OF assms a(2) _ inv_a _ b(1), where claimed = ?c]) (simp_all add: after_claim_def)
  obtain gs where gs: "append_bodies sp 0 ?c ?tools b fb = (Inr t, gs)"
    by (rule append_bodies_accepted[OF assms fb(2) _ fb(4) _ t, where claimed = ?c]) (simp_all add: fb(3) after_claim_def t2_events_def opt_nonempty_def del: append_bodies.simps)
  have "tool_settlement (Some body_of_t2) slot ''t2'' = Inr ?tools"
    by (simp add: tool_settlement_def body_of_t2_def slot(2) guarding.simps t2_events_def)
  then have "settle_tools sp 0 ?c (Some body_of_t2) (dict_keys (ls_pending_tool_steps b)) b fb = (Inr t, gs)"
    using gs slot(1) by (simp add: keys)
  moreover have "settle_calls sp 0 ?c None ''lost'' (ls_pending_call_ids ?a) ?a fa = (Inr b, fb)"
    using fb(1)[unfolded append_bodies_one] s(3) by (simp add: call_settlement_def after_claim_def split: option.split)
  ultimately have "claim_recovery sp 0 None None (Some body_of_t2) True ''lost'' (log_file sp busy_log) = (Inr t, ?c, gs)"
    using a(1) by (simp add: claim_recovery_def)
  then show thesis by (rule that)
qed

section \<open>Properties\<close>

text \<open>C7. Whenever crash recovery returns, it has fenced every earlier executor and settled
  everything: the epoch is one higher in the journal and in the caller's handle, a handle of any
  earlier epoch is refused as stale, no call and no tool step is left in flight, the journal reads
  back as the state returned, no committed receipt was lost, and each pending step whose durable
  body was found is committed under that body's receipt.\<close>

theorem recovery_settles_everything:
  assumes "sp = exploration_spec enc dec enc_state dec_state h" and "line_codec event_storable enc dec"
    and "journal_rebuild sp fs = Inr (Some s)" and "reachable_state h s"
    and "claim_recovery sp now claimed responses results True err fs = (Inr t, claimed', gs)"
  shows "claimed' = Some (ls_attempt_epoch s + 1) \<and> ls_attempt_epoch t = ls_attempt_epoch s + 1
     \<and> journal_rebuild sp gs = Inr (Some t)
     \<and> (\<forall>older e. older \<le> ls_attempt_epoch s \<longrightarrow> journal_append sp (Some older) e gs = (Inl Stale_Epoch, gs))
     \<and> ls_pending_call_ids t = [] \<and> ls_pending_tool_steps t = []
     \<and> (\<forall>k v. map_of (ls_step_receipt_refs s) k = Some v \<longrightarrow> map_of (ls_step_receipt_refs t) k = Some v)
     \<and> (\<forall>stp \<in> set (dict_keys (ls_pending_tool_steps s)). \<forall>found. found_body results stp = Some found \<longrightarrow>
          map_of (ls_step_receipt_refs t) stp = Some (rt_receipt_id found))"
proof -
  obtain a fa b fb where a: "journal_claim sp (exploration_event_of now Attempt_Started) claimed fs = (Inr a, claimed', fa)"
    and b: "settle_calls sp now claimed' responses err (ls_pending_call_ids a) a fa = (Inr b, fb)"
    and t: "settle_tools sp now claimed' results (dict_keys (ls_pending_tool_steps b)) b fb = (Inr t, gs)"
    using assms(5) by (auto simp: claim_recovery_def split: prod.splits sum.splits)
  note ca = claim_state[OF assms(1-4) a]
  note cb = settle_calls_drain[OF assms(1,2) _ _ b]
  have rb: "ls_pending_call_ids b = []" "ls_pending_tool_steps b = ls_pending_tool_steps a"
    "journal_rebuild sp fb = Inr (Some b)" "reachable_state h b" "refs_extend a b"
    "ls_attempt_epoch b = ls_attempt_epoch s + 1"
    using cb ca by auto
  note ct = settle_tools_drain[OF assms(1,2) rb(3,4) t order_refl]
  have "refs_extend s t" using ca rb(5) ct by (auto simp: refs_extend_def)
  moreover have "journal_append sp (Some older) e gs = (Inl Stale_Epoch, gs)" if "older \<le> ls_attempt_epoch s" for older e
    using ct rb(6) that assms(1) by (simp add: journal_append_def stale_handle_def)
  ultimately show ?thesis using ca rb(1,2,6) ct by (simp add: refs_extend_def)
qed

theorem recovery_settles_everything_witness:
  "let sp = exploration_spec numbered_encode numbered_decode (\<lambda>_. []) (\<lambda>_. None) example_hash in
     \<exists>t c gs. claim_recovery sp 0 None None (Some body_of_t2) True ''lost'' (log_file sp busy_log) = (Inr t, c, gs)
       \<and> ls_pending_tool_steps t = [] \<and> map_of (ls_step_receipt_refs t) ''t1'' = Some ''r1''
       \<and> map_of (ls_step_receipt_refs t) ''t2'' = Some ''r2''"
proof -
  let ?sp = "exploration_spec numbered_encode numbered_decode (\<lambda>_. []) (\<lambda>_. None) example_hash"
  obtain s where s: "rebuild_exploration_state example_hash busy_log = Inr (Some s)"
    "ls_step_receipt_refs s = [(''t1'', ''r1'')]" "dict_keys (ls_pending_tool_steps s) = [''t2'']"
    by (rule busy_rebuilds)
  note onfile = rebuild_log_file[OF refl numbered_codec busy_storable s(1)]
  note reach = reachable_busy[OF s(1)]
  obtain t c gs where t: "claim_recovery ?sp 0 None None (Some body_of_t2) True ''lost'' (log_file ?sp busy_log) =
      (Inr t, c, gs)"
    by (rule busy_recovery[where enc_state = "\<lambda>_. []" and dec_state = "\<lambda>_. None", OF refl numbered_codec])
  from recovery_settles_everything[OF refl numbered_codec onfile reach t] s(2,3) t
  show ?thesis by (auto simp: Let_def found_body_def body_of_t2_def)
qed

text \<open>Crash recovery of a live run that finds nothing durable always succeeds: every call
  in flight is recorded as lost, and every tool step is dropped with its projected usage
  charged, so nothing is spent twice and nothing is forgotten.\<close>

theorem recovery_without_bodies_succeeds:
  assumes "sp = exploration_spec enc dec enc_state dec_state h" and "line_codec event_storable enc dec"
    and "journal_rebuild sp fs = Inr (Some s)" and "reachable_state h s"
    and "ls_status s \<noteq> Status_Stopped" and "err \<noteq> []"
    and "set (ls_pending_call_ids s) \<inter> set (ls_uncertain_call_ids s) = {}"
  shows "\<exists>t gs. claim_recovery sp now claimed None None True err fs =
      (Inr t, Some (ls_attempt_epoch s + 1), gs)
     \<and> journal_rebuild sp gs = Inr (Some t)
     \<and> ls_pending_call_ids t = [] \<and> ls_pending_tool_steps t = []
     \<and> ls_uncertain_call_ids t = ls_uncertain_call_ids s @ ls_pending_call_ids s
     \<and> ls_rows_scanned t = ls_rows_scanned s + projected ts_projected_rows_scanned s
     \<and> ls_result_cells t = ls_result_cells s + projected ts_projected_result_cells s
     \<and> ls_completed_step_ids t = ls_completed_step_ids s"
  by (rule lost_recovery[OF assms])

theorem recovery_without_bodies_succeeds_witness:
  "let sp = exploration_spec numbered_encode numbered_decode (\<lambda>_. []) (\<lambda>_. None) example_hash in
     \<exists>t c gs. claim_recovery sp 0 None None None True ''lost'' (log_file sp busy_log) = (Inr t, c, gs)
       \<and> ls_uncertain_call_ids t = [''c1''] \<and> ls_pending_call_ids t = []"
proof -
  let ?sp = "exploration_spec numbered_encode numbered_decode (\<lambda>_. []) (\<lambda>_. None) example_hash"
  obtain s where s: "rebuild_exploration_state example_hash busy_log = Inr (Some s)"
    "ls_status s = Status_Running" "ls_uncertain_call_ids s = []" "ls_pending_call_ids s = [''c1'']"
    by (rule busy_rebuilds)
  note onfile = rebuild_log_file[OF refl numbered_codec busy_storable s(1)]
  have "set (ls_pending_call_ids s) \<inter> set (ls_uncertain_call_ids s) = {}" using s(3) by simp
  with recovery_without_bodies_succeeds[where enc_state = "\<lambda>_. []" and dec_state = "\<lambda>_. None"
      and err = "''lost''" and now = 0 and claimed = None,
      OF refl numbered_codec onfile reachable_busy[OF s(1)] _ _ this] s
  show ?thesis by (auto simp: Let_def)
qed

text \<open>Initializing is idempotent and refuses another run: after it returned a state, calling
  it again with the same identity returns the same state and writes nothing, and calling it
  with any other sealed identity is refused and writes nothing. (For a budget without an infinite
  number of seconds, which the journal does not read back as it was.)\<close>

theorem initialize_resumes_only_itself:
  assumes "sp = exploration_spec enc dec enc_state dec_state h" and "line_codec event_storable enc dec"
    and "initialize sp h now run p code witness fs = (Inr s, gs)"
    and "policy_sealed h q" and "event_valid (initial_event later run' q code' witness')"
    and "budget_storable (ep_budget p)"
  shows "initialize sp h later run' q code' witness' gs =
    (if (run', ep_policy_fingerprint q, code', witness') = (run, ep_policy_fingerprint p, code, witness)
     then (Inr s, gs)
     else (Inl (Resume_Incompatible (identity_mismatches run' q code' witness' s)), gs))"
proof -
  have "journal_rebuild sp gs = Inr (Some s) \<and> ls_exploration_id s = run \<and>
      ls_policy_fingerprint s = ep_policy_fingerprint p \<and> ls_code_fingerprint s = code \<and>
      ls_data_state_witness s = witness"
  proof (cases "journal_rebuild sp fs")
    case (Inr st)
    show ?thesis
    proof (cases st)
      case None
      let ?e = "initial_event now run p code witness"
      have valid: "event_valid ?e" and red: "reduce_exploration_event h None ?e = Inr s"
        and gs: "gs = append_unlocked sp ?e fs"
        using assms(1,3) Inr None
        by (auto simp: initialize_def lift_outcome_def commit_event_def split: if_splits sum.splits)
      have "s = initial_state ?e (ep_policy_fingerprint p) code witness (ep_budget p)"
        using red by (simp add: reduce_exploration_event_def start_exploration_def initial_event_def
            validated_Inr split: if_splits)
      moreover have "journal_rebuild sp gs = Inr (Some s)"
        using rebuild_appended[where valid = event_storable, OF _ _ Inr[unfolded None], of ?e] assms(1,2,6) red gs valid
        by (simp add: event_storable_def initial_event_def)
      ultimately show ?thesis by (simp add: initial_state_def initial_event_def)
    next
      case (Some u)
      with assms(3) Inr show ?thesis
        by (auto simp: initialize_def identity_mismatches_def split: if_splits)
    qed
  qed (use assms(3) in \<open>auto simp: initialize_def split: if_splits\<close>)
  then show ?thesis
    using assms(4,5) by (auto simp: initialize_def identity_mismatches_def)
qed

theorem initialize_resumes_only_itself_witness:
  "let sp = exploration_spec numbered_encode numbered_decode (\<lambda>_. []) (\<lambda>_. None) example_hash;
       (r, gs) = initialize sp example_hash 0 ''run'' example_policy ''c'' ''w''
         \<lparr>jf_log = None, jf_snapshot = None\<rparr>
   in initialize sp example_hash 9 ''run'' example_policy ''c'' ''w'' gs = (r, gs) \<and>
      (\<exists>names. initialize sp example_hash 9 ''run'' example_policy ''c2'' ''w'' gs =
         (Inl (Resume_Incompatible names), gs))"
proof -
  let ?sp = "exploration_spec numbered_encode numbered_decode (\<lambda>_. []) (\<lambda>_. None) example_hash"
  let ?fs = "\<lparr>jf_log = None, jf_snapshot = None\<rparr>"
  have ok: "policy_sealed example_hash example_policy" "event_valid (initial_event 0 ''run'' example_policy ''c'' ''w'')"
    "event_valid (initial_event 9 ''run'' example_policy ''c'' ''w'')"
    "event_valid (initial_event 9 ''run'' example_policy ''c2'' ''w'')"
    "\<not> isl (reduce_exploration_event example_hash None (initial_event 0 ''run'' example_policy ''c'' ''w''))"
    by code_simp+
  then obtain s where "reduce_exploration_event example_hash None
      (initial_event 0 ''run'' example_policy ''c'' ''w'') = Inr s"
    by (metis isl_def sum.exhaust)
  then obtain gs where i: "initialize ?sp example_hash 0 ''run'' example_policy ''c'' ''w'' ?fs = (Inr s, gs)"
    using ok by (simp add: initialize_def journal_rebuild_def commit_event_def lift_outcome_def)
  note two = initialize_resumes_only_itself[OF refl numbered_codec i ok(1)]
  have "budget_storable (ep_budget example_policy)" by code_simp
  then show ?thesis using two[OF ok(3)] two[OF ok(4)] i by simp
qed

text \<open>A budget amendment with a new id and a finite increase is always accepted on a live run, raises
  the caps and what remains of them by exactly the increase, and cannot be replayed.\<close>

theorem amendment_applies_once:
  assumes "sp = exploration_spec enc dec enc_state dec_state h" and "line_codec event_storable enc dec"
    and "journal_rebuild sp fs = Inr (Some s)" and "reachable_state h s"
    and "ls_status s \<noteq> Status_Stopped" and "claimed \<in> {None, Some (ls_attempt_epoch s)}"
    and "amendment \<noteq> []" and "amendment \<notin> set (ls_amendment_ids s)" and "increase_valid inc"
    and "isfinite (ci_max_wall_seconds inc)"
  shows "\<exists>t gs. amend_budget sp h now claimed amendment inc fs = (Inr t, gs)
     \<and> journal_rebuild sp gs = Inr (Some t)
     \<and> ls_max_llm_requests t = raised (ls_max_llm_requests s) (ci_max_requests inc)
     \<and> ls_remaining_llm_call_budget t = raised (ls_remaining_llm_call_budget s) (ci_max_requests inc)
     \<and> ls_max_successful_tool_calls t =
         ls_max_successful_tool_calls s + ci_max_successful_tool_calls inc
     \<and> ls_remaining_tool_call_budget t =
         ls_remaining_tool_call_budget s + ci_max_successful_tool_calls inc
     \<and> ls_remaining_round_budget t = ls_remaining_round_budget s + ci_max_rounds inc
     \<and> amend_budget sp h later claimed amendment inc gs =
         (Inl (Journal_Error (Rejected (Transition Amendment_Replayed))), gs)"
proof -
  note inv = reachable_inv(1)[OF assms(4)]
  note g = journal_inv_groups[OF inv]
  define fp where "fp = amended_policy_fingerprint h (ls_effective_policy_fingerprint s) amendment inc"
  let ?body = "Budget_Amended amendment fp inc" and ?s = "s\<lparr>ls_last_seq := ls_last_seq s + 1\<rparr>"
  have body: "body_valid ?body"
    using assms(7,9) by (simp add: fp_def amended_policy_fingerprint_def fingerprint_prefix_def)
  have rem: "ls_max_llm_requests s = None \<Longrightarrow> ls_remaining_llm_call_budget s = None"
    "raised m 0 = (m :: int option)" for m
    using g(4) by (simp_all add: calls_ok_def) (cases m; simp)
  obtain t where t: "on_budget_amended h amendment fp inc ?s = Inr t"
    using assms(8) by (simp add: on_budget_amended_def guarding.simps fp_def)
  then have eqs: "ls_max_llm_requests t = raised (ls_max_llm_requests s) (ci_max_requests inc)"
    "ls_remaining_llm_call_budget t = raised (ls_remaining_llm_call_budget s) (ci_max_requests inc)"
    "ls_max_successful_tool_calls t = ls_max_successful_tool_calls s + ci_max_successful_tool_calls inc"
    "ls_remaining_tool_call_budget t = ls_remaining_tool_call_budget s + ci_max_successful_tool_calls inc"
    "ls_remaining_round_budget t = ls_remaining_round_budget s + ci_max_rounds inc"
    "ls_amendment_ids t = ls_amendment_ids s @ [amendment]" "soft_ok t" "ls_status t = ls_status s"
    using rem g(7) by (auto simp: on_budget_amended_def guarding_Inr_iff soft_ok_def)
  have "reduce_exploration_event h (Some s) (next_event now ?body s) = Inr t"
    using t eqs(7) body assms(5) by (intro next_accepted[OF inv]) simp_all
  from append_accepted[OF assms(1-3,6) inv body _ this] assms(10) obtain gs where
    gs: "append_body sp now claimed ?body fs = (Inr t, gs)" "journal_rebuild sp gs = Inr (Some t)"
      "ls_attempt_epoch t = ls_attempt_epoch s" "journal_inv t"
    by auto
  let ?again = "Budget_Amended amendment
      (amended_policy_fingerprint h (ls_effective_policy_fingerprint t) amendment inc) inc"
  have body2: "body_valid ?again"
    using assms(7,9) by (simp add: amended_policy_fingerprint_def fingerprint_prefix_def)
  have "\<forall>x \<in> set (envelope_guards t (next_event later ?again t)). \<not> fst x"
    using assms(5) eqs(8) by (intro next_event_guards journal_inv_groups(1)[OF gs(4)]) simp_all
  then have "guarding (envelope_guards t (next_event later ?again t)) (t\<lparr>ls_last_seq := ls_last_seq t + 1\<rparr>) =
      Inr (t\<lparr>ls_last_seq := ls_last_seq t + 1\<rparr>)"
    by (simp add: guarding_Inr_iff)
  then have "reduce_exploration_event h (Some t) (next_event later ?again t) =
      Inl (Transition Amendment_Replayed)"
    using eqs(6) by (subst reduce_Some)
      (simp_all add: next_event_def on_budget_amended_def guarding.simps)
  then have "append_body sp later claimed ?again gs =
      (Inl (Journal_Error (Rejected (Transition Amendment_Replayed))), gs)"
    using append_body_reduces[OF assms(1,2) gs(2) _ journal_inv_groups(1)[OF gs(4)] body2, of claimed later]
      assms(6) gs(3) by simp
  with gs(1,2) eqs assms(3) show ?thesis by (simp add: amend_budget_def fp_def)
qed

theorem amendment_applies_once_witness:
  "let sp = exploration_spec numbered_encode numbered_decode (\<lambda>_. []) (\<lambda>_. None) example_hash in
     \<exists>t gs. amend_budget sp example_hash 0 None ''a1'' example_increase (log_file sp busy_log) = (Inr t, gs)
       \<and> amend_budget sp example_hash 1 None ''a1'' example_increase gs =
           (Inl (Journal_Error (Rejected (Transition Amendment_Replayed))), gs)"
proof -
  let ?sp = "exploration_spec numbered_encode numbered_decode (\<lambda>_. []) (\<lambda>_. None) example_hash"
  have "holds_after (\<lambda>s. ls_status s = Status_Running \<and> ls_amendment_ids s = [])
      (rebuild_exploration_state example_hash busy_log)"
    by code_simp
  then obtain s where s: "rebuild_exploration_state example_hash busy_log = Inr (Some s)"
    "ls_status s = Status_Running" "ls_amendment_ids s = []"
    by (auto elim: holds_afterE)
  note onfile = rebuild_log_file[OF refl numbered_codec busy_storable s(1)]
  from amendment_applies_once[where enc_state = "\<lambda>_. []" and dec_state = "\<lambda>_. None"
      and amendment = "''a1''" and now = 0 and later = 1 and claimed = None,
      OF refl numbered_codec onfile reachable_busy[OF s(1)] _ _ _ _ example_increase_valid] s
  show ?thesis by (auto simp: Let_def example_increase_def)
qed

text \<open>C35. A recovered run gets its ledger back: for a state the journal can reach whose tool kinds
  are not blank, refreshing a ledger whose policy matches the journal's caps succeeds, gives the
  ledger exactly the journal's counters and leaves it well formed; a policy that does not
  match is refused and changes nothing.\<close>

theorem durable_ledger_is_restored:
  assumes "reachable_state h s"
    and "\<forall>k \<in> fst ` set (ls_tool_calls_by_kind s). py_strip k \<noteq> []"
  shows "restore_durable_state s l =
    (if caps_match (tl_policy l) s
     then (Inr (), l\<lparr>successful_calls := ls_tool_calls_committed s,
       calls_by_kind := ls_tool_calls_by_kind s, tl_rows_scanned := ls_rows_scanned s,
       tl_result_cells := ls_result_cells s\<rparr>)
     else (Inl (Tool_Value_Error
       ''effective tool policy does not match the journal amendment chain.''), l))
   \<and> (caps_match (tl_policy l) s \<longrightarrow> ledger_wf (snd (restore_durable_state s l)))"
proof -
  note g = journal_inv_groups[OF reachable_inv(1)[OF assms(1)]]
  have tools: "0 \<le> ls_tool_calls_committed s" "0 \<le> ls_rows_scanned s" "0 \<le> ls_result_cells s"
    "dict_sum (\<lambda>n. n) (ls_tool_calls_by_kind s) = ls_tool_calls_committed s"
    "distinct (dict_keys (ls_tool_calls_by_kind s))"
    using g(3,10) by (simp_all add: tools_ok_def dict_sum_def dicts_wf_def)
  have kinds: "\<forall>(k, n) \<in> set (ls_tool_calls_by_kind s). py_strip k \<noteq> [] \<and> 0 \<le> n"
    using g(3) assms(2) by (fastforce simp: tools_ok_def)
  note entries = snapshot_entries_ints[OF kinds]
  have "set (dict_keys (journal_snapshot s)) = set snapshot_keys"
    by (simp add: journal_snapshot_def snapshot_keys_def)
  moreover have "snapshot_field (journal_snapshot s) ''successful_tool_calls''
        = Snap_Value (PyInt (ls_tool_calls_committed s))"
    "snapshot_field (journal_snapshot s) ''rows_scanned'' = Snap_Value (PyInt (ls_rows_scanned s))"
    "snapshot_field (journal_snapshot s) ''result_cells'' = Snap_Value (PyInt (ls_result_cells s))"
    "snapshot_field (journal_snapshot s) ''calls_by_kind'' = Snap_Mapping (map (\<lambda>(k, n). (PyStr k, PyInt n))
         (ls_tool_calls_by_kind s))"
    by (simp_all add: snapshot_field_def journal_snapshot_def dict_get_def)
  ultimately have "restore p (journal_snapshot s) = Inr ((new_ledger p)\<lparr>
       successful_calls := ls_tool_calls_committed s, calls_by_kind := ls_tool_calls_by_kind s,
       tl_rows_scanned := ls_rows_scanned s, tl_result_cells := ls_result_cells s\<rparr>)" for p
    using tools by (simp add: restore_def snapshot_count_int snapshot_kinds_def entries)
  then show ?thesis
    using tools kinds by (simp add: restore_durable_state_def restore_from_journal_state_def
        raise_if_def ledger_wf_def)
qed

theorem durable_ledger_is_restored_witness:
  "\<exists>s. rebuild_exploration_state example_hash busy_log = Inr (Some s) \<and>
     fst (restore_durable_state s (new_ledger example_budget)) = Inr () \<and>
     successful_calls (snd (restore_durable_state s (new_ledger example_budget))) = 1"
proof -
  have "holds_after (\<lambda>s. caps_match (tl_policy (new_ledger example_budget)) s \<and>
      ls_tool_calls_by_kind s = [(''sql'', 1)] \<and> ls_tool_calls_committed s = 1)
      (rebuild_exploration_state example_hash busy_log)"
    by code_simp
  then obtain s where s: "rebuild_exploration_state example_hash busy_log = Inr (Some s)"
    "caps_match (tl_policy (new_ledger example_budget)) s" "ls_tool_calls_by_kind s = [(''sql'', 1)]"
    "ls_tool_calls_committed s = 1"
    by (auto elim: holds_afterE)
  have "py_strip ''sql'' \<noteq> []" by code_simp
  with durable_ledger_is_restored[OF reachable_busy[OF s(1)], of "new_ledger example_budget"] s
  show ?thesis by auto
qed

end
