(* ===== verification/Loops.thy ===== *)
theory Loops
  imports Prelude
begin

text \<open>A \<open>for\<close> loop that updates a state and may raise: the first exception ends it.\<close>

fun fold_res :: "('s \<Rightarrow> 'a \<Rightarrow> 'e + 's) \<Rightarrow> 's \<Rightarrow> 'a list \<Rightarrow> 'e + 's" where
  "fold_res f s [] = Inr s"
| "fold_res f s (x # xs) = bind_res (f s x) (\<lambda>t. fold_res f t xs)"

lemma fold_res_append:
  "fold_res f s (xs @ ys) = bind_res (fold_res f s xs) (\<lambda>t. fold_res f t ys)"
proof (induction xs arbitrary: s)
  case (Cons x xs)
  then show ?case by (cases "f s x") auto
qed simp

text \<open>An invariant of the loop, indexed by the elements it has seen.\<close>

lemma fold_res_union:
  assumes step: "\<And>S s x t. x \<in> set xs \<Longrightarrow> I S s \<Longrightarrow> f s x = Inr t \<Longrightarrow> I (S \<union> F x) t"
    and "I S s" "fold_res f s xs = Inr t"
  shows "I (S \<union> (\<Union>x \<in> set xs. F x)) t"
  using assms
proof (induction xs arbitrary: S s)
  case Nil
  then show ?case by simp
next
  case (Cons x xs)
  from Cons.prems(3) obtain u where u: "f s x = Inr u" "fold_res f u xs = Inr t"
    by (auto simp: res_simps)
  have "I (S \<union> F x) u" using Cons.prems(1)[of x S s u] Cons.prems(2) u(1) by simp
  then have "I (S \<union> F x \<union> (\<Union>x \<in> set xs. F x)) t"
    using Cons.IH[of "S \<union> F x" u] Cons.prems(1) u(2) by (meson list.set_intros(2))
  then show ?case by (simp add: Un_assoc)
qed

lemma fold_res_invariant:
  assumes "\<And>s x t. I s \<Longrightarrow> f s x = Inr t \<Longrightarrow> I t" "I s" "fold_res f s xs = Inr t"
  shows "I t"
  using assms(2,3)
proof (induction xs arbitrary: s)
  case (Cons x xs)
  then show ?case by (auto simp: res_simps intro: assms(1))
qed simp

text \<open>Sequencing of operations that keep what they did when they raise.\<close>

definition and_then :: "('e + 'a) \<times> 's \<Rightarrow> ('a \<Rightarrow> 's \<Rightarrow> ('e + 'b) \<times> 's) \<Rightarrow> ('e + 'b) \<times> 's" where
  "and_then r k = (case r of (Inl e, s) \<Rightarrow> (Inl e, s) | (Inr x, s) \<Rightarrow> k x s)"

lemma and_then_simps [simp]:
  "and_then (Inl e, s) k = (Inl e, s)"
  "and_then (Inr x, s) k = k x s"
  by (simp_all add: and_then_def)

lemma and_then_Inr: "and_then r k = (Inr y, t) \<longleftrightarrow> (\<exists>x s. r = (Inr x, s) \<and> k x s = (Inr y, t))"
  by (auto simp: and_then_def split: prod.splits sum.splits)

end
