(* ===== verification/ReceiptOutbox.thy ===== *)
theory ReceiptOutbox
  imports EventJournal Loops
begin

text \<open>
  The receipt outbox (\<open>core/receipt_outbox.py\<close>): an append-only file of records that makes
  committing a receipt exactly-once. The file is modelled byte by byte, as for the event
  journal; JSON is a parameter (\<open>dumps\<close>, \<open>loads\<close>), a record a dictionary of strings. The file
  lock makes each operation one atomic step; its records get the same time stamp, which no
  operation reads.
\<close>

section \<open>Entries and errors\<close>

datatype outbox_phase = Phase_Prepared | Phase_Artifact_Written | Phase_Committed | Phase_Aborted

record outbox_entry =
  oe_logical_step_id :: string
  oe_receipt_id :: string
  oe_artifact_id :: string
  oe_phase :: outbox_phase

record outbox_resolution =
  or_phase :: outbox_phase
  or_receipt_id :: string
  or_artifact_id :: string
  or_replayed :: bool

record reconcile_report =
  rr_rolled_forward :: "string list"
  rr_aborted :: "string list"

datatype outbox_error =
    Outbox_Key_Error string
  | Outbox_Blank_Record nat
  | Outbox_Invalid_Record nat
  | Duplicate_Prepare string
  | No_Active_Prepare string
  | Outbox_Receipt_Mismatch string
  | Abort_Of_Committed string
  | Unsupported_Outbox_Event string
  | No_Pending_Prepare string
  | Taken_Over string
  | Cannot_Mark outbox_phase
  | Cannot_Commit outbox_phase
  | Durable_Artifact_Missing string

type_synonym outbox_record = "(string, string) dict"
type_synonym entries = "(string, outbox_entry) dict"
type_synonym outbox_file = "bytes option"
type_synonym 'a outboxed = "(outbox_error + 'a) \<times> outbox_file"

section \<open>Reading\<close>

text \<open>The records before the first unreadable one, and the error it raises.\<close>

fun read_chunks ::
  "(bytes \<Rightarrow> outbox_record option) \<Rightarrow> bool \<Rightarrow> nat \<Rightarrow> bytes list
    \<Rightarrow> outbox_record list \<times> outbox_error option" where
  "read_chunks loads terminated n [] = ([], None)"
| "read_chunks loads terminated n (l # ls) =
     (if terminated \<and> ls = [] then ([], None)
      else if l = [] then
        (if ls = [] then ([], None) else ([], Some (Outbox_Blank_Record n)))
      else (case loads l of
        None \<Rightarrow> if ls = [] then ([], None) else ([], Some (Outbox_Invalid_Record n))
      | Some ev \<Rightarrow> (case read_chunks loads terminated (Suc n) ls of (evs, err) \<Rightarrow> (ev # evs, err))))"

definition read_outbox ::
  "(bytes \<Rightarrow> outbox_record option) \<Rightarrow> outbox_file \<Rightarrow> outbox_record list \<times> outbox_error option" where
  "read_outbox loads f = (case f of
     None \<Rightarrow> ([], None)
   | Some raw \<Rightarrow> if raw = [] then ([], None)
       else read_chunks loads (last raw = newline) 1 (split_lines raw))"

definition outbox_events ::
  "(bytes \<Rightarrow> outbox_record option) \<Rightarrow> outbox_file \<Rightarrow> outbox_error + outbox_record list" where
  "outbox_events loads f = (case read_outbox loads f of
     (evs, None) \<Rightarrow> Inr evs | (evs, Some e) \<Rightarrow> Inl e)"

definition outbox_field :: "outbox_record \<Rightarrow> string \<Rightarrow> outbox_error + string" where
  "outbox_field ev k = (case map_of ev k of None \<Rightarrow> Inl (Outbox_Key_Error k) | Some v \<Rightarrow> Inr v)"

definition set_phase :: "string \<Rightarrow> outbox_entry \<Rightarrow> outbox_phase \<Rightarrow> entries \<Rightarrow> entries" where
  "set_phase stp c ph m = dict_set stp (c\<lparr>oe_phase := ph\<rparr>) m"

definition is_live :: "outbox_entry option \<Rightarrow> bool" where
  "is_live c = (case c of None \<Rightarrow> False | Some c \<Rightarrow> oe_phase c \<noteq> Phase_Aborted)"

definition fold_prepared :: "string \<Rightarrow> outbox_record \<Rightarrow> entries \<Rightarrow> outbox_error + entries" where
  "fold_prepared stp ev m =
     (if is_live (map_of m stp) then Inl (Duplicate_Prepare stp)
      else bind_res (outbox_field ev ''receipt_id'') (\<lambda>r.
        bind_res (outbox_field ev ''artifact_id'') (\<lambda>a.
        Inr (dict_set stp \<lparr>oe_logical_step_id = stp, oe_receipt_id = r, oe_artifact_id = a,
          oe_phase = Phase_Prepared\<rparr> m))))"

definition fold_active ::
  "string \<Rightarrow> string \<Rightarrow> outbox_entry \<Rightarrow> entries \<Rightarrow> outbox_error + entries" where
  "fold_active k stp c m =
     (if k = ''artifact_written'' then
        Inr (if oe_phase c = Phase_Prepared then set_phase stp c Phase_Artifact_Written m else m)
      else if k = ''receipt_committed'' then Inr (set_phase stp c Phase_Committed m)
      else if k = ''prepare_aborted'' then
        (if oe_phase c = Phase_Committed then Inl (Abort_Of_Committed stp)
         else Inr (set_phase stp c Phase_Aborted m))
      else Inl (Unsupported_Outbox_Event k))"

definition fold_event :: "outbox_record \<Rightarrow> entries \<Rightarrow> outbox_error + entries" where
  "fold_event ev m =
     bind_res (outbox_field ev ''event'') (\<lambda>k.
     bind_res (outbox_field ev ''logical_step_id'') (\<lambda>stp.
       if k = ''tool_prepared'' then fold_prepared stp ev m
       else (case map_of m stp of
           None \<Rightarrow> Inl (No_Active_Prepare stp)
         | Some c \<Rightarrow>
             if oe_phase c = Phase_Aborted then Inl (No_Active_Prepare stp)
             else if map_of ev ''receipt_id'' \<noteq> Some (oe_receipt_id c)
             then Inl (Outbox_Receipt_Mismatch stp)
             else fold_active k stp c m)))"

fun fold_events :: "outbox_record list \<Rightarrow> entries \<Rightarrow> outbox_error + entries" where
  "fold_events [] m = Inr m"
| "fold_events (ev # evs) m = bind_res (fold_event ev m) (fold_events evs)"

text \<open>The records are folded as they are read: an unreadable one is reported after the ones
  before it.\<close>

definition outbox_fold ::
  "(bytes \<Rightarrow> outbox_record option) \<Rightarrow> outbox_file \<Rightarrow> outbox_error + entries" where
  "outbox_fold loads f = (case read_outbox loads f of
     (evs, err) \<Rightarrow> bind_res (fold_events evs []) (\<lambda>m.
       case err of None \<Rightarrow> Inr m | Some e \<Rightarrow> Inl e))"

definition outbox_state ::
  "(bytes \<Rightarrow> outbox_record option) \<Rightarrow> string \<Rightarrow> outbox_file \<Rightarrow> outbox_error + outbox_entry option" where
  "outbox_state loads stp f = bind_res (outbox_fold loads f) (\<lambda>m. Inr (map_of m stp))"

section \<open>Writing\<close>

definition event_types :: "string list" where
  "event_types = [''tool_prepared'', ''artifact_written'', ''receipt_committed'', ''prepare_aborted'']"

definition outbox_record_of ::
  "string \<Rightarrow> string \<Rightarrow> string \<Rightarrow> string \<Rightarrow> string \<Rightarrow> outbox_record" where
  "outbox_record_of now k stp receipt artifact =
     [(''event'', k), (''created_at'', now), (''logical_step_id'', stp),
      (''receipt_id'', receipt), (''artifact_id'', artifact)]"

definition truncate_torn_tail :: "outbox_file \<Rightarrow> outbox_file" where
  "truncate_torn_tail f = map_option truncate_tail f"

definition file_bytes :: "outbox_file \<Rightarrow> bytes" where
  "file_bytes f = (case f of None \<Rightarrow> [] | Some raw \<Rightarrow> raw)"

definition outbox_append ::
  "(outbox_record \<Rightarrow> bytes) \<Rightarrow> string \<Rightarrow> string \<Rightarrow> string \<Rightarrow> string \<Rightarrow> string
    \<Rightarrow> outbox_file \<Rightarrow> unit outboxed" where
  "outbox_append dumps now k stp receipt artifact f =
     (if k \<notin> set event_types then (Inl (Unsupported_Outbox_Event k), f)
      else (Inr (), Some (file_bytes (truncate_torn_tail f) @
        dumps (outbox_record_of now k stp receipt artifact) @ [newline])))"

text \<open>A crash inside the write: the first \<open>n\<close> bytes of the record line are in the file.\<close>

definition crashed_outbox_append ::
  "(outbox_record \<Rightarrow> bytes) \<Rightarrow> nat \<Rightarrow> string \<Rightarrow> string \<Rightarrow> string \<Rightarrow> string \<Rightarrow> string
    \<Rightarrow> outbox_file \<Rightarrow> outbox_file" where
  "crashed_outbox_append dumps n now k stp receipt artifact f =
     Some (file_bytes (truncate_torn_tail f) @
       take n (dumps (outbox_record_of now k stp receipt artifact) @ [newline]))"

section \<open>Operations\<close>

definition resolution :: "outbox_entry \<Rightarrow> outbox_resolution" where
  "resolution c = \<lparr>or_phase = Phase_Committed, or_receipt_id = oe_receipt_id c,
     or_artifact_id = oe_artifact_id c, or_replayed = True\<rparr>"

definition append_for ::
  "(outbox_record \<Rightarrow> bytes) \<Rightarrow> string \<Rightarrow> string \<Rightarrow> outbox_entry \<Rightarrow> outbox_file \<Rightarrow> unit outboxed" where
  "append_for dumps now k c =
     outbox_append dumps now k (oe_logical_step_id c) (oe_receipt_id c) (oe_artifact_id c)"

definition resolve_pending ::
  "(outbox_record \<Rightarrow> bytes) \<Rightarrow> string \<Rightarrow> (string \<Rightarrow> bool) \<Rightarrow> outbox_entry \<Rightarrow> outbox_file
    \<Rightarrow> outbox_resolution option outboxed" where
  "resolve_pending dumps now artifact_exists c f =
     (if oe_phase c = Phase_Committed then (Inr (Some (resolution c)), f)
      else if artifact_exists (oe_artifact_id c) then
        and_then (if oe_phase c = Phase_Prepared
                  then append_for dumps now ''artifact_written'' c f else (Inr (), f)) (\<lambda>_ f.
        and_then (append_for dumps now ''receipt_committed'' c f) (\<lambda>_ f.
        (Inr (Some (resolution c)), f)))
      else if oe_phase c = Phase_Artifact_Written
      then (Inl (Durable_Artifact_Missing (oe_artifact_id c)), f)
      else (Inr None, f))"

definition prepare_fresh ::
  "(outbox_record \<Rightarrow> bytes) \<Rightarrow> string \<Rightarrow> string \<Rightarrow> string \<Rightarrow> string \<Rightarrow> outbox_file
    \<Rightarrow> outbox_resolution outboxed" where
  "prepare_fresh dumps now stp receipt artifact f =
     and_then (outbox_append dumps now ''tool_prepared'' stp receipt artifact f) (\<lambda>_ f.
     (Inr \<lparr>or_phase = Phase_Prepared, or_receipt_id = receipt, or_artifact_id = artifact,
        or_replayed = False\<rparr>, f))"

definition outbox_prepare ::
  "(outbox_record \<Rightarrow> bytes) \<Rightarrow> (bytes \<Rightarrow> outbox_record option) \<Rightarrow> string \<Rightarrow> (string \<Rightarrow> bool)
    \<Rightarrow> string \<Rightarrow> string \<Rightarrow> string \<Rightarrow> outbox_file \<Rightarrow> outbox_resolution outboxed" where
  "outbox_prepare dumps loads now artifact_exists stp receipt artifact f =
     and_then (outbox_fold loads f, f) (\<lambda>m f.
       case map_of m stp of
         None \<Rightarrow> prepare_fresh dumps now stp receipt artifact f
       | Some c \<Rightarrow>
           if oe_phase c = Phase_Aborted then prepare_fresh dumps now stp receipt artifact f
           else and_then (resolve_pending dumps now artifact_exists c f) (\<lambda>resolved f.
             case resolved of
               Some r \<Rightarrow> (Inr r, f)
             | None \<Rightarrow>
                 and_then (outbox_append dumps now ''prepare_aborted'' stp (oe_receipt_id c)
                   (oe_artifact_id c) f) (\<lambda>_ f.
                 prepare_fresh dumps now stp receipt artifact f)))"

definition require_entry ::
  "(bytes \<Rightarrow> outbox_record option) \<Rightarrow> string \<Rightarrow> string option \<Rightarrow> outbox_file
    \<Rightarrow> outbox_error + outbox_entry" where
  "require_entry loads stp expected f = bind_res (outbox_fold loads f) (\<lambda>m.
     case map_of m stp of
       None \<Rightarrow> Inl (No_Pending_Prepare stp)
     | Some c \<Rightarrow>
         if oe_phase c = Phase_Aborted then Inl (No_Pending_Prepare stp)
         else if expected \<noteq> None \<and> Some (oe_receipt_id c) \<noteq> expected then Inl (Taken_Over stp)
         else Inr c)"

definition mark_artifact_written ::
  "(outbox_record \<Rightarrow> bytes) \<Rightarrow> (bytes \<Rightarrow> outbox_record option) \<Rightarrow> string \<Rightarrow> string
    \<Rightarrow> string option \<Rightarrow> outbox_file \<Rightarrow> unit outboxed" where
  "mark_artifact_written dumps loads now stp expected f =
     and_then (require_entry loads stp expected f, f) (\<lambda>c f.
       if oe_phase c \<in> {Phase_Artifact_Written, Phase_Committed} then (Inr (), f)
       else if oe_phase c \<noteq> Phase_Prepared then (Inl (Cannot_Mark (oe_phase c)), f)
       else outbox_append dumps now ''artifact_written'' stp (oe_receipt_id c) (oe_artifact_id c) f)"

definition outbox_commit ::
  "(outbox_record \<Rightarrow> bytes) \<Rightarrow> (bytes \<Rightarrow> outbox_record option) \<Rightarrow> string \<Rightarrow> string
    \<Rightarrow> string option \<Rightarrow> outbox_file \<Rightarrow> unit outboxed" where
  "outbox_commit dumps loads now stp expected f =
     and_then (require_entry loads stp expected f, f) (\<lambda>c f.
       if oe_phase c = Phase_Committed then (Inr (), f)
       else if oe_phase c \<noteq> Phase_Artifact_Written then (Inl (Cannot_Commit (oe_phase c)), f)
       else outbox_append dumps now ''receipt_committed'' stp (oe_receipt_id c) (oe_artifact_id c) f)"

fun reconcile_entries ::
  "(outbox_record \<Rightarrow> bytes) \<Rightarrow> string \<Rightarrow> (string \<Rightarrow> bool) \<Rightarrow> entries \<Rightarrow> reconcile_report
    \<Rightarrow> outbox_file \<Rightarrow> reconcile_report outboxed" where
  "reconcile_entries dumps now artifact_exists [] rep f = (Inr rep, f)"
| "reconcile_entries dumps now artifact_exists ((stp, c) # rest) rep f =
     (if oe_phase c \<notin> {Phase_Prepared, Phase_Artifact_Written}
      then reconcile_entries dumps now artifact_exists rest rep f
      else and_then (resolve_pending dumps now artifact_exists c f) (\<lambda>resolved f.
        if resolved \<noteq> None
        then reconcile_entries dumps now artifact_exists rest
          (rep\<lparr>rr_rolled_forward := rr_rolled_forward rep @ [stp]\<rparr>) f
        else and_then (outbox_append dumps now ''prepare_aborted'' stp (oe_receipt_id c)
            (oe_artifact_id c) f) (\<lambda>_ f.
          reconcile_entries dumps now artifact_exists rest
            (rep\<lparr>rr_aborted := rr_aborted rep @ [stp]\<rparr>) f)))"

definition outbox_reconcile ::
  "(outbox_record \<Rightarrow> bytes) \<Rightarrow> (bytes \<Rightarrow> outbox_record option) \<Rightarrow> string \<Rightarrow> (string \<Rightarrow> bool)
    \<Rightarrow> outbox_file \<Rightarrow> reconcile_report outboxed" where
  "outbox_reconcile dumps loads now artifact_exists f =
     and_then (outbox_fold loads f, f) (\<lambda>m f.
       reconcile_entries dumps now artifact_exists m \<lparr>rr_rolled_forward = [], rr_aborted = []\<rparr> f)"

section \<open>Reading what was written\<close>

text \<open>What the outbox relies on from JSON: an encoded record is one line, decodes to the same
  fields, and no proper prefix of it is a record.\<close>

definition outbox_codec ::
  "(outbox_record \<Rightarrow> bytes) \<Rightarrow> (bytes \<Rightarrow> outbox_record option) \<Rightarrow> bool" where
  "outbox_codec dumps loads \<longleftrightarrow> (\<forall>d. dumps d \<noteq> [] \<and> newline \<notin> set (dumps d) \<and>
     (\<exists>e. loads (dumps d) = Some e \<and> map_of e = map_of d) \<and>
     (\<forall>n < length (dumps d). loads (take n (dumps d)) = None))"

text \<open>What is read: the committed lines, and the tail after the last line feed if it is a
  record.\<close>

fun read_lines ::
  "(bytes \<Rightarrow> outbox_record option) \<Rightarrow> nat \<Rightarrow> bytes list \<Rightarrow> outbox_record list \<times> outbox_error option" where
  "read_lines loads n [] = ([], None)"
| "read_lines loads n (l # ls) =
     (if l = [] then ([], Some (Outbox_Blank_Record n))
      else (case loads l of
        None \<Rightarrow> ([], Some (Outbox_Invalid_Record n))
      | Some ev \<Rightarrow> (case read_lines loads (Suc n) ls of (evs, err) \<Rightarrow> (ev # evs, err))))"

definition tail_records :: "(bytes \<Rightarrow> outbox_record option) \<Rightarrow> bytes \<Rightarrow> outbox_record list" where
  "tail_records loads l = (if l = [] then [] else case loads l of None \<Rightarrow> [] | Some ev \<Rightarrow> [ev])"

lemma read_chunks_lines:
  "read_chunks loads False n (ls @ [l]) = (case read_lines loads n ls of
     (evs, None) \<Rightarrow> (evs @ tail_records loads l, None) | (evs, Some e) \<Rightarrow> (evs, Some e))"
  by (induction ls arbitrary: n)
    (auto simp: tail_records_def split: option.split prod.split)

lemma read_chunks_terminated:
  "read_chunks loads True n (ls @ [l]) = read_lines loads n ls"
  by (induction ls arbitrary: n) (auto split: option.split prod.split)

lemma split_lines_Nil_last: "raw \<noteq> [] \<Longrightarrow> last raw = newline \<longleftrightarrow> last (split_lines raw) = []"
proof (cases raw rule: rev_cases)
  case (snoc p c)
  then show ?thesis
    using split_lines_newline[of p] split_lines_append[of "[c]" p] by (cases "c = newline") auto
qed simp

lemma split_lines_snoc: "split_lines raw = committed_lines raw @ [last (split_lines raw)]"
  by (simp add: committed_lines_def)

abbreviation torn_tail :: "outbox_file \<Rightarrow> bytes" where
  "torn_tail f \<equiv> last (split_lines (file_bytes f))"

lemma read_outbox_lines:
  "read_outbox loads f = (case read_lines loads 1 (committed_lines (file_bytes f)) of
     (evs, None) \<Rightarrow> (evs @ tail_records loads (torn_tail f), None)
   | (evs, Some e) \<Rightarrow> (evs, Some e))"
proof (cases "file_bytes f = []")
  case True
  then show ?thesis
    by (auto simp: read_outbox_def file_bytes_def committed_lines_def tail_records_def split: option.splits)
next
  case False
  then obtain raw where f: "f = Some raw" "raw \<noteq> []" by (auto simp: file_bytes_def split: option.splits)
  then have b: "file_bytes f = raw" by (simp add: file_bytes_def)
  show ?thesis
  proof (cases "last raw = newline")
    case True
    then have "tail_records loads (torn_tail f) = []"
      using f(2) split_lines_Nil_last[of raw] by (simp add: tail_records_def b)
    moreover have "read_outbox loads f = read_lines loads 1 (committed_lines raw)"
      using True f read_chunks_terminated[of loads 1 "committed_lines raw" "last (split_lines raw)"]
      by (simp add: read_outbox_def split_lines_snoc[symmetric])
    ultimately show ?thesis by (simp add: b split: prod.split option.split)
  next
    case tail: False
    then show ?thesis unfolding b
      using f read_chunks_lines[of loads 1 "committed_lines raw" "last (split_lines raw)"]
      by (simp add: read_outbox_def split_lines_snoc[symmetric])
  qed
qed

lemma read_lines_snoc:
  "read_lines loads n (ls @ [l]) = (case read_lines loads n ls of
     (evs, None) \<Rightarrow> (if l = [] then (evs, Some (Outbox_Blank_Record (n + length ls)))
       else case loads l of None \<Rightarrow> (evs, Some (Outbox_Invalid_Record (n + length ls)))
         | Some ev \<Rightarrow> (evs @ [ev], None))
   | (evs, Some e) \<Rightarrow> (evs, Some e))"
  by (induction ls arbitrary: n) (auto split: option.splits prod.splits)

lemma fold_events_append:
  "fold_events (evs @ gs) m = bind_res (fold_events evs m) (fold_events gs)"
proof (induction evs arbitrary: m)
  case (Cons ev evs)
  then show ?case by (cases "fold_event ev m") simp_all
qed simp

text \<open>Only the fields of a record matter.\<close>

lemma fold_event_cong:
  assumes "map_of e = map_of d"
  shows "fold_event e m = fold_event d m"
proof -
  have "outbox_field e = outbox_field d" using assms by (simp add: fun_eq_iff outbox_field_def)
  then have "fold_prepared stp e m = fold_prepared stp d m" for stp by (simp add: fold_prepared_def)
  with \<open>outbox_field e = outbox_field d\<close> assms show ?thesis
    by (simp add: fold_event_def cong: if_cong option.case_cong)
qed

text \<open>A file whose tail is no record: every file but one cut right before a line feed.\<close>

definition clean_file :: "(bytes \<Rightarrow> outbox_record option) \<Rightarrow> outbox_file \<Rightarrow> bool" where
  "clean_file loads f \<longleftrightarrow> tail_records loads (torn_tail f) = []"

lemma fold_clean:
  "clean_file loads f \<Longrightarrow> outbox_fold loads f =
     (case read_lines loads 1 (committed_lines (file_bytes f)) of
       (evs, err) \<Rightarrow> bind_res (fold_events evs []) (\<lambda>m. case err of None \<Rightarrow> Inr m | Some e \<Rightarrow> Inl e))"
  by (simp add: outbox_fold_def read_outbox_lines clean_file_def split: prod.split option.split)

lemma append_written:
  assumes "outbox_codec dumps loads" "k \<in> set event_types"
  shows "\<exists>g. outbox_append dumps now k stp receipt artifact f = (Inr (), g) \<and>
    committed_lines (file_bytes g) = committed_lines (file_bytes f) @
      [dumps (outbox_record_of now k stp receipt artifact)] \<and> torn_tail g = []"
proof -
  let ?l = "dumps (outbox_record_of now k stp receipt artifact)"
  have t: "file_bytes (truncate_torn_tail f) = truncate_tail (file_bytes f)"
    by (cases f) (simp_all add: file_bytes_def truncate_torn_tail_def truncate_tail_def)
  have nl: "newline \<notin> set ?l" using assms(1) by (simp add: outbox_codec_def)
  have "last (split_lines (truncate_tail (file_bytes f) @ ?l @ [newline])) = []"
    using split_lines_newline[of "truncate_tail (file_bytes f) @ ?l"] by simp
  with committed_lines_append(1)[OF nl, of "file_bytes f"] show ?thesis
    using assms(2) by (simp add: outbox_append_def t) (simp add: file_bytes_def)
qed

lemma bind_res_single: "bind_res r Inr = r" "bind_res (fold_event e m) (fold_events []) = fold_event e m"
  by (cases r, simp_all) (cases "fold_event e m", simp_all)

text \<open>An append folds to what its record does to the entries.\<close>

lemma append_folds:
  assumes "outbox_codec dumps loads" "k \<in> set event_types" "clean_file loads f"
    and "outbox_fold loads f = Inr m"
  obtains g where "outbox_append dumps now k stp receipt artifact f = (Inr (), g)" "clean_file loads g"
    "outbox_fold loads g = fold_event (outbox_record_of now k stp receipt artifact) m"
proof -
  let ?d = "outbox_record_of now k stp receipt artifact"
  obtain g where g: "outbox_append dumps now k stp receipt artifact f = (Inr (), g)"
    "committed_lines (file_bytes g) = committed_lines (file_bytes f) @ [dumps ?d]" "torn_tail g = []"
    using append_written[OF assms(1,2)] by blast
  obtain e where e: "loads (dumps ?d) = Some e" "map_of e = map_of ?d"
    using assms(1) by (auto simp: outbox_codec_def)
  have ne: "dumps ?d \<noteq> []" using assms(1) by (simp add: outbox_codec_def)
  have clean: "clean_file loads g" by (simp add: clean_file_def g(3) tail_records_def)
  moreover have "outbox_fold loads g = fold_event ?d m"
    using assms(4) fold_event_cong[OF e(2)] e(1) ne unfolding fold_clean[OF clean] fold_clean[OF assms(3)] g(2)
    by (auto simp: read_lines_snoc fold_events_append bind_res_Inr_iff bind_res_single
        split: prod.splits option.splits)
  ultimately show thesis using g(1) that by blast
qed

section \<open>What a record does\<close>

text \<open>Entries are kept under their own step.\<close>

definition entries_wf :: "entries \<Rightarrow> bool" where
  "entries_wf m \<longleftrightarrow> distinct (dict_keys m) \<and> (\<forall>k c. map_of m k = Some c \<longrightarrow> oe_logical_step_id c = k)"

definition keeps_committed :: "entries \<Rightarrow> entries \<Rightarrow> bool" where
  "keeps_committed m m' \<longleftrightarrow> (\<forall>k c. map_of m k = Some c \<longrightarrow> oe_phase c = Phase_Committed \<longrightarrow>
     map_of m' k = Some c)"

lemma keeps_committed_refl [simp]: "keeps_committed m m"
  by (simp add: keeps_committed_def)

lemma keeps_committed_trans: "keeps_committed m n \<Longrightarrow> keeps_committed n p \<Longrightarrow> keeps_committed m p"
  by (auto simp: keeps_committed_def)

lemma dict_set_wf:
  "entries_wf m \<Longrightarrow> oe_logical_step_id c = stp \<Longrightarrow> entries_wf (dict_set stp c m)"
  by (auto simp: entries_wf_def split: if_splits)

lemma set_phase_wf:
  "entries_wf m \<Longrightarrow> map_of m stp = Some c \<Longrightarrow> entries_wf (set_phase stp c ph m)"
  by (auto simp: entries_wf_def set_phase_def split: if_splits)

lemma committed_phase [simp]: "oe_phase c = ph \<Longrightarrow> c\<lparr>oe_phase := ph\<rparr> = c"
  by simp

lemma fold_event_keeps:
  assumes "fold_event ev m = Inr m'" "entries_wf m"
  shows "entries_wf m'" "keeps_committed m m'"
proof -
  obtain k stp where k: "outbox_field ev ''event'' = Inr k" "outbox_field ev ''logical_step_id'' = Inr stp"
    using assms(1) by (auto simp: fold_event_def bind_res_Inr_iff)
  have "entries_wf m' \<and> keeps_committed m m'"
  proof (cases "k = ''tool_prepared''")
    case True
    then have "fold_prepared stp ev m = Inr m'" using assms(1) k by (simp add: fold_event_def)
    then obtain r a where m': "m' = dict_set stp \<lparr>oe_logical_step_id = stp, oe_receipt_id = r,
        oe_artifact_id = a, oe_phase = Phase_Prepared\<rparr> m" "\<not> is_live (map_of m stp)"
      by (auto simp: fold_prepared_def bind_res_Inr_iff split: if_splits)
    then have "keeps_committed m m'" by (auto simp: keeps_committed_def is_live_def)
    moreover have "entries_wf m'" unfolding m'(1) using assms(2) by (rule dict_set_wf) simp
    ultimately show ?thesis by simp
  next
    case False
    then obtain c where c: "map_of m stp = Some c" "oe_phase c \<noteq> Phase_Aborted" "fold_active k stp c m = Inr m'"
      using assms(1) k by (auto simp: fold_event_def split: option.splits if_splits)
    then have "m' = m \<or> (\<exists>ph. m' = set_phase stp c ph m \<and> (oe_phase c = Phase_Committed \<longrightarrow> ph = Phase_Committed))"
      by (auto simp: fold_active_def split: if_splits)
    then show ?thesis
    proof
      assume "\<exists>ph. m' = set_phase stp c ph m \<and> (oe_phase c = Phase_Committed \<longrightarrow> ph = Phase_Committed)"
      then obtain ph where ph: "m' = set_phase stp c ph m" "oe_phase c = Phase_Committed \<longrightarrow> ph = Phase_Committed"
        by blast
      have "keeps_committed m m'"
        using c(1) ph by (auto simp: keeps_committed_def set_phase_def)
      with set_phase_wf[OF assms(2) c(1)] ph(1) show ?thesis by simp
    qed (use assms(2) in simp)
  qed
  then show "entries_wf m'" "keeps_committed m m'" by simp_all
qed

lemma fold_events_keeps:
  "fold_events evs m = Inr m' \<Longrightarrow> entries_wf m \<Longrightarrow> entries_wf m' \<and> keeps_committed m m'"
proof (induction evs arbitrary: m)
  case (Cons ev evs)
  then show ?case
    by (auto simp: bind_res_Inr_iff dest: fold_event_keeps intro: keeps_committed_trans)
qed simp

lemma outbox_fold_wf: "outbox_fold loads f = Inr m \<Longrightarrow> entries_wf m"
  using fold_events_keeps[of _ "[]" m]
  by (auto simp: outbox_fold_def bind_res_Inr_iff entries_wf_def split: prod.splits option.splits)

lemma record_fields [simp]:
  "outbox_field (outbox_record_of now k stp r a) ''event'' = Inr k"
  "outbox_field (outbox_record_of now k stp r a) ''logical_step_id'' = Inr stp"
  "outbox_field (outbox_record_of now k stp r a) ''receipt_id'' = Inr r"
  "outbox_field (outbox_record_of now k stp r a) ''artifact_id'' = Inr a"
  "map_of (outbox_record_of now k stp r a) ''receipt_id'' = Some r"
  by (simp_all add: outbox_field_def outbox_record_of_def)

lemma fold_records:
  "\<not> is_live (map_of m stp) \<Longrightarrow> fold_event (outbox_record_of now ''tool_prepared'' stp r a) m =
     Inr (dict_set stp \<lparr>oe_logical_step_id = stp, oe_receipt_id = r, oe_artifact_id = a,
       oe_phase = Phase_Prepared\<rparr> m)"
  "map_of m stp = Some c \<Longrightarrow> oe_phase c = Phase_Prepared \<Longrightarrow>
     fold_event (outbox_record_of now ''artifact_written'' stp (oe_receipt_id c) a) m =
     Inr (set_phase stp c Phase_Artifact_Written m)"
  "map_of m stp = Some c \<Longrightarrow> oe_phase c \<noteq> Phase_Aborted \<Longrightarrow>
     fold_event (outbox_record_of now ''receipt_committed'' stp (oe_receipt_id c) a) m =
     Inr (set_phase stp c Phase_Committed m)"
  "map_of m stp = Some c \<Longrightarrow> oe_phase c \<in> {Phase_Prepared, Phase_Artifact_Written} \<Longrightarrow>
     fold_event (outbox_record_of now ''prepare_aborted'' stp (oe_receipt_id c) a) m =
     Inr (set_phase stp c Phase_Aborted m)"
  by (auto simp: fold_event_def fold_prepared_def fold_active_def)

lemma map_of_set_phase [simp]:
  "map_of (set_phase stp c ph m) = (map_of m)(stp \<mapsto> c\<lparr>oe_phase := ph\<rparr>)"
  by (simp add: set_phase_def)

lemma event_types_mem [simp]:
  "''tool_prepared'' \<in> set event_types" "''artifact_written'' \<in> set event_types"
  "''receipt_committed'' \<in> set event_types" "''prepare_aborted'' \<in> set event_types"
  by (simp_all add: event_types_def)

text \<open>A file that reads well, with its entries.\<close>

definition holds :: "(bytes \<Rightarrow> outbox_record option) \<Rightarrow> outbox_file \<Rightarrow> entries \<Rightarrow> bool" where
  "holds loads f m \<longleftrightarrow> clean_file loads f \<and> outbox_fold loads f = Inr m"

lemma holds_wf: "holds loads f m \<Longrightarrow> entries_wf m"
  by (auto simp: holds_def outbox_fold_wf)

lemma holds_append:
  assumes "outbox_codec dumps loads" "k \<in> set event_types" "holds loads f m"
    and "fold_event (outbox_record_of now k stp receipt artifact) m = Inr m'"
  obtains g where "outbox_append dumps now k stp receipt artifact f = (Inr (), g)" "holds loads g m'"
proof -
  from assms(3) have c: "clean_file loads f" "outbox_fold loads f = Inr m" by (auto simp: holds_def)
  obtain g where "outbox_append dumps now k stp receipt artifact f = (Inr (), g)" "clean_file loads g"
    "outbox_fold loads g = fold_event (outbox_record_of now k stp receipt artifact) m"
    by (rule append_folds[OF assms(1,2) c])
  with assms(4) that show thesis by (simp add: holds_def)
qed

text \<open>Resolving a pending entry rolls it forward, refuses it, or leaves it alone.\<close>

lemma resolve_holds:
  assumes "outbox_codec dumps loads" "holds loads f m" "map_of m stp = Some c"
    and "oe_phase c \<noteq> Phase_Aborted"
  shows "oe_phase c \<noteq> Phase_Committed \<Longrightarrow> artifact_exists (oe_artifact_id c) \<Longrightarrow>
      \<exists>g m'. resolve_pending dumps now artifact_exists c f = (Inr (Some (resolution c)), g) \<and>
        holds loads g m' \<and> map_of m' = (map_of m)(stp \<mapsto> c\<lparr>oe_phase := Phase_Committed\<rparr>)"
    and "oe_phase c = Phase_Committed \<Longrightarrow>
      resolve_pending dumps now artifact_exists c f = (Inr (Some (resolution c)), f)"
    and "oe_phase c = Phase_Artifact_Written \<Longrightarrow> \<not> artifact_exists (oe_artifact_id c) \<Longrightarrow>
      resolve_pending dumps now artifact_exists c f =
        (Inl (Durable_Artifact_Missing (oe_artifact_id c)), f)"
    and "oe_phase c = Phase_Prepared \<Longrightarrow> \<not> artifact_exists (oe_artifact_id c) \<Longrightarrow>
      resolve_pending dumps now artifact_exists c f = (Inr None, f)"
proof -
  have stp: "oe_logical_step_id c = stp" using holds_wf[OF assms(2)] assms(3) by (simp add: entries_wf_def)
  assume nc: "oe_phase c \<noteq> Phase_Committed" and ex: "artifact_exists (oe_artifact_id c)"
  obtain g m1 where g: "(if oe_phase c = Phase_Prepared then append_for dumps now ''artifact_written'' c f
      else (Inr (), f)) = (Inr (), g)" "holds loads g m1"
    "\<exists>c1. map_of m1 = (map_of m)(stp \<mapsto> c1) \<and> oe_phase c1 \<noteq> Phase_Aborted \<and>
       c1\<lparr>oe_phase := Phase_Committed\<rparr> = c\<lparr>oe_phase := Phase_Committed\<rparr> \<and> oe_receipt_id c1 = oe_receipt_id c"
  proof (cases "oe_phase c = Phase_Prepared")
    case True
    from holds_append[OF assms(1) event_types_mem(2) assms(2) fold_records(2)[OF assms(3) True]]
    obtain g where "outbox_append dumps now ''artifact_written'' stp (oe_receipt_id c) (oe_artifact_id c) f = (Inr (), g)"
      "holds loads g (set_phase stp c Phase_Artifact_Written m)" by blast
    with True show ?thesis
      by (intro that[of g "set_phase stp c Phase_Artifact_Written m"]) (auto simp: append_for_def stp)
  next
    case False
    moreover have "map_of m = (map_of m)(stp \<mapsto> c)" using assms(3) by (metis fun_upd_triv)
    ultimately show ?thesis using assms(2,4) by (intro that[of f m]) auto
  qed
  then obtain c1 where c1: "map_of m1 = (map_of m)(stp \<mapsto> c1)" "oe_phase c1 \<noteq> Phase_Aborted"
    "c1\<lparr>oe_phase := Phase_Committed\<rparr> = c\<lparr>oe_phase := Phase_Committed\<rparr>" "oe_receipt_id c1 = oe_receipt_id c"
    by blast
  have "map_of m1 stp = Some c1" by (simp add: c1(1))
  from holds_append[OF assms(1) event_types_mem(3) g(2) fold_records(3)[OF this c1(2)], of now "oe_artifact_id c"]
  obtain g2 where "outbox_append dumps now ''receipt_committed'' stp (oe_receipt_id c) (oe_artifact_id c) g = (Inr (), g2)"
    "holds loads g2 (set_phase stp c1 Phase_Committed m1)" unfolding c1(4) by blast
  then show "\<exists>g m'. resolve_pending dumps now artifact_exists c f = (Inr (Some (resolution c)), g) \<and>
      holds loads g m' \<and> map_of m' = (map_of m)(stp \<mapsto> c\<lparr>oe_phase := Phase_Committed\<rparr>)"
    using nc ex g(1) c1(1,3)
    by (intro exI[of _ g2] exI[of _ "set_phase stp c1 Phase_Committed m1"])
      (simp add: resolve_pending_def append_for_def stp)
qed (simp_all add: resolve_pending_def)

section \<open>Reconciling\<close>

definition is_pending :: "outbox_entry \<Rightarrow> bool" where
  "is_pending c \<longleftrightarrow> oe_phase c \<in> {Phase_Prepared, Phase_Artifact_Written}"

text \<open>What reconciling makes of an entry.\<close>

definition settled_entry :: "(string \<Rightarrow> bool) \<Rightarrow> outbox_entry \<Rightarrow> outbox_entry" where
  "settled_entry artifact_exists c =
     (if \<not> is_pending c then c
      else if artifact_exists (oe_artifact_id c) then c\<lparr>oe_phase := Phase_Committed\<rparr>
      else c\<lparr>oe_phase := Phase_Aborted\<rparr>)"

definition artifact_lost :: "(string \<Rightarrow> bool) \<Rightarrow> outbox_entry \<Rightarrow> bool" where
  "artifact_lost artifact_exists c \<longleftrightarrow>
     oe_phase c = Phase_Artifact_Written \<and> \<not> artifact_exists (oe_artifact_id c)"

definition rolled_steps :: "(string \<Rightarrow> bool) \<Rightarrow> entries \<Rightarrow> string list" where
  "rolled_steps artifact_exists m =
     map fst (filter (\<lambda>(k, c). is_pending c \<and> artifact_exists (oe_artifact_id c)) m)"

definition aborted_steps :: "(string \<Rightarrow> bool) \<Rightarrow> entries \<Rightarrow> string list" where
  "aborted_steps artifact_exists m =
     map fst (filter (\<lambda>(k, c). is_pending c \<and> \<not> artifact_exists (oe_artifact_id c)) m)"

text \<open>Settling one pending entry whose artifact is not lost.\<close>

lemma settle_entry:
  assumes "outbox_codec dumps loads" "holds loads f m" "map_of m stp = Some c" "is_pending c"
    and "\<not> artifact_lost artifact_exists c"
  obtains g m' where "holds loads g m'" "map_of m' = (map_of m)(stp \<mapsto> settled_entry artifact_exists c)"
    "reconcile_entries dumps now artifact_exists ((stp, c) # rest) rep f =
      reconcile_entries dumps now artifact_exists rest
        (if artifact_exists (oe_artifact_id c)
         then rep\<lparr>rr_rolled_forward := rr_rolled_forward rep @ [stp]\<rparr>
         else rep\<lparr>rr_aborted := rr_aborted rep @ [stp]\<rparr>) g"
proof (cases "artifact_exists (oe_artifact_id c)")
  case True
  have "oe_phase c \<noteq> Phase_Aborted" "oe_phase c \<noteq> Phase_Committed" using assms(4) by (auto simp: is_pending_def)
  from resolve_holds(1)[where artifact_exists = artifact_exists, OF assms(1-3) this True, of now] obtain g m' where
    g: "resolve_pending dumps now artifact_exists c f = (Inr (Some (resolution c)), g)" "holds loads g m'"
      "map_of m' = (map_of m)(stp \<mapsto> c\<lparr>oe_phase := Phase_Committed\<rparr>)"
    by blast
  with True assms(4) show ?thesis
    by (intro that[of g m']) (auto simp: settled_entry_def is_pending_def)
next
  case False
  then have prep: "oe_phase c = Phase_Prepared"
    using assms(4,5) by (auto simp: is_pending_def artifact_lost_def)
  then have "oe_phase c \<noteq> Phase_Aborted" by simp
  note none = resolve_holds(4)[where artifact_exists = artifact_exists, OF assms(1-3) this prep False, of now]
  have "oe_phase c \<in> {Phase_Prepared, Phase_Artifact_Written}" using prep by simp
  from holds_append[OF assms(1) event_types_mem(4) assms(2) fold_records(4)[OF assms(3) this], of now]
  obtain g where "outbox_append dumps now ''prepare_aborted'' stp (oe_receipt_id c) (oe_artifact_id c) f = (Inr (), g)"
    "holds loads g (set_phase stp c Phase_Aborted m)" by blast
  with False prep none show ?thesis
    by (intro that[of g "set_phase stp c Phase_Aborted m"]) (auto simp: settled_entry_def is_pending_def)
qed

definition agree :: "entries \<Rightarrow> entries \<Rightarrow> bool" where
  "agree rest m \<longleftrightarrow> distinct (dict_keys rest) \<and> (\<forall>(k, c) \<in> set rest. map_of m k = Some c)"

lemma agree_Cons:
  "agree ((stp, c) # rest) m \<Longrightarrow> map_of m stp = Some c \<and> agree rest m \<and> map_of rest stp = None"
  by (auto simp: agree_def map_of_eq_None_iff)

lemma agree_update: "agree ((stp, c) # rest) m \<Longrightarrow> map_of m' = (map_of m)(stp \<mapsto> d) \<Longrightarrow> agree rest m'"
  by (force simp: agree_def)

text \<open>Whatever happens, the file reads well afterwards and only pending entries moved.\<close>

definition only_pending_moved :: "entries \<Rightarrow> entries \<Rightarrow> entries \<Rightarrow> bool" where
  "only_pending_moved rest m m' \<longleftrightarrow> (\<forall>k. map_of m' k = map_of m k \<or>
     (\<exists>c. map_of rest k = Some c \<and> is_pending c))"

lemma reconcile_holds:
  assumes "outbox_codec dumps loads" "holds loads f m" "agree rest m"
  shows "\<exists>m'. holds loads (snd (reconcile_entries dumps now artifact_exists rest rep f)) m' \<and>
    only_pending_moved rest m m'"
  using assms(2,3)
proof (induction rest arbitrary: rep f m)
  case (Cons p rest)
  obtain stp c where p: "p = (stp, c)" by (cases p)
  note a = agree_Cons[OF Cons.prems(2)[unfolded p]]
  consider "\<not> is_pending c" | "is_pending c" "artifact_lost artifact_exists c"
    | "is_pending c" "\<not> artifact_lost artifact_exists c" by blast
  then show ?case
  proof cases
    case 1
    obtain m' where "holds loads (snd (reconcile_entries dumps now artifact_exists rest rep f)) m'"
      "only_pending_moved rest m m'" using Cons.IH[OF Cons.prems(1), of rep] a by blast
    moreover have "reconcile_entries dumps now artifact_exists (p # rest) rep f =
        reconcile_entries dumps now artifact_exists rest rep f"
      using 1 by (auto simp: p is_pending_def)
    moreover have "only_pending_moved rest m m' \<Longrightarrow> only_pending_moved (p # rest) m m'" for m'
      using a unfolding only_pending_moved_def p by fastforce
    ultimately show ?thesis by auto
  next
    case 2
    then have "oe_phase c = Phase_Artifact_Written" "\<not> artifact_exists (oe_artifact_id c)"
      by (auto simp: artifact_lost_def)
    with Cons.prems(1) show ?thesis
      by (intro exI[of _ m]) (simp add: p only_pending_moved_def resolve_pending_def)
  next
    case 3
    obtain g m1 where g: "holds loads g m1" "map_of m1 = (map_of m)(stp \<mapsto> settled_entry artifact_exists c)"
      "reconcile_entries dumps now artifact_exists ((stp, c) # rest) rep f =
        reconcile_entries dumps now artifact_exists rest
          (if artifact_exists (oe_artifact_id c)
           then rep\<lparr>rr_rolled_forward := rr_rolled_forward rep @ [stp]\<rparr>
           else rep\<lparr>rr_aborted := rr_aborted rep @ [stp]\<rparr>) g"
      by (rule settle_entry[OF assms(1) Cons.prems(1) _ 3]) (use a in blast)+
    from Cons.IH[OF g(1) agree_update[OF Cons.prems(2)[unfolded p] g(2)]] obtain m' where
      "holds loads (snd (reconcile_entries dumps now artifact_exists ((stp, c) # rest) rep f)) m'"
      "only_pending_moved rest m1 m'" unfolding g(3) by blast
    moreover have "only_pending_moved (p # rest) m m'"
      unfolding only_pending_moved_def
    proof
      fix k
      from \<open>only_pending_moved rest m1 m'\<close> have "map_of m' k = map_of m1 k \<or>
          (\<exists>c. map_of rest k = Some c \<and> is_pending c)"
        by (simp add: only_pending_moved_def)
      then show "map_of m' k = map_of m k \<or> (\<exists>c. map_of (p # rest) k = Some c \<and> is_pending c)"
        using a 3(1) by (cases "k = stp") (auto simp: p g(2))
    qed
    ultimately show ?thesis unfolding p by blast
  qed
qed (auto simp: only_pending_moved_def)

lemma reconcile_settles:
  assumes "outbox_codec dumps loads" "holds loads f m" "agree rest m"
    and "\<forall>(k, c) \<in> set rest. \<not> artifact_lost artifact_exists c"
  shows "\<exists>g m'. reconcile_entries dumps now artifact_exists rest rep f =
      (Inr (rep\<lparr>rr_rolled_forward := rr_rolled_forward rep @ rolled_steps artifact_exists rest,
         rr_aborted := rr_aborted rep @ aborted_steps artifact_exists rest\<rparr>), g) \<and>
    holds loads g m' \<and> (\<forall>k. map_of m' k = (case map_of rest k of
       None \<Rightarrow> map_of m k | Some c \<Rightarrow> Some (settled_entry artifact_exists c)))"
  using assms(2-4)
proof (induction rest arbitrary: rep f m)
  case Nil
  then show ?case by (auto simp: rolled_steps_def aborted_steps_def)
next
  case (Cons p rest)
  obtain stp c where p: "p = (stp, c)" by (cases p)
  note a = agree_Cons[OF Cons.prems(2)[unfolded p]]
  have ok: "\<forall>(k, c) \<in> set rest. \<not> artifact_lost artifact_exists c" "\<not> artifact_lost artifact_exists c"
    using Cons.prems(3) by (auto simp: p)
  show ?case
  proof (cases "is_pending c")
    case False
    then have same: "settled_entry artifact_exists c = c" by (simp add: settled_entry_def)
    obtain g m' where "reconcile_entries dumps now artifact_exists rest rep f =
      (Inr (rep\<lparr>rr_rolled_forward := rr_rolled_forward rep @ rolled_steps artifact_exists rest,
         rr_aborted := rr_aborted rep @ aborted_steps artifact_exists rest\<rparr>), g)"
      "holds loads g m'" "\<forall>k. map_of m' k = (case map_of rest k of
       None \<Rightarrow> map_of m k | Some c \<Rightarrow> Some (settled_entry artifact_exists c))"
      using Cons.IH[OF Cons.prems(1) _ ok(1), of rep] a by blast
    with False a same show ?thesis
      by (intro exI[of _ g] exI[of _ m'])
        (auto simp: p rolled_steps_def aborted_steps_def is_pending_def split: option.split)
  next
    case True
    obtain g m1 where g: "holds loads g m1" "map_of m1 = (map_of m)(stp \<mapsto> settled_entry artifact_exists c)"
      "reconcile_entries dumps now artifact_exists ((stp, c) # rest) rep f =
        reconcile_entries dumps now artifact_exists rest
          (if artifact_exists (oe_artifact_id c)
           then rep\<lparr>rr_rolled_forward := rr_rolled_forward rep @ [stp]\<rparr>
           else rep\<lparr>rr_aborted := rr_aborted rep @ [stp]\<rparr>) g"
      by (rule settle_entry[OF assms(1) Cons.prems(1) _ True ok(2)]) (use a in blast)+
    let ?rep = "if artifact_exists (oe_artifact_id c)
           then rep\<lparr>rr_rolled_forward := rr_rolled_forward rep @ [stp]\<rparr>
           else rep\<lparr>rr_aborted := rr_aborted rep @ [stp]\<rparr>"
    from Cons.IH[OF g(1) agree_update[OF Cons.prems(2)[unfolded p] g(2)] ok(1), of ?rep]
    obtain g2 m' where "reconcile_entries dumps now artifact_exists rest ?rep g =
      (Inr (?rep\<lparr>rr_rolled_forward := rr_rolled_forward ?rep @ rolled_steps artifact_exists rest,
         rr_aborted := rr_aborted ?rep @ aborted_steps artifact_exists rest\<rparr>), g2)"
      "holds loads g2 m'" "\<forall>k. map_of m' k = (case map_of rest k of
       None \<Rightarrow> map_of m1 k | Some c \<Rightarrow> Some (settled_entry artifact_exists c))"
      by blast
    with True a g(2,3) show ?thesis
      by (intro exI[of _ g2] exI[of _ m'])
        (auto simp: p rolled_steps_def aborted_steps_def split: option.split)
  qed
qed

section \<open>The abstract outbox\<close>

text \<open>What the operations promise, over a map of steps, without a file.\<close>

type_synonym step_map = "string \<rightharpoonup> outbox_entry"

definition prepared_entry :: "string \<Rightarrow> string \<Rightarrow> string \<Rightarrow> outbox_entry" where
  "prepared_entry stp receipt artifact = \<lparr>oe_logical_step_id = stp, oe_receipt_id = receipt,
     oe_artifact_id = artifact, oe_phase = Phase_Prepared\<rparr>"

definition prepared_resolution :: "string \<Rightarrow> string \<Rightarrow> outbox_resolution" where
  "prepared_resolution receipt artifact = \<lparr>or_phase = Phase_Prepared, or_receipt_id = receipt,
     or_artifact_id = artifact, or_replayed = False\<rparr>"

definition spec_prepare ::
  "(string \<Rightarrow> bool) \<Rightarrow> string \<Rightarrow> string \<Rightarrow> string \<Rightarrow> step_map
    \<Rightarrow> (outbox_error + outbox_resolution) \<times> step_map" where
  "spec_prepare artifact_exists stp receipt artifact M =
     (let fresh = (Inr (prepared_resolution receipt artifact),
        M(stp \<mapsto> prepared_entry stp receipt artifact))
      in case M stp of
        None \<Rightarrow> fresh
      | Some c \<Rightarrow> (case oe_phase c of
          Phase_Aborted \<Rightarrow> fresh
        | Phase_Committed \<Rightarrow> (Inr (resolution c), M)
        | Phase_Prepared \<Rightarrow>
            if artifact_exists (oe_artifact_id c)
            then (Inr (resolution c), M(stp \<mapsto> c\<lparr>oe_phase := Phase_Committed\<rparr>)) else fresh
        | Phase_Artifact_Written \<Rightarrow>
            if artifact_exists (oe_artifact_id c)
            then (Inr (resolution c), M(stp \<mapsto> c\<lparr>oe_phase := Phase_Committed\<rparr>))
            else (Inl (Durable_Artifact_Missing (oe_artifact_id c)), M)))"

definition spec_require ::
  "string \<Rightarrow> string option \<Rightarrow> step_map \<Rightarrow> outbox_error + outbox_entry" where
  "spec_require stp expected M = (case M stp of
     None \<Rightarrow> Inl (No_Pending_Prepare stp)
   | Some c \<Rightarrow>
       if oe_phase c = Phase_Aborted then Inl (No_Pending_Prepare stp)
       else if expected \<notin> {None, Some (oe_receipt_id c)} then Inl (Taken_Over stp) else Inr c)"

definition spec_mark ::
  "string \<Rightarrow> string option \<Rightarrow> step_map \<Rightarrow> (outbox_error + unit) \<times> step_map" where
  "spec_mark stp expected M = (case spec_require stp expected M of
     Inl e \<Rightarrow> (Inl e, M)
   | Inr c \<Rightarrow> (Inr (), if oe_phase c = Phase_Prepared
       then M(stp \<mapsto> c\<lparr>oe_phase := Phase_Artifact_Written\<rparr>) else M))"

definition spec_commit ::
  "string \<Rightarrow> string option \<Rightarrow> step_map \<Rightarrow> (outbox_error + unit) \<times> step_map" where
  "spec_commit stp expected M = (case spec_require stp expected M of
     Inl e \<Rightarrow> (Inl e, M)
   | Inr c \<Rightarrow> (case oe_phase c of
       Phase_Committed \<Rightarrow> (Inr (), M)
     | Phase_Artifact_Written \<Rightarrow> (Inr (), M(stp \<mapsto> c\<lparr>oe_phase := Phase_Committed\<rparr>))
     | _ \<Rightarrow> (Inl (Cannot_Commit (oe_phase c)), M)))"

definition implements ::
  "(bytes \<Rightarrow> outbox_record option) \<Rightarrow> 'a outboxed \<Rightarrow> (outbox_error + 'a) \<times> step_map \<Rightarrow> bool" where
  "implements loads r a \<longleftrightarrow> fst r = fst a \<and> (\<exists>m. holds loads (snd r) m \<and> map_of m = snd a)"

lemma implementsI: "holds loads g m \<Longrightarrow> map_of m = M \<Longrightarrow> implements loads (x, g) (x, M)"
  by (auto simp: implements_def)

lemma prepare_fresh_implements:
  assumes "outbox_codec dumps loads" "holds loads f m" "\<not> is_live (map_of m stp)"
    and "M = (map_of m)(stp \<mapsto> prepared_entry stp receipt artifact)"
  shows "implements loads (prepare_fresh dumps now stp receipt artifact f)
    (Inr (prepared_resolution receipt artifact), M)"
proof -
  from holds_append[OF assms(1) event_types_mem(1) assms(2) fold_records(1)[OF assms(3)], of now receipt artifact]
  obtain g where "outbox_append dumps now ''tool_prepared'' stp receipt artifact f = (Inr (), g)"
    "holds loads g (dict_set stp (prepared_entry stp receipt artifact) m)"
    unfolding prepared_entry_def by blast
  with assms(4) show ?thesis
    by (auto simp: prepare_fresh_def prepared_resolution_def intro!: implementsI)
qed

lemma prepare_implements:
  assumes "outbox_codec dumps loads" "holds loads f m"
  shows "implements loads (outbox_prepare dumps loads now artifact_exists stp receipt artifact f)
    (spec_prepare artifact_exists stp receipt artifact (map_of m))"
proof -
  note spec = outbox_prepare_def spec_prepare_def Let_def
  have fold: "outbox_fold loads f = Inr m" using assms(2) by (simp add: holds_def)
  show ?thesis
  proof (cases "is_live (map_of m stp)")
    case False
    with fold prepare_fresh_implements[OF assms False refl] show ?thesis
      by (auto simp: spec is_live_def split: option.splits)
  next
    case True
    then obtain c where c: "map_of m stp = Some c" "oe_phase c \<noteq> Phase_Aborted"
      by (auto simp: is_live_def split: option.splits)
    note resolve = resolve_holds[where artifact_exists = artifact_exists and now = now, OF assms c]
    consider "oe_phase c = Phase_Committed" | "oe_phase c \<noteq> Phase_Committed" "artifact_exists (oe_artifact_id c)"
      | "oe_phase c = Phase_Artifact_Written" "\<not> artifact_exists (oe_artifact_id c)"
      | "oe_phase c = Phase_Prepared" "\<not> artifact_exists (oe_artifact_id c)"
      using c(2) by (cases "oe_phase c") auto
    then show ?thesis
    proof cases
      case 1
      with fold c(1) resolve(2) show ?thesis by (auto simp: spec intro: implementsI[OF assms(2)])
    next
      case 2
      from resolve(1)[OF 2] obtain g m' where
        "resolve_pending dumps now artifact_exists c f = (Inr (Some (resolution c)), g)" "holds loads g m'"
        "map_of m' = (map_of m)(stp \<mapsto> c\<lparr>oe_phase := Phase_Committed\<rparr>)" by blast
      with 2 fold c show ?thesis
        by (cases "oe_phase c") (auto simp: spec intro: implementsI)
    next
      case 3
      with fold c(1) resolve(3) show ?thesis by (auto simp: spec intro: implementsI[OF assms(2)])
    next
      case 4
      then have "oe_phase c \<in> {Phase_Prepared, Phase_Artifact_Written}" by simp
      from holds_append[OF assms(1) event_types_mem(4) assms(2) fold_records(4)[OF c(1) this], of now]
      obtain g where g: "outbox_append dumps now ''prepare_aborted'' stp (oe_receipt_id c) (oe_artifact_id c) f = (Inr (), g)"
        "holds loads g (set_phase stp c Phase_Aborted m)" by blast
      have "\<not> is_live (map_of (set_phase stp c Phase_Aborted m) stp)" by (simp add: is_live_def)
      from prepare_fresh_implements[OF assms(1) g(2) this,
          of "(map_of m)(stp \<mapsto> prepared_entry stp receipt artifact)" receipt artifact now]
      show ?thesis using 4 fold c(1) g(1) resolve(4) by (simp add: spec)
    qed
  qed
qed

lemma require_entry_spec:
  "outbox_fold loads f = Inr m \<Longrightarrow> require_entry loads stp expected f = spec_require stp expected (map_of m)"
  by (auto simp: require_entry_def spec_require_def split: option.split)

lemma spec_require_Inr:
  "spec_require stp expected M = Inr c \<Longrightarrow> M stp = Some c \<and> oe_phase c \<noteq> Phase_Aborted"
  by (auto simp: spec_require_def split: option.splits if_splits)

lemma mark_implements:
  assumes "outbox_codec dumps loads" "holds loads f m"
  shows "implements loads (mark_artifact_written dumps loads now stp expected f)
    (spec_mark stp expected (map_of m))"
proof (cases "spec_require stp expected (map_of m)")
  case (Inl e)
  with assms(2) require_entry_spec[of loads f m] show ?thesis
    by (auto simp: mark_artifact_written_def spec_mark_def holds_def intro!: implementsI)
next
  case (Inr c)
  have req: "require_entry loads stp expected f = Inr c"
    using assms(2) Inr require_entry_spec[of loads f m] by (simp add: holds_def)
  note c = spec_require_Inr[OF Inr]
  show ?thesis
  proof (cases "oe_phase c = Phase_Prepared")
    case True
    from holds_append[OF assms(1) event_types_mem(2) assms(2) fold_records(2)[OF conjunct1[OF c] True], of now]
    obtain g where "outbox_append dumps now ''artifact_written'' stp (oe_receipt_id c) (oe_artifact_id c) f = (Inr (), g)"
      "holds loads g (set_phase stp c Phase_Artifact_Written m)" by blast
    with True req Inr show ?thesis
      by (auto simp: mark_artifact_written_def spec_mark_def intro!: implementsI)
  next
    case False
    with c req Inr show ?thesis
      by (cases "oe_phase c") (auto simp: mark_artifact_written_def spec_mark_def intro!: implementsI[OF assms(2)])
  qed
qed

lemma commit_implements:
  assumes "outbox_codec dumps loads" "holds loads f m"
  shows "implements loads (outbox_commit dumps loads now stp expected f)
    (spec_commit stp expected (map_of m))"
proof (cases "spec_require stp expected (map_of m)")
  case (Inl e)
  with assms(2) require_entry_spec[of loads f m] show ?thesis
    by (auto simp: outbox_commit_def spec_commit_def holds_def intro!: implementsI)
next
  case (Inr c)
  have req: "require_entry loads stp expected f = Inr c"
    using assms(2) Inr require_entry_spec[of loads f m] by (simp add: holds_def)
  note c = spec_require_Inr[OF Inr]
  show ?thesis
  proof (cases "oe_phase c = Phase_Artifact_Written")
    case True
    from holds_append[OF assms(1) event_types_mem(3) assms(2)
        fold_records(3)[OF conjunct1[OF c] conjunct2[OF c]], of now]
    obtain g where "outbox_append dumps now ''receipt_committed'' stp (oe_receipt_id c) (oe_artifact_id c) f = (Inr (), g)"
      "holds loads g (set_phase stp c Phase_Committed m)" by blast
    with True req Inr show ?thesis
      by (auto simp: outbox_commit_def spec_commit_def intro!: implementsI)
  next
    case False
    with c req Inr show ?thesis
      by (cases "oe_phase c") (auto simp: outbox_commit_def spec_commit_def intro!: implementsI[OF assms(2)])
  qed
qed

section \<open>Any use of the outbox\<close>

datatype outbox_call =
    Call_Prepare "string \<Rightarrow> bool" string string string
  | Call_Mark string "string option"
  | Call_Commit string "string option"
  | Call_Reconcile "string \<Rightarrow> bool"

fun outbox_step ::
  "(outbox_record \<Rightarrow> bytes) \<Rightarrow> (bytes \<Rightarrow> outbox_record option) \<Rightarrow> string \<Rightarrow> outbox_file
    \<Rightarrow> outbox_call \<Rightarrow> outbox_file" where
  "outbox_step dumps loads now f (Call_Prepare artifact_exists stp receipt artifact) =
     snd (outbox_prepare dumps loads now artifact_exists stp receipt artifact f)"
| "outbox_step dumps loads now f (Call_Mark stp expected) =
     snd (mark_artifact_written dumps loads now stp expected f)"
| "outbox_step dumps loads now f (Call_Commit stp expected) =
     snd (outbox_commit dumps loads now stp expected f)"
| "outbox_step dumps loads now f (Call_Reconcile artifact_exists) =
     snd (outbox_reconcile dumps loads now artifact_exists f)"

lemma reconcile_starts:
  assumes "holds loads f m"
  shows "outbox_reconcile dumps loads now artifact_exists f =
    reconcile_entries dumps now artifact_exists m \<lparr>rr_rolled_forward = [], rr_aborted = []\<rparr> f" "agree m m"
  using assms holds_wf[OF assms]
  by (auto simp: outbox_reconcile_def holds_def agree_def entries_wf_def)

lemma implements_step:
  assumes "implements loads r a"
    and "\<And>k c. M k = Some c \<Longrightarrow> oe_phase c = Phase_Committed \<Longrightarrow> snd a k = Some c"
  shows "\<exists>m'. holds loads (snd r) m' \<and>
    (\<forall>k c. M k = Some c \<longrightarrow> oe_phase c = Phase_Committed \<longrightarrow> map_of m' k = Some c)"
  using assms by (auto simp: implements_def)

text \<open>Every operation leaves a file that reads well and keeps what was committed.\<close>

lemma outbox_step_holds:
  assumes "outbox_codec dumps loads" "holds loads f m"
  shows "\<exists>m'. holds loads (outbox_step dumps loads now f call) m' \<and> keeps_committed m m'"
  unfolding keeps_committed_def
proof (cases call)
  case (Call_Prepare artifact_exists stp receipt artifact)
  show "\<exists>m'. holds loads (outbox_step dumps loads now f call) m' \<and> (\<forall>k c. map_of m k = Some c \<longrightarrow>
      oe_phase c = Phase_Committed \<longrightarrow> map_of m' k = Some c)"
    unfolding Call_Prepare outbox_step.simps
    by (rule implements_step[OF prepare_implements[OF assms]])
      (auto simp: spec_prepare_def Let_def split: option.split outbox_phase.split)
next
  case (Call_Mark stp expected)
  show "\<exists>m'. holds loads (outbox_step dumps loads now f call) m' \<and> (\<forall>k c. map_of m k = Some c \<longrightarrow>
      oe_phase c = Phase_Committed \<longrightarrow> map_of m' k = Some c)"
    unfolding Call_Mark outbox_step.simps
    by (rule implements_step[OF mark_implements[OF assms]])
      (auto simp: spec_mark_def spec_require_def split: option.splits sum.split)
next
  case (Call_Commit stp expected)
  show "\<exists>m'. holds loads (outbox_step dumps loads now f call) m' \<and> (\<forall>k c. map_of m k = Some c \<longrightarrow>
      oe_phase c = Phase_Committed \<longrightarrow> map_of m' k = Some c)"
    unfolding Call_Commit outbox_step.simps
    by (rule implements_step[OF commit_implements[OF assms]])
      (auto simp: spec_commit_def spec_require_def split: option.splits sum.split outbox_phase.split)
next
  case (Call_Reconcile artifact_exists)
  obtain m' where m': "holds loads (outbox_step dumps loads now f call) m'" "only_pending_moved m m m'"
    using reconcile_holds[OF assms reconcile_starts(2)[OF assms(2)]] reconcile_starts(1)[OF assms(2)]
    unfolding Call_Reconcile outbox_step.simps by metis
  have "map_of m' k = Some c" if "map_of m k = Some c" "oe_phase c = Phase_Committed" for k c
    using m'(2)[unfolded only_pending_moved_def, rule_format, of k] that by (auto simp: is_pending_def)
  with m'(1) show "\<exists>m'. holds loads (outbox_step dumps loads now f call) m' \<and> (\<forall>k c. map_of m k = Some c \<longrightarrow>
      oe_phase c = Phase_Committed \<longrightarrow> map_of m' k = Some c)"
    by blast
qed

lemma outbox_run_holds:
  assumes "outbox_codec dumps loads" "holds loads f m"
  shows "\<exists>m'. holds loads (foldl (outbox_step dumps loads now) f calls) m' \<and> keeps_committed m m'"
  using assms(2)
proof (induction calls arbitrary: f m)
  case (Cons call calls)
  obtain m1 where m1: "holds loads (outbox_step dumps loads now f call) m1" "keeps_committed m m1"
    using outbox_step_holds[OF assms(1) Cons.prems] by blast
  obtain m2 where "holds loads (foldl (outbox_step dumps loads now) (outbox_step dumps loads now f call) calls) m2"
    "keeps_committed m1 m2" using Cons.IH[OF m1(1)] by blast
  with m1(2) show ?case by (auto intro: keeps_committed_trans)
qed auto

section \<open>Crashes\<close>

lemma crashed_lines:
  assumes "outbox_codec dumps loads"
    and "n \<le> length (dumps (outbox_record_of now k stp receipt artifact))"
  shows "committed_lines (file_bytes (crashed_outbox_append dumps n now k stp receipt artifact f)) =
      committed_lines (file_bytes f)"
    "torn_tail (crashed_outbox_append dumps n now k stp receipt artifact f) =
      take n (dumps (outbox_record_of now k stp receipt artifact))"
proof -
  let ?l = "dumps (outbox_record_of now k stp receipt artifact)"
  let ?t = "truncate_tail (file_bytes f)"
  have t: "file_bytes (truncate_torn_tail f) = ?t"
    by (cases f) (simp_all add: file_bytes_def truncate_torn_tail_def truncate_tail_def)
  have b: "file_bytes (crashed_outbox_append dumps n now k stp receipt artifact f) = ?t @ take n ?l"
    using assms(2) unfolding crashed_outbox_append_def t by (simp add: file_bytes_def)
  have "newline \<notin> set (take n ?l)" using assms(1) by (meson in_set_takeD outbox_codec_def)
  note split = split_lines_append[OF this, of ?t] and trunc = committed_lines_truncate[of "file_bytes f"]
  show "committed_lines (file_bytes (crashed_outbox_append dumps n now k stp receipt artifact f)) =
      committed_lines (file_bytes f)"
    unfolding b using split trunc by (simp add: committed_lines_def)
  show "torn_tail (crashed_outbox_append dumps n now k stp receipt artifact f) = take n ?l"
    unfolding b using split trunc by (simp add: committed_lines_def)
qed

section \<open>A concrete codec\<close>

definition tally_dumps :: "outbox_record \<Rightarrow> bytes" where
  "tally_dumps d = tally_encode (to_nat d)"

definition tally_loads :: "bytes \<Rightarrow> outbox_record option" where
  "tally_loads l = map_option from_nat (tally_decode l)"

lemma tally_outbox_codec: "outbox_codec tally_dumps tally_loads"
proof -
  have "tally_decode (take n (tally_encode k)) = None" if "n < length (tally_encode k)" for n k
    using that by (auto simp: tally_encode_def tally_decode_def dest!: last_in_set)
  moreover have "newline \<notin> set (tally_encode k) \<and> tally_encode k \<noteq> [] \<and> tally_decode (tally_encode k) = Some k" for k
    using tally_codec by (simp add: line_codec_def tally_spec_def)
  ultimately show ?thesis by (simp add: outbox_codec_def tally_dumps_def tally_loads_def)
qed

lemma empty_outbox: "holds loads None []"
  by (simp add: holds_def clean_file_def tail_records_def file_bytes_def outbox_fold_def read_outbox_def)

section \<open>Properties\<close>

text \<open>C32. The outbox file implements a map of steps: on a file that reads well, preparing, marking
  and committing return exactly what the abstract outbox returns, errors included, and leave
  a file that reads well with exactly the entries it promises.\<close>

theorem outbox_implements_spec:
  assumes "outbox_codec dumps loads" and "holds loads f m"
  shows "implements loads (outbox_prepare dumps loads now artifact_exists stp receipt artifact f)
       (spec_prepare artifact_exists stp receipt artifact (map_of m))
     \<and> implements loads (mark_artifact_written dumps loads now stp expected f)
       (spec_mark stp expected (map_of m))
     \<and> implements loads (outbox_commit dumps loads now stp expected f)
       (spec_commit stp expected (map_of m))"
  using prepare_implements[OF assms] mark_implements[OF assms] commit_implements[OF assms] by blast

theorem outbox_implements_spec_witness:
  "fst (outbox_prepare tally_dumps tally_loads ''t'' (\<lambda>_. False) ''s'' ''r'' ''a'' None) =
     Inr (prepared_resolution ''r'' ''a'')
   \<and> fst (outbox_commit tally_dumps tally_loads ''t'' ''s'' None None) = Inl (No_Pending_Prepare ''s'')"
  using outbox_implements_spec[OF tally_outbox_codec empty_outbox, where now = "''t''" and stp = "''s''"
      and receipt = "''r''" and artifact = "''a''" and artifact_exists = "\<lambda>_. False" and expected = None]
  by (simp add: implements_def spec_prepare_def spec_commit_def spec_require_def Let_def)

text \<open>A committed receipt is final: whatever operations follow, by whichever workers and with
  whatever answers about artifacts, the file keeps reading well and the step keeps its one
  receipt and artifact, so a logical step commits at most once.\<close>

theorem committed_receipt_is_final:
  assumes "outbox_codec dumps loads" and "holds loads f m"
    and "map_of m stp = Some c" and "oe_phase c = Phase_Committed"
  shows "outbox_state loads stp (foldl (outbox_step dumps loads now) f calls) = Inr (Some c)"
proof -
  obtain m' where "holds loads (foldl (outbox_step dumps loads now) f calls) m'" "keeps_committed m m'"
    using outbox_run_holds[OF assms(1,2)] by blast
  with assms(3,4) show ?thesis by (auto simp: outbox_state_def holds_def keeps_committed_def)
qed

theorem committed_receipt_is_final_witness:
  "\<exists>f. outbox_state tally_loads ''s'' (outbox_step tally_dumps tally_loads ''t'' f
       (Call_Prepare (\<lambda>_. False) ''s'' ''r2'' ''a2'')) =
     Inr (Some \<lparr>oe_logical_step_id = ''s'', oe_receipt_id = ''r'', oe_artifact_id = ''a'',
       oe_phase = Phase_Committed\<rparr>)"
proof -
  have fresh: "\<not> is_live (map_of [] ''s'')" by (simp add: is_live_def)
  obtain f m where f: "holds tally_loads f m" "map_of m ''s'' = Some (prepared_entry ''s'' ''r'' ''a'')"
    using prepare_fresh_implements[OF tally_outbox_codec empty_outbox fresh refl] unfolding implements_def
    by (metis fun_upd_same snd_conv)
  have "oe_phase (prepared_entry ''s'' ''r'' ''a'') \<noteq> Phase_Aborted" by (simp add: prepared_entry_def)
  from holds_append[OF tally_outbox_codec event_types_mem(3) f(1) fold_records(3)[OF f(2) this]]
  obtain g where "holds tally_loads g (set_phase ''s'' (prepared_entry ''s'' ''r'' ''a'') Phase_Committed m)"
    by blast
  from committed_receipt_is_final[OF tally_outbox_codec this, of "''s''" _ "''t''"
      "[Call_Prepare (\<lambda>_. False) ''s'' ''r2'' ''a2'']"]
  show ?thesis by (intro exI[of _ g]) (simp add: prepared_entry_def)
qed

text \<open>Reconciling leaves nothing pending: unless an artifact recorded as durable is missing, it
  rolls every pending step whose artifact exists forward to committed, aborts every other
  pending step, touches no other step, and reports exactly these steps.\<close>

theorem reconcile_settles_every_step:
  assumes "outbox_codec dumps loads" and "holds loads f m"
    and "\<forall>(k, c) \<in> set m. \<not> artifact_lost artifact_exists c"
  shows "\<exists>g m'. outbox_reconcile dumps loads now artifact_exists f =
      (Inr \<lparr>rr_rolled_forward = rolled_steps artifact_exists m,
            rr_aborted = aborted_steps artifact_exists m\<rparr>, g)
     \<and> holds loads g m'
     \<and> map_of m' = map_option (settled_entry artifact_exists) \<circ> map_of m
     \<and> (\<forall>k c. map_of m' k = Some c \<longrightarrow> \<not> is_pending c)"
proof -
  let ?rep = "\<lparr>rr_rolled_forward = [], rr_aborted = []\<rparr>"
  obtain g m' where g: "reconcile_entries dumps now artifact_exists m ?rep f =
      (Inr (?rep\<lparr>rr_rolled_forward := rr_rolled_forward ?rep @ rolled_steps artifact_exists m,
         rr_aborted := rr_aborted ?rep @ aborted_steps artifact_exists m\<rparr>), g)" "holds loads g m'"
    "\<forall>k. map_of m' k = (case map_of m k of None \<Rightarrow> map_of m k | Some c \<Rightarrow> Some (settled_entry artifact_exists c))"
    using reconcile_settles[OF assms(1,2) reconcile_starts(2)[OF assms(2)] assms(3), of now ?rep] by blast
  have "map_of m' = map_option (settled_entry artifact_exists) \<circ> map_of m"
    using g(3) by (auto simp: fun_eq_iff split: option.split)
  moreover have "\<not> is_pending (settled_entry artifact_exists c)" for c
    by (simp add: settled_entry_def is_pending_def)
  ultimately show ?thesis
    using g(1,2) reconcile_starts(1)[OF assms(2)] by (intro exI[of _ g] exI[of _ m']) auto
qed

theorem reconcile_settles_every_step_witness:
  "\<exists>f g. outbox_reconcile tally_dumps tally_loads ''t'' (\<lambda>_. False) f =
     (Inr \<lparr>rr_rolled_forward = [], rr_aborted = [''s'']\<rparr>, g)"
proof -
  have fresh: "\<not> is_live (map_of [] ''s'')" by (simp add: is_live_def)
  obtain f where "holds tally_loads f (dict_set ''s'' (prepared_entry ''s'' ''r'' ''a'') [])"
    unfolding prepared_entry_def
    by (rule holds_append[OF tally_outbox_codec event_types_mem(1) empty_outbox fold_records(1)[OF fresh]])
  then have f: "holds tally_loads f [(''s'', prepared_entry ''s'' ''r'' ''a'')]" by simp
  have "\<forall>(k, c) \<in> set [(''s'', prepared_entry ''s'' ''r'' ''a'')]. \<not> artifact_lost (\<lambda>_. False) c"
    by (simp add: artifact_lost_def prepared_entry_def)
  from reconcile_settles_every_step[OF tally_outbox_codec f this, of "''t''"]
  show ?thesis by (auto simp: rolled_steps_def aborted_steps_def is_pending_def prepared_entry_def)
qed

text \<open>A crash inside an append is harmless unless it cuts exactly the line feed: cut anywhere
  else, the file reads well and holds the entries of before the append or of after it.\<close>

theorem outbox_crash_is_atomic:
  assumes "outbox_codec dumps loads" and "holds loads f m" and "k \<in> set event_types"
    and "fold_event (outbox_record_of now k stp receipt artifact) m = Inr m'"
    and "n \<noteq> length (dumps (outbox_record_of now k stp receipt artifact))"
  shows "holds loads (crashed_outbox_append dumps n now k stp receipt artifact f)
    (if n < length (dumps (outbox_record_of now k stp receipt artifact)) then m else m')"
proof -
  let ?l = "dumps (outbox_record_of now k stp receipt artifact)"
  let ?t = "crashed_outbox_append dumps n now k stp receipt artifact f"
  show ?thesis
  proof (cases "n < length ?l")
    case True
    then have "n \<le> length ?l" by simp
    note lines = crashed_lines[OF assms(1) this, of f]
    have "loads (take n ?l) = None" using assms(1) True by (simp add: outbox_codec_def)
    then have clean: "clean_file loads ?t" by (simp add: clean_file_def lines(2) tail_records_def)
    with assms(2) have "outbox_fold loads ?t = Inr m"
      unfolding fold_clean[OF clean] lines(1) using fold_clean[of loads f] by (simp add: holds_def)
    with clean True show ?thesis by (simp add: holds_def)
  next
    case False
    obtain g where "outbox_append dumps now k stp receipt artifact f = (Inr (), g)" "holds loads g m'"
      by (rule holds_append[OF assms(1,3,2,4)])
    then show ?thesis
      using False assms(3,5) by (auto simp: outbox_append_def crashed_outbox_append_def)
  qed
qed

theorem outbox_crash_is_atomic_witness:
  "holds tally_loads (crashed_outbox_append tally_dumps 0 ''t'' ''tool_prepared'' ''s'' ''r'' ''a'' None) []"
proof -
  have fresh: "\<not> is_live (map_of [] ''s'')" by (simp add: is_live_def)
  have ne: "tally_dumps d \<noteq> []" for d using tally_outbox_codec by (simp add: outbox_codec_def)
  show ?thesis
    using outbox_crash_is_atomic[OF tally_outbox_codec empty_outbox event_types_mem(1) fold_records(1)[OF fresh],
        of 0 "''t''" "''r''" "''a''"] ne[of "outbox_record_of ''t'' ''tool_prepared'' ''s'' ''r'' ''a''"]
    by simp
qed

text \<open>A record cut exactly before its line feed bricks the outbox: the step reads as prepared,
  marking its artifact succeeds, but that append discards the record it relied on, and from
  then on every operation on every step is refused.\<close>

theorem unterminated_record_bricks_outbox:
  assumes "outbox_codec dumps loads" and "holds loads f m" and "\<not> is_live (map_of m stp)"
  shows "let t = crashed_outbox_append dumps
           (length (dumps (outbox_record_of now ''tool_prepared'' stp receipt artifact)))
           now ''tool_prepared'' stp receipt artifact f;
         (marked, g) = mark_artifact_written dumps loads later stp (Some receipt) t
     in outbox_state loads stp t = Inr (Some (prepared_entry stp receipt artifact))
      \<and> marked = Inr ()
      \<and> (\<forall>other r a artifact_exists expected.
           outbox_prepare dumps loads later artifact_exists other r a g = (Inl (No_Active_Prepare stp), g)
         \<and> mark_artifact_written dumps loads later other expected g = (Inl (No_Active_Prepare stp), g)
         \<and> outbox_commit dumps loads later other expected g = (Inl (No_Active_Prepare stp), g)
         \<and> outbox_reconcile dumps loads later artifact_exists g = (Inl (No_Active_Prepare stp), g))"
proof -
  let ?d = "outbox_record_of now ''tool_prepared'' stp receipt artifact"
  let ?t = "crashed_outbox_append dumps (length (dumps ?d)) now ''tool_prepared'' stp receipt artifact f"
  let ?a = "outbox_record_of later ''artifact_written'' stp receipt artifact"
  note lines = crashed_lines[OF assms(1) order_refl, of now "''tool_prepared''" stp receipt artifact f]
  obtain e where e: "loads (dumps ?d) = Some e" "map_of e = map_of ?d" "dumps ?d \<noteq> []"
    using assms(1) by (auto simp: outbox_codec_def)
  have clean: "clean_file loads f" and m: "outbox_fold loads f = Inr m" using assms(2) by (auto simp: holds_def)
  obtain evs where evs: "read_lines loads 1 (committed_lines (file_bytes f)) = (evs, None)"
    "fold_events evs [] = Inr m"
    using m unfolding fold_clean[OF clean] by (auto simp: bind_res_Inr_iff split: prod.splits option.splits)
  have read: "read_outbox loads ?t = (evs @ [e], None)"
    unfolding read_outbox_lines lines using evs(1) e by (simp add: tail_records_def)
  let ?m = "dict_set stp (prepared_entry stp receipt artifact) m"
  have fold: "outbox_fold loads ?t = Inr ?m"
    using evs(2) fold_records(1)[OF assms(3), of now receipt artifact] fold_event_cong[OF e(2), of m]
    by (simp add: outbox_fold_def read fold_events_append prepared_entry_def)
  have "outbox_state loads stp ?t = Inr (Some (prepared_entry stp receipt artifact))"
    using fold by (simp add: outbox_state_def)
  moreover obtain g where g: "outbox_append dumps later ''artifact_written'' stp receipt artifact ?t = (Inr (), g)"
    "committed_lines (file_bytes g) = committed_lines (file_bytes f) @ [dumps ?a]" "torn_tail g = []"
    using append_written[OF assms(1) event_types_mem(2), of later stp receipt artifact ?t] lines(1) by auto
  moreover have "mark_artifact_written dumps loads later stp (Some receipt) ?t = (Inr (), g)"
    using fold g(1) by (simp add: mark_artifact_written_def require_entry_def prepared_entry_def)
  moreover have "outbox_fold loads g = Inl (No_Active_Prepare stp)"
  proof -
    obtain b where b: "loads (dumps ?a) = Some b" "map_of b = map_of ?a" "dumps ?a \<noteq> []"
      using assms(1) by (auto simp: outbox_codec_def)
    have cg: "clean_file loads g" using g(3) by (simp add: clean_file_def tail_records_def)
    have "fold_event ?a m = Inl (No_Active_Prepare stp)"
      using assms(3) by (auto simp: fold_event_def is_live_def split: option.splits)
    then have "fold_event b m = Inl (No_Active_Prepare stp)" using fold_event_cong[OF b(2)] by simp
    with evs b(1,3) show ?thesis
      unfolding fold_clean[OF cg] g(2) by (simp add: read_lines_snoc fold_events_append)
  qed
  ultimately show ?thesis
    by (simp add: outbox_prepare_def mark_artifact_written_def outbox_commit_def outbox_reconcile_def
        require_entry_def)
qed

theorem unterminated_record_bricks_outbox_witness:
  "\<exists>f. outbox_state tally_loads ''s'' f = Inr (Some (prepared_entry ''s'' ''r'' ''a''))
     \<and> fst (mark_artifact_written tally_dumps tally_loads ''t'' ''s'' (Some ''r'') f) = Inr ()
     \<and> fst (outbox_reconcile tally_dumps tally_loads ''t'' (\<lambda>_. True)
         (snd (mark_artifact_written tally_dumps tally_loads ''t'' ''s'' (Some ''r'') f)))
       = Inl (No_Active_Prepare ''s'')"
proof -
  have fresh: "\<not> is_live (map_of [] ''s'')" by (simp add: is_live_def)
  from unterminated_record_bricks_outbox[OF tally_outbox_codec empty_outbox fresh, of "''t''" "''r''" "''a''" "''t''"]
  show ?thesis
    by (intro exI[of _ "crashed_outbox_append tally_dumps (length (tally_dumps (outbox_record_of ''t''
        ''tool_prepared'' ''s'' ''r'' ''a''))) ''t'' ''tool_prepared'' ''s'' ''r'' ''a'' None"])
      (auto simp: Let_def split: prod.splits)
qed

end
