(* ===== verification/KillFence.thy ===== *)
theory KillFence
  imports Prelude
begin

text \<open>
  Cooperative cancellation (\<open>core/cancellation.py\<close>): the context with its deadline, shields and
  registered interrupts, and the token that follows a durable job row. Each lock section is one
  atomic step, so any interleaving of threads is a list of steps. Clock readings are arguments
  of the steps, one for each time the code reads the clock (they need not be ordered); an
  invoked interrupt is returned with its registration id.
\<close>

section \<open>The context\<close>

datatype cancellation_cause = Cause_Active | Cause_Cancel_Requested | Cause_Deadline_Exceeded

datatype kill_fence_state = Blocked_Active | Blocked_Shielded | Eligible

record cancellation_snapshot =
  sn_cause :: cancellation_cause
  sn_reason :: "string option"
  sn_deadline :: "rat option"
  sn_shield_depth :: int
  sn_kill_fence_state :: kill_fence_state

type_synonym interrupts = "(int \<times> string) list"

record cancellation_context =
  cx_deadline :: "rat option"
  cx_cancel_reason :: "string option"
  cx_cancel_requested :: bool
  cx_deadline_exceeded :: bool
  cx_shield_depth :: int
  cx_interrupts :: interrupts
  cx_next_interrupt_id :: int

datatype cancellation_error =
    Timeout_Negative
  | Cancellation_Requested cancellation_snapshot
  | Deadline_Exceeded cancellation_snapshot
  | Ownership_Lost cancellation_snapshot
  | Shield_Rejected
  | Shield_Underflow
  | Bad_Token_Arguments
  | Bad_Poll_Interval

definition new_context :: "rat option \<Rightarrow> cancellation_context" where
  "new_context deadline = \<lparr>cx_deadline = deadline, cx_cancel_reason = None,
     cx_cancel_requested = False, cx_deadline_exceeded = False, cx_shield_depth = 0,
     cx_interrupts = [], cx_next_interrupt_id = 0\<rparr>"

definition with_timeout :: "rat \<Rightarrow> rat \<Rightarrow> cancellation_error + cancellation_context" where
  "with_timeout timeout now =
     (if timeout < 0 then Inl Timeout_Negative else Inr (new_context (Some (now + timeout))))"

definition cancellation_requested :: "cancellation_snapshot \<Rightarrow> bool" where
  "cancellation_requested s \<longleftrightarrow> sn_cause s \<noteq> Cause_Active"

text \<open>\<open>_deadline_due_locked\<close>: a deadline once seen as due stays due.\<close>

definition latch_deadline :: "rat \<Rightarrow> cancellation_context \<Rightarrow> cancellation_context" where
  "latch_deadline now c =
     (if \<not> cx_deadline_exceeded c \<and> (case cx_deadline c of None \<Rightarrow> False | Some d \<Rightarrow> d \<le> now)
      then c\<lparr>cx_deadline_exceeded := True\<rparr> else c)"

definition snapshot_of :: "cancellation_context \<Rightarrow> cancellation_snapshot" where
  "snapshot_of c =
     (let (cause, reason) =
        (if cx_cancel_requested c then (Cause_Cancel_Requested, cx_cancel_reason c)
         else if cx_deadline_exceeded c
         then (Cause_Deadline_Exceeded, Some ''operation deadline exceeded'')
         else (Cause_Active, None))
      in \<lparr>sn_cause = cause, sn_reason = reason, sn_deadline = cx_deadline c,
          sn_shield_depth = cx_shield_depth c,
          sn_kill_fence_state =
            (if cause = Cause_Active then Blocked_Active
             else if cx_shield_depth c \<noteq> 0 then Blocked_Shielded else Eligible)\<rparr>)"

definition take_snapshot ::
  "rat \<Rightarrow> cancellation_context \<Rightarrow> cancellation_snapshot \<times> cancellation_context" where
  "take_snapshot now c = (let c' = latch_deadline now c in (snapshot_of c', c'))"

definition interrupt_callbacks ::
  "rat \<Rightarrow> cancellation_context \<Rightarrow> interrupts \<times> cancellation_context" where
  "interrupt_callbacks now c = (let (s, c') = take_snapshot now c in
     (if sn_kill_fence_state s \<noteq> Eligible then [] else cx_interrupts c', c'))"

text \<open>The first request owns the reason. The clock is not read again once cancelled.\<close>

definition request_cancel ::
  "string option \<Rightarrow> rat \<Rightarrow> rat \<Rightarrow> cancellation_context
    \<Rightarrow> bool \<times> interrupts \<times> cancellation_context" where
  "request_cancel reason now later c =
     (if cx_cancel_requested c then (False, [], c)
      else let c1 = latch_deadline now c in
        if cx_deadline_exceeded c1 then (False, [], c1)
        else let (cbs, c2) = interrupt_callbacks later
            (c1\<lparr>cx_cancel_requested := True, cx_cancel_reason := reason\<rparr>)
          in (True, cbs, c2))"

definition checkpoint ::
  "rat \<Rightarrow> cancellation_context \<Rightarrow> (cancellation_error + unit) \<times> cancellation_context" where
  "checkpoint now c = (let (s, c') = take_snapshot now c in
     (if sn_shield_depth s \<noteq> 0 then Inr ()
      else (case sn_cause s of
          Cause_Cancel_Requested \<Rightarrow> Inl (Cancellation_Requested s)
        | Cause_Deadline_Exceeded \<Rightarrow> Inl (Deadline_Exceeded s)
        | Cause_Active \<Rightarrow> Inr ()), c'))"

definition context_kill_fence ::
  "rat \<Rightarrow> cancellation_context \<Rightarrow> kill_fence_state \<times> cancellation_context" where
  "context_kill_fence now c = (let (s, c') = take_snapshot now c in (sn_kill_fence_state s, c'))"

text \<open>Entering and leaving \<open>interrupt_on_cancel\<close>.\<close>

definition register_interrupt ::
  "string \<Rightarrow> rat \<Rightarrow> cancellation_context \<Rightarrow> int \<times> interrupts \<times> cancellation_context" where
  "register_interrupt callback now c =
     (let i = cx_next_interrupt_id c;
          c1 = c\<lparr>cx_next_interrupt_id := i + 1, cx_interrupts := dict_set i callback (cx_interrupts c)\<rparr>;
          (s, c2) = take_snapshot now c1
      in (i, if sn_kill_fence_state s = Eligible then [(i, callback)] else [], c2))"

definition unregister_interrupt :: "int \<Rightarrow> cancellation_context \<Rightarrow> cancellation_context" where
  "unregister_interrupt i c = c\<lparr>cx_interrupts := dict_del i (cx_interrupts c)\<rparr>"

text \<open>Entering and leaving \<open>shield\<close>.\<close>

definition enter_shield ::
  "rat \<Rightarrow> cancellation_context \<Rightarrow> (cancellation_error + unit) \<times> cancellation_context" where
  "enter_shield now c = (let (s, c1) = take_snapshot now c in
     (if cx_shield_depth c1 = 0 \<and> cancellation_requested s then (Inl Shield_Rejected, c1)
      else (Inr (), c1\<lparr>cx_shield_depth := cx_shield_depth c1 + 1\<rparr>)))"

definition exit_shield ::
  "rat \<Rightarrow> cancellation_context \<Rightarrow> (cancellation_error + unit) \<times> interrupts \<times> cancellation_context" where
  "exit_shield now c =
     (let c1 = c\<lparr>cx_shield_depth := cx_shield_depth c - 1\<rparr> in
      if cx_shield_depth c1 < 0 then (Inl Shield_Underflow, [], c1\<lparr>cx_shield_depth := 0\<rparr>)
      else let (cbs, c2) = interrupt_callbacks now c1 in (Inr (), cbs, c2))"

section \<open>The token of a durable job\<close>

record durable_record =
  dr_job_id :: string
  dr_generation :: int
  dr_owner :: string
  dr_cancel_requested :: bool
  dr_reason :: "string option"

record storage_token =
  tk_job_id :: string
  tk_generation :: int
  tk_owner :: string
  tk_context :: cancellation_context
  tk_ownership_lost :: bool
  tk_shield_depth :: int

definition new_token ::
  "string \<Rightarrow> int \<Rightarrow> string \<Rightarrow> rat option \<Rightarrow> cancellation_error + storage_token" where
  "new_token job generation owner deadline =
     (if generation < 0 \<or> job = [] \<or> owner = [] then Inl Bad_Token_Arguments
      else Inr \<lparr>tk_job_id = job, tk_generation = generation, tk_owner = owner,
        tk_context = new_context deadline, tk_ownership_lost = False, tk_shield_depth = 0\<rparr>)"

text \<open>What the reader returned, \<open>None\<close> also when it raised, and the clock readings of a poll.\<close>

record poll_input =
  pi_row :: "durable_record option"
  pi_request :: rat
  pi_callbacks :: rat
  pi_snapshot :: rat

definition owns_row :: "storage_token \<Rightarrow> durable_record \<Rightarrow> bool" where
  "owns_row t r \<longleftrightarrow> dr_job_id r = tk_job_id t \<and> dr_generation r = tk_generation t \<and>
     dr_owner r = tk_owner t"

definition reason_text :: "string option \<Rightarrow> string" where
  "reason_text reason = (case reason of None \<Rightarrow> ''durable cancellation requested''
     | Some r \<Rightarrow> if r = [] then ''durable cancellation requested'' else r)"

definition request_on_token ::
  "string \<Rightarrow> poll_input \<Rightarrow> storage_token \<Rightarrow> interrupts \<times> storage_token" where
  "request_on_token reason i t =
     (let (_, cbs, c) = request_cancel (Some reason) (pi_request i) (pi_callbacks i) (tk_context t)
      in (cbs, t\<lparr>tk_context := c\<rparr>))"

definition poll ::
  "poll_input \<Rightarrow> storage_token \<Rightarrow> cancellation_snapshot \<times> interrupts \<times> storage_token" where
  "poll i t =
     (let (cbs, t1) = (case pi_row i of
          None \<Rightarrow> request_on_token ''cancellation ownership or generation changed'' i
            (t\<lparr>tk_ownership_lost := True\<rparr>)
        | Some r \<Rightarrow>
            if \<not> owns_row t r
            then request_on_token ''cancellation ownership or generation changed'' i
              (t\<lparr>tk_ownership_lost := True\<rparr>)
            else if dr_cancel_requested r
            then request_on_token (reason_text (dr_reason r)) i t
            else ([], t));
        (s, c) = take_snapshot (pi_snapshot i) (tk_context t1)
      in (s, cbs, t1\<lparr>tk_context := c\<rparr>))"

text \<open>The loop of the watcher thread, over the polls it gets to do before it is stopped.\<close>

fun watch_polls :: "poll_input list \<Rightarrow> storage_token \<Rightarrow> interrupts \<times> storage_token" where
  "watch_polls [] t = ([], t)"
| "watch_polls (i # is) t =
     (let (s, cbs, t1) = poll i t in
      if cancellation_requested s then (cbs, t1)
      else (let (more, t2) = watch_polls is t1 in (cbs @ more, t2)))"

definition watch ::
  "rat \<Rightarrow> poll_input \<Rightarrow> poll_input list \<Rightarrow> storage_token
    \<Rightarrow> cancellation_error + (interrupts \<times> storage_token)" where
  "watch interval first is t =
     (if interval \<le> 0 then Inl Bad_Poll_Interval
      else (let (_, cbs, t1) = poll first t; (more, t2) = watch_polls is t1
            in Inr (cbs @ more, t2)))"

definition token_checkpoint ::
  "poll_input \<Rightarrow> rat \<Rightarrow> storage_token \<Rightarrow> (cancellation_error + unit) \<times> interrupts \<times> storage_token" where
  "token_checkpoint i now t =
     (let (s, cbs, t1) = poll i t in
      if sn_shield_depth s \<noteq> 0 then (Inr (), cbs, t1)
      else if tk_ownership_lost t1 then (Inl (Ownership_Lost s), cbs, t1)
      else let (r, c) = checkpoint now (tk_context t1) in (r, cbs, t1\<lparr>tk_context := c\<rparr>))"

definition token_kill_fence ::
  "poll_input \<Rightarrow> storage_token \<Rightarrow> kill_fence_state \<times> interrupts \<times> storage_token" where
  "token_kill_fence i t = (let (s, cbs, t1) = poll i t in (sn_kill_fence_state s, cbs, t1))"

definition fail_ownership ::
  "string \<Rightarrow> poll_input \<Rightarrow> storage_token \<Rightarrow> (cancellation_error + unit) \<times> interrupts \<times> storage_token" where
  "fail_ownership reason i t =
     (let (cbs, t1) = request_on_token reason i (t\<lparr>tk_ownership_lost := True\<rparr>);
          (s, c) = take_snapshot (pi_snapshot i) (tk_context t1)
      in (Inl (Ownership_Lost s), cbs, t1\<lparr>tk_context := c\<rparr>))"

text \<open>The end of \<open>shield\<close>: \<open>outer\<close> is what the storage answered, if it is asked, \<open>result\<close> what
  the block raised before.\<close>

definition leave_token_shield ::
  "bool option \<Rightarrow> poll_input \<Rightarrow> cancellation_error + unit \<Rightarrow> interrupts \<Rightarrow> storage_token
    \<Rightarrow> (cancellation_error + unit) \<times> interrupts \<times> storage_token" where
  "leave_token_shield outer i result cbs t =
     (let t1 = t\<lparr>tk_shield_depth := tk_shield_depth t - 1\<rparr> in
      if tk_shield_depth t1 < 0 then (Inl Shield_Underflow, cbs, t1\<lparr>tk_shield_depth := 0\<rparr>)
      else if tk_shield_depth t1 = 0 \<and> outer = Some False
      then (let (r, more, t2) = fail_ownership ''durable cancellation shield exit lost ownership'' i t1
            in (r, cbs @ more, t2))
      else (result, cbs, t1))"

definition enter_token_shield ::
  "bool option \<Rightarrow> bool option \<Rightarrow> poll_input \<Rightarrow> rat \<Rightarrow> storage_token
    \<Rightarrow> (cancellation_error + unit) \<times> interrupts \<times> storage_token" where
  "enter_token_shield enter_outer exit_outer i now t =
     (if tk_shield_depth t = 0 \<and> enter_outer = Some False
      then fail_ownership ''durable cancellation shield was rejected'' i t
      else let (r, c) = enter_shield now (tk_context t);
               t1 = t\<lparr>tk_shield_depth := tk_shield_depth t + 1, tk_context := c\<rparr>
           in (case r of
                Inr _ \<Rightarrow> (Inr (), [], t1)
              | Inl e \<Rightarrow> leave_token_shield exit_outer i (Inl e) [] t1))"

definition exit_token_shield ::
  "bool option \<Rightarrow> poll_input \<Rightarrow> rat \<Rightarrow> storage_token
    \<Rightarrow> (cancellation_error + unit) \<times> interrupts \<times> storage_token" where
  "exit_token_shield exit_outer i now t =
     (let (r, cbs, c) = exit_shield now (tk_context t)
      in leave_token_shield exit_outer i r cbs (t\<lparr>tk_context := c\<rparr>))"

section \<open>Steps\<close>

datatype context_op =
    Op_Request "string option" rat rat
  | Op_Snapshot rat
  | Op_Register string rat
  | Op_Unregister int
  | Op_Enter rat
  | Op_Exit rat

fun context_step :: "cancellation_context \<Rightarrow> context_op \<Rightarrow> interrupts \<times> cancellation_context" where
  "context_step c (Op_Request reason now later) = snd (request_cancel reason now later c)"
| "context_step c (Op_Snapshot now) = ([], snd (take_snapshot now c))"
| "context_step c (Op_Register callback now) = snd (register_interrupt callback now c)"
| "context_step c (Op_Unregister i) = ([], unregister_interrupt i c)"
| "context_step c (Op_Enter now) = ([], snd (enter_shield now c))"
| "context_step c (Op_Exit now) = snd (exit_shield now c)"

text \<open>The interrupts a run invoked, and the context it ends in.\<close>

fun context_run :: "cancellation_context \<Rightarrow> context_op list \<Rightarrow> interrupts \<times> cancellation_context" where
  "context_run c [] = ([], c)"
| "context_run c (op # ops) =
     (let (cbs, c1) = context_step c op; (more, c2) = context_run c1 ops in (cbs @ more, c2))"

datatype token_op =
    Token_Poll poll_input
  | Token_Checkpoint poll_input rat
  | Token_Enter "bool option" "bool option" poll_input rat
  | Token_Exit "bool option" poll_input rat
  | Token_Register string rat
  | Token_Unregister int

fun token_step :: "storage_token \<Rightarrow> token_op \<Rightarrow> storage_token" where
  "token_step t (Token_Poll i) = snd (snd (poll i t))"
| "token_step t (Token_Checkpoint i now) = snd (snd (token_checkpoint i now t))"
| "token_step t (Token_Enter enter_outer exit_outer i now) =
     snd (snd (enter_token_shield enter_outer exit_outer i now t))"
| "token_step t (Token_Exit exit_outer i now) = snd (snd (exit_token_shield exit_outer i now t))"
| "token_step t (Token_Register callback now) =
     t\<lparr>tk_context := snd (snd (register_interrupt callback now (tk_context t)))\<rparr>"
| "token_step t (Token_Unregister i) = t\<lparr>tk_context := unregister_interrupt i (tk_context t)\<rparr>"

section \<open>What a step changes\<close>

named_theorems context_simps

lemma latch_fields [context_simps]:
  "cx_deadline (latch_deadline now c) = cx_deadline c"
  "cx_cancel_reason (latch_deadline now c) = cx_cancel_reason c"
  "cx_cancel_requested (latch_deadline now c) = cx_cancel_requested c"
  "cx_shield_depth (latch_deadline now c) = cx_shield_depth c"
  "cx_interrupts (latch_deadline now c) = cx_interrupts c"
  "cx_next_interrupt_id (latch_deadline now c) = cx_next_interrupt_id c"
  "cx_deadline_exceeded c \<Longrightarrow> cx_deadline_exceeded (latch_deadline now c)"
  "cx_deadline_exceeded c \<Longrightarrow> latch_deadline now c = c"
  by (simp_all add: latch_deadline_def)

lemma snapshot_fields [context_simps]:
  "sn_cause (snapshot_of c) = (if cx_cancel_requested c then Cause_Cancel_Requested
     else if cx_deadline_exceeded c then Cause_Deadline_Exceeded else Cause_Active)"
  "sn_reason (snapshot_of c) = (if cx_cancel_requested c then cx_cancel_reason c
     else if cx_deadline_exceeded c then Some ''operation deadline exceeded'' else None)"
  "sn_shield_depth (snapshot_of c) = cx_shield_depth c"
  "sn_kill_fence_state (snapshot_of c) = Eligible \<longleftrightarrow>
     (cx_cancel_requested c \<or> cx_deadline_exceeded c) \<and> cx_shield_depth c = 0"
  by (simp_all add: snapshot_of_def)

lemmas context_defs = request_cancel_def interrupt_callbacks_def take_snapshot_def
  register_interrupt_def unregister_interrupt_def enter_shield_def exit_shield_def checkpoint_def
  cancellation_requested_def Let_def

lemma context_run_append:
  "context_run c (xs @ ys) = (let (a, c1) = context_run c xs; (b, c2) = context_run c1 ys in (a @ b, c2))"
  by (induction xs arbitrary: c) (auto split: prod.split)

text \<open>A property of the context and of the interrupts invoked so far, kept by every step.\<close>

lemma context_run_inv:
  assumes "P [] c"
    and "\<And>invoked c op cbs c'. P invoked c \<Longrightarrow> context_step c op = (cbs, c') \<Longrightarrow> P (invoked @ cbs) c'"
  shows "P (fst (context_run c ops)) (snd (context_run c ops))"
proof -
  have "P (invoked @ fst (context_run c ops)) (snd (context_run c ops))" if "P invoked c" for invoked
    using that
  proof (induction ops arbitrary: invoked c)
    case (Cons op ops)
    obtain cbs c1 where s: "context_step c op = (cbs, c1)" by fastforce
    from Cons.IH[OF assms(2)[OF Cons.prems s]] s show ?case
      by (cases "context_run c1 ops") simp
  qed simp
  from this[OF assms(1)] show ?thesis by simp
qed

definition latched :: "cancellation_cause \<Rightarrow> string option \<Rightarrow> cancellation_context \<Rightarrow> bool" where
  "latched cause reason c \<longleftrightarrow> cause \<noteq> Cause_Active \<and> sn_cause (snapshot_of c) = cause \<and>
     sn_reason (snapshot_of c) = reason"

lemma latched_step:
  assumes "latched cause reason c"
  shows "latched cause reason (snd (context_step c op))"
  using assms unfolding latched_def
  by (cases op) (auto simp: context_defs context_simps split: if_splits prod.split)

lemma latched_latch: "latched cause reason c \<Longrightarrow> latched cause reason (latch_deadline now c)"
  using latched_step[of cause reason c "Op_Snapshot now"] by (simp add: take_snapshot_def Let_def)

lemma shielded_step:
  assumes "0 < cx_shield_depth (snd (context_step c op))"
  shows "fst (context_step c op) = []"
  using assms by (cases op) (auto simp: context_defs context_simps split: if_splits prod.split)

text \<open>Once cancelled and unshielded, every registered interrupt has been invoked.\<close>

definition all_notified :: "interrupts \<Rightarrow> cancellation_context \<Rightarrow> bool" where
  "all_notified invoked c \<longleftrightarrow> 0 \<le> cx_shield_depth c \<and>
     (cx_cancel_requested c \<and> cx_shield_depth c = 0 \<longrightarrow> set (cx_interrupts c) \<subseteq> set invoked)"

lemma all_notified_step:
  assumes "all_notified invoked c" "context_step c op = (cbs, c')"
  shows "all_notified (invoked @ cbs) c'"
proof (cases op)
  case (Op_Register callback now)
  with assms set_dict_set_subset[of "cx_next_interrupt_id c" callback "cx_interrupts c"] show ?thesis
    by (auto simp: all_notified_def context_defs context_simps split: if_splits)
next
  case (Op_Unregister i)
  with assms show ?thesis
    by (auto simp: all_notified_def context_defs AList.delete_eq)
qed (use assms in \<open>auto simp: all_notified_def context_defs context_simps split: if_splits prod.splits\<close>)

section \<open>What a token step changes\<close>

lemma poll_lost:
  "tk_ownership_lost (snd (snd (poll i t))) \<longleftrightarrow> tk_ownership_lost t \<or>
     (case pi_row i of None \<Rightarrow> True | Some r \<Rightarrow> \<not> owns_row t r)"
  by (auto simp: poll_def request_on_token_def Let_def split: option.split prod.split)

lemma fail_ownership_lost: "tk_ownership_lost (snd (snd (fail_ownership reason i t)))"
  by (auto simp: fail_ownership_def request_on_token_def Let_def split: prod.split)

lemma leave_lost:
  "tk_ownership_lost t \<Longrightarrow> tk_ownership_lost (snd (snd (leave_token_shield outer i r cbs t)))"
  using fail_ownership_lost[of _ i]
  by (auto simp: leave_token_shield_def Let_def split: prod.splits) (metis snd_conv)+

lemma token_step_lost:
  assumes "tk_ownership_lost t"
  shows "tk_ownership_lost (token_step t op)"
proof (cases op)
  case (Token_Checkpoint i now)
  have "tk_ownership_lost (snd (snd (poll i t)))" using assms by (simp add: poll_lost)
  with Token_Checkpoint show ?thesis by (auto simp: token_checkpoint_def Let_def split: prod.splits)
next
  case (Token_Enter enter_outer exit_outer i now)
  with assms fail_ownership_lost show ?thesis
    by (auto simp: enter_token_shield_def Let_def split: prod.split sum.split intro!: leave_lost)
next
  case (Token_Exit exit_outer i now)
  with assms show ?thesis
    by (auto simp: exit_token_shield_def Let_def split: prod.split intro!: leave_lost)
qed (use assms in \<open>simp_all add: poll_lost\<close>)

lemma tokens_lost: "tk_ownership_lost t \<Longrightarrow> tk_ownership_lost (foldl token_step t ops)"
  by (induction ops arbitrary: t) (simp_all add: token_step_lost)

section \<open>Watching\<close>

text \<open>A poll that sees a reason to cancel cancels a context that was active, and invokes every
  interrupt if no shield is up.\<close>

definition must_cancel :: "storage_token \<Rightarrow> poll_input \<Rightarrow> bool" where
  "must_cancel t i \<longleftrightarrow> (case pi_row i of None \<Rightarrow> True
     | Some r \<Rightarrow> \<not> owns_row t r \<or> dr_cancel_requested r)"

definition calm :: "storage_token \<Rightarrow> bool" where
  "calm t \<longleftrightarrow> cx_deadline (tk_context t) = None \<and> \<not> cx_cancel_requested (tk_context t) \<and>
     \<not> cx_deadline_exceeded (tk_context t) \<and> cx_shield_depth (tk_context t) = 0"

definition same_owner :: "storage_token \<Rightarrow> storage_token \<Rightarrow> bool" where
  "same_owner t u \<longleftrightarrow> tk_job_id t = tk_job_id u \<and> tk_generation t = tk_generation u \<and>
     tk_owner t = tk_owner u"

lemma poll_keeps_calm:
  assumes "calm t" "\<not> must_cancel t i"
  obtains s where "poll i t = (s, [], t)" "\<not> cancellation_requested s"
proof -
  have "latch_deadline now (tk_context t) = tk_context t" for now
    using assms(1) by (simp add: calm_def latch_deadline_def)
  with assms have "\<exists>s. poll i t = (s, [], t) \<and> \<not> cancellation_requested s"
    by (auto simp: calm_def must_cancel_def poll_def context_defs context_simps split: option.splits)
  with that show thesis by blast
qed

text \<open>Afterwards nothing is invoked any more.\<close>

definition cancelled :: "storage_token \<Rightarrow> bool" where
  "cancelled t \<longleftrightarrow> cx_cancel_requested (tk_context t) \<and> cx_shield_depth (tk_context t) = 0"

lemma poll_cancelled:
  assumes "cancelled t"
  obtains s u where "poll i t = (s, [], u)" "cancellation_requested s" "cancelled u"
proof -
  have "\<exists>s u. poll i t = (s, [], u) \<and> cancellation_requested s \<and> cancelled u"
    using assms by (auto simp: cancelled_def poll_def request_on_token_def context_defs context_simps
        split: option.split)
  with that show thesis by blast
qed

lemma watch_polls_cancelled:
  assumes "cancelled t"
  shows "fst (watch_polls is t) = [] \<and> cancelled (snd (watch_polls is t))"
proof (cases "is")
  case (Cons i "is'")
  obtain s u where "poll i t = (s, [], u)" "cancellation_requested s" "cancelled u"
    by (rule poll_cancelled[OF assms])
  with Cons show ?thesis by simp
qed (use assms in simp)

lemma poll_cancels:
  assumes "calm t" "must_cancel t i"
  obtains s u where "poll i t = (s, cx_interrupts (tk_context t), u)" "cancellation_requested s"
    "cancelled u"
proof -
  have "latch_deadline now (tk_context t) = tk_context t" for now
    using assms(1) by (simp add: calm_def latch_deadline_def)
  moreover have "latch_deadline now (c\<lparr>cx_cancel_requested := True, cx_cancel_reason := r\<rparr>) =
      c\<lparr>cx_cancel_requested := True, cx_cancel_reason := r\<rparr>" if "cx_deadline c = None" for c now r
    using that by (simp add: latch_deadline_def)
  ultimately have
    "\<exists>s u. poll i t = (s, cx_interrupts (tk_context t), u) \<and> cancellation_requested s \<and>
      cancelled u"
    using assms by (auto simp: cancelled_def calm_def must_cancel_def poll_def request_on_token_def context_defs
        context_simps split: option.splits)
  with that show thesis by blast
qed

lemma watch_polls_cancel:
  assumes "calm t" "\<exists>i \<in> set is. must_cancel t i"
  shows "fst (watch_polls is t) = cx_interrupts (tk_context t) \<and>
    cancelled (snd (watch_polls is t))"
  using assms(2)
proof (induction "is")
  case (Cons i "is")
  show ?case
  proof (cases "must_cancel t i")
    case True
    obtain s u where "poll i t = (s, cx_interrupts (tk_context t), u)" "cancellation_requested s" "cancelled u"
      by (rule poll_cancels[OF assms(1) True])
    then show ?thesis by simp
  next
    case False
    obtain s where s: "poll i t = (s, [], t)" "\<not> cancellation_requested s"
      by (rule poll_keeps_calm[OF assms(1) False])
    have "\<exists>j \<in> set is. must_cancel t j" using Cons.prems False by auto
    from Cons.IH[OF this] s show ?thesis by (cases "watch_polls is t") simp
  qed
qed simp

lemma cancelled_checkpoint:
  assumes "cancelled t"
  shows "\<exists>e. fst (token_checkpoint i now t) = Inl e"
  using assms
  by (auto simp: cancelled_def token_checkpoint_def poll_def request_on_token_def context_defs context_simps
      split: option.split)

section \<open>Properties\<close>

text \<open>Cancellation latches: once the context has shown a cause, every later snapshot shows the
  same cause and the same reason, whatever other threads do and whatever the clock reads, so
  the first request owns the reason and nothing becomes active again.\<close>

theorem cancellation_is_latched:
  assumes "take_snapshot now c = (s, c1)" and "cancellation_requested s"
  shows "sn_cause (fst (take_snapshot later (snd (context_run c1 ops)))) = sn_cause s
     \<and> sn_reason (fst (take_snapshot later (snd (context_run c1 ops)))) = sn_reason s"
proof -
  have "latched (sn_cause s) (sn_reason s) c1"
    using assms by (auto simp: latched_def take_snapshot_def cancellation_requested_def Let_def)
  then have "latched (sn_cause s) (sn_reason s) (snd (context_run c1 ops))"
    by (rule context_run_inv[where P = "\<lambda>_. latched (sn_cause s) (sn_reason s)"])
      (metis latched_step snd_conv)
  from latched_latch[OF this] show ?thesis by (simp add: latched_def take_snapshot_def Let_def)
qed

theorem cancellation_is_latched_witness:
  "sn_reason (fst (take_snapshot 9 (snd (context_run (snd (snd (request_cancel (Some ''first'') 1 1
     (new_context (Some 5))))) [Op_Request (Some ''second'') 2 2, Op_Snapshot 7])))) = Some ''first''"
proof -
  let ?c = "snd (snd (request_cancel (Some ''first'') 1 1 (new_context (Some 5))))"
  have c: "take_snapshot 1 ?c = (snapshot_of ?c, ?c)" "cancellation_requested (snapshot_of ?c)"
    "sn_reason (snapshot_of ?c) = Some ''first''"
    by code_simp+
  show ?thesis by (rule trans[OF conjunct2[OF cancellation_is_latched[OF c(1,2)]] c(3)])
qed

text \<open>C25. A critical section is never interrupted: as long as a shield stays up, no interrupt is
  invoked, no checkpoint raises and the kill fence is not eligible, whatever is requested
  meanwhile.\<close>

theorem shield_defers_everything:
  assumes "\<forall>n \<le> length ops. 0 < cx_shield_depth (snd (context_run c (take n ops)))"
  shows "fst (context_run c ops) = []
     \<and> fst (checkpoint now (snd (context_run c ops))) = Inr ()
     \<and> fst (context_kill_fence now (snd (context_run c ops))) \<noteq> Eligible"
proof -
  have "fst (context_run c ops) = []"
    using assms
  proof (induction ops rule: rev_induct)
    case (snoc op ops)
    have "\<forall>n \<le> length ops. 0 < cx_shield_depth (snd (context_run c (take n ops)))"
      using snoc.prems by (metis (no_types, lifting) Suc_leD append_Nil2 diff_is_0_eq le_Suc_eq
          length_append_singleton take0 take_append)
    with snoc.IH have none: "fst (context_run c ops) = []" by simp
    obtain c1 where c1: "context_run c ops = ([], c1)" using none by (metis prod.collapse)
    have "0 < cx_shield_depth (snd (context_run c (ops @ [op])))"
      using snoc.prems[rule_format, of "length (ops @ [op])"] by simp
    then have "0 < cx_shield_depth (snd (context_step c1 op))"
      by (simp add: context_run_append c1 split: prod.splits)
    from shielded_step[OF this] show ?case
      by (simp add: context_run_append c1 split: prod.splits)
  qed simp
  moreover have "0 < cx_shield_depth (snd (context_run c ops))"
    using assms[rule_format, of "length ops"] by simp
  ultimately show ?thesis
    by (simp add: checkpoint_def context_kill_fence_def take_snapshot_def Let_def context_simps)
qed

theorem shield_defers_everything_witness:
  "let c = snd (enter_shield 0 (new_context None));
       ops = [Op_Register ''q'' 1, Op_Enter 1, Op_Request None 2 2, Op_Exit 3]
   in fst (context_run c ops) = [] \<and> fst (checkpoint 4 (snd (context_run c ops))) = Inr ()"
proof -
  let ?c = "snd (enter_shield 0 (new_context None))"
  let ?ops = "[Op_Register ''q'' 1, Op_Enter 1, Op_Request None 2 2, Op_Exit 3]"
  have "list_all (\<lambda>n. 0 < cx_shield_depth (snd (context_run ?c (take n ?ops)))) [0..<5]"
    by code_simp
  then have "0 < cx_shield_depth (snd (context_run ?c (take n ?ops)))" if "n \<le> length ?ops" for n
    using that by (auto simp: list_all_iff simp del: context_run.simps take_Suc_Cons)
  then have "\<forall>n \<le> length ?ops. 0 < cx_shield_depth (snd (context_run ?c (take n ?ops)))" by blast
  from shield_defers_everything[OF this, of 4] show ?thesis unfolding Let_def by blast
qed

text \<open>C26. A requested cancellation reaches every active operation: in whatever order interrupts
  are registered, shields entered and left and cancellation requested, once a request was
  accepted and no shield is up, every interrupt still registered has been invoked.\<close>

theorem cancel_reaches_every_interrupt:
  assumes "context_run (new_context deadline) ops = (invoked, c)"
    and "cx_cancel_requested c" and "cx_shield_depth c = 0"
  shows "set (cx_interrupts c) \<subseteq> set invoked"
proof -
  have "all_notified (fst (context_run (new_context deadline) ops)) (snd (context_run (new_context deadline) ops))"
    by (rule context_run_inv[where P = all_notified])
      (simp_all add: all_notified_step, simp add: all_notified_def new_context_def)
  with assms show ?thesis by (simp add: all_notified_def)
qed

theorem cancel_reaches_every_interrupt_witness:
  "let (invoked, c) = context_run (new_context None)
     [Op_Register ''query'' 0, Op_Enter 1, Op_Request None 2 2, Op_Register ''llm'' 3, Op_Exit 4]
   in (0, ''query'') \<in> set invoked \<and> (1, ''llm'') \<in> set invoked"
proof -
  let ?r = "context_run (new_context None)
     [Op_Register ''query'' 0, Op_Enter 1, Op_Request None 2 2, Op_Register ''llm'' 3, Op_Exit 4]"
  have c: "cx_cancel_requested (snd ?r)" "cx_shield_depth (snd ?r) = 0"
    "cx_interrupts (snd ?r) = [(0, ''query''), (1, ''llm'')]"
    by code_simp+
  have "set (cx_interrupts (snd ?r)) \<subseteq> set (fst ?r)"
    by (rule cancel_reaches_every_interrupt[OF prod.collapse[symmetric] c(1,2)])
  with c(3) show ?thesis by (auto simp del: context_run.simps split: prod.splits)
qed

text \<open>A deadline interrupts nobody: after the deadline of a context that nobody cancelled was
  seen as due, the fence is eligible, yet cancellation requests are refused and no interrupt
  registered before is ever invoked, unless a shield is left.\<close>

theorem deadline_interrupts_nobody:
  assumes "cx_deadline_exceeded c" and "\<not> cx_cancel_requested c" and "cx_shield_depth c = 0"
    and "\<forall>op \<in> set ops. \<not> (\<exists>callback now. op = Op_Register callback now) \<and> \<not> (\<exists>now. op = Op_Exit now)"
  shows "fst (context_run c ops) = []
     \<and> fst (context_kill_fence now (snd (context_run c ops))) = Eligible
     \<and> fst (request_cancel reason now later (snd (context_run c ops))) = False"
  using assms(1-4)
proof (induction ops arbitrary: c)
  case Nil
  then show ?case
    by (simp add: context_kill_fence_def context_defs context_simps)
next
  case (Cons op ops)
  let ?c = "snd (context_step c op)"
  have "fst (context_step c op) = []" "cx_deadline_exceeded ?c" "\<not> cx_cancel_requested ?c"
    "cx_shield_depth ?c = 0"
    using Cons.prems by (cases op; auto simp: context_defs context_simps)+
  with Cons.IH[of ?c] Cons.prems(4) show ?case by (auto split: prod.split)
qed

theorem deadline_interrupts_nobody_witness:
  "let c = snd (context_run (new_context (Some 5)) [Op_Register ''query'' 0, Op_Snapshot 6])
   in cx_interrupts c = [(0, ''query'')] \<and>
      fst (context_run c [Op_Request (Some ''stop'') 7 7, Op_Snapshot 8]) = [] \<and>
      fst (context_kill_fence 9 (snd (context_run c [Op_Request (Some ''stop'') 7 7, Op_Snapshot 8]))) = Eligible"
proof -
  let ?c = "snd (context_run (new_context (Some 5)) [Op_Register ''query'' 0, Op_Snapshot 6])"
  have c: "cx_deadline_exceeded ?c" "\<not> cx_cancel_requested ?c" "cx_shield_depth ?c = 0"
    "cx_interrupts ?c = [(0, ''query'')]"
    by code_simp+
  have "\<forall>op \<in> set [Op_Request (Some ''stop'') 7 7, Op_Snapshot 8].
      \<not> (\<exists>callback now. op = Op_Register callback now) \<and> \<not> (\<exists>now. op = Op_Exit now)" by simp
  from deadline_interrupts_nobody[OF c(1-3) this, of 9] c(4) show ?thesis unfolding Let_def by blast
qed

text \<open>Losing the job fails closed and for good: once a poll found the row missing or owned by
  another generation or owner, every later checkpoint outside a shield raises that ownership
  was lost, whatever rows are read afterwards.\<close>

theorem lost_ownership_fails_closed:
  assumes "pi_row i = None \<or> (\<exists>r. pi_row i = Some r \<and> \<not> owns_row t r)"
    and "u = foldl token_step (snd (snd (poll i t))) ops"
    and "cx_shield_depth (tk_context u) = 0"
  shows "\<exists>s. fst (token_checkpoint j now u) = Inl (Ownership_Lost s)"
proof -
  have "tk_ownership_lost (snd (snd (poll i t)))" using assms(1) by (auto simp: poll_lost)
  then have "tk_ownership_lost u" unfolding assms(2) by (rule tokens_lost)
  then have lost: "tk_ownership_lost (snd (snd (poll j u)))" by (simp add: poll_lost)
  have "sn_shield_depth (fst (poll j u)) = 0"
    using assms(3) by (auto simp: poll_def request_on_token_def context_defs context_simps split: option.split)
  with lost show ?thesis by (auto simp: token_checkpoint_def split: prod.splits)
qed

theorem lost_ownership_fails_closed_witness:
  "let t = \<lparr>tk_job_id = ''j'', tk_generation = 1, tk_owner = ''w'', tk_context = new_context None,
          tk_ownership_lost = False, tk_shield_depth = 0\<rparr>;
       row = (\<lambda>g. Some \<lparr>dr_job_id = ''j'', dr_generation = g, dr_owner = ''w'', dr_cancel_requested = False, dr_reason = None\<rparr>);
       input = (\<lambda>g. \<lparr>pi_row = row g, pi_request = 0, pi_callbacks = 0, pi_snapshot = 0\<rparr>)
   in \<exists>s. fst (token_checkpoint (input 1) 0 (foldl token_step (snd (snd (poll (input 2) t))) [Token_Poll (input 1)]))
        = Inl (Ownership_Lost s)"
  unfolding Let_def
proof (rule lost_ownership_fails_closed[OF _ refl])
  let ?t = "\<lparr>tk_job_id = ''j'', tk_generation = 1, tk_owner = ''w'', tk_context = new_context None,
          tk_ownership_lost = False, tk_shield_depth = 0\<rparr>"
  let ?i = "\<lambda>g. \<lparr>pi_row = Some \<lparr>dr_job_id = ''j'', dr_generation = g, dr_owner = ''w'', dr_cancel_requested = False, dr_reason = None\<rparr>,
     pi_request = 0, pi_callbacks = 0, pi_snapshot = 0\<rparr>"
  show "pi_row (?i 2) = None \<or> (\<exists>r. pi_row (?i 2) = Some r \<and> \<not> owns_row ?t r)"
    by (simp add: owns_row_def)
  show "cx_shield_depth (tk_context (foldl token_step (snd (snd (poll (?i 2) ?t))) [Token_Poll (?i 1)])) = 0"
    by code_simp
qed

text \<open>A durable cancellation interrupts blocking work: while the watcher polls for an unshielded
  operation, the first poll that sees a cancellation, or the job gone, invokes every registered
  interrupt exactly once, and every later checkpoint raises.\<close>

theorem durable_cancel_interrupts:
  assumes "calm t" and "0 < interval" and "\<exists>i \<in> set (first # is). must_cancel t i"
  shows "\<exists>u. watch interval first is t = Inr (cx_interrupts (tk_context t), u)
     \<and> (\<forall>i now. \<exists>e. fst (token_checkpoint i now u) = Inl e)"
proof -
  have "\<exists>s cbs u more v. poll first t = (s, cbs, u) \<and> watch_polls is u = (more, v) \<and>
      cbs @ more = cx_interrupts (tk_context t) \<and> cancelled v"
  proof (cases "must_cancel t first")
    case True
    obtain s u where u: "poll first t = (s, cx_interrupts (tk_context t), u)" "cancelled u"
      by (rule poll_cancels[OF assms(1) True])
    from watch_polls_cancelled[OF u(2), of "is"] u(1) show ?thesis
      by (metis append_Nil2 prod.collapse)
  next
    case False
    then obtain s where "poll first t = (s, [], t)" by (rule poll_keeps_calm[OF assms(1)])
    moreover have "\<exists>i \<in> set is. must_cancel t i" using assms(3) False by auto
    ultimately show ?thesis using watch_polls_cancel[OF assms(1)] by (metis append_Nil prod.collapse)
  qed
  then obtain s cbs u more v where v: "poll first t = (s, cbs, u)" "watch_polls is u = (more, v)"
    "cbs @ more = cx_interrupts (tk_context t)" "cancelled v" by blast
  then have "watch interval first is t = Inr (cx_interrupts (tk_context t), v)"
    using assms(2) by (simp add: watch_def)
  with cancelled_checkpoint[OF v(4)] show ?thesis by blast
qed

theorem durable_cancel_interrupts_witness:
  "let t = \<lparr>tk_job_id = ''j'', tk_generation = 1, tk_owner = ''w'',
          tk_context = snd (context_run (new_context None) [Op_Register ''query'' 0]),
          tk_ownership_lost = False, tk_shield_depth = 0\<rparr>;
       input = (\<lambda>b. \<lparr>pi_row = Some \<lparr>dr_job_id = ''j'', dr_generation = 1, dr_owner = ''w'',
          dr_cancel_requested = b, dr_reason = None\<rparr>, pi_request = 0, pi_callbacks = 0, pi_snapshot = 0\<rparr>)
   in \<exists>u. watch 1 (input False) [input False, input True] t = Inr ([(0, ''query'')], u)"
proof -
  let ?t = "\<lparr>tk_job_id = ''j'', tk_generation = 1, tk_owner = ''w'',
          tk_context = snd (context_run (new_context None) [Op_Register ''query'' 0]),
          tk_ownership_lost = False, tk_shield_depth = 0\<rparr>"
  let ?i = "\<lambda>b. \<lparr>pi_row = Some \<lparr>dr_job_id = ''j'', dr_generation = 1, dr_owner = ''w'',
          dr_cancel_requested = b, dr_reason = None\<rparr>, pi_request = 0, pi_callbacks = 0, pi_snapshot = 0\<rparr>"
  have c: "calm ?t" "must_cancel ?t (?i True)" "cx_interrupts (tk_context ?t) = [(0, ''query'')]"
    by code_simp+
  then have "\<exists>i \<in> set [?i False, ?i False, ?i True]. must_cancel ?t i" by simp
  from durable_cancel_interrupts[OF c(1) _ this, of 1] c(3) show ?thesis unfolding Let_def by auto
qed

end
