(* ===== verification/Receipts.thy ===== *)
theory Receipts
  imports Prelude
begin

text \<open>
  Evidence receipts (\<open>schemas/receipts.py\<close>): the typed envelope of one tool call, its
  validators in the order of the code, the digest over its fields, and the witness of the data
  state. SHA-256 of the canonical JSON is a parameter, over the body the code serializes.
\<close>

section \<open>The parts of a receipt\<close>

datatype fact_support_type = Fact_Direct | Fact_Compression | Fact_Inference | Fact_Absence

datatype fact_value_type =
    Value_Number | Value_Percent | Value_Count | Value_String | Value_Bool | Value_Null

datatype replication_kind = Same_Snapshot_Corroboration | Holdout | External_Replication

datatype derivation_operator =
    Op_Percentage | Op_Difference | Op_Relative_Change | Op_Weighted_Average | Op_Ratio

datatype hypothesis_side = Supports | Contradicts

datatype scope_resolution = Scope_Explicit | Scope_Resolved | Scope_Whole_Dataset

datatype entry_status = Entry_Evaluated | Entry_Unevaluated

record receipt_fact =
  rf_fact_id :: string
  rf_name :: string
  rf_value :: py_value
  rf_value_type :: fact_value_type
  rf_unit :: "string option"
  rf_support_type :: fact_support_type

record receipt_derivation =
  rd_derived_fact_id :: string
  rd_operator :: derivation_operator
  rd_input_fact_ids :: "string list"

record receipt_execution =
  rx_run_id :: string
  rx_provider_call_id :: string
  rx_logical_step_id :: string
  rx_attempt_epoch :: int
  rx_sequence_index :: int

record receipt_scope =
  sc_dataset_ids :: "string list"
  sc_columns :: "string list"
  sc_omitted_columns :: "string list"
  sc_scope_resolution :: "scope_resolution option"
  sc_filters :: "string option"
  sc_time_range :: "string option"

record manifest_entry =
  me_fact_id :: string
  me_row_index :: int
  me_status :: entry_status
  me_row_digest :: string

record fact_manifest =
  fm_schema_version :: int
  fm_total_rows :: int
  fm_unlisted_rows :: int
  fm_entries :: "manifest_entry list"

record receipt_method =
  rm_family :: string
  rm_parameters :: "(string, py_value) dict"
  rm_assumptions :: "string list"
  rm_warnings :: "string list"

record receipt_statistics =
  st_hypothesis_id :: "string option"
  st_statistical_family_id :: "string option"
  st_hypothesis_outcome :: "hypothesis_side option"
  st_test_name :: string
  st_test_statistic :: "py_real option"
  st_p_value :: "py_real option"
  st_adjusted_p_value :: "py_real option"
  st_effect_size :: "py_real option"
  st_ci_low :: "py_real option"
  st_ci_high :: "py_real option"
  st_sample_size :: "int option"
  st_sequence_index :: "int option"

record evidence_receipt =
  er_receipt_id :: string
  er_tool_call_id :: string
  er_execution :: "receipt_execution option"
  er_tool_name :: string
  er_tool_version :: string
  er_input_digest :: string
  er_output_digest :: string
  er_artifact_ids :: "string list"
  er_result_count :: int
  er_scope :: receipt_scope
  er_facts :: "receipt_fact list"
  er_derivations :: "receipt_derivation list"
  er_method :: receipt_method
  er_statistics :: "receipt_statistics option"
  er_fact_manifest :: "fact_manifest option"
  er_evidence_independence_key :: "string option"
  er_replication_kind :: "replication_kind option"
  er_data_state_witness :: string
  er_created_at :: string
  er_content_digest :: string

section \<open>Validators of the parts\<close>

datatype receipt_fault =
    Columns_Missing | Whole_Dataset_With_Columns
  | Row_Index_Negative | Row_Digest_Malformed
  | Manifest_Negative | Manifest_Too_Long | Manifest_Sum | Manifest_Ids_Not_Unique
  | Outcome_Without_Hypothesis
  | Receipt_Id_Malformed | Digest_Malformed string | Tool_Call_Id_Empty | Fact_Ids_Not_Unique
  | Duplicate_Derivation string | Unknown_Inputs string "string list" | Derivation_Collides string
  | Binary_Arity string | Weighted_Arity string | Input_Not_Numeric string string
  | Units_Differ string | Denominator_Zero string string
  | Entry_Unbacked string | Result_Count_Negative | Absence_With_Results "string list"
  | Receipt_Tampered | Witness_Mismatch

type_synonym 'a checked = "receipt_fault + 'a"

definition is_hex :: "char \<Rightarrow> bool" where
  "is_hex c \<longleftrightarrow> c \<in> set ''0123456789abcdef''"

definition receipt_prefix :: string where
  "receipt_prefix = ''rcpt_''"

definition receipt_id_ok :: "string \<Rightarrow> bool" where
  "receipt_id_ok s \<longleftrightarrow> take 5 s = receipt_prefix \<and> length s = 29 \<and> list_all is_hex (drop 5 s)"

definition sha256_hex_ok :: "string \<Rightarrow> bool" where
  "sha256_hex_ok s \<longleftrightarrow> length s = 64 \<and> list_all is_hex s"

definition scope_check :: "receipt_scope \<Rightarrow> unit checked" where
  "scope_check s = guarding
     [(sc_scope_resolution s \<in> {Some Scope_Explicit, Some Scope_Resolved} \<and> sc_columns s = [],
         Columns_Missing),
      (sc_scope_resolution s = Some Scope_Whole_Dataset \<and>
         (sc_columns s \<noteq> [] \<or> sc_omitted_columns s \<noteq> []), Whole_Dataset_With_Columns)] ()"

definition entry_check :: "manifest_entry \<Rightarrow> unit checked" where
  "entry_check e = guarding
     [(me_row_index e < 0, Row_Index_Negative),
      (\<not> sha256_hex_ok (me_row_digest e), Row_Digest_Malformed)] ()"

definition manifest_check :: "fact_manifest \<Rightarrow> unit checked" where
  "manifest_check m = guarding
     [(fm_total_rows m < 0 \<or> fm_unlisted_rows m < 0, Manifest_Negative),
      (1024 < length (fm_entries m), Manifest_Too_Long),
      (int (length (fm_entries m)) + fm_unlisted_rows m \<noteq> fm_total_rows m, Manifest_Sum),
      (\<not> distinct (map me_fact_id (fm_entries m)), Manifest_Ids_Not_Unique)] ()"

definition hypothesis_evidence_is_explicitly_invalid :: "receipt_method \<Rightarrow> bool" where
  "hypothesis_evidence_is_explicitly_invalid m \<longleftrightarrow>
     map_of (rm_parameters m) ''hypothesis_evidence_valid'' = Some (PyBool False)"

definition statistics_check :: "receipt_statistics \<Rightarrow> unit checked" where
  "statistics_check s = guarding
     [(st_hypothesis_outcome s \<noteq> None \<and>
         py_strip (case st_hypothesis_id s of None \<Rightarrow> [] | Some h \<Rightarrow> h) = [],
         Outcome_Without_Hypothesis)] ()"

fun finite_or_none :: "py_real option \<Rightarrow> bool" where
  "finite_or_none None = True"
| "finite_or_none (Some x) = isfinite x"

definition has_valid_numeric_values :: "receipt_statistics \<Rightarrow> bool" where
  "has_valid_numeric_values s \<longleftrightarrow>
     list_all finite_or_none [st_test_statistic s, st_p_value s, st_adjusted_p_value s,
       st_effect_size s, st_ci_low s, st_ci_high s] \<and>
     \<not> (case (st_ci_low s, st_ci_high s) of (Some l, Some u) \<Rightarrow> real_greater l u | _ \<Rightarrow> False)"

section \<open>Derivations\<close>

definition numeric_value_types :: "fact_value_type list" where
  "numeric_value_types = [Value_Number, Value_Count, Value_Percent]"

definition binary_operators :: "derivation_operator list" where
  "binary_operators = [Op_Percentage, Op_Difference, Op_Relative_Change, Op_Ratio]"

definition same_unit_operators :: "derivation_operator list" where
  "same_unit_operators = [Op_Percentage, Op_Difference, Op_Relative_Change]"

definition denominator_operators :: "derivation_operator list" where
  "denominator_operators = [Op_Percentage, Op_Relative_Change, Op_Ratio]"

fun is_number :: "py_value \<Rightarrow> bool" where
  "is_number (PyInt _) = True"
| "is_number (PyFloat _) = True"
| "is_number _ = False"

fun is_zero :: "py_value \<Rightarrow> bool" where
  "is_zero (PyInt n) = (n = 0)"
| "is_zero (PyFloat x) = (x = Finite 0)"
| "is_zero _ = False"

definition facts_by_id :: "receipt_fact list \<Rightarrow> (string, receipt_fact) dict" where
  "facts_by_id facts = map (\<lambda>f. (rf_fact_id f, f)) facts"

text \<open>The inputs are facts of the receipt: unknown ones were refused before.\<close>

definition input_facts ::
  "(string, receipt_fact) dict \<Rightarrow> receipt_derivation \<Rightarrow> receipt_fact list" where
  "input_facts facts d = List.map_filter (map_of facts) (rd_input_fact_ids d)"

definition check_derivation_semantics ::
  "receipt_derivation \<Rightarrow> (string, receipt_fact) dict \<Rightarrow> unit checked" where
  "check_derivation_semantics d facts =
     (let i = rd_derived_fact_id d; operator = rd_operator d; arity = length (rd_input_fact_ids d)
      in bind_res (guarding
          [(operator \<in> set binary_operators \<and> arity \<noteq> 2, Binary_Arity i),
           (operator = Op_Weighted_Average \<and> (arity < 2 \<or> odd arity), Weighted_Arity i)] ()) (\<lambda>_.
         bind_res (check_all (\<lambda>f. guarding
             [(rf_value_type f \<notin> set numeric_value_types \<or> \<not> is_number (rf_value f),
                 Input_Not_Numeric i (rf_fact_id f))] ()) (input_facts facts d)) (\<lambda>_.
         guarding
           [(operator \<in> set same_unit_operators \<and>
               1 < length (remdups (map rf_unit (input_facts facts d))), Units_Differ i),
            (operator \<in> set denominator_operators \<and> is_zero (rf_value (input_facts facts d ! 1)),
               Denominator_Zero i (rf_fact_id (input_facts facts d ! 1)))] ())))"

fun derivations_check ::
  "(string, receipt_fact) dict \<Rightarrow> string list \<Rightarrow> receipt_derivation list \<Rightarrow> unit checked" where
  "derivations_check facts seen [] = Inr ()"
| "derivations_check facts seen (d # ds) =
     (let i = rd_derived_fact_id d;
          missing = filter (\<lambda>ref. map_of facts ref = None) (rd_input_fact_ids d)
      in bind_res (guarding
          [(i \<in> set seen, Duplicate_Derivation i),
           (missing \<noteq> [], Unknown_Inputs i missing),
           (map_of facts i \<noteq> None, Derivation_Collides i)] ()) (\<lambda>_.
         bind_res (check_derivation_semantics d facts) (\<lambda>_.
         derivations_check facts (i # seen) ds)))"

section \<open>The whole receipt\<close>

definition starts_with :: "string \<Rightarrow> string \<Rightarrow> bool" where
  "starts_with p s \<longleftrightarrow> take (length p) s = p"

definition backed :: "string list \<Rightarrow> manifest_entry \<Rightarrow> bool" where
  "backed known e \<longleftrightarrow> me_fact_id e \<in> set known \<or>
     list_ex (starts_with (me_fact_id e @ ''.'')) known"

definition manifest_entries :: "evidence_receipt \<Rightarrow> manifest_entry list" where
  "manifest_entries r = (case er_fact_manifest r of None \<Rightarrow> [] | Some m \<Rightarrow> fm_entries m)"

definition absence_facts :: "evidence_receipt \<Rightarrow> string list" where
  "absence_facts r =
     map rf_fact_id (filter (\<lambda>f. rf_support_type f = Fact_Absence) (er_facts r))"

definition receipt_check :: "evidence_receipt \<Rightarrow> unit checked" where
  "receipt_check r =
     (let known = map rf_fact_id (er_facts r) in
      bind_res (guarding
        [(\<not> receipt_id_ok (er_receipt_id r), Receipt_Id_Malformed),
         (\<not> sha256_hex_ok (er_input_digest r), Digest_Malformed ''input_digest''),
         (\<not> sha256_hex_ok (er_output_digest r), Digest_Malformed ''output_digest''),
         (\<not> sha256_hex_ok (er_content_digest r), Digest_Malformed ''content_digest''),
         (er_tool_call_id r = [], Tool_Call_Id_Empty),
         (\<not> distinct known, Fact_Ids_Not_Unique)] ()) (\<lambda>_.
      bind_res (derivations_check (facts_by_id (er_facts r)) [] (er_derivations r)) (\<lambda>_.
      bind_res (check_all (\<lambda>e. guarding
          [(me_status e = Entry_Evaluated \<and> \<not> backed known e, Entry_Unbacked (me_fact_id e))] ())
          (manifest_entries r)) (\<lambda>_.
      guarding
        [(er_result_count r < 0, Result_Count_Negative),
         (er_result_count r \<noteq> 0 \<and> absence_facts r \<noteq> [], Absence_With_Results (absence_facts r))]
        ()))))"

text \<open>Parsing validates the parts first, in the order of the fields.\<close>

definition parse_receipt :: "evidence_receipt \<Rightarrow> evidence_receipt checked" where
  "parse_receipt r =
     bind_res (scope_check (er_scope r)) (\<lambda>_.
     bind_res (case er_statistics r of None \<Rightarrow> Inr () | Some s \<Rightarrow> statistics_check s) (\<lambda>_.
     bind_res (case er_fact_manifest r of None \<Rightarrow> Inr ()
       | Some m \<Rightarrow> bind_res (check_all entry_check (fm_entries m)) (\<lambda>_. manifest_check m)) (\<lambda>_.
     bind_res (receipt_check r) (\<lambda>_.
     Inr r))))"

section \<open>The content digest\<close>

text \<open>The JSON values of a receipt's fields; a nested model is kept as the record it dumps.\<close>

datatype digest_value =
    DV_Null
  | DV_Str string
  | DV_Int int
  | DV_Float py_real
  | DV_Strs "string list"
  | DV_Execution receipt_execution
  | DV_Scope receipt_scope
  | DV_Facts "receipt_fact list"
  | DV_Derivations "receipt_derivation list"
  | DV_Method receipt_method
  | DV_Statistics "(string \<times> digest_value) list"
  | DV_Manifest fact_manifest
  | DV_Replication replication_kind
  | DV_Side hypothesis_side

definition or_null :: "('a \<Rightarrow> digest_value) \<Rightarrow> 'a option \<Rightarrow> digest_value" where
  "or_null f x = (case x of None \<Rightarrow> DV_Null | Some y \<Rightarrow> f y)"

definition statistics_fields :: "receipt_statistics \<Rightarrow> (string \<times> digest_value) list" where
  "statistics_fields s =
     [(''hypothesis_id'', or_null DV_Str (st_hypothesis_id s)),
      (''statistical_family_id'', or_null DV_Str (st_statistical_family_id s)),
      (''hypothesis_outcome'', or_null DV_Side (st_hypothesis_outcome s)),
      (''test_name'', DV_Str (st_test_name s)),
      (''test_statistic'', or_null DV_Float (st_test_statistic s)),
      (''p_value'', or_null DV_Float (st_p_value s)),
      (''adjusted_p_value'', or_null DV_Float (st_adjusted_p_value s)),
      (''effect_size'', or_null DV_Float (st_effect_size s)),
      (''ci_low'', or_null DV_Float (st_ci_low s)),
      (''ci_high'', or_null DV_Float (st_ci_high s)),
      (''sample_size'', or_null DV_Int (st_sample_size s)),
      (''sequence_index'', or_null DV_Int (st_sequence_index s))]"

definition receipt_fields :: "evidence_receipt \<Rightarrow> (string \<times> digest_value) list" where
  "receipt_fields r =
     [(''receipt_id'', DV_Str (er_receipt_id r)),
      (''tool_call_id'', DV_Str (er_tool_call_id r)),
      (''execution'', or_null DV_Execution (er_execution r)),
      (''tool_name'', DV_Str (er_tool_name r)),
      (''tool_version'', DV_Str (er_tool_version r)),
      (''input_digest'', DV_Str (er_input_digest r)),
      (''output_digest'', DV_Str (er_output_digest r)),
      (''artifact_ids'', DV_Strs (er_artifact_ids r)),
      (''result_count'', DV_Int (er_result_count r)),
      (''scope'', DV_Scope (er_scope r)),
      (''facts'', DV_Facts (er_facts r)),
      (''derivations'', DV_Derivations (er_derivations r)),
      (''method'', DV_Method (er_method r)),
      (''statistics'', or_null (\<lambda>s. DV_Statistics (statistics_fields s)) (er_statistics r)),
      (''fact_manifest'', or_null DV_Manifest (er_fact_manifest r)),
      (''evidence_independence_key'', or_null DV_Str (er_evidence_independence_key r)),
      (''replication_kind'', or_null DV_Replication (er_replication_kind r)),
      (''data_state_witness'', DV_Str (er_data_state_witness r)),
      (''created_at'', DV_Str (er_created_at r)),
      (''content_digest'', DV_Str (er_content_digest r))]"

definition omitted_when_none :: "string list" where
  "omitted_when_none = [''evidence_independence_key'', ''replication_kind'']"

definition statistics_omitted_when_none :: "string list" where
  "statistics_omitted_when_none = [''hypothesis_outcome'', ''statistical_family_id'']"

definition digest_statistics :: "digest_value \<Rightarrow> digest_value" where
  "digest_statistics v = (case v of
     DV_Statistics fs \<Rightarrow>
       DV_Statistics (filter (\<lambda>(k, x). \<not> (x = DV_Null \<and> k \<in> set statistics_omitted_when_none)) fs)
   | _ \<Rightarrow> v)"

definition digest_body :: "(string \<times> digest_value) list \<Rightarrow> (string \<times> digest_value) list" where
  "digest_body flds =
     map (\<lambda>(k, v). (k, if k = ''statistics'' then digest_statistics v else v))
       (filter (\<lambda>(k, v). k \<noteq> ''content_digest'' \<and> \<not> (v = DV_Null \<and> k \<in> set omitted_when_none)) flds)"

type_synonym digest_hash = "(string \<times> digest_value) list \<Rightarrow> string"

definition receipt_content_digest :: "digest_hash \<Rightarrow> (string \<times> digest_value) list \<Rightarrow> string" where
  "receipt_content_digest h flds = h (digest_body flds)"

definition verify_receipt_digest :: "digest_hash \<Rightarrow> evidence_receipt \<Rightarrow> bool" where
  "verify_receipt_digest h r \<longleftrightarrow> er_content_digest r = receipt_content_digest h (receipt_fields r)"

definition load_verified_receipt :: "digest_hash \<Rightarrow> evidence_receipt \<Rightarrow> evidence_receipt checked" where
  "load_verified_receipt h payload = bind_res (parse_receipt payload) (\<lambda>r.
     if \<not> verify_receipt_digest h r then Inl Receipt_Tampered else Inr r)"

section \<open>The data-state witness\<close>

record witness_entry =
  we_dataset_id :: string
  we_profile_artifact_id :: "string option"
  we_manifest_input_hash :: string

definition witness_version :: int where
  "witness_version = 1"

definition witness_prefix :: string where
  "witness_prefix = ''dsw1_''"

definition data_state_witness_digest ::
  "(int \<times> witness_entry list \<Rightarrow> string) \<Rightarrow> witness_entry list \<Rightarrow> string" where
  "data_state_witness_digest h es = witness_prefix @ h (witness_version, sort_key we_dataset_id es)"

definition assert_data_state_witness ::
  "(int \<times> witness_entry list \<Rightarrow> string) \<Rightarrow> string \<Rightarrow> witness_entry list \<Rightarrow> unit checked" where
  "assert_data_state_witness h witness es =
     (if witness \<noteq> data_state_witness_digest h es then Inl Witness_Mismatch else Inr ())"

section \<open>Facts about valid receipts\<close>

lemma facts_by_id_keys [simp]: "dict_keys (facts_by_id facts) = map rf_fact_id facts"
  by (simp add: facts_by_id_def)

lemma facts_by_id_Some:
  "distinct (map rf_fact_id facts) \<Longrightarrow>
     map_of (facts_by_id facts) i = Some f \<longleftrightarrow> f \<in> set facts \<and> rf_fact_id f = i"
  by (subst map_of_eq_Some_iff) (auto simp: facts_by_id_def comp_def image_iff)

lemma derivation_rules:
  assumes "derivations_check facts seen ds = Inr ()" "d \<in> set ds"
  shows "check_derivation_semantics d facts = Inr ()"
    "\<forall>ref \<in> set (rd_input_fact_ids d). map_of facts ref \<noteq> None"
    "map_of facts (rd_derived_fact_id d) = None"
  using assms
  by (induction ds arbitrary: seen)
    (auto simp: Let_def res_simps guarding_Inr_iff filter_empty_conv)

lemma derivations_distinct:
  "derivations_check facts seen ds = Inr () \<Longrightarrow>
     distinct (map rd_derived_fact_id ds) \<and> set (map rd_derived_fact_id ds) \<inter> set seen = {}"
proof (induction ds arbitrary: seen)
  case (Cons d ds)
  then have "derivations_check facts (rd_derived_fact_id d # seen) ds = Inr ()"
    "rd_derived_fact_id d \<notin> set seen"
    by (auto simp: Let_def res_simps guarding_Inr_iff)
  with Cons.IH[OF this(1)] show ?case by auto
qed simp

lemma receipt_checkD:
  assumes "receipt_check r = Inr ()"
  shows "distinct (map rf_fact_id (er_facts r))"
    "derivations_check (facts_by_id (er_facts r)) [] (er_derivations r) = Inr ()"
    "\<forall>e \<in> set (manifest_entries r). me_status e = Entry_Evaluated \<longrightarrow>
       backed (map rf_fact_id (er_facts r)) e"
    "0 \<le> er_result_count r" "er_result_count r \<noteq> 0 \<longrightarrow> absence_facts r = []"
    "receipt_id_ok (er_receipt_id r)"
  using assms by (auto simp: receipt_check_def Let_def res_simps guarding_Inr_iff)

lemma parse_receiptD:
  "parse_receipt r = Inr t \<longleftrightarrow> t = r \<and> scope_check (er_scope r) = Inr () \<and>
     (\<forall>s. er_statistics r = Some s \<longrightarrow> statistics_check s = Inr ()) \<and>
     (\<forall>m. er_fact_manifest r = Some m \<longrightarrow>
        (\<forall>e \<in> set (fm_entries m). entry_check e = Inr ()) \<and> manifest_check m = Inr ()) \<and>
     receipt_check r = Inr ()"
  by (auto simp: parse_receipt_def res_simps split: option.splits)

lemma short_list_set:
  assumes "length xs \<le> 1"
  obtains x where "set xs \<subseteq> {x}"
  using assms by (cases xs) auto

lemma map_filter_total:
  "\<forall>x \<in> set xs. f x \<noteq> None \<Longrightarrow> List.map_filter f xs = map (the \<circ> f) xs"
  by (induction xs) (auto simp: List.map_filter_simps)

lemma input_facts_eq:
  assumes "\<forall>ref \<in> set (rd_input_fact_ids d). map_of facts ref \<noteq> None"
  shows "input_facts facts d = map (the \<circ> map_of facts) (rd_input_fact_ids d)"
  unfolding input_facts_def by (rule map_filter_total[OF assms])

text \<open>What a derivation of a valid receipt rests on.\<close>

lemma check_derivation_semanticsD:
  assumes "check_derivation_semantics d facts = Inr ()"
    "\<forall>ref \<in> set (rd_input_fact_ids d). map_of facts ref \<noteq> None"
  shows "rd_operator d \<noteq> Op_Weighted_Average \<Longrightarrow> length (rd_input_fact_ids d) = 2"
    "rd_operator d = Op_Weighted_Average \<Longrightarrow>
       2 \<le> length (rd_input_fact_ids d) \<and> even (length (rd_input_fact_ids d))"
    "ref \<in> set (rd_input_fact_ids d) \<Longrightarrow> map_of facts ref = Some f \<Longrightarrow>
       rf_value_type f \<in> set numeric_value_types \<and> is_number (rf_value f)"
    "rd_operator d \<in> set same_unit_operators \<Longrightarrow> ref \<in> set (rd_input_fact_ids d) \<Longrightarrow>
       ref' \<in> set (rd_input_fact_ids d) \<Longrightarrow>
       rf_unit (the (map_of facts ref)) = rf_unit (the (map_of facts ref'))"
    "rd_operator d \<in> set denominator_operators \<Longrightarrow>
       \<not> is_zero (rf_value (the (map_of facts (rd_input_fact_ids d ! 1))))"
proof -
  let ?ids = "rd_input_fact_ids d"
  have inputs: "input_facts facts d = map (the \<circ> map_of facts) ?ids"
    by (rule input_facts_eq[OF assms(2)])
  note rules = assms(1)[unfolded check_derivation_semantics_def Let_def inputs res_simps, simplified]
  show arity: "rd_operator d \<noteq> Op_Weighted_Average \<Longrightarrow> length ?ids = 2"
    using rules by (cases "rd_operator d") (auto simp: binary_operators_def)
  show "rd_operator d = Op_Weighted_Average \<Longrightarrow> 2 \<le> length ?ids \<and> even (length ?ids)"
    using rules by auto
  show "ref \<in> set ?ids \<Longrightarrow> map_of facts ref = Some f \<Longrightarrow>
      rf_value_type f \<in> set numeric_value_types \<and> is_number (rf_value f)"
    using rules by force
  show "rf_unit (the (map_of facts ref)) = rf_unit (the (map_of facts ref'))"
    if op: "rd_operator d \<in> set same_unit_operators" and "ref \<in> set ?ids" "ref' \<in> set ?ids"
  proof -
    let ?units = "remdups (map rf_unit (map (the \<circ> map_of facts) ?ids))"
    from rules op have "length ?units \<le> 1" by auto
    then obtain u where "set ?units \<subseteq> {u}" by (rule short_list_set)
    with that show ?thesis by auto
  qed
  show "\<not> is_zero (rf_value (the (map_of facts (?ids ! 1))))"
    if op: "rd_operator d \<in> set denominator_operators"
  proof -
    from op have "rd_operator d \<noteq> Op_Weighted_Average"
      by (auto simp: denominator_operators_def)
    then have "length ?ids = 2" by (rule arity)
    with rules op show ?thesis by auto
  qed
qed

section \<open>What the digest protects\<close>

lemma dict_get_Cons [simp]:
  "dict_get ((k, v) # d) j w = (if j = k then v else dict_get d j w)"
  "dict_get [] j w = w"
  by (simp_all add: dict_get_def)

lemma dict_get_absent: "k \<notin> fst ` set d \<Longrightarrow> dict_get d k w = w"
  by (induction d) auto

lemma dict_get_filter:
  assumes "distinct (map fst d)" "\<And>v. P (k, v) \<or> v = w"
  shows "dict_get (filter P d) k w = dict_get d k w"
  using assms
proof (induction d)
  case (Cons p d)
  have IH: "dict_get (filter P d) k w = dict_get d k w"
    by (rule Cons.IH) (use Cons.prems in auto)
  obtain j v where p: "p = (j, v)" by (cases p)
  show ?case
  proof (cases "P p")
    case True
    with IH p show ?thesis by simp
  next
    case False
    with Cons.prems(2) p have "j = k \<Longrightarrow> v = w" by auto
    moreover from Cons.prems(1) p have "j = k \<Longrightarrow> dict_get d k w = w"
      by (auto intro: dict_get_absent)
    ultimately show ?thesis using False IH p by fastforce
  qed
qed simp

lemma dict_get_map:
  "f k w = w \<Longrightarrow> dict_get (map (\<lambda>(k, v). (k, f k v)) d) k w = f k (dict_get d k w)"
  by (induction d) auto

lemma dict_get_digest_body:
  assumes "distinct (map fst flds)" "k \<noteq> ''content_digest''"
  shows "dict_get (digest_body flds) k DV_Null =
    (if k = ''statistics'' then digest_statistics (dict_get flds k DV_Null)
     else dict_get flds k DV_Null)"
proof -
  let ?P = "\<lambda>(j, v). j \<noteq> ''content_digest'' \<and> \<not> (v = DV_Null \<and> j \<in> set omitted_when_none)"
  let ?f = "\<lambda>j v. if j = ''statistics'' then digest_statistics v else v"
  have "dict_get (digest_body flds) k DV_Null = ?f k (dict_get (filter ?P flds) k DV_Null)"
    unfolding digest_body_def by (rule dict_get_map) (simp add: digest_statistics_def)
  also have "dict_get (filter ?P flds) k DV_Null = dict_get flds k DV_Null"
    by (rule dict_get_filter) (use assms in auto)
  finally show ?thesis .
qed

lemma receipt_fields_keys: "distinct (map fst (receipt_fields r))"
  by (simp add: receipt_fields_def)

lemma or_null_inject:
  assumes "or_null f a = or_null f b" "inj f" "\<And>x. f x \<noteq> DV_Null"
  shows "a = b"
  using assms by (cases a; cases b) (auto simp: or_null_def dest: injD, metis+)

lemma or_null_iff:
  assumes "inj f" "\<And>x. f x \<noteq> DV_Null"
  shows "or_null f a = or_null f b \<longleftrightarrow> a = b"
  using or_null_inject[OF _ assms] by blast

lemma or_null_constructors [simp]:
  "or_null DV_Str a = or_null DV_Str b \<longleftrightarrow> a = b"
  "or_null DV_Int c = or_null DV_Int d \<longleftrightarrow> c = d"
  "or_null DV_Float x = or_null DV_Float y \<longleftrightarrow> x = y"
  "or_null DV_Side s = or_null DV_Side t \<longleftrightarrow> s = t"
  "or_null DV_Execution e = or_null DV_Execution f \<longleftrightarrow> e = f"
  "or_null DV_Manifest m = or_null DV_Manifest n \<longleftrightarrow> m = n"
  "or_null DV_Replication k = or_null DV_Replication l \<longleftrightarrow> k = l"
  by (rule or_null_iff, simp add: inj_def, simp)+

definition kept_statistics :: "receipt_statistics \<Rightarrow> (string \<times> digest_value) list" where
  "kept_statistics s = filter
     (\<lambda>(k, x). \<not> (x = DV_Null \<and> k \<in> set statistics_omitted_when_none)) (statistics_fields s)"

lemma kept_statistics_get:
  "dict_get (kept_statistics s) k DV_Null = dict_get (statistics_fields s) k DV_Null"
  unfolding kept_statistics_def
  by (rule dict_get_filter) (auto simp: statistics_fields_def)

lemma kept_statistics_inject:
  assumes "kept_statistics s = kept_statistics t"
  shows "s = t"
proof -
  have *: "dict_get (statistics_fields s) k DV_Null = dict_get (statistics_fields t) k DV_Null" for k
    by (simp only: kept_statistics_get[symmetric] assms)
  note at = *[unfolded statistics_fields_def]
  from at[of "''hypothesis_id''"] at[of "''statistical_family_id''"]
    at[of "''hypothesis_outcome''"] at[of "''test_name''"] at[of "''test_statistic''"]
    at[of "''p_value''"] at[of "''adjusted_p_value''"] at[of "''effect_size''"]
    at[of "''ci_low''"] at[of "''ci_high''"] at[of "''sample_size''"] at[of "''sequence_index''"]
  show ?thesis by simp
qed

lemma digest_statistics_inject:
  assumes "digest_statistics (or_null (\<lambda>s. DV_Statistics (statistics_fields s)) a) =
    digest_statistics (or_null (\<lambda>s. DV_Statistics (statistics_fields s)) b)"
  shows "a = b"
  using assms kept_statistics_inject
  by (auto simp: or_null_def digest_statistics_def kept_statistics_def split: option.splits)

lemma digest_body_inject:
  assumes "digest_body (receipt_fields r) = digest_body (receipt_fields t)"
    "er_content_digest r = er_content_digest t"
  shows "r = t"
proof -
  let ?at = "\<lambda>q k. if k = ''statistics'' then digest_statistics (dict_get (receipt_fields q) k DV_Null)
    else dict_get (receipt_fields q) k DV_Null"
  have *: "?at r k = ?at t k" if k: "k \<noteq> ''content_digest''" for k
    by (simp only: dict_get_digest_body[OF receipt_fields_keys k, symmetric] assms(1))
  have stats: "er_statistics r = er_statistics t"
    using *[of "''statistics''"]
    by (intro digest_statistics_inject) (simp add: receipt_fields_def)
  note at = *[unfolded receipt_fields_def]
  from at[of "''receipt_id''"] at[of "''tool_call_id''"] at[of "''execution''"]
    at[of "''tool_name''"] at[of "''tool_version''"] at[of "''input_digest''"]
    at[of "''output_digest''"] at[of "''artifact_ids''"] at[of "''result_count''"]
    at[of "''scope''"] at[of "''facts''"] at[of "''derivations''"] at[of "''method''"]
    at[of "''fact_manifest''"] at[of "''evidence_independence_key''"]
    at[of "''replication_kind''"] at[of "''data_state_witness''"] at[of "''created_at''"]
    stats assms(2)
  show ?thesis by simp
qed

text \<open>A receipt that loads is tamper-evident: any other payload that carries its content digest
  (a changed count, a stripped fact, a forged outcome, a removed replication kind) is refused,
  unless it forces a collision of the hash on the two bodies. The fields that the digest omits
  when unset are covered all the same.\<close>

theorem receipt_is_tamper_evident:
  assumes loaded: "load_verified_receipt h r = Inr t"
    and same: "er_content_digest q = er_content_digest r"
    and other: "q \<noteq> r"
    and no_collision: "inj_on h {digest_body (receipt_fields r), digest_body (receipt_fields q)}"
  shows "\<exists>e. load_verified_receipt h q = Inl e"
proof -
  have r: "verify_receipt_digest h r"
    using loaded by (auto simp: load_verified_receipt_def res_simps parse_receiptD split: if_splits)
  have "digest_body (receipt_fields q) \<noteq> digest_body (receipt_fields r)"
    using digest_body_inject[of q r] same other by blast
  then have "h (digest_body (receipt_fields q)) \<noteq> h (digest_body (receipt_fields r))"
    using no_collision by (auto simp: inj_on_def)
  with r same have bad: "\<not> verify_receipt_digest h q"
    by (simp add: verify_receipt_digest_def receipt_content_digest_def)
  show ?thesis
  proof (cases "parse_receipt q")
    case (Inr p)
    then have "p = q" by (simp add: parse_receiptD)
    with Inr bad show ?thesis by (simp add: load_verified_receipt_def)
  qed (simp add: load_verified_receipt_def)
qed

definition sample_receipt :: evidence_receipt where
  "sample_receipt = \<lparr>er_receipt_id = ''rcpt_'' @ replicate 24 CHR ''a'',
     er_tool_call_id = ''call'', er_execution = None, er_tool_name = ''anomaly_scan'',
     er_tool_version = ''1'', er_input_digest = replicate 64 CHR ''b'',
     er_output_digest = replicate 64 CHR ''c'', er_artifact_ids = [], er_result_count = 1,
     er_scope = \<lparr>sc_dataset_ids = [''d''], sc_columns = [''x''], sc_omitted_columns = [],
       sc_scope_resolution = Some Scope_Explicit, sc_filters = None, sc_time_range = None\<rparr>,
     er_facts =
       [\<lparr>rf_fact_id = ''before'', rf_name = ''n'', rf_value = PyInt 4, rf_value_type = Value_Count,
          rf_unit = None, rf_support_type = Fact_Direct\<rparr>,
        \<lparr>rf_fact_id = ''after'', rf_name = ''n'', rf_value = PyInt 2, rf_value_type = Value_Count,
          rf_unit = None, rf_support_type = Fact_Direct\<rparr>],
     er_derivations = [\<lparr>rd_derived_fact_id = ''ratio'', rd_operator = Op_Ratio,
       rd_input_fact_ids = [''before'', ''after'']\<rparr>],
     er_method = \<lparr>rm_family = ''descriptive'', rm_parameters = [], rm_assumptions = [],
       rm_warnings = []\<rparr>,
     er_statistics = None, er_fact_manifest = None, er_evidence_independence_key = None,
     er_replication_kind = Some Holdout, er_data_state_witness = ''dsw1_0'',
     er_created_at = ''2025-01-01'', er_content_digest = replicate 64 CHR ''a''\<rparr>"

definition sample_hash :: digest_hash where
  "sample_hash body =
     replicate 64 (if map_of body ''replication_kind'' = None then CHR ''0'' else CHR ''a'')"

lemma sample_receipt_loads: "load_verified_receipt sample_hash sample_receipt = Inr sample_receipt"
  by code_simp

text \<open>Stripping the replication kind of a receipt is caught.\<close>

theorem receipt_is_tamper_evident_witness:
  "\<exists>e. load_verified_receipt sample_hash (sample_receipt\<lparr>er_replication_kind := None\<rparr>) = Inl e"
proof (rule receipt_is_tamper_evident)
  show "load_verified_receipt sample_hash sample_receipt = Inr sample_receipt"
    by (rule sample_receipt_loads)
  show "sample_receipt\<lparr>er_replication_kind := None\<rparr> \<noteq> sample_receipt"
    by (simp add: sample_receipt_def)
  let ?r = "digest_body (receipt_fields sample_receipt)"
  let ?q = "digest_body (receipt_fields (sample_receipt\<lparr>er_replication_kind := None\<rparr>))"
  have "sample_hash ?r = replicate 64 CHR ''a''" by code_simp
  moreover have "sample_hash ?q = replicate 64 CHR ''0''" by code_simp
  ultimately have "sample_hash ?r \<noteq> sample_hash ?q" by simp
  then show "inj_on sample_hash {?r, ?q}" by (auto simp: inj_on_def)
qed simp

text \<open>
  A receipt written before the replication fields and the hypothesis fields existed has no key
  for them at all; its digest is the digest of the parsed receipt with those fields unset.
\<close>

definition legacy_fields :: "(string \<times> digest_value) list \<Rightarrow> (string \<times> digest_value) list" where
  "legacy_fields flds =
     map (\<lambda>(k, v). (k, case v of
       DV_Statistics fs \<Rightarrow>
         DV_Statistics (filter (\<lambda>(k, x). k \<notin> set statistics_omitted_when_none) fs)
     | _ \<Rightarrow> v)) (filter (\<lambda>(k, v). k \<notin> set omitted_when_none) flds)"

lemma legacy_statistics:
  assumes "st_hypothesis_outcome s = None" "st_statistical_family_id s = None"
  shows "kept_statistics s =
    filter (\<lambda>(k, x). k \<notin> set statistics_omitted_when_none) (statistics_fields s)"
  using assms
  by (auto simp: kept_statistics_def statistics_fields_def statistics_omitted_when_none_def
      or_null_def)

theorem legacy_receipt_still_verifies:
  assumes "er_evidence_independence_key r = None" "er_replication_kind r = None"
    "\<And>s. er_statistics r = Some s \<Longrightarrow>
       st_hypothesis_outcome s = None \<and> st_statistical_family_id s = None"
  shows "receipt_content_digest h (legacy_fields (receipt_fields r)) =
    receipt_content_digest h (receipt_fields r)"
proof -
  have "digest_body (legacy_fields (receipt_fields r)) = digest_body (receipt_fields r)"
  proof (cases "er_statistics r")
    case None
    with assms(1,2) show ?thesis
      by (simp add: digest_body_def legacy_fields_def receipt_fields_def omitted_when_none_def
          or_null_def digest_statistics_def split: option.splits)
  next
    case (Some s)
    have "kept_statistics s =
        filter (\<lambda>(k, x). k \<notin> set statistics_omitted_when_none) (statistics_fields s)"
      by (rule legacy_statistics) (use assms(3)[OF Some] in auto)
    with Some assms(1,2) show ?thesis
      by (simp add: digest_body_def legacy_fields_def receipt_fields_def omitted_when_none_def
          or_null_def digest_statistics_def kept_statistics_def split: option.splits)
        (auto intro!: filter_cong)
  qed
  then show ?thesis by (simp add: receipt_content_digest_def)
qed

section \<open>The witness of the data state\<close>

lemma sort_key_order_irrelevant:
  assumes "mset xs = mset ys" "inj_on f (set ys)"
  shows "sort_key f ys = sort_key f xs"
  by (rule sort_key_inj_key_eq) (simp_all add: assms)

text \<open>The recorded witness matches a data state exactly when the datasets, with their
  profiles and manifest hashes, are the recorded ones: the order in which they are listed does
  not matter, and any changed, added or removed dataset fails closed (short of a hash
  collision).\<close>

theorem witness_pins_the_data_state:
  assumes no_collision: "inj_on h {(witness_version, sort_key we_dataset_id recorded),
      (witness_version, sort_key we_dataset_id now)}"
    and one_entry_each: "distinct (map we_dataset_id recorded)"
  shows "assert_data_state_witness h (data_state_witness_digest h recorded) now = Inr () \<longleftrightarrow>
    mset now = mset recorded"
proof -
  have "assert_data_state_witness h (data_state_witness_digest h recorded) now = Inr () \<longleftrightarrow>
      h (witness_version, sort_key we_dataset_id recorded) =
      h (witness_version, sort_key we_dataset_id now)"
    by (simp add: assert_data_state_witness_def data_state_witness_digest_def)
  also have "\<dots> \<longleftrightarrow> sort_key we_dataset_id recorded = sort_key we_dataset_id now"
    by (simp add: inj_on_eq_iff[OF no_collision])
  also have "\<dots> \<longleftrightarrow> mset now = mset recorded"
  proof
    assume "sort_key we_dataset_id recorded = sort_key we_dataset_id now"
    then show "mset now = mset recorded" by (metis mset_sort)
  next
    assume "mset now = mset recorded"
    then show "sort_key we_dataset_id recorded = sort_key we_dataset_id now"
      using one_entry_each by (intro sort_key_order_irrelevant) (auto simp: distinct_map)
  qed
  finally show ?thesis .
qed

definition sample_entry :: "string \<Rightarrow> string \<Rightarrow> witness_entry" where
  "sample_entry d x = \<lparr>we_dataset_id = d, we_profile_artifact_id = None,
     we_manifest_input_hash = x\<rparr>"

definition sample_witness_hash :: "int \<times> witness_entry list \<Rightarrow> string" where
  "sample_witness_hash p = concat (map (\<lambda>e. we_dataset_id e @ we_manifest_input_hash e) (snd p))"

theorem witness_pins_the_data_state_witness:
  "assert_data_state_witness sample_witness_hash (data_state_witness_digest sample_witness_hash
      [sample_entry ''b'' ''1'', sample_entry ''a'' ''2''])
      [sample_entry ''a'' ''2'', sample_entry ''b'' ''1''] = Inr ()"
proof (subst witness_pins_the_data_state)
  have "sort_key we_dataset_id [sample_entry ''b'' ''1'', sample_entry ''a'' ''2''] =
      sort_key we_dataset_id [sample_entry ''a'' ''2'', sample_entry ''b'' ''1'']"
    by (rule sort_key_order_irrelevant) (simp_all add: sample_entry_def)
  then show "inj_on sample_witness_hash
      {(witness_version, sort_key we_dataset_id [sample_entry ''b'' ''1'', sample_entry ''a'' ''2'']),
       (witness_version, sort_key we_dataset_id [sample_entry ''a'' ''2'', sample_entry ''b'' ''1''])}"
    by simp
qed (simp_all add: sample_entry_def)

end
