(* ===== verification/Claims.thy ===== *)
theory Claims
  imports Receipts
begin

text \<open>
  Claim bundles (\<open>schemas/claims.py\<close>): what an agent emits instead of prose. The schema
  collects every fault of the fields in their order; the rules of a model run only when its
  fields are sound.
\<close>

section \<open>Qualified references\<close>

text \<open>\<open><receipt_id>:<fact_id>\<close>; the dot of the pattern matches no line feed.\<close>

definition split_evidence_ref :: "string \<Rightarrow> (string \<times> string) option" where
  "split_evidence_ref ref =
     (let i = take 29 ref; f = drop 30 ref
      in if receipt_id_ok i \<and> take 1 (drop 29 ref) = '':'' \<and> f \<noteq> [] \<and> CHR 0x0A \<notin> set f
         then Some (i, f) else None)"

definition qualified_ref :: "string \<Rightarrow> string \<Rightarrow> string" where
  "qualified_ref i f = i @ '':'' @ f"

lemma split_qualified_ref:
  assumes "receipt_id_ok i" "f \<noteq> []" "CHR 0x0A \<notin> set f"
  shows "split_evidence_ref (qualified_ref i f) = Some (i, f)"
proof -
  from assms(1) have "length i = 29" by (simp add: receipt_id_ok_def)
  with assms show ?thesis
    by (simp add: split_evidence_ref_def qualified_ref_def Let_def)
qed

lemma split_evidence_refD:
  assumes "split_evidence_ref ref = Some (i, f)"
  shows "ref = qualified_ref i f" "receipt_id_ok i" "f \<noteq> []"
proof -
  from assms have *: "i = take 29 ref" "f = drop 30 ref" "receipt_id_ok (take 29 ref)"
    "take 1 (drop 29 ref) = '':''" "drop 30 ref \<noteq> []"
    by (auto simp: split_evidence_ref_def Let_def split: if_splits)
  then show "receipt_id_ok i" "f \<noteq> []" by simp_all
  have "ref = take 29 ref @ take 1 (drop 29 ref) @ drop 1 (drop 29 ref)"
    by (simp only: append_take_drop_id)
  with * show "ref = qualified_ref i f" by (simp add: qualified_ref_def)
qed

section \<open>Claims and bundles\<close>

datatype claim_type =
    Observation | Comparison | Prediction | Model_Claim | Absence_Claim | Causal | Recommendation

datatype claim_support_type =
    Support_Direct | Support_Compression | Support_Inference | Support_Absence

datatype evidence_lane = Exploratory | Confirmatory

record claim_scope =
  cs_dataset_ids :: "string list"
  cs_columns :: "string list"
  cs_filters :: "string option"
  cs_time_range :: "string option"

record claim =
  cl_claim_id :: string
  cl_claim_type :: claim_type
  cl_claim_text :: string
  cl_support_type :: claim_support_type
  cl_evidence_fact_ids :: "string list"
  cl_derivation_ids :: "string list"
  cl_statistics_receipt_ids :: "string list"
  cl_uncertainty :: "string option"
  cl_limitations :: "string list"
  cl_assumptions :: "string list"
  cl_scope :: "claim_scope option"

record claim_bundle =
  cb_claim_bundle_id :: string
  cb_hypothesis_id :: string
  cb_evidence_lane :: evidence_lane
  cb_claims :: "claim list"
  cb_declares_independent_replication :: bool

datatype claim_fault =
    Too_Short string
  | Bad_Reference string
  | Bad_Statistics_Receipt string
  | No_Evidence_Cited string
  | Absence_Mismatch string
  | Claim_Ids_Not_Unique

definition field_faults :: "(bool \<times> claim_fault) list \<Rightarrow> claim_fault list" where
  "field_faults gs = map snd (filter fst gs)"

definition claim_well_formed :: "claim \<Rightarrow> claim_fault + unit" where
  "claim_well_formed c =
     bind_res (check_all (\<lambda>ref. raise_if (split_evidence_ref ref = None) (Bad_Reference ref))
       (cl_evidence_fact_ids c @ cl_derivation_ids c)) (\<lambda>_.
     bind_res (check_all (\<lambda>i. raise_if (\<not> receipt_id_ok i) (Bad_Statistics_Receipt i))
       (cl_statistics_receipt_ids c)) (\<lambda>_.
     guarding
       [(cl_evidence_fact_ids c = [] \<and> cl_derivation_ids c = [],
           No_Evidence_Cited (cl_claim_id c)),
        ((cl_claim_type c = Absence_Claim) \<noteq> (cl_support_type c = Support_Absence),
           Absence_Mismatch (cl_claim_id c))] ()))"

fun fault_list :: "'e + unit \<Rightarrow> 'e list" where
  "fault_list (Inl e) = [e]"
| "fault_list (Inr _) = []"

definition claim_faults :: "claim \<Rightarrow> claim_fault list" where
  "claim_faults c =
     (let short = field_faults
        [(cl_claim_id c = [], Too_Short ''claim_id''),
         (cl_claim_text c = [], Too_Short ''claim_text'')]
      in if short \<noteq> [] then short else fault_list (claim_well_formed c))"

definition bundle_faults :: "claim_bundle \<Rightarrow> claim_fault list" where
  "bundle_faults b =
     (let errs = field_faults
            [(cb_claim_bundle_id b = [], Too_Short ''claim_bundle_id''),
             (cb_hypothesis_id b = [], Too_Short ''hypothesis_id'')] @
          concat (map claim_faults (cb_claims b)) @
          field_faults [(cb_claims b = [], Too_Short ''claims'')]
      in if errs \<noteq> [] then errs
         else fault_list (raise_if (\<not> distinct (map cl_claim_id (cb_claims b)))
                Claim_Ids_Not_Unique))"

definition bundle_valid :: "claim_bundle \<Rightarrow> bool" where
  "bundle_valid b \<longleftrightarrow> bundle_faults b = []"

text \<open>\<open>dict.setdefault\<close> on every receipt id, in the order in which they are cited.\<close>

definition see :: "string \<Rightarrow> string list \<Rightarrow> string list" where
  "see x seen = (if x \<in> set seen then seen else seen @ [x])"

definition ref_receipt :: "string \<Rightarrow> string" where
  "ref_receipt ref = (case split_evidence_ref ref of Some (i, f) \<Rightarrow> i | None \<Rightarrow> [])"

definition cited_receipts :: "claim \<Rightarrow> string list" where
  "cited_receipts c = map ref_receipt (cl_evidence_fact_ids c @ cl_derivation_ids c) @
     cl_statistics_receipt_ids c"

definition referenced_receipt_ids :: "claim_bundle \<Rightarrow> string list" where
  "referenced_receipt_ids b = fold (\<lambda>c. fold see (cited_receipts c)) (cb_claims b) []"

section \<open>Facts about valid bundles\<close>

lemma fault_list_Nil [simp]: "fault_list r = [] \<longleftrightarrow> r = Inr ()"
  by (cases r) auto

lemma field_faults_Nil [simp]: "field_faults gs = [] \<longleftrightarrow> (\<forall>g \<in> set gs. \<not> fst g)"
  by (simp add: field_faults_def filter_empty_conv)

lemma claim_well_formed_iff:
  "claim_well_formed c = Inr () \<longleftrightarrow>
     (\<forall>ref \<in> set (cl_evidence_fact_ids c @ cl_derivation_ids c). split_evidence_ref ref \<noteq> None) \<and>
     (\<forall>i \<in> set (cl_statistics_receipt_ids c). receipt_id_ok i) \<and>
     (cl_evidence_fact_ids c \<noteq> [] \<or> cl_derivation_ids c \<noteq> []) \<and>
     (cl_claim_type c = Absence_Claim \<longleftrightarrow> cl_support_type c = Support_Absence)"
  by (auto simp: claim_well_formed_def res_simps)

lemma bundle_valid_iff:
  "bundle_valid b \<longleftrightarrow>
     cb_claim_bundle_id b \<noteq> [] \<and> cb_hypothesis_id b \<noteq> [] \<and> cb_claims b \<noteq> [] \<and>
     distinct (map cl_claim_id (cb_claims b)) \<and>
     (\<forall>c \<in> set (cb_claims b). cl_claim_id c \<noteq> [] \<and> cl_claim_text c \<noteq> [] \<and>
        claim_well_formed c = Inr ())"
proof -
  have "claim_faults c = [] \<longleftrightarrow>
      cl_claim_id c \<noteq> [] \<and> cl_claim_text c \<noteq> [] \<and> claim_well_formed c = Inr ()" for c
    by (auto simp: claim_faults_def Let_def field_faults_def)
  then show ?thesis
    by (auto simp: bundle_valid_def bundle_faults_def Let_def res_simps)
qed

lemma remdups_snoc: "remdups (zs @ [x]) = remdups (filter (\<lambda>y. y \<noteq> x) zs) @ [x]"
  by (induction zs) auto

lemma fold_see:
  "fold see xs seen = seen @ rev (remdups (rev (filter (\<lambda>x. x \<notin> set seen) xs)))"
proof (induction xs arbitrary: seen)
  case (Cons x xs)
  show ?case
  proof (cases "x \<in> set seen")
    case True
    then show ?thesis using Cons.IH[of seen] by (simp add: see_def)
  next
    case False
    let ?ys = "filter (\<lambda>y. y \<notin> set seen) xs"
    have "filter (\<lambda>y. y \<notin> set (seen @ [x])) xs = filter (\<lambda>y. y \<noteq> x) ?ys"
      by (auto intro: filter_cong)
    moreover have "rev (remdups (rev (x # ?ys))) =
        x # rev (remdups (rev (filter (\<lambda>y. y \<noteq> x) ?ys)))"
      by (simp add: remdups_snoc rev_filter)
    ultimately show ?thesis
      using False Cons.IH[of "seen @ [x]"] by (simp add: see_def)
  qed
qed simp

lemma fold_fold: "fold (\<lambda>c. fold f (g c)) cs s = fold f (concat (map g cs)) s"
  by (induction cs arbitrary: s) auto

lemma referenced_receipt_ids_eq:
  "referenced_receipt_ids b = rev (remdups (rev (concat (map cited_receipts (cb_claims b)))))"
  by (simp add: referenced_receipt_ids_def fold_fold fold_see)

end
