(* ===== verification/ClaimLanguage.thy ===== *)
theory ClaimLanguage
  imports Prelude
begin

text \<open>
  Causal and model wording (\<open>core/claim_language.py\<close>): the phrase tables, the scans that the
  claim gates use, and the rewriting of causal wording as association. Characters are code
  points below 256.
\<close>

section \<open>String operations\<close>

definition starts :: "string \<Rightarrow> string \<Rightarrow> bool" where
  "starts p s \<longleftrightarrow> take (length p) s = p"

text \<open>\<open>p in s\<close>\<close>

fun contains :: "string \<Rightarrow> string \<Rightarrow> bool" where
  "contains p [] \<longleftrightarrow> p = []"
| "contains p (c # s) \<longleftrightarrow> starts p (c # s) \<or> contains p s"

definition upper_char :: "char \<Rightarrow> bool" where
  "upper_char c \<longleftrightarrow> (CHR ''A'' \<le> c \<and> c \<le> CHR ''Z'') \<or>
     (CHR 0xC0 \<le> c \<and> c \<le> CHR 0xDE \<and> c \<noteq> CHR 0xD7)"

definition lower_char :: "char \<Rightarrow> char" where
  "lower_char c = (if upper_char c then char_of (of_char c + 32 :: nat) else c)"

definition py_lower :: "string \<Rightarrow> string" where
  "py_lower s = map lower_char s"

text \<open>\<open>s[:1].upper() + s[1:]\<close> for a text of small ASCII letters.\<close>

definition capitalized :: "string \<Rightarrow> string" where
  "capitalized s = (case s of [] \<Rightarrow> [] | c # cs \<Rightarrow>
     (if CHR ''a'' \<le> c \<and> c \<le> CHR ''z'' then char_of (of_char c - 32 :: nat) else c) # cs)"

definition py_rstrip :: "string \<Rightarrow> string" where
  "py_rstrip s = rev (dropWhile py_space (rev s))"

text \<open>\<open>s.replace(old, new)\<close> for a text \<open>old\<close> that is not empty.\<close>

function py_replace :: "string \<Rightarrow> string \<Rightarrow> string \<Rightarrow> string" where
  "py_replace old new s =
     (if s = [] \<or> old = [] then s
      else if starts old s then new @ py_replace old new (drop (length old) s)
      else hd s # py_replace old new (tl s))"
  by auto
termination
  by (relation "measure (\<lambda>(old, new, s). length s)") auto

declare py_replace.simps [simp del]

section \<open>The tables\<close>

definition causal_phrases :: "string list" where
  "causal_phrases =
     [''causes'', ''caused'', ''causal'', ''cause '', ''drives'', ''drove'', ''driven by'',
      ''leads to'', ''led to'', ''because of'', ''due to'', ''effect of'', ''results in'',
      ''responsible for'', ''attributable to'', ''a consequence of'', ''triggered'',
      ''explains'']"

definition safe_causal_disclaimers :: "string list" where
  "safe_causal_disclaimers =
     [''not a causal explanation'', ''not a causal'', ''not causal'', ''no causal'',
      ''non-causal'']"

definition model_assertion_terms :: "string list" where
  "model_assertion_terms =
     [''model produced'', ''model predicts'', ''model predicted'', ''model achieved'',
      ''model scored'', ''model classified'', ''model was trained'', ''built a model'',
      ''fitted a model'', ''trained a model'', ''predictive model'', ''classifier'',
      ''classified as'', ''was predicted'', ''were predicted'', ''prediction accuracy'',
      ''training accuracy'']"

definition safe_model_disclaimers :: "string list" where
  "safe_model_disclaimers =
     [''no model was trained'', ''no model was built'', ''without building a model'',
      ''no predictive model'', ''not a predictive model'']"

definition causal_rewrites :: "(string \<times> string) list" where
  "causal_rewrites =
     [(''a consequence of'', ''associated with''),
      (''attributable to'', ''associated with''),
      (''responsible for'', ''associated with''),
      (''driven by'', ''associated with''),
      (''because of'', ''alongside''),
      (''results in'', ''coincides with''),
      (''leads to'', ''is associated with''),
      (''effect of'', ''association with''),
      (''due to'', ''alongside''),
      (''led to'', ''coincided with''),
      (''explains'', ''is associated with''),
      (''triggered'', ''coincided with''),
      (''causes'', ''is associated with''),
      (''caused'', ''was associated with''),
      (''causal'', ''correlational''),
      (''drives'', ''is associated with''),
      (''drove'', ''was associated with''),
      (''cause '', ''coincide with '')]"

definition association_qualifier :: string where
  "association_qualifier =
     ''This is an observed association; the data does not show what produced it.''"

section \<open>Scans\<close>

definition contains_causal_phrase :: "string \<Rightarrow> bool" where
  "contains_causal_phrase text = list_ex (\<lambda>p. contains p (py_lower text)) causal_phrases"

definition without_disclaimers :: "string list \<Rightarrow> string \<Rightarrow> string" where
  "without_disclaimers ds text = fold (\<lambda>d s. py_replace d '' '' s) ds (py_lower text)"

definition asserts_model_capability :: "string \<Rightarrow> bool" where
  "asserts_model_capability text =
     list_ex (\<lambda>p. contains p (without_disclaimers safe_model_disclaimers text))
       model_assertion_terms"

definition implies_causation :: "string \<Rightarrow> bool" where
  "implies_causation text =
     list_ex (\<lambda>p. contains p (without_disclaimers safe_causal_disclaimers text)) causal_phrases"

section \<open>Rewriting\<close>

text \<open>The alternatives of the pattern, longest phrase first.\<close>

definition rewrite_alternatives :: "(string \<times> string) list" where
  "rewrite_alternatives = sort_key (\<lambda>p. - int (length (fst p))) causal_rewrites"

definition matching_rewrite :: "string \<Rightarrow> (string \<times> string) option" where
  "matching_rewrite s = find (\<lambda>p. starts (fst p) (py_lower s)) rewrite_alternatives"

definition replacement_for :: "string \<Rightarrow> string \<Rightarrow> string" where
  "replacement_for s r = (if upper_char (hd s) then capitalized r else r)"

text \<open>\<open>subn\<close>: the text with every match replaced, and how many there were.\<close>

function rewrite_scan :: "string \<Rightarrow> string \<times> nat" where
  "rewrite_scan s =
     (if s = [] then ([], 0)
      else case matching_rewrite s of
        Some (p, r) \<Rightarrow>
          (let (rest, n) = rewrite_scan (drop (max 1 (length p)) s)
           in (replacement_for s r @ rest, n + 1))
      | None \<Rightarrow> (let (rest, n) = rewrite_scan (tl s) in (hd s # rest, n)))"
  by auto
termination
  by (relation "measure length") (auto simp: max_def intro!: diff_less)

declare rewrite_scan.simps [simp del]

definition rewrite_causal_language :: "string \<Rightarrow> string option" where
  "rewrite_causal_language text =
     (let (rewritten, n) = rewrite_scan text;
          result = py_rstrip rewritten @ '' '' @ association_qualifier
      in if n = 0 then None
         else if contains_causal_phrase result then None
         else Some result)"

section \<open>What a rewritten text still says\<close>

lemma starts_iff: "starts p s \<longleftrightarrow> (\<exists>r. s = p @ r)"
  by (auto simp: starts_def) (metis append_take_drop_id)

lemma contains_iff: "contains p s \<longleftrightarrow> (\<exists>a b. s = a @ p @ b)"
proof (induction s)
  case (Cons c s)
  have "(\<exists>a b. c # s = a @ p @ b) \<longleftrightarrow> (\<exists>b. c # s = p @ b) \<or> (\<exists>a b. s = a @ p @ b)"
    by (metis Cons_eq_append_conv append_Cons append_Nil)
  then show ?case by (simp add: Cons.IH starts_iff)
qed simp

lemma contains_trans: "contains p q \<Longrightarrow> contains q s \<Longrightarrow> contains p s"
  by (metis append.assoc contains_iff)

lemma py_replace_absent:
  assumes "\<not> contains old s"
  shows "py_replace old new s = s"
  using assms
proof (induction s)
  case (Cons c s)
  then have "\<not> starts old (c # s)" "\<not> contains old s" by auto
  with Cons.IH show ?case by (subst py_replace.simps) simp
qed (simp add: py_replace.simps)

lemma disclaimers_are_causal:
  "list_all (\<lambda>d. list_ex (\<lambda>p. contains p d) causal_phrases) safe_causal_disclaimers"
  by code_simp

lemma without_disclaimers_absent:
  assumes "\<And>d. d \<in> set ds \<Longrightarrow> \<not> contains d (py_lower text)"
  shows "without_disclaimers ds text = py_lower text"
  using assms unfolding without_disclaimers_def
  by (induction ds) (auto simp: py_replace_absent)

lemma no_phrase_no_causation:
  assumes "\<not> contains_causal_phrase text"
  shows "\<not> implies_causation text"
proof -
  have absent: "\<not> contains p (py_lower text)" if "p \<in> set causal_phrases" for p
    using assms that by (auto simp: contains_causal_phrase_def list_ex_iff)
  have "\<not> contains d (py_lower text)" if "d \<in> set safe_causal_disclaimers" for d
  proof
    assume "contains d (py_lower text)"
    moreover have "list_ex (\<lambda>p. contains p d) causal_phrases"
      by (rule bspec[OF disclaimers_are_causal[unfolded list_all_iff] that])
    then obtain p where p: "p \<in> set causal_phrases" "contains p d"
      by (auto simp only: list_ex_iff)
    ultimately have "contains p (py_lower text)" by (intro contains_trans[OF p(2)])
    with absent[OF p(1)] show False by blast
  qed
  then have "without_disclaimers safe_causal_disclaimers text = py_lower text"
    by (rule without_disclaimers_absent)
  with assms show ?thesis
    by (simp add: implies_causation_def contains_causal_phrase_def)
qed

abbreviation digits :: "string \<Rightarrow> string" where
  "digits s \<equiv> filter is_digit s"

lemma is_digit_code: "is_digit c \<longleftrightarrow> 48 \<le> (of_char c :: nat) \<and> (of_char c :: nat) \<le> 57"
  by (simp add: is_digit_def less_eq_char_def)

lemma upper_char_code:
  "upper_char c \<Longrightarrow> 65 \<le> (of_char c :: nat) \<and> (of_char c :: nat) < 223"
  by (auto simp: upper_char_def less_eq_char_def)

lemma lower_digit [simp]: "is_digit (lower_char c) \<longleftrightarrow> is_digit c"
proof (cases "upper_char c")
  case True
  note range = upper_char_code[OF True]
  then have "(of_char (char_of (of_char c + 32 :: nat) :: char) :: nat) = of_char c + 32"
    by (simp only: of_char_of) simp
  with range True show ?thesis
    by (simp only: lower_char_def if_True is_digit_code) arith
qed (simp add: lower_char_def)

lemma digits_lower: "digits s = [] \<longleftrightarrow> digits (py_lower s) = []"
  by (auto simp: py_lower_def filter_empty_conv)

lemma rewrites_have_no_digits:
  "list_all (\<lambda>(p, r). digits p = [] \<and> digits r = [] \<and> digits (capitalized r) = [] \<and> p \<noteq> [])
     causal_rewrites"
  by code_simp

lemma find_SomeD: "find P xs = Some x \<Longrightarrow> P x \<and> x \<in> set xs"
  by (induction xs) (auto split: if_splits)

lemma matching_rewriteD:
  assumes "matching_rewrite s = Some (p, r)"
  shows "starts p (py_lower s)" "(p, r) \<in> set causal_rewrites"
  using find_SomeD[OF assms[unfolded matching_rewrite_def]]
  by (simp_all only: rewrite_alternatives_def set_sort fst_conv)

lemma starts_lower: "starts p (py_lower s) \<Longrightarrow> py_lower (take (length p) s) = p"
  by (simp add: starts_def py_lower_def take_map)

lemma rewrite_scan_digits: "digits (fst (rewrite_scan s)) = digits s"
proof (induction s rule: rewrite_scan.induct)
  case (1 s)
  show ?case
  proof (cases "s = []")
    case False
    show ?thesis
    proof (cases "matching_rewrite s")
      case None
      have "digits (fst (rewrite_scan (tl s))) = digits (tl s)"
        by (rule "1.IH"(1)[OF False None])
      with False None show ?thesis
        by (subst rewrite_scan.simps) (cases s; simp add: case_prod_unfold Let_def)
    next
      case (Some pr)
      obtain p r where pr: "pr = (p, r)" by (cases pr)
      note match = matching_rewriteD[OF Some[unfolded pr]]
      have free: "digits p = []" "digits r = []" "digits (capitalized r) = []" "p \<noteq> []"
        using bspec[OF rewrites_have_no_digits[unfolded list_all_iff] match(2)] by simp_all
      have len: "max 1 (length p) = length p" using free(4) by (cases p) auto
      have "digits (fst (rewrite_scan (drop (max 1 (length p)) s))) =
          digits (drop (max 1 (length p)) s)"
        by (rule "1.IH"(2)[OF False Some pr[symmetric]])
      moreover have "digits (take (length p) s) = []"
        by (subst digits_lower) (simp only: starts_lower[OF match(1)] free(1))
      moreover have "digits s = digits (take (length p) s) @ digits (drop (length p) s)"
        by (metis append_take_drop_id filter_append)
      moreover have "digits (replacement_for s r) = []"
        using free by (simp add: replacement_for_def)
      ultimately show ?thesis
        using False Some pr len
        by (subst rewrite_scan.simps) (simp add: case_prod_unfold Let_def)
    qed
  qed (simp add: rewrite_scan.simps)
qed

lemma digits_rstrip: "digits (py_rstrip s) = digits s"
proof -
  have "digits (dropWhile py_space t) = digits t" for t
  proof (induction t)
    case (Cons c t)
    then show ?case
      by (auto simp: py_space_def is_digit_def less_eq_char_def)
  qed simp
  from this[of "rev s"] show ?thesis
    by (metis py_rstrip_def rev_filter rev_rev_ident)
qed

lemma scan_without_phrase:
  assumes "\<not> contains_causal_phrase s"
  shows "snd (rewrite_scan s) = 0"
  using assms
proof (induction s)
  case (Cons c s)
  have "matching_rewrite (c # s) = None"
  proof (rule ccontr)
    assume "matching_rewrite (c # s) \<noteq> None"
    then obtain p r where "matching_rewrite (c # s) = Some (p, r)" by auto
    note match = matching_rewriteD[OF this]
    have table: "list_all (\<lambda>(p, r). p \<in> set causal_phrases) causal_rewrites" by code_simp
    have "p \<in> set causal_phrases"
      using bspec[OF table[unfolded list_all_iff] match(2)] by simp
    moreover have "contains p (py_lower (c # s))" using match(1) by (simp add: py_lower_def)
    ultimately show False
      using Cons.prems by (auto simp: contains_causal_phrase_def list_ex_iff)
  qed
  moreover have "\<not> contains_causal_phrase s"
    using Cons.prems by (auto simp: contains_causal_phrase_def list_ex_iff py_lower_def)
  ultimately show ?case
    using Cons.IH by (subst rewrite_scan.simps) (simp add: case_prod_unfold Let_def)
qed (simp add: rewrite_scan.simps)

text \<open>When causal wording is rewritten as association, the new text passes the gate that
  looks for causation (with and without stripping disclaimers), keeps every figure of the old
  text in order, and needs no second rewriting.\<close>

theorem rewritten_text_is_associative:
  assumes "rewrite_causal_language text = Some new"
  shows "\<not> implies_causation new \<and> \<not> contains_causal_phrase new \<and>
    filter is_digit new = filter is_digit text \<and> rewrite_causal_language new = None"
proof -
  have new: "new = py_rstrip (fst (rewrite_scan text)) @ '' '' @ association_qualifier"
    and clean: "\<not> contains_causal_phrase new"
    using assms by (auto simp: rewrite_causal_language_def Let_def case_prod_unfold split: if_splits)
  have "digits ('' '' @ association_qualifier) = []" by code_simp
  then have "digits new = digits text"
    by (simp add: new digits_rstrip rewrite_scan_digits)
  moreover have "rewrite_causal_language new = None"
    using scan_without_phrase[OF clean]
    by (simp add: rewrite_causal_language_def case_prod_unfold Let_def)
  ultimately show ?thesis
    using clean no_phrase_no_causation by blast
qed

theorem rewritten_text_is_associative_witness:
  "filter is_digit (''Sales were associated with 42 promotions. '' @ association_qualifier) =
    filter is_digit ''Sales were driven by 42 promotions.''"
proof -
  have "rewrite_causal_language ''Sales were driven by 42 promotions.'' =
      Some (''Sales were associated with 42 promotions. '' @ association_qualifier)"
    by code_simp
  from rewritten_text_is_associative[OF this] show ?thesis by blast
qed

end
