(* ===== verification/Rounding.thy ===== *)
theory Rounding
  imports Prelude
begin

text \<open>Python's \<open>round(x, n)\<close> on the exact value: half to even.\<close>

definition round_half_even :: "rat \<Rightarrow> int" where
  "round_half_even x = (let n = \<lfloor>x\<rfloor>; r = x - of_int n in
     if r < 1/2 then n else if 1/2 < r then n + 1 else if even n then n else n + 1)"

definition round_digits :: "nat \<Rightarrow> rat \<Rightarrow> rat" where
  "round_digits n x = of_int (round_half_even (x * 10 ^ n)) / 10 ^ n"

lemma round_half_even_nonneg: "0 \<le> x \<Longrightarrow> 0 \<le> round_half_even x"
  by (auto simp: round_half_even_def Let_def)

lemma round_digits_nonneg: "0 \<le> x \<Longrightarrow> 0 \<le> round_digits n x"
  by (simp add: round_digits_def round_half_even_nonneg)

end
