(* ===== verification/ClaimGates.thy ===== *)
theory ClaimGates
  imports Claims ClaimLanguage Rounding
begin

text \<open>
  The six exit gates (\<open>core/claim_gates.py\<close>): structure, reachability, numeric, entity,
  statistical, state, in the order of the code, the report they make and the feedback built
  from it. A violation keeps what its message is made of instead of the English text.
  Parameters: the receipt hash, the digest of a bundle, the id of a design credential (a hash)
  and the tokenizer of numbers in a text.
\<close>

section \<open>Floats\<close>

text \<open>
  Sums and products of finite floats are exact here: their rounding is not modelled. The conversion
  of an integer to a float is: to 53 significant bits, half to even, and an \<open>OverflowError\<close> from
  \<open>2 ^ 1024\<close> on, which no gate catches.
\<close>

fun real_neg :: "py_real \<Rightarrow> py_real" where
  "real_neg (Finite a) = Finite (- a)"
| "real_neg Pos_Infinity = Neg_Infinity"
| "real_neg Neg_Infinity = Pos_Infinity"
| "real_neg Not_A_Number = Not_A_Number"

definition real_sub :: "py_real \<Rightarrow> py_real \<Rightarrow> py_real" where
  "real_sub x y = real_add x (real_neg y)"

definition infinity_of_sign :: "rat \<Rightarrow> py_real" where
  "infinity_of_sign s =
     (if s = 0 then Not_A_Number else if 0 < s then Pos_Infinity else Neg_Infinity)"

fun real_sign :: "py_real \<Rightarrow> rat" where
  "real_sign (Finite a) = sgn a"
| "real_sign Pos_Infinity = 1"
| "real_sign Neg_Infinity = -1"
| "real_sign Not_A_Number = 0"

fun real_mul :: "py_real \<Rightarrow> py_real \<Rightarrow> py_real" where
  "real_mul (Finite a) (Finite b) = Finite (a * b)"
| "real_mul x y = infinity_of_sign (real_sign x * real_sign y)"

text \<open>\<open>/\<close> with a divisor other than zero; the code checks its divisors first.\<close>

fun real_div :: "py_real \<Rightarrow> py_real \<Rightarrow> py_real" where
  "real_div (Finite a) (Finite b) = Finite (a / b)"
| "real_div Not_A_Number _ = Not_A_Number"
| "real_div _ Not_A_Number = Not_A_Number"
| "real_div (Finite _) _ = Finite 0"
| "real_div x (Finite b) = infinity_of_sign (real_sign x * (if b < 0 then -1 else 1))"
| "real_div _ _ = Not_A_Number"

datatype recompute_fault =
    Input_Missing string
  | Input_Not_A_Number string
  | Division_By_Zero
  | Weights_Sum_To_Zero

text \<open>Any other exception ends the gates: a malformed derivation that no parser admits.\<close>

datatype gate_error =
    Recompute_Fault string recompute_fault
  | Malformed_Derivation string
  | Attempt_Count_Not_Positive string
  | Tool_Channel_Unbound
  | Float_Overflow

fun bit_count :: "nat \<Rightarrow> nat" where
  "bit_count n = (if n = 0 then 0 else Suc (bit_count (n div 2)))"

declare bit_count.simps [simp del]

definition float_of_int :: "int \<Rightarrow> gate_error + py_real" where
  "float_of_int n =
     (let e = bit_count (nat \<bar>n\<bar>) - 53;
          m = round_half_even (of_int n / 2 ^ e) * 2 ^ e
      in if 1024 < bit_count (nat \<bar>m\<bar>) then Inl Float_Overflow else Inr (Finite (of_int m)))"

text \<open>\<open>float(value)\<close> of a number; the callers have excluded everything else.\<close>

fun float_of :: "py_value \<Rightarrow> gate_error + py_real" where
  "float_of (PyInt n) = float_of_int n"
| "float_of (PyFloat x) = Inr x"
| "float_of _ = Inr Not_A_Number"

section \<open>Recomputing derivations\<close>

fun collect_values ::
  "string \<Rightarrow> (string, receipt_fact) dict \<Rightarrow> string list \<Rightarrow> gate_error + py_real list" where
  "collect_values i facts [] = Inr []"
| "collect_values i facts (ref # refs) = (case map_of facts ref of
     None \<Rightarrow> Inl (Recompute_Fault i (Input_Missing ref))
   | Some f \<Rightarrow>
       if \<not> is_number (rf_value f) then Inl (Recompute_Fault i (Input_Not_A_Number ref))
       else bind_res (float_of (rf_value f)) (\<lambda>v.
         bind_res (collect_values i facts refs) (\<lambda>vs. Inr (v # vs))))"

text \<open>\<open>zip(values[0::2], values[1::2], strict=True)\<close>\<close>

fun value_weight_pairs :: "'a list \<Rightarrow> ('a \<times> 'a) list option" where
  "value_weight_pairs [] = Some []"
| "value_weight_pairs [_] = None"
| "value_weight_pairs (v # w # rest) = map_option ((#) (v, w)) (value_weight_pairs rest)"

definition real_sum :: "py_real list \<Rightarrow> py_real" where
  "real_sum xs = foldl real_add (Finite 0) xs"

definition percent_factor :: py_real where
  "percent_factor = Finite 100"

text \<open>The value, and whether it is a percentage.\<close>

definition recompute_derivation ::
  "receipt_derivation \<Rightarrow> (string, receipt_fact) dict \<Rightarrow> gate_error + (py_real \<times> bool)" where
  "recompute_derivation d facts =
     (let i = rd_derived_fact_id d in
      bind_res (collect_values i facts (rd_input_fact_ids d)) (\<lambda>values.
        let a = values ! 0; b = values ! 1; op = rd_operator d in
        if op = Op_Weighted_Average then
          (case value_weight_pairs values of
             None \<Rightarrow> Inl (Malformed_Derivation i)
           | Some pairs \<Rightarrow>
               (let total = real_sum (map snd pairs) in
                if real_eq total (Finite 0) then Inl (Recompute_Fault i Weights_Sum_To_Zero)
                else Inr (real_div (real_sum (map (\<lambda>(v, w). real_mul v w) pairs)) total, False)))
        else if length values < 2 then Inl (Malformed_Derivation i)
        else if op \<in> set denominator_operators \<and> real_eq b (Finite 0) then
          Inl (Recompute_Fault i Division_By_Zero)
        else Inr (case op of
            Op_Percentage \<Rightarrow> (real_mul (real_div a b) percent_factor, True)
          | Op_Difference \<Rightarrow> (real_sub a b, False)
          | Op_Relative_Change \<Rightarrow>
              (real_mul (real_div (real_sub a b) b) percent_factor, True)
          | _ \<Rightarrow> (real_div a b, False))))"

section \<open>Violations and verdicts\<close>

datatype threshold_subject = P_Value | Effect_Size | Test_Statistic

datatype threshold_op = Op_Lt | Op_Le | Op_Gt | Op_Ge

record numeric_token =
  nt_value :: py_real
  nt_is_percent :: bool
  nt_decimals :: nat
  nt_threshold_op :: "threshold_op option"
  nt_threshold_subject :: "threshold_subject option"

datatype value_policy = Exact | Rounded

type_synonym value_pool = "(py_real \<times> value_policy) list"

datatype violation_code =
    Schema_Invalid claim_fault
  | Fabricated_Receipt string
  | Receipt_Digest_Mismatch string
  | Unknown_Fact string string
  | Unknown_Derivation string string
  | Missing_Statistics string
  | Derivation_Recompute_Failed string recompute_fault
  | No_Evidence_Values nat
  | Numeric_Mismatch numeric_token value_pool value_pool
  | Model_Claim_Without_Model_Evidence
  | Model_Metric_Not_Model_Derived
  | Causal_Claim_Rejected
  | Causal_Language
  | Recommendation_Not_Marked_Inference
  | Recommendation_Without_Assumptions
  | False_Absence string int
  | Absence_Without_Coverage
  | Absence_Scope_Missing
  | Absence_Scope_Exceeds_Coverage "string list" bool
  | Unlicensed_Independence_Claim
  | Confirmatory_Without_Statistics
  | Confirmatory_Without_Test_Statistic string
  | P_Value_Without_Effect_Ci_N string
  | Sequence_Index_Missing string
  | Stat_Family_Missing string
  | Stat_Family_Count_Unavailable string
  | Stale_Multiplicity_Adjustment string py_real int py_real int
  | Test_Not_Confirmatory_Ready string
  | Violation_Witness_Mismatch string

record gate_violation =
  gv_code :: violation_code
  gv_claim_id :: "string option"
  gv_tool_call_id :: "string option"

datatype gate_name = Structure | Reachability | Numeric | Entity | Statistical | State

record gate_verdict =
  ve_gate :: gate_name
  ve_passed :: bool
  ve_violations :: "gate_violation list"

record gate_report =
  gr_claim_bundle_id :: string
  gr_claim_bundle_digest :: string
  gr_run_witness :: string
  gr_passed :: bool
  gr_verdicts :: "gate_verdict list"
  gr_health_score :: rat

text \<open>A violation of a claim, and one that is also bound to the call behind a receipt.\<close>

definition of_claim :: "string \<Rightarrow> violation_code \<Rightarrow> gate_violation" where
  "of_claim i code = \<lparr>gv_code = code, gv_claim_id = Some i, gv_tool_call_id = None\<rparr>"

definition of_call :: "string \<Rightarrow> evidence_receipt \<Rightarrow> violation_code \<Rightarrow> gate_violation" where
  "of_call i r code =
     \<lparr>gv_code = code, gv_claim_id = Some i, gv_tool_call_id = Some (er_tool_call_id r)\<rparr>"

definition of_bundle :: "violation_code \<Rightarrow> gate_violation" where
  "of_bundle code = \<lparr>gv_code = code, gv_claim_id = None, gv_tool_call_id = None\<rparr>"

definition flag_if :: "bool \<Rightarrow> 'a \<Rightarrow> 'a list" where
  "flag_if b v = (if b then [v] else [])"

text \<open>What the gates are run with.\<close>

record gate_world =
  gw_receipt_hash :: digest_hash
  gw_bundle_digest :: "claim_bundle \<Rightarrow> string"
  gw_credential_id :: "string \<Rightarrow> string \<Rightarrow> string"
  gw_tokens :: "string \<Rightarrow> numeric_token list"
  gw_committed :: "(string, evidence_receipt) dict"

section \<open>Reachability\<close>

record claim_evidence =
  ce_fact_pairs :: "(evidence_receipt \<times> receipt_fact) list"
  ce_derivation_pairs :: "(evidence_receipt \<times> receipt_derivation) list"
  ce_stats_receipts :: "evidence_receipt list"
  ce_fact_receipts :: "(string, evidence_receipt) dict"
  ce_receipts :: "(string, evidence_receipt) dict"

definition no_evidence :: claim_evidence where
  "no_evidence = \<lparr>ce_fact_pairs = [], ce_derivation_pairs = [], ce_stats_receipts = [],
     ce_fact_receipts = [], ce_receipts = []\<rparr>"

text \<open>The cache of digest checks is transparent: the check depends on the receipt only.\<close>

definition verified :: "gate_world \<Rightarrow> string \<Rightarrow> string \<Rightarrow> gate_violation + evidence_receipt" where
  "verified w i cid = (case map_of (gw_committed w) i of
     None \<Rightarrow> Inl (of_claim cid (Fabricated_Receipt i))
   | Some r \<Rightarrow>
       if er_receipt_id r = i \<and> verify_receipt_digest (gw_receipt_hash w) r then Inr r
       else Inl (of_call cid r (Receipt_Digest_Mismatch i)))"

type_synonym resolution = "gate_violation list \<times> claim_evidence"

definition note_violation :: "gate_violation \<Rightarrow> resolution \<Rightarrow> resolution" where
  "note_violation v s = (fst s @ [v], snd s)"

text \<open>A reference of a valid bundle splits; the other case is not reached.\<close>

definition resolve_fact :: "gate_world \<Rightarrow> string \<Rightarrow> string \<Rightarrow> resolution \<Rightarrow> resolution" where
  "resolve_fact w cid ref s = (case split_evidence_ref ref of None \<Rightarrow> s | Some (i, fid) \<Rightarrow>
     (case verified w i cid of
        Inl v \<Rightarrow> note_violation v s
      | Inr r \<Rightarrow>
          (let (vs, e) = s; e = e\<lparr>ce_receipts := dict_set i r (ce_receipts e)\<rparr>
           in case find (\<lambda>f. rf_fact_id f = fid) (er_facts r) of
                None \<Rightarrow> (vs @ [of_call cid r (Unknown_Fact i fid)], e)
              | Some f \<Rightarrow> (vs, e\<lparr>ce_fact_pairs := ce_fact_pairs e @ [(r, f)],
                  ce_fact_receipts := dict_set i r (ce_fact_receipts e)\<rparr>))))"

definition resolve_derivation :: "gate_world \<Rightarrow> string \<Rightarrow> string \<Rightarrow> resolution \<Rightarrow> resolution" where
  "resolve_derivation w cid ref s =
    (case split_evidence_ref ref of None \<Rightarrow> s | Some (i, did) \<Rightarrow>
     (case verified w i cid of
        Inl v \<Rightarrow> note_violation v s
      | Inr r \<Rightarrow>
          (let (vs, e) = s; e = e\<lparr>ce_receipts := dict_set i r (ce_receipts e)\<rparr>
           in case find (\<lambda>d. rd_derived_fact_id d = did) (er_derivations r) of
                None \<Rightarrow> (vs @ [of_call cid r (Unknown_Derivation i did)], e)
              | Some d \<Rightarrow> (vs, e\<lparr>ce_derivation_pairs := ce_derivation_pairs e @ [(r, d)]\<rparr>))))"

definition resolve_statistics :: "gate_world \<Rightarrow> string \<Rightarrow> string \<Rightarrow> resolution \<Rightarrow> resolution" where
  "resolve_statistics w cid i s = (case verified w i cid of
     Inl v \<Rightarrow> note_violation v s
   | Inr r \<Rightarrow>
       (let (vs, e) = s; e = e\<lparr>ce_receipts := dict_set i r (ce_receipts e)\<rparr>
        in if er_statistics r = None then (vs @ [of_call cid r (Missing_Statistics i)], e)
           else (vs, e\<lparr>ce_stats_receipts := ce_stats_receipts e @ [r]\<rparr>)))"

definition resolve_claim :: "gate_world \<Rightarrow> claim \<Rightarrow> resolution" where
  "resolve_claim w c =
     (let i = cl_claim_id c in
      fold (resolve_statistics w i) (cl_statistics_receipt_ids c)
        (fold (resolve_derivation w i) (cl_derivation_ids c)
          (fold (resolve_fact w i) (cl_evidence_fact_ids c) ([], no_evidence))))"

text \<open>The evidence of each claim, under its id.\<close>

definition resolve_references ::
  "gate_world \<Rightarrow> claim_bundle \<Rightarrow> gate_violation list \<times> (string, claim_evidence) dict" where
  "resolve_references w b =
     (concat (map (fst \<circ> resolve_claim w) (cb_claims b)),
      map (\<lambda>c. (cl_claim_id c, snd (resolve_claim w c))) (cb_claims b))"

definition evidence_of :: "(string, claim_evidence) dict \<Rightarrow> claim \<Rightarrow> claim_evidence" where
  "evidence_of ev c = dict_get ev (cl_claim_id c) no_evidence"

section \<open>Numbers\<close>

definition real_abs :: "py_real \<Rightarrow> py_real" where
  "real_abs x = (if real_less x (Finite 0) then real_neg x else x)"

definition half_ulp :: "nat \<Rightarrow> py_real" where
  "half_ulp decimals = Finite (1 / 2 * (1 / 10 ^ decimals) * (1 + 1 / 10 ^ 9))"

definition value_supports_token :: "numeric_token \<Rightarrow> py_real \<times> value_policy \<Rightarrow> bool" where
  "value_supports_token t vp = (case vp of
     (v, Exact) \<Rightarrow> real_eq v (nt_value t)
   | (v, Rounded) \<Rightarrow> real_le (real_abs (real_sub v (nt_value t))) (half_ulp (nt_decimals t)))"

definition compare_real :: "threshold_op \<Rightarrow> py_real \<Rightarrow> py_real \<Rightarrow> bool" where
  "compare_real oper x y = (case oper of
     Op_Lt \<Rightarrow> real_less x y | Op_Le \<Rightarrow> real_le x y
   | Op_Gt \<Rightarrow> real_less y x | Op_Ge \<Rightarrow> real_le y x)"

definition satisfies_threshold :: "numeric_token \<Rightarrow> py_real list \<Rightarrow> bool" where
  "satisfies_threshold t values =
     (let oper = (case nt_threshold_op t of None \<Rightarrow> Op_Lt | Some f \<Rightarrow> f)
      in list_ex (\<lambda>v. compare_real oper v (nt_value t)) values)"

fun is_int :: "py_value \<Rightarrow> bool" where
  "is_int (PyInt _) = True"
| "is_int _ = False"

definition fact_policy :: "receipt_fact \<Rightarrow> value_policy" where
  "fact_policy f = (if rf_value_type f = Value_Count \<or> is_int (rf_value f)
     then Exact else Rounded)"

definition fact_is_numeric :: "receipt_fact \<Rightarrow> bool" where
  "fact_is_numeric f \<longleftrightarrow> rf_value_type f \<in> set numeric_value_types \<and> is_number (rf_value f)"

fun map_res :: "('a \<Rightarrow> 'e + 'b) \<Rightarrow> 'a list \<Rightarrow> 'e + 'b list" where
  "map_res f [] = Inr []"
| "map_res f (x # xs) = bind_res (f x) (\<lambda>y. bind_res (map_res f xs) (\<lambda>ys. Inr (y # ys)))"

definition fact_entry :: "receipt_fact \<Rightarrow> gate_error + (py_real \<times> value_policy)" where
  "fact_entry f = bind_res (float_of (rf_value f)) (\<lambda>v. Inr (v, fact_policy f))"

text \<open>The pools \<open>(raw, percent)\<close> from the cited facts.\<close>

definition fact_pools ::
  "(evidence_receipt \<times> receipt_fact) list \<Rightarrow> gate_error + value_pool \<times> value_pool" where
  "fact_pools pairs =
     (let numeric = filter fact_is_numeric (map snd pairs) in
      bind_res (map_res fact_entry (filter (\<lambda>f. rf_value_type f \<noteq> Value_Percent) numeric)) (\<lambda>raw.
      bind_res (map_res fact_entry (filter (\<lambda>f. rf_value_type f = Value_Percent) numeric)) (\<lambda>percent.
      Inr (raw, percent))))"

text \<open>The last fact of an id wins in the dictionary of facts.\<close>

definition receipt_facts_by_id :: "evidence_receipt \<Rightarrow> (string, receipt_fact) dict" where
  "receipt_facts_by_id r = facts_by_id (rev (er_facts r))"

fun derivation_pools ::
  "string \<Rightarrow> (evidence_receipt \<times> receipt_derivation) list \<Rightarrow> value_pool \<times> value_pool \<Rightarrow>
     gate_error + gate_violation list \<times> value_pool \<times> value_pool" where
  "derivation_pools cid [] pools = Inr ([], pools)"
| "derivation_pools cid ((r, d) # rest) pools =
     (case recompute_derivation d (receipt_facts_by_id r) of
        Inl (Recompute_Fault i e) \<Rightarrow>
          bind_res (derivation_pools cid rest pools) (\<lambda>(vs, final).
            Inr (of_call cid r (Derivation_Recompute_Failed i e) # vs, final))
      | Inl e \<Rightarrow> Inl e
      | Inr (v, True) \<Rightarrow> derivation_pools cid rest (fst pools, snd pools @ [(v, Rounded)])
      | Inr (v, False) \<Rightarrow> derivation_pools cid rest (fst pools @ [(v, Rounded)], snd pools))"

definition subject_value :: "threshold_subject \<Rightarrow> receipt_statistics \<Rightarrow> py_real option" where
  "subject_value subj st = (case subj of
     P_Value \<Rightarrow> st_p_value st | Test_Statistic \<Rightarrow> st_test_statistic st
   | Effect_Size \<Rightarrow> st_effect_size st)"

definition eligible_values :: "evidence_receipt list \<Rightarrow> threshold_subject \<Rightarrow> py_real list" where
  "eligible_values rs subj =
     List.map_filter (\<lambda>r. Option.bind (er_statistics r) (subject_value subj)) rs"

definition token_verified ::
  "evidence_receipt list \<Rightarrow> value_pool \<times> value_pool \<Rightarrow> numeric_token \<Rightarrow> bool" where
  "token_verified stats pools t =
     (let pool = (if nt_is_percent t then snd pools else fst pools);
          subject_values = (case nt_threshold_subject t of None \<Rightarrow> []
            | Some subj \<Rightarrow> eligible_values stats subj)
      in if nt_threshold_op t \<noteq> None \<and> \<not> nt_is_percent t \<and> subject_values \<noteq> []
         then satisfies_threshold t subject_values
         else list_ex (value_supports_token t) pool)"

definition numeric_claim ::
  "gate_world \<Rightarrow> claim \<Rightarrow> claim_evidence \<Rightarrow> gate_error + gate_violation list" where
  "numeric_claim w c e =
     bind_res (fact_pools (ce_fact_pairs e)) (\<lambda>pools.
     bind_res (derivation_pools (cl_claim_id c) (ce_derivation_pairs e) pools) (\<lambda>(vs, raw, percent).
     let tokens = gw_tokens w (cl_claim_text c) in
     if tokens = [] then Inr vs
     else if raw = [] \<and> percent = [] then
       Inr (vs @ [of_claim (cl_claim_id c) (No_Evidence_Values (length tokens))])
     else Inr (vs @ map (\<lambda>t. of_claim (cl_claim_id c) (Numeric_Mismatch t raw percent))
       (filter (\<lambda>t. \<not> token_verified (ce_stats_receipts e) (raw, percent) t) tokens))))"

definition numeric_gate ::
  "gate_world \<Rightarrow> claim_bundle \<Rightarrow> (string, claim_evidence) dict \<Rightarrow>
     gate_error + gate_violation list" where
  "numeric_gate w b ev =
     bind_res (map_res (\<lambda>c. numeric_claim w c (evidence_of ev c)) (cb_claims b))
       (\<lambda>vss. Inr (concat vss))"

section \<open>Entities\<close>

definition licenses_independence :: "evidence_receipt \<Rightarrow> bool" where
  "licenses_independence r \<longleftrightarrow>
     er_replication_kind r \<in> {Some Holdout, Some External_Replication}"

definition model_evidence :: "evidence_receipt \<Rightarrow> bool" where
  "model_evidence r \<longleftrightarrow> er_tool_name r = ''run_baseline_model'' \<or>
     rm_family (er_method r) \<in> {''ml_baseline'', ''model_card''}"

definition licenses_causal_wording :: "gate_world \<Rightarrow> evidence_receipt \<Rightarrow> bool" where
  "licenses_causal_wording w r \<longleftrightarrow>
     er_tool_name r = ''run_causal_experiment'' \<and>
     rm_family (er_method r) = ''randomized_experiment'' \<and>
     (let params = map_of (rm_parameters (er_method r)) in
      params ''experiment_design'' = Some (PyStr ''randomized'') \<and>
      (case (params ''design_confirmation_id'', params ''treatment_column'',
             sc_dataset_ids (er_scope r)) of
         (Some (PyStr confirmation), Some (PyStr treatment), [dataset]) \<Rightarrow>
           confirmation = gw_credential_id w dataset treatment
       | _ \<Rightarrow> False))"

definition independent_replication_phrases :: "string list" where
  "independent_replication_phrases =
     [''independent replication'', ''independently replicated'', ''replicated independently'',
      ''external replication'', ''externally replicated'']"

definition declares_independence_in_text :: "claim \<Rightarrow> bool" where
  "declares_independence_in_text c =
     list_ex (\<lambda>p. contains p (py_lower (cl_claim_text c))) independent_replication_phrases"

text \<open>\<open>" ".join(value.split())\<close>: the words of a text, one blank between them.\<close>

fun py_words :: "string \<Rightarrow> string \<Rightarrow> string list" where
  "py_words word [] = (if word = [] then [] else [rev word])"
| "py_words word (c # cs) =
     (if py_space c then (if word = [] then [] else [rev word]) @ py_words [] cs
      else py_words (c # word) cs)"

definition joined :: "string list \<Rightarrow> string" where
  "joined ws = concat (case ws of [] \<Rightarrow> [] | v # vs \<Rightarrow> v # map ((@) '' '') vs)"

definition normalized_restriction :: "string option \<Rightarrow> string option" where
  "normalized_restriction v = (case v of None \<Rightarrow> None
     | Some s \<Rightarrow> if py_strip s = [] then None else Some (joined (py_words [] s)))"

definition restriction_covers :: "string option \<Rightarrow> string option \<Rightarrow> bool" where
  "restriction_covers receipt_value claim_value \<longleftrightarrow>
     normalized_restriction receipt_value = None \<or>
     normalized_restriction receipt_value = normalized_restriction claim_value"

definition narrowing_covers :: "claim_scope \<Rightarrow> receipt_scope \<Rightarrow> bool" where
  "narrowing_covers cs rs \<longleftrightarrow>
     restriction_covers (sc_filters rs) (cs_filters cs) \<and>
     restriction_covers (sc_time_range rs) (cs_time_range cs)"

definition required_scope_pairs :: "claim_scope \<Rightarrow> (string \<times> string option) list" where
  "required_scope_pairs cs =
     (let columns = (if cs_columns cs = [] then [None] else map Some (cs_columns cs))
      in concat (map (\<lambda>d. map (Pair d) columns) (cs_dataset_ids cs)))"

definition scans_pair :: "string \<times> string option \<Rightarrow> evidence_receipt \<Rightarrow> bool" where
  "scans_pair p r \<longleftrightarrow> fst p \<in> set (sc_dataset_ids (er_scope r)) \<and>
     (case snd p of None \<Rightarrow> True | Some c \<Rightarrow> c \<in> set (sc_columns (er_scope r)))"

text \<open>An empty column name is falsy: only the dataset is named.\<close>

definition pair_label :: "string \<times> string option \<Rightarrow> string" where
  "pair_label p = (case snd p of None \<Rightarrow> fst p
     | Some c \<Rightarrow> if c = [] then fst p else fst p @ ''.'' @ c)"

definition absence_gate :: "claim \<Rightarrow> claim_evidence \<Rightarrow> gate_violation list" where
  "absence_gate c e =
     (let cid = cl_claim_id c;
          receipts = dict_values (ce_fact_receipts e);
          coverage = filter (\<lambda>r. er_result_count r = 0) receipts;
          false_ones = map (\<lambda>r. of_call cid r (False_Absence (er_receipt_id r) (er_result_count r)))
            (filter (\<lambda>r. 0 < er_result_count r) receipts)
      in false_ones @
        (if coverage = [] then [of_claim cid Absence_Without_Coverage]
         else case cl_scope c of
           None \<Rightarrow> [of_claim cid Absence_Scope_Missing]
         | Some sc \<Rightarrow>
             if cs_dataset_ids sc = [] then [of_claim cid Absence_Scope_Missing]
             else
               (let usable = filter (\<lambda>r. narrowing_covers sc (er_scope r)) coverage;
                    uncovered = sort (map pair_label
                      (filter (\<lambda>p. \<not> list_ex (scans_pair p) usable) (required_scope_pairs sc)))
                in flag_if (uncovered \<noteq> []) (of_claim cid
                     (Absence_Scope_Exceeds_Coverage uncovered (length usable < length coverage))))))"

definition model_entry ::
  "evidence_receipt \<times> receipt_fact \<Rightarrow> gate_error + (py_real \<times> value_policy)" where
  "model_entry p = bind_res (float_of (rf_value (snd p))) (\<lambda>v.
     Inr (v, if rf_value_type (snd p) = Value_Count then Exact else Rounded))"

definition model_values ::
  "(evidence_receipt \<times> receipt_fact) list \<Rightarrow> (string, evidence_receipt) dict \<Rightarrow> gate_error + value_pool" where
  "model_values pairs receipts =
     map_res model_entry
       (filter (\<lambda>(r, f). fact_is_numeric f \<and> er_receipt_id r \<in>
          set (map er_receipt_id (filter model_evidence (dict_values receipts)))) pairs)"

definition model_violations ::
  "gate_world \<Rightarrow> claim \<Rightarrow> claim_evidence \<Rightarrow> gate_error + gate_violation list" where
  "model_violations w c e =
     (let cid = cl_claim_id c; tokens = gw_tokens w (cl_claim_text c);
          needs_model = cl_claim_type c \<in> {Model_Claim, Prediction} \<or>
            asserts_model_capability (cl_claim_text c)
      in if needs_model \<and> \<not> list_ex model_evidence (dict_values (ce_receipts e)) then
           Inr [of_claim cid Model_Claim_Without_Model_Evidence]
         else if needs_model \<and> tokens \<noteq> [] then
           bind_res (model_values (ce_fact_pairs e) (ce_receipts e)) (\<lambda>values.
           Inr (flag_if (\<not> list_ex (\<lambda>t. list_ex (value_supports_token t) values) tokens)
             (of_claim cid Model_Metric_Not_Model_Derived)))
         else Inr [])"

definition causal_violations :: "gate_world \<Rightarrow> claim \<Rightarrow> claim_evidence \<Rightarrow> gate_violation list" where
  "causal_violations w c e =
     (let cid = cl_claim_id c;
          licensed = list_ex (licenses_causal_wording w) (dict_values (ce_receipts e))
      in if cl_claim_type c = Causal \<and> \<not> licensed then [of_claim cid Causal_Claim_Rejected]
         else flag_if (cl_claim_type c \<noteq> Causal \<and> implies_causation (cl_claim_text c) \<and> \<not> licensed)
           (of_claim cid Causal_Language))"

definition recommendation_violations :: "claim \<Rightarrow> gate_violation list" where
  "recommendation_violations c =
     (if cl_claim_type c = Recommendation
      then flag_if (cl_support_type c \<noteq> Support_Inference)
             (of_claim (cl_claim_id c) Recommendation_Not_Marked_Inference) @
           flag_if (cl_assumptions c = [])
             (of_claim (cl_claim_id c) Recommendation_Without_Assumptions)
      else [])"

definition entity_claim ::
  "gate_world \<Rightarrow> claim \<Rightarrow> claim_evidence \<Rightarrow> gate_error + gate_violation list" where
  "entity_claim w c e = bind_res (model_violations w c e) (\<lambda>model.
     Inr (model @ causal_violations w c e @ recommendation_violations c @
       (if cl_claim_type c = Absence_Claim then absence_gate c e else []) @
       flag_if (\<not> list_ex licenses_independence (dict_values (ce_receipts e)) \<and>
           declares_independence_in_text c)
         (of_claim (cl_claim_id c) Unlicensed_Independence_Claim)))"

definition entity_gate ::
  "gate_world \<Rightarrow> claim_bundle \<Rightarrow> (string, claim_evidence) dict \<Rightarrow>
     gate_error + gate_violation list" where
  "entity_gate w b ev =
     bind_res (map_res (\<lambda>c. entity_claim w c (evidence_of ev c)) (cb_claims b)) (\<lambda>vss.
     Inr (concat vss @
       flag_if (cb_declares_independent_replication b \<and>
           \<not> list_ex (\<lambda>e. list_ex licenses_independence (dict_values (ce_receipts e)))
               (dict_values ev))
         (of_bundle Unlicensed_Independence_Claim)))"

section \<open>Statistics\<close>

text \<open>The tests of \<open>TEST_PUBLISHABILITY\<close> (\<open>tools/stat_tests.py\<close>) are all ready.\<close>

definition confirmatory_ready_tests :: "string list" where
  "confirmatory_ready_tests =
     [''independent_t_test'', ''paired_t_test'', ''chi_square_independence'', ''fisher_exact'',
      ''one_way_anova'', ''welch_anova'', ''mann_whitney_u'', ''kruskal_wallis'',
      ''two_sample_ate'']"

definition truthy :: "string option \<Rightarrow> bool" where
  "truthy x \<longleftrightarrow> x \<noteq> None \<and> x \<noteq> Some []"

definition stat_family :: "receipt_statistics \<Rightarrow> string option" where
  "stat_family st = (if truthy (st_statistical_family_id st) then st_statistical_family_id st
     else st_hypothesis_id st)"

definition one_if_falsy :: "int option \<Rightarrow> int" where
  "one_if_falsy n = (case n of None \<Rightarrow> 1 | Some k \<Rightarrow> if k = 0 then 1 else k)"

text \<open>\<open>min(1.0, x)\<close>: the second argument only when it is less.\<close>

definition capped_at_one :: "py_real \<Rightarrow> py_real" where
  "capped_at_one x = (if real_less x (Finite 1) then x else Finite 1)"

text \<open>\<open>float(p_value) * own_attempt\<close> converts the attempt number.\<close>

definition self_consistent_p :: "py_real \<Rightarrow> int \<Rightarrow> gate_error + py_real" where
  "self_consistent_p p own_attempt =
     bind_res (float_of_int own_attempt) (\<lambda>k. Inr (capped_at_one (real_mul p k)))"

definition multiplicity_slack :: py_real where
  "multiplicity_slack = Finite (1 - 1 / 10 ^ 9)"

definition counted_receipt :: "gate_world \<Rightarrow> string \<times> evidence_receipt \<Rightarrow> bool" where
  "counted_receipt w p = (case p of (i, r) \<Rightarrow>
     er_receipt_id r = i \<and> verify_receipt_digest (gw_receipt_hash w) r \<and>
     (case er_statistics r of None \<Rightarrow> False
      | Some st \<Rightarrow> truthy (stat_family st) \<and> st_sequence_index st \<noteq> None))"

definition raise_count :: "string \<Rightarrow> int \<Rightarrow> (string, int) dict \<Rightarrow> (string, int) dict" where
  "raise_count fam n counts = dict_set fam (max (dict_get counts fam 0) n) counts"

definition receipt_count_step ::
  "string \<times> evidence_receipt \<Rightarrow> (string, int) dict \<Rightarrow> (string, int) dict" where
  "receipt_count_step p counts = (case er_statistics (snd p) of None \<Rightarrow> counts
     | Some st \<Rightarrow> (case (stat_family st, st_sequence_index st) of
         (Some fam, Some n) \<Rightarrow> raise_count fam n counts | _ \<Rightarrow> counts))"

definition final_stat_family_counts ::
  "gate_world \<Rightarrow> (string, int) dict option \<Rightarrow> gate_error + (string, int) dict" where
  "final_stat_family_counts w attempts =
     (let counts = fold receipt_count_step (filter (counted_receipt w) (gw_committed w)) [];
          given = (case attempts of None \<Rightarrow> [] | Some d \<Rightarrow> d)
      in bind_res (check_all (\<lambda>(fam, n). raise_if (n < 1) (Attempt_Count_Not_Positive fam)) given)
           (\<lambda>_. Inr (fold (\<lambda>(fam, n). raise_count fam n) given counts)))"

definition statistics_of :: "evidence_receipt \<Rightarrow> receipt_statistics" where
  "statistics_of r = the (er_statistics r)"

definition statistical_receipt ::
  "bool \<Rightarrow> (string, int) dict option \<Rightarrow> (string, int) dict \<Rightarrow> string \<Rightarrow> evidence_receipt \<Rightarrow>
     gate_error + gate_violation list" where
  "statistical_receipt confirmatory attempts finals cid r =
     (let st = statistics_of r; rid = er_receipt_id r;
          family = stat_family st;
          not_ready = flag_if (confirmatory \<and> st_test_name st \<notin> set confirmatory_ready_tests)
            (of_call cid r (Test_Not_Confirmatory_Ready (st_test_name st)))
      in bind_res
         (case st_p_value st of None \<Rightarrow> Inr not_ready
          | Some p \<Rightarrow>
              if \<not> truthy family then Inr (of_call cid r (Stat_Family_Missing rid) # not_ready)
              else let fam = the family in
                (case Option.bind attempts (\<lambda>d. map_of d fam) of
                   None \<Rightarrow> Inr [of_call cid r (Stat_Family_Count_Unavailable rid)]
                 | Some _ \<Rightarrow>
                     (let own = one_if_falsy (st_sequence_index st);
                          family_count = dict_get finals fam own
                      in bind_res (self_consistent_p p own) (\<lambda>expected.
                         Inr ((case st_adjusted_p_value st of None \<Rightarrow> []
                          | Some adjusted \<Rightarrow>
                              flag_if (real_less adjusted (real_mul expected multiplicity_slack))
                                (of_call cid r (Stale_Multiplicity_Adjustment rid adjusted own
                                   expected family_count))) @ not_ready)))))
         (\<lambda>rest. Inr (
           flag_if (confirmatory \<and> st_p_value st = None)
             (of_call cid r (Confirmatory_Without_Test_Statistic rid)) @
           flag_if (st_p_value st \<noteq> None \<and>
               (st_effect_size st = None \<or> st_ci_low st = None \<or> st_ci_high st = None \<or>
                st_sample_size st = None))
             (of_call cid r (P_Value_Without_Effect_Ci_N rid)) @
           flag_if (st_sequence_index st = None) (of_call cid r (Sequence_Index_Missing rid)) @
           rest)))"

definition statistical_claim ::
  "bool \<Rightarrow> (string, int) dict option \<Rightarrow> (string, int) dict \<Rightarrow> claim \<Rightarrow> claim_evidence \<Rightarrow>
     gate_error + gate_violation list" where
  "statistical_claim confirmatory attempts finals c e =
     bind_res (map_res (statistical_receipt confirmatory attempts finals (cl_claim_id c))
       (ce_stats_receipts e)) (\<lambda>vss.
     Inr (flag_if (confirmatory \<and> ce_stats_receipts e = [])
       (of_claim (cl_claim_id c) Confirmatory_Without_Statistics) @ concat vss))"

definition statistical_gate ::
  "gate_world \<Rightarrow> (string, int) dict option \<Rightarrow> claim_bundle \<Rightarrow> (string, claim_evidence) dict \<Rightarrow>
     gate_error + gate_violation list" where
  "statistical_gate w attempts b ev =
     bind_res (final_stat_family_counts w attempts) (\<lambda>finals.
     bind_res (map_res (\<lambda>c. statistical_claim (cb_evidence_lane b = Confirmatory) attempts finals c
       (evidence_of ev c)) (cb_claims b)) (\<lambda>vss. Inr (concat vss)))"

section \<open>The data state\<close>

definition state_step ::
  "string \<Rightarrow> evidence_receipt \<Rightarrow> gate_violation list \<times> string list \<Rightarrow>
     gate_violation list \<times> string list" where
  "state_step run_witness r s =
     (let (vs, seen) = s in
      if er_receipt_id r \<in> set seen then s
      else (vs @ flag_if (er_data_state_witness r \<noteq> run_witness)
              (of_bundle (Violation_Witness_Mismatch (er_receipt_id r))),
            er_receipt_id r # seen))"

definition evidence_receipts :: "(string, claim_evidence) dict \<Rightarrow> evidence_receipt list" where
  "evidence_receipts ev = concat (map (\<lambda>e. dict_values (ce_receipts e)) (dict_values ev))"

definition state_gate ::
  "(string, claim_evidence) dict \<Rightarrow> string \<Rightarrow> gate_violation list" where
  "state_gate ev run_witness = fst (fold (state_step run_witness) (evidence_receipts ev) ([], []))"

section \<open>The report\<close>

definition health_score :: "nat \<Rightarrow> gate_violation list \<Rightarrow> rat" where
  "health_score claim_count violations =
     (if claim_count = 0 then 0
      else let affected = length (remdups (List.map_filter gv_claim_id violations));
               bundle_level = length (filter (\<lambda>v. gv_claim_id v = None) violations);
               rate = min 1 (of_nat (affected + bundle_level) / of_nat claim_count)
           in (1 - rate) ^ 2)"

definition make_verdict :: "gate_name \<Rightarrow> gate_violation list \<Rightarrow> gate_verdict" where
  "make_verdict g vs = \<lparr>ve_gate = g, ve_passed = (vs = []), ve_violations = vs\<rparr>"

definition structure_error_cap :: nat where
  "structure_error_cap = 20"

definition structure_failure_report ::
  "gate_world \<Rightarrow> claim_bundle \<Rightarrow> string \<Rightarrow> gate_report" where
  "structure_failure_report w b run_witness =
     \<lparr>gr_claim_bundle_id =
        (if cb_claim_bundle_id b = [] then ''<invalid>'' else cb_claim_bundle_id b),
      gr_claim_bundle_digest = gw_bundle_digest w b,
      gr_run_witness = run_witness, gr_passed = False,
      gr_verdicts = [\<lparr>ve_gate = Structure, ve_passed = False,
        ve_violations = map (of_bundle \<circ> Schema_Invalid)
          (take structure_error_cap (bundle_faults b))\<rparr>],
      gr_health_score = 0\<rparr>"

text \<open>A typed bundle is validated again: a forged one may have skipped its validators.\<close>

definition run_claim_gates ::
  "gate_world \<Rightarrow> string \<Rightarrow> (string, int) dict option \<Rightarrow> claim_bundle \<Rightarrow>
     gate_error + gate_report" where
  "run_claim_gates w run_witness attempts b =
     (if \<not> bundle_valid b then Inr (structure_failure_report w b run_witness)
      else let (reach, ev) = resolve_references w b in
        bind_res (numeric_gate w b ev) (\<lambda>numeric.
        bind_res (entity_gate w b ev) (\<lambda>entity.
        bind_res (statistical_gate w attempts b ev) (\<lambda>stat.
        let state = state_gate ev run_witness;
            verdicts = [make_verdict Structure [], make_verdict Reachability reach,
              make_verdict Numeric numeric, make_verdict Entity entity,
              make_verdict Statistical stat, make_verdict State state]
        in Inr \<lparr>gr_claim_bundle_id = cb_claim_bundle_id b,
             gr_claim_bundle_digest = gw_bundle_digest w b,
             gr_run_witness = run_witness,
             gr_passed = list_all ve_passed verdicts,
             gr_verdicts = verdicts,
             gr_health_score = health_score (length (cb_claims b))
               (concat (map ve_violations verdicts))\<rparr>))))"

section \<open>Feedback and retries\<close>

datatype feedback_channel = Tool_Channel | User_Channel

text \<open>The message of an item lists its violations.\<close>

record gate_feedback_item =
  fi_channel :: feedback_channel
  fi_tool_call_id :: "string option"
  fi_violations :: "gate_violation list"

definition group_call ::
  "gate_violation \<Rightarrow> (string, gate_violation list) dict \<Rightarrow> (string, gate_violation list) dict" where
  "group_call v groups = (case gv_tool_call_id v of None \<Rightarrow> groups
     | Some t \<Rightarrow> dict_set t (dict_get groups t [] @ [v]) groups)"

definition tool_item :: "string \<times> gate_violation list \<Rightarrow> gate_error + gate_feedback_item" where
  "tool_item p = (if fst p = [] then Inl Tool_Channel_Unbound
     else Inr \<lparr>fi_channel = Tool_Channel, fi_tool_call_id = Some (fst p), fi_violations = snd p\<rparr>)"

definition build_gate_feedback :: "gate_report \<Rightarrow> gate_error + gate_feedback_item list" where
  "build_gate_feedback report =
     (if gr_passed report then Inr []
      else let blocking = concat (map ve_violations
                 (filter (\<lambda>v. \<not> ve_passed v) (gr_verdicts report)));
               general = filter (\<lambda>v. gv_tool_call_id v = None) blocking
           in bind_res (map_res tool_item (fold group_call blocking [])) (\<lambda>items.
              Inr (items @ flag_if (general \<noteq> [])
                \<lparr>fi_channel = User_Channel, fi_tool_call_id = None, fi_violations = general\<rparr>)))"

datatype retry_choice = Retry | Abstained

definition gate_retry_budget :: int where
  "gate_retry_budget = 1"

definition retry_decision :: "int \<Rightarrow> retry_choice" where
  "retry_decision gate_failure_count =
     (if gate_failure_count \<le> gate_retry_budget then Retry else Abstained)"

end
