(* ===== verification/InsightReducer.thy ===== *)
theory InsightReducer
  imports ClaimGates ExplorationSchema "HOL-Library.Product_Lexorder"
begin

text \<open>
  Insights (\<open>schemas/insights.py\<close>) and the deterministic reducer that grades them
  (\<open>agents/exploration/reducer.py\<close>): a proposal cites evidence, the reducer decides status and
  trust. A limitation is a text of the proposal, or the sentence the reducer builds from a
  receipt whose scope is narrower than the evidence it contradicts.
\<close>

section \<open>Records\<close>

datatype insight_status = New | Reinforced | Refuted | Inconclusive

datatype insight_trust = Supported | Contested | Trust_Refuted | Unsupported

datatype limitation =
    Limitation_Text string
  | Same_Snapshot
  | Narrow_Scope string "string option" "string option" "string list"

record insight_proof =
  pf_receipt_id :: string
  pf_fact_ids :: "string list"
  pf_comparison :: hypothesis_side
  pf_evidence_independence_key :: "string option"

record transition_proposal =
  tp_hypothesis_id :: string
  tp_insight_id :: string
  tp_family :: insight_family
  tp_claim_bundle_id :: string
  tp_supporting_receipt_ids :: "string list"
  tp_contradicting_receipt_ids :: "string list"
  tp_limitations :: "limitation list"
  tp_proposed_status :: insight_status

record insight_record =
  ir_insight_id :: string
  ir_hypothesis_id :: string
  ir_family :: insight_family
  ir_status :: insight_status
  ir_trust_level :: insight_trust
  ir_statement :: "string option"
  ir_rationale :: "string option"
  ir_claim_bundle_id :: string
  ir_supporting_receipt_ids :: "string list"
  ir_contradicting_receipt_ids :: "string list"
  ir_proof :: "insight_proof list"
  ir_limitations :: "limitation list"
  ir_created_round :: int
  ir_last_updated_round :: int

datatype insight_error =
    Empty_Field string
  | Side_Not_Unique
  | Sides_Overlap
  | Round_Negative
  | Rounds_Reversed
  | No_Proof
  | Witness_Empty
  | Receipt_Not_Committed string
  | Receipt_Fails_Digest string
  | Receipt_Witness_Mismatch string
  | Bundle_Not_Admitted string
  | Bundle_Hypothesis_Mismatch
  | No_Evidence
  | Bundle_Misses_Evidence
  | Wrong_Insight
  | Hypothesis_Or_Family_Changed
  | No_Novel_Evidence
  | No_Typed_Outcome string
  | Outcome_On_Wrong_Side string
  | Outcome_Of_Other_Hypothesis string
  | No_Novel_Support
  | No_Fact_Level_Proof string
  | Key_Error string

definition sides_check :: "string list \<Rightarrow> string list \<Rightarrow> insight_error + unit" where
  "sides_check ss cs = guarding
     [(\<not> distinct ss, Side_Not_Unique), (\<not> distinct cs, Side_Not_Unique),
      (set ss \<inter> set cs \<noteq> {}, Sides_Overlap)] ()"

definition proposal_check :: "transition_proposal \<Rightarrow> insight_error + unit" where
  "proposal_check p = bind_res (guarding
     [(tp_hypothesis_id p = [], Empty_Field ''hypothesis_id''),
      (tp_insight_id p = [], Empty_Field ''insight_id''),
      (tp_claim_bundle_id p = [], Empty_Field ''claim_bundle_id'')] ())
     (\<lambda>_. sides_check (tp_supporting_receipt_ids p) (tp_contradicting_receipt_ids p))"

definition proof_edge_check :: "insight_proof \<Rightarrow> insight_error + unit" where
  "proof_edge_check e = guarding
     [(pf_receipt_id e = [], Empty_Field ''receipt_id''),
      (pf_fact_ids e = [], Empty_Field ''fact_ids'')] ()"

definition record_check :: "insight_record \<Rightarrow> insight_error + unit" where
  "record_check r = bind_res (guarding
     [(ir_insight_id r = [], Empty_Field ''insight_id''),
      (ir_hypothesis_id r = [], Empty_Field ''hypothesis_id''),
      (ir_claim_bundle_id r = [], Empty_Field ''claim_bundle_id''),
      (ir_proof r = [], No_Proof),
      (ir_created_round r < 0 \<or> ir_last_updated_round r < 0, Round_Negative),
      (ir_last_updated_round r < ir_created_round r, Rounds_Reversed)] ())
     (\<lambda>_. sides_check (ir_supporting_receipt_ids r) (ir_contradicting_receipt_ids r))"

section \<open>Resolving evidence\<close>

text \<open>What a reduction is run with: the committed receipts, the admitted bundles, the witness of
  the run, and whether outcomes must be typed.\<close>

record reducer_world =
  rw_receipt_hash :: digest_hash
  rw_committed :: "(string, evidence_receipt) dict"
  rw_bundles :: "(string, claim_bundle) dict"
  rw_expected_witness :: string
  rw_typed :: bool

definition resolve_one :: "reducer_world \<Rightarrow> string \<Rightarrow> insight_error + unit" where
  "resolve_one w i = (case map_of (rw_committed w) i of
     None \<Rightarrow> Inl (Receipt_Not_Committed i)
   | Some r \<Rightarrow> guarding
       [(er_receipt_id r \<noteq> i \<or> \<not> verify_receipt_digest (rw_receipt_hash w) r,
           Receipt_Fails_Digest i),
        (er_data_state_witness r \<noteq> rw_expected_witness w, Receipt_Witness_Mismatch i)] ())"

definition resolve :: "reducer_world \<Rightarrow> string list \<Rightarrow> insight_error + unit" where
  "resolve w ids = bind_res (raise_if (\<not> distinct ids) Side_Not_Unique)
     (\<lambda>_. check_all (resolve_one w) ids)"

definition committed_at :: "reducer_world \<Rightarrow> string \<Rightarrow> evidence_receipt" where
  "committed_at w i = the (map_of (rw_committed w) i)"

text \<open>\<open>_merge\<close>: a union in first-seen order.\<close>

definition merge_ids :: "'a list \<Rightarrow> 'a list \<Rightarrow> 'a list" where
  "merge_ids existing incoming =
     fold (\<lambda>x merged. if x \<in> set merged then merged else merged @ [x]) incoming existing"

definition scope_covers :: "receipt_scope \<Rightarrow> receipt_scope \<Rightarrow> bool" where
  "scope_covers candidate target \<longleftrightarrow>
     set (sc_dataset_ids target) \<subseteq> set (sc_dataset_ids candidate) \<and>
     \<not> (sc_scope_resolution target = Some Scope_Whole_Dataset \<and>
        sc_scope_resolution candidate \<noteq> Some Scope_Whole_Dataset) \<and>
     (sc_scope_resolution candidate = Some Scope_Whole_Dataset \<or>
        set (sc_columns target) \<subseteq> set (sc_columns candidate)) \<and>
     sc_filters candidate = sc_filters target \<and> sc_time_range candidate = sc_time_range target"

definition narrow_scope_limitation :: "string \<Rightarrow> evidence_receipt \<Rightarrow> limitation" where
  "narrow_scope_limitation i r =
     Narrow_Scope i (sc_filters (er_scope r)) (sc_time_range (er_scope r)) (sc_columns (er_scope r))"

definition typed_side ::
  "reducer_world \<Rightarrow> string \<Rightarrow> hypothesis_side \<Rightarrow> string \<Rightarrow> insight_error + unit" where
  "typed_side w hyp side i =
     (let r = committed_at w i in
      if hypothesis_evidence_is_explicitly_invalid (er_method r) then Inr ()
      else case er_statistics r of
        None \<Rightarrow> Inl (No_Typed_Outcome i)
      | Some st \<Rightarrow> guarding
          [(st_hypothesis_outcome st = None, No_Typed_Outcome i),
           (st_hypothesis_outcome st \<noteq> Some side, Outcome_On_Wrong_Side i),
           (st_hypothesis_id st \<noteq> Some hyp, Outcome_Of_Other_Hypothesis i)] ())"

definition assert_typed_sides ::
  "reducer_world \<Rightarrow> string \<Rightarrow> string list \<Rightarrow> string list \<Rightarrow> insight_error + unit" where
  "assert_typed_sides w hyp ss cs = bind_res (check_all (typed_side w hyp Supports) ss)
     (\<lambda>_. check_all (typed_side w hyp Contradicts) cs)"

section \<open>The verdict\<close>

text \<open>\<open>isinstance(minimum, (int, float))\<close>: a bool is an int.\<close>

fun number_of :: "py_value \<Rightarrow> py_real option" where
  "number_of (PyInt n) = Some (Finite (of_int n))"
| "number_of (PyFloat x) = Some x"
| "number_of (PyBool b) = Some (Finite (if b then 1 else 0))"
| "number_of _ = None"

definition minimum_sample :: "receipt_method \<Rightarrow> py_value option" where
  "minimum_sample m =
     (let first = map_of (rm_parameters m) ''min_sample_size''
      in if first = None \<or> first = Some PyNone then map_of (rm_parameters m) ''min_n'' else first)"

definition undersized :: "evidence_receipt \<Rightarrow> bool" where
  "undersized r = (case er_statistics r of None \<Rightarrow> False | Some st \<Rightarrow>
     (case (st_sample_size st, Option.bind (minimum_sample (er_method r)) number_of) of
        (Some n, Some m) \<Rightarrow> real_less (Finite (of_int n)) m
      | _ \<Rightarrow> False))"

definition receipt_is_inconclusive :: "bool \<Rightarrow> evidence_receipt \<Rightarrow> bool" where
  "receipt_is_inconclusive typed r \<longleftrightarrow>
     hypothesis_evidence_is_explicitly_invalid (er_method r) \<or>
     (case er_statistics r of None \<Rightarrow> False | Some st \<Rightarrow> \<not> has_valid_numeric_values st) \<or>
     (typed \<and> (case er_statistics r of None \<Rightarrow> True | Some st \<Rightarrow> st_hypothesis_outcome st = None)) \<or>
     (\<not> typed \<and> rm_warnings (er_method r) \<noteq> []) \<or>
     undersized r"

definition independent_keys :: "reducer_world \<Rightarrow> string list \<Rightarrow> string list" where
  "independent_keys w ids = List.map_filter (\<lambda>i.
     let r = committed_at w i in
     if truthy (er_evidence_independence_key r) \<and> licenses_independence r
     then er_evidence_independence_key r else None) ids"

definition prior_keys :: "reducer_world \<Rightarrow> string list \<Rightarrow> string list \<Rightarrow> string list" where
  "prior_keys w ss new = List.map_filter (\<lambda>i.
     let r = committed_at w i in
     if i \<notin> set new \<and> truthy (er_evidence_independence_key r)
     then er_evidence_independence_key r else None) ss"

definition verdict ::
  "reducer_world \<Rightarrow> string list \<Rightarrow> string list \<Rightarrow> insight_record option \<Rightarrow> string list \<Rightarrow> bool \<Rightarrow>
     insight_error + (insight_status \<times> insight_trust \<times> limitation list)" where
  "verdict w ss cs prior new had_downgraded =
     (let prior_status = (case prior of None \<Rightarrow> New | Some p \<Rightarrow> ir_status p);
          prior_trust = (case prior of None \<Rightarrow> Supported | Some p \<Rightarrow> ir_trust_level p)
      in if list_ex (\<lambda>i. receipt_is_inconclusive (rw_typed w) (committed_at w i)) (ss @ cs) then
           Inr (Inconclusive, Unsupported, [])
         else if ss \<noteq> [] \<and> cs \<noteq> [] then Inr (Inconclusive, Contested, [])
         else if cs \<noteq> [] then Inr (Refuted, Trust_Refuted, [])
         else if ss = [] then Inr (Inconclusive, Unsupported, [])
         else if prior = None then Inr (New, Supported, [])
         else if new = [] then
           (if had_downgraded then Inr (prior_status, prior_trust, []) else Inl No_Novel_Support)
         else if set (independent_keys w new) \<subseteq> set (prior_keys w ss new) then
           Inr (prior_status, Supported, [Same_Snapshot])
         else Inr (Reinforced, Supported, []))"

section \<open>The proof\<close>

type_synonym fact_index = "(string, string list) dict"

definition index_fact :: "string \<Rightarrow> string list \<Rightarrow> fact_index \<Rightarrow> fact_index" where
  "index_fact i fids d = dict_set i (dict_get d i [] @ fids) d"

text \<open>A reference of an admitted bundle splits.\<close>

definition index_ref :: "string \<Rightarrow> fact_index \<Rightarrow> fact_index" where
  "index_ref ref d = (case split_evidence_ref ref of None \<Rightarrow> d | Some (i, f) \<Rightarrow> index_fact i [f] d)"

fun index_statistics ::
  "reducer_world \<Rightarrow> string list \<Rightarrow> fact_index \<Rightarrow> insight_error + fact_index" where
  "index_statistics w [] d = Inr d"
| "index_statistics w (i # ids) d = (case map_of (rw_committed w) i of
     None \<Rightarrow> Inl (Key_Error i)
   | Some r \<Rightarrow>
       if er_facts r = [] then Inl (No_Fact_Level_Proof i)
       else index_statistics w ids (index_fact i (map rf_fact_id (er_facts r)) d))"

fun index_claims :: "reducer_world \<Rightarrow> claim list \<Rightarrow> fact_index \<Rightarrow> insight_error + fact_index" where
  "index_claims w [] d = Inr d"
| "index_claims w (c # cs) d = bind_res (index_statistics w (cl_statistics_receipt_ids c)
     (fold index_ref (cl_derivation_ids c) (fold index_ref (cl_evidence_fact_ids c) d)))
     (index_claims w cs)"

definition proof_edge ::
  "reducer_world \<Rightarrow> string list \<Rightarrow> string \<times> string list \<Rightarrow> insight_proof" where
  "proof_edge w ss p = \<lparr>pf_receipt_id = fst p, pf_fact_ids = sort (remdups (snd p)),
     pf_comparison = (if fst p \<in> set ss then Supports else Contradicts),
     pf_evidence_independence_key = er_evidence_independence_key (committed_at w (fst p))\<rparr>"

definition proof_edges ::
  "reducer_world \<Rightarrow> claim_bundle \<Rightarrow> transition_proposal \<Rightarrow> string list \<Rightarrow>
     insight_error + insight_proof list" where
  "proof_edges w b p downgraded =
     bind_res (index_claims w (cb_claims b) []) (\<lambda>d.
     let ss = tp_supporting_receipt_ids p;
         cs = filter (\<lambda>i. i \<notin> set downgraded) (tp_contradicting_receipt_ids p);
         edges = map (proof_edge w ss)
           (filter (\<lambda>q. fst q \<in> set ss \<or> fst q \<in> set cs) (sort_key fst d))
     in bind_res (check_all proof_edge_check edges) (\<lambda>_. Inr edges))"

fun side_text :: "hypothesis_side \<Rightarrow> string" where
  "side_text Supports = ''supports''"
| "side_text Contradicts = ''contradicts''"

definition edge_key :: "insight_proof \<Rightarrow> string \<times> string \<times> string list" where
  "edge_key e = (pf_receipt_id e, side_text (pf_comparison e), pf_fact_ids e)"

definition merge_proof :: "insight_proof list \<Rightarrow> insight_proof list \<Rightarrow> insight_proof list" where
  "merge_proof existing incoming =
     (let by_key = fold (\<lambda>e. dict_set (edge_key e) e) (existing @ incoming) []
      in map snd (sort_key fst by_key))"

section \<open>One reduction\<close>

text \<open>The receipts that contradict on a narrower scope than the prior evidence.\<close>

definition narrow_contradictions ::
  "reducer_world \<Rightarrow> insight_record option \<Rightarrow> string list \<Rightarrow> string list" where
  "narrow_contradictions w prior new_contradicting = (case prior of None \<Rightarrow> []
     | Some p \<Rightarrow>
         (let scopes = map (\<lambda>i. er_scope (committed_at w i)) (ir_supporting_receipt_ids p)
          in if scopes = [] then []
             else filter (\<lambda>i. \<not> list_all (scope_covers (er_scope (committed_at w i))) scopes)
                    new_contradicting))"

definition prior_check ::
  "reducer_world \<Rightarrow> transition_proposal \<Rightarrow> insight_record option \<Rightarrow> insight_error + unit" where
  "prior_check w p prior = (case prior of None \<Rightarrow> Inr ()
     | Some q \<Rightarrow>
         bind_res (guarding
           [(ir_insight_id q \<noteq> tp_insight_id p, Wrong_Insight),
            (ir_hypothesis_id q \<noteq> tp_hypothesis_id p \<or> ir_family q \<noteq> tp_family p,
               Hypothesis_Or_Family_Changed)] ()) (\<lambda>_.
         bind_res (resolve w (ir_supporting_receipt_ids q)) (\<lambda>_.
         bind_res (resolve w (ir_contradicting_receipt_ids q)) (\<lambda>_.
         raise_if (set (tp_supporting_receipt_ids p) \<subseteq> set (ir_supporting_receipt_ids q) \<and>
             set (tp_contradicting_receipt_ids p) \<subseteq> set (ir_contradicting_receipt_ids q))
           No_Novel_Evidence))))"

definition prior_supporting :: "insight_record option \<Rightarrow> string list" where
  "prior_supporting prior = (case prior of None \<Rightarrow> [] | Some q \<Rightarrow> ir_supporting_receipt_ids q)"

definition prior_contradicting :: "insight_record option \<Rightarrow> string list" where
  "prior_contradicting prior = (case prior of None \<Rightarrow> [] | Some q \<Rightarrow> ir_contradicting_receipt_ids q)"

definition bundle_check ::
  "reducer_world \<Rightarrow> transition_proposal \<Rightarrow> insight_error + claim_bundle" where
  "bundle_check w p = (case map_of (rw_bundles w) (tp_claim_bundle_id p) of
     None \<Rightarrow> Inl (Bundle_Not_Admitted (tp_claim_bundle_id p))
   | Some b \<Rightarrow>
       (let assigned = set (tp_supporting_receipt_ids p) \<union> set (tp_contradicting_receipt_ids p)
        in guarding
          [(cb_hypothesis_id b \<noteq> tp_hypothesis_id p, Bundle_Hypothesis_Mismatch),
           (assigned = {}, No_Evidence),
           (\<not> assigned \<subseteq> set (referenced_receipt_ids b), Bundle_Misses_Evidence)] b))"

definition kept_text :: "string option \<Rightarrow> string option \<Rightarrow> string option" where
  "kept_text old given = (case old of None \<Rightarrow> given | Some t \<Rightarrow> Some t)"

text \<open>The record a reduction builds. The text of a hypothesis is immutable once set.\<close>

definition insight_of ::
  "reducer_world \<Rightarrow> insight_record option \<Rightarrow> int \<Rightarrow> string option \<Rightarrow> string option \<Rightarrow>
     transition_proposal \<Rightarrow> string list \<Rightarrow> string list \<Rightarrow> string list \<Rightarrow> insight_status \<Rightarrow>
     insight_trust \<Rightarrow> limitation list \<Rightarrow> insight_proof list \<Rightarrow> insight_record" where
  "insight_of w prior round_index statement rationale p ss cs narrow st_new tr_new extra edges =
     \<lparr>ir_insight_id = tp_insight_id p, ir_hypothesis_id = tp_hypothesis_id p,
      ir_family = tp_family p, ir_status = st_new, ir_trust_level = tr_new,
      ir_statement = (case prior of None \<Rightarrow> statement
        | Some q \<Rightarrow> kept_text (ir_statement q) statement),
      ir_rationale = (case prior of None \<Rightarrow> rationale
        | Some q \<Rightarrow> kept_text (ir_rationale q) rationale),
      ir_claim_bundle_id = tp_claim_bundle_id p,
      ir_supporting_receipt_ids = ss, ir_contradicting_receipt_ids = cs,
      ir_proof = merge_proof (case prior of None \<Rightarrow> [] | Some q \<Rightarrow> ir_proof q) edges,
      ir_limitations = merge_ids (case prior of None \<Rightarrow> [] | Some q \<Rightarrow> ir_limitations q)
        (tp_limitations p @ extra @
         map (\<lambda>i. narrow_scope_limitation i (committed_at w i)) narrow),
      ir_created_round = (case prior of None \<Rightarrow> round_index | Some q \<Rightarrow> ir_created_round q),
      ir_last_updated_round = round_index\<rparr>"

definition reduce_insight ::
  "reducer_world \<Rightarrow> insight_record option \<Rightarrow> int \<Rightarrow> string option \<Rightarrow> string option \<Rightarrow>
     transition_proposal \<Rightarrow> insight_error + insight_record" where
  "reduce_insight w prior round_index statement rationale p =
     bind_res (raise_if (py_strip (rw_expected_witness w) = []) Witness_Empty) (\<lambda>_.
     bind_res (resolve w (tp_supporting_receipt_ids p)) (\<lambda>_.
     bind_res (resolve w (tp_contradicting_receipt_ids p)) (\<lambda>_.
     bind_res (bundle_check w p) (\<lambda>b.
     bind_res (prior_check w p prior) (\<lambda>_.
     let old_ss = prior_supporting prior;
         old_cs = prior_contradicting prior;
         new_ss = filter (\<lambda>i. i \<notin> set old_ss) (tp_supporting_receipt_ids p);
         new_cs = filter (\<lambda>i. i \<notin> set old_cs) (tp_contradicting_receipt_ids p);
         ss = merge_ids old_ss (tp_supporting_receipt_ids p);
         narrow = narrow_contradictions w prior new_cs;
         cs = filter (\<lambda>i. i \<notin> set narrow) (merge_ids old_cs (tp_contradicting_receipt_ids p))
     in bind_res (if rw_typed w then assert_typed_sides w (tp_hypothesis_id p) ss cs else Inr ())
          (\<lambda>_.
        bind_res (verdict w ss cs prior new_ss (narrow \<noteq> [])) (\<lambda>(st_new, tr_new, extra).
        bind_res (proof_edges w b p narrow) (\<lambda>edges.
        let rec = insight_of w prior round_index statement rationale p ss cs narrow
          st_new tr_new extra edges
        in bind_res (record_check rec) (\<lambda>_. Inr rec)))))))))"

end
