(* ===== verification/ClaimGateProperties.thy ===== *)
theory ClaimGateProperties
  imports ClaimGates
begin

text \<open>
  What a report that passes promises: every reference of every claim lands on a committed,
  digest-verified receipt of this data state, every number of the text is one the evidence
  holds, absences were scanned, causal wording is licensed, confirmatory statistics are
  complete. The gates raise nothing on parsed receipts, and the feedback loses no violation.
\<close>

section \<open>Resolving the references of a claim\<close>

text \<open>A fold of steps that only ever add violations: when none is left, each step was clean.\<close>

lemma fold_steps_clean:
  assumes step: "\<And>x s. x \<in> set xs \<Longrightarrow> fst (g x s) = [] \<Longrightarrow> fst s = [] \<and> snd (g x s) = f x (snd s) \<and> P x"
    and clean: "fst (fold g xs s) = []"
  shows "fst s = [] \<and> snd (fold g xs s) = fold f xs (snd s) \<and> (\<forall>x \<in> set xs. P x)"
  using assms
proof (induction xs arbitrary: s)
  case (Cons x xs)
  have "fst (fold g xs (g x s)) = []" using Cons.prems(2) by simp
  moreover have "fst (g y t) = [] \<Longrightarrow> fst t = [] \<and> snd (g y t) = f y (snd t) \<and> P y"
    if "y \<in> set xs" for y t
    by (rule Cons.prems(1)) (use that in simp_all)
  ultimately have rest: "fst (g x s) = [] \<and> snd (fold g xs (g x s)) = fold f xs (snd (g x s)) \<and>
      (\<forall>y \<in> set xs. P y)"
    by (intro Cons.IH)
  have "fst s = [] \<and> snd (g x s) = f x (snd s) \<and> P x"
    by (rule Cons.prems(1)) (use rest in simp_all)
  with rest show ?case by simp
qed simp

definition receipt_at :: "gate_world \<Rightarrow> string \<Rightarrow> evidence_receipt" where
  "receipt_at w ref = the (map_of (gw_committed w) (ref_receipt ref))"

definition fact_at :: "gate_world \<Rightarrow> string \<Rightarrow> receipt_fact" where
  "fact_at w ref = the (find (\<lambda>f. rf_fact_id f = snd (the (split_evidence_ref ref)))
     (er_facts (receipt_at w ref)))"

definition derivation_at :: "gate_world \<Rightarrow> string \<Rightarrow> receipt_derivation" where
  "derivation_at w ref = the (find (\<lambda>d. rd_derived_fact_id d = snd (the (split_evidence_ref ref)))
     (er_derivations (receipt_at w ref)))"

text \<open>A receipt a claim may rest on.\<close>

definition sound_receipt :: "gate_world \<Rightarrow> string \<Rightarrow> evidence_receipt \<Rightarrow> bool" where
  "sound_receipt w i r \<longleftrightarrow> map_of (gw_committed w) i = Some r \<and> er_receipt_id r = i \<and>
     verify_receipt_digest (gw_receipt_hash w) r"

lemma verified_iff: "verified w i cid = Inr r \<longleftrightarrow> sound_receipt w i r"
  by (auto simp: verified_def sound_receipt_def split: option.splits)

lemma sound_receipt_functional: "sound_receipt w i r \<Longrightarrow> sound_receipt w i q \<Longrightarrow> q = r"
  by (simp add: sound_receipt_def)

definition fact_resolves :: "gate_world \<Rightarrow> string \<Rightarrow> bool" where
  "fact_resolves w ref \<longleftrightarrow> (\<exists>i fid r f. split_evidence_ref ref = Some (i, fid) \<and>
     sound_receipt w i r \<and> find (\<lambda>f. rf_fact_id f = fid) (er_facts r) = Some f)"

definition derivation_resolves :: "gate_world \<Rightarrow> string \<Rightarrow> bool" where
  "derivation_resolves w ref \<longleftrightarrow> (\<exists>i did r d. split_evidence_ref ref = Some (i, did) \<and>
     sound_receipt w i r \<and> find (\<lambda>d. rd_derived_fact_id d = did) (er_derivations r) = Some d)"

definition statistics_resolve :: "gate_world \<Rightarrow> string \<Rightarrow> bool" where
  "statistics_resolve w i \<longleftrightarrow> (\<exists>r. sound_receipt w i r \<and> er_statistics r \<noteq> None)"

definition add_fact :: "gate_world \<Rightarrow> string \<Rightarrow> claim_evidence \<Rightarrow> claim_evidence" where
  "add_fact w ref e = e\<lparr>
     ce_receipts := dict_set (ref_receipt ref) (receipt_at w ref) (ce_receipts e),
     ce_fact_pairs := ce_fact_pairs e @ [(receipt_at w ref, fact_at w ref)],
     ce_fact_receipts := dict_set (ref_receipt ref) (receipt_at w ref) (ce_fact_receipts e)\<rparr>"

definition add_derivation :: "gate_world \<Rightarrow> string \<Rightarrow> claim_evidence \<Rightarrow> claim_evidence" where
  "add_derivation w ref e = e\<lparr>
     ce_receipts := dict_set (ref_receipt ref) (receipt_at w ref) (ce_receipts e),
     ce_derivation_pairs := ce_derivation_pairs e @ [(receipt_at w ref, derivation_at w ref)]\<rparr>"

definition add_statistics :: "gate_world \<Rightarrow> string \<Rightarrow> claim_evidence \<Rightarrow> claim_evidence" where
  "add_statistics w i e = (let r = the (map_of (gw_committed w) i) in e\<lparr>
     ce_receipts := dict_set i r (ce_receipts e),
     ce_stats_receipts := ce_stats_receipts e @ [r]\<rparr>)"

lemma resolve_fact_clean:
  assumes "fst (resolve_fact w cid ref s) = []" "split_evidence_ref ref \<noteq> None"
  shows "fst s = [] \<and> snd (resolve_fact w cid ref s) = add_fact w ref (snd s) \<and> fact_resolves w ref"
proof -
  obtain i fid where ref: "split_evidence_ref ref = Some (i, fid)" using assms(2) by auto
  obtain r where r: "verified w i cid = Inr r"
    using assms(1) ref by (cases "verified w i cid") (auto simp: resolve_fact_def note_violation_def)
  obtain f where f: "find (\<lambda>f. rf_fact_id f = fid) (er_facts r) = Some f"
    using assms(1) ref r
    by (auto simp: resolve_fact_def case_prod_unfold Let_def split: option.splits)
  from r have "map_of (gw_committed w) i = Some r" by (simp add: verified_iff sound_receipt_def)
  with ref have at: "receipt_at w ref = r" "ref_receipt ref = i"
    by (simp_all add: receipt_at_def ref_receipt_def)
  with ref f have "fact_at w ref = f" by (simp add: fact_at_def)
  moreover have "fact_resolves w ref" using ref r f by (auto simp: fact_resolves_def verified_iff)
  ultimately show ?thesis
    using assms(1) ref r f at
    by (simp add: resolve_fact_def case_prod_unfold Let_def add_fact_def)
qed

lemma resolve_derivation_clean:
  assumes "fst (resolve_derivation w cid ref s) = []" "split_evidence_ref ref \<noteq> None"
  shows "fst s = [] \<and> snd (resolve_derivation w cid ref s) = add_derivation w ref (snd s) \<and>
    derivation_resolves w ref"
proof -
  obtain i did where ref: "split_evidence_ref ref = Some (i, did)" using assms(2) by auto
  obtain r where r: "verified w i cid = Inr r"
    using assms(1) ref
    by (cases "verified w i cid") (auto simp: resolve_derivation_def note_violation_def)
  obtain d where d: "find (\<lambda>d. rd_derived_fact_id d = did) (er_derivations r) = Some d"
    using assms(1) ref r
    by (auto simp: resolve_derivation_def case_prod_unfold Let_def split: option.splits)
  from r have "map_of (gw_committed w) i = Some r" by (simp add: verified_iff sound_receipt_def)
  with ref have at: "receipt_at w ref = r" "ref_receipt ref = i"
    by (simp_all add: receipt_at_def ref_receipt_def)
  with ref d have "derivation_at w ref = d" by (simp add: derivation_at_def)
  moreover have "derivation_resolves w ref"
    using ref r d by (auto simp: derivation_resolves_def verified_iff)
  ultimately show ?thesis
    using assms(1) ref r d at
    by (simp add: resolve_derivation_def case_prod_unfold Let_def add_derivation_def)
qed

lemma resolve_statistics_clean:
  assumes "fst (resolve_statistics w cid i s) = []"
  shows "fst s = [] \<and> snd (resolve_statistics w cid i s) = add_statistics w i (snd s) \<and>
    statistics_resolve w i"
proof -
  obtain r where r: "verified w i cid = Inr r"
    using assms by (cases "verified w i cid") (auto simp: resolve_statistics_def note_violation_def)
  with assms have st: "er_statistics r \<noteq> None"
    by (auto simp: resolve_statistics_def case_prod_unfold Let_def split: if_splits)
  from r have "map_of (gw_committed w) i = Some r" by (simp add: verified_iff sound_receipt_def)
  moreover have "statistics_resolve w i" using r st by (auto simp: statistics_resolve_def verified_iff)
  ultimately show ?thesis
    using assms r st
    by (auto simp: resolve_statistics_def case_prod_unfold Let_def add_statistics_def split: if_splits)
qed

definition gathered :: "gate_world \<Rightarrow> claim \<Rightarrow> claim_evidence" where
  "gathered w c = fold (add_statistics w) (cl_statistics_receipt_ids c)
     (fold (add_derivation w) (cl_derivation_ids c)
       (fold (add_fact w) (cl_evidence_fact_ids c) no_evidence))"

definition claim_resolves :: "gate_world \<Rightarrow> claim \<Rightarrow> bool" where
  "claim_resolves w c \<longleftrightarrow>
     (\<forall>ref \<in> set (cl_evidence_fact_ids c). fact_resolves w ref) \<and>
     (\<forall>ref \<in> set (cl_derivation_ids c). derivation_resolves w ref) \<and>
     (\<forall>i \<in> set (cl_statistics_receipt_ids c). statistics_resolve w i)"

lemma resolve_claim_clean:
  assumes "fst (resolve_claim w c) = []" "claim_well_formed c = Inr ()"
  shows "snd (resolve_claim w c) = gathered w c" "claim_resolves w c"
proof -
  let ?i = "cl_claim_id c"
  let ?a = "fold (resolve_fact w ?i) (cl_evidence_fact_ids c) ([], no_evidence)"
  let ?b = "fold (resolve_derivation w ?i) (cl_derivation_ids c) ?a"
  let ?c = "fold (resolve_statistics w ?i) (cl_statistics_receipt_ids c) ?b"
  have refs: "split_evidence_ref ref \<noteq> None"
    if "ref \<in> set (cl_evidence_fact_ids c) \<or> ref \<in> set (cl_derivation_ids c)" for ref
    using assms(2) that by (auto simp: claim_well_formed_iff)
  have "fst ?c = []" using assms(1) by (simp add: resolve_claim_def Let_def)
  then have c: "fst ?b = [] \<and>
      snd ?c = fold (add_statistics w) (cl_statistics_receipt_ids c) (snd ?b) \<and>
      (\<forall>i \<in> set (cl_statistics_receipt_ids c). statistics_resolve w i)"
    by (rule fold_steps_clean[rotated]) (rule resolve_statistics_clean)
  have b: "fst ?a = [] \<and> snd ?b = fold (add_derivation w) (cl_derivation_ids c) (snd ?a) \<and>
      (\<forall>ref \<in> set (cl_derivation_ids c). derivation_resolves w ref)"
    by (rule fold_steps_clean[rotated, OF conjunct1[OF c]])
      (rule resolve_derivation_clean, simp_all add: refs)
  have a: "fst ([] :: gate_violation list, no_evidence) = [] \<and>
      snd ?a = fold (add_fact w) (cl_evidence_fact_ids c) (snd ([] :: gate_violation list, no_evidence)) \<and>
      (\<forall>ref \<in> set (cl_evidence_fact_ids c). fact_resolves w ref)"
    by (rule fold_steps_clean[rotated, OF conjunct1[OF b]])
      (rule resolve_fact_clean, simp_all add: refs)
  show "snd (resolve_claim w c) = gathered w c"
    using a b c by (simp add: resolve_claim_def gathered_def Let_def)
  show "claim_resolves w c" using a b c by (simp add: claim_resolves_def)
qed

text \<open>What is gathered, field by field.\<close>

lemma gather_facts:
  "ce_fact_pairs (fold (add_fact w) refs e) =
     ce_fact_pairs e @ map (\<lambda>ref. (receipt_at w ref, fact_at w ref)) refs"
  "ce_derivation_pairs (fold (add_fact w) refs e) = ce_derivation_pairs e"
  "ce_stats_receipts (fold (add_fact w) refs e) = ce_stats_receipts e"
  "ce_fact_receipts (fold (add_fact w) refs e) =
     fold (\<lambda>ref. dict_set (ref_receipt ref) (receipt_at w ref)) refs (ce_fact_receipts e)"
  "ce_receipts (fold (add_fact w) refs e) =
     fold (\<lambda>ref. dict_set (ref_receipt ref) (receipt_at w ref)) refs (ce_receipts e)"
  by (induction refs arbitrary: e) (simp_all add: add_fact_def)

lemma gather_derivations:
  "ce_derivation_pairs (fold (add_derivation w) refs e) =
     ce_derivation_pairs e @ map (\<lambda>ref. (receipt_at w ref, derivation_at w ref)) refs"
  "ce_fact_pairs (fold (add_derivation w) refs e) = ce_fact_pairs e"
  "ce_stats_receipts (fold (add_derivation w) refs e) = ce_stats_receipts e"
  "ce_fact_receipts (fold (add_derivation w) refs e) = ce_fact_receipts e"
  "ce_receipts (fold (add_derivation w) refs e) =
     fold (\<lambda>ref. dict_set (ref_receipt ref) (receipt_at w ref)) refs (ce_receipts e)"
  by (induction refs arbitrary: e) (simp_all add: add_derivation_def)

lemma gather_statistics:
  "ce_stats_receipts (fold (add_statistics w) ids e) =
     ce_stats_receipts e @ map (\<lambda>i. the (map_of (gw_committed w) i)) ids"
  "ce_fact_pairs (fold (add_statistics w) ids e) = ce_fact_pairs e"
  "ce_derivation_pairs (fold (add_statistics w) ids e) = ce_derivation_pairs e"
  "ce_fact_receipts (fold (add_statistics w) ids e) = ce_fact_receipts e"
  "ce_receipts (fold (add_statistics w) ids e) =
     fold (\<lambda>i. dict_set i (the (map_of (gw_committed w) i))) ids (ce_receipts e)"
  by (induction ids arbitrary: e) (simp_all add: add_statistics_def Let_def)

definition receipts_of :: "gate_world \<Rightarrow> string list \<Rightarrow> (string, evidence_receipt) dict" where
  "receipts_of w ids = fold (\<lambda>i. dict_set i (the (map_of (gw_committed w) i))) ids []"

lemma fold_receipt_at:
  "fold (\<lambda>ref. dict_set (ref_receipt ref) (receipt_at w ref)) refs d =
     fold (\<lambda>i. dict_set i (the (map_of (gw_committed w) i))) (map ref_receipt refs) d"
  by (induction refs arbitrary: d) (simp_all add: receipt_at_def)

lemma gathered_fields [simp]:
  "ce_fact_pairs (gathered w c) =
     map (\<lambda>ref. (receipt_at w ref, fact_at w ref)) (cl_evidence_fact_ids c)"
  "ce_derivation_pairs (gathered w c) =
     map (\<lambda>ref. (receipt_at w ref, derivation_at w ref)) (cl_derivation_ids c)"
  "ce_stats_receipts (gathered w c) =
     map (\<lambda>i. the (map_of (gw_committed w) i)) (cl_statistics_receipt_ids c)"
  "ce_fact_receipts (gathered w c) = receipts_of w (map ref_receipt (cl_evidence_fact_ids c))"
  "ce_receipts (gathered w c) = receipts_of w (cited_receipts c)"
  by (simp_all add: gathered_def gather_facts gather_derivations gather_statistics no_evidence_def
      fold_receipt_at receipts_of_def cited_receipts_def fold_append)

lemma map_of_receipts_of:
  "map_of (receipts_of w ids) i =
     (if i \<in> set ids then Some (the (map_of (gw_committed w) i)) else None)"
proof -
  have "map_of (fold (\<lambda>i. dict_set i (g i)) ids d) i =
      (if i \<in> set ids then Some (g i) else map_of d i)"
    for g :: "string \<Rightarrow> evidence_receipt" and d
    by (induction ids arbitrary: d) auto
  then show ?thesis by (simp add: receipts_of_def)
qed

lemma distinct_receipts_of: "distinct (dict_keys (receipts_of w ids))"
proof -
  have "distinct (dict_keys d) \<Longrightarrow>
      distinct (dict_keys (fold (\<lambda>i. dict_set i (g i)) ids d))"
    for g :: "string \<Rightarrow> evidence_receipt" and d
    by (induction ids arbitrary: d) (auto intro: distinct_dict_set)
  then show ?thesis by (simp add: receipts_of_def)
qed

lemma receipts_of_values:
  "set (dict_values (receipts_of w ids)) = (\<lambda>i. the (map_of (gw_committed w) i)) ` set ids"
proof -
  have "r \<in> set (dict_values (receipts_of w ids)) \<longleftrightarrow> (\<exists>i. map_of (receipts_of w ids) i = Some r)" for r
    using map_of_eq_Some_iff[OF distinct_receipts_of[of w ids]] by force
  then show ?thesis
    by (intro set_eqI) (simp only: map_of_receipts_of, auto split: if_splits)
qed

section \<open>A report that passes\<close>

definition gathered_evidence :: "gate_world \<Rightarrow> claim_bundle \<Rightarrow> (string, claim_evidence) dict" where
  "gathered_evidence w b = map (\<lambda>c. (cl_claim_id c, gathered w c)) (cb_claims b)"

lemma evidence_of_gathered:
  assumes "distinct (map cl_claim_id (cb_claims b))" "c \<in> set (cb_claims b)"
  shows "evidence_of (gathered_evidence w b) c = gathered w c"
proof -
  have "map_of (gathered_evidence w b) (cl_claim_id c) = Some (gathered w c)"
    using assms by (intro map_of_is_SomeI) (auto simp: gathered_evidence_def comp_def)
  then show ?thesis by (simp add: evidence_of_def dict_get_def)
qed

lemma resolve_references_clean:
  assumes "fst (resolve_references w b) = []" "bundle_valid b"
  shows "snd (resolve_references w b) = gathered_evidence w b"
    "\<forall>c \<in> set (cb_claims b). claim_resolves w c"
proof -
  have clean: "fst (resolve_claim w c) = []" if "c \<in> set (cb_claims b)" for c
    using assms(1) that by (auto simp: resolve_references_def)
  have sound: "claim_well_formed c = Inr ()" if "c \<in> set (cb_claims b)" for c
    using assms(2) that by (simp add: bundle_valid_iff)
  show "snd (resolve_references w b) = gathered_evidence w b"
    by (simp add: resolve_references_def gathered_evidence_def resolve_claim_clean(1) clean sound)
  show "\<forall>c \<in> set (cb_claims b). claim_resolves w c"
    using resolve_claim_clean(2) clean sound by blast
qed

lemma make_verdict_passed [simp]:
  "ve_passed (make_verdict g vs) \<longleftrightarrow> vs = []" "ve_violations (make_verdict g vs) = vs"
  by (simp_all add: make_verdict_def)

lemma passed_reportD:
  assumes run: "run_claim_gates w wit attempts b = Inr rep" and "gr_passed rep"
  shows "bundle_valid b" "\<forall>c \<in> set (cb_claims b). claim_resolves w c"
    "numeric_gate w b (gathered_evidence w b) = Inr []"
    "entity_gate w b (gathered_evidence w b) = Inr []"
    "statistical_gate w attempts b (gathered_evidence w b) = Inr []"
    "state_gate (gathered_evidence w b) wit = []"
proof -
  show valid: "bundle_valid b"
    using assms by (auto simp: run_claim_gates_def structure_failure_report_def split: if_splits)
  obtain reach ev where refs: "resolve_references w b = (reach, ev)" by (cases "resolve_references w b")
  have all: "reach = [] \<and> numeric_gate w b ev = Inr [] \<and> entity_gate w b ev = Inr [] \<and>
      statistical_gate w attempts b ev = Inr [] \<and> state_gate ev wit = []"
    using assms valid refs by (auto simp: run_claim_gates_def Let_def res_simps)
  then have clean: "fst (resolve_references w b) = []" by (simp add: refs)
  have "ev = gathered_evidence w b"
    using resolve_references_clean(1)[OF clean valid] by (simp add: refs)
  with all show "numeric_gate w b (gathered_evidence w b) = Inr []"
    "entity_gate w b (gathered_evidence w b) = Inr []"
    "statistical_gate w attempts b (gathered_evidence w b) = Inr []"
    "state_gate (gathered_evidence w b) wit = []"
    by simp_all
  show "\<forall>c \<in> set (cb_claims b). claim_resolves w c"
    by (rule resolve_references_clean(2)[OF clean valid])
qed

lemma map_res_Inr_iff:
  "map_res f xs = Inr ys \<longleftrightarrow> length ys = length xs \<and> (\<forall>i < length xs. f (xs ! i) = Inr (ys ! i))"
proof (induction xs arbitrary: ys)
  case (Cons x xs)
  show ?case
  proof (cases ys)
    case (Cons y ys')
    have "map_res f (x # xs) = Inr (y # ys') \<longleftrightarrow> f x = Inr y \<and> map_res f xs = Inr ys'"
      by (auto simp: res_simps)
    then show ?thesis
      using Cons Cons.IH[of ys'] by (auto simp: nth_Cons split: nat.splits)
  qed (auto simp: res_simps)
qed auto

lemma map_res_all_Nil:
  assumes "map_res f xs = Inr yss" "concat yss = []" "x \<in> set xs"
  shows "f x = Inr []"
proof -
  obtain i where i: "i < length xs" "x = xs ! i" using assms(3) by (auto simp: in_set_conv_nth)
  with assms(1) have f: "f x = Inr (yss ! i)" and "i < length yss" by (auto simp: map_res_Inr_iff)
  with assms(2) have "yss ! i = []" by (auto simp: concat_eq_Nil_conv)
  with f show ?thesis by simp
qed

lemma flag_if_Nil [simp]: "flag_if b v = [] \<longleftrightarrow> \<not> b"
  by (simp add: flag_if_def)

text \<open>The state gate reads every receipt, though it reports an id once.\<close>

lemma state_steps:
  assumes "fst (fold (state_step wit) rs (vs, seen)) = []"
    and "\<forall>r \<in> set rs. \<forall>q \<in> set rs. er_receipt_id r = er_receipt_id q \<longrightarrow> r = q"
    and "\<forall>r \<in> set rs. er_receipt_id r \<in> set seen \<longrightarrow> er_data_state_witness r = wit"
  shows "vs = [] \<and> (\<forall>r \<in> set rs. er_data_state_witness r = wit)"
  using assms
proof (induction rs arbitrary: vs seen)
  case (Cons r rs)
  let ?s = "state_step wit r (vs, seen)"
  have unique: "\<forall>r \<in> set rs. \<forall>q \<in> set rs. er_receipt_id r = er_receipt_id q \<longrightarrow> r = q"
    using Cons.prems(2) by simp
  show ?case
  proof (cases "er_receipt_id r \<in> set seen")
    case True
    then have "?s = (vs, seen)" by (simp add: state_step_def)
    then have "vs = [] \<and> (\<forall>r \<in> set rs. er_data_state_witness r = wit)"
      using Cons.prems(1,3) unique by (intro Cons.IH) auto
    with True Cons.prems(3) show ?thesis by simp
  next
    case False
    then have s: "?s = (vs @ flag_if (er_data_state_witness r \<noteq> wit)
        (of_bundle (Violation_Witness_Mismatch (er_receipt_id r))), er_receipt_id r # seen)"
      by (simp add: state_step_def)
    have grow: "fst (fold (state_step wit) qs (us, sn)) = [] \<Longrightarrow> us = []" for qs us sn
    proof (induction qs arbitrary: us sn)
      case (Cons q qs)
      from Cons.prems have "fst (fold (state_step wit) qs (state_step wit q (us, sn))) = []" by simp
      then have "fst (state_step wit q (us, sn)) = []"
        using Cons.IH[of "fst (state_step wit q (us, sn))" "snd (state_step wit q (us, sn))"] by simp
      then show ?case by (auto simp: state_step_def split: if_splits)
    qed simp
    have "vs = [] \<and> er_data_state_witness r = wit"
      using grow[of rs "fst ?s" "snd ?s"] Cons.prems(1) s by simp
    moreover have "\<forall>q \<in> set rs. er_receipt_id q \<in> set (er_receipt_id r # seen) \<longrightarrow>
        er_data_state_witness q = wit"
      using Cons.prems(2,3) calculation by auto
    then have "fst ?s = [] \<and> (\<forall>r \<in> set rs. er_data_state_witness r = wit)"
      using Cons.prems(1) unique s by (intro Cons.IH[of "fst ?s" "snd ?s"]) simp_all
    ultimately show ?thesis by simp
  qed
qed simp

lemma cited_receipts_sound:
  assumes "claim_resolves w c" "i \<in> set (cited_receipts c)"
  shows "sound_receipt w i (the (map_of (gw_committed w) i))"
proof -
  have fact: "\<exists>r. sound_receipt w (ref_receipt ref) r" if "fact_resolves w ref" for ref
    using that by (auto simp: fact_resolves_def ref_receipt_def)
  have derivation: "\<exists>r. sound_receipt w (ref_receipt ref) r" if "derivation_resolves w ref" for ref
    using that by (auto simp: derivation_resolves_def ref_receipt_def)
  have statistics: "\<exists>r. sound_receipt w i r" if "statistics_resolve w i" for i
    using that by (auto simp: statistics_resolve_def)
  consider ref where "ref \<in> set (cl_evidence_fact_ids c)" "i = ref_receipt ref"
    | ref where "ref \<in> set (cl_derivation_ids c)" "i = ref_receipt ref"
    | "i \<in> set (cl_statistics_receipt_ids c)"
    using assms(2) by (auto simp: cited_receipts_def)
  then have "\<exists>r. sound_receipt w i r"
    using assms(1) fact derivation statistics unfolding claim_resolves_def by cases blast+
  then show ?thesis by (auto simp: sound_receipt_def)
qed

lemma gathered_receipts_witnessed:
  assumes resolves: "\<forall>c \<in> set (cb_claims b). claim_resolves w c"
    and state: "state_gate (gathered_evidence w b) wit = []"
    and "c \<in> set (cb_claims b)" "i \<in> set (cited_receipts c)"
  shows "er_data_state_witness (the (map_of (gw_committed w) i)) = wit"
proof -
  let ?rs = "evidence_receipts (gathered_evidence w b)"
  let ?at = "\<lambda>i. the (map_of (gw_committed w) i)"
  have all_rs: "set ?rs = (\<Union>c \<in> set (cb_claims b). ?at ` set (cited_receipts c))"
    by (simp add: evidence_receipts_def gathered_evidence_def comp_def
        receipts_of_values[unfolded set_map])
  have at: "r = ?at (er_receipt_id r)" if "r \<in> set ?rs" for r
    using that resolves cited_receipts_sound unfolding all_rs by (fastforce simp: sound_receipt_def)
  have unique: "\<forall>r \<in> set ?rs. \<forall>q \<in> set ?rs. er_receipt_id r = er_receipt_id q \<longrightarrow> r = q"
    using at by metis
  have "\<forall>r \<in> set ?rs. er_data_state_witness r = wit"
    using state_steps[OF _ unique, of wit "[]" "[]"] state by (simp add: state_gate_def)
  moreover have "?at i \<in> set ?rs" using assms(3,4) all_rs by blast
  ultimately show ?thesis by blast
qed

definition trusted_receipt :: "gate_world \<Rightarrow> string \<Rightarrow> string \<Rightarrow> evidence_receipt \<Rightarrow> bool" where
  "trusted_receipt w wit i r \<longleftrightarrow> map_of (gw_committed w) i = Some r \<and> er_receipt_id r = i \<and>
     verify_receipt_digest (gw_receipt_hash w) r \<and> er_data_state_witness r = wit"

lemma cited_receipt_trusted:
  assumes "run_claim_gates w wit attempts b = Inr rep" "gr_passed rep"
    "c \<in> set (cb_claims b)" "i \<in> set (cited_receipts c)"
  shows "trusted_receipt w wit i (the (map_of (gw_committed w) i))"
proof -
  note passed = passed_reportD[OF assms(1,2)]
  have "sound_receipt w i (the (map_of (gw_committed w) i))"
    using cited_receipts_sound[OF _ assms(4)] passed(2) assms(3) by blast
  moreover have "er_data_state_witness (the (map_of (gw_committed w) i)) = wit"
    by (rule gathered_receipts_witnessed[OF passed(2) passed(6) assms(3,4)])
  ultimately show ?thesis by (simp add: trusted_receipt_def sound_receipt_def)
qed

text \<open>What a cited fact or derivation of a passing claim stands for.\<close>

definition cites_fact ::
  "gate_world \<Rightarrow> string \<Rightarrow> claim \<Rightarrow> string \<Rightarrow> evidence_receipt \<Rightarrow> receipt_fact \<Rightarrow> bool" where
  "cites_fact w wit c ref r f \<longleftrightarrow> ref \<in> set (cl_evidence_fact_ids c) \<and>
     ref = qualified_ref (er_receipt_id r) (rf_fact_id f) \<and>
     trusted_receipt w wit (er_receipt_id r) r \<and> f \<in> set (er_facts r)"

definition cites_derivation ::
  "gate_world \<Rightarrow> string \<Rightarrow> claim \<Rightarrow> string \<Rightarrow> evidence_receipt \<Rightarrow> receipt_derivation \<Rightarrow> bool" where
  "cites_derivation w wit c ref r d \<longleftrightarrow> ref \<in> set (cl_derivation_ids c) \<and>
     ref = qualified_ref (er_receipt_id r) (rd_derived_fact_id d) \<and>
     trusted_receipt w wit (er_receipt_id r) r \<and> d \<in> set (er_derivations r)"

definition cites_statistics ::
  "gate_world \<Rightarrow> string \<Rightarrow> claim \<Rightarrow> evidence_receipt \<Rightarrow> bool" where
  "cites_statistics w wit c r \<longleftrightarrow> er_receipt_id r \<in> set (cl_statistics_receipt_ids c) \<and>
     trusted_receipt w wit (er_receipt_id r) r \<and> er_statistics r \<noteq> None"

lemma cited_fact:
  assumes run: "run_claim_gates w wit attempts b = Inr rep" "gr_passed rep"
    and c: "c \<in> set (cb_claims b)" and ref: "ref \<in> set (cl_evidence_fact_ids c)"
  shows "cites_fact w wit c ref (receipt_at w ref) (fact_at w ref)"
proof -
  have "fact_resolves w ref" using passed_reportD(2)[OF run] c ref by (auto simp: claim_resolves_def)
  then obtain i fid r f where x: "split_evidence_ref ref = Some (i, fid)" "sound_receipt w i r"
    "find (\<lambda>f. rf_fact_id f = fid) (er_facts r) = Some f"
    by (auto simp: fact_resolves_def)
  then have "i \<in> set (cited_receipts c)" using ref by (force simp: cited_receipts_def ref_receipt_def)
  from cited_receipt_trusted[OF run c this] x(2) have "trusted_receipt w wit i r"
    by (simp add: sound_receipt_def)
  moreover have "receipt_at w ref = r" "fact_at w ref = f"
    using x by (simp_all add: receipt_at_def fact_at_def ref_receipt_def sound_receipt_def)
  moreover have "ref = qualified_ref i fid" by (rule split_evidence_refD(1)[OF x(1)])
  moreover have "rf_fact_id f = fid" "f \<in> set (er_facts r)" using find_SomeD[OF x(3)] by auto
  ultimately show ?thesis using x(2) ref by (simp add: cites_fact_def sound_receipt_def)
qed

lemma cited_derivation:
  assumes run: "run_claim_gates w wit attempts b = Inr rep" "gr_passed rep"
    and c: "c \<in> set (cb_claims b)" and ref: "ref \<in> set (cl_derivation_ids c)"
  shows "cites_derivation w wit c ref (receipt_at w ref) (derivation_at w ref)"
proof -
  have "derivation_resolves w ref"
    using passed_reportD(2)[OF run] c ref by (auto simp: claim_resolves_def)
  then obtain i did r d where x: "split_evidence_ref ref = Some (i, did)" "sound_receipt w i r"
    "find (\<lambda>d. rd_derived_fact_id d = did) (er_derivations r) = Some d"
    by (auto simp: derivation_resolves_def)
  then have "i \<in> set (cited_receipts c)" using ref by (force simp: cited_receipts_def ref_receipt_def)
  from cited_receipt_trusted[OF run c this] x(2) have "trusted_receipt w wit i r"
    by (simp add: sound_receipt_def)
  moreover have "receipt_at w ref = r" "derivation_at w ref = d"
    using x by (simp_all add: receipt_at_def derivation_at_def ref_receipt_def sound_receipt_def)
  moreover have "ref = qualified_ref i did" by (rule split_evidence_refD(1)[OF x(1)])
  moreover have "rd_derived_fact_id d = did" "d \<in> set (er_derivations r)"
    using find_SomeD[OF x(3)] by auto
  ultimately show ?thesis using x(2) ref by (simp add: cites_derivation_def sound_receipt_def)
qed

lemma cited_statistics:
  assumes run: "run_claim_gates w wit attempts b = Inr rep" "gr_passed rep"
    and c: "c \<in> set (cb_claims b)" and i: "i \<in> set (cl_statistics_receipt_ids c)"
  shows "cites_statistics w wit c (the (map_of (gw_committed w) i)) \<and>
    er_receipt_id (the (map_of (gw_committed w) i)) = i"
proof -
  have "statistics_resolve w i" using passed_reportD(2)[OF run] c i by (auto simp: claim_resolves_def)
  moreover have "i \<in> set (cited_receipts c)" using i by (simp add: cited_receipts_def)
  note cited_receipt_trusted[OF run c this]
  ultimately show ?thesis
    using i by (auto simp: statistics_resolve_def sound_receipt_def cites_statistics_def trusted_receipt_def)
qed

text \<open>C1. Published claims are grounded: in a bundle that passes the gates every claim cites
  something, and every reference of every claim is the id of a committed receipt whose content
  digest verifies and whose data state is the one of the run, together with a fact, derivation
  or statistics that this receipt really holds. No fabricated or stale reference passes.\<close>

theorem passing_claims_are_grounded:
  assumes "run_claim_gates w wit attempts b = Inr rep" and "gr_passed rep"
    and "c \<in> set (cb_claims b)"
  shows "cl_evidence_fact_ids c @ cl_derivation_ids c \<noteq> [] \<and>
    (\<forall>ref \<in> set (cl_evidence_fact_ids c). \<exists>r f. cites_fact w wit c ref r f) \<and>
    (\<forall>ref \<in> set (cl_derivation_ids c). \<exists>r d. cites_derivation w wit c ref r d) \<and>
    (\<forall>i \<in> set (cl_statistics_receipt_ids c).
       \<exists>r. cites_statistics w wit c r \<and> er_receipt_id r = i)"
  using passed_reportD(1)[OF assms(1,2)] assms(3) cited_fact[OF assms] cited_derivation[OF assms]
    cited_statistics[OF assms]
  by (auto simp: bundle_valid_iff claim_well_formed_iff; blast)

section \<open>Numbers\<close>

lemma derivation_pools_clean:
  assumes "derivation_pools cid pairs pools = Inr ([], final)"
  shows "(vp \<in> set (fst final) \<longrightarrow> vp \<in> set (fst pools) \<or> (\<exists>r d v. (r, d) \<in> set pairs \<and>
      recompute_derivation d (receipt_facts_by_id r) = Inr (v, False) \<and> vp = (v, Rounded))) \<and>
    (vp \<in> set (snd final) \<longrightarrow> vp \<in> set (snd pools) \<or> (\<exists>r d v. (r, d) \<in> set pairs \<and>
      recompute_derivation d (receipt_facts_by_id r) = Inr (v, True) \<and> vp = (v, Rounded)))"
  using assms
proof (induction cid pairs pools rule: derivation_pools.induct)
  case (2 cid r d rest pools)
  show ?case
  proof (cases "recompute_derivation d (receipt_facts_by_id r)")
    case (Inl e)
    with "2.prems" show ?thesis by (cases e) (auto simp: res_simps)
  next
    case (Inr vb)
    obtain v p where vb: "vb = (v, p)" by (cases vb)
    show ?thesis
    proof (cases p)
      case True
      with Inr vb "2.prems"
      have rest: "derivation_pools cid rest (fst pools, snd pools @ [(v, Rounded)]) = Inr ([], final)"
        by simp
      from True have pT: "p = True" by simp
      from Inr vb True have now: "recompute_derivation d (receipt_facts_by_id r) = Inr (v, True)"
        by simp
      from "2.IH"(2)[OF Inr vb[symmetric] pT rest] now show ?thesis by auto
    next
      case False
      with Inr vb "2.prems"
      have rest: "derivation_pools cid rest (fst pools @ [(v, Rounded)], snd pools) = Inr ([], final)"
        by simp
      from Inr vb False have now: "recompute_derivation d (receipt_facts_by_id r) = Inr (v, False)"
        by simp
      have "p = False" using False by simp
      from "2.IH"(3)[OF Inr vb[symmetric] this rest] now show ?thesis by auto
    qed
  qed
qed simp

lemma derivation_pool_origin:
  assumes "derivation_pools cid pairs pools = Inr ([], final)"
    "vp \<in> set (if pct then snd final else fst final)"
  shows "vp \<in> set (if pct then snd pools else fst pools) \<or> (\<exists>r d v. (r, d) \<in> set pairs \<and>
    recompute_derivation d (receipt_facts_by_id r) = Inr (v, pct) \<and> vp = (v, Rounded))"
  using derivation_pools_clean[OF assms(1), of vp] assms(2) by (cases pct) auto

lemma numeric_claim_clean:
  assumes run: "run_claim_gates w wit attempts b = Inr rep" "gr_passed rep"
    and c: "c \<in> set (cb_claims b)"
  shows "numeric_claim w c (gathered w c) = Inr []"
proof -
  note passed = passed_reportD[OF run]
  obtain vss where vss: "map_res (\<lambda>c. numeric_claim w c (evidence_of (gathered_evidence w b) c))
      (cb_claims b) = Inr vss" "concat vss = []"
    using passed(3) by (auto simp: numeric_gate_def res_simps)
  have "evidence_of (gathered_evidence w b) c = gathered w c"
    using passed(1) c by (intro evidence_of_gathered) (auto simp: bundle_valid_iff)
  with map_res_all_Nil[OF vss c] show ?thesis by simp
qed

lemma map_res_members: "map_res f xs = Inr ys \<Longrightarrow> y \<in> set ys \<Longrightarrow> \<exists>x \<in> set xs. f x = Inr y"
  by (induction xs arbitrary: ys) (auto simp: res_simps)

lemma fact_pools_members:
  assumes "fact_pools pairs = Inr pools" "(v, pol) \<in> set (if pct then snd pools else fst pools)"
  shows "\<exists>r f. (r, f) \<in> set pairs \<and> fact_is_numeric f \<and>
        (rf_value_type f = Value_Percent \<longleftrightarrow> pct) \<and> float_of (rf_value f) = Inr v \<and>
        pol = fact_policy f"
proof -
  obtain raw percent where pools: "pools = (raw, percent)"
    "map_res fact_entry (filter (\<lambda>f. rf_value_type f \<noteq> Value_Percent)
       (filter fact_is_numeric (map snd pairs))) = Inr raw"
    "map_res fact_entry (filter (\<lambda>f. rf_value_type f = Value_Percent)
       (filter fact_is_numeric (map snd pairs))) = Inr percent"
    using assms(1) by (auto simp: fact_pools_def Let_def res_simps)
  obtain f where f: "f \<in> set (filter fact_is_numeric (map snd pairs))"
    "rf_value_type f = Value_Percent \<longleftrightarrow> pct" "fact_entry f = Inr (v, pol)"
    using assms(2) map_res_members[OF pools(2)] map_res_members[OF pools(3)] unfolding pools(1)
    by (cases pct) fastforce+
  then show ?thesis by (force simp: fact_entry_def res_simps)
qed

text \<open>How a number of a text may be supported.\<close>

definition fact_supports :: "gate_world \<Rightarrow> string \<Rightarrow> claim \<Rightarrow> numeric_token \<Rightarrow> bool" where
  "fact_supports w wit c t \<longleftrightarrow> (\<exists>ref r f. cites_fact w wit c ref r f \<and> fact_is_numeric f \<and>
     (rf_value_type f = Value_Percent \<longleftrightarrow> nt_is_percent t) \<and>
     (\<exists>v. float_of (rf_value f) = Inr v \<and> value_supports_token t (v, fact_policy f)))"

definition derivation_supports :: "gate_world \<Rightarrow> string \<Rightarrow> claim \<Rightarrow> numeric_token \<Rightarrow> bool" where
  "derivation_supports w wit c t \<longleftrightarrow> (\<exists>ref r d v. cites_derivation w wit c ref r d \<and>
     recompute_derivation d (receipt_facts_by_id r) = Inr (v, nt_is_percent t) \<and>
     value_supports_token t (v, Rounded))"

definition threshold_supports :: "gate_world \<Rightarrow> string \<Rightarrow> claim \<Rightarrow> numeric_token \<Rightarrow> bool" where
  "threshold_supports w wit c t \<longleftrightarrow> nt_threshold_op t \<noteq> None \<and> \<not> nt_is_percent t \<and>
     (\<exists>subj r v. nt_threshold_subject t = Some subj \<and> cites_statistics w wit c r \<and>
        subject_value subj (statistics_of r) = Some v \<and> satisfies_threshold t [v])"

lemma eligible_valuesD:
  "v \<in> set (eligible_values rs subj) \<Longrightarrow> \<exists>r \<in> set rs. er_statistics r \<noteq> None \<and>
     subject_value subj (statistics_of r) = Some v"
  by (induction rs)
    (auto simp: eligible_values_def List.map_filter_simps statistics_of_def
      split: option.splits bind_splits)

text \<open>C4. In a bundle that passes, every number a claim's text states is one the evidence holds:
  a cited fact of the same kind (a percentage never stands for a plain number) equal to it, or
  within half a unit of its last digit, a cited derivation recomputed from the facts, or, for an
  inequality that names a statistic, exactly that statistic of a cited receipt.\<close>

theorem published_numbers_are_supported:
  assumes "run_claim_gates w wit attempts b = Inr rep" and "gr_passed rep"
    and "c \<in> set (cb_claims b)" and "t \<in> set (gw_tokens w (cl_claim_text c))"
  shows "fact_supports w wit c t \<or> derivation_supports w wit c t \<or> threshold_supports w wit c t"
proof -
  obtain vs facts pools where facts:
      "fact_pools (map (\<lambda>ref. (receipt_at w ref, fact_at w ref)) (cl_evidence_fact_ids c)) = Inr facts"
    and pools: "derivation_pools (cl_claim_id c)
      (map (\<lambda>ref. (receipt_at w ref, derivation_at w ref)) (cl_derivation_ids c)) facts =
      Inr (vs, pools)"
    and clean: "vs = []"
    and token: "token_verified (map (\<lambda>i. the (map_of (gw_committed w) i))
      (cl_statistics_receipt_ids c)) pools t"
    using numeric_claim_clean[OF assms(1,2,3)] assms(4)
    by (auto simp: numeric_claim_def res_simps Let_def filter_empty_conv split: if_splits)
  have supported: ?thesis
    if "vp \<in> set (if nt_is_percent t then snd pools else fst pools)" "value_supports_token t vp" for vp
  proof -
    obtain v pol where vp: "vp = (v, pol)" by (cases vp)
    note origin = derivation_pool_origin[OF pools[unfolded clean] that(1)]
    consider "vp \<in> set (if nt_is_percent t then snd facts else fst facts)"
      | ref u where "ref \<in> set (cl_derivation_ids c)" "vp = (u, Rounded)"
          "recompute_derivation (derivation_at w ref) (receipt_facts_by_id (receipt_at w ref)) =
             Inr (u, nt_is_percent t)"
      using origin by auto
    then show ?thesis
    proof cases
      case 1
      then obtain ref where "ref \<in> set (cl_evidence_fact_ids c)"
        "fact_is_numeric (fact_at w ref)"
        "rf_value_type (fact_at w ref) = Value_Percent \<longleftrightarrow> nt_is_percent t"
        "float_of (rf_value (fact_at w ref)) = Inr v" "pol = fact_policy (fact_at w ref)"
        using fact_pools_members[OF facts] unfolding vp by fastforce
      then have "fact_supports w wit c t"
        using that(2) cited_fact[OF assms(1,2,3)] vp unfolding fact_supports_def by blast
      then show ?thesis by blast
    next
      case 2
      then have "derivation_supports w wit c t"
        using that(2) cited_derivation[OF assms(1,2,3)] unfolding derivation_supports_def by blast
      then show ?thesis by blast
    qed
  qed
  show ?thesis
  proof (cases "nt_threshold_op t \<noteq> None \<and> \<not> nt_is_percent t \<and>
      (case nt_threshold_subject t of None \<Rightarrow> [] | Some subj \<Rightarrow> eligible_values
        (map (\<lambda>i. the (map_of (gw_committed w) i)) (cl_statistics_receipt_ids c)) subj) \<noteq> []")
    case True
    then obtain subj where subj: "nt_threshold_subject t = Some subj" by (auto split: option.splits)
    obtain v where v: "v \<in> set (eligible_values
        (map (\<lambda>i. the (map_of (gw_committed w) i)) (cl_statistics_receipt_ids c)) subj)"
      "satisfies_threshold t [v]"
      using token True subj by (auto simp: token_verified_def Let_def satisfies_threshold_def list_ex_iff)
    from eligible_valuesD[OF v(1)] obtain i where "i \<in> set (cl_statistics_receipt_ids c)"
      "subject_value subj (statistics_of (the (map_of (gw_committed w) i))) = Some v" by auto
    then have "threshold_supports w wit c t"
      using cited_statistics[OF assms(1,2,3)] True subj v(2) unfolding threshold_supports_def by blast
    then show ?thesis by blast
  next
    case False
    then have "list_ex (value_supports_token t) (if nt_is_percent t then snd pools else fst pools)"
      using token by (auto simp: token_verified_def Let_def split: if_splits)
    then show ?thesis using supported by (auto simp: list_ex_iff)
  qed
qed

section \<open>Absences and licences\<close>

lemma entity_claim_clean:
  assumes run: "run_claim_gates w wit attempts b = Inr rep" "gr_passed rep"
    and c: "c \<in> set (cb_claims b)"
  shows "entity_claim w c (gathered w c) = Inr []"
proof -
  note passed = passed_reportD[OF run]
  have "evidence_of (gathered_evidence w b) c = gathered w c"
    using passed(1) c by (intro evidence_of_gathered) (auto simp: bundle_valid_iff)
  moreover obtain vss where vss: "map_res (\<lambda>c. entity_claim w c (evidence_of (gathered_evidence w b) c))
      (cb_claims b) = Inr vss" "concat vss = []"
    using passed(4) by (auto simp: entity_gate_def res_simps)
  ultimately show ?thesis using map_res_all_Nil[OF vss c] by simp
qed

text \<open>The receipts a passing claim cites are exactly the values gathered for it.\<close>

lemma gathered_values_trusted:
  assumes run: "run_claim_gates w wit attempts b = Inr rep" "gr_passed rep"
    and c: "c \<in> set (cb_claims b)" and r: "r \<in> set (dict_values (ce_receipts (gathered w c)))"
  shows "er_receipt_id r \<in> set (cited_receipts c) \<and> trusted_receipt w wit (er_receipt_id r) r"
proof -
  from r obtain i where i: "i \<in> set (cited_receipts c)" "r = the (map_of (gw_committed w) i)"
    by (auto simp: receipts_of_values[unfolded set_map])
  from cited_receipt_trusted[OF run c i(1)] i show ?thesis by (auto simp: trusted_receipt_def)
qed

text \<open>A receipt that scanned a pair of dataset and column without finding a row, under no
  restriction or under the one the claim declares.\<close>

definition empty_scan ::
  "gate_world \<Rightarrow> string \<Rightarrow> claim \<Rightarrow> claim_scope \<Rightarrow> string \<times> string option \<Rightarrow> evidence_receipt \<Rightarrow> bool" where
  "empty_scan w wit c sc p r \<longleftrightarrow>
     er_receipt_id r \<in> ref_receipt ` set (cl_evidence_fact_ids c) \<and>
     trusted_receipt w wit (er_receipt_id r) r \<and> er_result_count r = 0 \<and>
     narrowing_covers sc (er_scope r) \<and> scans_pair p r"

lemma sort_Nil_iff [simp]: "sort xs = [] \<longleftrightarrow> xs = []"
  by (metis length_0_conv length_sort)

text \<open>An absence claim that passes declares the scope it checked, no receipt it cites facts
  from returned a row, and every pair of dataset and column of the declared scope was scanned
  by one cited receipt with an empty result whose filters and time range are those of the claim
  or none at all: two partial scans never add up to a pair that neither of them touched.\<close>

theorem absence_claims_are_scanned:
  assumes "run_claim_gates w wit attempts b = Inr rep" and "gr_passed rep"
    and "c \<in> set (cb_claims b)" and "cl_claim_type c = Absence_Claim"
  shows "\<exists>sc. cl_scope c = Some sc \<and> cs_dataset_ids sc \<noteq> [] \<and>
    (\<forall>p \<in> set (required_scope_pairs sc). \<exists>r. empty_scan w wit c sc p r) \<and>
    (\<forall>ref \<in> set (cl_evidence_fact_ids c). \<forall>r. trusted_receipt w wit (ref_receipt ref) r \<longrightarrow>
       er_result_count r \<le> 0)"
proof -
  let ?rs = "dict_values (receipts_of w (map ref_receipt (cl_evidence_fact_ids c)))"
  let ?coverage = "filter (\<lambda>r. er_result_count r = 0) ?rs"
  have "absence_gate c (gathered w c) = []"
    using entity_claim_clean[OF assms(1,2,3)] assms(4) by (auto simp: entity_claim_def res_simps)
  note clean = this[unfolded absence_gate_def Let_def gathered_fields(4)]
  from clean have covered: "?coverage \<noteq> []" by (auto split: if_splits)
  with clean obtain sc where sc: "cl_scope c = Some sc" "cs_dataset_ids sc \<noteq> []"
    by (auto split: option.splits if_splits)
  from clean covered sc have none: "filter (\<lambda>r. 0 < er_result_count r) ?rs = []"
    and scanned: "filter (\<lambda>p. \<not> list_ex (scans_pair p)
        (filter (\<lambda>r. narrowing_covers sc (er_scope r)) ?coverage)) (required_scope_pairs sc) = []"
    by (simp_all add: sc)
  have trusted: "trusted_receipt w wit (er_receipt_id r) r \<and>
      er_receipt_id r \<in> ref_receipt ` set (cl_evidence_fact_ids c)" if r: "r \<in> set ?rs" for r
  proof -
    from r obtain ref where ref: "ref \<in> set (cl_evidence_fact_ids c)"
      "r = the (map_of (gw_committed w) (ref_receipt ref))"
      by (auto simp: receipts_of_values[unfolded set_map])
    then have "ref_receipt ref \<in> set (cited_receipts c)" by (simp add: cited_receipts_def)
    from cited_receipt_trusted[OF assms(1,2,3) this] ref show ?thesis
      by (auto simp: trusted_receipt_def)
  qed
  have "\<exists>r. empty_scan w wit c sc p r" if p: "p \<in> set (required_scope_pairs sc)" for p
  proof -
    from scanned p have "list_ex (scans_pair p)
        (filter (\<lambda>r. narrowing_covers sc (er_scope r)) ?coverage)"
      unfolding filter_empty_conv by blast
    then obtain r where "r \<in> set ?rs" "er_result_count r = 0"
      "narrowing_covers sc (er_scope r)" "scans_pair p r"
      unfolding list_ex_iff set_filter by blast
    with trusted show ?thesis unfolding empty_scan_def by blast
  qed
  moreover have "er_result_count r \<le> 0"
    if ref: "ref \<in> set (cl_evidence_fact_ids c)" and r: "trusted_receipt w wit (ref_receipt ref) r"
    for ref r
  proof -
    have "r = the (map_of (gw_committed w) (ref_receipt ref))" using r by (simp add: trusted_receipt_def)
    then have "r \<in> set ?rs" using ref by (simp add: receipts_of_values[unfolded set_map])
    with none have "\<not> 0 < er_result_count r" unfolding filter_empty_conv by blast
    then show ?thesis by simp
  qed
  ultimately show ?thesis using sc by blast
qed

text \<open>C31. Causal wording is a licence: when a claim that passes is causal, or its text asserts
  causation after the safe disclaimers are stripped, the claim itself cites a trusted receipt of
  a randomized experiment whose design credential is the one of its own dataset and treatment
  column. A model or prediction claim cites model evidence in the same way.\<close>

theorem causal_and_model_claims_are_licensed:
  assumes "run_claim_gates w wit attempts b = Inr rep" and "gr_passed rep"
    and "c \<in> set (cb_claims b)"
  shows "(cl_claim_type c = Causal \<or> implies_causation (cl_claim_text c) \<longrightarrow>
      (\<exists>r. er_receipt_id r \<in> set (cited_receipts c) \<and>
        trusted_receipt w wit (er_receipt_id r) r \<and> licenses_causal_wording w r)) \<and>
    (cl_claim_type c \<in> {Model_Claim, Prediction} \<or> asserts_model_capability (cl_claim_text c) \<longrightarrow>
      (\<exists>r. er_receipt_id r \<in> set (cited_receipts c) \<and>
        trusted_receipt w wit (er_receipt_id r) r \<and> model_evidence r))"
proof -
  have "causal_violations w c (gathered w c) = []" "model_violations w c (gathered w c) = Inr []"
    using entity_claim_clean[OF assms] by (auto simp: entity_claim_def res_simps)
  then have causal: "cl_claim_type c = Causal \<or> implies_causation (cl_claim_text c) \<Longrightarrow>
      list_ex (licenses_causal_wording w) (dict_values (ce_receipts (gathered w c)))"
    and model: "cl_claim_type c \<in> {Model_Claim, Prediction} \<or>
      asserts_model_capability (cl_claim_text c) \<Longrightarrow>
      list_ex model_evidence (dict_values (ce_receipts (gathered w c)))"
    unfolding causal_violations_def model_violations_def Let_def
    by (auto simp only: flag_if_Nil sum.inject sum.distinct list.distinct split: if_splits)
  note trusted = gathered_values_trusted[OF assms]
  have "\<exists>r. er_receipt_id r \<in> set (cited_receipts c) \<and>
      trusted_receipt w wit (er_receipt_id r) r \<and> P r"
    if "list_ex P (dict_values (ce_receipts (gathered w c)))" for P
    using that trusted unfolding list_ex_iff by blast
  with causal model show ?thesis by blast
qed

section \<open>Confirmatory statistics\<close>

text \<open>What a confirmatory claim needs of the statistics it cites.\<close>

definition complete_statistics :: "(string, int) dict option \<Rightarrow> receipt_statistics \<Rightarrow> bool" where
  "complete_statistics attempts st \<longleftrightarrow>
     st_p_value st \<noteq> None \<and> st_effect_size st \<noteq> None \<and> st_ci_low st \<noteq> None \<and>
     st_ci_high st \<noteq> None \<and> st_sample_size st \<noteq> None \<and> st_sequence_index st \<noteq> None \<and>
     st_test_name st \<in> set confirmatory_ready_tests \<and> truthy (stat_family st) \<and>
     (\<exists>d n. attempts = Some d \<and> map_of d (the (stat_family st)) = Some n \<and> 1 \<le> n)"

definition honest_adjustment :: "receipt_statistics \<Rightarrow> bool" where
  "honest_adjustment st \<longleftrightarrow> (\<forall>p q. st_p_value st = Some p \<and> st_adjusted_p_value st = Some q \<longrightarrow>
     (\<exists>e. self_consistent_p p (one_if_falsy (st_sequence_index st)) = Inr e \<and>
       \<not> real_less q (real_mul e multiplicity_slack)))"

lemma statistical_receipt_clean:
  assumes "statistical_receipt True attempts finals cid r = Inr []"
    and positive: "\<forall>d fam n. attempts = Some d \<and> map_of d fam = Some n \<longrightarrow> 1 \<le> n"
  shows "complete_statistics attempts (statistics_of r) \<and> honest_adjustment (statistics_of r)"
proof -
  let ?st = "statistics_of r"
  note clean = assms(1)[unfolded statistical_receipt_def Let_def bind_res_Inr_iff]
  from clean have p: "st_p_value ?st \<noteq> None" by auto
  with clean have parts: "st_effect_size ?st \<noteq> None" "st_ci_low ?st \<noteq> None"
    "st_ci_high ?st \<noteq> None" "st_sample_size ?st \<noteq> None" "st_sequence_index ?st \<noteq> None"
    by auto
  from p obtain pv where pv: "st_p_value ?st = Some pv" by auto
  from clean pv have fam: "truthy (stat_family ?st)" by (auto split: if_splits)
  from clean pv fam obtain n where n: "Option.bind attempts (\<lambda>d. map_of d (the (stat_family ?st))) = Some n"
    by (auto split: option.splits)
  from clean pv fam n obtain e where e: "self_consistent_p pv (one_if_falsy (st_sequence_index ?st)) = Inr e"
    and ready: "st_test_name ?st \<in> set confirmatory_ready_tests"
    and adjusted: "\<And>q. st_adjusted_p_value ?st = Some q \<Longrightarrow> \<not> real_less q (real_mul e multiplicity_slack)"
  proof -
    have "\<exists>e. self_consistent_p pv (one_if_falsy (st_sequence_index ?st)) = Inr e \<and>
        st_test_name ?st \<in> set confirmatory_ready_tests \<and>
        (\<forall>q. st_adjusted_p_value ?st = Some q \<longrightarrow> \<not> real_less q (real_mul e multiplicity_slack))"
      using clean pv fam n by (cases "st_adjusted_p_value ?st") (auto simp: res_simps)
    with that show thesis by blast
  qed
  from n positive have "\<exists>d n. attempts = Some d \<and> map_of d (the (stat_family ?st)) = Some n \<and> 1 \<le> n"
    by (auto split: bind_splits)
  with pv parts fam ready adjusted e show ?thesis
    unfolding complete_statistics_def honest_adjustment_def by simp
qed

lemma statistical_claim_clean:
  assumes run: "run_claim_gates w wit attempts b = Inr rep" "gr_passed rep"
    and c: "c \<in> set (cb_claims b)" and lane: "cb_evidence_lane b = Confirmatory"
  obtains finals where "statistical_claim True attempts finals c (gathered w c) = Inr []"
    "\<forall>d fam n. attempts = Some d \<and> map_of d fam = Some n \<longrightarrow> 1 \<le> n"
proof -
  note passed = passed_reportD[OF run]
  have evidence: "evidence_of (gathered_evidence w b) c = gathered w c"
    using passed(1) c by (intro evidence_of_gathered) (auto simp: bundle_valid_iff)
  from passed(5) obtain finals where finals: "final_stat_family_counts w attempts = Inr finals"
    and "\<exists>vss. map_res (\<lambda>c. statistical_claim True attempts finals c
      (evidence_of (gathered_evidence w b) c)) (cb_claims b) = Inr vss \<and> concat vss = []"
    using lane by (auto simp: statistical_gate_def res_simps)
  then have one: "statistical_claim True attempts finals c (gathered w c) = Inr []"
    using map_res_all_Nil[OF _ _ c] evidence by fastforce
  have "\<forall>d fam n. attempts = Some d \<and> map_of d fam = Some n \<longrightarrow> 1 \<le> n"
    using finals by (fastforce simp: final_stat_family_counts_def Let_def res_simps dest: map_of_SomeD)
  with one show ?thesis using that by blast
qed

text \<open>In the confirmatory lane a claim that passes cites statistics, and all it cites are
  complete: a p-value with effect size, confidence interval and sample size, the registry's
  sequence number, a test of the confirmatory list, a family the registry counts; and an
  adjusted p-value is never more significant than the attempt number of its own receipt
  justifies.\<close>

theorem confirmatory_claims_are_complete:
  assumes "run_claim_gates w wit attempts b = Inr rep" and "gr_passed rep"
    and "c \<in> set (cb_claims b)" and "cb_evidence_lane b = Confirmatory"
  shows "(\<exists>r. cites_statistics w wit c r) \<and>
    (\<forall>r. cites_statistics w wit c r \<longrightarrow>
      complete_statistics attempts (statistics_of r) \<and> honest_adjustment (statistics_of r))"
proof -
  obtain finals where clean: "statistical_claim True attempts finals c (gathered w c) = Inr []"
    and positive: "\<forall>d fam n. attempts = Some d \<and> map_of d fam = Some n \<longrightarrow> 1 \<le> n"
    by (rule statistical_claim_clean[OF assms])
  from clean have "cl_statistics_receipt_ids c \<noteq> []" by (auto simp: statistical_claim_def res_simps)
  then obtain i where "i \<in> set (cl_statistics_receipt_ids c)" by (cases "cl_statistics_receipt_ids c") auto
  with cited_statistics[OF assms(1,2,3)] have "\<exists>r. cites_statistics w wit c r" by blast
  moreover have "complete_statistics attempts (statistics_of r) \<and> honest_adjustment (statistics_of r)"
    if r: "cites_statistics w wit c r" for r
  proof (rule statistical_receipt_clean[OF _ positive])
    have "er_receipt_id r \<in> set (cl_statistics_receipt_ids c)"
      "the (map_of (gw_committed w) (er_receipt_id r)) = r"
      using r by (simp_all add: cites_statistics_def trusted_receipt_def)
    then have "r \<in> set (ce_stats_receipts (gathered w c))" by (auto intro: rev_image_eqI)
    moreover obtain vss where "map_res (statistical_receipt True attempts finals (cl_claim_id c))
        (ce_stats_receipts (gathered w c)) = Inr vss" "concat vss = []"
      using clean by (auto simp: statistical_claim_def res_simps)
    from map_res_all_Nil[OF this] calculation
    show "statistical_receipt True attempts finals (cl_claim_id c) r = Inr []" .
  qed
  ultimately show ?thesis by blast
qed

section \<open>The gates always answer\<close>

lemma map_of_facts_rev:
  assumes "distinct (map rf_fact_id (er_facts r))"
  shows "map_of (receipt_facts_by_id r) = map_of (facts_by_id (er_facts r))"
proof -
  have "map_of (rev xs) = map_of xs" if "distinct (map fst xs)" for xs :: "(string \<times> receipt_fact) list"
    by (rule map_of_inject_set[THEN iffD2]) (use that in \<open>simp_all add: rev_map[symmetric]\<close>)
  from this[of "facts_by_id (er_facts r)"] assms show ?thesis
    by (simp add: receipt_facts_by_id_def facts_by_id_def rev_map comp_def)
qed

text \<open>The conversion of an integer: exact up to \<open>2 ^ 53\<close>, never zero but for zero, and overflow is
  its only fault.\<close>

lemma bit_count_lower: "n \<noteq> 0 \<Longrightarrow> 2 ^ (bit_count n - 1) \<le> n"
proof (induction n rule: bit_count.induct)
  case (1 n)
  show ?case
  proof (cases "n div 2 = 0")
    case True
    then have "n = 1" using 1(2) by linarith
    then show ?thesis by (simp add: bit_count.simps)
  next
    case False
    then have "2 ^ (bit_count (n div 2) - 1) \<le> n div 2" by (rule 1(1)[OF 1(2)])
    moreover have "bit_count (n div 2) \<noteq> 0" using False by (simp add: bit_count.simps)
    moreover have "bit_count n = Suc (bit_count (n div 2))" using 1(2) by (simp add: bit_count.simps)
    ultimately show ?thesis by (cases "bit_count (n div 2)") simp_all
  qed
qed

lemma bit_count_upper: "n < 2 ^ k \<Longrightarrow> bit_count n \<le> k"
proof (induction k arbitrary: n)
  case (Suc k)
  then have "n div 2 < 2 ^ k" by (simp add: less_mult_imp_div_less mult.commute)
  with Suc.IH[OF this] show ?case by (simp add: bit_count.simps[of n])
qed (simp add: bit_count.simps)

lemma round_half_even_int [simp]: "round_half_even (of_int n) = n"
  by (simp add: round_half_even_def)

lemma round_half_even_zero: "round_half_even q = 0 \<Longrightarrow> \<bar>q\<bar> \<le> 1"
proof -
  assume "round_half_even q = 0"
  then have "\<lfloor>q\<rfloor> = 0 \<or> \<lfloor>q\<rfloor> = -1" by (auto simp: round_half_even_def Let_def split: if_splits)
  then show ?thesis by (auto simp: floor_eq_iff)
qed

lemma float_of_int_small: "\<bar>n\<bar> < 2 ^ 53 \<Longrightarrow> float_of_int n = Inr (Finite (of_int n))"
proof -
  assume "\<bar>n\<bar> < 2 ^ 53"
  then have "nat \<bar>n\<bar> < 2 ^ 53" by (simp add: nat_less_iff)
  then have bits: "bit_count (nat \<bar>n\<bar>) \<le> 53" by (rule bit_count_upper)
  then have "bit_count (nat \<bar>n\<bar>) - 53 = 0" by simp
  then show ?thesis using bits by (simp add: float_of_int_def Let_def)
qed

lemma float_of_int_zero:
  assumes "float_of_int n = Inr x"
  shows "real_eq x (Finite 0) \<longleftrightarrow> n = 0"
proof -
  let ?e = "bit_count (nat \<bar>n\<bar>) - 53"
  have x: "x = Finite (of_int (round_half_even (of_int n / 2 ^ ?e) * 2 ^ ?e))"
    using assms by (auto simp: float_of_int_def Let_def split: if_splits)
  have zero: "n = 0" if "round_half_even (of_int n / 2 ^ ?e) = 0"
  proof (rule ccontr)
    assume n: "n \<noteq> 0"
    show False
    proof (cases "?e = 0")
      case True
      then show False using that n by simp
    next
      case False
      then have bits: "bit_count (nat \<bar>n\<bar>) - 1 = ?e + 52" by simp
      have "nat \<bar>n\<bar> \<noteq> 0" using n by simp
      from bit_count_lower[OF this, unfolded bits] have "2 ^ (?e + 52) \<le> nat \<bar>n\<bar>" .
      moreover have "(2 :: nat) ^ (?e + 1) \<le> 2 ^ (?e + 52)" by (rule power_increasing) simp_all
      ultimately have "2 ^ (?e + 1) \<le> nat \<bar>n\<bar>" by (rule order_trans[rotated])
      then have "int (2 ^ (?e + 1)) \<le> \<bar>n\<bar>" by linarith
      then have "(of_int (int (2 ^ (?e + 1))) :: rat) \<le> of_int \<bar>n\<bar>" by (simp only: of_int_le_iff)
      then have "2 * (2 :: rat) ^ ?e \<le> \<bar>of_int n\<bar>" by simp
      then have "2 \<le> \<bar>of_int n / 2 ^ ?e :: rat\<bar>" by (simp add: abs_divide le_divide_eq)
      with round_half_even_zero[OF that] show False by linarith
    qed
  qed
  have "round_half_even (of_int n / 2 ^ ?e) = 0 \<longleftrightarrow> n = 0"
  proof
    assume "n = 0"
    then show "round_half_even (of_int n / 2 ^ ?e) = 0" by (simp add: round_half_even_def)
  qed (rule zero)
  then show ?thesis unfolding x by simp
qed

lemma float_of_int_fault: "float_of_int n = Inl e \<Longrightarrow> e = Float_Overflow"
  by (auto simp: float_of_int_def Let_def split: if_splits)

lemma float_of_fault: "float_of v = Inl e \<Longrightarrow> e = Float_Overflow"
  by (cases v) (auto dest: float_of_int_fault)

text \<open>A receipt that holds a number too large for a float, where the gates convert one.\<close>

definition holds_huge_number :: "evidence_receipt \<Rightarrow> bool" where
  "holds_huge_number r \<longleftrightarrow> (\<exists>f \<in> set (er_facts r). float_of (rf_value f) = Inl Float_Overflow) \<or>
     (\<exists>st k. er_statistics r = Some st \<and> st_sequence_index st = Some k \<and>
        float_of_int k = Inl Float_Overflow)"

lemma collect_values_cases:
  assumes "\<forall>ref \<in> set refs. \<exists>f. map_of facts ref = Some f \<and> is_number (rf_value f)"
  shows "(\<exists>vs. collect_values i facts refs = Inr vs \<and>
      list_all2 (\<lambda>ref v. float_of (rf_value (the (map_of facts ref))) = Inr v) refs vs) \<or>
    (collect_values i facts refs = Inl Float_Overflow \<and>
      (\<exists>ref \<in> set refs. float_of (rf_value (the (map_of facts ref))) = Inl Float_Overflow))"
  using assms
proof (induction refs)
  case (Cons ref refs)
  obtain f where f: "map_of facts ref = Some f" "is_number (rf_value f)" using Cons.prems by auto
  show ?case
  proof (cases "float_of (rf_value f)")
    case (Inl e)
    then show ?thesis using f float_of_fault[OF Inl] by simp
  next
    case (Inr x)
    with f Cons show ?thesis by (cases "collect_values i facts refs") auto
  qed
qed simp

lemma value_weight_pairs_total: "even (length xs) \<Longrightarrow> \<exists>ps. value_weight_pairs xs = Some ps"
  by (induction xs rule: value_weight_pairs.induct) auto

lemma real_eq_zero: "is_number v \<Longrightarrow> float_of v = Inr x \<Longrightarrow> real_eq x (Finite 0) \<longleftrightarrow> is_zero v"
proof (cases v)
  case (PyFloat y)
  then show "float_of v = Inr x \<Longrightarrow> ?thesis" by (cases y) auto
qed (simp_all add: float_of_int_zero)

text \<open>The derivations of a parsed receipt recompute: an operator of two inputs never fails (no
  missing or non-numeric input, no division by zero, no wrong arity) but on an integer too large
  for a float; the one failure left is a weighted average whose weights sum to zero, which the
  schema does not exclude.\<close>

theorem parsed_derivations_recompute:
  assumes "parse_receipt r = Inr r" and "d \<in> set (er_derivations r)"
  shows "(\<exists>v. recompute_derivation d (receipt_facts_by_id r) = Inr v) \<or>
    rd_operator d = Op_Weighted_Average \<and> recompute_derivation d (receipt_facts_by_id r) =
      Inl (Recompute_Fault (rd_derived_fact_id d) Weights_Sum_To_Zero) \<or>
    recompute_derivation d (receipt_facts_by_id r) = Inl Float_Overflow \<and> holds_huge_number r"
proof -
  let ?facts = "receipt_facts_by_id r" and ?ids = "rd_input_fact_ids d"
  have valid: "receipt_check r = Inr ()" using assms(1) by (simp add: parse_receiptD)
  note same = map_of_facts_rev[OF receipt_checkD(1)[OF valid]]
  note rules = derivation_rules[OF receipt_checkD(2)[OF valid] assms(2)]
  note semantics = check_derivation_semanticsD[OF rules(1,2)]
  have numeric: "\<exists>f. map_of ?facts ref = Some f \<and> is_number (rf_value f)" if "ref \<in> set ?ids" for ref
    using rules(2) semantics(3) that same by fastforce
  then consider (all) inputs where "collect_values (rd_derived_fact_id d) ?facts ?ids = Inr inputs"
      "list_all2 (\<lambda>ref v. float_of (rf_value (the (map_of ?facts ref))) = Inr v) ?ids inputs"
    | (huge) ref where "collect_values (rd_derived_fact_id d) ?facts ?ids = Inl Float_Overflow"
      "ref \<in> set ?ids" "float_of (rf_value (the (map_of ?facts ref))) = Inl Float_Overflow"
    using collect_values_cases[of ?ids ?facts "rd_derived_fact_id d"] by blast
  then show ?thesis
  proof cases
    case huge
    obtain f where f: "map_of ?facts ref = Some f" using numeric[OF huge(2)] by blast
    then have "f \<in> set (er_facts r)"
      by (auto simp: receipt_facts_by_id_def facts_by_id_def dest: map_of_SomeD)
    with f huge(3) have "holds_huge_number r" unfolding holds_huge_number_def by auto
    with huge(1) show ?thesis by (simp add: recompute_derivation_def Let_def)
  next
    case (all inputs)
    note len = list_all2_lengthD[OF all(2)]
    show ?thesis
    proof (cases "rd_operator d = Op_Weighted_Average")
      case True
      then obtain ps where "value_weight_pairs inputs = Some ps"
        using value_weight_pairs_total[of inputs] semantics(2) len by auto
      with True all(1) show ?thesis
        by (simp add: recompute_derivation_def Let_def del: split_paired_Ex)
    next
      case False
      then have two: "length ?ids = 2" by (rule semantics(1))
      then have second: "?ids ! 1 \<in> set ?ids" by simp
      have "float_of (rf_value (the (map_of ?facts (?ids ! 1)))) = Inr (inputs ! 1)"
        using list_all2_nthD[OF all(2), of 1] two by simp
      then have "\<not> real_eq (inputs ! 1) (Finite 0)" if "rd_operator d \<in> set denominator_operators"
        using semantics(5)[OF that] numeric[OF second] two same by (auto simp: real_eq_zero)
      with False all(1) two len show ?thesis
        by (simp add: recompute_derivation_def Let_def del: split_paired_Ex)
    qed
  qed
qed

text \<open>What is gathered comes from committed receipts.\<close>

definition sound_pairs :: "gate_world \<Rightarrow> claim_evidence \<Rightarrow> bool" where
  "sound_pairs w e \<longleftrightarrow>
     (\<forall>(r, f) \<in> set (ce_fact_pairs e). r \<in> set (dict_values (gw_committed w)) \<and> f \<in> set (er_facts r)) \<and>
     (\<forall>(r, d) \<in> set (ce_derivation_pairs e).
        r \<in> set (dict_values (gw_committed w)) \<and> d \<in> set (er_derivations r)) \<and>
     (\<forall>r \<in> set (ce_stats_receipts e). r \<in> set (dict_values (gw_committed w)) \<and> er_statistics r \<noteq> None)"

lemma verified_committed: "verified w i cid = Inr r \<Longrightarrow> r \<in> set (dict_values (gw_committed w))"
  by (force simp: verified_def split: option.splits if_splits dest: map_of_SomeD)

lemma resolve_steps_sound:
  "sound_pairs w (snd s) \<Longrightarrow> sound_pairs w (snd (resolve_fact w cid ref s))"
  "sound_pairs w (snd s) \<Longrightarrow> sound_pairs w (snd (resolve_derivation w cid ref s))"
  "sound_pairs w (snd s) \<Longrightarrow> sound_pairs w (snd (resolve_statistics w cid ref s))"
  by (auto simp: sound_pairs_def resolve_fact_def resolve_derivation_def resolve_statistics_def
      note_violation_def Let_def split: option.splits sum.splits prod.splits
      dest!: find_SomeD verified_committed)

lemma fold_keeps:
  assumes "\<And>x s. P s \<Longrightarrow> P (g x s)" "P s"
  shows "P (fold g xs s)"
  using assms(2) by (induction xs arbitrary: s) (simp_all add: assms(1))

lemma resolve_claim_sound: "sound_pairs w (snd (resolve_claim w c))"
proof -
  have start: "sound_pairs w (snd ([] :: gate_violation list, no_evidence))"
    by (simp add: sound_pairs_def no_evidence_def)
  show ?thesis
    unfolding resolve_claim_def Let_def
    by (intro fold_keeps[where P = "\<lambda>s. sound_pairs w (snd s)"] resolve_steps_sound start)
qed

lemma evidence_sound: "sound_pairs w (evidence_of (snd (resolve_references w b)) c)"
proof (cases "map_of (snd (resolve_references w b)) (cl_claim_id c)")
  case None
  then show ?thesis by (simp add: evidence_of_def dict_get_def sound_pairs_def no_evidence_def)
next
  case (Some e)
  from map_of_SomeD[OF Some] obtain c' where "e = snd (resolve_claim w c')"
    by (auto simp: resolve_references_def)
  with Some show ?thesis by (simp add: evidence_of_def dict_get_def resolve_claim_sound)
qed

text \<open>A computation that fails only on a huge number of a committed receipt.\<close>

definition only_huge_fails :: "gate_world \<Rightarrow> gate_error + 'a \<Rightarrow> bool" where
  "only_huge_fails w m \<longleftrightarrow> (\<exists>x. m = Inr x) \<or>
     m = Inl Float_Overflow \<and> (\<exists>r \<in> set (dict_values (gw_committed w)). holds_huge_number r)"

lemma only_huge_Inr [simp]: "only_huge_fails w (Inr x)"
  by (simp add: only_huge_fails_def)

lemma only_huge_bind:
  "only_huge_fails w m \<Longrightarrow> (\<And>x. m = Inr x \<Longrightarrow> only_huge_fails w (f x)) \<Longrightarrow> only_huge_fails w (bind_res m f)"
  by (cases m) (auto simp: only_huge_fails_def)

lemma only_huge_map:
  assumes "\<And>x. x \<in> set xs \<Longrightarrow> only_huge_fails w (f x)"
  shows "only_huge_fails w (map_res f xs)"
  using assms by (induction xs) (auto intro!: only_huge_bind)

lemma only_huge_fact:
  assumes "r \<in> set (dict_values (gw_committed w))" "f \<in> set (er_facts r)"
  shows "only_huge_fails w (float_of (rf_value f))"
proof (cases "float_of (rf_value f)")
  case (Inl e)
  then show ?thesis
    using float_of_fault[OF Inl] assms unfolding only_huge_fails_def holds_huge_number_def by auto
qed simp

lemma only_huge_pools:
  assumes "sound_pairs w e"
  shows "only_huge_fails w (fact_pools (ce_fact_pairs e))"
    "only_huge_fails w (model_values (ce_fact_pairs e) receipts)"
proof -
  have float: "only_huge_fails w (float_of (rf_value f))" if "(r, f) \<in> set (ce_fact_pairs e)" for r f
    by (rule only_huge_fact[of r]) (use assms that in \<open>auto simp: sound_pairs_def\<close>)
  show "only_huge_fails w (fact_pools (ce_fact_pairs e))"
    unfolding fact_pools_def Let_def fact_entry_def
    by (intro only_huge_bind only_huge_map only_huge_Inr) (auto intro: float)
  show "only_huge_fails w (model_values (ce_fact_pairs e) receipts)"
    unfolding model_values_def model_entry_def
    by (intro only_huge_bind only_huge_map only_huge_Inr) (auto intro: float)
qed

lemma only_huge_derivations:
  assumes parsed: "\<forall>r \<in> set (dict_values (gw_committed w)). parse_receipt r = Inr r"
    and "\<forall>(r, d) \<in> set pairs. r \<in> set (dict_values (gw_committed w)) \<and> d \<in> set (er_derivations r)"
  shows "only_huge_fails w (derivation_pools cid pairs pools)"
  using assms(2)
proof (induction pairs arbitrary: pools)
  case (Cons p pairs)
  obtain r d where p: "p = (r, d)" by (cases p)
  have IH: "only_huge_fails w (derivation_pools cid pairs pools)" for pools
    by (rule Cons.IH) (use Cons.prems in simp)
  have rd: "r \<in> set (dict_values (gw_committed w))" "d \<in> set (er_derivations r)"
    using Cons.prems p by auto
  then have "parse_receipt r = Inr r" using parsed by blast
  from parsed_derivations_recompute[OF this rd(2)] show ?case
  proof (elim disjE exE conjE)
    fix v assume "recompute_derivation d (receipt_facts_by_id r) = Inr v"
    then show ?thesis using IH p by (cases v; cases "snd v") auto
  next
    assume "recompute_derivation d (receipt_facts_by_id r) =
      Inl (Recompute_Fault (rd_derived_fact_id d) Weights_Sum_To_Zero)"
    then show ?thesis using p IH[of pools] by (auto intro!: only_huge_bind)
  next
    assume "recompute_derivation d (receipt_facts_by_id r) = Inl Float_Overflow" "holds_huge_number r"
    then show ?thesis using p rd(1) by (auto simp: only_huge_fails_def)
  qed
qed simp

lemma only_huge_claims:
  assumes parsed: "\<forall>r \<in> set (dict_values (gw_committed w)). parse_receipt r = Inr r"
    and "sound_pairs w e"
  shows "only_huge_fails w (numeric_claim w c e)" "only_huge_fails w (entity_claim w c e)"
    "only_huge_fails w (statistical_claim confirmatory attempts finals c e)"
proof -
  show "only_huge_fails w (numeric_claim w c e)"
    unfolding numeric_claim_def Let_def
    by (intro only_huge_bind only_huge_pools[OF assms(2)] only_huge_derivations[OF parsed])
      (use assms(2) in \<open>auto simp: sound_pairs_def\<close>)
  show "only_huge_fails w (entity_claim w c e)"
    unfolding entity_claim_def model_violations_def Let_def
    by (auto intro!: only_huge_bind only_huge_pools[OF assms(2)])
  have receipt: "only_huge_fails w (statistical_receipt confirmatory attempts finals i r)"
    if r: "r \<in> set (ce_stats_receipts e)" for i r
  proof -
    have com: "r \<in> set (dict_values (gw_committed w))" "er_statistics r = Some (statistics_of r)"
      using assms(2) r by (auto simp: sound_pairs_def statistics_of_def)
    have own: "only_huge_fails w (float_of_int (one_if_falsy (st_sequence_index (statistics_of r))))"
    proof (cases "float_of_int (one_if_falsy (st_sequence_index (statistics_of r)))")
      case (Inl x)
      have "float_of_int 1 = Inr (Finite 1)" using float_of_int_small[of 1] by simp
      with Inl obtain k where "st_sequence_index (statistics_of r) = Some k" "float_of_int k = Inl x"
        by (auto simp: one_if_falsy_def split: option.splits if_splits)
      with Inl com float_of_int_fault[OF Inl] show ?thesis
        unfolding only_huge_fails_def holds_huge_number_def by blast
    qed simp
    show ?thesis
      unfolding statistical_receipt_def self_consistent_p_def Let_def
      by (auto intro!: only_huge_bind own split: option.split)
  qed
  show "only_huge_fails w (statistical_claim confirmatory attempts finals c e)"
    unfolding statistical_claim_def by (intro only_huge_bind only_huge_map only_huge_Inr receipt)
qed

lemma map_res_fails: "x \<in> set xs \<Longrightarrow> f x = Inl e \<Longrightarrow> \<exists>e'. map_res f xs = Inl e'"
proof (induction xs)
  case (Cons y xs)
  then show ?case by (cases "f y") auto
qed simp

lemma huge_fact_fails:
  assumes "(r, f) \<in> set (ce_fact_pairs e)" "fact_is_numeric f" "float_of (rf_value f) = Inl Float_Overflow"
  shows "\<exists>x. numeric_claim w c e = Inl x"
proof -
  have "fact_entry f = Inl Float_Overflow" using assms(3) by (simp add: fact_entry_def)
  moreover have "f \<in> set (filter fact_is_numeric (map snd (ce_fact_pairs e)))" using assms(1,2) by force
  ultimately have "\<exists>x. fact_pools (ce_fact_pairs e) = Inl x"
    using map_res_fails[of f "filter (\<lambda>f. rf_value_type f \<noteq> Value_Percent)
        (filter fact_is_numeric (map snd (ce_fact_pairs e)))" fact_entry Float_Overflow]
      map_res_fails[of f "filter (\<lambda>f. rf_value_type f = Value_Percent)
        (filter fact_is_numeric (map snd (ce_fact_pairs e)))" fact_entry Float_Overflow]
    unfolding fact_pools_def Let_def
    by (cases "map_res fact_entry (filter (\<lambda>f. rf_value_type f \<noteq> Value_Percent)
        (filter fact_is_numeric (map snd (ce_fact_pairs e))))";
      cases "map_res fact_entry (filter (\<lambda>f. rf_value_type f = Value_Percent)
        (filter fact_is_numeric (map snd (ce_fact_pairs e))))") auto
  then show ?thesis by (auto simp: numeric_claim_def)
qed


section \<open>Feedback and health\<close>

lemma group_call_mset:
  assumes "gv_tool_call_id v = Some t"
  shows "mset (concat (dict_values (group_call v groups))) =
    mset (concat (dict_values groups)) + {#v#}"
proof -
  have "mset (concat (dict_values (dict_set t (dict_get d t [] @ [v]) d))) =
      mset (concat (dict_values d)) + {#v#}" for d :: "(string, gate_violation list) dict"
  proof (induction d)
    case (Cons p d)
    then show ?case by (cases p) (auto simp: dict_get_def)
  qed (simp add: dict_get_def)
  with assms show ?thesis by (simp add: group_call_def)
qed

lemma group_calls_mset:
  "mset (concat (dict_values (fold group_call vs groups))) =
     mset (concat (dict_values groups)) + mset (filter (\<lambda>v. gv_tool_call_id v \<noteq> None) vs)"
proof (induction vs arbitrary: groups)
  case (Cons v vs)
  show ?case
  proof (cases "gv_tool_call_id v")
    case None
    then have "group_call v groups = groups" by (simp add: group_call_def)
    with None Cons.IH show ?thesis by simp
  next
    case (Some t)
    then show ?thesis using Cons.IH[of "group_call v groups"] by (simp add: group_call_mset)
  qed
qed simp

text \<open>Every group holds violations of its own call, at least one.\<close>

definition grouped :: "(string, gate_violation list) dict \<Rightarrow> bool" where
  "grouped d \<longleftrightarrow> distinct (dict_keys d) \<and>
     (\<forall>(t, vs) \<in> set d. vs \<noteq> [] \<and> (\<forall>v \<in> set vs. gv_tool_call_id v = Some t))"

lemma group_call_grouped:
  assumes "grouped d"
  shows "grouped (group_call v d)"
proof (cases "gv_tool_call_id v")
  case (Some t)
  let ?new = "dict_set t (dict_get d t [] @ [v]) d"
  have old: "\<forall>u \<in> set (dict_get d t []). gv_tool_call_id u = Some t"
    using assms by (force simp: grouped_def dict_get_def split: option.splits dest: map_of_SomeD)
  have distinct: "distinct (dict_keys ?new)" using assms by (auto simp: grouped_def)
  have "us \<noteq> [] \<and> (\<forall>u \<in> set us. gv_tool_call_id u = Some k)" if "(k, us) \<in> set ?new" for k us
  proof (cases "k = t")
    case True
    have "map_of ?new k = Some us" by (rule map_of_is_SomeI[OF distinct that])
    with True have "us = dict_get d t [] @ [v]" by simp
    with old Some True show ?thesis by auto
  next
    case False
    have "map_of ?new k = Some us" by (rule map_of_is_SomeI[OF distinct that])
    with False have "(k, us) \<in> set d" by (auto dest: map_of_SomeD)
    with assms show ?thesis by (auto simp: grouped_def)
  qed
  with distinct Some show ?thesis by (auto simp: grouped_def group_call_def)
qed (use assms in \<open>simp add: group_call_def\<close>)

lemma group_calls_keys:
  "t \<in> fst ` set (fold group_call vs d) \<Longrightarrow> t \<in> fst ` set d \<or> (\<exists>v \<in> set vs. gv_tool_call_id v = Some t)"
proof (induction vs arbitrary: d)
  case (Cons v vs)
  from Cons.prems have "t \<in> fst ` set (fold group_call vs (group_call v d))" by simp
  then have "t \<in> fst ` set (group_call v d) \<or> (\<exists>v \<in> set vs. gv_tool_call_id v = Some t)"
    by (rule Cons.IH)
  then show ?case by (auto simp: group_call_def split: option.splits)
qed simp

lemma tool_items:
  assumes "\<forall>t \<in> fst ` set d. t \<noteq> []"
  shows "map_res tool_item d = Inr (map (\<lambda>p. \<lparr>fi_channel = Tool_Channel,
    fi_tool_call_id = Some (fst p), fi_violations = snd p\<rparr>) d)"
  using assms by (induction d) (simp_all add: tool_item_def)

definition blocking_violations :: "gate_report \<Rightarrow> gate_violation list" where
  "blocking_violations rep =
     concat (map ve_violations (filter (\<lambda>v. \<not> ve_passed v) (gr_verdicts rep)))"

text \<open>Retry feedback loses nothing: every violation of a failed gate is in exactly one item, an
  item on the tool channel holds only violations of its own call, no two items share a call, and
  whatever is bound to no call goes to the one user message.\<close>

theorem feedback_loses_no_violation:
  assumes "\<not> gr_passed rep"
    and "\<forall>v \<in> set (blocking_violations rep). gv_tool_call_id v \<noteq> Some []"
  shows "\<exists>items. build_gate_feedback rep = Inr items \<and>
    mset (concat (map fi_violations items)) = mset (blocking_violations rep) \<and>
    distinct (map fi_tool_call_id items) \<and>
    (\<forall>it \<in> set items. fi_violations it \<noteq> [] \<and>
       (\<forall>v \<in> set (fi_violations it). gv_tool_call_id v = fi_tool_call_id it) \<and>
       (fi_channel it = User_Channel \<longleftrightarrow> fi_tool_call_id it = None))"
proof -
  let ?vs = "blocking_violations rep"
  let ?groups = "fold group_call ?vs []"
  let ?general = "filter (\<lambda>v. gv_tool_call_id v = None) ?vs"
  let ?tool = "\<lambda>p. \<lparr>fi_channel = Tool_Channel, fi_tool_call_id = Some (fst p), fi_violations = snd p\<rparr>"
  let ?items = "map ?tool ?groups @ flag_if (?general \<noteq> [])
    \<lparr>fi_channel = User_Channel, fi_tool_call_id = None, fi_violations = ?general\<rparr>"
  have "\<forall>t \<in> fst ` set ?groups. t \<noteq> []" using group_calls_keys[of _ ?vs "[]"] assms(2) by fastforce
  then have run: "build_gate_feedback rep = Inr ?items"
    using assms(1) by (simp add: build_gate_feedback_def blocking_violations_def Let_def tool_items)
  have grouped: "grouped ?groups"
    by (rule fold_keeps) (simp_all add: group_call_grouped, simp add: grouped_def)
  have "mset (concat (map fi_violations ?items)) =
      mset (concat (dict_values ?groups)) + mset ?general"
    by (auto simp: flag_if_def comp_def filter_empty_conv)
  also have "\<dots> = mset ?vs"
    using multiset_partition[of "mset ?vs" "\<lambda>v. gv_tool_call_id v \<noteq> None"]
    by (simp add: group_calls_mset)
  finally have all: "mset (concat (map fi_violations ?items)) = mset ?vs" .
  have "distinct (map fi_tool_call_id ?items)"
  proof -
    have "map fi_tool_call_id (map ?tool ?groups) = map Some (dict_keys ?groups)" by simp
    moreover have "distinct (map Some (dict_keys ?groups))"
      using grouped unfolding grouped_def by (metis distinct_map inj_Some inj_on_subset subset_UNIV)
    ultimately show ?thesis by (auto simp: flag_if_def comp_def)
  qed
  moreover have "\<forall>it \<in> set ?items. fi_violations it \<noteq> [] \<and>
      (\<forall>v \<in> set (fi_violations it). gv_tool_call_id v = fi_tool_call_id it) \<and>
      (fi_channel it = User_Channel \<longleftrightarrow> fi_tool_call_id it = None)"
    using grouped by (fastforce simp: grouped_def flag_if_def)
  ultimately show ?thesis using run all by blast
qed

lemma health_score_bounds:
  "0 \<le> health_score n vs \<and> health_score n vs \<le> 1 \<and> (n \<noteq> 0 \<longrightarrow> health_score n vs = 1 \<longleftrightarrow> vs = [])"
proof (cases "n = 0")
  case False
  let ?affected = "length (remdups (List.map_filter gv_claim_id vs))"
  let ?unbound = "length (filter (\<lambda>v. gv_claim_id v = None) vs)"
  let ?rate = "min 1 (of_nat (?affected + ?unbound) / of_nat n) :: rat"
  have score: "health_score n vs = (1 - ?rate) ^ 2" using False by (simp add: health_score_def Let_def)
  have rate: "0 \<le> ?rate" "?rate \<le> 1" by simp_all
  then have bounds: "0 \<le> (1 - ?rate) ^ 2" "(1 - ?rate) ^ 2 \<le> 1"
    by (simp_all add: power_le_one)
  have "?affected + ?unbound = 0 \<longleftrightarrow>
      List.map_filter gv_claim_id vs = [] \<and> filter (\<lambda>v. gv_claim_id v = None) vs = []"
    by (simp only: add_is_0 length_0_conv remdups_eq_nil_iff)
  also have "\<dots> \<longleftrightarrow> vs = []"
  proof (cases vs)
    case (Cons v rest)
    then show ?thesis by (cases "gv_claim_id v") (simp_all add: List.map_filter_simps)
  qed (simp add: List.map_filter_simps)
  finally have "?affected + ?unbound = 0 \<longleftrightarrow> vs = []" .
  moreover have "?rate = 0 \<longleftrightarrow> ?affected + ?unbound = 0"
  proof -
    have "min 1 (of_nat k / of_nat n :: rat) = 0 \<longleftrightarrow> k = 0" for k
      using False by (simp add: min_def)
    then show ?thesis .
  qed
  moreover have "(1 - ?rate) ^ 2 = 1 \<longleftrightarrow> ?rate = 0"
    using rate by (auto simp: power2_eq_1_iff)
  ultimately show ?thesis using score bounds False by simp
qed (simp add: health_score_def)

text \<open>The health score of a report lies between 0 and 1 and is 1 exactly when the report
  passes: no gate is so lenient that a violation leaves the score unharmed.\<close>

theorem health_is_one_iff_passed:
  assumes "run_claim_gates w wit attempts b = Inr rep"
  shows "0 \<le> gr_health_score rep \<and> gr_health_score rep \<le> 1 \<and>
    (gr_passed rep \<longleftrightarrow> gr_health_score rep = 1)"
proof (cases "bundle_valid b")
  case False
  with assms show ?thesis by (auto simp: run_claim_gates_def structure_failure_report_def)
next
  case True
  then have "cb_claims b \<noteq> []" by (simp add: bundle_valid_iff)
  then have n: "length (cb_claims b) \<noteq> 0" by simp
  let ?verdicts = "gr_verdicts rep"
  have rep:
    "gr_health_score rep = health_score (length (cb_claims b)) (concat (map ve_violations ?verdicts))"
    "gr_passed rep = list_all ve_passed ?verdicts"
    "\<forall>v \<in> set ?verdicts. ve_passed v \<longleftrightarrow> ve_violations v = []"
    using assms True by (auto simp: run_claim_gates_def case_prod_unfold Let_def res_simps)
  then have "gr_passed rep \<longleftrightarrow> concat (map ve_violations ?verdicts) = []"
    by (auto simp: list_all_iff concat_eq_Nil_conv)
  with rep(1) health_score_bounds n show ?thesis by metis
qed

text \<open>How an absence claim's columns are judged: a claim that names no columns passes on a scan
  of whichever columns of the dataset, while a claim that names columns is refused on a scan of the
  whole dataset, which records no column names although it covers all of them.\<close>

theorem absence_columns_are_misjudged:
  assumes "cl_scope c = Some sc" and "cs_dataset_ids sc = [d]"
    and "dict_values (ce_fact_receipts e) = [r]" and "er_result_count r = 0"
    and "narrowing_covers sc (er_scope r)" and "d \<in> set (sc_dataset_ids (er_scope r))"
  shows "(cs_columns sc = [] \<longrightarrow> absence_gate c e = []) \<and>
    (cs_columns sc \<noteq> [] \<and> sc_columns (er_scope r) = [] \<longrightarrow> absence_gate c e \<noteq> [])"
proof (intro conjI impI)
  assume "cs_columns sc = []"
  with assms show "absence_gate c e = []"
    by (simp add: absence_gate_def Let_def required_scope_pairs_def scans_pair_def)
next
  assume cols: "cs_columns sc \<noteq> [] \<and> sc_columns (er_scope r) = []"
  then obtain col where "(d, Some col) \<in> set (required_scope_pairs sc)"
    using assms(2) by (cases "cs_columns sc") (auto simp: required_scope_pairs_def)
  moreover have "\<not> scans_pair (d, Some col) r" using cols by (simp add: scans_pair_def)
  ultimately have "filter (\<lambda>p. \<not> list_ex (scans_pair p) [r]) (required_scope_pairs sc) \<noteq> []"
    by (auto simp: filter_empty_conv)
  with assms show "absence_gate c e \<noteq> []"
    by (simp add: absence_gate_def Let_def)
qed

section \<open>A sample run\<close>

definition sample_id :: string where
  "sample_id = ''rcpt_'' @ replicate 24 CHR ''a''"

definition sample_token :: numeric_token where
  "sample_token = \<lparr>nt_value = Finite 4, nt_is_percent = False, nt_decimals = 0,
     nt_threshold_op = None, nt_threshold_subject = None\<rparr>"

definition sample_world :: gate_world where
  "sample_world = \<lparr>gw_receipt_hash = sample_hash, gw_bundle_digest = (\<lambda>b. ''digest''),
     gw_credential_id = (\<lambda>d t. d @ t), gw_tokens = (\<lambda>text. [sample_token]),
     gw_committed = [(sample_id, sample_receipt)]\<rparr>"

definition sample_claim :: claim where
  "sample_claim = \<lparr>cl_claim_id = ''c1'', cl_claim_type = Observation,
     cl_claim_text = ''There were 4 orders.'', cl_support_type = Support_Direct,
     cl_evidence_fact_ids = [qualified_ref sample_id ''before''],
     cl_derivation_ids = [qualified_ref sample_id ''ratio''],
     cl_statistics_receipt_ids = [], cl_uncertainty = None, cl_limitations = [],
     cl_assumptions = [], cl_scope = None\<rparr>"

definition sample_bundle :: claim_bundle where
  "sample_bundle = \<lparr>cb_claim_bundle_id = ''b'', cb_hypothesis_id = ''h'',
     cb_evidence_lane = Exploratory, cb_claims = [sample_claim],
     cb_declares_independent_replication = False\<rparr>"

definition sample_report :: gate_report where
  "sample_report = \<lparr>gr_claim_bundle_id = ''b'', gr_claim_bundle_digest = ''digest'',
     gr_run_witness = ''dsw1_0'', gr_passed = True,
     gr_verdicts = map (\<lambda>g. make_verdict g [])
       [Structure, Reachability, Numeric, Entity, Statistical, State], gr_health_score = 1\<rparr>"

lemma sample_run: "run_claim_gates sample_world ''dsw1_0'' None sample_bundle = Inr sample_report"
  by code_simp

lemma sample_receipt_parses: "parse_receipt sample_receipt = Inr sample_receipt"
  using sample_receipt_loads
  by (auto simp: load_verified_receipt_def res_simps parse_receiptD split: if_splits)

lemma sample_not_huge: "\<not> holds_huge_number sample_receipt"
  by (simp add: holds_huge_number_def sample_receipt_def float_of_int_small)

theorem passing_claims_are_grounded_witness:
  "\<exists>r f. cites_fact sample_world ''dsw1_0'' sample_claim (qualified_ref sample_id ''before'') r f"
proof -
  have "sample_claim \<in> set (cb_claims sample_bundle)" "gr_passed sample_report"
    "qualified_ref sample_id ''before'' \<in> set (cl_evidence_fact_ids sample_claim)"
    by (simp_all add: sample_bundle_def sample_report_def sample_claim_def)
  then show ?thesis using passing_claims_are_grounded[OF sample_run] by blast
qed

theorem published_numbers_are_supported_witness:
  "fact_supports sample_world ''dsw1_0'' sample_claim sample_token \<or>
   derivation_supports sample_world ''dsw1_0'' sample_claim sample_token \<or>
   threshold_supports sample_world ''dsw1_0'' sample_claim sample_token"
proof (rule published_numbers_are_supported[OF sample_run])
  show "gr_passed sample_report" by (simp add: sample_report_def)
  show "sample_claim \<in> set (cb_claims sample_bundle)" by (simp add: sample_bundle_def)
  show "sample_token \<in> set (gw_tokens sample_world (cl_claim_text sample_claim))"
    by (simp add: sample_world_def)
qed

theorem parsed_derivations_recompute_witness:
  "\<exists>v. recompute_derivation (er_derivations sample_receipt ! 0)
     (receipt_facts_by_id sample_receipt) = Inr v"
proof -
  note sample_receipt_parses
  moreover have "er_derivations sample_receipt ! 0 \<in> set (er_derivations sample_receipt)"
    "rd_operator (er_derivations sample_receipt ! 0) \<noteq> Op_Weighted_Average"
    by (simp_all add: sample_receipt_def)
  ultimately show ?thesis using parsed_derivations_recompute sample_not_huge by blast
qed

theorem health_is_one_iff_passed_witness: "gr_health_score sample_report = 1"
  using health_is_one_iff_passed[OF sample_run] by (simp add: sample_report_def)

text \<open>A receipt and two claims of the confirmatory lane.\<close>

definition trial_receipt :: evidence_receipt where
  "trial_receipt = sample_receipt\<lparr>
     er_tool_name := ''run_causal_experiment'', er_result_count := 0, er_derivations := [],
     er_method := \<lparr>rm_family = ''randomized_experiment'', rm_parameters =
       [(''experiment_design'', PyStr ''randomized''), (''design_confirmation_id'', PyStr ''dx''),
        (''treatment_column'', PyStr ''x'')], rm_assumptions = [], rm_warnings = []\<rparr>,
     er_statistics := Some \<lparr>st_hypothesis_id = Some ''h'', st_statistical_family_id = None,
       st_hypothesis_outcome = None, st_test_name = ''two_sample_ate'', st_test_statistic = None,
       st_p_value = Some (Finite (1 / 100)), st_adjusted_p_value = Some (Finite (1 / 50)),
       st_effect_size = Some (Finite 1), st_ci_low = Some (Finite 0),
       st_ci_high = Some (Finite 2), st_sample_size = Some 40, st_sequence_index = Some 2\<rparr>\<rparr>"

definition trial_world :: gate_world where
  "trial_world = sample_world\<lparr>gw_tokens := (\<lambda>text. []),
     gw_committed := [(sample_id, trial_receipt)]\<rparr>"

definition trial_claim :: claim where
  "trial_claim = sample_claim\<lparr>cl_claim_type := Causal, cl_claim_text := ''The offer causes orders.'',
     cl_derivation_ids := [], cl_statistics_receipt_ids := [sample_id]\<rparr>"

definition trial_scope :: claim_scope where
  "trial_scope = \<lparr>cs_dataset_ids = [''d''], cs_columns = [''x''], cs_filters = None,
     cs_time_range = None\<rparr>"

definition absence_claim :: claim where
  "absence_claim = trial_claim\<lparr>cl_claim_id := ''c2'', cl_claim_type := Absence_Claim,
     cl_claim_text := ''No outliers.'', cl_support_type := Support_Absence,
     cl_scope := Some trial_scope\<rparr>"

definition trial_bundle :: claim_bundle where
  "trial_bundle = sample_bundle\<lparr>cb_evidence_lane := Confirmatory,
     cb_claims := [trial_claim, absence_claim]\<rparr>"

lemma trial_run:
  "run_claim_gates trial_world ''dsw1_0'' (Some [(''h'', 2)]) trial_bundle = Inr sample_report"
  by code_simp

theorem absence_claims_are_scanned_witness:
  "\<exists>r. empty_scan trial_world ''dsw1_0'' absence_claim trial_scope (''d'', Some ''x'') r"
proof -
  have "\<exists>sc. cl_scope absence_claim = Some sc \<and> cs_dataset_ids sc \<noteq> [] \<and>
      (\<forall>p \<in> set (required_scope_pairs sc). \<exists>r. empty_scan trial_world ''dsw1_0'' absence_claim sc p r) \<and>
      (\<forall>ref \<in> set (cl_evidence_fact_ids absence_claim). \<forall>r.
        trusted_receipt trial_world ''dsw1_0'' (ref_receipt ref) r \<longrightarrow> er_result_count r \<le> 0)"
    by (rule absence_claims_are_scanned[OF trial_run])
      (simp_all add: sample_report_def trial_bundle_def absence_claim_def)
  then show ?thesis
    by (auto simp: absence_claim_def trial_scope_def required_scope_pairs_def)
qed

theorem causal_and_model_claims_are_licensed_witness:
  "\<exists>r. er_receipt_id r \<in> set (cited_receipts trial_claim) \<and>
     trusted_receipt trial_world ''dsw1_0'' (er_receipt_id r) r \<and>
     licenses_causal_wording trial_world r"
proof -
  have "gr_passed sample_report" "trial_claim \<in> set (cb_claims trial_bundle)"
    "cl_claim_type trial_claim = Causal"
    by (simp_all add: sample_report_def trial_bundle_def trial_claim_def)
  with causal_and_model_claims_are_licensed[OF trial_run] show ?thesis by blast
qed

theorem confirmatory_claims_are_complete_witness:
  "\<exists>r. cites_statistics trial_world ''dsw1_0'' trial_claim r \<and>
     complete_statistics (Some [(''h'', 2)]) (statistics_of r)"
proof -
  have "gr_passed sample_report" "trial_claim \<in> set (cb_claims trial_bundle)"
    "cb_evidence_lane trial_bundle = Confirmatory"
    by (simp_all add: sample_report_def trial_bundle_def)
  with confirmatory_claims_are_complete[OF trial_run] show ?thesis by blast
qed

text \<open>A receipt that counts \<open>2 ^ 1024\<close> orders.\<close>

definition huge_receipt :: evidence_receipt where
  "huge_receipt = sample_receipt\<lparr>er_facts := (hd (er_facts sample_receipt))\<lparr>rf_value := PyInt (2 ^ 1024)\<rparr> #
     tl (er_facts sample_receipt)\<rparr>"

definition huge_world :: gate_world where
  "huge_world = sample_world\<lparr>gw_committed := [(sample_id, huge_receipt)]\<rparr>"

definition huge_fact :: receipt_fact where
  "huge_fact = hd (er_facts huge_receipt)"

lemma bit_count_power: "bit_count (2 ^ k) = Suc k"
  by (induction k) (simp_all add: bit_count.simps[of "Suc 0"] bit_count.simps[of "2 * n" for n] bit_count.simps[of 0])

lemma power_overflows: "float_of_int (2 ^ 1024) = Inl Float_Overflow"
proof -
  have bits: "bit_count (nat \<bar>2 ^ 1024\<bar>) = 1025"
    using bit_count_power[of 1024] by (simp add: nat_power_eq del: power_numeral)
  have "(of_int (2 ^ 1024) :: rat) / 2 ^ 972 = of_int (2 ^ 52)"
  proof -
    have "(2 :: rat) ^ 1024 = 2 ^ 52 * 2 ^ 972" by (subst power_add[symmetric]) simp
    then show ?thesis by simp
  qed
  then have "round_half_even ((of_int (2 ^ 1024) :: rat) / 2 ^ 972) * 2 ^ 972 = 2 ^ 52 * 2 ^ 972"
    by (simp only: round_half_even_int)
  also have "\<dots> = (2 :: int) ^ 1024" by (subst power_add[symmetric]) simp
  finally show ?thesis using bits by (simp add: float_of_int_def Let_def del: power_numeral)
qed

lemma huge_parses: "parse_receipt huge_receipt = Inr huge_receipt"
  by code_simp

lemma huge_cited:
  "bundle_valid sample_bundle \<and> fact_is_numeric huge_fact \<and>
   (huge_receipt, huge_fact) \<in> set (ce_fact_pairs (snd (resolve_claim huge_world sample_claim)))"
  by code_simp


definition failed_report :: gate_report where
  "failed_report = sample_report\<lparr>gr_passed := False, gr_verdicts :=
     [make_verdict Entity [of_claim ''c1'' Causal_Language,
        \<lparr>gv_code = False_Absence sample_id 3, gv_claim_id = Some ''c1'', gv_tool_call_id = Some ''t''\<rparr>]]\<rparr>"

theorem feedback_loses_no_violation_witness:
  "\<exists>items. build_gate_feedback failed_report = Inr items \<and>
     mset (concat (map fi_violations items)) = mset (blocking_violations failed_report)"
proof -
  have "\<not> gr_passed failed_report"
    "\<forall>v \<in> set (blocking_violations failed_report). gv_tool_call_id v \<noteq> Some []"
    by (simp_all add: failed_report_def blocking_violations_def make_verdict_def of_claim_def)
  from feedback_loses_no_violation[OF this] show ?thesis by blast
qed

theorem absence_columns_are_misjudged_witness:
  "absence_gate absence_claim (no_evidence\<lparr>ce_fact_receipts := [(sample_id,
     trial_receipt\<lparr>er_scope := (er_scope trial_receipt)\<lparr>sc_columns := [],
       sc_scope_resolution := Some Scope_Whole_Dataset\<rparr>\<rparr>)]\<rparr>) \<noteq> []"
proof -
  let ?r = "trial_receipt\<lparr>er_scope := (er_scope trial_receipt)\<lparr>sc_columns := [],
       sc_scope_resolution := Some Scope_Whole_Dataset\<rparr>\<rparr>"
  let ?e = "no_evidence\<lparr>ce_fact_receipts := [(sample_id, ?r)]\<rparr>"
  have "cl_scope absence_claim = Some trial_scope" "cs_dataset_ids trial_scope = [''d'']"
    "dict_values (ce_fact_receipts ?e) = [?r]" "er_result_count ?r = 0"
    "narrowing_covers trial_scope (er_scope ?r)" "''d'' \<in> set (sc_dataset_ids (er_scope ?r))"
    by (simp_all add: absence_claim_def trial_scope_def trial_receipt_def sample_receipt_def
        narrowing_covers_def restriction_covers_def normalized_restriction_def)
  from absence_columns_are_misjudged[OF this] show ?thesis
    by (simp add: trial_scope_def)
qed

end
