(* ===== verification/InsightProperties.thy ===== *)
theory InsightProperties
  imports InsightReducer ClaimGateProperties
begin

text \<open>
  The life of an insight under any sequence of proposals: its evidence only grows, its status
  follows from its evidence, its proof has exactly one edge kind per piece of evidence.
\<close>

section \<open>Merging\<close>

lemma merge_ids_step:
  "merge_ids xs (ys @ [y]) =
     (if y \<in> set (merge_ids xs ys) then merge_ids xs ys else merge_ids xs ys @ [y])"
  by (simp add: merge_ids_def)

lemma set_merge_ids [simp]: "set (merge_ids xs ys) = set xs \<union> set ys"
proof (induction ys rule: rev_induct)
  case (snoc y ys)
  then show ?case by (auto simp: merge_ids_step)
qed (simp add: merge_ids_def)

lemma distinct_merge_ids: "distinct xs \<Longrightarrow> distinct (merge_ids xs ys)"
proof (induction ys rule: rev_induct)
  case (snoc y ys)
  then show ?case by (auto simp: merge_ids_step)
qed (simp add: merge_ids_def)

lemma merge_ids_prefix: "\<exists>zs. merge_ids xs ys = xs @ zs"
proof (induction ys rule: rev_induct)
  case (snoc y ys)
  then show ?case by (auto simp: merge_ids_step)
qed (simp add: merge_ids_def)

section \<open>The index of facts\<close>

definition admitted_ok :: "reducer_world \<Rightarrow> bool" where
  "admitted_ok w \<longleftrightarrow> (\<forall>b \<in> set (dict_values (rw_bundles w)). bundle_valid b)"

lemma index_fact_keys: "fst ` set (index_fact i fids d) = insert i (fst ` set d)"
  by (simp add: index_fact_def)

lemma index_ref_keys:
  assumes "split_evidence_ref ref \<noteq> None"
  shows "fst ` set (index_ref ref d) = insert (ref_receipt ref) (fst ` set d)"
proof -
  obtain i f where "split_evidence_ref ref = Some (i, f)" using assms by auto
  then show ?thesis by (simp add: index_ref_def ref_receipt_def index_fact_keys)
qed

lemma index_refs_keys:
  assumes "\<forall>ref \<in> set refs. split_evidence_ref ref \<noteq> None"
  shows "fst ` set (fold index_ref refs d) = fst ` set d \<union> ref_receipt ` set refs"
  using assms
proof (induction refs arbitrary: d)
  case (Cons ref refs)
  have "fst ` set (fold index_ref refs (index_ref ref d)) =
      fst ` set (index_ref ref d) \<union> ref_receipt ` set refs"
    by (rule Cons.IH) (use Cons.prems in simp)
  moreover have "fst ` set (index_ref ref d) = insert (ref_receipt ref) (fst ` set d)"
    by (rule index_ref_keys) (use Cons.prems in simp)
  ultimately show ?case by simp
qed simp

lemma index_statistics_keys:
  "index_statistics w ids d = Inr d' \<Longrightarrow> fst ` set d' = fst ` set d \<union> set ids"
proof (induction ids arbitrary: d)
  case (Cons i ids)
  from Cons.prems obtain fids where "index_statistics w ids (index_fact i fids d) = Inr d'"
    by (auto split: option.splits if_splits)
  from Cons.IH[OF this] show ?case by (simp add: index_fact_keys)
qed simp

lemma index_claims_keys:
  assumes "index_claims w cs d = Inr d'" "\<forall>c \<in> set cs. claim_well_formed c = Inr ()"
  shows "fst ` set d' = fst ` set d \<union> set (concat (map cited_receipts cs))"
  using assms
proof (induction cs arbitrary: d)
  case (Cons c cs)
  let ?d = "fold index_ref (cl_derivation_ids c) (fold index_ref (cl_evidence_fact_ids c) d)"
  from Cons.prems(1) obtain e where e: "index_statistics w (cl_statistics_receipt_ids c) ?d = Inr e"
    and rest: "index_claims w cs e = Inr d'"
    by (auto simp: res_simps)
  have refs: "\<forall>ref \<in> set (cl_evidence_fact_ids c). split_evidence_ref ref \<noteq> None"
    "\<forall>ref \<in> set (cl_derivation_ids c). split_evidence_ref ref \<noteq> None"
    using Cons.prems(2) by (auto simp: claim_well_formed_iff)
  have "fst ` set e = fst ` set d \<union> set (cited_receipts c)"
    by (simp add: index_statistics_keys[OF e] index_refs_keys[OF refs(1)] index_refs_keys[OF refs(2)]
        cited_receipts_def Un_assoc image_Un)
  moreover have "fst ` set d' = fst ` set e \<union> set (concat (map cited_receipts cs))"
    by (rule Cons.IH[OF rest]) (use Cons.prems(2) in simp)
  ultimately show ?case by auto
qed simp

section \<open>Proof edges\<close>

type_synonym evidence_sides = "(string \<times> hypothesis_side) set"

definition edge_side :: "insight_proof \<Rightarrow> string \<times> hypothesis_side" where
  "edge_side e = (pf_receipt_id e, pf_comparison e)"

definition side_set :: "string list \<Rightarrow> string list \<Rightarrow> evidence_sides" where
  "side_set ss cs = (\<lambda>i. (i, Supports)) ` set ss \<union> (\<lambda>i. (i, Contradicts)) ` set cs"

lemma proof_edges_sides:
  assumes edges: "proof_edges w b p narrow = Inr es" and valid: "bundle_valid b"
    and covers: "set (tp_supporting_receipt_ids p) \<union> set (tp_contradicting_receipt_ids p) \<subseteq>
      set (referenced_receipt_ids b)"
    and disjoint: "set (tp_supporting_receipt_ids p) \<inter> set (tp_contradicting_receipt_ids p) = {}"
  shows "edge_side ` set es = side_set (tp_supporting_receipt_ids p)
    (filter (\<lambda>i. i \<notin> set narrow) (tp_contradicting_receipt_ids p))"
proof -
  let ?ss = "tp_supporting_receipt_ids p"
    and ?cs = "filter (\<lambda>i. i \<notin> set narrow) (tp_contradicting_receipt_ids p)"
  from edges obtain d where d: "index_claims w (cb_claims b) [] = Inr d"
    and es: "es = map (proof_edge w ?ss)
      (filter (\<lambda>q. fst q \<in> set ?ss \<or> fst q \<in> set ?cs) (sort_key fst d))"
    by (auto simp: proof_edges_def res_simps Let_def)
  have keys: "fst ` set d = set (referenced_receipt_ids b)"
    using index_claims_keys[OF d] valid by (simp add: bundle_valid_iff referenced_receipt_ids_eq)
  have side: "edge_side (proof_edge w ?ss q) = (fst q, if fst q \<in> set ?ss then Supports else Contradicts)"
    for q by (simp add: edge_side_def proof_edge_def)
  let ?g = "\<lambda>i. (i, if i \<in> set ?ss then Supports else Contradicts)"
  let ?P = "\<lambda>i. i \<in> set ?ss \<or> i \<in> set ?cs"
  have "edge_side ` set es = ?g ` fst ` {q \<in> set d. ?P (fst q)}"
    by (simp add: es side image_image)
  also have "fst ` {q \<in> set d. ?P (fst q)} = {i \<in> fst ` set d. ?P i}" by blast
  also have "?g ` {i \<in> fst ` set d. ?P i} = side_set ?ss ?cs"
    using covers disjoint unfolding keys side_set_def by (auto simp: image_iff)
  finally show ?thesis .
qed

lemma merge_proof_sides: "edge_side ` set (merge_proof xs ys) = edge_side ` set (xs @ ys)"
proof -
  have side_text_inject: "side_text a = side_text b \<longleftrightarrow> a = b" for a b
    by (cases a; cases b) simp_all
  have values_keyed: "(\<forall>q \<in> set (fold (\<lambda>e. dict_set (edge_key e) e) es d). edge_key (snd q) = fst q)"
    if "\<forall>q \<in> set d. edge_key (snd q) = fst q" "distinct (dict_keys d)" for es d
    using that
  proof (induction es arbitrary: d)
    case (Cons e es)
    let ?d = "dict_set (edge_key e) e d"
    have distinct: "distinct (dict_keys ?d)" using Cons.prems(2) by auto
    have "edge_key v = k" if "(k, v) \<in> set ?d" for k v
    proof -
      have "map_of ?d k = Some v" by (rule map_of_is_SomeI[OF distinct that])
      then show ?thesis
        using Cons.prems(1) by (cases "k = edge_key e") (auto dest!: map_of_SomeD)
    qed
    then show ?case using Cons.IH[of ?d] distinct by auto
  qed simp
  have keys: "fst ` set (fold (\<lambda>e. dict_set (edge_key e) e) es d) = fst ` set d \<union> edge_key ` set es"
    for es d by (induction es arbitrary: d) auto
  let ?d = "fold (\<lambda>e. dict_set (edge_key e) e) (xs @ ys) []"
  have "edge_key ` set (merge_proof xs ys) = edge_key ` snd ` set ?d"
    by (simp add: merge_proof_def Let_def)
  also have "\<dots> = fst ` set ?d"
    using values_keyed[of "[]" "xs @ ys"] by (force simp: image_image intro!: image_cong)
  also have "\<dots> = edge_key ` set (xs @ ys)" by (simp only: keys) simp
  finally have same: "edge_key ` set (merge_proof xs ys) = edge_key ` set (xs @ ys)" .
  define side_of :: "string \<times> string \<times> string list \<Rightarrow> string \<times> hypothesis_side"
    where "side_of = (\<lambda>(i, t, fs). (i, if t = side_text Supports then Supports else Contradicts))"
  have "edge_side e = side_of (edge_key e)" for e
    by (cases "pf_comparison e") (simp_all add: edge_side_def edge_key_def side_of_def)
  then have "edge_side ` A = side_of ` edge_key ` A" for A by (simp add: image_image)
  with same show ?thesis by simp
qed

section \<open>One reduction\<close>

abbreviation record_sides :: "insight_record \<Rightarrow> evidence_sides" where
  "record_sides r \<equiv> side_set (ir_supporting_receipt_ids r) (ir_contradicting_receipt_ids r)"

definition prior_sides :: "insight_record option \<Rightarrow> evidence_sides" where
  "prior_sides prior = side_set (prior_supporting prior) (prior_contradicting prior)"

lemma side_set_mono [simp]:
  "side_set ss cs \<subseteq> side_set ss' cs' \<longleftrightarrow> set ss \<subseteq> set ss' \<and> set cs \<subseteq> set cs'"
  by (auto simp: side_set_def)

lemma narrow_new: "set (narrow_contradictions w prior new) \<subseteq> set new"
  by (auto simp: narrow_contradictions_def Let_def split: option.splits)

lemma insight_of_fields [simp]:
  "ir_supporting_receipt_ids (insight_of w prior k st ra p ss cs narrow st_new tr_new extra es) = ss"
  "ir_contradicting_receipt_ids (insight_of w prior k st ra p ss cs narrow st_new tr_new extra es) = cs"
  "ir_status (insight_of w prior k st ra p ss cs narrow st_new tr_new extra es) = st_new"
  "ir_trust_level (insight_of w prior k st ra p ss cs narrow st_new tr_new extra es) = tr_new"
  "ir_hypothesis_id (insight_of w prior k st ra p ss cs narrow st_new tr_new extra es) =
     tp_hypothesis_id p"
  "ir_insight_id (insight_of w prior k st ra p ss cs narrow st_new tr_new extra es) = tp_insight_id p"
  "ir_family (insight_of w prior k st ra p ss cs narrow st_new tr_new extra es) = tp_family p"
  "ir_proof (insight_of w prior k st ra p ss cs narrow st_new tr_new extra es) =
     merge_proof (case prior of None \<Rightarrow> [] | Some q \<Rightarrow> ir_proof q) es"
  "ir_limitations (insight_of w prior k st ra p ss cs narrow st_new tr_new extra es) =
     merge_ids (case prior of None \<Rightarrow> [] | Some q \<Rightarrow> ir_limitations q)
       (tp_limitations p @ extra @ map (\<lambda>i. narrow_scope_limitation i (committed_at w i)) narrow)"
  by (simp_all add: insight_of_def)

text \<open>What a successful reduction did.\<close>

definition new_supporting :: "insight_record option \<Rightarrow> transition_proposal \<Rightarrow> string list" where
  "new_supporting prior p =
     filter (\<lambda>i. i \<notin> set (prior_supporting prior)) (tp_supporting_receipt_ids p)"

definition new_narrow ::
  "reducer_world \<Rightarrow> insight_record option \<Rightarrow> transition_proposal \<Rightarrow> string list" where
  "new_narrow w prior p = narrow_contradictions w prior
     (filter (\<lambda>i. i \<notin> set (prior_contradicting prior)) (tp_contradicting_receipt_ids p))"

definition all_supporting :: "insight_record option \<Rightarrow> transition_proposal \<Rightarrow> string list" where
  "all_supporting prior p = merge_ids (prior_supporting prior) (tp_supporting_receipt_ids p)"

definition all_contradicting ::
  "reducer_world \<Rightarrow> insight_record option \<Rightarrow> transition_proposal \<Rightarrow> string list" where
  "all_contradicting w prior p = filter (\<lambda>i. i \<notin> set (new_narrow w prior p))
     (merge_ids (prior_contradicting prior) (tp_contradicting_receipt_ids p))"

definition prior_proof :: "insight_record option \<Rightarrow> insight_proof list" where
  "prior_proof prior = (case prior of None \<Rightarrow> [] | Some q \<Rightarrow> ir_proof q)"

lemma reduce_insightD:
  assumes "reduce_insight w prior k statement rationale p = Inr rec"
  shows "\<exists>b es extra.
    resolve w (tp_supporting_receipt_ids p) = Inr () \<and>
    resolve w (tp_contradicting_receipt_ids p) = Inr () \<and>
    bundle_check w p = Inr b \<and> prior_check w p prior = Inr () \<and>
    (rw_typed w \<longrightarrow> assert_typed_sides w (tp_hypothesis_id p) (all_supporting prior p)
       (all_contradicting w prior p) = Inr ()) \<and>
    verdict w (all_supporting prior p) (all_contradicting w prior p) prior (new_supporting prior p)
       (new_narrow w prior p \<noteq> []) = Inr (ir_status rec, ir_trust_level rec, extra) \<and>
    proof_edges w b p (new_narrow w prior p) = Inr es \<and>
    rec = insight_of w prior k statement rationale p (all_supporting prior p)
      (all_contradicting w prior p) (new_narrow w prior p) (ir_status rec) (ir_trust_level rec)
      extra es \<and>
    record_check rec = Inr ()"
proof -
  note unfolded = assms[unfolded reduce_insight_def Let_def, folded new_supporting_def new_narrow_def,
    folded all_supporting_def all_contradicting_def]
  obtain b where b: "bundle_check w p = Inr b"
    using unfolded by (auto simp only: bind_res_Inr_iff)
  have pre: "resolve w (tp_supporting_receipt_ids p) = Inr ()"
    "resolve w (tp_contradicting_receipt_ids p) = Inr ()" "prior_check w p prior = Inr ()"
    "rw_typed w \<longrightarrow> assert_typed_sides w (tp_hypothesis_id p) (all_supporting prior p)
       (all_contradicting w prior p) = Inr ()"
    using unfolded by (auto simp: res_simps split: if_splits)
  obtain st_new tr_new extra where v: "verdict w (all_supporting prior p)
      (all_contradicting w prior p) prior (new_supporting prior p) (new_narrow w prior p \<noteq> []) =
      Inr (st_new, tr_new, extra)"
    using unfolded by (auto simp only: bind_res_Inr_iff)
  have typed: "(if rw_typed w then assert_typed_sides w (tp_hypothesis_id p)
      (all_supporting prior p) (all_contradicting w prior p) else Inr ()) = Inr ()"
    using pre(4) by simp
  let ?rec = "insight_of w prior k statement rationale p (all_supporting prior p)
    (all_contradicting w prior p) (new_narrow w prior p) st_new tr_new extra"
  from unfolded obtain es where es: "proof_edges w b p (new_narrow w prior p) = Inr es"
    and rec: "rec = ?rec es" "record_check rec = Inr ()"
    unfolding typed v b pre(1,2,3)
    by (auto simp: bind_res_Inr_iff)
  have grade: "st_new = ir_status rec" "tr_new = ir_trust_level rec" by (simp_all add: rec(1))
  show ?thesis using rec es v b pre unfolding grade by blast
qed

section \<open>Evidence and grades\<close>

text \<open>The status and trust that a record's own evidence calls for.\<close>

definition graded :: "reducer_world \<Rightarrow> insight_record \<Rightarrow> bool" where
  "graded w r \<longleftrightarrow>
     (let ss = ir_supporting_receipt_ids r; cs = ir_contradicting_receipt_ids r;
          grade = (ir_status r, ir_trust_level r)
      in if list_ex (\<lambda>i. receipt_is_inconclusive (rw_typed w) (committed_at w i)) (ss @ cs)
         then grade = (Inconclusive, Unsupported)
         else if ss \<noteq> [] \<and> cs \<noteq> [] then grade = (Inconclusive, Contested)
         else if cs \<noteq> [] then grade = (Refuted, Trust_Refuted)
         else ss \<noteq> [] \<and> grade \<in> {(New, Supported), (Reinforced, Supported)})"

text \<open>A reinforced insight has support from an independent replication.\<close>

definition independently_replicated :: "reducer_world \<Rightarrow> insight_record \<Rightarrow> bool" where
  "independently_replicated w r \<longleftrightarrow> (\<exists>i \<in> set (ir_supporting_receipt_ids r).
     licenses_independence (committed_at w i) \<and>
     truthy (er_evidence_independence_key (committed_at w i)))"

definition record_ok :: "reducer_world \<Rightarrow> insight_record \<Rightarrow> bool" where
  "record_ok w r \<longleftrightarrow> record_check r = Inr () \<and> graded w r \<and>
     edge_side ` set (ir_proof r) = record_sides r \<and>
     (\<forall>i \<in> set (ir_supporting_receipt_ids r @ ir_contradicting_receipt_ids r).
        resolve_one w i = Inr ()) \<and>
     (ir_status r = Reinforced \<longrightarrow> independently_replicated w r)"

lemma record_sides_disjoint:
  "record_check r = Inr () \<Longrightarrow> distinct (ir_supporting_receipt_ids r) \<and>
     distinct (ir_contradicting_receipt_ids r) \<and>
     set (ir_supporting_receipt_ids r) \<inter> set (ir_contradicting_receipt_ids r) = {}"
  by (auto simp: record_check_def sides_check_def res_simps)

lemma side_set_Un: "side_set ss cs \<union> side_set ss' cs' = side_set (ss @ ss') (cs @ cs')"
  by (auto simp: side_set_def)

lemma side_set_eq:
  "set ss = set ss' \<Longrightarrow> set cs = set cs' \<Longrightarrow> side_set ss cs = side_set ss' cs'"
  by (simp add: side_set_def)

lemma narrow_not_prior: "set (new_narrow w prior p) \<inter> set (prior_contradicting prior) = {}"
  using narrow_new[of w prior "filter (\<lambda>i. i \<notin> set (prior_contradicting prior))
    (tp_contradicting_receipt_ids p)"]
  by (auto simp: new_narrow_def)

lemma prior_cases:
  "prior = None \<or> (\<exists>q. prior = Some q \<and> prior_supporting prior = ir_supporting_receipt_ids q \<and>
     prior_contradicting prior = ir_contradicting_receipt_ids q \<and> prior_proof prior = ir_proof q)"
  by (cases prior) (auto simp: prior_supporting_def prior_contradicting_def prior_proof_def)

lemma reduced_sides:
  assumes "reduce_insight w prior k statement rationale p = Inr rec"
  shows "set (ir_supporting_receipt_ids rec) =
      set (prior_supporting prior) \<union> set (tp_supporting_receipt_ids p)"
    "set (ir_contradicting_receipt_ids rec) = set (prior_contradicting prior) \<union>
      set (filter (\<lambda>i. i \<notin> set (new_narrow w prior p)) (tp_contradicting_receipt_ids p))"
    "set (prior_supporting prior) \<subseteq> set (ir_supporting_receipt_ids rec)"
    "set (prior_contradicting prior) \<subseteq> set (ir_contradicting_receipt_ids rec)"
proof -
  obtain extra es where rec: "rec = insight_of w prior k statement rationale p
      (all_supporting prior p) (all_contradicting w prior p) (new_narrow w prior p) (ir_status rec)
      (ir_trust_level rec) extra es"
    using reduce_insightD[OF assms] by blast
  have ss: "ir_supporting_receipt_ids rec = all_supporting prior p" by (subst rec) simp
  have cs: "ir_contradicting_receipt_ids rec = all_contradicting w prior p" by (subst rec) simp
  show "set (ir_supporting_receipt_ids rec) =
      set (prior_supporting prior) \<union> set (tp_supporting_receipt_ids p)"
    by (simp add: ss all_supporting_def)
  then show "set (prior_supporting prior) \<subseteq> set (ir_supporting_receipt_ids rec)" by blast
  show c: "set (ir_contradicting_receipt_ids rec) = set (prior_contradicting prior) \<union>
      set (filter (\<lambda>i. i \<notin> set (new_narrow w prior p)) (tp_contradicting_receipt_ids p))"
    using narrow_not_prior[of w prior p] by (auto simp: cs all_contradicting_def)
  then show "set (prior_contradicting prior) \<subseteq> set (ir_contradicting_receipt_ids rec)" by blast
qed

lemma prior_keeps_grade:
  assumes grade: "graded w q"
    and ss: "set (ir_supporting_receipt_ids q) \<subseteq> set ss"
    and cs: "ir_contradicting_receipt_ids q = []"
    and sound: "\<not> list_ex (\<lambda>i. receipt_is_inconclusive (rw_typed w) (committed_at w i)) ss"
  shows "ir_status q \<in> {New, Reinforced} \<and> ir_trust_level q = Supported"
proof -
  have "\<not> list_ex (\<lambda>i. receipt_is_inconclusive (rw_typed w) (committed_at w i))
      (ir_supporting_receipt_ids q @ ir_contradicting_receipt_ids q)"
    using sound ss cs by (auto simp: list_ex_iff)
  with grade cs show ?thesis by (auto simp: graded_def Let_def)
qed

lemma independent_keys_new:
  assumes "\<not> set (independent_keys w new) \<subseteq> ks"
  shows "\<exists>i \<in> set new. licenses_independence (committed_at w i) \<and>
    truthy (er_evidence_independence_key (committed_at w i))"
proof -
  have "k \<in> set (independent_keys w new) \<Longrightarrow> \<exists>i \<in> set new.
      licenses_independence (committed_at w i) \<and>
      truthy (er_evidence_independence_key (committed_at w i))" for k
    by (induction new)
      (auto simp: independent_keys_def List.map_filter_simps Let_def split: if_splits option.splits)
  with assms show ?thesis by blast
qed

lemma reduced_nonempty:
  assumes run: "reduce_insight w prior k statement rationale p = Inr rec"
  shows "ir_supporting_receipt_ids rec \<noteq> [] \<or> ir_contradicting_receipt_ids rec \<noteq> []"
proof -
  note sides = reduced_sides[OF run]
  obtain b where b: "bundle_check w p = Inr b" using reduce_insightD[OF run] by blast
  consider "tp_supporting_receipt_ids p \<noteq> []"
    | "tp_contradicting_receipt_ids p \<noteq> []" "new_narrow w prior p = []"
    | "new_narrow w prior p \<noteq> []"
    using b by (auto simp: bundle_check_def Let_def res_simps split: option.splits)
  then show ?thesis
  proof cases
    case 1
    with sides(1) show ?thesis by auto
  next
    case 2
    with sides(2) show ?thesis by auto
  next
    case 3
    then have "prior_supporting prior \<noteq> []"
      by (auto simp: new_narrow_def narrow_contradictions_def prior_supporting_def Let_def
          split: option.splits if_splits)
    with sides(1) show ?thesis by auto
  qed
qed

lemma reduced_grade:
  assumes run: "reduce_insight w prior k statement rationale p = Inr rec"
    and prior: "\<And>q. prior = Some q \<Longrightarrow> record_ok w q"
  shows "graded w rec \<and> (ir_status rec = Reinforced \<longrightarrow> independently_replicated w rec)"
proof -
  obtain extra es where v: "verdict w (all_supporting prior p) (all_contradicting w prior p) prior
      (new_supporting prior p) (new_narrow w prior p \<noteq> []) =
      Inr (ir_status rec, ir_trust_level rec, extra)"
    and rec: "rec = insight_of w prior k statement rationale p (all_supporting prior p)
      (all_contradicting w prior p) (new_narrow w prior p) (ir_status rec) (ir_trust_level rec)
      extra es"
    using reduce_insightD[OF run] by blast
  have ss: "all_supporting prior p = ir_supporting_receipt_ids rec" by (subst rec) simp
  have cs: "all_contradicting w prior p = ir_contradicting_receipt_ids rec" by (subst rec) simp
  let ?ss = "ir_supporting_receipt_ids rec" and ?cs = "ir_contradicting_receipt_ids rec"
  let ?bad = "list_ex (\<lambda>i. receipt_is_inconclusive (rw_typed w) (committed_at w i)) (?ss @ ?cs)"
  note verdict = v[unfolded ss cs verdict_def Let_def]
  show ?thesis
  proof (cases "?bad \<or> ?cs \<noteq> [] \<or> ?ss = [] \<or> prior = None")
    case True
    have nonempty: "?ss \<noteq> [] \<or> ?cs \<noteq> []" by (rule reduced_nonempty[OF run])
    with True verdict show ?thesis by (auto simp: graded_def Let_def split: if_splits)
  next
    case False
    then obtain q where q: "prior = Some q" by auto
    from False have sound: "\<not> list_ex (\<lambda>i. receipt_is_inconclusive (rw_typed w) (committed_at w i)) ?ss"
      and empty: "?cs = []" and some: "?ss \<noteq> []" by auto
    have old: "set (ir_supporting_receipt_ids q) \<subseteq> set ?ss" "ir_contradicting_receipt_ids q = []"
      using reduced_sides(3,4)[OF run] q empty
      by (auto simp: prior_supporting_def prior_contradicting_def)
    have prior_grade: "ir_status q \<in> {New, Reinforced} \<and> ir_trust_level q = Supported"
      by (rule prior_keeps_grade[OF _ old sound]) (use prior[OF q] in \<open>simp add: record_ok_def\<close>)
    have grade: "graded w rec" if "ir_status rec \<in> {New, Reinforced}" "ir_trust_level rec = Supported"
      using that False by (auto simp: graded_def Let_def)
    have carried: "independently_replicated w rec" if "ir_status q = Reinforced"
      using that prior[OF q] old(1) by (auto simp: record_ok_def independently_replicated_def)
    let ?fresh = "\<not> set (independent_keys w (new_supporting prior p)) \<subseteq>
      set (prior_keys w ?ss (new_supporting prior p))"
    show ?thesis
    proof (cases "new_supporting prior p \<noteq> [] \<and> ?fresh")
      case True
      with verdict False q have "ir_status rec = Reinforced" "ir_trust_level rec = Supported"
        by (auto split: if_splits)
      moreover have "independently_replicated w rec"
        using independent_keys_new[OF conjunct2[OF True]] reduced_sides(1)[OF run]
        by (auto simp: independently_replicated_def new_supporting_def)
      ultimately show ?thesis using grade by simp
    next
      case no: False
      with verdict False q have "ir_status rec = ir_status q"
        "ir_trust_level rec \<in> {ir_trust_level q, Supported}"
        by (auto split: if_splits)
      with prior_grade grade carried show ?thesis by auto
    qed
  qed
qed

lemma resolve_iff: "resolve w ids = Inr () \<longleftrightarrow> distinct ids \<and> (\<forall>i \<in> set ids. resolve_one w i = Inr ())"
  by (auto simp: resolve_def res_simps)

lemma reduced_resolves:
  assumes run: "reduce_insight w prior k statement rationale p = Inr rec"
  shows "\<forall>i \<in> set (ir_supporting_receipt_ids rec @ ir_contradicting_receipt_ids rec).
    resolve_one w i = Inr ()"
proof -
  have new: "resolve w (tp_supporting_receipt_ids p) = Inr ()"
    "resolve w (tp_contradicting_receipt_ids p) = Inr ()" "prior_check w p prior = Inr ()"
    using reduce_insightD[OF run] by auto
  have "\<forall>i \<in> set (prior_supporting prior) \<union> set (prior_contradicting prior). resolve_one w i = Inr ()"
  proof (cases prior)
    case (Some q)
    then have "resolve w (ir_supporting_receipt_ids q) = Inr ()"
      "resolve w (ir_contradicting_receipt_ids q) = Inr ()"
      using new(3) by (auto simp: prior_check_def res_simps)
    then show ?thesis
      unfolding resolve_iff using Some by (auto simp: prior_supporting_def prior_contradicting_def)
  qed (simp add: prior_supporting_def prior_contradicting_def)
  with new(1,2) reduced_sides(1,2)[OF run] show ?thesis unfolding resolve_iff by auto
qed

lemma reduced_proof:
  assumes run: "reduce_insight w prior k statement rationale p = Inr rec"
    and admitted: "admitted_ok w" and valid: "proposal_check p = Inr ()"
    and prior: "\<And>q. prior = Some q \<Longrightarrow> edge_side ` set (ir_proof q) = record_sides q"
  shows "edge_side ` set (ir_proof rec) = record_sides rec"
proof -
  obtain b es extra where b: "bundle_check w p = Inr b"
    and es: "proof_edges w b p (new_narrow w prior p) = Inr es"
    and rec: "rec = insight_of w prior k statement rationale p (all_supporting prior p)
      (all_contradicting w prior p) (new_narrow w prior p) (ir_status rec) (ir_trust_level rec)
      extra es"
    using reduce_insightD[OF run] by blast
  from b have member: "map_of (rw_bundles w) (tp_claim_bundle_id p) = Some b"
    and covers: "set (tp_supporting_receipt_ids p) \<union> set (tp_contradicting_receipt_ids p) \<subseteq>
      set (referenced_receipt_ids b)"
    by (auto simp: bundle_check_def Let_def res_simps split: option.splits)
  have "bundle_valid b"
    using admitted map_of_SomeD[OF member] by (force simp: admitted_ok_def)
  moreover have disjoint: "set (tp_supporting_receipt_ids p) \<inter> set (tp_contradicting_receipt_ids p) = {}"
    using valid by (auto simp: proposal_check_def sides_check_def res_simps)
  ultimately have new: "edge_side ` set es = side_set (tp_supporting_receipt_ids p)
      (filter (\<lambda>i. i \<notin> set (new_narrow w prior p)) (tp_contradicting_receipt_ids p))"
    by (intro proof_edges_sides[OF es _ covers])
  have old: "edge_side ` set (prior_proof prior) =
      side_set (prior_supporting prior) (prior_contradicting prior)"
    using prior
    by (cases prior) (auto simp: prior_proof_def prior_supporting_def prior_contradicting_def side_set_def)
  have "ir_proof rec = merge_proof (prior_proof prior) es"
    by (subst rec) (simp add: prior_proof_def)
  then have "edge_side ` set (ir_proof rec) =
      edge_side ` set (prior_proof prior) \<union> edge_side ` set es"
    by (simp add: merge_proof_sides image_Un)
  also have "\<dots> = record_sides rec"
    unfolding old new side_set_Un
    by (rule side_set_eq) (simp_all add: reduced_sides(1,2)[OF run])
  finally show ?thesis .
qed

lemma reduce_keeps_ok:
  assumes "reduce_insight w prior k statement rationale p = Inr rec"
    and "admitted_ok w" "proposal_check p = Inr ()"
    and prior: "\<And>q. prior = Some q \<Longrightarrow> record_ok w q"
  shows "record_ok w rec"
proof -
  have "record_check rec = Inr ()" using reduce_insightD[OF assms(1)] by blast
  moreover have "edge_side ` set (ir_proof rec) = record_sides rec"
    by (rule reduced_proof[OF assms(1,2,3)]) (use prior in \<open>simp add: record_ok_def\<close>)
  ultimately show ?thesis
    using reduced_grade[OF assms(1) prior] reduced_resolves[OF assms(1)]
    by (simp add: record_ok_def)
qed

section \<open>The life of an insight\<close>

text \<open>A proposal of a round; one that its own validator or the reducer refuses changes nothing.\<close>

datatype insight_op = Propose int "string option" "string option" transition_proposal

definition insight_step ::
  "reducer_world \<Rightarrow> insight_record option \<Rightarrow> insight_op \<Rightarrow> insight_record option" where
  "insight_step w s oper = (case oper of Propose k st ra p \<Rightarrow>
     if proposal_check p \<noteq> Inr () then s
     else (case reduce_insight w s k st ra p of Inl _ \<Rightarrow> s | Inr r \<Rightarrow> Some r))"

definition insight_ok :: "reducer_world \<Rightarrow> insight_record option \<Rightarrow> bool" where
  "insight_ok w s \<longleftrightarrow> admitted_ok w \<and> (\<forall>r. s = Some r \<longrightarrow> record_ok w r)"

lemma insight_step_cases:
  "insight_step w s oper = s \<or> (\<exists>k st ra p r. oper = Propose k st ra p \<and>
     proposal_check p = Inr () \<and> reduce_insight w s k st ra p = Inr r \<and>
     insight_step w s oper = Some r)"
  by (auto simp: insight_step_def split: insight_op.splits sum.splits)

interpretation insight: metered_component "insight_step w" "insight_ok w" prior_sides for w
proof unfold_locales
  fix s oper
  assume ok: "insight_ok w s"
  from insight_step_cases[of w s oper]
  show "insight_ok w (insight_step w s oper)"
  proof (elim disjE exE conjE)
    fix k st ra p r
    assume step: "proposal_check p = Inr ()" "reduce_insight w s k st ra p = Inr r"
      "insight_step w s oper = Some r"
    have "record_ok w r"
      by (rule reduce_keeps_ok[OF step(2) _ step(1)]) (use ok in \<open>simp_all add: insight_ok_def\<close>)
    with ok step(3) show ?thesis by (simp add: insight_ok_def)
  qed (use ok in simp)
  from insight_step_cases[of w s oper]
  show "prior_sides s \<le> prior_sides (insight_step w s oper)"
  proof (elim disjE exE conjE)
    fix k st ra p r
    assume step: "reduce_insight w s k st ra p = Inr r" "insight_step w s oper = Some r"
    from reduced_sides(3,4)[OF step(1)] step(2) show ?thesis
      by (simp add: prior_sides_def prior_supporting_def[of "Some r"]
          prior_contradicting_def[of "Some r"])
  qed simp
qed

text \<open>C2. Status follows evidence: whatever proposals arrive in whatever order, an insight's status
  and trust are the ones its own evidence calls for (one inconclusive receipt makes it
  inconclusive, both sides make it contested, only contradiction refutes it, only support
  supports it), every receipt on a side is committed, verified and of this data state, every
  piece of evidence has a proof edge of its own side and no edge points elsewhere, and an
  insight counts as reinforced only with support from an independent replication.\<close>

theorem status_follows_evidence:
  assumes "admitted_ok w" and "foldl (insight_step w) None ops = Some r"
  shows "graded w r \<and> edge_side ` set (ir_proof r) = record_sides r \<and>
    (\<forall>i \<in> set (ir_supporting_receipt_ids r @ ir_contradicting_receipt_ids r).
       resolve_one w i = Inr ()) \<and>
    (ir_status r = Reinforced \<longrightarrow> independently_replicated w r)"
proof -
  have "insight_ok w (foldl (insight_step w) None ops)"
    by (rule insight.run_inv) (simp add: insight_ok_def assms(1))
  with assms(2) show ?thesis by (simp add: insight_ok_def record_ok_def)
qed

text \<open>C3. Refutation is sticky: once a receipt contradicts an insight, no later sequence of proposals
  removes it, and the insight is never again new, reinforced or supported; a later round that
  declines to cite the receipt, or cites any amount of support, does not restore it.\<close>

theorem refutation_is_sticky:
  assumes "admitted_ok w" and "foldl (insight_step w) None ops = Some q"
    and "i \<in> set (ir_contradicting_receipt_ids q)"
    and "foldl (insight_step w) (Some q) later = Some r"
  shows "i \<in> set (ir_contradicting_receipt_ids r) \<and> ir_status r \<in> {Refuted, Inconclusive} \<and>
    ir_trust_level r \<noteq> Supported"
proof -
  have ok: "insight_ok w (Some q)"
    using insight.run_inv[of w None ops] assms(1,2) by (simp add: insight_ok_def)
  have "prior_sides (Some q) \<le> prior_sides (foldl (insight_step w) (Some q) later)"
    by (rule insight.run_meter[OF ok])
  then have kept: "i \<in> set (ir_contradicting_receipt_ids r)"
    using assms(3,4) by (auto simp: prior_sides_def prior_supporting_def prior_contradicting_def)
  have "graded w r"
    using insight.run_inv[OF ok, of later] assms(4) by (simp add: insight_ok_def record_ok_def)
  moreover have "ir_contradicting_receipt_ids r \<noteq> []" using kept by auto
  ultimately show ?thesis
    using kept by (auto simp: graded_def Let_def split: if_splits)
qed

section \<open>Narrow contradictions and reinforcement\<close>

text \<open>A contradiction found on a slice does not overturn the whole: when a round brings no new
  support and each new contradicting receipt has a scope that does not cover some supporting
  receipt's scope, an uncontradicted insight keeps its status, trust and evidence, and every such
  receipt is named in its limitations.\<close>

theorem narrow_contradiction_changes_nothing:
  assumes run: "reduce_insight w (Some q) k statement rationale p = Inr r"
    and old: "record_ok w q" "ir_contradicting_receipt_ids q = []" "ir_trust_level q = Supported"
    and no_support: "set (tp_supporting_receipt_ids p) \<subseteq> set (ir_supporting_receipt_ids q)"
    and narrow: "\<forall>i \<in> set (tp_contradicting_receipt_ids p). \<exists>j \<in> set (ir_supporting_receipt_ids q).
      \<not> scope_covers (er_scope (committed_at w i)) (er_scope (committed_at w j))"
  shows "ir_status r = ir_status q \<and> ir_trust_level r = ir_trust_level q \<and>
    record_sides r = record_sides q \<and>
    (\<forall>i \<in> set (tp_contradicting_receipt_ids p).
       narrow_scope_limitation i (committed_at w i) \<in> set (ir_limitations r))"
proof -
  obtain extra es where v: "verdict w (all_supporting (Some q) p) (all_contradicting w (Some q) p)
      (Some q) (new_supporting (Some q) p) (new_narrow w (Some q) p \<noteq> []) =
      Inr (ir_status r, ir_trust_level r, extra)"
    and r: "r = insight_of w (Some q) k statement rationale p (all_supporting (Some q) p)
      (all_contradicting w (Some q) p) (new_narrow w (Some q) p) (ir_status r) (ir_trust_level r)
      extra es"
    using reduce_insightD[OF run] by blast
  have some: "ir_supporting_receipt_ids q \<noteq> []"
    using old by (auto simp: record_ok_def graded_def Let_def split: if_splits)
  have new: "set (new_narrow w (Some q) p) = set (tp_contradicting_receipt_ids p)"
    using narrow some old(2)
    by (auto simp: new_narrow_def narrow_contradictions_def prior_contradicting_def Let_def list_all_iff)
  have ss: "set (all_supporting (Some q) p) = set (ir_supporting_receipt_ids q)"
    using no_support by (auto simp: all_supporting_def prior_supporting_def)
  have cs: "all_contradicting w (Some q) p = []"
    using new old(2) by (auto simp: all_contradicting_def prior_contradicting_def filter_empty_conv)
  have fresh: "new_supporting (Some q) p = []"
    using no_support by (auto simp: new_supporting_def prior_supporting_def filter_empty_conv)
  have sound: "\<not> list_ex (\<lambda>i. receipt_is_inconclusive (rw_typed w) (committed_at w i))
      (all_supporting (Some q) p)"
    using old by (auto simp: record_ok_def graded_def Let_def list_ex_iff ss split: if_splits)
  have "all_supporting (Some q) p \<noteq> []" using ss some by auto
  with v cs fresh sound have grade: "ir_status r = ir_status q" "ir_trust_level r = ir_trust_level q"
    by (auto simp: verdict_def Let_def split: if_splits)
  have "ir_supporting_receipt_ids r = all_supporting (Some q) p"
    "ir_contradicting_receipt_ids r = all_contradicting w (Some q) p"
    by (subst r, simp only: insight_of_fields)+
  then have "record_sides r = side_set (all_supporting (Some q) p) (all_contradicting w (Some q) p)"
    by simp
  also have "\<dots> = record_sides q" using ss cs old(2) by (simp add: side_set_def)
  finally have "record_sides r = record_sides q" .
  moreover have "set (ir_limitations r) \<supseteq>
      (\<lambda>i. narrow_scope_limitation i (committed_at w i)) ` set (new_narrow w (Some q) p)"
    by (subst r) (auto simp only: insight_of_fields set_merge_ids set_append set_map)
  ultimately show ?thesis using grade new by auto
qed

text \<open>C29. Reinforcement needs fresh independence: an insight that was not reinforced becomes so only
  when the round adds a supporting receipt of a holdout or an external replication whose
  independence key no earlier support carries; a second query on the same snapshot is never an
  upgrade, whatever status the model proposes.\<close>

theorem reinforcement_needs_fresh_independence:
  assumes "reduce_insight w (Some q) k statement rationale p = Inr r"
    and "ir_status r = Reinforced" and "ir_status q \<noteq> Reinforced"
  shows "\<exists>i \<in> set (tp_supporting_receipt_ids p) - set (ir_supporting_receipt_ids q).
    licenses_independence (committed_at w i) \<and>
    truthy (er_evidence_independence_key (committed_at w i)) \<and>
    (\<forall>j \<in> set (ir_supporting_receipt_ids q). er_evidence_independence_key (committed_at w j) \<noteq>
       er_evidence_independence_key (committed_at w i))"
proof -
  let ?new = "new_supporting (Some q) p" and ?ss = "all_supporting (Some q) p"
  obtain extra where v: "verdict w ?ss (all_contradicting w (Some q) p) (Some q) ?new
      (new_narrow w (Some q) p \<noteq> []) = Inr (ir_status r, ir_trust_level r, extra)"
    using reduce_insightD[OF assms(1)] by blast
  then have fresh: "\<not> set (independent_keys w ?new) \<subseteq> set (prior_keys w ?ss ?new)"
    using assms(2,3) by (auto simp: verdict_def Let_def split: if_splits)
  have key_origin: "key \<in> set (independent_keys w ids) \<Longrightarrow> \<exists>i \<in> set ids.
      licenses_independence (committed_at w i) \<and>
      truthy (er_evidence_independence_key (committed_at w i)) \<and>
      er_evidence_independence_key (committed_at w i) = Some key" for key ids
    by (induction ids)
      (auto simp: independent_keys_def List.map_filter_simps Let_def split: if_splits option.splits)
  have prior_key: "key \<in> set (prior_keys w ids ?new)"
    if "j \<in> set ids" "j \<notin> set ?new" "er_evidence_independence_key (committed_at w j) = Some key"
      "truthy (Some key)" for key ids j
    using that
    by (induction ids) (auto simp: prior_keys_def List.map_filter_simps Let_def split: option.splits)
  from fresh obtain key where key: "key \<in> set (independent_keys w ?new)"
    "key \<notin> set (prior_keys w ?ss ?new)" by blast
  then obtain i where i: "i \<in> set ?new" "licenses_independence (committed_at w i)"
    "truthy (er_evidence_independence_key (committed_at w i))"
    "er_evidence_independence_key (committed_at w i) = Some key"
    using key_origin by blast
  have "er_evidence_independence_key (committed_at w j) \<noteq> Some key"
    if j: "j \<in> set (ir_supporting_receipt_ids q)" for j
  proof
    assume "er_evidence_independence_key (committed_at w j) = Some key"
    moreover have "j \<in> set ?ss" "j \<notin> set ?new"
      using j by (auto simp: all_supporting_def new_supporting_def prior_supporting_def)
    ultimately show False using prior_key i(3,4) key(2) by simp
  qed
  moreover have "i \<in> set (tp_supporting_receipt_ids p) - set (ir_supporting_receipt_ids q)"
    using i(1) by (auto simp: new_supporting_def prior_supporting_def)
  ultimately show ?thesis using i by auto
qed

section \<open>A sample life\<close>

definition second_id :: string where
  "second_id = ''rcpt_'' @ replicate 24 CHR ''b''"

definition slice_receipt :: evidence_receipt where
  "slice_receipt = sample_receipt\<lparr>er_scope := (er_scope sample_receipt)
     \<lparr>sc_filters := Some ''x > 1''\<rparr>\<rparr>"

definition holdout_receipt :: evidence_receipt where
  "holdout_receipt = sample_receipt\<lparr>er_receipt_id := second_id,
     er_evidence_independence_key := Some ''k''\<rparr>"

definition insight_claim :: claim where
  "insight_claim = sample_claim\<lparr>cl_evidence_fact_ids :=
     [qualified_ref sample_id ''before'', qualified_ref second_id ''before''],
     cl_derivation_ids := []\<rparr>"

definition insight_world :: reducer_world where
  "insight_world = \<lparr>rw_receipt_hash = sample_hash,
     rw_committed = [(sample_id, slice_receipt), (second_id, holdout_receipt)],
     rw_bundles = [(''b'', sample_bundle\<lparr>cb_claims := [insight_claim]\<rparr>)],
     rw_expected_witness = ''dsw1_0'', rw_typed = False\<rparr>"

definition proposing :: "string list \<Rightarrow> string list \<Rightarrow> transition_proposal" where
  "proposing ss cs = \<lparr>tp_hypothesis_id = ''h'', tp_insight_id = ''i'', tp_family = Descriptive,
     tp_claim_bundle_id = ''b'', tp_supporting_receipt_ids = ss,
     tp_contradicting_receipt_ids = cs, tp_limitations = [], tp_proposed_status = Reinforced\<rparr>"

definition edge_of :: "string \<Rightarrow> hypothesis_side \<Rightarrow> string option \<Rightarrow> insight_proof" where
  "edge_of i side key = \<lparr>pf_receipt_id = i, pf_fact_ids = [''before''], pf_comparison = side,
     pf_evidence_independence_key = key\<rparr>"

definition graded_insight ::
  "insight_status \<Rightarrow> insight_trust \<Rightarrow> string list \<Rightarrow> string list \<Rightarrow> insight_proof list \<Rightarrow>
     limitation list \<Rightarrow> int \<Rightarrow> insight_record" where
  "graded_insight st_new tr_new ss cs es ls k = \<lparr>ir_insight_id = ''i'', ir_hypothesis_id = ''h'',
     ir_family = Descriptive, ir_status = st_new, ir_trust_level = tr_new, ir_statement = None,
     ir_rationale = None, ir_claim_bundle_id = ''b'', ir_supporting_receipt_ids = ss,
     ir_contradicting_receipt_ids = cs, ir_proof = es, ir_limitations = ls,
     ir_created_round = 0, ir_last_updated_round = k\<rparr>"

definition refuted_insight :: insight_record where
  "refuted_insight = graded_insight Refuted Trust_Refuted [] [sample_id]
     [edge_of sample_id Contradicts None] [] 0"

definition contested_insight :: insight_record where
  "contested_insight = graded_insight Inconclusive Contested [second_id] [sample_id]
     [edge_of sample_id Contradicts None, edge_of second_id Supports (Some ''k'')] [] 1"

definition new_insight :: insight_record where
  "new_insight = graded_insight New Supported [sample_id] [] [edge_of sample_id Supports None] [] 0"

lemma insight_world_admitted: "admitted_ok insight_world"
  unfolding admitted_ok_def by code_simp

lemma refuting_run:
  "foldl (insight_step insight_world) None [Propose 0 None None (proposing [] [sample_id])] =
     Some refuted_insight"
  by code_simp

lemma contesting_run:
  "foldl (insight_step insight_world) (Some refuted_insight)
     [Propose 1 None None (proposing [second_id] [])] = Some contested_insight"
  by code_simp

theorem refutation_is_sticky_witness:
  "sample_id \<in> set (ir_contradicting_receipt_ids contested_insight) \<and>
   ir_trust_level contested_insight \<noteq> Supported"
  using refutation_is_sticky[OF insight_world_admitted refuting_run _ contesting_run, of sample_id]
  by (simp add: refuted_insight_def graded_insight_def)

theorem status_follows_evidence_witness: "graded insight_world refuted_insight"
  using status_follows_evidence[OF insight_world_admitted refuting_run] by blast

theorem reinforcement_needs_fresh_independence_witness:
  "\<exists>i \<in> set [second_id] - set [sample_id]. licenses_independence (committed_at insight_world i)"
proof -
  let ?r = "graded_insight Reinforced Supported [sample_id, second_id] []
    [edge_of sample_id Supports None, edge_of second_id Supports (Some ''k'')] [] 1"
  have "reduce_insight insight_world (Some new_insight) 1 None None (proposing [second_id] []) =
      Inr ?r"
    by code_simp
  from reinforcement_needs_fresh_independence[OF this] show ?thesis
    by (simp add: graded_insight_def new_insight_def proposing_def) blast
qed

theorem narrow_contradiction_changes_nothing_witness:
  "narrow_scope_limitation sample_id slice_receipt \<in>
     {Narrow_Scope sample_id (Some ''x > 1'') None [''x'']} \<and>
   (\<exists>r. reduce_insight insight_world (Some (graded_insight New Supported [second_id] []
      [edge_of second_id Supports (Some ''k'')] [] 0)) 1 None None (proposing [] [sample_id]) = Inr r \<and>
    ir_status r = New)"
proof -
  let ?q = "graded_insight New Supported [second_id] [] [edge_of second_id Supports (Some ''k'')] [] 0"
  let ?r = "graded_insight New Supported [second_id] [] [edge_of second_id Supports (Some ''k'')]
    [Narrow_Scope sample_id (Some ''x > 1'') None [''x'']] 1"
  let ?p = "proposing [] [sample_id]"
  have run: "reduce_insight insight_world (Some ?q) 1 None None ?p = Inr ?r" by code_simp
  have "foldl (insight_step insight_world) None [Propose 0 None None (proposing [second_id] [])] = Some ?q"
    by code_simp
  then have ok: "record_ok insight_world ?q"
    using insight.run_inv[of insight_world None "[Propose 0 None None (proposing [second_id] [])]"]
      insight_world_admitted
    by (simp add: insight_ok_def del: foldl.simps)
  have "\<not> scope_covers (er_scope (committed_at insight_world sample_id))
      (er_scope (committed_at insight_world second_id))"
    by code_simp
  then have "ir_status ?r = ir_status ?q"
    using narrow_contradiction_changes_nothing[OF run ok]
    by (simp add: graded_insight_def proposing_def)
  with run show ?thesis
    by (simp add: graded_insight_def narrow_scope_limitation_def slice_receipt_def sample_receipt_def)
qed

end
