(* ===== verification/Candidates.thy ===== *)
theory Candidates
  imports ExplorationSchema ClaimGates Rounding "HOL-Library.Product_Lexorder"
begin

text \<open>
  Hypotheses the model proposes (\<open>schemas/hypotheses.py\<close>) and the identities the control
  plane derives from them (\<open>agents/exploration/candidates.py\<close>): fingerprints, canonical groups,
  coverage keys, the mandatory probes of a dataset, and the coverage matrix.

  Parameters: \<open>casefold\<close> is Python's \<open>casefold\<close> after NFKC normalization (the Unicode tables), \<open>digest\<close> the
  hexadecimal SHA-256 of the canonical JSON of a signature, \<open>set_order\<close> the order in which
  Python iterates a set of strings.
\<close>

section \<open>Proposals\<close>

datatype predicate_operator =
    Differs | Associated_With | Greater_Than | Less_Than | Equal_To | Not_Equal_To
  | Has_Spike | Exists | Absent

record hypothesis_predicate =
  hp_metric :: string
  hp_operator :: predicate_operator
  hp_left_operand :: "string option"
  hp_right_operand :: "string option"
  hp_threshold :: "py_real option"

record hypothesis_proposal =
  hy_statement :: string
  hy_rationale :: string
  hy_expected_evidence :: string
  hy_falsification_conditions :: "string list"
  hy_family :: insight_family
  hy_method_family :: string
  hy_dataset_ids :: "string list"
  hy_columns :: "string list"
  hy_segment :: "string option"
  hy_time_scope :: "string option"
  hy_probe_kind :: string
  hy_predicate :: hypothesis_predicate
  hy_parent_hypothesis_id :: "string option"

datatype proposal_fault =
    Blank_Value
  | Items_Missing
  | Blank_Item
  | Items_Not_Unique
  | Threshold_Not_Finite
  | Conclusion_Without_Reason
  | Concluded_With_Proposals
  | Nothing_Proposed
  | Too_Many_Proposals

text \<open>\<open>_non_blank\<close>, \<open>_unique_non_blank_tuple\<close>, \<open>_optional_non_blank\<close>: they strip what they accept.\<close>

definition non_blank :: "string \<Rightarrow> proposal_fault + string" where
  "non_blank s = guarding [(py_strip s = [], Blank_Value)] (py_strip s)"

definition optional_non_blank :: "string option \<Rightarrow> proposal_fault + string option" where
  "optional_non_blank v = (case v of None \<Rightarrow> Inr None
     | Some s \<Rightarrow> bind_res (non_blank s) (\<lambda>t. Inr (Some t)))"

definition unique_non_blank :: "string list \<Rightarrow> proposal_fault + string list" where
  "unique_non_blank xs = (let stripped = map py_strip xs in
     guarding [([] \<in> set stripped, Blank_Item), (\<not> distinct stripped, Items_Not_Unique)] stripped)"

definition required_items :: "string list \<Rightarrow> proposal_fault + string list" where
  "required_items xs = (if xs = [] then Inl Items_Missing else unique_non_blank xs)"

definition validated_predicate :: "hypothesis_predicate \<Rightarrow> proposal_fault + hypothesis_predicate" where
  "validated_predicate p =
     bind_res (non_blank (hp_metric p)) (\<lambda>metric.
     bind_res (optional_non_blank (hp_left_operand p)) (\<lambda>left.
     bind_res (optional_non_blank (hp_right_operand p)) (\<lambda>right.
     guarding [(\<not> (case hp_threshold p of None \<Rightarrow> True | Some x \<Rightarrow> isfinite x), Threshold_Not_Finite)]
       (p\<lparr>hp_metric := metric, hp_left_operand := left, hp_right_operand := right\<rparr>))))"

definition validated_proposal :: "hypothesis_proposal \<Rightarrow> proposal_fault + hypothesis_proposal" where
  "validated_proposal h =
     bind_res (non_blank (hy_statement h)) (\<lambda>st.
     bind_res (non_blank (hy_rationale h)) (\<lambda>rationale.
     bind_res (non_blank (hy_expected_evidence h)) (\<lambda>evidence.
     bind_res (required_items (hy_falsification_conditions h)) (\<lambda>conditions.
     bind_res (non_blank (hy_method_family h)) (\<lambda>method_family.
     bind_res (required_items (hy_dataset_ids h)) (\<lambda>dataset_ids.
     bind_res (unique_non_blank (hy_columns h)) (\<lambda>columns.
     bind_res (optional_non_blank (hy_segment h)) (\<lambda>segment.
     bind_res (optional_non_blank (hy_time_scope h)) (\<lambda>time_scope.
     bind_res (non_blank (hy_probe_kind h)) (\<lambda>probe_kind.
     bind_res (validated_predicate (hy_predicate h)) (\<lambda>predicate.
     bind_res (optional_non_blank (hy_parent_hypothesis_id h)) (\<lambda>parent.
     Inr \<lparr>hy_statement = st, hy_rationale = rationale, hy_expected_evidence = evidence,
       hy_falsification_conditions = conditions, hy_family = hy_family h,
       hy_method_family = method_family, hy_dataset_ids = dataset_ids, hy_columns = columns,
       hy_segment = segment, hy_time_scope = time_scope, hy_probe_kind = probe_kind,
       hy_predicate = predicate, hy_parent_hypothesis_id = parent\<rparr>))))))))))))"

text \<open>
  \<open>HypothesisProposalBatch\<close>: its proposals are validated before
  \<open>_conclusion_matches_payload\<close> runs.
\<close>

record proposal_batch =
  pb_concluded :: bool
  pb_conclusion_reason :: "string option"
  pb_proposals :: "hypothesis_proposal list"

definition max_proposals :: nat where
  "max_proposals = 12"

definition validated_batch :: "proposal_batch \<Rightarrow> proposal_fault + proposal_batch" where
  "validated_batch b = bind_res (map_res validated_proposal (pb_proposals b)) (\<lambda>proposals.
     guarding
       [(length proposals > max_proposals, Too_Many_Proposals),
        (pb_concluded b \<and>
           py_strip (case pb_conclusion_reason b of None \<Rightarrow> [] | Some r \<Rightarrow> r) = [],
         Conclusion_Without_Reason),
        (pb_concluded b \<and> proposals \<noteq> [], Concluded_With_Proposals),
        (\<not> pb_concluded b \<and> proposals = [], Nothing_Proposed)]
       (b\<lparr>pb_proposals := proposals\<rparr>))"

section \<open>Identity\<close>

datatype hypothesis_status =
    Hs_Proposed | Hs_Admitted | Hs_Running | Hs_Supported | Hs_Refuted | Hs_Inconclusive
  | Hs_Rejected_Duplicate | Hs_Rejected_Infeasible | Hs_Rejected_Policy

datatype candidate_origin =
    From_Bootstrap | From_Agent | From_User | From_Followup | From_Mandatory

text \<open>
  The dictionaries \<open>_semantic_signature\<close> and \<open>_group_signature\<close> return. Their keys are fixed,
  so each is a record; the enumerations stand for their values.
\<close>

record semantic_signature =
  ss_family :: insight_family
  ss_method_family :: string
  ss_dataset_ids :: "string list"
  ss_columns :: "string list"
  ss_segment :: string
  ss_time_scope :: string
  ss_probe_kind :: string
  ss_metric :: string
  ss_operator :: predicate_operator
  ss_left_operand :: string
  ss_right_operand :: string
  ss_threshold :: "py_real option"

record group_signature =
  gs_family :: insight_family
  gs_method_family :: string
  gs_dataset_ids :: "string list"
  gs_column_arity :: nat
  gs_has_segment :: bool
  gs_has_time_scope :: bool
  gs_probe_kind :: string
  gs_predicate_operator :: predicate_operator

datatype signature = Semantic semantic_signature | Group group_signature

text \<open>\<open>re.sub(r"\s+", " ", s)\<close>\<close>

fun collapse_spaces :: "string \<Rightarrow> string" where
  "collapse_spaces [] = []"
| "collapse_spaces [c] = [if py_space c then CHR '' '' else c]"
| "collapse_spaces (c # d # s) =
     (if py_space c then
        if py_space d then collapse_spaces (d # s) else CHR '' '' # collapse_spaces (d # s)
      else c # collapse_spaces (d # s))"

definition normalize_text :: "(string \<Rightarrow> string) \<Rightarrow> string \<Rightarrow> string" where
  "normalize_text casefold s = collapse_spaces (py_strip (casefold s))"

definition or_empty :: "string option \<Rightarrow> string" where
  "or_empty v = (case v of None \<Rightarrow> [] | Some s \<Rightarrow> s)"

definition semantic_signature_of :: "(string \<Rightarrow> string) \<Rightarrow> hypothesis_proposal \<Rightarrow> semantic_signature" where
  "semantic_signature_of casefold h = (let n = normalize_text casefold; p = hy_predicate h in
     \<lparr>ss_family = hy_family h, ss_method_family = n (hy_method_family h),
      ss_dataset_ids = sort (map n (hy_dataset_ids h)), ss_columns = map n (hy_columns h),
      ss_segment = n (or_empty (hy_segment h)), ss_time_scope = n (or_empty (hy_time_scope h)),
      ss_probe_kind = n (hy_probe_kind h), ss_metric = n (hp_metric p),
      ss_operator = hp_operator p, ss_left_operand = n (or_empty (hp_left_operand p)),
      ss_right_operand = n (or_empty (hp_right_operand p)), ss_threshold = hp_threshold p\<rparr>)"

definition group_signature_of :: "(string \<Rightarrow> string) \<Rightarrow> hypothesis_proposal \<Rightarrow> group_signature" where
  "group_signature_of casefold h = (let n = normalize_text casefold in
     \<lparr>gs_family = hy_family h, gs_method_family = n (hy_method_family h),
      gs_dataset_ids = sort (map n (hy_dataset_ids h)), gs_column_arity = length (hy_columns h),
      gs_has_segment = (hy_segment h \<noteq> None), gs_has_time_scope = (hy_time_scope h \<noteq> None),
      gs_probe_kind = n (hy_probe_kind h), gs_predicate_operator = hp_operator (hy_predicate h)\<rparr>)"

record candidate_seed =
  cs_proposal :: hypothesis_proposal
  cs_hypothesis_id :: string
  cs_fingerprint :: string
  cs_group_key :: string
  cs_coverage_key :: string
  cs_sequence_index :: int
  cs_status :: hypothesis_status
  cs_origin :: candidate_origin
  cs_mandatory :: bool
  cs_priority :: rat

datatype candidate_error =
    Sequence_Index_Too_Small
  | Rounds_Too_Small
  | Parent_Mismatch
  | Group_Size_Too_Small
  | Blank_Profile_Column
  | Empty_Dataset_Id
  | Profile_Unavailable string
  | Invalid_Proposal proposal_fault

definition seed_of ::
  "(string \<Rightarrow> string) \<Rightarrow> (signature \<Rightarrow> string) \<Rightarrow> hypothesis_proposal \<Rightarrow> int \<Rightarrow> candidate_origin \<Rightarrow>
    bool \<Rightarrow> candidate_seed" where
  "seed_of casefold digest h index org mandatory =
     (let hash = digest (Semantic (semantic_signature_of casefold h));
          fingerprint = take 32 hash
      in \<lparr>cs_proposal = h, cs_hypothesis_id = ''hyp_'' @ take 24 fingerprint,
          cs_fingerprint = fingerprint,
          cs_group_key = ''hgrp_'' @ take 24 (digest (Group (group_signature_of casefold h))),
          cs_coverage_key = ''cov_'' @ take 24 hash, cs_sequence_index = index,
          cs_status = Hs_Proposed, cs_origin = org, cs_mandatory = mandatory,
          cs_priority = 0\<rparr>)"

definition candidate_seed_of ::
  "(string \<Rightarrow> string) \<Rightarrow> (signature \<Rightarrow> string) \<Rightarrow> hypothesis_proposal \<Rightarrow> int \<Rightarrow> candidate_origin \<Rightarrow>
    bool \<Rightarrow> candidate_error + candidate_seed" where
  "candidate_seed_of casefold digest h index org mandatory =
     guarding [(index < 1, Sequence_Index_Too_Small)] (seed_of casefold digest h index org mandatory)"

text \<open>\<open>for offset, proposal in enumerate(proposals)\<close>\<close>

fun enumerate_from :: "int \<Rightarrow> 'a list \<Rightarrow> (int \<times> 'a) list" where
  "enumerate_from n [] = []"
| "enumerate_from n (x # xs) = (n, x) # enumerate_from (n + 1) xs"

definition materialize_proposals ::
  "(string \<Rightarrow> string) \<Rightarrow> (signature \<Rightarrow> string) \<Rightarrow> hypothesis_proposal list \<Rightarrow> int \<Rightarrow>
    candidate_origin \<Rightarrow> bool \<Rightarrow> candidate_error + candidate_seed list" where
  "materialize_proposals casefold digest hs first org mandatory =
     map_res (\<lambda>(index, h). candidate_seed_of casefold digest h index org mandatory)
       (enumerate_from first hs)"

definition materialize_proposal_batch ::
  "(string \<Rightarrow> string) \<Rightarrow> (signature \<Rightarrow> string) \<Rightarrow> proposal_batch \<Rightarrow> int \<Rightarrow> candidate_origin \<Rightarrow>
    candidate_error + candidate_seed list" where
  "materialize_proposal_batch casefold digest b first org =
     (if first < 1 then Inl Sequence_Index_Too_Small
      else materialize_proposals casefold digest (pb_proposals b) first org False)"

text \<open>\<open>round(x, 12)\<close>\<close>

definition round12 :: "rat \<Rightarrow> rat" where
  "round12 = round_digits 12"

definition followup_round_decay :: rat where
  "followup_round_decay = 9 / 10"

definition followup_candidate_seed ::
  "(string \<Rightarrow> string) \<Rightarrow> (signature \<Rightarrow> string) \<Rightarrow> hypothesis_proposal \<Rightarrow> candidate_seed \<Rightarrow> int \<Rightarrow>
    int \<Rightarrow> candidate_error + candidate_seed" where
  "followup_candidate_seed casefold digest h parent index rounds_since =
     (if rounds_since < 1 then Inl Rounds_Too_Small
      else if hy_parent_hypothesis_id h \<noteq> None \<and>
              hy_parent_hypothesis_id h \<noteq> Some (cs_hypothesis_id parent) then Inl Parent_Mismatch
      else bind_res (candidate_seed_of casefold digest h index From_Followup False) (\<lambda>seeded.
        Inr (seeded\<lparr>cs_priority :=
          round12 (cs_priority parent * followup_round_decay ^ nat rounds_since)\<rparr>)))"

definition with_priority :: "candidate_seed \<Rightarrow> rat \<Rightarrow> candidate_seed" where
  "with_priority c p = c\<lparr>cs_priority := p\<rparr>"

section \<open>Grouping\<close>

text \<open>\<open>grouped = defaultdict(list); grouped[key(x)].append(x)\<close>\<close>

definition group_step :: "('a \<Rightarrow> 'k) \<Rightarrow> ('k, 'a list) dict \<Rightarrow> 'a \<Rightarrow> ('k, 'a list) dict" where
  "group_step key d x = dict_set (key x) (dict_get d (key x) [] @ [x]) d"

definition group_by :: "('a \<Rightarrow> 'k) \<Rightarrow> 'a list \<Rightarrow> ('k, 'a list) dict" where
  "group_by key xs = foldl (group_step key) [] xs"

text \<open>\<open>{key(x): x for x in xs}\<close>: the last of several equal keys wins.\<close>

definition dict_by :: "('a \<Rightarrow> 'k) \<Rightarrow> 'a list \<Rightarrow> ('k, 'a) dict" where
  "dict_by key xs = foldl (\<lambda>d x. dict_set (key x) x d) [] xs"

record canonical_group =
  cg_group_key :: string
  cg_member_fingerprints :: "string list"
  cg_member_count :: nat
  cg_kept_count :: nat

definition kept_of_group :: "nat \<Rightarrow> candidate_seed list \<Rightarrow> candidate_seed list" where
  "kept_of_group max_per_group members =
     (let mandatory = filter cs_mandatory members;
          optional = sort_key (\<lambda>c. (- cs_priority c, cs_fingerprint c))
            (filter (\<lambda>c. \<not> cs_mandatory c) members);
          by_fingerprint = dict_by cs_fingerprint (mandatory @ take max_per_group optional)
      in map (\<lambda>k. the (map_of by_fingerprint k)) (sort (dict_keys by_fingerprint)))"

definition group_record :: "nat \<Rightarrow> string \<Rightarrow> candidate_seed list \<Rightarrow> canonical_group" where
  "group_record max_per_group key members =
     \<lparr>cg_group_key = key, cg_member_fingerprints = map cs_fingerprint members,
      cg_member_count = length members,
      cg_kept_count = length (kept_of_group max_per_group members)\<rparr>"

definition compress_canonical_groups ::
  "candidate_seed list \<Rightarrow> nat \<Rightarrow> candidate_error + (candidate_seed list \<times> canonical_group list)" where
  "compress_canonical_groups cs max_per_group =
     (if max_per_group < 1 then Inl Group_Size_Too_Small
      else let grouped = group_by cs_group_key cs;
               groups = map (\<lambda>k. (k, sort_key cs_fingerprint (the (map_of grouped k))))
                 (sort (dict_keys grouped))
           in Inr (sort_key cs_fingerprint
                     (concat (map (\<lambda>(k, members). kept_of_group max_per_group members) groups)),
                   map (\<lambda>(k, members). group_record max_per_group k members) groups))"

section \<open>Mandatory probes\<close>

record dataset_profile =
  dp_dataset_id :: string
  dp_region_dimensions :: "string list"
  dp_metric_columns :: "string list"
  dp_missing_value_columns :: "string list"
  dp_missingness_group_dimensions :: "string list"
  dp_datetime_columns :: "string list"
  dp_spike_metric_columns :: "string list"

definition canonical_columns ::
  "(string list \<Rightarrow> string list) \<Rightarrow> (string \<Rightarrow> string) \<Rightarrow> string list \<Rightarrow> candidate_error + string list" where
  "canonical_columns set_order casefold xs =
     guarding [(\<exists>x \<in> set xs. py_strip x = [], Blank_Profile_Column)]
       (sort_key (normalize_text casefold) (set_order xs))"

definition validated_profile ::
  "(string list \<Rightarrow> string list) \<Rightarrow> (string \<Rightarrow> string) \<Rightarrow> dataset_profile \<Rightarrow>
    candidate_error + dataset_profile" where
  "validated_profile set_order casefold p = (let cols = canonical_columns set_order casefold in
     if dp_dataset_id p = [] then Inl Empty_Dataset_Id
     else bind_res (cols (dp_region_dimensions p)) (\<lambda>regions.
       bind_res (cols (dp_metric_columns p)) (\<lambda>metrics.
       bind_res (cols (dp_missing_value_columns p)) (\<lambda>missing.
       bind_res (cols (dp_missingness_group_dimensions p)) (\<lambda>groups.
       bind_res (cols (dp_datetime_columns p)) (\<lambda>datetimes.
       bind_res (cols (dp_spike_metric_columns p)) (\<lambda>spikes.
       Inr \<lparr>dp_dataset_id = dp_dataset_id p, dp_region_dimensions = regions,
         dp_metric_columns = metrics, dp_missing_value_columns = missing,
         dp_missingness_group_dimensions = groups, dp_datetime_columns = datetimes,
         dp_spike_metric_columns = spikes\<rparr>)))))))"

definition probe ::
  "string \<Rightarrow> string \<Rightarrow> string \<Rightarrow> string \<Rightarrow> insight_family \<Rightarrow> string \<Rightarrow> string \<Rightarrow> string list \<Rightarrow> string \<Rightarrow>
    hypothesis_predicate \<Rightarrow> hypothesis_proposal" where
  "probe st rationale evidence falsified family method_family dataset columns probe_kind predicate =
     \<lparr>hy_statement = st, hy_rationale = rationale, hy_expected_evidence = evidence,
      hy_falsification_conditions = [falsified], hy_family = family,
      hy_method_family = method_family, hy_dataset_ids = [dataset], hy_columns = columns,
      hy_segment = None, hy_time_scope = None, hy_probe_kind = probe_kind,
      hy_predicate = predicate, hy_parent_hypothesis_id = None\<rparr>"

definition region_probe :: "string \<Rightarrow> string \<Rightarrow> string \<Rightarrow> hypothesis_proposal" where
  "region_probe dataset region metric = probe
     (''Does '' @ metric @ '' differ materially across '' @ region @ ''?'')
     ''Eval-0 requires region-by-metric coverage.''
     ''A group comparison with effect and uncertainty.''
     (''No material '' @ metric @ '' difference across '' @ region @ '' is observed.'')
     Diagnostic ''compare_groups'' dataset [region, metric] ''region_difference''
     \<lparr>hp_metric = metric, hp_operator = Differs, hp_left_operand = Some region,
      hp_right_operand = Some ''groups'', hp_threshold = None\<rparr>"

definition missingness_probe :: "string \<Rightarrow> string \<Rightarrow> string \<Rightarrow> hypothesis_proposal" where
  "missingness_probe dataset column dimension = probe
     (''Is missingness in '' @ column @ '' materially associated with '' @ dimension @
       '' (at least 5 percentage points)?'')
     ''A missing rate alone does not explain its mechanism.''
     ''A missingness diagnostic across an observed group.''
     (''The observed missing-rate range across '' @ dimension @ '' is below 5 percentage points.'')
     Diagnostic ''diagnose_missingness'' dataset [column, dimension] ''missingness_mechanism''
     \<lparr>hp_metric = column, hp_operator = Associated_With, hp_left_operand = None,
      hp_right_operand = Some dimension, hp_threshold = Some (Finite 5)\<rparr>"

definition missing_rate_probe :: "string \<Rightarrow> string \<Rightarrow> hypothesis_proposal" where
  "missing_rate_probe dataset column = probe
     (''What is the missing rate of '' @ column @ ''?'')
     ''No grouping dimension is available for a mechanism probe.''
     ''A direct missing count and rate only.''
     (column @ '' has no missing values.'')
     Descriptive ''diagnose_missingness'' dataset [column] ''missingness_rate_scan''
     \<lparr>hp_metric = column, hp_operator = Greater_Than, hp_left_operand = None,
      hp_right_operand = None, hp_threshold = Some (Finite 0)\<rparr>"

definition spike_probe :: "string \<Rightarrow> string \<Rightarrow> string \<Rightarrow> hypothesis_proposal" where
  "spike_probe dataset datetime_column metric = probe
     (''Does '' @ metric @ '' contain a date-localized spike by '' @ datetime_column @ ''?'')
     ''Aggregate outliers must be traced to their time scope.''
     ''A dated series with a localized spike assessment.''
     (''No date-localized '' @ metric @ '' spike is observed.'')
     insight_family.Exploratory ''analyze_time_series'' dataset [datetime_column, metric] ''spike_day''
     \<lparr>hp_metric = metric, hp_operator = Has_Spike, hp_left_operand = None,
      hp_right_operand = Some datetime_column, hp_threshold = Some (Finite (7/2))\<rparr>"

definition profile_probes :: "dataset_profile \<Rightarrow> hypothesis_proposal list" where
  "profile_probes p = (let d = dp_dataset_id p in
     [region_probe d region metric. region \<leftarrow> dp_region_dimensions p, metric \<leftarrow> dp_metric_columns p] @
     concat (map (\<lambda>column. if dp_missingness_group_dimensions p \<noteq> []
         then map (missingness_probe d column) (dp_missingness_group_dimensions p)
         else [missing_rate_probe d column]) (dp_missing_value_columns p)) @
     [spike_probe d datetime_column metric.
        datetime_column \<leftarrow> dp_datetime_columns p, metric \<leftarrow> dp_spike_metric_columns p])"

fun on_error :: "('e \<Rightarrow> 'f) \<Rightarrow> 'e + 'a \<Rightarrow> 'f + 'a" where
  "on_error g (Inl e) = Inl (g e)"
| "on_error g (Inr x) = Inr x"

definition mandatory_probe_seeds ::
  "(string \<Rightarrow> string) \<Rightarrow> (signature \<Rightarrow> string) \<Rightarrow> dataset_profile list \<Rightarrow> int \<Rightarrow>
    candidate_error + candidate_seed list" where
  "mandatory_probe_seeds casefold digest profiles first =
     (if first < 1 then Inl Sequence_Index_Too_Small
      else bind_res (map_res (\<lambda>h. on_error Invalid_Proposal (validated_proposal h))
          (concat (map profile_probes
            (sort_key (\<lambda>p. normalize_text casefold (dp_dataset_id p)) profiles)))) (\<lambda>proposals.
        materialize_proposals casefold digest
          (sort_key (\<lambda>h. take 32 (digest (Semantic (semantic_signature_of casefold h)))) proposals)
          first From_Mandatory True))"

section \<open>Coverage\<close>

record coverage_row =
  cr_coverage_key :: string
  cr_family :: insight_family
  cr_dataset_ids :: "string list"
  cr_columns :: "string list"
  cr_method_family :: string
  cr_probe_kind :: string
  cr_mandatory :: bool
  cr_explored :: bool

definition target_step :: "(string, candidate_seed) dict \<Rightarrow> candidate_seed \<Rightarrow> (string, candidate_seed) dict" where
  "target_step by_key target = (case map_of by_key (cs_coverage_key target) of
       None \<Rightarrow> dict_set (cs_coverage_key target) target by_key
     | Some prior \<Rightarrow> if cs_mandatory target \<and> \<not> cs_mandatory prior
         then dict_set (cs_coverage_key target) target by_key else by_key)"

definition coverage_row_of ::
  "(string \<Rightarrow> string) \<Rightarrow> string list \<Rightarrow> string \<times> candidate_seed \<Rightarrow> coverage_row" where
  "coverage_row_of casefold executed kv = (let h = cs_proposal (snd kv) in
     \<lparr>cr_coverage_key = fst kv, cr_family = hy_family h,
      cr_dataset_ids = sort_key (normalize_text casefold) (hy_dataset_ids h),
      cr_columns = hy_columns h, cr_method_family = hy_method_family h,
      cr_probe_kind = hy_probe_kind h, cr_mandatory = cs_mandatory (snd kv),
      cr_explored = (fst kv \<in> set executed)\<rparr>)"

definition coverage_matrix ::
  "(string \<Rightarrow> string) \<Rightarrow> candidate_seed list \<Rightarrow> string list \<Rightarrow> coverage_row list" where
  "coverage_matrix casefold targets executed =
     map (coverage_row_of casefold executed) (sort_key fst (foldl target_step [] targets))"

definition unexplored_coverage :: "coverage_row list \<Rightarrow> coverage_row list" where
  "unexplored_coverage rows = filter (\<lambda>r. \<not> cr_explored r) rows"

section \<open>Profiles of the run's datasets\<close>

text \<open>
  \<open>_dataset_profiles\<close> of \<open>worker/exploration.py\<close>: what the probes need of the
  \<open>DatasetProfile\<close> artifacts. \<open>str_casefold\<close> stands for Python's \<open>str.casefold\<close>.
\<close>

record dataset_facts =
  df_categorical_columns :: "string list"
  df_numeric_columns :: "string list"
  df_dtypes :: "(string, string) dict"
  df_missing_values :: "(string, int) dict"

definition region_markers :: "string list" where
  "region_markers = [''region'', ''country'', ''state'', ''market'', ''territory'']"

definition is_region :: "(string \<Rightarrow> string) \<Rightarrow> string \<Rightarrow> bool" where
  "is_region str_casefold column = list_ex (\<lambda>m. contains m (str_casefold column)) region_markers"

definition is_datetime :: "(string \<Rightarrow> string) \<Rightarrow> string \<times> string \<Rightarrow> bool" where
  "is_datetime str_casefold cd \<longleftrightarrow> contains ''date'' (str_casefold (fst cd)) \<or>
     contains ''time'' (str_casefold (fst cd)) \<or> contains ''datetime'' (str_casefold (snd cd))"

definition raw_profile :: "(string \<Rightarrow> string) \<Rightarrow> string \<Rightarrow> dataset_facts \<Rightarrow> dataset_profile" where
  "raw_profile str_casefold d facts =
     \<lparr>dp_dataset_id = d,
      dp_region_dimensions = filter (is_region str_casefold) (df_categorical_columns facts),
      dp_metric_columns = df_numeric_columns facts,
      dp_missing_value_columns = map fst (filter (\<lambda>cn. 0 < snd cn) (df_missing_values facts)),
      dp_missingness_group_dimensions = df_categorical_columns facts,
      dp_datetime_columns = map fst (filter (is_datetime str_casefold) (df_dtypes facts)),
      dp_spike_metric_columns = df_numeric_columns facts\<rparr>"

definition dataset_profiles ::
  "(string list \<Rightarrow> string list) \<Rightarrow> (string \<Rightarrow> string) \<Rightarrow> (string \<Rightarrow> string) \<Rightarrow>
    (string, dataset_facts) dict \<Rightarrow> string list \<Rightarrow> candidate_error + dataset_profile list" where
  "dataset_profiles set_order casefold str_casefold by_id dataset_ids =
     map_res (\<lambda>d. case map_of by_id d of
         None \<Rightarrow> Inl (Profile_Unavailable d)
       | Some facts \<Rightarrow> validated_profile set_order casefold (raw_profile str_casefold d facts))
       dataset_ids"

end
