(* ===== verification/Scheduler.thy ===== *)
theory Scheduler
  imports Candidates
begin

text \<open>
  The scheduler of hypotheses (\<open>agents/exploration/scheduler.py\<close>): nine admission checks, a
  priority, one representative per canonical group, and the selection of a batch: mandatory
  coverage first, then family quotas, then score. Also the quotas of a thinking level and the
  decision to stop when nothing new is found.
\<close>

section \<open>Inputs\<close>

record candidate_signals =
  sg_business_value :: py_real
  sg_information_gain_proxy :: py_real
  sg_expected_cost :: py_real
  sg_multiplicity_risk :: py_real
  sg_query_fingerprint :: "string option"

text \<open>\<open>Field(ge=0.0, le=1.0)\<close> refuses what is smaller or greater, so it lets a NaN pass.\<close>

definition unit_interval :: "py_real \<Rightarrow> bool" where
  "unit_interval x \<longleftrightarrow> \<not> real_less x (Finite 0) \<and> \<not> real_less (Finite 1) x"

definition is_hex :: "char \<Rightarrow> bool" where
  "is_hex c \<longleftrightarrow> is_digit c \<or> (CHR ''a'' \<le> c \<and> c \<le> CHR ''f'')"

definition signals_valid :: "candidate_signals \<Rightarrow> bool" where
  "signals_valid s \<longleftrightarrow> unit_interval (sg_business_value s) \<and>
     unit_interval (sg_information_gain_proxy s) \<and> unit_interval (sg_expected_cost s) \<and>
     unit_interval (sg_multiplicity_risk s) \<and>
     (case sg_query_fingerprint s of None \<Rightarrow> True | Some f \<Rightarrow> length f = 16 \<and> list_all is_hex f)"

record priority_weights =
  pw_business_value :: py_real
  pw_information_gain_proxy :: py_real
  pw_novelty :: py_real
  pw_coverage_gap :: py_real
  pw_feasibility :: py_real
  pw_expected_cost :: py_real
  pw_redundancy :: py_real
  pw_multiplicity_risk :: py_real

definition weights_valid :: "priority_weights \<Rightarrow> bool" where
  "weights_valid w \<longleftrightarrow> list_all (\<lambda>v. isfinite v \<and> \<not> real_less v (Finite 0))
     [pw_business_value w, pw_information_gain_proxy w, pw_novelty w, pw_coverage_gap w,
      pw_feasibility w, pw_expected_cost w, pw_redundancy w, pw_multiplicity_risk w]"

record scheduler_policy =
  sp_scoring_policy_version :: string
  sp_weights :: priority_weights
  sp_admission_priority :: py_real
  sp_no_information_priority :: py_real
  sp_max_batch_size :: int
  sp_max_multiplicity_risk :: py_real

definition scheduler_policy_valid :: "scheduler_policy \<Rightarrow> bool" where
  "scheduler_policy_valid p \<longleftrightarrow> sp_scoring_policy_version p \<noteq> [] \<and> weights_valid (sp_weights p) \<and>
     1 \<le> sp_max_batch_size p \<and> unit_interval (sp_max_multiplicity_risk p) \<and>
     isfinite (sp_admission_priority p) \<and> isfinite (sp_no_information_priority p)"

record priority_features =
  pf_business_value :: py_real
  pf_information_gain_proxy :: py_real
  pf_novelty :: py_real
  pf_coverage_gap :: py_real
  pf_feasibility :: py_real
  pf_expected_cost :: py_real
  pf_redundancy :: py_real
  pf_multiplicity_risk :: py_real

definition features_valid :: "priority_features \<Rightarrow> bool" where
  "features_valid f \<longleftrightarrow> list_all unit_interval
     [pf_business_value f, pf_information_gain_proxy f, pf_novelty f, pf_coverage_gap f,
      pf_feasibility f, pf_expected_cost f, pf_redundancy f, pf_multiplicity_risk f]"

record admission_context =
  ax_dataset_columns :: "(string, string list) dict"
  ax_allowed_dataset_ids :: "string list"
  ax_supported_method_families :: "string list"
  ax_historical_fingerprints :: "string list"
  ax_answered_fingerprints :: "string list"
  ax_executed_query_fingerprints :: "string list"
  ax_remaining_cost :: py_real
  ax_family_quota_remaining :: "(insight_family, int) dict"
  ax_unexplored_coverage_keys :: "string list"
  ax_abandoned_constraints :: "branch_constraint list"

datatype check_name =
    Scope_Exists | Policy_And_Capability | Novelty | Not_Already_Answered
  | Not_Previously_Abandoned | Falsifiable | Within_Remaining_Budget | Coverage_And_Quota
  | Multiplicity_Acceptable

record admission_check =
  ac_name :: check_name
  ac_passed :: bool
  ac_detail_code :: string

record scheduling_decision =
  sd_hypothesis_id :: string
  sd_fingerprint :: string
  sd_family :: insight_family
  sd_status :: hypothesis_status
  sd_checks :: "admission_check list"
  sd_features :: priority_features
  sd_priority :: rat
  sd_scoring_policy_version :: string
  sd_quota_deferred :: bool
  sd_chosen :: bool

datatype schedule_error =
    Remaining_Cost_Invalid
  | Quota_Negative
  | Signals_Missing string
  | Features_Invalid
  | Priority_Not_Finite
  | Quota_Too_Small
  | Targets_Not_Unique
  | Quick_Needs_Two_Or_Three
  | Deep_Needs_All_Families
  | Rounds_Negative
  | Required_Rounds_Too_Small
  | Threshold_Invalid
  | Frontier_Priority_Invalid

section \<open>Admission of one candidate\<close>

fun reason_value :: "constraint_reason \<Rightarrow> string" where
  "reason_value constraint_reason.Refuted = ''refuted''"
| "reason_value constraint_reason.Gate_Rejected = ''gate_rejected''"
| "reason_value constraint_reason.Inconclusive = ''inconclusive''"

definition hard_abandonment_reasons :: "constraint_reason list" where
  "hard_abandonment_reasons = [constraint_reason.Refuted, constraint_reason.Gate_Rejected]"

definition abandonment_step :: "(string, string) dict \<Rightarrow> branch_constraint \<Rightarrow> (string, string) dict" where
  "abandonment_step d c =
     (if bc_reason c \<in> set hard_abandonment_reasons then
        (let code = ''abandoned_'' @ reason_value (bc_reason c) in
         case map_of d (hypothesis_fingerprint c) of
           None \<Rightarrow> dict_set (hypothesis_fingerprint c) code d
         | Some current \<Rightarrow>
             if code < current then dict_set (hypothesis_fingerprint c) code d else d)
      else d)"

definition hard_abandonment :: "branch_constraint list \<Rightarrow> (string, string) dict" where
  "hard_abandonment cs = foldl abandonment_step [] cs"

definition scope_exists :: "candidate_seed \<Rightarrow> admission_context \<Rightarrow> bool" where
  "scope_exists c ax = list_all (\<lambda>d. case map_of (ax_dataset_columns ax) d of
       None \<Rightarrow> False
     | Some available \<Rightarrow> set (hy_columns (cs_proposal c)) \<subseteq> set available)
     (hy_dataset_ids (cs_proposal c))"

definition policy_and_capability :: "candidate_seed \<Rightarrow> admission_context \<Rightarrow> bool" where
  "policy_and_capability c ax \<longleftrightarrow>
     set (hy_dataset_ids (cs_proposal c)) \<subseteq> set (ax_allowed_dataset_ids ax) \<and>
     hy_method_family (cs_proposal c) \<in> set (ax_supported_method_families ax)"

text \<open>What the loop computes for one candidate before it builds the checks.\<close>

record assessment =
  as_scope_exists :: bool
  as_policy_capability :: bool
  as_query_is_novel :: bool
  as_is_novel :: bool
  as_not_answered :: bool
  as_abandonment_code :: "string option"
  as_falsifiable :: bool
  as_within_budget :: bool
  as_coverage_needed :: bool
  as_coverage_and_quota :: bool
  as_multiplicity_ok :: bool

definition assess ::
  "admission_context \<Rightarrow> scheduler_policy \<Rightarrow> string list \<Rightarrow> string list \<Rightarrow> candidate_seed \<Rightarrow>
    candidate_signals \<Rightarrow> assessment" where
  "assess ax pol seen_exact seen_queries c signal =
     (let query_novel = (case sg_query_fingerprint signal of
              None \<Rightarrow> True
            | Some q \<Rightarrow> q \<notin> set (ax_executed_query_fingerprints ax) \<and> q \<notin> set seen_queries);
          hypothesis_novel =
            (cs_mandatory c \<or> cs_fingerprint c \<notin> set (ax_historical_fingerprints ax)) \<and>
            cs_fingerprint c \<notin> set seen_exact;
          coverage_needed =
            cs_mandatory c \<or> cs_coverage_key c \<in> set (ax_unexplored_coverage_keys ax)
      in \<lparr>as_scope_exists = scope_exists c ax,
          as_policy_capability = policy_and_capability c ax,
          as_query_is_novel = query_novel,
          as_is_novel = (hypothesis_novel \<and> query_novel),
          as_not_answered = (cs_fingerprint c \<notin> set (ax_answered_fingerprints ax)),
          as_abandonment_code =
            map_of (hard_abandonment (ax_abandoned_constraints ax)) (cs_fingerprint c),
          as_falsifiable = (hy_falsification_conditions (cs_proposal c) \<noteq> []),
          as_within_budget = real_le (sg_expected_cost signal) (ax_remaining_cost ax),
          as_coverage_needed = coverage_needed,
          as_coverage_and_quota = (coverage_needed \<or>
            0 < dict_get (ax_family_quota_remaining ax) (hy_family (cs_proposal c)) 0),
          as_multiplicity_ok =
            real_le (sg_multiplicity_risk signal) (sp_max_multiplicity_risk pol)\<rparr>)"

definition check_of :: "check_name \<Rightarrow> bool \<Rightarrow> string \<Rightarrow> string \<Rightarrow> admission_check" where
  "check_of name passed passed_code failed_code =
     \<lparr>ac_name = name, ac_passed = passed,
      ac_detail_code = (if passed then passed_code else failed_code)\<rparr>"

definition checks_of :: "assessment \<Rightarrow> admission_check list" where
  "checks_of a =
     [check_of Scope_Exists (as_scope_exists a) ''scope_available'' ''scope_missing'',
      check_of Policy_And_Capability (as_policy_capability a) ''policy_allowed''
        ''policy_or_tool_denied'',
      check_of Novelty (as_is_novel a) ''canonical_novel''
        (if \<not> as_query_is_novel a then ''canonical_query_duplicate''
         else ''canonical_hypothesis_duplicate''),
      check_of Not_Already_Answered (as_not_answered a) ''not_answered'' ''stronger_answer_exists'',
      check_of Not_Previously_Abandoned (as_abandonment_code a = None) ''not_abandoned''
        (case as_abandonment_code a of None \<Rightarrow> ''not_abandoned''
         | Some code \<Rightarrow> if code = [] then ''not_abandoned'' else code),
      check_of Falsifiable (as_falsifiable a) ''falsifiable'' ''not_falsifiable'',
      check_of Within_Remaining_Budget (as_within_budget a) ''within_budget''
        ''estimated_cost_exceeds_remaining'',
      check_of Coverage_And_Quota (as_coverage_and_quota a) ''coverage_needed'' ''quota_satisfied'',
      check_of Multiplicity_Acceptable (as_multiplicity_ok a) ''multiplicity_acceptable''
        ''multiplicity_deferred'']"

definition admission_status :: "assessment \<Rightarrow> hypothesis_status" where
  "admission_status a =
     (if \<not> as_scope_exists a \<or> \<not> as_within_budget a then Hs_Rejected_Infeasible
      else if \<not> as_policy_capability a \<or> \<not> as_falsifiable a \<or> \<not> as_multiplicity_ok a
      then Hs_Rejected_Policy
      else if \<not> as_is_novel a \<or> \<not> as_not_answered a \<or> as_abandonment_code a \<noteq> None
      then Hs_Rejected_Duplicate
      else Hs_Admitted)"

section \<open>Priority\<close>

text \<open>A float operation overflows to an infinity; its rounding is not modelled.\<close>

definition float_limit :: rat where
  "float_limit = 2 ^ 1024 - 2 ^ 970"

lemma float_limit_code [code]:
  "float_limit = 179769313486231580793728971405303415079934132710037826936173778980444968292764750946649017977587207096330286416692887910946555547851940402630657488671505820681908902000708383676273854845817711531764475730270069855571366959622842914819860834936475292719074168444365510704342711559699508093042880177904174497792"
  by (simp add: float_limit_def)

fun float_result :: "py_real \<Rightarrow> py_real" where
  "float_result (Finite q) = (if float_limit \<le> \<bar>q\<bar> then infinity_of_sign q else Finite q)"
| "float_result x = x"

definition float_add :: "py_real \<Rightarrow> py_real \<Rightarrow> py_real" where
  "float_add x y = float_result (real_add x y)"

definition float_sub :: "py_real \<Rightarrow> py_real \<Rightarrow> py_real" where
  "float_sub x y = float_result (real_sub x y)"

definition float_mul :: "py_real \<Rightarrow> py_real \<Rightarrow> py_real" where
  "float_mul x y = float_result (real_mul x y)"

definition raw_priority :: "priority_features \<Rightarrow> priority_weights \<Rightarrow> py_real" where
  "raw_priority f w =
     float_sub (float_sub (float_sub
       (float_add (float_add (float_add (float_add
          (float_mul (pw_business_value w) (pf_business_value f))
          (float_mul (pw_information_gain_proxy w) (pf_information_gain_proxy f)))
          (float_mul (pw_novelty w) (pf_novelty f)))
          (float_mul (pw_coverage_gap w) (pf_coverage_gap f)))
          (float_mul (pw_feasibility w) (pf_feasibility f)))
       (float_mul (pw_expected_cost w) (pf_expected_cost f)))
       (float_mul (pw_redundancy w) (pf_redundancy f)))
       (float_mul (pw_multiplicity_risk w) (pf_multiplicity_risk f))"

definition priority_of :: "priority_features \<Rightarrow> priority_weights \<Rightarrow> schedule_error + rat" where
  "priority_of f w = (case raw_priority f w of
       Finite q \<Rightarrow> Inr (round12 q)
     | _ \<Rightarrow> Inl Priority_Not_Finite)"

section \<open>The loop over the candidates\<close>

text \<open>What the loop reads of the whole batch: \<open>group_members\<close>, \<open>group_rank\<close>, \<open>exact_counts\<close>.\<close>

definition group_members :: "candidate_seed list \<Rightarrow> (string, candidate_seed list) dict" where
  "group_members ordered = group_by cs_group_key ordered"

definition rank_step :: "(string, nat) dict \<Rightarrow> nat \<times> candidate_seed \<Rightarrow> (string, nat) dict" where
  "rank_step d im = dict_set (cs_hypothesis_id (snd im)) (fst im) d"

definition group_rank :: "candidate_seed list \<Rightarrow> (string, nat) dict" where
  "group_rank ordered =
     foldl rank_step [] (concat (map (List.enumerate 0) (dict_values (group_members ordered))))"

definition redundancy_of :: "candidate_seed list \<Rightarrow> candidate_seed \<Rightarrow> bool \<Rightarrow> py_real" where
  "redundancy_of ordered c is_novel =
     (let members = dict_get (group_members ordered) (cs_group_key c) [];
          rank = dict_get (group_rank ordered) (cs_hypothesis_id c) 0;
          base = (if length members = 1 then Finite 0
                  else Finite (of_nat rank / of_nat (length members - 1)))
      in if 1 < length (filter (\<lambda>d. cs_fingerprint d = cs_fingerprint c) ordered) \<and> \<not> is_novel
         then Finite 1 else base)"

definition one_if :: "bool \<Rightarrow> py_real" where
  "one_if b = (if b then Finite 1 else Finite 0)"

definition features_of ::
  "candidate_signals \<Rightarrow> assessment \<Rightarrow> py_real \<Rightarrow> priority_features" where
  "features_of signal a redundancy =
     \<lparr>pf_business_value = sg_business_value signal,
      pf_information_gain_proxy = sg_information_gain_proxy signal,
      pf_novelty = one_if (as_is_novel a), pf_coverage_gap = one_if (as_coverage_needed a),
      pf_feasibility =
        one_if (as_scope_exists a \<and> as_policy_capability a \<and> as_within_budget a),
      pf_expected_cost = sg_expected_cost signal, pf_redundancy = redundancy,
      pf_multiplicity_risk = sg_multiplicity_risk signal\<rparr>"

definition decision_of ::
  "scheduler_policy \<Rightarrow> candidate_seed \<Rightarrow> assessment \<Rightarrow> priority_features \<Rightarrow> rat \<Rightarrow>
    scheduling_decision" where
  "decision_of pol c a features priority =
     \<lparr>sd_hypothesis_id = cs_hypothesis_id c, sd_fingerprint = cs_fingerprint c,
      sd_family = hy_family (cs_proposal c), sd_status = admission_status a,
      sd_checks = checks_of a, sd_features = features, sd_priority = priority,
      sd_scoring_policy_version = sp_scoring_policy_version pol,
      sd_quota_deferred = (\<not> as_coverage_and_quota a \<or> \<not> as_multiplicity_ok a),
      sd_chosen = False\<rparr>"

definition decide ::
  "admission_context \<Rightarrow> scheduler_policy \<Rightarrow> candidate_seed list \<Rightarrow> string list \<Rightarrow> string list \<Rightarrow>
    candidate_seed \<Rightarrow> candidate_signals \<Rightarrow> schedule_error + scheduling_decision" where
  "decide ax pol ordered seen_exact seen_queries c signal =
     (let a = assess ax pol seen_exact seen_queries c signal;
          features = features_of signal a (redundancy_of ordered c (as_is_novel a))
      in if \<not> features_valid features then Inl Features_Invalid
         else bind_res (priority_of features (sp_weights pol)) (\<lambda>priority.
           Inr (decision_of pol c a features priority)))"

fun decide_all ::
  "admission_context \<Rightarrow> scheduler_policy \<Rightarrow> (string, candidate_signals) dict \<Rightarrow>
    candidate_seed list \<Rightarrow> string list \<Rightarrow> string list \<Rightarrow> candidate_seed list \<Rightarrow>
    schedule_error + scheduling_decision list" where
  "decide_all ax pol signals ordered seen_exact seen_queries [] = Inr []"
| "decide_all ax pol signals ordered seen_exact seen_queries (c # cs) =
     (case map_of signals (cs_hypothesis_id c) of
        None \<Rightarrow> Inl (Signals_Missing (cs_hypothesis_id c))
      | Some signal \<Rightarrow>
          bind_res (decide ax pol ordered seen_exact seen_queries c signal) (\<lambda>d.
          bind_res (decide_all ax pol signals ordered (cs_fingerprint c # seen_exact)
            (case sg_query_fingerprint signal of None \<Rightarrow> seen_queries | Some q \<Rightarrow> q # seen_queries)
            cs) (\<lambda>ds.
          Inr (d # ds))))"

section \<open>Selection\<close>

type_synonym seeds_by_id = "(string, candidate_seed) dict"

definition seed_by_id :: "seeds_by_id \<Rightarrow> scheduling_decision \<Rightarrow> candidate_seed" where
  "seed_by_id by_id d = the (map_of by_id (sd_hypothesis_id d))"

definition is_eligible :: "scheduler_policy \<Rightarrow> seeds_by_id \<Rightarrow> scheduling_decision \<Rightarrow> bool" where
  "is_eligible pol by_id d \<longleftrightarrow> sd_status d = Hs_Admitted \<and>
     (real_le (sp_admission_priority pol) (Finite (sd_priority d)) \<or>
      cs_mandatory (seed_by_id by_id d))"

definition representative_key :: "scheduling_decision \<Rightarrow> rat \<times> string \<times> string" where
  "representative_key d = (- sd_priority d, sd_fingerprint d, sd_hypothesis_id d)"

definition representative_step ::
  "seeds_by_id \<Rightarrow> (string, scheduling_decision) dict \<Rightarrow> scheduling_decision \<Rightarrow>
    (string, scheduling_decision) dict" where
  "representative_step by_id best d =
     (let k = cs_group_key (seed_by_id by_id d) in
      case map_of best k of
        None \<Rightarrow> dict_set k d best
      | Some current \<Rightarrow>
          if representative_key d < representative_key current then dict_set k d best else best)"

definition canonical_representatives ::
  "seeds_by_id \<Rightarrow> scheduling_decision list \<Rightarrow> scheduling_decision list" where
  "canonical_representatives by_id ds = dict_values (foldl (representative_step by_id) [] ds)"

text \<open>The mandatory phase says whether the batch is full, in which case \<open>_select\<close> returns.\<close>

fun select_mandatory ::
  "int \<Rightarrow> seeds_by_id \<Rightarrow> scheduling_decision list \<Rightarrow> string list \<Rightarrow> bool \<times> string list" where
  "select_mandatory max_size by_id [] chosen = (False, chosen)"
| "select_mandatory max_size by_id (d # ds) chosen =
     (if cs_mandatory (seed_by_id by_id d) then
        (let chosen' = chosen @ [sd_hypothesis_id d] in
         if int (length chosen') = max_size then (True, chosen')
         else select_mandatory max_size by_id ds chosen')
      else select_mandatory max_size by_id ds chosen)"

fun fill_family ::
  "int \<Rightarrow> insight_family \<Rightarrow> int \<Rightarrow> int \<Rightarrow> scheduling_decision list \<Rightarrow> string list \<Rightarrow> string list" where
  "fill_family max_size family needed already [] chosen = chosen"
| "fill_family max_size family needed already (d # ds) chosen =
     (if needed \<le> already \<or> int (length chosen) = max_size then chosen
      else if sd_family d = family \<and> sd_hypothesis_id d \<notin> set chosen
      then fill_family max_size family needed (already + 1) ds (chosen @ [sd_hypothesis_id d])
      else fill_family max_size family needed already ds chosen)"

fun family_value :: "insight_family \<Rightarrow> string" where
  "family_value Descriptive = ''descriptive''"
| "family_value Diagnostic = ''diagnostic''"
| "family_value Predictive = ''predictive''"
| "family_value Prescriptive = ''prescriptive''"
| "family_value Evaluative = ''evaluative''"
| "family_value insight_family.Exploratory = ''exploratory''"

definition chosen_in_family :: "seeds_by_id \<Rightarrow> insight_family \<Rightarrow> string list \<Rightarrow> int" where
  "chosen_in_family by_id family chosen =
     int (length (filter (\<lambda>h. hy_family (cs_proposal (the (map_of by_id h))) = family) chosen))"

definition family_step ::
  "int \<Rightarrow> seeds_by_id \<Rightarrow> scheduling_decision list \<Rightarrow> string list \<Rightarrow> insight_family \<times> int \<Rightarrow>
    string list" where
  "family_step max_size by_id ranked chosen fq =
     fill_family max_size (fst fq) (snd fq) (chosen_in_family by_id (fst fq) chosen) ranked chosen"

fun fill_rest :: "int \<Rightarrow> scheduling_decision list \<Rightarrow> string list \<Rightarrow> string list" where
  "fill_rest max_size [] chosen = chosen"
| "fill_rest max_size (d # ds) chosen =
     (if int (length chosen) = max_size then chosen
      else if sd_hypothesis_id d \<notin> set chosen
      then fill_rest max_size ds (chosen @ [sd_hypothesis_id d])
      else fill_rest max_size ds chosen)"

definition ranked_decisions :: "scheduling_decision list \<Rightarrow> scheduling_decision list" where
  "ranked_decisions ds = sort_key (\<lambda>d. (- sd_priority d, sd_fingerprint d)) ds"

definition select_batch ::
  "int \<Rightarrow> seeds_by_id \<Rightarrow> (insight_family, int) dict \<Rightarrow> scheduling_decision list \<Rightarrow> string list" where
  "select_batch max_size by_id quotas ds =
     (let ranked = ranked_decisions ds;
          (full, mandatory) = select_mandatory max_size by_id ranked []
      in if full then mandatory
         else fill_rest max_size ranked
           (foldl (family_step max_size by_id ranked) mandatory
             (sort_key (\<lambda>fq. family_value (fst fq)) quotas)))"

record scheduling_result =
  sr_decisions :: "scheduling_decision list"
  sr_chosen_ids :: "string list"

definition ordered_candidates :: "candidate_seed list \<Rightarrow> candidate_seed list" where
  "ordered_candidates cs = sort_key cs_fingerprint cs"

definition eligible_decisions ::
  "scheduler_policy \<Rightarrow> seeds_by_id \<Rightarrow> scheduling_decision list \<Rightarrow> scheduling_decision list" where
  "eligible_decisions pol by_id ds = filter (is_eligible pol by_id) ds"

definition schedule_candidates ::
  "candidate_seed list \<Rightarrow> (string, candidate_signals) dict \<Rightarrow> admission_context \<Rightarrow>
    scheduler_policy \<Rightarrow> schedule_error + scheduling_result" where
  "schedule_candidates cs signals ax pol =
     (if \<not> isfinite (ax_remaining_cost ax) \<or> real_less (ax_remaining_cost ax) (Finite 0)
      then Inl Remaining_Cost_Invalid
      else if \<exists>q \<in> set (dict_values (ax_family_quota_remaining ax)). q < 0 then Inl Quota_Negative
      else let ordered = ordered_candidates cs; by_id = dict_by cs_hypothesis_id ordered in
        bind_res (decide_all ax pol signals ordered [] [] ordered) (\<lambda>ds.
        let chosen = select_batch (sp_max_batch_size pol) by_id (ax_family_quota_remaining ax)
              (canonical_representatives by_id (eligible_decisions pol by_id ds))
        in Inr \<lparr>sr_decisions =
                 map (\<lambda>d. d\<lparr>sd_chosen := sd_hypothesis_id d \<in> set chosen\<rparr>) ds,
                 sr_chosen_ids = chosen\<rparr>))"

section \<open>Quotas, stopping, query identity\<close>

definition all_families :: "insight_family list" where
  "all_families = [Descriptive, Diagnostic, Predictive, Prescriptive, Evaluative,
     insight_family.Exploratory]"

definition family_quotas_for_level ::
  "thinking_level \<Rightarrow> insight_family list \<Rightarrow> int \<Rightarrow> schedule_error + (insight_family, int) dict" where
  "family_quotas_for_level level targets quota =
     (let unique = rev (remdups (rev targets)) in
      guarding
        [(quota < 1, Quota_Too_Small),
         (length unique \<noteq> length targets, Targets_Not_Unique),
         (level = Quick \<and> length unique \<notin> {2, 3}, Quick_Needs_Two_Or_Three),
         (level \<noteq> Quick \<and> set unique \<noteq> set all_families, Deep_Needs_All_Families)]
        (map (\<lambda>f. (f, quota)) (sort_key family_value unique)))"

datatype stop_verdict = Streak_And_Frontier | Streak_Not_Met | Frontier_Above

record no_new_information =
  nn_consecutive_rounds :: int
  nn_highest_frontier_priority :: "py_real option"
  nn_priority_threshold :: py_real
  nn_required_rounds :: int
  nn_should_stop :: bool
  nn_reason :: stop_verdict

definition no_new_information_decision ::
  "int \<Rightarrow> py_real option \<Rightarrow> py_real \<Rightarrow> int \<Rightarrow> schedule_error + no_new_information" where
  "no_new_information_decision rounds highest threshold required =
     (let frontier_below = (case highest of None \<Rightarrow> True | Some p \<Rightarrow> real_less p threshold);
          should_stop = (required \<le> rounds \<and> frontier_below)
      in guarding
        [(rounds < 0, Rounds_Negative),
         (required < 1, Required_Rounds_Too_Small),
         (\<not> isfinite threshold, Threshold_Invalid),
         (case highest of None \<Rightarrow> False | Some p \<Rightarrow> \<not> isfinite p, Frontier_Priority_Invalid)]
        \<lparr>nn_consecutive_rounds = rounds, nn_highest_frontier_priority = highest,
         nn_priority_threshold = threshold, nn_required_rounds = required,
         nn_should_stop = should_stop,
         nn_reason = (if should_stop then Streak_And_Frontier
           else if rounds < required then Streak_Not_Met else Frontier_Above)\<rparr>)"

text \<open>\<open>query.strip().rstrip(";").strip()\<close>, white space collapsed, in lower case, hashed.\<close>

definition rstrip_semicolons :: "string \<Rightarrow> string" where
  "rstrip_semicolons s = rev (dropWhile (\<lambda>c. c = CHR '';'') (rev s))"

definition canonical_query :: "string \<Rightarrow> string" where
  "canonical_query q = py_lower (collapse_spaces (py_strip (rstrip_semicolons (py_strip q))))"

definition canonical_query_fingerprint :: "(string \<Rightarrow> string) \<Rightarrow> string \<Rightarrow> string" where
  "canonical_query_fingerprint sha256 q = take 16 (sha256 (canonical_query q))"

end
