(* ===== verification/CandidateProperties.thy ===== *)
theory CandidateProperties
  imports Candidates
begin

text \<open>
  Identity of hypotheses, completeness of the mandatory probes and of the coverage matrix, and
  what compressing canonical groups keeps.
\<close>

section \<open>Results of loops\<close>

lemma map_res_list_all2: "map_res f xs = Inr ys \<longleftrightarrow> list_all2 (\<lambda>x y. f x = Inr y) xs ys"
proof (induction xs arbitrary: ys)
  case Nil
  then show ?case by auto
next
  case (Cons x xs)
  then show ?case by (cases ys) (auto simp: res_simps list_all2_Cons1)
qed

lemma map_res_set:
  assumes "map_res f xs = Inr ys"
  shows "Inr ` set ys = f ` set xs"
  using assms[unfolded map_res_list_all2] by (induction rule: list_all2_induct) auto

lemma map_res_Inl_exists:
  assumes "x \<in> set xs" "f x = Inl e"
  shows "\<exists>e'. map_res f xs = Inl e'"
proof (cases "map_res f xs")
  case (Inr ys)
  then have "f x \<in> Inr ` set ys" using map_res_set assms(1) by blast
  with assms(2) show ?thesis by auto
qed blast

section \<open>Identity\<close>

text \<open>Signatures a digest tells apart, already by the first 24 characters the ids keep.\<close>

definition collision_free :: "(signature \<Rightarrow> string) \<Rightarrow> signature set \<Rightarrow> bool" where
  "collision_free digest sigs \<longleftrightarrow> inj_on (\<lambda>s. take 24 (digest s)) sigs"

lemma seed_of_simps [simp]:
  "cs_proposal (seed_of casefold digest h i org m) = h"
  "cs_sequence_index (seed_of casefold digest h i org m) = i"
  "cs_mandatory (seed_of casefold digest h i org m) = m"
  "cs_origin (seed_of casefold digest h i org m) = org"
  "cs_fingerprint (seed_of casefold digest h i org m) =
     take 32 (digest (Semantic (semantic_signature_of casefold h)))"
  "cs_hypothesis_id (seed_of casefold digest h i org m) =
     ''hyp_'' @ take 24 (digest (Semantic (semantic_signature_of casefold h)))"
  "cs_coverage_key (seed_of casefold digest h i org m) =
     ''cov_'' @ take 24 (digest (Semantic (semantic_signature_of casefold h)))"
  "cs_group_key (seed_of casefold digest h i org m) =
     ''hgrp_'' @ take 24 (digest (Group (group_signature_of casefold h)))"
  by (simp_all add: seed_of_def Let_def min_def)

lemma candidate_seed_of_iff:
  "candidate_seed_of casefold digest h i org m = Inr c \<longleftrightarrow>
     1 \<le> i \<and> c = seed_of casefold digest h i org m"
  by (auto simp: candidate_seed_of_def res_simps)

text \<open>The identity of a hypothesis is its meaning: two seeds have the same id exactly when they
  have the same fingerprint, the same coverage key and the same normalized signature, whatever
  their wording, origin or position, as long as the hash does not collide on them.\<close>

theorem identity_is_semantic:
  assumes "candidate_seed_of casefold digest h i org m = Inr c"
    "candidate_seed_of casefold digest h' i' org' m' = Inr c'"
    "collision_free digest {Semantic (semantic_signature_of casefold h),
       Semantic (semantic_signature_of casefold h')}"
  shows "(cs_hypothesis_id c = cs_hypothesis_id c' \<longleftrightarrow>
           semantic_signature_of casefold h = semantic_signature_of casefold h') \<and>
    (cs_fingerprint c = cs_fingerprint c' \<longleftrightarrow> cs_hypothesis_id c = cs_hypothesis_id c') \<and>
    (cs_coverage_key c = cs_coverage_key c' \<longleftrightarrow> cs_hypothesis_id c = cs_hypothesis_id c')"
proof -
  let ?s = "Semantic (semantic_signature_of casefold h)"
    and ?s' = "Semantic (semantic_signature_of casefold h')"
  have c: "c = seed_of casefold digest h i org m" "c' = seed_of casefold digest h' i' org' m'"
    using assms(1,2) unfolding candidate_seed_of_iff by blast+
  have sig: "take 24 (digest ?s) = take 24 (digest ?s') \<longleftrightarrow> ?s = ?s'"
    using inj_on_eq_iff[OF assms(3)[unfolded collision_free_def], of ?s ?s'] by blast
  have "take 24 (digest ?s) = take 24 (digest ?s')" if "take 32 (digest ?s) = take 32 (digest ?s')"
    using arg_cong[OF that, of "take 24"] by (simp only: take_take) (simp add: min_def)
  then have fp: "take 32 (digest ?s) = take 32 (digest ?s') \<longleftrightarrow> ?s = ?s'"
    using sig by (metis)
  show ?thesis unfolding c seed_of_simps append_same_eq same_append_eq
    using sig fp by blast
qed

section \<open>Mandatory probes\<close>

lemma enumerate_from_simps [simp]:
  "map snd (enumerate_from n xs) = xs" "length (enumerate_from n xs) = length xs"
  "map fst (enumerate_from n xs) = map (\<lambda>i. n + int i) [0..<length xs]"
proof -
  show "map snd (enumerate_from n xs) = xs" by (induction xs arbitrary: n) auto
  show "length (enumerate_from n xs) = length xs" by (induction xs arbitrary: n) auto
  show "map fst (enumerate_from n xs) = map (\<lambda>i. n + int i) [0..<length xs]"
  proof (induction xs arbitrary: n)
    case Nil
    then show ?case by simp
  next
    case (Cons x xs)
    have "map (\<lambda>i. n + 1 + int i) [0..<length xs] = map (\<lambda>i. n + int i) [1..<Suc (length xs)]"
      by (simp add: map_Suc_upt[symmetric] comp_def del: upt_Suc)
    then show ?case using Cons by (simp add: upt_conv_Cons del: upt_Suc)
  qed
qed

lemma materialize_proposals_eq:
  assumes "1 \<le> first"
  shows "materialize_proposals casefold digest hs first org m =
    Inr (map (\<lambda>ih. seed_of casefold digest (snd ih) (fst ih) org m) (enumerate_from first hs))"
  unfolding materialize_proposals_def using assms
proof (induction hs arbitrary: first)
  case Nil
  then show ?case by simp
next
  case (Cons h hs)
  have "candidate_seed_of casefold digest h first org m = Inr (seed_of casefold digest h first org m)"
    using Cons.prems by (simp add: candidate_seed_of_iff)
  with Cons.IH[of "first + 1"] Cons.prems show ?case by simp
qed

lemma on_error_iff [res_simps]:
  "on_error g r = Inr x \<longleftrightarrow> r = Inr x" "on_error g r = Inl e \<longleftrightarrow> (\<exists>e'. r = Inl e' \<and> e = g e')"
  by (cases r; auto)+

abbreviation all_probes :: "dataset_profile list \<Rightarrow> hypothesis_proposal set" where
  "all_probes profiles \<equiv> (\<Union>p \<in> set profiles. set (profile_probes p))"

lemma mandatory_probe_seeds_validated:
  assumes "mandatory_probe_seeds casefold digest profiles first = Inr seeds"
  obtains hs where "1 \<le> first" "Inr ` set hs = validated_proposal ` all_probes profiles"
    "materialize_proposals casefold digest
       (sort_key (\<lambda>h. take 32 (digest (Semantic (semantic_signature_of casefold h)))) hs)
       first From_Mandatory True = Inr seeds"
proof -
  let ?raw = "concat (map profile_probes
    (sort_key (\<lambda>p. normalize_text casefold (dp_dataset_id p)) profiles))"
  obtain hs where first: "1 \<le> first"
    and hs: "map_res (\<lambda>h. on_error Invalid_Proposal (validated_proposal h)) ?raw = Inr hs"
    and seeds: "materialize_proposals casefold digest
       (sort_key (\<lambda>h. take 32 (digest (Semantic (semantic_signature_of casefold h)))) hs)
       first From_Mandatory True = Inr seeds"
    using assms unfolding mandatory_probe_seeds_def by (auto simp: res_simps split: if_splits)
  from hs have "map_res validated_proposal ?raw = Inr hs"
    by (simp add: map_res_list_all2 res_simps)
  from map_res_set[OF this] have "Inr ` set hs = validated_proposal ` all_probes profiles" by simp
  with first seeds that show thesis by blast
qed

text \<open>Mandatory coverage is complete: when the probes of the run are generated, every region by
  metric, every missing column by group (or its rate, without groups) and every time column by
  metric has a mandatory seed, there are no others, they are numbered without gaps and their
  order is that of the fingerprints.\<close>

theorem mandatory_probes_are_complete:
  assumes "mandatory_probe_seeds casefold digest profiles first = Inr seeds"
  shows "Inr ` cs_proposal ` set seeds = validated_proposal ` all_probes profiles \<and>
    map cs_sequence_index seeds = map (\<lambda>i. first + int i) [0..<length seeds] \<and>
    sorted (map cs_fingerprint seeds) \<and>
    list_all (\<lambda>c. cs_mandatory c \<and> cs_origin c = From_Mandatory) seeds"
proof -
  let ?key = "\<lambda>h. take 32 (digest (Semantic (semantic_signature_of casefold h)))"
  obtain hs where first: "1 \<le> first" and hs: "Inr ` set hs = validated_proposal ` all_probes profiles"
    and seeds: "materialize_proposals casefold digest (sort_key ?key hs) first From_Mandatory True =
      Inr seeds"
    by (rule mandatory_probe_seeds_validated[OF assms])
  have eq: "seeds = map (\<lambda>ih. seed_of casefold digest (snd ih) (fst ih) From_Mandatory True)
      (enumerate_from first (sort_key ?key hs))"
    using seeds materialize_proposals_eq[OF first] by simp
  have "map cs_proposal seeds = map snd (enumerate_from first (sort_key ?key hs))"
    unfolding eq map_map comp_def seed_of_simps ..
  then have proposals: "map cs_proposal seeds = sort_key ?key hs" by simp
  then have "cs_proposal ` set seeds = set hs" by (metis set_map set_sort)
  with hs have all: "Inr ` cs_proposal ` set seeds = validated_proposal ` all_probes profiles" by simp
  have "map cs_sequence_index seeds = map fst (enumerate_from first (sort_key ?key hs))"
    unfolding eq map_map comp_def seed_of_simps ..
  then have numbered: "map cs_sequence_index seeds = map (\<lambda>i. first + int i) [0..<length seeds]"
    unfolding eq by simp
  have "map cs_fingerprint seeds = map ?key (map cs_proposal seeds)"
    unfolding eq by simp
  then have fingerprints: "sorted (map cs_fingerprint seeds)" unfolding proposals by simp
  have "list_all (\<lambda>c. cs_mandatory c \<and> cs_origin c = From_Mandatory) seeds"
    unfolding eq by (simp add: list_all_iff)
  then show ?thesis by (rule conjI[OF all conjI[OF numbered conjI[OF fingerprints]]])
qed

section \<open>When the probes cannot be generated\<close>

lemma missingness_probe_same_column:
  "\<exists>e. validated_proposal (missingness_probe d column column) = Inl e"
proof -
  have "\<exists>e. unique_non_blank [column, column] = Inl e"
    by (simp add: unique_non_blank_def guarding.simps Let_def)
  then obtain e where "unique_non_blank (hy_columns (missingness_probe d column column)) = Inl e"
    by (auto simp: missingness_probe_def probe_def)
  then have "validated_proposal (missingness_probe d column column) \<noteq> Inr h" for h
    unfolding validated_proposal_def by (auto simp: res_simps)
  then show ?thesis by (metis sumE)
qed

lemma probe_failure_aborts:
  assumes "h \<in> all_probes profiles" "validated_proposal h = Inl e"
  shows "\<exists>e'. mandatory_probe_seeds casefold digest profiles first = Inl e'"
proof (cases "mandatory_probe_seeds casefold digest profiles first")
  case (Inr seeds)
  obtain hs :: "hypothesis_proposal list" where "Inr ` set hs = validated_proposal ` all_probes profiles"
    by (rule mandatory_probe_seeds_validated[OF Inr])
  with assms have "Inl e \<in> Inr ` set hs" by (metis image_eqI)
  then show ?thesis by blast
qed blast

lemma missingness_probe_member:
  assumes "column \<in> set (dp_missing_value_columns p)" "dimension \<in> set (dp_missingness_group_dimensions p)"
  shows "missingness_probe (dp_dataset_id p) column dimension \<in> set (profile_probes p)"
proof -
  from assms(2) have "dp_missingness_group_dimensions p \<noteq> []" by auto
  with assms show ?thesis unfolding profile_probes_def Let_def by auto
qed

lemma canonical_columns_set:
  assumes "canonical_columns set_order casefold xs = Inr ys" "\<And>zs. set (set_order zs) = set zs"
  shows "set ys = set xs"
  using assms by (auto simp: canonical_columns_def res_simps)

lemma validated_profileD:
  assumes "validated_profile set_order casefold p = Inr q" "\<And>zs. set (set_order zs) = set zs"
  shows "dp_dataset_id q = dp_dataset_id p"
    "set (dp_missing_value_columns q) = set (dp_missing_value_columns p)"
    "set (dp_missingness_group_dimensions q) = set (dp_missingness_group_dimensions p)"
proof -
  obtain a b m g d s where cols:
    "canonical_columns set_order casefold (dp_missing_value_columns p) = Inr m"
    "canonical_columns set_order casefold (dp_missingness_group_dimensions p) = Inr g"
    "q = \<lparr>dp_dataset_id = dp_dataset_id p, dp_region_dimensions = a, dp_metric_columns = b,
         dp_missing_value_columns = m, dp_missingness_group_dimensions = g,
         dp_datetime_columns = d, dp_spike_metric_columns = s\<rparr>"
    using assms(1) unfolding validated_profile_def Let_def
    by (auto simp: res_simps simp del: split_paired_Ex split: if_splits)
  then show "dp_dataset_id q = dp_dataset_id p"
    "set (dp_missing_value_columns q) = set (dp_missing_value_columns p)"
    "set (dp_missingness_group_dimensions q) = set (dp_missingness_group_dimensions p)"
    using canonical_columns_set[OF cols(1) assms(2)] canonical_columns_set[OF cols(2) assms(2)]
    by simp_all
qed

text \<open>C40. A dataset with a missing value in a categorical column stops the exploration: the column is
  both a missing column and a grouping dimension, so a probe names it twice, the validator of
  proposals refuses it, and generating the mandatory probes raises for the whole run.\<close>

theorem categorical_gap_aborts_probes:
  assumes "dataset_profiles set_order casefold str_casefold by_id dataset_ids = Inr profiles"
    "\<And>zs. set (set_order zs) = set zs"
    "d \<in> set dataset_ids" "map_of by_id d = Some facts"
    "column \<in> set (df_categorical_columns facts)" "(column, missing) \<in> set (df_missing_values facts)"
    "0 < missing"
  shows "\<exists>e. mandatory_probe_seeds casefold digest profiles first = Inl e"
proof -
  let ?valid = "\<lambda>d. case map_of by_id d of
      None \<Rightarrow> Inl (Profile_Unavailable d)
    | Some facts \<Rightarrow> validated_profile set_order casefold (raw_profile str_casefold d facts)"
  have "?valid d \<in> Inr ` set profiles"
    using map_res_set[OF assms(1)[unfolded dataset_profiles_def]] assms(3) by blast
  then obtain p where p: "p \<in> set profiles"
    "validated_profile set_order casefold (raw_profile str_casefold d facts) = Inr p"
    using assms(4) by auto
  note same = validated_profileD[OF p(2) assms(2)]
  have "column \<in> set (dp_missing_value_columns p)" "column \<in> set (dp_missingness_group_dimensions p)"
    using assms(5-7) unfolding same(2,3) by (force simp: raw_profile_def)+
  then have "missingness_probe (dp_dataset_id p) column column \<in> all_probes profiles"
    using missingness_probe_member p(1) by blast
  moreover obtain e where "validated_proposal (missingness_probe (dp_dataset_id p) column column) = Inl e"
    using missingness_probe_same_column by blast
  ultimately show ?thesis by (rule probe_failure_aborts)
qed

section \<open>Coverage\<close>

definition coverage_targets_inv :: "candidate_seed list \<Rightarrow> (string, candidate_seed) dict \<Rightarrow> bool" where
  "coverage_targets_inv ts by_key \<longleftrightarrow> distinct (dict_keys by_key) \<and>
     set (dict_keys by_key) = cs_coverage_key ` set ts \<and>
     (\<forall>k t. map_of by_key k = Some t \<longrightarrow> t \<in> set ts \<and> cs_coverage_key t = k \<and>
        (cs_mandatory t \<longleftrightarrow> (\<exists>u \<in> set ts. cs_coverage_key u = k \<and> cs_mandatory u)))"

lemma coverage_targets: "coverage_targets_inv ts (foldl target_step [] ts)"
proof (induction ts rule: rev_induct)
  case Nil
  then show ?case by (simp add: coverage_targets_inv_def)
next
  case (snoc t ts)
  let ?d = "foldl target_step [] ts" and ?k = "cs_coverage_key t"
  from snoc have d: "distinct (dict_keys ?d)" "fst ` set ?d = cs_coverage_key ` set ts"
    "\<And>k u. map_of ?d k = Some u \<Longrightarrow> u \<in> set ts \<and> cs_coverage_key u = k \<and>
        (cs_mandatory u \<longleftrightarrow> (\<exists>v \<in> set ts. cs_coverage_key v = k \<and> cs_mandatory v))"
    by (auto simp: coverage_targets_inv_def)
  have set: "coverage_targets_inv (ts @ [t]) (dict_set ?k t ?d)"
    if "cs_mandatory t \<or> (\<forall>v \<in> set ts. cs_coverage_key v = ?k \<longrightarrow> \<not> cs_mandatory v)"
    unfolding coverage_targets_inv_def using d that by (auto intro: distinct_dict_set split: if_splits)
  show ?case
  proof (cases "map_of ?d ?k")
    case None
    then have "?k \<notin> cs_coverage_key ` set ts" using d(2) by (simp add: map_of_None_keys)
    then have "coverage_targets_inv (ts @ [t]) (dict_set ?k t ?d)" by (intro set disjI2 ballI impI) (metis image_eqI)
    with None show ?thesis by (simp add: target_step_def[of ?d t])
  next
    case (Some prior)
    note prior = d(3)[OF Some]
    show ?thesis
    proof (cases "cs_mandatory t \<and> \<not> cs_mandatory prior")
      case True
      with Some set show ?thesis by (simp add: target_step_def[of ?d t])
    next
      case False
      have "coverage_targets_inv (ts @ [t]) ?d"
        unfolding coverage_targets_inv_def using d prior False Some by (auto simp: image_iff) (metis)+
      with Some False show ?thesis by (auto simp: target_step_def[of ?d t])
    qed
  qed
qed

lemma coverage_row_of_simps [simp]:
  "cr_coverage_key (coverage_row_of casefold executed kv) = fst kv"
  "cr_mandatory (coverage_row_of casefold executed kv) = cs_mandatory (snd kv)"
  "cr_explored (coverage_row_of casefold executed kv) = (fst kv \<in> set executed)"
  by (simp_all add: coverage_row_of_def Let_def)

text \<open>What is left to explore is exactly the targets that were not executed: one row per coverage
  key, in order, mandatory when any target of the key is.\<close>

theorem coverage_is_targets_minus_executed:
  "sorted (map cr_coverage_key (coverage_matrix casefold targets executed)) \<and>
   distinct (map cr_coverage_key (coverage_matrix casefold targets executed)) \<and>
   cr_coverage_key ` set (unexplored_coverage (coverage_matrix casefold targets executed)) =
     cs_coverage_key ` set targets - set executed \<and>
   {cr_coverage_key r |r. r \<in> set (coverage_matrix casefold targets executed) \<and> cr_mandatory r} =
     {cs_coverage_key t |t. t \<in> set targets \<and> cs_mandatory t}"
proof -
  let ?d = "foldl target_step [] targets"
  let ?s = "sort_key fst ?d"
  from coverage_targets[of targets] have d: "distinct (dict_keys ?d)"
    "set (dict_keys ?d) = cs_coverage_key ` set targets"
    "\<And>k t. map_of ?d k = Some t \<Longrightarrow> t \<in> set targets \<and> cs_coverage_key t = k \<and>
        (cs_mandatory t \<longleftrightarrow> (\<exists>u \<in> set targets. cs_coverage_key u = k \<and> cs_mandatory u))"
    unfolding coverage_targets_inv_def by auto
  have keys: "map cr_coverage_key (coverage_matrix casefold targets executed) = map fst ?s"
    by (simp add: coverage_matrix_def comp_def)
  have "distinct (map fst ?s)" using d(1) by (metis mset_eq_imp_distinct_iff mset_map mset_sort)
  then have 1: "sorted (map fst ?s)" "distinct (map fst ?s)" by simp_all
  have 2: "cr_coverage_key ` set (unexplored_coverage (coverage_matrix casefold targets executed)) =
      fst ` {kv \<in> set ?d. fst kv \<notin> set executed}"
    by (auto simp: unexplored_coverage_def coverage_matrix_def filter_map comp_def image_image)
  also have "\<dots> = set (dict_keys ?d) - set executed" by auto
  finally have 3: "cr_coverage_key ` set (unexplored_coverage (coverage_matrix casefold targets executed)) =
      cs_coverage_key ` set targets - set executed" using d(2) by simp
  have 4: "{cr_coverage_key r |r. r \<in> set (coverage_matrix casefold targets executed) \<and> cr_mandatory r} =
      {k. \<exists>t. (k, t) \<in> set ?d \<and> cs_mandatory t}"
    by (force simp: coverage_matrix_def)
  have "(\<exists>t. (k, t) \<in> set ?d \<and> cs_mandatory t) \<longleftrightarrow>
      (\<exists>t. k = cs_coverage_key t \<and> t \<in> set targets \<and> cs_mandatory t)" for k
  proof
    assume "\<exists>t. (k, t) \<in> set ?d \<and> cs_mandatory t"
    then show "\<exists>t. k = cs_coverage_key t \<and> t \<in> set targets \<and> cs_mandatory t"
      using d(1,3) by (metis map_of_is_SomeI)
  next
    assume "\<exists>t. k = cs_coverage_key t \<and> t \<in> set targets \<and> cs_mandatory t"
    then obtain t where t: "k = cs_coverage_key t" "t \<in> set targets" "cs_mandatory t" by blast
    then have "k \<in> set (dict_keys ?d)" using d(2) by blast
    then obtain u where u: "map_of ?d k = Some u" by (metis list.set_map map_of_eq_None_iff option.exhaust)
    have "cs_mandatory u" using d(3)[OF u] t by metis
    with map_of_SomeD[OF u] show "\<exists>t. (k, t) \<in> set ?d \<and> cs_mandatory t" by (intro exI conjI)
  qed
  with 1 3 4 show ?thesis unfolding keys by (simp add: conj_commute)
qed

section \<open>Compression of canonical groups\<close>

lemma group_by_inv:
  "distinct (dict_keys (group_by key xs)) \<and> set (dict_keys (group_by key xs)) = key ` set xs \<and>
   (\<forall>k \<in> key ` set xs. map_of (group_by key xs) k = Some (filter (\<lambda>x. key x = k) xs))"
proof (induction xs rule: rev_induct)
  case Nil
  then show ?case by (simp add: group_by_def)
next
  case (snoc x xs)
  let ?d = "group_by key xs"
  have step: "group_by key (xs @ [x]) = dict_set (key x) (dict_get ?d (key x) [] @ [x]) ?d"
    by (simp add: group_by_def group_step_def[of key _ x])
  from snoc have maps: "map_of ?d k = Some (filter (\<lambda>x. key x = k) xs)" if "k \<in> key ` set xs" for k
    using that by blast
  have "dict_get ?d (key x) [] = filter (\<lambda>y. key y = key x) xs"
  proof (cases "key x \<in> key ` set xs")
    case True
    from maps[OF this] show ?thesis by (simp add: dict_get_def)
  next
    case False
    then have "map_of ?d (key x) = None" "filter (\<lambda>y. key y = key x) xs = []"
      using snoc by (auto simp: map_of_None_keys filter_empty_conv) (metis image_eqI)
    then show ?thesis by (simp add: dict_get_def)
  qed
  with snoc step show ?case by (auto intro: distinct_dict_set)
qed

lemma map_of_group_by:
  "k \<in> key ` set xs \<Longrightarrow> map_of (group_by key xs) k = Some (filter (\<lambda>x. key x = k) xs)"
  using group_by_inv[of key xs] by blast

lemma dict_by_keys: "set (dict_keys (dict_by key xs)) = key ` set xs"
  by (induction xs rule: rev_induct) (auto simp: dict_by_def)

lemma distinct_dict_by: "distinct (dict_keys (dict_by key xs))"
  by (induction xs rule: rev_induct) (auto simp: dict_by_def intro: distinct_dict_set)

lemma map_of_dict_by_eq:
  assumes "inj_on key (set xs)" "x \<in> set xs"
  shows "map_of (dict_by key xs) (key x) = Some x"
  using assms
proof (induction xs rule: rev_induct)
  case (snoc y xs)
  have step: "dict_by key (xs @ [y]) = dict_set (key y) y (dict_by key xs)" by (simp add: dict_by_def)
  show ?case
  proof (cases "key x = key y")
    case True
    with snoc.prems have "x = y" by (intro inj_onD[OF snoc.prems(1)]) simp_all
    with step show ?thesis by simp
  next
    case False
    then have "x \<in> set xs" "inj_on key (set xs)" using snoc.prems by (auto simp: inj_on_def)
    with snoc.IH False step show ?thesis by simp
  qed
qed simp

lemma kept_of_group_set:
  assumes "inj_on cs_fingerprint (set members)"
  shows "set (kept_of_group n members) = set (filter cs_mandatory members) \<union>
    set (take n (sort_key (\<lambda>c. (- cs_priority c, cs_fingerprint c))
      (filter (\<lambda>c. \<not> cs_mandatory c) members)))"
proof -
  let ?xs = "filter cs_mandatory members @ take n (sort_key (\<lambda>c. (- cs_priority c, cs_fingerprint c))
      (filter (\<lambda>c. \<not> cs_mandatory c) members))"
  have sub: "set ?xs \<subseteq> set members" by (auto dest: in_set_takeD)
  then have inj: "inj_on cs_fingerprint (set ?xs)" using assms inj_on_subset by blast
  have "set (kept_of_group n members) =
      (\<lambda>k. the (map_of (dict_by cs_fingerprint ?xs) k)) ` cs_fingerprint ` set ?xs"
    unfolding kept_of_group_def Let_def using dict_by_keys[of cs_fingerprint ?xs] by simp
  also have "\<dots> = (\<lambda>x. x) ` set ?xs"
    unfolding image_image by (rule image_cong[OF refl]) (simp only: map_of_dict_by_eq[OF inj] option.sel)
  finally show ?thesis by simp
qed

text \<open>The groups in the order the code visits them, each sorted by fingerprint.\<close>

lemma compressD:
  assumes "compress_canonical_groups cs n = Inr (reps, groups)"
  obtains ms where "1 \<le> n" "ms = (\<lambda>k. sort_key cs_fingerprint (filter (\<lambda>c. cs_group_key c = k) cs))"
    "set reps = (\<Union>k \<in> cs_group_key ` set cs. set (kept_of_group n (ms k)))"
    "groups = map (\<lambda>k. group_record n k (ms k)) (sort (dict_keys (group_by cs_group_key cs)))"
    "sorted (map cs_fingerprint reps)"
proof -
  let ?ms = "\<lambda>k. sort_key cs_fingerprint (filter (\<lambda>c. cs_group_key c = k) cs)"
  let ?keys = "sort (dict_keys (group_by cs_group_key cs))"
  let ?groups = "map (\<lambda>k. (k, sort_key cs_fingerprint (the (map_of (group_by cs_group_key cs) k)))) ?keys"
  have keys: "set ?keys = cs_group_key ` set cs" using group_by_inv[of cs_group_key cs] by simp
  have eq: "?groups = map (\<lambda>k. (k, ?ms k)) ?keys"
  proof (rule map_cong[OF refl])
    fix k assume "k \<in> set ?keys"
    then have "k \<in> cs_group_key ` set cs" by (simp only: keys)
    then show "(k, sort_key cs_fingerprint (the (map_of (group_by cs_group_key cs) k))) = (k, ?ms k)"
      using map_of_group_by[of k cs_group_key cs] by simp
  qed
  have n: "1 \<le> n"
    and reps: "reps = sort_key cs_fingerprint (concat (map (\<lambda>(k, m). kept_of_group n m) ?groups))"
    and groups: "groups = map (\<lambda>(k, m). group_record n k m) ?groups"
    using assms unfolding compress_canonical_groups_def Let_def by (auto split: if_splits)
  have "set reps = (\<Union>k \<in> cs_group_key ` set cs. set (kept_of_group n (?ms k)))"
    unfolding reps eq keys[symmetric] by (simp add: image_image)
  moreover have "groups = map (\<lambda>k. group_record n k (?ms k)) ?keys"
    unfolding groups eq by (simp add: comp_def)
  ultimately show thesis using n reps by (intro that[of ?ms]) simp_all
qed

text \<open>Compressing template spam loses no mandatory seed and no group: with distinct fingerprints every
  mandatory seed is kept, every group keeps a member, at most the given number of optional
  seeds of a group are kept, and what is kept are the given seeds, by fingerprint.\<close>

theorem compression_keeps_mandatory:
  assumes "compress_canonical_groups cs n = Inr (reps, groups)" "distinct (map cs_fingerprint cs)"
  shows "{c \<in> set cs. cs_mandatory c} \<subseteq> set reps \<and> set reps \<subseteq> set cs \<and>
    cs_group_key ` set reps = cs_group_key ` set cs \<and> sorted (map cs_fingerprint reps) \<and>
    (\<forall>k. card {c \<in> set reps. cs_group_key c = k \<and> \<not> cs_mandatory c} \<le> n)"
proof -
  obtain ms where c: "1 \<le> n" "ms = (\<lambda>k. sort_key cs_fingerprint (filter (\<lambda>c. cs_group_key c = k) cs))"
    "set reps = (\<Union>k \<in> cs_group_key ` set cs. set (kept_of_group n (ms k)))"
    "sorted (map cs_fingerprint reps)"
    by (rule compressD[OF assms(1)], rule that, assumption+)
  define opt where "opt k = take n (sort_key (\<lambda>c. (- cs_priority c, cs_fingerprint c))
      (filter (\<lambda>c. \<not> cs_mandatory c) (ms k)))" for k
  have members: "set (ms k) = {c \<in> set cs. cs_group_key c = k}" for k by (simp add: c(2))
  have inj: "inj_on cs_fingerprint (set (ms k))" for k
    using assms(2) members[of k] by (auto simp: distinct_map intro: inj_on_subset)
  have kept: "set (kept_of_group n (ms k)) = {c \<in> set (ms k). cs_mandatory c} \<union> set (opt k)" for k
    using kept_of_group_set[OF inj] by (simp add: opt_def)
  have opt: "set (opt k) \<subseteq> {c \<in> set cs. cs_group_key c = k \<and> \<not> cs_mandatory c}" for k
    unfolding opt_def by (rule subset_trans[OF set_take_subset]) (use members[of k] in auto)
  have sub: "set reps \<subseteq> set cs" unfolding c(3) kept using members opt by blast
  have all: "{c \<in> set cs. cs_mandatory c} \<subseteq> set reps" unfolding c(3) kept using members by blast
  have groups: "cs_group_key ` set cs \<subseteq> cs_group_key ` set reps"
  proof
    fix k assume k: "k \<in> cs_group_key ` set cs"
    then obtain x where x: "x \<in> set (ms k)" using members by blast
    have "set (kept_of_group n (ms k)) \<noteq> {}"
    proof (cases "cs_mandatory x")
      case True
      with x have "x \<in> set (kept_of_group n (ms k))" by (simp add: kept)
      then show ?thesis by auto
    next
      case False
      with x have "x \<in> set (filter (\<lambda>c. \<not> cs_mandatory c) (ms k))" by simp
      then have "0 < length (filter (\<lambda>c. \<not> cs_mandatory c) (ms k))" by (simp only: length_pos_if_in_set)
      then have "0 < length (opt k)" using c(1) unfolding opt_def by simp
      then show ?thesis using kept[of k] by auto
    qed
    then obtain y where y: "y \<in> set (kept_of_group n (ms k))" by (metis all_not_in_conv)
    then have "y \<in> set reps" using k c(3) by blast
    moreover have "cs_group_key y = k" using y kept members opt by blast
    ultimately show "k \<in> cs_group_key ` set reps" by blast
  qed
  have "card {c \<in> set reps. cs_group_key c = k \<and> \<not> cs_mandatory c} \<le> n" for k
  proof -
    have "{c \<in> set reps. cs_group_key c = k \<and> \<not> cs_mandatory c} \<subseteq> set (opt k)"
    proof
      fix x assume "x \<in> {c \<in> set reps. cs_group_key c = k \<and> \<not> cs_mandatory c}"
      then obtain k' where x: "x \<in> set (kept_of_group n (ms k'))" "cs_group_key x = k" "\<not> cs_mandatory x"
        using c(3) by auto
      then have "x \<in> set (opt k')" using kept[of k'] by auto
      moreover from this have "k' = k" using opt[of k'] x(2) by auto
      ultimately show "x \<in> set (opt k)" by simp
    qed
    then have "card {c \<in> set reps. cs_group_key c = k \<and> \<not> cs_mandatory c} \<le> card (set (opt k))"
      by (rule card_mono[rotated]) simp
    also have "\<dots> \<le> length (opt k)" by (rule card_length)
    also have "\<dots> \<le> n" by (simp add: opt_def)
    finally show ?thesis .
  qed
  with sub all groups c(4) show ?thesis by blast
qed

section \<open>Concrete runs\<close>

definition plain_digest :: "signature \<Rightarrow> string" where
  "plain_digest s = (case s of
       Semantic t \<Rightarrow> concat (ss_columns t) @ replicate 32 CHR ''s''
     | Group g \<Rightarrow> replicate 32 CHR ''g'')"

definition plain_profile :: dataset_profile where
  "plain_profile = \<lparr>dp_dataset_id = ''d'', dp_region_dimensions = [''r''], dp_metric_columns = [''m''],
     dp_missing_value_columns = [''m''], dp_missingness_group_dimensions = [''r''],
     dp_datetime_columns = [], dp_spike_metric_columns = [''m'']\<rparr>"

definition plain_facts :: dataset_facts where
  "plain_facts = \<lparr>df_categorical_columns = [''r''], df_numeric_columns = [''m''], df_dtypes = [],
     df_missing_values = [(''r'', 1), (''m'', 0)]\<rparr>"

definition probes_run :: "candidate_error + candidate_seed list" where
  "probes_run = mandatory_probe_seeds (\<lambda>s. s) plain_digest [plain_profile] 1"

lemma probes_run_Inr: "probes_run = Inr (projr probes_run)"
proof -
  have "\<not> isl probes_run" by code_simp
  then show ?thesis by simp
qed

theorem mandatory_probes_are_complete_witness:
  "map cs_sequence_index (projr probes_run) = [1, 2] \<and>
   Inr ` cs_proposal ` set (projr probes_run) = validated_proposal ` all_probes [plain_profile]"
proof -
  have "length (projr probes_run) = 2" by code_simp
  then show ?thesis
    using mandatory_probes_are_complete[OF probes_run_Inr[unfolded probes_run_def]]
    by (simp add: probes_run_def[symmetric] upt_rec)
qed

definition plain_seed :: "nat \<Rightarrow> bool \<Rightarrow> candidate_seed" where
  "plain_seed i mandatory =
     seed_of (\<lambda>s. s) plain_digest (region_probe ''d'' ''r'' (decimal i)) 1 From_Agent mandatory"

theorem identity_is_semantic_witness:
  "cs_hypothesis_id (plain_seed 1 True) \<noteq> cs_hypothesis_id (plain_seed 2 False)"
proof -
  let ?h = "\<lambda>i. region_probe ''d'' ''r'' (decimal i)"
  let ?s = "\<lambda>i. semantic_signature_of (\<lambda>s. s) (?h i)"
  have ok: "candidate_seed_of (\<lambda>s. s) plain_digest (?h i) 1 From_Agent m = Inr (plain_seed i m)" for i m
    by (simp add: plain_seed_def candidate_seed_of_iff)
  have differ: "take 24 (plain_digest (Semantic (?s 1))) \<noteq> take 24 (plain_digest (Semantic (?s 2)))"
    by code_simp
  then have free: "collision_free plain_digest {Semantic (?s 1), Semantic (?s 2)}"
    by (auto simp: collision_free_def)
  from differ have "?s 1 \<noteq> ?s 2" by auto
  with identity_is_semantic[OF ok ok free, of True False] show ?thesis by blast
qed

definition plain_profiles :: "candidate_error + dataset_profile list" where
  "plain_profiles =
     dataset_profiles (\<lambda>xs. xs) (\<lambda>s. s) (\<lambda>s. s) [(''d'', plain_facts)] [''d'']"

theorem categorical_gap_aborts_probes_witness:
  "\<exists>e. mandatory_probe_seeds (\<lambda>s. s) plain_digest (projr plain_profiles) 1 = Inl e"
proof -
  have "\<not> isl plain_profiles" by code_simp
  then have "dataset_profiles (\<lambda>xs. xs) (\<lambda>s. s) (\<lambda>s. s) [(''d'', plain_facts)] [''d''] =
      Inr (projr plain_profiles)" by (simp add: plain_profiles_def)
  from categorical_gap_aborts_probes[OF this, of "''d''" plain_facts "''r''" 1 plain_digest 1]
  show ?thesis by (simp add: plain_facts_def)
qed

theorem compression_keeps_mandatory_witness:
  "cs_group_key ` set (fst (projr (compress_canonical_groups [plain_seed 1 True, plain_seed 2 False] 1))) =
     {cs_group_key (plain_seed 1 True)}"
proof -
  let ?cs = "[plain_seed 1 True, plain_seed 2 False]"
  let ?r = "projr (compress_canonical_groups ?cs 1)"
  have "\<not> isl (compress_canonical_groups ?cs 1)" by code_simp
  then have run: "compress_canonical_groups ?cs 1 = Inr (fst ?r, snd ?r)" by simp
  have dist: "distinct (map cs_fingerprint ?cs)" by code_simp
  have "cs_group_key (plain_seed 2 False) = cs_group_key (plain_seed 1 True)" by code_simp
  with compression_keeps_mandatory[OF run dist] show ?thesis by simp
qed

text \<open>A mandatory seed is lost when an optional one has its fingerprint: the two are collected in a
  dictionary by fingerprint, mandatory ones first, so the optional twin overwrites it.\<close>

theorem optional_twin_replaces_mandatory:
  "\<exists>cs reps groups. compress_canonical_groups cs 1 = Inr (reps, groups) \<and>
     (\<exists>c \<in> set cs. cs_mandatory c) \<and> list_all (\<lambda>c. \<not> cs_mandatory c) reps"
proof -
  let ?cs = "[plain_seed 1 True, plain_seed 1 False]"
  let ?r = "projr (compress_canonical_groups ?cs 1)"
  have "\<not> isl (compress_canonical_groups ?cs 1)" by code_simp
  then have "compress_canonical_groups ?cs 1 = Inr (fst ?r, snd ?r)" by simp
  moreover have "list_all (\<lambda>c. \<not> cs_mandatory c) (fst ?r)" by code_simp
  moreover have "\<exists>c \<in> set ?cs. cs_mandatory c" by (simp add: plain_seed_def)
  ultimately show ?thesis by blast
qed

end
