(* ===== verification/SchedulerProperties.thy ===== *)
theory SchedulerProperties
  imports Scheduler CandidateProperties "HOL-Library.Sublist"
begin

text \<open>
  What a scheduled batch promises: it holds admitted candidates only, one per canonical group,
  it is as large as the policy allows, mandatory coverage goes first, family quotas are met
  while there is room, and it does not depend on the order in which candidates are proposed.
\<close>

section \<open>Admission\<close>

lemma admitted_iff:
  "admission_status a = Hs_Admitted \<longleftrightarrow> as_scope_exists a \<and> as_within_budget a \<and>
     as_policy_capability a \<and> as_falsifiable a \<and> as_multiplicity_ok a \<and> as_is_novel a \<and>
     as_not_answered a \<and> as_abandonment_code a = None"
  by (auto simp: admission_status_def)

lemma admitted_checks:
  assumes "admission_status a = Hs_Admitted" "k \<in> set (checks_of a)"
  shows "ac_passed k \<or> ac_name k = Coverage_And_Quota"
  using assms by (auto simp: admitted_iff checks_of_def check_of_def)

text \<open>How a decision relates to its candidate.\<close>

definition decides ::
  "admission_context \<Rightarrow> scheduler_policy \<Rightarrow> candidate_seed \<Rightarrow> candidate_signals \<Rightarrow>
    scheduling_decision \<Rightarrow> bool" where
  "decides ax pol c signal d \<longleftrightarrow> (\<exists>seen_exact seen_queries features priority.
     d = decision_of pol c (assess ax pol seen_exact seen_queries c signal) features priority \<and>
     priority_of features (sp_weights pol) = Inr priority)"

lemma decide_decides: "decide ax pol ordered se sq c signal = Inr d \<Longrightarrow> decides ax pol c signal d"
  unfolding decides_def decide_def Let_def by (auto simp: res_simps split: if_splits)

lemma decidesD [dest]:
  assumes "decides ax pol c signal d"
  shows "sd_hypothesis_id d = cs_hypothesis_id c" "sd_fingerprint d = cs_fingerprint c"
    "sd_family d = hy_family (cs_proposal c)" "\<not> sd_chosen d"
  using assms by (auto simp: decides_def decision_of_def)

lemma decide_all_decides:
  "decide_all ax pol signals ordered se sq cs = Inr ds \<Longrightarrow>
     list_all2 (\<lambda>c d. \<exists>signal. map_of signals (cs_hypothesis_id c) = Some signal \<and>
       decides ax pol c signal d) cs ds"
proof (induction cs arbitrary: se sq ds)
  case Nil
  then show ?case by simp
next
  case (Cons c cs)
  then show ?case
    by (auto simp: res_simps dest: decide_decides split: option.splits)
qed

lemma decide_all_ids:
  assumes "decide_all ax pol signals ordered se sq cs = Inr ds"
  shows "map sd_hypothesis_id ds = map cs_hypothesis_id cs"
  using decide_all_decides[OF assms] by (induction rule: list_all2_induct) auto

lemma decide_all_member:
  assumes "decide_all ax pol signals ordered se sq cs = Inr ds" "d \<in> set ds"
  obtains c signal where "c \<in> set cs" "map_of signals (cs_hypothesis_id c) = Some signal"
    "decides ax pol c signal d"
proof -
  note all = decide_all_decides[OF assms(1)]
  from assms(2) obtain i where i: "i < length ds" "d = ds ! i" by (auto simp: in_set_conv_nth)
  then have "i < length cs" using list_all2_lengthD[OF all] by simp
  then have "cs ! i \<in> set cs" by simp
  with list_all2_nthD2[OF all i(1)] i(2) that show thesis by blast
qed

section \<open>Representatives\<close>

abbreviation group_of :: "seeds_by_id \<Rightarrow> scheduling_decision \<Rightarrow> string" where
  "group_of by_id d \<equiv> cs_group_key (seed_by_id by_id d)"

lemma representatives_inv:
  fixes by_id ds
  defines "best \<equiv> foldl (representative_step by_id) [] ds"
  shows "distinct (dict_keys best) \<and>
    (\<forall>k d. (k, d) \<in> set best \<longrightarrow> d \<in> set ds \<and> k = group_of by_id d) \<and>
    (\<forall>d \<in> set ds. \<exists>e. map_of best (group_of by_id d) = Some e \<and>
       representative_key e \<le> representative_key d)"
  unfolding best_def
proof (induction ds rule: rev_induct)
  case Nil
  then show ?case by simp
next
  case (snoc d ds)
  let ?b = "foldl (representative_step by_id) [] ds"
  let ?k = "group_of by_id d"
  from snoc have dist: "distinct (dict_keys ?b)"
    and mem: "\<And>k e. (k, e) \<in> set ?b \<Longrightarrow> e \<in> set ds \<and> k = group_of by_id e"
    and least: "\<And>x. x \<in> set ds \<Longrightarrow> \<exists>e. map_of ?b (group_of by_id x) = Some e \<and>
       representative_key e \<le> representative_key x" by auto
  show ?case
  proof (cases "\<exists>e. map_of ?b ?k = Some e \<and> \<not> representative_key d < representative_key e")
    case True
    then have "foldl (representative_step by_id) [] (ds @ [d]) = ?b"
      by (auto simp: representative_step_def Let_def)
    with True dist mem least show ?thesis by (auto simp: not_less)
  next
    case False
    then have new: "foldl (representative_step by_id) [] (ds @ [d]) = dict_set ?k d ?b"
      by (auto simp: representative_step_def Let_def split: option.splits)
    have "e \<in> set (ds @ [d]) \<and> k = group_of by_id e" if "(k, e) \<in> set (dict_set ?k d ?b)" for k e
    proof -
      from that have "map_of (dict_set ?k d ?b) k = Some e"
        using dist by (metis distinct_dict_set map_of_is_SomeI)
      then show ?thesis using mem by (auto split: if_splits dest: map_of_SomeD)
    qed
    moreover have "\<exists>e. map_of (dict_set ?k d ?b) (group_of by_id x) = Some e \<and>
        representative_key e \<le> representative_key x" if "x \<in> set (ds @ [d])" for x
    proof (cases "group_of by_id x = ?k")
      case True
      then show ?thesis using that least[of x] False by (fastforce simp: not_less)
    next
      case other: False
      then show ?thesis using that least[of x] by auto
    qed
    ultimately show ?thesis unfolding new using dist by (auto intro: distinct_dict_set)
  qed
qed

lemma representatives_distinct_groups:
  "distinct (map (group_of by_id) (canonical_representatives by_id ds))"
proof -
  let ?b = "foldl (representative_step by_id) [] ds"
  have "map (group_of by_id) (dict_values ?b) = dict_keys ?b"
    unfolding map_map comp_def
    by (rule map_cong[OF refl]) (use representatives_inv[of by_id ds] in force)
  then show ?thesis
    using representatives_inv[of by_id ds] by (metis canonical_representatives_def)
qed

lemma representatives_subset:
  "d \<in> set (canonical_representatives by_id ds) \<Longrightarrow> d \<in> set ds"
  using representatives_inv[of by_id ds] by (auto simp: canonical_representatives_def)

lemma representatives_groups:
  "group_of by_id ` set (canonical_representatives by_id ds) = group_of by_id ` set ds"
  (is "?l = ?r")
proof
  show "?l \<subseteq> ?r" using representatives_subset by blast
  show "?r \<subseteq> ?l"
  proof
    fix g assume "g \<in> ?r"
    then obtain d where d: "d \<in> set ds" "g = group_of by_id d" by blast
    then obtain e where "map_of (foldl (representative_step by_id) [] ds) g = Some e"
      using representatives_inv[of by_id ds] by blast
    then have "(g, e) \<in> set (foldl (representative_step by_id) [] ds)" by (rule map_of_SomeD)
    moreover from this have "g = group_of by_id e" using representatives_inv[of by_id ds] by blast
    ultimately show "g \<in> ?l" unfolding canonical_representatives_def by force
  qed
qed

lemma representatives_least:
  assumes "d \<in> set ds"
  obtains e where "e \<in> set (canonical_representatives by_id ds)"
    "group_of by_id e = group_of by_id d" "representative_key e \<le> representative_key d"
proof -
  obtain e where e: "map_of (foldl (representative_step by_id) [] ds) (group_of by_id d) = Some e"
    "representative_key e \<le> representative_key d"
    using representatives_inv[of by_id ds] assms by blast
  from map_of_SomeD[OF e(1)] have "e \<in> set (canonical_representatives by_id ds)"
    "group_of by_id d = group_of by_id e"
    using representatives_inv[of by_id ds] unfolding canonical_representatives_def by force+
  with e that show thesis by metis
qed

lemma representatives_distinct_ids:
  "distinct (map sd_hypothesis_id (canonical_representatives by_id ds))"
proof -
  have "map (group_of by_id) (canonical_representatives by_id ds) =
      map (\<lambda>h. cs_group_key (the (map_of by_id h)))
        (map sd_hypothesis_id (canonical_representatives by_id ds))"
    by (simp add: seed_by_id_def)
  then show ?thesis using representatives_distinct_groups[of by_id ds] distinct_map by metis
qed

section \<open>Selection\<close>

lemma select_mandatory_eq:
  fixes ds by_id
  defines "M \<equiv> map sd_hypothesis_id (filter (\<lambda>d. cs_mandatory (seed_by_id by_id d)) ds)"
  assumes "int (length chosen) < max_size"
  shows "select_mandatory max_size by_id ds chosen =
    (max_size \<le> int (length chosen + length M), chosen @ take (nat max_size - length chosen) M)"
  unfolding M_def using assms(2)
proof (induction ds arbitrary: chosen)
  case Nil
  then show ?case by simp
next
  case (Cons d ds)
  show ?case
  proof (cases "cs_mandatory (seed_by_id by_id d)")
    case False
    with Cons show ?thesis by simp
  next
    case True
    note mand = True
    show ?thesis
    proof (cases "int (length chosen) + 1 = max_size")
      case True
      then have "nat max_size - length chosen = 1" by linarith
      with True mand show ?thesis by (simp add: take_Cons')
    next
      case False
      with Cons.prems have less: "int (length (chosen @ [sd_hypothesis_id d])) < max_size" by simp
      from False Cons.prems obtain n where "nat max_size - length chosen = Suc n"
        "nat max_size - Suc (length chosen) = n"
        by (cases "nat max_size - length chosen") auto
      with Cons.IH[OF less] mand False show ?thesis by (simp add: add.commute)
    qed
  qed
qed

abbreviation ids_of :: "scheduling_decision list \<Rightarrow> string list" where
  "ids_of ds \<equiv> map sd_hypothesis_id ds"

abbreviation family_ids :: "insight_family \<Rightarrow> scheduling_decision list \<Rightarrow> string list" where
  "family_ids f ds \<equiv> ids_of (filter (\<lambda>d. sd_family d = f) ds)"

lemma filter_snoc_id:
  assumes "distinct (ids_of (d # ds))"
  shows "filter (\<lambda>h. h \<notin> set (chosen @ [sd_hypothesis_id d])) (family_ids f ds) =
           filter (\<lambda>h. h \<notin> set chosen) (family_ids f ds)"
    and "filter (\<lambda>h. h \<notin> set (chosen @ [sd_hypothesis_id d])) (ids_of ds) =
           filter (\<lambda>h. h \<notin> set chosen) (ids_of ds)"
  using assms by (auto intro!: filter_cong)

lemma fill_family_eq:
  assumes "distinct (ids_of ds)" "int (length chosen) \<le> max_size"
  shows "fill_family max_size f needed already ds chosen =
    chosen @ take (min (nat (needed - already)) (nat max_size - length chosen))
      (filter (\<lambda>h. h \<notin> set chosen) (family_ids f ds))"
  using assms
proof (induction ds arbitrary: chosen already)
  case Nil
  then show ?case by simp
next
  case (Cons d ds)
  from Cons.prems(1) have dist: "distinct (ids_of ds)" by simp
  show ?case
  proof (cases "needed \<le> already \<or> int (length chosen) = max_size")
    case True
    then have "min (nat (needed - already)) (nat max_size - length chosen) = 0" by auto
    with True show ?thesis by simp
  next
    case room: False
    show ?thesis
    proof (cases "sd_family d = f \<and> sd_hypothesis_id d \<notin> set chosen")
      case False
      with Cons.IH[OF dist Cons.prems(2)] room show ?thesis by auto
    next
      case True
      from room Cons.prems have less: "int (length (chosen @ [sd_hypothesis_id d])) \<le> max_size"
        by simp
      from room Cons.prems(2) have n: "min (nat (needed - already)) (nat max_size - length chosen) =
        Suc (min (nat (needed - (already + 1))) (nat max_size - length (chosen @ [sd_hypothesis_id d])))"
        by simp linarith
      have "fill_family max_size f needed already (d # ds) chosen =
        fill_family max_size f needed (already + 1) ds (chosen @ [sd_hypothesis_id d])"
        using room True by simp
      also have "\<dots> = chosen @ [sd_hypothesis_id d] @
        take (min (nat (needed - (already + 1))) (nat max_size - length (chosen @ [sd_hypothesis_id d])))
          (filter (\<lambda>h. h \<notin> set chosen) (family_ids f ds))"
        unfolding Cons.IH[OF dist less] filter_snoc_id[OF Cons.prems(1)] by simp
      also have "\<dots> = chosen @ take (min (nat (needed - already)) (nat max_size - length chosen))
          (filter (\<lambda>h. h \<notin> set chosen) (family_ids f (d # ds)))"
        unfolding n using True by simp
      finally show ?thesis .
    qed
  qed
qed

lemma fill_rest_eq:
  assumes "distinct (ids_of ds)" "int (length chosen) \<le> max_size"
  shows "fill_rest max_size ds chosen =
    chosen @ take (nat max_size - length chosen) (filter (\<lambda>h. h \<notin> set chosen) (ids_of ds))"
  using assms
proof (induction ds arbitrary: chosen)
  case Nil
  then show ?case by simp
next
  case (Cons d ds)
  from Cons.prems(1) have dist: "distinct (ids_of ds)" by simp
  show ?case
  proof (cases "int (length chosen) = max_size \<or> sd_hypothesis_id d \<in> set chosen")
    case True
    with Cons.IH[OF dist Cons.prems(2)] show ?thesis by auto
  next
    case False
    with Cons.prems have less: "int (length (chosen @ [sd_hypothesis_id d])) \<le> max_size"
      and n: "nat max_size - length chosen = Suc (nat max_size - length (chosen @ [sd_hypothesis_id d]))"
      by auto
    have "fill_rest max_size (d # ds) chosen = fill_rest max_size ds (chosen @ [sd_hypothesis_id d])"
      using False by simp
    also have "\<dots> = chosen @ [sd_hypothesis_id d] @
        take (nat max_size - length (chosen @ [sd_hypothesis_id d]))
          (filter (\<lambda>h. h \<notin> set chosen) (ids_of ds))"
      unfolding Cons.IH[OF dist less] filter_snoc_id[OF Cons.prems(1)] by simp
    also have "\<dots> = chosen @ take (nat max_size - length chosen)
        (filter (\<lambda>h. h \<notin> set chosen) (ids_of (d # ds)))"
      unfolding n using False by simp
    finally show ?thesis .
  qed
qed

text \<open>
  Every phase extends a batch under construction: distinct ids of ranked decisions, at most
  as many as fit.
\<close>

definition partial_batch :: "int \<Rightarrow> scheduling_decision list \<Rightarrow> string list \<Rightarrow> bool" where
  "partial_batch max_size ds chosen \<longleftrightarrow>
     distinct chosen \<and> set chosen \<subseteq> set (ids_of ds) \<and> int (length chosen) \<le> max_size"

lemma partial_batch_append:
  assumes "partial_batch max_size ds chosen" "distinct hs" "set hs \<subseteq> set (ids_of ds)"
    "n \<le> nat max_size - length chosen"
  shows "partial_batch max_size ds (chosen @ take n (filter (\<lambda>h. h \<notin> set chosen) hs))"
proof -
  have "set (take n (filter (\<lambda>h. h \<notin> set chosen) hs)) \<subseteq> set hs - set chosen"
    by (auto dest: in_set_takeD)
  moreover have "distinct (take n (filter (\<lambda>h. h \<notin> set chosen) hs))" using assms(2) by simp
  ultimately show ?thesis using assms unfolding partial_batch_def by auto
qed

lemma family_step_batch:
  assumes "partial_batch max_size ds chosen" "distinct (ids_of ds)"
  shows "partial_batch max_size ds (family_step max_size by_id ds chosen fq)"
    "prefix chosen (family_step max_size by_id ds chosen fq)"
proof -
  have "int (length chosen) \<le> max_size" using assms by (simp add: partial_batch_def)
  note eq = fill_family_eq[OF assms(2) this]
  show "partial_batch max_size ds (family_step max_size by_id ds chosen fq)"
    unfolding family_step_def eq
    by (rule partial_batch_append[OF assms(1)]) (use assms(2) in \<open>auto simp: distinct_map_filter\<close>)
  show "prefix chosen (family_step max_size by_id ds chosen fq)"
    unfolding family_step_def eq by simp
qed

lemma family_steps_batch:
  assumes "partial_batch max_size ds chosen" "distinct (ids_of ds)"
  shows "partial_batch max_size ds (foldl (family_step max_size by_id ds) chosen fqs) \<and>
    prefix chosen (foldl (family_step max_size by_id ds) chosen fqs)"
  using assms(1)
proof (induction fqs arbitrary: chosen)
  case Nil
  then show ?case by simp
next
  case (Cons fq fqs)
  note step = family_step_batch[OF Cons.prems assms(2), of by_id fq]
  from Cons.IH[OF step(1)] step(2) show ?case by (auto intro: prefix_order.trans)
qed

text \<open>A family has its quota, or all its decisions are in, or the batch is full.\<close>

definition quota_met ::
  "int \<Rightarrow> seeds_by_id \<Rightarrow> scheduling_decision list \<Rightarrow> string list \<Rightarrow> insight_family \<times> int \<Rightarrow> bool" where
  "quota_met max_size by_id ds chosen fq \<longleftrightarrow>
     snd fq \<le> chosen_in_family by_id (fst fq) chosen \<or>
     set (family_ids (fst fq) ds) \<subseteq> set chosen \<or> int (length chosen) = max_size"

lemma quota_met_prefix:
  assumes "quota_met max_size by_id ds chosen fq" "prefix chosen longer"
    "int (length longer) \<le> max_size"
  shows "quota_met max_size by_id ds longer fq"
  using assms(1,3) set_mono_prefix[OF assms(2)] prefix_length_le[OF assms(2)] assms(2)
  by (auto simp: quota_met_def chosen_in_family_def prefix_def)

lemma chosen_in_family_append:
  "chosen_in_family by_id f (xs @ ys) = chosen_in_family by_id f xs + chosen_in_family by_id f ys"
  by (simp add: chosen_in_family_def)

lemma chosen_in_family_all:
  assumes "\<And>h. h \<in> set xs \<Longrightarrow> hy_family (cs_proposal (the (map_of by_id h))) = f"
  shows "chosen_in_family by_id f xs = int (length xs)"
  using assms by (simp add: chosen_in_family_def)

lemma family_step_meets:
  assumes "partial_batch max_size ds chosen" "distinct (ids_of ds)"
    and families: "\<And>d. d \<in> set ds \<Longrightarrow> hy_family (cs_proposal (seed_by_id by_id d)) = sd_family d"
  shows "quota_met max_size by_id ds (family_step max_size by_id ds chosen (f, q)) (f, q)"
proof -
  have le: "int (length chosen) \<le> max_size" using assms by (simp add: partial_batch_def)
  define F where "F = filter (\<lambda>h. h \<notin> set chosen) (family_ids f ds)"
  define n where "n = nat (q - chosen_in_family by_id f chosen)"
  define room where "room = nat max_size - length chosen"
  have eq: "family_step max_size by_id ds chosen (f, q) = chosen @ take (min n room) F"
    unfolding family_step_def F_def n_def room_def using fill_family_eq[OF assms(2) le] by simp
  have taken: "chosen_in_family by_id f (take k F) = int (length (take k F))" for k
  proof (rule chosen_in_family_all)
    fix h assume "h \<in> set (take k F)"
    then have "h \<in> set F" by (rule in_set_takeD)
    then obtain d where "d \<in> set ds" "sd_family d = f" "h = sd_hypothesis_id d"
      unfolding F_def by auto
    then show "hy_family (cs_proposal (the (map_of by_id h))) = f"
      using families by (simp add: seed_by_id_def)
  qed
  consider "length F \<le> min n room" | "n \<le> room" "n < length F" | "room < n" "room < length F"
    by linarith
  then show ?thesis
  proof cases
    case 1
    then have "take (min n room) F = F" by simp
    then show ?thesis unfolding eq quota_met_def F_def by auto
  next
    case 2
    then have "chosen_in_family by_id f (chosen @ take (min n room) F) =
        chosen_in_family by_id f chosen + int n"
      by (simp add: chosen_in_family_append taken)
    then show ?thesis unfolding eq quota_met_def n_def by simp
  next
    case 3
    then have "int (length (chosen @ take (min n room) F)) = max_size"
      using le by (simp add: room_def)
    then show ?thesis unfolding eq quota_met_def by simp
  qed
qed

lemma family_steps_meet:
  assumes "partial_batch max_size ds chosen" "distinct (ids_of ds)"
    and families: "\<And>d. d \<in> set ds \<Longrightarrow> hy_family (cs_proposal (seed_by_id by_id d)) = sd_family d"
    and "fq \<in> set fqs"
  shows "quota_met max_size by_id ds (foldl (family_step max_size by_id ds) chosen fqs) fq"
  using assms(1,4)
proof (induction fqs arbitrary: chosen)
  case Nil
  then show ?case by simp
next
  case (Cons gq fqs)
  let ?next = "family_step max_size by_id ds chosen gq"
  note step = family_step_batch[OF Cons.prems(1) assms(2), of by_id gq]
  note rest = family_steps_batch[OF step(1) assms(2), of by_id fqs]
  show ?case
  proof (cases "fq = gq")
    case True
    obtain f q where fq: "fq = (f, q)" by (cases fq)
    from family_step_meets[OF Cons.prems(1) assms(2) families, of f q] True fq
    have "quota_met max_size by_id ds ?next fq" by simp
    then show ?thesis using rest by (auto simp: partial_batch_def intro: quota_met_prefix)
  next
    case False
    with Cons.prems have "fq \<in> set fqs" by simp
    with Cons.IH[OF step(1)] show ?thesis by simp
  qed
qed

lemma ranked_simps [simp]:
  "set (ranked_decisions ds) = set ds" "length (ranked_decisions ds) = length ds"
  "distinct (ids_of (ranked_decisions ds)) = distinct (ids_of ds)"
proof -
  have perm: "mset (ranked_decisions ds) = mset ds" by (simp add: ranked_decisions_def)
  then show "set (ranked_decisions ds) = set ds" by (rule mset_eq_setD)
  from perm show "length (ranked_decisions ds) = length ds" by (rule mset_eq_length)
  from perm have "mset (ids_of (ranked_decisions ds)) = mset (ids_of ds)" by simp
  then show "distinct (ids_of (ranked_decisions ds)) = distinct (ids_of ds)"
    by (rule mset_eq_imp_distinct_iff)
qed

abbreviation mandatory_ids :: "seeds_by_id \<Rightarrow> scheduling_decision list \<Rightarrow> string list" where
  "mandatory_ids by_id ds \<equiv> ids_of (filter (\<lambda>d. cs_mandatory (seed_by_id by_id d)) ds)"

text \<open>The selection, phase by phase.\<close>

lemma select_batch_cases:
  fixes max_size by_id quotas ds
  defines "ranked \<equiv> ranked_decisions ds"
  assumes "1 \<le> max_size" "distinct (ids_of ds)"
  obtains (full) "select_batch max_size by_id quotas ds = take (nat max_size) (mandatory_ids by_id ranked)"
      "max_size \<le> int (length (mandatory_ids by_id ranked))"
  | (room) chosen where
      "chosen = foldl (family_step max_size by_id ranked) (mandatory_ids by_id ranked)
         (sort_key (\<lambda>fq. family_value (fst fq)) quotas)"
      "int (length (mandatory_ids by_id ranked)) < max_size"
      "partial_batch max_size ranked (mandatory_ids by_id ranked)"
      "partial_batch max_size ranked chosen" "prefix (mandatory_ids by_id ranked) chosen"
      "select_batch max_size by_id quotas ds =
         chosen @ take (nat max_size - length chosen) (filter (\<lambda>h. h \<notin> set chosen) (ids_of ranked))"
proof -
  let ?M = "mandatory_ids by_id ranked"
  have dist: "distinct (ids_of ranked)" using assms by simp
  have mand: "select_mandatory max_size by_id ranked [] =
      (max_size \<le> int (length ?M), take (nat max_size) ?M)"
    using select_mandatory_eq[of "[]" max_size by_id ranked] assms by simp
  show thesis
  proof (cases "max_size \<le> int (length ?M)")
    case True
    have "select_batch max_size by_id quotas ds = take (nat max_size) ?M"
      unfolding select_batch_def Let_def ranked_def[symmetric] mand using True by simp
    with True show thesis by (rule full[rotated])
  next
    case False
    then have M: "take (nat max_size) ?M = ?M" by simp
    have batch: "partial_batch max_size ranked ?M"
      using False dist by (auto simp: partial_batch_def distinct_map_filter)
    define chosen where "chosen = foldl (family_step max_size by_id ranked) ?M
         (sort_key (\<lambda>fq. family_value (fst fq)) quotas)"
    have fam: "partial_batch max_size ranked chosen" "prefix ?M chosen"
      unfolding chosen_def using family_steps_batch[OF batch dist] by auto
    have "select_batch max_size by_id quotas ds = fill_rest max_size ranked chosen"
      unfolding select_batch_def Let_def ranked_def[symmetric] mand M chosen_def using False by simp
    also have "\<dots> = chosen @ take (nat max_size - length chosen)
        (filter (\<lambda>h. h \<notin> set chosen) (ids_of ranked))"
      by (rule fill_rest_eq[OF dist]) (use fam in \<open>simp add: partial_batch_def\<close>)
    finally show thesis using room[of chosen] chosen_def False batch fam by simp
  qed
qed

lemma select_batch_batch:
  assumes "1 \<le> max_size" "distinct (ids_of ds)"
  shows "distinct (select_batch max_size by_id quotas ds)"
    "set (select_batch max_size by_id quotas ds) \<subseteq> set (ids_of ds)"
    "length (select_batch max_size by_id quotas ds) = min (nat max_size) (length ds)"
proof -
  let ?r = "ranked_decisions ds" and ?S = "select_batch max_size by_id quotas ds"
  have dist: "distinct (ids_of ?r)" using assms(2) by simp
  have "distinct ?S \<and> set ?S \<subseteq> set (ids_of ds) \<and> length ?S = min (nat max_size) (length ds)"
  proof (cases rule: select_batch_cases[OF assms, of by_id quotas])
    case 1
    note full = this
    have "length (mandatory_ids by_id ?r) \<le> length (ids_of ?r)"
      by (simp add: length_filter_le del: ranked_simps)
    then have "length (mandatory_ids by_id ?r) \<le> length ds" by simp
    with full dist show ?thesis using set_take_subset[of "nat max_size" "mandatory_ids by_id ?r"]
      by (auto simp: distinct_map_filter)
  next
    case (2 chosen)
    note room = this
    let ?rest = "filter (\<lambda>h. h \<notin> set chosen) (ids_of ?r)"
    from room(4) have c: "distinct chosen" "set chosen \<subseteq> set (ids_of ?r)"
      "int (length chosen) \<le> max_size" by (auto simp: partial_batch_def)
    have "length ?rest = card (set (ids_of ?r) - set chosen)"
      using dist by (metis distinct_card distinct_filter set_diff_eq set_filter mem_Collect_eq)
    also have "\<dots> = length ds - length chosen"
      using c dist by (simp add: card_Diff_subset distinct_card[symmetric] del: set_map)
        (metis distinct_card length_map ranked_simps(1,2) set_map)
    finally have "length ?rest = length ds - length chosen" .
    moreover have "length chosen \<le> length ds"
      using c dist by (metis card_mono distinct_card finite_set length_map ranked_simps(2))
    ultimately have "length ?S = min (nat max_size) (length ds)"
      unfolding room(6) using c(3) by simp
    moreover have "partial_batch max_size ?r ?S"
      unfolding room(6) by (rule partial_batch_append[OF room(4) dist]) simp_all
    ultimately show ?thesis by (simp add: partial_batch_def)
  qed
  then show "distinct ?S" "set ?S \<subseteq> set (ids_of ds)" "length ?S = min (nat max_size) (length ds)"
    by blast+
qed

lemma select_batch_mandatory:
  assumes "1 \<le> max_size" "distinct (ids_of ds)" "d \<in> set ds" "cs_mandatory (seed_by_id by_id d)"
  shows "sd_hypothesis_id d \<in> set (select_batch max_size by_id quotas ds) \<or>
    int (length (select_batch max_size by_id quotas ds)) = max_size \<and>
    set (select_batch max_size by_id quotas ds) \<subseteq> set (mandatory_ids by_id ds)"
proof -
  let ?r = "ranked_decisions ds"
  have same: "set (mandatory_ids by_id ?r) = set (mandatory_ids by_id ds)" by auto
  have mem: "sd_hypothesis_id d \<in> set (mandatory_ids by_id ?r)" using assms(3,4) by auto
  show ?thesis
  proof (cases rule: select_batch_cases[OF assms(1,2), of by_id quotas])
    case 1
    note full = this
    then show ?thesis using same assms(1) set_take_subset[of "nat max_size" "mandatory_ids by_id ?r"]
      by auto
  next
    case (2 chosen)
    note room = this
    then show ?thesis using mem set_mono_prefix[OF room(5)] by auto
  qed
qed

lemma select_batch_quota:
  assumes "1 \<le> max_size" "distinct (ids_of ds)" "fq \<in> set quotas"
    and families: "\<And>d. d \<in> set ds \<Longrightarrow> hy_family (cs_proposal (seed_by_id by_id d)) = sd_family d"
  shows "quota_met max_size by_id ds (select_batch max_size by_id quotas ds) fq"
proof -
  let ?r = "ranked_decisions ds" and ?S = "select_batch max_size by_id quotas ds"
  note batch = select_batch_batch[OF assms(1,2), of by_id quotas]
  show ?thesis
  proof (cases rule: select_batch_cases[OF assms(1,2), of by_id quotas])
    case 1
    note full = this
    then have "int (length ?S) = max_size" using assms(1) by simp
    then show ?thesis by (simp add: quota_met_def)
  next
    case (2 chosen)
    note room = this
    have "quota_met max_size by_id ?r chosen fq"
      unfolding room(1) by (rule family_steps_meet[OF room(3)]) (use assms in auto)
    moreover have "prefix chosen ?S" unfolding room(6) by simp
    moreover have "int (length ?S) \<le> max_size" using batch(3) assms(1) by simp
    ultimately have "quota_met max_size by_id ?r ?S fq" by (rule quota_met_prefix)
    then show ?thesis by (auto simp: quota_met_def)
  qed
qed

section \<open>The scheduler\<close>

lemma scheduleD:
  fixes cs
  defines "ordered \<equiv> ordered_candidates cs"
  defines "by_id \<equiv> dict_by cs_hypothesis_id ordered"
  assumes "schedule_candidates cs signals ax pol = Inr r"
  obtains ds where "decide_all ax pol signals ordered [] [] ordered = Inr ds"
    "sr_chosen_ids r = select_batch (sp_max_batch_size pol) by_id (ax_family_quota_remaining ax)
       (canonical_representatives by_id (eligible_decisions pol by_id ds))"
    "sr_decisions r = map (\<lambda>d. d\<lparr>sd_chosen := sd_hypothesis_id d \<in> set (sr_chosen_ids r)\<rparr>) ds"
  using assms(3) unfolding schedule_candidates_def Let_def ordered_def by_id_def
  by (auto simp: res_simps split: if_splits)

lemma eligible_simps [simp]:
  "set (eligible_decisions pol by_id ds) = {d \<in> set ds. is_eligible pol by_id d}"
  by (auto simp: eligible_decisions_def)

lemma chosen_flag [simp]:
  "seed_by_id by_id (d\<lparr>sd_chosen := b\<rparr>) = seed_by_id by_id d"
  "is_eligible pol by_id (d\<lparr>sd_chosen := b\<rparr>) = is_eligible pol by_id d"
  "representative_key (d\<lparr>sd_chosen := b\<rparr>) = representative_key d"
  by (simp_all add: seed_by_id_def is_eligible_def representative_key_def)

abbreviation seeds_of :: "candidate_seed list \<Rightarrow> seeds_by_id" where
  "seeds_of cs \<equiv> dict_by cs_hypothesis_id (ordered_candidates cs)"

lemma map_of_hard_abandonment:
  "map_of (hard_abandonment cs) f = None \<longleftrightarrow>
     (\<forall>c \<in> set cs. bc_reason c \<in> set hard_abandonment_reasons \<longrightarrow> hypothesis_fingerprint c \<noteq> f)"
proof (induction cs rule: rev_induct)
  case Nil
  then show ?case by (simp add: hard_abandonment_def)
next
  case (snoc c cs)
  have "hard_abandonment (cs @ [c]) = abandonment_step (hard_abandonment cs) c"
    by (simp add: hard_abandonment_def)
  with snoc show ?case
    by (auto simp: abandonment_step_def Let_def split: option.splits)
qed

text \<open>A candidate that may run: every admission check passes, except that of coverage.\<close>

definition may_run ::
  "admission_context \<Rightarrow> scheduler_policy \<Rightarrow> candidate_seed \<Rightarrow> candidate_signals \<Rightarrow> bool" where
  "may_run ax pol c signal \<longleftrightarrow>
     scope_exists c ax \<and> policy_and_capability c ax \<and>
     real_le (sg_expected_cost signal) (ax_remaining_cost ax) \<and>
     real_le (sg_multiplicity_risk signal) (sp_max_multiplicity_risk pol) \<and>
     cs_fingerprint c \<notin> set (ax_answered_fingerprints ax) \<and>
     (cs_mandatory c \<or> cs_fingerprint c \<notin> set (ax_historical_fingerprints ax)) \<and>
     (\<forall>q. sg_query_fingerprint signal = Some q \<longrightarrow> q \<notin> set (ax_executed_query_fingerprints ax)) \<and>
     (\<forall>b \<in> set (ax_abandoned_constraints ax).
        bc_reason b \<in> set hard_abandonment_reasons \<longrightarrow> hypothesis_fingerprint b \<noteq> cs_fingerprint c)"

lemma admitted_may_run:
  assumes "decides ax pol c signal d" "sd_status d = Hs_Admitted"
  shows "may_run ax pol c signal" "\<forall>k \<in> set (sd_checks d). ac_passed k \<or> ac_name k = Coverage_And_Quota"
proof -
  obtain se sq features priority where
    d: "d = decision_of pol c (assess ax pol se sq c signal) features priority"
    using assms(1) by (auto simp: decides_def)
  with assms(2) have a: "admission_status (assess ax pol se sq c signal) = Hs_Admitted"
    by (simp add: decision_of_def)
  from a show "may_run ax pol c signal"
    unfolding admitted_iff may_run_def
    by (auto simp: assess_def Let_def map_of_hard_abandonment)
  show "\<forall>k \<in> set (sd_checks d). ac_passed k \<or> ac_name k = Coverage_And_Quota"
    using admitted_checks[OF a] by (auto simp: d decision_of_def)
qed

text \<open>
  The facts of a scheduled batch every property starts from: the representatives it chooses
  from and how they were chosen.
\<close>

lemma schedule_factsE:
  assumes "schedule_candidates cs signals ax pol = Inr r" "scheduler_policy_valid pol"
  obtains ds reps where
    "decide_all ax pol signals (ordered_candidates cs) [] [] (ordered_candidates cs) = Inr ds"
    "sr_decisions r = map (\<lambda>d. d\<lparr>sd_chosen := sd_hypothesis_id d \<in> set (sr_chosen_ids r)\<rparr>) ds"
    "reps = canonical_representatives (seeds_of cs) (eligible_decisions pol (seeds_of cs) ds)"
    "sr_chosen_ids r =
       select_batch (sp_max_batch_size pol) (seeds_of cs) (ax_family_quota_remaining ax) reps"
    "distinct (ids_of reps)" "1 \<le> sp_max_batch_size pol"
    "\<forall>d \<in> set reps. d \<in> set ds \<and> is_eligible pol (seeds_of cs) d"
proof -
  obtain ds where ds:
    "decide_all ax pol signals (ordered_candidates cs) [] [] (ordered_candidates cs) = Inr ds"
    "sr_chosen_ids r = select_batch (sp_max_batch_size pol) (seeds_of cs) (ax_family_quota_remaining ax)
       (canonical_representatives (seeds_of cs) (eligible_decisions pol (seeds_of cs) ds))"
    "sr_decisions r = map (\<lambda>d. d\<lparr>sd_chosen := sd_hypothesis_id d \<in> set (sr_chosen_ids r)\<rparr>) ds"
    by (rule scheduleD[OF assms(1)], rule that, assumption+)
  let ?reps = "canonical_representatives (seeds_of cs) (eligible_decisions pol (seeds_of cs) ds)"
  show thesis
  proof (rule that[OF ds(1,3) refl ds(2) representatives_distinct_ids])
    show "1 \<le> sp_max_batch_size pol" using assms(2) by (simp add: scheduler_policy_valid_def)
    show "\<forall>d \<in> set ?reps. d \<in> set ds \<and> is_eligible pol (seeds_of cs) d"
      using representatives_subset by fastforce
  qed
qed

lemma chosen_is_representative:
  assumes "distinct (ids_of reps)" "1 \<le> max_size" "h \<in> set (select_batch max_size by_id quotas reps)"
  obtains d where "d \<in> set reps" "sd_hypothesis_id d = h"
  using select_batch_batch(2)[OF assms(2,1), of by_id quotas] assms(3) by auto

lemma represented_or_outranked:
  assumes reps: "reps = canonical_representatives by_id (eligible_decisions pol by_id ds)"
    and decs: "decs = map (\<lambda>d. d\<lparr>sd_chosen := P d\<rparr>) ds"
    and "d \<in> set decs" "is_eligible pol by_id d"
  shows "(\<exists>e \<in> set decs. is_eligible pol by_id e \<and> group_of by_id e = group_of by_id d \<and>
      representative_key e < representative_key d) \<or>
    (\<exists>e \<in> set reps. sd_hypothesis_id e = sd_hypothesis_id d)"
proof -
  from assms(3) decs obtain x where x: "x \<in> set ds" "d = x\<lparr>sd_chosen := P x\<rparr>" by auto
  with assms(4) have "x \<in> set (eligible_decisions pol by_id ds)" by simp
  then obtain e where e: "e \<in> set reps" "group_of by_id e = group_of by_id x"
    "representative_key e \<le> representative_key x"
    unfolding reps by (rule representatives_least)
  then have "e \<in> set ds" "is_eligible pol by_id e"
    using representatives_subset unfolding reps by fastforce+
  then have "e\<lparr>sd_chosen := P e\<rparr> \<in> set decs" "is_eligible pol by_id (e\<lparr>sd_chosen := P e\<rparr>)"
    by (auto simp: decs)
  moreover have "sd_hypothesis_id e = sd_hypothesis_id d \<or> representative_key e < representative_key d"
    using e(3) x(2) by (auto simp: representative_key_def)
  ultimately show ?thesis using e x(2) by (metis chosen_flag(1,3))
qed

lemma chosen_candidate:
  assumes "schedule_candidates cs signals ax pol = Inr r" "scheduler_policy_valid pol"
    "h \<in> set (sr_chosen_ids r)"
  shows "\<exists>d \<in> set (sr_decisions r). \<exists>c \<in> set cs. \<exists>signal.
    sd_hypothesis_id d = h \<and> cs_hypothesis_id c = h \<and> map_of signals h = Some signal \<and>
    sd_chosen d \<and> sd_status d = Hs_Admitted \<and> may_run ax pol c signal \<and>
    (\<forall>k \<in> set (sd_checks d). ac_passed k \<or> ac_name k = Coverage_And_Quota) \<and>
    (real_le (sp_admission_priority pol) (Finite (sd_priority d)) \<or>
     cs_mandatory (seed_by_id (seeds_of cs) d))"
proof -
  obtain ds reps where f:
    "decide_all ax pol signals (ordered_candidates cs) [] [] (ordered_candidates cs) = Inr ds"
    "sr_decisions r = map (\<lambda>d. d\<lparr>sd_chosen := sd_hypothesis_id d \<in> set (sr_chosen_ids r)\<rparr>) ds"
    "reps = canonical_representatives (seeds_of cs) (eligible_decisions pol (seeds_of cs) ds)"
    "sr_chosen_ids r =
       select_batch (sp_max_batch_size pol) (seeds_of cs) (ax_family_quota_remaining ax) reps"
    "distinct (ids_of reps)" "1 \<le> sp_max_batch_size pol"
    "\<forall>d \<in> set reps. d \<in> set ds \<and> is_eligible pol (seeds_of cs) d"
    by (rule schedule_factsE[OF assms(1,2)], rule that, assumption+)
  obtain d where "d \<in> set reps" and h: "sd_hypothesis_id d = h"
    using chosen_is_representative[OF f(5,6)] assms(3) f(4) by metis
  with f(7) have d: "d \<in> set ds" "is_eligible pol (seeds_of cs) d" by auto
  obtain c signal where c: "c \<in> set (ordered_candidates cs)"
    "map_of signals (cs_hypothesis_id c) = Some signal" "decides ax pol c signal d"
    using decide_all_member[OF f(1) d(1)] .
  let ?d = "d\<lparr>sd_chosen := True\<rparr>"
  have "?d \<in> set (sr_decisions r)" using d(1) assms(3) h by (force simp: f(2))
  moreover have "c \<in> set cs" using c(1) by (simp add: ordered_candidates_def)
  moreover have "sd_status d = Hs_Admitted" using d(2) by (simp add: is_eligible_def)
  moreover note admitted_may_run[OF c(3) this]
  ultimately show ?thesis using d(2) h c(2) decidesD(1)[OF c(3)]
    by (intro bexI[of _ ?d] bexI[of _ c] exI[of _ signal]) (auto simp: is_eligible_def)
qed

lemma chosen_may_run:
  assumes "schedule_candidates cs signals ax pol = Inr r" "scheduler_policy_valid pol"
    "h \<in> set (sr_chosen_ids r)"
  obtains c signal where "c \<in> set cs" "cs_hypothesis_id c = h" "may_run ax pol c signal"
  using chosen_candidate[OF assms] by blast

section \<open>Properties\<close>

text \<open>C16. Whatever the scheduler chooses may run: the candidate's datasets and columns exist and are
  allowed, its method is supported, its estimated cost fits the remaining budget, its risk is
  within the policy, it is neither answered nor a repetition (a mandatory probe may repeat an
  earlier round), its query was not executed, no refuted or gate-rejected line carries its
  fingerprint, every admission check but that of coverage passed, and its priority reaches the
  threshold unless it is mandatory.\<close>

theorem scheduled_candidates_may_run:
  assumes "schedule_candidates cs signals ax pol = Inr r" "scheduler_policy_valid pol"
    "h \<in> set (sr_chosen_ids r)"
  shows "\<exists>d \<in> set (sr_decisions r). \<exists>c \<in> set cs. \<exists>signal.
    sd_hypothesis_id d = h \<and> cs_hypothesis_id c = h \<and> map_of signals h = Some signal \<and>
    sd_chosen d \<and> sd_status d = Hs_Admitted \<and> may_run ax pol c signal \<and>
    (\<forall>k \<in> set (sd_checks d). ac_passed k \<or> ac_name k = Coverage_And_Quota) \<and>
    (real_le (sp_admission_priority pol) (Finite (sd_priority d)) \<or>
     cs_mandatory (seed_by_id (seeds_of cs) d))"
  using assms by (rule chosen_candidate)

text \<open>C28. A batch has no duplicates and no two hypotheses of one canonical group, and it is as large
  as it can be: its size is the least of the policy's bound and the number of canonical groups
  with an eligible candidate.\<close>

theorem batch_is_maximal:
  assumes "schedule_candidates cs signals ax pol = Inr r" "scheduler_policy_valid pol"
  shows "distinct (map (\<lambda>h. cs_group_key (the (map_of (seeds_of cs) h))) (sr_chosen_ids r)) \<and>
    length (sr_chosen_ids r) = min (nat (sp_max_batch_size pol))
      (card (group_of (seeds_of cs) `
        {d \<in> set (sr_decisions r). is_eligible pol (seeds_of cs) d}))"
proof -
  let ?group = "\<lambda>h. cs_group_key (the (map_of (seeds_of cs) h))"
  obtain ds reps where f:
    "decide_all ax pol signals (ordered_candidates cs) [] [] (ordered_candidates cs) = Inr ds"
    "sr_decisions r = map (\<lambda>d. d\<lparr>sd_chosen := sd_hypothesis_id d \<in> set (sr_chosen_ids r)\<rparr>) ds"
    "reps = canonical_representatives (seeds_of cs) (eligible_decisions pol (seeds_of cs) ds)"
    "sr_chosen_ids r =
       select_batch (sp_max_batch_size pol) (seeds_of cs) (ax_family_quota_remaining ax) reps"
    "distinct (ids_of reps)" "1 \<le> sp_max_batch_size pol"
    "\<forall>d \<in> set reps. d \<in> set ds \<and> is_eligible pol (seeds_of cs) d"
    by (rule schedule_factsE[OF assms(1,2)], rule that, assumption+)
  note batch = select_batch_batch[OF f(6,5), of "seeds_of cs" "ax_family_quota_remaining ax",
    folded f(4)]
  have groups: "map (group_of (seeds_of cs)) reps = map ?group (ids_of reps)"
    by (simp add: seed_by_id_def)
  have dist: "distinct (map (group_of (seeds_of cs)) reps)"
    unfolding f(3) by (rule representatives_distinct_groups)
  then have "inj_on ?group (set (ids_of reps))" unfolding groups distinct_map by blast
  then have inj: "inj_on ?group (set (sr_chosen_ids r))" by (rule inj_on_subset) (rule batch(2))
  have "{d \<in> set (sr_decisions r). is_eligible pol (seeds_of cs) d} =
      (\<lambda>d. d\<lparr>sd_chosen := sd_hypothesis_id d \<in> set (sr_chosen_ids r)\<rparr>) `
        {d \<in> set ds. is_eligible pol (seeds_of cs) d}"
    by (auto simp: f(2))
  then have "group_of (seeds_of cs) ` {d \<in> set (sr_decisions r). is_eligible pol (seeds_of cs) d} =
      group_of (seeds_of cs) ` {d \<in> set ds. is_eligible pol (seeds_of cs) d}"
    by (simp add: image_image)
  also have "\<dots> = group_of (seeds_of cs) ` set reps"
    unfolding f(3) representatives_groups by simp
  finally have "card (group_of (seeds_of cs) `
      {d \<in> set (sr_decisions r). is_eligible pol (seeds_of cs) d}) = length reps"
    using dist distinct_card[of "map (group_of (seeds_of cs)) reps"] by simp
  with batch inj show ?thesis by (simp add: distinct_map)
qed

text \<open>Mandatory coverage comes first: an admitted mandatory candidate is in the batch, unless a
  candidate of its canonical group ranks before it, or the batch is full of mandatory
  candidates.\<close>

theorem mandatory_goes_first:
  assumes "schedule_candidates cs signals ax pol = Inr r" "scheduler_policy_valid pol"
    "d \<in> set (sr_decisions r)" "sd_status d = Hs_Admitted" "cs_mandatory (seed_by_id (seeds_of cs) d)"
  shows "sd_chosen d \<or>
    (\<exists>e \<in> set (sr_decisions r). is_eligible pol (seeds_of cs) e \<and>
       group_of (seeds_of cs) e = group_of (seeds_of cs) d \<and>
       representative_key e < representative_key d) \<or>
    int (length (sr_chosen_ids r)) = sp_max_batch_size pol \<and>
    (\<forall>h \<in> set (sr_chosen_ids r). cs_mandatory (the (map_of (seeds_of cs) h)))"
proof -
  obtain ds reps where f:
    "decide_all ax pol signals (ordered_candidates cs) [] [] (ordered_candidates cs) = Inr ds"
    "sr_decisions r = map (\<lambda>d. d\<lparr>sd_chosen := sd_hypothesis_id d \<in> set (sr_chosen_ids r)\<rparr>) ds"
    "reps = canonical_representatives (seeds_of cs) (eligible_decisions pol (seeds_of cs) ds)"
    "sr_chosen_ids r =
       select_batch (sp_max_batch_size pol) (seeds_of cs) (ax_family_quota_remaining ax) reps"
    "distinct (ids_of reps)" "1 \<le> sp_max_batch_size pol"
    "\<forall>d \<in> set reps. d \<in> set ds \<and> is_eligible pol (seeds_of cs) d"
    by (rule schedule_factsE[OF assms(1,2)], rule that, assumption+)
  have "is_eligible pol (seeds_of cs) d" using assms(4,5) by (simp add: is_eligible_def)
  from represented_or_outranked[OF f(3,2) assms(3) this] show ?thesis
  proof
    assume "\<exists>e \<in> set reps. sd_hypothesis_id e = sd_hypothesis_id d"
    then obtain e where e: "e \<in> set reps" "sd_hypothesis_id e = sd_hypothesis_id d" by blast
    with assms(5) have mandatory: "cs_mandatory (seed_by_id (seeds_of cs) e)"
      by (simp add: seed_by_id_def)
    from assms(3) have "sd_chosen d \<longleftrightarrow> sd_hypothesis_id d \<in> set (sr_chosen_ids r)"
      by (auto simp: f(2))
    with select_batch_mandatory[OF f(6,5) e(1) mandatory, of "ax_family_quota_remaining ax",
        folded f(4)] e(2)
    show ?thesis by (auto simp: seed_by_id_def)
  qed blast
qed

text \<open>Family coverage is reserved before free choice: for every family quota the batch holds that
  many hypotheses of the family, or every representative of the family there is, or it is
  full.\<close>

theorem family_quotas_are_reserved:
  assumes "schedule_candidates cs signals ax pol = Inr r" "scheduler_policy_valid pol"
    "distinct (map cs_hypothesis_id cs)" "(family, quota) \<in> set (ax_family_quota_remaining ax)"
  shows "quota \<le> chosen_in_family (seeds_of cs) family (sr_chosen_ids r) \<or>
    int (length (sr_chosen_ids r)) = sp_max_batch_size pol \<or>
    (\<forall>d \<in> set (sr_decisions r). is_eligible pol (seeds_of cs) d \<and> sd_family d = family \<longrightarrow>
       sd_chosen d \<or> (\<exists>e \<in> set (sr_decisions r). is_eligible pol (seeds_of cs) e \<and>
         group_of (seeds_of cs) e = group_of (seeds_of cs) d \<and>
         representative_key e < representative_key d))"
proof -
  obtain ds reps where f:
    "decide_all ax pol signals (ordered_candidates cs) [] [] (ordered_candidates cs) = Inr ds"
    "sr_decisions r = map (\<lambda>d. d\<lparr>sd_chosen := sd_hypothesis_id d \<in> set (sr_chosen_ids r)\<rparr>) ds"
    "reps = canonical_representatives (seeds_of cs) (eligible_decisions pol (seeds_of cs) ds)"
    "sr_chosen_ids r =
       select_batch (sp_max_batch_size pol) (seeds_of cs) (ax_family_quota_remaining ax) reps"
    "distinct (ids_of reps)" "1 \<le> sp_max_batch_size pol"
    "\<forall>d \<in> set reps. d \<in> set ds \<and> is_eligible pol (seeds_of cs) d"
    by (rule schedule_factsE[OF assms(1,2)], rule that, assumption+)
  have ids: "distinct (map cs_hypothesis_id (ordered_candidates cs))"
    using assms(3) by (metis mset_eq_imp_distinct_iff mset_map mset_sort ordered_candidates_def)
  have families: "hy_family (cs_proposal (seed_by_id (seeds_of cs) d)) = sd_family d"
    if member: "d \<in> set ds" for d
  proof -
    obtain c signal where c: "c \<in> set (ordered_candidates cs)" "decides ax pol c signal d"
      using decide_all_member[OF f(1) member] by metis
    from map_of_dict_by_eq[OF _ c(1), of cs_hypothesis_id] ids decidesD[OF c(2)] show ?thesis
      by (simp add: seed_by_id_def distinct_map)
  qed
  have met: "quota_met (sp_max_batch_size pol) (seeds_of cs) reps (sr_chosen_ids r) (family, quota)"
    unfolding f(4) by (rule select_batch_quota[OF f(6,5) assms(4)]) (use families f(7) in blast)
  show ?thesis
  proof (cases "set (family_ids family reps) \<subseteq> set (sr_chosen_ids r)")
    case False
    with met show ?thesis by (auto simp: quota_met_def)
  next
    case all: True
    have "sd_chosen d \<or> (\<exists>e \<in> set (sr_decisions r). is_eligible pol (seeds_of cs) e \<and>
        group_of (seeds_of cs) e = group_of (seeds_of cs) d \<and>
        representative_key e < representative_key d)"
      if d: "d \<in> set (sr_decisions r)" "is_eligible pol (seeds_of cs) d" "sd_family d = family" for d
    proof -
      from d(1) obtain x where x: "x \<in> set ds" "sd_hypothesis_id x = sd_hypothesis_id d"
        "sd_family x = sd_family d" "sd_chosen d \<longleftrightarrow> sd_hypothesis_id d \<in> set (sr_chosen_ids r)"
        by (auto simp: f(2))
      have "sd_chosen d" if e: "e \<in> set reps" "sd_hypothesis_id e = sd_hypothesis_id d" for e
      proof -
        have "sd_family e = sd_family x"
          using families[of e] families[OF x(1)] e f(7) x(2) by (simp add: seed_by_id_def)
        then have "sd_hypothesis_id e \<in> set (family_ids family reps)" using e(1) x(3) d(3) by auto
        then have "sd_hypothesis_id d \<in> set (sr_chosen_ids r)" using all e(2) by auto
        then show ?thesis using x(4) by simp
      qed
      with represented_or_outranked[OF f(3,2) d(1,2)] show ?thesis by blast
    qed
    then show ?thesis by blast
  qed
qed

text \<open>Scheduling does not depend on the order in which the candidates are proposed, when their
  fingerprints differ.\<close>

theorem schedule_ignores_proposal_order:
  assumes "mset cs = mset cs'" "distinct (map cs_fingerprint cs)"
  shows "schedule_candidates cs signals ax pol = schedule_candidates cs' signals ax pol"
proof -
  have "inj_on cs_fingerprint (set cs)" using assms(2) by (simp add: distinct_map)
  moreover have "mset cs = mset (sort_key cs_fingerprint cs')" using assms(1) by simp
  ultimately have "ordered_candidates cs = ordered_candidates cs'"
    unfolding ordered_candidates_def by (intro sort_key_inj_key_eq) simp_all
  then show ?thesis by (simp add: schedule_candidates_def)
qed

section \<open>Concrete runs\<close>

definition sample_proposal :: "insight_family \<Rightarrow> hypothesis_proposal" where
  "sample_proposal family = \<lparr>hy_statement = ''s'', hy_rationale = ''r'', hy_expected_evidence = ''e'',
     hy_falsification_conditions = [''f''], hy_family = family, hy_method_family = ''m'',
     hy_dataset_ids = [''d''], hy_columns = [''x''], hy_segment = None, hy_time_scope = None,
     hy_probe_kind = ''p'',
     hy_predicate = \<lparr>hp_metric = ''x'', hp_operator = Exists, hp_left_operand = None,
       hp_right_operand = None, hp_threshold = None\<rparr>,
     hy_parent_hypothesis_id = None\<rparr>"

definition sample_seed :: "string \<Rightarrow> string \<Rightarrow> insight_family \<Rightarrow> bool \<Rightarrow> candidate_seed" where
  "sample_seed name key family mandatory = \<lparr>cs_proposal = sample_proposal family,
     cs_hypothesis_id = ''h'' @ name, cs_fingerprint = name, cs_group_key = key,
     cs_coverage_key = name, cs_sequence_index = 1, cs_status = Hs_Proposed,
     cs_origin = From_Agent, cs_mandatory = mandatory, cs_priority = 0\<rparr>"

definition sample_signals :: "py_real \<Rightarrow> candidate_signals" where
  "sample_signals v = \<lparr>sg_business_value = v, sg_information_gain_proxy = Finite 0,
     sg_expected_cost = Finite 0, sg_multiplicity_risk = Finite 0, sg_query_fingerprint = None\<rparr>"

definition sample_context :: admission_context where
  "sample_context = \<lparr>ax_dataset_columns = [(''d'', [''x''])], ax_allowed_dataset_ids = [''d''],
     ax_supported_method_families = [''m''], ax_historical_fingerprints = [],
     ax_answered_fingerprints = [], ax_executed_query_fingerprints = [],
     ax_remaining_cost = Finite 1, ax_family_quota_remaining = [(Diagnostic, 1), (Predictive, 1)],
     ax_unexplored_coverage_keys = [''a''], ax_abandoned_constraints = []\<rparr>"

definition sample_policy :: scheduler_policy where
  "sample_policy = \<lparr>sp_scoring_policy_version = ''v1'',
     sp_weights = \<lparr>pw_business_value = Finite 1, pw_information_gain_proxy = Finite 0,
       pw_novelty = Finite 0, pw_coverage_gap = Finite 0, pw_feasibility = Finite 0,
       pw_expected_cost = Finite 0, pw_redundancy = Finite 0, pw_multiplicity_risk = Finite 0\<rparr>,
     sp_admission_priority = Finite 0, sp_no_information_priority = Finite 0,
     sp_max_batch_size = 2, sp_max_multiplicity_risk = Finite 1\<rparr>"

definition sample_candidates :: "candidate_seed list" where
  "sample_candidates = [sample_seed ''c'' ''g2'' Diagnostic False, sample_seed ''a'' ''g1'' Predictive True,
     sample_seed ''b'' ''g3'' Predictive False]"

definition sample_signal_table :: "(string, candidate_signals) dict" where
  "sample_signal_table = [(''ha'', sample_signals (Finite 0)), (''hb'', sample_signals (Finite 1)),
     (''hc'', sample_signals (Finite (1/2)))]"

definition sample_result :: scheduling_result where
  "sample_result =
     projr (schedule_candidates sample_candidates sample_signal_table sample_context sample_policy)"

lemma sample_policy_valid: "scheduler_policy_valid sample_policy"
  by code_simp

lemma sample_schedules:
  "schedule_candidates sample_candidates sample_signal_table sample_context sample_policy =
     Inr sample_result"
proof -
  have "\<not> isl (schedule_candidates sample_candidates sample_signal_table sample_context sample_policy)"
    by code_simp
  then show ?thesis unfolding sample_result_def by simp
qed

lemma sample_chosen: "sr_chosen_ids sample_result = [''ha'', ''hc'']"
  by code_simp

theorem scheduled_candidates_may_run_witness:
  "''ha'' \<in> set (sr_chosen_ids sample_result) \<and>
   (\<exists>d \<in> set (sr_decisions sample_result). sd_hypothesis_id d = ''ha'' \<and> sd_status d = Hs_Admitted)"
  using scheduled_candidates_may_run[OF sample_schedules sample_policy_valid, of "''ha''"]
  by (auto simp: sample_chosen)

theorem batch_is_maximal_witness:
  "length (sr_chosen_ids sample_result) = 2 \<and>
   distinct (map (\<lambda>h. cs_group_key (the (map_of (seeds_of sample_candidates) h)))
     (sr_chosen_ids sample_result))"
  using batch_is_maximal[OF sample_schedules sample_policy_valid] by (simp add: sample_chosen)

lemma sample_mandatory:
  "list_ex (\<lambda>d. sd_hypothesis_id d = ''ha'' \<and> sd_status d = Hs_Admitted \<and>
     cs_mandatory (seed_by_id (seeds_of sample_candidates) d)) (sr_decisions sample_result)"
  by code_simp

theorem mandatory_goes_first_witness:
  "\<exists>d \<in> set (sr_decisions sample_result). sd_hypothesis_id d = ''ha'' \<and>
     (sd_chosen d \<or> (\<exists>e \<in> set (sr_decisions sample_result). representative_key e < representative_key d) \<or>
      int (length (sr_chosen_ids sample_result)) = 2)"
proof -
  obtain d where d: "d \<in> set (sr_decisions sample_result)" "sd_hypothesis_id d = ''ha''"
    "sd_status d = Hs_Admitted" "cs_mandatory (seed_by_id (seeds_of sample_candidates) d)"
    using sample_mandatory unfolding list_ex_iff by blast
  from mandatory_goes_first[OF sample_schedules sample_policy_valid d(1,3,4)] d(1,2)
  show ?thesis by (auto simp: sample_chosen)
qed

lemma sample_diagnostic:
  "chosen_in_family (seeds_of sample_candidates) Diagnostic (sr_chosen_ids sample_result) = 1"
  by code_simp

theorem family_quotas_are_reserved_witness:
  "1 \<le> chosen_in_family (seeds_of sample_candidates) Diagnostic (sr_chosen_ids sample_result)"
proof -
  have ids: "distinct (map cs_hypothesis_id sample_candidates)" by code_simp
  have "(Diagnostic, 1) \<in> set (ax_family_quota_remaining sample_context)"
    by (simp add: sample_context_def)
  from family_quotas_are_reserved[OF sample_schedules sample_policy_valid ids this]
  show ?thesis by (elim disjE) (simp_all add: sample_diagnostic)
qed

theorem schedule_ignores_proposal_order_witness:
  "schedule_candidates (rev sample_candidates) sample_signal_table sample_context sample_policy =
     Inr sample_result"
proof -
  have "distinct (map cs_fingerprint sample_candidates)" by code_simp
  from schedule_ignores_proposal_order[of sample_candidates "rev sample_candidates", OF _ this]
  show ?thesis using sample_schedules by simp
qed

text \<open>A mandatory candidate can be displaced for good: the representative of a canonical group is
  chosen by score before mandatory coverage is served, so an optional candidate of the same
  group with a better score takes the place of an admitted mandatory one, although the batch
  has room.\<close>

theorem optional_displaces_mandatory:
  "\<exists>cs signals ax pol r d. scheduler_policy_valid pol \<and> distinct (map cs_hypothesis_id cs) \<and>
     schedule_candidates cs signals ax pol = Inr r \<and> d \<in> set (sr_decisions r) \<and>
     sd_status d = Hs_Admitted \<and> cs_mandatory (seed_by_id (seeds_of cs) d) \<and> \<not> sd_chosen d \<and>
     int (length (sr_chosen_ids r)) < sp_max_batch_size pol \<and>
     list_all (\<lambda>h. \<not> cs_mandatory (the (map_of (seeds_of cs) h))) (sr_chosen_ids r)"
proof -
  let ?cs = "[sample_seed ''a'' ''g'' Diagnostic True, sample_seed ''b'' ''g'' Diagnostic False]"
  let ?run = "schedule_candidates ?cs sample_signal_table sample_context sample_policy"
  let ?test = "\<lambda>r. list_ex (\<lambda>d. sd_status d = Hs_Admitted \<and>
       cs_mandatory (seed_by_id (seeds_of ?cs) d) \<and> \<not> sd_chosen d) (sr_decisions r) \<and>
     int (length (sr_chosen_ids r)) < sp_max_batch_size sample_policy \<and>
     list_all (\<lambda>h. \<not> cs_mandatory (the (map_of (seeds_of ?cs) h))) (sr_chosen_ids r)"
  have "case ?run of Inl e \<Rightarrow> False | Inr r \<Rightarrow> ?test r" by code_simp
  then obtain r where r: "?run = Inr r" "?test r" by (cases ?run) auto
  from r(2) obtain d where "d \<in> set (sr_decisions r)" "sd_status d = Hs_Admitted"
    "cs_mandatory (seed_by_id (seeds_of ?cs) d)" "\<not> sd_chosen d" unfolding list_ex_iff by blast
  moreover have "distinct (map cs_hypothesis_id ?cs)" by code_simp
  ultimately show ?thesis using r sample_policy_valid by blast
qed

end
