(* ===== verification/Branching.thy ===== *)
theory Branching
  imports SchedulerProperties Loops
begin

text \<open>
  What an abandoned line leaves behind (\<open>agents/exploration/branching.py\<close>): the hypothesis a
  receipt belongs to, the hypothesis each claim bundle was about, and the constraints
  ("tried and why it failed") derived from committed receipts and gate reports. The worker
  derives them when it abandons a line, the evidence issuer derives them again when it replays
  the log.
\<close>

section \<open>Definitions\<close>

datatype branching_error =
    No_Executor_Identity
  | No_Hypothesis_Binding string
  | Adjudication_Conflict
  | Receipt_Not_Committed string
  | Verdict_Without_Group
  | No_Candidate string
  | Constraint_Invalid
  | No_Attribution string
  | No_Failing_Gate string

text \<open>\<open>str.split(":")\<close>\<close>

fun split_char :: "char \<Rightarrow> string \<Rightarrow> string list" where
  "split_char c [] = [[]]"
| "split_char c (d # s) =
     (if d = c then [] # split_char c s
      else (case split_char c s of w # ws \<Rightarrow> (d # w) # ws | [] \<Rightarrow> [[d]]))"

definition receipt_hypothesis_id :: "evidence_receipt \<Rightarrow> branching_error + string" where
  "receipt_hypothesis_id r = (case er_execution r of
       None \<Rightarrow> Inl No_Executor_Identity
     | Some x \<Rightarrow>
         (let segments = rev (split_char CHR '':'' (rx_run_id x)) in
          if length segments < 6 \<or> segments ! 0 \<noteq> ''execute_probes'' \<or>
             segments ! 2 \<noteq> ''hypothesis'' \<or> segments ! 1 = []
          then Inl (No_Hypothesis_Binding (rx_run_id x))
          else if (case er_statistics r of
              None \<Rightarrow> False
            | Some st \<Rightarrow> st_hypothesis_id st \<noteq> None \<and> st_hypothesis_id st \<noteq> Some (segments ! 1))
          then Inl Adjudication_Conflict
          else Inr (segments ! 1)))"

text \<open>The hypothesis of each claim bundle, by the order of receipts and verdicts in a round.\<close>

record attribution =
  at_mapping :: "(string, string) dict"
  at_in_round :: bool
  at_gate_order :: "string list"
  at_gate_cursor :: nat

fun attribute_event ::
  "(string, evidence_receipt) dict \<Rightarrow> attribution \<Rightarrow> loop_event \<Rightarrow> branching_error + attribution" where
  "attribute_event receipts s (Round_Started index branch) =
     Inr (s\<lparr>at_in_round := True, at_gate_order := [], at_gate_cursor := 0\<rparr>)"
| "attribute_event receipts s (Receipt_Committed stp receipt rows cells digest) =
     (if \<not> at_in_round s then Inr s
      else case map_of receipts receipt of
        None \<Rightarrow> Inl (Receipt_Not_Committed receipt)
      | Some r \<Rightarrow>
          if er_facts r = [] then Inr s
          else bind_res (receipt_hypothesis_id r) (\<lambda>h.
            Inr (if h \<in> set (at_gate_order s) then s
                 else s\<lparr>at_gate_order := at_gate_order s @ [h]\<rparr>)))"
| "attribute_event receipts s (Gate_Verdict claim_bundle verdict_value) =
     (if \<not> at_in_round s \<or> length (at_gate_order s) \<le> at_gate_cursor s
      then Inl Verdict_Without_Group
      else Inr (s\<lparr>at_mapping :=
                 dict_set claim_bundle (at_gate_order s ! at_gate_cursor s) (at_mapping s),
               at_gate_cursor := at_gate_cursor s + 1\<rparr>))"
| "attribute_event receipts s other = Inr s"

definition bundle_hypotheses_from_events ::
  "exploration_event list \<Rightarrow> (string, evidence_receipt) dict \<Rightarrow> branching_error + (string, string) dict" where
  "bundle_hypotheses_from_events events receipts =
     bind_res (fold_res (attribute_event receipts)
         \<lparr>at_mapping = [], at_in_round = False, at_gate_order = [], at_gate_cursor = 0\<rparr>
         (map ev_body events))
       (\<lambda>s. Inr (at_mapping s))"

type_synonym negatives = "(string \<times> constraint_reason, branch_constraint) dict"

definition note_negative ::
  "(string, candidate_seed) dict \<Rightarrow> negatives \<Rightarrow> string \<Rightarrow> constraint_reason \<Rightarrow> string \<Rightarrow>
    branching_error + negatives" where
  "note_negative candidates negs h why detail = (case map_of candidates h of
       None \<Rightarrow> Inl (No_Candidate h)
     | Some c \<Rightarrow>
         (let entry = \<lparr>hypothesis_fingerprint = cs_fingerprint c, coverage_key = cs_coverage_key c,
                bc_family = hy_family (cs_proposal c), bc_reason = why, detail_code = detail\<rparr>;
              key = (cs_fingerprint c, why)
          in if \<not> branch_constraint_valid entry then Inl Constraint_Invalid
             else case map_of negs key of
               None \<Rightarrow> Inr (dict_set key entry negs)
             | Some current \<Rightarrow>
                 Inr (if detail < detail_code current then dict_set key entry negs else negs)))"

definition receipt_outcome :: "evidence_receipt \<Rightarrow> hypothesis_side option" where
  "receipt_outcome r = Option.bind (er_statistics r) st_hypothesis_outcome"

definition note_receipt ::
  "(string, candidate_seed) dict \<Rightarrow> (string, evidence_receipt) dict \<Rightarrow> negatives \<Rightarrow> string \<Rightarrow>
    branching_error + negatives" where
  "note_receipt candidates receipts negs receipt_id =
     (let r = the (map_of receipts receipt_id) in
      if er_facts r = [] then Inr negs
      else bind_res (receipt_hypothesis_id r) (\<lambda>h. case receipt_outcome r of
          Some Contradicts \<Rightarrow> note_negative candidates negs h constraint_reason.Refuted receipt_id
        | None \<Rightarrow> note_negative candidates negs h constraint_reason.Inconclusive receipt_id
        | Some Supports \<Rightarrow> Inr negs))"

fun gate_value :: "gate_name \<Rightarrow> string" where
  "gate_value Structure = ''structure''"
| "gate_value Reachability = ''reachability''"
| "gate_value Numeric = ''numeric''"
| "gate_value Entity = ''entity''"
| "gate_value Statistical = ''statistical''"
| "gate_value State = ''state''"

definition note_report ::
  "(string, candidate_seed) dict \<Rightarrow> (string, gate_report) dict \<Rightarrow> (string, string) dict \<Rightarrow>
    negatives \<Rightarrow> string \<Rightarrow> branching_error + negatives" where
  "note_report candidates reports attributed negs bundle_id =
     (let report = the (map_of reports bundle_id) in
      if gr_passed report then Inr negs
      else case map_of attributed bundle_id of
        None \<Rightarrow> Inl (No_Attribution bundle_id)
      | Some h \<Rightarrow>
          (case find (\<lambda>v. \<not> ve_passed v) (gr_verdicts report) of
             None \<Rightarrow> Inl (No_Failing_Gate bundle_id)
           | Some v \<Rightarrow> note_negative candidates negs h constraint_reason.Gate_Rejected
               (bundle_id @ '':'' @ gate_value (ve_gate v))))"

definition constraint_key :: "branch_constraint \<Rightarrow> string \<times> constraint_reason" where
  "constraint_key e = (hypothesis_fingerprint e, bc_reason e)"

definition collect_negatives ::
  "(string, candidate_seed) dict \<Rightarrow> (string, evidence_receipt) dict \<Rightarrow> (string, gate_report) dict \<Rightarrow>
    (string, string) dict \<Rightarrow> branching_error + negatives" where
  "collect_negatives candidates receipts reports attributed =
     bind_res (fold_res (note_receipt candidates receipts) [] (sort (dict_keys receipts)))
       (\<lambda>negs. fold_res (note_report candidates reports attributed) negs (sort (dict_keys reports)))"

definition derive_branch_constraints ::
  "(string, candidate_seed) dict \<Rightarrow> (string, evidence_receipt) dict \<Rightarrow> (string, gate_report) dict \<Rightarrow>
    (string, string) dict \<Rightarrow> branch_constraint list \<Rightarrow> branching_error + branch_constraint list" where
  "derive_branch_constraints candidates receipts reports attributed prior =
     bind_res (collect_negatives candidates receipts reports attributed) (\<lambda>negs.
       Inr (sort_key (\<lambda>e. (hypothesis_fingerprint e, reason_value (bc_reason e), detail_code e))
         (map snd (filter (\<lambda>ke. fst ke \<notin> constraint_key ` set prior) negs))))"

section \<open>What the constraints say\<close>

text \<open>
  The failures on record: a candidate, the reason and the evidence. A receipt with facts refutes
  its hypothesis, or leaves it open when it has no outcome; a bundle that fails the gates rejects
  the hypothesis it is attributed to, at the first gate it fails.
\<close>

type_synonym failure = "candidate_seed \<times> constraint_reason \<times> string"

definition receipt_failures ::
  "(string, candidate_seed) dict \<Rightarrow> (string, evidence_receipt) dict \<Rightarrow> string \<Rightarrow> failure set" where
  "receipt_failures candidates receipts rid = {(c, why, d). d = rid \<and>
     (\<exists>r h. map_of receipts rid = Some r \<and> er_facts r \<noteq> [] \<and> receipt_hypothesis_id r = Inr h \<and>
        map_of candidates h = Some c \<and>
        (receipt_outcome r = Some Contradicts \<and> why = constraint_reason.Refuted \<or>
         receipt_outcome r = None \<and> why = constraint_reason.Inconclusive))}"

definition report_failures ::
  "(string, candidate_seed) dict \<Rightarrow> (string, gate_report) dict \<Rightarrow> (string, string) dict \<Rightarrow> string \<Rightarrow>
    failure set" where
  "report_failures candidates reports attributed bid = {(c, why, d).
     (\<exists>report h v. map_of reports bid = Some report \<and> \<not> gr_passed report \<and>
        map_of attributed bid = Some h \<and> map_of candidates h = Some c \<and>
        find (\<lambda>v. \<not> ve_passed v) (gr_verdicts report) = Some v \<and>
        why = constraint_reason.Gate_Rejected \<and> d = bid @ '':'' @ gate_value (ve_gate v))}"

definition failures ::
  "(string, candidate_seed) dict \<Rightarrow> (string, evidence_receipt) dict \<Rightarrow> (string, gate_report) dict \<Rightarrow>
    (string, string) dict \<Rightarrow> failure set" where
  "failures candidates receipts reports attributed =
     (\<Union>rid. receipt_failures candidates receipts rid) \<union>
     (\<Union>bid. report_failures candidates reports attributed bid)"

text \<open>The dictionary under construction records a set of failures, each key with its least evidence.\<close>

definition records :: "failure set \<Rightarrow> negatives \<Rightarrow> bool" where
  "records S negs \<longleftrightarrow> distinct (dict_keys negs) \<and>
     (\<forall>k e. map_of negs k = Some e \<longrightarrow> k = constraint_key e \<and>
        (\<exists>c. (c, bc_reason e, detail_code e) \<in> S \<and> cs_fingerprint c = hypothesis_fingerprint e)) \<and>
     (\<forall>c why d. (c, why, d) \<in> S \<longrightarrow>
        (\<exists>e. map_of negs (cs_fingerprint c, why) = Some e \<and> detail_code e \<le> d))"

lemma note_negative_records:
  assumes "records S negs" "note_negative candidates negs h why d = Inr negs'"
    "map_of candidates h = Some c"
  shows "records (insert (c, why, d) S) negs'"
proof -
  let ?k = "(cs_fingerprint c, why)"
  let ?e = "\<lparr>hypothesis_fingerprint = cs_fingerprint c, coverage_key = cs_coverage_key c,
    bc_family = hy_family (cs_proposal c), bc_reason = why, detail_code = d\<rparr>"
  from assms(1) have dist: "distinct (dict_keys negs)"
    and sound: "\<And>k e. map_of negs k = Some e \<Longrightarrow> k = constraint_key e \<and>
        (\<exists>c. (c, bc_reason e, detail_code e) \<in> S \<and> cs_fingerprint c = hypothesis_fingerprint e)"
    and full: "\<And>c why d. (c, why, d) \<in> S \<Longrightarrow>
        \<exists>e. map_of negs (cs_fingerprint c, why) = Some e \<and> detail_code e \<le> d"
    unfolding records_def by blast+
  consider (kept) current where "negs' = negs" "map_of negs ?k = Some current" "detail_code current \<le> d"
    | (set) "negs' = dict_set ?k ?e negs" "\<forall>e. map_of negs ?k = Some e \<longrightarrow> d < detail_code e"
    using assms(2,3) unfolding note_negative_def Let_def
    by (auto split: if_splits option.splits simp: not_less)
  then show ?thesis
  proof cases
    case kept
    then show ?thesis unfolding records_def using dist sound full by blast
  next
    case set
    have "k = constraint_key e \<and> (\<exists>c'. (c', bc_reason e, detail_code e) \<in> insert (c, why, d) S \<and>
        cs_fingerprint c' = hypothesis_fingerprint e)" if "map_of negs' k = Some e" for k e
    proof (cases "k = ?k")
      case True
      with that set(1) have "e = ?e" by simp
      with True show ?thesis by (auto simp: constraint_key_def)
    next
      case False
      with that set(1) have "map_of negs k = Some e" by simp
      from sound[OF this] show ?thesis by blast
    qed
    moreover have "\<exists>e. map_of negs' (cs_fingerprint c', why') = Some e \<and> detail_code e \<le> d'"
      if "(c', why', d') \<in> insert (c, why, d) S" for c' why' d'
    proof (cases "(cs_fingerprint c', why') = ?k")
      case True
      have "d \<le> d'"
      proof (cases "(c', why', d') = (c, why, d)")
        case False
        with that have "(c', why', d') \<in> S" by blast
        from full[OF this] True set(2) show ?thesis by auto
      qed simp
      with True set(1) show ?thesis by simp
    next
      case False
      then have "(c', why', d') \<in> S" using that by auto
      from full[OF this] False set(1) show ?thesis by auto
    qed
    ultimately show ?thesis unfolding records_def using dist set(1) by (auto intro: distinct_dict_set)
  qed
qed

lemma note_negative_candidate:
  "note_negative candidates negs h why d = Inr negs' \<Longrightarrow> \<exists>c. map_of candidates h = Some c"
  by (auto simp: note_negative_def split: option.splits)

lemma note_receipt_records:
  assumes "records S negs" "note_receipt candidates receipts negs rid = Inr negs'"
    "rid \<in> set (dict_keys receipts)"
  shows "records (S \<union> receipt_failures candidates receipts rid) negs'"
proof -
  obtain r where r: "map_of receipts rid = Some r" using assms(3) by (metis map_of_eq_None_iff not_Some_eq set_map)
  let ?F = "receipt_failures candidates receipts rid"
  note run = assms(2)[unfolded note_receipt_def Let_def r option.sel]
  have same: "records (S \<union> ?F) negs'" if "?F = {}" "negs' = negs" using that assms(1) by simp
  have noted: "records (S \<union> ?F) negs'"
    if F: "?F = {(c, why, rid) |c. map_of candidates h = Some c}"
      and note_run: "note_negative candidates negs h why rid = Inr negs'" for h why
  proof -
    obtain c where c: "map_of candidates h = Some c" using note_negative_candidate[OF note_run] by blast
    then have "?F = {(c, why, rid)}" using F by auto
    then show ?thesis using note_negative_records[OF assms(1) note_run c] by simp
  qed
  show ?thesis
  proof (cases "er_facts r = []")
    case True
    then show ?thesis using run r by (intro same) (auto simp: receipt_failures_def)
  next
    case facts: False
    with run obtain h where h: "receipt_hypothesis_id r = Inr h" by (auto simp: res_simps)
    show ?thesis
    proof (cases "receipt_outcome r")
      case None
      show ?thesis by (rule noted[where h = h and why = constraint_reason.Inconclusive])
        (use run facts h None r in \<open>auto simp: receipt_failures_def\<close>)
    next
      case (Some side)
      show ?thesis
      proof (cases side)
        case Supports
        then show ?thesis using run facts h Some r by (intro same) (auto simp: receipt_failures_def)
      next
        case Contradicts
        show ?thesis by (rule noted[where h = h and why = constraint_reason.Refuted])
          (use run facts h Some r Contradicts in \<open>auto simp: receipt_failures_def\<close>)
      qed
    qed
  qed
qed

lemma note_report_records:
  assumes "records S negs" "note_report candidates reports attributed negs bid = Inr negs'"
    "bid \<in> set (dict_keys reports)"
  shows "records (S \<union> report_failures candidates reports attributed bid) negs'"
proof -
  obtain report where r: "map_of reports bid = Some report"
    using assms(3) by (metis map_of_eq_None_iff not_Some_eq set_map)
  note run = assms(2)[unfolded note_report_def Let_def r option.sel]
  show ?thesis
  proof (cases "gr_passed report")
    case True
    then have "report_failures candidates reports attributed bid = {}"
      using r by (auto simp: report_failures_def)
    with True run assms(1) show ?thesis by simp
  next
    case False
    with run obtain h v where hv: "map_of attributed bid = Some h"
      "find (\<lambda>v. \<not> ve_passed v) (gr_verdicts report) = Some v"
      "note_negative candidates negs h constraint_reason.Gate_Rejected
         (bid @ '':'' @ gate_value (ve_gate v)) = Inr negs'"
      by (auto split: option.splits)
    obtain c where c: "map_of candidates h = Some c" using note_negative_candidate[OF hv(3)] by blast
    have "report_failures candidates reports attributed bid =
        {(c, constraint_reason.Gate_Rejected, bid @ '':'' @ gate_value (ve_gate v))}"
      using r False hv(1,2) c unfolding report_failures_def by auto
    then show ?thesis using note_negative_records[OF assms(1) hv(3) c] by simp
  qed
qed

lemma collect_negatives_records:
  assumes "collect_negatives candidates receipts reports attributed = Inr negs"
  shows "records (failures candidates receipts reports attributed) negs"
proof -
  obtain m where m: "fold_res (note_receipt candidates receipts) [] (sort (dict_keys receipts)) = Inr m"
    "fold_res (note_report candidates reports attributed) m (sort (dict_keys reports)) = Inr negs"
    using assms by (auto simp: collect_negatives_def res_simps)
  have "records {} []" by (simp add: records_def)
  have "records ({} \<union> (\<Union>rid \<in> set (sort (dict_keys receipts)). receipt_failures candidates receipts rid)) m"
    by (rule fold_res_union[where I = records, OF _ \<open>records {} []\<close> m(1)])
      (auto intro: note_receipt_records simp del: set_map)
  from fold_res_union[where I = records and F = "report_failures candidates reports attributed", OF _ this m(2)]
  have "records ((\<Union>rid \<in> set (dict_keys receipts). receipt_failures candidates receipts rid) \<union>
      (\<Union>bid \<in> set (dict_keys reports). report_failures candidates reports attributed bid)) negs"
    using note_report_records by (simp del: set_map)
  moreover have "receipt_failures candidates receipts rid = {}" if "rid \<notin> set (dict_keys receipts)" for rid
  proof -
    from that have "map_of receipts rid = None" by (simp add: map_of_eq_None_iff)
    then show ?thesis by (simp add: receipt_failures_def)
  qed
  then have "(\<Union>rid. receipt_failures candidates receipts rid) =
      (\<Union>rid \<in> set (dict_keys receipts). receipt_failures candidates receipts rid)" by blast
  moreover have "report_failures candidates reports attributed bid = {}"
    if "bid \<notin> set (dict_keys reports)" for bid
  proof -
    from that have "map_of reports bid = None" by (simp add: map_of_eq_None_iff)
    then show ?thesis by (simp add: report_failures_def)
  qed
  then have "(\<Union>bid. report_failures candidates reports attributed bid) =
      (\<Union>bid \<in> set (dict_keys reports). report_failures candidates reports attributed bid)" by blast
  ultimately show ?thesis by (simp add: failures_def)
qed

lemma deriveD:
  assumes "derive_branch_constraints candidates receipts reports attributed prior = Inr fresh"
  obtains negs where "records (failures candidates receipts reports attributed) negs"
    "set fresh = {e \<in> set (dict_values negs). constraint_key e \<notin> constraint_key ` set prior}"
    "mset fresh = mset (map snd (filter (\<lambda>ke. fst ke \<notin> constraint_key ` set prior) negs))"
proof -
  obtain negs where negs: "collect_negatives candidates receipts reports attributed = Inr negs"
    and fresh: "fresh = sort_key (\<lambda>e. (hypothesis_fingerprint e, reason_value (bc_reason e), detail_code e))
      (map snd (filter (\<lambda>ke. fst ke \<notin> constraint_key ` set prior) negs))"
    using assms by (auto simp: derive_branch_constraints_def res_simps)
  note rec = collect_negatives_records[OF negs]
  have "fst ke = constraint_key (snd ke)" if "ke \<in> set negs" for ke
  proof -
    from that rec have "map_of negs (fst ke) = Some (snd ke)" by (simp add: records_def)
    with rec show ?thesis unfolding records_def by blast
  qed
  then have "set fresh = {e \<in> set (dict_values negs). constraint_key e \<notin> constraint_key ` set prior}"
    unfolding fresh by force
  then show thesis using that rec fresh by simp
qed

lemma recordsD:
  assumes "records S negs"
  shows "distinct (dict_keys negs)"
    and "map_of negs k = Some e \<Longrightarrow> k = constraint_key e \<and>
        (\<exists>c. (c, bc_reason e, detail_code e) \<in> S \<and> cs_fingerprint c = hypothesis_fingerprint e)"
    and "(c, why, d) \<in> S \<Longrightarrow>
        \<exists>e. map_of negs (cs_fingerprint c, why) = Some e \<and> detail_code e \<le> d"
  using assms unfolding records_def by blast+

lemma records_keyed:
  assumes "records S negs" "e \<in> set (dict_values negs)"
  shows "map_of negs (constraint_key e) = Some e"
proof -
  from assms(2) obtain k where "(k, e) \<in> set negs" by auto
  then have k: "map_of negs k = Some e" using recordsD(1)[OF assms(1)] by simp
  from recordsD(2)[OF assms(1) k] k show ?thesis by simp
qed

lemma records_keys:
  assumes "records S negs"
  shows "constraint_key ` set (dict_values negs) = {(cs_fingerprint c, why) |c why d. (c, why, d) \<in> S}"
    (is "?l = ?r")
proof
  show "?l \<subseteq> ?r"
  proof
    fix x assume "x \<in> ?l"
    then obtain e where e: "x = constraint_key e" "e \<in> set (dict_values negs)" by blast
    obtain c where "(c, bc_reason e, detail_code e) \<in> S" "cs_fingerprint c = hypothesis_fingerprint e"
      using recordsD(2)[OF assms records_keyed[OF assms e(2)]] by blast
    then show "x \<in> ?r" unfolding e(1) constraint_key_def by force
  qed
  show "?r \<subseteq> ?l"
  proof clarify
    fix c why d assume "(c, why, d) \<in> S"
    from recordsD(3)[OF assms this] obtain e where e: "map_of negs (cs_fingerprint c, why) = Some e"
      by blast
    from map_of_SomeD[OF e] have "e \<in> set (dict_values negs)" by force
    then show "(cs_fingerprint c, why) \<in> ?l" using recordsD(2)[OF assms e] by (metis image_eqI)
  qed
qed

lemma image_filter_Diff: "f ` {x \<in> A. f x \<notin> B} = f ` A - B"
  by auto

lemma derived_keys:
  assumes "derive_branch_constraints candidates receipts reports attributed prior = Inr fresh"
  shows "constraint_key ` set fresh = {(cs_fingerprint c, why) |c why d.
    (c, why, d) \<in> failures candidates receipts reports attributed} - constraint_key ` set prior"
proof -
  obtain negs where rec: "records (failures candidates receipts reports attributed) negs"
    and fresh: "set fresh = {e \<in> set (dict_values negs). constraint_key e \<notin> constraint_key ` set prior}"
    by (rule deriveD[OF assms])
  have "constraint_key ` set fresh = constraint_key ` set (dict_values negs) - constraint_key ` set prior"
    unfolding fresh by (rule image_filter_Diff)
  then show ?thesis unfolding records_keys[OF rec] .
qed

section \<open>Properties\<close>

text \<open>C18. The constraints of an abandoned line are exactly the failures on record that were not noted
  before, once per hypothesis and reason: each is backed by a receipt or by a gate report, with
  the least evidence there is for it, and no failure is missing.\<close>

theorem constraints_record_the_failures:
  assumes "derive_branch_constraints candidates receipts reports attributed prior = Inr fresh"
  shows "distinct (map constraint_key fresh) \<and>
    constraint_key ` set fresh = {(cs_fingerprint c, why) |c why d.
        (c, why, d) \<in> failures candidates receipts reports attributed} - constraint_key ` set prior \<and>
    (\<forall>e \<in> set fresh. (\<exists>c. (c, bc_reason e, detail_code e) \<in> failures candidates receipts reports attributed \<and>
        cs_fingerprint c = hypothesis_fingerprint e) \<and>
      (\<forall>c d. (c, bc_reason e, d) \<in> failures candidates receipts reports attributed \<and>
        cs_fingerprint c = hypothesis_fingerprint e \<longrightarrow> detail_code e \<le> d))"
proof -
  let ?S = "failures candidates receipts reports attributed"
  obtain negs where rec: "records ?S negs"
    and fresh: "set fresh = {e \<in> set (dict_values negs). constraint_key e \<notin> constraint_key ` set prior}"
    and bag: "mset fresh = mset (map snd (filter (\<lambda>ke. fst ke \<notin> constraint_key ` set prior) negs))"
    by (rule deriveD[OF assms])
  have "map constraint_key (dict_values negs) = dict_keys negs"
    unfolding map_map comp_def
  proof (rule map_cong[OF refl])
    fix ke assume "ke \<in> set negs"
    then have "map_of negs (fst ke) = Some (snd ke)" using recordsD(1)[OF rec] by simp
    from recordsD(2)[OF rec this] show "constraint_key (snd ke) = fst ke" by simp
  qed
  then have "distinct (map constraint_key (dict_values negs))" using recordsD(1)[OF rec] by metis
  then have "distinct (map constraint_key
      (map snd (filter (\<lambda>ke. fst ke \<notin> constraint_key ` set prior) negs)))"
    by (simp add: distinct_map_filter comp_def)
  then have distinct_keys: "distinct (map constraint_key fresh)"
    using bag by (metis mset_eq_imp_distinct_iff mset_map)
  have backed: "(\<exists>c. (c, bc_reason e, detail_code e) \<in> ?S \<and> cs_fingerprint c = hypothesis_fingerprint e) \<and>
      (\<forall>c d. (c, bc_reason e, d) \<in> ?S \<and> cs_fingerprint c = hypothesis_fingerprint e \<longrightarrow> detail_code e \<le> d)"
    if "e \<in> set fresh" for e
  proof -
    from that have e: "map_of negs (constraint_key e) = Some e" using fresh records_keyed[OF rec] by blast
    have "detail_code e \<le> d" if "(c, bc_reason e, d) \<in> ?S" "cs_fingerprint c = hypothesis_fingerprint e" for c d
      using recordsD(3)[OF rec that(1)] that(2) e by (auto simp: constraint_key_def)
    then show ?thesis using recordsD(2)[OF rec e] by blast
  qed
  show ?thesis using distinct_keys derived_keys[OF assms] backed by blast
qed

text \<open>C17. A refuted or gate-rejected hypothesis stays abandoned: once the constraints of its failure
  are in the state, the scheduler never chooses a candidate with its fingerprint again.\<close>

theorem abandoned_hypotheses_stay_abandoned:
  assumes "derive_branch_constraints candidates receipts reports attributed prior = Inr fresh"
    "(c, why, d) \<in> failures candidates receipts reports attributed"
    "why \<in> set hard_abandonment_reasons"
    "schedule_candidates cs signals ax pol = Inr r" "scheduler_policy_valid pol"
    "set prior \<union> set fresh \<subseteq> set (ax_abandoned_constraints ax)"
    "h \<in> set (sr_chosen_ids r)"
  shows "\<exists>x \<in> set cs. cs_hypothesis_id x = h \<and> cs_fingerprint x \<noteq> cs_fingerprint c"
proof -
  have "(cs_fingerprint c, why) \<in> constraint_key ` set fresh \<union> constraint_key ` set prior"
    using derived_keys[OF assms(1)] assms(2) by blast
  then obtain b where b: "b \<in> set (ax_abandoned_constraints ax)" "hypothesis_fingerprint b = cs_fingerprint c"
    "bc_reason b = why" using assms(6) by (auto simp: constraint_key_def)
  obtain x signal where x: "x \<in> set cs" "cs_hypothesis_id x = h" "may_run ax pol x signal"
    by (rule chosen_may_run[OF assms(4,5,7)])
  from x(3) b assms(3) have "cs_fingerprint x \<noteq> cs_fingerprint c" unfolding may_run_def by metis
  with x show ?thesis by blast
qed

lemma sort_keys_cong:
  assumes "distinct (dict_keys d)" "distinct (dict_keys e)" "set d = set e"
  shows "sort (dict_keys d) = sort (dict_keys e)"
  by (rule sorted_distinct_set_unique) (use assms in auto)

text \<open>The worker and the issuer derive the same constraints: the result depends on the content of the
  dictionaries of receipts and reports, not on the order of their entries, and on the prior
  constraints only through what they cover.\<close>

theorem constraints_are_replayable:
  assumes "distinct (dict_keys receipts)" "distinct (dict_keys receipts')" "set receipts = set receipts'"
    "distinct (dict_keys reports)" "distinct (dict_keys reports')" "set reports = set reports'"
    "map_of candidates = map_of candidates'" "map_of attributed = map_of attributed'"
    "constraint_key ` set prior = constraint_key ` set prior'"
  shows "derive_branch_constraints candidates receipts reports attributed prior =
    derive_branch_constraints candidates' receipts' reports' attributed' prior'"
proof -
  have maps: "map_of receipts = map_of receipts'" "map_of reports = map_of reports'"
    using assms(1-6) by (simp_all add: map_of_inject_set)
  have note_eq: "note_negative candidates = note_negative candidates'"
    by (intro ext) (simp add: note_negative_def assms(7))
  have "note_receipt candidates receipts = note_receipt candidates' receipts'"
    by (intro ext) (simp only: note_receipt_def maps note_eq)
  moreover have "note_report candidates reports attributed = note_report candidates' reports' attributed'"
    by (intro ext) (simp only: note_report_def maps note_eq assms(8))
  ultimately have "collect_negatives candidates receipts reports attributed =
      collect_negatives candidates' receipts' reports' attributed'"
    unfolding collect_negatives_def sort_keys_cong[OF assms(1-3)] sort_keys_cong[OF assms(4-6)] by simp
  then show ?thesis unfolding derive_branch_constraints_def assms(9) by simp
qed

section \<open>Concrete runs\<close>

definition refuting_receipt :: evidence_receipt where
  "refuting_receipt = sample_receipt\<lparr>er_execution := Some \<lparr>rx_run_id = ''e:r:1:hypothesis:ha:execute_probes'',
       rx_provider_call_id = ''call'', rx_logical_step_id = ''s'', rx_attempt_epoch = 1,
       rx_sequence_index = 1\<rparr>,
     er_statistics := Some \<lparr>st_hypothesis_id = Some ''ha'', st_statistical_family_id = None,
       st_hypothesis_outcome = Some Contradicts, st_test_name = ''t'', st_test_statistic = None,
       st_p_value = None, st_adjusted_p_value = None, st_effect_size = None, st_ci_low = None,
       st_ci_high = None, st_sample_size = None, st_sequence_index = None\<rparr>\<rparr>"

definition refuted_seeds :: "(string, candidate_seed) dict" where
  "refuted_seeds = [(''ha'', sample_seed ''a'' ''g1'' Predictive True)]"

definition refuted_constraint :: branch_constraint where
  "refuted_constraint = \<lparr>hypothesis_fingerprint = ''a'', coverage_key = ''a'', bc_family = Predictive,
     bc_reason = constraint_reason.Refuted, detail_code = ''r1''\<rparr>"

lemma refuted_run:
  "derive_branch_constraints refuted_seeds [(''r1'', refuting_receipt)] [] [] [] = Inr [refuted_constraint]"
  by code_simp

lemma refuted_failure:
  "(sample_seed ''a'' ''g1'' Predictive True, constraint_reason.Refuted, ''r1'') \<in>
     failures refuted_seeds [(''r1'', refuting_receipt)] [] []"
proof -
  have "receipt_hypothesis_id refuting_receipt = Inr ''ha''" by code_simp
  moreover have "receipt_outcome refuting_receipt = Some Contradicts" by code_simp
  moreover have "er_facts refuting_receipt \<noteq> []" by (simp add: refuting_receipt_def sample_receipt_def)
  ultimately have "(sample_seed ''a'' ''g1'' Predictive True, constraint_reason.Refuted, ''r1'') \<in>
      receipt_failures refuted_seeds [(''r1'', refuting_receipt)] ''r1''"
    by (simp add: receipt_failures_def refuted_seeds_def)
  then show ?thesis unfolding failures_def by blast
qed

theorem constraints_record_the_failures_witness:
  "constraint_key ` set [refuted_constraint] = {(cs_fingerprint c, why) |c why d.
     (c, why, d) \<in> failures refuted_seeds [(''r1'', refuting_receipt)] [] []}"
  using constraints_record_the_failures[OF refuted_run] by simp

theorem abandoned_hypotheses_stay_abandoned_witness:
  "\<exists>r. schedule_candidates sample_candidates sample_signal_table
       (sample_context\<lparr>ax_abandoned_constraints := [refuted_constraint]\<rparr>) sample_policy = Inr r \<and>
     (\<exists>x \<in> set sample_candidates. cs_hypothesis_id x = ''hc'' \<and> cs_fingerprint x \<noteq> ''a'')"
proof -
  let ?ax = "sample_context\<lparr>ax_abandoned_constraints := [refuted_constraint]\<rparr>"
  let ?run = "schedule_candidates sample_candidates sample_signal_table ?ax sample_policy"
  have "case ?run of Inl e \<Rightarrow> False | Inr r \<Rightarrow> ''hc'' \<in> set (sr_chosen_ids r)" by code_simp
  then obtain r where r: "?run = Inr r" "''hc'' \<in> set (sr_chosen_ids r)" by (cases ?run) auto
  have "\<exists>x \<in> set sample_candidates. cs_hypothesis_id x = ''hc'' \<and>
      cs_fingerprint x \<noteq> cs_fingerprint (sample_seed ''a'' ''g1'' Predictive True)"
    by (rule abandoned_hypotheses_stay_abandoned[OF refuted_run refuted_failure _ r(1)
        sample_policy_valid _ r(2)])
      (simp_all add: hard_abandonment_reasons_def)
  with r show ?thesis by (auto simp: sample_seed_def)
qed

theorem constraints_are_replayable_witness:
  "derive_branch_constraints refuted_seeds [(''r2'', refuting_receipt), (''r1'', refuting_receipt)] [] [] [] =
   derive_branch_constraints refuted_seeds [(''r1'', refuting_receipt), (''r2'', refuting_receipt)] [] [] []"
  by (rule constraints_are_replayable) auto

end
