(* ===== verification/StatRegistry.thy ===== *)
theory StatRegistry
  imports EventJournal Loops
begin

text \<open>
  The registry of statistical attempts (\<open>core/stat_registry.py\<close>): the only party that numbers
  the tests of a family, so that multiplicity is counted over every attempt. The file is
  modelled byte by byte, as for the event journal; the lock makes each operation one atomic
  step. Parameters: the JSON codec of an event and the digest an attempt id is made of. A record
  whose event or fields are not those the code knows is an event of its own
  (\<open>Unsupported_Event\<close>, \<open>Field_Missing\<close>); it raises when it is applied.
\<close>

section \<open>State and events\<close>

datatype attempt_status = Attempt_Running | Attempt_Done | Attempt_Broken

record stat_attempt =
  sa_attempt_id :: string
  sa_family_id :: string
  sa_sequence_index :: int
  sa_logical_step_id :: string
  sa_requested_test_type :: string
  sa_arguments_digest :: string
  sa_status :: attempt_status
  sa_receipt_id :: "string option"
  sa_error :: "string option"

record started_fields =
  sf_attempt_id :: string
  sf_family_id :: string
  sf_sequence_index :: int
  sf_logical_step_id :: string
  sf_requested_test_type :: string
  sf_arguments_digest :: string

datatype registry_event =
    Attempt_Started started_fields
  | Attempt_Completed string string
  | Attempt_Failed string "string option"
  | Unsupported_Event string
  | Field_Missing string

datatype registry_error =
    Step_Already_Allocated string
  | Completed_With_Other_Receipt string
  | Already_Failed string
  | Already_Completed string
  | Unknown_Attempt string
  | Duplicate_Attempt string
  | Duplicate_Step string
  | Sequence_Forged string int int
  | Unsupported_Registry_Event string
  | Registry_Key_Error string
  | Blank_Registry_Record nat
  | Invalid_Registry_Record nat

record registry =
  rg_attempts :: "(string, stat_attempt) dict"
  rg_by_step :: "(string, string) dict"
  rg_family_order :: "(string, string list) dict"

definition empty_registry :: registry where
  "empty_registry = \<lparr>rg_attempts = [], rg_by_step = [], rg_family_order = []\<rparr>"

definition family_order :: "registry \<Rightarrow> string \<Rightarrow> string list" where
  "family_order g family = dict_get (rg_family_order g) family []"

definition require_attempt :: "registry \<Rightarrow> string \<Rightarrow> registry_error + stat_attempt" where
  "require_attempt g a = (case map_of (rg_attempts g) a of
     None \<Rightarrow> Inl (Unknown_Attempt a) | Some x \<Rightarrow> Inr x)"

definition started_attempt :: "started_fields \<Rightarrow> stat_attempt" where
  "started_attempt e = \<lparr>sa_attempt_id = sf_attempt_id e, sa_family_id = sf_family_id e,
     sa_sequence_index = sf_sequence_index e, sa_logical_step_id = sf_logical_step_id e,
     sa_requested_test_type = sf_requested_test_type e, sa_arguments_digest = sf_arguments_digest e,
     sa_status = Attempt_Running, sa_receipt_id = None, sa_error = None\<rparr>"

definition apply_started :: "registry \<Rightarrow> started_fields \<Rightarrow> registry_error + registry" where
  "apply_started g e = (let expected = int (length (family_order g (sf_family_id e))) + 1 in
     guarding
       [(map_of (rg_attempts g) (sf_attempt_id e) \<noteq> None, Duplicate_Attempt (sf_attempt_id e)),
        (map_of (rg_by_step g) (sf_logical_step_id e) \<noteq> None, Duplicate_Step (sf_logical_step_id e)),
        (sf_sequence_index e \<noteq> expected,
         Sequence_Forged (sf_family_id e) expected (sf_sequence_index e))]
       \<lparr>rg_attempts = dict_set (sf_attempt_id e) (started_attempt e) (rg_attempts g),
        rg_by_step = dict_set (sf_logical_step_id e) (sf_attempt_id e) (rg_by_step g),
        rg_family_order = dict_set (sf_family_id e)
          (family_order g (sf_family_id e) @ [sf_attempt_id e]) (rg_family_order g)\<rparr>)"

definition set_outcome :: "registry \<Rightarrow> stat_attempt \<Rightarrow> registry" where
  "set_outcome g x = g\<lparr>rg_attempts := dict_set (sa_attempt_id x) x (rg_attempts g)\<rparr>"

fun apply_event :: "registry \<Rightarrow> registry_event \<Rightarrow> registry_error + registry" where
  "apply_event g (Attempt_Started e) = apply_started g e"
| "apply_event g (Attempt_Completed a receipt) = bind_res (require_attempt g a) (\<lambda>x.
     Inr (set_outcome g (x\<lparr>sa_status := Attempt_Done, sa_receipt_id := Some receipt\<rparr>)))"
| "apply_event g (Attempt_Failed a err) = bind_res (require_attempt g a) (\<lambda>x.
     Inr (set_outcome g (x\<lparr>sa_status := Attempt_Broken, sa_error := err\<rparr>)))"
| "apply_event g (Unsupported_Event k) = Inl (Unsupported_Registry_Event k)"
| "apply_event g (Field_Missing k) = Inl (Registry_Key_Error k)"

definition replay :: "registry_event list \<Rightarrow> registry_error + registry" where
  "replay evs = fold_res apply_event empty_registry evs"

section \<open>Operations on a loaded registry\<close>

text \<open>
  The \<open>_locked\<close> halves: the attempt the call returns, and the event it applies and appends,
  when there is one.
\<close>

type_synonym registry_call = "registry_error + (stat_attempt \<times> registry \<times> registry_event option)"

definition record_event :: "registry \<Rightarrow> string \<Rightarrow> registry_event \<Rightarrow> registry_call" where
  "record_event g a e = bind_res (apply_event g e) (\<lambda>h.
     bind_res (require_attempt h a) (\<lambda>x. Inr (x, h, Some e)))"

definition attempt_id_of :: "(string \<times> int \<times> string \<Rightarrow> string) \<Rightarrow> string \<Rightarrow> int \<Rightarrow> string \<Rightarrow> string" where
  "attempt_id_of digest family index stp = ''att_'' @ take 24 (digest (family, index, stp))"

definition begin_attempt ::
  "(string \<times> int \<times> string \<Rightarrow> string) \<Rightarrow> registry \<Rightarrow> string \<Rightarrow> string \<Rightarrow> string \<Rightarrow> string \<Rightarrow>
    registry_call" where
  "begin_attempt digest g family test_type arguments stp = (case map_of (rg_by_step g) stp of
       Some a \<Rightarrow> (let x = the (map_of (rg_attempts g) a) in
         if sa_family_id x \<noteq> family \<or> sa_arguments_digest x \<noteq> arguments \<or>
            sa_requested_test_type x \<noteq> test_type
         then Inl (Step_Already_Allocated stp) else Inr (x, g, None))
     | None \<Rightarrow>
         (let index = int (length (family_order g family)) + 1;
              a = attempt_id_of digest family index stp
          in record_event g a (Attempt_Started \<lparr>sf_attempt_id = a, sf_family_id = family,
               sf_sequence_index = index, sf_logical_step_id = stp,
               sf_requested_test_type = test_type, sf_arguments_digest = arguments\<rparr>)))"

definition record_completion :: "registry \<Rightarrow> string \<Rightarrow> string \<Rightarrow> registry_call" where
  "record_completion g a receipt = bind_res (require_attempt g a) (\<lambda>x.
     if sa_status x = Attempt_Done then
       (if sa_receipt_id x \<noteq> Some receipt then Inl (Completed_With_Other_Receipt a)
        else Inr (x, g, None))
     else if sa_status x = Attempt_Broken then Inl (Already_Failed a)
     else record_event g a (Attempt_Completed a receipt))"

definition record_failure :: "registry \<Rightarrow> string \<Rightarrow> string \<Rightarrow> registry_call" where
  "record_failure g a err = bind_res (require_attempt g a) (\<lambda>x.
     if sa_status x = Attempt_Broken then Inr (x, g, None)
     else if sa_status x = Attempt_Done then Inl (Already_Completed a)
     else record_event g a (Attempt_Failed a (Some err)))"

definition comparison_count :: "registry \<Rightarrow> string \<Rightarrow> nat" where
  "comparison_count g family = length (family_order g family)"

definition attempts_of :: "registry \<Rightarrow> string option \<Rightarrow> stat_attempt list" where
  "attempts_of g family = (case family of
       None \<Rightarrow> dict_values (rg_attempts g)
     | Some f \<Rightarrow> map (\<lambda>a. the (map_of (rg_attempts g) a)) (family_order g f))"

section \<open>The file\<close>

text \<open>\<open>_read_events\<close>: \<open>terminated\<close> says that the file ends with a line feed.\<close>

fun read_records ::
  "(bytes \<Rightarrow> registry_event option) \<Rightarrow> bool \<Rightarrow> nat \<Rightarrow> bytes list \<Rightarrow> registry_error + registry_event list" where
  "read_records loads terminated n [] = Inr []"
| "read_records loads terminated n (l # ls) =
     (if terminated \<and> ls = [] then Inr []
      else if l = [] then (if ls = [] then Inr [] else Inl (Blank_Registry_Record n))
      else (case loads l of
        None \<Rightarrow> if ls = [] then Inr [] else Inl (Invalid_Registry_Record n)
      | Some e \<Rightarrow> bind_res (read_records loads terminated (Suc n) ls) (\<lambda>es. Inr (e # es))))"

type_synonym registry_file = "bytes option"

definition read_registry ::
  "(bytes \<Rightarrow> registry_event option) \<Rightarrow> registry_file \<Rightarrow> registry_error + registry_event list" where
  "read_registry loads f = (case f of
     None \<Rightarrow> Inr []
   | Some raw \<Rightarrow> if raw = [] then Inr []
       else read_records loads (last raw = newline) 1 (split_lines raw))"

definition reload :: "(bytes \<Rightarrow> registry_event option) \<Rightarrow> registry_file \<Rightarrow> registry_error + registry" where
  "reload loads f = bind_res (read_registry loads f) replay"

definition registry_append :: "(registry_event \<Rightarrow> bytes) \<Rightarrow> registry_event \<Rightarrow> registry_file \<Rightarrow> registry_file" where
  "registry_append dumps e f =
     Some (truncate_tail (case f of None \<Rightarrow> [] | Some raw \<Rightarrow> raw) @ dumps e @ [newline])"

text \<open>A crash inside the write leaves the first \<open>n\<close> bytes of the line.\<close>

definition crashed_registry_append ::
  "(registry_event \<Rightarrow> bytes) \<Rightarrow> nat \<Rightarrow> registry_event \<Rightarrow> registry_file \<Rightarrow> registry_file" where
  "crashed_registry_append dumps n e f =
     Some (truncate_tail (case f of None \<Rightarrow> [] | Some raw \<Rightarrow> raw) @ take n (dumps e @ [newline]))"

text \<open>The calls of a client, and one of them on the file: load, decide, append.\<close>

datatype registry_request =
    Begin string string string string
  | Complete string string
  | Fail string string

fun decide_request ::
  "(string \<times> int \<times> string \<Rightarrow> string) \<Rightarrow> registry \<Rightarrow> registry_request \<Rightarrow> registry_call" where
  "decide_request digest g (Begin family test_type arguments stp) =
     begin_attempt digest g family test_type arguments stp"
| "decide_request digest g (Complete a receipt) = record_completion g a receipt"
| "decide_request digest g (Fail a err) = record_failure g a err"

definition registry_request_on ::
  "(string \<times> int \<times> string \<Rightarrow> string) \<Rightarrow> (registry_event \<Rightarrow> bytes) \<Rightarrow>
    (bytes \<Rightarrow> registry_event option) \<Rightarrow> registry_file \<Rightarrow> registry_request \<Rightarrow>
    (registry_error + stat_attempt) \<times> registry_file" where
  "registry_request_on digest dumps loads f q =
     (case bind_res (reload loads f) (\<lambda>g. decide_request digest g q) of
        Inl e \<Rightarrow> (Inl e, f)
      | Inr (x, h, None) \<Rightarrow> (Inr x, f)
      | Inr (x, h, Some e) \<Rightarrow> (Inr x, registry_append dumps e f))"

section \<open>Family ids\<close>

text \<open>The columns are a set: their order and repetitions do not matter.\<close>

definition derive_family_id :: "(string \<times> string list \<Rightarrow> string) \<Rightarrow> string \<Rightarrow> string list \<Rightarrow> string" where
  "derive_family_id digest dataset columns =
     ''fam_'' @ take 24 (digest (dataset, sort (remdups columns)))"

end
