(* ===== verification/StatRegistryProperties.thy ===== *)
theory StatRegistryProperties
  imports StatRegistry "HOL-Library.Sublist"
begin

text \<open>
  The promises of the registry: every family is numbered without gaps whatever happened to its
  attempts, dropping an attempt from the log is detected when later ones follow, retries do not
  count twice, outcomes are final, and the file implements the registry in memory, a crash
  inside a record included.
\<close>

section \<open>The log and the state\<close>

definition starts :: "string \<Rightarrow> registry_event list \<Rightarrow> started_fields list" where
  "starts family evs = concat (map (\<lambda>e. case e of
     Attempt_Started s \<Rightarrow> if sf_family_id s = family then [s] else [] | _ \<Rightarrow> []) evs)"

lemma starts_simps [simp]:
  "starts f [] = []"
  "starts f (xs @ ys) = starts f xs @ starts f ys"
  "starts f (Attempt_Completed a r # evs) = starts f evs"
  "starts f (Attempt_Failed a x # evs) = starts f evs"
  "starts f (Unsupported_Event k # evs) = starts f evs"
  "starts f (Field_Missing k # evs) = starts f evs"
  "starts f (Attempt_Started s # evs) = (if sf_family_id s = f then [s] else []) @ starts f evs"
  by (simp_all add: starts_def)

lemma replay_append: "replay (xs @ ys) = bind_res (replay xs) (\<lambda>g. fold_res apply_event g ys)"
  by (simp add: replay_def fold_res_append)

lemma replay_snoc: "replay (xs @ [e]) = bind_res (replay xs) (\<lambda>g. apply_event g e)"
proof -
  have "fold_res apply_event g [e] = apply_event g e" for g by (cases "apply_event g e") simp_all
  then show ?thesis by (simp add: replay_append)
qed

lemma apply_startedD:
  assumes "apply_started g e = Inr h"
  shows "map_of (rg_attempts g) (sf_attempt_id e) = None"
    "map_of (rg_by_step g) (sf_logical_step_id e) = None"
    "sf_sequence_index e = int (length (family_order g (sf_family_id e))) + 1"
    "map_of (rg_attempts h) = (map_of (rg_attempts g))(sf_attempt_id e \<mapsto> started_attempt e)"
    "map_of (rg_by_step h) = (map_of (rg_by_step g))(sf_logical_step_id e \<mapsto> sf_attempt_id e)"
    "family_order h f = (if f = sf_family_id e then family_order g f @ [sf_attempt_id e] else family_order g f)"
  using assms unfolding apply_started_def Let_def
  by (auto simp: res_simps family_order_def dict_get_set)

lemma set_outcome_simps [simp]:
  "map_of (rg_attempts (set_outcome g x)) = (map_of (rg_attempts g))(sa_attempt_id x \<mapsto> x)"
  "rg_by_step (set_outcome g x) = rg_by_step g"
  "family_order (set_outcome g x) f = family_order g f"
  by (simp_all add: set_outcome_def family_order_def)

lemma require_attempt_iff [res_simps]:
  "require_attempt g a = Inr x \<longleftrightarrow> map_of (rg_attempts g) a = Some x"
  "require_attempt g a = Inl e \<longleftrightarrow> map_of (rg_attempts g) a = None \<and> e = Unknown_Attempt a"
  by (auto simp: require_attempt_def split: option.splits)

text \<open>The order of a family is the order in which its attempts were started.\<close>

lemma replay_family_order:
  "replay evs = Inr g \<Longrightarrow> family_order g f = map sf_attempt_id (starts f evs)"
proof (induction evs arbitrary: g rule: rev_induct)
  case Nil
  then show ?case by (auto simp: replay_def empty_registry_def family_order_def dict_get_def)
next
  case (snoc e evs)
  then obtain g' where g': "replay evs = Inr g'" "apply_event g' e = Inr g"
    by (auto simp: replay_snoc res_simps)
  show ?case
  proof (cases e)
    case (Attempt_Started st)
    with g' have "apply_started g' st = Inr g" by simp
    from apply_startedD(6)[OF this, of f] snoc.IH[OF g'(1)] Attempt_Started show ?thesis
      by (cases "f = sf_family_id st") auto
  qed (use g' snoc.IH[OF g'(1)] in \<open>auto simp: res_simps\<close>)
qed

lemma replay_start:
  assumes "replay (xs @ Attempt_Started e # ys) = Inr g"
  shows "sf_sequence_index e = int (length (starts (sf_family_id e) xs)) + 1"
proof -
  from assms obtain g' h where "replay xs = Inr g'" "apply_started g' e = Inr h"
    by (auto simp: replay_append res_simps)
  with replay_family_order[of xs g'] apply_startedD(3) show ?thesis by simp
qed

text \<open>A well-formed registry: its three dictionaries agree.\<close>

definition registry_ok :: "registry \<Rightarrow> bool" where
  "registry_ok g \<longleftrightarrow>
     (\<forall>a x. map_of (rg_attempts g) a = Some x \<longrightarrow> sa_attempt_id x = a \<and>
        map_of (rg_by_step g) (sa_logical_step_id x) = Some a \<and>
        a \<in> set (family_order g (sa_family_id x))) \<and>
     (\<forall>s a. map_of (rg_by_step g) s = Some a \<longrightarrow>
        (\<exists>x. map_of (rg_attempts g) a = Some x \<and> sa_logical_step_id x = s)) \<and>
     (\<forall>f. distinct (family_order g f) \<and> (\<forall>i < length (family_order g f).
        \<exists>x. map_of (rg_attempts g) (family_order g f ! i) = Some x \<and> sa_family_id x = f \<and>
          sa_sequence_index x = int i + 1))"

lemma registry_okD:
  assumes "registry_ok g"
  shows "map_of (rg_attempts g) a = Some x \<Longrightarrow> sa_attempt_id x = a \<and>
      map_of (rg_by_step g) (sa_logical_step_id x) = Some a \<and> a \<in> set (family_order g (sa_family_id x))"
    and "map_of (rg_by_step g) s = Some a \<Longrightarrow>
      \<exists>x. map_of (rg_attempts g) a = Some x \<and> sa_logical_step_id x = s"
    and "distinct (family_order g f)"
    and "i < length (family_order g f) \<Longrightarrow> \<exists>x. map_of (rg_attempts g) (family_order g f ! i) = Some x \<and>
      sa_family_id x = f \<and> sa_sequence_index x = int i + 1"
  using assms unfolding registry_ok_def by blast+

lemma empty_registry_ok: "registry_ok empty_registry"
  by (simp add: registry_ok_def empty_registry_def family_order_def dict_get_def)

lemma apply_started_ok:
  assumes "registry_ok g" "apply_started g e = Inr h"
  shows "registry_ok h"
proof -
  note ok = registry_okD[OF assms(1)] and new = apply_startedD[OF assms(2)]
  let ?a = "sf_attempt_id e" and ?f = "sf_family_id e" and ?s = "sf_logical_step_id e"
  have fresh: "?a \<notin> set (family_order g f)" for f
    using ok(4)[of _ f] new(1) by (force simp: in_set_conv_nth)
  have attempts: "sa_attempt_id x = a \<and> map_of (rg_by_step h) (sa_logical_step_id x) = Some a \<and>
      a \<in> set (family_order h (sa_family_id x))" if "map_of (rg_attempts h) a = Some x" for a x
  proof (cases "a = ?a")
    case True
    with that new(4) have "x = started_attempt e" by simp
    with True new(5,6) show ?thesis by (simp add: started_attempt_def)
  next
    case False
    with that new(4) have x: "map_of (rg_attempts g) a = Some x" by simp
    from ok(1)[OF x] new(2) have "sa_logical_step_id x \<noteq> ?s" by auto
    with ok(1)[OF x] new(5) new(6)[of "sa_family_id x"] show ?thesis by auto
  qed
  have steps: "\<exists>x. map_of (rg_attempts h) a = Some x \<and> sa_logical_step_id x = s"
    if "map_of (rg_by_step h) s = Some a" for s a
  proof (cases "s = ?s")
    case True
    with that new(4,5) show ?thesis by (simp add: started_attempt_def)
  next
    case False
    with that new(5) have "map_of (rg_by_step g) s = Some a" by simp
    from ok(2)[OF this] new(1,4) show ?thesis by auto
  qed
  have order: "\<exists>x. map_of (rg_attempts h) (family_order h f ! i) = Some x \<and> sa_family_id x = f \<and>
      sa_sequence_index x = int i + 1" if "i < length (family_order h f)" for f i
  proof (cases "f = ?f \<and> i = length (family_order g f)")
    case True
    with new(3,4,6) show ?thesis by (simp add: started_attempt_def)
  next
    case False
    then have i: "i < length (family_order g f)" "family_order h f ! i = family_order g f ! i"
      using that new(6)[of f] by (auto simp: nth_append split: if_splits)
    with fresh[of f] have "family_order g f ! i \<noteq> ?a" by (metis nth_mem)
    with ok(4)[OF i(1)] i(2) new(4) show ?thesis by simp
  qed
  have "distinct (family_order h f)" for f 
    using ok(3)[of f] fresh[of f] new(6)[of f] by (cases "f = ?f") simp_all
  with attempts steps order show ?thesis unfolding registry_ok_def by blast
qed

lemma set_outcome_ok:
  assumes "registry_ok g" "map_of (rg_attempts g) (sa_attempt_id x) = Some y"
    "sa_family_id x = sa_family_id y" "sa_sequence_index x = sa_sequence_index y"
    "sa_logical_step_id x = sa_logical_step_id y"
  shows "registry_ok (set_outcome g x)"
proof -
  note ok = registry_okD[OF assms(1)]
  have "sa_attempt_id z = a \<and> map_of (rg_by_step g) (sa_logical_step_id z) = Some a \<and>
      a \<in> set (family_order g (sa_family_id z))"
    if "map_of (rg_attempts (set_outcome g x)) a = Some z" for a z
    using that ok(1)[of a z] ok(1)[OF assms(2)] assms(3,5) by (auto split: if_splits)
  moreover have "\<exists>z. map_of (rg_attempts (set_outcome g x)) a = Some z \<and> sa_logical_step_id z = s"
    if "map_of (rg_by_step g) s = Some a" for s a
    using ok(2)[OF that] assms(2,5) by auto
  moreover have "\<exists>z. map_of (rg_attempts (set_outcome g x)) (family_order g f ! i) = Some z \<and>
      sa_family_id z = f \<and> sa_sequence_index z = int i + 1" if "i < length (family_order g f)" for f i
    using ok(4)[OF that] assms(2-4) by auto
  ultimately show ?thesis using ok(3) unfolding registry_ok_def set_outcome_simps(2,3) by blast
qed

lemma apply_event_ok:
  assumes "registry_ok g" "apply_event g e = Inr h"
  shows "registry_ok h"
proof (cases e)
  case (Attempt_Started s)
  with assms apply_started_ok show ?thesis by simp
next
  case (Attempt_Completed a r)
  with assms(2) obtain x where x: "map_of (rg_attempts g) a = Some x"
    "h = set_outcome g (x\<lparr>sa_status := Attempt_Done, sa_receipt_id := Some r\<rparr>)"
    by (auto simp: res_simps)
  with registry_okD(1)[OF assms(1) x(1)] show ?thesis by (auto intro!: set_outcome_ok[OF assms(1)])
next
  case (Attempt_Failed a r)
  with assms(2) obtain x where x: "map_of (rg_attempts g) a = Some x"
    "h = set_outcome g (x\<lparr>sa_status := Attempt_Broken, sa_error := r\<rparr>)"
    by (auto simp: res_simps)
  with registry_okD(1)[OF assms(1) x(1)] show ?thesis by (auto intro!: set_outcome_ok[OF assms(1)])
qed (use assms(2) in simp_all)

lemma replay_ok: "replay evs = Inr g \<Longrightarrow> registry_ok g"
  unfolding replay_def
  by (rule fold_res_invariant[where I = registry_ok, OF _ empty_registry_ok]) (auto intro: apply_event_ok)

section \<open>Outcomes over time\<close>

text \<open>One registry is a later state of another: every attempt is kept, a finished one unchanged, and
  every family is extended at its end.\<close>

definition kept :: "stat_attempt \<Rightarrow> stat_attempt \<Rightarrow> bool" where
  "kept y x \<longleftrightarrow> sa_family_id y = sa_family_id x \<and> sa_sequence_index y = sa_sequence_index x \<and>
     sa_logical_step_id y = sa_logical_step_id x \<and>
     sa_requested_test_type y = sa_requested_test_type x \<and>
     sa_arguments_digest y = sa_arguments_digest x \<and> (sa_status x \<noteq> Attempt_Running \<longrightarrow> y = x)"

definition later :: "registry \<Rightarrow> registry \<Rightarrow> bool" where
  "later h g \<longleftrightarrow> (\<forall>a x. map_of (rg_attempts g) a = Some x \<longrightarrow>
     (\<exists>y. map_of (rg_attempts h) a = Some y \<and> kept y x)) \<and>
     (\<forall>f. prefix (family_order g f) (family_order h f))"

lemma later_refl [simp]: "later g g"
  by (simp add: later_def kept_def)

lemma kept_trans: "kept y x \<Longrightarrow> kept z y \<Longrightarrow> kept z x"
  by (auto simp: kept_def)

lemma later_trans:
  assumes "later h g" "later k h"
  shows "later k g"
  unfolding later_def
proof (intro conjI allI impI)
  fix a x assume "map_of (rg_attempts g) a = Some x"
  with assms(1) obtain y where "map_of (rg_attempts h) a = Some y" "kept y x"
    unfolding later_def by blast
  moreover from this assms(2) obtain z where "map_of (rg_attempts k) a = Some z" "kept z y"
    unfolding later_def by blast
  ultimately show "\<exists>z. map_of (rg_attempts k) a = Some z \<and> kept z x" by (blast intro: kept_trans)
next
  fix f show "prefix (family_order g f) (family_order k f)"
    using assms unfolding later_def by (blast intro: prefix_order.trans)
qed

lemma record_eventD:
  assumes "record_event g a e = Inr (x, h, ev)"
  shows "apply_event g e = Inr h" "map_of (rg_attempts h) a = Some x" "ev = Some e"
  using assms by (auto simp: record_event_def res_simps)

lemma begin_known:
  assumes "registry_ok g" "map_of (rg_by_step g) stp = Some a"
    "begin_attempt digest g f ty args stp = Inr (x, h, ev)"
  shows "h = g" "ev = None" "map_of (rg_attempts g) a = Some x" "sa_family_id x = f"
    "sa_arguments_digest x = args" "sa_requested_test_type x = ty"
proof -
  obtain y where y: "map_of (rg_attempts g) a = Some y" using registry_okD(2)[OF assms(1,2)] by blast
  with assms(2,3) show "h = g" "ev = None" "map_of (rg_attempts g) a = Some x" "sa_family_id x = f"
    "sa_arguments_digest x = args" "sa_requested_test_type x = ty"
    by (auto simp: begin_attempt_def Let_def split: if_splits)
qed

definition new_start ::
  "(string \<times> int \<times> string \<Rightarrow> string) \<Rightarrow> registry \<Rightarrow> string \<Rightarrow> string \<Rightarrow> string \<Rightarrow> string \<Rightarrow> started_fields" where
  "new_start digest g f ty args stp = (let index = int (length (family_order g f)) + 1 in
     \<lparr>sf_attempt_id = attempt_id_of digest f index stp, sf_family_id = f, sf_sequence_index = index,
      sf_logical_step_id = stp, sf_requested_test_type = ty, sf_arguments_digest = args\<rparr>)"

lemma new_start_simps [simp]:
  "sf_family_id (new_start digest g f ty args stp) = f"
  "sf_logical_step_id (new_start digest g f ty args stp) = stp"
  "sf_sequence_index (new_start digest g f ty args stp) = int (length (family_order g f)) + 1"
  "sf_requested_test_type (new_start digest g f ty args stp) = ty"
  "sf_arguments_digest (new_start digest g f ty args stp) = args"
  by (simp_all add: new_start_def Let_def)

lemma begin_new:
  assumes "map_of (rg_by_step g) stp = None" "begin_attempt digest g f ty args stp = Inr (x, h, ev)"
  shows "apply_started g (new_start digest g f ty args stp) = Inr h"
    "ev = Some (Attempt_Started (new_start digest g f ty args stp))"
    "x = started_attempt (new_start digest g f ty args stp)"
proof -
  let ?e = "new_start digest g f ty args stp"
  have run: "record_event g (sf_attempt_id ?e) (Attempt_Started ?e) = Inr (x, h, ev)"
    using assms by (simp add: begin_attempt_def new_start_def Let_def)
  note d = record_eventD[OF run]
  from d(1) show ap: "apply_started g ?e = Inr h" by simp
  show "ev = Some (Attempt_Started ?e)" by (rule d(3))
  from d(2) apply_startedD(4)[OF ap] show "x = started_attempt ?e" by simp
qed

lemma later_started:
  assumes "apply_started g e = Inr h"
  shows "later h g"
proof -
  note new = apply_startedD[OF assms]
  have "\<exists>y. map_of (rg_attempts h) a = Some y \<and> kept y x" if "map_of (rg_attempts g) a = Some x" for a x
    using that new(1,4) by (auto simp: kept_def)
  moreover have "prefix (family_order g f) (family_order h f)" for f
    using new(6)[of f] by (cases "f = sf_family_id e") simp_all
  ultimately show ?thesis unfolding later_def by blast
qed

lemma later_outcome:
  assumes "map_of (rg_attempts g) (sa_attempt_id x) = Some y" "sa_status y = Attempt_Running"
    "sa_family_id x = sa_family_id y" "sa_sequence_index x = sa_sequence_index y"
    "sa_logical_step_id x = sa_logical_step_id y" "sa_requested_test_type x = sa_requested_test_type y"
    "sa_arguments_digest x = sa_arguments_digest y"
  shows "later (set_outcome g x) g"
  unfolding later_def kept_def using assms by auto

text \<open>What a call of a client does to a well-formed registry.\<close>

lemma decide_request_later:
  assumes "registry_ok g" "decide_request digest g q = Inr (x, h, ev)"
  shows "later h g" "registry_ok h"
    "case ev of None \<Rightarrow> h = g | Some e \<Rightarrow> apply_event g e = Inr h"
proof -
  have all: "later h g \<and> (case ev of None \<Rightarrow> h = g | Some e \<Rightarrow> apply_event g e = Inr h)"
  proof (cases q)
    case (Begin f ty args stp)
    with assms(2) have run: "begin_attempt digest g f ty args stp = Inr (x, h, ev)" by simp
    show ?thesis
    proof (cases "map_of (rg_by_step g) stp")
      case None
      from begin_new[OF None run] show ?thesis by (auto intro: later_started)
    next
      case (Some a)
      from begin_known[OF assms(1) Some run] show ?thesis by simp
    qed
  next
    case (Complete a r)
    with assms(2) obtain y where y: "map_of (rg_attempts g) a = Some y"
      "h = g \<and> ev = None \<or> sa_status y = Attempt_Running \<and> record_event g a (Attempt_Completed a r) = Inr (x, h, ev)"
      by (cases "sa_status (the (map_of (rg_attempts g) a))")
        (auto simp: record_completion_def res_simps split: if_splits)
    from y(2) show ?thesis
    proof
      assume run: "sa_status y = Attempt_Running \<and> record_event g a (Attempt_Completed a r) = Inr (x, h, ev)"
      then have ap: "apply_event g (Attempt_Completed a r) = Inr h" "ev = Some (Attempt_Completed a r)"
        using record_eventD by blast+
      then have "h = set_outcome g (y\<lparr>sa_status := Attempt_Done, sa_receipt_id := Some r\<rparr>)"
        using y(1) by (auto simp: res_simps)
      moreover have "later (set_outcome g (y\<lparr>sa_status := Attempt_Done, sa_receipt_id := Some r\<rparr>)) g"
        by (rule later_outcome[of _ _ y]) (use run y(1) registry_okD(1)[OF assms(1) y(1)] in auto)
      ultimately show ?thesis using ap by simp
    qed simp
  next
    case (Fail a err)
    with assms(2) obtain y where y: "map_of (rg_attempts g) a = Some y"
      "h = g \<and> ev = None \<or> sa_status y = Attempt_Running \<and> record_event g a (Attempt_Failed a (Some err)) = Inr (x, h, ev)"
      by (cases "sa_status (the (map_of (rg_attempts g) a))")
        (auto simp: record_failure_def res_simps split: if_splits)
    from y(2) show ?thesis
    proof
      assume run: "sa_status y = Attempt_Running \<and> record_event g a (Attempt_Failed a (Some err)) = Inr (x, h, ev)"
      then have ap: "apply_event g (Attempt_Failed a (Some err)) = Inr h" "ev = Some (Attempt_Failed a (Some err))"
        using record_eventD by blast+
      then have "h = set_outcome g (y\<lparr>sa_status := Attempt_Broken, sa_error := Some err\<rparr>)"
        using y(1) by (auto simp: res_simps)
      moreover have "later (set_outcome g (y\<lparr>sa_status := Attempt_Broken, sa_error := Some err\<rparr>)) g"
        by (rule later_outcome[of _ _ y]) (use run y(1) registry_okD(1)[OF assms(1) y(1)] in auto)
      ultimately show ?thesis using ap by simp
    qed simp
  qed
  then show "later h g" "case ev of None \<Rightarrow> h = g | Some e \<Rightarrow> apply_event g e = Inr h" by simp_all
  from all show "registry_ok h" using assms(1) by (auto intro: apply_event_ok split: option.splits)
qed

section \<open>The file\<close>

text \<open>What the registry relies on from JSON: an event is one line that decodes to it, and no proper
  prefix of the line is a record.\<close>

definition registry_codec :: "(registry_event \<Rightarrow> bytes) \<Rightarrow> (bytes \<Rightarrow> registry_event option) \<Rightarrow> bool" where
  "registry_codec dumps loads \<longleftrightarrow> line_codec (\<lambda>e. True) dumps loads \<and>
     (\<forall>e. \<forall>n < length (dumps e). loads (take n (dumps e)) = None)"

lemma registry_codecD:
  assumes "registry_codec dumps loads"
  shows "dumps e \<noteq> []" "newline \<notin> set (dumps e)" "loads (dumps e) = Some e"
    "n < length (dumps e) \<Longrightarrow> loads (take n (dumps e)) = None"
  using assms by (auto simp: registry_codec_def line_codec_def)

definition raw_of :: "registry_file \<Rightarrow> bytes" where
  "raw_of f = (case f of None \<Rightarrow> [] | Some raw \<Rightarrow> raw)"

definition torn_of :: "registry_file \<Rightarrow> bytes" where
  "torn_of f = last (split_lines (raw_of f))"

text \<open>A file holds events: its lines decode to them and what follows the last line feed is no record.\<close>

definition file_holds ::
  "(bytes \<Rightarrow> registry_event option) \<Rightarrow> registry_file \<Rightarrow> registry_event list \<Rightarrow> bool" where
  "file_holds loads f evs \<longleftrightarrow>
     list_all2 (\<lambda>l e. l \<noteq> [] \<and> loads l = Some e) (committed_lines (raw_of f)) evs \<and>
     (torn_of f = [] \<or> loads (torn_of f) = None)"

lemma read_records_holds:
  assumes "list_all2 (\<lambda>l e. l \<noteq> [] \<and> loads l = Some e) ls evs" "t = [] \<or> loads t = None"
  shows "read_records loads (t = []) n (ls @ [t]) = Inr evs"
  using assms
proof (induction ls evs arbitrary: n rule: list_all2_induct)
  case Nil
  then show ?case by auto
next
  case (Cons l ls e evs)
  then show ?case by auto
qed

lemma read_records_torn:
  assumes "list_all2 (\<lambda>l e. l \<noteq> [] \<and> loads l = Some e) ls evs" "t \<noteq> []" "loads t = Some e"
  shows "read_records loads False n (ls @ [t]) = Inr (evs @ [e])"
  using assms by (induction ls evs arbitrary: n rule: list_all2_induct) auto

lemma last_newline_iff: "raw \<noteq> [] \<Longrightarrow> last raw = newline \<longleftrightarrow> last (split_lines raw) = []"
proof (cases raw rule: rev_cases)
  case (snoc p c)
  then show ?thesis
    using split_lines_newline[of p] split_lines_append[of "[c]" p] by (cases "c = newline") auto
qed simp

lemma file_holds_read:
  assumes "file_holds loads f evs"
  shows "read_registry loads f = Inr evs"
proof (cases "raw_of f = []")
  case True
  then have "committed_lines (raw_of f) = []" by (simp add: committed_lines_def)
  then have "evs = []" using assms by (simp add: file_holds_def)
  with True show ?thesis by (auto simp: read_registry_def raw_of_def split: option.splits)
next
  case False
  then obtain raw where f: "f = Some raw" "raw \<noteq> []" by (auto simp: raw_of_def split: option.splits)
  have "split_lines raw = committed_lines raw @ [last (split_lines raw)]"
    by (simp add: committed_lines_def)
  moreover have "read_records loads (last (split_lines raw) = []) 1
      (committed_lines raw @ [last (split_lines raw)]) = Inr evs"
    by (rule read_records_holds) (use assms f in \<open>simp_all add: file_holds_def raw_of_def torn_of_def\<close>)
  ultimately show ?thesis using f last_newline_iff[OF f(2)] by (simp add: read_registry_def)
qed

lemma append_registry_lines:
  assumes "registry_codec dumps loads"
    "list_all2 (\<lambda>l e. l \<noteq> [] \<and> loads l = Some e) (committed_lines (raw_of f)) evs"
  shows "file_holds loads (registry_append dumps e f) (evs @ [e])"
proof -
  have raw: "raw_of (registry_append dumps e f) = truncate_tail (raw_of f) @ dumps e @ [newline]"
    by (simp add: registry_append_def raw_of_def)
  have "last (split_lines ((truncate_tail (raw_of f) @ dumps e) @ [newline])) = []"
    unfolding split_lines_newline by simp
  then have "torn_of (registry_append dumps e f) = []" by (simp add: torn_of_def raw)
  moreover have "committed_lines (raw_of (registry_append dumps e f)) = committed_lines (raw_of f) @ [dumps e]"
    unfolding raw by (rule committed_lines_append(1)[OF registry_codecD(2)[OF assms(1)]])
  ultimately show ?thesis
    using assms(2) registry_codecD(1,3)[OF assms(1)] by (simp add: file_holds_def list_all2_appendI)
qed

lemma append_holds:
  assumes "registry_codec dumps loads" "file_holds loads f evs"
  shows "file_holds loads (registry_append dumps e f) (evs @ [e])"
  using assms by (intro append_registry_lines) (simp_all add: file_holds_def)

text \<open>Cut before its last byte, a record leaves no trace.\<close>

lemma crash_holds:
  assumes "registry_codec dumps loads" "file_holds loads f evs" "n < length (dumps e)"
  shows "file_holds loads (crashed_registry_append dumps n e f) evs"
proof -
  let ?t = "take n (dumps e)"
  have raw: "raw_of (crashed_registry_append dumps n e f) = truncate_tail (raw_of f) @ ?t"
    using assms(3) by (simp add: crashed_registry_append_def raw_of_def)
  have nl: "newline \<notin> set ?t" using registry_codecD(2)[OF assms(1)] by (meson in_set_takeD)
  have "torn_of (crashed_registry_append dumps n e f) = ?t"
    unfolding torn_of_def raw split_lines_append[OF nl] using committed_lines_truncate[of "raw_of f"] by simp
  moreover have "committed_lines (raw_of (crashed_registry_append dumps n e f)) = committed_lines (raw_of f)"
    unfolding raw by (rule committed_lines_append(2)[OF nl])
  ultimately show ?thesis
    using assms(2) registry_codecD(4)[OF assms(1,3)] by (simp add: file_holds_def)
qed

text \<open>The file and the registry it replays to.\<close>

definition stores :: "(bytes \<Rightarrow> registry_event option) \<Rightarrow> registry_file \<Rightarrow> registry_event list \<Rightarrow> registry \<Rightarrow> bool" where
  "stores loads f evs g \<longleftrightarrow> file_holds loads f evs \<and> replay evs = Inr g"

lemma stores_reload: "stores loads f evs g \<Longrightarrow> reload loads f = Inr g"
  unfolding stores_def reload_def using file_holds_read by force

lemma stores_ok: "stores loads f evs g \<Longrightarrow> registry_ok g"
  by (auto simp: stores_def replay_ok)

lemma request_stores:
  assumes "registry_codec dumps loads" "stores loads f evs g"
  shows "case decide_request digest g q of
      Inl e \<Rightarrow> registry_request_on digest dumps loads f q = (Inl e, f)
    | Inr (x, h, ev) \<Rightarrow> (\<exists>f'. registry_request_on digest dumps loads f q = (Inr x, f') \<and>
        stores loads f' (evs @ (case ev of None \<Rightarrow> [] | Some e \<Rightarrow> [e])) h)"
proof (cases "decide_request digest g q")
  case (Inl e)
  then show ?thesis using stores_reload[OF assms(2)] by (simp add: registry_request_on_def)
next
  case (Inr r)
  obtain x h ev where r: "r = (x, h, ev)" by (cases r)
  with Inr have run: "decide_request digest g q = Inr (x, h, ev)" by simp
  note d = decide_request_later[OF stores_ok[OF assms(2)] run]
  show ?thesis
  proof (cases ev)
    case None
    with run d(3) show ?thesis
      using stores_reload[OF assms(2)] assms(2) by (simp add: registry_request_on_def)
  next
    case (Some e)
    have "replay (evs @ [e]) = Inr h" using assms(2) d(3) Some by (simp add: stores_def replay_snoc)
    moreover have "file_holds loads (registry_append dumps e f) (evs @ [e])"
      using append_holds[OF assms(1)] assms(2) by (simp add: stores_def)
    ultimately show ?thesis
      using run Some stores_reload[OF assms(2)] by (simp add: registry_request_on_def stores_def)
  qed
qed

lemma stores_request:
  assumes "registry_codec dumps loads" "stores loads f evs g"
  obtains more h where "stores loads (snd (registry_request_on digest dumps loads f q)) (evs @ more) h"
    "later h g"
proof (cases "decide_request digest g q")
  case (Inl e)
  then show thesis using request_stores[OF assms, of digest q] assms(2) by (intro that[of "[]" g]) simp_all
next
  case (Inr r)
  obtain x h ev where r: "r = (x, h, ev)" by (cases r)
  from request_stores[OF assms, of digest q] obtain f' where
    "registry_request_on digest dumps loads f q = (Inr x, f')"
    "stores loads f' (evs @ (case ev of None \<Rightarrow> [] | Some e \<Rightarrow> [e])) h" by (auto simp: Inr r)
  moreover have "later h g" using decide_request_later(1)[OF stores_ok[OF assms(2)], of digest q] Inr r by blast
  ultimately show thesis by (intro that) auto
qed

abbreviation after_requests ::
  "(string \<times> int \<times> string \<Rightarrow> string) \<Rightarrow> (registry_event \<Rightarrow> bytes) \<Rightarrow> (bytes \<Rightarrow> registry_event option) \<Rightarrow>
    registry_file \<Rightarrow> registry_request list \<Rightarrow> registry_file" where
  "after_requests digest dumps loads f qs \<equiv>
     foldl (\<lambda>f q. snd (registry_request_on digest dumps loads f q)) f qs"

lemma stores_requests:
  assumes "registry_codec dumps loads" "stores loads f evs g"
  shows "\<exists>more h. stores loads (after_requests digest dumps loads f qs) (evs @ more) h \<and> later h g"
  using assms(2)
proof (induction qs arbitrary: f evs g)
  case Nil
  then show ?case by (intro exI[of _ "[]"] exI[of _ g]) simp
next
  case (Cons q qs)
  obtain more h where h: "stores loads (snd (registry_request_on digest dumps loads f q)) (evs @ more) h" "later h g"
    by (rule stores_request[OF assms(1) Cons.prems])
  from Cons.IH[OF h(1)] obtain more' k where
    "stores loads (after_requests digest dumps loads f (q # qs)) (evs @ more @ more') k" "later k h" by auto
  with h(2) show ?case by (metis later_trans)
qed

section \<open>Properties\<close>

text \<open>The attempts of a family are numbered 1, 2, 3 and so on in the order they were started, with no
  gap whatever became of them, and the number of comparisons of a family is the number of its
  started attempts.\<close>

theorem numbering_is_gapless:
  assumes "replay evs = Inr g"
  shows "map sa_sequence_index (attempts_of g (Some f)) = map (\<lambda>i. int i + 1) [0..<comparison_count g f] \<and>
    comparison_count g f = length (starts f evs) \<and>
    distinct (map sa_attempt_id (attempts_of g (Some f))) \<and>
    list_all (\<lambda>x. sa_family_id x = f) (attempts_of g (Some f))"
proof -
  note ok = registry_okD[OF replay_ok[OF assms]]
  let ?x = "\<lambda>i. the (map_of (rg_attempts g) (family_order g f ! i))"
  have at: "attempts_of g (Some f) = map ?x [0..<length (family_order g f)]"
    by (rule nth_equalityI) (simp_all add: attempts_of_def)
  have i: "sa_sequence_index (?x i) = int i + 1 \<and> sa_family_id (?x i) = f \<and>
      sa_attempt_id (?x i) = family_order g f ! i" if "i < length (family_order g f)" for i
    using ok(4)[OF that] ok(1) by fastforce
  have ids: "map sa_attempt_id (attempts_of g (Some f)) = family_order g f"
    unfolding at using i by (auto intro!: nth_equalityI)
  have idx: "map sa_sequence_index (attempts_of g (Some f)) = map (\<lambda>i. int i + 1) [0..<comparison_count g f]"
    unfolding at comparison_count_def using i by auto
  have fam: "list_all (\<lambda>x. sa_family_id x = f) (attempts_of g (Some f))"
    unfolding at using i by (auto simp: list_all_iff)
  show ?thesis
    using idx ids fam ok(3)[of f] replay_family_order[OF assms, of f] by (simp add: comparison_count_def)
qed

text \<open>Selective reporting is detected: a log from which the start of an attempt was removed does not
  load, when a later attempt of its family is left in it.\<close>

theorem dropped_attempt_is_detected:
  assumes "replay (xs @ Attempt_Started e # ys @ Attempt_Started e' # zs) = Inr g"
    "sf_family_id e' = sf_family_id e"
  shows "\<exists>err. replay (xs @ ys @ Attempt_Started e' # zs) = Inl err"
proof (cases "replay (xs @ ys @ Attempt_Started e' # zs)")
  case (Inr h)
  from replay_start[of "xs @ ys" e' zs h] Inr
  have "sf_sequence_index e' = int (length (starts (sf_family_id e) (xs @ ys))) + 1"
    using assms(2) by simp
  moreover from replay_start[of "xs @ Attempt_Started e # ys" e' zs g] assms
  have "sf_sequence_index e' = int (length (starts (sf_family_id e) (xs @ ys))) + 2" by simp
  ultimately show ?thesis by simp
qed blast

text \<open>C38. The file implements the registry: on a file that holds a registry each call returns what it
  returns on the registry in memory; a refused call leaves the file alone, the others leave a
  file that loads to the registry the call produced.\<close>

theorem file_implements_registry:
  assumes "registry_codec dumps loads" "stores loads f evs g"
  shows "fst (registry_request_on digest dumps loads f q) =
      (case decide_request digest g q of Inl e \<Rightarrow> Inl e | Inr (x, h, ev) \<Rightarrow> Inr x) \<and>
    reload loads (snd (registry_request_on digest dumps loads f q)) =
      (case decide_request digest g q of Inl e \<Rightarrow> Inr g | Inr (x, h, ev) \<Rightarrow> Inr h)"
proof (cases "decide_request digest g q")
  case (Inl e)
  with request_stores[OF assms, of digest q] stores_reload[OF assms(2)] show ?thesis by simp
next
  case (Inr r)
  obtain x h ev where r: "r = (x, h, ev)" by (cases r)
  with request_stores[OF assms, of digest q] Inr show ?thesis by (auto simp: stores_reload)
qed

text \<open>Outcomes are final and multiplicity never shrinks: whatever calls follow, an attempt that
  completed or failed stays as it is, every attempt keeps its number, and the number of
  comparisons of a family does not decrease.\<close>

theorem outcomes_are_final:
  assumes "registry_codec dumps loads" "stores loads f evs g"
    "reload loads (after_requests digest dumps loads f qs) = Inr h"
    "map_of (rg_attempts g) a = Some x"
  shows "\<exists>y. map_of (rg_attempts h) a = Some y \<and> kept y x \<and>
    comparison_count g family \<le> comparison_count h family"
proof -
  obtain more k where k: "stores loads (after_requests digest dumps loads f qs) (evs @ more) k" "later k g"
    using stores_requests[OF assms(1,2)] by blast
  have "k = h" using stores_reload[OF k(1)] assms(3) by simp
  with k(2) assms(4) show ?thesis
    unfolding later_def comparison_count_def by (meson prefix_length_le)
qed

text \<open>A retry does not count twice: after an attempt was begun, and whatever calls follow, beginning
  it again for the same logical step returns it and writes nothing, and beginning another test
  under that step is refused.\<close>

theorem retry_counts_once:
  assumes "registry_codec dumps loads" "stores loads f evs g"
    "registry_request_on digest dumps loads f (Begin family test_type arguments stp) = (Inr x, f1)"
    "f2 = after_requests digest dumps loads f1 qs"
  shows "(\<exists>y. registry_request_on digest dumps loads f2 (Begin family test_type arguments stp) = (Inr y, f2) \<and>
      sa_attempt_id y = sa_attempt_id x \<and> kept y x) \<and>
    (family' \<noteq> family \<longrightarrow> registry_request_on digest dumps loads f2
       (Begin family' test_type arguments stp) = (Inl (Step_Already_Allocated stp), f2))"
proof -
  note ok = stores_ok[OF assms(2)]
  obtain h ev where run: "begin_attempt digest g family test_type arguments stp = Inr (x, h, ev)"
    and f1: "stores loads f1 (evs @ (case ev of None \<Rightarrow> [] | Some e \<Rightarrow> [e])) h"
    using request_stores[OF assms(1,2), of digest "Begin family test_type arguments stp"] assms(3)
    by (auto split: sum.splits)
  have x: "map_of (rg_by_step h) stp = Some (sa_attempt_id x)" "map_of (rg_attempts h) (sa_attempt_id x) = Some x"
    "sa_logical_step_id x = stp" "sa_family_id x = family" "sa_arguments_digest x = arguments"
    "sa_requested_test_type x = test_type"
  proof -
    have "map_of (rg_by_step h) stp = Some (sa_attempt_id x) \<and> map_of (rg_attempts h) (sa_attempt_id x) = Some x \<and>
      sa_logical_step_id x = stp \<and> sa_family_id x = family \<and> sa_arguments_digest x = arguments \<and>
      sa_requested_test_type x = test_type"
    proof (cases "map_of (rg_by_step g) stp")
      case None
      note new = begin_new[OF None run]
      from apply_startedD(4,5)[OF new(1)] new(3) show ?thesis by (simp add: started_attempt_def)
    next
      case (Some a)
      note known = begin_known[OF ok Some run]
      have "sa_logical_step_id x = stp" using registry_okD(2)[OF ok Some] known(3) by auto
      moreover have "sa_attempt_id x = a" using registry_okD(1)[OF ok known(3)] by simp
      ultimately show ?thesis using Some known by simp
    qed
    then show "map_of (rg_by_step h) stp = Some (sa_attempt_id x)"
      "map_of (rg_attempts h) (sa_attempt_id x) = Some x" "sa_logical_step_id x = stp"
      "sa_family_id x = family" "sa_arguments_digest x = arguments" "sa_requested_test_type x = test_type"
      by blast+
  qed
  obtain more k where k: "stores loads f2 (evs @ (case ev of None \<Rightarrow> [] | Some e \<Rightarrow> [e]) @ more) k" "later k h"
    using stores_requests[OF assms(1) f1, of digest qs] assms(4) by auto
  note ok' = stores_ok[OF k(1)]
  obtain y where y: "map_of (rg_attempts k) (sa_attempt_id x) = Some y" "kept y x"
    using k(2) x(2) unfolding later_def by blast
  have "map_of (rg_by_step k) stp = Some (sa_attempt_id x)"
    using registry_okD(1)[OF ok' y(1)] y(2) x(3) by (simp add: kept_def)
  then show ?thesis
    using stores_reload[OF k(1)] y x(4-6) registry_okD(1)[OF ok' y(1)]
    by (auto simp: registry_request_on_def begin_attempt_def kept_def)
qed

text \<open>A crash inside a write loses nothing but that record: with any proper part of its line written,
  the file still loads to the registry before the call, and the call can be made again.\<close>

theorem registry_crash_is_atomic:
  assumes "registry_codec dumps loads" "stores loads f evs g" "n < length (dumps e)"
  shows "reload loads (crashed_registry_append dumps n e f) = Inr g \<and>
    fst (registry_request_on digest dumps loads (crashed_registry_append dumps n e f) q) =
    fst (registry_request_on digest dumps loads f q)"
proof -
  have "stores loads (crashed_registry_append dumps n e f) evs g"
    using crash_holds[OF assms(1) _ assms(3)] assms(2) by (simp add: stores_def)
  from stores_reload[OF this] stores_reload[OF assms(2)] show ?thesis
    by (auto simp: registry_request_on_def split: sum.split option.split)
qed

text \<open>But a crash right before the line feed makes the registry unusable: the unterminated start of an
  attempt is read, so its completion is accepted, and then deleted by the write of the
  completion; after that no call succeeds.\<close>

theorem unterminated_start_bricks_registry:
  assumes "registry_codec dumps loads" "stores loads f evs g" "apply_started g e = Inr h"
    "f1 = crashed_registry_append dumps (length (dumps (Attempt_Started e))) (Attempt_Started e) f"
    "registry_request_on digest dumps loads f1 (Complete (sf_attempt_id e) receipt) = (res, f2)"
  shows "(\<exists>x. res = Inr x \<and> sa_status x = Attempt_Done) \<and>
    registry_request_on digest dumps loads f2 q = (Inl (Unknown_Attempt (sf_attempt_id e)), f2)"
proof -
  let ?l = "dumps (Attempt_Started e)" and ?c = "Attempt_Completed (sf_attempt_id e) receipt"
  note codec = registry_codecD[OF assms(1)]
  have holds: "file_holds loads f evs" "replay evs = Inr g" using assms(2) by (simp_all add: stores_def)
  have raw: "raw_of f1 = truncate_tail (raw_of f) @ ?l"
    by (simp add: assms(4) crashed_registry_append_def raw_of_def)
  have lines: "committed_lines (raw_of f1) = committed_lines (raw_of f)"
    unfolding raw by (rule committed_lines_append(2)[OF codec(2)])
  have torn: "torn_of f1 = ?l"
    unfolding torn_of_def raw split_lines_append[OF codec(2)]
    using committed_lines_truncate[of "raw_of f"] by simp
  have "split_lines (raw_of f1) = committed_lines (raw_of f) @ [?l]"
    using lines torn by (metis append_butlast_last_id committed_lines_def split_lines_not_Nil torn_of_def)
  moreover have "raw_of f1 \<noteq> []"
    using codec(1) raw by simp
  moreover from this have "last (raw_of f1) \<noteq> newline"
    using last_newline_iff[of "raw_of f1"] torn codec(1) by (simp add: torn_of_def)
  moreover have "read_records loads False 1 (committed_lines (raw_of f) @ [?l]) = Inr (evs @ [Attempt_Started e])"
    by (rule read_records_torn) (use holds(1) codec in \<open>simp_all add: file_holds_def\<close>)
  ultimately have read: "read_registry loads f1 = Inr (evs @ [Attempt_Started e])"
    by (cases f1) (simp_all add: read_registry_def raw_of_def)
  have load: "reload loads f1 = Inr h"
    using read assms(3) holds(2) by (simp add: reload_def replay_snoc)
  have started: "map_of (rg_attempts h) (sf_attempt_id e) = Some (started_attempt e)"
    using apply_startedD(4)[OF assms(3)] by simp
  have done_run: "record_completion h (sf_attempt_id e) receipt =
      Inr ((started_attempt e)\<lparr>sa_status := Attempt_Done, sa_receipt_id := Some receipt\<rparr>,
        set_outcome h ((started_attempt e)\<lparr>sa_status := Attempt_Done, sa_receipt_id := Some receipt\<rparr>), Some ?c)"
    using started
    by (simp add: record_completion_def record_event_def require_attempt_def started_attempt_def)
  have f2: "res = Inr ((started_attempt e)\<lparr>sa_status := Attempt_Done, sa_receipt_id := Some receipt\<rparr>)"
    "f2 = registry_append dumps ?c f1"
    using assms(5) load done_run by (auto simp: registry_request_on_def)
  have "file_holds loads f2 (evs @ [?c])"
    unfolding f2(2) by (rule append_registry_lines[OF assms(1)]) (use holds(1) lines in \<open>simp add: file_holds_def\<close>)
  moreover have "replay (evs @ [?c]) = Inl (Unknown_Attempt (sf_attempt_id e))"
    using holds(2) apply_startedD(1)[OF assms(3)] by (simp add: replay_snoc require_attempt_def)
  ultimately have "reload loads f2 = Inl (Unknown_Attempt (sf_attempt_id e))"
    using file_holds_read by (auto simp: reload_def)
  then show ?thesis using f2(1) by (simp add: registry_request_on_def)
qed

section \<open>Concrete runs\<close>

text \<open>A codec to run with: the number of an event in unary.\<close>

type_synonym event_tuple = "nat \<times> string list \<times> int \<times> string option"

fun event_tuple :: "registry_event \<Rightarrow> event_tuple" where
  "event_tuple (Attempt_Started e) = (0, [sf_attempt_id e, sf_family_id e, sf_logical_step_id e,
     sf_requested_test_type e, sf_arguments_digest e], sf_sequence_index e, None)"
| "event_tuple (Attempt_Completed a r) = (1, [a, r], 0, None)"
| "event_tuple (Attempt_Failed a x) = (2, [a], 0, x)"
| "event_tuple (Unsupported_Event k) = (3, [k], 0, None)"
| "event_tuple (Field_Missing k) = (4, [k], 0, None)"

definition tuple_event :: "event_tuple \<Rightarrow> registry_event" where
  "tuple_event t = (case t of (k, ss, i, x) \<Rightarrow>
     if k = 0 then Attempt_Started \<lparr>sf_attempt_id = ss ! 0, sf_family_id = ss ! 1, sf_sequence_index = i,
       sf_logical_step_id = ss ! 2, sf_requested_test_type = ss ! 3, sf_arguments_digest = ss ! 4\<rparr>
     else if k = 1 then Attempt_Completed (ss ! 0) (ss ! 1)
     else if k = 2 then Attempt_Failed (ss ! 0) x
     else if k = 3 then Unsupported_Event (ss ! 0) else Field_Missing (ss ! 0))"

lemma tuple_event_tuple: "tuple_event (event_tuple e) = e"
  by (cases e) (simp_all add: tuple_event_def)

definition unary_dumps :: "registry_event \<Rightarrow> bytes" where
  "unary_dumps e = tally_encode (to_nat (event_tuple e))"

definition unary_loads :: "bytes \<Rightarrow> registry_event option" where
  "unary_loads l = map_option (\<lambda>n. tuple_event (from_nat n)) (tally_decode l)"

lemma unary_codec: "registry_codec unary_dumps unary_loads"
proof -
  have "tally_decode (take n (tally_encode k)) = None" if "n < length (tally_encode k)" for n k
    using that by (auto simp: tally_encode_def tally_decode_def dest!: last_in_set)
  moreover have "newline \<notin> set (tally_encode k) \<and> tally_encode k \<noteq> [] \<and> tally_decode (tally_encode k) = Some k" for k
    using tally_codec by (simp add: line_codec_def tally_spec_def)
  ultimately show ?thesis
    by (simp add: registry_codec_def line_codec_def unary_dumps_def unary_loads_def tuple_event_tuple)
qed

lemma empty_file_stores: "stores loads None [] empty_registry"
  by (simp add: stores_def file_holds_def raw_of_def torn_of_def committed_lines_def replay_def)

definition plain_attempt_digest :: "string \<times> int \<times> string \<Rightarrow> string" where
  "plain_attempt_digest t = snd (snd t)"

definition first_start :: started_fields where
  "first_start = new_start plain_attempt_digest empty_registry ''fam'' ''t'' ''d'' ''s1''"

definition second_start :: started_fields where
  "second_start = first_start\<lparr>sf_attempt_id := ''att_s2'', sf_sequence_index := 2,
     sf_logical_step_id := ''s2''\<rparr>"

lemma two_starts_replay:
  "\<exists>g. replay [Attempt_Started first_start, Attempt_Failed ''att_s1'' None, Attempt_Started second_start] = Inr g"
proof -
  have "\<not> isl (replay [Attempt_Started first_start, Attempt_Failed ''att_s1'' None, Attempt_Started second_start])"
    by code_simp
  then show ?thesis by (metis isl_def sum.exhaust)
qed

theorem numbering_is_gapless_witness:
  "\<exists>g. replay [Attempt_Started first_start, Attempt_Failed ''att_s1'' None, Attempt_Started second_start] = Inr g \<and>
     comparison_count g ''fam'' = 2"
proof -
  obtain g where g: "replay [Attempt_Started first_start, Attempt_Failed ''att_s1'' None,
    Attempt_Started second_start] = Inr g" using two_starts_replay by blast
  from numbering_is_gapless[OF g, of "''fam''"] g show ?thesis
    by (auto simp: first_start_def second_start_def)
qed

theorem dropped_attempt_is_detected_witness:
  "\<exists>err. replay [Attempt_Failed ''att_s1'' None, Attempt_Started second_start] = Inl err"
proof -
  obtain g where "replay ([] @ Attempt_Started first_start # [Attempt_Failed ''att_s1'' None] @
    Attempt_Started second_start # []) = Inr g" using two_starts_replay by auto
  from dropped_attempt_is_detected[OF this] show ?thesis by (simp add: second_start_def)
qed

lemma first_begin:
  "\<exists>x f1. registry_request_on plain_attempt_digest unary_dumps unary_loads None (Begin ''fam'' ''t'' ''d'' ''s1'') =
     (Inr x, f1)"
proof -
  have "\<not> isl (decide_request plain_attempt_digest empty_registry (Begin ''fam'' ''t'' ''d'' ''s1''))"
    by code_simp
  then obtain x h ev where "decide_request plain_attempt_digest empty_registry (Begin ''fam'' ''t'' ''d'' ''s1'') =
    Inr (x, h, ev)" by (metis isl_def old.prod.exhaust sum.exhaust)
  with request_stores[OF unary_codec empty_file_stores, of plain_attempt_digest "Begin ''fam'' ''t'' ''d'' ''s1''"]
  show ?thesis by auto
qed

theorem file_implements_registry_witness:
  "\<exists>x. fst (registry_request_on plain_attempt_digest unary_dumps unary_loads None (Begin ''fam'' ''t'' ''d'' ''s1'')) =
     Inr x"
proof -
  have "\<not> isl (decide_request plain_attempt_digest empty_registry (Begin ''fam'' ''t'' ''d'' ''s1''))"
    by code_simp
  then obtain x h ev where "decide_request plain_attempt_digest empty_registry (Begin ''fam'' ''t'' ''d'' ''s1'') =
    Inr (x, h, ev)" by (metis isl_def old.prod.exhaust sum.exhaust)
  with file_implements_registry[OF unary_codec empty_file_stores, of plain_attempt_digest
      "Begin ''fam'' ''t'' ''d'' ''s1''"] show ?thesis by auto
qed

lemma started_registry_file:
  obtains f g where "stores unary_loads f [Attempt_Started first_start, Attempt_Failed ''att_s1'' None] g"
    "map_of (rg_attempts g) ''att_s1'' = Some ((started_attempt first_start)\<lparr>sa_status := Attempt_Broken\<rparr>)"
proof -
  let ?evs = "[Attempt_Started first_start, Attempt_Failed ''att_s1'' None]"
  let ?f = "registry_append unary_dumps (Attempt_Failed ''att_s1'' None)
    (registry_append unary_dumps (Attempt_Started first_start) None)"
  have "file_holds unary_loads None []" using empty_file_stores by (simp add: stores_def)
  then have "file_holds unary_loads ?f (([] @ [Attempt_Started first_start]) @ [Attempt_Failed ''att_s1'' None])"
    by (intro append_holds[OF unary_codec])
  moreover have "case replay ?evs of Inl e \<Rightarrow> False | Inr g \<Rightarrow> map_of (rg_attempts g) ''att_s1'' =
      Some ((started_attempt first_start)\<lparr>sa_status := Attempt_Broken\<rparr>)" by code_simp
  ultimately show thesis using that by (cases "replay ?evs") (auto simp: stores_def)
qed

theorem outcomes_are_final_witness:
  "\<exists>f h y. reload unary_loads (after_requests plain_attempt_digest unary_dumps unary_loads f
       [Complete ''att_s1'' ''r'']) = Inr h \<and>
     map_of (rg_attempts h) ''att_s1'' = Some y \<and> sa_status y = Attempt_Broken"
proof -
  obtain f g where f: "stores unary_loads f [Attempt_Started first_start, Attempt_Failed ''att_s1'' None] g"
    "map_of (rg_attempts g) ''att_s1'' = Some ((started_attempt first_start)\<lparr>sa_status := Attempt_Broken\<rparr>)"
    by (rule started_registry_file)
  obtain more h where "stores unary_loads (after_requests plain_attempt_digest unary_dumps unary_loads f
      [Complete ''att_s1'' ''r'']) ([Attempt_Started first_start, Attempt_Failed ''att_s1'' None] @ more) h"
    using stores_requests[OF unary_codec f(1)] by blast
  note h = stores_reload[OF this]
  obtain y where "map_of (rg_attempts h) ''att_s1'' = Some y"
    "kept y ((started_attempt first_start)\<lparr>sa_status := Attempt_Broken\<rparr>)"
    using outcomes_are_final[OF unary_codec f(1) h f(2)] by blast
  then have "map_of (rg_attempts h) ''att_s1'' = Some y" "sa_status y = Attempt_Broken"
    by (simp_all add: kept_def)
  with h show ?thesis by (intro exI conjI)
qed

theorem retry_counts_once_witness:
  "\<exists>y f1. registry_request_on plain_attempt_digest unary_dumps unary_loads f1 (Begin ''fam'' ''t'' ''d'' ''s1'') =
     (Inr y, f1)"
proof -
  obtain x f1 where "registry_request_on plain_attempt_digest unary_dumps unary_loads None
    (Begin ''fam'' ''t'' ''d'' ''s1'') = (Inr x, f1)" using first_begin by blast
  then obtain y where "registry_request_on plain_attempt_digest unary_dumps unary_loads f1
    (Begin ''fam'' ''t'' ''d'' ''s1'') = (Inr y, f1)"
    using retry_counts_once[OF unary_codec empty_file_stores _ , of plain_attempt_digest "''fam''" "''t''" "''d''"
      "''s1''" x f1 f1 "[]" "''fam''"] by auto
  then show ?thesis by blast
qed

theorem registry_crash_is_atomic_witness:
  "reload unary_loads (crashed_registry_append unary_dumps 0 (Attempt_Started first_start) None) = Inr empty_registry"
proof -
  have "0 < length (unary_dumps (Attempt_Started first_start))"
    using registry_codecD(1)[OF unary_codec] by simp
  from registry_crash_is_atomic[OF unary_codec empty_file_stores this] show ?thesis by simp
qed

theorem unterminated_start_bricks_registry_witness:
  "\<exists>f2. registry_request_on plain_attempt_digest unary_dumps unary_loads f2 (Begin ''fam'' ''t'' ''d'' ''s2'') =
     (Inl (Unknown_Attempt (sf_attempt_id first_start)), f2)"
proof -
  have "\<not> isl (apply_started empty_registry first_start)" by code_simp
  then obtain h where h: "apply_started empty_registry first_start = Inr h" by (metis isl_def sum.exhaust)
  let ?f1 = "crashed_registry_append unary_dumps (length (unary_dumps (Attempt_Started first_start)))
    (Attempt_Started first_start) None"
  obtain res f2 where "registry_request_on plain_attempt_digest unary_dumps unary_loads ?f1
    (Complete (sf_attempt_id first_start) ''r'') = (res, f2)" by fastforce
  from unterminated_start_bricks_registry[OF unary_codec empty_file_stores h refl this] show ?thesis by blast
qed

end
