(* ===== verification/LlmLedger.thy ===== *)
theory LlmLedger
  imports Budget Loops Rounding
begin

text \<open>
  The ledger of model calls (\<open>core/llm_ledger.py\<close>): every call reserves its worst case before it
  reaches the provider, settles what it used, and leaves trace events from which the budget of a
  run is rebuilt after a restart. A call has two steps, opening and closing; calls of several
  threads interleave between them, and a crash leaves calls open. The sink of trace events may
  refuse an event. Clock readings and call ids are arguments.
\<close>

section \<open>Data\<close>

text \<open>A trace event; \<open>summary\<close> maps names to JSON scalars.\<close>

record trace_event =
  te_session_id :: string
  te_event_type :: string
  te_name :: string
  te_call_id :: "string option"
  te_started_at :: rat
  te_finished_at :: rat
  te_summary :: "(string, py_value) dict"

record llm_settings =
  set_provider :: "string option"
  set_model :: string
  set_max_tokens :: py_value
  set_usd_prompt :: rat
  set_usd_completion :: rat

record llm_usage =
  us_prompt_tokens :: int
  us_completion_tokens :: int
  us_total_tokens :: int
  us_cached_tokens :: int
  us_cache_creation_tokens :: int
  us_reasoning_tokens :: int

record result_metadata =
  rm_provider :: string
  rm_model :: string
  rm_usage :: llm_usage
  rm_estimated_cost :: "py_real option"
  rm_cost_basis :: string
  rm_pricing_version :: string
  rm_usage_reported :: bool
  rm_request_id :: string
  rm_response_id :: string
  rm_finish_reason :: string
  rm_endpoint_host :: string
  rm_request_bytes :: int
  rm_response_bytes :: int

datatype call_kind = Structured_Call | Text_Call | Tool_Call

text \<open>
  A request: \<open>rq_bytes\<close> is the length of its encoded envelope, \<open>rq_logical\<close> the logical call it
  belongs to (the context variable of \<open>logical_llm_call\<close>).
\<close>

record llm_request =
  rq_kind :: call_kind
  rq_task :: string
  rq_bytes :: nat
  rq_logical :: "string option"

text \<open>
  How the provider ended a call; the string is the type of the exception. \<open>Aborted\<close> is an exception
  outside \<open>Exception\<close> (an interrupt): no handler sees it, so the status stays \<open>success\<close>.
\<close>

datatype provider_outcome = Answered | Unavailable string | Failed string | Aborted string

fun outcome_status :: "provider_outcome \<Rightarrow> string" where
  "outcome_status Answered = ''success''"
| "outcome_status (Unavailable e) = e"
| "outcome_status (Failed e) = e"
| "outcome_status (Aborted e) = ''success''"

fun unserved :: "provider_outcome \<Rightarrow> bool" where
  "unserved (Unavailable e) = True"
| "unserved _ = False"

text \<open>
  What a ledger client is built with. Parameters of the model: the sink (given the events
  already written, whether it takes one more), the fingerprint of a policy, the price table per
  million tokens, and the text of an exception.
\<close>

record ledger_client =
  lc_session_id :: string
  lc_settings :: "llm_settings option"
  lc_offline :: bool
  lc_sink :: "trace_event list \<Rightarrow> trace_event \<Rightarrow> bool"
  lc_fingerprint :: "session_budget_policy \<Rightarrow> string"
  lc_pricing :: "string \<Rightarrow> string \<Rightarrow> (rat \<times> rat) option"
  lc_describe :: "budget_error \<Rightarrow> string"

record ledger_state =
  lg_budget :: "session_budget_state option"
  lg_log :: "trace_event list"

text \<open>The constructor: an offline client has no budget.\<close>

definition ledger_init :: "ledger_client \<Rightarrow> session_budget_state option \<Rightarrow> ledger_state" where
  "ledger_init c budget = \<lparr>lg_budget = (if lc_offline c then None else budget), lg_log = []\<rparr>"

definition protected_tasks :: "string list" where
  "protected_tasks = [''m2_report_claim_plan'']"

section \<open>Estimates\<close>

definition conservative_input_tokens :: "llm_request \<Rightarrow> int" where
  "conservative_input_tokens q = max 1 (int (rq_bytes q))"

definition configured_output_cap :: "llm_settings option \<Rightarrow> int" where
  "configured_output_cap settings = (case settings of
     None \<Rightarrow> 0
   | Some s \<Rightarrow> (case set_max_tokens s of PyInt n \<Rightarrow> max 0 n | _ \<Rightarrow> 0))"

definition worst_case_cost ::
  "(string \<Rightarrow> string \<Rightarrow> (rat \<times> rat) option) \<Rightarrow> llm_settings option \<Rightarrow> int \<Rightarrow> int \<Rightarrow> rat option" where
  "worst_case_cost pricing settings inputs outputs = (case settings of
     None \<Rightarrow> None
   | Some s \<Rightarrow>
       (case (if set_usd_prompt s \<le> 0 \<and> set_usd_completion s \<le> 0
              then (case set_provider s of
                  None \<Rightarrow> None
                | Some p \<Rightarrow> map_option (\<lambda>(a, b). (a / 1000, b / 1000)) (pricing p (set_model s)))
              else Some (set_usd_prompt s, set_usd_completion s)) of
          None \<Rightarrow> None
        | Some (prompt_rate, completion_rate) \<Rightarrow>
            Some (round_digits 9
              (of_int inputs / 1000 * prompt_rate + of_int outputs / 1000 * completion_rate))))"

abbreviation decimal_value :: "rat \<Rightarrow> py_value" where
  "decimal_value q \<equiv> PyDecimal (Finite q)"

text \<open>What needs a bound on the output before a call may go out.\<close>

definition output_bound_required :: "session_budget_policy \<Rightarrow> bool" where
  "output_bound_required p \<longleftrightarrow>
     max_output_tokens p \<noteq> None \<or> max_total_tokens p \<noteq> None \<or> max_cost_usd p \<noteq> None"

definition reserve_capacity ::
  "ledger_client \<Rightarrow> rat \<Rightarrow> string \<Rightarrow> llm_request \<Rightarrow> session_budget_state \<Rightarrow>
    budget_reservation checked \<times> session_budget_state" where
  "reserve_capacity c monotonic cid q st =
     (let inputs = conservative_input_tokens q; outputs = configured_output_cap (lc_settings c) in
      if output_bound_required (policy st) \<and> outputs \<le> 0
      then (Inl (Budget_Usage_Uncertain cid At_Reservation [''output_tokens'']), st)
      else reserve monotonic cid inputs outputs None
        (map_option decimal_value (worst_case_cost (lc_pricing c) (lc_settings c) inputs outputs))
        (rq_task q \<in> set protected_tasks) None st)"

text \<open>\<open>preflight_structured\<close> and \<open>preflight_tool_call\<close>: reserve and release at once.\<close>

definition preflight ::
  "ledger_client \<Rightarrow> rat \<Rightarrow> string \<Rightarrow> llm_request \<Rightarrow> ledger_state \<Rightarrow> unit checked \<times> ledger_state" where
  "preflight c monotonic pid q s = (case lg_budget s of
     None \<Rightarrow> (Inr (), s)
   | Some st \<Rightarrow> (case reserve_capacity c monotonic pid q st of
       (Inl e, st1) \<Rightarrow> (Inl e, s\<lparr>lg_budget := Some st1\<rparr>)
     | (Inr r, st1) \<Rightarrow> (case release (call_id r) st1 of
         (Inl e, st2) \<Rightarrow> (Inl e, s\<lparr>lg_budget := Some st2\<rparr>)
       | (Inr _, st2) \<Rightarrow> (Inr (), s\<lparr>lg_budget := Some st2\<rparr>))))"

section \<open>Events\<close>

abbreviation "LLM_USAGE \<equiv> ''llm_usage''"
abbreviation "BUDGET_REJECTED \<equiv> ''budget_rejected''"
abbreviation "BUDGET_RESERVED \<equiv> ''budget_reserved''"
abbreviation "BUDGET_SETTLED \<equiv> ''budget_settled''"

definition correlated ::
  "llm_request \<Rightarrow> (string, py_value) dict \<Rightarrow> (string, py_value) dict" where
  "correlated q m = (case rq_logical q of
     None \<Rightarrow> m | Some l \<Rightarrow> dict_set ''logical_call_id'' (PyStr l) m)"

fun status_name :: "reservation_status \<Rightarrow> string" where
  "status_name Reserved = ''reserved''"
| "status_name Settled = ''settled''"
| "status_name Released = ''released''"
| "status_name Uncertain = ''uncertain''"

definition reservation_summary :: "budget_reservation \<Rightarrow> (string, py_value) dict" where
  "reservation_summary r =
     [(''status'', PyStr (status_name (status r))),
      (''input_tokens'', PyInt (input_tokens r)),
      (''output_tokens'', PyInt (output_tokens r)),
      (''total_tokens'', PyInt (total_tokens r)),
      (''estimated_cost_usd'', PyFloat (Finite (cost_usd r))),
      (''protected'', PyBool (protected r)),
      (''usage_known'', case usage_known r of None \<Rightarrow> PyNone | Some b \<Rightarrow> PyBool b)]"

definition budget_event ::
  "ledger_client \<Rightarrow> string \<Rightarrow> llm_request \<Rightarrow> rat \<Rightarrow> rat \<Rightarrow> session_budget_policy \<Rightarrow>
    budget_reservation \<Rightarrow> trace_event" where
  "budget_event c event_type q begun now pol r =
     \<lparr>te_session_id = lc_session_id c, te_event_type = event_type, te_name = rq_task q,
      te_call_id = Some (call_id r), te_started_at = begun, te_finished_at = now,
      te_summary = correlated q
        (reservation_summary r @ [(''policy_fingerprint'', PyStr (lc_fingerprint c pol))])\<rparr>"

fun error_type_name :: "budget_error \<Rightarrow> string" where
  "error_type_name (Type_Error m) = ''TypeError''"
| "error_type_name (Value_Error m) = ''ValueError''"
| "error_type_name (Missing_Reservation k) = ''KeyError''"
| "error_type_name (Session_Tokens_Exhausted a b) = ''BudgetExceeded''"
| "error_type_name Session_Time_Exhausted = ''BudgetExceeded''"
| "error_type_name (Session_Budget_Exceeded d a b k stage) = ''SessionBudgetExceeded''"
| "error_type_name (Budget_Reservation_Conflict k s) = ''BudgetReservationConflict''"
| "error_type_name (Budget_Usage_Uncertain k stage m) = ''BudgetUsageUncertain''"

definition rejected_event ::
  "ledger_client \<Rightarrow> string \<Rightarrow> llm_request \<Rightarrow> rat \<Rightarrow> rat \<Rightarrow> budget_error \<Rightarrow> trace_event" where
  "rejected_event c cid q begun now e =
     \<lparr>te_session_id = lc_session_id c, te_event_type = BUDGET_REJECTED, te_name = rq_task q,
      te_call_id = Some cid, te_started_at = begun, te_finished_at = now,
      te_summary = correlated q [(''status'', PyStr (error_type_name e)),
        (''reason'', PyStr (take 500 (lc_describe c e)))]\<rparr>"

definition kind_name :: "call_kind \<Rightarrow> string" where
  "kind_name k = (case k of Structured_Call \<Rightarrow> ''structured'' | Text_Call \<Rightarrow> ''text''
     | Tool_Call \<Rightarrow> ''tool_call'')"

definition transport_kind :: "llm_settings option \<Rightarrow> call_kind \<Rightarrow> string" where
  "transport_kind settings k =
     (if k = Structured_Call \<and> Option.bind settings set_provider = Some ''anthropic''
      then ''provider_tool'' else kind_name k)"

definition or_cost :: "rat option \<Rightarrow> py_value" where
  "or_cost q = (case q of None \<Rightarrow> PyNone | Some x \<Rightarrow> PyFloat (Finite x))"

text \<open>What \<open>_record\<close> says of the tokens of a call.\<close>

definition usage_summary ::
  "ledger_client \<Rightarrow> result_metadata option \<Rightarrow> budget_reservation option \<Rightarrow> bool \<Rightarrow>
    (string, py_value) dict \<Rightarrow> (string, py_value) dict" where
  "usage_summary c usage reservation unserved_call m = (case usage of
     Some u \<Rightarrow>
       (let estimated = (case rm_estimated_cost u of
            Some q \<Rightarrow> PyFloat q
          | None \<Rightarrow> if rm_usage_reported u
              then or_cost (worst_case_cost (lc_pricing c) (lc_settings c)
                (us_prompt_tokens (rm_usage u)) (us_completion_tokens (rm_usage u)))
              else PyNone) in
        m @ [(''provider'', PyStr (rm_provider u)), (''model'', PyStr (rm_model u)),
          (''prompt_tokens'', PyInt (us_prompt_tokens (rm_usage u))),
          (''completion_tokens'', PyInt (us_completion_tokens (rm_usage u))),
          (''total_tokens'', PyInt (us_total_tokens (rm_usage u))),
          (''cached_tokens'', PyInt (us_cached_tokens (rm_usage u))),
          (''cache_creation_tokens'', PyInt (us_cache_creation_tokens (rm_usage u))),
          (''reasoning_tokens'', PyInt (us_reasoning_tokens (rm_usage u))),
          (''estimated_cost_usd'', estimated), (''cost_basis'', PyStr (rm_cost_basis u)),
          (''pricing_version'', PyStr (rm_pricing_version u)),
          (''provider_usage_reported'', PyBool (rm_usage_reported u)),
          (''request_id'', PyStr (rm_request_id u)), (''response_id'', PyStr (rm_response_id u)),
          (''finish_reason'', PyStr (rm_finish_reason u)),
          (''endpoint_host'', PyStr (rm_endpoint_host u)),
          (''request_bytes'', PyInt (rm_request_bytes u)),
          (''response_bytes'', PyInt (rm_response_bytes u))])
   | None \<Rightarrow>
       if lc_offline c then
         dict_set ''usage_known'' (PyBool True) m @
           [(''provider'', PyStr ''offline''), (''model'', PyStr ''offline''),
            (''prompt_tokens'', PyInt 0), (''completion_tokens'', PyInt 0),
            (''total_tokens'', PyInt 0), (''estimated_cost_usd'', PyFloat (Finite 0))]
       else if unserved_call then
         m @ [(''provider'', PyStr []), (''model'', PyStr []), (''prompt_tokens'', PyInt 0),
           (''completion_tokens'', PyInt 0), (''total_tokens'', PyInt 0),
           (''estimated_cost_usd'', PyFloat (Finite 0))]
       else
         m @ [(''provider'', PyStr []), (''model'', PyStr []),
           (''prompt_tokens'', PyInt (case reservation of None \<Rightarrow> 0 | Some r \<Rightarrow> input_tokens r)),
           (''completion_tokens'', PyInt (case reservation of None \<Rightarrow> 0 | Some r \<Rightarrow> output_tokens r)),
           (''total_tokens'', PyInt (case reservation of None \<Rightarrow> 0 | Some r \<Rightarrow> total_tokens r)),
           (''estimated_cost_usd'', or_cost (map_option cost_usd reservation))])"

definition usage_event ::
  "ledger_client \<Rightarrow> string \<Rightarrow> llm_request \<Rightarrow> rat \<Rightarrow> rat \<Rightarrow> string \<Rightarrow> result_metadata option \<Rightarrow>
    budget_reservation option \<Rightarrow> bool \<Rightarrow> trace_event" where
  "usage_event c cid q begun now st usage reservation unserved_call =
     \<lparr>te_session_id = lc_session_id c, te_event_type = LLM_USAGE, te_name = rq_task q,
      te_call_id = Some cid, te_started_at = begun, te_finished_at = now,
      te_summary = correlated q (usage_summary c usage reservation unserved_call
        [(''task'', PyStr (rq_task q)), (''kind'', PyStr (kind_name (rq_kind q))),
         (''transport_kind'', PyStr (transport_kind (lc_settings c) (rq_kind q))),
         (''status'', PyStr st),
         (''usage_known'', PyBool (case usage of None \<Rightarrow> False | Some u \<Rightarrow> rm_usage_reported u))])\<rparr>"

text \<open>\<open>_emit_required\<close> and \<open>_emit_safely\<close>.\<close>

definition emit_required ::
  "ledger_client \<Rightarrow> budget_stage \<Rightarrow> string list \<Rightarrow> trace_event \<Rightarrow> ledger_state \<Rightarrow>
    unit checked \<times> ledger_state" where
  "emit_required c stage missing e s =
     (if lc_sink c (lg_log s) e then (Inr (), s\<lparr>lg_log := lg_log s @ [e]\<rparr>)
      else (Inl (Budget_Usage_Uncertain
        (case te_call_id e of None \<Rightarrow> ''unidentified_call''
         | Some k \<Rightarrow> if k = [] then ''unidentified_call'' else k) stage missing), s))"

definition emit_safely :: "ledger_client \<Rightarrow> trace_event \<Rightarrow> ledger_state \<Rightarrow> ledger_state" where
  "emit_safely c e s = (if lc_sink c (lg_log s) e then s\<lparr>lg_log := lg_log s @ [e]\<rparr> else s)"

section \<open>A call\<close>

text \<open>\<open>_reserve\<close>: any exception is recorded as a rejection and frees the reservation.\<close>

definition release_if_reserved :: "string \<Rightarrow> session_budget_state \<Rightarrow> session_budget_state" where
  "release_if_reserved cid st = (case reservation_of st cid of
     None \<Rightarrow> st
   | Some r \<Rightarrow> if status r = Reserved then snd (release cid st) else st)"

definition open_call ::
  "ledger_client \<Rightarrow> rat \<Rightarrow> rat \<Rightarrow> string \<Rightarrow> llm_request \<Rightarrow> ledger_state \<Rightarrow>
    budget_reservation option checked \<times> ledger_state" where
  "open_call c monotonic now cid q s = (case lg_budget s of
     None \<Rightarrow> (Inr None, s)
   | Some st \<Rightarrow> (case reserve_capacity c monotonic cid q st of
       (Inl e, st1) \<Rightarrow>
         (Inl e, emit_safely c (rejected_event c cid q now now e) (s\<lparr>lg_budget := Some st1\<rparr>))
     | (Inr r, st1) \<Rightarrow>
         (case emit_required c At_Reservation [BUDGET_RESERVED]
             (budget_event c BUDGET_RESERVED q now now (policy st1) r) (s\<lparr>lg_budget := Some st1\<rparr>) of
            (Inr _, s1) \<Rightarrow> (Inr (Some r), s1)
          | (Inl e, s1) \<Rightarrow>
              (Inl e, emit_safely c (rejected_event c cid q now now e)
                (s1\<lparr>lg_budget := Some (release_if_reserved (call_id r) st1)\<rparr>)))))"

text \<open>A failed call must not be billed the usage of the call before it.\<close>

definition fresh_usage ::
  "provider_outcome \<Rightarrow> result_metadata option \<Rightarrow> result_metadata option \<Rightarrow> result_metadata option" where
  "fresh_usage out before after =
     (if outcome_status out \<noteq> ''success'' \<and> after = before then None else after)"

definition settlement_cost :: "ledger_client \<Rightarrow> result_metadata \<Rightarrow> py_value option" where
  "settlement_cost c u = (case rm_estimated_cost u of
     Some q \<Rightarrow> Some (PyFloat q)
   | None \<Rightarrow> map_option decimal_value (worst_case_cost (lc_pricing c) (lc_settings c)
       (us_prompt_tokens (rm_usage u)) (us_completion_tokens (rm_usage u))))"

text \<open>\<open>_settle\<close> on the budget of the run.\<close>

definition settle_call ::
  "ledger_client \<Rightarrow> budget_reservation \<Rightarrow> result_metadata option \<Rightarrow> bool \<Rightarrow> session_budget_state \<Rightarrow>
    budget_reservation option checked \<times> session_budget_state" where
  "settle_call c r usage unserved_call st =
     (let cid = call_id r in
      if unserved_call then
        (case release cid st of (Inl e, st1) \<Rightarrow> (Inl e, st1) | (Inr _, st1) \<Rightarrow> (Inr None, st1))
      else if \<not> (case usage of None \<Rightarrow> False | Some u \<Rightarrow> rm_usage_reported u) then
        (case mark_uncertain cid st of (Inl e, st1) \<Rightarrow> (Inl e, st1) | (Inr x, st1) \<Rightarrow> (Inr (Some x), st1))
      else
        (let u = the usage in
         case settle cid (Some (us_prompt_tokens (rm_usage u))) (Some (us_completion_tokens (rm_usage u)))
            (Some (us_total_tokens (rm_usage u))) (settlement_cost c u) st of
           (Inr x, st1) \<Rightarrow> (Inr (Some x), st1)
         | (Inl (Budget_Usage_Uncertain k stage missing), st1) \<Rightarrow>
             (case mark_uncertain cid st1 of
                (Inl e, st2) \<Rightarrow> (Inl e, st2)
              | (Inr _, st2) \<Rightarrow> (Inl (Budget_Usage_Uncertain k stage missing), st2))
         | (Inl e, st1) \<Rightarrow> (Inl e, st1)))"

datatype call_result = Call_Returned | Provider_Raised string | Budget_Raised budget_error

fun outcome_result :: "provider_outcome \<Rightarrow> call_result" where
  "outcome_result Answered = Call_Returned"
| "outcome_result (Unavailable e) = Provider_Raised e"
| "outcome_result (Failed e) = Provider_Raised e"
| "outcome_result (Aborted e) = Provider_Raised e"

text \<open>
  The \<open>finally\<close> block of a call that reached the provider: settle, record the usage, record the
  settlement; an exception of the budget comes last, one of the sink replaces everything.
\<close>

definition close_call ::
  "ledger_client \<Rightarrow> rat \<Rightarrow> rat \<Rightarrow> string \<Rightarrow> llm_request \<Rightarrow> budget_reservation option \<Rightarrow>
    provider_outcome \<Rightarrow> result_metadata option \<Rightarrow> result_metadata option \<Rightarrow> ledger_state \<Rightarrow>
    call_result \<times> ledger_state" where
  "close_call c begun now cid q reservation out before after s =
     (let usage = fresh_usage out before after;
          (settled, s1) = (case (lg_budget s, reservation) of
              (Some st, Some r) \<Rightarrow> (case settle_call c r usage (unserved out) st of
                 (res, st1) \<Rightarrow> (res, s\<lparr>lg_budget := Some st1\<rparr>))
            | _ \<Rightarrow> (Inr None, s));
          terminal = (case settled of
              Inr x \<Rightarrow> x
            | Inl e \<Rightarrow> (case (lg_budget s1, reservation) of
                (Some st, Some r) \<Rightarrow> reservation_of st (call_id r) | _ \<Rightarrow> None))
      in case emit_required c At_Settlement [LLM_USAGE]
           (usage_event c cid q begun now
             (case settled of Inr _ \<Rightarrow> outcome_status out | Inl e \<Rightarrow> error_type_name e)
             usage reservation (unserved out)) s1 of
           (Inl e, s2) \<Rightarrow> (Budget_Raised e, s2)
         | (Inr _, s2) \<Rightarrow>
             (case (case (terminal, lg_budget s2) of
                 (Some x, Some st) \<Rightarrow> emit_required c At_Settlement [BUDGET_SETTLED]
                   (budget_event c BUDGET_SETTLED q now now (policy st) x) s2
               | _ \<Rightarrow> (Inr (), s2)) of
                (Inl e, s3) \<Rightarrow> (Budget_Raised e, s3)
              | (Inr _, s3) \<Rightarrow> (case settled of
                  Inl e \<Rightarrow> (Budget_Raised e, s3) | Inr _ \<Rightarrow> (outcome_result out, s3))))"

text \<open>One call of one thread: the provider is reached only when the reservation was granted.\<close>

definition ledger_call ::
  "ledger_client \<Rightarrow> rat \<Rightarrow> rat \<Rightarrow> rat \<Rightarrow> string \<Rightarrow> llm_request \<Rightarrow> provider_outcome \<Rightarrow>
    result_metadata option \<Rightarrow> result_metadata option \<Rightarrow> ledger_state \<Rightarrow> call_result \<times> ledger_state" where
  "ledger_call c monotonic begun now cid q out before after s =
     (case open_call c monotonic begun cid q s of
        (Inl e, s1) \<Rightarrow> (Budget_Raised e, s1)
      | (Inr r, s1) \<Rightarrow> close_call c begun now cid q r out before after s1)"

section \<open>Restoring the budget of a run\<close>

definition summary_int :: "(string, py_value) dict \<Rightarrow> string \<Rightarrow> int checked" where
  "summary_int m name = (case dict_get m name PyNone of
     PyInt n \<Rightarrow> if n < 0 then Inl (Budget_Usage_Uncertain ''persisted_budget'' At_Restore [name]) else Inr n
   | _ \<Rightarrow> Inl (Budget_Usage_Uncertain ''persisted_budget'' At_Restore [name]))"

text \<open>A number that is not a \<open>bool\<close> and not below zero; \<open>nan < 0\<close> is false.\<close>

definition summary_cost :: "(string, py_value) dict \<Rightarrow> py_value checked" where
  "summary_cost m =
     (let bad = Inl (Budget_Usage_Uncertain ''persisted_budget'' At_Restore [''estimated_cost_usd'']) in
      case dict_get m ''estimated_cost_usd'' PyNone of
        PyInt n \<Rightarrow> if n < 0 then bad else Inr (PyFloat (Finite (of_int n)))
      | PyFloat (Finite q) \<Rightarrow> if q < 0 then bad else Inr (PyFloat (Finite q))
      | PyFloat Neg_Infinity \<Rightarrow> bad
      | PyFloat x \<Rightarrow> Inr (PyFloat x)
      | _ \<Rightarrow> bad)"

definition py_truthy :: "py_value \<Rightarrow> bool" where
  "py_truthy v = (case v of
     PyNone \<Rightarrow> False | PyBool b \<Rightarrow> b | PyInt n \<Rightarrow> n \<noteq> 0 | PyFloat x \<Rightarrow> x \<noteq> Finite 0
   | PyDecimal x \<Rightarrow> x \<noteq> Finite 0 | PyStr s \<Rightarrow> s \<noteq> [])"

definition policy_has_hard_limits :: "session_budget_policy \<Rightarrow> bool" where
  "policy_has_hard_limits p \<longleftrightarrow>
     max_requests p \<noteq> None \<or> max_input_tokens p \<noteq> None \<or> max_output_tokens p \<noteq> None \<or>
     max_total_tokens p \<noteq> None \<or> max_cost_usd p \<noteq> None \<or> max_wall_seconds p \<noteq> None"

definition is_zero :: "py_value \<Rightarrow> bool" where
  "is_zero v = (case v of PyInt n \<Rightarrow> n = 0 | PyFloat x \<Rightarrow> x = Finite 0 | _ \<Rightarrow> False)"

definition confirmed_offline_usage :: "trace_event \<Rightarrow> bool" where
  "confirmed_offline_usage e =
     (let m = te_summary e in
      te_event_type e = LLM_USAGE \<and> dict_get m ''provider'' PyNone = PyStr ''offline'' \<and>
      dict_get m ''usage_known'' PyNone = PyBool True \<and>
      list_all (\<lambda>name. is_zero (dict_get m name PyNone))
        [''prompt_tokens'', ''completion_tokens'', ''total_tokens'', ''estimated_cost_usd''])"

text \<open>\<open>_unique_call_events\<close>: the events of a type by call id, in their order.\<close>

definition index_call ::
  "string \<Rightarrow> (string, trace_event) dict \<Rightarrow> trace_event \<Rightarrow> budget_error + (string, trace_event) dict" where
  "index_call event_type d e = (case te_call_id e of
     None \<Rightarrow> Inr d
   | Some k \<Rightarrow>
       if te_event_type e \<noteq> event_type then Inr d
       else if map_of d k \<noteq> None
       then Inl (Budget_Usage_Uncertain k At_Restore [''unique_'' @ event_type])
       else Inr (dict_set k e d))"

definition unique_call_events ::
  "trace_event list \<Rightarrow> string \<Rightarrow> budget_error + (string, trace_event) dict" where
  "unique_call_events events event_type = fold_res (index_call event_type) [] events"

definition has_call_id :: "trace_event \<Rightarrow> bool" where
  "has_call_id e = (case te_call_id e of None \<Rightarrow> False | Some k \<Rightarrow> k \<noteq> [])"

definition accepted_fingerprint :: "string list \<Rightarrow> trace_event \<Rightarrow> bool" where
  "accepted_fingerprint accepted e = (case dict_get (te_summary e) ''policy_fingerprint'' PyNone of
     PyNone \<Rightarrow> True | PyStr f \<Rightarrow> f \<in> set accepted | _ \<Rightarrow> False)"

text \<open>Reading the amounts of an event as the arguments of \<open>reserve\<close> and \<open>settle\<close>.\<close>

definition summary_amounts ::
  "(string, py_value) dict \<Rightarrow> budget_error + (int \<times> int \<times> int \<times> py_value)" where
  "summary_amounts m =
     bind_res (summary_int m ''input_tokens'') (\<lambda>i.
     bind_res (summary_int m ''output_tokens'') (\<lambda>out.
     bind_res (summary_int m ''total_tokens'') (\<lambda>t.
     bind_res (summary_cost m) (\<lambda>cost. Inr (i, out, t, cost)))))"

definition restore_call ::
  "rat \<Rightarrow> string list \<Rightarrow> (string, trace_event) dict \<Rightarrow> session_budget_state \<Rightarrow> string \<times> trace_event \<Rightarrow>
    budget_error + session_budget_state" where
  "restore_call monotonic accepted terminals st entry = (case entry of (cid, reserved) \<Rightarrow>
     let mismatch = Budget_Usage_Uncertain cid At_Restore [''matching_budget_policy''];
         terminal = map_of terminals cid
     in bind_res (raise_if (\<not> accepted_fingerprint accepted reserved) mismatch) (\<lambda>_.
        bind_res (raise_if (\<not> (case terminal of None \<Rightarrow> True | Some t \<Rightarrow> accepted_fingerprint accepted t))
          mismatch) (\<lambda>_.
        bind_res (summary_amounts (te_summary reserved)) (\<lambda>(i, out, t, cost).
        case reserve monotonic cid i out (Some t) (Some cost)
            (py_truthy (dict_get (te_summary reserved) ''protected'' PyNone)) None st of
          (Inl e, _) \<Rightarrow> Inl e
        | (Inr _, st1) \<Rightarrow>
            if (case terminal of None \<Rightarrow> True | Some t \<Rightarrow>
                  dict_get (te_summary t) ''status'' PyNone = PyStr ''uncertain'' \<or>
                  dict_get (te_summary t) ''usage_known'' PyNone \<noteq> PyBool True)
            then (case mark_uncertain cid st1 of (Inl e, _) \<Rightarrow> Inl e | (Inr _, st2) \<Rightarrow> Inr st2)
            else bind_res (summary_amounts (te_summary (the terminal))) (\<lambda>(i, out, t, cost).
              case settle cid (Some i) (Some out) (Some t) (Some cost) st1 of
                (Inl e, _) \<Rightarrow> Inl e | (Inr _, st2) \<Rightarrow> Inr st2)))))"

definition elapsed_since :: "rat \<Rightarrow> trace_event list \<Rightarrow> rat option \<Rightarrow> rat" where
  "elapsed_since now events run_started =
     (let candidates = map te_started_at events @ (case run_started of None \<Rightarrow> [] | Some t \<Rightarrow> [t]) in
      if candidates = [] then 0 else max 0 (now - Min (set candidates)))"

text \<open>
  \<open>restore_run_budget_state\<close>; an empty set of accepted fingerprints means the default. The
  calls without reservation are reported by the least id.
\<close>

definition restore_run_budget_state ::
  "(session_budget_policy \<Rightarrow> string) \<Rightarrow> rat \<Rightarrow> rat \<Rightarrow> session_budget_policy \<Rightarrow> trace_event list \<Rightarrow>
    rat option \<Rightarrow> string list option \<Rightarrow> budget_error + session_budget_state" where
  "restore_run_budget_state fingerprint monotonic now pol all_events run_started accepted_fps =
     bind_res (session_budget_state_init pol
       (Finite (monotonic - elapsed_since now all_events run_started)) 0 0 0 0 (decimal_value 0)) (\<lambda>st.
     let events = filter (\<lambda>e. \<not> confirmed_offline_usage e) all_events in
     bind_res (raise_if (policy_has_hard_limits pol \<and>
         list_ex (\<lambda>e. te_event_type e = LLM_USAGE \<and> \<not> has_call_id e) events)
       (Budget_Usage_Uncertain ''legacy_call'' At_Restore [''call_id'', ''budget_reserved''])) (\<lambda>_.
     bind_res (unique_call_events events BUDGET_RESERVED) (\<lambda>reserved.
     bind_res (unique_call_events
       (filter (\<lambda>e. te_event_type e = BUDGET_SETTLED \<and> has_call_id e) events) BUDGET_SETTLED) (\<lambda>terminals.
     let usages = filter (\<lambda>e. te_event_type e = LLM_USAGE \<and> has_call_id e) events in
     bind_res (unique_call_events usages LLM_USAGE) (\<lambda>_.
     let unbudgeted = filter (\<lambda>k. k \<notin> set (dict_keys reserved)) (map (the \<circ> te_call_id) usages) in
     bind_res (raise_if (unbudgeted \<noteq> [])
       (Budget_Usage_Uncertain (hd (sort unbudgeted)) At_Restore [''budget_reserved''])) (\<lambda>_.
     let expected = fingerprint pol;
         accepted = (case accepted_fps of None \<Rightarrow> [expected] | Some fs \<Rightarrow> if fs = [] then [expected] else fs)
     in bind_res (raise_if (expected \<notin> set accepted)
         (Value_Error ''accepted policy fingerprints must include the effective policy.'')) (\<lambda>_.
        fold_res (restore_call monotonic accepted terminals) st reserved)))))))"

section \<open>Runs\<close>

text \<open>
  A run: calls of several threads open and close in any order. \<open>lr_open\<close> holds the calls that
  reached the provider and have not come back. A step that does not fit (a second use of a call
  id, closing a call that is not open) is not taken.
\<close>

datatype ledger_step =
    Open_Call rat rat string llm_request
  | Close_Call rat rat string provider_outcome "result_metadata option" "result_metadata option"

record ledger_run =
  lr_state :: ledger_state
  lr_open :: "(string, llm_request \<times> budget_reservation option) dict"
  lr_seen :: "string list"

definition start_run :: "ledger_client \<Rightarrow> session_budget_state option \<Rightarrow> ledger_run" where
  "start_run c budget = \<lparr>lr_state = ledger_init c budget, lr_open = [], lr_seen = []\<rparr>"

fun ledger_run_step :: "ledger_client \<Rightarrow> ledger_run \<Rightarrow> ledger_step \<Rightarrow> ledger_run" where
  "ledger_run_step c w (Open_Call monotonic now cid q) =
     (if cid \<in> set (lr_seen w) then w
      else (case open_call c monotonic now cid q (lr_state w) of
          (Inl e, s) \<Rightarrow> w\<lparr>lr_state := s, lr_seen := lr_seen w @ [cid]\<rparr>
        | (Inr r, s) \<Rightarrow> w\<lparr>lr_state := s, lr_seen := lr_seen w @ [cid],
            lr_open := dict_set cid (q, r) (lr_open w)\<rparr>))"
| "ledger_run_step c w (Close_Call begun now cid out before after) =
     (case map_of (lr_open w) cid of
        None \<Rightarrow> w
      | Some (q, r) \<Rightarrow> w\<lparr>lr_state := snd (close_call c begun now cid q r out before after (lr_state w)),
          lr_open := dict_del cid (lr_open w)\<rparr>)"

end
