(* ===== verification/LlmLedgerProperties.thy ===== *)
theory LlmLedgerProperties
  imports LlmLedger
begin

text \<open>
  What the ledger of model calls promises. A run and the budget restored from its trace are
  related entry by entry: the trace holds one reservation per call that was admitted, in order,
  and a settlement for each call that came back. A run that stays within its reservations can be
  resumed, with the budget it had; the last section shows what breaks this.
\<close>

section \<open>Reading events back\<close>

lemma dict_get_correlated [simp]:
  "k \<noteq> ''logical_call_id'' \<Longrightarrow> dict_get (correlated q m) k v = dict_get m k v"
  by (simp add: correlated_def dict_get_set split: option.splits)

lemma budget_event_fields [simp]:
  "te_call_id (budget_event c t q b n p r) = Some (call_id r)"
  "te_event_type (budget_event c t q b n p r) = t"
  by (simp_all add: budget_event_def)

lemma usage_event_fields [simp]:
  "te_call_id (usage_event c k q b n st u r f) = Some k"
  "te_event_type (usage_event c k q b n st u r f) = LLM_USAGE"
  by (simp_all add: usage_event_def)

lemma rejected_event_fields [simp]:
  "te_event_type (rejected_event c k q b n e) = BUDGET_REJECTED"
  by (simp add: rejected_event_def)

lemma dict_get_simps [simp]:
  "dict_get [] k v = v"
  "dict_get ((j, x) # d) k v = (if k = j then x else dict_get d k v)"
  by (simp_all add: dict_get_def)

lemma budget_event_amounts:
  "reservation_ok r \<Longrightarrow> summary_amounts (te_summary (budget_event c t q b n p r)) =
     Inr (input_tokens r, output_tokens r, total_tokens r, PyFloat (Finite (cost_usd r)))"
  by (simp add: summary_amounts_def summary_int_def summary_cost_def budget_event_def
      reservation_summary_def reservation_ok_def)

lemma budget_event_values [simp]:
  "dict_get (te_summary (budget_event c t q b n p r)) ''protected'' v = PyBool (protected r)"
  "dict_get (te_summary (budget_event c t q b n p r)) ''status'' v = PyStr (status_name (status r))"
  "dict_get (te_summary (budget_event c t q b n p r)) ''usage_known'' v =
     (case usage_known r of None \<Rightarrow> PyNone | Some b \<Rightarrow> PyBool b)"
  "dict_get (te_summary (budget_event c t q b n p r)) ''policy_fingerprint'' v =
     PyStr (lc_fingerprint c p)"
  by (simp_all add: budget_event_def reservation_summary_def)

lemma budget_event_accepted [simp]:
  "accepted_fingerprint fs (budget_event c t q b n p r) \<longleftrightarrow> lc_fingerprint c p \<in> set fs"
  by (simp add: accepted_fingerprint_def)

lemma not_offline_usage [simp]:
  "t \<noteq> LLM_USAGE \<Longrightarrow> \<not> confirmed_offline_usage (budget_event c t q b n p r)"
  "\<not> confirmed_offline_usage (rejected_event c k q b n e)"
  by (simp_all add: confirmed_offline_usage_def Let_def)

text \<open>The events of a type that carry a call id.\<close>

definition calls_of :: "string \<Rightarrow> trace_event list \<Rightarrow> (string \<times> trace_event) list" where
  "calls_of t es = map (\<lambda>e. (the (te_call_id e), e))
     (filter (\<lambda>e. te_event_type e = t \<and> te_call_id e \<noteq> None) es)"

lemma calls_of_simps [simp]:
  "calls_of t [] = []"
  "calls_of t (xs @ ys) = calls_of t xs @ calls_of t ys"
  "calls_of t (e # es) = (case te_call_id e of
     Some k \<Rightarrow> if te_event_type e = t then (k, e) # calls_of t es else calls_of t es
   | None \<Rightarrow> calls_of t es)"
  by (auto simp: calls_of_def split: option.splits)

lemma calls_of_filter: "calls_of t (filter P es) = filter (\<lambda>p. P (snd p)) (calls_of t es)"
  by (induction es) (auto split: option.splits)

lemma calls_of_typed: "p \<in> set (calls_of t es) \<Longrightarrow> te_event_type (snd p) = t \<and> te_call_id (snd p) = Some (fst p)"
  by (auto simp: calls_of_def)

lemma calls_of_member:
  assumes "e \<in> set es" "te_event_type e = t" "te_call_id e = Some k"
  shows "(k, e) \<in> set (calls_of t es)"
  using assms by (induction es) (auto split: option.split)

lemma calls_of_filter_all:
  "(\<And>e. te_event_type e = t \<Longrightarrow> P e) \<Longrightarrow> calls_of t (filter P es) = calls_of t es"
  using calls_of_typed by (auto simp: calls_of_filter intro!: filter_True)

lemma calls_of_keys_filter:
  "distinct (map fst (calls_of t es)) \<Longrightarrow> distinct (map fst (calls_of t (filter P es)))"
  "set (map fst (calls_of t (filter P es))) \<subseteq> set (map fst (calls_of t es))"
  unfolding calls_of_filter by (auto simp: distinct_map_filter)

lemma index_calls:
  assumes "distinct (map fst (d @ calls_of t es))"
  shows "fold_res (index_call t) d es = Inr (d @ calls_of t es)"
  using assms
proof (induction es arbitrary: d)
  case (Cons e es)
  show ?case
  proof (cases "te_call_id e")
    case (Some k)
    show ?thesis
    proof (cases "te_event_type e = t")
      case True
      have "k \<notin> set (dict_keys d)" using Cons.prems Some True by auto
      then have "map_of d k = None" "dict_set k e d = d @ [(k, e)]"
        by (simp_all add: map_of_None_keys dict_set_new)
      then show ?thesis
        using Cons.IH[of "d @ [(k, e)]"] Cons.prems Some True by (simp add: index_call_def)
    qed (use Cons Some in \<open>simp add: index_call_def\<close>)
  qed (use Cons in \<open>simp add: index_call_def\<close>)
qed simp

lemma unique_calls:
  "distinct (map fst (calls_of t es)) \<Longrightarrow> unique_call_events es t = Inr (calls_of t es)"
  using index_calls[of "[]" t es] by (simp add: unique_call_events_def)

section \<open>Restoring one call\<close>

lemma enforce_used_ok:
  assumes "ledger_ok base st" "within_caps st"
  shows "enforce_used st cid = Inr ()"
  unfolding enforce_used_Inr_iff
proof
  fix d
  show "fits st False d (used_amount st d) (ordinary_used st d + ordinary_active st d)"
    using ledger_ok_active_nonneg[OF assms(1), of d]
    by (intro fits_mono[OF assms(2)[unfolded within_caps_def, rule_format, of d]]) simp_all
qed

text \<open>A reservation as it stands in the trace, and a call that came back within it.\<close>

definition fresh_reservation :: "string \<Rightarrow> budget_reservation \<Rightarrow> bool" where
  "fresh_reservation k r \<longleftrightarrow> call_id r = k \<and> status r = Reserved \<and> usage_known r = None \<and>
     reservation_ok r \<and> py_strip k \<noteq> []"

definition came_back :: "budget_reservation \<Rightarrow> budget_reservation \<Rightarrow> bool" where
  "came_back r x \<longleftrightarrow> call_id x = call_id r \<and> protected x = protected r \<and> reservation_ok x \<and>
     (status x = Settled \<and> usage_known x = Some True \<and>
        (\<forall>d. reservable_value x d \<le> reservable_value r d) \<or>
      x = r\<lparr>status := Uncertain, usage_known := Some False\<rparr>)"

lemma came_backD:
  assumes "came_back r x"
  shows "call_id x = call_id r" "protected x = protected r" "reservation_ok x"
    "status x \<in> {Settled, Uncertain}" "reservable_value x d \<le> reservable_value r d"
    "ordinary d x \<le> ordinary d r"
proof -
  have "reservable_value (r\<lparr>status := Uncertain, usage_known := Some False\<rparr>) d = reservable_value r d"
    by (cases d) simp_all
  then show le: "reservable_value x d \<le> reservable_value r d"
    using assms by (auto simp: came_back_def)
  show "call_id x = call_id r" "protected x = protected r" "reservation_ok x"
    "status x \<in> {Settled, Uncertain}"
    using assms by (auto simp: came_back_def)
  then show "ordinary d x \<le> ordinary d r" using le by (simp add: ordinary_def)
qed

text \<open>What a call is charged: what it used when it came back, otherwise its reservation.\<close>

definition charge :: "budget_reservation \<Rightarrow> budget_reservation option \<Rightarrow> budget_reservation" where
  "charge r f = (case f of None \<Rightarrow> r | Some x \<Rightarrow> x)"

lemma finish_amounts:
  assumes "ledger_ok base st" "map_of (active st) cid = Some r" "came_back r x" "call_id r = cid"
    "within_caps st"
  shows "ledger_ok base (finish_call cid x (consume x st))"
    and "within_caps (finish_call cid x (consume x st))"
    and "used_amount (finish_call cid x (consume x st)) d = used_amount st d + reservable_value x d"
    and "active_amount (finish_call cid x (consume x st)) d = active_amount st d - reservable_value r d"
    and "ordinary_used (finish_call cid x (consume x st)) d = ordinary_used st d + ordinary d x"
    and "ordinary_active (finish_call cid x (consume x st)) d = ordinary_active st d - ordinary d r"
proof -
  note x = came_backD[OF assms(3)]
  show "ledger_ok base (finish_call cid x (consume x st))"
    by (rule complete_ledger_ok[OF assms(1,2)]) (use x assms(4) in \<open>auto simp: spent_def\<close>)
  show "within_caps (finish_call cid x (consume x st))"
    by (rule finish_within_caps[OF assms(1,5,2)]) (use x in auto)
  show "used_amount (finish_call cid x (consume x st)) d = used_amount st d + reservable_value x d"
    "active_amount (finish_call cid x (consume x st)) d = active_amount st d - reservable_value r d"
    "ordinary_used (finish_call cid x (consume x st)) d = ordinary_used st d + ordinary d x"
    "ordinary_active (finish_call cid x (consume x st)) d = ordinary_active st d - ordinary d r"
    using ledger_ok_consume_amounts[OF assms(1,2), of x d] x(2,4) by auto
qed

lemma money_finite [simp]: "0 \<le> q \<Longrightarrow> money n (PyFloat (Finite q)) = Inr q"
  by (simp add: money_def)

lemma reserve_again:
  assumes "active st = []" "k \<notin> fst ` set (completed st)" "check_wall_time monotonic None st = Inr ()"
    and r: "fresh_reservation k r"
    and fit: "\<And>d. fits st (protected r) d (used_amount st d + reservable_value r d)
      (ordinary_used st d + ordinary d r)"
  shows "reserve monotonic k (input_tokens r) (output_tokens r) (Some (total_tokens r))
     (Some (PyFloat (Finite (cost_usd r)))) (protected r) None st = (Inr r, st\<lparr>active := [(k, r)]\<rparr>)"
proof -
  have req: "requested_reservation monotonic k (input_tokens r) (output_tokens r) (Some (total_tokens r))
     (Some (PyFloat (Finite (cost_usd r)))) (protected r) None st = Inr r"
    using assms(1-4) by (auto simp: requested_reservation_def validate_limit_def
        fresh_reservation_def reservation_ok_def Let_def simp del: py_strip_Nil_iff)
  have "active_amount st d = 0" "ordinary_active st d = 0" for d
    by (simp_all add: active_amount_def ordinary_active_def assms(1))
  then have "enforce st (projected_amounts st r) (nonprotected_projected st r) (protected r) k = Inr ()"
    using fit by (simp add: enforce_Inr_iff)
  with req show ?thesis by (simp add: reserve_def assms(1))
qed

lemma settle_again:
  assumes "map_of (active st) k = Some r" "came_back r x" "status x = Settled" "call_id r = k"
    "ledger_ok base st" "within_caps st"
  shows "settle k (Some (input_tokens x)) (Some (output_tokens x)) (Some (total_tokens x))
     (Some (PyFloat (Finite (cost_usd x)))) st = (Inr x, finish_call k x (consume x st))"
proof -
  have "settled_reservation k (Some (input_tokens x)) (Some (output_tokens x)) (Some (total_tokens x))
     (Some (PyFloat (Finite (cost_usd x)))) st = Inr x"
    using assms(1-4) by (auto simp: settled_reservation_def get_active_def usage_or_reserved_def
        missing_usage_def validate_limit_def came_back_def reservation_ok_def Let_def)
  moreover have "enforce_used (finish_call k x (consume x st)) k = Inr ()"
    using enforce_used_ok finish_amounts(1,2)[OF assms(5,1,2,4,6)] by blast
  ultimately show ?thesis by (simp add: settle_def)
qed

lemma uncertain_again:
  "map_of (active st) k = Some r \<Longrightarrow> mark_uncertain k st =
     (Inr (r\<lparr>status := Uncertain, usage_known := Some False\<rparr>),
      finish_call k (r\<lparr>status := Uncertain, usage_known := Some False\<rparr>)
        (consume (r\<lparr>status := Uncertain, usage_known := Some False\<rparr>) st))"
  by (simp add: mark_uncertain_def get_active_def Let_def)

text \<open>The settlement the trace holds for a call.\<close>

definition terminal_in ::
  "ledger_client \<Rightarrow> session_budget_policy \<Rightarrow> (string, trace_event) dict \<Rightarrow> string \<Rightarrow>
    budget_reservation option \<Rightarrow> bool" where
  "terminal_in c p ts k f = (case f of
     None \<Rightarrow> map_of ts k = None
   | Some x \<Rightarrow> \<exists>q b n. map_of ts k = Some (budget_event c BUDGET_SETTLED q b n p x))"

lemma finish_keeps_start: "started_at (finish_call k x (consume x st)) = started_at st"
  by (simp add: finish_call_def consume_def)

lemma restore_entry:
  assumes ok: "ledger_ok base st" "within_caps st" "active st = []"
    and new: "k \<notin> fst ` set (completed st)" "check_wall_time monotonic None st = Inr ()"
    and r: "fresh_reservation k r" "\<And>x. f = Some x \<Longrightarrow> came_back r x"
    and fit: "\<And>d. fits st (protected r) d (used_amount st d + reservable_value r d)
      (ordinary_used st d + ordinary d r)"
    and ev: "lc_fingerprint c p \<in> set fs" "terminal_in c p ts k f"
  obtains st' where
    "restore_call monotonic fs ts st (k, budget_event c BUDGET_RESERVED q b n p r) = Inr st'"
    "ledger_ok base st'" "within_caps st'" "active st' = []" "policy st' = policy st \<and> started_at st' = started_at st"
    "fst ` set (completed st') = insert k (fst ` set (completed st))"
    "\<And>d. used_amount st' d = used_amount st d + reservable_value (charge r f) d"
    "\<And>d. ordinary_used st' d = ordinary_used st d + ordinary d (charge r f)"
proof -
  let ?st1 = "st\<lparr>active := [(k, r)]\<rparr>"
  let ?u = "r\<lparr>status := Uncertain, usage_known := Some False\<rparr>"
  note res = reserve_again[OF ok(3) new r(1) fit]
  have rok: "reservation_ok r" "call_id r = k" using r(1) by (auto simp: fresh_reservation_def)
  have st1: "ledger_ok base ?st1" "within_caps ?st1" "map_of (active ?st1) k = Some r"
    using reserve_ledger_ok[OF ok(1)] reserve_within_caps[OF ok(2)] res by (metis snd_conv, metis snd_conv, simp)
  define x where "x = (case f of None \<Rightarrow> ?u | Some x \<Rightarrow> x)"
  have u: "came_back r ?u" using rok by (simp add: came_back_def reservation_ok_def)
  have x: "came_back r x" using r(2) u by (simp add: x_def split: option.split)
  have charged: "reservable_value x d = reservable_value (charge r f) d"
    "ordinary d x = ordinary d (charge r f)" for d
    by (cases d; simp add: x_def charge_def ordinary_def split: option.split)+
  have "restore_call monotonic fs ts st (k, budget_event c BUDGET_RESERVED q b n p r) =
      Inr (finish_call k x (consume x ?st1))"
  proof (cases f)
    case None
    with ev res uncertain_again[OF st1(3)] show ?thesis
      by (simp add: restore_call_def Let_def terminal_in_def budget_event_amounts[OF rok(1)] x_def py_truthy_def)
  next
    case (Some y)
    then obtain q' b' n' where y: "map_of ts k = Some (budget_event c BUDGET_SETTLED q' b' n' p y)"
      using ev(2) by (auto simp: terminal_in_def)
    have cb: "came_back r y" using r(2) Some by blast
    show ?thesis
    proof (cases "status y = Uncertain")
      case True
      with cb have "y = ?u" by (auto simp: came_back_def)
      with ev y Some True res uncertain_again[OF st1(3)] show ?thesis
        by (simp add: restore_call_def Let_def budget_event_amounts[OF rok(1)] x_def py_truthy_def)
    next
      case False
      with cb have "status y = Settled" "usage_known y = Some True" "reservation_ok y"
        by (auto simp: came_back_def)
      with ev y Some False res settle_again[OF st1(3) cb _ rok(2) st1(1,2)] show ?thesis
        by (simp add: restore_call_def Let_def budget_event_amounts[OF rok(1)]
            budget_event_amounts[of y] x_def py_truthy_def)
    qed
  qed
  moreover note fin = finish_amounts[OF st1(1,3) x rok(2) st1(2)]
  moreover have "ordinary_used ?st1 d = ordinary_used st d" for d by (simp add: ordinary_used_def)
  ultimately show thesis
    by (intro that[of "finish_call k x (consume x ?st1)"]) (simp_all add: charged finish_keeps_start)
qed

section \<open>Restoring a whole run\<close>

text \<open>
  The calls of a run in the order they were admitted: id, reservation, and what came back.
  They are admissible when each fits beside the charges of the calls before it.
\<close>

type_synonym ledger_entry = "string \<times> budget_reservation \<times> budget_reservation option"

definition entry_charge :: "ledger_entry \<Rightarrow> budget_reservation" where
  "entry_charge e = (case e of (k, r, f) \<Rightarrow> charge r f)"

fun admitted ::
  "session_budget_state \<Rightarrow> (reservable \<Rightarrow> rat) \<Rightarrow> (reservable \<Rightarrow> rat) \<Rightarrow> ledger_entry list \<Rightarrow> bool" where
  "admitted st used ordn [] = True"
| "admitted st used ordn (e # es) =
     ((\<forall>d. fits st (protected (fst (snd e))) d (used d + reservable_value (fst (snd e)) d)
        (ordn d + ordinary d (fst (snd e)))) \<and>
      admitted st (\<lambda>d. used d + reservable_value (entry_charge e) d)
        (\<lambda>d. ordn d + ordinary d (entry_charge e)) es)"

definition charged :: "reservable \<Rightarrow> ledger_entry list \<Rightarrow> rat" where
  "charged d es = sum_list (map (\<lambda>e. reservable_value (entry_charge e) d) es)"

definition ordinary_charged :: "reservable \<Rightarrow> ledger_entry list \<Rightarrow> rat" where
  "ordinary_charged d es = sum_list (map (\<lambda>e. ordinary d (entry_charge e)) es)"

lemma charged_simps [simp]:
  "charged d [] = 0" "charged d (e # es) = reservable_value (entry_charge e) d + charged d es"
  "charged d (xs @ ys) = charged d xs + charged d ys"
  "ordinary_charged d [] = 0"
  "ordinary_charged d (e # es) = ordinary d (entry_charge e) + ordinary_charged d es"
  "ordinary_charged d (xs @ ys) = ordinary_charged d xs + ordinary_charged d ys"
  by (simp_all add: charged_def ordinary_charged_def)

lemma admitted_mono:
  "admitted st u v es \<Longrightarrow> policy st' = policy st \<Longrightarrow> (\<And>d. u' d \<le> u d) \<Longrightarrow> (\<And>d. v' d \<le> v d) \<Longrightarrow>
     admitted st' u' v' es"
proof (induction es arbitrary: u v u' v')
  case (Cons e es)
  have "fits st' (protected (fst (snd e))) d (u' d + reservable_value (fst (snd e)) d)
      (v' d + ordinary d (fst (snd e)))" for d
    using Cons.prems(1) Cons.prems(3,4)[of d]
    by (intro fits_mono[OF _ _ _ Cons.prems(2), of "protected (fst (snd e))" d
          "u d + reservable_value (fst (snd e)) d" "v d + ordinary d (fst (snd e))"]) simp_all
  moreover have "admitted st' (\<lambda>d. u' d + reservable_value (entry_charge e) d)
      (\<lambda>d. v' d + ordinary d (entry_charge e)) es"
    using Cons.prems by (intro Cons.IH[where u = "\<lambda>d. u d + reservable_value (entry_charge e) d"
          and v = "\<lambda>d. v d + ordinary d (entry_charge e)"]) simp_all
  ultimately show ?case by simp
qed simp

lemma admitted_append:
  "admitted st u v (xs @ ys) \<longleftrightarrow> admitted st u v xs \<and>
     admitted st (\<lambda>d. u d + charged d xs) (\<lambda>d. v d + ordinary_charged d xs) ys"
  by (induction xs arbitrary: u v) (simp_all add: add.assoc)

text \<open>A call that comes back within its reservation leaves the calls after it admissible.\<close>

lemma admitted_came_back:
  assumes "admitted st u v (xs @ (k, r, None) # ys)" "came_back r x"
  shows "admitted st u v (xs @ (k, r, Some x) # ys)"
proof -
  note le = came_backD(5,6)[OF assms(2)]
  from assms(1) have a: "admitted st u v xs"
    "\<forall>d. fits st (protected r) d (u d + charged d xs + reservable_value r d)
       (v d + ordinary_charged d xs + ordinary d r)"
    "admitted st (\<lambda>d. u d + charged d xs + reservable_value r d)
       (\<lambda>d. v d + ordinary_charged d xs + ordinary d r) ys"
    by (simp_all add: admitted_append entry_charge_def charge_def)
  have "admitted st (\<lambda>d. u d + charged d xs + reservable_value x d)
       (\<lambda>d. v d + ordinary_charged d xs + ordinary d x) ys"
    by (rule admitted_mono[OF a(3)]) (use le in simp_all)
  with a(1,2) show ?thesis by (simp add: admitted_append entry_charge_def charge_def)
qed

definition sound_entry ::
  "ledger_client \<Rightarrow> session_budget_policy \<Rightarrow> (string, trace_event) dict \<Rightarrow> ledger_entry \<Rightarrow> bool" where
  "sound_entry c p ts e = (case e of (k, r, f) \<Rightarrow>
     fresh_reservation k r \<and> (case f of None \<Rightarrow> True | Some x \<Rightarrow> came_back r x) \<and> terminal_in c p ts k f)"

definition reserved_as :: "ledger_client \<Rightarrow> session_budget_policy \<Rightarrow> ledger_entry \<Rightarrow> string \<times> trace_event \<Rightarrow> bool" where
  "reserved_as c p e ev = (\<exists>q b n. ev = (fst e, budget_event c BUDGET_RESERVED q b n p (fst (snd e))))"

lemma check_wall_time_same:
  "policy st' = policy st \<and> started_at st' = started_at st \<Longrightarrow> check_wall_time m n st' = check_wall_time m n st"
  by (simp add: check_wall_time_def)

lemma restore_entries:
  assumes "list_all2 (reserved_as c p) es evs" "list_all (sound_entry c p ts) es"
    "distinct (map fst es)" "lc_fingerprint c p \<in> set fs"
    "ledger_ok base st" "within_caps st" "active st = []" "check_wall_time monotonic None st = Inr ()"
    "fst ` set es \<inter> fst ` set (completed st) = {}"
    "admitted st (used_amount st) (ordinary_used st) es"
  shows "\<exists>st'. fold_res (restore_call monotonic fs ts) st evs = Inr st' \<and> active st' = [] \<and>
     (\<forall>d. used_amount st' d = used_amount st d + charged d es \<and>
        ordinary_used st' d = ordinary_used st d + ordinary_charged d es)"
  using assms(1-3,5-)
proof (induction es evs arbitrary: st rule: list_all2_induct)
  case Nil
  then show ?case by simp
next
  case (Cons e es ev evs)
  obtain k r f where e: "e = (k, r, f)" by (cases e)
  from Cons.hyps(1) e obtain q b n where ev: "ev = (k, budget_event c BUDGET_RESERVED q b n p r)"
    by (auto simp: reserved_as_def)
  from Cons.prems(1) e have snd_e: "fresh_reservation k r" "\<And>x. f = Some x \<Longrightarrow> came_back r x"
    "terminal_in c p ts k f"
    by (auto simp: sound_entry_def)
  obtain st1 where st1: "restore_call monotonic fs ts st ev = Inr st1"
    "ledger_ok base st1" "within_caps st1" "active st1 = []" "policy st1 = policy st \<and> started_at st1 = started_at st"
    "fst ` set (completed st1) = insert k (fst ` set (completed st))"
    "\<And>d. used_amount st1 d = used_amount st d + reservable_value (charge r f) d"
    "\<And>d. ordinary_used st1 d = ordinary_used st d + ordinary d (charge r f)"
    unfolding ev
  proof (rule restore_entry[where st = st and k = k and r = r and f = f, OF Cons.prems(3-5)])
    show "k \<notin> fst ` set (completed st)" using Cons.prems(7) e by auto
    show "fits st (protected r) d (used_amount st d + reservable_value r d)
        (ordinary_used st d + ordinary d r)" for d
      using Cons.prems(8) e by simp
  qed (use Cons.prems(6) snd_e assms(4) in auto)
  have "admitted st1 (used_amount st1) (ordinary_used st1) es"
    using Cons.prems(8) e st1(5,7,8) by (auto intro: admitted_mono simp: entry_charge_def)
  moreover have "fst ` set es \<inter> fst ` set (completed st1) = {}"
    using Cons.prems(2,7) e st1(6) by auto
  ultimately obtain st' where "fold_res (restore_call monotonic fs ts) st1 evs = Inr st'"
    "active st' = []" "\<forall>d. used_amount st' d = used_amount st1 d + charged d es \<and>
      ordinary_used st' d = ordinary_used st1 d + ordinary_charged d es"
    using Cons.IH[OF _ _ st1(2-4)] Cons.prems(1,2,6) check_wall_time_same[OF st1(5)] by auto
  then show ?case using st1(1,7,8) e by (simp add: entry_charge_def add.assoc)
qed

section \<open>The run and its trace\<close>

text \<open>
  A sound client: online, and its sink takes every event. A call is honest when the provider
  served it and, if it reported usage, the usage is well-formed, within the reservation and priced.
\<close>

definition sound_client :: "ledger_client \<Rightarrow> bool" where
  "sound_client c \<longleftrightarrow> \<not> lc_offline c \<and> lc_sink c = (\<lambda>es e. True)"

definition honest_usage :: "ledger_client \<Rightarrow> budget_reservation \<Rightarrow> result_metadata option \<Rightarrow> bool" where
  "honest_usage c r usage = (case usage of
     None \<Rightarrow> True
   | Some u \<Rightarrow> if \<not> rm_usage_reported u then True
       else 0 \<le> us_prompt_tokens (rm_usage u) \<and> us_prompt_tokens (rm_usage u) \<le> input_tokens r \<and>
         0 \<le> us_completion_tokens (rm_usage u) \<and> us_completion_tokens (rm_usage u) \<le> output_tokens r \<and>
         us_prompt_tokens (rm_usage u) + us_completion_tokens (rm_usage u) \<le> us_total_tokens (rm_usage u) \<and>
         us_total_tokens (rm_usage u) \<le> total_tokens r \<and>
         (case settlement_cost c u of None \<Rightarrow> False
          | Some v \<Rightarrow> (case money ''cost_usd'' v of Inl e \<Rightarrow> False | Inr m \<Rightarrow> m \<le> cost_usd r)))"

fun honest_call :: "ledger_client \<Rightarrow> ledger_run \<Rightarrow> ledger_step \<Rightarrow> bool" where
  "honest_call c w (Open_Call monotonic now cid q) = True"
| "honest_call c w (Close_Call begun now cid out before after) = (case map_of (lr_open w) cid of
     Some (q, Some r) \<Rightarrow> \<not> unserved out \<and> honest_usage c r (fresh_usage out before after)
   | _ \<Rightarrow> True)"

fun honest_calls :: "ledger_client \<Rightarrow> ledger_run \<Rightarrow> ledger_step list \<Rightarrow> bool" where
  "honest_calls c w [] = True"
| "honest_calls c w (x # xs) = (honest_call c w x \<and> honest_calls c (ledger_run_step c w x) xs)"

lemma reserve_capacity_cases:
  assumes "reserve_capacity c monotonic cid q st = (res, st1)"
  obtains e where "res = Inl e" "st1 = st"
  | r where "res = Inr r" "st1 = st\<lparr>active := active st @ [(cid, r)]\<rparr>" "fresh_reservation cid r"
    "cid \<notin> fst ` set (active st)"
    "\<And>d. fits st (protected r) d (used_amount st d + active_amount st d + reservable_value r d)
       (ordinary_used st d + ordinary_active st d + ordinary d r)"
proof (cases res)
  case (Inl e)
  with assms have "st1 = st"
    by (auto simp: reserve_capacity_def Let_def split: if_splits dest: reserve_raises)
  with Inl show thesis by (rule that(1))
next
  case (Inr r)
  with assms obtain i out cost prot where r:
    "reserve monotonic cid i out None cost prot None st = (Inr r, st1)"
    by (auto simp: reserve_capacity_def Let_def split: if_splits)
  note ok = reserve_succeeds[OF r] and d = requested_reservationD[OF reserve_succeeds(1)[OF r]]
  have "usage_known r = None" "py_strip cid \<noteq> []"
    using ok(1) by (auto simp: requested_reservation_def Let_def res_simps simp del: py_strip_Nil_iff
        split: option.splits)
  with d have "fresh_reservation cid r" by (simp add: fresh_reservation_def)
  with Inr ok(2,3) d(1,5) show thesis by (intro that(2)) auto
qed

lemma settle_call_honest:
  assumes "ledger_ok base st" "within_caps st" "map_of (active st) k = Some r" "call_id r = k"
    "honest_usage c r usage"
  obtains x where "settle_call c r usage False st = (Inr (Some x), finish_call k x (consume x st))"
    "came_back r x"
proof (cases "case usage of None \<Rightarrow> False | Some u \<Rightarrow> rm_usage_reported u")
  case False
  have "came_back r (r\<lparr>status := Uncertain, usage_known := Some False\<rparr>)"
    using ledger_ok_activeD(3)[OF assms(1,3)] by (simp add: came_back_def reservation_ok_def)
  moreover have "settle_call c r usage False st = (Inr (Some (r\<lparr>status := Uncertain, usage_known := Some False\<rparr>)),
      finish_call k (r\<lparr>status := Uncertain, usage_known := Some False\<rparr>)
        (consume (r\<lparr>status := Uncertain, usage_known := Some False\<rparr>) st))"
    using False uncertain_again[OF assms(3)] assms(4) by (simp add: settle_call_def)
  ultimately show thesis by (intro that)
next
  case True
  then obtain u where u: "usage = Some u" "rm_usage_reported u" by (cases usage) auto
  obtain v m where v: "settlement_cost c u = Some v" "money ''cost_usd'' v = Inr m" "m \<le> cost_usd r"
    using assms(5) u by (auto simp: honest_usage_def split: option.splits sum.splits)
  let ?p = "us_prompt_tokens (rm_usage u)" and ?o = "us_completion_tokens (rm_usage u)"
    and ?t = "us_total_tokens (rm_usage u)"
  have amounts: "0 \<le> ?p" "?p \<le> input_tokens r" "0 \<le> ?o" "?o \<le> output_tokens r" "?p + ?o \<le> ?t"
    "?t \<le> total_tokens r"
    using assms(5) u by (simp_all add: honest_usage_def)
  define x where "x = \<lparr>call_id = k, input_tokens = ?p, output_tokens = ?o, total_tokens = ?t, cost_usd = m,
    protected = protected r, status = Settled, usage_known = Some True\<rparr>"
  have "reservable_value x d \<le> reservable_value r d" for d
    using amounts v(3) by (cases d) (simp_all add: x_def)
  then have x: "came_back r x"
    using amounts money_nonneg[OF v(2)] assms(4) by (simp add: came_back_def x_def reservation_ok_def)
  have "settled_reservation k (Some ?p) (Some ?o) (Some ?t) (Some v) st = Inr x"
    using assms(3) amounts v(2) by (simp add: settled_reservation_def get_active_def usage_or_reserved_def
        missing_usage_def validate_limit_def Let_def x_def)
  moreover have "enforce_used (finish_call k x (consume x st)) k = Inr ()"
    using enforce_used_ok finish_amounts(1,2)[OF assms(1,3) x assms(4,2)] by blast
  ultimately have "settle k (Some ?p) (Some ?o) (Some ?t) (Some v) st = (Inr x, finish_call k x (consume x st))"
    by (simp add: settle_def)
  then show thesis using x u v(1) assms(4) by (intro that) (simp_all add: settle_call_def Let_def)
qed

text \<open>The relation between a run, its budget, its admitted calls and its trace.\<close>

definition run_matches ::
  "ledger_client \<Rightarrow> session_budget_policy \<Rightarrow> ledger_run \<Rightarrow> session_budget_state \<Rightarrow> ledger_entry list \<Rightarrow> bool" where
  "run_matches c p w st es \<longleftrightarrow>
     lg_budget (lr_state w) = Some st \<and> policy st = p \<and> ledger_ok (\<lambda>d. 0) st \<and> within_caps st \<and>
     distinct (map fst es) \<and> set (map fst es) \<subseteq> set (lr_seen w) \<and>
     (\<forall>k r f. (k, r, f) \<in> set es \<longrightarrow> fresh_reservation k r \<and>
        (case f of None \<Rightarrow> map_of (active st) k = Some r | Some x \<Rightarrow> came_back r x)) \<and>
     (\<forall>k q f. map_of (lr_open w) k = Some (q, f) \<longrightarrow> (\<exists>r. f = Some r \<and> (k, r, None) \<in> set es)) \<and>
     (\<forall>d. used_amount st d + active_amount st d = charged d es \<and>
        ordinary_used st d + ordinary_active st d = ordinary_charged d es) \<and>
     admitted st (\<lambda>d. 0) (\<lambda>d. 0) es"

definition trace_matches ::
  "ledger_client \<Rightarrow> session_budget_policy \<Rightarrow> trace_event list \<Rightarrow> ledger_entry list \<Rightarrow> bool" where
  "trace_matches c p es entries \<longleftrightarrow>
     list_all2 (reserved_as c p) entries (calls_of BUDGET_RESERVED es) \<and>
     (\<forall>k r f. (k, r, f) \<in> set entries \<longrightarrow> terminal_in c p (calls_of BUDGET_SETTLED es) k f) \<and>
     distinct (map fst (calls_of BUDGET_SETTLED es)) \<and>
     fst ` set (calls_of BUDGET_SETTLED es) \<subseteq> fst ` set entries \<and>
     distinct (map fst (calls_of LLM_USAGE es)) \<and>
     (\<forall>k \<in> fst ` set (calls_of LLM_USAGE es). \<exists>r x. (k, r, Some x) \<in> set entries) \<and>
     (\<forall>e \<in> set es. te_event_type e = LLM_USAGE \<longrightarrow> has_call_id e)"

lemma trace_rejected:
  "trace_matches c p es entries \<Longrightarrow> trace_matches c p (es @ [rejected_event c k q b n e]) entries"
  by (auto simp: trace_matches_def split: option.splits)

lemma trace_reserved:
  assumes "trace_matches c p es entries" "call_id r = k" "k \<notin> fst ` set entries"
  shows "trace_matches c p (es @ [budget_event c BUDGET_RESERVED q b n p r]) (entries @ [(k, r, None)])"
proof -
  have "reserved_as c p (k, r, None) (k, budget_event c BUDGET_RESERVED q b n p r)"
    by (auto simp: reserved_as_def)
  moreover have "map_of (calls_of BUDGET_SETTLED es) k = None"
    using assms(1,3) unfolding trace_matches_def map_of_None_keys by blast
  ultimately show ?thesis
    using assms(1,2) unfolding trace_matches_def
    by (auto simp: list_all2_appendI terminal_in_def)
qed

lemma trace_closed:
  assumes "trace_matches c p es (xs @ (k, r, None) # ys)" "call_id x = k" "k \<noteq> []"
    "distinct (map fst (xs @ (k, r, None) # ys))"
  shows "trace_matches c p
    (es @ [usage_event c k q b n stt u rr ff, budget_event c BUDGET_SETTLED q' b' n' p x])
    (xs @ (k, r, Some x) # ys)"
proof -
  let ?E = "xs @ (k, r, None) # ys" and ?F = "xs @ (k, r, Some x) # ys"
  let ?S = "calls_of BUDGET_SETTLED es" and ?e = "budget_event c BUDGET_SETTLED q' b' n' p x"
  note t = assms(1)[unfolded trace_matches_def]
  have terminals: "terminal_in c p ?S k' f'" if "(k', r', f') \<in> set ?E" for k' r' f'
    using t that by blast
  have none: "map_of ?S k = None" using terminals[of k r None] by (simp add: terminal_in_def)
  have "k \<notin> fst ` set xs" "k \<notin> fst ` set ys" using assms(4) by simp_all
  then have others: "k' \<noteq> k" if "(k', r', f') \<in> set xs \<union> set ys" for k' r' f'
    using that by (metis Un_iff fst_conv image_eqI)
  have same: "terminal_in c p (?S @ [(k, ?e)]) k' f'"
    if "(k', r', f') \<in> set xs \<union> set ys" for k' r' f'
  proof -
    have "terminal_in c p ?S k' f'" using that by (intro terminals[of k' r']) auto
    moreover have "map_of (?S @ [(k, ?e)]) k' = map_of ?S k'"
      using others[OF that] by (simp add: map_add_def split: option.split)
    ultimately show ?thesis by (simp only: terminal_in_def)
  qed
  have last: "terminal_in c p (?S @ [(k, ?e)]) k (Some x)"
    using none by (auto simp: terminal_in_def map_add_def)
  have fresh: "k \<notin> fst ` set (calls_of LLM_USAGE es)"
  proof
    assume "k \<in> fst ` set (calls_of LLM_USAGE es)"
    then obtain r' y where "(k, r', Some y) \<in> set ?E" using t by blast
    then have "(k, r', Some y) \<in> set xs \<union> set ys" by auto
    then show False using others by blast
  qed
  have 1: "list_all2 (reserved_as c p) ?F (calls_of BUDGET_RESERVED es)"
  proof -
    obtain as b bs where split: "calls_of BUDGET_RESERVED es = as @ b # bs" "list_all2 (reserved_as c p) xs as"
      "reserved_as c p (k, r, None) b" "list_all2 (reserved_as c p) ys bs"
      using t by (auto simp: list_all2_append1 list_all2_Cons1)
    moreover have "reserved_as c p (k, r, Some x) b" using split(3) by (simp add: reserved_as_def)
    ultimately show ?thesis by (simp add: list_all2_appendI)
  qed
  have 2: "\<forall>k' r' f'. (k', r', f') \<in> set ?F \<longrightarrow> terminal_in c p (?S @ [(k, ?e)]) k' f'"
    using same last by auto
  have 3: "distinct (map fst (?S @ [(k, ?e)]))" "fst ` set (?S @ [(k, ?e)]) \<subseteq> fst ` set ?F"
    using t none by (auto simp: map_of_None_keys)
  have 4: "\<forall>k' \<in> insert k (fst ` set (calls_of LLM_USAGE es)). \<exists>r' y. (k', r', Some y) \<in> set ?F"
  proof
    fix k' assume k': "k' \<in> insert k (fst ` set (calls_of LLM_USAGE es))"
    show "\<exists>r' y. (k', r', Some y) \<in> set ?F"
    proof (cases "k' = k")
      case False
      with k' obtain r' y where "(k', r', Some y) \<in> set ?E" using t by blast
      then show ?thesis by auto
    qed auto
  qed
  have 5: "distinct (map fst (calls_of LLM_USAGE es @ [(k, usage_event c k q b n stt u rr ff)]))"
    using t fresh by simp
  have 6: "has_call_id (usage_event c k q b n stt u rr ff)" using assms(3) by (simp add: has_call_id_def)
  let ?es = "es @ [usage_event c k q b n stt u rr ff, ?e]"
  have calls: "calls_of BUDGET_RESERVED ?es = calls_of BUDGET_RESERVED es"
    "calls_of BUDGET_SETTLED ?es = ?S @ [(k, ?e)]"
    "calls_of LLM_USAGE ?es = calls_of LLM_USAGE es @ [(k, usage_event c k q b n stt u rr ff)]"
    using assms(2) by simp_all
  have 7: "\<forall>e \<in> set ?es. te_event_type e = LLM_USAGE \<longrightarrow> has_call_id e"
  proof
    fix e assume "e \<in> set ?es"
    then consider "e \<in> set es" | "e = usage_event c k q b n stt u rr ff" | "e = ?e" by auto
    then show "te_event_type e = LLM_USAGE \<longrightarrow> has_call_id e" using t 6 by cases auto
  qed
  have 8: "fst ` set (calls_of LLM_USAGE es @ [(k, usage_event c k q b n stt u rr ff)]) =
    insert k (fst ` set (calls_of LLM_USAGE es))" by simp
  show ?thesis unfolding trace_matches_def calls 8 by (intro conjI 1 2 3 4 5 7)
qed

lemma run_matchesD:
  assumes "run_matches c p w st es"
  shows "lg_budget (lr_state w) = Some st" "policy st = p" "ledger_ok (\<lambda>d. 0) st" "within_caps st"
    "distinct (map fst es)" "set (map fst es) \<subseteq> set (lr_seen w)"
    "(k, r, f) \<in> set es \<Longrightarrow> fresh_reservation k r"
    "(k, r, None) \<in> set es \<Longrightarrow> map_of (active st) k = Some r"
    "(k, r, Some x) \<in> set es \<Longrightarrow> came_back r x"
    "map_of (lr_open w) k = Some (q, g) \<Longrightarrow> \<exists>r. g = Some r \<and> (k, r, None) \<in> set es"
    "used_amount st d + active_amount st d = charged d es"
    "ordinary_used st d + ordinary_active st d = ordinary_charged d es"
    "admitted st (\<lambda>d. 0) (\<lambda>d. 0) es"
proof -
  note m = assms[unfolded run_matches_def]
  show "lg_budget (lr_state w) = Some st" "policy st = p" "ledger_ok (\<lambda>d. 0) st" "within_caps st"
    "distinct (map fst es)" "set (map fst es) \<subseteq> set (lr_seen w)"
    "(k, r, f) \<in> set es \<Longrightarrow> fresh_reservation k r"
    "map_of (lr_open w) k = Some (q, g) \<Longrightarrow> \<exists>r. g = Some r \<and> (k, r, None) \<in> set es"
    "used_amount st d + active_amount st d = charged d es"
    "ordinary_used st d + ordinary_active st d = ordinary_charged d es"
    "admitted st (\<lambda>d. 0) (\<lambda>d. 0) es"
    using m by blast+
  have "case f of None \<Rightarrow> map_of (active st) k = Some r | Some x \<Rightarrow> came_back r x"
    if "(k, r, f) \<in> set es" for f
    using m that by blast
  from this[of None] this[of "Some x"] show "(k, r, None) \<in> set es \<Longrightarrow> map_of (active st) k = Some r"
    "(k, r, Some x) \<in> set es \<Longrightarrow> came_back r x" by simp_all
qed

lemma open_matches:
  assumes m: "run_matches c p w st es" and t: "trace_matches c p (lg_log (lr_state w)) es"
    and c: "sound_client c" and new: "cid \<notin> set (lr_seen w)"
  shows "\<exists>st' es'. run_matches c p (ledger_run_step c w (Open_Call monotonic now cid q)) st' es' \<and>
     trace_matches c p (lg_log (lr_state (ledger_run_step c w (Open_Call monotonic now cid q)))) es'"
proof (cases "reserve_capacity c monotonic cid q st")
  case (Pair res st1)
  note d = run_matchesD[OF m]
  have sink: "lc_sink c evs e" for evs e using c by (simp add: sound_client_def)
  from Pair show ?thesis
  proof (cases rule: reserve_capacity_cases)
    case (1 e)
    let ?w = "ledger_run_step c w (Open_Call monotonic now cid q)"
    have w: "?w = w\<lparr>lr_state := \<lparr>lg_budget = Some st,
        lg_log = lg_log (lr_state w) @ [rejected_event c cid q now now e]\<rparr>, lr_seen := lr_seen w @ [cid]\<rparr>"
      using 1 Pair d(1) new sink by (cases "lr_state w") (simp add: open_call_def emit_safely_def)
    have "run_matches c p ?w st es"
      using m d(6) unfolding run_matches_def w by auto
    moreover have "trace_matches c p (lg_log (lr_state ?w)) es"
      using trace_rejected[OF t] unfolding w by simp
    ultimately show ?thesis by blast
  next
    case (2 r)
    let ?w = "ledger_run_step c w (Open_Call monotonic now cid q)" and ?es = "es @ [(cid, r, None)]"
    have r: "call_id r = cid" "protected r = protected r" using 2(3) by (auto simp: fresh_reservation_def)
    have "reserve_capacity c monotonic cid q st = (Inr r, st1)" using Pair 2(1) by simp
    then have w: "?w = w\<lparr>lr_state := \<lparr>lg_budget = Some st1,
        lg_log = lg_log (lr_state w) @ [budget_event c BUDGET_RESERVED q now now (policy st1) r]\<rparr>,
        lr_seen := lr_seen w @ [cid], lr_open := dict_set cid (q, Some r) (lr_open w)\<rparr>"
      using d(1) new sink by (cases "lr_state w") (simp add: open_call_def emit_required_def)
    have pol: "policy st1 = p" using 2(2) d(2) by simp
    have fresh: "cid \<notin> fst ` set es" using d(6) new by auto
    obtain i out cost prot where res: "reserve monotonic cid i out None cost prot None st = (Inr r, st1)"
      using Pair 2(1) by (auto simp: reserve_capacity_def Let_def split: if_splits)
    have ok: "ledger_ok (\<lambda>d. 0) st1" "within_caps st1"
      using reserve_ledger_ok[OF d(3)] reserve_within_caps[OF d(4)] res by (metis snd_conv)+
    have act: "map_of (active st1) k = (if k = cid then Some r else map_of (active st) k)" for k
      using 2(2,4) by (auto simp: map_add_def map_of_None_keys[symmetric] split: option.split)
    have amounts: "used_amount st1 d + active_amount st1 d = charged d ?es"
      "ordinary_used st1 d + ordinary_active st1 d = ordinary_charged d ?es" for d
      using d(11,12)[of d] unfolding 2(2)
      by (simp_all add: reserved_amounts entry_charge_def charge_def)
    have adm: "admitted st1 (\<lambda>d. 0) (\<lambda>d. 0) ?es"
    proof -
      have "admitted st1 (\<lambda>d. 0) (\<lambda>d. 0) es" by (rule admitted_mono[OF d(13)]) (simp_all add: pol d(2))
      moreover have "fits st1 (protected r) d (charged d es + reservable_value r d)
          (ordinary_charged d es + ordinary d r)" for d
        using 2(5)[of d] d(11,12)[of d] unfolding 2(2) by (simp add: fits_reserved)
      ultimately show ?thesis by (simp add: admitted_append)
    qed
    define w1 where "w1 = ?w"
    note w1 = w[folded w1_def]
    have "run_matches c p w1 st1 ?es"
      unfolding run_matches_def
    proof (intro conjI allI impI)
      fix k r' f assume e: "(k, r', f) \<in> set ?es"
      show "fresh_reservation k r'" using e d(7) 2(3) by auto
      show "case f of None \<Rightarrow> map_of (active st1) k = Some r' | Some x \<Rightarrow> came_back r' x"
      proof (cases f)
        case None
        with e d(8) fresh show ?thesis unfolding act by (auto simp: image_iff)
      next
        case (Some x)
        with e d(9) show ?thesis by auto
      qed
    next
      fix k q' f assume "map_of (lr_open w1) k = Some (q', f)"
      then show "\<exists>r'. f = Some r' \<and> (k, r', None) \<in> set ?es"
        using d(10)[of k q' f] unfolding w1 by (auto split: if_splits)
    qed (use d fresh ok pol amounts adm in \<open>auto simp: w1\<close>)
    moreover have "trace_matches c p (lg_log (lr_state w1)) ?es"
      using trace_reserved[OF t r(1) fresh] unfolding w1 by (simp add: pol)
    ultimately show ?thesis unfolding w1_def by blast
  qed
qed

lemma close_matches:
  assumes m: "run_matches c p w st es" and t: "trace_matches c p (lg_log (lr_state w)) es"
    and c: "sound_client c" and honest: "honest_call c w (Close_Call begun now cid out before after)"
  shows "\<exists>st' es'. run_matches c p (ledger_run_step c w (Close_Call begun now cid out before after)) st' es' \<and>
     trace_matches c p (lg_log (lr_state (ledger_run_step c w (Close_Call begun now cid out before after)))) es'"
proof (cases "map_of (lr_open w) cid")
  case None
  with m t show ?thesis by auto
next
  case (Some v)
  note d = run_matchesD[OF m]
  have sink: "lc_sink c evs e" for evs e using c by (simp add: sound_client_def)
  obtain q g where v: "map_of (lr_open w) cid = Some (q, g)" using Some by (cases v) simp
  from d(10)[OF v] obtain r where r: "g = Some r" "(cid, r, None) \<in> set es" by blast
  have h: "\<not> unserved out" "honest_usage c r (fresh_usage out before after)"
    using honest v r(1) by simp_all
  have rk: "call_id r = cid" "cid \<noteq> []" using d(7)[OF r(2)] by (auto simp: fresh_reservation_def)
  note act = d(8)[OF r(2)]
  obtain x where x: "settle_call c r (fresh_usage out before after) False st =
      (Inr (Some x), finish_call cid x (consume x st))" "came_back r x"
    by (rule settle_call_honest[OF d(3,4) act rk(1) h(2)])
  let ?st = "finish_call cid x (consume x st)"
  define w1 where "w1 = ledger_run_step c w (Close_Call begun now cid out before after)"
  have pol: "policy ?st = p" using d(2) by simp
  have w1: "w1 = w\<lparr>lr_state := \<lparr>lg_budget = Some ?st, lg_log = lg_log (lr_state w) @
      [usage_event c cid q begun now (outcome_status out) (fresh_usage out before after) (Some r) False,
       budget_event c BUDGET_SETTLED q now now p x]\<rparr>, lr_open := dict_del cid (lr_open w)\<rparr>"
    using v r(1) d(1,2) x(1) h(1) sink rk unfolding w1_def
    by (cases "lr_state w") (simp add: close_call_def emit_required_def)
  obtain xs ys where es: "es = xs @ (cid, r, None) # ys" using split_list[OF r(2)] by blast
  let ?es = "xs @ (cid, r, Some x) # ys"
  have keys: "map fst ?es = map fst es" by (simp add: es)
  have "cid \<notin> fst ` set xs" "cid \<notin> fst ` set ys" using d(5) es by simp_all
  then have other: "(k, r', f) \<in> set ?es \<longleftrightarrow> (k, r', f) \<in> set es" if "k \<noteq> cid" for k r' f
    using that by (auto simp: es)
  have own: "r' = r \<and> f = Some x" if "(cid, r', f) \<in> set ?es" for r' f
    using that \<open>cid \<notin> fst ` set xs\<close> \<open>cid \<notin> fst ` set ys\<close> by (auto simp: image_iff)
  note fin = finish_amounts[OF d(3) act x(2) rk(1) d(4)]
  have amounts: "used_amount ?st d + active_amount ?st d = charged d ?es"
    "ordinary_used ?st d + ordinary_active ?st d = ordinary_charged d ?es" for d
    using d(11,12)[of d] fin(3-6)[of d] by (simp_all add: es entry_charge_def charge_def)
  have adm: "admitted ?st (\<lambda>d. 0) (\<lambda>d. 0) ?es"
    using admitted_came_back[OF d(13)[unfolded es] x(2)]
    by (rule admitted_mono) simp_all
  have "run_matches c p w1 ?st ?es"
    unfolding run_matches_def
  proof (intro conjI allI impI)
    fix k r' f assume e: "(k, r', f) \<in> set ?es"
    show "fresh_reservation k r'"
    proof (cases "k = cid")
      case True
      from own[OF e[unfolded True]] have "r' = r" by blast
      then show ?thesis using d(7)[OF r(2)] unfolding True by (simp only:)
    next
      case False
      with e other have "(k, r', f) \<in> set es" by blast
      then show ?thesis by (rule d(7))
    qed
    show "case f of None \<Rightarrow> map_of (active ?st) k = Some r' | Some y \<Rightarrow> came_back r' y"
    proof (cases "k = cid")
      case True
      from own[OF e[unfolded True]] show ?thesis using x(2) by simp
    next
      case False
      with e other have es': "(k, r', f) \<in> set es" by blast
      show ?thesis
      proof (cases f)
        case None
        with d(8)[of k r'] es' False show ?thesis by simp
      next
        case (Some y)
        with d(9)[of k r' y] es' show ?thesis by simp
      qed
    qed
  next
    fix k q' f assume "map_of (lr_open w1) k = Some (q', f)"
    then have "k \<noteq> cid" "map_of (lr_open w) k = Some (q', f)" unfolding w1 by (auto split: if_splits)
    with d(10)[of k q' f] other[of k _ None] show "\<exists>r'. f = Some r' \<and> (k, r', None) \<in> set ?es" by blast
  next
    show "distinct (map fst ?es)" "set (map fst ?es) \<subseteq> set (lr_seen w1)"
      unfolding keys using d(5,6) by (simp_all add: w1)
  qed (use fin pol amounts adm in \<open>simp_all add: w1\<close>)
  moreover have "trace_matches c p (lg_log (lr_state w1)) ?es"
  proof -
    have "call_id x = cid" using came_backD(1)[OF x(2)] rk(1) by simp
    from trace_closed[OF t[unfolded es] this rk(2) d(5)[unfolded es]] show ?thesis by (simp add: w1)
  qed
  ultimately show ?thesis unfolding w1_def by blast
qed

lemma calls_match:
  assumes "run_matches c p w st es" "trace_matches c p (lg_log (lr_state w)) es" "sound_client c"
    "honest_calls c w steps"
  shows "\<exists>st' es'. run_matches c p (foldl (ledger_run_step c) w steps) st' es' \<and>
     trace_matches c p (lg_log (lr_state (foldl (ledger_run_step c) w steps))) es'"
  using assms(1,2,4)
proof (induction steps arbitrary: w st es)
  case Nil
  then show ?case by auto
next
  case (Cons a steps)
  have "\<exists>st' es'. run_matches c p (ledger_run_step c w a) st' es' \<and>
      trace_matches c p (lg_log (lr_state (ledger_run_step c w a))) es'"
  proof (cases a)
    case (Open_Call monotonic now cid q)
    show ?thesis
    proof (cases "cid \<in> set (lr_seen w)")
      case True
      then have "ledger_run_step c w a = w" by (simp add: Open_Call)
      with Cons.prems show ?thesis by auto
    next
      case False
      from open_matches[OF Cons.prems(1,2) assms(3) False] show ?thesis unfolding Open_Call .
    qed
  next
    case (Close_Call begun now cid out before after)
    from close_matches[OF Cons.prems(1,2) assms(3)] Cons.prems(3) show ?thesis
      unfolding Close_Call by simp
  qed
  then obtain st' es' where "run_matches c p (ledger_run_step c w a) st' es'"
    "trace_matches c p (lg_log (lr_state (ledger_run_step c w a))) es'" by blast
  from Cons.IH[OF this] Cons.prems(3) show ?case by simp
qed

section \<open>Properties\<close>

lemma usage_filter:
  assumes "trace_matches c p es entries"
  shows "calls_of BUDGET_RESERVED (filter (\<lambda>e. \<not> confirmed_offline_usage e) es) = calls_of BUDGET_RESERVED es"
    "calls_of BUDGET_SETTLED (filter (\<lambda>e. te_event_type e = BUDGET_SETTLED \<and> has_call_id e)
       (filter (\<lambda>e. \<not> confirmed_offline_usage e) es)) =
     filter (\<lambda>p. has_call_id (snd p)) (calls_of BUDGET_SETTLED es)"
proof -
  have offline: "\<not> confirmed_offline_usage e" if "te_event_type e \<noteq> LLM_USAGE" for e
    using that by (simp add: confirmed_offline_usage_def Let_def)
  show "calls_of BUDGET_RESERVED (filter (\<lambda>e. \<not> confirmed_offline_usage e) es) = calls_of BUDGET_RESERVED es"
    by (rule calls_of_filter_all) (simp add: offline)
  have "calls_of BUDGET_SETTLED (filter (\<lambda>e. \<not> confirmed_offline_usage e) es) = calls_of BUDGET_SETTLED es"
    by (rule calls_of_filter_all) (simp add: offline)
  moreover have "filter (\<lambda>p. te_event_type (snd p) = BUDGET_SETTLED \<and> has_call_id (snd p)) (calls_of BUDGET_SETTLED es) =
      filter (\<lambda>p. has_call_id (snd p)) (calls_of BUDGET_SETTLED es)"
    by (rule filter_cong) (auto dest: calls_of_typed)
  ultimately show "calls_of BUDGET_SETTLED (filter (\<lambda>e. te_event_type e = BUDGET_SETTLED \<and> has_call_id e)
       (filter (\<lambda>e. \<not> confirmed_offline_usage e) es)) =
     filter (\<lambda>p. has_call_id (snd p)) (calls_of BUDGET_SETTLED es)"
    unfolding calls_of_filter[of _ "\<lambda>e. te_event_type e = BUDGET_SETTLED \<and> has_call_id e"] by simp
qed

text \<open>Every terminal of a matching trace has an id, for it is the id of an admitted call.\<close>

lemma terminals_have_ids:
  assumes "trace_matches c p es entries" "run_matches c p w st entries"
  shows "filter (\<lambda>p. has_call_id (snd p)) (calls_of BUDGET_SETTLED es) = calls_of BUDGET_SETTLED es"
proof (rule filter_True, rule ballI)
  fix t assume t: "t \<in> set (calls_of BUDGET_SETTLED es)"
  then have "fst t \<in> fst ` set entries" using assms(1) unfolding trace_matches_def by blast
  then obtain r f where "(fst t, r, f) \<in> set entries" by force
  then have "py_strip (fst t) \<noteq> []" using run_matchesD(7)[OF assms(2)] by (simp add: fresh_reservation_def)
  moreover have "te_call_id (snd t) = Some (fst t)" using calls_of_typed[OF t] by simp
  ultimately show "has_call_id (snd t)" by (auto simp: has_call_id_def)
qed

text \<open>The wall-clock cap, when there is one, is not passed.\<close>

definition time_left :: "session_budget_policy \<Rightarrow> rat \<Rightarrow> bool" where
  "time_left p elapsed \<longleftrightarrow> (case max_wall_seconds p of None \<Rightarrow> True | Some limit \<Rightarrow> elapsed \<le> limit)"

lemma restore_matches:
  assumes pol: "session_budget_policy_init a = Inr p" "time_left p (elapsed_since now es run_started)"
    and m: "run_matches c p w st entries" and t: "trace_matches c p es entries"
  shows "\<exists>st'. restore_run_budget_state (lc_fingerprint c) monotonic now p es run_started None = Inr st' \<and>
     active st' = [] \<and> (\<forall>d. used_amount st' d = charged d entries \<and> ordinary_used st' d = ordinary_charged d entries)"
proof -
  let ?start = "Finite (monotonic - elapsed_since now es run_started)"
  let ?events = "filter (\<lambda>e. \<not> confirmed_offline_usage e) es"
  let ?R = "calls_of BUDGET_RESERVED es" and ?T = "calls_of BUDGET_SETTLED es"
  obtain st0 where init: "session_budget_state_init p ?start 0 0 0 0 (PyInt 0) = Inr st0"
    by (simp add: session_budget_state_init_zero)
  then have init': "session_budget_state_init p ?start 0 0 0 0 (decimal_value 0) = Inr st0"
    by (simp add: session_budget_state_init_def money_def)
  note fresh = fresh_state[OF init] fresh_state_ok[OF pol(1) init]
  note tm = t[unfolded trace_matches_def] and d = run_matchesD[OF m]
  have "0 \<le> elapsed_since now es run_started" by (simp add: elapsed_since_def Let_def)
  moreover have "started_at st0 = monotonic - elapsed_since now es run_started"
    using init by (auto simp: session_budget_state_init_zero finite_value_def)
  ultimately have wall: "check_wall_time monotonic None st0 = Inr ()"
    using pol(2) fresh(1) by (auto simp: check_wall_time_def time_left_def Let_def finite_value_def split: option.splits)
  have ids: "map fst ?R = map fst entries"
    using tm by (auto simp: reserved_as_def list_all2_conv_all_nth intro!: nth_equalityI)
  have R: "unique_call_events ?events BUDGET_RESERVED = Inr ?R"
    using unique_calls[of BUDGET_RESERVED ?events] usage_filter(1)[OF t] d(5) ids by simp
  have T: "unique_call_events (filter (\<lambda>e. te_event_type e = BUDGET_SETTLED \<and> has_call_id e) ?events) BUDGET_SETTLED = Inr ?T"
    using unique_calls[of BUDGET_SETTLED "filter (\<lambda>e. te_event_type e = BUDGET_SETTLED \<and> has_call_id e) ?events"]
      usage_filter(2)[OF t] terminals_have_ids[OF t m] tm by simp
  let ?U = "filter (\<lambda>e. te_event_type e = LLM_USAGE \<and> has_call_id e) ?events"
  have "distinct (map fst (calls_of LLM_USAGE ?U))"
    using tm by (intro calls_of_keys_filter(1)) blast
  then have U: "unique_call_events ?U LLM_USAGE = Inr (calls_of LLM_USAGE ?U)" by (rule unique_calls)
  have bud: "filter (\<lambda>k. k \<notin> set (dict_keys ?R)) (map (the \<circ> te_call_id) ?U) = []"
  proof -
    have "the (te_call_id e) \<in> set (map fst entries)" if "e \<in> set ?U" for e
    proof -
      have "(the (te_call_id e), e) \<in> set (calls_of LLM_USAGE es)"
        using that by (intro calls_of_member) (auto simp: has_call_id_def split: option.splits)
      then have "the (te_call_id e) \<in> fst ` set (calls_of LLM_USAGE es)" by force
      then obtain r x where "(the (te_call_id e), r, Some x) \<in> set entries" using tm by blast
      then show ?thesis by force
    qed
    then show ?thesis unfolding ids filter_empty_conv by auto
  qed
  have legacy: "\<not> list_ex (\<lambda>e. te_event_type e = LLM_USAGE \<and> \<not> has_call_id e) ?events"
    using tm by (auto simp: list_ex_iff)
  have sound: "list_all (sound_entry c p ?T) entries"
  proof -
    have "sound_entry c p ?T (k, r, f)" if e: "(k, r, f) \<in> set entries" for k r f
      using d(7)[OF e] d(9)[of k r "the f"] e tm
      by (cases f) (auto simp: sound_entry_def)
    then show ?thesis unfolding list_all_iff by auto
  qed
  have "admitted st0 (used_amount st0) (ordinary_used st0) entries"
  proof (rule admitted_mono[OF d(13)])
    show "policy st0 = policy st" using fresh(1) d(2) by simp
    show "used_amount st0 d \<le> 0" "ordinary_used st0 d \<le> 0" for d
      using fresh by (simp_all add: ordinary_used_def)
  qed
  then obtain st' where "fold_res (restore_call monotonic [lc_fingerprint c p] ?T) st0 ?R = Inr st'"
    "active st' = []" "\<forall>d. used_amount st' d = used_amount st0 d + charged d entries \<and>
      ordinary_used st' d = ordinary_used st0 d + ordinary_charged d entries"
    using restore_entries[of c p entries ?R ?T "[lc_fingerprint c p]" "\<lambda>_. 0" st0 monotonic]
      tm sound d(5) fresh wall by auto
  moreover have "used_amount st0 d = 0" "ordinary_used st0 d = 0" for d
    using fresh by (simp_all add: ordinary_used_def)
  ultimately show ?thesis
    using init' R T U bud legacy by (simp add: restore_run_budget_state_def Let_def)
qed

text \<open>C8. While its wall-clock cap is not passed, a run can be resumed: when its calls were served, stayed
  within their reservations and were priced, however they interleaved and whichever of them a crash
  left in flight, restoring its budget from its trace succeeds, and gives back a budget with nothing
  in flight that has used what the run had used together with everything it had in flight. The time
  counted is the one since the earliest event of the trace or the start of the run.\<close>

theorem run_can_be_resumed:
  assumes "session_budget_policy_init a = Inr p"
    "time_left p (elapsed_since now (lg_log (lr_state w)) run_started)"
    "session_budget_state_init p start 0 0 0 0 (PyInt 0) = Inr st"
    "sound_client c" "honest_calls c (start_run c (Some st)) steps"
    "w = foldl (ledger_run_step c) (start_run c (Some st)) steps"
    "lg_budget (lr_state w) = Some live"
  shows "\<exists>st'. restore_run_budget_state (lc_fingerprint c) monotonic now p (lg_log (lr_state w)) run_started None = Inr st' \<and>
     active st' = [] \<and>
     (\<forall>d. used_amount st' d = used_amount live d + active_amount live d \<and>
        ordinary_used st' d = ordinary_used live d + ordinary_active live d)"
proof -
  note fresh = fresh_state[OF assms(3)] fresh_state_ok[OF assms(1,3)]
  have "run_matches c p (start_run c (Some st)) st []"
    using assms(4) fresh by (auto simp: run_matches_def start_run_def ledger_init_def sound_client_def
        active_amount_def ordinary_active_def ordinary_used_def)
  moreover have "trace_matches c p (lg_log (lr_state (start_run c (Some st)))) []"
    by (simp add: trace_matches_def start_run_def ledger_init_def)
  ultimately obtain st' es where m: "run_matches c p w st' es" "trace_matches c p (lg_log (lr_state w)) es"
    using calls_match[OF _ _ assms(4,5)] unfolding assms(6) by blast
  have "st' = live" using run_matchesD(1)[OF m(1)] assms(7) by simp
  with restore_matches[OF assms(1,2) m, of monotonic] run_matchesD(11,12)[OF m(1)]
  show ?thesis by auto
qed

lemma released_amounts:
  assumes "ledger_ok base st" "map_of (active st) k = Some r"
  shows "used_amount (snd (release k st)) d = used_amount st d"
    "active_amount (snd (release k st)) d = active_amount st d - reservable_value r d"
    "ordinary_active (snd (release k st)) d = ordinary_active st d - ordinary d r"
  using assms complete_amounts(1,2)[OF assms, of "r\<lparr>status := Released, usage_known := Some False\<rparr>" d]
  by (simp_all add: release_def get_active_def Let_def)

text \<open>A call is on record before it is sent: whatever the sink does, a call that may go out has a
  durable reservation in the trace and holds it in the budget; a call that is refused, for the
  budget or for the sink, leaves what is used and what is in flight as they were.\<close>

theorem calls_are_reserved_on_record:
  assumes "ledger_ok base st" "lg_budget s = Some st" "open_call c monotonic now cid q s = (res, s1)"
  shows "case res of
      Inr g \<Rightarrow> \<exists>r. g = Some r \<and> lg_budget s1 = Some (st\<lparr>active := active st @ [(cid, r)]\<rparr>) \<and>
        lg_log s1 = lg_log s @ [budget_event c BUDGET_RESERVED q now now (policy st) r]
    | Inl e \<Rightarrow> \<exists>st1. lg_budget s1 = Some st1 \<and>
        (\<forall>d. used_amount st1 d = used_amount st d \<and> active_amount st1 d = active_amount st d)"
proof (cases "reserve_capacity c monotonic cid q st")
  case (Pair x st1)
  then show ?thesis
  proof (cases rule: reserve_capacity_cases)
    case (1 e)
    with Pair assms(2,3) show ?thesis by (auto simp: open_call_def emit_safely_def)
  next
    case (2 r)
    let ?e = "budget_event c BUDGET_RESERVED q now now (policy st1) r"
    obtain i out cost prot where res: "reserve monotonic cid i out None cost prot None st = (Inr r, st1)"
      using Pair 2(1) by (auto simp: reserve_capacity_def Let_def split: if_splits)
    have ok: "ledger_ok base st1" using reserve_ledger_ok[OF assms(1)] res by (metis snd_conv)
    have r: "call_id r = cid" "status r = Reserved" using 2(3) by (auto simp: fresh_reservation_def)
    have act: "map_of (active st1) cid = Some r"
      using 2(2,4) by (simp add: map_add_def map_of_None_keys[symmetric])
    show ?thesis
    proof (cases "lc_sink c (lg_log s) ?e")
      case True
      with Pair 2(1,2) assms(2,3) show ?thesis by (auto simp: open_call_def emit_required_def)
    next
      case False
      have rel: "release_if_reserved (call_id r) st1 = snd (release cid st1)"
        using act r by (simp add: release_if_reserved_def reservation_of_def)
      have "used_amount (snd (release cid st1)) d = used_amount st d \<and>
          active_amount (snd (release cid st1)) d = active_amount st d" for d
        using released_amounts(1,2)[OF ok act, of d] unfolding 2(2) by (simp add: reserved_amounts)
      moreover have "\<exists>e. res = Inl e" "lg_budget s1 = Some (snd (release cid st1))"
        using False Pair 2(1) assms(2,3) rel by (auto simp: open_call_def emit_required_def emit_safely_def)
      ultimately show ?thesis by auto
    qed
  qed
qed

text \<open>Usage a provider can have reported: no negative count, and a cost \<open>Decimal\<close> accepts.\<close>

definition usage_well_formed :: "ledger_client \<Rightarrow> result_metadata option \<Rightarrow> bool" where
  "usage_well_formed c usage = (case usage of
     None \<Rightarrow> True
   | Some u \<Rightarrow> 0 \<le> us_prompt_tokens (rm_usage u) \<and> 0 \<le> us_completion_tokens (rm_usage u) \<and>
       us_prompt_tokens (rm_usage u) + us_completion_tokens (rm_usage u) \<le> us_total_tokens (rm_usage u) \<and>
       (case settlement_cost c u of None \<Rightarrow> True | Some v \<Rightarrow> \<not> isl (money ''cost_usd'' v)))"

lemma settle_call_closes:
  assumes "ledger_ok base st" "map_of (active st) cid = Some r" "usage_well_formed c usage"
  obtains x where "map_of (active (snd (settle_call c r usage b st))) cid = None"
    "map_of (completed (snd (settle_call c r usage b st))) cid = Some x"
    "status x \<in> (if b then {Released} else {Settled, Uncertain})"
proof -
  have r: "call_id r = cid" by (rule ledger_ok_activeD(1)[OF assms(1,2)])
  let ?known = "case usage of None \<Rightarrow> False | Some u \<Rightarrow> rm_usage_reported u"
  consider "b" | "\<not> b" "\<not> ?known" | "\<not> b" "?known" by blast
  then show thesis
  proof cases
    case 1
    then show thesis using assms(2) r
      by (intro that[of "r\<lparr>status := Released, usage_known := Some False\<rparr>"])
        (simp_all add: settle_call_def Let_def release_def get_active_def)
  next
    case 2
    then show thesis using assms(2) r uncertain_again[OF assms(2)]
      by (intro that[of "r\<lparr>status := Uncertain, usage_known := Some False\<rparr>"])
        (simp_all add: settle_call_def Let_def)
  next
    case 3
    then obtain u where u: "usage = Some u" "rm_usage_reported u" by (cases usage) auto
    let ?p = "us_prompt_tokens (rm_usage u)" and ?o = "us_completion_tokens (rm_usage u)"
      and ?t = "us_total_tokens (rm_usage u)"
    have wf: "0 \<le> ?p" "0 \<le> ?o" "?p + ?o \<le> ?t"
      "\<And>v. settlement_cost c u = Some v \<Longrightarrow> \<exists>m. money ''cost_usd'' v = Inr m"
      using assms(3) u by (auto simp: usage_well_formed_def isl_def split: sum.splits) (metis isl_def sum.exhaust)
    show thesis
    proof (cases "settled_reservation cid (Some ?p) (Some ?o) (Some ?t) (settlement_cost c u) st")
      case (Inr x)
      then have "settle cid (Some ?p) (Some ?o) (Some ?t) (settlement_cost c u) st =
          (bind_res (enforce_used (finish_call cid x (consume x st)) cid) (\<lambda>_. Inr x), finish_call cid x (consume x st))"
        by (simp add: settle_def Let_def)
      moreover have "\<nexists>k stage ms. enforce_used (finish_call cid x (consume x st)) cid = Inl (Budget_Usage_Uncertain k stage ms)"
        by (auto simp: enforce_used_def check_all_Inl enforce_used_dimension_def split: prod.splits option.splits if_splits)
      moreover have "status x = Settled" using Inr by (auto simp: settled_reservation_def Let_def res_simps)
      ultimately show thesis using 3 u r
        by (intro that[of x]) (auto simp: settle_call_def Let_def split: budget_error.splits sum.splits
            elim!: bind_res.elims)
    next
      case (Inl e)
      then have "\<exists>ms. e = Budget_Usage_Uncertain cid At_Settlement ms"
        using assms(2) wf by (cases "settlement_cost c u")
          (auto simp: settled_reservation_def get_active_def usage_or_reserved_def validate_limit_def
            Let_def raise_if_def split: if_splits)
      then obtain ms where "e = Budget_Usage_Uncertain cid At_Settlement ms" by blast
      then have "settle_call c r usage b st = (Inl e, finish_call cid (r\<lparr>status := Uncertain, usage_known := Some False\<rparr>)
          (consume (r\<lparr>status := Uncertain, usage_known := Some False\<rparr>) st))"
        using 3 u r Inl uncertain_again[OF assms(2)] by (simp add: settle_call_def Let_def settle_def)
      then show thesis using 3 by (intro that[of "r\<lparr>status := Uncertain, usage_known := Some False\<rparr>"]) simp_all
    qed
  qed
qed

text \<open>A call that ends holds nothing: however the provider ended it, whatever well-formed usage it
  reported, even when the settlement or the sink raises, the budget has no reservation in flight
  for it any more; it is finished, released when the provider did not serve it.\<close>

theorem ended_call_holds_nothing:
  assumes "ledger_ok base st" "lg_budget s = Some st" "map_of (active st) cid = Some r"
    "usage_well_formed c (fresh_usage out before after)"
    "close_call c begun now cid q (Some r) out before after s = (res, s1)"
  shows "\<exists>st1 x. lg_budget s1 = Some st1 \<and> map_of (active st1) cid = None \<and>
     map_of (completed st1) cid = Some x \<and>
     status x \<in> (if unserved out then {Released} else {Settled, Uncertain})"
proof -
  let ?st1 = "snd (settle_call c r (fresh_usage out before after) (unserved out) st)"
  have "lg_budget s1 = Some ?st1"
    using assms(2,5) by (auto simp: close_call_def Let_def emit_required_def split: prod.splits sum.splits
        option.splits if_splits)
  with settle_call_closes[OF assms(1,3,4), of "unserved out"] show ?thesis by metis
qed

lemma result_then:
  "(case p of (Inl e, _) \<Rightarrow> Inl e | (Inr _, s) \<Rightarrow> f s) = Inr t \<longleftrightarrow> (\<exists>x s. p = (Inr x, s) \<and> f s = Inr t)"
  by (auto split: prod.splits sum.splits)

lemma restore_call_finishes:
  assumes "restore_call monotonic fs ts st (k, e) = Inr st1" "ledger_ok base st" "active st = []"
  shows "ledger_ok base st1" "active st1 = []" "dict_keys (completed st1) = dict_keys (completed st) @ [k]"
proof -
  obtain i out t cost prot r st2 where res: "reserve monotonic k i out (Some t) (Some cost) prot None st = (Inr r, st2)"
    and fin: "(\<exists>x. mark_uncertain k st2 = (Inr x, st1)) \<or>
      (\<exists>i out t cost x. settle k (Some i) (Some out) (Some t) (Some cost) st2 = (Inr x, st1))"
    using assms(1) by (auto simp: restore_call_def Let_def res_simps result_then split: if_splits) blast+
  have st2: "st2 = st\<lparr>active := [(k, r)]\<rparr>" "k \<notin> fst ` set (completed st)"
    using reserve_succeeds(2)[OF res] requested_reservationD(2)[OF reserve_succeeds(1)[OF res]] assms(3)
    by simp_all
  have ok: "ledger_ok base st2" using reserve_ledger_ok[OF assms(2)] res by (metis snd_conv)
  have "\<exists>x. active st1 = dict_del k (active st2) \<and> completed st1 = dict_set k x (completed st2)"
    using fin
  proof
    assume "\<exists>x. mark_uncertain k st2 = (Inr x, st1)"
    then show ?thesis by (auto simp: mark_uncertain_def Let_def split: sum.splits)
  next
    assume "\<exists>i out t cost x. settle k (Some i) (Some out) (Some t) (Some cost) st2 = (Inr x, st1)"
    then obtain i out t cost x where "settle k (Some i) (Some out) (Some t) (Some cost) st2 = (Inr x, st1)"
      by blast
    then show ?thesis by (cases rule: settle_cases) auto
  qed
  then show "active st1 = []" "dict_keys (completed st1) = dict_keys (completed st) @ [k]"
    using st2 by (auto simp: dict_set_new)
  show "ledger_ok base st1"
    using fin mark_uncertain_ledger_ok[OF ok, of k] settle_ledger_ok[OF ok, of k] by (metis snd_conv)
qed

lemma index_calls_result:
  "fold_res (index_call t) d es = Inr R \<Longrightarrow> R = d @ calls_of t es"
proof (induction es arbitrary: d)
  case (Cons e es)
  show ?case
  proof (cases "\<exists>k. te_call_id e = Some k \<and> te_event_type e = t")
    case True
    then obtain k where k: "te_call_id e = Some k" "te_event_type e = t" by blast
    then have "map_of d k = None" using Cons.prems by (auto simp: index_call_def split: if_splits)
    then have "dict_set k e d = d @ [(k, e)]" by (simp add: map_of_None_keys dict_set_new)
    then show ?thesis
      using Cons.IH[of "d @ [(k, e)]"] Cons.prems k \<open>map_of d k = None\<close> by (simp add: index_call_def)
  next
    case False
    then have "index_call t d e = Inr d" "calls_of t (e # es) = calls_of t es"
      by (auto simp: index_call_def split: option.split)
    then show ?thesis using Cons.IH[of d] Cons.prems by simp
  qed
qed simp

text \<open>A restored budget is closed: whatever trace it comes from, when restoring succeeds nothing is
  in flight, exactly the calls the trace reserved are finished, once each and in that order, and
  what is used is the sum over them.\<close>

theorem restored_budget_is_closed:
  assumes "restore_run_budget_state fingerprint monotonic now p es run_started accepted = Inr st"
  shows "active st = [] \<and> dict_keys (completed st) = map fst (calls_of BUDGET_RESERVED es) \<and>
     distinct (map fst (calls_of BUDGET_RESERVED es)) \<and>
     (\<forall>d. used_amount st d = dict_sum (spent d) (completed st))"
proof -
  let ?start = "Finite (monotonic - elapsed_since now es run_started)"
  let ?events = "filter (\<lambda>e. \<not> confirmed_offline_usage e) es"
  obtain st0 where init: "session_budget_state_init p ?start 0 0 0 0 (PyInt 0) = Inr st0"
    by (simp add: session_budget_state_init_zero)
  then have init': "session_budget_state_init p ?start 0 0 0 0 (decimal_value 0) = Inr st0"
    by (simp add: session_budget_state_init_def money_def)
  note fresh = fresh_state[OF init]
  obtain R ts fs where R: "unique_call_events ?events BUDGET_RESERVED = Inr R"
    and run: "fold_res (restore_call monotonic fs ts) st0 R = Inr st"
    using assms init' by (auto simp: restore_run_budget_state_def Let_def res_simps)
  have Re: "R = calls_of BUDGET_RESERVED es"
  proof -
    have "calls_of BUDGET_RESERVED ?events = calls_of BUDGET_RESERVED es"
      by (rule calls_of_filter_all) (simp add: confirmed_offline_usage_def Let_def)
    then show ?thesis using index_calls_result[of BUDGET_RESERVED "[]" ?events R] R
      by (simp add: unique_call_events_def)
  qed
  have "ledger_ok (\<lambda>_. 0) st \<and> active st = [] \<and> dict_keys (completed st) = dict_keys (completed t) @ map fst R"
    if "fold_res (restore_call monotonic fs ts) t R = Inr st" "ledger_ok (\<lambda>_. 0) t" "active t = []" for t R
    using that
  proof (induction R arbitrary: t)
    case (Cons e R)
    obtain k v where e: "e = (k, v)" by (cases e)
    obtain t1 where t1: "restore_call monotonic fs ts t (k, v) = Inr t1"
      "fold_res (restore_call monotonic fs ts) t1 R = Inr st"
      using Cons.prems(1) e by (auto simp: res_simps)
    note f = restore_call_finishes[OF t1(1) Cons.prems(2,3)]
    from Cons.IH[OF t1(2) f(1,2)] f(3) e show ?case by simp
  qed simp
  moreover have "ledger_ok (\<lambda>_. 0) st0" using fresh by (auto simp: ledger_ok_def)
  ultimately have ok: "ledger_ok (\<lambda>_. 0) st" "active st = []" "dict_keys (completed st) = map fst R"
    using run fresh by auto
  then show ?thesis unfolding Re[symmetric] by (auto simp: ledger_ok_def)
qed

section \<open>What cannot be resumed\<close>

text \<open>A client whose model has no listed price; a policy with a cap on tokens, one on requests.\<close>

definition plain_client :: "int \<Rightarrow> ledger_client" where
  "plain_client cap = \<lparr>lc_session_id = ''s'', lc_settings = Some \<lparr>set_provider = Some ''openai'',
     set_model = ''m'', set_max_tokens = PyInt cap, set_usd_prompt = 0, set_usd_completion = 0\<rparr>,
     lc_offline = False, lc_sink = (\<lambda>es e. True), lc_fingerprint = (\<lambda>p. ''fp''),
     lc_pricing = (\<lambda>p m. None), lc_describe = (\<lambda>e. [])\<rparr>"

definition capped_policy :: "int option \<Rightarrow> int option \<Rightarrow> session_budget_policy" where
  "capped_policy requests tokens = \<lparr>max_requests = requests, max_input_tokens = None, max_output_tokens = None,
     max_total_tokens = tokens, max_cost_usd = None, max_wall_seconds = Some 1800, protected_requests = 0,
     protected_input_tokens = 0, protected_output_tokens = 0, protected_total_tokens = 0,
     protected_cost_usd = 0, unknown_usage = Consume_Reservation\<rparr>"

definition capped_state :: "session_budget_policy \<Rightarrow> session_budget_state" where
  "capped_state p = \<lparr>policy = p, started_at = 0, requests_used = 0, input_tokens_used = 0,
     output_tokens_used = 0, total_tokens_used = 0, cost_usd_used = 0, active = [], completed = []\<rparr>"

definition plain_request :: "nat \<Rightarrow> llm_request" where
  "plain_request n = \<lparr>rq_kind = Text_Call, rq_task = ''t'', rq_bytes = n, rq_logical = None\<rparr>"

definition reported_usage :: "py_real option \<Rightarrow> int \<Rightarrow> int \<Rightarrow> result_metadata option" where
  "reported_usage cost i out = Some \<lparr>rm_provider = ''openai'', rm_model = ''m'',
     rm_usage = \<lparr>us_prompt_tokens = i, us_completion_tokens = out, us_total_tokens = i + out,
       us_cached_tokens = 0, us_cache_creation_tokens = 0, us_reasoning_tokens = 0\<rparr>,
     rm_estimated_cost = cost, rm_cost_basis = [], rm_pricing_version = [], rm_usage_reported = True,
     rm_request_id = [], rm_response_id = [], rm_finish_reason = [], rm_endpoint_host = [],
     rm_request_bytes = 0, rm_response_bytes = 0\<rparr>"

definition run_of :: "int \<Rightarrow> session_budget_policy \<Rightarrow> ledger_step list \<Rightarrow> ledger_state" where
  "run_of cap p steps = lr_state (foldl (ledger_run_step (plain_client cap))
     (start_run (plain_client cap) (Some (capped_state p))) steps)"

definition restored :: "int \<Rightarrow> session_budget_policy \<Rightarrow> ledger_step list \<Rightarrow> budget_error + session_budget_state" where
  "restored cap p steps = restore_run_budget_state (\<lambda>p. ''fp'') 0 0 p (lg_log (run_of cap p steps)) None None"

definition outage_run :: "ledger_step list" where
  "outage_run = [Open_Call 0 0 ''a'' (plain_request 5), Close_Call 0 0 ''a'' (Unavailable ''ProviderUnavailableError'') None None,
     Open_Call 0 0 ''b'' (plain_request 5), Close_Call 0 0 ''b'' Answered None (reported_usage None 4 3)]"

definition unpriced_run :: "ledger_step list" where
  "unpriced_run = [Open_Call 0 0 ''a'' (plain_request 40), Close_Call 0 0 ''a'' Answered None (reported_usage None 10 5),
     Open_Call 0 0 ''b'' (plain_request 30), Close_Call 0 0 ''b'' Answered None (reported_usage None 10 5)]"

definition overrun_run :: "ledger_step list" where
  "overrun_run = [Open_Call 0 0 ''a'' (plain_request 40), Close_Call 0 0 ''a'' Answered None (reported_usage None 40 55)]"


text \<open>An outage makes a run impossible to resume: under a cap of one request, a call the provider
  refused to serve gives its slot back and a second call is answered; the trace holds no settlement
  for the first, so restoring charges it and raises.\<close>

theorem unserved_call_blocks_resume:
  "map_option (\<lambda>st. (requests_used st, active st)) (lg_budget (run_of 10 (capped_policy (Some 1) None) outage_run)) = Some (1, []) \<and>
   restored 10 (capped_policy (Some 1) None) outage_run =
     Inl (Session_Budget_Exceeded (Reservable Requests) 1 2 (Some ''b'') At_Reservation)"
proof -
  have "map_option (\<lambda>st. (requests_used st, active st)) (lg_budget (run_of 10 (capped_policy (Some 1) None) outage_run)) = Some (1, [])"
    by code_simp
  moreover have "restored 10 (capped_policy (Some 1) None) outage_run =
     Inl (Session_Budget_Exceeded (Reservable Requests) 1 2 (Some ''b'') At_Reservation)"
    by code_simp
  ultimately show ?thesis ..
qed

text \<open>The usage of a model without a listed price is not restored: the run counts the tokens it
  used, but its settlement says the usage is not known, so restoring charges the reservation. A run
  within its cap cannot be resumed.\<close>

theorem unpriced_run_cannot_resume:
  "map_option total_tokens_used (lg_budget (run_of 50 (capped_policy None (Some 100)) unpriced_run)) = Some 30 \<and>
   restored 50 (capped_policy None (Some 100)) unpriced_run =
     Inl (Session_Budget_Exceeded (Reservable Total_Tokens) 100 170 (Some ''b'') At_Reservation)"
proof -
  have "map_option total_tokens_used (lg_budget (run_of 50 (capped_policy None (Some 100)) unpriced_run)) = Some 30"
    by code_simp
  moreover have "restored 50 (capped_policy None (Some 100)) unpriced_run =
     Inl (Session_Budget_Exceeded (Reservable Total_Tokens) 100 170 (Some ''b'') At_Reservation)"
    by code_simp
  ultimately show ?thesis ..
qed

text \<open>And an overrun of such a model is forgotten: a run that used 95 of its 100 tokens is restored
  as one that used the 50 its call had reserved.\<close>

theorem unpriced_overrun_is_forgotten:
  "map_option total_tokens_used (lg_budget (run_of 10 (capped_policy None (Some 100)) overrun_run)) = Some 95 \<and>
   map_sum (\<lambda>e. ()) total_tokens_used (restored 10 (capped_policy None (Some 100)) overrun_run) = Inr 50"
proof -
  have "map_option total_tokens_used (lg_budget (run_of 10 (capped_policy None (Some 100)) overrun_run)) = Some 95"
    by code_simp
  moreover have "map_sum (\<lambda>e. ()) total_tokens_used (restored 10 (capped_policy None (Some 100)) overrun_run) = Inr 50"
    by code_simp
  ultimately show ?thesis ..
qed

section \<open>The properties at concrete inputs\<close>

definition crash_run :: "ledger_step list" where
  "crash_run = [Open_Call 0 0 ''a'' (plain_request 40), Open_Call 0 0 ''b'' (plain_request 30),
     Close_Call 0 0 ''b'' Answered None (reported_usage (Some (Finite 0)) 10 5)]"

definition capped_arguments :: policy_arguments where
  "capped_arguments = \<lparr>arg_max_requests = Some 5, arg_max_input_tokens = None, arg_max_output_tokens = None,
     arg_max_total_tokens = Some 200, arg_max_cost_usd = None, arg_max_wall_seconds = Some (Finite 1800),
     arg_protected_requests = 0, arg_protected_input_tokens = 0, arg_protected_output_tokens = 0,
     arg_protected_total_tokens = 0, arg_protected_cost_usd = PyInt 0,
     arg_unknown_usage_policy = ''consume_reservation''\<rparr>"

lemma capped_accepted: "session_budget_policy_init capped_arguments = Inr (capped_policy (Some 5) (Some 200))"
  by (simp add: capped_arguments_def capped_policy_def session_budget_policy_init_def policy_limits_def
      policy_pairs_def validate_limit_def validate_seconds_def opt_seconds_def money_def
      unknown_usage_of_def protected_within_cap_def policy_of_def finite_value_def)

lemma capped_fresh: "session_budget_state_init p (Finite 0) 0 0 0 0 (PyInt 0) = Inr (capped_state p)"
  by (simp add: session_budget_state_init_zero capped_state_def finite_value_def)

lemma plain_sound: "sound_client (plain_client n)"
  by (simp add: sound_client_def plain_client_def)

theorem run_can_be_resumed_witness:
  "map_sum (\<lambda>e. ()) (\<lambda>st. used_amount st Total_Tokens)
     (restored 50 (capped_policy (Some 5) (Some 200)) crash_run) = Inr 105"
proof -
  let ?p = "capped_policy (Some 5) (Some 200)" and ?w = "foldl (ledger_run_step (plain_client 50))
    (start_run (plain_client 50) (Some (capped_state (capped_policy (Some 5) (Some 200))))) crash_run"
  have "honest_calls (plain_client 50) (start_run (plain_client 50) (Some (capped_state ?p))) crash_run"
    by code_simp
  moreover have live: "map_option (\<lambda>st. used_amount st Total_Tokens + active_amount st Total_Tokens)
      (lg_budget (lr_state ?w)) = Some 105" by code_simp
  then obtain live where live: "lg_budget (lr_state ?w) = Some live"
    "used_amount live Total_Tokens + active_amount live Total_Tokens = 105" by auto
  moreover have "time_left ?p (elapsed_since 0 (lg_log (lr_state ?w)) None)" by code_simp
  ultimately obtain st' where "restore_run_budget_state (lc_fingerprint (plain_client 50)) 0 0 ?p
      (lg_log (lr_state ?w)) None None = Inr st'" "used_amount st' Total_Tokens = 105"
    using run_can_be_resumed[OF capped_accepted _ capped_fresh plain_sound _ refl live(1), of 0 None 0] by auto
  moreover have "lc_fingerprint (plain_client 50) = (\<lambda>p. ''fp'')" by (simp add: plain_client_def)
  ultimately show ?thesis by (simp add: restored_def run_of_def)
qed

lemma capped_ok: "ledger_ok (\<lambda>_. 0) (capped_state (capped_policy (Some 5) (Some 200)))"
  by (rule fresh_state_ok(1)[OF capped_accepted capped_fresh])

theorem calls_are_reserved_on_record_witness:
  "\<exists>r s1. open_call (plain_client 50) 0 0 ''a'' (plain_request 40)
      \<lparr>lg_budget = Some (capped_state (capped_policy (Some 5) (Some 200))), lg_log = []\<rparr> = (Inr (Some r), s1) \<and>
     length (lg_log s1) = 1"
proof -
  let ?st = "capped_state (capped_policy (Some 5) (Some 200))"
  let ?s = "\<lparr>lg_budget = Some ?st, lg_log = []\<rparr>"
  obtain res s1 where o1: "open_call (plain_client 50) 0 0 ''a'' (plain_request 40) ?s = (res, s1)" by fastforce
  have "\<not> isl (fst (open_call (plain_client 50) 0 0 ''a'' (plain_request 40) ?s))" by code_simp
  then obtain g where "res = Inr g" using o1 by (metis fst_conv isl_def sum.exhaust)
  with calls_are_reserved_on_record[OF capped_ok _ o1] o1 show ?thesis by auto
qed

definition busy_budget :: session_budget_state where
  "busy_budget = (capped_state (capped_policy (Some 5) (Some 200)))\<lparr>active := [(''a'',
     \<lparr>call_id = ''a'', input_tokens = 40, output_tokens = 50, total_tokens = 90, cost_usd = 0, protected = False,
      status = Reserved, usage_known = None\<rparr>)]\<rparr>"

theorem ended_call_holds_nothing_witness:
  "\<exists>st1 x. lg_budget (snd (close_call (plain_client 50) 0 0 ''a'' (plain_request 40) (Some (snd (hd (active busy_budget))))
      (Failed ''TimeoutError'') None None \<lparr>lg_budget = Some busy_budget, lg_log = []\<rparr>)) = Some st1 \<and>
     map_of (active st1) ''a'' = None \<and> map_of (completed st1) ''a'' = Some x"
proof -
  let ?r = "snd (hd (active busy_budget))" and ?s = "\<lparr>lg_budget = Some busy_budget, lg_log = []\<rparr>"
  have ok: "ledger_ok (\<lambda>d. used_amount busy_budget d) busy_budget"
    by (simp add: ledger_ok_def busy_budget_def capped_state_def reservation_ok_def)
  have act: "map_of (active busy_budget) ''a'' = Some ?r" by (simp add: busy_budget_def)
  have wf: "usage_well_formed (plain_client 50) (fresh_usage (Failed ''TimeoutError'') None None)"
    by (simp add: usage_well_formed_def fresh_usage_def)
  obtain res s1 where "close_call (plain_client 50) 0 0 ''a'' (plain_request 40) (Some ?r) (Failed ''TimeoutError'')
      None None ?s = (res, s1)" by fastforce
  from ended_call_holds_nothing[OF ok _ act wf this] this show ?thesis by auto
qed

theorem restored_budget_is_closed_witness:
  "map_sum (\<lambda>e. ()) (\<lambda>st. dict_keys (completed st)) (restored 50 (capped_policy (Some 5) (Some 200)) crash_run) =
     Inr [''a'', ''b'']"
proof -
  let ?es = "lg_log (run_of 50 (capped_policy (Some 5) (Some 200)) crash_run)"
  have "\<not> isl (restored 50 (capped_policy (Some 5) (Some 200)) crash_run)" by code_simp
  then obtain st where st: "restored 50 (capped_policy (Some 5) (Some 200)) crash_run = Inr st"
    by (metis isl_def sum.exhaust)
  have "map fst (calls_of BUDGET_RESERVED ?es) = [''a'', ''b'']" by code_simp
  with restored_budget_is_closed[OF st[unfolded restored_def]] st show ?thesis by simp
qed

end
