(* ===== verification/JobLifecycle.thy ===== *)
theory JobLifecycle
  imports Loops "HOL-Library.Sublist"
begin

text \<open>
  Durable jobs and their workers (\<open>infrastructure/job_lifecycle.py\<close>): the rows of the tables \<open>jobs\<close>
  and \<open>sessions\<close>, with the unique indexes and triggers of \<open>core/store.py\<close>, and the transactions of
  \<open>JobLifecycleRepository\<close>. A transaction is one function of the database: an exception rolls
  it back. Launch tokens, clock readings (integers) and what the operating system says of a
  process are arguments.
\<close>

section \<open>Processes\<close>

record process_identity =
  pi_pid :: int
  pi_start_token :: string
  pi_source :: string

datatype identity_comparison = Same_Process | Other_Process | Cannot_Tell

definition compare_process_identity ::
  "process_identity \<Rightarrow> process_identity option \<Rightarrow> identity_comparison" where
  "compare_process_identity expected observed = (case observed of
     None \<Rightarrow> Cannot_Tell
   | Some i \<Rightarrow>
       if pi_source i \<noteq> pi_source expected then Cannot_Tell
       else if pi_pid i \<noteq> pi_pid expected \<or> pi_start_token i \<noteq> pi_start_token expected
       then Other_Process else Same_Process)"

text \<open>The operating system: the identity it reads for a process id, and whether the id is in use.\<close>

record os_view =
  os_identity :: "int \<Rightarrow> process_identity option"
  os_alive :: "int \<Rightarrow> bool"

definition check_process_identity :: "os_view \<Rightarrow> process_identity \<Rightarrow> identity_comparison" where
  "check_process_identity os i = compare_process_identity i (os_identity os (pi_pid i))"

section \<open>Rows\<close>

datatype job_status =
    Job_Queued | Job_Launching | Job_Running | Job_Cancelling | Job_Completed | Job_Failed | Job_Cancelled

datatype fence_state = Fence_Open | Fence_Committed | Fence_Shielded

definition terminal_statuses :: "job_status list" where
  "terminal_statuses = [Job_Completed, Job_Failed, Job_Cancelled]"

abbreviation terminal :: "job_status \<Rightarrow> bool" where
  "terminal st \<equiv> st \<in> set terminal_statuses"

record job_row =
  jb_id :: string
  jb_session :: string
  jb_project :: string
  jb_kind :: string
  jb_status :: job_status
  jb_version :: int
  jb_created :: int
  jb_idempotency :: "string option"
  jb_lane :: string
  jb_digest :: string
  jb_scope :: string
  jb_params :: "string option"
  jb_attempt :: int
  jb_token :: "string option"
  jb_owner :: "string option"
  jb_lease :: "int option"
  jb_heartbeat :: "int option"
  jb_pid :: "int option"
  jb_identity :: "process_identity option"
  jb_ack :: "int option"
  jb_started :: "int option"
  jb_finished :: "int option"
  jb_cancel_requested :: bool
  jb_cancel_requested_at :: "int option"
  jb_cancel_deadline :: "int option"
  jb_error_code :: "string option"
  jb_error_message :: "string option"
  jb_depth :: int
  jb_critical_owner :: "int option"
  jb_fence :: fence_state

datatype storage_state = Live | Deleting

record session_row =
  ss_project :: string
  ss_status :: string
  ss_active_job :: "string option"
  ss_storage :: storage_state
  ss_delete_op :: "string option"
  ss_version :: int

datatype deletion_state = Del_Prepared | Del_Fs_Applied | Del_Db_Committed | Del_Blocked | Del_Done | Del_Aborted

text \<open>A \<open>delete_session\<close> operation.\<close>

record deletion_row =
  dl_project :: string
  dl_session :: string
  dl_state :: deletion_state

text \<open>
  An event of the trace; its key \<open>job:<id>:<generation>:<type>\<close> is unique (no type has a colon and
  a generation is a numeral, so the key determines the three).
\<close>

record job_event =
  je_session :: string
  je_project :: string
  je_type :: string
  je_job :: string
  je_generation :: int
  je_summary :: "(string, string option) dict"

definition event_key :: "job_event \<Rightarrow> string \<times> int \<times> string" where
  "event_key e = (je_job e, je_generation e, je_type e)"

text \<open>The database; \<open>db_audits\<close> are the audit events of deletions: the payload by operation.\<close>

record database =
  db_jobs :: "(string, job_row) dict"
  db_sessions :: "(string, session_row) dict"
  db_events :: "job_event list"
  db_deletions :: "(string, deletion_row) dict"
  db_audits :: "(string, string) dict"

record launch_claim =
  cl_job :: string
  cl_token :: string
  cl_attempt :: int

datatype job_error =
    Job_Not_Found string
  | Not_Launchable string
  | Lost_Claim
  | Invalid_Terminal_Status job_status
  | Session_Deleting string
  | Integrity_Error string
  | Handshake_Failed
  | Publish_Fenced string string
  | Deletion_Not_Found string
  | Deletion_Busy string string
  | Deletion_Retryable string
  | Deletion_Blocked string

section \<open>Constraints of the tables\<close>

fun status_text :: "job_status \<Rightarrow> string" where
  "status_text Job_Queued = ''queued''"
| "status_text Job_Launching = ''launching''"
| "status_text Job_Running = ''running''"
| "status_text Job_Cancelling = ''cancelling''"
| "status_text Job_Completed = ''completed''"
| "status_text Job_Failed = ''failed''"
| "status_text Job_Cancelled = ''cancelled''"

fun legal_transition :: "job_status \<Rightarrow> job_status \<Rightarrow> bool" where
  "legal_transition Job_Queued s = (s \<in> {Job_Launching, Job_Running, Job_Completed, Job_Failed, Job_Cancelled})"
| "legal_transition Job_Launching s = (s \<in> {Job_Running, Job_Cancelling, Job_Failed, Job_Cancelled})"
| "legal_transition Job_Running s = (s \<in> {Job_Cancelling, Job_Completed, Job_Failed, Job_Cancelled})"
| "legal_transition Job_Cancelling s = (s \<in> {Job_Cancelled, Job_Failed})"
| "legal_transition _ s = False"

definition active_deletion :: "deletion_state \<Rightarrow> bool" where
  "active_deletion d \<longleftrightarrow> d \<in> set [Del_Prepared, Del_Fs_Applied, Del_Db_Committed, Del_Blocked]"

definition deletion_active :: "database \<Rightarrow> string \<Rightarrow> bool" where
  "deletion_active db k \<longleftrightarrow> list_ex (\<lambda>(_, d). dl_session d = k \<and> active_deletion (dl_state d)) (db_deletions db)"

definition not_live :: "database \<Rightarrow> string \<Rightarrow> bool" where
  "not_live db k \<longleftrightarrow> (case map_of (db_sessions db) k of None \<Rightarrow> False | Some s \<Rightarrow> ss_storage s \<noteq> Live)"

text \<open>An update of a job that names the column \<open>status\<close>: the triggers, then the unique indexes.\<close>

definition lane_taken :: "database \<Rightarrow> job_row \<Rightarrow> bool" where
  "lane_taken db j \<longleftrightarrow> \<not> terminal (jb_status j) \<and>
     list_ex (\<lambda>(k, i). k \<noteq> jb_id j \<and> jb_lane i = jb_lane j \<and> \<not> terminal (jb_status i)) (db_jobs db)"

definition token_taken :: "database \<Rightarrow> job_row \<Rightarrow> bool" where
  "token_taken db j \<longleftrightarrow> jb_token j \<noteq> None \<and>
     list_ex (\<lambda>(k, i). k \<noteq> jb_id j \<and> jb_token i = jb_token j) (db_jobs db)"

definition put_job :: "database \<Rightarrow> job_row \<Rightarrow> database" where
  "put_job db j = db\<lparr>db_jobs := dict_set (jb_id j) j (db_jobs db)\<rparr>"

definition update_status :: "database \<Rightarrow> job_row \<Rightarrow> job_row \<Rightarrow> job_error + database" where
  "update_status db old j = guarding
     [(jb_status j \<noteq> jb_status old \<and> \<not> legal_transition (jb_status old) (jb_status j),
       Integrity_Error ''invalid job status transition''),
      (jb_status j \<noteq> jb_status old \<and> jb_version j \<noteq> jb_version old + 1,
       Integrity_Error ''job status transition must increment state_version''),
      (not_live db (jb_session j) \<or> not_live db (jb_lane j) \<or>
         deletion_active db (jb_session j) \<or> deletion_active db (jb_lane j),
       Integrity_Error ''job target run is deleting''),
      (lane_taken db j, Integrity_Error ''UNIQUE constraint failed: jobs.lane_key''),
      (token_taken db j, Integrity_Error ''UNIQUE constraint failed: jobs.launch_token'')]
     (put_job db j)"

definition committed_owner :: "database \<Rightarrow> string \<Rightarrow> bool" where
  "committed_owner db job \<longleftrightarrow> (case map_of (db_jobs db) job of
     None \<Rightarrow> False | Some j \<Rightarrow> jb_fence j = Fence_Committed)"

text \<open>Inserting an event: the run must be live and not fenced; a known key changes nothing.\<close>

definition insert_event :: "database \<Rightarrow> job_event \<Rightarrow> job_error + database" where
  "insert_event db e =
     (let live = (case map_of (db_sessions db) (je_session e) of None \<Rightarrow> False
        | Some s \<Rightarrow> ss_project s = je_project e \<and> ss_storage s = Live);
          fenced = (case map_of (db_sessions db) (je_session e) of None \<Rightarrow> False
        | Some s \<Rightarrow> ss_project s = je_project e \<and>
            (case ss_active_job s of None \<Rightarrow> False | Some job \<Rightarrow> committed_owner db job))
      in guarding
        [(\<not> sublist ''__internal'' (je_session e) \<and> (\<not> live \<or> deletion_active db (je_session e)),
          Integrity_Error ''trace run is not live''),
         (fenced, Integrity_Error ''run publish fence is committed'')]
        (if event_key e \<in> event_key ` set (db_events db) then db
         else db\<lparr>db_events := db_events db @ [e]\<rparr>))"

definition job_event_of ::
  "job_row \<Rightarrow> int \<Rightarrow> string \<Rightarrow> string \<Rightarrow> (string, string option) dict \<Rightarrow> job_event" where
  "job_event_of j generation event_type st summary =
     \<lparr>je_session = jb_session j, je_project = jb_project j, je_type = event_type, je_job = jb_id j,
      je_generation = generation,
      je_summary = foldl (\<lambda>d (k, v). dict_set k v d)
        [(''job_id'', Some (jb_id j)), (''status'', Some st)] summary\<rparr>"

text \<open>
  A row of \<open>sessions\<close> whose run is fenced takes no update that keeps its owner; no two live runs
  have the same owner.
\<close>

definition put_session :: "database \<Rightarrow> string \<Rightarrow> session_row \<Rightarrow> session_row \<Rightarrow> job_error + database" where
  "put_session db k old s = guarding
     [(ss_active_job old \<noteq> None \<and> ss_active_job s = ss_active_job old \<and>
         committed_owner db (the (ss_active_job old)),
       Integrity_Error ''run publish fence is committed''),
      (ss_active_job s \<noteq> None \<and> ss_storage s = Live \<and>
         list_ex (\<lambda>(t, r). t \<noteq> k \<and> ss_active_job r = ss_active_job s \<and> ss_storage r = Live)
           (db_sessions db),
       Integrity_Error ''UNIQUE constraint failed: sessions.active_job_id'')]
     (db\<lparr>db_sessions := dict_set k s (db_sessions db)\<rparr>)"

section \<open>Transactions\<close>

text \<open>A transaction returns a value and the new database, or raises and is rolled back.\<close>

type_synonym 'a transaction = "job_error + 'a \<times> database"

definition require_job :: "database \<Rightarrow> string \<Rightarrow> job_error + job_row" where
  "require_job db k = (case map_of (db_jobs db) k of None \<Rightarrow> Inl (Job_Not_Found k) | Some j \<Rightarrow> Inr j)"

text \<open>\<open>_deleting_target\<close>, over \<open>dict.fromkeys((session_id, lane_key))\<close>.\<close>

definition job_targets :: "string \<Rightarrow> string \<Rightarrow> string list" where
  "job_targets session lane = (if lane = session then [session] else [session, lane])"

definition deleting_target :: "database \<Rightarrow> string \<Rightarrow> string \<Rightarrow> string option" where
  "deleting_target db session lane =
     find (\<lambda>t. not_live db t \<or> deletion_active db t) (job_targets session lane)"

definition tombstone_target :: "database \<Rightarrow> string \<Rightarrow> string \<Rightarrow> string option" where
  "tombstone_target db session lane =
     find (\<lambda>t. list_ex (\<lambda>(_, d). dl_session d = t \<and> dl_state d \<noteq> Del_Aborted) (db_deletions db) \<or>
       t = lane \<and> lane \<noteq> session \<and> not_live db t) (job_targets session lane)"

definition ensure_session :: "database \<Rightarrow> string \<Rightarrow> string \<Rightarrow> database" where
  "ensure_session db session project = (case map_of (db_sessions db) session of
     Some s \<Rightarrow> db
   | None \<Rightarrow> db\<lparr>db_sessions := dict_set session \<lparr>ss_project = project, ss_status = ''running'',
       ss_active_job = None, ss_storage = Live, ss_delete_op = None, ss_version = 0\<rparr> (db_sessions db)\<rparr>)"

definition insert_job :: "database \<Rightarrow> job_row \<Rightarrow> job_error + database" where
  "insert_job db j = guarding
     [(list_all (\<lambda>c. c = CHR '' '') (jb_lane j), Integrity_Error ''job lane_key must be non-empty''),
      (deleting_target db (jb_session j) (jb_lane j) \<noteq> None, Integrity_Error ''job target run is deleting''),
      (map_of (db_jobs db) (jb_id j) \<noteq> None, Integrity_Error ''UNIQUE constraint failed: jobs.job_id''),
      (jb_idempotency j \<noteq> None \<and> list_ex (\<lambda>(k, i). jb_idempotency i = jb_idempotency j) (db_jobs db),
       Integrity_Error ''UNIQUE constraint failed: jobs.idempotency_key''),
      (lane_taken db j, Integrity_Error ''UNIQUE constraint failed: jobs.lane_key'')]
     (put_job db j)"

text \<open>An owner that is terminal is dropped, then the run is taken.\<close>

definition release_terminal_owner :: "database \<Rightarrow> string \<Rightarrow> job_error + database" where
  "release_terminal_owner db session = (case map_of (db_sessions db) session of
     None \<Rightarrow> Inr db
   | Some s \<Rightarrow> (case Option.bind (ss_active_job s) (map_of (db_jobs db)) of
       None \<Rightarrow> Inr db
     | Some i \<Rightarrow>
         if jb_session i = session \<and> terminal (jb_status i)
         then put_session db session s (s\<lparr>ss_active_job := None, ss_version := ss_version s + 1\<rparr>)
         else Inr db))"

definition take_session :: "database \<Rightarrow> job_row \<Rightarrow> job_error + database" where
  "take_session db j = (case map_of (db_sessions db) (jb_session j) of
     None \<Rightarrow> Inl (Integrity_Error ''run already has an active job owner'')
   | Some s \<Rightarrow>
       if ss_project s = jb_project j \<and> ss_storage s = Live \<and> ss_active_job s = None
       then put_session db (jb_session j) s
         (s\<lparr>ss_active_job := Some (jb_id j), ss_version := ss_version s + 1\<rparr>)
       else Inl (Integrity_Error ''run already has an active job owner''))"

record job_request =
  jr_id :: string
  jr_session :: string
  jr_project :: string
  jr_kind :: string
  jr_params :: string
  jr_idempotency :: "string option"
  jr_lane :: string
  jr_digest :: string
  jr_scope :: string

definition queued_row :: "int \<Rightarrow> job_request \<Rightarrow> job_row" where
  "queued_row now q = \<lparr>jb_id = jr_id q, jb_session = jr_session q, jb_project = jr_project q,
     jb_kind = jr_kind q, jb_status = Job_Queued, jb_version = 0, jb_created = now,
     jb_idempotency = jr_idempotency q, jb_lane = jr_lane q, jb_digest = jr_digest q,
     jb_scope = jr_scope q, jb_params = Some (jr_params q), jb_attempt = 0, jb_token = None,
     jb_owner = None, jb_lease = None, jb_heartbeat = None, jb_pid = None, jb_identity = None,
     jb_ack = None, jb_started = None, jb_finished = None, jb_cancel_requested = False,
     jb_cancel_requested_at = None, jb_cancel_deadline = None, jb_error_code = None,
     jb_error_message = None, jb_depth = 0, jb_critical_owner = None, jb_fence = Fence_Open\<rparr>"

definition create_queued_job :: "int \<Rightarrow> job_request \<Rightarrow> database \<Rightarrow> job_row transaction" where
  "create_queued_job now q db =
     (case deleting_target db (jr_session q) (jr_lane q) of
        Some t \<Rightarrow> Inl (Session_Deleting t)
      | None \<Rightarrow> (case tombstone_target db (jr_session q) (jr_lane q) of
          Some t \<Rightarrow> Inl (Session_Deleting t)
        | None \<Rightarrow>
            (let j = queued_row now q in
             bind_res (insert_job (ensure_session db (jr_session q) (jr_project q)) j) (\<lambda>db1.
             bind_res (release_terminal_owner db1 (jr_session q)) (\<lambda>db2.
             bind_res (take_session db2 j) (\<lambda>db3.
             bind_res (insert_event db3 (job_event_of j 0 ''job.queued'' ''queued'' [])) (\<lambda>db4.
             Inr (j, db4))))))))"

definition lease_seconds :: int where "lease_seconds = 30"

definition claim_launch :: "int \<Rightarrow> string \<Rightarrow> string \<Rightarrow> string \<Rightarrow> database \<Rightarrow> launch_claim transaction" where
  "claim_launch now token owner k db = bind_res (require_job db k) (\<lambda>j.
     if jb_status j = Job_Queued \<and> \<not> jb_cancel_requested j then
       bind_res (update_status db j (j\<lparr>jb_status := Job_Launching, jb_version := jb_version j + 1,
         jb_attempt := jb_attempt j + 1, jb_token := Some token, jb_owner := Some owner,
         jb_lease := Some (now + lease_seconds), jb_heartbeat := Some now, jb_pid := None,
         jb_identity := None, jb_ack := None\<rparr>)) (\<lambda>db1.
       Inr (\<lparr>cl_job = k, cl_token = token, cl_attempt = jb_attempt j + 1\<rparr>, db1))
     else Inl (Not_Launchable k))"

text \<open>The row a claim still owns: \<open>job_id = ? and launch_token = ? and launch_attempt = ?\<close>.\<close>

definition claimed_row :: "database \<Rightarrow> launch_claim \<Rightarrow> job_row option" where
  "claimed_row db c = (case map_of (db_jobs db) (cl_job c) of
     None \<Rightarrow> None
   | Some j \<Rightarrow> if jb_token j = Some (cl_token c) \<and> jb_attempt j = cl_attempt c then Some j else None)"

definition acknowledge_spawn ::
  "int \<Rightarrow> launch_claim \<Rightarrow> int \<Rightarrow> process_identity option \<Rightarrow> database \<Rightarrow> unit transaction" where
  "acknowledge_spawn now c pid identity db = (case claimed_row db c of
     None \<Rightarrow> Inl Lost_Claim
   | Some j \<Rightarrow>
       if jb_status j = Job_Launching then
         Inr ((), put_job db (j\<lparr>jb_pid := Some pid, jb_identity := identity, jb_ack := Some now,
           jb_heartbeat := Some now, jb_version := jb_version j + 1\<rparr>))
       else Inl Lost_Claim)"

text \<open>\<open>_update_run_terminal\<close>: the job gives its run back; a limited run stays limited.\<close>

definition update_run_terminal ::
  "database \<Rightarrow> string \<Rightarrow> string \<Rightarrow> job_status \<Rightarrow> string transaction" where
  "update_run_terminal db job session st = (case map_of (db_sessions db) session of
     None \<Rightarrow> Inl Handshake_Failed
   | Some s \<Rightarrow>
       if ss_active_job s = Some job \<and> ss_storage s = Live then
         (let session_status = (if st = Job_Completed \<and> ss_status s = ''limited'' then ''limited''
            else status_text st) in
          bind_res (put_session db session s (s\<lparr>ss_status := session_status, ss_active_job := None,
            ss_version := ss_version s + 1\<rparr>)) (\<lambda>db1. Inr (session_status, db1)))
       else Inl Handshake_Failed)"

definition limited_detail :: string where
  "limited_detail = ''Run reached a configured limit. Review the run details for available results and next steps.''"

text \<open>What a worker or the API says of an ending.\<close>

record ending =
  en_error_code :: "string option"
  en_error_message :: "string option"
  en_error_detail :: "string option"
  en_summary :: "(string, string option) dict"

text \<open>\<open>_terminal_in_transaction\<close>\<close>

definition ending_summary :: "string \<Rightarrow> ending \<Rightarrow> (string, string option) dict" where
  "ending_summary session_status en =
     [(''session_status'', Some session_status)] @
     (if session_status = ''limited'' then [(''detail'', Some limited_detail)] else []) @
     (case en_error_code en of None \<Rightarrow> []
      | Some e \<Rightarrow> [(''error_code'', Some e), (''error_message'', en_error_message en)]) @
     (case en_error_detail en of None \<Rightarrow> [] | Some d \<Rightarrow> [(''error_detail'', Some d)]) @
     en_summary en"

definition terminal_in_transaction ::
  "int \<Rightarrow> launch_claim \<Rightarrow> job_status \<Rightarrow> ending \<Rightarrow> database \<Rightarrow> bool transaction" where
  "terminal_in_transaction now c st en db = (case claimed_row db c of
     None \<Rightarrow> Inr (False, db)
   | Some j \<Rightarrow>
       if jb_status j \<notin> {Job_Launching, Job_Running, Job_Cancelling} then Inr (False, db)
       else
         (let effective = (if jb_status j = Job_Cancelling then Job_Cancelled else st) in
          bind_res (update_status db j (j\<lparr>jb_status := effective, jb_version := jb_version j + 1,
            jb_finished := Some now, jb_error_code := en_error_code en,
            jb_error_message := en_error_message en, jb_heartbeat := Some now, jb_lease := None,
            jb_depth := 0, jb_critical_owner := None\<rparr>)) (\<lambda>db1.
          bind_res (update_run_terminal db1 (cl_job c) (jb_session j) effective) (\<lambda>(session_status, db2).
          bind_res (insert_event db2 (job_event_of j (cl_attempt c) (''job.'' @ status_text effective)
            (status_text effective) (ending_summary session_status en))) (\<lambda>db3.
          Inr (True, db3))))))"

text \<open>\<open>child_start\<close>: the worker takes the job, or ends it when a cancellation came first.\<close>

definition no_ending :: ending where
  "no_ending = \<lparr>en_error_code = None, en_error_message = None, en_error_detail = None, en_summary = []\<rparr>"

definition child_start :: "int \<Rightarrow> launch_claim \<Rightarrow> database \<Rightarrow> job_row option transaction" where
  "child_start now c db = bind_res (require_job db (cl_job c)) (\<lambda>_. case claimed_row db c of
     None \<Rightarrow> Inr (None, db)
   | Some j \<Rightarrow>
       if jb_status j \<notin> {Job_Launching, Job_Cancelling} \<or> jb_ack j = None then Inr (None, db)
       else if jb_cancel_requested j then
         bind_res (terminal_in_transaction now c Job_Cancelled no_ending db) (\<lambda>(_, db1). Inr (None, db1))
       else if jb_status j \<noteq> Job_Launching then Inr (None, db)
       else
         (let j1 = j\<lparr>jb_status := Job_Running, jb_version := jb_version j + 1,
            jb_started := (case jb_started j of None \<Rightarrow> Some now | Some t \<Rightarrow> Some t),
            jb_heartbeat := Some now, jb_lease := Some (now + lease_seconds)\<rparr> in
          bind_res (update_status db j j1) (\<lambda>db1.
          bind_res (insert_event db1 (job_event_of j (cl_attempt c) ''job.started'' ''running'' [])) (\<lambda>db2.
          Inr (Some j1, db2)))))"

definition heartbeat :: "int \<Rightarrow> launch_claim \<Rightarrow> database \<Rightarrow> bool transaction" where
  "heartbeat now c db = (case claimed_row db c of
     None \<Rightarrow> Inr (False, db)
   | Some j \<Rightarrow>
       if jb_status j \<in> {Job_Running, Job_Cancelling}
       then Inr (True, put_job db (j\<lparr>jb_heartbeat := Some now, jb_lease := Some (now + lease_seconds)\<rparr>))
       else Inr (False, db))"

end
