(* ===== verification/JobRecovery.thy ===== *)
theory JobRecovery
  imports JobLifecycle "HOL-Library.Char_ord" "HOL-Library.List_Lexorder" "HOL-Library.Product_Lexorder"
begin

text \<open>
  The rest of \<open>JobLifecycleRepository\<close>: the publish shield, endings, cancellation, the kill fence and
  the recovery of dead workers; and the database part of \<open>core/session_deletion.py\<close>.
\<close>

section \<open>The publish shield\<close>

text \<open>An update of the shield, with its trigger.\<close>

definition put_critical :: "database \<Rightarrow> job_row \<Rightarrow> job_error + database" where
  "put_critical db j = guarding
     [(jb_depth j < 0 \<or> (jb_depth j = 0 \<and> jb_critical_owner j \<noteq> None) \<or>
         (0 < jb_depth j \<and> jb_critical_owner j = None),
       Integrity_Error ''invalid job critical section state'')]
     (put_job db j)"

definition enter_critical :: "launch_claim \<Rightarrow> database \<Rightarrow> bool transaction" where
  "enter_critical c db = (case claimed_row db c of
     None \<Rightarrow> Inr (False, db)
   | Some j \<Rightarrow>
       if jb_status j \<in> {Job_Running, Job_Cancelling} \<and> 0 < jb_depth j \<and> jb_depth j < 1000000 \<and>
          jb_critical_owner j = Some (cl_attempt c) \<and> jb_fence j = Fence_Open
       then bind_res (put_critical db (j\<lparr>jb_depth := jb_depth j + 1, jb_version := jb_version j + 1\<rparr>))
         (\<lambda>db1. Inr (True, db1))
       else if jb_status j = Job_Running \<and> \<not> jb_cancel_requested j \<and> jb_depth j = 0 \<and>
          jb_critical_owner j = None \<and> jb_fence j = Fence_Open
       then bind_res (put_critical db (j\<lparr>jb_depth := 1, jb_critical_owner := Some (cl_attempt c),
         jb_version := jb_version j + 1\<rparr>)) (\<lambda>db1. Inr (True, db1))
       else Inr (False, db))"

definition exit_critical :: "launch_claim \<Rightarrow> database \<Rightarrow> bool transaction" where
  "exit_critical c db = (case claimed_row db c of
     None \<Rightarrow> Inr (False, db)
   | Some j \<Rightarrow>
       if 0 < jb_depth j \<and> jb_critical_owner j = Some (cl_attempt c) \<and> jb_fence j = Fence_Open
       then bind_res (put_critical db (j\<lparr>jb_depth := jb_depth j - 1,
         jb_critical_owner := (if jb_depth j = 1 then None else jb_critical_owner j),
         jb_version := jb_version j + 1\<rparr>)) (\<lambda>db1. Inr (True, db1))
       else Inr (False, db))"

definition stale_shield :: "job_row \<Rightarrow> bool" where
  "stale_shield j \<longleftrightarrow> 0 < jb_depth j \<and> jb_critical_owner j \<noteq> Some (jb_attempt j) \<and> jb_fence j = Fence_Open"

definition clear_shield :: "job_row \<Rightarrow> job_row" where
  "clear_shield j = (if stale_shield j
     then j\<lparr>jb_depth := 0, jb_critical_owner := None, jb_version := jb_version j + 1\<rparr> else j)"

definition clear_stale_critical_sections :: "database \<Rightarrow> int transaction" where
  "clear_stale_critical_sections db =
     Inr (int (length (filter (\<lambda>(k, j). stale_shield j) (db_jobs db))),
       db\<lparr>db_jobs := map (\<lambda>(k, j). (k, clear_shield j)) (db_jobs db)\<rparr>)"

section \<open>Endings\<close>

definition finish ::
  "int \<Rightarrow> launch_claim \<Rightarrow> job_status \<Rightarrow> ending \<Rightarrow> int option \<Rightarrow> database \<Rightarrow> bool transaction" where
  "finish now c st en expected db =
     (if \<not> terminal st then Inl (Invalid_Terminal_Status st)
      else bind_res (require_job db (cl_job c)) (\<lambda>j.
        if expected \<noteq> None \<and> expected \<noteq> Some (jb_version j) then Inr (False, db)
        else terminal_in_transaction now c st en db))"

text \<open>A job that was never claimed may have no owned run: it is adopted first.\<close>

definition adopt_session :: "database \<Rightarrow> job_row \<Rightarrow> job_error + database" where
  "adopt_session db j = (case map_of (db_sessions db) (jb_session j) of
     None \<Rightarrow> Inr db
   | Some s \<Rightarrow>
       if jb_token j = None \<and> ss_active_job s = None \<and> ss_storage s = Live
       then put_session db (jb_session j) s
         (s\<lparr>ss_active_job := Some (jb_id j), ss_version := ss_version s + 1\<rparr>)
       else Inr db)"

definition fail_active ::
  "int \<Rightarrow> string \<Rightarrow> string \<Rightarrow> string \<Rightarrow> bool \<Rightarrow> database \<Rightarrow> bool transaction" where
  "fail_active now k code message clear_idempotency db = bind_res (require_job db k) (\<lambda>j.
     if terminal (jb_status j) then Inr (False, db)
     else
       (let ended = (if jb_status j = Job_Cancelling then Job_Cancelled else Job_Failed);
            text = take 500 message in
        bind_res (adopt_session db j) (\<lambda>db1.
        bind_res (update_status db1 j (j\<lparr>jb_status := ended, jb_version := jb_version j + 1,
          jb_finished := Some now, jb_error_code := Some code, jb_error_message := Some text,
          jb_lease := None, jb_depth := 0, jb_critical_owner := None,
          jb_idempotency := (if clear_idempotency then None else jb_idempotency j)\<rparr>)) (\<lambda>db2.
        bind_res (update_run_terminal db2 k (jb_session j) ended) (\<lambda>(_, db3).
        bind_res (insert_event db3 (job_event_of j (jb_attempt j) (''job.'' @ status_text ended)
          (status_text ended) [(''error_code'', Some code), (''error_message'', Some text)])) (\<lambda>db4.
        Inr (True, db4)))))))"

section \<open>Cancellation\<close>

definition request_cancel :: "int \<Rightarrow> int \<Rightarrow> string \<Rightarrow> database \<Rightarrow> job_row transaction" where
  "request_cancel now grace_seconds k db = bind_res (require_job db k) (\<lambda>j.
     if terminal (jb_status j) then Inr (j, db)
     else if jb_status j = Job_Queued then
       (let j1 = j\<lparr>jb_cancel_requested := True, jb_cancel_requested_at := Some now,
          jb_cancel_deadline := Some now, jb_status := Job_Cancelled,
          jb_version := jb_version j + 1, jb_finished := Some now\<rparr> in
        bind_res (update_status db j j1) (\<lambda>db1.
        bind_res (update_run_terminal db1 k (jb_session j) Job_Cancelled) (\<lambda>(_, db2).
        bind_res (insert_event db2 (job_event_of j (jb_attempt j) ''job.cancelled'' ''cancelled'' [])) (\<lambda>db3.
        Inr (j1, db3)))))
     else if jb_status j \<in> {Job_Launching, Job_Running} then
       (let j1 = j\<lparr>jb_cancel_requested := True, jb_cancel_requested_at := Some now,
          jb_cancel_deadline := Some (now + grace_seconds), jb_status := Job_Cancelling,
          jb_version := jb_version j + 1\<rparr> in
        bind_res (update_status db j j1) (\<lambda>db1.
        bind_res (insert_event db1
          (job_event_of j (jb_attempt j) ''job.cancel_requested'' ''cancelling'' [])) (\<lambda>db2.
        Inr (j1, db2))))
     else Inr (j, db))"

definition cancellation_due :: "int \<Rightarrow> job_row \<Rightarrow> bool" where
  "cancellation_due now j \<longleftrightarrow> jb_status j = Job_Cancelling \<and> jb_cancel_requested j \<and>
     (case jb_cancel_deadline j of None \<Rightarrow> False | Some d \<Rightarrow> d \<le> now)"

definition cancellation_claim_due :: "int \<Rightarrow> string \<Rightarrow> database \<Rightarrow> launch_claim option" where
  "cancellation_claim_due now k db = (case map_of (db_jobs db) k of
     None \<Rightarrow> None
   | Some j \<Rightarrow> (case jb_token j of
       None \<Rightarrow> None
     | Some t \<Rightarrow>
         if cancellation_due now j then Some \<lparr>cl_job = k, cl_token = t, cl_attempt = jb_attempt j\<rparr>
         else None))"

definition cancellation_blocked_by_critical :: "int \<Rightarrow> launch_claim \<Rightarrow> database \<Rightarrow> bool" where
  "cancellation_blocked_by_critical now c db = (case claimed_row db c of
     None \<Rightarrow> False
   | Some j \<Rightarrow> cancellation_due now j \<and> 0 < jb_depth j \<and>
       jb_critical_owner j = Some (cl_attempt c) \<and> jb_fence j = Fence_Open)"

section \<open>The kill fence\<close>

text \<open>
  \<open>authorize_signal\<close> reads the job (\<open>seen\<close>), asks the operating system, and then commits the fence if
  the row still names the same process: another transaction may come between.
\<close>

definition authorized :: "int \<Rightarrow> launch_claim option \<Rightarrow> job_row \<Rightarrow> job_row \<Rightarrow> bool" where
  "authorized now claim seen j \<longleftrightarrow>
     jb_pid j = jb_pid seen \<and> jb_identity j = jb_identity seen \<and> jb_fence j = Fence_Open \<and>
     jb_depth j = 0 \<and> jb_critical_owner j = None \<and>
     (case claim of None \<Rightarrow> True
      | Some c \<Rightarrow> cancellation_due now j \<and> jb_token j = Some (cl_token c) \<and> jb_attempt j = cl_attempt c)"

definition authorize_signal ::
  "os_view \<Rightarrow> int \<Rightarrow> string \<Rightarrow> launch_claim option \<Rightarrow> job_row \<Rightarrow> database \<Rightarrow> process_identity option \<times> database" where
  "authorize_signal os now k claim seen db = (case jb_identity seen of
     None \<Rightarrow> (None, db)
   | Some i \<Rightarrow>
       if jb_pid seen \<noteq> Some (pi_pid i) \<or> check_process_identity os i \<noteq> Same_Process then (None, db)
       else (case map_of (db_jobs db) k of
           None \<Rightarrow> (None, db)
         | Some j \<Rightarrow>
             if authorized now claim seen j
             then (Some i, put_job db (j\<lparr>jb_fence := Fence_Committed\<rparr>)) else (None, db)))"

text \<open>
  \<open>_wait_identity_exit\<close> polls until its deadline: \<open>polls\<close> are the readings it has time for (at
  least one).
\<close>

definition has_exited :: "os_view \<Rightarrow> process_identity \<Rightarrow> bool" where
  "has_exited os i \<longleftrightarrow> check_process_identity os i = Other_Process \<or>
     check_process_identity os i = Cannot_Tell \<and> \<not> os_alive os (pi_pid i)"

fun wait_identity_exit :: "process_identity \<Rightarrow> os_view list \<Rightarrow> bool" where
  "wait_identity_exit i [] = False"
| "wait_identity_exit i (os # polls) = (has_exited os i \<or> wait_identity_exit i polls)"

datatype signal = Request_Stop int | Force_Kill int

text \<open>What a termination sees of the system: at the fence, before TERM, after TERM, before KILL, after it.\<close>

record exit_watch =
  ew_fence :: os_view
  ew_before_stop :: os_view
  ew_after_stop :: "os_view list"
  ew_before_kill :: os_view
  ew_at_mismatch :: os_view
  ew_after_kill :: "os_view list"

definition terminate_identity_safe ::
  "exit_watch \<Rightarrow> int \<Rightarrow> string \<Rightarrow> launch_claim option \<Rightarrow> job_row \<Rightarrow> database \<Rightarrow>
     job_error + (bool \<times> signal list \<times> database)" where
  "terminate_identity_safe w now k claim seen db =
     (case authorize_signal (ew_fence w) now k claim seen db of
        (None, db1) \<Rightarrow> bind_res (require_job db1 k) (\<lambda>j. case jb_identity j of
            None \<Rightarrow> Inr (False, [], db1)
          | Some i \<Rightarrow> Inr (has_exited (ew_before_stop w) i, [], db1))
      | (Some i, db1) \<Rightarrow>
          if check_process_identity (ew_before_stop w) i \<noteq> Same_Process then Inr (False, [], db1)
          else if wait_identity_exit i (ew_after_stop w) then Inr (True, [Request_Stop (pi_pid i)], db1)
          else if check_process_identity (ew_before_kill w) i \<noteq> Same_Process
          then Inr (wait_identity_exit i [ew_at_mismatch w], [Request_Stop (pi_pid i)], db1)
          else Inr (wait_identity_exit i (ew_after_kill w),
            [Request_Stop (pi_pid i), Force_Kill (pi_pid i)], db1))"

section \<open>Recovery\<close>

definition list_active_jobs :: "database \<Rightarrow> job_row list" where
  "list_active_jobs db =
     sort_key jb_created (filter (\<lambda>j. \<not> terminal (jb_status j)) (map snd (db_jobs db)))"

text \<open>Whether the worker of a row must be taken for alive; a launch has its lease.\<close>

definition lease_runs :: "int \<Rightarrow> job_row \<Rightarrow> bool" where
  "lease_runs now j \<longleftrightarrow> (case jb_lease j of None \<Rightarrow> False | Some l \<Rightarrow> now < l)"

definition maybe_alive :: "os_view \<Rightarrow> int \<Rightarrow> job_row \<Rightarrow> bool" where
  "maybe_alive os now j \<longleftrightarrow> (case jb_identity j of
     Some i \<Rightarrow> (case check_process_identity os i of
         Same_Process \<Rightarrow> True | Cannot_Tell \<Rightarrow> os_alive os (pi_pid i) | Other_Process \<Rightarrow> False)
   | None \<Rightarrow> (case jb_pid j of Some p \<Rightarrow> os_alive os p | None \<Rightarrow> lease_runs now j))"

definition orphaned :: ending where
  "orphaned = no_ending\<lparr>en_error_code := Some ''orphaned'',
     en_error_message := Some ''Worker exited before persisting a terminal result.''\<rparr>"

text \<open>One row of the scan of \<open>reconcile_dead_workers\<close>, which may be stale by now.\<close>

definition reconcile_row :: "os_view \<Rightarrow> int \<Rightarrow> job_row \<Rightarrow> database \<Rightarrow> bool transaction" where
  "reconcile_row os now seen db =
     (if jb_status seen = Job_Queued \<or> maybe_alive os now seen then Inr (False, db)
      else (case jb_token seen of
        None \<Rightarrow> Inr (False, db)
      | Some t \<Rightarrow> finish now \<lparr>cl_job = jb_id seen, cl_token = t, cl_attempt = jb_attempt seen\<rparr>
          Job_Failed orphaned (Some (jb_version seen)) db))"

text \<open>A transaction on its own: when it raises the database is as before.\<close>

definition transact :: "database \<Rightarrow> 'a transaction \<Rightarrow> (job_error + 'a) \<times> database" where
  "transact db r = (case r of Inl e \<Rightarrow> (Inl e, db) | Inr (x, db1) \<Rightarrow> (Inr x, db1))"

text \<open>The loops stop at an exception; what was committed before it stays.\<close>

fun each_row :: "(job_row \<Rightarrow> database \<Rightarrow> (job_error + bool) \<times> database) \<Rightarrow> int \<Rightarrow> job_row list \<Rightarrow>
    database \<Rightarrow> (job_error + int) \<times> database" where
  "each_row f n [] db = (Inr n, db)"
| "each_row f n (j # js) db = (case f j db of
     (Inl e, db1) \<Rightarrow> (Inl e, db1)
   | (Inr changed, db1) \<Rightarrow> each_row f (if changed then n + 1 else n) js db1)"

text \<open>The scan asks the system and the clock anew for each row: \<open>views\<close> and \<open>clock\<close>, by job.\<close>

definition reconcile_dead_workers ::
  "(string \<Rightarrow> os_view) \<Rightarrow> (string \<Rightarrow> int) \<Rightarrow> database \<Rightarrow> (job_error + int) \<times> database" where
  "reconcile_dead_workers views clock db =
     each_row (\<lambda>j d. transact d (reconcile_row (views (jb_id j)) (clock (jb_id j)) j d)) 0
       (list_active_jobs db) db"

text \<open>One row of the scan of \<open>recover_startup\<close>.\<close>

definition unlaunched_message :: string where
  "unlaunched_message = ''API restarted before the queued job was launched.''"

definition startup_message :: string where
  "startup_message = ''Worker identity or lease was not live at API startup.''"

definition escalated :: ending where
  "escalated = no_ending\<lparr>en_error_code := Some ''cancel_escalated'',
     en_error_message := Some ''Cancellation deadline expired at API startup.''\<rparr>"

definition unverifiable_alive :: "os_view \<Rightarrow> job_row \<Rightarrow> bool" where
  "unverifiable_alive os j \<longleftrightarrow> (case jb_identity j of
     None \<Rightarrow> (case jb_pid j of None \<Rightarrow> False | Some p \<Rightarrow> os_alive os p)
   | Some i \<Rightarrow> os_alive os (pi_pid i))"

definition startup_comparison :: "os_view \<Rightarrow> job_row \<Rightarrow> identity_comparison" where
  "startup_comparison os j = (case jb_identity j of
     None \<Rightarrow> Cannot_Tell | Some i \<Rightarrow> check_process_identity os i)"

text \<open>
  A worker that is stopped first commits the kill fence, in its own transaction, then the job is
  ended if the process is gone.
\<close>

definition stop_then ::
  "exit_watch \<Rightarrow> int \<Rightarrow> string \<Rightarrow> launch_claim option \<Rightarrow> (database \<Rightarrow> bool transaction) \<Rightarrow> database \<Rightarrow>
     (job_error + bool) \<times> database" where
  "stop_then w now k claim ending_step db = (case require_job db k of
     Inl e \<Rightarrow> (Inl e, db)
   | Inr j \<Rightarrow> (case terminate_identity_safe w now k claim j db of
       Inl e \<Rightarrow> (Inl e, db)
     | Inr (gone, _, db1) \<Rightarrow> if gone then transact db1 (ending_step db1) else (Inr False, db1)))"

definition recover_row ::
  "bool \<Rightarrow> exit_watch \<Rightarrow> os_view \<Rightarrow> int \<Rightarrow> job_row \<Rightarrow> database \<Rightarrow> (job_error + bool) \<times> database" where
  "recover_row fail_queued w os now seen db =
     (let k = jb_id seen; fail = fail_active now k ''orphaned'' startup_message True in
      if jb_status seen = Job_Queued then
        (if fail_queued then transact db (fail_active now k ''startup_unlaunched'' unlaunched_message True db)
         else (Inr False, db))
      else if jb_status seen = Job_Cancelling then
        (if (case jb_cancel_deadline seen of None \<Rightarrow> False | Some d \<Rightarrow> now < d) then (Inr False, db)
         else (case cancellation_claim_due now k db of
           None \<Rightarrow> (Inr False, db)
         | Some c \<Rightarrow> stop_then w now k (Some c) (finish now c Job_Cancelled escalated None) db))
      else if startup_comparison os seen = Same_Process \<and> lease_runs now seen then (Inr False, db)
      else if startup_comparison os seen = Cannot_Tell \<and> unverifiable_alive os seen then
        (case require_job db k of
           Inl e \<Rightarrow> (Inl e, db)
         | Inr j \<Rightarrow> (Inr False, snd (authorize_signal (ew_fence w) now k None j db)))
      else if startup_comparison os seen = Same_Process then stop_then w now k None fail db
      else transact db (fail db))"

definition recover_startup ::
  "bool \<Rightarrow> (string \<Rightarrow> exit_watch) \<Rightarrow> (string \<Rightarrow> os_view) \<Rightarrow> (string \<Rightarrow> int) \<Rightarrow> database \<Rightarrow>
     (job_error + int) \<times> database" where
  "recover_startup fail_queued watches views clock db = (case clear_stale_critical_sections db of
     Inl e \<Rightarrow> (Inl e, db)
   | Inr (_, db1) \<Rightarrow> each_row (\<lambda>j. recover_row fail_queued (watches (jb_id j)) (views (jb_id j))
       (clock (jb_id j)) j) 0 (list_active_jobs db1) db1)"

section \<open>Deleting a run\<close>

text \<open>
  \<open>_active_operation_for_session\<close>, \<open>_reserve\<close> and the state changes of an operation. An operation is
  reserved only when no active job names the run as its session, its lane or its scope.
\<close>

definition names_run :: "string \<Rightarrow> job_row \<Rightarrow> bool" where
  "names_run k j \<longleftrightarrow> jb_session j = k \<or> jb_lane j = k \<or> jb_scope j = k"

definition busy_job :: "database \<Rightarrow> string \<Rightarrow> job_row option" where
  "busy_job db k = find (names_run k) (sort_key (\<lambda>j. (jb_created j, jb_id j))
     (filter (\<lambda>j. \<not> terminal (jb_status j)) (map snd (db_jobs db))))"

definition active_operation :: "database \<Rightarrow> string \<Rightarrow> string option" where
  "active_operation db k = map_option fst
     (find (\<lambda>(_, d). dl_session d = k \<and> active_deletion (dl_state d)) (db_deletions db))"

definition release_replay :: "string \<Rightarrow> string \<Rightarrow> job_row \<Rightarrow> job_row" where
  "release_replay project k j =
     (if jb_project j = project \<and> (jb_session j = k \<or> jb_lane j = k) \<and> terminal (jb_status j)
      then j\<lparr>jb_idempotency := None\<rparr> else j)"

definition reserve_deletion :: "string \<Rightarrow> string \<Rightarrow> database \<Rightarrow> (string \<times> bool) transaction" where
  "reserve_deletion op k db = (case map_of (db_sessions db) k of
     None \<Rightarrow> (case active_operation db k of
         None \<Rightarrow> Inl (Deletion_Not_Found k) | Some o' \<Rightarrow> Inr ((o', False), db))
   | Some s \<Rightarrow>
       if ss_storage s = Deleting \<and> ss_delete_op s \<noteq> None then Inr ((the (ss_delete_op s), False), db)
       else if ss_storage s \<noteq> Live then Inl (Deletion_Blocked ''unknown'')
       else (case busy_job db k of
         Some j \<Rightarrow> Inl (Deletion_Busy k (jb_id j))
       | None \<Rightarrow> bind_res (guarding
           [(map_of (db_deletions db) op \<noteq> None, Integrity_Error ''UNIQUE constraint failed: storage_operations.op_id''),
            (list_ex (\<lambda>(_, d). dl_session d = k \<and> dl_project d = ss_project s \<and>
               active_deletion (dl_state d)) (db_deletions db),
             Integrity_Error ''UNIQUE constraint failed: storage_operations.resource_key'')]
           (db\<lparr>db_jobs := map (\<lambda>(i, j). (i, release_replay (ss_project s) k j)) (db_jobs db),
             db_deletions := dict_set op \<lparr>dl_project = ss_project s, dl_session = k, dl_state = Del_Prepared\<rparr>
               (db_deletions db)\<rparr>)) (\<lambda>db1.
         bind_res (put_session db1 k s (s\<lparr>ss_storage := Deleting, ss_delete_op := Some op,
           ss_version := ss_version s + 1\<rparr>)) (\<lambda>db2. Inr ((op, True), db2)))))"

text \<open>The three updates \<open>set state = ? where op_id = ? and state = ?\<close>, and \<open>_block\<close>.\<close>

definition move_deletion ::
  "string \<Rightarrow> deletion_state \<Rightarrow> deletion_state \<Rightarrow> database \<Rightarrow> unit transaction" where
  "move_deletion op from to db = (case map_of (db_deletions db) op of
     None \<Rightarrow> Inl (Deletion_Retryable op)
   | Some d \<Rightarrow>
       if dl_state d = from
       then Inr ((), db\<lparr>db_deletions := dict_set op (d\<lparr>dl_state := to\<rparr>) (db_deletions db)\<rparr>)
       else Inl (Deletion_Retryable op))"

definition quarantine_applied :: "string \<Rightarrow> database \<Rightarrow> unit transaction" where
  "quarantine_applied op db = move_deletion op Del_Prepared Del_Fs_Applied db"

definition mark_done :: "string \<Rightarrow> database \<Rightarrow> unit transaction" where
  "mark_done op db = move_deletion op Del_Db_Committed Del_Done db"

definition block_deletion :: "string \<Rightarrow> database \<Rightarrow> database" where
  "block_deletion op db = (case map_of (db_deletions db) op of
     None \<Rightarrow> db
   | Some d \<Rightarrow>
       if dl_state d \<in> {Del_Done, Del_Aborted, Del_Db_Committed} then db
       else db\<lparr>db_deletions := dict_set op (d\<lparr>dl_state := Del_Blocked\<rparr>) (db_deletions db)\<rparr>)"

text \<open>
  The transaction of \<open>_commit_database_deletion\<close> on these tables: the events of the run go, the audit
  event is written, the row of the run is deleted.
\<close>

definition delete_run :: "string \<Rightarrow> deletion_row \<Rightarrow> string \<Rightarrow> database \<Rightarrow> unit transaction" where
  "delete_run op d payload db = (case map_of (db_sessions db) (dl_session d) of
     None \<Rightarrow>
       if map_option dl_state (map_of (db_deletions db) op) = Some Del_Db_Committed then Inr ((), db)
       else Inl (Deletion_Retryable op)
   | Some s \<Rightarrow>
       if ss_project s \<noteq> dl_project d then
         (if map_option dl_state (map_of (db_deletions db) op) = Some Del_Db_Committed then Inr ((), db)
          else Inl (Deletion_Retryable op))
       else if ss_storage s \<noteq> Deleting \<or> ss_delete_op s \<noteq> Some op then Inl (Deletion_Blocked op)
       else (case busy_job db (dl_session d) of
         Some j \<Rightarrow> Inl (Deletion_Busy (dl_session d) (jb_id j))
       | None \<Rightarrow>
           (let audits = (case map_of (db_audits db) op of
              None \<Rightarrow> dict_set op payload (db_audits db) | Some p \<Rightarrow> db_audits db) in
            if map_of audits op \<noteq> Some payload then Inl (Deletion_Blocked op)
            else move_deletion op Del_Fs_Applied Del_Db_Committed
              (db\<lparr>db_events := filter (\<lambda>e. \<not> (je_project e = dl_project d \<and> je_session e = dl_session d))
                   (db_events db),
                 db_audits := audits,
                 db_sessions := dict_del (dl_session d) (db_sessions db)\<rparr>))))"

definition commit_database_deletion ::
  "string \<Rightarrow> deletion_row \<Rightarrow> string \<Rightarrow> database \<Rightarrow> (job_error + unit) \<times> database" where
  "commit_database_deletion op d payload db = (case delete_run op d payload db of
     Inr (_, db1) \<Rightarrow> (Inr (), db1)
   | Inl (Deletion_Blocked o') \<Rightarrow> (Inl (Deletion_Blocked op), block_deletion op db)
   | Inl e \<Rightarrow> (Inl e, db))"

section \<open>Runs\<close>

text \<open>\<open>ArtifactStore.start_session\<close> and \<open>mark_session_status\<close>, on the row of the run. The first query of
  \<open>start_session\<close> for a run without a row has no filter on the kind of the operation: any operation of
  \<open>storage_operations\<close> that is not aborted and has the run id as its resource key refuses it, the
  deletions and the replacements (\<open>StorageOps\<close>) alike. \<open>others\<close> holds the resource keys of the operations
  that are not deletions and are not aborted when the call runs.\<close>

definition publish_fenced :: "database \<Rightarrow> string \<Rightarrow> session_row \<Rightarrow> string option" where
  "publish_fenced db project s = (if ss_project s = project \<and> ss_storage s = Live
     then (case ss_active_job s of None \<Rightarrow> None
       | Some k \<Rightarrow> if committed_owner db k then Some k else None) else None)"

definition start_session :: "string list \<Rightarrow> string \<Rightarrow> string \<Rightarrow> database \<Rightarrow> unit transaction" where
  "start_session others project k db =
     (if not_live db k \<or> deletion_active db k then Inl (Session_Deleting k)
      else (case map_of (db_sessions db) k of
        None \<Rightarrow>
          if list_ex (\<lambda>(_, d). dl_session d = k \<and> dl_state d \<noteq> Del_Aborted) (db_deletions db) \<or>
             k \<in> set others
          then Inl (Session_Deleting k)
          else Inr ((), db\<lparr>db_sessions := dict_set k \<lparr>ss_project = project, ss_status = ''running'',
            ss_active_job = None, ss_storage = Live, ss_delete_op = None, ss_version = 0\<rparr> (db_sessions db)\<rparr>)
      | Some s \<Rightarrow>
          if ss_project s \<noteq> project \<or> ss_storage s \<noteq> Live then Inl (Session_Deleting k)
          else (case publish_fenced db project s of
              Some job \<Rightarrow> Inl (Publish_Fenced k job)
            | None \<Rightarrow> bind_res (put_session db k s (s\<lparr>ss_status := ''running''\<rparr>)) (\<lambda>db1. Inr ((), db1)))))"

definition mark_session_status :: "string \<Rightarrow> string \<Rightarrow> string \<Rightarrow> database \<Rightarrow> unit transaction" where
  "mark_session_status project k st db =
     (if not_live db k \<or> deletion_active db k then Inl (Session_Deleting k)
      else (case map_of (db_sessions db) k of
        None \<Rightarrow>
          if list_ex (\<lambda>(_, d). dl_session d = k \<and> dl_state d \<noteq> Del_Aborted) (db_deletions db)
          then Inl (Session_Deleting k) else Inr ((), db)
      | Some s \<Rightarrow>
          if ss_project s \<noteq> project then
            (if list_ex (\<lambda>(_, d). dl_session d = k \<and> dl_state d \<noteq> Del_Aborted) (db_deletions db)
             then Inl (Session_Deleting k) else Inr ((), db))
          else (case publish_fenced db project s of
              Some job \<Rightarrow> Inl (Publish_Fenced k job)
            | None \<Rightarrow>
                if ss_storage s = Live
                then bind_res (put_session db k s (s\<lparr>ss_status := st\<rparr>)) (\<lambda>db1. Inr ((), db1))
                else Inr ((), db))))"

section \<open>Commands\<close>

text \<open>
  What the API, the workers and the deletion coordinator do to the tables, one call of the
  repository each; a schedule of any of them is a list of commands. A command that raises leaves
  what its transactions committed.
\<close>

datatype job_command =
    Start_Session "string list" string string
  | Mark_Session string string string
  | Create int job_request
  | Launch int string string string
  | Acknowledge int launch_claim int "process_identity option"
  | Child_Start int launch_claim
  | Beat int launch_claim
  | Enter_Critical launch_claim
  | Exit_Critical launch_claim
  | Finish int launch_claim job_status ending "int option"
  | Fail int string string string bool
  | Cancel int int string
  | Authorize os_view int string "launch_claim option" job_row
  | Reconcile_Row os_view int job_row
  | Recover_Row bool exit_watch os_view int job_row
  | Reconcile "string \<Rightarrow> os_view" "string \<Rightarrow> int"
  | Recover bool "string \<Rightarrow> exit_watch" "string \<Rightarrow> os_view" "string \<Rightarrow> int"
  | Reserve_Deletion string string
  | Quarantine_Applied string
  | Commit_Deletion string deletion_row string
  | Mark_Done string
  | Block_Deletion string

definition committed :: "database \<Rightarrow> 'a transaction \<Rightarrow> database" where
  "committed db r = snd (transact db r)"

fun perform :: "database \<Rightarrow> job_command \<Rightarrow> database" where
  "perform db (Start_Session others p k) = committed db (start_session others p k db)"
| "perform db (Mark_Session p k st) = committed db (mark_session_status p k st db)"
| "perform db (Create now q) = committed db (create_queued_job now q db)"
| "perform db (Launch now t w k) = committed db (claim_launch now t w k db)"
| "perform db (Acknowledge now c p i) = committed db (acknowledge_spawn now c p i db)"
| "perform db (Child_Start now c) = committed db (child_start now c db)"
| "perform db (Beat now c) = committed db (heartbeat now c db)"
| "perform db (Enter_Critical c) = committed db (enter_critical c db)"
| "perform db (Exit_Critical c) = committed db (exit_critical c db)"
| "perform db (Finish now c st en v) = committed db (finish now c st en v db)"
| "perform db (Fail now k code m clear) = committed db (fail_active now k code m clear db)"
| "perform db (Cancel now grace k) = committed db (request_cancel now grace k db)"
| "perform db (Authorize os now k claim seen) = snd (authorize_signal os now k claim seen db)"
| "perform db (Reconcile_Row os now seen) = committed db (reconcile_row os now seen db)"
| "perform db (Recover_Row b w os now seen) = snd (recover_row b w os now seen db)"
| "perform db (Reconcile views clock) = snd (reconcile_dead_workers views clock db)"
| "perform db (Recover b watches views clock) = snd (recover_startup b watches views clock db)"
| "perform db (Reserve_Deletion op k) = committed db (reserve_deletion op k db)"
| "perform db (Quarantine_Applied op) = committed db (quarantine_applied op db)"
| "perform db (Commit_Deletion op d payload) = snd (commit_database_deletion op d payload db)"
| "perform db (Mark_Done op) = committed db (mark_done op db)"
| "perform db (Block_Deletion op) = block_deletion op db"

definition run_commands :: "job_command list \<Rightarrow> database \<Rightarrow> database" where
  "run_commands cs db = foldl perform db cs"

definition empty_database :: database where
  "empty_database = \<lparr>db_jobs = [], db_sessions = [], db_events = [], db_deletions = [], db_audits = []\<rparr>"

end
