(* ===== verification/JobInvariant.thy ===== *)
theory JobInvariant
  imports JobRecovery
begin

text \<open>
  The invariant of the job tables, how a row may evolve, and that every transaction keeps the one
  and obeys the other. The transactions are composed of three updates (of a row, of an ended row
  with its run and its event, of the event list), so each proof reduces to theirs.
\<close>

section \<open>Rows\<close>

abbreviation job_at :: "database \<Rightarrow> string \<Rightarrow> job_row option" where
  "job_at db \<equiv> map_of (db_jobs db)"

abbreviation session_at :: "database \<Rightarrow> string \<Rightarrow> session_row option" where
  "session_at db \<equiv> map_of (db_sessions db)"

abbreviation active :: "job_row \<Rightarrow> bool" where
  "active j \<equiv> \<not> terminal (jb_status j)"

lemma terminal_iff: "st \<in> set terminal_statuses \<longleftrightarrow> st \<in> {Job_Completed, Job_Failed, Job_Cancelled}"
  by (simp add: terminal_statuses_def)

definition shield_ok :: "job_row \<Rightarrow> bool" where
  "shield_ok j \<longleftrightarrow> (jb_depth j = 0 \<and> jb_critical_owner j = None \<or>
     0 < jb_depth j \<and> jb_critical_owner j = Some (jb_attempt j) \<and> jb_fence j = Fence_Open \<and>
     jb_status j \<in> {Job_Running, Job_Cancelling})"

definition row_ok :: "string \<Rightarrow> job_row \<Rightarrow> bool" where
  "row_ok k j \<longleftrightarrow> jb_id j = k \<and> shield_ok j \<and>
     (jb_status j = Job_Cancelling \<longrightarrow> jb_cancel_requested j) \<and>
     (jb_cancel_requested j \<longrightarrow> jb_status j \<in> {Job_Cancelling, Job_Cancelled})"

text \<open>What never changes of a job, and how the rest may.\<close>

definition same_job :: "job_row \<Rightarrow> job_row \<Rightarrow> bool" where
  "same_job j j' \<longleftrightarrow> jb_id j' = jb_id j \<and> jb_session j' = jb_session j \<and> jb_project j' = jb_project j \<and>
     jb_lane j' = jb_lane j \<and> jb_scope j' = jb_scope j"

definition job_step :: "job_row \<Rightarrow> job_row \<Rightarrow> bool" where
  "job_step j j' \<longleftrightarrow> same_job j j' \<and>
     (terminal (jb_status j) \<longrightarrow> jb_status j' = jb_status j) \<and>
     (jb_status j = Job_Cancelling \<longrightarrow> jb_status j' \<in> {Job_Cancelling, Job_Cancelled}) \<and>
     (jb_status j \<noteq> Job_Queued \<longrightarrow>
        jb_status j' \<noteq> Job_Queued \<and> jb_token j' = jb_token j \<and> jb_attempt j' = jb_attempt j) \<and>
     (jb_fence j = Fence_Committed \<longrightarrow> jb_fence j' = Fence_Committed) \<and>
     jb_version j \<le> jb_version j'"

lemma same_job_refl [simp]: "same_job j j"
  by (simp add: same_job_def)

lemma job_step_refl [simp]: "job_step j j"
  by (simp add: job_step_def)

lemma job_stepD:
  assumes "job_step j j'"
  shows "same_job j j'" "terminal (jb_status j) \<Longrightarrow> jb_status j' = jb_status j"
    "jb_status j = Job_Cancelling \<Longrightarrow> jb_status j' \<in> {Job_Cancelling, Job_Cancelled}"
    "jb_status j \<noteq> Job_Queued \<Longrightarrow> jb_status j' \<noteq> Job_Queued"
    "jb_status j \<noteq> Job_Queued \<Longrightarrow> jb_token j' = jb_token j"
    "jb_status j \<noteq> Job_Queued \<Longrightarrow> jb_attempt j' = jb_attempt j"
    "jb_fence j = Fence_Committed \<Longrightarrow> jb_fence j' = Fence_Committed"
    "jb_version j \<le> jb_version j'"
  using assms unfolding job_step_def by blast+

lemma same_job_trans: "same_job i j \<Longrightarrow> same_job j k \<Longrightarrow> same_job i k"
  by (simp add: same_job_def)

lemma job_step_trans:
  assumes a: "job_step i j" and b: "job_step j k"
  shows "job_step i k"
  unfolding job_step_def
proof (intro conjI impI)
  show "same_job i k" using job_stepD(1)[OF a] job_stepD(1)[OF b] by (rule same_job_trans)
  show "jb_status k = jb_status i" if "terminal (jb_status i)"
    using job_stepD(2)[OF a that] job_stepD(2)[OF b] that by simp
  show "jb_status k \<in> {Job_Cancelling, Job_Cancelled}" if "jb_status i = Job_Cancelling"
    using job_stepD(3)[OF a that] job_stepD(2,3)[OF b] by (auto simp: terminal_iff)
  show "jb_fence k = Fence_Committed" if "jb_fence i = Fence_Committed"
    using job_stepD(7)[OF a that] job_stepD(7)[OF b] by simp
  show "jb_version i \<le> jb_version k" using job_stepD(8)[OF a] job_stepD(8)[OF b] by simp
  assume q: "jb_status i \<noteq> Job_Queued"
  show "jb_status k \<noteq> Job_Queued" "jb_token k = jb_token i" "jb_attempt k = jb_attempt i"
    using job_stepD(4-6)[OF a q] job_stepD(4-6)[OF b job_stepD(4)[OF a q]] by simp_all
qed

section \<open>The database\<close>

definition owns :: "database \<Rightarrow> string \<Rightarrow> job_row \<Rightarrow> bool" where
  "owns db k j \<longleftrightarrow> (\<exists>s. session_at db (jb_session j) = Some s \<and> ss_project s = jb_project j \<and>
     ss_active_job s = Some k \<and> ss_storage s = Live) \<and>
     \<not> not_live db (jb_lane j) \<and> \<not> deletion_active db (jb_session j) \<and> \<not> deletion_active db (jb_lane j)"

definition ending_event :: "job_event \<Rightarrow> bool" where
  "ending_event e \<longleftrightarrow> je_type e \<in> {''job.completed'', ''job.failed'', ''job.cancelled''}"

definition ended_as :: "database \<Rightarrow> string \<Rightarrow> job_row \<Rightarrow> bool" where
  "ended_as db k j \<longleftrightarrow> (\<forall>e \<in> set (db_events db). je_job e = k \<and> ending_event e \<longrightarrow>
     terminal (jb_status j) \<and> je_type e = ''job.'' @ status_text (jb_status j))"

definition endings_of :: "database \<Rightarrow> string \<Rightarrow> job_event list" where
  "endings_of db k = filter (\<lambda>e. je_job e = k \<and> ending_event e) (db_events db)"

definition keys_ok :: "database \<Rightarrow> bool" where
  "keys_ok db \<longleftrightarrow> distinct (dict_keys (db_jobs db)) \<and> distinct (dict_keys (db_sessions db))"

definition rows_ok :: "database \<Rightarrow> bool" where
  "rows_ok db \<longleftrightarrow> (\<forall>k j. job_at db k = Some j \<longrightarrow> row_ok k j)"

definition owners_ok :: "database \<Rightarrow> bool" where
  "owners_ok db \<longleftrightarrow> (\<forall>k j. job_at db k = Some j \<longrightarrow> active j \<longrightarrow> owns db k j)"

definition endings_ok :: "database \<Rightarrow> bool" where
  "endings_ok db \<longleftrightarrow> (\<forall>k j. job_at db k = Some j \<longrightarrow> ended_as db k j)"

definition lanes_ok :: "database \<Rightarrow> bool" where
  "lanes_ok db \<longleftrightarrow> (\<forall>k j i h. job_at db k = Some j \<longrightarrow> job_at db i = Some h \<longrightarrow> active j \<longrightarrow>
     active h \<longrightarrow> jb_lane j = jb_lane h \<longrightarrow> k = i)"

definition tokens_ok :: "database \<Rightarrow> bool" where
  "tokens_ok db \<longleftrightarrow> (\<forall>k j i h. job_at db k = Some j \<longrightarrow> job_at db i = Some h \<longrightarrow>
     jb_token j \<noteq> None \<longrightarrow> jb_token j = jb_token h \<longrightarrow> k = i)"

definition trace_ok :: "database \<Rightarrow> bool" where
  "trace_ok db \<longleftrightarrow> (\<forall>e \<in> set (db_events db). je_job e \<in> dom (job_at db)) \<and>
     (\<forall>k. length (endings_of db k) \<le> 1)"

definition db_ok :: "database \<Rightarrow> bool" where
  "db_ok db \<longleftrightarrow> keys_ok db \<and> rows_ok db \<and> owners_ok db \<and> endings_ok db \<and> lanes_ok db \<and>
     tokens_ok db \<and> trace_ok db"

lemmas db_parts = keys_ok_def rows_ok_def owners_ok_def endings_ok_def lanes_ok_def tokens_ok_def
  trace_ok_def

lemma db_okI:
  assumes "distinct (dict_keys (db_jobs db))" "distinct (dict_keys (db_sessions db))"
    "\<And>k j. job_at db k = Some j \<Longrightarrow> row_ok k j"
    "\<And>k j. job_at db k = Some j \<Longrightarrow> active j \<Longrightarrow> owns db k j"
    "\<And>k j. job_at db k = Some j \<Longrightarrow> ended_as db k j"
    "\<And>k j i h. job_at db k = Some j \<Longrightarrow> job_at db i = Some h \<Longrightarrow> active j \<Longrightarrow> active h \<Longrightarrow>
       jb_lane j = jb_lane h \<Longrightarrow> k = i"
    "\<And>k j i h. job_at db k = Some j \<Longrightarrow> job_at db i = Some h \<Longrightarrow> jb_token j \<noteq> None \<Longrightarrow>
       jb_token j = jb_token h \<Longrightarrow> k = i"
    "\<And>e. e \<in> set (db_events db) \<Longrightarrow> je_job e \<in> dom (job_at db)"
    "\<And>k. length (endings_of db k) \<le> 1"
  shows "db_ok db"
proof -
  have "keys_ok db" "rows_ok db" "owners_ok db" "endings_ok db"
    unfolding db_parts using assms(1-5) by blast+
  moreover have "lanes_ok db" unfolding lanes_ok_def using assms(6) by blast
  moreover have "tokens_ok db" unfolding tokens_ok_def using assms(7) by blast
  moreover have "trace_ok db" unfolding trace_ok_def using assms(8,9) by blast
  ultimately show ?thesis by (simp add: db_ok_def)
qed

lemma db_ok_parts:
  assumes "db_ok db"
  shows "keys_ok db" "rows_ok db" "owners_ok db" "endings_ok db" "lanes_ok db" "tokens_ok db" "trace_ok db"
  using assms by (simp_all add: db_ok_def)

lemma db_okD:
  assumes "db_ok db"
  shows "distinct (dict_keys (db_jobs db))" "distinct (dict_keys (db_sessions db))"
    "job_at db k = Some j \<Longrightarrow> row_ok k j"
    "job_at db k = Some j \<Longrightarrow> active j \<Longrightarrow> owns db k j"
    "job_at db k = Some j \<Longrightarrow> ended_as db k j"
    "job_at db k = Some j \<Longrightarrow> job_at db i = Some h \<Longrightarrow> active j \<Longrightarrow> active h \<Longrightarrow>
       jb_lane j = jb_lane h \<Longrightarrow> k = i"
    "job_at db k = Some j \<Longrightarrow> job_at db i = Some h \<Longrightarrow> jb_token j \<noteq> None \<Longrightarrow>
       jb_token j = jb_token h \<Longrightarrow> k = i"
    "e \<in> set (db_events db) \<Longrightarrow> je_job e \<in> dom (job_at db)"
    "length (endings_of db k) \<le> 1"
  subgoal using db_ok_parts(1)[OF assms] by (simp add: keys_ok_def)
  subgoal using db_ok_parts(1)[OF assms] by (simp add: keys_ok_def)
  subgoal using db_ok_parts(2)[OF assms] unfolding rows_ok_def by blast
  subgoal using db_ok_parts(3)[OF assms] unfolding owners_ok_def by blast
  subgoal using db_ok_parts(4)[OF assms] unfolding endings_ok_def by blast
  subgoal using db_ok_parts(5)[OF assms] unfolding lanes_ok_def by blast
  subgoal using db_ok_parts(6)[OF assms] unfolding tokens_ok_def by blast
  subgoal using db_ok_parts(7)[OF assms] unfolding trace_ok_def by blast
  subgoal using db_ok_parts(7)[OF assms] unfolding trace_ok_def by blast
  done

text \<open>How the database evolves: rows by steps, and no deletion is undone.\<close>

definition evolves :: "database \<Rightarrow> database \<Rightarrow> bool" where
  "evolves db db' \<longleftrightarrow>
     (\<forall>k j. job_at db k = Some j \<longrightarrow> (\<exists>j'. job_at db' k = Some j' \<and> job_step j j')) \<and>
     (\<forall>op d. map_of (db_deletions db) op = Some d \<and> dl_state d \<noteq> Del_Aborted \<longrightarrow>
        (\<exists>d'. map_of (db_deletions db') op = Some d' \<and> dl_session d' = dl_session d \<and>
           dl_state d' \<noteq> Del_Aborted))"

lemma evolves_refl [simp]: "evolves db db"
  by (simp add: evolves_def)

lemma evolvesE:
  assumes "evolves db db'" "job_at db k = Some j"
  obtains j' where "job_at db' k = Some j'" "job_step j j'"
  using assms unfolding evolves_def by blast

lemma evolves_deletion:
  assumes "evolves db db'" "map_of (db_deletions db) op = Some d" "dl_state d \<noteq> Del_Aborted"
  obtains d' where "map_of (db_deletions db') op = Some d'" "dl_session d' = dl_session d"
    "dl_state d' \<noteq> Del_Aborted"
  using assms unfolding evolves_def by blast

lemma evolves_trans:
  assumes "evolves a b" "evolves b c"
  shows "evolves a c"
  unfolding evolves_def
proof (intro conjI allI impI, goal_cases)
  case (1 k i)
  obtain j where "job_at b k = Some j" "job_step i j" by (rule evolvesE[OF assms(1) 1])
  moreover from this(1) obtain j' where "job_at c k = Some j'" "job_step j j'"
    by (rule evolvesE[OF assms(2)])
  ultimately show ?case using job_step_trans by blast
next
  case (2 op d)
  obtain d1 where d1: "map_of (db_deletions b) op = Some d1" "dl_session d1 = dl_session d"
    "dl_state d1 \<noteq> Del_Aborted" using evolves_deletion[OF assms(1)] 2 by blast
  obtain d2 where "map_of (db_deletions c) op = Some d2" "dl_session d2 = dl_session d1"
    "dl_state d2 \<noteq> Del_Aborted" using evolves_deletion[OF assms(2) d1(1,3)] by blast
  then show ?case using d1(2) by simp
qed

lemma put_job_fields [simp]:
  "db_jobs (put_job db j) = dict_set (jb_id j) j (db_jobs db)"
  "db_sessions (put_job db j) = db_sessions db" "db_events (put_job db j) = db_events db"
  "db_deletions (put_job db j) = db_deletions db" "db_audits (put_job db j) = db_audits db"
  by (simp_all add: put_job_def)

lemma owns_cong:
  "db_sessions db' = db_sessions db \<Longrightarrow> db_deletions db' = db_deletions db \<Longrightarrow> same_job j j' \<Longrightarrow>
     owns db' k j' = owns db k j"
  by (simp add: owns_def not_live_def deletion_active_def same_job_def)

lemma evolves_put:
  assumes "job_at db k = Some j" "job_step j j'" "jb_id j = k"
    "db_jobs db' = dict_set k j' (db_jobs db)" "db_deletions db' = db_deletions db"
  shows "evolves db db'"
  using assms unfolding evolves_def by auto

section \<open>Updating an active row\<close>

lemma jobs_in_set:
  assumes "db_ok db"
  shows "(i, h) \<in> set (db_jobs db) \<longleftrightarrow> job_at db i = Some h"
  using db_okD(1)[OF assms] by simp

lemma token_taken_iff:
  assumes "db_ok db"
  shows "token_taken db j \<longleftrightarrow>
    (\<exists>i h. job_at db i = Some h \<and> i \<noteq> jb_id j \<and> jb_token j \<noteq> None \<and> jb_token h = jb_token j)"
  unfolding token_taken_def list_ex_iff Bex_def split_paired_Ex prod.case jobs_in_set[OF assms] by blast

lemma lane_taken_iff:
  assumes "db_ok db"
  shows "lane_taken db j \<longleftrightarrow>
    (\<exists>i h. job_at db i = Some h \<and> i \<noteq> jb_id j \<and> active j \<and> active h \<and> jb_lane h = jb_lane j)"
  unfolding lane_taken_def list_ex_iff Bex_def split_paired_Ex prod.case jobs_in_set[OF assms] by blast

lemma token_free:
  assumes "db_ok db" "job_at db k = Some j" "jb_id j' = k" "jb_token j' = jb_token j"
  shows "\<not> token_taken db j'"
  using assms db_okD(7)[OF assms(1,2)] unfolding token_taken_iff[OF assms(1)] by metis

lemma lane_free:
  assumes "db_ok db" "job_at db k = Some j" "active j" "jb_id j' = k" "jb_lane j' = jb_lane j"
  shows "\<not> lane_taken db j'"
  using assms db_okD(6)[OF assms(1,2)] unfolding lane_taken_iff[OF assms(1)] by metis

lemma db_ok_put:
  assumes ok: "db_ok db" and j: "job_at db k = Some j"
    and act: "jb_status j' = jb_status j \<or> active j \<and> active j'"
    and same: "same_job j j'" and row: "row_ok k j'" and free: "\<not> token_taken db j'"
  shows "db_ok (put_job db j')"
proof -
  have id: "jb_id j' = k" using row by (simp add: row_ok_def)
  have own: "owns (put_job db j') i h = owns db i h" for i h by (rule owns_cong) simp_all
  have both: "active j' \<longleftrightarrow> active j" using act by auto
  have own': "owns db k j'" if "active j'"
    using db_okD(4)[OF ok j] that both owns_cong[OF refl refl same] by blast
  have none: "ended_as db k j'"
    using act db_okD(5)[OF ok j] unfolding ended_as_def by (elim disjE) (simp, blast)
  have lane: "jb_lane j' = jb_lane j" using same by (simp add: same_job_def)
  show ?thesis
  proof (rule db_okI)
    fix i h assume h: "job_at (put_job db j') i = Some h"
    show "row_ok i h" using h row db_okD(3)[OF ok] by (auto simp: id split: if_splits)
    show "ended_as (put_job db j') i h"
      using h none db_okD(5)[OF ok, of i h] by (auto simp: id ended_as_def split: if_splits)
    show "owns (put_job db j') i h" if "active h"
      using h that own' db_okD(4)[OF ok] unfolding own by (auto simp: id split: if_splits)
    fix i' h' assume h': "job_at (put_job db j') i' = Some h'" "active h" "active h'" "jb_lane h = jb_lane h'"
    have old: "\<exists>h0. job_at db n = Some h0 \<and> active h0 \<and> jb_lane h0 = jb_lane g"
      if "job_at (put_job db j') n = Some g" "active g" for n g
      using that j both lane by (cases "n = k") (simp_all add: id)
    show "i = i'" using old[OF h h'(2)] old[OF h'(1,3)] db_okD(6)[OF ok] h'(4) by metis
  next
    fix i h i' h' assume h: "job_at (put_job db j') i = Some h" "job_at (put_job db j') i' = Some h'"
      "jb_token h \<noteq> None" "jb_token h = jb_token h'"
    have new: "jb_token g \<noteq> jb_token j'" if "job_at db n = Some g" "n \<noteq> k" "jb_token g \<noteq> None" for n g
      using free that unfolding token_taken_iff[OF ok] id by metis
    consider "i = k" "i' = k" | "i = k" "i' \<noteq> k" | "i \<noteq> k" "i' = k" | "i \<noteq> k" "i' \<noteq> k" by blast
    then show "i = i'"
    proof cases
      case 2
      then have "h = j'" "job_at db i' = Some h'" using h 2 id by auto
      then show ?thesis using h 2 new[of i' h'] by simp
    next
      case 3
      then have "h' = j'" "job_at db i = Some h" using h 3 id by auto
      then show ?thesis using h 3 new[of i h] by simp
    next
      case 4
      then have "job_at db i = Some h" "job_at db i' = Some h'" using h(1,2) id by auto
      then show ?thesis using db_okD(7)[OF ok] h(3,4) by blast
    qed simp
  next
    show "length (endings_of (put_job db j') i) \<le> 1" for i
      using db_okD(9)[OF ok, of i] by (simp add: endings_of_def)
    show "je_job e \<in> dom (job_at (put_job db j'))" if "e \<in> set (db_events (put_job db j'))" for e
      using db_okD(8)[OF ok, of e] that by simp
    show "distinct (dict_keys (db_jobs (put_job db j')))" using db_okD(1)[OF ok] by (auto simp: id)
    show "distinct (dict_keys (db_sessions (put_job db j')))" using db_okD(2)[OF ok] by simp
  qed
qed

section \<open>Ending a job\<close>

lemma db_ok_end:
  assumes ok: "db_ok db" and j: "job_at db k = Some j" and act: "active j" "terminal (jb_status j')"
    and same: "same_job j j'" and row: "row_ok k j'" and token: "jb_token j' = jb_token j"
    and s: "ss_storage s' = Live"
    and e: "je_job e = k" "je_type e = ''job.'' @ status_text (jb_status j')"
    and db': "db_jobs db' = dict_set k j' (db_jobs db)"
      "db_sessions db' = dict_set (jb_session j) s' (db_sessions db)"
      "db_events db' = db_events db @ [e]" "db_deletions db' = db_deletions db"
  shows "db_ok db'"
proof -
  obtain s where own: "session_at db (jb_session j) = Some s" "ss_active_job s = Some k"
    using db_okD(4)[OF ok j act(1)] unfolding owns_def by blast
  have at: "job_at db' i = (if i = k then Some j' else job_at db i)" for i
    by (simp add: db')
  have quiet: "endings_of db k = []"
    using db_okD(5)[OF ok j] act(1) by (auto simp: endings_of_def ended_as_def filter_empty_conv)
  have live: "not_live db' t \<Longrightarrow> not_live db t" for t
    by (auto simp: not_live_def db' s split: option.splits if_splits)
  have deleted: "deletion_active db' t = deletion_active db t" for t
    by (simp add: deletion_active_def db')
  show ?thesis
  proof (rule db_okI)
    show "distinct (dict_keys (db_jobs db'))" "distinct (dict_keys (db_sessions db'))"
      using db_okD(1,2)[OF ok] by (auto simp: db')
    show "row_ok i h" if "job_at db' i = Some h" for i h
      using that row db_okD(3)[OF ok] by (auto simp: at split: if_splits)
    show "owns db' i h" if "job_at db' i = Some h" "active h" for i h
    proof -
      have h: "job_at db i = Some h" "i \<noteq> k" using that act(2) by (auto simp: at split: if_splits)
      have "owns db i h" using db_okD(4)[OF ok h(1) that(2)] .
      moreover from this own h(2) have "jb_session h \<noteq> jb_session j" unfolding owns_def by auto
      ultimately show ?thesis unfolding owns_def deleted using live by (simp add: db') blast
    qed
    show "ended_as db' i h" if "job_at db' i = Some h" for i h
    proof (cases "i = k")
      case True
      then show ?thesis using that quiet act(2) e
        by (auto simp: at ended_as_def db' endings_of_def filter_empty_conv)
    next
      case False
      then show ?thesis using that e(1) db_okD(5)[OF ok, of i h] by (auto simp: at ended_as_def db')
    qed
    show "i = n" if "job_at db' i = Some h" "job_at db' n = Some g" "active h" "active g"
      "jb_lane h = jb_lane g" for i h n g
      using that act(2) db_okD(6)[OF ok, of i h n g] by (auto simp: at split: if_splits)
    show "i = n" if h: "job_at db' i = Some h" "job_at db' n = Some g" "jb_token h \<noteq> None"
      "jb_token h = jb_token g" for i h n g
    proof -
      have old: "\<exists>f. job_at db m = Some f \<and> jb_token f = jb_token f'" if "job_at db' m = Some f'" for m f'
        using that j token by (auto simp: at split: if_splits)
      show ?thesis using old[OF h(1)] old[OF h(2)] db_okD(7)[OF ok] h(3,4) by metis
    qed
    show "je_job e' \<in> dom (job_at db')" if "e' \<in> set (db_events db')" for e'
      using that e(1) db_okD(8)[OF ok, of e'] by (auto simp: at dom_def db')
    show "length (endings_of db' i) \<le> 1" for i
      using quiet db_okD(9)[OF ok, of i] e(1) by (cases "i = k") (simp_all add: endings_of_def db')
  qed
qed

text \<open>The three updates every ending makes.\<close>

lemma update_status_Inr: "update_status db j j' = Inr db1 \<Longrightarrow> db1 = put_job db j'"
  by (simp add: update_status_def guarding_Inr_iff)

lemma update_status_free: "update_status db j j' = Inr db1 \<Longrightarrow> \<not> token_taken db j'"
  by (simp add: update_status_def guarding_Inr_iff)

lemma put_session_Inr: "put_session db k old s = Inr db1 \<Longrightarrow>
    db1 = db\<lparr>db_sessions := dict_set k s (db_sessions db)\<rparr>"
  by (simp add: put_session_def guarding_Inr_iff)

lemma insert_event_Inr:
  assumes "insert_event db e = Inr db1"
  obtains "db1 = db" "event_key e \<in> event_key ` set (db_events db)"
  | "db1 = db\<lparr>db_events := db_events db @ [e]\<rparr>" "event_key e \<notin> event_key ` set (db_events db)"
  using assms unfolding insert_event_def Let_def guarding_Inr_iff by (auto split: if_splits)

lemma update_run_terminal_Inr:
  assumes "update_run_terminal db k session st = Inr (shown, db1)"
  obtains s where "session_at db session = Some s" "ss_active_job s = Some k" "ss_storage s = Live"
    "db1 = db\<lparr>db_sessions := dict_set session (s\<lparr>ss_status := shown, ss_active_job := None,
       ss_version := ss_version s + 1\<rparr>) (db_sessions db)\<rparr>"
    "shown = (if st = Job_Completed \<and> ss_status s = ''limited'' then ''limited'' else status_text st)"
proof -
  obtain s where s: "session_at db session = Some s" "ss_active_job s = Some k" "ss_storage s = Live"
    using assms by (auto simp: update_run_terminal_def split: option.splits if_splits)
  let ?t = "if st = Job_Completed \<and> ss_status s = ''limited'' then ''limited'' else status_text st"
  obtain db2 where "put_session db session s (s\<lparr>ss_status := ?t, ss_active_job := None,
      ss_version := ss_version s + 1\<rparr>) = Inr db2" "shown = ?t" "db1 = db2"
    using assms s unfolding update_run_terminal_def by (simp only: option.case Let_def if_True simp_thms)
      (auto simp only: bind_res_Inr_iff prod.inject sum.inject)
  with put_session_Inr that s show thesis by blast
qed

lemma end_job:
  assumes ok: "db_ok db" and j: "job_at db k = Some j" and act: "active j" "terminal (jb_status j')"
    and row: "row_ok k j'" and token: "jb_token j' = jb_token j" and step: "job_step j j'"
    and u: "update_status db j j' = Inr db1"
    and r: "update_run_terminal db1 k (jb_session j) (jb_status j') = Inr (shown, db2)"
    and i: "insert_event db2 e = Inr db3"
    and e: "je_job e = k" "je_type e = ''job.'' @ status_text (jb_status j')"
  shows "db_ok db3" "evolves db db3" "job_at db3 k = Some j'" "db_events db3 = db_events db @ [e]"
    "\<exists>s. session_at db3 (jb_session j) = Some s \<and> ss_active_job s = None \<and> ss_status s = shown \<and>
       ss_storage s = Live"
proof -
  have id: "jb_id j' = k" "jb_id j = k"
    using row db_okD(3)[OF ok j] by (simp_all add: row_ok_def)
  note db1 = update_status_Inr[OF u]
  obtain s where s: "session_at db1 (jb_session j) = Some s" "ss_storage s = Live"
    and db2: "db2 = db1\<lparr>db_sessions := dict_set (jb_session j) (s\<lparr>ss_status := shown,
       ss_active_job := None, ss_version := ss_version s + 1\<rparr>) (db_sessions db1)\<rparr>"
    by (rule update_run_terminal_Inr[OF r])
  have quiet: "\<not> ending_event e'" if "e' \<in> set (db_events db)" "je_job e' = k" for e'
    using db_okD(5)[OF ok j] act(1) that unfolding ended_as_def by blast
  have ending: "ending_event e"
    using act(2)[unfolded terminal_iff] e(2) by (auto simp: ending_event_def)
  have events: "db_events db2 = db_events db" by (simp add: db2 db1)
  have "event_key e \<notin> event_key ` set (db_events db2)"
  proof
    assume "event_key e \<in> event_key ` set (db_events db2)"
    then obtain x where "x \<in> set (db_events db)" "je_job x = k" "je_type x = je_type e"
      using e(1) unfolding events by (auto simp: event_key_def)
    then show False using quiet[of x] ending by (simp add: ending_event_def)
  qed
  with i have db3: "db3 = db2\<lparr>db_events := db_events db2 @ [e]\<rparr>"
    by (elim insert_event_Inr) simp_all
  have fields: "db_jobs db3 = dict_set k j' (db_jobs db)"
    "db_sessions db3 = dict_set (jb_session j) (s\<lparr>ss_status := shown, ss_active_job := None,
       ss_version := ss_version s + 1\<rparr>) (db_sessions db)"
    "db_events db3 = db_events db @ [e]" "db_deletions db3 = db_deletions db"
    by (simp_all add: db3 db2 db1 id)
  show "db_ok db3"
    by (rule db_ok_end[OF ok j act job_stepD(1)[OF step] row token _ e fields]) (simp add: s(2))
  show "evolves db db3" by (rule evolves_put[OF j step id(2) fields(1,4)])
  show "job_at db3 k = Some j'" "db_events db3 = db_events db @ [e]" by (simp_all add: fields)
  show "\<exists>s. session_at db3 (jb_session j) = Some s \<and> ss_active_job s = None \<and> ss_status s = shown \<and>
     ss_storage s = Live" by (simp add: fields s(2))
qed

text \<open>An ending does not fail: the run is owned, and its lane, token and event key are free.\<close>

lemma end_job_succeeds:
  assumes ok: "db_ok db" and j: "job_at db k = Some j" and act: "active j" "terminal (jb_status j')"
    and row: "row_ok k j'" and token: "jb_token j' = jb_token j" and step: "job_step j j'"
    and legal: "legal_transition (jb_status j) (jb_status j')" "jb_version j' = jb_version j + 1"
    and e: "\<And>shown. je_session (e shown) = jb_session j" "\<And>shown. je_project (e shown) = jb_project j"
  obtains shown db1 db2 db3 where "update_status db j j' = Inr db1"
    "update_run_terminal db1 k (jb_session j) (jb_status j') = Inr (shown, db2)"
    "insert_event db2 (e shown) = Inr db3"
proof -
  have id: "jb_id j' = k" using row by (simp add: row_ok_def)
  have same: "jb_session j' = jb_session j" "jb_lane j' = jb_lane j"
    using job_stepD(1)[OF step] by (simp_all add: same_job_def)
  obtain s where own: "session_at db (jb_session j) = Some s" "ss_project s = jb_project j"
    "ss_active_job s = Some k" "ss_storage s = Live" "\<not> not_live db (jb_lane j)"
    "\<not> deletion_active db (jb_session j)" "\<not> deletion_active db (jb_lane j)"
    using db_okD(4)[OF ok j act(1)] unfolding owns_def by blast
  have "\<not> not_live db (jb_session j)" by (simp add: not_live_def own)
  moreover have "\<not> lane_taken db j'" using act(2) by (simp add: lane_taken_def)
  moreover have "\<not> token_taken db j'" by (rule token_free[OF ok j id token])
  ultimately have u: "update_status db j j' = Inr (put_job db j')"
    using own legal same by (simp add: update_status_def guarding_Inr_iff)
  define shown where "shown = (if jb_status j' = Job_Completed \<and> ss_status s = ''limited''
    then ''limited'' else status_text (jb_status j'))"
  define s' where "s' = s\<lparr>ss_status := shown, ss_active_job := None, ss_version := ss_version s + 1\<rparr>"
  define db2 where "db2 = (put_job db j')\<lparr>db_sessions := dict_set (jb_session j) s' (db_sessions db)\<rparr>"
  have p: "put_session (put_job db j') (jb_session j) s s' = Inr db2"
    by (simp add: put_session_def guarding_Inr_iff own s'_def db2_def)
  then have r: "update_run_terminal (put_job db j') k (jb_session j) (jb_status j') = Inr (shown, db2)"
    using own(3,4) by (simp add: update_run_terminal_def own(1) shown_def[symmetric] s'_def[symmetric])
  have "session_at db2 (jb_session j) = Some s'" "db_deletions db2 = db_deletions db"
    by (simp_all add: db2_def)
  then have "\<exists>db3. insert_event db2 (e shown) = Inr db3"
    using own by (simp add: insert_event_def Let_def guarding_Inr_iff e s'_def deletion_active_def)
  with u r that show thesis by blast
qed

end
