(* ===== verification/JobTransactions.thy ===== *)
theory JobTransactions
  imports JobInvariant
begin

text \<open>
  Every transaction on the job tables keeps the invariant and evolves the rows by steps; then so
  does every sequence of commands.
\<close>

section \<open>Updates\<close>

abbreviation fine :: "database \<Rightarrow> database \<Rightarrow> bool" where
  "fine db db' \<equiv> db_ok db' \<and> evolves db db'"

lemma fine_trans: "fine a b \<Longrightarrow> fine b c \<Longrightarrow> fine a c"
  using evolves_trans by blast

lemma job_at_put [simp]: "jb_id j = k \<Longrightarrow> job_at (put_job db j) k = Some j"
  by simp

lemma fine_put:
  assumes ok: "db_ok db" and j: "job_at db k = Some j"
    and act: "jb_status j' = jb_status j \<or> active j \<and> active j'"
    and row: "row_ok k j'" and step: "job_step j j'"
    and token: "jb_token j' = jb_token j \<or> \<not> token_taken db j'"
  shows "fine db (put_job db j')"
proof -
  have id: "jb_id j' = k" "jb_id j = k" using row db_okD(3)[OF ok j] by (simp_all add: row_ok_def)
  have free: "\<not> token_taken db j'" using token token_free[OF ok j id(1)] by blast
  show ?thesis
    using db_ok_put[OF ok j act job_stepD(1)[OF step] row free]
      evolves_put[OF j step id(2), of "put_job db j'"] by (simp add: id)
qed

lemma fine_emit:
  assumes ok: "db_ok db" and i: "insert_event db e = Inr db1"
    and e: "je_job e \<in> dom (job_at db)" "\<not> ending_event e"
  shows "fine db db1" "db_jobs db1 = db_jobs db" "db_sessions db1 = db_sessions db"
proof -
  have new: "db_ok (db\<lparr>db_events := db_events db @ [e]\<rparr>)" (is "db_ok ?d")
  proof (rule db_okI)
    have own: "owns ?d k j = owns db k j" for k j by (rule owns_cong) simp_all
    show "owns ?d k j" if "job_at ?d k = Some j" "active j" for k j
      using that db_okD(4)[OF ok] unfolding own by simp
    show "ended_as ?d k j" if "job_at ?d k = Some j" for k j
      using that e(2) db_okD(5)[OF ok, of k j] by (auto simp: ended_as_def)
    show "je_job x \<in> dom (job_at ?d)" if "x \<in> set (db_events ?d)" for x
      using that e(1) db_okD(8)[OF ok, of x] by auto
    show "length (endings_of ?d k) \<le> 1" for k
      using e(2) db_okD(9)[OF ok, of k] by (simp add: endings_of_def)
    show "k = n" if "job_at ?d k = Some j" "job_at ?d n = Some h" "active j" "active h"
      "jb_lane j = jb_lane h" for k n j h
      using db_okD(6)[OF ok _ _ that(3-5)] that(1,2) by simp
    show "k = n" if "job_at ?d k = Some j" "job_at ?d n = Some h" "jb_token j \<noteq> None"
      "jb_token j = jb_token h" for k n j h
      using db_okD(7)[OF ok _ _ that(3,4)] that(1,2) by simp
  qed (use db_okD(1-3)[OF ok] in simp_all)
  from i have d: "db1 = db \<or> db1 = ?d" by (elim insert_event_Inr) simp_all
  then show "db_jobs db1 = db_jobs db" "db_sessions db1 = db_sessions db" by auto
  have "evolves db ?d" by (simp add: evolves_def)
  with d show "fine db db1" using new ok by auto
qed

lemma not_ending [simp]:
  "\<not> ending_event (job_event_of j g ''job.queued'' st d)"
  "\<not> ending_event (job_event_of j g ''job.started'' st d)"
  "\<not> ending_event (job_event_of j g ''job.cancel_requested'' st d)"
  by (simp_all add: ending_event_def job_event_of_def)

lemma job_event_of_fields [simp]:
  "je_job (job_event_of j g t st d) = jb_id j" "je_type (job_event_of j g t st d) = t"
  "je_session (job_event_of j g t st d) = jb_session j" "je_project (job_event_of j g t st d) = jb_project j"
  by (simp_all add: job_event_of_def)

lemma claimed_row_Some:
  "claimed_row db c = Some j \<longleftrightarrow>
     job_at db (cl_job c) = Some j \<and> jb_token j = Some (cl_token c) \<and> jb_attempt j = cl_attempt c"
  by (auto simp: claimed_row_def split: option.splits)

lemma row_okD:
  assumes "db_ok db" "job_at db k = Some j"
  shows "jb_id j = k" "shield_ok j" "jb_status j = Job_Cancelling \<Longrightarrow> jb_cancel_requested j"
    "jb_cancel_requested j \<Longrightarrow> jb_status j \<in> {Job_Cancelling, Job_Cancelled}"
  using db_okD(3)[OF assms] by (simp_all add: row_ok_def)

text \<open>An update that leaves the status, the claim and the cancellation alone.\<close>

lemma fine_touch:
  assumes "db_ok db" "job_at db k = Some j" "same_job j j'" "shield_ok j'"
    "jb_status j' = jb_status j" "jb_token j' = jb_token j" "jb_attempt j' = jb_attempt j"
    "jb_cancel_requested j' = jb_cancel_requested j"
    "jb_fence j = Fence_Committed \<longrightarrow> jb_fence j' = Fence_Committed" "jb_version j \<le> jb_version j'"
  shows "fine db (put_job db j')"
proof (rule fine_put[OF assms(1,2)])
  note r = row_okD[OF assms(1,2)]
  show "row_ok k j'" unfolding row_ok_def assms(5,8)
    using r(1,3,4) assms(3,4) by (simp add: same_job_def)
  show "job_step j j'" unfolding job_step_def assms(5-7) using assms(3,9,10) by simp
qed (simp_all add: assms)

section \<open>Launch\<close>

lemma acknowledge_spawn_fine:
  assumes "db_ok db" "acknowledge_spawn now c pid i db = Inr (u, db1)"
  shows "fine db db1"
proof -
  obtain j where j: "claimed_row db c = Some j" "jb_status j = Job_Launching" and db1: "db1 = put_job db
      (j\<lparr>jb_pid := Some pid, jb_identity := i, jb_ack := Some now, jb_heartbeat := Some now,
         jb_version := jb_version j + 1\<rparr>)"
    using assms(2) by (auto simp: acknowledge_spawn_def split: option.splits if_splits)
  have at: "job_at db (cl_job c) = Some j" using j(1) by (simp add: claimed_row_Some)
  show ?thesis unfolding db1
    by (rule fine_touch[OF assms(1) at]) (use row_okD(2)[OF assms(1) at] in \<open>simp_all add: same_job_def shield_ok_def\<close>)
qed

lemma heartbeat_fine:
  assumes "db_ok db" "heartbeat now c db = Inr (b, db1)"
  shows "fine db db1"
proof (cases "db1 = db")
  case False
  then obtain j where j: "claimed_row db c = Some j" and db1: "db1 = put_job db
      (j\<lparr>jb_heartbeat := Some now, jb_lease := Some (now + lease_seconds)\<rparr>)"
    using assms(2) by (auto simp: heartbeat_def split: option.splits if_splits)
  have at: "job_at db (cl_job c) = Some j" using j by (simp add: claimed_row_Some)
  show ?thesis unfolding db1
    by (rule fine_touch[OF assms(1) at]) (use row_okD(2)[OF assms(1) at] in \<open>simp_all add: same_job_def shield_ok_def\<close>)
qed (simp add: assms)

lemma claim_launch_fine:
  assumes ok: "db_ok db" and c: "claim_launch now token owner k db = Inr (c, db1)"
  shows "fine db db1"
proof -
  obtain j where j: "job_at db k = Some j" "jb_status j = Job_Queued" "\<not> jb_cancel_requested j"
    and u: "update_status db j (j\<lparr>jb_status := Job_Launching, jb_version := jb_version j + 1,
         jb_attempt := jb_attempt j + 1, jb_token := Some token, jb_owner := Some owner,
         jb_lease := Some (now + lease_seconds), jb_heartbeat := Some now, jb_pid := None,
         jb_identity := None, jb_ack := None\<rparr>) = Inr db1" (is "update_status db j ?j = _")
    using c by (auto simp: claim_launch_def require_job_def bind_res_Inr_iff split: option.splits if_splits)
  note r = row_okD[OF ok j(1)]
  have s: "jb_depth j = 0" "jb_critical_owner j = None" using r(2) j(2) by (auto simp: shield_ok_def)
  show ?thesis unfolding update_status_Inr[OF u]
  proof (rule fine_put[OF ok j(1)])
    show "row_ok k ?j" using r(1) j(3) s by (simp add: row_ok_def shield_ok_def)
    show "job_step j ?j" using j(2) by (simp add: job_step_def same_job_def terminal_iff)
    show "jb_status ?j = jb_status j \<or> active j \<and> active ?j" using j(2) by (simp add: terminal_iff)
    show "jb_token ?j = jb_token j \<or> \<not> token_taken db ?j" using update_status_free[OF u] by blast
  qed
qed

section \<open>Shields and the fence\<close>

lemma put_critical_Inr: "put_critical db j = Inr db1 \<Longrightarrow> db1 = put_job db j"
  by (simp add: put_critical_def guarding_Inr_iff)

lemma enter_critical_fine:
  assumes ok: "db_ok db" and c: "enter_critical c db = Inr (b, db1)"
  shows "fine db db1"
proof (cases "db1 = db")
  case False
  obtain j where j: "claimed_row db c = Some j"
    using c False by (cases "claimed_row db c") (simp_all add: enter_critical_def)
  have at: "job_at db (cl_job c) = Some j" "jb_attempt j = cl_attempt c"
    using j by (simp_all add: claimed_row_Some)
  note r = row_okD[OF ok at(1)]
  show ?thesis
  proof (cases "jb_status j \<in> {Job_Running, Job_Cancelling} \<and> 0 < jb_depth j \<and> jb_depth j < 1000000 \<and>
      jb_critical_owner j = Some (cl_attempt c) \<and> jb_fence j = Fence_Open")
    case nest: True
    then have db1: "db1 = put_job db (j\<lparr>jb_depth := jb_depth j + 1, jb_version := jb_version j + 1\<rparr>)"
      using c put_critical_Inr unfolding enter_critical_def j option.case if_P[OF nest]
      by (auto simp: bind_res_Inr_iff)
    show ?thesis unfolding db1
      by (rule fine_touch[OF ok at(1)]) (use nest at(2) in \<open>simp_all add: same_job_def shield_ok_def\<close>)
  next
    case flat: False
    have outer: "jb_status j = Job_Running \<and> jb_depth j = 0 \<and> jb_critical_owner j = None \<and>
        jb_fence j = Fence_Open"
      and db1: "db1 = put_job db (j\<lparr>jb_depth := 1, jb_critical_owner := Some (cl_attempt c),
        jb_version := jb_version j + 1\<rparr>)"
      using c False put_critical_Inr unfolding enter_critical_def j option.case if_not_P[OF flat]
      by (auto simp: bind_res_Inr_iff split: if_splits)
    show ?thesis unfolding db1
      by (rule fine_touch[OF ok at(1)]) (use outer at(2) in \<open>simp_all add: same_job_def shield_ok_def\<close>)
  qed
qed (simp add: ok)

lemma exit_critical_fine:
  assumes ok: "db_ok db" and c: "exit_critical c db = Inr (b, db1)"
  shows "fine db db1"
proof (cases "db1 = db")
  case False
  obtain j where j: "claimed_row db c = Some j" and g: "0 < jb_depth j" and db1: "db1 = put_job db
      (j\<lparr>jb_depth := jb_depth j - 1,
         jb_critical_owner := (if jb_depth j = 1 then None else jb_critical_owner j),
         jb_version := jb_version j + 1\<rparr>)"
    using c False put_critical_Inr
    by (auto simp: exit_critical_def bind_res_Inr_iff simp del: One_nat_def split: option.splits if_splits)
  have at: "job_at db (cl_job c) = Some j" using j by (simp add: claimed_row_Some)
  show ?thesis unfolding db1
    by (rule fine_touch[OF ok at])
      (use row_okD(2)[OF ok at] g in \<open>auto simp: same_job_def shield_ok_def\<close>)
qed (simp add: ok)

lemma clear_stale_fine:
  assumes ok: "db_ok db" and c: "clear_stale_critical_sections db = Inr (n, db1)"
  shows "db1 = db" "n = 0"
proof -
  have none: "\<not> stale_shield j" if "(k, j) \<in> set (db_jobs db)" for k j
    using row_okD(2)[OF ok that[unfolded jobs_in_set[OF ok]]] by (auto simp: stale_shield_def shield_ok_def)
  then have "map (\<lambda>(k, j). (k, clear_shield j)) (db_jobs db) = db_jobs db"
    by (intro map_idI) (auto simp: clear_shield_def)
  moreover have "filter (\<lambda>(k, j). stale_shield j) (db_jobs db) = []"
    using none by (auto simp: filter_empty_conv)
  ultimately show "db1 = db" "n = 0" using c by (auto simp: clear_stale_critical_sections_def)
qed

lemma authorize_signal_cases:
  assumes "authorize_signal os now k claim seen db = (r, db1)"
  obtains "r = None" "db1 = db"
  | j i where "r = Some i" "jb_identity seen = Some i" "check_process_identity os i = Same_Process"
      "jb_pid seen = Some (pi_pid i)" "job_at db k = Some j" "authorized now claim seen j"
      "db1 = put_job db (j\<lparr>jb_fence := Fence_Committed\<rparr>)"
proof (cases "r = None")
  case True
  with assms that(1) show thesis
    unfolding authorize_signal_def by (auto split: option.splits if_splits)
next
  case False
  then obtain i j where "jb_identity seen = Some i" "job_at db k = Some j"
    using assms unfolding authorize_signal_def by (auto split: option.splits if_splits)
  with False assms show thesis
    unfolding authorize_signal_def by (intro that(2)[of i j]) (auto split: if_splits)
qed

lemma authorize_signal_fine:
  assumes ok: "db_ok db" and "authorize_signal os now k claim seen db = (r, db1)"
  shows "fine db db1"
  using assms(2)
proof (cases rule: authorize_signal_cases)
  case (2 j i)
  have s: "jb_depth j = 0" "jb_critical_owner j = None" using 2(6) by (auto simp: authorized_def)
  show ?thesis unfolding 2(7)
    by (rule fine_touch[OF ok 2(5)]) (use s in \<open>simp_all add: same_job_def shield_ok_def\<close>)
qed (simp add: ok)

section \<open>Endings\<close>

lemma terminal_in_transaction_fine:
  assumes ok: "db_ok db" and st: "terminal st"
    and c: "terminal_in_transaction now c st en db = Inr (b, db1)"
  shows "fine db db1"
proof (cases "db1 = db")
  case False
  obtain j where j: "claimed_row db c = Some j"
    using c False by (cases "claimed_row db c") (simp_all add: terminal_in_transaction_def)
  have at: "job_at db (cl_job c) = Some j" using j by (simp add: claimed_row_Some)
  note r = row_okD[OF ok at]
  have running: "jb_status j \<in> {Job_Launching, Job_Running, Job_Cancelling}"
    using c j False by (auto simp: terminal_in_transaction_def split: if_splits)
  then have run: "\<not> jb_status j \<notin> {Job_Launching, Job_Running, Job_Cancelling}" by simp
  define e where "e = (if jb_status j = Job_Cancelling then Job_Cancelled else st)"
  define j' where "j' = j\<lparr>jb_status := e, jb_version := jb_version j + 1,
            jb_finished := Some now, jb_error_code := en_error_code en,
            jb_error_message := en_error_message en, jb_heartbeat := Some now, jb_lease := None,
            jb_depth := 0, jb_critical_owner := None\<rparr>"
  have e: "terminal e" using st by (simp add: e_def terminal_iff)
  have st': "jb_status j' = e" by (simp add: j'_def)
  obtain d1 d2 shown where u: "update_status db j j' = Inr d1"
    "update_run_terminal d1 (cl_job c) (jb_session j) e = Inr (shown, d2)"
    "insert_event d2 (job_event_of j (cl_attempt c) (''job.'' @ status_text e) (status_text e)
       (ending_summary shown en)) = Inr db1"
    using c False run
    unfolding terminal_in_transaction_def j option.case Let_def if_not_P[OF run]
      e_def[symmetric] j'_def[symmetric]
    by (auto simp: bind_res_Inr_iff simp del: append.simps split: prod.splits)
  show ?thesis
  proof -
    have "active j" "terminal (jb_status j')" using running e st' by (auto simp: terminal_iff)
    moreover have "row_ok (cl_job c) j'"
      using r(1,3,4) e running by (auto simp: row_ok_def shield_ok_def j'_def e_def terminal_iff)
    moreover have "job_step j j'"
      using running e by (auto simp: job_step_def same_job_def j'_def e_def terminal_iff)
    ultimately show ?thesis
      using end_job(1,2)[OF ok at _ _ _ _ _ u(1) u(2)[folded st'] u(3)] r(1) st' by (simp add: j'_def)
  qed
qed (simp add: ok)

lemma finish_fine:
  assumes ok: "db_ok db" and c: "finish now c st en expected db = Inr (b, db1)"
  shows "fine db db1"
proof -
  have st: "terminal st" using c by (auto simp: finish_def split: if_splits)
  have "db1 = db \<or> terminal_in_transaction now c st en db = Inr (b, db1)"
    using c st by (auto simp: finish_def bind_res_Inr_iff split: if_splits)
  then show ?thesis using terminal_in_transaction_fine[OF ok st] ok by auto
qed

lemma adopt_session_owned:
  assumes ok: "db_ok db" and j: "job_at db k = Some j" "active j"
  shows "adopt_session db j = Inr db"
  using db_okD(4)[OF ok j] by (auto simp: adopt_session_def owns_def)

lemma fail_active_fine:
  assumes ok: "db_ok db" and c: "fail_active now k code message clear db = Inr (b, db1)"
  shows "fine db db1"
proof -
  obtain j where j: "job_at db k = Some j"
    using c by (auto simp: fail_active_def require_job_def bind_res_Inr_iff split: option.splits)
  note r = row_okD[OF ok j]
  show ?thesis
  proof (cases "terminal (jb_status j)")
    case True
    then have "db1 = db" using c j by (simp add: fail_active_def require_job_def)
    then show ?thesis using ok by simp
  next
    case act: False
    define e where "e = (if jb_status j = Job_Cancelling then Job_Cancelled else Job_Failed)"
    define j' where "j' = j\<lparr>jb_status := e, jb_version := jb_version j + 1,
          jb_finished := Some now, jb_error_code := Some code, jb_error_message := Some (take 500 message),
          jb_lease := None, jb_depth := 0, jb_critical_owner := None,
          jb_idempotency := (if clear then None else jb_idempotency j)\<rparr>"
    have st': "jb_status j' = e" by (simp add: j'_def)
    obtain d1 d2 shown where u: "update_status db j j' = Inr d1"
      "update_run_terminal d1 k (jb_session j) e = Inr (shown, d2)"
      "insert_event d2 (job_event_of j (jb_attempt j) (''job.'' @ status_text e) (status_text e)
         [(''error_code'', Some code), (''error_message'', Some (take 500 message))]) = Inr db1"
      using c unfolding fail_active_def require_job_def j option.case bind_res.simps if_not_P[OF act]
        Let_def e_def[symmetric] j'_def[symmetric] adopt_session_owned[OF ok j act]
      by (auto simp: bind_res_Inr_iff simp del: append.simps split: prod.splits)
    have "terminal (jb_status j')" by (simp add: st' e_def terminal_iff)
    moreover have "row_ok k j'"
      using r(1,3,4) act by (auto simp: row_ok_def shield_ok_def j'_def e_def terminal_iff)
    moreover have "job_step j j'"
      using act by (auto simp: job_step_def same_job_def j'_def e_def terminal_iff)
    ultimately show ?thesis
      using end_job(1,2)[OF ok j act _ _ _ _ u(1) u(2)[folded st'] u(3)] r(1) st' by (simp add: j'_def)
  qed
qed

section \<open>Start and cancellation\<close>

text \<open>A change of status that is no ending, then its event.\<close>

lemma fine_move:
  assumes ok: "db_ok db" and j: "job_at db k = Some j" and act: "active j" "active j'"
    and row: "row_ok k j'" and step: "job_step j j'"
    and u: "update_status db j j' = Inr d1" and i: "insert_event d1 e = Inr db1"
    and e: "je_job e = k" "\<not> ending_event e"
  shows "fine db db1" "job_at db1 k = Some j'"
proof -
  note d1 = update_status_Inr[OF u]
  have one: "fine db d1" unfolding d1
    using fine_put[OF ok j _ row step] act update_status_free[OF u] by blast
  have id: "jb_id j' = k" using row by (simp add: row_ok_def)
  have "je_job e \<in> dom (job_at d1)" using e(1) by (simp add: d1 id)
  note two = fine_emit[OF conjunct1[OF one] i this e(2)]
  show "fine db db1" using fine_trans[OF one two(1)] .
  show "job_at db1 k = Some j'" by (simp add: two(2) d1 id)
qed

lemma child_start_fine:
  assumes ok: "db_ok db" and c: "child_start now c db = Inr (r, db1)"
  shows "fine db db1"
proof (cases "db1 = db")
  case False
  obtain j where j: "claimed_row db c = Some j"
    using c False by (cases "claimed_row db c") (auto simp: child_start_def bind_res_Inr_iff)
  have at: "job_at db (cl_job c) = Some j" using j by (simp add: claimed_row_Some)
  note r = row_okD[OF ok at]
  have go: "\<not> (jb_status j \<notin> {Job_Launching, Job_Cancelling} \<or> jb_ack j = None)"
  proof
    assume no: "jb_status j \<notin> {Job_Launching, Job_Cancelling} \<or> jb_ack j = None"
    from c have "db1 = db" unfolding child_start_def j option.case if_P[OF no]
      by (auto simp: bind_res_Inr_iff)
    with False show False ..
  qed
  show ?thesis
  proof (cases "jb_cancel_requested j")
    case True
    obtain b where "terminal_in_transaction now c Job_Cancelled no_ending db = Inr (b, db1)"
      using c unfolding child_start_def j option.case if_not_P[OF go] if_P[OF True]
      by (auto simp: bind_res_Inr_iff)
    then show ?thesis by (rule terminal_in_transaction_fine[OF ok, rotated]) (simp add: terminal_iff)
  next
    case calm: False
    have st: "jb_status j = Job_Launching"
      using c False unfolding child_start_def j option.case if_not_P[OF go] if_not_P[OF calm]
      by (auto simp: bind_res_Inr_iff split: if_splits)
    then have st': "\<not> jb_status j \<noteq> Job_Launching" by simp
    define j1 where "j1 = j\<lparr>jb_status := Job_Running, jb_version := jb_version j + 1,
            jb_started := (case jb_started j of None \<Rightarrow> Some now | Some t \<Rightarrow> Some t),
            jb_heartbeat := Some now, jb_lease := Some (now + lease_seconds)\<rparr>"
    obtain d1 where u: "update_status db j j1 = Inr d1"
      "insert_event d1 (job_event_of j (cl_attempt c) ''job.started'' ''running'' []) = Inr db1"
      using c unfolding child_start_def j option.case if_not_P[OF go] if_not_P[OF calm]
        if_not_P[OF st'] Let_def j1_def[symmetric]
      by (auto simp: bind_res_Inr_iff)
    have "row_ok (cl_job c) j1" using r(1,2,4) st calm by (auto simp: row_ok_def shield_ok_def j1_def)
    moreover have "job_step j j1" using st by (simp add: job_step_def same_job_def j1_def terminal_iff)
    moreover have "active j" "active j1" using st by (simp_all add: j1_def terminal_iff)
    ultimately show ?thesis using fine_move(1)[OF ok at _ _ _ _ u] r(1) by simp
  qed
qed (simp add: ok)

lemma request_cancel_fine:
  assumes ok: "db_ok db" and c: "request_cancel now grace k db = Inr (r, db1)"
  shows "fine db db1"
proof -
  obtain j where j: "job_at db k = Some j"
    using c by (auto simp: request_cancel_def require_job_def bind_res_Inr_iff split: option.splits)
  note r = row_okD[OF ok j]
  note c' = c[unfolded request_cancel_def require_job_def j option.case bind_res.simps]
  consider "db1 = db" | "active j" "jb_status j = Job_Queued"
    | "active j" "jb_status j \<noteq> Job_Queued" "jb_status j \<in> {Job_Launching, Job_Running}"
    using c' by (auto split: if_splits)
  then show ?thesis
  proof cases
    case 1
    then show ?thesis using ok by simp
  next
    case 2
    define j1 where "j1 = j\<lparr>jb_cancel_requested := True, jb_cancel_requested_at := Some now,
          jb_cancel_deadline := Some now, jb_status := Job_Cancelled,
          jb_version := jb_version j + 1, jb_finished := Some now\<rparr>"
    obtain d1 d2 shown where u: "update_status db j j1 = Inr d1"
      "update_run_terminal d1 k (jb_session j) (jb_status j1) = Inr (shown, d2)"
      "insert_event d2 (job_event_of j (jb_attempt j) ''job.cancelled'' ''cancelled'' []) = Inr db1"
      using c' unfolding if_not_P[OF 2(1)] if_P[OF 2(2)] Let_def j1_def[symmetric]
      by (auto simp: bind_res_Inr_iff j1_def split: prod.splits)
    have "row_ok k j1" using r(1,2) 2(2) by (auto simp: row_ok_def shield_ok_def j1_def)
    moreover have "job_step j j1" using 2 by (simp add: job_step_def same_job_def j1_def)
    moreover have "terminal (jb_status j1)" by (simp add: j1_def terminal_iff)
    ultimately show ?thesis
      using end_job(1,2)[OF ok j 2(1) _ _ _ _ u] r(1) by (simp add: j1_def)
  next
    case 3
    define j1 where "j1 = j\<lparr>jb_cancel_requested := True, jb_cancel_requested_at := Some now,
          jb_cancel_deadline := Some (now + grace), jb_status := Job_Cancelling,
          jb_version := jb_version j + 1\<rparr>"
    obtain d1 where u: "update_status db j j1 = Inr d1"
      "insert_event d1 (job_event_of j (jb_attempt j) ''job.cancel_requested'' ''cancelling'' []) = Inr db1"
      using c' unfolding if_not_P[OF 3(1)] if_not_P[OF 3(2)] if_P[OF 3(3)] Let_def j1_def[symmetric]
      by (auto simp: bind_res_Inr_iff)
    have "row_ok k j1" using r(1,2) 3(3) by (auto simp: row_ok_def shield_ok_def j1_def)
    moreover have "job_step j j1" using 3 by (simp add: job_step_def same_job_def j1_def terminal_iff)
    moreover have "active j1" by (simp add: j1_def terminal_iff)
    ultimately show ?thesis using fine_move(1)[OF ok j 3(1) _ _ _ u] r(1) by simp
  qed
qed

section \<open>Creation\<close>

lemma ensure_session_cases:
  obtains s0 where "session_at (ensure_session db k p) k = Some s0"
    "session_at db k = Some s0 \<or> session_at db k = None \<and> ss_active_job s0 = None"
    "db_sessions (ensure_session db k p) = db_sessions db \<or>
     db_sessions (ensure_session db k p) = dict_set k s0 (db_sessions db)"
    "db_jobs (ensure_session db k p) = db_jobs db" "db_events (ensure_session db k p) = db_events db"
    "db_deletions (ensure_session db k p) = db_deletions db"
  by (cases "session_at db k") (auto simp: ensure_session_def)

lemma release_terminal_owner_cases:
  assumes "release_terminal_owner db k = Inr db1"
  obtains "db1 = db"
  | s i j where "session_at db k = Some s" "ss_active_job s = Some i" "job_at db i = Some j"
      "terminal (jb_status j)" "db1 = db\<lparr>db_sessions := dict_set k (s\<lparr>ss_active_job := None,
         ss_version := ss_version s + 1\<rparr>) (db_sessions db)\<rparr>"
proof (cases "db1 = db")
  case False
  then obtain s where s: "session_at db k = Some s"
    using assms by (cases "session_at db k") (simp_all add: release_terminal_owner_def)
  with assms False obtain i j where i: "ss_active_job s = Some i" "job_at db i = Some j"
    by (cases "ss_active_job s"; cases "job_at db (the (ss_active_job s))")
      (auto simp: release_terminal_owner_def)
  with assms False s show thesis
    by (intro that(2)[OF s i]) (auto simp: release_terminal_owner_def dest: put_session_Inr split: if_splits)
qed (use that in blast)

lemma take_session_Inr:
  assumes "take_session db j = Inr db1"
  obtains s where "session_at db (jb_session j) = Some s" "ss_project s = jb_project j"
    "ss_storage s = Live" "ss_active_job s = None"
    "db1 = db\<lparr>db_sessions := dict_set (jb_session j) (s\<lparr>ss_active_job := Some (jb_id j),
       ss_version := ss_version s + 1\<rparr>) (db_sessions db)\<rparr>"
  using assms unfolding take_session_def
  by (auto split: option.splits if_splits dest!: put_session_Inr)

lemma insert_job_Inr:
  assumes "insert_job db j = Inr db1"
  shows "db1 = put_job db j" "job_at db (jb_id j) = None" "\<not> lane_taken db j"
    "deleting_target db (jb_session j) (jb_lane j) = None"
  using assms by (simp_all add: insert_job_def guarding_Inr_iff)

lemma not_deleting:
  assumes "deleting_target db session lane = None"
  shows "\<not> not_live db lane" "\<not> deletion_active db session" "\<not> deletion_active db lane"
  using assms unfolding deleting_target_def find_None_iff job_targets_def
  by (simp_all split: if_splits)

lemma db_ok_new:
  assumes ok: "db_ok db" and new: "job_at db k = None" and j: "jb_id j = k" "jb_token j = None"
    and row: "row_ok k j" and lane: "\<not> lane_taken db j"
    and s: "ss_storage s = Live" "ss_project s = jb_project j" "ss_active_job s = Some k"
    and free: "\<not> not_live db (jb_lane j)" "\<not> deletion_active db (jb_session j)" "\<not> deletion_active db (jb_lane j)"
    and others: "\<And>i h. job_at db i = Some h \<Longrightarrow> active h \<Longrightarrow> jb_session h \<noteq> jb_session j"
    and db': "db_jobs db' = dict_set k j (db_jobs db)" "db_events db' = db_events db"
      "db_deletions db' = db_deletions db" "distinct (dict_keys (db_sessions db'))"
      "session_at db' = (session_at db)(jb_session j \<mapsto> s)"
  shows "db_ok db'"
proof -
  have at: "job_at db' i = (if i = k then Some j else job_at db i)" for i by (simp add: db')
  have live: "not_live db' t \<Longrightarrow> not_live db t" for t
    by (auto simp: not_live_def db' s split: option.splits if_splits)
  have deleted: "deletion_active db' t = deletion_active db t" for t
    by (simp add: deletion_active_def db')
  have quiet: "je_job e \<noteq> k" if "e \<in> set (db_events db)" for e
    using db_okD(8)[OF ok that] new by auto
  note apart = lane[unfolded lane_taken_iff[OF ok] j(1)]
  show ?thesis
  proof (rule db_okI)
    show "distinct (dict_keys (db_jobs db'))" using db_okD(1)[OF ok] by (auto simp: db')
    show "distinct (dict_keys (db_sessions db'))" by (rule db'(4))
    show "row_ok i h" if "job_at db' i = Some h" for i h
      using that row db_okD(3)[OF ok] by (auto simp: at split: if_splits)
    show "owns db' i h" if "job_at db' i = Some h" "active h" for i h
    proof (cases "i = k")
      case True
      then show ?thesis using that(1) s free live unfolding owns_def deleted by (auto simp: at db')
    next
      case False
      then have h: "job_at db i = Some h" using that(1) by (simp add: at)
      from db_okD(4)[OF ok h that(2)] others[OF h that(2)] show ?thesis
        using live unfolding owns_def deleted by (simp add: db') blast
    qed
    show "ended_as db' i h" if "job_at db' i = Some h" for i h
    proof (cases "i = k")
      case True
      then show ?thesis using quiet by (auto simp: ended_as_def db')
    next
      case False
      then show ?thesis using that db_okD(5)[OF ok, of i h] by (simp add: at ended_as_def db')
    qed
    show "i = n" if h: "job_at db' i = Some h" "job_at db' n = Some g" "active h" "active g"
      "jb_lane h = jb_lane g" for i h n g
    proof -
      consider "i = k" "n = k" | "i = k" "n \<noteq> k" "h = j" "job_at db n = Some g"
        | "i \<noteq> k" "n = k" "g = j" "job_at db i = Some h"
        | "job_at db i = Some h" "job_at db n = Some g"
        using h(1,2) unfolding at by (cases "i = k"; cases "n = k") simp_all
      then show ?thesis
      proof cases
        case 2
        then show ?thesis using apart h(3-5) by metis
      next
        case 3
        then show ?thesis using apart h(3-5) by metis
      next
        case 4
        then show ?thesis using db_okD(6)[OF ok _ _ h(3-5)] by simp
      qed simp
    qed
    show "i = n" if h: "job_at db' i = Some h" "job_at db' n = Some g" "jb_token h \<noteq> None"
      "jb_token h = jb_token g" for i h n g
    proof -
      have "job_at db i = Some h" "job_at db n = Some g" using h j(2) by (auto simp: at split: if_splits)
      then show ?thesis using db_okD(7)[OF ok _ _ h(3,4)] by simp
    qed
    show "je_job e \<in> dom (job_at db')" if "e \<in> set (db_events db')" for e
      using that db_okD(8)[OF ok, of e] by (auto simp: at dom_def db')
    show "length (endings_of db' i) \<le> 1" for i
      using db_okD(9)[OF ok, of i] by (simp add: endings_of_def db')
  qed
qed

lemma create_queued_job_steps:
  assumes "create_queued_job now q db = Inr (j, db4)"
  obtains db1 db2 db3 where "j = queued_row now q"
    "insert_job (ensure_session db (jr_session q) (jr_project q)) j = Inr db1"
    "release_terminal_owner db1 (jr_session q) = Inr db2" "take_session db2 j = Inr db3"
    "insert_event db3 (job_event_of j 0 ''job.queued'' ''queued'' []) = Inr db4"
    "deleting_target db (jr_session q) (jr_lane q) = None"
    "tombstone_target db (jr_session q) (jr_lane q) = None"
  using assms unfolding create_queued_job_def Let_def
  by (cases "deleting_target db (jr_session q) (jr_lane q)";
      cases "tombstone_target db (jr_session q) (jr_lane q)") (auto simp: bind_res_Inr_iff)

lemma create_queued_job_fine:
  assumes ok: "db_ok db" and c: "create_queued_job now q db = Inr (j, db4)"
  shows "fine db db4" "job_at db4 (jr_id q) = Some j" "job_at db (jr_id q) = None"
proof -
  obtain db1 db2 db3 where j: "j = queued_row now q"
    and ins: "insert_job (ensure_session db (jr_session q) (jr_project q)) j = Inr db1"
    and rel: "release_terminal_owner db1 (jr_session q) = Inr db2" and take: "take_session db2 j = Inr db3"
    and ev: "insert_event db3 (job_event_of j 0 ''job.queued'' ''queued'' []) = Inr db4"
    and free: "deleting_target db (jr_session q) (jr_lane q) = None"
    by (rule create_queued_job_steps[OF c])
  define S where "S = jr_session q"
  have f: "jb_id j = jr_id q" "jb_session j = S" "jb_lane j = jr_lane q" "jb_token j = None"
    "jb_status j = Job_Queued" by (simp_all add: j queued_row_def S_def)
  obtain s0 where s0: "session_at (ensure_session db S (jr_project q)) S = Some s0"
    "session_at db S = Some s0 \<or> session_at db S = None \<and> ss_active_job s0 = None"
    "db_sessions (ensure_session db S (jr_project q)) = db_sessions db \<or>
     db_sessions (ensure_session db S (jr_project q)) = dict_set S s0 (db_sessions db)"
    and same: "db_jobs (ensure_session db S (jr_project q)) = db_jobs db"
    "db_events (ensure_session db S (jr_project q)) = db_events db"
    "db_deletions (ensure_session db S (jr_project q)) = db_deletions db"
    by (rule ensure_session_cases)
  note i = insert_job_Inr[OF ins[folded S_def]]
  have new: "job_at db (jr_id q) = None" using i(2) by (simp add: same f)
  have lane: "\<not> lane_taken db j" using i(3) by (simp add: lane_taken_def same)
  have at1: "session_at db1 S = Some s0" "db_jobs db1 = dict_set (jr_id q) j (db_jobs db)"
    "db_sessions db1 = db_sessions (ensure_session db S (jr_project q))"
    "db_events db1 = db_events db" "db_deletions db1 = db_deletions db"
    by (simp_all add: i(1) s0(1) same f)
  have two: "(\<exists>s2. db_sessions db2 = db_sessions db1 \<or> db_sessions db2 = dict_set S s2 (db_sessions db1))"
    "db_jobs db2 = db_jobs db1" "db_events db2 = db_events db1" "db_deletions db2 = db_deletions db1"
    using rel[folded S_def] by (auto elim!: release_terminal_owner_cases)
  obtain s2 where s2: "session_at db2 S = Some s2" "ss_project s2 = jb_project j" "ss_storage s2 = Live"
    "ss_active_job s2 = None" and db3: "db3 = db2\<lparr>db_sessions := dict_set S (s2\<lparr>ss_active_job := Some (jb_id j),
       ss_version := ss_version s2 + 1\<rparr>) (db_sessions db2)\<rparr>"
    using take by (rule take_session_Inr) (simp add: f)
  have others: "jb_session h \<noteq> S" if h: "job_at db i = Some h" "active h" for i h
  proof
    assume "jb_session h = S"
    then obtain s where s: "session_at db S = Some s" "ss_active_job s = Some i"
      using db_okD(4)[OF ok h] unfolding owns_def by blast
    then have s0i: "s0 = s" using s0(2) by simp
    from rel[folded S_def] show False
    proof (cases rule: release_terminal_owner_cases)
      case 1
      then show False using s2(1,4) at1(1) s(2) s0i by simp
    next
      case (2 s' i' j')
      then have "i' = i" using at1(1) s s0i by simp
      moreover have "i \<noteq> jr_id q" using h(1) new by auto
      ultimately show False using 2(3,4) h by (simp add: at1)
    qed
  qed
  have "db_ok db3"
  proof (rule db_ok_new[OF ok, where k = "jr_id q" and j = j])
    show "job_at db (jr_id q) = None" by (rule new)
    show "jb_id j = jr_id q" "jb_token j = None" by (rule f)+
    show "row_ok (jr_id q) j" by (simp add: j queued_row_def row_ok_def shield_ok_def)
    show "\<not> lane_taken db j" by (rule lane)
    show "\<not> not_live db (jb_lane j)" "\<not> deletion_active db (jb_session j)" "\<not> deletion_active db (jb_lane j)"
      using not_deleting[OF free] by (simp_all add: f S_def)
    show "jb_session h \<noteq> jb_session j" if "job_at db i = Some h" "active h" for i h
      using others[OF that] by (simp add: f)
    let ?s = "s2\<lparr>ss_active_job := Some (jb_id j), ss_version := ss_version s2 + 1\<rparr>"
    show "ss_storage ?s = Live" "ss_project ?s = jb_project j" "ss_active_job ?s = Some (jr_id q)"
      using s2 by (simp_all add: f)
    show "db_jobs db3 = dict_set (jr_id q) j (db_jobs db)" "db_events db3 = db_events db"
      "db_deletions db3 = db_deletions db" by (simp_all add: db3 two at1)
    have keys: "distinct (dict_keys (db_sessions db1))"
      unfolding at1 using s0(3) db_okD(2)[OF ok] by auto
    then show "distinct (dict_keys (db_sessions db3))" using two(1) by (auto simp: db3)
    have "session_at db1 = (session_at db)(S \<mapsto> s0)"
      using s0(1,3) unfolding at1(3)[symmetric] by (metis at1(1) fun_upd_triv map_of_dict_set)
    then show "session_at db3 = (session_at db)(jb_session j \<mapsto> ?s)"
      using two(1) by (auto simp: db3 f)
  qed
  moreover have "evolves db db3"
    using new by (auto simp: evolves_def db3 two at1)
  moreover have "jr_id q \<in> dom (job_at db3)" by (simp add: db3 two at1)
  ultimately have three: "fine db db3" "jr_id q \<in> dom (job_at db3)" by blast+
  have e: "je_job (job_event_of j 0 ''job.queued'' ''queued'' []) \<in> dom (job_at db3)"
    using three(2) by (simp add: f)
  note emit = fine_emit[OF conjunct1[OF three(1)] ev e not_ending(1)]
  show "fine db db4" using fine_trans[OF three(1) emit(1)] .
  have "job_at db3 (jr_id q) = Some j" by (simp add: db3 two at1)
  then show "job_at db4 (jr_id q) = Some j" by (simp add: emit(2))
  show "job_at db (jr_id q) = None" by (rule new)
qed

section \<open>Deletion\<close>

lemma fine_same_jobs:
  assumes ok: "db_ok db" and same: "db_jobs db' = db_jobs db" "db_events db' = db_events db"
    and keys: "distinct (dict_keys (db_sessions db'))"
    and own: "\<And>k j. owns db k j \<Longrightarrow> owns db' k j"
    and keep: "\<And>op d. map_of (db_deletions db) op = Some d \<Longrightarrow> dl_state d \<noteq> Del_Aborted \<Longrightarrow>
      \<exists>d'. map_of (db_deletions db') op = Some d' \<and> dl_session d' = dl_session d \<and> dl_state d' \<noteq> Del_Aborted"
  shows "fine db db'"
proof
  show "db_ok db'"
  proof (rule db_okI)
    show "ended_as db' k j" if "job_at db' k = Some j" for k j
      using that db_okD(5)[OF ok, of k j] by (simp add: ended_as_def same)
    show "owns db' k j" if "job_at db' k = Some j" "active j" for k j
      using own db_okD(4)[OF ok _ that(2)] that(1) by (simp add: same)
    show "je_job e \<in> dom (job_at db')" if "e \<in> set (db_events db')" for e
      using that db_okD(8)[OF ok, of e] by (simp add: same)
    show "length (endings_of db' k) \<le> 1" for k
      using db_okD(9)[OF ok, of k] by (simp add: endings_of_def same)
    show "k = n" if "job_at db' k = Some j" "job_at db' n = Some h" "active j" "active h"
      "jb_lane j = jb_lane h" for k n j h
      using db_okD(6)[OF ok _ _ that(3-5)] that(1,2) by (simp add: same)
    show "k = n" if "job_at db' k = Some j" "job_at db' n = Some h" "jb_token j \<noteq> None"
      "jb_token j = jb_token h" for k n j h
      using db_okD(7)[OF ok _ _ that(3,4)] that(1,2) by (simp add: same)
  qed (use db_okD(1-3)[OF ok] keys in \<open>simp_all add: same\<close>)
  show "evolves db db'" unfolding evolves_def same using keep job_step_refl by blast
qed

lemma fine_quiet:
  assumes ok: "db_ok db" and same: "db_jobs db' = db_jobs db" "db_sessions db' = db_sessions db"
    "db_events db' = db_events db"
    and del: "\<And>t. deletion_active db' t \<Longrightarrow> deletion_active db t"
    and keep: "\<And>op d. map_of (db_deletions db) op = Some d \<Longrightarrow> dl_state d \<noteq> Del_Aborted \<Longrightarrow>
      \<exists>d'. map_of (db_deletions db') op = Some d' \<and> dl_session d' = dl_session d \<and> dl_state d' \<noteq> Del_Aborted"
  shows "fine db db'"
proof (rule fine_same_jobs[OF ok same(1,3) _ _ keep])
  have live: "not_live db' t = not_live db t" for t by (simp add: not_live_def same)
  show "owns db' k j" if "owns db k j" for k j
    using that unfolding owns_def live same using del by blast
  show "distinct (dict_keys (db_sessions db'))" using db_okD(2)[OF ok] by (simp add: same)
qed

lemma deletion_active_iff: "deletion_active db t \<longleftrightarrow>
    (\<exists>op d. (op, d) \<in> set (db_deletions db) \<and> dl_session d = t \<and> active_deletion (dl_state d))"
  unfolding deletion_active_def list_ex_iff Bex_def split_paired_Ex prod.case by blast

lemma deletion_move:
  assumes ok: "db_ok db" and d: "map_of (db_deletions db) op = Some d" "active_deletion (dl_state d)"
    and st: "st \<noteq> Del_Aborted"
  shows "fine db (db\<lparr>db_deletions := dict_set op (d\<lparr>dl_state := st\<rparr>) (db_deletions db)\<rparr>)"
    (is "fine db ?d")
proof (rule fine_quiet[OF ok])
  fix t assume "deletion_active ?d t"
  then obtain o' d' where "(o', d') \<in> set (dict_set op (d\<lparr>dl_state := st\<rparr>) (db_deletions db))"
    and d': "dl_session d' = t" "active_deletion (dl_state d')" by (auto simp: deletion_active_iff)
  then have "(o', d') = (op, d\<lparr>dl_state := st\<rparr>) \<or> (o', d') \<in> set (db_deletions db)"
    using set_dict_set_subset by fastforce
  with d' d(2) map_of_SomeD[OF d(1)] show "deletion_active db t"
    unfolding deletion_active_iff by (elim disjE) auto
qed (use st d(1) in auto)

lemma move_deletion_fine:
  assumes ok: "db_ok db" and m: "move_deletion op from to db = Inr (u, db1)"
    and st: "active_deletion from" "to \<noteq> Del_Aborted"
  shows "fine db db1"
proof -
  obtain d where "map_of (db_deletions db) op = Some d" "dl_state d = from"
    "db1 = db\<lparr>db_deletions := dict_set op (d\<lparr>dl_state := to\<rparr>) (db_deletions db)\<rparr>"
    using m by (auto simp: move_deletion_def split: option.splits if_splits)
  with deletion_move[OF ok] st show ?thesis by blast
qed

lemma block_deletion_fine:
  assumes "db_ok db"
  shows "fine db (block_deletion op db)"
proof (cases "block_deletion op db = db")
  case False
  then obtain d where d: "map_of (db_deletions db) op = Some d"
    by (cases "map_of (db_deletions db) op") (simp_all add: block_deletion_def)
  with False have "active_deletion (dl_state d)"
    by (cases "dl_state d") (simp_all add: block_deletion_def active_deletion_def)
  moreover have "block_deletion op db =
      db\<lparr>db_deletions := dict_set op (d\<lparr>dl_state := Del_Blocked\<rparr>) (db_deletions db)\<rparr>"
    using False d by (auto simp: block_deletion_def split: if_splits)
  ultimately show ?thesis using deletion_move[OF assms d] by simp
qed (simp add: assms)

lemma busy_None:
  assumes ok: "db_ok db" and busy: "busy_job db k = None" and j: "job_at db i = Some j" "active j"
  shows "jb_session j \<noteq> k" "jb_lane j \<noteq> k" "jb_scope j \<noteq> k"
proof -
  have "j \<in> snd ` set (db_jobs db)" using jobs_in_set[OF ok] j(1) by force
  then have "\<not> names_run k j"
    using busy j(2) unfolding busy_job_def find_None_iff by auto
  then show "jb_session j \<noteq> k" "jb_lane j \<noteq> k" "jb_scope j \<noteq> k" by (simp_all add: names_run_def)
qed

lemma reserve_deletion_cases:
  assumes "reserve_deletion op k db = Inr (r, db1)"
  obtains "db1 = db" "\<not> snd r"
  | s where "session_at db k = Some s" "busy_job db k = None" "map_of (db_deletions db) op = None"
    "db1 = db\<lparr>db_jobs := map (\<lambda>(i, j). (i, release_replay (ss_project s) k j)) (db_jobs db),
       db_deletions := dict_set op \<lparr>dl_project = ss_project s, dl_session = k, dl_state = Del_Prepared\<rparr>
         (db_deletions db),
       db_sessions := dict_set k (s\<lparr>ss_storage := Deleting, ss_delete_op := Some op,
         ss_version := ss_version s + 1\<rparr>) (db_sessions db)\<rparr>"
proof (cases "snd r")
  case True
  with assms obtain s where s: "session_at db k = Some s"
    by (cases "session_at db k") (auto simp: reserve_deletion_def split: option.splits)
  have live: "\<not> (ss_storage s = Deleting \<and> ss_delete_op s \<noteq> None)" "\<not> ss_storage s \<noteq> Live"
    using assms s True by (auto simp: reserve_deletion_def split: if_splits)
  have busy: "busy_job db k = None"
    using assms unfolding reserve_deletion_def s option.case if_not_P[OF live(1)] if_not_P[OF live(2)]
    by (cases "busy_job db k") simp_all
  show thesis
    using assms unfolding reserve_deletion_def s option.case if_not_P[OF live(1)] if_not_P[OF live(2)] busy
    by (intro that(2)[OF s busy]) (auto simp: bind_res_Inr_iff guarding_Inr_iff dest!: put_session_Inr)
next
  case False
  then have "db1 = db"
    using assms by (auto simp: reserve_deletion_def bind_res_Inr_iff split: option.splits if_splits)
  with False show thesis by (intro that(1))
qed

lemma reserve_deletion_fine:
  assumes ok: "db_ok db" and r: "reserve_deletion op k db = Inr (r, db1)"
  shows "fine db db1"
  using r
proof (cases rule: reserve_deletion_cases)
  case (2 s)
  let ?f = "release_replay (ss_project s) k"
  have at: "job_at db1 i = map_option ?f (job_at db i)" for i
    by (simp add: 2(4) map_of_map)
  have f: "job_step j (?f j)" "jb_status (?f j) = jb_status j" "jb_token (?f j) = jb_token j"
    "row_ok i (?f j) = row_ok i j" for i j
    by (simp_all add: release_replay_def job_step_def same_job_def row_ok_def shield_ok_def)
  have act: "?f j = j" if "active j" for j using that by (simp add: release_replay_def)
  have before: "job_at db i = Some h" if "job_at db1 i = Some h" "active h" for i h
    using that f(2) act unfolding at by auto
  have deleted: "deletion_active db t" if "deletion_active db1 t" "t \<noteq> k" for t
    using that set_dict_set_subset unfolding deletion_active_iff 2(4) by fastforce
  have live: "not_live db1 t = not_live db t" if "t \<noteq> k" for t using that by (simp add: not_live_def 2(4))
  have "db_ok db1"
  proof (rule db_okI)
    show "distinct (dict_keys (db_jobs db1))"
      using db_okD(1)[OF ok] by (simp add: 2(4) comp_def case_prod_beta)
    show "distinct (dict_keys (db_sessions db1))" using db_okD(2)[OF ok] by (auto simp: 2(4))
    show "row_ok i h" if "job_at db1 i = Some h" for i h
      using that db_okD(3)[OF ok] f(4) unfolding at by auto
    show "owns db1 i h" if "job_at db1 i = Some h" "active h" for i h
    proof -
      note h = before[OF that]
      note n = busy_None[OF ok 2(2) h that(2)]
      show ?thesis using db_okD(4)[OF ok h that(2)] deleted live n unfolding owns_def
        by (simp add: 2(4)) blast
    qed
    show "ended_as db1 i h" if "job_at db1 i = Some h" for i h
      using that db_okD(5)[OF ok, of i] f(2) unfolding at by (auto simp: ended_as_def 2(4))
    show "i = n" if "job_at db1 i = Some h" "job_at db1 n = Some g" "active h" "active g"
      "jb_lane h = jb_lane g" for i n h g
      using db_okD(6)[OF ok before[OF that(1,3)] before[OF that(2,4)] that(3-5)] .
    show "i = n" if "job_at db1 i = Some h" "job_at db1 n = Some g" "jb_token h \<noteq> None"
      "jb_token h = jb_token g" for i n h g
      using that db_okD(7)[OF ok, of i _ n] f(3) unfolding at by auto
    show "je_job e \<in> dom (job_at db1)" if "e \<in> set (db_events db1)" for e
      using that db_okD(8)[OF ok, of e] unfolding dom_def at by (auto simp: 2(4))
    show "length (endings_of db1 i) \<le> 1" for i
      using db_okD(9)[OF ok, of i] by (simp add: endings_of_def 2(4))
  qed
  moreover have "evolves db db1"
    unfolding evolves_def at using f(1) 2(3) by (auto simp: 2(4))
  ultimately show ?thesis by blast
qed (simp add: ok)

lemma fine_remove_session:
  assumes ok: "db_ok db"
    and free: "\<And>i j. job_at db i = Some j \<Longrightarrow> active j \<Longrightarrow> jb_session j \<noteq> k"
    and db': "db_jobs db' = db_jobs db" "db_deletions db' = db_deletions db"
      "db_sessions db' = dict_del k (db_sessions db)" "db_events db' = filter P (db_events db)"
  shows "fine db db'"
proof
  have live: "not_live db' t \<Longrightarrow> not_live db t" for t
    by (auto simp: not_live_def db' split: option.splits if_splits)
  have deleted: "deletion_active db' t = deletion_active db t" for t
    by (simp add: deletion_active_def db')
  show "db_ok db'"
  proof (rule db_okI)
    show "distinct (dict_keys (db_sessions db'))" using db_okD(2)[OF ok] by (auto simp: db')
    show "ended_as db' i j" if "job_at db' i = Some j" for i j
      using that db_okD(5)[OF ok, of i j] by (auto simp: ended_as_def db')
    show "owns db' i j" if "job_at db' i = Some j" "active j" for i j
    proof -
      have j: "job_at db i = Some j" using that by (simp add: db')
      from db_okD(4)[OF ok j that(2)] free[OF j that(2)] show ?thesis
        using live unfolding owns_def deleted by (simp add: db') blast
    qed
    show "je_job e \<in> dom (job_at db')" if "e \<in> set (db_events db')" for e
      using that db_okD(8)[OF ok, of e] by (simp add: db')
    show "length (endings_of db' i) \<le> 1" for i
    proof -
      have "endings_of db' i = filter P (endings_of db i)"
        by (simp add: endings_of_def db' conj_commute)
      then have "length (endings_of db' i) \<le> length (endings_of db i)" by simp
      then show ?thesis using db_okD(9)[OF ok, of i] by (rule le_trans)
    qed
    show "i = n" if "job_at db' i = Some j" "job_at db' n = Some h" "active j" "active h"
      "jb_lane j = jb_lane h" for i n j h
      using db_okD(6)[OF ok _ _ that(3-5)] that(1,2) by (simp add: db')
    show "i = n" if "job_at db' i = Some j" "job_at db' n = Some h" "jb_token j \<noteq> None"
      "jb_token j = jb_token h" for i n j h
      using db_okD(7)[OF ok _ _ that(3,4)] that(1,2) by (simp add: db')
  qed (use db_okD(1-3)[OF ok] in \<open>simp_all add: db'\<close>)
  show "evolves db db'" by (simp add: evolves_def db')
qed

lemma delete_run_fine:
  assumes ok: "db_ok db" and r: "delete_run op d payload db = Inr (u, db1)"
  shows "fine db db1"
proof (cases "db1 = db")
  case False
  obtain s where s: "session_at db (dl_session d) = Some s"
    using r False by (cases "session_at db (dl_session d)") (auto simp: delete_run_def split: if_splits)
  have go: "\<not> ss_project s \<noteq> dl_project d" "\<not> (ss_storage s \<noteq> Deleting \<or> ss_delete_op s \<noteq> Some op)"
    using r s False by (auto simp: delete_run_def split: if_splits)
  note r' = r[unfolded delete_run_def s option.case if_not_P[OF go(1)] if_not_P[OF go(2)]]
  have busy: "busy_job db (dl_session d) = None" using r' by (cases "busy_job db (dl_session d)") simp_all
  obtain audits where m: "move_deletion op Del_Fs_Applied Del_Db_Committed
      (db\<lparr>db_events := filter (\<lambda>e. \<not> (je_project e = dl_project d \<and> je_session e = dl_session d))
            (db_events db),
          db_audits := audits, db_sessions := dict_del (dl_session d) (db_sessions db)\<rparr>) = Inr (u, db1)"
    (is "move_deletion _ _ _ ?d = _")
    using r' unfolding busy option.case Let_def by (auto split: if_splits)
  have one: "fine db ?d"
    by (rule fine_remove_session[OF ok, where k = "dl_session d"])
      (use busy_None(1)[OF ok busy] in simp_all)
  moreover have "fine ?d db1"
    by (rule move_deletion_fine[OF conjunct1[OF one] m]) (simp_all add: active_deletion_def)
  ultimately show ?thesis using fine_trans by blast
qed (simp add: ok)

lemma commit_database_deletion_fine:
  assumes ok: "db_ok db" and c: "commit_database_deletion op d payload db = (r, db1)"
  shows "fine db db1"
proof (cases "delete_run op d payload db")
  case (Inl e)
  then have "db1 = db \<or> db1 = block_deletion op db"
    using c by (cases e) (auto simp: commit_database_deletion_def)
  then show ?thesis using block_deletion_fine[OF ok] ok by auto
next
  case (Inr x)
  then have "delete_run op d payload db = Inr (fst x, db1)"
    using c by (cases x) (auto simp: commit_database_deletion_def)
  then show ?thesis by (rule delete_run_fine[OF ok])
qed

section \<open>Recovery\<close>

lemma transact_fine:
  assumes "\<And>x db1. r = Inr (x, db1) \<Longrightarrow> fine db db1" "db_ok db" "transact db r = (y, db2)"
  shows "fine db db2"
  using assms by (cases r) (auto simp: transact_def)

lemma each_row_fine:
  assumes "db_ok db" "each_row f n js db = (r, db')"
    and step: "\<And>j d x d'. db_ok d \<Longrightarrow> f j d = (x, d') \<Longrightarrow> fine d d'"
  shows "fine db db'"
  using assms(1,2)
proof (induction js arbitrary: n db)
  case (Cons j js)
  obtain x d where f: "f j db = (x, d)" by fastforce
  note one = step[OF Cons.prems(1) f]
  show ?case
  proof (cases x)
    case (Inl e)
    then show ?thesis using Cons.prems(2) f one by simp
  next
    case (Inr b)
    have "each_row f (if b then n + 1 else n) js d = (r, db')" using Cons.prems(2) f Inr by simp
    then have "fine d db'" using Cons.IH one by blast
    then show ?thesis using fine_trans one by blast
  qed
qed simp

lemma reconcile_row_fine:
  assumes "db_ok db" "reconcile_row os now seen db = Inr (b, db1)"
  shows "fine db db1"
  using assms finish_fine by (auto simp: reconcile_row_def split: if_splits option.splits)

lemma reconcile_dead_workers_fine:
  assumes "db_ok db" "reconcile_dead_workers views clock db = (r, db1)"
  shows "fine db db1"
proof (rule each_row_fine[OF assms(1) assms(2)[unfolded reconcile_dead_workers_def]])
  fix j d x d'
  assume d: "db_ok d" "transact d (reconcile_row (views (jb_id j)) (clock (jb_id j)) j d) = (x, d')"
  show "fine d d'" by (rule transact_fine[OF _ d]) (rule reconcile_row_fine[OF d(1)])
qed

lemma terminate_identity_safe_fine:
  assumes ok: "db_ok db" and t: "terminate_identity_safe w now k claim seen db = Inr (gone, signals, db1)"
  shows "fine db db1"
proof -
  obtain r d where a: "authorize_signal (ew_fence w) now k claim seen db = (r, d)" by fastforce
  have "db1 = d" using t unfolding terminate_identity_safe_def a
    by (auto simp: bind_res_Inr_iff split: option.splits if_splits)
  then show ?thesis using authorize_signal_fine[OF ok a] by simp
qed

lemma stop_then_fine:
  assumes ok: "db_ok db" and s: "stop_then w now k claim step db = (r, db1)"
    and step: "\<And>d b d'. db_ok d \<Longrightarrow> step d = Inr (b, d') \<Longrightarrow> fine d d'"
  shows "fine db db1"
proof -
  consider "db1 = db" | gone signals j d where
    "terminate_identity_safe w now k claim j db = Inr (gone, signals, d)"
    "gone \<and> transact d (step d) = (r, db1) \<or> db1 = d"
    using s by (auto simp: stop_then_def split: sum.splits prod.splits if_splits)
  then show ?thesis
  proof cases
    case 1
    then show ?thesis using ok by simp
  next
    case (2 gone signals j d)
    note one = terminate_identity_safe_fine[OF ok 2(1)]
    from 2(2) have "fine d db1"
    proof
      assume "gone \<and> transact d (step d) = (r, db1)"
      then show ?thesis using transact_fine[OF _ conjunct1[OF one]] step[OF conjunct1[OF one]] by blast
    qed (use one in simp)
    then show ?thesis using fine_trans[OF one] by blast
  qed
qed

lemma recover_row_fine:
  assumes ok: "db_ok db" and r: "recover_row fail_queued w os now seen db = (x, db1)"
  shows "fine db db1"
proof -
  let ?k = "jb_id seen"
  let ?fail = "fail_active now ?k ''orphaned'' startup_message True"
  consider "db1 = db"
    | "transact db (fail_active now ?k ''startup_unlaunched'' unlaunched_message True db) = (x, db1)"
    | c where "stop_then w now ?k (Some c) (finish now c Job_Cancelled escalated None) db = (x, db1)"
    | j where "db1 = snd (authorize_signal (ew_fence w) now ?k None j db)"
    | "stop_then w now ?k None ?fail db = (x, db1)"
    | "transact db (?fail db) = (x, db1)"
    using r unfolding recover_row_def Let_def
    by (auto split: if_splits option.splits sum.splits)
  then show ?thesis
  proof cases
    case 2
    show ?thesis by (rule transact_fine[OF fail_active_fine[OF ok] ok 2])
  next
    case (3 c)
    show ?thesis by (rule stop_then_fine[OF ok 3]) (rule finish_fine)
  next
    case (4 j)
    then show ?thesis using authorize_signal_fine[OF ok, of "ew_fence w" now ?k None j "fst (authorize_signal (ew_fence w) now ?k None j db)" db1] by simp
  next
    case 5
    show ?thesis by (rule stop_then_fine[OF ok 5]) (rule fail_active_fine)
  next
    case 6
    show ?thesis by (rule transact_fine[OF fail_active_fine[OF ok] ok 6])
  qed (simp add: ok)
qed

lemma recover_startup_fine:
  assumes ok: "db_ok db" and r: "recover_startup fail_queued watches views clock db = (x, db1)"
  shows "fine db db1"
proof -
  obtain n d where c: "clear_stale_critical_sections db = Inr (n, d)"
    by (simp add: clear_stale_critical_sections_def)
  have d: "d = db" by (rule clear_stale_fine(1)[OF ok c])
  show ?thesis
    by (rule each_row_fine[OF ok r[unfolded recover_startup_def c sum.case prod.case d]])
      (rule recover_row_fine)
qed

section \<open>Sessions\<close>

lemma fine_session:
  assumes ok: "db_ok db" and s: "session_at db k = Some s" "ss_project s' = ss_project s"
      "ss_active_job s' = ss_active_job s" "ss_storage s' = ss_storage s"
    and db': "db' = db\<lparr>db_sessions := dict_set k s' (db_sessions db)\<rparr>"
  shows "fine db db'"
proof (rule fine_same_jobs[OF ok])
  have live: "not_live db' t = not_live db t" for t using s by (simp add: not_live_def db')
  have deleted: "deletion_active db' t = deletion_active db t" for t
    by (simp add: deletion_active_def db')
  show "owns db' i j" if "owns db i j" for i j
    using that s unfolding owns_def live deleted by (auto simp: db')
  show "distinct (dict_keys (db_sessions db'))" using db_okD(2)[OF ok] by (auto simp: db')
qed (simp_all add: db')

lemma fine_new_session:
  assumes ok: "db_ok db" and s: "session_at db k = None" "ss_storage s = Live"
    and db': "db' = db\<lparr>db_sessions := dict_set k s (db_sessions db)\<rparr>"
  shows "fine db db'"
proof (rule fine_same_jobs[OF ok])
  have live: "not_live db' t = not_live db t" for t using s by (simp add: not_live_def db')
  have deleted: "deletion_active db' t = deletion_active db t" for t
    by (simp add: deletion_active_def db')
  show "owns db' i j" if "owns db i j" for i j
    using that s unfolding owns_def live deleted by (auto simp: db')
  show "distinct (dict_keys (db_sessions db'))" using db_okD(2)[OF ok] by (auto simp: db')
qed (simp_all add: db')

lemma start_session_fine:
  assumes ok: "db_ok db" and r: "start_session others p k db = Inr (u, db1)"
  shows "fine db db1"
proof (cases "session_at db k")
  case None
  then have "db1 = db\<lparr>db_sessions := dict_set k \<lparr>ss_project = p, ss_status = ''running'',
      ss_active_job = None, ss_storage = Live, ss_delete_op = None, ss_version = 0\<rparr> (db_sessions db)\<rparr>"
    using r by (auto simp: start_session_def split: if_splits)
  from fine_new_session[OF ok None _ this] show ?thesis by simp
next
  case (Some s)
  then have "db1 = db\<lparr>db_sessions := dict_set k (s\<lparr>ss_status := ''running''\<rparr>) (db_sessions db)\<rparr>"
    using r by (auto simp: start_session_def bind_res_Inr_iff dest!: put_session_Inr split: if_splits option.splits)
  from fine_session[OF ok Some _ _ _ this] show ?thesis by simp
qed

lemma mark_session_status_fine:
  assumes ok: "db_ok db" and r: "mark_session_status p k st db = Inr (u, db1)"
  shows "fine db db1"
proof (cases "db1 = db")
  case False
  then obtain s where s: "session_at db k = Some s"
    using r by (cases "session_at db k") (auto simp: mark_session_status_def split: if_splits)
  then have "db1 = db\<lparr>db_sessions := dict_set k (s\<lparr>ss_status := st\<rparr>) (db_sessions db)\<rparr>"
    using r False by (auto simp: mark_session_status_def bind_res_Inr_iff dest!: put_session_Inr split: if_splits option.splits)
  from fine_session[OF ok s _ _ _ this] show ?thesis by simp
qed (simp add: ok)

section \<open>Schedules\<close>

lemma committed_fine:
  assumes "\<And>x db1. r = Inr (x, db1) \<Longrightarrow> fine db db1" "db_ok db"
  shows "fine db (committed db r)"
  unfolding committed_def by (rule transact_fine[OF assms prod.collapse[symmetric]])

lemma snd_fine: "(\<And>x db1. r = (x, db1) \<Longrightarrow> fine db db1) \<Longrightarrow> fine db (snd r)"
  by (cases r) simp

lemmas transaction_fine = start_session_fine mark_session_status_fine create_queued_job_fine(1)
  claim_launch_fine acknowledge_spawn_fine child_start_fine heartbeat_fine enter_critical_fine
  exit_critical_fine finish_fine fail_active_fine request_cancel_fine reconcile_row_fine
  reserve_deletion_fine

lemma perform_fine:
  assumes "db_ok db"
  shows "fine db (perform db c)"
proof (cases c)
  case (Quarantine_Applied op)
  show ?thesis unfolding Quarantine_Applied perform.simps
    by (rule committed_fine[OF _ assms])
      (rule move_deletion_fine[OF assms, of op Del_Prepared Del_Fs_Applied],
       simp_all add: quarantine_applied_def active_deletion_def)
next
  case (Mark_Done op)
  show ?thesis unfolding Mark_Done perform.simps
    by (rule committed_fine[OF _ assms])
      (rule move_deletion_fine[OF assms, of op Del_Db_Committed Del_Done],
       simp_all add: mark_done_def active_deletion_def)
qed (simp_all only: perform.simps,
  (rule committed_fine[OF _ assms] snd_fine block_deletion_fine[OF assms],
   (rule transaction_fine[OF assms] authorize_signal_fine[OF assms] recover_row_fine[OF assms]
      reconcile_dead_workers_fine[OF assms] recover_startup_fine[OF assms]
      commit_database_deletion_fine[OF assms], assumption)?)+)

interpretation jobs: component perform db_ok
  by unfold_locales (use perform_fine in blast)

lemma run_commands_fine:
  assumes "db_ok db"
  shows "fine db (run_commands cs db)"
proof -
  have "fine db (foldl perform db cs)" using assms
  proof (induction cs arbitrary: db)
    case (Cons c cs)
    show ?case using fine_trans perform_fine[OF Cons.prems, of c] Cons.IH[of "perform db c"] by auto
  qed simp
  then show ?thesis by (simp add: run_commands_def)
qed

lemma run_commands_append: "run_commands (cs @ ds) db = run_commands ds (run_commands cs db)"
  by (simp add: run_commands_def)

lemma empty_ok: "db_ok empty_database"
  by (simp add: db_ok_def db_parts ended_as_def endings_of_def empty_database_def)

lemma reachable_ok: "db_ok (run_commands cs empty_database)"
  unfolding run_commands_def by (rule jobs.run_inv[OF empty_ok])

lemma reachable_fine: "fine (run_commands cs empty_database) (run_commands ds (run_commands cs empty_database))"
  using run_commands_fine[OF reachable_ok] by blast

end
