(* ===== verification/JobProperties.thy ===== *)
theory JobProperties
  imports JobTransactions
begin

text \<open>
  The properties of durable jobs, over every schedule of commands from the empty database.
\<close>

section \<open>A schedule for the witnesses\<close>

definition sample_request :: "string \<Rightarrow> string \<Rightarrow> job_request" where
  "sample_request k session = \<lparr>jr_id = k, jr_session = session, jr_project = ''p'', jr_kind = ''auto_eda'',
     jr_params = ''{}'', jr_idempotency = None, jr_lane = session, jr_digest = ''d'', jr_scope = session\<rparr>"

definition sample_claim :: launch_claim where
  "sample_claim = \<lparr>cl_job = ''j'', cl_token = ''t'', cl_attempt = 1\<rparr>"

definition sample_identity :: process_identity where
  "sample_identity = \<lparr>pi_pid = 7, pi_start_token = ''b'', pi_source = ''procfs''\<rparr>"

definition sample_system :: "process_identity option \<Rightarrow> bool \<Rightarrow> os_view" where
  "sample_system i alive = \<lparr>os_identity = (\<lambda>p. i), os_alive = (\<lambda>p. alive)\<rparr>"

definition sample_queue :: "job_command list" where
  "sample_queue = [Create 0 (sample_request ''j'' ''s''), Create 1 (sample_request ''i'' ''r'')]"

definition sample_launch :: "job_command list" where
  "sample_launch = sample_queue @ [Launch 1 ''t'' ''api'' ''j'']"

definition sample_run :: "job_command list" where
  "sample_run = sample_launch @ [Acknowledge 2 sample_claim 7 (Some sample_identity), Child_Start 3 sample_claim]"

lemmas sample_defs = sample_request_def sample_claim_def sample_identity_def sample_queue_def
  sample_launch_def sample_run_def

section \<open>Ownership\<close>

text \<open>C9. Under every schedule of commands, an active job owns its run, which is live, and no other
  active job has its lane or its run.\<close>

theorem active_job_owns_its_run:
  assumes "db = run_commands cs empty_database" "job_at db k = Some j" "active j"
  shows "(\<exists>s. session_at db (jb_session j) = Some s \<and> ss_active_job s = Some k \<and> ss_storage s = Live \<and>
      ss_project s = jb_project j) \<and>
    (\<forall>i h. job_at db i = Some h \<and> active h \<and> (jb_lane h = jb_lane j \<or> jb_session h = jb_session j) \<longrightarrow> i = k)"
proof (intro conjI allI impI)
  have ok: "db_ok db" unfolding assms(1) by (rule reachable_ok)
  note own = db_okD(4)[OF ok assms(2,3)]
  show "\<exists>s. session_at db (jb_session j) = Some s \<and> ss_active_job s = Some k \<and> ss_storage s = Live \<and>
      ss_project s = jb_project j" using own unfolding owns_def by blast
  fix i h assume h: "job_at db i = Some h \<and> active h \<and> (jb_lane h = jb_lane j \<or> jb_session h = jb_session j)"
  show "i = k"
  proof (cases "jb_lane h = jb_lane j")
    case True
    then show ?thesis using db_okD(6)[OF ok _ assms(2) _ assms(3), of i h] h by blast
  next
    case False
    then show ?thesis using own db_okD(4)[OF ok, of i h] h unfolding owns_def by auto
  qed
qed

lemma sample_job:
  assumes "case job_at db k of None \<Rightarrow> False | Some j \<Rightarrow> P j"
  obtains j where "job_at db k = Some j" "P j"
  using assms by (cases "job_at db k") simp_all

theorem active_job_owns_its_run_witness:
  "\<exists>s. session_at (run_commands sample_run empty_database) ''s'' = Some s \<and>
      ss_active_job s = Some ''j'' \<and> ss_storage s = Live \<and> ss_project s = ''p''"
proof -
  have "case job_at (run_commands sample_run empty_database) ''j'' of None \<Rightarrow> False
    | Some j \<Rightarrow> active j \<and> jb_session j = ''s'' \<and> jb_project j = ''p''" by code_simp
  then obtain j where j: "job_at (run_commands sample_run empty_database) ''j'' = Some j"
    "active j \<and> jb_session j = ''s'' \<and> jb_project j = ''p''" by (rule sample_job)
  show ?thesis using active_job_owns_its_run[OF refl j(1) conjunct1[OF j(2)]] j(2) by metis
qed

section \<open>Endings\<close>

text \<open>C10. An ended job keeps its status for ever, under any further commands, and the trace never
  holds more than one ending of it, which says that status.\<close>

theorem ending_is_final:
  assumes "db = run_commands cs empty_database" "job_at db k = Some j" "terminal (jb_status j)"
  shows "\<exists>j'. job_at (run_commands ds db) k = Some j' \<and> jb_status j' = jb_status j \<and>
    length (endings_of (run_commands ds db) k) \<le> 1 \<and>
    list_all (\<lambda>e. je_type e = ''job.'' @ status_text (jb_status j)) (endings_of (run_commands ds db) k)"
proof -
  note later = reachable_fine[where cs = cs and ds = ds, folded assms(1)]
  obtain j' where j': "job_at (run_commands ds db) k = Some j'" "job_step j j'"
    by (rule evolvesE[OF conjunct2[OF later] assms(2)])
  have st: "jb_status j' = jb_status j" by (rule job_stepD(2)[OF j'(2) assms(3)])
  have "ended_as (run_commands ds db) k j'" by (rule db_okD(5)[OF conjunct1[OF later] j'(1)])
  then have "list_all (\<lambda>e. je_type e = ''job.'' @ status_text (jb_status j)) (endings_of (run_commands ds db) k)"
    unfolding ended_as_def endings_of_def st list_all_iff by simp
  then show ?thesis using j'(1) st db_okD(9)[OF conjunct1[OF later]] by blast
qed

definition sample_end :: "job_command list" where
  "sample_end = sample_run @ [Finish 4 sample_claim Job_Completed no_ending None]"

theorem ending_is_final_witness:
  "\<exists>j'. job_at (run_commands [Cancel 9 2 ''j''] (run_commands sample_end empty_database)) ''j'' = Some j' \<and>
    jb_status j' = Job_Completed"
proof -
  have "case job_at (run_commands sample_end empty_database) ''j'' of None \<Rightarrow> False
    | Some j \<Rightarrow> terminal (jb_status j) \<and> jb_status j = Job_Completed" by code_simp
  then obtain j where j: "job_at (run_commands sample_end empty_database) ''j'' = Some j"
    "terminal (jb_status j) \<and> jb_status j = Job_Completed" by (rule sample_job)
  show ?thesis using ending_is_final[OF refl j(1), of "[Cancel 9 2 ''j'']"] j(2) by auto
qed

lemma finish_ends:
  assumes "db = run_commands cs empty_database" "claimed_row db c = Some j" "terminal st"
    "jb_status j \<in> {Job_Launching, Job_Running, Job_Cancelling}"
    "jb_status j \<noteq> Job_Launching \<or> st \<noteq> Job_Completed"
  shows "\<exists>db' j' s\<^sub>0 s e. finish now c st en None db = Inr (True, db') \<and> job_at db' (cl_job c) = Some j' \<and>
    jb_status j' = (if jb_status j = Job_Cancelling then Job_Cancelled else st) \<and>
    jb_error_code j' = en_error_code en \<and> jb_finished j' = Some now \<and> jb_depth j' = 0 \<and>
    session_at db (jb_session j) = Some s\<^sub>0 \<and> session_at db' (jb_session j) = Some s \<and> ss_active_job s = None \<and>
    ss_status s = (if jb_status j' = Job_Completed \<and> ss_status s\<^sub>0 = ''limited'' then ''limited''
      else status_text (jb_status j')) \<and>
    db_events db' = db_events db @ [e] \<and> je_job e = cl_job c \<and> je_type e = ''job.'' @ status_text (jb_status j')"
proof -
  have ok: "db_ok db" unfolding assms(1) by (rule reachable_ok)
  have at: "job_at db (cl_job c) = Some j" using assms(2) by (simp add: claimed_row_Some)
  note r = row_okD[OF ok at]
  define e where "e = (if jb_status j = Job_Cancelling then Job_Cancelled else st)"
  define j' where "j' = j\<lparr>jb_status := e, jb_version := jb_version j + 1,
            jb_finished := Some now, jb_error_code := en_error_code en,
            jb_error_message := en_error_message en, jb_heartbeat := Some now, jb_lease := None,
            jb_depth := 0, jb_critical_owner := None\<rparr>"
  define ev where "ev = (\<lambda>shown. job_event_of j (cl_attempt c) (''job.'' @ status_text e) (status_text e)
       (ending_summary shown en))"
  have ev: "\<And>shown. je_session (ev shown) = jb_session j" "\<And>shown. je_project (ev shown) = jb_project j"
    by (simp_all add: ev_def)
  have run: "\<not> jb_status j \<notin> {Job_Launching, Job_Running, Job_Cancelling}" using assms(4) by auto
  have e: "terminal (jb_status j')" "jb_status j' = e" "jb_token j' = jb_token j"
    using assms(3) by (simp_all add: j'_def e_def terminal_iff)
  have act: "active j" using assms(4) by (auto simp: terminal_iff)
  have row: "row_ok (cl_job c) j'"
    using r(1,3,4) assms(3,4) by (auto simp: row_ok_def shield_ok_def j'_def e_def terminal_iff)
  have step: "job_step j j'"
    using assms(3,4) by (auto simp: job_step_def same_job_def j'_def e_def terminal_iff)
  have legal: "legal_transition (jb_status j) (jb_status j')" "jb_version j' = jb_version j + 1"
    using assms(3,4,5) by (auto simp: j'_def e_def terminal_iff)
  obtain shown d1 d2 d3 where u: "update_status db j j' = Inr d1"
    "update_run_terminal d1 (cl_job c) (jb_session j) (jb_status j') = Inr (shown, d2)"
    "insert_event d2 (ev shown) = Inr d3"
    by (rule end_job_succeeds[OF ok at act e(1) row e(3) step legal ev])
  have "finish now c st en None db = Inr (True, d3)"
    using assms(3) u(1,3) u(2)[unfolded e(2)] at
    unfolding finish_def terminal_in_transaction_def assms(2) option.case Let_def if_not_P[OF run]
      e_def[symmetric] j'_def[symmetric] require_job_def
    by (simp add: ev_def)
  moreover have "je_job (ev shown) = cl_job c" "je_type (ev shown) = ''job.'' @ status_text (jb_status j')"
    using r(1) by (simp_all add: ev_def e(2))
  note end_job[OF ok at act e(1) row e(3) step u this]
  moreover obtain s0 where "session_at db (jb_session j) = Some s0"
    "shown = (if jb_status j' = Job_Completed \<and> ss_status s0 = ''limited'' then ''limited''
       else status_text (jb_status j'))"
    by (rule update_run_terminal_Inr[OF u(2)]) (simp add: update_status_Inr[OF u(1)])
  ultimately show ?thesis
    unfolding e_def[symmetric] e(2)[symmetric] using r(1) by (auto simp: j'_def ev_def)
qed

text \<open>C11. A launching, running or cancelling job that its worker finishes is ended, whatever happened
  before (a launching one cannot be completed): the call succeeds, the status is the worker's, or
  cancelled if a cancellation was requested, with its error code and time, the run is given back and
  shows that status, except that a limited run whose job completes stays limited (a failed or
  cancelled ending repaints it), and the trace gains the one ending.\<close>

theorem finish_takes_effect:
  assumes "db = run_commands cs empty_database" "claimed_row db c = Some j" "terminal st"
    "jb_status j \<in> {Job_Launching, Job_Running, Job_Cancelling}"
    "jb_status j \<noteq> Job_Launching \<or> st \<noteq> Job_Completed"
  shows "\<exists>db' j' s\<^sub>0 s e. finish now c st en None db = Inr (True, db') \<and> job_at db' (cl_job c) = Some j' \<and>
    jb_status j' = (if jb_status j = Job_Cancelling then Job_Cancelled else st) \<and>
    jb_error_code j' = en_error_code en \<and> jb_finished j' = Some now \<and> jb_depth j' = 0 \<and>
    session_at db (jb_session j) = Some s\<^sub>0 \<and> session_at db' (jb_session j) = Some s \<and> ss_active_job s = None \<and>
    ss_status s = (if jb_status j' = Job_Completed \<and> ss_status s\<^sub>0 = ''limited'' then ''limited''
      else status_text (jb_status j')) \<and>
    db_events db' = db_events db @ [e] \<and> je_job e = cl_job c \<and> je_type e = ''job.'' @ status_text (jb_status j')"
  using finish_ends[OF assms] .

theorem finish_takes_effect_witness:
  "\<exists>db' s. finish 4 sample_claim Job_Completed no_ending None (run_commands sample_run empty_database) =
     Inr (True, db') \<and> session_at db' ''s'' = Some s \<and> ss_active_job s = None"
proof -
  have "case claimed_row (run_commands sample_run empty_database) sample_claim of None \<Rightarrow> False
    | Some j \<Rightarrow> jb_status j = Job_Running \<and> jb_session j = ''s''" by code_simp
  then obtain j where j: "claimed_row (run_commands sample_run empty_database) sample_claim = Some j"
    "jb_status j = Job_Running \<and> jb_session j = ''s''"
    by (cases "claimed_row (run_commands sample_run empty_database) sample_claim") simp_all
  show ?thesis
    using finish_takes_effect[OF refl j(1), of Job_Completed 4 no_ending] j(2)
    by (auto simp: terminal_iff)
qed

section \<open>Launch\<close>

text \<open>C23. A job is launched at most once: when a launch was claimed, no later schedule lets anyone
  claim it again, and no other claim ever owns the row.\<close>

theorem launched_at_most_once:
  assumes "db = run_commands cs empty_database" "claim_launch now token owner k db = Inr (c, db1)"
  shows "claim_launch now' token' owner' k (run_commands ds db1) = Inl (Not_Launchable k) \<and>
    (claimed_row (run_commands ds db1) c' = None \<or> cl_job c' \<noteq> k \<or> c' = c)"
proof -
  have ok: "db_ok db" unfolding assms(1) by (rule reachable_ok)
  have fine1: "fine db db1" by (rule claim_launch_fine[OF ok assms(2)])
  obtain j where j: "job_at db1 k = Some j" "jb_status j \<noteq> Job_Queued"
    and c: "c = \<lparr>cl_job = k, cl_token = token, cl_attempt = jb_attempt j\<rparr>" "jb_token j = Some token"
  proof -
    obtain j0 where j0: "job_at db k = Some j0" and u: "update_status db j0 (j0\<lparr>jb_status := Job_Launching, jb_version := jb_version j0 + 1,
         jb_attempt := jb_attempt j0 + 1, jb_token := Some token, jb_owner := Some owner,
         jb_lease := Some (now + lease_seconds), jb_heartbeat := Some now, jb_pid := None,
         jb_identity := None, jb_ack := None\<rparr>) = Inr db1" (is "update_status db j0 ?j = _")
      and c0: "c = \<lparr>cl_job = k, cl_token = token, cl_attempt = jb_attempt j0 + 1\<rparr>"
      using assms(2) by (auto simp: claim_launch_def require_job_def bind_res_Inr_iff split: option.splits if_splits)
    have "jb_id j0 = k" by (rule row_okD(1)[OF ok j0])
    with update_status_Inr[OF u] c0 show thesis by (intro that[of ?j]) simp_all
  qed
  have later: "evolves db1 (run_commands ds db1)" using run_commands_fine conjunct1[OF fine1] by blast
  obtain j' where j': "job_at (run_commands ds db1) k = Some j'" "job_step j j'"
    by (rule evolvesE[OF later j(1)])
  note same = job_stepD(4-6)[OF j'(2) j(2)]
  have "claim_launch now' token' owner' k (run_commands ds db1) = Inl (Not_Launchable k)"
    using j'(1) same(1) by (simp add: claim_launch_def require_job_def)
  moreover have "c' = c" if "claimed_row (run_commands ds db1) c' \<noteq> None" "cl_job c' = k"
    using that j'(1) same(2,3) c by (cases c') (auto simp: claimed_row_def split: if_splits)
  ultimately show ?thesis by blast
qed

theorem launched_at_most_once_witness:
  "claim_launch 9 ''u'' ''api'' ''j'' (run_commands [Child_Start 3 sample_claim]
     (snd (projr (claim_launch 1 ''t'' ''api'' ''j'' (run_commands sample_queue empty_database))))) =
   Inl (Not_Launchable ''j'')"
proof -
  have "(case claim_launch 1 ''t'' ''api'' ''j'' (run_commands sample_queue empty_database) of
    Inl e \<Rightarrow> False | Inr x \<Rightarrow> True)" by code_simp
  then obtain c db1 where c: "claim_launch 1 ''t'' ''api'' ''j'' (run_commands sample_queue empty_database) = Inr (c, db1)"
    by (auto split: sum.splits)
  from launched_at_most_once[OF refl c, of 9 "''u''" "''api''" "[Child_Start 3 sample_claim]" sample_claim]
  show ?thesis by (simp add: c)
qed

text \<open>A claim that does not own the row (another token or attempt) can do nothing: every operation
  of the worker refuses it and leaves the database as it is.\<close>

theorem stale_claim_is_fenced:
  assumes "claimed_row db c = None"
  shows "acknowledge_spawn now c pid i db = Inl Lost_Claim \<and> heartbeat now c db = Inr (False, db) \<and>
    enter_critical c db = Inr (False, db) \<and> exit_critical c db = Inr (False, db) \<and>
    perform db (Child_Start now c) = db \<and> perform db (Finish now c st en v) = db \<and>
    cancellation_blocked_by_critical now c db = False"
  using assms
  by (auto simp: acknowledge_spawn_def heartbeat_def enter_critical_def exit_critical_def child_start_def
      finish_def terminal_in_transaction_def cancellation_blocked_by_critical_def committed_def
      transact_def require_job_def split: option.splits)

theorem stale_claim_is_fenced_witness:
  "enter_critical (sample_claim\<lparr>cl_attempt := 2\<rparr>) (run_commands sample_run empty_database) =
     Inr (False, run_commands sample_run empty_database)"
proof -
  have "claimed_row (run_commands sample_run empty_database) (sample_claim\<lparr>cl_attempt := 2\<rparr>) = None"
    by code_simp
  from stale_claim_is_fenced[OF this] show ?thesis by blast
qed

section \<open>Cancellation, shields and signals\<close>

text \<open>C20. A job whose cancellation was accepted is never reported completed or failed: under any
  further commands it is cancelling or cancelled.\<close>

theorem cancelled_never_completes:
  assumes "db = run_commands cs empty_database" "request_cancel now grace k db = Inr (j, db1)"
    "active (the (job_at db k))"
  shows "\<exists>j'. job_at (run_commands ds db1) k = Some j' \<and> jb_status j' \<in> {Job_Cancelling, Job_Cancelled}"
proof -
  have ok: "db_ok db" unfolding assms(1) by (rule reachable_ok)
  have ok1: "db_ok db1" using request_cancel_fine[OF ok assms(2)] by blast
  obtain j0 where j0: "job_at db k = Some j0" "active j0"
    using assms(2,3) by (cases "job_at db k") (auto simp: request_cancel_def require_job_def)
  have "jb_id j0 = k" by (rule row_okD(1)[OF ok j0(1)])
  have "\<exists>j1. job_at db1 k = Some j1 \<and> jb_status j1 \<in> {Job_Cancelling, Job_Cancelled}"
  proof -
    consider "jb_status j0 = Job_Queued" | "jb_status j0 \<noteq> Job_Queued" "jb_status j0 \<in> {Job_Launching, Job_Running}"
      | "jb_status j0 = Job_Cancelling" using j0(2) by (cases "jb_status j0") (auto simp: terminal_iff)
    then show ?thesis
    proof cases
      case 3
      then have "db1 = db" using assms(2) j0 by (simp add: request_cancel_def require_job_def)
      then show ?thesis using 3 j0(1) by simp
    qed (use assms(2) j0 \<open>jb_id j0 = k\<close> in \<open>auto simp: request_cancel_def require_job_def Let_def bind_res_Inr_iff
          elim!: insert_event_Inr update_run_terminal_Inr dest!: update_status_Inr split: if_splits\<close>)
  qed
  then obtain j1 where j1: "job_at db1 k = Some j1" "jb_status j1 \<in> {Job_Cancelling, Job_Cancelled}" by blast
  obtain j' where j': "job_at (run_commands ds db1) k = Some j'" "job_step j1 j'"
    by (rule evolvesE[OF conjunct2[OF run_commands_fine[OF ok1]] j1(1)])
  have "jb_status j' \<in> {Job_Cancelling, Job_Cancelled}"
    using j1(2) job_stepD(2,3)[OF j'(2)] by (auto simp: terminal_iff)
  then show ?thesis using j'(1) by blast
qed

theorem cancelled_never_completes_witness:
  "\<exists>j'. job_at (run_commands [Finish 9 sample_claim Job_Completed no_ending None]
      (snd (projr (request_cancel 5 2 ''j'' (run_commands sample_run empty_database))))) ''j'' = Some j' \<and>
    jb_status j' \<in> {Job_Cancelling, Job_Cancelled}"
proof -
  have "(case request_cancel 5 2 ''j'' (run_commands sample_run empty_database) of
    Inl e \<Rightarrow> False | Inr x \<Rightarrow> True)" by code_simp
  then obtain j db1 where c: "request_cancel 5 2 ''j'' (run_commands sample_run empty_database) = Inr (j, db1)"
    by (auto split: sum.splits)
  have "active (the (job_at (run_commands sample_run empty_database) ''j''))" by code_simp
  from cancelled_never_completes[OF refl c this] show ?thesis by (simp add: c)
qed

text \<open>C21. While a publish shield is held the kill fence is never committed; once it is, no shield is
  entered any more, under any further commands.\<close>

theorem shield_and_kill_exclude:
  assumes "db = run_commands cs empty_database" "job_at db k = Some j"
  shows "(0 < jb_depth j \<longrightarrow> authorize_signal os now k claim seen db = (None, db)) \<and>
    (jb_fence j = Fence_Committed \<longrightarrow> jb_depth j = 0 \<and>
       enter_critical (c\<lparr>cl_job := k\<rparr>) (run_commands ds db) = Inr (False, run_commands ds db))"
proof (intro conjI impI)
  have ok: "db_ok db" unfolding assms(1) by (rule reachable_ok)
  show "authorize_signal os now k claim seen db = (None, db)" if "0 < jb_depth j"
    using that assms(2) by (auto simp: authorize_signal_def authorized_def split: option.splits)
  assume fence: "jb_fence j = Fence_Committed"
  show "jb_depth j = 0" using row_okD(2)[OF ok assms(2)] fence by (auto simp: shield_ok_def)
  obtain j' where j': "job_at (run_commands ds db) k = Some j'" "job_step j j'"
    by (rule evolvesE[OF conjunct2[OF run_commands_fine[OF ok]] assms(2)])
  have "jb_fence j' = Fence_Committed" by (rule job_stepD(7)[OF j'(2) fence])
  then show "enter_critical (c\<lparr>cl_job := k\<rparr>) (run_commands ds db) = Inr (False, run_commands ds db)"
    using j'(1) by (auto simp: enter_critical_def claimed_row_def)
qed

theorem shield_and_kill_exclude_witness:
  "authorize_signal (sample_system (Some sample_identity) True) 5 ''j'' None
      (the (job_at (run_commands sample_run empty_database) ''j''))
      (run_commands (sample_run @ [Enter_Critical sample_claim]) empty_database) =
    (None, run_commands (sample_run @ [Enter_Critical sample_claim]) empty_database)"
proof -
  have "case job_at (run_commands (sample_run @ [Enter_Critical sample_claim]) empty_database) ''j'' of
    None \<Rightarrow> False | Some j \<Rightarrow> 0 < jb_depth j" by code_simp
  then obtain j where "job_at (run_commands (sample_run @ [Enter_Critical sample_claim]) empty_database) ''j'' = Some j"
    "0 < jb_depth j" by (rule sample_job)
  then show ?thesis using shield_and_kill_exclude[OF refl] by blast
qed

text \<open>C22. A signal goes only to the process of the job's recorded birth identity, which the operating
  system has just confirmed, and only after the kill fence of the job is committed.\<close>

theorem signals_reach_only_the_worker:
  assumes "terminate_identity_safe w now k claim seen db = Inr (gone, signals, db1)" "g \<in> set signals"
    "db = run_commands cs empty_database"
  shows "\<exists>i j. jb_identity seen = Some i \<and> g \<in> {Request_Stop (pi_pid i), Force_Kill (pi_pid i)} \<and>
    check_process_identity (ew_before_stop w) i = Same_Process \<and>
    (g = Force_Kill (pi_pid i) \<longrightarrow> check_process_identity (ew_before_kill w) i = Same_Process) \<and>
    job_at db1 k = Some j \<and> jb_fence j = Fence_Committed \<and> jb_identity j = Some i \<and> jb_depth j = 0"
proof -
  have ok: "db_ok db" unfolding assms(3) by (rule reachable_ok)
  obtain r d where a: "authorize_signal (ew_fence w) now k claim seen db = (r, d)" by fastforce
  note t = assms(1)[unfolded terminate_identity_safe_def a]
  from a show ?thesis
  proof (cases rule: authorize_signal_cases)
    case 1
    then show ?thesis using t assms(2) by (auto simp: bind_res_Inr_iff split: option.splits)
  next
    case (2 j i)
    have "jb_id j = k" by (rule row_okD(1)[OF ok 2(5)])
    moreover have "d = db1" using t 2(1) by (auto split: if_splits)
    moreover have "check_process_identity (ew_before_stop w) i = Same_Process"
      "g \<in> {Request_Stop (pi_pid i), Force_Kill (pi_pid i)}"
      "g = Force_Kill (pi_pid i) \<Longrightarrow> check_process_identity (ew_before_kill w) i = Same_Process"
      using t 2(1) assms(2) by (auto split: if_splits)
    moreover have "jb_identity j = Some i" "jb_depth j = 0" using 2(2,6) by (auto simp: authorized_def)
    ultimately show ?thesis using 2(2,7) by auto
  qed
qed

definition sample_watch :: exit_watch where
  "sample_watch = (let here = sample_system (Some sample_identity) True; gone = sample_system None False in
     \<lparr>ew_fence = here, ew_before_stop = here, ew_after_stop = [here], ew_before_kill = here,
      ew_at_mismatch = here, ew_after_kill = [here, gone]\<rparr>)"

theorem signals_reach_only_the_worker_witness:
  "\<exists>i. check_process_identity (ew_before_kill sample_watch) i = Same_Process \<and>
     (case terminate_identity_safe sample_watch 9 ''j'' None
        (the (job_at (run_commands sample_run empty_database) ''j'')) (run_commands sample_run empty_database) of
      Inl e \<Rightarrow> False | Inr (gone, signals, db1) \<Rightarrow> gone \<and> Force_Kill (pi_pid i) \<in> set signals)"
proof -
  let ?r = "terminate_identity_safe sample_watch 9 ''j'' None
        (the (job_at (run_commands sample_run empty_database) ''j'')) (run_commands sample_run empty_database)"
  have "case ?r of Inl e \<Rightarrow> False | Inr (gone, signals, db1) \<Rightarrow> gone \<and> signals = [Request_Stop 7, Force_Kill 7]"
    by code_simp
  then obtain db1 where r: "?r = Inr (True, [Request_Stop 7, Force_Kill 7], db1)"
    by (auto split: sum.splits prod.splits)
  have "Force_Kill 7 \<in> set [Request_Stop 7, Force_Kill 7]" by simp
  from signals_reach_only_the_worker[OF r this refl] obtain i where
    "check_process_identity (ew_before_kill sample_watch) i = Same_Process" "pi_pid i = 7" by auto
  then show ?thesis using r by auto
qed

section \<open>Recovery\<close>

text \<open>Failing an active job never fails: whatever its state, it is ended (cancelled if it was
  cancelling) and its run is given back.\<close>

theorem fail_active_takes_effect:
  assumes "db = run_commands cs empty_database" "job_at db k = Some j" "active j"
  shows "\<exists>db' j' s. fail_active now k code message clear db = Inr (True, db') \<and> job_at db' k = Some j' \<and>
    jb_status j' = (if jb_status j = Job_Cancelling then Job_Cancelled else Job_Failed) \<and>
    session_at db' (jb_session j) = Some s \<and> ss_active_job s = None"
proof -
  have ok: "db_ok db" unfolding assms(1) by (rule reachable_ok)
  note r = row_okD[OF ok assms(2)]
  define e where "e = (if jb_status j = Job_Cancelling then Job_Cancelled else Job_Failed)"
  define j' where "j' = j\<lparr>jb_status := e, jb_version := jb_version j + 1,
        jb_finished := Some now, jb_error_code := Some code, jb_error_message := Some (take 500 message),
        jb_lease := None, jb_depth := 0, jb_critical_owner := None,
        jb_idempotency := (if clear then None else jb_idempotency j)\<rparr>"
  define ev where "ev = (\<lambda>shown :: string. job_event_of j (jb_attempt j) (''job.'' @ status_text e) (status_text e)
         [(''error_code'', Some code), (''error_message'', Some (take 500 message))])"
  have ev: "\<And>shown. je_session (ev shown) = jb_session j" "\<And>shown. je_project (ev shown) = jb_project j"
    by (simp_all add: ev_def)
  have e: "terminal (jb_status j')" "jb_status j' = e" "jb_token j' = jb_token j"
    by (simp_all add: j'_def e_def terminal_iff)
  have row: "row_ok k j'"
    using r(1,3,4) assms(3) by (auto simp: row_ok_def shield_ok_def j'_def e_def terminal_iff)
  have step: "job_step j j'"
    using assms(3) by (auto simp: job_step_def same_job_def j'_def e_def terminal_iff)
  have legal: "legal_transition (jb_status j) (jb_status j')" "jb_version j' = jb_version j + 1"
    using assms(3) by (cases "jb_status j"; simp add: j'_def e_def terminal_iff)+
  obtain shown d1 d2 d3 where u: "update_status db j j' = Inr d1"
    "update_run_terminal d1 k (jb_session j) (jb_status j') = Inr (shown, d2)"
    "insert_event d2 (ev shown) = Inr d3"
    by (rule end_job_succeeds[OF ok assms(2,3) e(1) row e(3) step legal ev])
  have "fail_active now k code message clear db = Inr (True, d3)"
    using u(1,3) u(2)[unfolded e(2)] adopt_session_owned[OF ok assms(2,3)]
    unfolding fail_active_def require_job_def assms(2) option.case bind_res.simps if_not_P[OF assms(3)]
      Let_def e_def[symmetric] j'_def[symmetric]
    by (simp add: ev_def)
  moreover have "je_job (ev shown) = k" "je_type (ev shown) = ''job.'' @ status_text (jb_status j')"
    using r(1) by (simp_all add: ev_def e(2))
  note end_job(3,5)[OF ok assms(2,3) e(1) row e(3) step u this]
  ultimately show ?thesis unfolding e_def[symmetric] using e(2) by blast
qed

theorem fail_active_takes_effect_witness:
  "\<exists>db'. fail_active 9 ''j'' ''startup_unlaunched'' ''m'' True (run_commands sample_queue empty_database) =
     Inr (True, db')"
proof -
  have "case job_at (run_commands sample_queue empty_database) ''j'' of None \<Rightarrow> False | Some j \<Rightarrow> active j"
    by code_simp
  then obtain j where "job_at (run_commands sample_queue empty_database) ''j'' = Some j" "active j"
    by (rule sample_job)
  from fail_active_takes_effect[OF refl this] show ?thesis by blast
qed

text \<open>C24. Reconciliation of a scanned row always succeeds, whatever the row has become since the scan. It
  ends the job exactly when the scanned worker is dead by the evidence of the scan (claimed, no live process,
  no running lease) and the row still has the scanned version, token and attempt and is launching, running or
  cancelling; then the job is failed as orphaned (cancelled if it was cancelling), its run is given back and
  shows that status, and the trace gains that one event. In every other case the database is left as it is.\<close>

theorem reconcile_ends_exactly_the_dead:
  assumes "db = run_commands cs empty_database" "job_at db (jb_id seen) = Some j"
  shows "\<exists>b db'. reconcile_row os now seen db = Inr (b, db') \<and>
    b = (jb_status seen \<noteq> Job_Queued \<and> \<not> maybe_alive os now seen \<and> jb_token seen \<noteq> None \<and>
      jb_version j = jb_version seen \<and> jb_token j = jb_token seen \<and> jb_attempt j = jb_attempt seen \<and>
      jb_status j \<in> {Job_Launching, Job_Running, Job_Cancelling}) \<and>
    (if b then \<exists>j' s e. job_at db' (jb_id seen) = Some j' \<and>
        jb_status j' = (if jb_status j = Job_Cancelling then Job_Cancelled else Job_Failed) \<and>
        jb_error_code j' = Some ''orphaned'' \<and> jb_finished j' = Some now \<and> jb_depth j' = 0 \<and>
        session_at db' (jb_session j) = Some s \<and> ss_active_job s = None \<and>
        ss_status s = status_text (jb_status j') \<and>
        db_events db' = db_events db @ [e] \<and> je_job e = jb_id seen \<and>
        je_type e = ''job.'' @ status_text (jb_status j')
      else db' = db)"
proof (cases "jb_status seen \<noteq> Job_Queued \<and> \<not> maybe_alive os now seen \<and> jb_token seen \<noteq> None \<and>
    jb_version j = jb_version seen")
  case False
  then have "reconcile_row os now seen db = Inr (False, db)"
    using assms(2) by (auto simp: reconcile_row_def finish_def require_job_def terminal_iff split: option.splits)
  then show ?thesis using False by (intro exI[of _ False] exI[of _ db]) auto
next
  case True
  then obtain t where t: "jb_token seen = Some t" by blast
  define c where "c = \<lparr>cl_job = jb_id seen, cl_token = t, cl_attempt = jb_attempt seen\<rparr>"
  have r: "reconcile_row os now seen db = finish now c Job_Failed orphaned None db"
    using True t assms(2) by (simp add: reconcile_row_def c_def finish_def require_job_def)
  show ?thesis
  proof (cases "jb_token j = jb_token seen \<and> jb_attempt j = jb_attempt seen \<and>
      jb_status j \<in> {Job_Launching, Job_Running, Job_Cancelling}")
    case False
    then have "reconcile_row os now seen db = Inr (False, db)"
      unfolding r using assms(2) t
      by (auto simp: finish_def require_job_def terminal_in_transaction_def claimed_row_def c_def terminal_iff)
    then show ?thesis using False by (intro exI[of _ False] exI[of _ db]) auto
  next
    case live: True
    have c: "claimed_row db c = Some j" using live t assms(2) by (simp add: claimed_row_def c_def)
    have "terminal Job_Failed" "jb_status j \<noteq> Job_Launching \<or> Job_Failed \<noteq> Job_Completed"
      by (simp_all add: terminal_iff)
    from finish_ends[OF assms(1) c this(1) conjunct2[OF conjunct2[OF live]] this(2), of now orphaned]
    obtain db' j' s e where f: "finish now c Job_Failed orphaned None db = Inr (True, db')"
      "job_at db' (cl_job c) = Some j'"
      "jb_status j' = (if jb_status j = Job_Cancelling then Job_Cancelled else Job_Failed)"
      "jb_error_code j' = en_error_code orphaned" "jb_finished j' = Some now" "jb_depth j' = 0"
      "session_at db' (jb_session j) = Some s" "ss_active_job s = None"
      "\<exists>old. ss_status s = (if jb_status j' = Job_Completed \<and> old then ''limited'' else status_text (jb_status j'))"
      "db_events db' = db_events db @ [e]" "je_job e = cl_job c" "je_type e = ''job.'' @ status_text (jb_status j')"
      by blast
    have "ss_status s = status_text (jb_status j')" using f(3,9) by (auto split: if_splits)
    moreover have "cl_job c = jb_id seen" "en_error_code orphaned = Some ''orphaned''"
      by (simp_all add: c_def orphaned_def)
    ultimately show ?thesis using True live f r
      by (intro exI[of _ True] exI[of _ db']) (simp add: if_True)
  qed
qed

lemma sample_reconcilable:
  "case job_at (run_commands sample_run empty_database) ''j'' of None \<Rightarrow> False
    | Some j \<Rightarrow> jb_status j = Job_Running \<and> jb_token j = Some ''t'' \<and> jb_id j = ''j'' \<and> jb_session j = ''s'' \<and>
        \<not> maybe_alive (sample_system None False) 9 j"
  by code_simp

theorem reconcile_ends_exactly_the_dead_witness:
  "\<exists>db' s. reconcile_row (sample_system None False) 9
      (the (job_at (run_commands sample_run empty_database) ''j'')) (run_commands sample_run empty_database) =
    Inr (True, db') \<and> session_at db' ''s'' = Some s \<and> ss_status s = ''failed''"
proof -
  obtain j where j: "job_at (run_commands sample_run empty_database) ''j'' = Some j"
    "jb_status j = Job_Running \<and> jb_token j = Some ''t'' \<and> jb_id j = ''j'' \<and> jb_session j = ''s'' \<and>
      \<not> maybe_alive (sample_system None False) 9 j" by (rule sample_job[OF sample_reconcilable])
  then have "job_at (run_commands sample_run empty_database) (jb_id j) = Some j" by simp
  from reconcile_ends_exactly_the_dead[OF refl this, of "sample_system None False" 9] obtain db' s where
    "reconcile_row (sample_system None False) 9 j (run_commands sample_run empty_database) = Inr (True, db')"
    "session_at db' ''s'' = Some s" "ss_status s = ''failed''"
    using j(2) by auto
  then show ?thesis using j(1) by simp
qed

text \<open>At startup a worker that lives but whose identity cannot be verified is left alone: its job
  stays as it is, and no fence or shield is set.\<close>

theorem unverifiable_worker_is_left_alone:
  assumes "jb_status seen \<in> {Job_Launching, Job_Running}" "job_at db (jb_id seen) = Some seen"
    "jb_identity seen = Some i" "check_process_identity os i = Cannot_Tell" "os_alive os (pi_pid i)"
    "ew_fence w = os"
  shows "recover_row fail_queued w os now seen db = (Inr False, db)"
  using assms
  by (auto simp: recover_row_def Let_def startup_comparison_def unverifiable_alive_def require_job_def
      authorize_signal_def)

theorem unverifiable_worker_is_left_alone_witness:
  "let db = run_commands sample_run empty_database; os = sample_system None True in
   recover_row False (sample_watch\<lparr>ew_fence := os\<rparr>) os 99 (the (job_at db ''j'')) db = (Inr False, db)"
proof -
  have "case job_at (run_commands sample_run empty_database) ''j'' of None \<Rightarrow> False
    | Some j \<Rightarrow> jb_status j = Job_Running \<and> jb_identity j = Some sample_identity \<and> jb_id j = ''j''" by code_simp
  then obtain j where j: "job_at (run_commands sample_run empty_database) ''j'' = Some j"
    "jb_status j = Job_Running \<and> jb_identity j = Some sample_identity \<and> jb_id j = ''j''" by (rule sample_job)
  have "jb_status j \<in> {Job_Launching, Job_Running}"
    "job_at (run_commands sample_run empty_database) (jb_id j) = Some j"
    "jb_identity j = Some sample_identity"
    "check_process_identity (sample_system None True) sample_identity = Cannot_Tell"
    "os_alive (sample_system None True) (pi_pid sample_identity)"
    using j by (simp_all add: check_process_identity_def compare_process_identity_def sample_system_def)
  from unverifiable_worker_is_left_alone[OF this, of "sample_watch\<lparr>ew_fence := sample_system None True\<rparr>" False 99]
  show ?thesis using j(1) by (simp add: Let_def)
qed

section \<open>Deletion\<close>

lemma names_run_busy:
  assumes ok: "db_ok db" and j: "job_at db k = Some j" "active j" "names_run r j"
  obtains h where "busy_job db r = Some h"
proof (cases "busy_job db r")
  case None
  from busy_None[OF ok None j(1,2)] j(3) show thesis by (simp add: names_run_def)
qed (use that in blast)

text \<open>A run that an active job names (as its session, its lane or its scope) is never reserved for
  deletion.\<close>

theorem busy_run_is_not_deleted:
  assumes "db = run_commands cs empty_database" "job_at db k = Some j" "active j" "names_run r j"
    "session_at db r = Some s" "ss_storage s = Live"
  shows "\<exists>i. reserve_deletion op r db = Inl (Deletion_Busy r i)"
proof -
  have ok: "db_ok db" unfolding assms(1) by (rule reachable_ok)
  obtain h where "busy_job db r = Some h" by (rule names_run_busy[OF ok assms(2-4)])
  then show ?thesis using assms(5,6) by (simp add: reserve_deletion_def)
qed

theorem busy_run_is_not_deleted_witness:
  "\<exists>i. reserve_deletion ''op'' ''s'' (run_commands sample_run empty_database) = Inl (Deletion_Busy ''s'' i)"
proof -
  have "case job_at (run_commands sample_run empty_database) ''j'' of None \<Rightarrow> False
    | Some j \<Rightarrow> active j \<and> names_run ''s'' j" by code_simp
  then obtain j where j: "job_at (run_commands sample_run empty_database) ''j'' = Some j"
    "active j \<and> names_run ''s'' j" by (rule sample_job)
  have "case session_at (run_commands sample_run empty_database) ''s'' of None \<Rightarrow> False
    | Some s \<Rightarrow> ss_storage s = Live" by code_simp
  then obtain s where s: "session_at (run_commands sample_run empty_database) ''s'' = Some s" "ss_storage s = Live"
    by (cases "session_at (run_commands sample_run empty_database) ''s''") simp_all
  from busy_run_is_not_deleted[OF refl j(1) _ _ s] j(2) show ?thesis by blast
qed

text \<open>C30. A run whose deletion was reserved never takes a job again: every later creation on it, as the
  session or as the lane, is refused as deleting.\<close>

theorem deleted_run_takes_no_job:
  assumes "db = run_commands cs empty_database" "reserve_deletion op r db = Inr ((op, True), db1)"
    "jr_session q = r \<or> jr_lane q = r"
  shows "\<exists>t. create_queued_job now q (run_commands ds db1) = Inl (Session_Deleting t)"
proof -
  have ok: "db_ok db" unfolding assms(1) by (rule reachable_ok)
  have ok1: "db_ok db1" using reserve_deletion_fine[OF ok assms(2)] by blast
  obtain d where d: "map_of (db_deletions db1) op = Some d" "dl_session d = r" "dl_state d \<noteq> Del_Aborted"
  proof -
    from assms(2) show thesis
    proof (cases rule: reserve_deletion_cases)
      case (2 s)
      then show thesis
        by (intro that[of "\<lparr>dl_project = ss_project s, dl_session = r, dl_state = Del_Prepared\<rparr>"]) simp_all
    qed simp
  qed
  obtain d' where d': "map_of (db_deletions (run_commands ds db1)) op = Some d'" "dl_session d' = dl_session d"
    "dl_state d' \<noteq> Del_Aborted"
    by (rule evolves_deletion[OF conjunct2[OF run_commands_fine[OF ok1]] d(1,3)])
  let ?db = "run_commands ds db1"
  have "list_ex (\<lambda>(_, x). dl_session x = r \<and> dl_state x \<noteq> Del_Aborted) (db_deletions ?db)"
    using map_of_SomeD[OF d'(1)] d'(2,3) d(2) by (auto simp: list_ex_iff)
  moreover have "r \<in> set (job_targets (jr_session q) (jr_lane q))" using assms(3) by (auto simp: job_targets_def)
  ultimately have "tombstone_target ?db (jr_session q) (jr_lane q) \<noteq> None"
    unfolding tombstone_target_def find_None_iff by blast
  then show ?thesis by (auto simp: create_queued_job_def split: option.splits)
qed

definition sample_delete :: "job_command list" where
  "sample_delete = sample_queue @ [Cancel 2 2 ''j'']"

theorem deleted_run_takes_no_job_witness:
  "\<exists>db1 t. reserve_deletion ''op'' ''s'' (run_commands sample_delete empty_database) = Inr ((''op'', True), db1) \<and>
     create_queued_job 9 (sample_request ''n'' ''s'') (run_commands [Quarantine_Applied ''op''] db1) =
       Inl (Session_Deleting t)"
proof -
  have "case reserve_deletion ''op'' ''s'' (run_commands sample_delete empty_database) of Inl e \<Rightarrow> False
    | Inr (r, db1) \<Rightarrow> r = (''op'', True)" by code_simp
  then obtain db1 where d: "reserve_deletion ''op'' ''s'' (run_commands sample_delete empty_database) =
      Inr ((''op'', True), db1)" by (auto split: sum.splits)
  have "jr_session (sample_request ''n'' ''s'') = ''s'' \<or> jr_lane (sample_request ''n'' ''s'') = ''s''"
    by (simp add: sample_request_def)
  from deleted_run_takes_no_job[OF refl d this] show ?thesis using d by blast
qed

end
