(* ===== verification/StorageOps.thy ===== *)
theory StorageOps
  imports Loops "HOL-Library.Char_ord" "HOL-Library.List_Lexorder" "HOL-Library.Sublist"
begin

text \<open>
  Recoverable replacement of JSON files (\<open>core/storage_operations.py\<close>): reserve in the database,
  apply to the files, finalize in the database. The workspace is a tree of nodes by normalized
  relative path. The journal's own fault hook, which the code calls at its crash points, is an
  argument: where it raises the process ends, and what was done stays. The digest of canonical
  JSON is a parameter.
\<close>

section \<open>Errors and state\<close>

datatype stage = After_Reserve | Before_Stage_Write | After_Stage_Fsync | After_Replace | After_Apply
  | Before_Finalize | After_Finalize

datatype storage_error =
    Unsafe_Path string
  | Version_Conflict int int
  | Digest_Mismatch string
  | In_Progress string
  | Operation_Blocked string
  | Operation_Not_Found string
  | Not_Applied string
  | Request_Key_Conflict
  | Storage_Value_Error string
  | Storage_Error string
  | Os_Error string
  | Faulted stage

text \<open>A node of the tree; a symbolic link says whether what it points to exists.\<close>

datatype node = File string | Directory | Symlink bool

type_synonym tree = "string \<Rightarrow> node option"

datatype operation_state = Op_Prepared | Op_Fs_Applied | Op_Db_Committed | Op_Done | Op_Blocked | Op_Aborted

record resource_target =
  rt_kind :: string
  rt_project :: string
  rt_key :: string

record resource_head =
  rh_path :: string
  rh_version :: int
  rh_digest :: string

record operation_item =
  it_ordinal :: nat
  it_path :: string
  it_work :: string
  it_base :: string
  it_target :: string
  it_payload :: string

record operation =
  op_target :: resource_target
  op_expected :: int
  op_version :: int
  op_base :: string
  op_digest :: string
  op_request :: "string option"
  op_state :: operation_state
  op_items :: "operation_item list"

record storage =
  st_tree :: tree
  st_heads :: "(resource_target, resource_head) dict"
  st_ops :: "(string, operation) dict"

text \<open>
  The journal: \<open>jn_canonical\<close> is \<open>canonical_digest\<close> of the bytes of a file (none when they are no
  UTF-8 JSON), \<open>jn_missing\<close> the digest of an absent file, \<open>jn_composite\<close> the digest of a resource
  from its paths and their digests in order.
\<close>

record journal =
  jn_canonical :: "string \<Rightarrow> string option"
  jn_missing :: string
  jn_composite :: "(string \<times> string) list \<Rightarrow> string"
  jn_limit :: int

text \<open>The fault hook: the points where it raises, and a staging file cut short.\<close>

record fault_hook =
  fh_raises :: "stage \<Rightarrow> nat option \<Rightarrow> bool"
  fh_torn :: "nat \<Rightarrow> string option"

text \<open>An operation that may raise on the way: its result, and the storage it leaves.\<close>

type_synonym ('a, 's) outcome = "(storage_error + 'a) \<times> 's"

fun fault :: "fault_hook \<Rightarrow> stage \<Rightarrow> nat option \<Rightarrow> 's \<Rightarrow> (unit, 's) outcome" where
  "fault h g n s = (if fh_raises h g n then Inl (Faulted g) else Inr (), s)"

definition no_faults :: fault_hook where
  "no_faults = \<lparr>fh_raises = (\<lambda>g n. False), fh_torn = (\<lambda>n. None)\<rparr>"

section \<open>Paths\<close>

fun split_slash :: "string \<Rightarrow> string list" where
  "split_slash [] = [[]]"
| "split_slash (c # cs) = (if c = CHR ''/'' then [] # split_slash cs
     else (case split_slash cs of [] \<Rightarrow> [[c]] | p # ps \<Rightarrow> (c # p) # ps))"

fun join_slash :: "string list \<Rightarrow> string" where
  "join_slash [] = []"
| "join_slash [p] = p"
| "join_slash (p # ps) = p @ ''/'' @ join_slash ps"

text \<open>The parts of a \<open>PurePosixPath\<close>: empty and \<open>.\<close> segments are dropped.\<close>

definition path_parts :: "string \<Rightarrow> string list" where
  "path_parts raw = filter (\<lambda>p. p \<noteq> [] \<and> p \<noteq> ''.'') (split_slash raw)"

definition control_root :: string where "control_root = ''.storage-operations''"

definition normalize_relative_path :: "string \<Rightarrow> storage_error + string" where
  "normalize_relative_path raw =
     (let parts = path_parts raw; normalized = join_slash parts in
      guarding
        [(raw = [] \<or> CHR 0x00 \<in> set raw \<or> CHR 0x5C \<in> set raw, Unsafe_Path raw),
         (take 1 raw = ''/'' \<or> parts = [], Unsafe_Path raw),
         (''..'' \<in> set parts, Unsafe_Path raw),
         (hd parts = control_root \<and> \<not> prefix (control_root @ ''/'') normalized, Unsafe_Path raw)]
        normalized)"

definition normalize_resource_path :: "string \<Rightarrow> storage_error + string" where
  "normalize_resource_path raw = bind_res (normalize_relative_path raw) (\<lambda>p.
     if hd (path_parts p) = control_root then Inl (Unsafe_Path raw) else Inr p)"

text \<open>\<open>str.isalnum\<close> of one character, by its code.\<close>

definition py_alnum :: "char \<Rightarrow> bool" where
  "py_alnum c \<longleftrightarrow> (let n = (of_char c :: nat) in
     (48 \<le> n \<and> n \<le> 57) \<or> (65 \<le> n \<and> n \<le> 90) \<or> (97 \<le> n \<and> n \<le> 122) \<or>
     n \<in> {170, 178, 179, 181, 185, 186, 188, 189, 190} \<or> (192 \<le> n \<and> n \<noteq> 215 \<and> n \<noteq> 247))"

definition operation_id_ok :: "string \<Rightarrow> bool" where
  "operation_id_ok k \<longleftrightarrow> k \<noteq> [] \<and> list_all (\<lambda>c. py_alnum c \<or> c = CHR ''_'' \<or> c = CHR ''-'') k"

definition four_digits :: "nat \<Rightarrow> string" where
  "four_digits n = (let d = decimal n in replicate (4 - length d) CHR ''0'' @ d)"

definition staging_relative_path :: "string \<Rightarrow> nat \<Rightarrow> string" where
  "staging_relative_path k n = control_root @ ''/staging/'' @ k @ ''/'' @ four_digits n @ ''.tmp''"

text \<open>The directories above a path, from the top.\<close>

definition parent_paths :: "string \<Rightarrow> string list" where
  "parent_paths p = (let parts = path_parts p in map (\<lambda>i. join_slash (take i parts)) [1..<length parts])"

definition assert_safe_parents :: "tree \<Rightarrow> string \<Rightarrow> storage_error + unit" where
  "assert_safe_parents t p = check_all (\<lambda>d. case t d of
     None \<Rightarrow> Inr () | Some Directory \<Rightarrow> Inr () | Some _ \<Rightarrow> Inl (Unsafe_Path d)) (parent_paths p)"

fun create_directories :: "string list \<Rightarrow> tree \<Rightarrow> (unit, tree) outcome" where
  "create_directories [] t = (Inr (), t)"
| "create_directories (d # ds) t = (case t d of
     None \<Rightarrow> create_directories ds (t(d \<mapsto> Directory))
   | Some Directory \<Rightarrow> create_directories ds t
   | Some _ \<Rightarrow> (Inl (Unsafe_Path d), t))"

text \<open>\<open>_safe_path\<close>; the resolved parent is inside the root, since no parent is a link.\<close>

definition safe_path :: "tree \<Rightarrow> string \<Rightarrow> storage_error + string" where
  "safe_path t raw = bind_res (normalize_relative_path raw) (\<lambda>p.
     bind_res (assert_safe_parents t p) (\<lambda>_. Inr p))"

definition safe_path_created :: "string \<Rightarrow> tree \<Rightarrow> (string, tree) outcome" where
  "safe_path_created raw t = (case normalize_relative_path raw of
     Inl e \<Rightarrow> (Inl e, t)
   | Inr p \<Rightarrow> and_then (create_directories (parent_paths p) t) (\<lambda>_ u. (Inr p, u)))"

section \<open>Digests of files\<close>

definition digest_path :: "journal \<Rightarrow> tree \<Rightarrow> string \<Rightarrow> storage_error + string" where
  "digest_path jn t raw = bind_res (safe_path t raw) (\<lambda>p. case t p of
     None \<Rightarrow> Inr (jn_missing jn)
   | Some (Symlink _) \<Rightarrow> Inl (Unsafe_Path raw)
   | Some Directory \<Rightarrow> Inl (Unsafe_Path raw)
   | Some (File b) \<Rightarrow>
       if jn_limit jn < int (length b) then Inl (Storage_Error raw)
       else (case jn_canonical jn b of
         None \<Rightarrow> Inl (Storage_Value_Error raw) | Some d \<Rightarrow> Inr d))"

definition resource_digest :: "journal \<Rightarrow> (string \<times> string) list \<Rightarrow> string" where
  "resource_digest jn ds = jn_composite jn (sort_key fst ds)"

section \<open>Reserving\<close>

fun normalize_replacements ::
  "journal \<Rightarrow> (string \<times> string) list \<Rightarrow> storage_error + (string \<times> string) list" where
  "normalize_replacements jn [] = Inr []"
| "normalize_replacements jn ((raw, payload) # rs) =
     bind_res (normalize_resource_path raw) (\<lambda>p.
       if jn_limit jn < int (length payload) then Inl (Storage_Value_Error raw)
       else if jn_canonical jn payload = None then Inl (Storage_Value_Error raw)
       else bind_res (normalize_replacements jn rs) (\<lambda>qs. Inr ((p, payload) # qs)))"

fun build_items ::
  "journal \<Rightarrow> tree \<Rightarrow> nat \<Rightarrow> (string \<times> string) list \<Rightarrow> storage_error + operation_item list" where
  "build_items jn t n [] = Inr []"
| "build_items jn t n ((p, payload) # rs) = bind_res (digest_path jn t p) (\<lambda>d.
     bind_res (build_items jn t (n + 1) rs) (\<lambda>its.
     Inr (\<lparr>it_ordinal = n, it_path = p, it_work = '''', it_base = d,
       it_target = the (jn_canonical jn payload), it_payload = payload\<rparr> # its)))"

definition prepare_items ::
  "journal \<Rightarrow> tree \<Rightarrow> (string \<times> string) list \<Rightarrow> storage_error + operation_item list" where
  "prepare_items jn t rs =
     (if rs = [] then Inl (Storage_Value_Error ''At least one replacement file is required.'')
      else bind_res (normalize_replacements jn rs) (\<lambda>qs.
        if \<not> distinct (map fst qs) then Inl (Storage_Value_Error ''Replacement relative paths must be unique.'')
        else build_items jn t 0 (sort_key fst qs)))"

definition prepare_replace ::
  "journal \<Rightarrow> tree \<Rightarrow> resource_target \<Rightarrow> int \<Rightarrow> (string \<times> string) list \<Rightarrow> string option \<Rightarrow>
     storage_error + operation" where
  "prepare_replace jn t target expected rs request =
     (if expected < 0 then Inl (Storage_Value_Error ''expected_version must be non-negative.'')
      else bind_res (prepare_items jn t rs) (\<lambda>its.
        Inr \<lparr>op_target = target, op_expected = expected, op_version = expected + 1,
          op_base = resource_digest jn (map (\<lambda>i. (it_path i, it_base i)) its),
          op_digest = resource_digest jn (map (\<lambda>i. (it_path i, it_target i)) its),
          op_request = request, op_state = Op_Prepared, op_items = its\<rparr>))"

definition active_state :: "operation_state \<Rightarrow> bool" where
  "active_state s \<longleftrightarrow> s \<in> set [Op_Prepared, Op_Fs_Applied, Op_Db_Committed, Op_Blocked]"

definition active_operation_of :: "storage \<Rightarrow> resource_target \<Rightarrow> (string \<times> operation) option" where
  "active_operation_of s t = find (\<lambda>(_, p). op_target p = t \<and> active_state (op_state p)) (st_ops s)"

definition operation_for_request :: "storage \<Rightarrow> string \<Rightarrow> (string \<times> operation) option" where
  "operation_for_request s r = find (\<lambda>(_, p). op_request p = Some r) (st_ops s)"

definition staged :: "string \<Rightarrow> operation \<Rightarrow> operation" where
  "staged k p = p\<lparr>op_items := map (\<lambda>i. i\<lparr>it_work := staging_relative_path k (it_ordinal i)\<rparr>) (op_items p)\<rparr>"

text \<open>\<open>reserve_prepared_in_transaction\<close>: the id of the operation that now holds the reservation.\<close>

definition reserve_prepared :: "string \<Rightarrow> operation \<Rightarrow> storage \<Rightarrow> storage_error + string \<times> storage" where
  "reserve_prepared k p s =
     (case Option.bind (op_request p) (operation_for_request s) of
        Some (k', q) \<Rightarrow>
          if op_target q \<noteq> op_target p \<or> op_expected q \<noteq> op_expected p \<or> op_digest q \<noteq> op_digest p
          then Inl Request_Key_Conflict else Inr (k', s)
      | None \<Rightarrow> (case active_operation_of s (op_target p) of
          Some (k', _) \<Rightarrow> Inl (In_Progress k')
        | None \<Rightarrow> (case map_of (st_heads s) (op_target p) of
            None \<Rightarrow> Inl (Digest_Mismatch ''Resource has no committed head; bootstrap it before reserving a write.'')
          | Some old \<Rightarrow>
              if rh_version old \<noteq> op_expected p then Inl (Version_Conflict (op_expected p) (rh_version old))
              else if rh_digest old \<noteq> op_base p
              then Inl (Digest_Mismatch ''Current files do not match the committed resource digest.'')
              else if map_of (st_ops s) k \<noteq> None
              then Inl (Storage_Error ''UNIQUE constraint failed: storage_operations.op_id'')
              else if \<not> operation_id_ok k
              then Inl (Storage_Value_Error ''Operation id contains unsafe path characters.'')
              else Inr (k, s\<lparr>st_ops := dict_set k (staged k p) (st_ops s)\<rparr>))))"

definition reserve_replace ::
  "journal \<Rightarrow> fault_hook \<Rightarrow> string \<Rightarrow> resource_target \<Rightarrow> int \<Rightarrow> (string \<times> string) list \<Rightarrow> string option \<Rightarrow>
     storage \<Rightarrow> (string, storage) outcome" where
  "reserve_replace jn h k target expected rs request s =
     (case prepare_replace jn (st_tree s) target expected rs request of
        Inl e \<Rightarrow> (Inl e, s)
      | Inr p \<Rightarrow> (case reserve_prepared k p s of
          Inl e \<Rightarrow> (Inl e, s)
        | Inr (k', s1) \<Rightarrow> and_then (fault h After_Reserve None s1) (\<lambda>_ s2. (Inr k', s2))))"

section \<open>Applying\<close>

definition put_operation :: "string \<Rightarrow> operation \<Rightarrow> storage \<Rightarrow> storage" where
  "put_operation k p s = s\<lparr>st_ops := dict_set k p (st_ops s)\<rparr>"

definition mark_blocked :: "string \<Rightarrow> storage \<Rightarrow> storage" where
  "mark_blocked k s = (case map_of (st_ops s) k of
     None \<Rightarrow> s
   | Some p \<Rightarrow>
       if op_state p \<in> {Op_Done, Op_Aborted} then s
       else put_operation k (p\<lparr>op_state := Op_Blocked\<rparr>) s)"

text \<open>The stored paths are checked again whenever an operation is loaded.\<close>

fun load_items :: "operation_item list \<Rightarrow> storage_error + operation_item list" where
  "load_items [] = Inr []"
| "load_items (i # its) =
     bind_res (normalize_resource_path (it_path i)) (\<lambda>p.
     bind_res (normalize_relative_path (it_work i)) (\<lambda>w.
     bind_res (load_items its) (\<lambda>js. Inr (i\<lparr>it_path := p, it_work := w\<rparr> # js))))"

definition load_operation :: "string \<Rightarrow> storage \<Rightarrow> storage_error + operation" where
  "load_operation k s =
     (if \<not> operation_id_ok k then Inl (Storage_Value_Error ''Operation id contains unsafe path characters.'')
      else (case map_of (st_ops s) k of
        None \<Rightarrow> Inl (Operation_Not_Found k)
      | Some p \<Rightarrow>
          if op_items p = [] then Inl (Storage_Error k)
          else bind_res (load_items (op_items p)) (\<lambda>its. Inr (p\<lparr>op_items := its\<rparr>))))"

text \<open>An operation whose files cannot be explained is blocked; the recorded reason is not modelled.\<close>

definition operation_item_digest :: "journal \<Rightarrow> string \<Rightarrow> operation_item \<Rightarrow> storage \<Rightarrow> (string, storage) outcome" where
  "operation_item_digest jn k i s = (case digest_path jn (st_tree s) (it_path i) of
     Inr d \<Rightarrow> (Inr d, s)
   | Inl e \<Rightarrow> (Inl (Operation_Blocked k), mark_blocked k s))"

definition remove_staging :: "string \<Rightarrow> storage \<Rightarrow> (unit, storage) outcome" where
  "remove_staging raw s = (case safe_path (st_tree s) raw of
     Inl e \<Rightarrow> (Inl e, s)
   | Inr p \<Rightarrow> (case st_tree s p of
       Some (Symlink _) \<Rightarrow> (Inl (Unsafe_Path raw), s)
     | Some (File _) \<Rightarrow> (Inr (), s\<lparr>st_tree := (st_tree s)(p := None)\<rparr>)
     | _ \<Rightarrow> (Inr (), s)))"

definition create_safe_path :: "string \<Rightarrow> storage \<Rightarrow> (string, storage) outcome" where
  "create_safe_path raw s = (case safe_path_created raw (st_tree s) of
     (r, t) \<Rightarrow> (r, s\<lparr>st_tree := t\<rparr>))"

definition put_file :: "string \<Rightarrow> string \<Rightarrow> storage \<Rightarrow> storage" where
  "put_file p b s = s\<lparr>st_tree := (st_tree s)(p \<mapsto> File b)\<rparr>"

definition node_exists :: "node option \<Rightarrow> bool" where
  "node_exists n = (case n of None \<Rightarrow> False | Some (Symlink b) \<Rightarrow> b | Some _ \<Rightarrow> True)"

definition is_regular :: "node option \<Rightarrow> bool" where
  "is_regular n = (case n of Some (File _) \<Rightarrow> True | _ \<Rightarrow> False)"

text \<open>
  \<open>_replace_one\<close>: the payload is staged and synced, then renamed over the target. A torn write
  leaves a part of it in the staging file.
\<close>

definition stage_and_rename ::
  "fault_hook \<Rightarrow> operation_item \<Rightarrow> string \<Rightarrow> string \<Rightarrow> storage \<Rightarrow> (unit, storage) outcome" where
  "stage_and_rename h i target work s = (case st_tree s work of
     Some (Symlink _) \<Rightarrow> (Inl (Unsafe_Path (it_work i)), s)
   | Some Directory \<Rightarrow> (Inl (Os_Error (it_work i)), s)
   | _ \<Rightarrow> (case fh_torn h (it_ordinal i) of
       Some part \<Rightarrow> (Inl (Faulted Before_Stage_Write), put_file work part s)
     | None \<Rightarrow>
         and_then (fault h After_Stage_Fsync (Some (it_ordinal i)) (put_file work (it_payload i) s)) (\<lambda>_ s1.
         fault h After_Replace (Some (it_ordinal i))
           (s1\<lparr>st_tree := ((st_tree s1)(work := None))(target \<mapsto> File (it_payload i))\<rparr>))))"

definition replace_one :: "fault_hook \<Rightarrow> operation_item \<Rightarrow> storage \<Rightarrow> (unit, storage) outcome" where
  "replace_one h i s =
     and_then (create_safe_path (it_path i) s) (\<lambda>target s1.
     and_then (create_safe_path (it_work i) s1) (\<lambda>work s2.
     if node_exists (st_tree s2 target) \<and> \<not> is_regular (st_tree s2 target)
     then (Inl (Unsafe_Path (it_path i)), s2)
     else and_then (fault h Before_Stage_Write (Some (it_ordinal i)) s2) (\<lambda>_ s3.
       stage_and_rename h i target work s3)))"

fun apply_items ::
  "journal \<Rightarrow> fault_hook \<Rightarrow> string \<Rightarrow> operation_item list \<Rightarrow> storage \<Rightarrow> (unit, storage) outcome" where
  "apply_items jn h k [] s = (Inr (), s)"
| "apply_items jn h k (i # its) s =
     and_then (operation_item_digest jn k i s) (\<lambda>current s1.
       if current = it_target i
       then and_then (remove_staging (it_work i) s1) (\<lambda>_ s2. apply_items jn h k its s2)
       else if current \<noteq> it_base i
       then (Inl (Operation_Blocked k), mark_blocked k s1)
       else and_then (replace_one h i s1) (\<lambda>_ s2. apply_items jn h k its s2))"

text \<open>\<open>update ... set state = ? where op_id = ? and state in ('prepared', 'fs_applied')\<close>\<close>

definition advance_operation :: "string \<Rightarrow> operation_state \<Rightarrow> storage \<Rightarrow> storage_error + storage" where
  "advance_operation k st s = (case map_of (st_ops s) k of
     None \<Rightarrow> Inl (Storage_Error k)
   | Some p \<Rightarrow>
       if op_state p \<in> {Op_Prepared, Op_Fs_Applied}
       then Inr (put_operation k (p\<lparr>op_state := st\<rparr>) s)
       else Inl (Storage_Error k))"

definition apply_replace :: "journal \<Rightarrow> fault_hook \<Rightarrow> string \<Rightarrow> storage \<Rightarrow> (unit, storage) outcome" where
  "apply_replace jn h k s = (case load_operation k s of
     Inl e \<Rightarrow> (Inl e, s)
   | Inr p \<Rightarrow>
       if op_state p = Op_Done then (Inr (), s)
       else if op_state p = Op_Blocked then (Inl (Operation_Blocked k), s)
       else if op_state p \<notin> {Op_Prepared, Op_Fs_Applied} then (Inl (Storage_Error k), s)
       else and_then (apply_items jn h k (op_items p) s) (\<lambda>_ s1.
            and_then (fault h After_Apply None s1) (\<lambda>_ s2.
            case advance_operation k Op_Fs_Applied s2 of
              Inl e \<Rightarrow> (Inl e, s2) | Inr s3 \<Rightarrow> (Inr (), s3))))"

section \<open>Finalizing\<close>

fun verify_items ::
  "journal \<Rightarrow> string \<Rightarrow> operation_item list \<Rightarrow> storage \<Rightarrow> ((string \<times> string) list, storage) outcome" where
  "verify_items jn k [] s = (Inr [], s)"
| "verify_items jn k (i # its) s =
     and_then (operation_item_digest jn k i s) (\<lambda>d s1.
       if it_base i \<noteq> it_target i \<and> d = it_base i then (Inl (Not_Applied (it_path i)), s1)
       else if d \<noteq> it_target i
       then (Inl (Operation_Blocked k), mark_blocked k s1)
       else and_then (verify_items jn k its s1) (\<lambda>ds s2. (Inr ((it_path i, d) # ds), s2)))"

definition completed_head :: "operation \<Rightarrow> storage \<Rightarrow> storage_error + resource_head" where
  "completed_head p s = (case map_of (st_heads s) (op_target p) of
     None \<Rightarrow> Inl (Digest_Mismatch ''Done operation has no resource head.'')
   | Some old \<Rightarrow> Inr (old\<lparr>rh_version := op_version p, rh_digest := op_digest p\<rparr>))"

text \<open>The last transaction: the head and the operation move together.\<close>

definition commit_replacement :: "string \<Rightarrow> operation \<Rightarrow> storage \<Rightarrow> storage_error + storage" where
  "commit_replacement k p s = (case map_of (st_heads s) (op_target p) of
     None \<Rightarrow> Inl (Digest_Mismatch ''Resource head changed before replacement finalization.'')
   | Some old \<Rightarrow>
       if rh_version old \<noteq> op_expected p \<or> rh_digest old \<noteq> op_base p
       then Inl (Digest_Mismatch ''Resource head changed before replacement finalization.'')
       else advance_operation k Op_Done (s\<lparr>st_heads := dict_set (op_target p)
         (old\<lparr>rh_version := op_version p, rh_digest := op_digest p\<rparr>) (st_heads s)\<rparr>))"

definition finalize_replace :: "journal \<Rightarrow> fault_hook \<Rightarrow> string \<Rightarrow> storage \<Rightarrow> (resource_head, storage) outcome" where
  "finalize_replace jn h k s = (case load_operation k s of
     Inl e \<Rightarrow> (Inl e, s)
   | Inr p \<Rightarrow>
       if op_state p = Op_Done then (completed_head p s, s)
       else if op_state p = Op_Blocked then (Inl (Operation_Blocked k), s)
       else and_then (verify_items jn k (op_items p) s) (\<lambda>actual s1.
         if resource_digest jn actual \<noteq> op_digest p
         then (Inl (Operation_Blocked k), mark_blocked k s1)
         else and_then (fault h Before_Finalize None s1) (\<lambda>_ s2.
         case commit_replacement k p s2 of
           Inl e \<Rightarrow> (Inl e, s2)
         | Inr s3 \<Rightarrow> and_then (fault h After_Finalize None s3) (\<lambda>_ s4.
             case map_of (st_heads s4) (op_target p) of
               None \<Rightarrow> (Inl (Digest_Mismatch ''Finalized resource head is missing.''), s4)
             | Some old \<Rightarrow> (Inr old, s4)))))"

definition replace_resource ::
  "journal \<Rightarrow> fault_hook \<Rightarrow> string \<Rightarrow> resource_target \<Rightarrow> int \<Rightarrow> (string \<times> string) list \<Rightarrow> string option \<Rightarrow>
     storage \<Rightarrow> (resource_head, storage) outcome" where
  "replace_resource jn h k target expected rs request s =
     and_then (reserve_replace jn h k target expected rs request s) (\<lambda>k' s1.
     and_then (apply_replace jn h k' s1) (\<lambda>_ s2.
     finalize_replace jn h k' s2))"

section \<open>Recovery\<close>

definition known_digest :: "journal \<Rightarrow> storage \<Rightarrow> operation_item \<Rightarrow> bool" where
  "known_digest jn s i = (case digest_path jn (st_tree s) (it_path i) of
     Inl e \<Rightarrow> False | Inr d \<Rightarrow> d = it_base i \<or> d = it_target i)"

definition unblock :: "string \<Rightarrow> storage \<Rightarrow> storage" where
  "unblock k s = (case map_of (st_ops s) k of
     None \<Rightarrow> s
   | Some p \<Rightarrow>
       if op_state p = Op_Blocked then put_operation k (p\<lparr>op_state := Op_Prepared\<rparr>) s else s)"

definition recover_replace :: "journal \<Rightarrow> fault_hook \<Rightarrow> string \<Rightarrow> storage \<Rightarrow> (resource_head, storage) outcome" where
  "recover_replace jn h k s = (case load_operation k s of
     Inl e \<Rightarrow> (Inl e, s)
   | Inr p \<Rightarrow>
       if op_state p = Op_Done then (completed_head p s, s)
       else if op_state p \<in> {Op_Aborted, Op_Db_Committed} then (Inl (Storage_Error k), s)
       else if op_state p = Op_Blocked \<and> \<not> list_all (known_digest jn s) (op_items p)
       then (Inl (Operation_Blocked k), s)
       else
         (let s1 = (if op_state p = Op_Blocked then unblock k s else s) in
          and_then (apply_replace jn h k s1) (\<lambda>_ s2. finalize_replace jn h k s2)))"

definition recover_target ::
  "journal \<Rightarrow> fault_hook \<Rightarrow> resource_target \<Rightarrow> storage \<Rightarrow> (resource_head option, storage) outcome" where
  "recover_target jn h t s = (case active_operation_of s t of
     None \<Rightarrow> (Inr (map_of (st_heads s) t), s)
   | Some (k, _) \<Rightarrow> and_then (recover_replace jn h k s) (\<lambda>head s1. (Inr (Some head), s1)))"

fun unchanged_items :: "journal \<Rightarrow> string \<Rightarrow> operation_item list \<Rightarrow> storage \<Rightarrow> (bool, storage) outcome" where
  "unchanged_items jn k [] s = (Inr True, s)"
| "unchanged_items jn k (i # its) s =
     (if it_base i = it_target i then unchanged_items jn k its s
      else and_then (operation_item_digest jn k i s) (\<lambda>d s1.
        if d = it_base i then unchanged_items jn k its s1 else (Inr False, s1)))"

definition replacement_is_reversible :: "journal \<Rightarrow> string \<Rightarrow> storage \<Rightarrow> (bool, storage) outcome" where
  "replacement_is_reversible jn k s = (case load_operation k s of
     Inl e \<Rightarrow> (Inl e, s)
   | Inr p \<Rightarrow>
       if op_state p \<noteq> Op_Prepared then (Inr False, s) else unchanged_items jn k (op_items p) s)"

text \<open>The write of \<open>compensate_approved_answer\<close> (\<open>core/semantic_resources.py\<close>), a transaction of its own.\<close>

definition abort_prepared :: "string \<Rightarrow> storage \<Rightarrow> storage" where
  "abort_prepared k s = (case map_of (st_ops s) k of
     None \<Rightarrow> s
   | Some p \<Rightarrow> if op_state p = Op_Prepared then put_operation k (p\<lparr>op_state := Op_Aborted\<rparr>) s else s)"

text \<open>The original request of an operation, for the comparison with a replayed one.\<close>

record replay_record =
  rp_op :: string
  rp_target :: resource_target
  rp_expected :: int
  rp_version :: int
  rp_digest :: string
  rp_state :: operation_state
  rp_items :: "(string \<times> string) list"

definition replay_by_op :: "string \<Rightarrow> storage \<Rightarrow> storage_error + replay_record" where
  "replay_by_op k s = bind_res (load_operation k s) (\<lambda>p.
     Inr \<lparr>rp_op = k, rp_target = op_target p, rp_expected = op_expected p, rp_version = op_version p,
       rp_digest = op_digest p, rp_state = op_state p,
       rp_items = map (\<lambda>i. (it_path i, it_payload i)) (op_items p)\<rparr>)"

definition get_replacement_replay :: "string \<Rightarrow> storage \<Rightarrow> storage_error + replay_record option" where
  "get_replacement_replay r s =
     (if r = [] then Inl (Storage_Value_Error ''request_key must be non-empty.'')
      else (case operation_for_request s r of
        None \<Rightarrow> Inr None
      | Some (k, _) \<Rightarrow> bind_res (replay_by_op k s) (\<lambda>p. Inr (Some p))))"

section \<open>Bootstrap\<close>

definition digest_all :: "journal \<Rightarrow> tree \<Rightarrow> string list \<Rightarrow> storage_error + (string \<times> string) list" where
  "digest_all jn t ps = fold_res (\<lambda>ds p. bind_res (digest_path jn t p) (\<lambda>d. Inr (ds @ [(p, d)]))) [] ps"

fun normalize_all :: "string list \<Rightarrow> storage_error + string list" where
  "normalize_all [] = Inr []"
| "normalize_all (p # ps) = bind_res (normalize_resource_path p) (\<lambda>q.
     bind_res (normalize_all ps) (\<lambda>qs. Inr (q # qs)))"

text \<open>The files are read before the transaction (\<open>t\<close>) and again inside it.\<close>

definition bootstrap_head ::
  "journal \<Rightarrow> resource_target \<Rightarrow> string \<Rightarrow> int \<Rightarrow> string list option \<Rightarrow> string option \<Rightarrow> tree \<Rightarrow> storage \<Rightarrow>
     storage_error + resource_head \<times> storage" where
  "bootstrap_head jn target raw version tracked expected t s =
     (if version < 0 then Inl (Storage_Value_Error ''version must be non-negative.'')
      else bind_res (normalize_resource_path raw) (\<lambda>primary.
      bind_res (normalize_all (case tracked of None \<Rightarrow> [primary] | Some [] \<Rightarrow> [primary] | Some ps \<Rightarrow> ps)) (\<lambda>ps.
      if \<not> distinct ps then Inl (Storage_Value_Error ''tracked_relative_paths must be non-empty and unique.'')
      else bind_res (digest_all jn t ps) (\<lambda>digests.
      if expected \<noteq> None \<and> expected \<noteq> Some (resource_digest jn digests)
      then Inl (Digest_Mismatch ''Legacy resource files no longer match the caller's pre-read composite digest.'')
      else bind_res (digest_all jn (st_tree s) ps) (\<lambda>again.
      if again \<noteq> digests
      then Inl (Digest_Mismatch ''Legacy resource files changed while their committed head was being bootstrapped.'')
      else (let head = \<lparr>rh_path = primary, rh_version = version, rh_digest = resource_digest jn digests\<rparr> in
        case map_of (st_heads s) target of
          None \<Rightarrow> Inr (head, s\<lparr>st_heads := dict_set target head (st_heads s)\<rparr>)
        | Some old \<Rightarrow>
            if old = head then Inr (old, s)
            else Inl (Digest_Mismatch ''Existing resource head does not match the legacy files supplied for bootstrap.'')))))))"

definition missing_resource_digest :: "journal \<Rightarrow> string list \<Rightarrow> storage_error + string" where
  "missing_resource_digest jn raws = bind_res (normalize_all raws) (\<lambda>ps.
     if ps = [] \<or> \<not> distinct ps then Inl (Storage_Value_Error ''relative_paths must be non-empty and unique.'')
     else Inr (resource_digest jn (map (\<lambda>p. (p, jn_missing jn)) ps)))"

definition quarantine_relative_path :: "string \<Rightarrow> nat \<Rightarrow> string \<Rightarrow> storage_error + string" where
  "quarantine_relative_path k n source =
     (if \<not> operation_id_ok k then Inl (Storage_Value_Error ''Operation id contains unsafe path characters.'')
      else bind_res (normalize_resource_path source) (\<lambda>p.
        Inr (control_root @ ''/quarantine/'' @ k @ ''/'' @ four_digits n @ ''-'' @ last (path_parts p))))"

end
