(* ===== verification/StorageRecovery.thy ===== *)
theory StorageRecovery
  imports StorageOps
begin

text \<open>
  What resource replacement does to the files: paths stay in the workspace, a file is overwritten
  only when its content is the base of the operation, and an operation interrupted anywhere stays
  recoverable.
\<close>

section \<open>Paths\<close>

definition part_ok :: "string \<Rightarrow> bool" where
  "part_ok p \<longleftrightarrow> p \<noteq> [] \<and> p \<noteq> ''.'' \<and> CHR ''/'' \<notin> set p"

lemma split_slash_no_slash: "p \<in> set (split_slash s) \<Longrightarrow> CHR ''/'' \<notin> set p"
proof (induction s arbitrary: p)
  case (Cons c cs)
  then show ?case by (auto split: if_splits list.splits)
qed simp

lemma path_parts_ok: "list_all part_ok (path_parts s)"
  by (auto simp: path_parts_def part_ok_def list_all_iff dest: split_slash_no_slash)

lemma split_slash_part:
  assumes "CHR ''/'' \<notin> set p"
  shows "split_slash p = [p]" "split_slash (p @ CHR ''/'' # s) = p # split_slash s"
  using assms by (induction p) auto

lemma split_slash_join: "list_all part_ok ps \<Longrightarrow> ps \<noteq> [] \<Longrightarrow> split_slash (join_slash ps) = ps"
  by (induction ps rule: join_slash.induct) (simp_all add: part_ok_def split_slash_part)

lemma path_parts_join [simp]:
  assumes "list_all part_ok ps"
  shows "path_parts (join_slash ps) = ps"
proof (cases "ps = []")
  case False
  have "filter (\<lambda>p. p \<noteq> [] \<and> p \<noteq> ''.'') ps = ps"
    using assms by (auto simp: list_all_iff part_ok_def intro!: filter_True)
  with False assms show ?thesis by (simp add: path_parts_def split_slash_join)
qed (simp add: path_parts_def)

lemma set_join_slash: "set (join_slash ps) \<subseteq> (\<Union>p \<in> set ps. set p) \<union> {CHR ''/''}"
  by (induction ps rule: join_slash.induct) auto

lemma set_split_slash: "p \<in> set (split_slash s) \<Longrightarrow> set p \<subseteq> set s"
proof (induction s arbitrary: p)
  case (Cons c cs)
  then show ?case by (fastforce split: if_splits list.splits)
qed simp

lemma join_slash_start:
  assumes "list_all part_ok ps" "ps \<noteq> []"
  shows "join_slash ps \<noteq> []" "take 1 (join_slash ps) \<noteq> ''/''"
proof -
  obtain c cs qs where "ps = (c # cs) # qs" "c \<noteq> CHR ''/''"
    using assms by (cases ps; cases "hd ps") (auto simp: part_ok_def)
  then show "join_slash ps \<noteq> []" "take 1 (join_slash ps) \<noteq> ''/''"
    by (cases qs; simp)+
qed

lemma normalize_relative_path_iff:
  "normalize_relative_path raw = Inr p \<longleftrightarrow> p = join_slash (path_parts raw) \<and> raw \<noteq> [] \<and>
     CHR 0x00 \<notin> set raw \<and> CHR 0x5C \<notin> set raw \<and> take 1 raw \<noteq> ''/'' \<and> path_parts raw \<noteq> [] \<and>
     ''..'' \<notin> set (path_parts raw) \<and>
     (hd (path_parts raw) = control_root \<longrightarrow> prefix (control_root @ ''/'') (join_slash (path_parts raw)))"
  by (auto simp: normalize_relative_path_def Let_def guarding_Inr_iff)

lemma normalize_relative_path_again:
  assumes "normalize_relative_path raw = Inr p"
  shows "normalize_relative_path p = Inr p" "path_parts p = path_parts raw"
proof -
  note n = assms[unfolded normalize_relative_path_iff]
  have p: "p = join_slash (path_parts raw)" using n by simp
  show parts: "path_parts p = path_parts raw" unfolding p by (rule path_parts_join[OF path_parts_ok])
  have chars: "set p \<subseteq> set raw \<union> {CHR ''/''}"
    using set_join_slash[of "path_parts raw"] set_split_slash unfolding p path_parts_def by fastforce
  have "path_parts raw \<noteq> []" using n by simp
  note start = join_slash_start[OF path_parts_ok this, folded p]
  show "normalize_relative_path p = Inr p"
    unfolding normalize_relative_path_iff parts using n chars start by auto
qed

text \<open>A normalized resource path is stable under normalization, names nothing above the
  workspace and nothing of the journal's own directory.\<close>

theorem resource_paths_are_confined:
  assumes "normalize_resource_path raw = Inr p"
  shows "normalize_resource_path p = Inr p \<and> ''..'' \<notin> set (path_parts p) \<and> take 1 p \<noteq> ''/'' \<and>
    path_parts p \<noteq> [] \<and> hd (path_parts p) \<noteq> control_root \<and> p = join_slash (path_parts p)"
proof -
  have n: "normalize_relative_path raw = Inr p" "hd (path_parts p) \<noteq> control_root"
    using assms by (auto simp: normalize_resource_path_def bind_res_Inr_iff split: if_splits)
  note again = normalize_relative_path_again[OF n(1)]
  show ?thesis using n again(1) again(1)[unfolded normalize_relative_path_iff]
    by (simp add: normalize_resource_path_def)
qed

theorem resource_paths_are_confined_witness:
  "normalize_resource_path ''a//./b.json'' = Inr ''a/b.json'' \<and> normalize_resource_path ''a/b.json'' = Inr ''a/b.json''"
proof -
  have n: "normalize_resource_path ''a//./b.json'' = Inr ''a/b.json''" by code_simp
  from resource_paths_are_confined[OF n] n show ?thesis by simp
qed

section \<open>What applying writes\<close>

lemma and_then_cases:
  assumes "and_then r k = (y, t)"
  obtains e where "r = (Inl e, t)" "y = Inl e" | x s where "r = (Inr x, s)" "k x s = (y, t)"
  using assms by (cases r; cases "fst r") auto

lemma fault_storage: "fault h g n s = (r, s') \<Longrightarrow> s' = s"
  by auto

lemma create_directories_keeps:
  assumes "create_directories ds t = (r, t')" "t q = Some n"
  shows "t' q = Some n"
  using assms
proof (induction ds arbitrary: t)
  case (Cons d ds)
  show ?case
  proof (cases "t d")
    case None
    then have "create_directories ds (t(d \<mapsto> Directory)) = (r, t')" using Cons.prems(1) by simp
    then show ?thesis by (rule Cons.IH) (use None Cons.prems(2) in auto)
  next
    case (Some m)
    then show ?thesis using Cons by (cases m) auto
  qed
qed simp

lemma create_safe_path_cases:
  assumes "create_safe_path raw s = (r, s')"
  obtains e where "r = Inl e" "normalize_relative_path raw = Inl e" "s' = s"
  | p t' x where "normalize_relative_path raw = Inr p" "create_directories (parent_paths p) (st_tree s) = (x, t')"
      "s' = s\<lparr>st_tree := t'\<rparr>" "r = (case x of Inl e \<Rightarrow> Inl e | Inr _ \<Rightarrow> Inr p)"
proof (cases "normalize_relative_path raw")
  case (Inl e)
  with assms show thesis by (intro that(1)[of e]) (simp_all add: create_safe_path_def safe_path_created_def)
next
  case (Inr p)
  obtain x t' where c: "create_directories (parent_paths p) (st_tree s) = (x, t')" by fastforce
  with assms Inr show thesis
    by (intro that(2)[OF Inr c]; cases x) (simp_all add: create_safe_path_def safe_path_created_def)
qed

lemma create_safe_path_keeps:
  assumes c: "create_safe_path raw s = (r, s')"
  shows "st_tree s q = Some n \<Longrightarrow> st_tree s' q = Some n" "r = Inr p \<Longrightarrow> normalize_relative_path raw = Inr p"
    "st_heads s' = st_heads s" "st_ops s' = st_ops s"
  using c by (cases rule: create_safe_path_cases; auto split: sum.splits intro: create_directories_keeps)+

text \<open>The files an item may change: its target and its staging file.\<close>

definition writes :: "operation_item \<Rightarrow> string \<Rightarrow> bool" where
  "writes i q \<longleftrightarrow> normalize_relative_path (it_path i) = Inr q \<or> normalize_relative_path (it_work i) = Inr q"

lemma stage_and_rename_keeps:
  assumes "stage_and_rename h i target work s = (r, s')"
  shows "q \<noteq> target \<Longrightarrow> q \<noteq> work \<Longrightarrow> st_tree s' q = st_tree s q"
    "st_heads s' = st_heads s" "st_ops s' = st_ops s"
  using assms
  by (auto simp: stage_and_rename_def put_file_def split: option.splits node.splits if_splits)

lemma replace_one_cases:
  assumes "replace_one h i s = (r, s')"
  obtains e where "create_safe_path (it_path i) s = (Inl e, s')" "r = Inl e"
  | target s1 e where "create_safe_path (it_path i) s = (Inr target, s1)"
      "create_safe_path (it_work i) s1 = (Inl e, s')" "r = Inl e"
  | target s1 work e where "create_safe_path (it_path i) s = (Inr target, s1)"
      "create_safe_path (it_work i) s1 = (Inr work, s')" "r = Inl e"
  | target s1 work s2 where "create_safe_path (it_path i) s = (Inr target, s1)"
      "create_safe_path (it_work i) s1 = (Inr work, s2)" "stage_and_rename h i target work s2 = (r, s')"
proof -
  obtain x s1 where 1: "create_safe_path (it_path i) s = (x, s1)" by fastforce
  show thesis
  proof (cases x)
    case (Inl e)
    then show thesis using assms 1 that(1) by (simp add: replace_one_def)
  next
    case (Inr target)
    obtain y s2 where 2: "create_safe_path (it_work i) s1 = (y, s2)" by fastforce
    show thesis
    proof (cases y)
      case (Inl e)
      then show thesis using assms 1 2 Inr that(2) by (simp add: replace_one_def)
    next
      case (Inr work)
      with assms 1 2 \<open>x = Inr target\<close> that(3,4) show thesis
        by (auto simp: replace_one_def split: if_splits)
    qed
  qed
qed

lemma replace_one_keeps:
  assumes r: "replace_one h i s = (r, s')"
  shows "st_tree s q = Some n \<Longrightarrow> \<not> writes i q \<Longrightarrow> st_tree s' q = Some n"
    "st_heads s' = st_heads s" "st_ops s' = st_ops s"
proof -
  have "(st_tree s q = Some n \<longrightarrow> \<not> writes i q \<longrightarrow> st_tree s' q = Some n) \<and>
      st_heads s' = st_heads s \<and> st_ops s' = st_ops s"
    using r
  proof (cases rule: replace_one_cases)
    case (1 e)
    then show ?thesis using create_safe_path_keeps[OF 1(1)] by simp
  next
    case (2 target s1 e)
    then show ?thesis using create_safe_path_keeps[OF 2(1)] create_safe_path_keeps[OF 2(2)] by simp
  next
    case (3 target s1 work e)
    then show ?thesis using create_safe_path_keeps[OF 3(1)] create_safe_path_keeps[OF 3(2)] by simp
  next
    case (4 target s1 work s2)
    note k1 = create_safe_path_keeps[OF 4(1)]
    note k2 = create_safe_path_keeps[OF 4(2)]
    note k3 = stage_and_rename_keeps[OF 4(3)]
    have "q \<noteq> target" "q \<noteq> work" if "\<not> writes i q"
      using that k1(2)[OF refl] k2(2)[OF refl] by (auto simp: writes_def)
    then have "st_tree s' q = st_tree s2 q" if "\<not> writes i q" using k3(1)[of q] that by simp
    moreover have "st_tree s2 q = Some n" if "st_tree s q = Some n" using k2(1)[OF k1(1)[OF that]] .
    moreover have "st_heads s' = st_heads s" "st_ops s' = st_ops s"
      using k1(3,4) k2(3,4) k3(2,3) by simp_all
    ultimately show ?thesis by simp
  qed
  then show "st_tree s q = Some n \<Longrightarrow> \<not> writes i q \<Longrightarrow> st_tree s' q = Some n"
    "st_heads s' = st_heads s" "st_ops s' = st_ops s" by blast+
qed

text \<open>Looking at an item may only block the operation.\<close>

lemma operation_item_digest_cases:
  assumes "operation_item_digest jn k i s = (r, s')"
  obtains d where "r = Inr d" "digest_path jn (st_tree s) (it_path i) = Inr d" "s' = s"
  | e where "r = Inl (Operation_Blocked k)" "digest_path jn (st_tree s) (it_path i) = Inl e" "s' = mark_blocked k s"
proof (cases "digest_path jn (st_tree s) (it_path i)")
  case (Inl e)
  with assms show thesis by (intro that(2)[of e]) (simp_all add: operation_item_digest_def)
next
  case (Inr d)
  with assms show thesis by (intro that(1)[of d]) (simp_all add: operation_item_digest_def)
qed

lemma mark_blocked_fields [simp]:
  "st_tree (mark_blocked k s) = st_tree s" "st_heads (mark_blocked k s) = st_heads s"
  by (simp_all add: mark_blocked_def put_operation_def split: option.splits)

lemma remove_staging_keeps:
  assumes "remove_staging raw s = (r, s')"
  shows "st_heads s' = st_heads s" "st_ops s' = st_ops s"
    "normalize_relative_path raw \<noteq> Inr q \<Longrightarrow> st_tree s' q = st_tree s q"
  using assms by (auto simp: remove_staging_def safe_path_def bind_res_Inr_iff
      split: sum.splits option.splits node.splits)

lemma digest_path_file:
  assumes "digest_path jn t raw = Inr d" "normalize_relative_path raw = Inr q" "t q = Some (File b)"
  shows "jn_canonical jn b = Some d"
  using assms by (auto simp: digest_path_def safe_path_def bind_res_Inr_iff split: if_splits option.splits)

text \<open>A file outside the staging area survives, or it held the base of an item that replaces it.\<close>

definition survives :: "journal \<Rightarrow> operation_item list \<Rightarrow> tree \<Rightarrow> tree \<Rightarrow> bool" where
  "survives jn its t t' \<longleftrightarrow> (\<forall>q b. t q = Some (File b) \<longrightarrow>
     (\<forall>i \<in> set its. normalize_relative_path (it_work i) \<noteq> Inr q) \<longrightarrow>
     t' q = Some (File b) \<or>
     (\<exists>i \<in> set its. normalize_relative_path (it_path i) = Inr q \<and> jn_canonical jn b = Some (it_base i)))"

lemma survives_refl: "survives jn its t t"
  by (simp add: survives_def)

lemma survives_Cons:
  assumes "survives jn its t1 t2" "survives jn [i] t t1"
  shows "survives jn (i # its) t t2"
  unfolding survives_def
proof (intro allI impI)
  fix q b assume t: "t q = Some (File b)"
    and apart: "\<forall>j \<in> set (i # its). normalize_relative_path (it_work j) \<noteq> Inr q"
  have "t1 q = Some (File b) \<or> normalize_relative_path (it_path i) = Inr q \<and> jn_canonical jn b = Some (it_base i)"
    using assms(2) t apart unfolding survives_def by simp
  then show "t2 q = Some (File b) \<or> (\<exists>j \<in> set (i # its). normalize_relative_path (it_path j) = Inr q \<and>
      jn_canonical jn b = Some (it_base j))"
  proof
    assume "t1 q = Some (File b)"
    then have "t2 q = Some (File b) \<or> (\<exists>j \<in> set its. normalize_relative_path (it_path j) = Inr q \<and>
      jn_canonical jn b = Some (it_base j))" using assms(1) apart unfolding survives_def by simp
    then show ?thesis by auto
  qed simp
qed

lemma apply_items_survive:
  "apply_items jn h k its s = (r, s') \<Longrightarrow> survives jn its (st_tree s) (st_tree s') \<and>
     st_heads s' = st_heads s"
proof (induction its arbitrary: s)
  case Nil
  then show ?case by (simp add: survives_refl)
next
  case (Cons i its)
  obtain x s1 where x: "operation_item_digest jn k i s = (x, s1)" by fastforce
  then show ?case
  proof (cases rule: operation_item_digest_cases)
    case (2 e)
    then have "s' = mark_blocked k s" using Cons.prems x by simp
    then show ?thesis by (simp add: survives_refl)
  next
    case (1 d)
    consider "d = it_target i" | "d \<noteq> it_target i" "d \<noteq> it_base i" | "d \<noteq> it_target i" "d = it_base i" by blast
    then show ?thesis
    proof cases
      case 2
      then have "s' = mark_blocked k s" using Cons.prems x 1 by simp
      then show ?thesis by (simp add: survives_refl)
    next
      case same: 1
      obtain y s2 where y: "remove_staging (it_work i) s = (y, s2)" by fastforce
      note keep = remove_staging_keeps[OF y]
      have one: "survives jn [i] (st_tree s) (st_tree s2)" using keep(3) by (simp add: survives_def)
      show ?thesis
      proof (cases y)
        case (Inl e)
        then have "s' = s2" using Cons.prems x 1 same y by simp
        then show ?thesis using survives_Cons[OF survives_refl one] keep(1) by blast
      next
        case (Inr u)
        then have "apply_items jn h k its s2 = (r, s')" using Cons.prems x 1 same y by simp
        then show ?thesis using survives_Cons[OF _ one] Cons.IH keep(1) by fastforce
      qed
    next
      case base: 3
      obtain y s2 where y: "replace_one h i s = (y, s2)" by fastforce
      note keep = replace_one_keeps[OF y]
      have one: "survives jn [i] (st_tree s) (st_tree s2)"
        using keep(1) digest_path_file[OF 1(2)] base(2) by (auto simp: survives_def writes_def)
      show ?thesis
      proof (cases y)
        case (Inl e)
        then have "s' = s2" using Cons.prems x 1 base y by simp
        then show ?thesis using survives_Cons[OF survives_refl one] keep(2) by blast
      next
        case (Inr u)
        then have "apply_items jn h k its s2 = (r, s')" using Cons.prems x 1 base y by simp
        then show ?thesis using survives_Cons[OF _ one] Cons.IH keep(2) by fastforce
      qed
    qed
  qed
qed

section \<open>Recoverable operations\<close>

text \<open>
  The paths of an operation do not get in each other's way: paths, staging files and the directories
  above them are apart. The tree has no file or link where a directory is needed.
\<close>

definition dirs :: "operation_item list \<Rightarrow> string set" where
  "dirs its = (\<Union>i \<in> set its. set (parent_paths (it_path i)) \<union> set (parent_paths (it_work i)))"

definition item_ok :: "journal \<Rightarrow> operation_item \<Rightarrow> bool" where
  "item_ok jn i \<longleftrightarrow> normalize_relative_path (it_path i) = Inr (it_path i) \<and>
     normalize_resource_path (it_path i) = Inr (it_path i) \<and>
     normalize_relative_path (it_work i) = Inr (it_work i) \<and>
     jn_canonical jn (it_payload i) = Some (it_target i) \<and> int (length (it_payload i)) \<le> jn_limit jn"

definition layout_ok :: "journal \<Rightarrow> operation_item list \<Rightarrow> bool" where
  "layout_ok jn its \<longleftrightarrow> (\<forall>i \<in> set its. item_ok jn i) \<and> distinct (map it_path its) \<and>
     distinct (map it_work its) \<and> it_path ` set its \<inter> it_work ` set its = {} \<and>
     dirs its \<inter> (it_path ` set its \<union> it_work ` set its) = {}"

definition tree_ok :: "operation_item list \<Rightarrow> tree \<Rightarrow> bool" where
  "tree_ok its t \<longleftrightarrow> (\<forall>d \<in> dirs its. t d \<in> {None, Some Directory}) \<and>
     (\<forall>i \<in> set its. t (it_work i) = None \<or> (\<exists>b. t (it_work i) = Some (File b)))"

text \<open>What an item does to the tree, whatever faults interrupt it.\<close>

definition moves :: "operation_item list \<Rightarrow> operation_item \<Rightarrow> tree \<Rightarrow> tree \<Rightarrow> bool" where
  "moves its i t t' \<longleftrightarrow> (\<forall>q. q \<notin> dirs its \<longrightarrow> q \<noteq> it_path i \<longrightarrow> q \<noteq> it_work i \<longrightarrow> t' q = t q) \<and>
     (\<forall>d \<in> dirs its. t' d = t d \<or> t d = None \<and> t' d = Some Directory) \<and>
     (t' (it_work i) = t (it_work i) \<or> t' (it_work i) = None \<or> (\<exists>b. t' (it_work i) = Some (File b))) \<and>
     (t' (it_path i) = t (it_path i) \<or> t' (it_path i) = Some (File (it_payload i)))"

lemma layout_apart:
  assumes "layout_ok jn its" "i \<in> set its" "j \<in> set its"
  shows "item_ok jn i" "it_path i \<noteq> it_work j" "it_path i \<notin> dirs its" "it_work i \<notin> dirs its"
    "it_path i = it_path j \<longleftrightarrow> i = j" "it_work i = it_work j \<longleftrightarrow> i = j"
proof -
  note l = assms(1)[unfolded layout_ok_def]
  show "item_ok jn i" using l assms(2) by blast
  show "it_path i \<noteq> it_work j" "it_path i \<notin> dirs its" "it_work i \<notin> dirs its"
    using l assms(2,3) by blast+
  show "it_path i = it_path j \<longleftrightarrow> i = j" "it_work i = it_work j \<longleftrightarrow> i = j"
    using l assms(2,3) by (auto simp: distinct_map inj_on_def)
qed

text \<open>The digest of a path only looks at its node.\<close>

definition node_digest :: "journal \<Rightarrow> node option \<Rightarrow> string option" where
  "node_digest jn n = (case n of None \<Rightarrow> Some (jn_missing jn)
   | Some (File b) \<Rightarrow> if jn_limit jn < int (length b) then None else jn_canonical jn b
   | _ \<Rightarrow> None)"

lemma digest_path_node:
  assumes "layout_ok jn its" "tree_ok its t" "i \<in> set its"
  shows "digest_path jn t (it_path i) = Inr d \<longleftrightarrow> node_digest jn (t (it_path i)) = Some d"
proof -
  have n: "normalize_relative_path (it_path i) = Inr (it_path i)"
    using layout_apart(1)[OF assms(1,3,3)] by (simp add: item_ok_def)
  have "set (parent_paths (it_path i)) \<subseteq> dirs its" using assms(3) by (auto simp: dirs_def)
  then have "assert_safe_parents t (it_path i) = Inr ()"
    using assms(2) by (fastforce simp: assert_safe_parents_def check_all_Inr_iff tree_ok_def)
  then show ?thesis using n
    by (auto simp: digest_path_def safe_path_def node_digest_def split: option.splits node.splits)
qed

definition known :: "journal \<Rightarrow> operation_item list \<Rightarrow> tree \<Rightarrow> bool" where
  "known jn its t \<longleftrightarrow> (\<forall>i \<in> set its. node_digest jn (t (it_path i)) \<in> {Some (it_base i), Some (it_target i)})"

lemma payload_digest: "item_ok jn i \<Longrightarrow> node_digest jn (Some (File (it_payload i))) = Some (it_target i)"
  by (simp add: item_ok_def node_digest_def)

lemma moves_keep:
  assumes l: "layout_ok jn its" and t: "tree_ok its t" and k: "known jn its t" and i: "i \<in> set its"
    and m: "moves its i t t'"
  shows "tree_ok its t'" "known jn its t'"
    "j \<in> set its \<Longrightarrow> j \<noteq> i \<Longrightarrow> t' (it_path j) = t (it_path j)"
    "node_digest jn (t (it_path i)) = Some (it_target i) \<Longrightarrow> node_digest jn (t' (it_path i)) = Some (it_target i)"
proof -
  note a = layout_apart[OF l]
  have other: "t' (it_path j) = t (it_path j)" if "j \<in> set its" "j \<noteq> i" for j
    using m a(2)[OF that(1) i] a(3)[OF that(1) i] a(5)[OF that(1) i] that(2) unfolding moves_def by blast
  then show "j \<in> set its \<Longrightarrow> j \<noteq> i \<Longrightarrow> t' (it_path j) = t (it_path j)" by blast
  have work: "t' (it_work j) = t (it_work j)" if "j \<in> set its" "j \<noteq> i" for j
    using m a(2)[OF i that(1)] a(4)[OF that(1) i] a(6)[OF that(1) i] that(2) unfolding moves_def by metis
  show "tree_ok its t'"
    unfolding tree_ok_def
  proof (intro conjI ballI)
    fix d assume "d \<in> dirs its"
    then have "t' d = t d \<or> t' d = Some Directory" "t d \<in> {None, Some Directory}"
      using m t unfolding moves_def tree_ok_def by blast+
    then show "t' d \<in> {None, Some Directory}" by auto
  next
    fix j assume j: "j \<in> set its"
    have "t (it_work j) = None \<or> (\<exists>b. t (it_work j) = Some (File b))" using t j unfolding tree_ok_def by blast
    then show "t' (it_work j) = None \<or> (\<exists>b. t' (it_work j) = Some (File b))"
      using m work[OF j] unfolding moves_def by (cases "j = i") auto
  qed
  have mine: "t' (it_path i) = t (it_path i) \<or> node_digest jn (t' (it_path i)) = Some (it_target i)"
    using m payload_digest[OF a(1)[OF i i]] unfolding moves_def by auto
  then show "node_digest jn (t (it_path i)) = Some (it_target i) \<Longrightarrow> node_digest jn (t' (it_path i)) = Some (it_target i)"
    by auto
  show "known jn its t'"
    unfolding known_def
  proof
    fix j assume j: "j \<in> set its"
    then have "node_digest jn (t (it_path j)) \<in> {Some (it_base j), Some (it_target j)}"
      using k unfolding known_def by blast
    then show "node_digest jn (t' (it_path j)) \<in> {Some (it_base j), Some (it_target j)}"
      using mine other[OF j] by (cases "j = i") auto
  qed
qed

section \<open>One item\<close>

lemma create_directories_ok:
  assumes "\<forall>d \<in> set ds. t d \<in> {None, Some Directory}"
  shows "\<exists>t'. create_directories ds t = (Inr (), t') \<and> (\<forall>q. q \<notin> set ds \<longrightarrow> t' q = t q) \<and>
    (\<forall>d \<in> set ds. t' d = t d \<or> t d = None \<and> t' d = Some Directory)"
  using assms
proof (induction ds arbitrary: t)
  case (Cons d ds)
  define u where "u = (if t d = None then t(d \<mapsto> Directory) else t)"
  have u: "\<forall>x \<in> set ds. u x \<in> {None, Some Directory}" using Cons.prems by (simp add: u_def)
  obtain t' where t': "create_directories ds u = (Inr (), t')" "\<forall>q. q \<notin> set ds \<longrightarrow> t' q = u q"
    "\<forall>x \<in> set ds. t' x = u x \<or> u x = None \<and> t' x = Some Directory"
    using Cons.IH[OF u] by blast
  have "create_directories (d # ds) t = (Inr (), t')"
    using Cons.prems t'(1) by (cases "t d") (auto simp: u_def)
  moreover have "t' q = t q" if "q \<notin> set (d # ds)" for q using t'(2) that by (simp add: u_def)
  moreover have "t' x = t x \<or> t x = None \<and> t' x = Some Directory" if "x \<in> set (d # ds)" for x
  proof (cases "x \<in> set ds")
    case True
    then have "t' x = u x \<or> u x = None \<and> t' x = Some Directory" using t'(3) by blast
    then show ?thesis by (auto simp: u_def split: if_splits)
  next
    case False
    then have "t' x = u x" using t'(2) by simp
    then show ?thesis using False that by (auto simp: u_def)
  qed
  ultimately show ?case by blast
qed simp

lemma create_safe_path_ok:
  assumes n: "normalize_relative_path p = Inr p" and d: "set (parent_paths p) \<subseteq> dirs its"
    and t: "tree_ok its (st_tree s)"
  obtains s' where "create_safe_path p s = (Inr p, s')" "st_heads s' = st_heads s" "st_ops s' = st_ops s"
    "\<And>q. q \<notin> dirs its \<Longrightarrow> st_tree s' q = st_tree s q"
    "\<And>q. q \<in> dirs its \<Longrightarrow> st_tree s' q = st_tree s q \<or> st_tree s q = None \<and> st_tree s' q = Some Directory"
proof -
  have "\<forall>x \<in> set (parent_paths p). st_tree s x \<in> {None, Some Directory}" using d t unfolding tree_ok_def by blast
  from create_directories_ok[OF this] obtain t' where t': "create_directories (parent_paths p) (st_tree s) = (Inr (), t')"
    "\<forall>q. q \<notin> set (parent_paths p) \<longrightarrow> t' q = st_tree s q"
    "\<forall>q \<in> set (parent_paths p). t' q = st_tree s q \<or> st_tree s q = None \<and> t' q = Some Directory" by blast
  show thesis
  proof (rule that)
    show "create_safe_path p s = (Inr p, s\<lparr>st_tree := t'\<rparr>)"
      by (simp add: create_safe_path_def safe_path_created_def n t'(1))
    show "st_tree (s\<lparr>st_tree := t'\<rparr>) q = st_tree s q" if "q \<notin> dirs its" for q
      using t'(2) that d by auto
    show "st_tree (s\<lparr>st_tree := t'\<rparr>) q = st_tree s q \<or>
      st_tree s q = None \<and> st_tree (s\<lparr>st_tree := t'\<rparr>) q = Some Directory" if "q \<in> dirs its" for q
      using t'(2,3) by (cases "q \<in> set (parent_paths p)") auto
  qed simp_all
qed

text \<open>Under any fault hook an item moves the tree, and only a fault stops it.\<close>

lemma item_directories:
  assumes l: "layout_ok jn its" and t: "tree_ok its (st_tree s)" and i: "i \<in> set its"
  obtains s1 s2 where "create_safe_path (it_path i) s = (Inr (it_path i), s1)"
    "create_safe_path (it_work i) s1 = (Inr (it_work i), s2)" "st_heads s2 = st_heads s" "st_ops s2 = st_ops s"
    "\<And>q. q \<notin> dirs its \<Longrightarrow> st_tree s2 q = st_tree s q"
    "\<And>q. q \<in> dirs its \<Longrightarrow> st_tree s2 q = st_tree s q \<or> st_tree s q = None \<and> st_tree s2 q = Some Directory"
proof -
  note a = layout_apart[OF l i i]
  have ok: "normalize_relative_path (it_path i) = Inr (it_path i)" "normalize_relative_path (it_work i) = Inr (it_work i)"
    using a(1) by (simp_all add: item_ok_def)
  have sub: "set (parent_paths (it_path i)) \<subseteq> dirs its" "set (parent_paths (it_work i)) \<subseteq> dirs its"
    using i by (auto simp: dirs_def)
  obtain s1 where 1: "create_safe_path (it_path i) s = (Inr (it_path i), s1)" "st_heads s1 = st_heads s"
    "st_ops s1 = st_ops s" "\<And>q. q \<notin> dirs its \<Longrightarrow> st_tree s1 q = st_tree s q"
    "\<And>q. q \<in> dirs its \<Longrightarrow> st_tree s1 q = st_tree s q \<or> st_tree s q = None \<and> st_tree s1 q = Some Directory"
    by (rule create_safe_path_ok[OF ok(1) sub(1) t]) blast
  have t1: "tree_ok its (st_tree s1)"
    unfolding tree_ok_def
  proof (intro conjI ballI)
    fix d assume "d \<in> dirs its"
    then show "st_tree s1 d \<in> {None, Some Directory}" using 1(5)[of d] t unfolding tree_ok_def by auto
  next
    fix j assume j: "j \<in> set its"
    show "st_tree s1 (it_work j) = None \<or> (\<exists>b. st_tree s1 (it_work j) = Some (File b))"
      using 1(4) layout_apart(4)[OF l j j] t j unfolding tree_ok_def by simp
  qed
  obtain s2 where 2: "create_safe_path (it_work i) s1 = (Inr (it_work i), s2)" "st_heads s2 = st_heads s1"
    "st_ops s2 = st_ops s1" "\<And>q. q \<notin> dirs its \<Longrightarrow> st_tree s2 q = st_tree s1 q"
    "\<And>q. q \<in> dirs its \<Longrightarrow> st_tree s2 q = st_tree s1 q \<or> st_tree s1 q = None \<and> st_tree s2 q = Some Directory"
    by (rule create_safe_path_ok[OF ok(2) sub(2) t1]) blast
  show thesis
  proof (rule that[OF 1(1) 2(1)])
    show "st_heads s2 = st_heads s" "st_ops s2 = st_ops s" using 1(2,3) 2(2,3) by simp_all
    show "st_tree s2 q = st_tree s q" if "q \<notin> dirs its" for q using 1(4) 2(4) that by simp
    show "st_tree s2 q = st_tree s q \<or> st_tree s q = None \<and> st_tree s2 q = Some Directory"
      if "q \<in> dirs its" for q using 1(5)[OF that] 2(5)[OF that] by auto
  qed
qed

lemma replace_one_moves:
  assumes l: "layout_ok jn its" and t: "tree_ok its (st_tree s)" and i: "i \<in> set its"
    and n: "node_digest jn (st_tree s (it_path i)) = Some d" and r: "replace_one h i s = (r, s')"
  shows "moves its i (st_tree s) (st_tree s')" "st_heads s' = st_heads s" "st_ops s' = st_ops s"
    "r = Inr () \<Longrightarrow> st_tree s' (it_path i) = Some (File (it_payload i))"
    "r = Inl e \<Longrightarrow> \<exists>g. e = Faulted g" "h = no_faults \<Longrightarrow> r = Inr ()"
proof -
  note a = layout_apart[OF l i i]
  obtain s1 s2 where 1: "create_safe_path (it_path i) s = (Inr (it_path i), s1)"
    and 2: "create_safe_path (it_work i) s1 = (Inr (it_work i), s2)"
    and heads: "st_heads s2 = st_heads s" "st_ops s2 = st_ops s"
    and same: "\<And>q. q \<notin> dirs its \<Longrightarrow> st_tree s2 q = st_tree s q"
    and dir: "\<And>q. q \<in> dirs its \<Longrightarrow> st_tree s2 q = st_tree s q \<or> st_tree s q = None \<and> st_tree s2 q = Some Directory"
    by (rule item_directories[OF l t i]) blast
  have path: "st_tree s2 (it_path i) = None \<or> (\<exists>b. st_tree s2 (it_path i) = Some (File b))"
    using n same[OF a(3)] by (auto simp: node_digest_def split: option.splits node.splits)
  have work: "st_tree s2 (it_work i) = None \<or> (\<exists>b. st_tree s2 (it_work i) = Some (File b))"
    using t i same[OF a(4)] unfolding tree_ok_def by simp
  have reg: "\<not> (node_exists (st_tree s2 (it_path i)) \<and> \<not> is_regular (st_tree s2 (it_path i)))"
    using path by (auto simp: node_exists_def is_regular_def)
  have res: "(r, s') = and_then (fault h Before_Stage_Write (Some (it_ordinal i)) s2)
      (\<lambda>_ s3. stage_and_rename h i (it_path i) (it_work i) s3)"
    using r 1 2 unfolding replace_one_def by (simp only: and_then_simps if_not_P[OF reg])
  have two: "moves its i (st_tree s) (st_tree s2)"
    using same dir a(3,4) unfolding moves_def by simp
  have three: "moves its i (st_tree s) (st_tree (put_file (it_work i) b s2))" for b
    using same dir a(2,3,4) unfolding moves_def by (auto simp: put_file_def)
  have four: "moves its i (st_tree s) ((st_tree s2)(it_work i := None, it_path i \<mapsto> File (it_payload i)))"
    using same dir a(2,3,4) unfolding moves_def by auto
  let ?b = "fh_raises h Before_Stage_Write (Some (it_ordinal i))"
  let ?c = "fh_raises h After_Stage_Fsync (Some (it_ordinal i))"
  let ?d = "fh_raises h After_Replace (Some (it_ordinal i))"
  have go: "stage_and_rename h i (it_path i) (it_work i) s2 = (case fh_torn h (it_ordinal i) of
       Some part \<Rightarrow> (Inl (Faulted Before_Stage_Write), put_file (it_work i) part s2)
     | None \<Rightarrow> if ?c then (Inl (Faulted After_Stage_Fsync), put_file (it_work i) (it_payload i) s2)
         else (if ?d then Inl (Faulted After_Replace) else Inr (),
           s2\<lparr>st_tree := (st_tree s2)(it_work i := None, it_path i \<mapsto> File (it_payload i))\<rparr>))"
    using work by (auto simp: stage_and_rename_def put_file_def split: option.splits)
  consider "?b" "r = Inl (Faulted Before_Stage_Write)" "s' = s2"
    | part where "r = Inl (Faulted Before_Stage_Write)" "s' = put_file (it_work i) part s2" "fh_torn h (it_ordinal i) = Some part"
    | "?c" "r = Inl (Faulted After_Stage_Fsync)" "s' = put_file (it_work i) (it_payload i) s2"
    | "r = (if ?d then Inl (Faulted After_Replace) else Inr ())"
      "s' = s2\<lparr>st_tree := (st_tree s2)(it_work i := None, it_path i \<mapsto> File (it_payload i))\<rparr>"
    using res go by (auto split: if_splits option.splits)
  then have "moves its i (st_tree s) (st_tree s') \<and> st_heads s' = st_heads s \<and> st_ops s' = st_ops s \<and>
    (r = Inr () \<longrightarrow> st_tree s' (it_path i) = Some (File (it_payload i))) \<and>
    (r = Inl e \<longrightarrow> (\<exists>g. e = Faulted g)) \<and> (h = no_faults \<longrightarrow> r = Inr ())"
  proof cases
    case 1
    then show ?thesis using two heads by (auto simp: no_faults_def)
  next
    case (2 part)
    then show ?thesis using three heads by (auto simp: no_faults_def put_file_def)
  next
    case 3
    then show ?thesis using three heads by (auto simp: no_faults_def put_file_def)
  next
    case 4
    then show ?thesis using four heads by (auto simp: no_faults_def)
  qed
  then show "moves its i (st_tree s) (st_tree s')" "st_heads s' = st_heads s" "st_ops s' = st_ops s"
    "r = Inr () \<Longrightarrow> st_tree s' (it_path i) = Some (File (it_payload i))"
    "r = Inl e \<Longrightarrow> \<exists>g. e = Faulted g" "h = no_faults \<Longrightarrow> r = Inr ()" by blast+
qed

lemma remove_staging_moves:
  assumes l: "layout_ok jn its" and t: "tree_ok its (st_tree s)" and i: "i \<in> set its"
  shows "\<exists>s'. remove_staging (it_work i) s = (Inr (), s') \<and> moves its i (st_tree s) (st_tree s') \<and>
    st_heads s' = st_heads s \<and> st_ops s' = st_ops s"
proof -
  note a = layout_apart[OF l i i]
  have n: "normalize_relative_path (it_work i) = Inr (it_work i)" using a(1) by (simp add: item_ok_def)
  have "set (parent_paths (it_work i)) \<subseteq> dirs its" using i by (auto simp: dirs_def)
  then have "assert_safe_parents (st_tree s) (it_work i) = Inr ()"
    using t by (fastforce simp: assert_safe_parents_def check_all_Inr_iff tree_ok_def)
  with n have p: "safe_path (st_tree s) (it_work i) = Inr (it_work i)" by (simp add: safe_path_def)
  have "st_tree s (it_work i) = None \<or> (\<exists>b. st_tree s (it_work i) = Some (File b))"
    using t i unfolding tree_ok_def by blast
  then show ?thesis
  proof
    assume "st_tree s (it_work i) = None"
    then show ?thesis using p by (simp add: remove_staging_def moves_def)
  next
    assume "\<exists>b. st_tree s (it_work i) = Some (File b)"
    then show ?thesis using p a(2,4) by (auto simp: remove_staging_def moves_def)
  qed
qed

section \<open>All items\<close>

definition applied :: "journal \<Rightarrow> tree \<Rightarrow> operation_item \<Rightarrow> bool" where
  "applied jn t i \<longleftrightarrow> node_digest jn (t (it_path i)) = Some (it_target i)"

definition ready :: "journal \<Rightarrow> operation_item list \<Rightarrow> tree \<Rightarrow> bool" where
  "ready jn its t \<longleftrightarrow> layout_ok jn its \<and> tree_ok its t \<and> known jn its t"

lemma ready_moves:
  assumes "ready jn its t" "i \<in> set its" "moves its i t t'"
  shows "ready jn its t'" "j \<in> set its \<Longrightarrow> applied jn t j \<Longrightarrow> applied jn t' j"
proof -
  note k = moves_keep[OF _ _ _ assms(2,3)] assms(1)[unfolded ready_def]
  show "ready jn its t'" using k unfolding ready_def by blast
  show "applied jn t' j" if "j \<in> set its" "applied jn t j"
  proof (cases "j = i")
    case True
    then show ?thesis using that k unfolding applied_def by blast
  next
    case False
    then have "t' (it_path j) = t (it_path j)" using that(1) k by blast
    then show ?thesis using that(2) by (simp add: applied_def)
  qed
qed

lemma ready_digest:
  assumes "ready jn its (st_tree s)" "i \<in> set its"
  obtains d where "operation_item_digest jn k i s = (Inr d, s)" "d = it_base i \<or> d = it_target i"
    "node_digest jn (st_tree s (it_path i)) = Some d"
proof -
  obtain d where d: "node_digest jn (st_tree s (it_path i)) = Some d" "d = it_base i \<or> d = it_target i"
    using assms unfolding ready_def known_def by blast
  then have "digest_path jn (st_tree s) (it_path i) = Inr d"
    using digest_path_node assms unfolding ready_def by blast
  with d that show thesis by (simp add: operation_item_digest_def)
qed

text \<open>Whatever faults interrupt it, applying leaves the operation ready, and only faults stop it.\<close>

definition progress :: "journal \<Rightarrow> operation_item list \<Rightarrow> storage \<Rightarrow> storage \<Rightarrow> bool" where
  "progress jn its s s' \<longleftrightarrow> ready jn its (st_tree s') \<and> st_heads s' = st_heads s \<and> st_ops s' = st_ops s \<and>
     (\<forall>j \<in> set its. applied jn (st_tree s) j \<longrightarrow> applied jn (st_tree s') j)"

lemma progress_trans: "progress jn its a b \<Longrightarrow> progress jn its b c \<Longrightarrow> progress jn its a c"
  by (simp add: progress_def)

lemma progress_moves:
  assumes "ready jn its (st_tree s)" "i \<in> set its" "moves its i (st_tree s) (st_tree s')"
    "st_heads s' = st_heads s" "st_ops s' = st_ops s"
  shows "progress jn its s s'"
  using ready_moves[OF assms(1-3)] assms(4,5) by (simp add: progress_def)

lemma one_item:
  assumes r: "ready jn its (st_tree s)" and i: "i \<in> set its"
  obtains y s1 where
    "apply_items jn h k (i # rest) s = and_then (y, s1) (\<lambda>_ s2. apply_items jn h k rest s2)"
    "progress jn its s s1" "y = Inr () \<Longrightarrow> applied jn (st_tree s1) i"
    "\<And>e. y = Inl e \<Longrightarrow> \<exists>g. e = Faulted g" "h = no_faults \<Longrightarrow> y = Inr ()"
proof -
  have l: "layout_ok jn its" "tree_ok its (st_tree s)" using r by (simp_all add: ready_def)
  obtain d where d: "operation_item_digest jn k i s = (Inr d, s)" "d = it_base i \<or> d = it_target i"
    "node_digest jn (st_tree s (it_path i)) = Some d" by (rule ready_digest[OF r i])
  show thesis
  proof (cases "d = it_target i")
    case True
    obtain s1 where s1: "remove_staging (it_work i) s = (Inr (), s1)" "moves its i (st_tree s) (st_tree s1)"
      "st_heads s1 = st_heads s" "st_ops s1 = st_ops s" using remove_staging_moves[OF l i] by blast
    note p = progress_moves[OF r i s1(2-4)]
    have "applied jn (st_tree s) i" using d(3) True by (simp add: applied_def)
    then have "applied jn (st_tree s1) i" using p i by (simp add: progress_def)
    then show thesis using p d(1) True s1(1) by (intro that[of "Inr ()" s1]) simp_all
  next
    case False
    then have base: "d = it_base i" using d(2) by simp
    obtain y s1 where y: "replace_one h i s = (y, s1)" by fastforce
    note m = replace_one_moves[OF l i d(3) y]
    note p = progress_moves[OF r i m(1-3)]
    show thesis
    proof (rule that)
      show "apply_items jn h k (i # rest) s = and_then (y, s1) (\<lambda>_ s2. apply_items jn h k rest s2)"
        using d(1) False base y by simp
      show "applied jn (st_tree s1) i" if "y = Inr ()"
        using m(4)[OF that] payload_digest[OF layout_apart(1)[OF l(1) i i]] by (simp add: applied_def)
      show "\<exists>g. e = Faulted g" if "y = Inl e" for e by (rule m(5)[OF that])
    qed (use p m(6) in simp_all)
  qed
qed

lemma apply_items_ready:
  assumes "ready jn its (st_tree s)" "set rest \<subseteq> set its" "apply_items jn h k rest s = (r, s')"
  shows "progress jn its s s' \<and> (r = Inr () \<longrightarrow> (\<forall>i \<in> set rest. applied jn (st_tree s') i)) \<and>
    (\<forall>e. r = Inl e \<longrightarrow> (\<exists>g. e = Faulted g)) \<and> (h = no_faults \<longrightarrow> r = Inr ())"
  using assms
proof (induction rest arbitrary: s)
  case Nil
  then show ?case by (auto simp: progress_def)
next
  case (Cons i rest)
  have i: "i \<in> set its" using Cons.prems(2) by simp
  obtain y s1 where y: "apply_items jn h k (i # rest) s = and_then (y, s1) (\<lambda>_ s2. apply_items jn h k rest s2)"
    "progress jn its s s1" "y = Inr () \<Longrightarrow> applied jn (st_tree s1) i"
    "\<And>e. y = Inl e \<Longrightarrow> \<exists>g. e = Faulted g" "h = no_faults \<Longrightarrow> y = Inr ()"
    by (rule one_item[OF Cons.prems(1) i, of h k rest]) blast
  show ?case
  proof (cases y)
    case (Inl e)
    then have "r = Inl e" "s' = s1" using y(1) Cons.prems(3) by simp_all
    then show ?thesis using y(2,5) y(4)[OF Inl] Inl by auto
  next
    case (Inr u)
    have r1: "ready jn its (st_tree s1)" using y(2) by (simp add: progress_def)
    have "apply_items jn h k rest s1 = (r, s')" using y(1) Cons.prems(3) Inr by simp
    note ih = Cons.IH[OF r1 _ this]
    have two: "progress jn its s1 s'" and all: "r = Inr () \<Longrightarrow> \<forall>j \<in> set rest. applied jn (st_tree s') j"
      and rest: "\<forall>e. r = Inl e \<longrightarrow> (\<exists>g. e = Faulted g)" "h = no_faults \<longrightarrow> r = Inr ()"
      using ih Cons.prems(2) by auto
    have "applied jn (st_tree s') i" using y(3) Inr two i by (simp add: progress_def)
    then show ?thesis using progress_trans[OF y(2) two] all rest by simp
  qed
qed

section \<open>The operation\<close>

definition pending :: "journal \<Rightarrow> string \<Rightarrow> operation \<Rightarrow> storage \<Rightarrow> bool" where
  "pending jn k p s \<longleftrightarrow> operation_id_ok k \<and> map_of (st_ops s) k = Some p \<and> op_items p \<noteq> [] \<and>
     ready jn (op_items p) (st_tree s) \<and>
     op_digest p = resource_digest jn (map (\<lambda>i. (it_path i, it_target i)) (op_items p)) \<and>
     (\<exists>old. map_of (st_heads s) (op_target p) = Some old \<and> rh_version old = op_expected p \<and>
        rh_digest old = op_base p)"

definition finalized :: "journal \<Rightarrow> string \<Rightarrow> operation \<Rightarrow> storage \<Rightarrow> bool" where
  "finalized jn k p s \<longleftrightarrow> operation_id_ok k \<and> op_items p \<noteq> [] \<and> load_items (op_items p) = Inr (op_items p) \<and>
     map_of (st_ops s) k = Some (p\<lparr>op_state := Op_Done\<rparr>) \<and>
     (\<forall>i \<in> set (op_items p). applied jn (st_tree s) i) \<and>
     (\<exists>old. map_of (st_heads s) (op_target p) = Some old \<and> rh_version old = op_version p \<and>
        rh_digest old = op_digest p)"

definition unfinished :: "operation \<Rightarrow> bool" where
  "unfinished p \<longleftrightarrow> op_state p = Op_Prepared \<or> op_state p = Op_Fs_Applied"

lemma load_items_same: "\<forall>i \<in> set its. item_ok jn i \<Longrightarrow> load_items its = Inr its"
  by (induction its) (simp_all add: item_ok_def)

lemma pending_items: "pending jn k p s \<Longrightarrow> load_items (op_items p) = Inr (op_items p)"
  by (rule load_items_same[of _ jn]) (simp add: pending_def ready_def layout_ok_def)

lemma pending_load: "pending jn k p s \<Longrightarrow> load_operation k s = Inr p"
  using pending_items[of jn k p s] by (simp add: pending_def load_operation_def)

lemma pending_progress:
  "pending jn k p s \<Longrightarrow> progress jn (op_items p) s s' \<Longrightarrow> pending jn k p s'"
  by (simp add: pending_def progress_def)

lemma pending_state:
  "pending jn k p s \<Longrightarrow> pending jn k (p\<lparr>op_state := st\<rparr>) (put_operation k (p\<lparr>op_state := st\<rparr>) s)"
  by (simp add: pending_def put_operation_def)

lemma apply_replace_pending:
  assumes p: "pending jn k p s" and u: "unfinished p" and r: "apply_replace jn h k s = (r, s')"
  obtains e g where "r = Inl e" "e = Faulted g" "pending jn k p s'" "h \<noteq> no_faults"
  | "r = Inr ()" "pending jn k (p\<lparr>op_state := Op_Fs_Applied\<rparr>) s'"
    "\<forall>i \<in> set (op_items p). applied jn (st_tree s') i"
proof -
  have go: "\<not> op_state p = Op_Done" "\<not> op_state p = Op_Blocked" "\<not> op_state p \<notin> {Op_Prepared, Op_Fs_Applied}"
    using u by (auto simp: unfinished_def)
  obtain y s1 where y: "apply_items jn h k (op_items p) s = (y, s1)" by fastforce
  have ready: "ready jn (op_items p) (st_tree s)" using p by (simp add: pending_def)
  note a = apply_items_ready[OF ready subset_refl y]
  have p1: "pending jn k p s1" using pending_progress[OF p] a by blast
  have res: "(r, s') = and_then (y, s1) (\<lambda>_ s1. and_then (fault h After_Apply None s1) (\<lambda>_ s2.
      case advance_operation k Op_Fs_Applied s2 of Inl e \<Rightarrow> (Inl e, s2) | Inr s3 \<Rightarrow> (Inr (), s3)))"
    using r unfolding apply_replace_def pending_load[OF p] sum.case if_not_P[OF go(1)] if_not_P[OF go(2)]
      if_not_P[OF go(3)] y by simp
  show thesis
  proof (cases y)
    case (Inl e)
    moreover obtain g where "e = Faulted g" using a Inl by blast
    moreover have "h \<noteq> no_faults" using a Inl by auto
    ultimately show thesis using res p1 by (intro that(1)[of e g]) simp_all
  next
    case (Inr x)
    show thesis
    proof (cases "fh_raises h After_Apply None")
      case True
      then have "h \<noteq> no_faults" by (auto simp: no_faults_def)
      then show thesis using True res Inr p1 by (intro that(1)[of "Faulted After_Apply" After_Apply]) simp_all
    next
      case False
      have "advance_operation k Op_Fs_Applied s1 = Inr (put_operation k (p\<lparr>op_state := Op_Fs_Applied\<rparr>) s1)"
        using p1 u by (auto simp: advance_operation_def pending_def unfinished_def)
      moreover have "\<forall>i \<in> set (op_items p). applied jn (st_tree s1) i" using a Inr by simp
      ultimately show thesis using False res Inr pending_state[OF p1, of Op_Fs_Applied]
        by (intro that(2)) (simp_all add: put_operation_def)
    qed
  qed
qed

lemma verify_items_applied:
  assumes "ready jn its (st_tree s)" "set rest \<subseteq> set its" "\<forall>i \<in> set rest. applied jn (st_tree s) i"
  shows "verify_items jn k rest s = (Inr (map (\<lambda>i. (it_path i, it_target i)) rest), s)"
  using assms(2,3)
proof (induction rest)
  case (Cons i rest)
  obtain d where d: "operation_item_digest jn k i s = (Inr d, s)" "node_digest jn (st_tree s (it_path i)) = Some d"
    by (rule ready_digest[OF assms(1)]) (use Cons.prems(1) in auto)
  then have "d = it_target i" using Cons.prems(2) by (simp add: applied_def)
  then show ?case using d(1) Cons by auto
qed simp

lemma finalize_replace_pending:
  assumes p: "pending jn k p s" and u: "unfinished p" and a: "\<forall>i \<in> set (op_items p). applied jn (st_tree s) i"
    and r: "finalize_replace jn h k s = (r, s')"
  obtains "r = Inl (Faulted Before_Finalize)" "s' = s" "h \<noteq> no_faults"
  | "r = Inl (Faulted After_Finalize)" "finalized jn k p s'" "h \<noteq> no_faults"
  | head where "r = Inr head" "finalized jn k p s'" "rh_version head = op_version p" "rh_digest head = op_digest p"
proof -
  have go: "\<not> op_state p = Op_Done" "\<not> op_state p = Op_Blocked" using u by (auto simp: unfinished_def)
  have v: "verify_items jn k (op_items p) s = (Inr (map (\<lambda>i. (it_path i, it_target i)) (op_items p)), s)"
    by (rule verify_items_applied[OF _ subset_refl a]) (use p in \<open>simp add: pending_def\<close>)
  obtain old where old: "map_of (st_heads s) (op_target p) = Some old" "rh_version old = op_expected p"
    "rh_digest old = op_base p" using p unfolding pending_def by blast
  define new where "new = old\<lparr>rh_version := op_version p, rh_digest := op_digest p\<rparr>"
  define s3 where "s3 = put_operation k (p\<lparr>op_state := Op_Done\<rparr>) (s\<lparr>st_heads := dict_set (op_target p) new (st_heads s)\<rparr>)"
  have c: "commit_replacement k p s = Inr s3"
    using old p u by (auto simp: commit_replacement_def advance_operation_def s3_def new_def pending_def unfinished_def)
  have fin: "finalized jn k p s3"
    using p a pending_items[OF p] by (simp add: finalized_def s3_def put_operation_def pending_def new_def)
  have d: "op_digest p = resource_digest jn (map (\<lambda>i. (it_path i, it_target i)) (op_items p))"
    using p by (simp add: pending_def)
  have head: "map_of (st_heads s3) (op_target p) = Some new" by (simp add: s3_def put_operation_def)
  have res: "(r, s') = and_then (fault h Before_Finalize None s) (\<lambda>_ s2. case commit_replacement k p s2 of
           Inl e \<Rightarrow> (Inl e, s2)
         | Inr s3 \<Rightarrow> and_then (fault h After_Finalize None s3) (\<lambda>_ s4.
             case map_of (st_heads s4) (op_target p) of
               None \<Rightarrow> (Inl (Digest_Mismatch ''Finalized resource head is missing.''), s4)
             | Some old \<Rightarrow> (Inr old, s4)))"
    using r unfolding finalize_replace_def pending_load[OF p] sum.case if_not_P[OF go(1)] if_not_P[OF go(2)]
      v and_then_simps d[symmetric] by simp
  show thesis
  proof (cases "fh_raises h Before_Finalize None")
    case True
    then have "h \<noteq> no_faults" by (auto simp: no_faults_def)
    with True show thesis using res that(1) by auto
  next
    case before: False
    show thesis
    proof (cases "fh_raises h After_Finalize None")
      case True
      then have "h \<noteq> no_faults" by (auto simp: no_faults_def)
      with True show thesis using res before c fin that(2) by auto
    next
      case False
      then show thesis using res before c fin head by (intro that(3)[of new]) (simp_all add: new_def)
    qed
  qed
qed

lemma finalized_state [simp]: "finalized jn k (p\<lparr>op_state := st\<rparr>) s = finalized jn k p s"
  by (simp add: finalized_def)

section \<open>Recovery\<close>

definition recoverable :: "journal \<Rightarrow> string \<Rightarrow> operation \<Rightarrow> storage \<Rightarrow> bool" where
  "recoverable jn k p s \<longleftrightarrow>
     (\<exists>st. st \<in> {Op_Prepared, Op_Fs_Applied, Op_Blocked} \<and> pending jn k (p\<lparr>op_state := st\<rparr>) s)"

lemma apply_then_finalize:
  assumes p: "pending jn k p s" and u: "unfinished p"
    and r: "and_then (apply_replace jn h k s) (\<lambda>_ s2. finalize_replace jn h k s2) = (r, s')"
  shows "(\<exists>head. r = Inr head \<and> finalized jn k p s' \<and> rh_version head = op_version p \<and> rh_digest head = op_digest p) \<or>
    (\<exists>g. r = Inl (Faulted g)) \<and> h \<noteq> no_faults \<and> (recoverable jn k p s' \<or> finalized jn k p s')"
proof -
  obtain y s2 where y: "apply_replace jn h k s = (y, s2)" by fastforce
  from p u y show ?thesis
  proof (cases rule: apply_replace_pending)
    case (1 e g)
    then have "recoverable jn k p s2"
      using u unfolding recoverable_def unfinished_def by (intro exI[of _ "op_state p"]) auto
    then show ?thesis using 1 r y by auto
  next
    case 2
    have u2: "unfinished (p\<lparr>op_state := Op_Fs_Applied\<rparr>)" by (simp add: unfinished_def)
    have r2: "finalize_replace jn h k s2 = (r, s')" using r y 2(1) by simp
    have a2: "\<forall>i \<in> set (op_items (p\<lparr>op_state := Op_Fs_Applied\<rparr>)). applied jn (st_tree s2) i" using 2(3) by simp
    from 2(2) u2 a2 r2 show ?thesis
    proof (cases rule: finalize_replace_pending)
      case 1
      then have "recoverable jn k p s'" using 2(2) unfolding recoverable_def by auto
      then show ?thesis using 1 by simp
    qed simp_all
  qed
qed

lemma pending_known:
  assumes "pending jn k p s"
  shows "list_all (known_digest jn s) (op_items p)"
proof -
  have "known_digest jn s i" if i: "i \<in> set (op_items p)" for i
  proof -
    have r: "layout_ok jn (op_items p)" "tree_ok (op_items p) (st_tree s)" "known jn (op_items p) (st_tree s)"
      using assms by (simp_all add: pending_def ready_def)
    then obtain d where "node_digest jn (st_tree s (it_path i)) = Some d" "d = it_base i \<or> d = it_target i"
      using i unfolding known_def by blast
    moreover from this have "digest_path jn (st_tree s) (it_path i) = Inr d"
      using digest_path_node[OF r(1,2) i] by simp
    ultimately show ?thesis by (simp add: known_digest_def)
  qed
  then show ?thesis by (simp add: list_all_iff)
qed

lemma recover_replace_outcome:
  assumes p: "recoverable jn k p s \<or> finalized jn k p s" and r: "recover_replace jn h k s = (r, s')"
  shows "(\<exists>head. r = Inr head \<and> finalized jn k p s' \<and> rh_version head = op_version p \<and> rh_digest head = op_digest p) \<or>
    (\<exists>g. r = Inl (Faulted g)) \<and> h \<noteq> no_faults \<and> (recoverable jn k p s' \<or> finalized jn k p s')"
  using p
proof
  assume f: "finalized jn k p s"
  then have l: "load_operation k s = Inr (p\<lparr>op_state := Op_Done\<rparr>)" by (simp add: finalized_def load_operation_def)
  obtain old where "map_of (st_heads s) (op_target p) = Some old" using f unfolding finalized_def by blast
  then have "r = Inr (old\<lparr>rh_version := op_version p, rh_digest := op_digest p\<rparr>)" "s' = s"
    using r unfolding recover_replace_def l by (simp_all add: completed_head_def)
  then show ?thesis using f by simp
next
  assume "recoverable jn k p s"
  then obtain st where st: "st \<in> {Op_Prepared, Op_Fs_Applied, Op_Blocked}" "pending jn k (p\<lparr>op_state := st\<rparr>) s"
    unfolding recoverable_def by blast
  note l = pending_load[OF st(2)]
  define s1 where "s1 = (if st = Op_Blocked then unblock k s else s)"
  define st1 where "st1 = (if st = Op_Blocked then Op_Prepared else st)"
  have pend: "pending jn k (p\<lparr>op_state := st1\<rparr>) s1"
    using st(2) pending_state[OF st(2), of Op_Prepared] by (simp add: s1_def st1_def unblock_def pending_def)
  have u: "unfinished (p\<lparr>op_state := st1\<rparr>)" using st(1) by (auto simp: unfinished_def st1_def)
  have "and_then (apply_replace jn h k s1) (\<lambda>_ s2. finalize_replace jn h k s2) = (r, s')"
    using r st(1) pending_known[OF st(2)] unfolding recover_replace_def l Let_def s1_def
    by (auto split: if_splits)
  from apply_then_finalize[OF pend u this] show ?thesis
    by (simp add: recoverable_def)
qed

text \<open>Any number of recoveries, each cut short by its own faults.\<close>

definition recoveries :: "journal \<Rightarrow> string \<Rightarrow> fault_hook list \<Rightarrow> storage \<Rightarrow> storage" where
  "recoveries jn k hs s = foldl (\<lambda>s h. snd (recover_replace jn h k s)) s hs"

lemma recoveries_keep:
  "recoverable jn k p s \<or> finalized jn k p s \<Longrightarrow>
     recoverable jn k p (recoveries jn k hs s) \<or> finalized jn k p (recoveries jn k hs s)"
proof (induction hs arbitrary: s)
  case (Cons h hs)
  obtain r s' where "recover_replace jn h k s = (r, s')" by fastforce
  then show ?case
    using Cons.IH[of s'] recover_replace_outcome[OF Cons.prems] by (fastforce simp: recoveries_def)
qed (simp add: recoveries_def)

section \<open>Staging files\<close>

lemma numeral_value_zeros [simp]: "numeral_value (replicate m CHR ''0'' @ ds) = numeral_value ds"
proof -
  have "foldl (\<lambda>n c. 10 * n + digit_value c) 0 (replicate m CHR ''0'') = 0"
    by (induction m) (simp_all add: digit_value_def)
  then show ?thesis by (simp add: numeral_value_def)
qed

lemma four_digits_inject: "four_digits m = four_digits n \<longleftrightarrow> m = n"
proof
  assume "four_digits m = four_digits n"
  then have "numeral_value (four_digits m) = numeral_value (four_digits n)" by simp
  then show "m = n" by (simp add: four_digits_def Let_def)
qed simp

definition staging_parts :: "string \<Rightarrow> nat \<Rightarrow> string list" where
  "staging_parts k n = [control_root, ''staging'', k, four_digits n @ ''.tmp'']"

lemma four_digits_chars: "c \<in> set (four_digits n) \<Longrightarrow> is_digit c"
  by (auto simp: four_digits_def Let_def is_digit_def less_eq_char_def dest: decimal_digits split: if_splits)

lemma id_chars:
  assumes "operation_id_ok k" "c \<in> set k"
  shows "c \<noteq> CHR ''/''" "c \<noteq> CHR ''.''" "c \<noteq> CHR 0x00" "c \<noteq> CHR 0x5C"
  using assms by (auto simp: operation_id_ok_def list_all_iff py_alnum_def Let_def)

lemma staging_parts_ok:
  assumes "operation_id_ok k"
  shows "list_all part_ok (staging_parts k n)" "''..'' \<notin> set (staging_parts k n)"
    "join_slash (staging_parts k n) = staging_relative_path k n"
    "CHR 0x00 \<notin> set (staging_relative_path k n)" "CHR 0x5C \<notin> set (staging_relative_path k n)"
proof -
  have d: "CHR ''/'' \<notin> set (four_digits n)" "CHR 0x00 \<notin> set (four_digits n)" "CHR 0x5C \<notin> set (four_digits n)"
    by (auto dest!: four_digits_chars simp: is_digit_def less_eq_char_def)
  have ne: "four_digits n \<noteq> []" by (simp add: four_digits_def Let_def)
  have k: "k \<noteq> []" "CHR ''/'' \<notin> set k" "CHR ''.'' \<notin> set k" "CHR 0x00 \<notin> set k" "CHR 0x5C \<notin> set k"
    using assms id_chars[OF assms] by (auto simp: operation_id_ok_def)
  then have "k \<noteq> ''.''" "k \<noteq> ''..''" by auto
  moreover have "four_digits n @ ''.tmp'' \<noteq> ''.''" "four_digits n @ ''.tmp'' \<noteq> ''..''"
    by (auto dest: arg_cong[of _ _ length])
  ultimately show "list_all part_ok (staging_parts k n)" "''..'' \<notin> set (staging_parts k n)"
    using k d by (simp_all add: staging_parts_def part_ok_def control_root_def)
  show "join_slash (staging_parts k n) = staging_relative_path k n"
    by (simp add: staging_parts_def staging_relative_path_def)
  show "CHR 0x00 \<notin> set (staging_relative_path k n)" "CHR 0x5C \<notin> set (staging_relative_path k n)"
    using k d by (simp_all add: staging_relative_path_def control_root_def)
qed

lemma staging_path:
  assumes "operation_id_ok k"
  shows "path_parts (staging_relative_path k n) = staging_parts k n"
    "normalize_relative_path (staging_relative_path k n) = Inr (staging_relative_path k n)"
    "set (parent_paths (staging_relative_path k n)) =
       {control_root, control_root @ ''/staging'', control_root @ ''/staging/'' @ k}"
proof -
  note ok = staging_parts_ok[OF assms, of n]
  show parts: "path_parts (staging_relative_path k n) = staging_parts k n"
    using path_parts_join[OF ok(1)] unfolding ok(3) .
  have "take 1 (staging_relative_path k n) \<noteq> ''/''" "prefix (control_root @ ''/'') (staging_relative_path k n)"
    by (simp_all add: staging_relative_path_def control_root_def)
  then show "normalize_relative_path (staging_relative_path k n) = Inr (staging_relative_path k n)"
    unfolding normalize_relative_path_iff parts ok(3)
    using ok(2,4,5) by (auto simp: staging_parts_def staging_relative_path_def)
  have "[1..<length (staging_parts k n)] = [1, 2, 3]" by (simp add: staging_parts_def upt_rec)
  then show "set (parent_paths (staging_relative_path k n)) =
       {control_root, control_root @ ''/staging'', control_root @ ''/staging/'' @ k}"
    unfolding parent_paths_def parts Let_def by (simp add: staging_parts_def)
qed

lemma staging_inject:
  assumes "operation_id_ok k"
  shows "staging_relative_path k m = staging_relative_path k n \<longleftrightarrow> m = n"
  by (simp add: staging_relative_path_def four_digits_inject)

section \<open>A new reservation is recoverable\<close>

lemma normalize_replacements_ok:
  assumes "normalize_replacements jn rs = Inr qs" "(p, payload) \<in> set qs"
  shows "normalize_resource_path p = Inr p" "int (length payload) \<le> jn_limit jn"
    "jn_canonical jn payload \<noteq> None"
proof -
  have "normalize_resource_path p = Inr p \<and> int (length payload) \<le> jn_limit jn \<and> jn_canonical jn payload \<noteq> None"
    using assms
  proof (induction jn rs arbitrary: qs rule: normalize_replacements.induct)
    case (2 jn raw b rs)
    obtain q qs' where q: "normalize_resource_path raw = Inr q" "int (length b) \<le> jn_limit jn"
      "jn_canonical jn b \<noteq> None" "normalize_replacements jn rs = Inr qs'" "qs = (q, b) # qs'"
      using 2(2) by (auto simp: bind_res_Inr_iff split: if_splits)
    have "normalize_resource_path q = Inr q"
      using normalize_relative_path_again q(1)
      by (fastforce simp: normalize_resource_path_def bind_res_Inr_iff split: if_splits)
    then show ?case using 2 q by auto
  qed simp
  then show "normalize_resource_path p = Inr p" "int (length payload) \<le> jn_limit jn"
    "jn_canonical jn payload \<noteq> None" by auto
qed

lemma build_items_ok:
  assumes "build_items jn t n rs = Inr its"
  shows "map it_path its = map fst rs" "map it_ordinal its = [n..<n + length rs]"
    "i \<in> set its \<Longrightarrow> digest_path jn t (it_path i) = Inr (it_base i) \<and>
       (it_path i, it_payload i) \<in> set rs \<and> it_target i = the (jn_canonical jn (it_payload i))"
proof -
  have "map it_path its = map fst rs \<and> map it_ordinal its = [n..<n + length rs] \<and>
    (\<forall>i \<in> set its. digest_path jn t (it_path i) = Inr (it_base i) \<and>
       (it_path i, it_payload i) \<in> set rs \<and> it_target i = the (jn_canonical jn (it_payload i)))"
    using assms
  proof (induction jn t n rs arbitrary: its rule: build_items.induct)
    case (2 jn t n p b rs)
    obtain d js where d: "digest_path jn t p = Inr d" "build_items jn t (n + 1) rs = Inr js"
      "its = \<lparr>it_ordinal = n, it_path = p, it_work = [], it_base = d,
         it_target = the (jn_canonical jn b), it_payload = b\<rparr> # js"
      using 2(2) by (auto simp: bind_res_Inr_iff)
    have "[n..<n + length ((p, b) # rs)] = n # [n + 1..<n + 1 + length rs]" by (simp add: upt_rec)
    with 2(1)[OF d(2)] d show ?case by simp
  qed simp
  then show "map it_path its = map fst rs" "map it_ordinal its = [n..<n + length rs]"
    "i \<in> set its \<Longrightarrow> digest_path jn t (it_path i) = Inr (it_base i) \<and>
       (it_path i, it_payload i) \<in> set rs \<and> it_target i = the (jn_canonical jn (it_payload i))" by blast+
qed

lemma prepare_items_ok:
  assumes "prepare_items jn t rs = Inr its"
  shows "its \<noteq> []" "distinct (map it_path its)" "distinct (map it_ordinal its)"
    "i \<in> set its \<Longrightarrow> normalize_resource_path (it_path i) = Inr (it_path i) \<and>
       int (length (it_payload i)) \<le> jn_limit jn \<and> jn_canonical jn (it_payload i) = Some (it_target i) \<and>
       digest_path jn t (it_path i) = Inr (it_base i)"
proof -
  obtain qs where qs: "rs \<noteq> []" "normalize_replacements jn rs = Inr qs" "distinct (map fst qs)"
    "build_items jn t 0 (sort_key fst qs) = Inr its"
    using assms by (auto simp: prepare_items_def bind_res_Inr_iff split: if_splits)
  note b = build_items_ok[OF qs(4)]
  have "qs \<noteq> []" using qs(1,2) by (cases rs; cases "hd rs") (auto simp: bind_res_Inr_iff split: if_splits)
  then show "its \<noteq> []" using b(1) by (metis list.map_disc_iff length_0_conv length_sort)
  have "distinct (map fst (sort_key fst qs))" using qs(3) by (simp add: distinct_map)
  then show "distinct (map it_path its)" by (simp add: b(1))
  show "distinct (map it_ordinal its)" by (simp add: b(2))
  assume i: "i \<in> set its"
  then have m: "(it_path i, it_payload i) \<in> set qs" using b(3) by simp
  show "normalize_resource_path (it_path i) = Inr (it_path i) \<and>
       int (length (it_payload i)) \<le> jn_limit jn \<and> jn_canonical jn (it_payload i) = Some (it_target i) \<and>
       digest_path jn t (it_path i) = Inr (it_base i)"
    using normalize_replacements_ok[OF qs(2) m] b(3)[OF i] by auto
qed

text \<open>No replaced path is a directory above another, and the staging area is free.\<close>

definition independent :: "operation_item list \<Rightarrow> bool" where
  "independent its \<longleftrightarrow> list_all (\<lambda>i. list_all (\<lambda>j. it_path i \<notin> set (parent_paths (it_path j))) its) its"

definition staging_free :: "string \<Rightarrow> tree \<Rightarrow> bool" where
  "staging_free k t \<longleftrightarrow> (\<forall>d \<in> {control_root, control_root @ ''/staging'', control_root @ ''/staging/'' @ k}.
      t d \<in> {None, Some Directory}) \<and> (\<forall>n. t (staging_relative_path k n) = None)"

lemma control_parts:
  assumes "q \<in> {control_root, control_root @ ''/staging'', control_root @ ''/staging/'' @ k} \<or>
    q = staging_relative_path k n" "operation_id_ok k"
  shows "hd (path_parts q) = control_root" "path_parts q \<noteq> []"
proof -
  obtain m where m: "m \<in> {1, 2, 3, 4}" "q = join_slash (take m (staging_parts k n))"
  proof -
    have j: "join_slash (take 1 (staging_parts k n)) = control_root"
      "join_slash (take 2 (staging_parts k n)) = control_root @ ''/staging''"
      "join_slash (take 3 (staging_parts k n)) = control_root @ ''/staging/'' @ k"
      "join_slash (take 4 (staging_parts k n)) = staging_relative_path k n"
      using staging_parts_ok(3)[OF assms(2), of n] by (simp_all add: staging_parts_def numeral_eq_Suc)
    from assms(1) consider "q = control_root" | "q = control_root @ ''/staging''"
      | "q = control_root @ ''/staging/'' @ k" | "q = staging_relative_path k n" by blast
    then show thesis
    proof cases
      case 1
      show thesis by (rule that[of 1]) (use 1 j(1) in simp_all)
    next
      case 2
      show thesis by (rule that[of 2]) (use 2 j(2) in simp_all)
    next
      case 3
      show thesis by (rule that[of 3]) (use 3 j(3) in simp_all)
    next
      case 4
      show thesis by (rule that[of 4]) (use 4 j(4) in simp_all)
    qed
  qed
  have "list_all part_ok (take m (staging_parts k n))"
    using staging_parts_ok(1)[OF assms(2)] by (auto simp: list_all_iff dest: in_set_takeD)
  then have "path_parts q = take m (staging_parts k n)" unfolding m(2) by (rule path_parts_join)
  then show "hd (path_parts q) = control_root" "path_parts q \<noteq> []"
    using m(1) by (auto simp: staging_parts_def)
qed

lemma parent_head:
  assumes "q \<in> set (parent_paths p)"
  shows "hd (path_parts q) = hd (path_parts p)"
proof -
  obtain m where m: "1 \<le> m" "m < length (path_parts p)" "q = join_slash (take m (path_parts p))"
    using assms by (auto simp: parent_paths_def Let_def)
  have "list_all part_ok (take m (path_parts p))"
    using path_parts_ok[of p] by (auto simp: list_all_iff dest: in_set_takeD)
  then have "path_parts q = take m (path_parts p)" unfolding m(3) by (rule path_parts_join)
  then show ?thesis using m(1,2) by simp
qed

lemma staged_ready:
  assumes its: "prepare_items jn t rs = Inr its" and k: "operation_id_ok k" and ind: "independent its"
    and free: "staging_free k t"
  shows "ready jn (map (\<lambda>i. i\<lparr>it_work := staging_relative_path k (it_ordinal i)\<rparr>) its) t"
    (is "ready jn ?its t")
proof -
  note p = prepare_items_ok[OF its]
  have path: "normalize_relative_path (it_path i) = Inr (it_path i)" "hd (path_parts (it_path i)) \<noteq> control_root"
    if "i \<in> set its" for i
    using p(4)[OF that] by (auto simp: normalize_resource_path_def bind_res_Inr_iff split: if_splits)
  let ?C = "{control_root, control_root @ ''/staging'', control_root @ ''/staging/'' @ k}"
  have work: "hd (path_parts (staging_relative_path k n)) = control_root" for n
    by (rule control_parts(1)[where n = n, OF _ k]) simp
  have top: "hd (path_parts q) = control_root" if "q \<in> ?C" for q
    by (rule control_parts(1)[OF _ k]) (use that in blast)
  have dirs: "dirs ?its \<subseteq> (\<Union>i \<in> set its. set (parent_paths (it_path i))) \<union> ?C"
    unfolding dirs_def using staging_path(3)[OF k] by auto
  have up: "hd (path_parts q) \<noteq> control_root" if "i \<in> set its" "q \<in> set (parent_paths (it_path i))" for i q
    using parent_head[OF that(2)] path(2)[OF that(1)] by simp
  have low: "staging_relative_path k n \<notin> ?C" for n
  proof -
    have "length (staging_relative_path k n) > length (control_root @ ''/staging/'' @ k)"
      by (simp add: staging_relative_path_def)
    then show ?thesis by (auto simp: control_root_def)
  qed
  have layout: "layout_ok jn ?its"
    unfolding layout_ok_def
  proof (intro conjI)
    show "\<forall>i \<in> set ?its. item_ok jn i"
      using p(4) path staging_path(2)[OF k] by (auto simp: item_ok_def)
    show "distinct (map it_path ?its)" using p(2) by (simp add: comp_def)
    show "distinct (map it_work ?its)"
      using p(3) staging_inject[OF k] by (auto simp: comp_def distinct_map inj_on_def)
    show "it_path ` set ?its \<inter> it_work ` set ?its = {}" using path(2) work by fastforce
    show "dirs ?its \<inter> (it_path ` set ?its \<union> it_work ` set ?its) = {}"
    proof -
      have "q \<notin> it_path ` set ?its" if q: "q \<in> dirs ?its" for q
      proof (cases "q \<in> ?C")
        case True
        then show ?thesis using top path(2) by fastforce
      next
        case False
        then obtain i where "i \<in> set its" "q \<in> set (parent_paths (it_path i))" using q dirs by blast
        then show ?thesis using ind by (auto simp: independent_def list_all_iff)
      qed
      moreover have "q \<notin> it_work ` set ?its" if q: "q \<in> dirs ?its" for q
      proof (cases "q \<in> ?C")
        case True
        then show ?thesis using low by auto
      next
        case False
        then obtain i where "i \<in> set its" "q \<in> set (parent_paths (it_path i))" using q dirs by blast
        then show ?thesis using up work by fastforce
      qed
      ultimately show ?thesis by blast
    qed
  qed
  have tree: "tree_ok ?its t"
    unfolding tree_ok_def
  proof (intro conjI ballI)
    fix q assume "q \<in> dirs ?its"
    then consider "q \<in> ?C" | i where "i \<in> set its" "q \<in> set (parent_paths (it_path i))" using dirs by blast
    then show "t q \<in> {None, Some Directory}"
    proof cases
      case 1
      then show ?thesis using bspec[OF conjunct1[OF free[unfolded staging_free_def]]] by simp
    next
      case (2 i)
      have "assert_safe_parents t (it_path i) = Inr ()"
        using p(4)[OF 2(1)] path(1)[OF 2(1)] by (auto simp: digest_path_def safe_path_def bind_res_Inr_iff)
      then have "(case t q of None \<Rightarrow> Inr () | Some Directory \<Rightarrow> Inr () | Some _ \<Rightarrow> Inl (Unsafe_Path q)) = Inr ()"
        using 2(2) by (simp add: assert_safe_parents_def check_all_Inr_iff)
      then show ?thesis by (auto split: option.splits node.splits)
    qed
  next
    fix i assume "i \<in> set ?its"
    then show "t (it_work i) = None \<or> (\<exists>b. t (it_work i) = Some (File b))"
      using free by (auto simp: staging_free_def)
  qed
  have "known jn ?its t"
    unfolding known_def
  proof
    fix i assume i: "i \<in> set ?its"
    then have "digest_path jn t (it_path i) = Inr (it_base i)" using p(4) by auto
    then show "node_digest jn (t (it_path i)) \<in> {Some (it_base i), Some (it_target i)}"
      using digest_path_node[OF layout tree i] by simp
  qed
  with layout tree show ?thesis by (simp add: ready_def)
qed

lemma reserve_pending:
  assumes p: "prepare_replace jn (st_tree s) target expected rs request = Inr p"
    and r: "reserve_prepared k p s = Inr (k', s1)" and new: "map_of (st_ops s) k' = None"
    and ind: "independent (op_items p)" and free: "staging_free k (st_tree s)"
  shows "k' = k" "pending jn k (staged k p) s1" "st_tree s1 = st_tree s" "op_state p = Op_Prepared"
    "op_version p = expected + 1" "op_target p = target"
proof -
  obtain its where its: "prepare_items jn (st_tree s) rs = Inr its" and pf: "op_items p = its"
    "op_digest p = resource_digest jn (map (\<lambda>i. (it_path i, it_target i)) its)" "op_state p = Op_Prepared"
    "op_version p = expected + 1" "op_target p = target"
    using p by (auto simp: prepare_replace_def bind_res_Inr_iff split: if_splits)
  have no: "Option.bind (op_request p) (operation_for_request s) = None"
  proof (rule ccontr)
    assume "Option.bind (op_request p) (operation_for_request s) \<noteq> None"
    then obtain q where q: "Option.bind (op_request p) (operation_for_request s) = Some (k', q)"
      using r by (auto simp: reserve_prepared_def split: if_splits)
    then have "(k', q) \<in> set (st_ops s)"
      by (auto simp: operation_for_request_def find_Some_iff bind_eq_Some_conv) (metis nth_mem)
    then show False using new by (metis weak_map_of_SomeI option.distinct(1))
  qed
  obtain old where old: "map_of (st_heads s) target = Some old" "rh_version old = op_expected p"
    "rh_digest old = op_base p" "k' = k" "s1 = s\<lparr>st_ops := dict_set k (staged k p) (st_ops s)\<rparr>"
    and k: "operation_id_ok k"
    using r no pf(5) by (auto simp: reserve_prepared_def split: option.splits if_splits)
  then show "k' = k" "st_tree s1 = st_tree s" by simp_all
  show "op_state p = Op_Prepared" "op_version p = expected + 1" "op_target p = target" by (rule pf)+
  show "pending jn k (staged k p) s1"
    using staged_ready[OF its k ind[unfolded pf(1)] free] prepare_items_ok(1)[OF its] k pf old
    by (simp add: pending_def staged_def comp_def)
qed

end
