(* ===== verification/StorageProperties.thy ===== *)
theory StorageProperties
  imports StorageRecovery
begin

text \<open>
  What a replacement promises on its own: a reserved one survives crashes, unknown content is kept,
  and a head moves only with verified files.
\<close>

section \<open>Replacement survives crashes\<close>

lemma replace_resource_outcome:
  assumes p: "prepare_replace jn (st_tree s) target expected rs request = Inr p"
    and r: "reserve_prepared k p s = Inr (k, s0)" and new: "map_of (st_ops s) k = None"
    and ind: "independent (op_items p)" and free: "staging_free k (st_tree s)"
    and run: "replace_resource jn h k target expected rs request s = (y, s1)"
  shows "recoverable jn k (staged k p) s1 \<or> finalized jn k (staged k p) s1"
    "(\<exists>head. y = Inr head \<and> rh_version head = expected + 1 \<and> finalized jn k (staged k p) s1) \<or>
     (\<exists>g. y = Inl (Faulted g)) \<and> h \<noteq> no_faults"
proof -
  note q = reserve_pending[OF p r new ind free]
  have u: "unfinished (staged k p)" using q(4) by (simp add: unfinished_def staged_def)
  have rec: "recoverable jn k (staged k p) s0"
    using q(2,4) unfolding recoverable_def
    by (intro exI[of _ "op_state (staged k p)"]) (simp, simp add: staged_def)
  have "(recoverable jn k (staged k p) s1 \<or> finalized jn k (staged k p) s1) \<and>
    ((\<exists>head. y = Inr head \<and> rh_version head = expected + 1 \<and> finalized jn k (staged k p) s1) \<or>
     (\<exists>g. y = Inl (Faulted g)) \<and> h \<noteq> no_faults)"
  proof (cases "fh_raises h After_Reserve None")
    case True
    then have "h \<noteq> no_faults" by (auto simp: no_faults_def)
    then show ?thesis using True run p r rec by (auto simp: replace_resource_def reserve_replace_def)
  next
    case False
    then have "and_then (apply_replace jn h k s0) (\<lambda>_ s2. finalize_replace jn h k s2) = (y, s1)"
      using run p r by (simp add: replace_resource_def reserve_replace_def)
    from apply_then_finalize[OF q(2) u this] show ?thesis
      using q(5) by (auto simp: staged_def)
  qed
  then show "recoverable jn k (staged k p) s1 \<or> finalized jn k (staged k p) s1"
    "(\<exists>head. y = Inr head \<and> rh_version head = expected + 1 \<and> finalized jn k (staged k p) s1) \<or>
     (\<exists>g. y = Inl (Faulted g)) \<and> h \<noteq> no_faults" by blast+
qed

text \<open>C12. A replacement reserved under a new operation id is never lost, when none of its paths is a
  directory above another and the staging area of its id is free (nothing but directories on the way,
  no file of the operation's id): whatever faults end the call, and however many recoveries end the
  same way, one that is left alone commits the new generation, with every file holding the content of
  its replacement. Reservation does not check that the paths are independent: a replacement of a file
  and of a file below it is reserved although it can never be applied.\<close>

theorem reserved_replacement_completes:
  assumes "prepare_replace jn (st_tree s) target expected rs request = Inr p"
    "reserve_prepared k p s = Inr (k, s0)" "map_of (st_ops s) k = None"
    "independent (op_items p)" "staging_free k (st_tree s)"
  shows "\<exists>head s2. recover_replace jn no_faults k
      (recoveries jn k hs (snd (replace_resource jn h k target expected rs request s))) = (Inr head, s2) \<and>
    rh_version head = expected + 1 \<and> rh_digest head = op_digest p \<and>
    (\<forall>i \<in> set (op_items p). node_digest jn (st_tree s2 (it_path i)) = Some (it_target i)) \<and>
    map_option rh_version (map_of (st_heads s2) target) = Some (expected + 1)"
proof -
  obtain y s1 where run: "replace_resource jn h k target expected rs request s = (y, s1)" by fastforce
  have rec: "recoverable jn k (staged k p) (recoveries jn k hs s1) \<or>
      finalized jn k (staged k p) (recoveries jn k hs s1)"
    by (rule recoveries_keep[OF replace_resource_outcome(1)[OF assms run]])
  obtain z s2 where z: "recover_replace jn no_faults k (recoveries jn k hs s1) = (z, s2)" by fastforce
  obtain head where head: "z = Inr head" "finalized jn k (staged k p) s2"
    "rh_version head = op_version (staged k p)" "rh_digest head = op_digest (staged k p)"
    using recover_replace_outcome[OF rec z] by blast
  note q = reserve_pending[OF assms]
  have "\<forall>i \<in> set (op_items p). node_digest jn (st_tree s2 (it_path i)) = Some (it_target i)"
    using head(2) by (simp add: finalized_def staged_def applied_def)
  moreover have "map_option rh_version (map_of (st_heads s2) target) = Some (expected + 1)"
    using head(2) q(5,6) unfolding finalized_def by (auto simp: staged_def)
  ultimately show ?thesis using run z head q(5) by (simp add: staged_def)
qed

lemma apply_replace_survives:
  assumes "load_operation k s = Inr p"
  shows "survives jn (op_items p) (st_tree s) (st_tree (snd (apply_replace jn h k s)))"
proof (cases "op_state p \<in> {Op_Prepared, Op_Fs_Applied}")
  case False
  then have "snd (apply_replace jn h k s) = s" using assms by (auto simp: apply_replace_def)
  then show ?thesis by (simp add: survives_refl)
next
  case True
  obtain y s1 where y: "apply_items jn h k (op_items p) s = (y, s1)" by fastforce
  have "st_tree (snd (apply_replace jn h k s)) = st_tree s1"
    using assms True y
    by (cases y) (auto simp: apply_replace_def advance_operation_def put_operation_def and_then_def
        split: if_splits sum.splits prod.splits option.splits)
  then show ?thesis using apply_items_survive[OF y] by simp
qed

lemma verify_items_tree: "st_tree (snd (verify_items jn k its s)) = st_tree s"
proof (induction its arbitrary: s)
  case (Cons i its)
  obtain x s1 where x: "operation_item_digest jn k i s = (x, s1)" by fastforce
  then have "st_tree s1 = st_tree s" by (cases rule: operation_item_digest_cases) auto
  then show ?case using x Cons.IH[of s1]
    by (cases x; cases "verify_items jn k its s1"; cases "fst (verify_items jn k its s1)") auto
qed simp

lemma finalize_replace_tree: "st_tree (snd (finalize_replace jn h k s)) = st_tree s"
proof (cases "load_operation k s")
  case (Inr p)
  obtain x s1 where v: "verify_items jn k (op_items p) s = (x, s1)" by fastforce
  then have "st_tree s1 = st_tree s" using verify_items_tree[of jn k "op_items p" s] by simp
  then show ?thesis using Inr v
    by (cases x) (auto simp: finalize_replace_def commit_replacement_def advance_operation_def
        put_operation_def and_then_def split: sum.splits option.splits if_splits prod.splits)
qed (simp add: finalize_replace_def)

lemma unblock_load:
  assumes "load_operation k s = Inr p"
  obtains st where "load_operation k (unblock k s) = Inr (p\<lparr>op_state := st\<rparr>)" "st_tree (unblock k s) = st_tree s"
proof -
  obtain q where q: "operation_id_ok k" "map_of (st_ops s) k = Some q" "op_items q \<noteq> []"
    "load_items (op_items q) = Inr (op_items p)" "p = q\<lparr>op_items := op_items p\<rparr>"
    using assms by (auto simp: load_operation_def bind_res_Inr_iff split: if_splits option.splits)
  show thesis
  proof (cases "op_state q = Op_Blocked")
    case True
    then have "load_operation k (unblock k s) = Inr (q\<lparr>op_state := Op_Prepared, op_items := op_items p\<rparr>)"
      using q(1-4) by (simp add: unblock_def load_operation_def put_operation_def)
    moreover have "q\<lparr>op_state := Op_Prepared, op_items := op_items p\<rparr> = p\<lparr>op_state := Op_Prepared\<rparr>"
      by (subst (2) q(5)) simp
    ultimately show thesis using that[of Op_Prepared] True q(2) by (simp add: unblock_def put_operation_def)
  next
    case False
    then have "unblock k s = s" using q(2) by (simp add: unblock_def)
    then show thesis using that[of "op_state p"] assms by simp
  qed
qed

lemma recover_replace_survives:
  assumes "load_operation k s = Inr p"
  shows "survives jn (op_items p) (st_tree s) (st_tree (snd (recover_replace jn h k s)))"
proof -
  have both: "survives jn (op_items p) (st_tree t)
      (st_tree (snd (and_then (apply_replace jn h k t) (\<lambda>_ u. finalize_replace jn h k u))))"
    if load: "load_operation k t = Inr (p\<lparr>op_state := st\<rparr>)" for t st
  proof -
    obtain x u where x: "apply_replace jn h k t = (x, u)" by fastforce
    have "survives jn (op_items p) (st_tree t) (st_tree u)"
      using apply_replace_survives[OF load, of jn h] x by simp
    then show ?thesis using x by (cases x) (simp_all add: finalize_replace_tree)
  qed
  obtain st where st: "load_operation k (unblock k s) = Inr (p\<lparr>op_state := st\<rparr>)" "st_tree (unblock k s) = st_tree s"
    by (rule unblock_load[OF assms])
  have same: "load_operation k s = Inr (p\<lparr>op_state := op_state p\<rparr>)" using assms by simp
  consider "snd (recover_replace jn h k s) = s"
    | "recover_replace jn h k s = and_then (apply_replace jn h k s) (\<lambda>_ u. finalize_replace jn h k u)"
    | "recover_replace jn h k s = and_then (apply_replace jn h k (unblock k s)) (\<lambda>_ u. finalize_replace jn h k u)"
    using assms by (force simp: recover_replace_def Let_def split: if_splits)
  then show ?thesis
    by cases (simp_all add: survives_refl both[OF same] both[OF st(1), unfolded st(2)])
qed

text \<open>C15. Neither applying nor recovering ever overwrites content it does not know: whatever faults
  occur and whatever state the operation is in, a file outside its staging files survives, unless it
  held exactly the base of an item that replaces it.\<close>

theorem unknown_content_survives:
  assumes "load_operation k s = Inr p" "st_tree s q = Some (File b)"
    "\<forall>i \<in> set (op_items p). normalize_relative_path (it_work i) \<noteq> Inr q"
    "s' \<in> {snd (apply_replace jn h k s), snd (recover_replace jn h k s)}"
  shows "st_tree s' q = Some (File b) \<or>
    (\<exists>i \<in> set (op_items p). normalize_relative_path (it_path i) = Inr q \<and> jn_canonical jn b = Some (it_base i))"
proof -
  have "survives jn (op_items p) (st_tree s) (st_tree s')"
    using assms(4) apply_replace_survives[OF assms(1), of jn h] recover_replace_survives[OF assms(1), of jn h]
    by blast
  then show ?thesis using assms(2,3) unfolding survives_def by blast
qed

lemma verify_items_Inr:
  "verify_items jn k its s = (Inr ds, s') \<Longrightarrow> s' = s \<and>
     (\<forall>i \<in> set its. digest_path jn (st_tree s) (it_path i) = Inr (it_target i))"
proof (induction its arbitrary: ds)
  case (Cons i its)
  obtain d where d: "operation_item_digest jn k i s = (Inr d, s)" "digest_path jn (st_tree s) (it_path i) = Inr d"
  proof -
    obtain x s1 where x: "operation_item_digest jn k i s = (x, s1)" by fastforce
    then show thesis
    proof (cases rule: operation_item_digest_cases)
      case (1 d)
      then show thesis using x that by simp
    next
      case (2 e)
      then show thesis using Cons.prems x by simp
    qed
  qed
  have "d = it_target i" using Cons.prems d(1) by (auto split: if_splits)
  moreover obtain es where "verify_items jn k its s = (Inr es, s')"
    using Cons.prems d(1) by (auto simp: and_then_Inr split: if_splits)
  ultimately show ?case using Cons.IH d(2) by auto
qed simp

text \<open>A head moves only after every file of the operation was read back with its new digest, and
  it moves together with the end of the operation.\<close>

theorem finalized_files_are_verified:
  assumes "finalize_replace jn h k s = (Inr head, s')" "load_operation k s = Inr p" "op_state p \<noteq> Op_Done"
  shows "st_tree s' = st_tree s \<and> (\<forall>i \<in> set (op_items p). digest_path jn (st_tree s) (it_path i) = Inr (it_target i)) \<and>
    map_option op_state (map_of (st_ops s') k) = Some Op_Done \<and> map_of (st_heads s') (op_target p) = Some head \<and>
    rh_version head = op_version p \<and> map_option rh_version (map_of (st_heads s) (op_target p)) = Some (op_expected p)"
proof -
  have nb: "op_state p \<noteq> Op_Blocked" using assms by (auto simp: finalize_replace_def)
  obtain actual s1 where v: "verify_items jn k (op_items p) s = (Inr actual, s1)"
    and rest: "(if resource_digest jn actual \<noteq> op_digest p then (Inl (Operation_Blocked k), mark_blocked k s1)
         else and_then (fault h Before_Finalize None s1) (\<lambda>_ s2.
         case commit_replacement k p s2 of
           Inl e \<Rightarrow> (Inl e, s2)
         | Inr s3 \<Rightarrow> and_then (fault h After_Finalize None s3) (\<lambda>_ s4.
             case map_of (st_heads s4) (op_target p) of
               None \<Rightarrow> (Inl (Digest_Mismatch ''Finalized resource head is missing.''), s4)
             | Some old \<Rightarrow> (Inr old, s4)))) = (Inr head, s')"
    using assms nb by (auto simp: finalize_replace_def and_then_Inr)
  note v1 = verify_items_Inr[OF v]
  have ok: "\<not> resource_digest jn actual \<noteq> op_digest p" using rest by (auto split: if_splits)
  have f: "\<not> fh_raises h Before_Finalize None" using rest by (auto split: if_splits)
  have s1: "s1 = s" using v1 by simp
  obtain s3 where c: "commit_replacement k p s = Inr s3"
    using rest[unfolded if_not_P[OF ok] s1] f by (cases "commit_replacement k p s") simp_all
  have g: "\<not> fh_raises h After_Finalize None" using rest[unfolded if_not_P[OF ok] s1] f c by auto
  have out: "map_of (st_heads s3) (op_target p) = Some head" "s' = s3"
    using rest[unfolded if_not_P[OF ok] s1] f c g by (auto split: option.splits)
  show ?thesis
    using c out v1
    by (auto simp: commit_replacement_def advance_operation_def put_operation_def
        split: option.splits if_splits)
qed

section \<open>A concrete workspace\<close>

text \<open>Canonical JSON is its own digest here.\<close>

definition plain_journal :: journal where
  "plain_journal = \<lparr>jn_canonical = Some, jn_missing = ''missing'',
     jn_composite = (\<lambda>ds. concat (map (\<lambda>(p, d). p @ ''='' @ d @ '';'') ds)), jn_limit = 100\<rparr>"

definition answers :: resource_target where
  "answers = \<lparr>rt_kind = ''answers'', rt_project = ''p'', rt_key = ''k''\<rparr>"

text \<open>A workspace with one head, the replacement of its file, and a crash in the middle.\<close>

definition bootstrapped :: storage where
  "bootstrapped = \<lparr>st_tree = Map.empty,
     st_heads = [(answers, \<lparr>rh_path = ''a.json'', rh_version = 0, rh_digest = ''a.json=missing;''\<rparr>)], st_ops = []\<rparr>"

definition first_operation :: operation where
  "first_operation = \<lparr>op_target = answers, op_expected = 0, op_version = 1, op_base = ''a.json=missing;'',
     op_digest = ''a.json=1;'', op_request = None, op_state = Op_Prepared,
     op_items = [\<lparr>it_ordinal = 0, it_path = ''a.json'', it_work = [], it_base = ''missing'',
       it_target = ''1'', it_payload = ''1''\<rparr>]\<rparr>"

definition crash_at :: "stage \<Rightarrow> fault_hook" where
  "crash_at g = \<lparr>fh_raises = (\<lambda>f n. f = g), fh_torn = (\<lambda>n. None)\<rparr>"

definition reserved :: storage where
  "reserved = put_operation ''one'' (staged ''one'' first_operation) bootstrapped"

lemma first_operation_prepared:
  "prepare_replace plain_journal (st_tree bootstrapped) answers 0 [(''a.json'', ''1'')] None = Inr first_operation"
  by code_simp

lemma first_operation_reserved: "reserve_prepared ''one'' first_operation bootstrapped = Inr (''one'', reserved)"
  by (simp add: reserve_prepared_def operation_id_ok_def py_alnum_def bootstrapped_def reserved_def first_operation_def active_operation_of_def
      put_operation_def answers_def)

lemma reserved_loads: "load_operation ''one'' reserved = Inr (staged ''one'' first_operation)"
proof -
  have "load_items (op_items (staged ''one'' first_operation)) = Inr (op_items (staged ''one'' first_operation))"
    by code_simp
  moreover have "op_items (staged ''one'' first_operation) \<noteq> []" by (simp add: staged_def first_operation_def)
  ultimately show ?thesis
    by (simp add: load_operation_def reserved_def put_operation_def operation_id_ok_def py_alnum_def bootstrapped_def)
qed

theorem reserved_replacement_completes_witness:
  "\<exists>head s2. recover_replace plain_journal no_faults ''one''
      (recoveries plain_journal ''one'' [crash_at Before_Finalize]
        (snd (replace_resource plain_journal (crash_at After_Replace) ''one'' answers 0 [(''a.json'', ''1'')] None
          bootstrapped))) = (Inr head, s2) \<and> rh_version head = 1 \<and> rh_digest head = ''a.json=1;''"
proof -
  have "independent (op_items first_operation)" by code_simp
  moreover have "staging_free ''one'' (st_tree bootstrapped)" "map_of (st_ops bootstrapped) ''one'' = None"
    by (simp_all add: staging_free_def bootstrapped_def)
  ultimately show ?thesis
    using reserved_replacement_completes[OF first_operation_prepared first_operation_reserved,
        of "[crash_at Before_Finalize]" "crash_at After_Replace"]
    by (auto simp: first_operation_def)
qed

definition foreign_files :: storage where
  "foreign_files = reserved\<lparr>st_tree := [''b.json'' \<mapsto> File ''x'']\<rparr>"

theorem unknown_content_survives_witness:
  "st_tree (snd (apply_replace plain_journal no_faults ''one'' foreign_files)) ''b.json'' = Some (File ''x'') \<and>
   st_tree (snd (recover_replace plain_journal (crash_at After_Replace) ''one'' foreign_files)) ''b.json'' = Some (File ''x'')"
proof -
  have load: "load_operation ''one'' foreign_files = Inr (staged ''one'' first_operation)"
  proof -
    have "load_operation ''one'' foreign_files = load_operation ''one'' reserved"
      by (simp add: load_operation_def foreign_files_def)
    then show ?thesis using reserved_loads by simp
  qed
  have paths: "normalize_relative_path (it_work i) \<noteq> Inr ''b.json''" "normalize_relative_path (it_path i) \<noteq> Inr ''b.json''"
    if "i \<in> set (op_items (staged ''one'' first_operation))" for i
  proof -
    have "list_all (\<lambda>i. normalize_relative_path (it_work i) \<noteq> Inr ''b.json'' \<and>
        normalize_relative_path (it_path i) \<noteq> Inr ''b.json'') (op_items (staged ''one'' first_operation))"
      by code_simp
    then show "normalize_relative_path (it_work i) \<noteq> Inr ''b.json''" "normalize_relative_path (it_path i) \<noteq> Inr ''b.json''"
      using that by (auto simp: list_all_iff)
  qed
  have at: "st_tree foreign_files ''b.json'' = Some (File ''x'')" by (simp add: foreign_files_def)
  have keep: "st_tree s' ''b.json'' = Some (File ''x'')"
    if "s' \<in> {snd (apply_replace plain_journal h ''one'' foreign_files),
      snd (recover_replace plain_journal h ''one'' foreign_files)}" for h s'
    using unknown_content_survives[OF load at _ that] paths by blast
  show ?thesis using keep[of _ no_faults] keep[of _ "crash_at After_Replace"] by blast
qed

definition applied_files :: storage where
  "applied_files = snd (apply_replace plain_journal no_faults ''one'' reserved)"

theorem finalized_files_are_verified_witness:
  "\<exists>head s' p. finalize_replace plain_journal no_faults ''one'' applied_files = (Inr head, s') \<and>
     load_operation ''one'' applied_files = Inr p \<and> map_of (st_heads s') (op_target p) = Some head"
proof -
  have "\<not> isl (fst (finalize_replace plain_journal no_faults ''one'' applied_files))"
    by code_simp
  then obtain head s' where run: "finalize_replace plain_journal no_faults ''one'' applied_files = (Inr head, s')"
    by (cases "finalize_replace plain_journal no_faults ''one'' applied_files"; cases "fst (finalize_replace plain_journal no_faults ''one'' applied_files)") auto
  have "case load_operation ''one'' applied_files of Inl e \<Rightarrow> False | Inr p \<Rightarrow> op_state p = Op_Fs_Applied"
    by code_simp
  then obtain p where p: "load_operation ''one'' applied_files = Inr p" "op_state p \<noteq> Op_Done"
    by (auto split: sum.splits)
  show ?thesis using finalized_files_are_verified[OF run p] run p by blast
qed

text \<open>Reservation accepts a replacement of a file and of a file below it, both absent; neither the call
  nor a recovery then applies it, although nothing faults.\<close>

definition nested_files :: "(string \<times> string) list" where
  "nested_files = [(''a.json'', ''1''), (''a.json/b.json'', ''2'')]"

definition nested_start :: storage where
  "nested_start = \<lparr>st_tree = Map.empty, st_heads = [(answers, \<lparr>rh_path = ''a.json'', rh_version = 0,
     rh_digest = ''a.json=missing;a.json/b.json=missing;''\<rparr>)], st_ops = []\<rparr>"

theorem nested_replacement_is_lost:
  "fst (reserve_replace plain_journal no_faults ''one'' answers 0 nested_files None nested_start) = Inr ''one'' \<and>
   (let r = replace_resource plain_journal no_faults ''one'' answers 0 nested_files None nested_start in
      isl (fst r) \<and> isl (fst (recover_replace plain_journal no_faults ''one'' (snd r))))"
  by code_simp

end
