(* ===== verification/StorageGenerations.thy ===== *)
theory StorageGenerations
  imports StorageProperties
begin

text \<open>
  The workspace under any sequence of operations, faults, recoveries and foreign changes of files:
  the generations of a resource are unique and its head only moves forward; and what an abort that
  races with the files does.
\<close>

section \<open>Generations\<close>

text \<open>
  What may happen to a workspace: the operations of any process, under any faults, changes of files
  by anyone else, and the abort of an operation that is still prepared
  (\<open>core/semantic_resources.py\<close>).
\<close>

datatype storage_command =
    Reserve string resource_target int "(string \<times> string) list" "string option"
  | Apply string
  | Finalize string
  | Recover_Op string
  | Bootstrap resource_target string int "string list option" "string option" tree
  | Check_Reversible string
  | Abort_Prepared string
  | Change_Files tree

fun storage_step :: "journal \<Rightarrow> storage \<Rightarrow> fault_hook \<times> storage_command \<Rightarrow> storage" where
  "storage_step jn s (h, Reserve k t v rs q) = snd (reserve_replace jn h k t v rs q s)"
| "storage_step jn s (h, Apply k) = snd (apply_replace jn h k s)"
| "storage_step jn s (h, Finalize k) = snd (finalize_replace jn h k s)"
| "storage_step jn s (h, Recover_Op k) = snd (recover_replace jn h k s)"
| "storage_step jn s (h, Bootstrap t p v ps d tr) =
     (case bootstrap_head jn t p v ps d tr s of Inl e \<Rightarrow> s | Inr (_, s1) \<Rightarrow> s1)"
| "storage_step jn s (h, Check_Reversible k) = snd (replacement_is_reversible jn k s)"
| "storage_step jn s (h, Abort_Prepared k) = abort_prepared k s"
| "storage_step jn s (h, Change_Files t) = s\<lparr>st_tree := t\<rparr>"

definition storage_run :: "journal \<Rightarrow> (fault_hook \<times> storage_command) list \<Rightarrow> storage \<Rightarrow> storage" where
  "storage_run jn cs s = foldl (storage_step jn) s cs"

definition empty_storage :: "tree \<Rightarrow> storage" where
  "empty_storage t = \<lparr>st_tree = t, st_heads = [], st_ops = []\<rparr>"

text \<open>
  Every ended operation made its own generation: it is not above the head, and two of a resource
  differ.
\<close>

definition op_at :: "storage \<Rightarrow> string \<Rightarrow> operation option" where
  "op_at s k = map_of (st_ops s) k"

definition made :: "storage \<Rightarrow> string \<Rightarrow> operation \<Rightarrow> bool" where
  "made s k p \<longleftrightarrow> op_at s k = Some p \<and> op_state p = Op_Done"

definition generations_ok :: "storage \<Rightarrow> bool" where
  "generations_ok s \<longleftrightarrow> (\<forall>k p. op_at s k = Some p \<longrightarrow> op_version p = op_expected p + 1) \<and>
     (\<forall>k p. made s k p \<longrightarrow> (\<exists>old. map_of (st_heads s) (op_target p) = Some old \<and> op_version p \<le> rh_version old)) \<and>
     (\<forall>k p i q. made s k p \<longrightarrow> made s i q \<longrightarrow> op_target p = op_target q \<longrightarrow> op_version p = op_version q \<longrightarrow> k = i)"

text \<open>A step that moves no head and ends no operation.\<close>

definition same_op :: "operation \<Rightarrow> operation \<Rightarrow> bool" where
  "same_op p q \<longleftrightarrow> op_target q = op_target p \<and> op_version q = op_version p \<and> op_expected q = op_expected p \<and>
     (op_state q = Op_Done \<longleftrightarrow> op_state p = Op_Done)"

definition calm :: "storage \<Rightarrow> storage \<Rightarrow> bool" where
  "calm s s' \<longleftrightarrow> st_heads s' = st_heads s \<and>
     (\<forall>k. rel_option same_op (op_at s k) (op_at s' k))"

lemma same_op_refl [simp]: "same_op p p"
  by (simp add: same_op_def)

lemma calm_refl [simp]: "calm s s"
  by (simp add: calm_def option.rel_refl)

lemma same_op_trans: "same_op p q \<Longrightarrow> same_op q r \<Longrightarrow> same_op p r"
  by (simp add: same_op_def)

lemma calm_trans:
  assumes "calm a b" "calm b c"
  shows "calm a c"
  unfolding calm_def
proof (intro conjI allI)
  show "st_heads c = st_heads a" using assms by (simp add: calm_def)
  show "rel_option same_op (op_at a k) (op_at c k)" for k
  proof -
    have "rel_option same_op (op_at a k) (op_at b k)" "rel_option same_op (op_at b k) (op_at c k)"
      using assms by (simp_all add: calm_def)
    then show ?thesis
      by (cases "op_at a k"; cases "op_at b k"; cases "op_at c k") (auto dest: same_op_trans)
  qed
qed

lemma calm_put:
  assumes "map_of (st_ops s) k = Some p" "op_state p \<noteq> Op_Done" "st \<noteq> Op_Done"
  shows "calm s (put_operation k (p\<lparr>op_state := st\<rparr>) s)"
  using assms by (auto simp: calm_def op_at_def put_operation_def same_op_def option.rel_refl)

lemma calm_blocked: "calm s (mark_blocked k s)"
  using calm_put[of s k _ Op_Blocked] by (auto simp: mark_blocked_def split: option.splits)

lemma calm_tree: "st_heads s' = st_heads s \<Longrightarrow> st_ops s' = st_ops s \<Longrightarrow> calm s s'"
  by (simp add: calm_def op_at_def option.rel_refl)

definition heads_le :: "storage \<Rightarrow> storage \<Rightarrow> bool" where
  "heads_le s s' \<longleftrightarrow> (\<forall>t old. map_of (st_heads s) t = Some old \<longrightarrow> (\<exists>new. map_of (st_heads s') t = Some new \<and>
     rh_version old \<le> rh_version new \<and> (rh_version new = rh_version old \<longrightarrow> new = old)))"

abbreviation sound :: "storage \<Rightarrow> storage \<Rightarrow> bool" where
  "sound s s' \<equiv> (generations_ok s \<longrightarrow> generations_ok s' \<and> heads_le s s')"

lemma heads_leE:
  assumes "heads_le s s'" "map_of (st_heads s) t = Some old"
  obtains new where "map_of (st_heads s') t = Some new" "rh_version old \<le> rh_version new"
    "rh_version new = rh_version old \<longrightarrow> new = old"
  using assms unfolding heads_le_def by blast

lemma heads_le_refl [simp]: "heads_le s s"
  by (simp add: heads_le_def)

lemma heads_le_trans:
  assumes "heads_le a b" "heads_le b c"
  shows "heads_le a c"
  unfolding heads_le_def
proof (intro allI impI)
  fix t old assume a: "map_of (st_heads a) t = Some old"
  obtain mid where mid: "map_of (st_heads b) t = Some mid" "rh_version old \<le> rh_version mid"
    "rh_version mid = rh_version old \<longrightarrow> mid = old" by (rule heads_leE[OF assms(1) a])
  obtain new where "map_of (st_heads c) t = Some new" "rh_version mid \<le> rh_version new"
    "rh_version new = rh_version mid \<longrightarrow> new = mid" by (rule heads_leE[OF assms(2) mid(1)])
  then show "\<exists>new. map_of (st_heads c) t = Some new \<and> rh_version old \<le> rh_version new \<and>
      (rh_version new = rh_version old \<longrightarrow> new = old)" using mid by auto
qed

lemma sound_trans: "sound a b \<Longrightarrow> sound b c \<Longrightarrow> sound a c"
  using heads_le_trans by blast

lemma calm_at:
  assumes "calm s s'" "op_at s' k = Some q"
  obtains p where "op_at s k = Some p" "same_op p q"
  using assms unfolding calm_def by (auto simp: option_rel_Some2 dest!: spec[of _ k])

lemma calm_made:
  assumes "calm s s'" "made s' k q"
  obtains p where "made s k p" "same_op p q"
proof -
  from assms(2) have q: "op_at s' k = Some q" "op_state q = Op_Done" by (simp_all add: made_def)
  obtain p where "op_at s k = Some p" "same_op p q" by (rule calm_at[OF assms(1) q(1)])
  with q(2) that show thesis by (simp add: made_def same_op_def)
qed

lemma generations_okD:
  assumes "generations_ok s"
  shows "op_at s k = Some p \<Longrightarrow> op_version p = op_expected p + 1"
    "made s k p \<Longrightarrow> \<exists>old. map_of (st_heads s) (op_target p) = Some old \<and> op_version p \<le> rh_version old"
    "made s k p \<Longrightarrow> made s i q \<Longrightarrow> op_target p = op_target q \<Longrightarrow> op_version p = op_version q \<Longrightarrow> k = i"
  using assms unfolding generations_ok_def by blast+

lemma calm_sound:
  assumes c: "calm s s'"
  shows "sound s s'"
proof
  assume ok: "generations_ok s"
  have heads: "st_heads s' = st_heads s" using c by (simp add: calm_def)
  have "generations_ok s'"
    unfolding generations_ok_def
  proof (intro conjI allI impI)
    fix k q assume q: "op_at s' k = Some q"
    obtain p where "op_at s k = Some p" "same_op p q" by (rule calm_at[OF c q])
    then show "op_version q = op_expected q + 1" using generations_okD(1)[OF ok] by (simp add: same_op_def)
  next
    fix k q assume q: "made s' k q"
    obtain p where "made s k p" "same_op p q" by (rule calm_made[OF c q])
    then show "\<exists>old. map_of (st_heads s') (op_target q) = Some old \<and> op_version q \<le> rh_version old"
      using generations_okD(2)[OF ok] unfolding heads by (simp add: same_op_def)
  next
    fix k q i r assume m: "made s' k q" "made s' i r" "op_target q = op_target r" "op_version q = op_version r"
    obtain p where p: "made s k p" "same_op p q" by (rule calm_made[OF c m(1)])
    obtain o' where o: "made s i o'" "same_op o' r" by (rule calm_made[OF c m(2)])
    show "k = i" using generations_okD(3)[OF ok p(1) o(1)] p(2) o(2) m(3,4) by (simp add: same_op_def)
  qed
  then show "generations_ok s' \<and> heads_le s s'" using heads by (simp add: heads_le_def)
qed

lemma commit_sound:
  assumes at: "map_of (st_ops s) k = Some p" and c: "commit_replacement k p s = Inr s'"
  shows "sound s s'"
proof
  assume ok: "generations_ok s"
  obtain old where old: "map_of (st_heads s) (op_target p) = Some old" "rh_version old = op_expected p"
    and st: "op_state p \<noteq> Op_Done"
    and s': "s' = put_operation k (p\<lparr>op_state := Op_Done\<rparr>) (s\<lparr>st_heads := dict_set (op_target p)
         (old\<lparr>rh_version := op_version p, rh_digest := op_digest p\<rparr>) (st_heads s)\<rparr>)"
    using c at by (auto simp: commit_replacement_def advance_operation_def split: option.splits if_splits)
  have v: "op_version p = op_expected p + 1" using generations_okD(1)[OF ok] at by (simp add: op_at_def)
  let ?p = "p\<lparr>op_state := Op_Done\<rparr>"
  have ops: "op_at s' i = (if i = k then Some ?p else op_at s i)" for i
    by (simp add: op_at_def s' put_operation_def)
  have heads: "map_of (st_heads s') t = (if t = op_target p
      then Some (old\<lparr>rh_version := op_version p, rh_digest := op_digest p\<rparr>) else map_of (st_heads s) t)" for t
    by (simp add: s' put_operation_def)
  have was: "made s i q" if "made s' i q" "i \<noteq> k" for i q using that by (simp add: made_def ops)
  have below: "op_version q < op_version p" if "made s' i q" "i \<noteq> k" "op_target q = op_target p" for i q
    using generations_okD(2)[OF ok was[OF that(1,2)]] old v that(3) by auto
  have mine: "q = ?p" if "made s' k q" for q using that by (simp add: made_def ops)
  have "generations_ok s'"
    unfolding generations_ok_def
  proof (intro conjI allI impI)
    fix i q assume "op_at s' i = Some q"
    then show "op_version q = op_expected q + 1"
      using v generations_okD(1)[OF ok] by (auto simp: ops split: if_splits)
  next
    fix i q assume q: "made s' i q"
    show "\<exists>old. map_of (st_heads s') (op_target q) = Some old \<and> op_version q \<le> rh_version old"
    proof (cases "i = k")
      case True
      then have "q = ?p" using q mine by blast
      then show ?thesis by (simp add: heads)
    next
      case False
      then show ?thesis using generations_okD(2)[OF ok was[OF q False]] below[OF q False] by (auto simp: heads)
    qed
  next
    fix i q n r assume m: "made s' i q" "made s' n r" "op_target q = op_target r" "op_version q = op_version r"
    consider "i = k" "n = k" | "i = k" "n \<noteq> k" | "i \<noteq> k" "n = k" | "i \<noteq> k" "n \<noteq> k" by blast
    then show "i = n"
    proof cases
      case 2
      then show ?thesis using mine m below[OF m(2)] by fastforce
    next
      case 3
      then show ?thesis using mine m below[OF m(1)] by fastforce
    next
      case 4
      show ?thesis by (rule generations_okD(3)[OF ok was[OF m(1) 4(1)] was[OF m(2) 4(2)] m(3,4)])
    qed simp
  qed
  moreover have "heads_le s s'" using old v by (auto simp: heads_le_def heads)
  ultimately show "generations_ok s' \<and> heads_le s s'" by blast
qed

lemma new_op_sound:
  assumes new: "map_of (st_ops s) k = None" and p: "op_version p = op_expected p + 1" "op_state p \<noteq> Op_Done"
  shows "sound s (s\<lparr>st_ops := dict_set k p (st_ops s)\<rparr>)" (is "sound s ?s")
proof
  assume ok: "generations_ok s"
  have ops: "op_at ?s i = (if i = k then Some p else op_at s i)" for i by (simp add: op_at_def)
  have made: "made ?s i q \<longleftrightarrow> made s i q" for i q
    using p(2) new by (auto simp: made_def ops) (simp add: op_at_def)
  have "generations_ok ?s"
    unfolding generations_ok_def made
    using generations_okD[OF ok] p(1) by (auto simp: ops split: if_splits)
  then show "generations_ok ?s \<and> heads_le s ?s" by (simp add: heads_le_def)
qed

lemma new_head_sound:
  assumes new: "map_of (st_heads s) t = None"
  shows "sound s (s\<lparr>st_heads := dict_set t head (st_heads s)\<rparr>)" (is "sound s ?s")
proof
  assume ok: "generations_ok s"
  have at: "op_at ?s = op_at s" by (simp add: op_at_def fun_eq_iff)
  have made: "made ?s i q \<longleftrightarrow> made s i q" for i q by (simp add: made_def at)
  have keep: "map_of (st_heads ?s) u = Some old" if "map_of (st_heads s) u = Some old" for u old
    using that new by auto
  have "generations_ok ?s"
    unfolding generations_ok_def made at
  proof (intro conjI allI impI)
    show "op_version p = op_expected p + 1" if "op_at s k = Some p" for k p
      by (rule generations_okD(1)[OF ok that])
    show "\<exists>old. map_of (st_heads ?s) (op_target p) = Some old \<and> op_version p \<le> rh_version old"
      if "made s k p" for k p using generations_okD(2)[OF ok that] keep by blast
    show "k = i" if "made s k p" "made s i q" "op_target p = op_target q" "op_version p = op_version q"
      for k p i q by (rule generations_okD(3)[OF ok that])
  qed
  moreover have "heads_le s ?s" using keep by (auto simp: heads_le_def)
  ultimately show "generations_ok ?s \<and> heads_le s ?s" by blast
qed

lemma transp_calm: "transp calm"
  by (rule transpI, rule calm_trans)

lemma transp_sound: "transp sound"
  by (rule transpI, rule sound_trans)

lemma then_rel:
  assumes "transp R" "R s (snd r)" "\<And>x t. r = (Inr x, t) \<Longrightarrow> R t (snd (k x t))"
  shows "R s (snd (and_then r k))"
proof (cases r)
  case (Pair y t)
  then show ?thesis using assms transpD[OF assms(1)] by (cases y) fastforce+
qed

lemmas calm_then = then_rel[OF transp_calm]
lemmas sound_then = then_rel[OF transp_sound]

lemma calm_fault [simp]: "calm s (snd (fault h g n s))"
  by simp

lemma calm_digest: "calm s (snd (operation_item_digest jn k i s))"
  by (simp add: operation_item_digest_def calm_blocked split: sum.splits)

lemma calm_remove_staging: "calm s (snd (remove_staging raw s))"
  by (simp add: remove_staging_def calm_tree split: sum.splits option.splits node.splits)

lemma calm_replace_one: "calm s (snd (replace_one h i s))"
proof -
  obtain r s' where r: "replace_one h i s = (r, s')" by fastforce
  show ?thesis using replace_one_keeps[OF r] by (simp add: r calm_tree)
qed

lemma calm_apply_items: "calm s (snd (apply_items jn h k its s))"
proof (induction its arbitrary: s)
  case (Cons i its)
  show ?case
    unfolding apply_items.simps
    by (intro calm_then calm_digest) (auto intro: calm_then calm_remove_staging calm_replace_one calm_blocked Cons.IH)
qed simp

lemma calm_advance:
  assumes "advance_operation k st s = Inr s'" "st \<noteq> Op_Done"
  shows "calm s s'"
proof -
  obtain p where "map_of (st_ops s) k = Some p" "op_state p \<in> {Op_Prepared, Op_Fs_Applied}"
    "s' = put_operation k (p\<lparr>op_state := st\<rparr>) s"
    using assms(1) by (auto simp: advance_operation_def split: option.splits if_splits)
  then show ?thesis using calm_put[of s k p st] assms(2) by auto
qed

lemma calm_apply_replace: "calm s (snd (apply_replace jn h k s))"
proof (cases "load_operation k s")
  case (Inr p)
  have last: "calm t (snd (case advance_operation k Op_Fs_Applied t of Inl e \<Rightarrow> (Inl e, t) | Inr u \<Rightarrow> (Inr (), u)))" for t
    by (auto split: sum.splits intro: calm_advance)
  show ?thesis
    using Inr by (auto simp: apply_replace_def intro!: calm_then calm_apply_items last)
qed (simp add: apply_replace_def)

lemma calm_verify_items: "calm s (snd (verify_items jn k its s))"
proof (induction its arbitrary: s)
  case (Cons i its)
  show ?case
    unfolding verify_items.simps
    by (intro calm_then calm_digest) (auto intro: calm_then calm_blocked Cons.IH)
qed simp

lemma load_operation_at:
  assumes "load_operation k s = Inr p"
  obtains q where "map_of (st_ops s) k = Some q" "p = q\<lparr>op_items := op_items p\<rparr>"
  using assms by (auto simp: load_operation_def bind_res_Inr_iff split: if_splits option.splits)

lemma commit_items [simp]: "commit_replacement k (p\<lparr>op_items := its\<rparr>) s = commit_replacement k p s"
  by (simp add: commit_replacement_def split: option.split)

lemma calm_unchanged_items: "calm s (snd (unchanged_items jn k its s))"
proof (induction its arbitrary: s)
  case (Cons i its)
  show ?case using Cons.IH by (auto intro!: calm_then calm_digest)
qed simp

lemma calm_reversible: "calm s (snd (replacement_is_reversible jn k s))"
  using calm_unchanged_items by (auto simp: replacement_is_reversible_def split: sum.splits)

lemma calm_unblock: "calm s (unblock k s)"
  using calm_put[of s k _ Op_Prepared] by (auto simp: unblock_def split: option.splits)

lemma sound_finalize: "sound s (snd (finalize_replace jn h k s))"
proof (cases "load_operation k s")
  case (Inr p)
  obtain q where at: "map_of (st_ops s) k = Some q" and pq: "p = q\<lparr>op_items := op_items p\<rparr>"
    by (rule load_operation_at[OF Inr])
  have last: "sound s (snd (case commit_replacement k p s of
           Inl e \<Rightarrow> (Inl e, s)
         | Inr s3 \<Rightarrow> and_then (fault h After_Finalize None s3) (\<lambda>_ s4.
             case map_of (st_heads s4) (op_target p) of
               None \<Rightarrow> (Inl (Digest_Mismatch ''Finalized resource head is missing.''), s4)
             | Some old \<Rightarrow> (Inr old, s4))))"
  proof (cases "commit_replacement k p s")
    case (Inr s3)
    have "commit_replacement k q s = Inr s3" using Inr pq commit_items by metis
    then have "sound s s3" by (rule commit_sound[OF at])
    then show ?thesis using Inr by (auto simp: and_then_def split: option.splits)
  qed simp
  have body: "sound s (snd (and_then (verify_items jn k (op_items p) s) (\<lambda>actual s1.
         if resource_digest jn actual \<noteq> op_digest p
         then (Inl (Operation_Blocked k), mark_blocked k s1)
         else and_then (fault h Before_Finalize None s1) (\<lambda>_ s2.
         case commit_replacement k p s2 of
           Inl e \<Rightarrow> (Inl e, s2)
         | Inr s3 \<Rightarrow> and_then (fault h After_Finalize None s3) (\<lambda>_ s4.
             case map_of (st_heads s4) (op_target p) of
               None \<Rightarrow> (Inl (Digest_Mismatch ''Finalized resource head is missing.''), s4)
             | Some old \<Rightarrow> (Inr old, s4)))))) "
  proof (rule sound_then)
    show "sound s (snd (verify_items jn k (op_items p) s))" by (rule calm_sound[OF calm_verify_items])
    fix actual t assume "verify_items jn k (op_items p) s = (Inr actual, t)"
    then have t: "t = s" by (simp add: verify_items_Inr)
    show "sound t (snd (if resource_digest jn actual \<noteq> op_digest p
         then (Inl (Operation_Blocked k), mark_blocked k t)
         else and_then (fault h Before_Finalize None t) (\<lambda>_ s2.
         case commit_replacement k p s2 of
           Inl e \<Rightarrow> (Inl e, s2)
         | Inr s3 \<Rightarrow> and_then (fault h After_Finalize None s3) (\<lambda>_ s4.
             case map_of (st_heads s4) (op_target p) of
               None \<Rightarrow> (Inl (Digest_Mismatch ''Finalized resource head is missing.''), s4)
             | Some old \<Rightarrow> (Inr old, s4)))))"
      unfolding t using last calm_sound[OF calm_blocked] by simp
  qed
  show ?thesis using Inr body by (simp add: finalize_replace_def)
qed (simp add: finalize_replace_def)

lemma sound_recover: "sound s (snd (recover_replace jn h k s))"
proof (cases "load_operation k s")
  case (Inr p)
  have both: "sound t (snd (and_then (apply_replace jn h k t) (\<lambda>_ u. finalize_replace jn h k u)))" for t
    by (rule sound_then[OF calm_sound[OF calm_apply_replace] sound_finalize])
  have "sound s (unblock k s)" by (rule calm_sound[OF calm_unblock])
  then show ?thesis
    using Inr both sound_trans both by (auto simp: recover_replace_def Let_def)
qed (simp add: recover_replace_def)

lemma sound_reserve: "sound s (snd (reserve_replace jn h k t v rs q s))"
proof (cases "prepare_replace jn (st_tree s) t v rs q")
  case (Inr p)
  have p: "op_version p = op_expected p + 1" "op_state p \<noteq> Op_Done"
    using Inr by (auto simp: prepare_replace_def bind_res_Inr_iff split: if_splits)
  have "sound s s1" if "reserve_prepared k p s = Inr (i, s1)" for i s1
  proof (cases "s1 = s")
    case False
    then have "s1 = s\<lparr>st_ops := dict_set k (staged k p) (st_ops s)\<rparr>" "map_of (st_ops s) k = None"
      using that by (auto simp: reserve_prepared_def split: option.splits if_splits)
    then show ?thesis using new_op_sound[of s k "staged k p"] p by (simp add: staged_def)
  qed simp
  then show ?thesis
    using Inr by (auto simp: reserve_replace_def split: sum.splits)
qed (simp add: reserve_replace_def)

lemma sound_bootstrap:
  assumes "bootstrap_head jn t p v ps d tr s = Inr (head, s')"
  shows "sound s s'"
proof (cases "s' = s")
  case False
  then have "s' = s\<lparr>st_heads := dict_set t head (st_heads s)\<rparr>" "map_of (st_heads s) t = None"
    using assms by (auto simp: bootstrap_head_def bind_res_Inr_iff Let_def split: option.splits if_splits)
  then show ?thesis using new_head_sound by blast
qed simp

lemma sound_abort: "sound s (abort_prepared k s)"
proof (rule calm_sound)
  show "calm s (abort_prepared k s)"
    using calm_put[of s k _ Op_Aborted] by (auto simp: abort_prepared_def split: option.splits)
qed

lemma sound_step: "sound s (storage_step jn s c)"
proof -
  obtain h a where c: "c = (h, a)" by fastforce
  show ?thesis
  proof (cases a)
    case (Bootstrap t p v ps d tr)
    then show ?thesis using sound_bootstrap[of jn t p v ps d tr s] by (auto simp: c split: sum.splits)
  next
    case (Change_Files t)
    then show ?thesis using calm_sound[OF calm_tree, of "s\<lparr>st_tree := t\<rparr>" s] by (simp add: c)
  qed (use sound_reserve calm_sound[OF calm_apply_replace] calm_sound[OF calm_reversible] sound_finalize sound_recover
      sound_abort in \<open>simp_all add: c\<close>)
qed

text \<open>A component whose operations only move its state forward.\<close>

locale forward_component = component step inv
  for step :: "'s \<Rightarrow> 'op \<Rightarrow> 's" and inv :: "'s \<Rightarrow> bool" +
  fixes forward :: "'s \<Rightarrow> 's \<Rightarrow> bool"
  assumes forward_refl: "forward s s"
    and forward_trans: "forward a b \<Longrightarrow> forward b c \<Longrightarrow> forward a c"
    and step_forward: "inv s \<Longrightarrow> forward s (step s oper)"
begin

lemma run_forward: "inv s \<Longrightarrow> forward s (foldl step s ops)"
proof (induction ops arbitrary: s)
  case Nil
  show ?case by (simp add: forward_refl)
next
  case (Cons a ops)
  show ?case
    using Cons.IH[OF step_inv[OF Cons.prems]] step_forward[OF Cons.prems] by (auto intro: forward_trans)
qed

end

interpretation storage: forward_component "storage_step jn" generations_ok heads_le for jn
proof unfold_locales
  show "generations_ok (storage_step jn s c)" if "generations_ok s" for s c
    using sound_step that by blast
  show "heads_le s (storage_step jn s c)" if "generations_ok s" for s c
    using sound_step that by blast
qed (simp, rule heads_le_trans)

lemma empty_storage_ok: "generations_ok (empty_storage t)"
  by (simp add: generations_ok_def made_def op_at_def empty_storage_def)

text \<open>C14. Whatever processes, faults, recoveries and foreign changes of files do, every generation
  of a resource was made by one operation, and its head is not behind any of them.\<close>

theorem generations_are_unique:
  assumes "op_at (storage_run jn cs (empty_storage t)) k = Some p" "op_state p = Op_Done"
    "op_at (storage_run jn cs (empty_storage t)) i = Some q" "op_state q = Op_Done"
    "op_target q = op_target p" "i \<noteq> k"
  shows "op_version q \<noteq> op_version p \<and>
    (\<exists>head. map_of (st_heads (storage_run jn cs (empty_storage t))) (op_target p) = Some head \<and>
       op_version p \<le> rh_version head \<and> op_version q \<le> rh_version head)"
proof -
  have ok: "generations_ok (storage_run jn cs (empty_storage t))"
    unfolding storage_run_def by (rule storage.run_inv[OF empty_storage_ok])
  have m: "made (storage_run jn cs (empty_storage t)) k p" "made (storage_run jn cs (empty_storage t)) i q"
    using assms by (simp_all add: made_def)
  show ?thesis
    using generations_okD(2)[OF ok m(1)] generations_okD(2)[OF ok m(2)]
      generations_okD(3)[OF ok m(2,1)] assms(5,6) by auto
qed

text \<open>C33. From an empty database, whatever operations of any process, faults, recoveries, aborts and
  foreign changes of files have run (\<open>cs\<close>) and whatever runs afterwards (\<open>ds\<close>): a resource that has
  a committed head keeps one, its version never goes back, and a version stands for one content and
  primary path, so the head is the same as before or its version is higher.\<close>

theorem heads_only_move_forward:
  assumes "map_of (st_heads (storage_run jn cs (empty_storage t))) r = Some old"
  shows "\<exists>new. map_of (st_heads (storage_run jn (cs @ ds) (empty_storage t))) r = Some new \<and>
    rh_version old \<le> rh_version new \<and> (rh_version new = rh_version old \<longrightarrow> new = old)"
proof -
  let ?s = "storage_run jn cs (empty_storage t)"
  have "generations_ok ?s"
    unfolding storage_run_def by (rule storage.run_inv[OF empty_storage_ok])
  then have "heads_le ?s (foldl (storage_step jn) ?s ds)" by (rule storage.run_forward)
  moreover have "foldl (storage_step jn) ?s ds = storage_run jn (cs @ ds) (empty_storage t)"
    by (simp add: storage_run_def)
  ultimately show ?thesis using assms unfolding heads_le_def by metis
qed

definition two_generations :: "(fault_hook \<times> storage_command) list" where
  "two_generations = map (Pair no_faults)
     [Bootstrap answers ''a.json'' 0 None None Map.empty,
      Reserve ''one'' answers 0 [(''a.json'', ''1'')] None, Apply ''one'', Finalize ''one'',
      Reserve ''two'' answers 1 [(''a.json'', ''2'')] None, Apply ''two'', Finalize ''two'']"

lemma two_generations_end:
  "map_option (\<lambda>p. (op_state p, op_version p, op_target p = answers))
     (op_at (storage_run plain_journal two_generations (empty_storage Map.empty)) ''one'') = Some (Op_Done, 1, True)"
  "map_option (\<lambda>p. (op_state p, op_version p, op_target p = answers))
     (op_at (storage_run plain_journal two_generations (empty_storage Map.empty)) ''two'') = Some (Op_Done, 2, True)"
  "map_option rh_version (map_of (st_heads (storage_run plain_journal two_generations (empty_storage Map.empty))) answers) = Some 2"
  by code_simp+

theorem generations_are_unique_witness:
  "\<exists>p q. op_at (storage_run plain_journal two_generations (empty_storage Map.empty)) ''one'' = Some p \<and>
     op_at (storage_run plain_journal two_generations (empty_storage Map.empty)) ''two'' = Some q \<and>
     op_version q \<noteq> op_version p"
proof -
  obtain p where p: "op_at (storage_run plain_journal two_generations (empty_storage Map.empty)) ''one'' = Some p"
    "op_state p = Op_Done" "op_target p = answers"
    using two_generations_end(1) by auto
  obtain q where q: "op_at (storage_run plain_journal two_generations (empty_storage Map.empty)) ''two'' = Some q"
    "op_state q = Op_Done" "op_target q = answers"
    using two_generations_end(2) by auto
  have "op_version q \<noteq> op_version p"
    using generations_are_unique[OF p(1,2) q(1,2)] p(3) q(3) by simp
  then show ?thesis using p q by blast
qed

theorem heads_only_move_forward_witness:
  "\<exists>old new. map_of (st_heads (storage_run plain_journal two_generations (empty_storage Map.empty))) answers = Some old \<and>
     map_of (st_heads (storage_run plain_journal (two_generations @ [(no_faults, Recover_Op ''two'')])
       (empty_storage Map.empty))) answers = Some new \<and> rh_version old = 2 \<and> 2 \<le> rh_version new"
proof -
  obtain old where old: "map_of (st_heads (storage_run plain_journal two_generations (empty_storage Map.empty))) answers = Some old"
    "rh_version old = 2"
    using two_generations_end(3) by auto
  show ?thesis
    using heads_only_move_forward[OF old(1), of "[(no_faults, Recover_Op ''two'')]"] old by auto
qed

section \<open>Undoing a reservation while it is applied\<close>

lemma same_digests:
  assumes "distinct (map it_path its)" "distinct (map it_path js)" "it_path ` set its = it_path ` set js"
    "\<And>i. i \<in> set its \<Longrightarrow> digest_path jn t (it_path i) = Inr (f i)"
    "\<And>j. j \<in> set js \<Longrightarrow> digest_path jn t (it_path j) = Inr (g j)"
  shows "resource_digest jn (map (\<lambda>i. (it_path i, f i)) its) = resource_digest jn (map (\<lambda>j. (it_path j, g j)) js)"
proof -
  let ?l = "map (\<lambda>i. (it_path i, f i)) its" and ?r = "map (\<lambda>j. (it_path j, g j)) js"
  have vals: "f i = g j" if "i \<in> set its" "j \<in> set js" "it_path i = it_path j" for i j
    using assms(4)[OF that(1)] assms(5)[OF that(2)] that(3) by simp
  have image_eq: "set ?l = set ?r"
  proof (rule set_eqI, rule iffI)
    fix x assume "x \<in> set ?l"
    then obtain i where i: "i \<in> set its" "x = (it_path i, f i)" by auto
    then obtain j where "j \<in> set js" "it_path j = it_path i" using assms(3) by (metis imageE imageI)
    then show "x \<in> set ?r" using i vals[of i j] by force
  next
    fix x assume "x \<in> set ?r"
    then obtain j where j: "j \<in> set js" "x = (it_path j, g j)" by auto
    then obtain i where "i \<in> set its" "it_path i = it_path j" using assms(3) by (metis imageE imageI)
    then show "x \<in> set ?l" using j vals[of i j] by force
  qed
  have fsts: "map fst ?l = map it_path its" "map fst ?r = map it_path js" by (simp_all add: comp_def)
  have "distinct ?l" "distinct ?r" using assms(1,2) fsts by (metis distinct_map)+
  then have "mset ?l = mset ?r" using image_eq set_eq_iff_mset_eq_distinct by blast
  moreover have "inj_on fst (set ?l)" using assms(1) fsts(1) by (metis distinct_map)
  ultimately have "sort_key fst ?l = sort_key fst ?r" by (rule sort_key_eq_sort_key)
  then show ?thesis unfolding resource_digest_def by simp
qed

text \<open>What a reservation of the same files finds: the digest of what is in place.\<close>

lemma prepare_replace_base:
  assumes "prepare_replace jn t target v rs q = Inr p"
  obtains qs where "normalize_replacements jn rs = Inr qs" "it_path ` set (op_items p) = fst ` set qs"
    "distinct (map it_path (op_items p))" "op_target p = target" "op_request p = q"
    "\<forall>i \<in> set (op_items p). digest_path jn t (it_path i) = Inr (it_base i)"
    "op_base p = resource_digest jn (map (\<lambda>i. (it_path i, it_base i)) (op_items p))"
    "op_digest p = resource_digest jn (map (\<lambda>i. (it_path i, it_target i)) (op_items p))"
    "op_state p = Op_Prepared"
proof -
  obtain its where its: "prepare_items jn t rs = Inr its"
    "p = \<lparr>op_target = target, op_expected = v, op_version = v + 1,
          op_base = resource_digest jn (map (\<lambda>i. (it_path i, it_base i)) its),
          op_digest = resource_digest jn (map (\<lambda>i. (it_path i, it_target i)) its),
          op_request = q, op_state = Op_Prepared, op_items = its\<rparr>"
    using assms by (auto simp: prepare_replace_def bind_res_Inr_iff split: if_splits)
  obtain qs where qs: "normalize_replacements jn rs = Inr qs" "build_items jn t 0 (sort_key fst qs) = Inr its"
    using its(1) by (auto simp: prepare_items_def bind_res_Inr_iff split: if_splits)
  have "set (map it_path its) = set (map fst (sort_key fst qs))" by (simp only: build_items_ok(1)[OF qs(2)])
  then have "it_path ` set its = fst ` set qs" by simp
  then show thesis using that[OF qs(1)] prepare_items_ok(2,4)[OF its(1)] its(2) by simp
qed

lemma no_request_after_put:
  assumes "map_of (st_ops s) k = Some q" "op_request q' = op_request q"
    and "Option.bind request (operation_for_request s) = None"
  shows "Option.bind request (operation_for_request (put_operation k q' s)) = None"
proof (cases request)
  case (Some r)
  have "op_request x \<noteq> Some r" if "(i, x) \<in> set (st_ops s)" for i x
    using assms(3) that Some by (force simp: operation_for_request_def find_None_iff)
  moreover have "(k, q) \<in> set (st_ops s)" using assms(1) by (rule map_of_SomeD)
  ultimately have "\<forall>x \<in> set (dict_set k q' (st_ops s)). op_request (snd x) \<noteq> Some r"
    using assms(2) set_dict_set_subset[of k q' "st_ops s"] by fastforce
  then show ?thesis using Some by (force simp: operation_for_request_def put_operation_def find_None_iff)
qed simp

text \<open>A reservation needs the committed digest on disk, or the key of an earlier request.\<close>

lemma reserve_needs_head:
  assumes "prepare_replace jn (st_tree s) target v rs request = Inr p"
    and "Option.bind request (operation_for_request s) = None"
    and "map_of (st_heads s) target = Some head" "rh_digest head \<noteq> op_base p"
  shows "\<exists>e. reserve_replace jn h k target v rs request s = (Inl e, s)"
proof -
  have "op_target p = target" "op_request p = request" using prepare_replace_base[OF assms(1)] by blast+
  then show ?thesis using assms
    by (auto simp: reserve_replace_def reserve_prepared_def split: option.splits)
qed

text \<open>C34. 
  \<open>compensate_approved_answer\<close> asks \<open>replacement_is_reversible\<close> before its transaction and without
  the lock of the operation, so the files can be replaced in between. Take an operation \<open>k\<close> that is
  recorded as prepared while its new files are all in place and the head of its resource is not yet
  their digest, and abort it. The operation is then aborted, the new files and the old head stay, and
  under any faults no reservation of the same files for the resource is accepted: not at any version,
  with any content, without a request key or with one that no operation has. Recovering the operation
  does not help. Both leave the workspace as it is.
\<close>

theorem late_abort_strands_the_resource:
  assumes "prepare_replace jn t0 target v0 rs0 q0 = Inr p"
    and "map_of (st_ops s) k = Some (staged k p)"
    and "\<forall>i \<in> set (op_items p). digest_path jn (st_tree s) (it_path i) = Inr (it_target i)"
    and "map_of (st_heads s) target = Some head" "rh_digest head \<noteq> op_digest p"
    and "\<forall>qs. normalize_replacements jn rs = Inr qs \<longrightarrow> fst ` set qs = it_path ` set (op_items p)"
    and "Option.bind request (operation_for_request s) = None"
  shows "let s' = abort_prepared k s in
     map_option op_state (op_at s' k) = Some Op_Aborted \<and> st_tree s' = st_tree s \<and> st_heads s' = st_heads s \<and>
     (\<exists>e. reserve_replace jn h k' target v rs request s' = (Inl e, s')) \<and>
     (\<exists>e. recover_replace jn h k s' = (Inl e, s'))"
proof -
  let ?q = "(staged k p)\<lparr>op_state := Op_Aborted\<rparr>"
  obtain qs0 where p: "normalize_replacements jn rs0 = Inr qs0" "it_path ` set (op_items p) = fst ` set qs0"
    "distinct (map it_path (op_items p))" "op_target p = target" "op_request p = q0"
    "\<forall>i \<in> set (op_items p). digest_path jn t0 (it_path i) = Inr (it_base i)"
    "op_base p = resource_digest jn (map (\<lambda>i. (it_path i, it_base i)) (op_items p))"
    "op_digest p = resource_digest jn (map (\<lambda>i. (it_path i, it_target i)) (op_items p))"
    "op_state p = Op_Prepared"
    by (rule prepare_replace_base[OF assms(1)])
  have s': "abort_prepared k s = put_operation k ?q s"
    using assms(2) p(9) by (simp add: abort_prepared_def staged_def)
  have reserve: "\<exists>e. reserve_replace jn h k' target v rs request (put_operation k ?q s) =
      (Inl e, put_operation k ?q s)"
  proof (cases "prepare_replace jn (st_tree s) target v rs request")
    case (Inl e)
    then show ?thesis by (simp add: reserve_replace_def put_operation_def)
  next
    case (Inr n)
    obtain qs where n: "normalize_replacements jn rs = Inr qs" "it_path ` set (op_items n) = fst ` set qs"
      "distinct (map it_path (op_items n))" "op_target n = target" "op_request n = request"
      "\<forall>i \<in> set (op_items n). digest_path jn (st_tree s) (it_path i) = Inr (it_base i)"
      "op_base n = resource_digest jn (map (\<lambda>i. (it_path i, it_base i)) (op_items n))"
      "op_digest n = resource_digest jn (map (\<lambda>i. (it_path i, it_target i)) (op_items n))"
      "op_state n = Op_Prepared"
      by (rule prepare_replace_base[OF Inr])
    have same: "it_path ` set (op_items n) = it_path ` set (op_items p)" using assms(6) n(1,2) by simp
    have "op_base n = op_digest p"
      unfolding n(7) p(8)
      by (rule same_digests[OF n(3) p(3) same n(6)[rule_format] assms(3)[rule_format]])
    then have "rh_digest head \<noteq> op_base n" using assms(5) by simp
    moreover have "prepare_replace jn (st_tree (put_operation k ?q s)) target v rs request = Inr n"
      "map_of (st_heads (put_operation k ?q s)) target = Some head"
      using Inr assms(4) by (simp_all add: put_operation_def)
    ultimately show ?thesis
      using reserve_needs_head no_request_after_put[OF assms(2) _ assms(7), of ?q] by simp
  qed
  have recover: "\<exists>e. recover_replace jn h k (put_operation k ?q s) = (Inl e, put_operation k ?q s)"
    by (cases "load_items (op_items (staged k p))") (auto simp: recover_replace_def load_operation_def put_operation_def)
  show ?thesis
    using reserve recover by (simp add: s' op_at_def) (simp add: put_operation_def)
qed

definition raced :: storage where
  "raced = snd (apply_replace plain_journal (crash_at After_Apply) ''one'' reserved)"

lemma raced_files:
  "fst (replacement_is_reversible plain_journal ''one'' reserved) = Inr True"
  "map_of (st_ops raced) ''one'' = Some (staged ''one'' first_operation)"
  "st_tree raced ''a.json'' = Some (File ''1'')"
  "map_option rh_digest (map_of (st_heads raced) answers) = Some ''a.json=missing;''"
  by code_simp+

theorem late_abort_strands_the_resource_witness:
  "fst (replacement_is_reversible plain_journal ''one'' reserved) = Inr True \<and>
   (let s = abort_prepared ''one'' raced in
      st_tree s ''a.json'' = Some (File ''1'') \<and>
      map_option rh_digest (map_of (st_heads s) answers) = Some ''a.json=missing;'' \<and>
      (\<exists>e. reserve_replace plain_journal no_faults ''two'' answers 0 [(''a.json'', ''2'')] None s = (Inl e, s)) \<and>
      (\<exists>e. recover_replace plain_journal no_faults ''one'' s = (Inl e, s)))"
proof -
  obtain head where head: "map_of (st_heads raced) answers = Some head" "rh_digest head = ''a.json=missing;''"
    using raced_files(4) by auto
  have "\<forall>i \<in> set (op_items first_operation). digest_path plain_journal (st_tree raced) (it_path i) = Inr (it_target i)"
    by code_simp
  moreover have "rh_digest head \<noteq> op_digest first_operation" by (simp add: head first_operation_def)
  moreover have "normalize_replacements plain_journal [(''a.json'', ''2'')] = Inr [(''a.json'', ''2'')]" by code_simp
  ultimately show ?thesis
    using late_abort_strands_the_resource[OF first_operation_prepared raced_files(2) _ head(1),
        of "[(''a.json'', ''2'')]" None no_faults "''two''" 0] raced_files(1,3) head
    by (simp add: Let_def first_operation_def)
qed

end
