(* ===== verification/Spec2Isabelle.thy ===== *)
theory Spec2Isabelle
  imports ExplorationRecovery ReceiptOutbox KillFence InsightProperties Branching
    StatRegistryProperties LlmLedgerProperties JobProperties
    StorageGenerations
begin

text \<open>
  Verification library of the control core of Analyst Copilot: the Python package
  \<open>eda_platform\<close> (paths below are under \<open>src/eda_platform/src/eda_platform/\<close>).

  The program runs long explorations of a dataset with a language model and analysis tools.
  What keeps a run safe is a small core: budgets that admit or refuse each call, a reducer that
  turns an append-only log of events into the state of the run, the journal file that holds the
  log, and recovery after a crash.

  \<^item> \<open>Prelude\<close>: Python values, numbers with infinities, dictionaries as association lists in
    insertion order, results (\<open>Inl\<close> the error), \<open>guarding\<close> (a list of guards before a value).
  \<^item> \<open>Budget\<close> (\<open>core/budget.py\<close>): \<open>SessionBudgetState\<close> as the record
    \<open>session_budget_state\<close>; \<open>reserve\<close>, \<open>settle\<close>, \<open>release\<close>, \<open>mark_uncertain\<close>. A run within its
    reservations never passes a cap, protected shares stay reservable, overruns are recorded
    before they are reported, finished calls are final.
  \<^item> \<open>BudgetSchema\<close> (\<open>schemas/exploration_budget.py\<close>): the pydantic models and validators.
  \<^item> \<open>ExplorationBudget\<close> (\<open>core/exploration_budget.py\<close>): the tool ledger, its snapshots, and
    amendment chains, which only raise caps.
  \<^item> \<open>ExplorationSchema\<close> (\<open>schemas/exploration.py\<close>): events and the loop state with its rules.
  \<^item> \<open>ExplorationJournal\<close> (\<open>core/exploration_journal.py\<close>): the reducer, one definition per event.
    \<open>JournalInvariant\<close> and \<open>JournalConsistency\<close> prove its invariant, \<open>JournalProperties\<close> what a
    log that rebuilds promises: no over-admission, counters that are counts over the log,
    final receipts, a single amendment chain, no new work while paused, and which events are
    always accepted.
  \<^item> \<open>EventJournal\<close> (\<open>core/event_journal.py\<close>): the file, byte by byte. The journal relies on its
    codec (\<open>line_codec\<close>) and on its reducer (the locale \<open>event_reducer\<close>, interpreted on the
    exploration reducer). Appends are atomic and stale executors stay fenced out.
  \<^item> \<open>ExplorationRecovery\<close> (\<open>JsonlExplorationJournal\<close> of \<open>core/exploration_journal.py\<close>, and
    restoring the ledger in \<open>core/exploration_budget.py\<close>): initializing, recovering, amending.

  \<^item> \<open>ReceiptOutbox\<close> (\<open>core/receipt_outbox.py\<close>): the outbox file that makes a receipt commit
    exactly-once, with its crashes; it implements a map of steps (\<open>spec_prepare\<close>,
    \<open>spec_mark\<close>, \<open>spec_commit\<close>), and what is committed stays.

  \<^item> \<open>KillFence\<close> (\<open>core/cancellation.py\<close>): the cancellation context and the token of a
    durable job, as steps of any interleaving. Causes latch, shields defer everything, an
    accepted request reaches every registered interrupt, a lost job fails closed.

  \<^item> \<open>Receipts\<close> (\<open>schemas/receipts.py\<close>): evidence receipts, their validators, the digest that
    makes them tamper-evident, and the witness of the data state.
  \<^item> \<open>Claims\<close> (\<open>schemas/claims.py\<close>): claim bundles and the receipts they cite.
  \<^item> \<open>ClaimLanguage\<close> (\<open>core/claim_language.py\<close>): causal and model wording, its rewriting.
  \<^item> \<open>ClaimGates\<close> (\<open>core/claim_gates.py\<close>): the six exit gates. \<open>ClaimGateProperties\<close>: a bundle
    that passes rests on committed receipts of the run's data state, states only numbers the
    evidence holds, and carries the licences its claims need.
  \<^item> \<open>InsightReducer\<close> (\<open>agents/exploration/reducer.py\<close>,
    \<open>schemas/insights.py\<close>): the ledger of insights.
    \<open>InsightProperties\<close>: the status of an insight follows its recorded evidence, a refutation
    stays, and support counts only when it is independent.
  \<^item> \<open>Candidates\<close> (\<open>schemas/hypotheses.py\<close>, \<open>agents/exploration/candidates.py\<close>): hypotheses, their
    identity, mandatory probes, coverage. \<open>CandidateProperties\<close>: probes and coverage are
    complete, compressing groups keeps what it must.
  \<^item> \<open>Scheduler\<close> (\<open>agents/exploration/scheduler.py\<close>): admission, priority, selection.
    \<open>SchedulerProperties\<close>: a batch holds what may run, is as large as it can be, puts mandatory
    coverage and family quotas first, and does not depend on the order of proposals.
  \<^item> \<open>Branching\<close> (\<open>agents/exploration/branching.py\<close>): the constraints an abandoned line leaves are
    exactly its failures, and the scheduler never chooses such a hypothesis again.
  \<^item> \<open>StatRegistry\<close> (\<open>core/stat_registry.py\<close>): the file that numbers the statistical tests of a
    family. \<open>StatRegistryProperties\<close>: the numbering has no gaps, outcomes are final, a retry
    counts once, and the file implements the registry, crashes included.
  \<^item> \<open>LlmLedger\<close> (\<open>core/llm_ledger.py\<close>): each model call reserves, settles and leaves trace events.
    \<open>LlmLedgerProperties\<close>: a call is on record before it is sent and holds nothing once it ended;
    a run of honest calls is restored from its trace with the budget it had while wall time is left. \<open>Rounding\<close> and
    \<open>Loops\<close> hold what several components share: Python's \<open>round\<close>, loops that may raise.

  \<^item> \<open>JobLifecycle\<close>, \<open>JobRecovery\<close> (\<open>infrastructure/job_lifecycle.py\<close>, the job tables, triggers and
    unique indexes of \<open>core/store.py\<close>, the database part of \<open>core/session_deletion.py\<close>): each call
    is a transaction that returns the new database or raises; \<open>perform\<close> is one call of any process,
    and a list of them any schedule. \<open>JobInvariant\<close> states the invariant of the tables and how a row
    may evolve, \<open>JobTransactions\<close> that every call keeps both (the locale \<open>component\<close>, interpreted on
    \<open>perform\<close>). \<open>JobProperties\<close>: an active job alone owns its run, endings are final and agree
    with the trace, endings succeed, a cancelled job never completes, a held shield and a committed
    kill fence exclude each other, signals reach only the worker, a deleted run takes no job.
  \<^item> \<open>StorageOps\<close> (\<open>core/storage_operations.py\<close>, the abort in \<open>core/semantic_resources.py\<close>): JSON
    files are replaced in three steps, reserve in the database, apply to the files, finalize in the
    database, and a fault hook may stop the code at each of its crash points. \<open>StorageRecovery\<close>:
    which files a replacement touches, and that an interrupted one stays recoverable.
    \<open>StorageProperties\<close>: a reserved replacement completes after any crashes and recoveries, provided
    no replaced path lies below another (reserving does not check it, and such a replacement is
    lost); content it does not know is kept, a head moves only with verified files.
    \<open>StorageGenerations\<close>: over any sequence of operations each generation of a resource has one
    author and heads only move forward (the locale \<open>forward_component\<close>, interpreted on
    \<open>storage_step\<close>); an abort that races with the files strands the resource: no reservation of the
    same files is accepted afterwards.

  Bounds and fuel: Python's integers are \<open>int\<close>, its floats finite rationals, infinities and nan.
  Where the gates convert an integer with \<open>float\<close> it is rounded to 53 bits and overflows from
  \<open>2 ^ 1024\<close> on, as in the code; the rounding of other float arithmetic is not modelled. Seconds
  of the budget schemas are floats too: an infinite one passes the schema, is refused by
  \<open>SessionBudgetPolicy\<close>, and is written to JSON as null, so the codec of the journal is only relied on
  for events without one (\<open>event_storable\<close>). Times are integers. Every function is total, by
  structural recursion or a measure, so no fuel is used. Parameters: the hash of canonical JSON, the JSON codec of events and states, the
  clock, the tokenizer of numbers in a text.

  Not modelled: file locks and fsync (each operation is one atomic step; a crash may cut a
  write at any byte), threads (each critical section or transaction is one step), the tables
  other than those of jobs, runs, their events, deletions and replacements, the files a
  deletion moves, the
  HTTP and agent layers, the sandboxes, and the statistical tools over third-party packages.
\<close>

end
